(* ===== verification/RT_Prelude.thy ===== *)
theory RT_Prelude
  imports Main "HOL-Library.Word" "HOL-Library.Monad_Syntax"
begin

text \<open>
  Shared vocabulary of the development: the integer types of \<open>include/rtdef.h\<close>, its error
  codes and flag constants, the two alignment macros, and the generic facts on words, maps and
  lists that every component uses.

  Widths. \<open>rt_uint8_t\<close>, \<open>rt_uint16_t\<close> and \<open>rt_uint32_t\<close> are the words \<open>u8\<close>, \<open>u16\<close> and
  \<open>u32\<close>; the target is a 32-bit CPU (STM32F10x), so \<open>rt_size_t\<close>, \<open>rt_ubase_t\<close>, \<open>rt_tick_t\<close>
  are \<open>u32\<close> as well. \<open>rt_err_t\<close> is a signed machine integer that only ever holds the few
  constants below, so it is an \<open>int\<close>; an error is returned as its negation, as the C code does.
\<close>

unbundle bit_operations_syntax

type_synonym u8 = "8 word"
type_synonym u16 = "16 word"
type_synonym u32 = "32 word"
type_synonym rt_err_t = int

subsection \<open>Constants of rtdef.h\<close>

abbreviation RT_EOK :: rt_err_t where "RT_EOK \<equiv> 0"
abbreviation RT_ERROR :: rt_err_t where "RT_ERROR \<equiv> 1"
abbreviation RT_ETIMEOUT :: rt_err_t where "RT_ETIMEOUT \<equiv> 2"
abbreviation RT_EFULL :: rt_err_t where "RT_EFULL \<equiv> 3"
abbreviation RT_EEMPTY :: rt_err_t where "RT_EEMPTY \<equiv> 4"
abbreviation RT_ENOMEM :: rt_err_t where "RT_ENOMEM \<equiv> 5"
abbreviation RT_ENOSYS :: rt_err_t where "RT_ENOSYS \<equiv> 6"
abbreviation RT_EBUSY :: rt_err_t where "RT_EBUSY \<equiv> 7"
abbreviation RT_EINTR :: rt_err_t where "RT_EINTR \<equiv> 9"

abbreviation RT_THREAD_INIT :: u8 where "RT_THREAD_INIT \<equiv> 0"
abbreviation RT_THREAD_READY :: u8 where "RT_THREAD_READY \<equiv> 1"
abbreviation RT_THREAD_SUSPEND :: u8 where "RT_THREAD_SUSPEND \<equiv> 2"
abbreviation RT_THREAD_CLOSE :: u8 where "RT_THREAD_CLOSE \<equiv> 4"
abbreviation RT_THREAD_STAT_MASK :: u8 where "RT_THREAD_STAT_MASK \<equiv> 0x0F"

abbreviation RT_TIMER_FLAG_ACTIVATED :: u8 where "RT_TIMER_FLAG_ACTIVATED \<equiv> 1"
abbreviation RT_TIMER_FLAG_PERIODIC :: u8 where "RT_TIMER_FLAG_PERIODIC \<equiv> 2"

abbreviation RT_IPC_FLAG_FIFO :: u8 where "RT_IPC_FLAG_FIFO \<equiv> 0"
abbreviation RT_IPC_FLAG_PRIO :: u8 where "RT_IPC_FLAG_PRIO \<equiv> 1"

abbreviation RT_EVENT_FLAG_AND :: u8 where "RT_EVENT_FLAG_AND \<equiv> 1"
abbreviation RT_EVENT_FLAG_OR :: u8 where "RT_EVENT_FLAG_OR \<equiv> 2"
abbreviation RT_EVENT_FLAG_CLEAR :: u8 where "RT_EVENT_FLAG_CLEAR \<equiv> 4"

text \<open>\<open>RT_TICK_MAX / 2\<close>, the horizon of every wrap-around tick comparison of the kernel.\<close>

abbreviation RT_TICK_HALF :: u32 where "RT_TICK_HALF \<equiv> 0x7FFFFFFF"

subsection \<open>Assertions\<close>

text \<open>\<open>RT_ASSERT\<close> of \<open>include/rtdebug.h\<close>: a failed assertion spins in \<open>rt_assert_handler\<close>, so
  nothing is returned.\<close>

definition rt_assert :: "bool \<Rightarrow> unit option" where
  "rt_assert b = (if b then Some () else None)"

lemma rt_assert_simps [simp]:
  "rt_assert b = Some u \<longleftrightarrow> b" "rt_assert b = None \<longleftrightarrow> \<not> b" "b \<Longrightarrow> rt_assert b = Some ()"
  "rt_assert True = Some ()" "rt_assert False = None"
  by (auto simp: rt_assert_def)

subsection \<open>Alignment macros\<close>

definition RT_ALIGN :: "u32 \<Rightarrow> u32 \<Rightarrow> u32" where
  "RT_ALIGN sz align = (sz + align - 1) AND NOT (align - 1)"

definition RT_ALIGN_DOWN :: "u32 \<Rightarrow> u32 \<Rightarrow> u32" where
  "RT_ALIGN_DOWN sz align = sz AND NOT (align - 1)"

text \<open>\<open>RT_ALIGN_SIZE\<close> is 4 on this 32-bit port.\<close>

abbreviation RT_ALIGN_SIZE :: u32 where "RT_ALIGN_SIZE \<equiv> 4"

subsection \<open>Word facts\<close>

named_theorems flag_simps \<open>reading a flag field after it was written\<close>

lemma replace_masked [flag_simps]:
  fixes c s m :: "'a::len word"
  shows "(c OR (s AND NOT m)) AND m = c AND m"
  by (rule bit_word_eqI) (auto simp: bit_simps)

lemma keep_unmasked [flag_simps]:
  fixes c s m :: "'a::len word"
  shows "(c OR (s AND NOT m)) AND NOT m = (c OR s) AND NOT m"
  by (rule bit_word_eqI) (auto simp: bit_simps)

lemma clear_masked [flag_simps]:
  fixes s m :: "'a::len word"
  shows "(s AND NOT m) AND m = 0"
  by (rule bit_word_eqI) (auto simp: bit_simps)

lemma set_masked [flag_simps]:
  fixes s m :: "'a::len word"
  shows "(s OR m) AND m = m"
  by (rule bit_word_eqI) (auto simp: bit_simps)

text \<open>The same for the thread state nibble, with the constants in the form the simplifier gives them.\<close>

lemma stat_write [flag_simps]: "((c::u8) OR (s AND - 16)) AND 15 = c AND 15"
  using replace_masked[of c s 15] by simp

lemma bit_mask_at:
  "bit (push_bit n (1::u32)) m \<longleftrightarrow> m = n \<and> n < 32"
  by (auto simp: bit_simps)

lemma align_down_nat: "unat (RT_ALIGN_DOWN x 4) = (unat x div 4) * 4"
proof -
  have "RT_ALIGN_DOWN x 4 = push_bit 2 (drop_bit 2 x)"
    unfolding RT_ALIGN_DOWN_def
  proof (rule bit_word_eqI)
    fix n assume "n < LENGTH(32)"
    have m: "(4::u32) - 1 = mask 2" by (simp add: mask_eq_exp_minus_1)
    show "bit (x AND NOT (4 - 1)) n = bit (push_bit 2 (drop_bit 2 x)) n"
      unfolding m using \<open>n < LENGTH(32)\<close> by (auto simp: bit_simps le_add_diff_inverse[of 2 n] simp del: add_2_eq_Suc add_2_eq_Suc')
  qed
  also have "unat \<dots> = (unat x div 4 * 4) mod 2 ^ 32"
    by (simp add: push_bit_eq_mult unat_word_ariths unat_drop_bit_eq drop_bit_eq_div mod_mult_left_eq)
  also have "\<dots> = unat x div 4 * 4"
  proof -
    have "unat x div 4 * 4 \<le> unat x" by simp
    also have "\<dots> < 2 ^ 32" using unsigned_less[of x] by simp
    finally show ?thesis by simp
  qed
  finally show ?thesis .
qed

lemma align_nat:
  "unat (RT_ALIGN x 4) = ((unat x + 3) mod 2 ^ 32 div 4) * 4"
proof -
  have "RT_ALIGN x 4 = RT_ALIGN_DOWN (x + 3) 4"
    by (simp add: RT_ALIGN_def RT_ALIGN_DOWN_def algebra_simps)
  then show ?thesis
    by (simp add: align_down_nat unat_word_ariths)
qed

lemma unat_Suc_less:
  fixes x y :: "'a::len word"
  assumes "x < y"
  shows "unat (x + 1) = Suc (unat x)"
proof -
  have "unat x < unat y" using assms by (simp add: word_less_nat_alt)
  then have "unat x + 1 \<le> unat y" by simp
  also have "unat y < 2 ^ LENGTH('a)" by (rule unsigned_less)
  finally have "unat x + 1 < 2 ^ LENGTH('a)" .
  then show ?thesis by (simp add: unat_word_ariths)
qed

subsection \<open>Positions in a ring\<close>

lemma mod_add_ne:
  fixes a i n k :: nat
  assumes "i < k" "k < n"
  shows "(a + i) mod n \<noteq> (a + k) mod n"
proof
  assume "(a + i) mod n = (a + k) mod n"
  then have "n dvd (a + k) - (a + i)" using assms mod_eq_dvd_iff_nat[of "a + i" "a + k" n] by simp
  then show False using assms by (simp add: nat_dvd_not_less)
qed

lemma mod_step_back: "0 < e \<Longrightarrow> ((a + 1) mod n + (e - 1)) mod n = (a + e) mod (n::nat)"
  by (metis Suc_pred add_Suc_right add_Suc_shift One_nat_def mod_add_left_eq add.commute add_0)

subsection \<open>List facts\<close>

lemma removeAll_notin [simp]: "x \<notin> set xs \<Longrightarrow> removeAll x xs = xs"
  by (rule removeAll_id)

lemma distinct_removeAll_split:
  "distinct (xs @ x # ys) \<Longrightarrow> removeAll x (xs @ x # ys) = xs @ ys"
  by auto

lemma distinct_below:
  assumes "distinct xs" "set xs \<subseteq> {0..<n}"
  shows "length xs \<le> n"
  using card_mono[OF _ assms(2)] distinct_card[OF assms(1)] by simp

lemma last_append_singleton [simp]: "last (xs @ [x]) = x"
  by simp

end
