(* ===== verification/RT_List.thy ===== *)
theory RT_List
  imports RT_Prelude
begin

text \<open>
  The intrusive lists of \<open>include/rtservice.h\<close>: \<open>rt_list_t\<close> (a circular doubly linked list whose
  head is a node like any other) and \<open>rt_slist_t\<close> (a singly linked list). The operations are
  translated store by store over an explicit heap of \<open>next\<close> and \<open>prev\<close> pointers.

  The kernel never looks at the pointers: it keeps each thread, timer and object in at most one
  list per node. \<open>lists_of\<close> relates a heap to the family of abstract lists it holds (one per list
  head, every node in at most one of them, every other node linked to itself), and the refinement
  lemmas show that each pointer operation acts on the family as the list operation that the
  kernel theories use (\<open>rt_list_insert_before\<close> on a head appends, \<open>rt_list_insert_after\<close> on a
  head prepends, \<open>rt_list_remove\<close> deletes the node wherever it is).
\<close>

subsection \<open>Doubly linked lists: the code\<close>

record 'n list_heap =
  lnext :: "'n \<Rightarrow> 'n"
  lprev :: "'n \<Rightarrow> 'n"

definition set_next :: "'n \<Rightarrow> 'n \<Rightarrow> 'n list_heap \<Rightarrow> 'n list_heap" where
  "set_next p q h = h\<lparr>lnext := (lnext h)(p := q)\<rparr>"

definition set_prev :: "'n \<Rightarrow> 'n \<Rightarrow> 'n list_heap \<Rightarrow> 'n list_heap" where
  "set_prev p q h = h\<lparr>lprev := (lprev h)(p := q)\<rparr>"

definition rt_list_init :: "'n \<Rightarrow> 'n list_heap \<Rightarrow> 'n list_heap" where
  "rt_list_init l h = set_next l l (set_prev l l h)"

definition rt_list_insert_after :: "'n \<Rightarrow> 'n \<Rightarrow> 'n list_heap \<Rightarrow> 'n list_heap" where
  "rt_list_insert_after l n h =
     (let h1 = set_prev (lnext h l) n h;
          h2 = set_next n (lnext h1 l) h1;
          h3 = set_next l n h2
      in set_prev n l h3)"

definition rt_list_insert_before :: "'n \<Rightarrow> 'n \<Rightarrow> 'n list_heap \<Rightarrow> 'n list_heap" where
  "rt_list_insert_before l n h =
     (let h1 = set_next (lprev h l) n h;
          h2 = set_prev n (lprev h1 l) h1;
          h3 = set_prev l n h2
      in set_next n l h3)"

definition rt_list_remove :: "'n \<Rightarrow> 'n list_heap \<Rightarrow> 'n list_heap" where
  "rt_list_remove n h =
     (let h1 = set_prev (lnext h n) (lprev h n) h;
          h2 = set_next (lprev h1 n) (lnext h1 n) h1;
          h3 = set_prev n n h2
      in set_next n (lprev h3 n) h3)"

definition rt_list_isempty :: "'n \<Rightarrow> 'n list_heap \<Rightarrow> bool" where
  "rt_list_isempty l h \<longleftrightarrow> lnext h l = l"

text \<open>The loop of \<open>rt_list_len\<close>; it does not return on a corrupted list, so \<open>None\<close> is "does not
  return".\<close>

partial_function (option) rt_list_len_loop :: "'n list_heap \<Rightarrow> 'n \<Rightarrow> 'n \<Rightarrow> nat \<Rightarrow> nat option" where
  "rt_list_len_loop h l p len =
     (if lnext h p \<noteq> l then rt_list_len_loop h l (lnext h p) (len + 1) else Some len)"

definition rt_list_len :: "'n \<Rightarrow> 'n list_heap \<Rightarrow> nat option" where
  "rt_list_len l h = rt_list_len_loop h l l 0"

lemmas list_ops_defs =
  set_next_def set_prev_def rt_list_init_def rt_list_insert_after_def rt_list_insert_before_def
  rt_list_remove_def Let_def

subsection \<open>Rings\<close>

text \<open>\<open>chain h xs\<close>: consecutive nodes of \<open>xs\<close> are linked in both directions.\<close>

fun chain :: "'n list_heap \<Rightarrow> 'n list \<Rightarrow> bool" where
  "chain h [] \<longleftrightarrow> True"
| "chain h [x] \<longleftrightarrow> True"
| "chain h (x # y # zs) \<longleftrightarrow> lnext h x = y \<and> lprev h y = x \<and> chain h (y # zs)"

definition ring :: "'n list_heap \<Rightarrow> 'n \<Rightarrow> 'n list \<Rightarrow> bool" where
  "ring h l ns \<longleftrightarrow> distinct (l # ns) \<and> chain h (l # ns @ [l])"

lemma chain_append_Cons:
  "chain h (xs @ y # zs) \<longleftrightarrow> chain h (xs @ [y]) \<and> chain h (y # zs)"
  by (induction xs rule: induct_list012) auto

lemma chain_snoc2: "chain h (xs @ [y, z]) \<longleftrightarrow> chain h (xs @ [y]) \<and> lnext h y = z \<and> lprev h z = y"
  using chain_append_Cons[of h xs y "[z]"] by simp

lemma chain_frame:
  assumes "chain h xs"
    and "\<And>x. x \<in> set (butlast xs) \<Longrightarrow> lnext h' x = lnext h x"
    and "\<And>x. x \<in> set (tl xs) \<Longrightarrow> lprev h' x = lprev h x"
  shows "chain h' xs"
  using assms
proof (induction xs rule: induct_list012)
  case (3 x y zs)
  have "chain h' (y # zs)"
    using "3.prems" by (intro "3.IH"(2)) (auto dest: list.set_sel(2) split: if_splits)
  with "3.prems" show ?case by auto
qed auto

lemma ring_rotate: "ring h l (xs @ a # ys) \<Longrightarrow> ring h a (ys @ l # xs)"
proof -
  assume r: "ring h l (xs @ a # ys)"
  then have "chain h ((l # xs) @ a # (ys @ [l]))" by (simp add: ring_def)
  then have "chain h ((l # xs) @ [a])" "chain h ((a # ys) @ [l])"
    using chain_append_Cons[of h "l # xs" a "ys @ [l]"] by simp_all
  then have "chain h ((a # ys) @ l # (xs @ [a]))"
    using chain_append_Cons[of h "a # ys" l "xs @ [a]"] by simp
  with r show ?thesis by (auto simp: ring_def)
qed

lemma ring_singleton: "ring h l [] \<longleftrightarrow> lnext h l = l \<and> lprev h l = l"
  by (auto simp: ring_def)

lemma ring_Cons:
  "ring h l (n # ns) \<longleftrightarrow>
     l \<noteq> n \<and> l \<notin> set ns \<and> n \<notin> set ns \<and> distinct ns \<and> lnext h l = n \<and> lprev h n = l
     \<and> chain h (n # ns @ [l])"
  by (auto simp: ring_def)

lemma ring_next: "ring h l ns \<Longrightarrow> lnext h l = hd (ns @ [l])"
  by (cases ns) (auto simp: ring_def)

lemma ring_prev: "ring h l ns \<Longrightarrow> lprev h l = last (l # ns)"
proof (cases ns rule: rev_cases)
  case (snoc ys y)
  assume "ring h l ns"
  then have "chain h ((l # ys) @ [y, l])" by (simp add: ring_def snoc)
  then show ?thesis by (simp add: chain_snoc2 snoc del: append_Cons)
qed (auto simp: ring_def)

lemma ring_frame:
  assumes "ring h l ns"
    and "\<And>x. x \<in> set (l # ns) \<Longrightarrow> lnext h' x = lnext h x \<and> lprev h' x = lprev h x"
  shows "ring h' l ns"
proof -
  have "chain h' (l # ns @ [l])"
  proof (rule chain_frame[where h = h])
    show "chain h (l # ns @ [l])" using assms(1) by (simp add: ring_def)
    show "lnext h' x = lnext h x" if "x \<in> set (butlast (l # ns @ [l]))" for x
      using that assms(2) by (auto simp: butlast_append split: if_splits)
    show "lprev h' x = lprev h x" if "x \<in> set (tl (l # ns @ [l]))" for x
      using that assms(2) by auto
  qed
  with assms(1) show ?thesis by (simp add: ring_def)
qed

subsection \<open>One ring: what each operation does\<close>

lemma ring_init: "ring (rt_list_init l h) l []"
  by (simp add: ring_singleton list_ops_defs)

lemma ring_insert_after:
  assumes "ring h l ns" and "n \<notin> set (l # ns)"
  shows "ring (rt_list_insert_after l n h) l (n # ns)"
proof (cases ns)
  case Nil
  with assms show ?thesis by (auto simp: ring_def list_ops_defs)
next
  case (Cons m ms)
  from assms Cons have d: "distinct (l # m # ms)" and c: "chain h (m # ms @ [l])"
    and nx: "lnext h l = m" and pv: "lprev h m = l" by (auto simp: ring_def)
  let ?h = "rt_list_insert_after l n h"
  have "chain ?h (m # ms @ [l])"
    using c by (rule chain_frame) (use assms d nx Cons in \<open>auto simp: list_ops_defs butlast_append\<close>)
  with d nx pv assms Cons show ?thesis by (auto simp: ring_def list_ops_defs)
qed

lemma insert_before_eq_after_prev:
  assumes "ring h l ns" and "n \<notin> set (l # ns)"
  shows "rt_list_insert_before l n h = rt_list_insert_after (last (l # ns)) n h"
proof -
  let ?p = "last (l # ns)"
  have pv: "lprev h l = ?p" using assms(1) by (rule ring_prev)
  have nx: "lnext h ?p = l"
  proof (cases ns rule: rev_cases)
    case (snoc ys y)
    with assms(1) have "chain h ((l # ys) @ [y, l])" by (simp add: ring_def)
    with snoc show ?thesis by (simp add: chain_snoc2 del: append_Cons)
  qed (use assms(1) in \<open>auto simp: ring_def\<close>)
  have "n \<noteq> l" "n \<noteq> ?p" using assms(2) by (auto split: if_splits)
  with pv nx show ?thesis
    by (auto simp: list_ops_defs fun_eq_iff)
qed

lemma ring_insert_before:
  assumes r: "ring h l ns" and n: "n \<notin> set (l # ns)"
  shows "ring (rt_list_insert_before l n h) l (ns @ [n])"
proof (cases ns rule: rev_cases)
  case Nil
  with ring_insert_after[OF r n] show ?thesis
    by (simp add: insert_before_eq_after_prev[OF r n])
next
  case (snoc ys y)
  from r have "ring h y ([] @ l # ys)" using ring_rotate[of h l ys y "[]"] by (simp add: snoc)
  then have "ring (rt_list_insert_after y n h) y (n # l # ys)"
    using n snoc by (intro ring_insert_after) auto
  then have "ring (rt_list_insert_after y n h) y ([n] @ l # ys)" by simp
  from ring_rotate[OF this] show ?thesis
    by (simp add: insert_before_eq_after_prev[OF r n] snoc)
qed

lemma ring_remove_head:
  assumes r: "ring h l (n # ns)"
  shows "ring (rt_list_remove n h) l ns \<and> ring (rt_list_remove n h) n []"
proof (cases ns)
  case Nil
  with r show ?thesis by (auto simp: ring_def list_ops_defs)
next
  case (Cons m ms)
  let ?h = "rt_list_remove n h"
  from r Cons have d: "distinct (l # n # m # ms)" and c: "chain h (m # ms @ [l])"
    and lk: "lnext h l = n" "lprev h n = l" "lnext h n = m" "lprev h m = n"
    by (auto simp: ring_def)
  have "chain ?h (m # ms @ [l])"
    using c by (rule chain_frame) (use d lk in \<open>auto simp: list_ops_defs butlast_append\<close>)
  with d lk Cons show ?thesis by (auto simp: ring_def list_ops_defs)
qed

lemma ring_remove:
  assumes "ring h l (xs @ n # ys)"
  shows "ring (rt_list_remove n h) l (xs @ ys) \<and> ring (rt_list_remove n h) n []"
proof (cases xs rule: rev_cases)
  case Nil
  with ring_remove_head[of h l n ys] assms show ?thesis by simp
next
  case (snoc zs z)
  from assms have "ring h z ((n # ys) @ l # zs)"
    using ring_rotate[of h l zs z "n # ys"] by (simp add: snoc)
  with ring_remove_head[of h z n "ys @ l # zs"]
  have "ring (rt_list_remove n h) z (ys @ l # zs)" "ring (rt_list_remove n h) n []" by simp_all
  with ring_rotate[of "rt_list_remove n h" z ys l zs] snoc show ?thesis by simp
qed

lemma remove_self_linked:
  "ring h n [] \<Longrightarrow> rt_list_remove n h = h"
  by (auto simp: ring_def list_ops_defs fun_upd_idem)

lemma rt_list_isempty_ring: "ring h l ns \<Longrightarrow> rt_list_isempty l h \<longleftrightarrow> ns = []"
  by (cases ns) (auto simp: ring_def rt_list_isempty_def)

lemma rt_list_len_loop_chain:
  assumes "chain h (p # ns @ [l])" and "l \<notin> set ns"
  shows "rt_list_len_loop h l p k = Some (k + length ns)"
  using assms
proof (induction ns arbitrary: p k)
  case Nil
  then show ?case by (subst rt_list_len_loop.simps) simp
next
  case (Cons a ns)
  then show ?case by (subst rt_list_len_loop.simps) auto
qed

lemma rt_list_len_ring: "ring h l ns \<Longrightarrow> rt_list_len l h = Some (length ns)"
  using rt_list_len_loop_chain[of h l ns l 0] by (simp add: ring_def rt_list_len_def)

subsection \<open>The family of lists held by a heap\<close>

text \<open>
  List heads and intrusive nodes share the address space. A family \<open>L\<close> gives the nodes on the
  list of each head. \<open>lists_of h L\<close>: the heap holds exactly this family, no node is on two
  lists, and a node on none is linked to itself (as \<open>rt_list_init\<close> and \<open>rt_list_remove\<close> leave it).
\<close>

datatype ('h, 'n) lnode = Head 'h | Node 'n

definition on_none :: "('h \<Rightarrow> 'n list) \<Rightarrow> 'n \<Rightarrow> bool" where
  "on_none L n \<longleftrightarrow> (\<forall>l. n \<notin> set (L l))"

definition disjoint_lists :: "('h \<Rightarrow> 'n list) \<Rightarrow> bool" where
  "disjoint_lists L \<longleftrightarrow>
     (\<forall>l. distinct (L l)) \<and> (\<forall>l l' n. n \<in> set (L l) \<longrightarrow> n \<in> set (L l') \<longrightarrow> l = l')"

definition lists_of :: "('h, 'n) lnode list_heap \<Rightarrow> ('h \<Rightarrow> 'n list) \<Rightarrow> bool" where
  "lists_of h L \<longleftrightarrow> disjoint_lists L \<and> (\<forall>l. ring h (Head l) (map Node (L l)))
     \<and> (\<forall>n. on_none L n \<longrightarrow> ring h (Node n) [])"

text \<open>The abstract operations the kernel theories use.\<close>

definition list_append :: "'h \<Rightarrow> 'n \<Rightarrow> ('h \<Rightarrow> 'n list) \<Rightarrow> 'h \<Rightarrow> 'n list" where
  "list_append l n L = L(l := L l @ [n])"

definition list_prepend :: "'h \<Rightarrow> 'n \<Rightarrow> ('h \<Rightarrow> 'n list) \<Rightarrow> 'h \<Rightarrow> 'n list" where
  "list_prepend l n L = L(l := n # L l)"

definition list_delete :: "'n \<Rightarrow> ('h \<Rightarrow> 'n list) \<Rightarrow> 'h \<Rightarrow> 'n list" where
  "list_delete n L = (\<lambda>l. removeAll n (L l))"

lemma list_delete_app [simp]: "list_delete n L l = removeAll n (L l)"
  by (simp add: list_delete_def)

lemma list_delete_none: "on_none L n \<Longrightarrow> list_delete n L = L"
  by (rule ext) (simp add: on_none_def)

lemma on_none_delete [simp]: "on_none (list_delete n L) n"
  by (simp add: on_none_def)

lemma disjoint_delete: "disjoint_lists L \<Longrightarrow> disjoint_lists (list_delete n L)"
  by (auto simp: disjoint_lists_def distinct_removeAll)

lemma disjoint_append: "disjoint_lists L \<Longrightarrow> on_none L n \<Longrightarrow> disjoint_lists (list_append l n L)"
  by (auto simp: disjoint_lists_def on_none_def list_append_def)

lemma disjoint_prepend: "disjoint_lists L \<Longrightarrow> on_none L n \<Longrightarrow> disjoint_lists (list_prepend l n L)"
  by (auto simp: disjoint_lists_def on_none_def list_prepend_def)

lemma on_none_upd:
  "on_none (L(l := ns)) m \<longleftrightarrow> m \<notin> set ns \<and> (\<forall>k. k \<noteq> l \<longrightarrow> m \<notin> set (L k))"
  by (auto simp: on_none_def)

lemma disjoint_upd:
  assumes D: "disjoint_lists L" and d: "distinct ns"
    and s: "\<And>x k. x \<in> set ns \<Longrightarrow> x \<in> set (L l) \<or> x \<notin> set (L k)"
  shows "disjoint_lists (L(l := ns))"
proof -
  have "x \<notin> set (L k)" if "x \<in> set ns" "k \<noteq> l" for x k
    using s[OF that(1), of k] D that(2) by (auto simp: disjoint_lists_def)
  with D d show ?thesis by (simp add: disjoint_lists_def) blast
qed

text \<open>An operation on one ring leaves the rings it shares no node with alone.\<close>

lemma insert_after_frame:
  assumes "ring h l ns" "ring h k ms" "set (k # ms) \<inter> set (n # l # ns) = {}"
  shows "ring (rt_list_insert_after l n h) k ms"
  using assms(2)
proof (rule ring_frame)
  fix x assume "x \<in> set (k # ms)"
  moreover have "lnext h l \<in> set (l # ns)" using ring_next[OF assms(1)] by (cases ns) auto
  ultimately have "x \<noteq> l" "x \<noteq> n" "x \<noteq> lnext h l" using assms(3) by auto
  then show "lnext (rt_list_insert_after l n h) x = lnext h x
    \<and> lprev (rt_list_insert_after l n h) x = lprev h x"
    by (simp add: list_ops_defs)
qed

lemma insert_before_frame:
  assumes "ring h l ns" "ring h k ms" "set (k # ms) \<inter> set (n # l # ns) = {}"
  shows "ring (rt_list_insert_before l n h) k ms"
  using assms(2)
proof (rule ring_frame)
  fix x assume "x \<in> set (k # ms)"
  moreover have "lprev h l \<in> set (l # ns)" using ring_prev[OF assms(1)] by auto
  ultimately have "x \<noteq> l" "x \<noteq> n" "x \<noteq> lprev h l" using assms(3) by auto
  then show "lnext (rt_list_insert_before l n h) x = lnext h x
    \<and> lprev (rt_list_insert_before l n h) x = lprev h x"
    by (simp add: list_ops_defs)
qed

lemma remove_frame:
  assumes "ring h l (xs @ n # ys)" "ring h k ms" "set (k # ms) \<inter> set (l # xs @ n # ys) = {}"
  shows "ring (rt_list_remove n h) k ms"
  using assms(2)
proof (rule ring_frame)
  have r: "ring h n (ys @ l # xs)" using assms(1) by (rule ring_rotate)
  fix x assume "x \<in> set (k # ms)"
  moreover have "lnext h n \<in> set (l # xs @ n # ys)" "lprev h n \<in> set (l # xs @ n # ys)"
    using ring_next[OF r] ring_prev[OF r] by (cases ys; auto)+
  ultimately have "x \<noteq> n" "x \<noteq> lnext h n" "x \<noteq> lprev h n" using assms(3) by auto
  then show "lnext (rt_list_remove n h) x = lnext h x \<and> lprev (rt_list_remove n h) x = lprev h x"
    by (simp add: list_ops_defs)
qed

lemma lists_of_ring: "lists_of h L \<Longrightarrow> ring h (Head l) (map Node (L l))"
  by (simp add: lists_of_def)

lemma lists_of_solo: "lists_of h L \<Longrightarrow> on_none L n \<Longrightarrow> ring h (Node n) []"
  by (simp add: lists_of_def)

lemma lists_of_disjoint: "lists_of h L \<Longrightarrow> disjoint_lists L"
  by (simp add: lists_of_def)

text \<open>Inserting before the head appends to the head's list and changes no other.\<close>

lemma insert_before_refines:
  assumes L: "lists_of h L" and n: "on_none L n"
  shows "lists_of (rt_list_insert_before (Head l) (Node n) h) (list_append l n L)"
proof -
  let ?h = "rt_list_insert_before (Head l) (Node n) h"
  note rl = lists_of_ring[OF L, of l]
  have "ring ?h (Head k) (map Node (list_append l n L k))" for k
  proof (cases "k = l")
    case True
    with ring_insert_before[OF rl, of "Node n"] n show ?thesis
      by (auto simp: list_append_def on_none_def)
  next
    case False
    with n lists_of_disjoint[OF L] have "set (Head k # map Node (L k)) \<inter> set (Node n # Head l # map Node (L l)) = {}"
      by (auto simp: disjoint_lists_def on_none_def)
    with False show ?thesis
      by (simp add: list_append_def insert_before_frame[OF rl lists_of_ring[OF L, of k]])
  qed
  moreover have "ring ?h (Node m) []" if "on_none (list_append l n L) m" for m
  proof -
    from that have m: "on_none L m" "m \<noteq> n" by (auto simp: on_none_def list_append_def split: if_splits)
    then show ?thesis
      by (intro insert_before_frame[OF rl lists_of_solo[OF L]]) (auto simp: on_none_def)
  qed
  ultimately show ?thesis
    using disjoint_append[OF lists_of_disjoint[OF L] n] by (simp add: lists_of_def)
qed

text \<open>Inserting after the head prepends.\<close>

lemma insert_after_refines:
  assumes L: "lists_of h L" and n: "on_none L n"
  shows "lists_of (rt_list_insert_after (Head l) (Node n) h) (list_prepend l n L)"
proof -
  let ?h = "rt_list_insert_after (Head l) (Node n) h"
  note rl = lists_of_ring[OF L, of l]
  have "ring ?h (Head k) (map Node (list_prepend l n L k))" for k
  proof (cases "k = l")
    case True
    with ring_insert_after[OF rl, of "Node n"] n show ?thesis
      by (auto simp: list_prepend_def on_none_def)
  next
    case False
    with n lists_of_disjoint[OF L] have "set (Head k # map Node (L k)) \<inter> set (Node n # Head l # map Node (L l)) = {}"
      by (auto simp: disjoint_lists_def on_none_def)
    with False show ?thesis
      by (simp add: list_prepend_def insert_after_frame[OF rl lists_of_ring[OF L, of k]])
  qed
  moreover have "ring ?h (Node m) []" if "on_none (list_prepend l n L) m" for m
  proof -
    from that have m: "on_none L m" "m \<noteq> n" by (auto simp: on_none_def list_prepend_def split: if_splits)
    then show ?thesis
      by (intro insert_after_frame[OF rl lists_of_solo[OF L]]) (auto simp: on_none_def)
  qed
  ultimately show ?thesis
    using disjoint_prepend[OF lists_of_disjoint[OF L] n] by (simp add: lists_of_def)
qed

text \<open>Inserting before a node of a list puts the new node in front of it.\<close>

lemma insert_before_node_refines:
  assumes L: "lists_of h L" and n: "on_none L n" and a: "L l = xs @ a # ys"
  shows "lists_of (rt_list_insert_before (Node a) (Node n) h) (L(l := xs @ n # a # ys))"
proof -
  let ?h = "rt_list_insert_before (Node a) (Node n) h"
  let ?L = "L(l := xs @ n # a # ys)"
  have ra: "ring h (Node a) (map Node ys @ Head l # map Node xs)"
    using lists_of_ring[OF L, of l] ring_rotate[of h "Head l" "map Node xs" "Node a" "map Node ys"]
    by (simp add: a)
  have nn: "Node n \<notin> set (Node a # map Node ys @ Head l # map Node xs)"
    using n a by (auto simp: on_none_def dest: spec[of _ l])
  have D: "disjoint_lists L" using L by (rule lists_of_disjoint)
  have "ring ?h (Head k) (map Node (?L k))" for k
  proof (cases "k = l")
    case True
    have "ring ?h (Node a) (map Node ys @ Head l # map Node (xs @ [n]))"
      using ring_insert_before[OF ra nn] by simp
    from ring_rotate[OF this] show ?thesis by (simp add: True)
  next
    case False
    have "set (L k) \<inter> set (L l) = {}" using D False by (auto simp: disjoint_lists_def)
    with False n a have "set (Head k # map Node (L k)) \<inter> set (Node n # Node a # map Node ys @ Head l # map Node xs) = {}"
      by (auto simp: on_none_def)
    with False show ?thesis
      by (simp add: insert_before_frame[OF ra lists_of_ring[OF L, of k]])
  qed
  moreover have "ring ?h (Node m) []" if "on_none ?L m" for m
  proof -
    from that have "m \<notin> set (xs @ n # a # ys)" "k \<noteq> l \<Longrightarrow> m \<notin> set (L k)" for k
      unfolding on_none_upd by blast+
    then have m: "on_none L m" "m \<noteq> n"
      using a unfolding on_none_def by (metis in_set_conv_decomp insert_iff list.set(2) set_append Un_iff, simp)
    then have "m \<notin> set (L l)" by (simp add: on_none_def)
    with m a show ?thesis
      by (intro insert_before_frame[OF ra lists_of_solo[OF L m(1)]]) auto
  qed
  moreover have "disjoint_lists ?L"
  proof (rule disjoint_upd[OF D])
    have "distinct (L l)" "n \<notin> set (L l)" using D n by (auto simp: disjoint_lists_def on_none_def)
    then show "distinct (xs @ n # a # ys)" by (auto simp: a)
    show "x \<in> set (L l) \<or> x \<notin> set (L k)" if "x \<in> set (xs @ n # a # ys)" for x k
      using that n a by (auto simp: on_none_def)
  qed
  ultimately show ?thesis by (simp add: lists_of_def)
qed

text \<open>Removing a node takes it off whatever list it is on, and is harmless when it is on none.\<close>

lemma remove_refines:
  assumes L: "lists_of h L"
  shows "lists_of (rt_list_remove (Node n) h) (list_delete n L)"
proof (cases "on_none L n")
  case True
  with remove_self_linked[OF lists_of_solo[OF L True]] L show ?thesis
    by (simp add: list_delete_none)
next
  case False
  then obtain l where "n \<in> set (L l)" by (auto simp: on_none_def)
  then obtain xs ys where l: "L l = xs @ n # ys" by (auto dest: split_list)
  have D: "disjoint_lists L" using L by (rule lists_of_disjoint)
  have rl: "ring h (Head l) (map Node xs @ Node n # map Node ys)"
    using lists_of_ring[OF L, of l] by (simp add: l)
  have other: "k \<noteq> l \<Longrightarrow> n \<notin> set (L k)" for k
    using D l unfolding disjoint_lists_def by (metis in_set_conv_decomp)
  have dn: "n \<notin> set xs" "n \<notin> set ys" using D l by (auto simp: disjoint_lists_def dest: spec[of _ l])
  let ?h = "rt_list_remove (Node n) h"
  have "ring ?h (Head k) (map Node (list_delete n L k))" for k
  proof (cases "k = l")
    case True
    with ring_remove[OF rl] dn l show ?thesis by simp
  next
    case False
    then have "set (L k) \<inter> set (L l) = {}" using D by (auto simp: disjoint_lists_def)
    with False have "set (Head k # map Node (L k)) \<inter> set (Head l # map Node xs @ Node n # map Node ys) = {}"
      by (auto simp: l)
    with False other[OF False] show ?thesis
      by (simp add: remove_frame[OF rl lists_of_ring[OF L, of k]])
  qed
  moreover have "ring ?h (Node m) []" if "on_none (list_delete n L) m" for m
  proof (cases "m = n")
    case True
    with ring_remove[OF rl] show ?thesis by simp
  next
    case False
    with that have m: "on_none L m" by (auto simp: on_none_def)
    with l have "m \<notin> set (xs @ n # ys)" by (metis on_none_def)
    with False show ?thesis
      by (intro remove_frame[OF rl lists_of_solo[OF L m]]) auto
  qed
  ultimately show ?thesis using disjoint_delete[OF D] by (simp add: lists_of_def)
qed

lemma isempty_refines: "lists_of h L \<Longrightarrow> rt_list_isempty (Head l) h \<longleftrightarrow> L l = []"
  using rt_list_isempty_ring[OF lists_of_ring] by fastforce

lemma first_refines: "lists_of h L \<Longrightarrow> L l = n # ns \<Longrightarrow> lnext h (Head l) = Node n"
  using ring_next[OF lists_of_ring, of h L l] by simp

text \<open>The test \<open>tlist.next != tlist.prev\<close> of \<open>rt_thread_yield\<close>: the node has company.\<close>

lemma next_neq_prev_refines:
  assumes L: "lists_of h L" and n: "n \<in> set (L l)"
  shows "lnext h (Node n) \<noteq> lprev h (Node n) \<longleftrightarrow> 2 \<le> length (L l)"
proof -
  obtain xs ys where l: "L l = xs @ n # ys" using n by (auto dest: split_list)
  have r: "ring h (Node n) (map Node ys @ Head l # map Node xs)"
    using ring_rotate[of h "Head l" "map Node xs" "Node n" "map Node ys"] lists_of_ring[OF L, of l]
    by (simp add: l)
  show ?thesis
    using ring_next[OF r] ring_prev[OF r] lists_of_disjoint[OF L] l
    by (cases ys; cases xs rule: rev_cases) (auto simp: disjoint_lists_def dest: spec[of _ l])
qed

subsection \<open>Singly linked lists\<close>

type_synonym 'n slist_heap = "'n \<Rightarrow> 'n option"

definition rt_slist_init :: "'n \<Rightarrow> 'n slist_heap \<Rightarrow> 'n slist_heap" where
  "rt_slist_init l h = h(l := None)"

partial_function (option) slist_last :: "'n slist_heap \<Rightarrow> 'n \<Rightarrow> 'n option" where
  "slist_last h node = (case h node of None \<Rightarrow> Some node | Some m \<Rightarrow> slist_last h m)"

definition rt_slist_append :: "'n \<Rightarrow> 'n \<Rightarrow> 'n slist_heap \<Rightarrow> 'n slist_heap option" where
  "rt_slist_append l n h = do { node \<leftarrow> slist_last h l; Some (h(node \<mapsto> n, n := None)) }"

definition rt_slist_insert :: "'n \<Rightarrow> 'n \<Rightarrow> 'n slist_heap \<Rightarrow> 'n slist_heap" where
  "rt_slist_insert l n h = h(n := h l, l \<mapsto> n)"

partial_function (option) slist_len_loop :: "'n slist_heap \<Rightarrow> 'n option \<Rightarrow> nat \<Rightarrow> nat option" where
  "slist_len_loop h p len = (case p of None \<Rightarrow> Some len | Some m \<Rightarrow> slist_len_loop h (h m) (len + 1))"

definition rt_slist_len :: "'n \<Rightarrow> 'n slist_heap \<Rightarrow> nat option" where
  "rt_slist_len l h = slist_len_loop h (h l) 0"

partial_function (option) slist_before :: "'n slist_heap \<Rightarrow> 'n \<Rightarrow> 'n \<Rightarrow> 'n option" where
  "slist_before h n node =
     (case h node of None \<Rightarrow> Some node | Some m \<Rightarrow> if m = n then Some node else slist_before h n m)"

definition rt_slist_remove :: "'n \<Rightarrow> 'n \<Rightarrow> 'n slist_heap \<Rightarrow> 'n slist_heap option" where
  "rt_slist_remove l n h = do {
     node \<leftarrow> slist_before h n l;
     Some (case h node of None \<Rightarrow> h | Some m \<Rightarrow> h(node := h m)) }"

definition rt_slist_isempty :: "'n \<Rightarrow> 'n slist_heap \<Rightarrow> bool" where
  "rt_slist_isempty l h \<longleftrightarrow> h l = None"

text \<open>\<open>spath h p ns\<close>: from the pointer value \<open>p\<close> the list runs through \<open>ns\<close> to \<open>RT_NULL\<close>.\<close>

fun spath :: "'n slist_heap \<Rightarrow> 'n option \<Rightarrow> 'n list \<Rightarrow> bool" where
  "spath h p [] \<longleftrightarrow> p = None"
| "spath h p (n # ns) \<longleftrightarrow> p = Some n \<and> spath h (h n) ns"

definition slist :: "'n slist_heap \<Rightarrow> 'n \<Rightarrow> 'n list \<Rightarrow> bool" where
  "slist h l ns \<longleftrightarrow> distinct (l # ns) \<and> spath h (h l) ns"

lemma spath_frame:
  "spath h p ns \<Longrightarrow> (\<And>x. x \<in> set ns \<Longrightarrow> h' x = h x) \<Longrightarrow> spath h' p ns"
  by (induction ns arbitrary: p) auto

lemma spath_upd [simp]: "a \<notin> set ns \<Longrightarrow> spath (h(a := v)) p ns \<longleftrightarrow> spath h p ns"
  by (induction ns arbitrary: p) auto

lemma slist_last_path: "spath h (h l) ns \<Longrightarrow> slist_last h l = Some (last (l # ns))"
proof (induction ns arbitrary: l)
  case Nil
  then show ?case by (subst slist_last.simps) simp
next
  case (Cons a ns)
  then show ?case by (subst slist_last.simps) auto
qed

lemma slist_len_path: "spath h p ns \<Longrightarrow> slist_len_loop h p k = Some (k + length ns)"
proof (induction ns arbitrary: p k)
  case Nil
  then show ?case by (subst slist_len_loop.simps) simp
next
  case (Cons a ns)
  then show ?case by (subst slist_len_loop.simps) auto
qed

lemma slist_before_path:
  assumes "spath h (h l) (xs @ n # ys)" "n \<notin> set xs"
  shows "slist_before h n l = Some (last (l # xs))"
  using assms
proof (induction xs arbitrary: l)
  case Nil
  then show ?case by (subst slist_before.simps) simp
next
  case (Cons a xs)
  then show ?case by (subst slist_before.simps) auto
qed

lemma slist_before_absent:
  "spath h (h l) ns \<Longrightarrow> n \<notin> set ns \<Longrightarrow> slist_before h n l = Some (last (l # ns))"
proof (induction ns arbitrary: l)
  case Nil
  then show ?case by (subst slist_before.simps) simp
next
  case (Cons a ns)
  then show ?case by (subst slist_before.simps) auto
qed

lemma spath_last_None: "spath h p ns \<Longrightarrow> ns \<noteq> [] \<Longrightarrow> h (last ns) = None"
  by (induction ns arbitrary: p) auto

lemma spath_split: "spath h p (xs @ ys) \<Longrightarrow> xs \<noteq> [] \<Longrightarrow> spath h (h (last xs)) ys"
  by (induction xs arbitrary: p) (auto split: if_splits)

lemma spath_redirect:
  assumes "spath h p (xs @ zs)" "distinct xs" "xs \<noteq> []"
    and "\<And>x. x \<in> set xs \<Longrightarrow> x \<noteq> last xs \<Longrightarrow> h' x = h x" "spath h' (h' (last xs)) ys"
  shows "spath h' p (xs @ ys)"
  using assms
proof (induction xs arbitrary: p)
  case (Cons a xs)
  show ?case
  proof (cases "xs = []")
    case False
    with Cons.prems have ne: "a \<noteq> last xs" by auto
    with Cons.prems False have "h' a = h a" by auto
    moreover have "spath h' (h a) (xs @ ys)"
      using Cons.prems False ne by (intro Cons.IH) auto
    ultimately show ?thesis using Cons.prems by simp
  qed (use Cons.prems in auto)
qed simp

lemma slist_last_cons: "slist h l ns \<Longrightarrow> spath h (Some l) (l # ns)"
  by (simp add: slist_def)

lemma rt_slist_insert_slist:
  assumes "slist h l ns" "n \<notin> set (l # ns)"
  shows "slist (rt_slist_insert l n h) l (n # ns)"
  using assms by (auto simp: slist_def rt_slist_insert_def)

lemma rt_slist_append_slist:
  assumes s: "slist h l ns" and n: "n \<notin> set (l # ns)"
  shows "\<exists>h'. rt_slist_append l n h = Some h' \<and> slist h' l (ns @ [n])"
proof -
  let ?a = "last (l # ns)"
  let ?h = "h(?a \<mapsto> n, n := None)"
  have "slist_last h l = Some ?a" using s by (intro slist_last_path) (simp add: slist_def)
  then have "rt_slist_append l n h = Some ?h" by (simp add: rt_slist_append_def)
  moreover have "spath ?h (Some l) ((l # ns) @ [n])"
  proof (rule spath_redirect[of h _ "l # ns" "[]"])
    have "?a \<in> set (l # ns)" by (rule last_in_set) simp
    then have "?a \<noteq> n" using n by metis
    then show "spath ?h (?h ?a) [n]" by simp
    show "?h x = h x" if "x \<in> set (l # ns)" "x \<noteq> ?a" for x
      using that n by auto
  qed (use s in \<open>auto simp: slist_def\<close>)
  ultimately show ?thesis using s n by (auto simp: slist_def)
qed

lemma rt_slist_remove_slist:
  assumes s: "slist h l (xs @ n # ys)"
  shows "\<exists>h'. rt_slist_remove l n h = Some h' \<and> slist h' l (xs @ ys)"
proof -
  let ?a = "last (l # xs)"
  have sp: "spath h (Some l) ((l # xs) @ n # ys)" and d: "distinct (l # xs @ n # ys)"
    using s by (auto simp: slist_def)
  then have b: "slist_before h n l = Some ?a"
    by (intro slist_before_path) auto
  have an: "spath h (h ?a) (n # ys)" using spath_split[OF sp] by simp
  have "?a \<in> set (l # xs)" by (rule last_in_set) simp
  with d have aout: "?a \<notin> set (n # ys)" by auto
  let ?h = "h(?a := h n)"
  have "rt_slist_remove l n h = Some ?h" using b an by (simp add: rt_slist_remove_def)
  moreover have "spath ?h (Some l) ((l # xs) @ ys)"
  proof (rule spath_redirect[OF sp])
    show "spath ?h (?h ?a) ys"
      using an aout by simp
  qed (use d in auto)
  ultimately show ?thesis using d by (auto simp: slist_def)
qed

lemma rt_slist_remove_absent:
  assumes s: "slist h l ns" and n: "n \<notin> set ns"
  shows "rt_slist_remove l n h = Some h"
proof -
  have "slist_before h n l = Some (last (l # ns))"
    using s n by (intro slist_before_absent) (auto simp: slist_def)
  moreover have "h (last (l # ns)) = None"
    using spath_last_None[of h "Some l" "l # ns"] s by (simp add: slist_def)
  ultimately show ?thesis by (simp add: rt_slist_remove_def)
qed

lemma rt_slist_len_slist: "slist h l ns \<Longrightarrow> rt_slist_len l h = Some (length ns)"
  using slist_len_path[of h "h l" ns 0] by (simp add: slist_def rt_slist_len_def)

lemma rt_slist_isempty_slist: "slist h l ns \<Longrightarrow> rt_slist_isempty l h \<longleftrightarrow> ns = []"
  by (cases ns) (auto simp: slist_def rt_slist_isempty_def)


text \<open>The nodes reached from a link in at most \<open>n\<close> steps.\<close>

fun walk :: "'n slist_heap \<Rightarrow> nat \<Rightarrow> 'n option \<Rightarrow> 'n list" where
  "walk nxt 0 p = []"
| "walk nxt (Suc n) p = (case p of None \<Rightarrow> [] | Some s \<Rightarrow> s # walk nxt n (nxt s))"

lemma walk_spath: "spath nxt p ns \<Longrightarrow> length ns \<le> n \<Longrightarrow> walk nxt n p = ns"
proof (induction ns arbitrary: p n)
  case Nil
  then show ?case by (cases n) simp_all
next
  case (Cons a ns)
  then show ?case by (cases n) simp_all
qed

end
