(* ===== verification/RT_KService.thy ===== *)
theory RT_KService
  imports RT_Prelude
begin

text \<open>
  Services of \<open>src/kservice.c\<close>: the find-first-set routine on which the scheduler's choice of a
  thread rests.
\<close>

subsection \<open>Find first set\<close>

text \<open>The lookup table, row by row.\<close>

definition lowest_bit_bitmap :: "nat list" where
  "lowest_bit_bitmap = [
     0, 0, 1, 0, 2, 0, 1, 0, 3, 0, 1, 0, 2, 0, 1, 0,
     4, 0, 1, 0, 2, 0, 1, 0, 3, 0, 1, 0, 2, 0, 1, 0,
     5, 0, 1, 0, 2, 0, 1, 0, 3, 0, 1, 0, 2, 0, 1, 0,
     4, 0, 1, 0, 2, 0, 1, 0, 3, 0, 1, 0, 2, 0, 1, 0,
     6, 0, 1, 0, 2, 0, 1, 0, 3, 0, 1, 0, 2, 0, 1, 0,
     4, 0, 1, 0, 2, 0, 1, 0, 3, 0, 1, 0, 2, 0, 1, 0,
     5, 0, 1, 0, 2, 0, 1, 0, 3, 0, 1, 0, 2, 0, 1, 0,
     4, 0, 1, 0, 2, 0, 1, 0, 3, 0, 1, 0, 2, 0, 1, 0,
     7, 0, 1, 0, 2, 0, 1, 0, 3, 0, 1, 0, 2, 0, 1, 0,
     4, 0, 1, 0, 2, 0, 1, 0, 3, 0, 1, 0, 2, 0, 1, 0,
     5, 0, 1, 0, 2, 0, 1, 0, 3, 0, 1, 0, 2, 0, 1, 0,
     4, 0, 1, 0, 2, 0, 1, 0, 3, 0, 1, 0, 2, 0, 1, 0,
     6, 0, 1, 0, 2, 0, 1, 0, 3, 0, 1, 0, 2, 0, 1, 0,
     4, 0, 1, 0, 2, 0, 1, 0, 3, 0, 1, 0, 2, 0, 1, 0,
     5, 0, 1, 0, 2, 0, 1, 0, 3, 0, 1, 0, 2, 0, 1, 0,
     4, 0, 1, 0, 2, 0, 1, 0, 3, 0, 1, 0, 2, 0, 1, 0]"

definition rt_ffs :: "u32 \<Rightarrow> nat" where
  "rt_ffs value =
     (if value = 0 then 0
      else if value AND 0xff \<noteq> 0 then lowest_bit_bitmap ! unat (value AND 0xff) + 1
      else if value AND 0xff00 \<noteq> 0 then lowest_bit_bitmap ! unat (drop_bit 8 (value AND 0xff00)) + 9
      else if value AND 0xff0000 \<noteq> 0 then lowest_bit_bitmap ! unat (drop_bit 16 (value AND 0xff0000)) + 17
      else lowest_bit_bitmap ! unat (drop_bit 24 (value AND 0xff000000)) + 25)"

text \<open>What the scheduler relies on: \<open>lowest_bit v k\<close> says bit \<open>k\<close> is set and no lower one is.\<close>

definition lowest_bit :: "u32 \<Rightarrow> nat \<Rightarrow> bool" where
  "lowest_bit v k \<longleftrightarrow> bit v k \<and> (\<forall>j < k. \<not> bit v j)"

lemma lowest_bit_unique: "lowest_bit v k \<Longrightarrow> lowest_bit v k' \<Longrightarrow> k = k'"
  by (meson lowest_bit_def linorder_neqE_nat)

lemma bitmap_table:
  "list_all (\<lambda>(b, t). b mod 2 ^ t = 0 \<and> b div 2 ^ t mod 2 = 1 \<and> t < 8)
     (tl (zip [0..255::int] lowest_bit_bitmap))"
  by code_simp

lemma length_bitmap: "length lowest_bit_bitmap = 256"
  by code_simp

lemma bitmap_entry:
  assumes "0 < b" "b < 256"
  shows "int b mod 2 ^ (lowest_bit_bitmap ! b) = 0 \<and> odd (int b div 2 ^ (lowest_bit_bitmap ! b))
    \<and> lowest_bit_bitmap ! b < 8"
proof -
  let ?z = "zip [0..255::int] lowest_bit_bitmap"
  have "tl ?z ! (b - 1) = (int b, lowest_bit_bitmap ! b)"
    using assms by (simp add: nth_tl length_bitmap)
  moreover have "tl ?z ! (b - 1) \<in> set (tl ?z)"
    using assms by (intro nth_mem) (simp add: length_bitmap)
  ultimately have "(int b, lowest_bit_bitmap ! b) \<in> set (tl ?z)" by metis
  with bitmap_table show ?thesis unfolding list_all_iff by (auto simp: odd_iff_mod_2_eq_one)
qed

lemma bitmap_byte:
  assumes "0 < b" "b < 256"
  shows "bit b (lowest_bit_bitmap ! b)" "lowest_bit_bitmap ! b < 8"
    and "j < lowest_bit_bitmap ! b \<Longrightarrow> \<not> bit b j"
proof -
  note e = bitmap_entry[OF assms]
  have "bit (int b) (lowest_bit_bitmap ! b)" using e by (simp add: bit_iff_odd)
  then show "bit b (lowest_bit_bitmap ! b)" by (simp add: bit_of_nat_iff_bit)
  show "lowest_bit_bitmap ! b < 8" using e by simp
  assume j: "j < lowest_bit_bitmap ! b"
  have "take_bit (lowest_bit_bitmap ! b) (int b) = 0" using e by (simp add: take_bit_eq_mod)
  with j have "\<not> bit (int b) j" by (metis bit_0_eq bit_take_bit_iff bot_apply bot_bool_def)
  then show "\<not> bit b j" by (simp add: bit_of_nat_iff_bit)
qed

lemma byte_mask: "(0xff::u32) = mask 8"
  by (simp add: mask_eq_exp_minus_1)

text \<open>Byte \<open>k\<close> of the value, as the code extracts it: mask, then shift.\<close>

lemma byte_of_value:
  fixes v :: u32
  assumes "k \<le> 24"
  shows "unat (drop_bit k (v AND push_bit k 0xff)) = unat (take_bit 8 (drop_bit k v))"
proof -
  have "drop_bit k (v AND push_bit k 0xff) = take_bit 8 (drop_bit k v)"
  proof (rule bit_word_eqI)
    fix n assume "n < LENGTH(32)"
    show "bit (drop_bit k (v AND push_bit k 0xff)) n = bit (take_bit 8 (drop_bit k v)) n"
      unfolding byte_mask by (auto simp: bit_simps dest: bit_imp_le_length)
  qed
  then show ?thesis by simp
qed

lemma lowest_bit_of_byte:
  fixes v :: u32
  assumes k: "k \<le> 24" and z: "\<forall>j < k. \<not> bit v j" and nz: "v AND push_bit k 0xff \<noteq> 0"
  shows "lowest_bit v (lowest_bit_bitmap ! unat (drop_bit k (v AND push_bit k 0xff)) + k)"
    and "lowest_bit_bitmap ! unat (drop_bit k (v AND push_bit k 0xff)) < 8"
proof -
  let ?b = "unat (take_bit 8 (drop_bit k v))"
  have bb: "bit ?b j \<longleftrightarrow> j < 8 \<and> bit v (k + j)" for j
    by (auto simp: unsigned_take_bit_eq bit_simps unsigned_drop_bit_eq dest: bit_imp_le_length)
  obtain n where "bit v n" "k \<le> n" "n < k + 8"
    using nz unfolding byte_mask by (auto simp: bit_eq_iff bit_simps)
  then have "bit ?b (n - k)" by (simp add: bb)
  then have pos: "0 < ?b" by (metis bit_0_eq bot_apply bot_bool_def gr0I)
  have "?b = take_bit 8 (unat (drop_bit k v))" by (rule unsigned_take_bit_eq)
  then have "?b < 256" using take_bit_nat_less_exp[of 8 "unat (drop_bit k v)"] by simp
  note tab = bitmap_byte[OF pos this]
  show "lowest_bit v (lowest_bit_bitmap ! unat (drop_bit k (v AND push_bit k 0xff)) + k)"
    unfolding byte_of_value[OF k] lowest_bit_def
  proof (intro conjI allI impI)
    show "bit v (lowest_bit_bitmap ! ?b + k)" using tab(1) by (simp add: bb add.commute)
    fix j assume j: "j < lowest_bit_bitmap ! ?b + k"
    show "\<not> bit v j"
    proof (cases "j < k")
      case False
      with tab(3)[of "j - k"] j have "\<not> bit ?b (j - k)" by simp
      with False tab(2) j show ?thesis by (simp add: bb)
    qed (use z in simp)
  qed
  show "lowest_bit_bitmap ! unat (drop_bit k (v AND push_bit k 0xff)) < 8"
    using tab(2) unfolding byte_of_value[OF k] .
qed

lemma byte_zero_bits:
  fixes v :: u32
  assumes "v AND push_bit k 0xff = 0" "k \<le> j" "j < k + 8"
  shows "\<not> bit v j"
proof
  assume b: "bit v j"
  then have "j < 32" by (auto dest: bit_imp_le_length)
  with b assms(2,3) have "bit (v AND push_bit k 0xff) j" unfolding byte_mask by (auto simp: bit_simps)
  with assms(1) show False by simp
qed

lemma rt_ffs_zero [simp]: "rt_ffs 0 = 0"
  by (simp add: rt_ffs_def)

lemma rt_ffs_lowest_bit:
  assumes "v \<noteq> 0"
  shows "lowest_bit v (rt_ffs v - 1) \<and> 1 \<le> rt_ffs v \<and> rt_ffs v \<le> 32"
proof -
  have m: "push_bit 8 0xff = (0xff00::u32)" "push_bit 16 0xff = (0xff0000::u32)"
    "push_bit 24 0xff = (0xff000000::u32)" "push_bit 0 0xff = (0xff::u32)" by simp_all
  note byte = lowest_bit_of_byte[of 0 v, unfolded m] lowest_bit_of_byte[of 8 v, unfolded m]
    lowest_bit_of_byte[of 16 v, unfolded m] lowest_bit_of_byte[of 24 v, unfolded m]
  have z8: "\<not> bit v j" if "v AND 0xff = 0" "j < 8" for j
    using byte_zero_bits[of v 0 j, unfolded m] that by simp
  have z16: "\<not> bit v j" if "v AND 0xff = 0" "v AND 0xff00 = 0" "j < 16" for j
    using z8 byte_zero_bits[of v 8 j, unfolded m] that by (cases "j < 8") simp_all
  have z24: "\<not> bit v j" if "v AND 0xff = 0" "v AND 0xff00 = 0" "v AND 0xff0000 = 0" "j < 24" for j
    using z16 byte_zero_bits[of v 16 j, unfolded m] that by (cases "j < 16") simp_all
  have top: "v AND 0xff000000 \<noteq> 0" if z: "v AND 0xff = 0" "v AND 0xff00 = 0" "v AND 0xff0000 = 0"
  proof
    assume "v AND 0xff000000 = 0"
    then have "\<not> bit v j" if "j < 32" for j
      using z24[OF z] byte_zero_bits[of v 24 j, unfolded m] that \<open>v AND 0xff000000 = 0\<close> by (cases "j < 24") auto
    then have "v = 0" by (intro bit_word_eqI) simp
    with assms show False by simp
  qed
  consider "v AND 0xff \<noteq> 0"
    | "v AND 0xff = 0" "v AND 0xff00 \<noteq> 0"
    | "v AND 0xff = 0" "v AND 0xff00 = 0" "v AND 0xff0000 \<noteq> 0"
    | "v AND 0xff = 0" "v AND 0xff00 = 0" "v AND 0xff0000 = 0" by blast
  then show ?thesis
  proof cases
    case 1
    with byte(1,2) assms show ?thesis by (simp add: rt_ffs_def add.commute)
  next
    case 2
    with byte(3,4) z8 assms show ?thesis by (simp add: rt_ffs_def add.commute)
  next
    case 3
    with byte(5,6) z16 assms show ?thesis by (simp add: rt_ffs_def add.commute)
  next
    case 4
    with byte(7,8) z24 top assms show ?thesis by (simp add: rt_ffs_def add.commute)
  qed
qed

end
