(* ===== verification/RT_Kernel.thy ===== *)
theory RT_Kernel
  imports RT_List RT_KService
begin

text \<open>
  The state of the kernel: the objects of \<open>include/rtdef.h\<close> and the global variables of
  \<open>src/scheduler.c\<close>, \<open>src/clock.c\<close>, \<open>src/timer.c\<close> and \<open>src/irq.c\<close>.

  Kernel objects are named instead of addressed: a thread by a \<open>tid\<close>, a timer, semaphore, mutex,
  event, mailbox, message queue or memory pool by a number of its own. The \<open>struct rt_object\<close>
  every kernel object starts with is kept in one table, \<open>objs\<close>, indexed by the object's reference.
  A thread's list node \<open>tlist\<close> is on at most one list: the ready list of a priority, the suspend list
  of an IPC object or memory pool, the sender list of a mailbox, the list of defunct threads, or a list of
  the drivers' objects (a completion's, the two of a data queue);
  \<open>tlists\<close> is that family of lists (\<open>RT_List.lists_of\<close> says how the pointers hold it).
\<close>

type_synonym tid = nat

datatype timer_id = ThreadTimer tid | AppTimer nat

datatype obj_ref =
    ObjThread tid | ObjTimer timer_id | ObjSem nat | ObjMutex nat | ObjEvent nat
  | ObjMb nat | ObjMq nat | ObjMp nat

datatype thead = Ready u8 | Suspended obj_ref | Senders nat | Defunct
  | CompletionList nat | PushList nat | PopList nat

text \<open>\<open>struct rt_object\<close> (the name is a byte string of \<open>RT_NAME_MAX\<close> characters).\<close>

record rt_object =
  o_name :: string
  o_type :: u8
  o_flag :: u8

text \<open>\<open>struct rt_timer\<close>: what the timeout calls is the thread's own timeout for the timer built into a
  thread, and a function of the application otherwise.\<close>

datatype timeout_fn = RtThreadTimeout tid | AppTimeout nat nat

record rt_timer =
  tm_func :: timeout_fn
  tm_init_tick :: u32
  tm_timeout_tick :: u32

text \<open>\<open>struct rt_thread\<close>; the built-in timer is the timer \<open>ThreadTimer\<close> of the thread.\<close>

record rt_thread =
  th_entry :: nat
  th_parameter :: nat
  th_stack_addr :: nat
  th_stack_size :: u32
  th_error :: rt_err_t
  th_stat :: u8
  th_current_priority :: u8
  th_init_priority :: u8
  th_number_mask :: u32
  th_event_set :: u32
  th_event_info :: u8
  th_init_tick :: u32
  th_remaining_tick :: u32
  th_cleanup :: "nat option"
  th_user_data :: u32

record rt_semaphore =
  sem_value :: u16

record rt_mutex =
  mtx_value :: u16
  mtx_original_priority :: u8
  mtx_hold :: u8
  mtx_owner :: "tid option"

record rt_event =
  ev_set :: u32

record rt_mailbox =
  mb_pool :: "u32 list"
  mb_size :: u16
  mb_entry :: u16
  mb_in_offset :: u16
  mb_out_offset :: u16

text \<open>A message of a queue is a slot of its pool, named by its index: the link word in front of it
  and the bytes behind.\<close>

record rt_messagequeue =
  mq_next :: "nat \<Rightarrow> nat option"
  mq_data :: "nat \<Rightarrow> u8 list"
  mq_msg_size :: u16
  mq_max_msgs :: u16
  mq_entry :: u16
  mq_head :: "nat option"
  mq_tail :: "nat option"
  mq_free :: "nat option"

text \<open>A block of a memory pool is named by its index; the word in front of it is a free-list link, or
  the address of the pool while the block is allocated.\<close>

datatype mp_header = NextFree "nat option" | PoolPtr nat

record rt_mempool =
  mp_size :: u32
  mp_block_size :: u32
  mp_header :: "nat \<Rightarrow> mp_header"
  mp_block_list :: "nat option"
  mp_total_count :: u32
  mp_free_count :: u32
  mp_suspend_count :: u32

text \<open>What the kernel asks of the processor port: a context switch, from a thread or from an
  interrupt handler (\<open>rt_hw_context_switch\<close>, \<open>rt_hw_context_switch_interrupt\<close>,
  \<open>rt_hw_context_switch_to\<close>).\<close>

datatype hw_call = SwitchTo tid | Switch "tid option" tid | SwitchInterrupt "tid option" tid

record kernel =
  objs :: "obj_ref \<Rightarrow> rt_object"
  obj_lists :: "u8 \<Rightarrow> obj_ref list"
  threads :: "tid \<Rightarrow> rt_thread"
  tlists :: "thead \<Rightarrow> tid list"
  ready_group :: u32
  current_thread :: "tid option"
  current_priority :: u8
  lock_nest :: u16
  interrupt_nest :: u8
  timers :: "timer_id \<Rightarrow> rt_timer"
  timer_list :: "timer_id list"
  tick :: u32
  sems :: "nat \<Rightarrow> rt_semaphore"
  mutexes :: "nat \<Rightarrow> rt_mutex"
  events :: "nat \<Rightarrow> rt_event"
  mailboxes :: "nat \<Rightarrow> rt_mailbox"
  queues :: "nat \<Rightarrow> rt_messagequeue"
  pools :: "nat \<Rightarrow> rt_mempool"
  hw_calls :: "hw_call list"

text \<open>
  Results. An operation returns \<open>None\<close> when it does not return to anybody: a failed \<open>RT_ASSERT\<close> spins
  in \<open>rt_assert_handler\<close>, and \<open>rt_schedule\<close> with an empty ready table dereferences a garbage
  pointer. A blocking call is cut where the caller is switched away: \<open>Wait\<close> says that the caller is
  suspended inside the call, and the rest of the call is a definition of its own.
\<close>

datatype 'a outcome = Ret 'a | Wait

subsection \<open>Updating one object\<close>

definition upd_thread :: "tid \<Rightarrow> (rt_thread \<Rightarrow> rt_thread) \<Rightarrow> kernel \<Rightarrow> kernel" where
  "upd_thread t f k = k\<lparr>threads := (threads k)(t := f (threads k t))\<rparr>"

definition upd_timer :: "timer_id \<Rightarrow> (rt_timer \<Rightarrow> rt_timer) \<Rightarrow> kernel \<Rightarrow> kernel" where
  "upd_timer t f k = k\<lparr>timers := (timers k)(t := f (timers k t))\<rparr>"

definition upd_obj :: "obj_ref \<Rightarrow> (rt_object \<Rightarrow> rt_object) \<Rightarrow> kernel \<Rightarrow> kernel" where
  "upd_obj r f k = k\<lparr>objs := (objs k)(r := f (objs k r))\<rparr>"

abbreviation obj_flag :: "kernel \<Rightarrow> obj_ref \<Rightarrow> u8" where
  "obj_flag k r \<equiv> o_flag (objs k r)"

text \<open>\<open>thread->stat & RT_THREAD_STAT_MASK\<close>.\<close>

definition thread_state :: "kernel \<Rightarrow> tid \<Rightarrow> u8" where
  "thread_state k t = th_stat (threads k t) AND RT_THREAD_STAT_MASK"

lemma upd_sel [simp]:
  "threads (upd_thread t f k) = (threads k)(t := f (threads k t))"
  "timers (upd_timer i g k) = (timers k)(i := g (timers k i))"
  "objs (upd_obj r h k) = (objs k)(r := h (objs k r))"
  by (simp_all add: upd_thread_def upd_timer_def upd_obj_def)

lemma upd_thread_frame [simp]:
  "objs (upd_thread t f k) = objs k" "obj_lists (upd_thread t f k) = obj_lists k"
  "tlists (upd_thread t f k) = tlists k" "ready_group (upd_thread t f k) = ready_group k"
  "current_thread (upd_thread t f k) = current_thread k"
  "current_priority (upd_thread t f k) = current_priority k"
  "lock_nest (upd_thread t f k) = lock_nest k" "interrupt_nest (upd_thread t f k) = interrupt_nest k"
  "timers (upd_thread t f k) = timers k" "timer_list (upd_thread t f k) = timer_list k"
  "tick (upd_thread t f k) = tick k" "sems (upd_thread t f k) = sems k"
  "mutexes (upd_thread t f k) = mutexes k" "events (upd_thread t f k) = events k"
  "mailboxes (upd_thread t f k) = mailboxes k" "queues (upd_thread t f k) = queues k"
  "pools (upd_thread t f k) = pools k" "hw_calls (upd_thread t f k) = hw_calls k"
  by (simp_all add: upd_thread_def)

lemma upd_timer_frame [simp]:
  "objs (upd_timer t f k) = objs k" "obj_lists (upd_timer t f k) = obj_lists k"
  "threads (upd_timer t f k) = threads k"
  "tlists (upd_timer t f k) = tlists k" "ready_group (upd_timer t f k) = ready_group k"
  "current_thread (upd_timer t f k) = current_thread k"
  "current_priority (upd_timer t f k) = current_priority k"
  "lock_nest (upd_timer t f k) = lock_nest k" "interrupt_nest (upd_timer t f k) = interrupt_nest k"
  "timer_list (upd_timer t f k) = timer_list k"
  "tick (upd_timer t f k) = tick k" "sems (upd_timer t f k) = sems k"
  "mutexes (upd_timer t f k) = mutexes k" "events (upd_timer t f k) = events k"
  "mailboxes (upd_timer t f k) = mailboxes k" "queues (upd_timer t f k) = queues k"
  "pools (upd_timer t f k) = pools k" "hw_calls (upd_timer t f k) = hw_calls k"
  by (simp_all add: upd_timer_def)

lemma upd_obj_frame [simp]:
  "timers (upd_obj t f k) = timers k" "obj_lists (upd_obj t f k) = obj_lists k"
  "threads (upd_obj t f k) = threads k"
  "tlists (upd_obj t f k) = tlists k" "ready_group (upd_obj t f k) = ready_group k"
  "current_thread (upd_obj t f k) = current_thread k"
  "current_priority (upd_obj t f k) = current_priority k"
  "lock_nest (upd_obj t f k) = lock_nest k" "interrupt_nest (upd_obj t f k) = interrupt_nest k"
  "timer_list (upd_obj t f k) = timer_list k"
  "tick (upd_obj t f k) = tick k" "sems (upd_obj t f k) = sems k"
  "mutexes (upd_obj t f k) = mutexes k" "events (upd_obj t f k) = events k"
  "mailboxes (upd_obj t f k) = mailboxes k" "queues (upd_obj t f k) = queues k"
  "pools (upd_obj t f k) = pools k" "hw_calls (upd_obj t f k) = hw_calls k"
  by (simp_all add: upd_obj_def)

end
