(* ===== verification/RT_Scheduler.thy ===== *)
theory RT_Scheduler
  imports RT_Kernel
begin

text \<open>
  \<open>src/scheduler.c\<close>, in the build with at most 32 priorities: the ready table (one list per
  priority and a bitmap of the non-empty ones), the choice of the next thread and the scheduler
  lock. \<open>ready_inv\<close> ties lists, bitmap and thread states together; \<open>ready_inv_wo t\<close> is the same
  while thread \<open>t\<close> is in transit between two lists, the form in which the operations of thread.c
  and ipc.c compose.
\<close>

subsection \<open>Operations\<close>

definition rt_system_scheduler_init :: "u8 \<Rightarrow> kernel \<Rightarrow> kernel" where
  "rt_system_scheduler_init prio_max k = k\<lparr>
     lock_nest := 0,
     tlists := (\<lambda>h. case h of Ready p \<Rightarrow> if p < prio_max then [] else tlists k h
                            | Defunct \<Rightarrow> [] | _ \<Rightarrow> tlists k h),
     current_priority := prio_max - 1,
     current_thread := None,
     ready_group := 0\<rparr>"

text \<open>The thread at the front of the ready list that \<open>__rt_ffs\<close> selects. With an empty bitmap the
  index is \<open>-1\<close> and with an empty list the entry is the list head itself: both are \<open>None\<close>.\<close>

definition highest_ready :: "kernel \<Rightarrow> (u8 \<times> tid) option" where
  "highest_ready k =
     (let number = rt_ffs (ready_group k) in
      if number = 0 then None
      else let highest_ready_priority = word_of_nat (number - 1) in
           case tlists k (Ready highest_ready_priority) of
             [] \<Rightarrow> None
           | to_thread # _ \<Rightarrow> Some (highest_ready_priority, to_thread))"

definition rt_system_scheduler_start :: "kernel \<Rightarrow> kernel option" where
  "rt_system_scheduler_start k = do {
     (_, to_thread) \<leftarrow> highest_ready k;
     Some (k\<lparr>current_thread := Some to_thread, hw_calls := SwitchTo to_thread # hw_calls k\<rparr>) }"

definition rt_schedule :: "kernel \<Rightarrow> kernel option" where
  "rt_schedule k =
     (if lock_nest k = 0 then do {
        (highest_ready_priority, to_thread) \<leftarrow> highest_ready k;
        if Some to_thread \<noteq> current_thread k then
          let from_thread = current_thread k in
          Some (k\<lparr>current_priority := highest_ready_priority,
                  current_thread := Some to_thread,
                  hw_calls := (if interrupt_nest k = 0 then Switch from_thread to_thread
                               else SwitchInterrupt from_thread to_thread) # hw_calls k\<rparr>)
        else Some k }
      else Some k)"

definition rt_schedule_insert_thread :: "tid \<Rightarrow> kernel \<Rightarrow> kernel" where
  "rt_schedule_insert_thread t k =
     (let k1 = upd_thread t (\<lambda>th. th\<lparr>th_stat := RT_THREAD_READY OR (th_stat th AND NOT RT_THREAD_STAT_MASK)\<rparr>) k
      in k1\<lparr>tlists := list_append (Ready (th_current_priority (threads k1 t))) t (tlists k1),
            ready_group := ready_group k1 OR th_number_mask (threads k1 t)\<rparr>)"

definition rt_schedule_remove_thread :: "tid \<Rightarrow> kernel \<Rightarrow> kernel" where
  "rt_schedule_remove_thread t k =
     (let k1 = k\<lparr>tlists := list_delete t (tlists k)\<rparr> in
      if tlists k1 (Ready (th_current_priority (threads k1 t))) = []
      then k1\<lparr>ready_group := ready_group k1 AND NOT (th_number_mask (threads k1 t))\<rparr>
      else k1)"

definition rt_enter_critical :: "kernel \<Rightarrow> kernel" where
  "rt_enter_critical k = k\<lparr>lock_nest := lock_nest k + 1\<rparr>"

definition rt_exit_critical :: "kernel \<Rightarrow> kernel option" where
  "rt_exit_critical k =
     (let k1 = k\<lparr>lock_nest := lock_nest k - 1\<rparr> in
      if sint (lock_nest k1) \<le> 0 then rt_schedule (k1\<lparr>lock_nest := 0\<rparr>) else Some k1)"

definition rt_critical_level :: "kernel \<Rightarrow> u16" where
  "rt_critical_level k = lock_nest k"

subsection \<open>The ready-table invariant\<close>

fun head_state :: "thead \<Rightarrow> u8" where
  "head_state (Ready _) = RT_THREAD_READY"
| "head_state (Suspended _) = RT_THREAD_SUSPEND"
| "head_state (Senders _) = RT_THREAD_SUSPEND"
| "head_state Defunct = RT_THREAD_CLOSE"
| "head_state (CompletionList _) = RT_THREAD_SUSPEND"
| "head_state (PushList _) = RT_THREAD_SUSPEND"
| "head_state (PopList _) = RT_THREAD_SUSPEND"

text \<open>The cached bit mask of a thread agrees with its priority, which the bitmap can hold.\<close>

definition mask_ok :: "rt_thread \<Rightarrow> bool" where
  "mask_ok th \<longleftrightarrow> th_current_priority th < 32
     \<and> th_number_mask th = push_bit (unat (th_current_priority th)) 1"

text \<open>Bitmap and lists agree.\<close>

definition bitmap_ok :: "kernel \<Rightarrow> bool" where
  "bitmap_ok k \<longleftrightarrow> (\<forall>p. tlists k (Ready p) \<noteq> [] \<longleftrightarrow> bit (ready_group k) (unat p))"

text \<open>Where a thread is listed and what its state says agree.\<close>

definition thread_ok :: "kernel \<Rightarrow> tid \<Rightarrow> bool" where
  "thread_ok k t \<longleftrightarrow>
     (\<forall>h. t \<in> set (tlists k h) \<longrightarrow> thread_state k t = head_state h)
     \<and> (\<forall>p. t \<in> set (tlists k (Ready p)) \<longleftrightarrow>
          thread_state k t = RT_THREAD_READY \<and> th_current_priority (threads k t) = p)
     \<and> (thread_state k t \<in> {RT_THREAD_READY, RT_THREAD_SUSPEND} \<longrightarrow> mask_ok (threads k t))"

definition ready_inv :: "kernel \<Rightarrow> bool" where
  "ready_inv k \<longleftrightarrow> disjoint_lists (tlists k) \<and> bitmap_ok k \<and> (\<forall>t. thread_ok k t)"

definition ready_inv_wo :: "tid \<Rightarrow> kernel \<Rightarrow> bool" where
  "ready_inv_wo t k \<longleftrightarrow> disjoint_lists (tlists k) \<and> bitmap_ok k \<and> on_none (tlists k) t
     \<and> (\<forall>s. s \<noteq> t \<longrightarrow> thread_ok k s)"

lemma ready_invD:
  assumes "ready_inv k"
  shows "disjoint_lists (tlists k)" "bitmap_ok k" "thread_ok k t"
  using assms by (simp_all add: ready_inv_def)

lemma thread_okD:
  assumes "thread_ok k t"
  shows "t \<in> set (tlists k h) \<Longrightarrow> thread_state k t = head_state h"
    and "t \<in> set (tlists k (Ready p)) \<longleftrightarrow>
          thread_state k t = RT_THREAD_READY \<and> th_current_priority (threads k t) = p"
    and "thread_state k t = RT_THREAD_READY \<or> thread_state k t = RT_THREAD_SUSPEND \<Longrightarrow> mask_ok (threads k t)"
  using assms by (auto simp: thread_ok_def)

lemma on_none_app: "on_none L t \<Longrightarrow> t \<notin> set (L h)"
  by (simp add: on_none_def)

lemma bit_word8_eq: "unat (p::u8) = unat q \<longleftrightarrow> p = q"
  by (simp add: unsigned_word_eqI word_unat_eq_iff)

lemma mask_bit:
  "mask_ok th \<Longrightarrow> bit (th_number_mask th) (unat p) \<longleftrightarrow> p = th_current_priority th"
  by (auto simp: mask_ok_def bit_exp_iff bit_word8_eq word_less_nat_alt)

text \<open>A thread in transit may change in any way.\<close>

lemma ready_inv_wo_upd [simp]: "ready_inv_wo t (upd_thread t f k) \<longleftrightarrow> ready_inv_wo t k"
  by (auto simp: ready_inv_wo_def bitmap_ok_def thread_ok_def thread_state_def)

lemma ready_inv_wo_none: "ready_inv k \<Longrightarrow> on_none (tlists k) t \<Longrightarrow> ready_inv_wo t k"
  by (simp add: ready_inv_wo_def ready_inv_def)

lemma ready_inv_settle:
  assumes "ready_inv_wo t k" "thread_state k t \<noteq> RT_THREAD_READY"
    and "thread_state k t = RT_THREAD_SUSPEND \<Longrightarrow> mask_ok (threads k t)"
  shows "ready_inv k"
proof -
  have "thread_ok k t" using assms by (auto simp: thread_ok_def ready_inv_wo_def on_none_def)
  with assms(1) show ?thesis by (auto simp: ready_inv_def ready_inv_wo_def)
qed

lemma not_ready_on_no_ready_list:
  "ready_inv k \<Longrightarrow> thread_state k t \<noteq> RT_THREAD_READY \<Longrightarrow> t \<notin> set (tlists k (Ready p))"
  using thread_okD(2)[OF ready_invD(3)] by blast

text \<open>Removing a thread from the schedule, whatever its state was.\<close>

lemma remove_thread_sel [simp]:
  "tlists (rt_schedule_remove_thread t k) = list_delete t (tlists k)"
  "threads (rt_schedule_remove_thread t k) = threads k"
  "objs (rt_schedule_remove_thread t k) = objs k"
  "obj_lists (rt_schedule_remove_thread t k) = obj_lists k"
  "current_thread (rt_schedule_remove_thread t k) = current_thread k"
  "current_priority (rt_schedule_remove_thread t k) = current_priority k"
  "lock_nest (rt_schedule_remove_thread t k) = lock_nest k"
  "interrupt_nest (rt_schedule_remove_thread t k) = interrupt_nest k"
  "timers (rt_schedule_remove_thread t k) = timers k"
  "timer_list (rt_schedule_remove_thread t k) = timer_list k"
  "tick (rt_schedule_remove_thread t k) = tick k"
  "sems (rt_schedule_remove_thread t k) = sems k"
  "mutexes (rt_schedule_remove_thread t k) = mutexes k"
  "events (rt_schedule_remove_thread t k) = events k"
  "mailboxes (rt_schedule_remove_thread t k) = mailboxes k"
  "queues (rt_schedule_remove_thread t k) = queues k"
  "pools (rt_schedule_remove_thread t k) = pools k"
  "hw_calls (rt_schedule_remove_thread t k) = hw_calls k"
  by (simp_all add: rt_schedule_remove_thread_def Let_def)

lemma remove_thread_bitmap:
  assumes b: "bitmap_ok k" and m: "mask_ok (threads k t)"
    and only: "\<And>p. t \<in> set (tlists k (Ready p)) \<Longrightarrow> p = th_current_priority (threads k t)"
  shows "bitmap_ok (rt_schedule_remove_thread t k)"
  unfolding bitmap_ok_def
proof
  fix p
  let ?c = "th_current_priority (threads k t)"
  have old: "tlists k (Ready p) \<noteq> [] \<longleftrightarrow> bit (ready_group k) (unat p)"
    using b by (simp add: bitmap_ok_def)
  show "tlists (rt_schedule_remove_thread t k) (Ready p) \<noteq> [] \<longleftrightarrow>
      bit (ready_group (rt_schedule_remove_thread t k)) (unat p)"
  proof (cases "p = ?c")
    case True
    then show ?thesis
      using old mask_bit[OF m, of p] m
      by (auto simp: rt_schedule_remove_thread_def Let_def bit_simps word_less_nat_alt mask_ok_def
          dest: bit_imp_le_length)
  next
    case False
    with only have "t \<notin> set (tlists k (Ready p))" by metis
    then have "removeAll t (tlists k (Ready p)) = tlists k (Ready p)" by simp
    with False show ?thesis
      using old mask_bit[OF m, of p]
      by (auto simp: rt_schedule_remove_thread_def Let_def bit_simps dest: bit_imp_le_length)
  qed
qed

lemma thread_ok_frame:
  assumes "thread_ok k s" "threads k' s = threads k s"
    and "\<And>h. s \<in> set (tlists k' h) \<longleftrightarrow> s \<in> set (tlists k h)"
  shows "thread_ok k' s"
  using assms by (simp add: thread_ok_def thread_state_def)

lemma remove_thread_wo:
  assumes i: "ready_inv k" and m: "mask_ok (threads k t)"
    and f: "th_current_priority (f (threads k t)) = th_current_priority (threads k t)"
           "th_number_mask (f (threads k t)) = th_number_mask (threads k t)"
  shows "ready_inv_wo t (rt_schedule_remove_thread t (upd_thread t f k))"
proof -
  let ?k = "upd_thread t f k"
  have b: "bitmap_ok ?k" using ready_invD(2)[OF i] by (simp add: bitmap_ok_def)
  have m': "mask_ok (threads ?k t)" using m f by (simp add: mask_ok_def)
  have "bitmap_ok (rt_schedule_remove_thread t ?k)"
    using b m' by (rule remove_thread_bitmap)
      (use thread_okD(2)[OF ready_invD(3)[OF i]] f in auto)
  moreover have "thread_ok (rt_schedule_remove_thread t ?k) s" if "s \<noteq> t" for s
    using ready_invD(3)[OF i, of s] by (rule thread_ok_frame) (use that in auto)
  ultimately show ?thesis
    using disjoint_delete[OF ready_invD(1)[OF i]] by (simp add: ready_inv_wo_def)
qed

lemma remove_thread_wo':
  assumes "ready_inv k" "mask_ok (threads k t)"
  shows "ready_inv_wo t (rt_schedule_remove_thread t k)"
proof -
  have "upd_thread t (\<lambda>th. th) k = k" by (simp add: upd_thread_def)
  with remove_thread_wo[OF assms, of "\<lambda>th. th"] show ?thesis by simp
qed

text \<open>Inserting a thread in transit makes it ready.\<close>

lemma insert_thread_sel [simp]:
  "tlists (rt_schedule_insert_thread t k) =
     list_append (Ready (th_current_priority (threads k t))) t (tlists k)"
  "threads (rt_schedule_insert_thread t k) = (threads k)(t := (threads k t)\<lparr>th_stat :=
     RT_THREAD_READY OR (th_stat (threads k t) AND NOT RT_THREAD_STAT_MASK)\<rparr>)"
  "ready_group (rt_schedule_insert_thread t k) = ready_group k OR th_number_mask (threads k t)"
  "objs (rt_schedule_insert_thread t k) = objs k"
  "obj_lists (rt_schedule_insert_thread t k) = obj_lists k"
  "current_thread (rt_schedule_insert_thread t k) = current_thread k"
  "current_priority (rt_schedule_insert_thread t k) = current_priority k"
  "lock_nest (rt_schedule_insert_thread t k) = lock_nest k"
  "interrupt_nest (rt_schedule_insert_thread t k) = interrupt_nest k"
  "timers (rt_schedule_insert_thread t k) = timers k"
  "timer_list (rt_schedule_insert_thread t k) = timer_list k"
  "tick (rt_schedule_insert_thread t k) = tick k"
  "sems (rt_schedule_insert_thread t k) = sems k"
  "mutexes (rt_schedule_insert_thread t k) = mutexes k"
  "events (rt_schedule_insert_thread t k) = events k"
  "mailboxes (rt_schedule_insert_thread t k) = mailboxes k"
  "queues (rt_schedule_insert_thread t k) = queues k"
  "pools (rt_schedule_insert_thread t k) = pools k"
  "hw_calls (rt_schedule_insert_thread t k) = hw_calls k"
  by (simp_all add: rt_schedule_insert_thread_def Let_def)

lemma insert_thread_state [simp]:
  "thread_state (rt_schedule_insert_thread t k) s =
     (if s = t then RT_THREAD_READY else thread_state k s)"
  by (simp add: thread_state_def stat_write)

lemma insert_thread_inv:
  assumes i: "ready_inv_wo t k" and m: "mask_ok (threads k t)"
  shows "ready_inv (rt_schedule_insert_thread t k)"
proof -
  let ?k = "rt_schedule_insert_thread t k" and ?p = "th_current_priority (threads k t)"
  have D: "disjoint_lists (tlists k)" "bitmap_ok k" "on_none (tlists k) t"
    using i by (auto simp: ready_inv_wo_def)
  have "bitmap_ok ?k"
    using D(2) mask_bit[OF m] by (auto simp: bitmap_ok_def list_append_def bit_simps)
  moreover have "thread_ok ?k s" for s
  proof (cases "s = t")
    case True
    have "t \<in> set (tlists ?k h) \<longleftrightarrow> h = Ready ?p" for h
      using D(3) by (auto simp: list_append_def on_none_def)
    with True m show ?thesis by (auto simp: thread_ok_def mask_ok_def)
  next
    case False
    then have "thread_ok k s" using i by (simp add: ready_inv_wo_def)
    then show ?thesis by (rule thread_ok_frame) (use False in \<open>auto simp: list_append_def\<close>)
  qed
  ultimately show ?thesis using disjoint_append[OF D(1,3)] by (simp add: ready_inv_def)
qed

text \<open>Putting a suspended thread that is on no list on a suspend list (at any place).\<close>

lemma suspend_list_inv:
  assumes i: "ready_inv k" and n: "on_none (tlists k) t" and s: "thread_state k t = RT_THREAD_SUSPEND"
    and h: "head_state h = RT_THREAD_SUSPEND"
    and ns: "set ns = insert t (set (tlists k h))" "distinct ns"
  shows "ready_inv (k\<lparr>tlists := (tlists k)(h := ns)\<rparr>)"
proof -
  let ?k = "k\<lparr>tlists := (tlists k)(h := ns)\<rparr>"
  have nr: "h \<noteq> Ready p" for p using h by auto
  have "disjoint_lists (tlists ?k)"
    using disjoint_upd[OF ready_invD(1)[OF i] ns(2), of h] ns(1) n by (auto simp: on_none_def)
  moreover have "bitmap_ok ?k" using ready_invD(2)[OF i] nr by (auto simp: bitmap_ok_def)
  moreover have "thread_ok ?k u" for u
    using ready_invD(3)[OF i, of u] ns(1) s h nr n
    by (auto simp: thread_ok_def thread_state_def on_none_def)
  ultimately show ?thesis by (simp add: ready_inv_def)
qed

subsection \<open>Choosing the next thread\<close>

text \<open>The specification of the choice: a thread at the front of the list of the most urgent
  priority (numerically least) that has a ready thread.\<close>

definition most_urgent :: "kernel \<Rightarrow> tid \<Rightarrow> bool" where
  "most_urgent k t \<longleftrightarrow>
     (\<exists>ts. tlists k (Ready (th_current_priority (threads k t))) = t # ts)
     \<and> thread_state k t = RT_THREAD_READY
     \<and> (\<forall>s. thread_state k s = RT_THREAD_READY \<longrightarrow>
          th_current_priority (threads k t) \<le> th_current_priority (threads k s))"

lemma most_urgent_unique: "most_urgent k t \<Longrightarrow> most_urgent k s \<Longrightarrow> t = s"
proof -
  assume a: "most_urgent k t" "most_urgent k s"
  then have "th_current_priority (threads k t) = th_current_priority (threads k s)"
    unfolding most_urgent_def by (blast intro: order_antisym)
  with a show "t = s" unfolding most_urgent_def by (metis list.inject)
qed

lemma word_of_nat_8: "n < 32 \<Longrightarrow> unat (word_of_nat n :: u8) = n"
  by (simp add: unsigned_of_nat take_bit_eq_mod)

lemma ready_group_nonzero:
  assumes "ready_inv k" "thread_state k s = RT_THREAD_READY"
  shows "bit (ready_group k) (unat (th_current_priority (threads k s)))"
proof -
  have "s \<in> set (tlists k (Ready (th_current_priority (threads k s))))"
    using thread_okD(2)[OF ready_invD(3)[OF assms(1)], of s] assms(2) by simp
  then have "tlists k (Ready (th_current_priority (threads k s))) \<noteq> []" by auto
  with ready_invD(2)[OF assms(1)] show ?thesis by (auto simp: bitmap_ok_def)
qed

lemma highest_ready_some:
  assumes i: "ready_inv k" and s: "thread_state k s = RT_THREAD_READY"
  shows "\<exists>t. highest_ready k = Some (th_current_priority (threads k t), t) \<and> most_urgent k t"
proof -
  let ?g = "ready_group k"
  have "?g \<noteq> 0" using ready_group_nonzero[OF i s] by auto
  note f = rt_ffs_lowest_bit[OF this]
  define n where "n = rt_ffs ?g - 1"
  have lb: "lowest_bit ?g n" and n: "n < 32" "rt_ffs ?g \<noteq> 0" using f unfolding n_def by linarith+
  let ?p = "word_of_nat n :: u8"
  have up: "unat ?p = n" using n(1) by (rule word_of_nat_8)
  have "bit ?g (unat ?p)" using lb by (simp add: up lowest_bit_def)
  then have "tlists k (Ready ?p) \<noteq> []" using ready_invD(2)[OF i] by (simp add: bitmap_ok_def)
  then obtain t ts where l: "tlists k (Ready ?p) = t # ts" by (cases "tlists k (Ready ?p)") auto
  then have t: "thread_state k t = RT_THREAD_READY" "th_current_priority (threads k t) = ?p"
    using thread_okD(2)[OF ready_invD(3)[OF i], of t ?p] by auto
  have "?p \<le> th_current_priority (threads k u)" if "thread_state k u = RT_THREAD_READY" for u
  proof -
    have "\<not> unat (th_current_priority (threads k u)) < n"
      using ready_group_nonzero[OF i that] lb by (auto simp: lowest_bit_def)
    then show ?thesis by (simp add: word_le_nat_alt up)
  qed
  moreover have "highest_ready k = Some (?p, t)"
    unfolding highest_ready_def Let_def n_def[symmetric] using n(2) l by simp
  ultimately show ?thesis using l t by (auto simp: most_urgent_def)
qed

lemma highest_ready_iff:
  assumes "ready_inv k"
  shows "(\<exists>p. highest_ready k = Some (p, t)) \<longleftrightarrow> most_urgent k t"
proof
  assume "most_urgent k t"
  then have "thread_state k t = RT_THREAD_READY" by (simp add: most_urgent_def)
  from highest_ready_some[OF assms this] obtain u where
    "highest_ready k = Some (th_current_priority (threads k u), u)" "most_urgent k u" by blast
  with \<open>most_urgent k t\<close> most_urgent_unique show "\<exists>p. highest_ready k = Some (p, t)" by metis
next
  assume "\<exists>p. highest_ready k = Some (p, t)"
  then obtain p where h: "highest_ready k = Some (p, t)" by blast
  then have "t \<in> set (tlists k (Ready p))"
    by (auto simp: highest_ready_def Let_def split: if_splits list.splits)
  then have "thread_state k t = RT_THREAD_READY"
    using thread_okD(2)[OF ready_invD(3)[OF assms]] by blast
  from highest_ready_some[OF assms this] h show "most_urgent k t" by auto
qed

lemma rt_schedule_frame:
  assumes "rt_schedule k = Some k'"
  shows "tlists k' = tlists k" "threads k' = threads k" "ready_group k' = ready_group k"
    "objs k' = objs k" "obj_lists k' = obj_lists k" "lock_nest k' = lock_nest k"
    "interrupt_nest k' = interrupt_nest k" "timers k' = timers k" "timer_list k' = timer_list k"
    "tick k' = tick k" "sems k' = sems k" "mutexes k' = mutexes k" "events k' = events k"
    "mailboxes k' = mailboxes k" "queues k' = queues k" "pools k' = pools k"
  using assms by (auto simp: rt_schedule_def Let_def split: if_splits Option.bind_splits)

lemma ready_inv_frame:
  "ready_inv k \<Longrightarrow> tlists k' = tlists k \<Longrightarrow> threads k' = threads k \<Longrightarrow> ready_group k' = ready_group k
   \<Longrightarrow> ready_inv k'"
  by (simp add: ready_inv_def bitmap_ok_def thread_ok_def thread_state_def)

lemma rt_schedule_inv: "rt_schedule k = Some k' \<Longrightarrow> ready_inv k \<Longrightarrow> ready_inv k'"
  using rt_schedule_frame[of k k'] by (auto elim: ready_inv_frame)

lemma rt_schedule_some:
  assumes i: "ready_inv k" and s: "thread_state k s = RT_THREAD_READY"
  shows "\<exists>k'. rt_schedule k = Some k'"
  using highest_ready_some[OF i s] by (auto simp: rt_schedule_def Let_def)

lemma rt_schedule_current:
  assumes i: "ready_inv k" and r: "rt_schedule k = Some k'" and l: "lock_nest k = 0"
  shows "\<exists>t. current_thread k' = Some t \<and> most_urgent k' t"
proof -
  obtain p t where h: "highest_ready k = Some (p, t)"
    using r l by (auto simp: rt_schedule_def split: Option.bind_splits)
  then have "most_urgent k t" using highest_ready_iff[OF i] by blast
  then have "most_urgent k' t"
    using rt_schedule_frame[OF r] by (simp add: most_urgent_def thread_state_def)
  moreover have "current_thread k' = Some t"
    using r l h by (auto simp: rt_schedule_def Let_def split: if_splits)
  ultimately show ?thesis by blast
qed

lemma rt_schedule_locked: "lock_nest k \<noteq> 0 \<Longrightarrow> rt_schedule k = Some k"
  by (simp add: rt_schedule_def)

text \<open>Between two kernel calls the scheduler is unlocked and the most urgent ready thread runs.\<close>

definition settled :: "kernel \<Rightarrow> bool" where
  "settled k \<longleftrightarrow> lock_nest k = 0 \<and> (\<exists>c. current_thread k = Some c \<and> most_urgent k c)"

lemma rt_schedule_settles: "ready_inv k \<Longrightarrow> rt_schedule k = Some k' \<Longrightarrow> lock_nest k = 0 \<Longrightarrow> settled k'"
  using rt_schedule_current[of k k'] rt_schedule_frame(6)[of k k'] by (simp add: settled_def)

lemma settled_frame:
  "settled k \<Longrightarrow> threads k' = threads k \<Longrightarrow> tlists k' = tlists k \<Longrightarrow> current_thread k' = current_thread k
   \<Longrightarrow> lock_nest k' = lock_nest k \<Longrightarrow> settled k'"
  by (simp add: settled_def most_urgent_def thread_state_def)

text \<open>The heads of the lists a thread may wait on.\<close>

definition wait_head :: "thead \<Rightarrow> bool" where
  "wait_head h \<longleftrightarrow> (\<exists>r. h = Suspended r) \<or> (\<exists>m. h = Senders m)
     \<or> (\<exists>c. h = CompletionList c) \<or> (\<exists>q. h = PushList q) \<or> (\<exists>q. h = PopList q)"

lemma wait_head_simps [simp]:
  "wait_head (Suspended r)" "wait_head (Senders m)" "\<not> wait_head (Ready p)" "\<not> wait_head Defunct"
  "wait_head (CompletionList c)" "wait_head (PushList q)" "wait_head (PopList q)"
  by (simp_all add: wait_head_def)

lemma wait_head_state: "wait_head h \<Longrightarrow> head_state h = RT_THREAD_SUSPEND"
  by (auto simp: wait_head_def)

lemma ready_not_waiting: "ready_inv k \<Longrightarrow> thread_state k t = RT_THREAD_READY \<Longrightarrow> wait_head h \<Longrightarrow> t \<notin> set (tlists k h)"
  using thread_okD(1)[OF ready_invD(3), of k t h] wait_head_state[of h] by auto

end
