(* ===== verification/RT_Object.thy ===== *)
theory RT_Object
  imports RT_Scheduler
begin

text \<open>
  \<open>src/object.c\<close>: the container of kernel objects, one list per object class, and the two string
  routines of \<open>src/kservice.c\<close> it uses. Memory for a dynamic object comes from the heap; the block
  \<open>RT_KERNEL_MALLOC\<close> returned is the argument of \<open>rt_object_allocate\<close> (\<open>None\<close> for \<open>RT_NULL\<close>).
\<close>

subsection \<open>Bounded strings\<close>

text \<open>\<open>RT_NAME_MAX\<close> bytes hold a name; the terminating NUL may be missing.\<close>

definition RT_NAME_MAX :: nat where
  "RT_NAME_MAX = 8"

abbreviation NUL :: char where "NUL \<equiv> CHR 0x00"

text \<open>A source string is read up to its NUL; a list that ends early reads as NUL there.\<close>

definition char_at :: "string \<Rightarrow> char" where
  "char_at s = (case s of [] \<Rightarrow> NUL | c # _ \<Rightarrow> c)"

fun rt_strncpy :: "string \<Rightarrow> nat \<Rightarrow> string" where
  "rt_strncpy src 0 = []"
| "rt_strncpy src (Suc n) =
     (if char_at src = NUL then NUL # replicate n NUL
      else char_at src # rt_strncpy (tl src) n)"

definition schar :: "int \<Rightarrow> int" where
  "schar i = sint (word_of_int i :: 8 word)"

fun rt_strncmp :: "string \<Rightarrow> string \<Rightarrow> nat \<Rightarrow> int" where
  "rt_strncmp cs ct 0 = 0"
| "rt_strncmp cs ct (Suc count) =
     (let res = schar (of_char (char_at cs) - of_char (char_at ct)) in
      if res \<noteq> 0 \<or> char_at cs = NUL then res else rt_strncmp (tl cs) (tl ct) count)"

subsection \<open>The container\<close>

abbreviation RT_Object_Class_Thread :: u8 where "RT_Object_Class_Thread \<equiv> 0"
abbreviation RT_Object_Class_Semaphore :: u8 where "RT_Object_Class_Semaphore \<equiv> 1"
abbreviation RT_Object_Class_Mutex :: u8 where "RT_Object_Class_Mutex \<equiv> 2"
abbreviation RT_Object_Class_Event :: u8 where "RT_Object_Class_Event \<equiv> 3"
abbreviation RT_Object_Class_MailBox :: u8 where "RT_Object_Class_MailBox \<equiv> 4"
abbreviation RT_Object_Class_MessageQueue :: u8 where "RT_Object_Class_MessageQueue \<equiv> 5"
abbreviation RT_Object_Class_MemHeap :: u8 where "RT_Object_Class_MemHeap \<equiv> 6"
abbreviation RT_Object_Class_MemPool :: u8 where "RT_Object_Class_MemPool \<equiv> 7"
abbreviation RT_Object_Class_Device :: u8 where "RT_Object_Class_Device \<equiv> 8"
abbreviation RT_Object_Class_Timer :: u8 where "RT_Object_Class_Timer \<equiv> 9"
abbreviation RT_Object_Class_Unknown :: u8 where "RT_Object_Class_Unknown \<equiv> 11"
abbreviation RT_Object_Class_Static :: u8 where "RT_Object_Class_Static \<equiv> 0x80"

text \<open>The classes of \<open>rt_object_container\<close>, in its order (all kernel services built, no modules).\<close>

definition rt_object_container :: "u8 list" where
  "rt_object_container = [0, 1, 2, 3, 4, 5, 6, 7, 8, 9]"

fun rt_object_get_information :: "u8 list \<Rightarrow> u8 \<Rightarrow> u8 option" where
  "rt_object_get_information [] ty = None"
| "rt_object_get_information (c # cs) ty = (if c = ty then Some c else rt_object_get_information cs ty)"

definition rt_object_init :: "obj_ref \<Rightarrow> u8 \<Rightarrow> string \<Rightarrow> kernel \<Rightarrow> kernel option" where
  "rt_object_init r ty name k = do {
     information \<leftarrow> rt_object_get_information rt_object_container ty;
     let k1 = upd_obj r (\<lambda>ob. ob\<lparr>o_type := ty OR RT_Object_Class_Static,
                                 o_name := rt_strncpy name RT_NAME_MAX\<rparr>) k;
     Some (k1\<lparr>obj_lists := list_prepend information r (obj_lists k1)\<rparr>) }"

definition rt_object_detach :: "obj_ref \<Rightarrow> kernel \<Rightarrow> kernel" where
  "rt_object_detach r k =
     (let k1 = upd_obj r (\<lambda>ob. ob\<lparr>o_type := 0\<rparr>) k
      in k1\<lparr>obj_lists := list_delete r (obj_lists k1)\<rparr>)"

definition rt_object_allocate :: "obj_ref option \<Rightarrow> u8 \<Rightarrow> string \<Rightarrow> kernel \<Rightarrow> (obj_ref option \<times> kernel) option" where
  "rt_object_allocate block ty name k = do {
     _ \<leftarrow> rt_assert (interrupt_nest k = 0);
     information \<leftarrow> rt_object_get_information rt_object_container ty;
     case block of
       None \<Rightarrow> Some (None, k)
     | Some r \<Rightarrow>
         let k1 = upd_obj r (\<lambda>ob. ob\<lparr>o_type := ty, o_flag := 0, o_name := rt_strncpy name RT_NAME_MAX\<rparr>) k
         in Some (Some r, k1\<lparr>obj_lists := list_prepend information r (obj_lists k1)\<rparr>) }"

definition rt_object_is_systemobject :: "obj_ref \<Rightarrow> kernel \<Rightarrow> bool" where
  "rt_object_is_systemobject r k \<longleftrightarrow> o_type (objs k r) AND RT_Object_Class_Static \<noteq> 0"

definition rt_object_get_type :: "obj_ref \<Rightarrow> kernel \<Rightarrow> u8" where
  "rt_object_get_type r k = o_type (objs k r) AND NOT RT_Object_Class_Static"

text \<open>The memory of a deleted object goes back to the heap, where nothing of it is kept.\<close>

definition rt_object_delete :: "obj_ref \<Rightarrow> kernel \<Rightarrow> kernel option" where
  "rt_object_delete r k = do {
     _ \<leftarrow> rt_assert (o_type (objs k r) AND RT_Object_Class_Static = 0);
     let k1 = upd_obj r (\<lambda>ob. ob\<lparr>o_type := 0\<rparr>) k;
     Some (k1\<lparr>obj_lists := list_delete r (obj_lists k1)\<rparr>) }"

fun find_named :: "kernel \<Rightarrow> string \<Rightarrow> obj_ref list \<Rightarrow> obj_ref option" where
  "find_named k name [] = None"
| "find_named k name (r # rs) =
     (if rt_strncmp (o_name (objs k r)) name RT_NAME_MAX = 0 then Some r else find_named k name rs)"

definition rt_object_find :: "string option \<Rightarrow> u8 \<Rightarrow> kernel \<Rightarrow> (obj_ref option \<times> kernel) option" where
  "rt_object_find name ty k =
     (case name of
        None \<Rightarrow> Some (None, k)
      | Some nm \<Rightarrow>
          if ty > RT_Object_Class_Unknown then Some (None, k)
          else do {
            _ \<leftarrow> rt_assert (interrupt_nest k = 0);
            let k1 = rt_enter_critical k;
            information \<leftarrow> rt_object_get_information rt_object_container ty;
            let found = find_named k1 nm (obj_lists k1 information);
            k2 \<leftarrow> rt_exit_critical k1;
            Some (found, k2) })"

subsection \<open>Names\<close>

lemma length_rt_strncpy [simp]: "length (rt_strncpy s n) = n"
  by (induction s n rule: rt_strncpy.induct) auto

lemma schar_diff_zero:
  fixes a b :: char
  shows "schar (of_char a - of_char b) = 0 \<longleftrightarrow> a = b"
proof
  assume "schar (of_char a - of_char b) = 0"
  then have "(word_of_int (of_char a - of_char b) :: 8 word) = 0"
    unfolding schar_def using signed_eq_0_iff by blast
  then have "uint (word_of_int (of_char a - of_char b) :: 8 word) = 0" by (simp only: uint_0_eq)
  then have "(of_char a - of_char b) mod 256 = (0::int)" by (simp only: uint_word_of_int) simp
  then have "of_char a mod 256 = (of_char b mod 256 :: int)" by (simp only: mod_eq_dvd_iff dvd_eq_mod_eq_0)
  then have "(of_char a :: int) = of_char b" by (simp only: of_char_mod_256)
  then show "a = b" by simp
qed (simp add: schar_def)

text \<open>The comparison of a stored name with a requested one is equality of their first
  \<open>RT_NAME_MAX\<close> characters: equality after both are copied the same way.\<close>

lemma rt_strncmp_zero: "rt_strncmp s t n = 0 \<longleftrightarrow> rt_strncpy s n = rt_strncpy t n"
proof (induction s t n rule: rt_strncmp.induct)
  case (2 cs ct count)
  define r where "r = schar (of_char (char_at cs) - of_char (char_at ct))"
  have r: "r = 0 \<longleftrightarrow> char_at cs = char_at ct" unfolding r_def by (rule schar_diff_zero)
  show ?case
  proof (cases "r \<noteq> 0 \<or> char_at cs = NUL")
    case True
    then show ?thesis unfolding rt_strncmp.simps rt_strncpy.simps Let_def r_def[symmetric]
      using r by (cases "char_at ct = NUL") simp_all
  next
    case False
    then show ?thesis unfolding rt_strncmp.simps rt_strncpy.simps Let_def r_def[symmetric]
      using r 2[OF r_def] by simp
  qed
qed simp

lemma rt_strncpy_idem: "rt_strncpy (rt_strncpy s n) n = rt_strncpy s n"
proof (induction s n rule: rt_strncpy.induct)
  case (2 src n)
  then show ?case by (simp add: char_at_def)
qed simp

text \<open>Two names that differ only behind \<open>RT_NAME_MAX\<close> characters are the same name.\<close>

lemma find_named_found:
  "find_named k name rs = Some r \<Longrightarrow>
   r \<in> set rs \<and> rt_strncpy (o_name (objs k r)) RT_NAME_MAX = rt_strncpy name RT_NAME_MAX"
  by (induction rs) (auto simp: rt_strncmp_zero split: if_splits)

lemma find_named_none:
  "find_named k name rs = None \<longleftrightarrow>
   (\<forall>r\<in>set rs. rt_strncpy (o_name (objs k r)) RT_NAME_MAX \<noteq> rt_strncpy name RT_NAME_MAX)"
  by (induction rs) (auto simp: rt_strncmp_zero)

subsection \<open>What the operations do to the container\<close>

lemma rt_object_get_information_iff:
  "rt_object_get_information cs ty = Some c \<longleftrightarrow> c = ty \<and> ty \<in> set cs"
  by (induction cs) auto

text \<open>Every object is in at most one class list, and an object in a list says so in its type.\<close>

definition container_ok :: "kernel \<Rightarrow> bool" where
  "container_ok k \<longleftrightarrow> disjoint_lists (obj_lists k)
     \<and> (\<forall>c r. r \<in> set (obj_lists k c) \<longrightarrow> rt_object_get_type r k = c)"

lemma class_type: "ty \<in> set rt_object_container \<Longrightarrow> (ty OR RT_Object_Class_Static) AND - 129 = ty
    \<and> ty AND - 129 = ty"
  by (auto simp: rt_object_container_def)

lemma rt_object_init_ok:
  assumes "container_ok k" "on_none (obj_lists k) r" "rt_object_init r ty name k = Some k'"
  shows "container_ok k'" "hd (obj_lists k' ty) = r" "rt_object_get_type r k' = ty"
    "o_name (objs k' r) = rt_strncpy name RT_NAME_MAX" "rt_object_is_systemobject r k'"
proof -
  have ty: "ty \<in> set rt_object_container" and k': "k' = (upd_obj r (\<lambda>ob. ob\<lparr>o_type := ty OR RT_Object_Class_Static,
        o_name := rt_strncpy name RT_NAME_MAX\<rparr>) k)\<lparr>obj_lists := list_prepend ty r (obj_lists k)\<rparr>"
    using assms(3) by (auto simp: rt_object_init_def rt_object_get_information_iff Let_def split: Option.bind_splits)
  note t = class_type[OF ty]
  show "container_ok k'"
    using assms(1,2) disjoint_prepend[of "obj_lists k" r ty] t
    by (auto simp: container_ok_def k' rt_object_get_type_def list_prepend_def on_none_def)
  show "rt_object_is_systemobject r k'"
    using ty by (auto simp: k' rt_object_is_systemobject_def rt_object_container_def)
qed (use assms in \<open>auto simp: rt_object_init_def rt_object_get_information_iff list_prepend_def
    rt_object_get_type_def class_type split: Option.bind_splits\<close>)

lemma rt_object_detach_ok:
  assumes "container_ok k"
  shows "container_ok (rt_object_detach r k)" "on_none (obj_lists (rt_object_detach r k)) r"
  using assms disjoint_delete[of "obj_lists k" r]
  by (auto simp: container_ok_def rt_object_detach_def rt_object_get_type_def Let_def)

end
