(* ===== verification/RT_Timer.thy ===== *)
theory RT_Timer
  imports RT_Object
begin

text \<open>
  \<open>src/timer.c\<close> without the software-timer thread (\<open>RT_USING_TIMER_SOFT\<close>): the list of running
  timers, kept in the order in which they fall due. \<open>RT_TIMER_SKIP_LIST_LEVEL\<close> is 1, its default in
  \<open>rtdef.h\<close>, so the skip list is this one list. The activation flag is in the object header of the
  timer. The check that fires the timers is in \<open>RT_Clock\<close>, after the thread operations it calls.
\<close>

subsection \<open>Operations\<close>

abbreviation timer_typed :: "kernel \<Rightarrow> timer_id \<Rightarrow> bool" where
  "timer_typed k i \<equiv> rt_object_get_type (ObjTimer i) k = RT_Object_Class_Timer"

text \<open>\<open>timer->parent.flag &= ~RT_TIMER_FLAG_ACTIVATED\<close> and its converse.\<close>

definition deactivate :: "timer_id \<Rightarrow> kernel \<Rightarrow> kernel" where
  "deactivate i = upd_obj (ObjTimer i) (\<lambda>ob. ob\<lparr>o_flag := o_flag ob AND NOT RT_TIMER_FLAG_ACTIVATED\<rparr>)"

definition activate :: "timer_id \<Rightarrow> kernel \<Rightarrow> kernel" where
  "activate i = upd_obj (ObjTimer i) (\<lambda>ob. ob\<lparr>o_flag := o_flag ob OR RT_TIMER_FLAG_ACTIVATED\<rparr>)"

definition rt_timer_init_fields :: "timer_id \<Rightarrow> timeout_fn \<Rightarrow> u32 \<Rightarrow> u8 \<Rightarrow> kernel \<Rightarrow> kernel" where
  "rt_timer_init_fields i timeout time flag k =
     (let k1 = deactivate i (upd_obj (ObjTimer i) (\<lambda>ob. ob\<lparr>o_flag := flag\<rparr>) k)
      in upd_timer i (\<lambda>tm. tm\<lparr>tm_func := timeout, tm_timeout_tick := 0, tm_init_tick := time\<rparr>) k1)"

definition rt_timer_remove :: "timer_id \<Rightarrow> kernel \<Rightarrow> kernel" where
  "rt_timer_remove i k = k\<lparr>timer_list := removeAll i (timer_list k)\<rparr>"

text \<open>\<open>RT_TICK_MAX\<close> stands for "no timer is running".\<close>

definition rt_timer_next_timeout_tick :: "kernel \<Rightarrow> u32" where
  "rt_timer_next_timeout_tick k =
     (case timer_list k of [] \<Rightarrow> 0xFFFFFFFF | i # _ \<Rightarrow> tm_timeout_tick (timers k i))"

definition rt_timer_init :: "timer_id \<Rightarrow> string \<Rightarrow> timeout_fn \<Rightarrow> u32 \<Rightarrow> u8 \<Rightarrow> kernel \<Rightarrow> kernel option" where
  "rt_timer_init i name timeout time flag k = do {
     k1 \<leftarrow> rt_object_init (ObjTimer i) RT_Object_Class_Timer name k;
     Some (rt_timer_init_fields i timeout time flag k1) }"

definition rt_timer_detach :: "timer_id \<Rightarrow> kernel \<Rightarrow> kernel option" where
  "rt_timer_detach i k = do {
     _ \<leftarrow> rt_assert (timer_typed k i);
     _ \<leftarrow> rt_assert (rt_object_is_systemobject (ObjTimer i) k);
     Some (rt_object_detach (ObjTimer i) (rt_timer_remove i k)) }"

definition rt_timer_create ::
  "timer_id option \<Rightarrow> string \<Rightarrow> timeout_fn \<Rightarrow> u32 \<Rightarrow> u8 \<Rightarrow> kernel \<Rightarrow> (timer_id option \<times> kernel) option" where
  "rt_timer_create block name timeout time flag k = do {
     (r, k1) \<leftarrow> rt_object_allocate (map_option ObjTimer block) RT_Object_Class_Timer name k;
     case (r, block) of
       (Some _, Some i) \<Rightarrow> Some (Some i, rt_timer_init_fields i timeout time flag k1)
     | _ \<Rightarrow> Some (None, k1) }"

definition rt_timer_delete :: "timer_id \<Rightarrow> kernel \<Rightarrow> kernel option" where
  "rt_timer_delete i k = do {
     _ \<leftarrow> rt_assert (timer_typed k i);
     _ \<leftarrow> rt_assert (\<not> rt_object_is_systemobject (ObjTimer i) k);
     rt_object_delete (ObjTimer i) (rt_timer_remove i k) }"

text \<open>The search for the place of timer \<open>i\<close>: behind the timers that fall due earlier or at the same
  tick.\<close>

fun timer_insert :: "(timer_id \<Rightarrow> u32) \<Rightarrow> timer_id \<Rightarrow> timer_id list \<Rightarrow> timer_id list" where
  "timer_insert due i [] = [i]"
| "timer_insert due i (t # ts) =
     (if due t - due i = 0 then t # timer_insert due i ts
      else if due t - due i < RT_TICK_HALF then i # t # ts
      else t # timer_insert due i ts)"

definition rt_timer_start :: "timer_id \<Rightarrow> kernel \<Rightarrow> kernel option" where
  "rt_timer_start i k = do {
     _ \<leftarrow> rt_assert (timer_typed k i);
     let k1 = deactivate i (rt_timer_remove i k);
     _ \<leftarrow> rt_assert (tm_init_tick (timers k1 i) < RT_TICK_HALF);
     let k2 = upd_timer i (\<lambda>tm. tm\<lparr>tm_timeout_tick := tick k1 + tm_init_tick tm\<rparr>) k1;
     let k3 = k2\<lparr>timer_list := timer_insert (\<lambda>j. tm_timeout_tick (timers k2 j)) i (timer_list k2)\<rparr>;
     Some (activate i k3) }"

definition rt_timer_stop :: "timer_id \<Rightarrow> kernel \<Rightarrow> (rt_err_t \<times> kernel) option" where
  "rt_timer_stop i k = do {
     _ \<leftarrow> rt_assert (timer_typed k i);
     if obj_flag k (ObjTimer i) AND RT_TIMER_FLAG_ACTIVATED = 0 then Some (- RT_ERROR, k)
     else Some (RT_EOK, deactivate i (rt_timer_remove i k)) }"

text \<open>The commands \<open>SET_TIME\<close>, \<open>GET_TIME\<close>, \<open>SET_ONESHOT\<close>, \<open>SET_PERIODIC\<close> are 0 to 3; the tick
  behind \<open>arg\<close> is read and returned.\<close>

definition rt_timer_control :: "timer_id \<Rightarrow> int \<Rightarrow> u32 \<Rightarrow> kernel \<Rightarrow> (u32 \<times> kernel) option" where
  "rt_timer_control i cmd arg k = do {
     _ \<leftarrow> rt_assert (timer_typed k i);
     Some (if cmd = 1 then (tm_init_tick (timers k i), k)
           else if cmd = 0 then (arg, upd_timer i (\<lambda>tm. tm\<lparr>tm_init_tick := arg\<rparr>) k)
           else if cmd = 2 then (arg, upd_obj (ObjTimer i)
                  (\<lambda>ob. ob\<lparr>o_flag := o_flag ob AND NOT RT_TIMER_FLAG_PERIODIC\<rparr>) k)
           else if cmd = 3 then (arg, upd_obj (ObjTimer i)
                  (\<lambda>ob. ob\<lparr>o_flag := o_flag ob OR RT_TIMER_FLAG_PERIODIC\<rparr>) k)
           else (arg, k)) }"

subsection \<open>The order of the running timers\<close>

text \<open>How far ahead a timer falls due, counted from the previous tick: a timer that should have
  fired at the previous tick counts 0. Wrap-around subtraction keeps the count right across the
  overflow of the tick counter.\<close>

definition due_in :: "kernel \<Rightarrow> timer_id \<Rightarrow> nat" where
  "due_in k i = unat (tm_timeout_tick (timers k i) - (tick k - 1))"

definition timer_inv :: "kernel \<Rightarrow> bool" where
  "timer_inv k \<longleftrightarrow> distinct (timer_list k)
     \<and> sorted_wrt (\<lambda>i j. due_in k i \<le> due_in k j) (timer_list k)
     \<and> (\<forall>i\<in>set (timer_list k). due_in k i \<le> 0x7FFFFFFF \<and> timer_typed k i
          \<and> obj_flag k (ObjTimer i) AND RT_TIMER_FLAG_ACTIVATED \<noteq> 0)"

lemma timer_invD:
  assumes "timer_inv k"
  shows "distinct (timer_list k)" "sorted_wrt (\<lambda>i j. due_in k i \<le> due_in k j) (timer_list k)"
    "i \<in> set (timer_list k) \<Longrightarrow> due_in k i \<le> 0x7FFFFFFF"
    "i \<in> set (timer_list k) \<Longrightarrow> timer_typed k i"
    "i \<in> set (timer_list k) \<Longrightarrow> obj_flag k (ObjTimer i) AND RT_TIMER_FLAG_ACTIVATED \<noteq> 0"
  using assms by (simp_all add: timer_inv_def)

text \<open>Within the horizon the wrap-around comparison of the insertion loop is the comparison of the
  two due dates.\<close>

lemma due_compare:
  fixes a b base :: u32
  assumes a: "unat (a - base) \<le> 0x7FFFFFFF" and b: "unat (b - base) \<le> 0x7FFFFFFF" "0 < unat (b - base)"
  shows "a - b = 0 \<longleftrightarrow> unat (a - base) = unat (b - base)"
    and "a - b \<noteq> 0 \<Longrightarrow> a - b < 0x7FFFFFFF \<longleftrightarrow> unat (b - base) < unat (a - base)"
proof -
  define x y where "x = a - base" and "y = b - base"
  have d: "a - b = x - y" by (simp add: x_def y_def)
  have e: "x - y = 0 \<longleftrightarrow> unat x = unat y" using word_unat_eq_iff[of x y] by simp
  then show "a - b = 0 \<longleftrightarrow> unat (a - base) = unat (b - base)" by (simp only: d x_def y_def)
  assume "a - b \<noteq> 0"
  then have "unat x \<noteq> unat y" using d e by simp
  moreover have "unat x \<le> 0x7FFFFFFF" "unat y \<le> 0x7FFFFFFF" "0 < unat y"
    using a b by (simp_all only: x_def y_def)
  ultimately have "unat (x - y) < 0x7FFFFFFF \<longleftrightarrow> unat y < unat x"
    unfolding unat_sub_if_size by (simp add: word_size) linarith
  then show "a - b < 0x7FFFFFFF \<longleftrightarrow> unat (b - base) < unat (a - base)"
    unfolding d word_less_nat_alt x_def[symmetric] y_def[symmetric] by simp
qed

lemma timer_insert_set [simp]: "set (timer_insert due i ts) = insert i (set ts)"
  by (induction ts) auto

lemma timer_insert_split:
  assumes "\<And>j. j \<in> set ts \<Longrightarrow> unat (due j - base) \<le> 0x7FFFFFFF"
    and "unat (due i - base) \<le> 0x7FFFFFFF" "0 < unat (due i - base)"
  shows "timer_insert due i ts =
    takeWhile (\<lambda>j. unat (due j - base) \<le> unat (due i - base)) ts @ i #
    dropWhile (\<lambda>j. unat (due j - base) \<le> unat (due i - base)) ts"
  using assms(1)
proof (induction ts)
  case (Cons t ts)
  have "unat (due t - base) \<le> 0x7FFFFFFF" using Cons.prems by simp
  note c = due_compare[OF this assms(2,3)]
  show ?case
  proof (cases "due t - due i = 0")
    case True
    then show ?thesis using c(1) Cons by simp
  next
    case False
    then show ?thesis using c(2)[OF False] Cons by simp
  qed
qed simp

lemma sorted_insert_at:
  fixes f :: "'a \<Rightarrow> nat"
  assumes "sorted_wrt (\<lambda>i j. f i \<le> f j) ts"
  shows "sorted_wrt (\<lambda>i j. f i \<le> f j) (takeWhile (\<lambda>j. f j \<le> f i) ts @ i # dropWhile (\<lambda>j. f j \<le> f i) ts)"
proof -
  let ?P = "\<lambda>j. f j \<le> f i"
  have "sorted_wrt (\<lambda>i j. f i \<le> f j) (takeWhile ?P ts @ dropWhile ?P ts)" using assms by simp
  then have s: "sorted_wrt (\<lambda>i j. f i \<le> f j) (takeWhile ?P ts)"
      "sorted_wrt (\<lambda>i j. f i \<le> f j) (dropWhile ?P ts)"
      "\<forall>a\<in>set (takeWhile ?P ts). \<forall>b\<in>set (dropWhile ?P ts). f a \<le> f b"
    unfolding sorted_wrt_append by blast+
  have "f i \<le> f b" if "b \<in> set (dropWhile ?P ts)" for b
  proof (cases "dropWhile ?P ts")
    case (Cons c cs)
    then have "\<not> ?P c" by (metis hd_dropWhile list.distinct(1) list.sel(1))
    with that Cons s(2) show ?thesis by auto
  next
    case Nil
    with that show ?thesis by (metis empty_iff list.set(1))
  qed
  with s show ?thesis by (auto simp: sorted_wrt_append dest: set_takeWhileD)
qed


lemma distinct_insert_at:
  assumes "distinct ts" "i \<notin> set ts"
  shows "distinct (takeWhile P ts @ i # dropWhile P ts)"
proof -
  have "distinct (takeWhile P ts @ dropWhile P ts)" using assms(1) by simp
  then have "set (takeWhile P ts) \<inter> set (dropWhile P ts) = {}" unfolding distinct_append by blast
  with assms show ?thesis by (auto dest: set_takeWhileD set_dropWhileD)
qed

subsection \<open>The operations keep the order\<close>

lemma activate_sel [simp]:
  "timers (activate i k) = timers k" "timer_list (activate i k) = timer_list k"
  "tick (activate i k) = tick k" "threads (activate i k) = threads k" "tlists (activate i k) = tlists k"
  "ready_group (activate i k) = ready_group k" "obj_lists (activate i k) = obj_lists k"
  "timers (deactivate i k) = timers k" "timer_list (deactivate i k) = timer_list k"
  "tick (deactivate i k) = tick k" "threads (deactivate i k) = threads k" "tlists (deactivate i k) = tlists k"
  "ready_group (deactivate i k) = ready_group k" "obj_lists (deactivate i k) = obj_lists k"
  by (simp_all add: activate_def deactivate_def)

lemma flag_set_clear [flag_simps]:
  "(x OR (1::u8)) AND 1 \<noteq> 0" "(x AND NOT (1::u8)) AND 1 = 0" "(x AND (-2::u8)) AND 1 = 0"
proof -
  show "(x OR (1::u8)) AND 1 \<noteq> 0" using set_masked[of x "1::u8"] by simp
  show "(x AND NOT (1::u8)) AND 1 = 0" by (rule clear_masked)
  then show "(x AND (-2::u8)) AND 1 = 0" by simp
qed

lemma deactivated [simp]: "obj_flag (deactivate i k) (ObjTimer i) AND RT_TIMER_FLAG_ACTIVATED = 0"
  by (simp add: deactivate_def flag_set_clear)

lemma activate_other [simp]:
  "r \<noteq> ObjTimer i \<Longrightarrow> objs (activate i k) r = objs k r"
  "r \<noteq> ObjTimer i \<Longrightarrow> objs (deactivate i k) r = objs k r"
  "o_type (objs (activate i k) r) = o_type (objs k r)"
  "o_type (objs (deactivate i k) r) = o_type (objs k r)"
  "o_name (objs (activate i k) r) = o_name (objs k r)"
  "o_name (objs (deactivate i k) r) = o_name (objs k r)"
  by (simp_all add: activate_def deactivate_def)

lemma get_type_frame:
  "o_type (objs k' r) = o_type (objs k r) \<Longrightarrow> rt_object_get_type r k' = rt_object_get_type r k"
  by (simp add: rt_object_get_type_def)

text \<open>What leaves the list alone, or shortens it, keeps the invariant.\<close>

lemma timer_inv_frame:
  assumes "timer_inv k" "timer_list k' = timer_list k" "timers k' = timers k" "tick k' = tick k"
    and "\<And>i. i \<in> set (timer_list k) \<Longrightarrow> objs k' (ObjTimer i) = objs k (ObjTimer i)"
  shows "timer_inv k'"
  using assms by (simp add: timer_inv_def due_in_def rt_object_get_type_def)

lemma timer_inv_shorter:
  assumes i: "timer_inv k" and l: "timer_list k' = removeAll i (timer_list k)"
    and eq: "timers k' = timers k" "tick k' = tick k"
    and ob: "\<And>j. j \<noteq> i \<Longrightarrow> j \<in> set (timer_list k) \<Longrightarrow> objs k' (ObjTimer j) = objs k (ObjTimer j)"
  shows "timer_inv k'"
proof -
  have "due_in k' = due_in k" using eq by (auto simp: due_in_def)
  moreover have "sorted_wrt (\<lambda>i j. due_in k i \<le> due_in k j) (removeAll i (timer_list k))"
    using timer_invD(2)[OF i] by (simp add: removeAll_filter_not_eq sorted_wrt_filter)
  ultimately show ?thesis using timer_invD[OF i] l ob
    by (simp add: timer_inv_def rt_object_get_type_def distinct_removeAll)
qed

lemma timer_inv_stop: "rt_timer_stop i k = Some (e, k') \<Longrightarrow> timer_inv k \<Longrightarrow> timer_inv k'"
  by (auto simp: rt_timer_stop_def rt_timer_remove_def split: Option.bind_splits if_splits
      elim!: timer_inv_shorter[where i = i])

text \<open>Starting a timer puts it behind every timer that falls due no later, whatever the tick counter
  does when it overflows.\<close>

lemma rt_timer_start_some:
  assumes "rt_timer_start i k = Some k'"
  shows "tm_init_tick (timers k i) < RT_TICK_HALF" "timer_typed k i"
    "timers k' = (timers k)(i := (timers k i)\<lparr>tm_timeout_tick := tick k + tm_init_tick (timers k i)\<rparr>)"
    "tick k' = tick k"
    "timer_list k' = timer_insert (\<lambda>j. tm_timeout_tick (timers k' j)) i (removeAll i (timer_list k))"
    "obj_flag k' (ObjTimer i) AND RT_TIMER_FLAG_ACTIVATED \<noteq> 0"
    "\<And>r. r \<noteq> ObjTimer i \<Longrightarrow> objs k' r = objs k r"
    "\<And>r. o_type (objs k' r) = o_type (objs k r)"
    "threads k' = threads k" "tlists k' = tlists k" "ready_group k' = ready_group k"
  using assms
  by (auto simp: rt_timer_start_def Let_def rt_timer_remove_def activate_def deactivate_def flag_set_clear
      split: Option.bind_splits cong: if_cong)

lemma due_in_fresh:
  assumes "tm_timeout_tick (timers k i) = tick k + t" "t < RT_TICK_HALF"
  shows "due_in k i = Suc (unat t)"
proof -
  have "tick k + t - (tick k - 1) = t + 1" by simp
  moreover have "unat (t + 1) = Suc (unat t)"
    using assms(2) by (simp add: unat_word_ariths word_less_nat_alt)
  ultimately show ?thesis by (simp add: due_in_def assms(1))
qed

lemma rt_timer_start_place:
  assumes inv: "timer_inv k" and s: "rt_timer_start i k = Some k'"
  shows "timer_list k' =
      takeWhile (\<lambda>j. due_in k' j \<le> due_in k' i) (removeAll i (timer_list k)) @ i #
      dropWhile (\<lambda>j. due_in k' j \<le> due_in k' i) (removeAll i (timer_list k))"
    and "due_in k' i = Suc (unat (tm_init_tick (timers k i)))"
proof -
  note f = rt_timer_start_some[OF s]
  have d: "due_in k' i = Suc (unat (tm_init_tick (timers k i)))"
    by (rule due_in_fresh) (use f in simp_all)
  then show "due_in k' i = Suc (unat (tm_init_tick (timers k i)))" .
  have "due_in k' i \<le> 0x7FFFFFFF" using d f(1) by (simp add: word_less_nat_alt)
  moreover have "due_in k' j \<le> 0x7FFFFFFF" if "j \<in> set (removeAll i (timer_list k))" for j
    using timer_invD(3)[OF inv, of j] that f(3,4) by (simp add: due_in_def)
  ultimately show "timer_list k' =
      takeWhile (\<lambda>j. due_in k' j \<le> due_in k' i) (removeAll i (timer_list k)) @ i #
      dropWhile (\<lambda>j. due_in k' j \<le> due_in k' i) (removeAll i (timer_list k))"
    unfolding f(5) due_in_def by (intro timer_insert_split) (use d in \<open>simp_all add: due_in_def\<close>)
qed

lemma timer_inv_start:
  assumes inv: "timer_inv k" and s: "rt_timer_start i k = Some k'"
  shows "timer_inv k'"
proof -
  note f = rt_timer_start_some[OF s]
  let ?l = "removeAll i (timer_list k)"
  have same: "due_in k' j = due_in k j" if "j \<noteq> i" for j using that f(3,4) by (simp add: due_in_def)
  have "sorted_wrt (\<lambda>i j. due_in k i \<le> due_in k j) ?l"
    using timer_invD(2)[OF inv] by (simp add: removeAll_filter_not_eq sorted_wrt_filter)
  then have "sorted_wrt (\<lambda>i j. due_in k' i \<le> due_in k' j) ?l"
    by (rule sorted_wrt_mono_rel[rotated]) (simp add: same)
  then have "sorted_wrt (\<lambda>i j. due_in k' i \<le> due_in k' j) (timer_list k')"
    unfolding rt_timer_start_place(1)[OF inv s] by (rule sorted_insert_at)
  moreover have "distinct (timer_list k')"
    unfolding rt_timer_start_place(1)[OF inv s] using timer_invD(1)[OF inv]
    by (intro distinct_insert_at distinct_removeAll) simp_all
  moreover have "due_in k' j \<le> 0x7FFFFFFF \<and> timer_typed k' j
      \<and> obj_flag k' (ObjTimer j) AND RT_TIMER_FLAG_ACTIVATED \<noteq> 0" if "j \<in> set (timer_list k')" for j
  proof (cases "j = i")
    case True
    have "due_in k' i \<le> 0x7FFFFFFF"
      using rt_timer_start_place(2)[OF inv s] f(1) by (simp add: word_less_nat_alt)
    with True f(2,6,8) show ?thesis by (simp add: rt_object_get_type_def)
  next
    case False
    with that have "j \<in> set (timer_list k)" by (simp add: f(5))
    from timer_invD(3-5)[OF inv this] False f(7) same show ?thesis
      by (simp add: rt_object_get_type_def)
  qed
  ultimately show ?thesis unfolding timer_inv_def by blast
qed

end
