(* ===== verification/RT_Thread.thy ===== *)
theory RT_Thread
  imports RT_Timer
begin

text \<open>
  \<open>src/thread.c\<close>. A thread is suspended, resumed, timed out and scheduled by these operations
  alone; every IPC object uses them. The memory of stacks and the initial stack frame
  (\<open>rt_hw_stack_init\<close>) belong to the processor port and are not kept; what \<open>RT_KERNEL_MALLOC\<close>
  returned is an argument. \<open>rt_thread_sleep\<close> is cut at its call of \<open>rt_schedule\<close>.
\<close>

abbreviation thread_typed :: "kernel \<Rightarrow> tid \<Rightarrow> bool" where
  "thread_typed k t \<equiv> rt_object_get_type (ObjThread t) k = RT_Object_Class_Thread"

definition RT_THREAD_PRIORITY_MAX :: u8 where
  "RT_THREAD_PRIORITY_MAX = 32"

subsection \<open>Suspending and resuming\<close>

definition rt_thread_suspend :: "tid \<Rightarrow> kernel \<Rightarrow> (rt_err_t \<times> kernel) option" where
  "rt_thread_suspend t k = do {
     _ \<leftarrow> rt_assert (thread_typed k t);
     if thread_state k t \<noteq> RT_THREAD_READY then Some (- RT_ERROR, k)
     else do {
       let k1 = upd_thread t (\<lambda>th. th\<lparr>th_stat := RT_THREAD_SUSPEND OR (th_stat th AND NOT RT_THREAD_STAT_MASK)\<rparr>) k;
       (_, k2) \<leftarrow> rt_timer_stop (ThreadTimer t) (rt_schedule_remove_thread t k1);
       Some (RT_EOK, k2) } }"

definition rt_thread_resume :: "tid \<Rightarrow> kernel \<Rightarrow> (rt_err_t \<times> kernel) option" where
  "rt_thread_resume t k = do {
     _ \<leftarrow> rt_assert (thread_typed k t);
     if thread_state k t \<noteq> RT_THREAD_SUSPEND then Some (- RT_ERROR, k)
     else do {
       (_, k1) \<leftarrow> rt_timer_stop (ThreadTimer t) (k\<lparr>tlists := list_delete t (tlists k)\<rparr>);
       Some (RT_EOK, rt_schedule_insert_thread t k1) } }"

definition rt_thread_timeout :: "tid \<Rightarrow> kernel \<Rightarrow> kernel option" where
  "rt_thread_timeout t k = do {
     _ \<leftarrow> rt_assert (thread_state k t = RT_THREAD_SUSPEND);
     _ \<leftarrow> rt_assert (thread_typed k t);
     let k1 = upd_thread t (\<lambda>th. th\<lparr>th_error := - RT_ETIMEOUT\<rparr>) k;
     let k2 = k1\<lparr>tlists := list_delete t (tlists k1)\<rparr>;
     rt_schedule (rt_schedule_insert_thread t k2) }"

subsection \<open>Birth and death\<close>

definition rt_thread_init_fields ::
  "tid \<Rightarrow> nat \<Rightarrow> nat \<Rightarrow> nat \<Rightarrow> u32 \<Rightarrow> u8 \<Rightarrow> u32 \<Rightarrow> kernel \<Rightarrow> kernel option" where
  "rt_thread_init_fields t entry parameter stack_start stack_size priority tck k = do {
     _ \<leftarrow> rt_assert (priority < RT_THREAD_PRIORITY_MAX);
     let k1 = upd_thread t (\<lambda>th. th\<lparr>th_entry := entry, th_parameter := parameter,
        th_stack_addr := stack_start, th_stack_size := stack_size,
        th_init_priority := priority, th_current_priority := priority, th_number_mask := 0,
        th_init_tick := tck, th_remaining_tick := tck, th_error := RT_EOK, th_stat := RT_THREAD_INIT,
        th_cleanup := None, th_user_data := 0\<rparr>) k;
     rt_timer_init (ThreadTimer t) (o_name (objs k1 (ObjThread t))) (RtThreadTimeout t) 0 0 k1 }"

definition rt_thread_init ::
  "tid \<Rightarrow> string \<Rightarrow> nat \<Rightarrow> nat \<Rightarrow> nat \<Rightarrow> u32 \<Rightarrow> u8 \<Rightarrow> u32 \<Rightarrow> kernel \<Rightarrow> kernel option" where
  "rt_thread_init t name entry parameter stack_start stack_size priority tck k = do {
     _ \<leftarrow> rt_assert (stack_start \<noteq> 0);
     k1 \<leftarrow> rt_object_init (ObjThread t) RT_Object_Class_Thread name k;
     rt_thread_init_fields t entry parameter stack_start stack_size priority tck k1 }"

definition rt_thread_startup :: "tid \<Rightarrow> kernel \<Rightarrow> kernel option" where
  "rt_thread_startup t k = do {
     _ \<leftarrow> rt_assert (thread_state k t = RT_THREAD_INIT);
     _ \<leftarrow> rt_assert (thread_typed k t);
     let k1 = upd_thread t (\<lambda>th. th\<lparr>th_current_priority := th_init_priority th,
        th_number_mask := push_bit (unat (th_init_priority th)) 1, th_stat := RT_THREAD_SUSPEND\<rparr>) k;
     (_, k2) \<leftarrow> rt_thread_resume t k1;
     if current_thread k2 \<noteq> None then rt_schedule k2 else Some k2 }"

definition defunct_insert :: "tid \<Rightarrow> kernel \<Rightarrow> kernel" where
  "defunct_insert t k = k\<lparr>tlists := list_prepend Defunct t (tlists k)\<rparr>"

definition close_thread :: "tid \<Rightarrow> kernel \<Rightarrow> kernel" where
  "close_thread t = upd_thread t (\<lambda>th. th\<lparr>th_stat := RT_THREAD_CLOSE\<rparr>)"

definition rt_thread_exit :: "kernel \<Rightarrow> kernel option" where
  "rt_thread_exit k = do {
     t \<leftarrow> current_thread k;
     let k1 = close_thread t (rt_schedule_remove_thread t k);
     k2 \<leftarrow> rt_timer_detach (ThreadTimer t) k1;
     let k3 = (if rt_object_is_systemobject (ObjThread t) k2 \<and> th_cleanup (threads k2 t) = None
               then rt_object_detach (ObjThread t) k2 else defunct_insert t k2);
     rt_schedule k3 }"

definition rt_thread_detach :: "tid \<Rightarrow> kernel \<Rightarrow> kernel option" where
  "rt_thread_detach t k = do {
     _ \<leftarrow> rt_assert (thread_typed k t);
     _ \<leftarrow> rt_assert (rt_object_is_systemobject (ObjThread t) k);
     let k1 = (if thread_state k t \<noteq> RT_THREAD_INIT then rt_schedule_remove_thread t k else k);
     k2 \<leftarrow> rt_timer_detach (ThreadTimer t) k1;
     let k3 = rt_object_detach (ObjThread t) (close_thread t k2);
     Some (if th_cleanup (threads k3 t) \<noteq> None then defunct_insert t k3 else k3) }"

definition rt_thread_create ::
  "tid option \<Rightarrow> nat option \<Rightarrow> string \<Rightarrow> nat \<Rightarrow> nat \<Rightarrow> u32 \<Rightarrow> u8 \<Rightarrow> u32 \<Rightarrow> kernel \<Rightarrow> (tid option \<times> kernel) option" where
  "rt_thread_create block stack_start name entry parameter stack_size priority tck k = do {
     (r, k1) \<leftarrow> rt_object_allocate (map_option ObjThread block) RT_Object_Class_Thread name k;
     case block of
       None \<Rightarrow> Some (None, k1)
     | Some t \<Rightarrow>
         (case stack_start of
            None \<Rightarrow> do { k2 \<leftarrow> rt_object_delete (ObjThread t) k1; Some (None, k2) }
          | Some st \<Rightarrow> do {
              k2 \<leftarrow> rt_thread_init_fields t entry parameter st stack_size priority tck k1;
              Some (Some t, k2) }) }"

definition rt_thread_delete :: "tid \<Rightarrow> kernel \<Rightarrow> kernel option" where
  "rt_thread_delete t k = do {
     _ \<leftarrow> rt_assert (thread_typed k t);
     _ \<leftarrow> rt_assert (\<not> rt_object_is_systemobject (ObjThread t) k);
     let k1 = (if thread_state k t \<noteq> RT_THREAD_INIT then rt_schedule_remove_thread t k else k);
     k2 \<leftarrow> rt_timer_detach (ThreadTimer t) k1;
     Some (defunct_insert t (close_thread t k2)) }"

subsection \<open>Yielding, sleeping, control\<close>

text \<open>\<open>thread->tlist.next != thread->tlist.prev\<close> holds for a thread on a list exactly when the list has
  another thread (\<open>RT_List.next_neq_prev_refines\<close>).\<close>

definition rt_thread_yield :: "kernel \<Rightarrow> kernel option" where
  "rt_thread_yield k = do {
     t \<leftarrow> current_thread k;
     let h = Ready (th_current_priority (threads k t));
     if thread_state k t = RT_THREAD_READY \<and> 2 \<le> length (tlists k h)
     then rt_schedule (k\<lparr>tlists := list_append h t (list_delete t (tlists k))\<rparr>)
     else Some k }"

definition rt_thread_sleep :: "u32 \<Rightarrow> kernel \<Rightarrow> kernel option" where
  "rt_thread_sleep tck k = do {
     t \<leftarrow> current_thread k;
     _ \<leftarrow> rt_assert (thread_typed k t);
     (_, k1) \<leftarrow> rt_thread_suspend t k;
     (_, k2) \<leftarrow> rt_timer_control (ThreadTimer t) 0 tck k1;
     k3 \<leftarrow> rt_timer_start (ThreadTimer t) k2;
     rt_schedule k3 }"

definition rt_thread_sleep_resume :: "tid \<Rightarrow> kernel \<Rightarrow> rt_err_t \<times> kernel" where
  "rt_thread_sleep_resume t k =
     (RT_EOK, if th_error (threads k t) = - RT_ETIMEOUT
              then upd_thread t (\<lambda>th. th\<lparr>th_error := RT_EOK\<rparr>) k else k)"

definition set_priority :: "tid \<Rightarrow> u8 \<Rightarrow> kernel \<Rightarrow> kernel" where
  "set_priority t p = upd_thread t (\<lambda>th. th\<lparr>th_current_priority := p,
     th_number_mask := push_bit (unat p) 1\<rparr>)"

definition change_priority :: "tid \<Rightarrow> u8 \<Rightarrow> kernel \<Rightarrow> kernel" where
  "change_priority t p k =
     (if thread_state k t = RT_THREAD_READY
      then rt_schedule_insert_thread t (set_priority t p (rt_schedule_remove_thread t k))
      else set_priority t p k)"

text \<open>The commands \<open>STARTUP\<close>, \<open>CLOSE\<close> and \<open>CHANGE_PRIORITY\<close> are 0, 1 and 2.\<close>

definition rt_thread_control :: "tid \<Rightarrow> int \<Rightarrow> u8 \<Rightarrow> kernel \<Rightarrow> kernel option" where
  "rt_thread_control t cmd arg k = do {
     _ \<leftarrow> rt_assert (thread_typed k t);
     if cmd = 2 then Some (change_priority t arg k)
     else if cmd = 0 then rt_thread_startup t k
     else if cmd = 1 then rt_thread_delete t k
     else Some k }"

definition rt_thread_find :: "string \<Rightarrow> kernel \<Rightarrow> (obj_ref option \<times> kernel) option" where
  "rt_thread_find name k = do {
     let k1 = (if current_thread k \<noteq> None then rt_enter_critical k else k);
     information \<leftarrow> rt_object_get_information rt_object_container RT_Object_Class_Thread;
     let found = find_named k1 name (obj_lists k1 information);
     k2 \<leftarrow> (if current_thread k1 \<noteq> None then rt_exit_critical k1 else Some k1);
     Some (found, k2) }"

subsection \<open>The invariant of threads and their timers\<close>

text \<open>A thread that can run or wait is a registered object with a registered timer that wakes it; a
  thread's timer runs only while the thread is suspended.\<close>

definition live :: "kernel \<Rightarrow> tid \<Rightarrow> bool" where
  "live k t \<longleftrightarrow> thread_typed k t \<and> timer_typed k (ThreadTimer t)
     \<and> tm_func (timers k (ThreadTimer t)) = RtThreadTimeout t"

definition threads_inv :: "kernel \<Rightarrow> bool" where
  "threads_inv k \<longleftrightarrow> (\<forall>t.
     (thread_state k t \<in> {RT_THREAD_READY, RT_THREAD_SUSPEND} \<longrightarrow> live k t)
     \<and> (ThreadTimer t \<in> set (timer_list k) \<longrightarrow> thread_state k t = RT_THREAD_SUSPEND))"

definition kinv :: "kernel \<Rightarrow> bool" where
  "kinv k \<longleftrightarrow> ready_inv k \<and> timer_inv k \<and> threads_inv k"

lemma kinvD:
  assumes "kinv k"
  shows "ready_inv k" "timer_inv k" "threads_inv k"
    "thread_state k t = RT_THREAD_READY \<or> thread_state k t = RT_THREAD_SUSPEND \<Longrightarrow> live k t"
    "ThreadTimer t \<in> set (timer_list k) \<Longrightarrow> thread_state k t = RT_THREAD_SUSPEND"
    "thread_state k t = RT_THREAD_READY \<or> thread_state k t = RT_THREAD_SUSPEND \<Longrightarrow> mask_ok (threads k t)"
  using assms thread_okD(3)[OF ready_invD(3)] by (auto simp: kinv_def threads_inv_def)

text \<open>Operations that touch neither threads, nor lists, nor timers.\<close>

definition same_threads :: "kernel \<Rightarrow> kernel \<Rightarrow> bool" where
  "same_threads k k' \<longleftrightarrow> threads k' = threads k \<and> tlists k' = tlists k \<and> ready_group k' = ready_group k
     \<and> objs k' = objs k \<and> timers k' = timers k \<and> timer_list k' = timer_list k \<and> tick k' = tick k"

lemma kinv_same: "kinv k \<Longrightarrow> same_threads k k' \<Longrightarrow> kinv k'"
  by (auto simp: kinv_def same_threads_def threads_inv_def live_def thread_state_def rt_object_get_type_def
      elim: ready_inv_frame intro: timer_inv_frame)

lemma kinv_schedule: "rt_schedule k = Some k' \<Longrightarrow> kinv k \<Longrightarrow> kinv k'"
  using rt_schedule_frame[of k k'] by (auto intro: kinv_same simp: same_threads_def)

lemma rt_timer_stop_sel:
  assumes "rt_timer_stop i k = Some (e, k')"
  shows "threads k' = threads k" "tlists k' = tlists k" "ready_group k' = ready_group k"
    "obj_lists k' = obj_lists k" "timers k' = timers k" "tick k' = tick k"
    "\<And>r. o_type (objs k' r) = o_type (objs k r)" "\<And>r. o_name (objs k' r) = o_name (objs k r)"
    "\<And>r. r \<noteq> ObjTimer i \<Longrightarrow> objs k' r = objs k r"
    "current_thread k' = current_thread k" "lock_nest k' = lock_nest k" "interrupt_nest k' = interrupt_nest k"
    "current_priority k' = current_priority k"
    "sems k' = sems k" "mutexes k' = mutexes k" "events k' = events k" "mailboxes k' = mailboxes k"
    "queues k' = queues k" "pools k' = pools k" "hw_calls k' = hw_calls k"
  using assms by (auto simp: rt_timer_stop_def rt_timer_remove_def deactivate_def
      split: Option.bind_splits if_splits)

lemma rt_timer_stop_list:
  assumes "timer_inv k" "rt_timer_stop i k = Some (e, k')"
  shows "timer_list k' = removeAll i (timer_list k)"
proof (cases "i \<in> set (timer_list k)")
  case True
  with assms timer_invD(5)[OF assms(1) True] show ?thesis
    by (auto simp: rt_timer_stop_def rt_timer_remove_def split: Option.bind_splits if_splits)
next
  case False
  with assms(2) show ?thesis
    by (auto simp: rt_timer_stop_def rt_timer_remove_def split: Option.bind_splits if_splits)
qed

lemma rt_timer_stop_total: "timer_typed k i \<Longrightarrow> \<exists>e k'. rt_timer_stop i k = Some (e, k')"
  by (simp add: rt_timer_stop_def)

lemma suspend_state [simp]:
  "thread_state (upd_thread t (\<lambda>th. th\<lparr>th_stat := RT_THREAD_SUSPEND OR (th_stat th AND NOT RT_THREAD_STAT_MASK)\<rparr>) k) s
   = (if s = t then RT_THREAD_SUSPEND else thread_state k s)"
  by (simp add: thread_state_def stat_write)

lemma thread_state_cong:
  "threads k' s = threads k s \<Longrightarrow> thread_state k' s = thread_state k s"
  by (simp add: thread_state_def)

text \<open>Suspending a ready thread takes it off its ready list, stops its timer and leaves it on no
  list.\<close>

lemma rt_thread_suspend_ready:
  assumes i: "kinv k" and r: "thread_state k t = RT_THREAD_READY"
  obtains k' where "rt_thread_suspend t k = Some (RT_EOK, k')" "kinv k'"
    "thread_state k' t = RT_THREAD_SUSPEND" "on_none (tlists k') t"
    "tlists k' = list_delete t (tlists k)" "timer_list k' = removeAll (ThreadTimer t) (timer_list k)"
    "\<And>s. s \<noteq> t \<Longrightarrow> threads k' s = threads k s"
    "threads k' t = (threads k t)\<lparr>th_stat := th_stat (threads k' t)\<rparr>"
    "\<And>x. o_type (objs k' x) = o_type (objs k x)" "\<And>x. x \<noteq> ObjTimer (ThreadTimer t) \<Longrightarrow> objs k' x = objs k x"
    "timers k' = timers k" "tick k' = tick k" "current_thread k' = current_thread k"
    "lock_nest k' = lock_nest k" "interrupt_nest k' = interrupt_nest k"
    "sems k' = sems k" "mutexes k' = mutexes k" "events k' = events k"
    "mailboxes k' = mailboxes k" "queues k' = queues k" "pools k' = pools k"
proof -
  let ?f = "\<lambda>th. th\<lparr>th_stat := RT_THREAD_SUSPEND OR (th_stat th AND NOT RT_THREAD_STAT_MASK)\<rparr>"
  let ?k = "rt_schedule_remove_thread t (upd_thread t ?f k)"
  have l: "live k t" and m: "mask_ok (threads k t)" using kinvD(4,6)[OF i, of t] r by simp_all
  have wo: "ready_inv_wo t ?k" using kinvD(1)[OF i] m by (rule remove_thread_wo) simp_all
  have st: "thread_state ?k s = (if s = t then RT_THREAD_SUSPEND else thread_state k s)" for s
    using suspend_state[of t k s] by (simp add: thread_state_def)
  have ri: "ready_inv ?k" by (rule ready_inv_settle[OF wo]) (use st m in \<open>simp_all add: mask_ok_def\<close>)
  have ti: "timer_inv ?k" using kinvD(2)[OF i] by (rule timer_inv_frame) simp_all
  have "timer_typed ?k (ThreadTimer t)" using l by (simp add: live_def rt_object_get_type_def)
  then obtain e k' where s: "rt_timer_stop (ThreadTimer t) ?k = Some (e, k')"
    using rt_timer_stop_total by blast
  note f = rt_timer_stop_sel[OF s] and tl = rt_timer_stop_list[OF ti s]
  have st': "thread_state k' u = thread_state ?k u" for u by (rule thread_state_cong) (simp add: f(1))
  have "ready_inv k'" using ri f(1,2,3) by (rule_tac ready_inv_frame[of ?k]) simp_all
  moreover have "timer_inv k'" using timer_inv_stop[OF s ti] .
  moreover have "threads_inv k'"
    using kinvD(3)[OF i] l tl f(5,7) st st'
    by (auto simp: threads_inv_def live_def rt_object_get_type_def)
  ultimately have "kinv k'" by (simp add: kinv_def)
  moreover have "rt_thread_suspend t k = Some (RT_EOK, k')"
    using s l r by (simp add: rt_thread_suspend_def live_def)
  ultimately show ?thesis
    using st st' f tl by (intro that[of k']) simp_all
qed

lemma rt_thread_suspend_not_ready:
  "thread_typed k t \<Longrightarrow> thread_state k t \<noteq> RT_THREAD_READY \<Longrightarrow> rt_thread_suspend t k = Some (- RT_ERROR, k)"
  by (simp add: rt_thread_suspend_def)


text \<open>Waking a suspended thread: whatever list it waits on, it ends at the tail of the ready list of
  its priority.\<close>

lemma wake_ready:
  assumes i: "ready_inv k" and s: "thread_state k t = RT_THREAD_SUSPEND"
  shows "ready_inv (rt_schedule_insert_thread t (k\<lparr>tlists := list_delete t (tlists k)\<rparr>))"
proof -
  have "t \<notin> set (tlists k (Ready p))" for p by (rule not_ready_on_no_ready_list[OF i]) (simp add: s)
  then have same: "removeAll t (tlists k (Ready p)) = tlists k (Ready p)" for p by simp
  have "ready_inv_wo t (k\<lparr>tlists := list_delete t (tlists k)\<rparr>)"
    using ready_invD[OF i] disjoint_delete[OF ready_invD(1)[OF i], of t] same
    by (auto simp: ready_inv_wo_def bitmap_ok_def thread_ok_def thread_state_def)
  moreover have "mask_ok (threads k t)" using thread_okD(3)[OF ready_invD(3)[OF i], of t] s by simp
  ultimately show ?thesis by (intro insert_thread_inv) simp_all
qed

lemma rt_thread_resume_suspended:
  assumes i: "kinv k" and r: "thread_state k t = RT_THREAD_SUSPEND"
  obtains k' where "rt_thread_resume t k = Some (RT_EOK, k')" "kinv k'"
    "thread_state k' t = RT_THREAD_READY" "\<And>s. s \<noteq> t \<Longrightarrow> threads k' s = threads k s"
    "threads k' t = (threads k t)\<lparr>th_stat := th_stat (threads k' t)\<rparr>"
    "tlists k' = list_append (Ready (th_current_priority (threads k t))) t (list_delete t (tlists k))"
    "timer_list k' = removeAll (ThreadTimer t) (timer_list k)"
    "\<And>x. o_type (objs k' x) = o_type (objs k x)" "\<And>x. x \<noteq> ObjTimer (ThreadTimer t) \<Longrightarrow> objs k' x = objs k x"
    "timers k' = timers k" "tick k' = tick k" "current_thread k' = current_thread k"
    "lock_nest k' = lock_nest k" "interrupt_nest k' = interrupt_nest k"
    "sems k' = sems k" "mutexes k' = mutexes k" "events k' = events k"
    "mailboxes k' = mailboxes k" "queues k' = queues k" "pools k' = pools k"
proof -
  let ?d = "k\<lparr>tlists := list_delete t (tlists k)\<rparr>"
  have l: "live k t" using kinvD(4)[OF i, of t] r by simp
  have ti: "timer_inv ?d" using kinvD(2)[OF i] by (rule timer_inv_frame) simp_all
  have "timer_typed ?d (ThreadTimer t)" using l by (simp add: live_def rt_object_get_type_def)
  then obtain e k1 where s: "rt_timer_stop (ThreadTimer t) ?d = Some (e, k1)"
    using rt_timer_stop_total by blast
  note f = rt_timer_stop_sel[OF s] and tl = rt_timer_stop_list[OF ti s]
  let ?k = "rt_schedule_insert_thread t k1"
  have "ready_inv ?k"
    by (rule ready_inv_frame[OF wake_ready[OF kinvD(1)[OF i] r]]) (simp_all add: f)
  moreover have "timer_inv ?k"
    using timer_inv_stop[OF s ti] by (rule timer_inv_frame) simp_all
  moreover have "threads_inv ?k"
    using kinvD(3)[OF i] l tl f(1,5,7)
    by (auto simp: threads_inv_def live_def rt_object_get_type_def thread_state_def)
  ultimately have "kinv ?k" by (simp add: kinv_def)
  moreover have "rt_thread_resume t k = Some (RT_EOK, ?k)"
    using s l r by (simp add: rt_thread_resume_def live_def)
  ultimately show ?thesis using f tl by (intro that[of ?k]) simp_all
qed

lemma rt_thread_resume_not_suspended:
  "thread_typed k t \<Longrightarrow> thread_state k t \<noteq> RT_THREAD_SUSPEND \<Longrightarrow> rt_thread_resume t k = Some (- RT_ERROR, k)"
  by (simp add: rt_thread_resume_def)

text \<open>The timeout of a wait: the timer has been taken off the list by the tick handler before.\<close>

lemma kinv_thread_upd:
  assumes "kinv k"
    and "\<And>th. th_stat (f th) = th_stat th" "\<And>th. th_current_priority (f th) = th_current_priority th"
    "\<And>th. th_number_mask (f th) = th_number_mask th"
  shows "kinv (upd_thread t f k)"
proof -
  have st: "thread_state (upd_thread t f k) s = thread_state k s" for s
    by (simp add: thread_state_def assms)
  have "thread_ok (upd_thread t f k) s" for s
    using ready_invD(3)[OF kinvD(1)[OF assms(1)], of s]
    by (cases "s = t") (simp_all add: thread_ok_def st mask_ok_def assms(2-))
  then have "ready_inv (upd_thread t f k)"
    using ready_invD[OF kinvD(1)[OF assms(1)]] by (simp add: ready_inv_def bitmap_ok_def)
  moreover have "timer_inv (upd_thread t f k)"
    using kinvD(2)[OF assms(1)] by (rule timer_inv_frame) simp_all
  ultimately show ?thesis
    using kinvD(3)[OF assms(1)] by (simp add: kinv_def threads_inv_def st live_def rt_object_get_type_def)
qed

lemma wake_kinv:
  assumes i: "kinv k" and r: "thread_state k t = RT_THREAD_SUSPEND"
    and nt: "ThreadTimer t \<notin> set (timer_list k)"
  shows "kinv (rt_schedule_insert_thread t (k\<lparr>tlists := list_delete t (tlists k)\<rparr>))" (is "kinv ?k")
proof -
  have l: "live k t" using kinvD(4)[OF i, of t] r by simp
  have "timer_inv ?k" using kinvD(2)[OF i] by (rule timer_inv_frame) simp_all
  moreover have "threads_inv ?k"
    using kinvD(3)[OF i] l nt by (auto simp: threads_inv_def live_def rt_object_get_type_def thread_state_def)
  ultimately show ?thesis using wake_ready[OF kinvD(1)[OF i] r] by (simp add: kinv_def)
qed

lemma rt_thread_timeout_wakes:
  assumes i: "kinv k" and r: "thread_state k t = RT_THREAD_SUSPEND"
    and nt: "ThreadTimer t \<notin> set (timer_list k)"
  obtains k' where "rt_thread_timeout t k = Some k'" "kinv k'"
    "thread_state k' t = RT_THREAD_READY" "th_error (threads k' t) = - RT_ETIMEOUT"
    "tlists k' = list_append (Ready (th_current_priority (threads k t))) t (list_delete t (tlists k))"
    "\<And>s. s \<noteq> t \<Longrightarrow> threads k' s = threads k s" "timer_list k' = timer_list k" "timers k' = timers k"
    "objs k' = objs k" "tick k' = tick k"
    "\<And>s. s \<noteq> t \<Longrightarrow> thread_state k' s = thread_state k s"
    "lock_nest k' = lock_nest k" "interrupt_nest k' = interrupt_nest k" "lock_nest k = 0 \<Longrightarrow> settled k'"
    "sems k' = sems k" "mutexes k' = mutexes k" "events k' = events k"
    "mailboxes k' = mailboxes k" "queues k' = queues k" "pools k' = pools k"
proof -
  let ?e = "upd_thread t (\<lambda>th. th\<lparr>th_error := - RT_ETIMEOUT\<rparr>) k"
  let ?k = "rt_schedule_insert_thread t (?e\<lparr>tlists := list_delete t (tlists ?e)\<rparr>)"
  have e: "kinv ?e" using i by (rule kinv_thread_upd) simp_all
  have s: "thread_state ?e t = RT_THREAD_SUSPEND" using r by (simp add: thread_state_def)
  have k: "kinv ?k" using wake_kinv[OF e s] nt by simp
  have "thread_state ?k t = RT_THREAD_READY" by simp
  from rt_schedule_some[OF kinvD(1)[OF k] this] obtain k' where sc: "rt_schedule ?k = Some k'" by blast
  note f = rt_schedule_frame[OF sc]
  have "rt_thread_timeout t k = Some k'"
    using r sc kinvD(4)[OF i, of t] by (simp add: rt_thread_timeout_def live_def Let_def)
  moreover have "thread_state k' t = RT_THREAD_READY"
    using thread_state_cong[of k' t ?k] f(2) by simp
  moreover have "settled k'" if "lock_nest k = 0" using rt_schedule_settles[OF kinvD(1)[OF k] sc] that by simp
  ultimately show ?thesis
    using kinv_schedule[OF sc k] f by (intro that[of k']) (simp_all add: thread_state_def)
qed

subsection \<open>Priorities\<close>

lemma set_priority_sel [simp]:
  "tlists (set_priority t p k) = tlists k" "objs (set_priority t p k) = objs k"
  "timers (set_priority t p k) = timers k" "timer_list (set_priority t p k) = timer_list k"
  "tick (set_priority t p k) = tick k" "mutexes (set_priority t p k) = mutexes k"
  "current_thread (set_priority t p k) = current_thread k" "lock_nest (set_priority t p k) = lock_nest k"
  "threads (set_priority t p k) = (threads k)(t := (threads k t)\<lparr>th_current_priority := p,
     th_number_mask := push_bit (unat p) 1\<rparr>)"
  "thread_state (set_priority t p k) s = thread_state k s"
  by (simp_all add: set_priority_def thread_state_def)

lemma change_priority_sel [simp]:
  "objs (change_priority t p k) = objs k" "timers (change_priority t p k) = timers k"
  "timer_list (change_priority t p k) = timer_list k" "tick (change_priority t p k) = tick k"
  "current_thread (change_priority t p k) = current_thread k"
  "lock_nest (change_priority t p k) = lock_nest k"
  "interrupt_nest (change_priority t p k) = interrupt_nest k"
  "sems (change_priority t p k) = sems k" "mutexes (change_priority t p k) = mutexes k"
  "events (change_priority t p k) = events k" "mailboxes (change_priority t p k) = mailboxes k"
  "queues (change_priority t p k) = queues k" "pools (change_priority t p k) = pools k"
  "thread_state (change_priority t p k) s = thread_state k s"
  "s \<noteq> t \<Longrightarrow> threads (change_priority t p k) s = threads k s"
  "th_current_priority (threads (change_priority t p k) t) = p"
  "th_error (threads (change_priority t p k) s) = th_error (threads k s)"
  "tlists (change_priority t p k) (Suspended r) = (if thread_state k t = RT_THREAD_READY
     then removeAll t (tlists k (Suspended r)) else tlists k (Suspended r))"
  by (auto simp: change_priority_def thread_state_def set_priority_def list_append_def stat_write)

lemma mask_ok_new: "p < RT_THREAD_PRIORITY_MAX \<Longrightarrow>
    mask_ok (th\<lparr>th_current_priority := p, th_number_mask := push_bit (unat p) 1\<rparr>)"
  by (simp add: mask_ok_def RT_THREAD_PRIORITY_MAX_def)

lemma change_priority_ready_inv:
  assumes i: "ready_inv k" and p: "p < RT_THREAD_PRIORITY_MAX"
  shows "ready_inv (change_priority t p k)"
proof (cases "thread_state k t = RT_THREAD_READY")
  case True
  have m: "mask_ok (threads k t)" using thread_okD(3)[OF ready_invD(3)[OF i], of t] True by simp
  have "ready_inv_wo t (set_priority t p (rt_schedule_remove_thread t k))"
    unfolding set_priority_def using remove_thread_wo'[OF i m] by simp
  then show ?thesis using True mask_ok_new[OF p]
    by (simp add: change_priority_def insert_thread_inv)
next
  case False
  have "thread_ok (set_priority t p k) s" for s
    using ready_invD(3)[OF i, of s] False mask_ok_new[OF p]
    by (cases "s = t") (auto simp: thread_ok_def)
  then show ?thesis using False ready_invD(1,2)[OF i]
    by (simp add: change_priority_def ready_inv_def bitmap_ok_def set_priority_def)
qed

lemma change_priority_kinv:
  assumes "kinv k" "p < RT_THREAD_PRIORITY_MAX"
  shows "kinv (change_priority t p k)"
proof -
  have "timer_inv (change_priority t p k)" using kinvD(2)[OF assms(1)] by (rule timer_inv_frame) simp_all
  then show ?thesis using change_priority_ready_inv[OF kinvD(1)[OF assms(1)] assms(2)] kinvD(3)[OF assms(1)]
    by (simp add: kinv_def threads_inv_def live_def rt_object_get_type_def)
qed

subsection \<open>Starting a thread\<close>

text \<open>What \<open>rt_thread_init\<close> leaves behind: an initialised thread that is not scheduled.\<close>

definition startable :: "kernel \<Rightarrow> tid \<Rightarrow> bool" where
  "startable k t \<longleftrightarrow> live k t \<and> thread_state k t = RT_THREAD_INIT
     \<and> th_init_priority (threads k t) < RT_THREAD_PRIORITY_MAX"

lemma head_state_nonzero: "head_state h \<noteq> RT_THREAD_INIT"
  by (cases h) simp_all

lemma init_on_none: "kinv k \<Longrightarrow> thread_state k t = RT_THREAD_INIT \<Longrightarrow> on_none (tlists k) t"
  using thread_okD(1)[OF ready_invD(3)[OF kinvD(1)], of k t] head_state_nonzero
  unfolding on_none_def by metis

lemma rt_thread_startup_ready:
  assumes i: "kinv k" and s: "startable k t"
  obtains k' where "rt_thread_startup t k = Some k'" "kinv k'" "thread_state k' t = RT_THREAD_READY"
    "th_current_priority (threads k' t) = th_init_priority (threads k t)"
    "\<And>s. s \<noteq> t \<Longrightarrow> threads k' s = threads k s"
    "tlists k' = list_append (Ready (th_init_priority (threads k t))) t (tlists k)"
proof -
  let ?f = "\<lambda>th. th\<lparr>th_current_priority := th_init_priority th,
        th_number_mask := push_bit (unat (th_init_priority th)) 1, th_stat := RT_THREAD_SUSPEND\<rparr>"
  define k1 where "k1 = upd_thread t ?f k"
  have sel: "timers k1 = timers k" "timer_list k1 = timer_list k" "objs k1 = objs k" "tick k1 = tick k"
    "tlists k1 = tlists k" "\<And>s. s \<noteq> t \<Longrightarrow> threads k1 s = threads k s"
    "th_current_priority (threads k1 t) = th_init_priority (threads k t)"
    by (simp_all add: k1_def)
  have n: "on_none (tlists k) t" using init_on_none[OF i] s by (simp add: startable_def)
  have st: "thread_state k1 s = (if s = t then RT_THREAD_SUSPEND else thread_state k s)" for s
    by (simp add: thread_state_def k1_def)
  have "ready_inv_wo t k1" using ready_inv_wo_none[OF kinvD(1)[OF i] n] by (simp add: k1_def)
  then have "ready_inv k1" by (rule ready_inv_settle)
      (use s in \<open>simp_all add: st, simp add: k1_def mask_ok_def startable_def RT_THREAD_PRIORITY_MAX_def\<close>)
  moreover have "timer_inv k1" using kinvD(2)[OF i] by (rule timer_inv_frame) (simp_all add: sel)
  moreover have "threads_inv k1" using kinvD(3)[OF i] s
    by (auto simp: threads_inv_def st sel startable_def live_def rt_object_get_type_def)
  ultimately have k: "kinv k1" by (simp add: kinv_def)
  have "thread_state k1 t = RT_THREAD_SUSPEND" by (simp add: st)
  from rt_thread_resume_suspended[OF k this] obtain k2 where
    r: "rt_thread_resume t k1 = Some (RT_EOK, k2)" "kinv k2" "thread_state k2 t = RT_THREAD_READY"
      "\<And>s. s \<noteq> t \<Longrightarrow> threads k2 s = threads k1 s"
      "threads k2 t = (threads k1 t)\<lparr>th_stat := th_stat (threads k2 t)\<rparr>"
      "tlists k2 = list_append (Ready (th_current_priority (threads k1 t))) t (list_delete t (tlists k1))"
    by metis
  obtain k' where sc: "(if current_thread k2 \<noteq> None then rt_schedule k2 else Some k2) = Some k'"
    using rt_schedule_some[OF kinvD(1)[OF r(2)] r(3)] by (cases "current_thread k2 = None") auto
  have f: "threads k' = threads k2" "tlists k' = tlists k2" "kinv k'"
    using sc rt_schedule_frame[of k2 k'] kinv_schedule[of k2 k'] r(2) by (auto split: if_splits)
  have "rt_thread_startup t k = Some k'"
    using s r(1) sc by (simp add: rt_thread_startup_def startable_def live_def Let_def k1_def)
  moreover have "th_current_priority (threads k2 t) = th_init_priority (threads k t)"
    by (subst r(5)) (simp add: sel)
  ultimately show ?thesis using f r(3,4,6) list_delete_none[OF n] sel
    by (intro that[of k']) (simp_all add: thread_state_def)
qed

text \<open>Initialisation of a thread that is not in use.\<close>

lemma rt_thread_init_startable:
  assumes i: "kinv k" and u: "thread_state k t = RT_THREAD_INIT \<or> thread_state k t = RT_THREAD_CLOSE"
    and p: "priority < RT_THREAD_PRIORITY_MAX" and n: "on_none (tlists k) t"
    and r: "rt_thread_init t name entry param stk sz priority tck k = Some k'"
  shows "kinv k'" "startable k' t" "th_init_priority (threads k' t) = priority"
    "o_name (objs k' (ObjTimer (ThreadTimer t))) = rt_strncpy (rt_strncpy name RT_NAME_MAX) RT_NAME_MAX"
    "\<And>s. s \<noteq> t \<Longrightarrow> threads k' s = threads k s"
proof -
  have nt: "ThreadTimer t \<notin> set (timer_list k)" using kinvD(5)[OF i, of t] u by auto
  have r': "timer_list k' = timer_list k" "tlists k' = tlists k" "ready_group k' = ready_group k" "tick k' = tick k"
    "\<And>s. s \<noteq> t \<Longrightarrow> threads k' s = threads k s" "th_stat (threads k' t) = 0"
    "th_init_priority (threads k' t) = priority"
    "\<And>j. j \<noteq> ThreadTimer t \<Longrightarrow> timers k' j = timers k j" "tm_func (timers k' (ThreadTimer t)) = RtThreadTimeout t"
    "\<And>x. x \<noteq> ObjTimer (ThreadTimer t) \<Longrightarrow> x \<noteq> ObjThread t \<Longrightarrow> objs k' x = objs k x"
    "o_type (objs k' (ObjThread t)) = RT_Object_Class_Thread OR RT_Object_Class_Static"
    "o_type (objs k' (ObjTimer (ThreadTimer t))) = RT_Object_Class_Timer OR RT_Object_Class_Static"
    "o_name (objs k' (ObjTimer (ThreadTimer t))) = rt_strncpy (rt_strncpy name RT_NAME_MAX) RT_NAME_MAX"
    using r by (auto simp: rt_thread_init_def rt_thread_init_fields_def rt_timer_init_def rt_object_init_def
        rt_timer_init_fields_def Let_def deactivate_def split: Option.bind_splits)
  show "th_init_priority (threads k' t) = priority" by (rule r')
  show "o_name (objs k' (ObjTimer (ThreadTimer t))) = rt_strncpy (rt_strncpy name RT_NAME_MAX) RT_NAME_MAX"
    by (rule r')
  show "\<And>s. s \<noteq> t \<Longrightarrow> threads k' s = threads k s" by (rule r')
  have st: "thread_state k' s = (if s = t then RT_THREAD_INIT else thread_state k s)" for s
    using r'(5,6) by (simp add: thread_state_def)
  have "ready_inv_wo t k'" using ready_inv_wo_none[OF kinvD(1)[OF i] n] r'(2,3,5)
    by (auto simp: ready_inv_wo_def bitmap_ok_def thread_ok_def thread_state_def)
  then have ri: "ready_inv k'" by (rule ready_inv_settle) (simp_all add: st)
  have lt: "live k' t" using r'(9,11,12) by (simp add: live_def rt_object_get_type_def)
  have "due_in k' j = due_in k j" if "j \<in> set (timer_list k)" for j
    using that nt r'(4) r'(8)[of j] by (cases "j = ThreadTimer t") (simp_all add: due_in_def)
  moreover have "objs k' (ObjTimer j) = objs k (ObjTimer j)" if "j \<in> set (timer_list k)" for j
    using that nt r'(10)[of "ObjTimer j"] by (cases "j = ThreadTimer t") simp_all
  ultimately have ti: "timer_inv k'" using kinvD(2)[OF i] r'(1)
    by (simp add: timer_inv_def rt_object_get_type_def) (auto intro: sorted_wrt_mono_rel[rotated])
  have "live k' s = live k s" if "s \<noteq> t" for s using that r'(8,10) by (simp add: live_def rt_object_get_type_def)
  with kinvD(3)[OF i] lt nt st r'(1) ri ti show "kinv k'"
    unfolding kinv_def threads_inv_def by metis
  show "startable k' t" using lt st[of t] p r'(7) by (simp add: startable_def)
qed

subsection \<open>Ending a thread\<close>

lemma rt_timer_detach_sel:
  assumes "rt_timer_detach i k = Some k'"
  shows "threads k' = threads k" "tlists k' = tlists k" "ready_group k' = ready_group k" "timers k' = timers k"
    "tick k' = tick k" "timer_list k' = removeAll i (timer_list k)"
    "\<And>x. x \<noteq> ObjTimer i \<Longrightarrow> objs k' x = objs k x" "current_thread k' = current_thread k"
    "lock_nest k' = lock_nest k" "timer_typed k i" "obj_lists k' = list_delete (ObjTimer i) (obj_lists k)"
  using assms by (auto simp: rt_timer_detach_def rt_object_detach_def rt_timer_remove_def
      split: Option.bind_splits)

text \<open>A closed thread may be registered or not: nothing is asked of it but that it waits for nothing.\<close>

lemma retire_kinv:
  assumes i: "kinv k" and wo: "ready_inv_wo t k'" and c: "thread_state k' t = RT_THREAD_CLOSE"
    and th: "\<And>s. s \<noteq> t \<Longrightarrow> threads k' s = threads k s"
    and tm: "timers k' = timers k" "tick k' = tick k" "timer_list k' = removeAll (ThreadTimer t) (timer_list k)"
    and ob: "\<And>x. x \<noteq> ObjTimer (ThreadTimer t) \<Longrightarrow> x \<noteq> ObjThread t \<Longrightarrow> objs k' x = objs k x"
  shows "kinv k'"
proof -
  have "ready_inv k'" using wo by (rule ready_inv_settle) (simp_all add: c)
  moreover have "timer_inv k'" using kinvD(2)[OF i] tm(3,1,2) ob by (rule timer_inv_shorter) auto
  moreover have "thread_state k' s = thread_state k s" if "s \<noteq> t" for s
    using th[OF that] by (simp add: thread_state_def)
  moreover have "live k' s = live k s" if "s \<noteq> t" for s
    using that ob tm by (simp add: live_def rt_object_get_type_def)
  moreover have "ThreadTimer s \<in> set (timer_list k') \<Longrightarrow> s \<noteq> t" for s using tm(3) by auto
  moreover have "ThreadTimer s \<in> set (timer_list k') \<Longrightarrow> ThreadTimer s \<in> set (timer_list k)" for s using tm(3) by auto
  moreover have "thread_state k' t \<noteq> RT_THREAD_READY" "thread_state k' t \<noteq> RT_THREAD_SUSPEND"
    by (simp_all add: c)
  ultimately have "threads_inv k'" using kinvD(3)[OF i] unfolding threads_inv_def insert_iff empty_iff
    by metis
  with \<open>ready_inv k'\<close> \<open>timer_inv k'\<close> show ?thesis by (simp add: kinv_def)
qed


text \<open>Deleting, detaching and leaving a thread: whatever it was waiting for or running on, it is on no
  ready or suspend list afterwards and its timer does not run.\<close>

definition retired :: "kernel \<Rightarrow> tid \<Rightarrow> bool" where
  "retired k t \<longleftrightarrow> thread_state k t = RT_THREAD_CLOSE
     \<and> ThreadTimer t \<notin> set (timer_list k) \<and> (\<forall>h. h \<noteq> Defunct \<longrightarrow> t \<notin> set (tlists k h))"

lemma closed_state [simp]:
  "thread_state (close_thread t k) s = (if s = t then RT_THREAD_CLOSE else thread_state k s)"
  by (simp add: close_thread_def thread_state_def)

lemma defunct_insert_kinv:
  assumes i: "kinv k" and n: "on_none (tlists k) t" and c: "thread_state k t = RT_THREAD_CLOSE"
  shows "kinv (defunct_insert t k)"
proof -
  let ?k = "defunct_insert t k"
  have "disjoint_lists (tlists ?k)"
    using disjoint_prepend[OF ready_invD(1)[OF kinvD(1)[OF i]] n] by (simp add: defunct_insert_def)
  moreover have "bitmap_ok ?k" using ready_invD(2)[OF kinvD(1)[OF i]]
    by (simp add: bitmap_ok_def defunct_insert_def list_prepend_def)
  moreover have "thread_ok ?k s" for s
    using ready_invD(3)[OF kinvD(1)[OF i], of s] c
    by (auto simp: thread_ok_def defunct_insert_def list_prepend_def thread_state_def)
  ultimately have "ready_inv ?k" by (simp add: ready_inv_def)
  moreover have "timer_inv ?k" using kinvD(2)[OF i] by (rule timer_inv_frame) (simp_all add: defunct_insert_def)
  ultimately show ?thesis using kinvD(3)[OF i]
    by (simp add: kinv_def threads_inv_def defunct_insert_def live_def rt_object_get_type_def thread_state_def)
qed

lemma unschedule_wo:
  assumes i: "kinv k" and s: "thread_state k t \<in> {RT_THREAD_INIT, RT_THREAD_READY, RT_THREAD_SUSPEND}"
    and k1: "k1 = (if thread_state k t \<noteq> RT_THREAD_INIT then rt_schedule_remove_thread t k else k)"
  shows "ready_inv_wo t k1"
proof (cases "thread_state k t = RT_THREAD_INIT")
  case True
  then show ?thesis using ready_inv_wo_none[OF kinvD(1)[OF i] init_on_none[OF i True]] k1 by simp
next
  case False
  with s kinvD(6)[OF i, of t] show ?thesis using remove_thread_wo'[OF kinvD(1)[OF i]] k1 by auto
qed

lemma ready_inv_wo_frame:
  assumes "ready_inv_wo t k" "tlists k' = tlists k" "ready_group k' = ready_group k"
    "\<And>s. s \<noteq> t \<Longrightarrow> threads k' s = threads k s"
  shows "ready_inv_wo t k'"
  using assms by (simp add: ready_inv_wo_def bitmap_ok_def thread_ok_def thread_state_def)

lemma end_thread_kinv:
  assumes i: "kinv k" and s: "thread_state k t \<in> {RT_THREAD_INIT, RT_THREAD_READY, RT_THREAD_SUSPEND}"
    and k1: "k1 = (if thread_state k t \<noteq> RT_THREAD_INIT then rt_schedule_remove_thread t k else k)"
    and d: "rt_timer_detach (ThreadTimer t) k1 = Some k2"
  shows "kinv (close_thread t k2)" "retired (close_thread t k2) t" "on_none (tlists (close_thread t k2)) t"
    "\<And>s. s \<noteq> t \<Longrightarrow> threads (close_thread t k2) s = threads k s"
proof -
  note f = rt_timer_detach_sel[OF d] and wo = unschedule_wo[OF i s k1]
  have sel: "threads k1 = threads k" "objs k1 = objs k" "timers k1 = timers k" "tick k1 = tick k"
    "timer_list k1 = timer_list k" using k1 by simp_all
  show n: "on_none (tlists (close_thread t k2)) t" using wo f(2) by (simp add: ready_inv_wo_def close_thread_def)
  show th: "\<And>s. s \<noteq> t \<Longrightarrow> threads (close_thread t k2) s = threads k s" using f(1) sel by (simp add: close_thread_def)
  have "ready_inv_wo t (close_thread t k2)"
    using wo by (rule ready_inv_wo_frame) (use f in \<open>simp_all add: close_thread_def\<close>)
  then show "kinv (close_thread t k2)"
    by (rule retire_kinv[OF i]) (use f sel th in \<open>simp_all add: close_thread_def thread_state_def\<close>)
  show "retired (close_thread t k2) t" using n f sel
    by (simp add: retired_def on_none_def) (simp add: close_thread_def)
qed

lemma detach_object_kinv:
  assumes "kinv k" "thread_state k t = RT_THREAD_CLOSE"
  shows "kinv (rt_object_detach (ObjThread t) k)"
proof -
  let ?k = "rt_object_detach (ObjThread t) k"
  have f: "threads ?k = threads k" "tlists ?k = tlists k" "ready_group ?k = ready_group k"
    "timers ?k = timers k" "timer_list ?k = timer_list k" "tick ?k = tick k"
    "\<And>x. x \<noteq> ObjThread t \<Longrightarrow> objs ?k x = objs k x"
    by (simp_all add: rt_object_detach_def Let_def)
  have st: "thread_state ?k s = thread_state k s" for s using f by (simp add: thread_state_def)
  have "timer_inv ?k" using kinvD(2)[OF assms(1)] by (rule timer_inv_frame) (simp_all add: f)
  moreover have "ready_inv ?k" using kinvD(1)[OF assms(1)] by (rule ready_inv_frame) (simp_all add: f)
  moreover have "live ?k s = live k s" if "s \<noteq> t" for s using f that by (simp add: live_def rt_object_get_type_def)
  moreover have "threads_inv ?k" unfolding threads_inv_def st f
  proof
    fix s
    show "(thread_state k s \<in> {RT_THREAD_READY, RT_THREAD_SUSPEND} \<longrightarrow> live ?k s)
      \<and> (ThreadTimer s \<in> set (timer_list k) \<longrightarrow> thread_state k s = RT_THREAD_SUSPEND)"
      using calculation(3)[of s] kinvD(4,5)[OF assms(1), of s] assms(2) by (cases "s = t") auto
  qed
  ultimately show ?thesis by (simp add: kinv_def)
qed

lemma detach_object_sel [simp]:
  "threads (rt_object_detach r k) = threads k" "tlists (rt_object_detach r k) = tlists k"
  "timer_list (rt_object_detach r k) = timer_list k" "current_thread (rt_object_detach r k) = current_thread k"
  "lock_nest (rt_object_detach r k) = lock_nest k" "thread_state (rt_object_detach r k) s = thread_state k s"
  by (simp_all add: rt_object_detach_def Let_def thread_state_def)

lemma defunct_insert_sel [simp]:
  "threads (defunct_insert t k) = threads k" "timer_list (defunct_insert t k) = timer_list k"
  "tlists (defunct_insert t k) h = (if h = Defunct then t # tlists k Defunct else tlists k h)"
  "thread_state (defunct_insert t k) s = thread_state k s"
  by (simp_all add: defunct_insert_def list_prepend_def thread_state_def)

lemma retired_frame:
  "retired k t \<Longrightarrow> retired (defunct_insert t k) t" "retired k t \<Longrightarrow> retired (rt_object_detach r k) t"
  by (auto simp: retired_def)

lemma rt_thread_delete_retires:
  assumes i: "kinv k" and s: "thread_state k t \<in> {RT_THREAD_INIT, RT_THREAD_READY, RT_THREAD_SUSPEND}"
    and d: "rt_thread_delete t k = Some k'"
  shows "kinv k'" "retired k' t" "t \<in> set (tlists k' Defunct)" "\<And>s. s \<noteq> t \<Longrightarrow> threads k' s = threads k s"
proof -
  obtain k2 where k2: "rt_timer_detach (ThreadTimer t)
      (if thread_state k t \<noteq> RT_THREAD_INIT then rt_schedule_remove_thread t k else k) = Some k2"
    and k': "k' = defunct_insert t (close_thread t k2)"
    using d by (auto simp: rt_thread_delete_def Let_def split: Option.bind_splits)
  note e = end_thread_kinv[OF i s refl k2]
  show "kinv k'" unfolding k' by (rule defunct_insert_kinv[OF e(1,3)]) simp
  show "retired k' t" unfolding k' using e(2) by (rule retired_frame)
  show "t \<in> set (tlists k' Defunct)" "\<And>s. s \<noteq> t \<Longrightarrow> threads k' s = threads k s"
    using e(4) by (simp_all add: k')
qed

lemma rt_thread_detach_retires:
  assumes i: "kinv k" and s: "thread_state k t \<in> {RT_THREAD_INIT, RT_THREAD_READY, RT_THREAD_SUSPEND}"
    and d: "rt_thread_detach t k = Some k'"
  shows "kinv k'" "retired k' t" "\<And>s. s \<noteq> t \<Longrightarrow> threads k' s = threads k s"
proof -
  obtain k2 where k2: "rt_timer_detach (ThreadTimer t)
      (if thread_state k t \<noteq> RT_THREAD_INIT then rt_schedule_remove_thread t k else k) = Some k2"
    and k': "k' = (let k3 = rt_object_detach (ObjThread t) (close_thread t k2) in
       if th_cleanup (threads k3 t) \<noteq> None then defunct_insert t k3 else k3)"
    using d unfolding rt_thread_detach_def Let_def by (auto split: Option.bind_splits)
  note e = end_thread_kinv[OF i s refl k2]
  have k3: "kinv (rt_object_detach (ObjThread t) (close_thread t k2))"
    by (rule detach_object_kinv[OF e(1)]) simp
  then show "kinv k'" unfolding k' Let_def using e(3) by (auto intro!: defunct_insert_kinv)
  show "retired k' t" unfolding k' Let_def using e(2) by (auto intro!: retired_frame)
  show "\<And>s. s \<noteq> t \<Longrightarrow> threads k' s = threads k s" using e(4) by (auto simp: k' Let_def)
qed

text \<open>A thread that leaves its entry function gives the processor to another ready thread.\<close>

lemma rt_thread_exit_retires:
  assumes i: "kinv k" and c: "current_thread k = Some t" and s: "thread_state k t = RT_THREAD_READY"
    and l: "lock_nest k = 0" and d: "rt_thread_exit k = Some k'"
  shows "kinv k'" "retired k' t" "\<exists>u. current_thread k' = Some u \<and> u \<noteq> t \<and> most_urgent k' u"
proof -
  obtain k2 where k2: "rt_timer_detach (ThreadTimer t) (close_thread t (rt_schedule_remove_thread t k)) = Some k2"
    and sc: "rt_schedule (if rt_object_is_systemobject (ObjThread t) k2 \<and> th_cleanup (threads k2 t) = None
       then rt_object_detach (ObjThread t) k2 else defunct_insert t k2) = Some k'"
    using d c unfolding rt_thread_exit_def Let_def by (auto split: Option.bind_splits)
  have swap: "close_thread t (rt_schedule_remove_thread t k)
      = (rt_schedule_remove_thread t k)\<lparr>threads := threads (close_thread t (rt_schedule_remove_thread t k))\<rparr>"
    by (simp add: close_thread_def upd_thread_def)
  note f = rt_timer_detach_sel[OF k2]
  have m: "mask_ok (threads k t)" using kinvD(6)[OF i, of t] s by simp
  have wo: "ready_inv_wo t k2" using remove_thread_wo'[OF kinvD(1)[OF i] m]
    by (rule ready_inv_wo_frame) (use f in \<open>simp_all add: close_thread_def\<close>)
  have st2: "thread_state k2 t = RT_THREAD_CLOSE" using f(1) by (simp add: thread_state_def close_thread_def)
  have i2: "kinv k2" by (rule retire_kinv[OF i wo]) (use f st2 in \<open>simp_all add: close_thread_def\<close>)
  have n2: "on_none (tlists k2) t" using wo by (simp add: ready_inv_wo_def)
  have r2: "retired k2 t" using n2 st2 f(6) by (simp add: retired_def on_none_def)
  let ?k3 = "if rt_object_is_systemobject (ObjThread t) k2 \<and> th_cleanup (threads k2 t) = None
       then rt_object_detach (ObjThread t) k2 else defunct_insert t k2"
  have i3: "kinv ?k3" using detach_object_kinv[OF i2 st2] defunct_insert_kinv[OF i2 n2 st2] by simp
  have r3: "retired ?k3 t" using r2 by (simp add: retired_frame)
  note g = rt_schedule_frame[OF sc]
  show i': "kinv k'" by (rule kinv_schedule[OF sc i3])
  show r': "retired k' t" using r3 g by (simp add: retired_def thread_state_def)
  have "lock_nest ?k3 = 0" using l f(9) by (simp add: close_thread_def defunct_insert_def)
  from rt_schedule_current[OF kinvD(1)[OF i3] sc this] obtain u where
    u: "current_thread k' = Some u" "most_urgent k' u" by blast
  moreover have "u \<noteq> t" using u(2) r' by (auto simp: most_urgent_def retired_def)
  ultimately show "\<exists>u. current_thread k' = Some u \<and> u \<noteq> t \<and> most_urgent k' u" by blast
qed

subsection \<open>Yield and sleep\<close>

text \<open>Moving a ready thread to the tail of its own list.\<close>

lemma rotate_ready_inv:
  assumes i: "ready_inv k" and r: "thread_state k t = RT_THREAD_READY"
    and h: "h = Ready (th_current_priority (threads k t))"
  shows "ready_inv (k\<lparr>tlists := list_append h t (list_delete t (tlists k))\<rparr>)" (is "ready_inv ?k")
proof -
  have t: "t \<in> set (tlists k h)" using thread_okD(2)[OF ready_invD(3)[OF i], of t] r h by simp
  then have only: "t \<in> set (tlists k g) \<longleftrightarrow> g = h" for g
    using ready_invD(1)[OF i] by (auto simp: disjoint_lists_def)
  have mem: "x \<in> set (tlists ?k g) \<longleftrightarrow> x \<in> set (tlists k g)" for x g
    using only t by (auto simp: list_append_def)
  have "disjoint_lists (tlists ?k)"
    using disjoint_append[OF disjoint_delete[OF ready_invD(1)[OF i], of t], of t h] by simp
  moreover have "tlists ?k (Ready p) = [] \<longleftrightarrow> tlists k (Ready p) = []" for p
    using mem[of _ "Ready p"] by (metis last_in_set empty_iff list.set(1))
  then have "bitmap_ok ?k" using ready_invD(2)[OF i] by (simp add: bitmap_ok_def)
  moreover have "thread_ok ?k s" for s
    using ready_invD(3)[OF i, of s] by (rule thread_ok_frame) (simp, rule mem)
  ultimately show ?thesis by (simp add: ready_inv_def)
qed

lemma rt_thread_yield_rotates:
  assumes i: "kinv k" and c: "current_thread k = Some t" and r: "thread_state k t = RT_THREAD_READY"
  defines "h \<equiv> Ready (th_current_priority (threads k t))"
  obtains k' where "rt_thread_yield k = Some k'" "kinv k'" "threads k' = threads k"
    "tlists k' = (if 2 \<le> length (tlists k h) then list_append h t (list_delete t (tlists k)) else tlists k)"
    "timer_list k' = timer_list k" "timers k' = timers k" "tick k' = tick k" "objs k' = objs k"
    "settled k \<Longrightarrow> settled k'" "interrupt_nest k' = interrupt_nest k" "sems k' = sems k" "mutexes k' = mutexes k" "events k' = events k"
    "mailboxes k' = mailboxes k" "queues k' = queues k" "pools k' = pools k"
proof (cases "2 \<le> length (tlists k h)")
  case True
  let ?k = "k\<lparr>tlists := list_append h t (list_delete t (tlists k))\<rparr>"
  have "ready_inv ?k" by (rule rotate_ready_inv[OF kinvD(1)[OF i] r h_def[THEN meta_eq_to_obj_eq]])
  moreover have "timer_inv ?k" using kinvD(2)[OF i] by (rule timer_inv_frame) simp_all
  moreover have "threads_inv ?k" using kinvD(3)[OF i]
    by (simp add: threads_inv_def live_def thread_state_def rt_object_get_type_def)
  ultimately have k: "kinv ?k" by (simp add: kinv_def)
  have "thread_state ?k t = RT_THREAD_READY" using r by (simp add: thread_state_def)
  from rt_schedule_some[OF kinvD(1)[OF k] this] obtain k' where sc: "rt_schedule ?k = Some k'" by blast
  have "rt_thread_yield k = Some k'" using c r True sc by (simp add: rt_thread_yield_def h_def Let_def)
  moreover have "settled k'" if "settled k" using rt_schedule_settles[OF kinvD(1)[OF k] sc] that by (simp add: settled_def)
  ultimately show ?thesis using kinv_schedule[OF sc k] rt_schedule_frame[OF sc] True by (intro that[of k']) simp_all
next
  case False
  then have "rt_thread_yield k = Some k" using c by (simp add: rt_thread_yield_def h_def Let_def)
  with i False show ?thesis by (intro that[of k]) simp_all
qed

text \<open>Arming the timer of a suspended thread, as the sleep and every wait with a timeout do.\<close>

lemma arm_timer:
  assumes i: "kinv k" and s: "thread_state k t = RT_THREAD_SUSPEND" and b: "tmo < RT_TICK_HALF"
  obtains k1 k2 where "rt_timer_control (ThreadTimer t) 0 tmo k = Some (tmo, k1)"
    "rt_timer_start (ThreadTimer t) k1 = Some k2" "kinv k2"
    "ThreadTimer t \<in> set (timer_list k2)" "due_in k2 (ThreadTimer t) = Suc (unat tmo)"
    "threads k2 = threads k" "tlists k2 = tlists k" "tick k2 = tick k"
    "\<And>i. i \<noteq> ThreadTimer t \<Longrightarrow> timers k2 i = timers k i"
    "set (timer_list k2) = insert (ThreadTimer t) (set (timer_list k))"
    "current_thread k2 = current_thread k" "lock_nest k2 = lock_nest k" "interrupt_nest k2 = interrupt_nest k"
    "\<And>x. o_type (objs k2 x) = o_type (objs k x)" "\<And>x. x \<noteq> ObjTimer (ThreadTimer t) \<Longrightarrow> objs k2 x = objs k x"
    "sems k2 = sems k" "mutexes k2 = mutexes k" "events k2 = events k" "mailboxes k2 = mailboxes k"
    "queues k2 = queues k" "pools k2 = pools k"
proof -
  let ?i = "ThreadTimer t"
  let ?k1 = "upd_timer ?i (\<lambda>tm. tm\<lparr>tm_init_tick := tmo\<rparr>) k"
  have l: "live k t" using kinvD(4)[OF i, of t] s by simp
  have due: "due_in ?k1 j = due_in k j" for j by (simp add: due_in_def)
  have ti: "timer_inv ?k1" using kinvD(2)[OF i] by (simp add: timer_inv_def due rt_object_get_type_def)
  have c: "rt_timer_control ?i 0 tmo k = Some (tmo, ?k1)"
    using l by (simp add: rt_timer_control_def live_def)
  obtain k2 where st: "rt_timer_start ?i ?k1 = Some k2"
    using l b by (simp add: rt_timer_start_def live_def rt_object_get_type_def rt_timer_remove_def Let_def)
  have o: "current_thread k2 = current_thread k" "lock_nest k2 = lock_nest k" "interrupt_nest k2 = interrupt_nest k"
    "sems k2 = sems k" "mutexes k2 = mutexes k" "events k2 = events k" "mailboxes k2 = mailboxes k"
    "queues k2 = queues k" "pools k2 = pools k"
    using st by (auto simp: rt_timer_start_def rt_timer_remove_def activate_def deactivate_def Let_def
        split: Option.bind_splits)
  note f = rt_timer_start_some[OF st]
  have "kinv k2" unfolding kinv_def
  proof (intro conjI)
    show "timer_inv k2" by (rule timer_inv_start[OF ti st])
    show "ready_inv k2" using kinvD(1)[OF i] by (rule ready_inv_frame) (use f in simp_all)
    have "live k2 u = live k u" for u using f(3,8) by (simp add: live_def rt_object_get_type_def)
    then show "threads_inv k2" using kinvD(3)[OF i] s f(5,9)
      by (auto simp: threads_inv_def thread_state_def)
  qed
  then show ?thesis using c st rt_timer_start_place(2)[OF ti st] f o
    by (intro that[of ?k1 k2]) auto
qed

lemma rt_thread_sleep_suspends:
  assumes i: "kinv k" and c: "current_thread k = Some t" and r: "thread_state k t = RT_THREAD_READY"
    and b: "tmo < RT_TICK_HALF" and o: "thread_state k u = RT_THREAD_READY" "u \<noteq> t"
  obtains k' where "rt_thread_sleep tmo k = Some k'" "kinv k'" "thread_state k' t = RT_THREAD_SUSPEND"
    "on_none (tlists k') t" "ThreadTimer t \<in> set (timer_list k')" "due_in k' (ThreadTimer t) = Suc (unat tmo)"
    "\<And>s. s \<noteq> t \<Longrightarrow> threads k' s = threads k s"
    "lock_nest k = 0 \<Longrightarrow> \<exists>v. current_thread k' = Some v \<and> v \<noteq> t \<and> most_urgent k' v"
proof -
  have ty: "thread_typed k t" using kinvD(4)[OF i, of t] r by (simp add: live_def)
  from rt_thread_suspend_ready[OF i r] obtain k1 where k1: "rt_thread_suspend t k = Some (RT_EOK, k1)"
    "kinv k1" "thread_state k1 t = RT_THREAD_SUSPEND" "on_none (tlists k1) t"
    "\<And>s. s \<noteq> t \<Longrightarrow> threads k1 s = threads k s" "lock_nest k1 = lock_nest k" by metis
  from arm_timer[OF k1(2,3) b] obtain k2 k3 where k3: "rt_timer_control (ThreadTimer t) 0 tmo k1 = Some (tmo, k2)"
    "rt_timer_start (ThreadTimer t) k2 = Some k3" "kinv k3" "ThreadTimer t \<in> set (timer_list k3)"
    "due_in k3 (ThreadTimer t) = Suc (unat tmo)" "threads k3 = threads k1" "tlists k3 = tlists k1"
    "lock_nest k3 = lock_nest k1" by metis
  have u: "thread_state k3 u = RT_THREAD_READY" using o k3(6) k1(5) by (simp add: thread_state_def)
  from rt_schedule_some[OF kinvD(1)[OF k3(3)] u] obtain k' where sc: "rt_schedule k3 = Some k'" by blast
  note f = rt_schedule_frame[OF sc]
  have st: "thread_state k' t = RT_THREAD_SUSPEND" using k1(3) k3(6) f(2) by (simp add: thread_state_def)
  have cur: "\<exists>v. current_thread k' = Some v \<and> v \<noteq> t \<and> most_urgent k' v" if "lock_nest k = 0"
    using rt_schedule_current[OF kinvD(1)[OF k3(3)] sc] that k1(6) k3(8) st
    by (auto simp: most_urgent_def)
  have "rt_thread_sleep tmo k = Some k'" using c ty k1(1) k3(1,2) sc by (simp add: rt_thread_sleep_def)
  with kinv_schedule[OF sc k3(3)] st cur f k1(4,5) k3(4,5,6,7) show ?thesis
    by (intro that[of k']) (simp_all add: due_in_def)
qed

end
