(* ===== verification/RT_Clock.thy ===== *)
theory RT_Clock
  imports RT_Thread
begin

text \<open>
  \<open>src/clock.c\<close>, the tick handler with the timer check of \<open>src/timer.c\<close>, the interrupt nesting
  counter of \<open>src/irq.c\<close> and the clean-up loop of \<open>src/idle.c\<close>. What a timeout function of the
  application does is the parameter \<open>app\<close>: it maps a function, its argument and the kernel state to
  the state after the call. \<open>rt_timer_check\<close> is a loop that may run forever (a periodic timer of 0
  ticks), so it is a \<open>partial_function\<close>; that it returns is a theorem.
\<close>

subsection \<open>Operations\<close>

definition rt_tick_get :: "kernel \<Rightarrow> u32" where
  "rt_tick_get k = tick k"

definition rt_tick_set :: "u32 \<Rightarrow> kernel \<Rightarrow> kernel" where
  "rt_tick_set t k = k\<lparr>tick := t\<rparr>"

type_synonym app_timeout = "nat \<Rightarrow> nat \<Rightarrow> kernel \<Rightarrow> kernel option"

definition call_timeout :: "app_timeout \<Rightarrow> timeout_fn \<Rightarrow> kernel \<Rightarrow> kernel option" where
  "call_timeout app f k = (case f of RtThreadTimeout t \<Rightarrow> rt_thread_timeout t k | AppTimeout g p \<Rightarrow> app g p k)"

text \<open>What follows the timeout function of timer \<open>t\<close>.\<close>

definition rearm :: "timer_id \<Rightarrow> kernel \<Rightarrow> kernel option" where
  "rearm t k =
     (if obj_flag k (ObjTimer t) AND RT_TIMER_FLAG_PERIODIC \<noteq> 0
         \<and> obj_flag k (ObjTimer t) AND RT_TIMER_FLAG_ACTIVATED \<noteq> 0
      then rt_timer_start t (deactivate t k)
      else Some (deactivate t k))"

partial_function (option) timer_check_loop :: "app_timeout \<Rightarrow> u32 \<Rightarrow> kernel \<Rightarrow> kernel option" where
  "timer_check_loop app current_tick k =
     (case timer_list k of
        [] \<Rightarrow> Some k
      | t # _ \<Rightarrow>
          if current_tick - tm_timeout_tick (timers k t) < RT_TICK_HALF then do {
            k1 \<leftarrow> call_timeout app (tm_func (timers k t)) (rt_timer_remove t k);
            k2 \<leftarrow> rearm t k1;
            timer_check_loop app (rt_tick_get k1) k2 }
          else Some k)"

definition rt_timer_check :: "app_timeout \<Rightarrow> kernel \<Rightarrow> kernel option" where
  "rt_timer_check app k = timer_check_loop app (rt_tick_get k) k"

definition rt_tick_increase :: "app_timeout \<Rightarrow> kernel \<Rightarrow> kernel option" where
  "rt_tick_increase app k = do {
     let k1 = k\<lparr>tick := tick k + 1\<rparr>;
     t \<leftarrow> current_thread k1;
     let k2 = upd_thread t (\<lambda>th. th\<lparr>th_remaining_tick := th_remaining_tick th - 1\<rparr>) k1;
     k3 \<leftarrow> (if th_remaining_tick (threads k2 t) = 0
            then rt_thread_yield (upd_thread t (\<lambda>th. th\<lparr>th_remaining_tick := th_init_tick th\<rparr>) k2)
            else Some k2);
     rt_timer_check app k3 }"

text \<open>\<open>RT_TICK_PER_SECOND\<close> is a configuration constant; the product is a signed \<open>int\<close>, whose overflow
  is undefined.\<close>

definition rt_tick_from_millisecond :: "int \<Rightarrow> int \<Rightarrow> int option" where
  "rt_tick_from_millisecond tick_per_second ms =
     (if ms < 0 then Some (- 1)
      else if tick_per_second * ms + 999 \<ge> 2 ^ 31 then None
      else Some ((tick_per_second * ms + 999) div 1000))"

definition rt_thread_mdelay :: "int \<Rightarrow> int \<Rightarrow> kernel \<Rightarrow> kernel option" where
  "rt_thread_mdelay tick_per_second ms k = do {
     tck \<leftarrow> rt_tick_from_millisecond tick_per_second ms;
     rt_thread_sleep (word_of_int tck) k }"

definition rt_interrupt_enter :: "kernel \<Rightarrow> kernel" where
  "rt_interrupt_enter k = k\<lparr>interrupt_nest := interrupt_nest k + 1\<rparr>"

definition rt_interrupt_leave :: "kernel \<Rightarrow> kernel" where
  "rt_interrupt_leave k = k\<lparr>interrupt_nest := interrupt_nest k - 1\<rparr>"

definition rt_interrupt_get_nest :: "kernel \<Rightarrow> u8" where
  "rt_interrupt_get_nest k = interrupt_nest k"

subsection \<open>Hooks of the idle thread\<close>

text \<open>\<open>idle_hook_list\<close>, an array of hooks (or \<open>RT_NULL\<close>).\<close>

fun idle_set :: "nat \<Rightarrow> nat option list \<Rightarrow> nat option list option" where
  "idle_set hook [] = None"
| "idle_set hook (None # hs) = Some (Some hook # hs)"
| "idle_set hook (Some h # hs) = map_option (Cons (Some h)) (idle_set hook hs)"

definition rt_thread_idle_sethook :: "nat \<Rightarrow> nat option list \<Rightarrow> rt_err_t \<times> nat option list" where
  "rt_thread_idle_sethook hook hooks =
     (case idle_set hook hooks of Some hs \<Rightarrow> (RT_EOK, hs) | None \<Rightarrow> (- RT_EFULL, hooks))"

fun idle_del :: "nat \<Rightarrow> nat option list \<Rightarrow> nat option list option" where
  "idle_del hook [] = None"
| "idle_del hook (h # hs) =
     (if h = Some hook then Some (None # hs) else map_option (Cons h) (idle_del hook hs))"

definition rt_thread_idle_delhook :: "nat \<Rightarrow> nat option list \<Rightarrow> rt_err_t \<times> nat option list" where
  "rt_thread_idle_delhook hook hooks =
     (case idle_del hook hooks of Some hs \<Rightarrow> (RT_EOK, hs) | None \<Rightarrow> (- RT_ENOSYS, hooks))"

subsection \<open>The idle thread's clean-up\<close>

text \<open>What the loop hands back to the heap: the stack of a thread and the thread itself. A clean-up
  function of the application is the parameter \<open>cleanup\<close>.\<close>

type_synonym cleanup_fn = "nat \<Rightarrow> tid \<Rightarrow> kernel \<Rightarrow> kernel option"

partial_function (option) rt_thread_idle_excute ::
  "cleanup_fn \<Rightarrow> (nat \<times> tid) list \<Rightarrow> kernel \<Rightarrow> ((nat \<times> tid) list \<times> kernel) option" where
  "rt_thread_idle_excute cleanup freed k =
     (case tlists k Defunct of
        [] \<Rightarrow> Some (freed, k)
      | t # _ \<Rightarrow> do {
          _ \<leftarrow> rt_assert (interrupt_nest k = 0);
          k1 \<leftarrow> (case th_cleanup (threads k t) of
                  None \<Rightarrow> Some (rt_enter_critical (k\<lparr>tlists := list_delete t (tlists k)\<rparr>))
                | Some f \<Rightarrow> cleanup f t (rt_enter_critical (k\<lparr>tlists := list_delete t (tlists k)\<rparr>)));
          k2 \<leftarrow> rt_exit_critical k1;
          if rt_object_is_systemobject (ObjThread t) k1 then Some (freed, k2)
          else do {
            k3 \<leftarrow> rt_object_delete (ObjThread t) k2;
            rt_thread_idle_excute cleanup (freed @ [(th_stack_addr (threads k2 t), t)]) k3 } })"

subsection \<open>Which timers are due\<close>

text \<open>In the tick handler a timer is due when it falls due at this tick or should have at the last
  one.\<close>

definition overdue :: "kernel \<Rightarrow> timer_id \<Rightarrow> bool" where
  "overdue k i \<longleftrightarrow> due_in k i \<le> 1"

lemma overdue_test:
  assumes "due_in k i \<le> 0x7FFFFFFF"
  shows "tick k - tm_timeout_tick (timers k i) < RT_TICK_HALF \<longleftrightarrow> overdue k i"
proof -
  define x where "x = tm_timeout_tick (timers k i) - (tick k - 1)"
  have e: "tick k - tm_timeout_tick (timers k i) = 1 - x" by (simp add: x_def)
  have x: "unat x \<le> 0x7FFFFFFF" using assms by (simp add: due_in_def x_def)
  have "unat (1 - x) < 0x7FFFFFFF \<longleftrightarrow> unat x \<le> 1"
    unfolding unat_sub_if_size using x by (simp add: word_size) linarith
  then show ?thesis by (simp add: e overdue_def due_in_def x_def[symmetric] word_less_nat_alt)
qed

text \<open>What is asked of a timeout function of the application: called with the invariant, it returns
  with the invariant; it may wake threads and stop timers, but it starts none and does not advance
  the tick.\<close>

definition app_ok :: "app_timeout \<Rightarrow> bool" where
  "app_ok app \<longleftrightarrow> (\<forall>f p k. kinv k \<longrightarrow> (\<exists>k'. app f p k = Some k' \<and> kinv k'
     \<and> set (timer_list k') \<subseteq> set (timer_list k) \<and> timers k' = timers k \<and> tick k' = tick k
     \<and> (\<forall>i. o_type (objs k' (ObjTimer i)) = o_type (objs k (ObjTimer i)))
     \<and> (\<forall>i. obj_flag k' (ObjTimer i) AND RT_TIMER_FLAG_PERIODIC = obj_flag k (ObjTimer i) AND RT_TIMER_FLAG_PERIODIC)))"

text \<open>A thread's timer is a one-shot timer; a timer of the application calls the application, and if
  it is periodic its period is neither 0 nor beyond the horizon.\<close>

definition periodic :: "kernel \<Rightarrow> timer_id \<Rightarrow> bool" where
  "periodic k i \<longleftrightarrow> obj_flag k (ObjTimer i) AND RT_TIMER_FLAG_PERIODIC \<noteq> 0"

text \<open>What the passing of time leaves alone: the objects threads wait for, and which timers are periodic.\<close>

definition kept :: "kernel \<Rightarrow> kernel \<Rightarrow> bool" where
  "kept k k' \<longleftrightarrow> sems k' = sems k \<and> mutexes k' = mutexes k \<and> events k' = events k \<and> mailboxes k' = mailboxes k
     \<and> queues k' = queues k \<and> pools k' = pools k \<and> interrupt_nest k' = interrupt_nest k
     \<and> (\<forall>x. (\<forall>i. x \<noteq> ObjTimer i) \<longrightarrow> objs k' x = objs k x) \<and> (\<forall>i. periodic k' i = periodic k i)"

lemma kept_refl [simp]: "kept k k"
  by (simp add: kept_def)

lemma kept_trans: "kept k k1 \<Longrightarrow> kept k1 k2 \<Longrightarrow> kept k k2"
  by (simp add: kept_def)

lemma kept_remove: "kept k (rt_timer_remove i k)"
  by (simp add: kept_def periodic_def rt_timer_remove_def)

definition timers_ok :: "kernel \<Rightarrow> bool" where
  "timers_ok k \<longleftrightarrow> (\<forall>i\<in>set (timer_list k). case i of
     ThreadTimer t \<Rightarrow> \<not> periodic k i
   | AppTimer n \<Rightarrow> (\<exists>f p. tm_func (timers k i) = AppTimeout f p)
       \<and> (periodic k i \<longrightarrow> 0 < tm_init_tick (timers k i) \<and> tm_init_tick (timers k i) < RT_TICK_HALF))"

lemma kinv_timer_remove:
  assumes "kinv k"
  shows "kinv (rt_timer_remove i k)"
proof -
  have "ready_inv (rt_timer_remove i k)" using kinvD(1)[OF assms]
    by (rule ready_inv_frame) (simp_all add: rt_timer_remove_def)
  moreover have "timer_inv (rt_timer_remove i k)" using kinvD(2)[OF assms]
    by (rule timer_inv_shorter[where i = i]) (simp_all add: rt_timer_remove_def)
  ultimately show ?thesis using kinvD(3)[OF assms]
    by (simp add: kinv_def threads_inv_def rt_timer_remove_def live_def rt_object_get_type_def thread_state_def)
qed

lemma kinv_deactivate:
  assumes "kinv k" "i \<notin> set (timer_list k)"
  shows "kinv (deactivate i k)"
proof -
  have "timer_inv (deactivate i k)" using kinvD(2)[OF assms(1)]
    by (rule timer_inv_frame) (use assms(2) in \<open>auto intro!: activate_other(2)\<close>)
  moreover have "ready_inv (deactivate i k)" using kinvD(1)[OF assms(1)] by (rule ready_inv_frame) simp_all
  ultimately show ?thesis using kinvD(3)[OF assms(1)]
    by (simp add: kinv_def threads_inv_def live_def rt_object_get_type_def thread_state_def)
qed

lemma kinv_app_start:
  assumes i: "kinv k" and s: "rt_timer_start i k = Some k'" and a: "\<And>t. i \<noteq> ThreadTimer t"
  shows "kinv k'"
proof -
  note f = rt_timer_start_some[OF s]
  have "ready_inv k'" using kinvD(1)[OF i] by (rule ready_inv_frame) (use f in simp_all)
  moreover have "live k' t = live k t" for t using f(3,8) by (simp add: live_def rt_object_get_type_def)
  moreover have "ThreadTimer t \<in> set (timer_list k') \<longleftrightarrow> ThreadTimer t \<in> set (timer_list k)" for t
    using f(5) a[of t] by auto
  ultimately show ?thesis using kinvD(3)[OF i] timer_inv_start[OF kinvD(2)[OF i] s] f(9)
    by (simp add: kinv_def threads_inv_def thread_state_def)
qed

subsection \<open>One round of the timer check\<close>

definition due_set :: "kernel \<Rightarrow> timer_id set" where
  "due_set k = {i \<in> set (timer_list k). overdue k i}"

lemma periodic_flag_kept [flag_simps]:
  "((x::u8) AND NOT 1) AND 2 = x AND 2" "((x::u8) AND -2) AND 2 = x AND 2" "((x::u8) OR 1) AND 2 = x AND 2"
proof -
  show "((x::u8) AND NOT 1) AND 2 = x AND 2"
    by (simp add: and.assoc)
  then show "((x::u8) AND -2) AND 2 = x AND 2" by simp
  show "((x::u8) OR 1) AND 2 = x AND 2" by (simp add: bit.conj_disj_distrib2)
qed

lemma kept_deactivate: "kept k (deactivate i k)"
  by (simp add: kept_def periodic_def deactivate_def upd_obj_def flag_simps)

lemma rearm_app:
  assumes i: "kinv k" and a: "i = AppTimer n" and n: "i \<notin> set (timer_list k)" and ty: "timer_typed k i"
    and p: "periodic k i \<Longrightarrow> 0 < tm_init_tick (timers k i) \<and> tm_init_tick (timers k i) < RT_TICK_HALF"
  obtains k' where "rearm i k = Some k'" "kinv k'" "tick k' = tick k" "due_set k' \<subseteq> due_set k"
    "set (timer_list k') \<subseteq> insert i (set (timer_list k))" "threads k' = threads k"
    "\<And>j. j \<noteq> i \<Longrightarrow> timers k' j = timers k j"
    "timers k' i = (timers k i)\<lparr>tm_timeout_tick := tm_timeout_tick (timers k' i)\<rparr>"
    "\<And>x. x \<noteq> ObjTimer i \<Longrightarrow> objs k' x = objs k x" "periodic k' i = periodic k i"
proof -
  let ?d = "deactivate i k"
  have d: "kinv ?d" using i n by (rule kinv_deactivate)
  have pd: "periodic ?d i = periodic k i" by (simp add: periodic_def deactivate_def flag_simps)
  show ?thesis
  proof (cases "obj_flag k (ObjTimer i) AND RT_TIMER_FLAG_PERIODIC \<noteq> 0
      \<and> obj_flag k (ObjTimer i) AND RT_TIMER_FLAG_ACTIVATED \<noteq> 0")
    case False
    then have "rearm i k = Some ?d" by (auto simp: rearm_def)
    moreover have "due_set ?d = due_set k" by (simp add: due_set_def overdue_def due_in_def)
    ultimately show ?thesis using d pd by (intro that[of ?d]) auto
  next
    case True
    then have q: "0 < tm_init_tick (timers k i) \<and> tm_init_tick (timers k i) < RT_TICK_HALF"
      using p by (simp add: periodic_def)
    have ty': "timer_typed ?d i" using ty by (simp add: rt_object_get_type_def)
    obtain k' where st: "rt_timer_start i ?d = Some k'"
      using ty' q by (simp add: rt_timer_start_def rt_timer_remove_def rt_object_get_type_def Let_def)
    note f = rt_timer_start_some[OF st]
    have k': "kinv k'" by (rule kinv_app_start[OF d st]) (simp add: a)
    have "unat (tm_init_tick (timers k i)) \<noteq> 0" using q by (simp add: word_gt_0 unat_eq_0)
    then have "\<not> overdue k' i" using rt_timer_start_place(2)[OF kinvD(2)[OF d] st]
      by (simp add: overdue_def)
    moreover have "due_in k' j = due_in k j" if "j \<noteq> i" for j using f(3,4) that by (simp add: due_in_def)
    ultimately have "x \<in> due_set k" if "x \<in> due_set k'" for x
      using that f(5) by (cases "x = i") (auto simp: due_set_def overdue_def)
    then have "due_set k' \<subseteq> due_set k" by blast
    moreover have "periodic k' i = periodic k i"
      using st by (auto simp: rt_timer_start_def Let_def activate_def deactivate_def rt_timer_remove_def
          periodic_def flag_simps split: Option.bind_splits)
    moreover have "rearm i k = Some k'" using True st by (simp add: rearm_def)
    ultimately show ?thesis using k' f by (intro that[of k']) auto
  qed
qed

lemma rearm_thread:
  assumes "kinv k" "i \<notin> set (timer_list k)" "\<not> periodic k i"
  shows "rearm i k = Some (deactivate i k)" "kinv (deactivate i k)"
  using assms kinv_deactivate by (auto simp: rearm_def periodic_def)

lemma remove_typed [simp]:
  "objs (rt_timer_remove i k) = objs k" "timers (rt_timer_remove i k) = timers k"
  "threads (rt_timer_remove i k) = threads k" "tick (rt_timer_remove i k) = tick k"
  "timer_list (rt_timer_remove i k) = removeAll i (timer_list k)"
  "tlists (rt_timer_remove i k) = tlists k" "current_thread (rt_timer_remove i k) = current_thread k"
  "lock_nest (rt_timer_remove i k) = lock_nest k" "interrupt_nest (rt_timer_remove i k) = interrupt_nest k"
  by (simp_all add: rt_timer_remove_def)

lemma deactivate_run [simp]:
  "current_thread (deactivate i k) = current_thread k" "lock_nest (deactivate i k) = lock_nest k"
  by (simp_all add: deactivate_def upd_obj_def)

text \<open>A thread's timer fires: its thread, which was waiting, is ready and told that it timed out.\<close>

lemma fire_thread:
  assumes i: "kinv k" and ok: "timers_ok k" and m: "ThreadTimer t \<in> set (timer_list k)"
  obtains k1 k2 where "call_timeout app (tm_func (timers k (ThreadTimer t))) (rt_timer_remove (ThreadTimer t) k) = Some k1"
    "rearm (ThreadTimer t) k1 = Some k2" "kinv k2" "tick k1 = tick k" "tick k2 = tick k" "timers k2 = timers k"
    "timer_list k2 = removeAll (ThreadTimer t) (timer_list k)"
    "thread_state k2 t = RT_THREAD_READY" "th_error (threads k2 t) = - RT_ETIMEOUT"
    "\<And>s. s \<noteq> t \<Longrightarrow> threads k2 s = threads k s"
    "tlists k2 = list_append (Ready (th_current_priority (threads k t))) t (list_delete t (tlists k))"
    "\<And>x. x \<noteq> ObjTimer (ThreadTimer t) \<Longrightarrow> objs k2 x = objs k x"
    "lock_nest k2 = lock_nest k" "lock_nest k = 0 \<Longrightarrow> settled k2" "kept k k2"
proof -
  let ?i = "ThreadTimer t"
  let ?r = "rt_timer_remove ?i k"
  have s: "thread_state k t = RT_THREAD_SUSPEND" using kinvD(5)[OF i m] .
  have "live k t" using kinvD(4)[OF i, of t] s by simp
  then have fn: "tm_func (timers k ?i) = RtThreadTimeout t" by (simp add: live_def)
  have r: "kinv ?r" using i by (rule kinv_timer_remove)
  have "thread_state ?r t = RT_THREAD_SUSPEND" "?i \<notin> set (timer_list ?r)" using s by (simp_all add: thread_state_def)
  from rt_thread_timeout_wakes[OF r this] obtain k1 where k1: "rt_thread_timeout t ?r = Some k1" "kinv k1"
    "thread_state k1 t = RT_THREAD_READY" "th_error (threads k1 t) = - RT_ETIMEOUT"
    "tlists k1 = list_append (Ready (th_current_priority (threads ?r t))) t (list_delete t (tlists ?r))"
    "\<And>s. s \<noteq> t \<Longrightarrow> threads k1 s = threads ?r s" "timer_list k1 = timer_list ?r" "timers k1 = timers ?r"
    "objs k1 = objs ?r" "tick k1 = tick ?r" "lock_nest k1 = lock_nest ?r" "lock_nest ?r = 0 \<Longrightarrow> settled k1" "kept ?r k1"
    unfolding kept_def periodic_def by metis
  have "\<not> periodic k1 ?i" using ok m k1(9) by (auto simp: timers_ok_def periodic_def dest: bspec)
  note re = rearm_thread[OF k1(2) _ this, simplified k1(7)]
  have "kept k (deactivate ?i k1)" by (rule kept_trans[OF kept_remove kept_trans[OF k1(13) kept_deactivate]])
  note kp = this
  show ?thesis
    by (rule that[of k1 "deactivate ?i k1"])
      (use k1 re kp settled_frame[of k1 "deactivate ?i k1"] in \<open>simp_all add: fn call_timeout_def thread_state_def\<close>)
qed

text \<open>A timer of the application fires.\<close>

lemma fire_app:
  assumes i: "kinv k" and ok: "timers_ok k" and app: "app_ok app" and m: "AppTimer n \<in> set (timer_list k)"
  obtains k1 k2 where "call_timeout app (tm_func (timers k (AppTimer n))) (rt_timer_remove (AppTimer n) k) = Some k1"
    "rearm (AppTimer n) k1 = Some k2" "kinv k2" "timers_ok k2" "tick k1 = tick k" "tick k2 = tick k"
    "due_set k2 \<subseteq> due_set k - {AppTimer n}"
proof -
  let ?i = "AppTimer n"
  let ?r = "rt_timer_remove ?i k"
  obtain f p where fn: "tm_func (timers k ?i) = AppTimeout f p"
    and per: "periodic k ?i \<Longrightarrow> 0 < tm_init_tick (timers k ?i) \<and> tm_init_tick (timers k ?i) < RT_TICK_HALF"
    using bspec[OF ok[unfolded timers_ok_def] m] unfolding timer_id.case by (elim conjE exE) blast
  have "kinv ?r" using i by (rule kinv_timer_remove)
  then obtain k1 where k1: "app f p ?r = Some k1" "kinv k1" "set (timer_list k1) \<subseteq> set (timer_list ?r)"
    "timers k1 = timers ?r" "tick k1 = tick ?r"
    "\<And>j. o_type (objs k1 (ObjTimer j)) = o_type (objs ?r (ObjTimer j))"
    "\<And>j. obj_flag k1 (ObjTimer j) AND RT_TIMER_FLAG_PERIODIC = obj_flag ?r (ObjTimer j) AND RT_TIMER_FLAG_PERIODIC"
    using app unfolding app_ok_def by meson
  have pe: "periodic k1 j = periodic k j" for j using k1(7)[of j] by (simp add: periodic_def)
  have n1: "?i \<notin> set (timer_list k1)" using k1(3) by auto
  have ty: "timer_typed k1 ?i" using timer_invD(4)[OF kinvD(2)[OF i] m] k1(6) by (simp add: rt_object_get_type_def)
  have per': "0 < tm_init_tick (timers k1 ?i) \<and> tm_init_tick (timers k1 ?i) < RT_TICK_HALF" if "periodic k1 ?i"
    using per pe k1(4) that by simp
  obtain k2 where k2: "rearm ?i k1 = Some k2" "kinv k2"
    "tick k2 = tick k1" "due_set k2 \<subseteq> due_set k1" "set (timer_list k2) \<subseteq> insert ?i (set (timer_list k1))"
    "\<And>j. j \<noteq> ?i \<Longrightarrow> timers k2 j = timers k1 j"
    "timers k2 ?i = (timers k1 ?i)\<lparr>tm_timeout_tick := tm_timeout_tick (timers k2 ?i)\<rparr>"
    "\<And>x. x \<noteq> ObjTimer ?i \<Longrightarrow> objs k2 x = objs k1 x" "periodic k2 ?i = periodic k1 ?i"
    by (rule rearm_app[OF k1(2) refl n1 ty per']) (assumption, rule that)
  have "overdue k1 j = overdue k j" for j using k1(4,5) by (simp add: overdue_def due_in_def)
  then have "due_set k2 \<subseteq> due_set k - {?i}" using k2(4) k1(3) by (auto simp: due_set_def)
  moreover have "timers_ok k2" unfolding timers_ok_def
  proof
    fix j assume j: "j \<in> set (timer_list k2)"
    have same: "tm_func (timers k2 j) = tm_func (timers k j) \<and> tm_init_tick (timers k2 j) = tm_init_tick (timers k j)
        \<and> periodic k2 j = periodic k j"
    proof (cases "j = ?i")
      case True
      have "tm_func (timers k2 ?i) = tm_func (timers k1 ?i)" "tm_init_tick (timers k2 ?i) = tm_init_tick (timers k1 ?i)"
        by (subst k2(7), simp)+
      with True k2(9) pe k1(4) show ?thesis by simp
    next
      case False
      then show ?thesis using k2(6)[of j] k2(8)[of "ObjTimer j"] pe[of j] k1(4) by (simp add: periodic_def)
    qed
    have "j \<in> set (timer_list k)" using j k2(5) k1(3) m by auto
    with ok have "case j of ThreadTimer t \<Rightarrow> \<not> periodic k j
       | AppTimer n \<Rightarrow> (\<exists>f p. tm_func (timers k j) = AppTimeout f p)
       \<and> (periodic k j \<longrightarrow> 0 < tm_init_tick (timers k j) \<and> tm_init_tick (timers k j) < RT_TICK_HALF)"
      by (simp add: timers_ok_def)
    with same show "case j of ThreadTimer t \<Rightarrow> \<not> periodic k2 j
       | AppTimer n \<Rightarrow> (\<exists>f p. tm_func (timers k2 j) = AppTimeout f p)
       \<and> (periodic k2 j \<longrightarrow> 0 < tm_init_tick (timers k2 j) \<and> tm_init_tick (timers k2 j) < RT_TICK_HALF)"
      by (cases j) simp_all
  qed
  ultimately show ?thesis using k1 k2 fn by (intro that[of k1 k2]) (simp_all add: call_timeout_def)
qed

lemma timers_ok_shorter:
  assumes "timers_ok k" "set (timer_list k') \<subseteq> set (timer_list k)" "timers k' = timers k"
    "\<And>j. j \<in> set (timer_list k') \<Longrightarrow> objs k' (ObjTimer j) = objs k (ObjTimer j)"
  shows "timers_ok k'"
proof -
  have "periodic k' j = periodic k j" if "j \<in> set (timer_list k')" for j
    using assms(4)[OF that] by (simp add: periodic_def)
  with assms(1-3) show ?thesis unfolding timers_ok_def by (auto split: timer_id.splits)
qed

lemma fire_any:
  assumes i: "kinv k" and ok: "timers_ok k" and app: "app_ok app" and m: "i \<in> set (timer_list k)"
  obtains k1 k2 where "call_timeout app (tm_func (timers k i)) (rt_timer_remove i k) = Some k1"
    "rearm i k1 = Some k2" "kinv k2" "timers_ok k2" "tick k1 = tick k" "tick k2 = tick k"
    "due_set k2 \<subseteq> due_set k - {i}"
proof (cases i)
  case (AppTimer n)
  with fire_app[OF i ok app, of n] m that show ?thesis by blast
next
  case (ThreadTimer t)
  from fire_thread[OF i ok m[unfolded ThreadTimer], of app] obtain k1 k2 where
    k: "call_timeout app (tm_func (timers k (ThreadTimer t))) (rt_timer_remove (ThreadTimer t) k) = Some k1"
    "rearm (ThreadTimer t) k1 = Some k2" "kinv k2" "tick k1 = tick k" "tick k2 = tick k" "timers k2 = timers k"
    "timer_list k2 = removeAll (ThreadTimer t) (timer_list k)"
    "\<And>x. x \<noteq> ObjTimer (ThreadTimer t) \<Longrightarrow> objs k2 x = objs k x" by metis
  have "timers_ok k2" by (rule timers_ok_shorter[OF ok _ k(6)]) (use k(7,8) in auto)
  moreover have "due_set k2 \<subseteq> due_set k - {ThreadTimer t}"
    using k(5,6,7) by (auto simp: due_set_def overdue_def due_in_def)
  ultimately show ?thesis using k ThreadTimer that by simp
qed

text \<open>The loop returns: every round takes one timer out of the set of due timers for good.\<close>

lemma timer_check_loop_returns:
  assumes "kinv k" "timers_ok k" "app_ok app"
  shows "\<exists>k'. timer_check_loop app (tick k) k = Some k' \<and> kinv k' \<and> timers_ok k' \<and> tick k' = tick k \<and> due_set k' = {}"
  using assms
proof (induction "card (due_set k)" arbitrary: k rule: less_induct)
  case less
  note I = timer_invD[OF kinvD(2)[OF less.prems(1)]]
  show ?case
  proof (cases "timer_list k")
    case Nil
    then show ?thesis using less.prems by (subst timer_check_loop.simps) (simp add: due_set_def)
  next
    case (Cons i ts)
    have test: "tick k - tm_timeout_tick (timers k i) < RT_TICK_HALF \<longleftrightarrow> overdue k i"
      by (rule overdue_test, rule I(3)) (simp add: Cons)
    show ?thesis
    proof (cases "overdue k i")
      case False
      then have "\<not> overdue k j" if "j \<in> set (timer_list k)" for j
        using that I(2) by (auto simp: Cons overdue_def)
      then have "due_set k = {}" by (auto simp: due_set_def)
      with False test Cons less.prems show ?thesis by (subst timer_check_loop.simps) simp
    next
      case True
      have m: "i \<in> set (timer_list k)" by (simp add: Cons)
      from fire_any[OF less.prems m] obtain k1 k2 where
        k: "call_timeout app (tm_func (timers k i)) (rt_timer_remove i k) = Some k1"
        "rearm i k1 = Some k2" "kinv k2" "timers_ok k2" "tick k1 = tick k" "tick k2 = tick k"
        "due_set k2 \<subseteq> due_set k - {i}" by metis
      have "i \<in> due_set k" using m True by (simp add: due_set_def)
      then have "due_set k2 \<subset> due_set k" using k(7) by blast
      moreover have "finite (due_set k)" by (simp add: due_set_def)
      ultimately have "card (due_set k2) < card (due_set k)" by (simp add: psubset_card_mono)
      from less.hyps[OF this k(3,4) less.prems(3)] k True test Cons show ?thesis
        by (subst timer_check_loop.simps) (simp add: rt_tick_get_def)
    qed
  qed
qed

subsection \<open>The tick handler\<close>

text \<open>Between two ticks no running timer should have fired at an earlier tick.\<close>

definition on_time :: "kernel \<Rightarrow> bool" where
  "on_time k \<longleftrightarrow> (\<forall>i\<in>set (timer_list k). 1 \<le> due_in k i)"

lemma due_in_next:
  assumes "1 \<le> due_in k i"
  shows "due_in (k\<lparr>tick := tick k + 1\<rparr>) i = due_in k i - 1"
proof -
  define x where "x = tm_timeout_tick (timers k i) - (tick k - 1)"
  have "tm_timeout_tick (timers k i) - (tick k + 1 - 1) = x - 1" by (simp add: x_def)
  moreover have "unat (x - 1) = unat x - 1" using assms by (intro unat_minus_one) (auto simp: due_in_def x_def)
  ultimately show ?thesis by (simp add: due_in_def x_def)
qed

lemma tick_kinv:
  assumes i: "kinv k" and o: "on_time k"
  shows "kinv (k\<lparr>tick := tick k + 1\<rparr>)" (is "kinv ?k")
proof -
  have d: "due_in ?k i = due_in k i - 1" if "i \<in> set (timer_list k)" for i
    using o that by (intro due_in_next) (simp add: on_time_def)
  have "sorted_wrt (\<lambda>i j. due_in ?k i \<le> due_in ?k j) (timer_list k)"
    by (rule sorted_wrt_mono_rel[OF _ timer_invD(2)[OF kinvD(2)[OF i]]]) (simp add: d)
  moreover have "due_in ?k i \<le> 0x7FFFFFFF" if "i \<in> set (timer_list k)" for i
    using d[OF that] timer_invD(3)[OF kinvD(2)[OF i] that] by simp
  ultimately have "timer_inv ?k" using timer_invD(1,4,5)[OF kinvD(2)[OF i]]
    by (simp add: timer_inv_def rt_object_get_type_def)
  moreover have "ready_inv ?k" using kinvD(1)[OF i] by (rule ready_inv_frame) simp_all
  ultimately show ?thesis using kinvD(3)[OF i]
    by (simp add: kinv_def threads_inv_def live_def rt_object_get_type_def thread_state_def)
qed

text \<open>The slice of the running thread is counted down; when it is used up the thread gets a new one and
  goes behind the threads of its priority.\<close>

lemma rt_tick_increase_returns:
  assumes i: "kinv k" and ok: "timers_ok k" and app: "app_ok app" and o: "on_time k"
    and c: "current_thread k = Some t" and r: "thread_state k t = RT_THREAD_READY"
  obtains k' where "rt_tick_increase app k = Some k'" "kinv k'" "timers_ok k'" "tick k' = tick k + 1"
    "\<And>i. i \<in> set (timer_list k') \<Longrightarrow> 2 \<le> due_in k' i"
proof -
  define k1 where "k1 = k\<lparr>tick := tick k + 1\<rparr>"
  define k2 where "k2 = upd_thread t (\<lambda>th. th\<lparr>th_remaining_tick := th_remaining_tick th - 1\<rparr>) k1"
  define y where "y = upd_thread t (\<lambda>th. th\<lparr>th_remaining_tick := th_init_tick th\<rparr>) k2"
  have k1: "kinv k1" unfolding k1_def by (rule tick_kinv[OF i o])
  then have k2: "kinv k2" unfolding k2_def by (rule kinv_thread_upd) simp_all
  then have y: "kinv y" unfolding y_def by (rule kinv_thread_upd) simp_all
  have st: "thread_state y t = RT_THREAD_READY" using r by (simp add: thread_state_def y_def k2_def k1_def)
  have ct: "current_thread y = Some t" using c by (simp add: y_def k2_def k1_def)
  have sel: "timer_list y = timer_list k" "timers y = timers k" "tick y = tick k + 1" "objs y = objs k"
    "timer_list k2 = timer_list k" "timers k2 = timers k" "tick k2 = tick k + 1" "objs k2 = objs k"
    by (simp_all add: y_def k2_def k1_def)
  from rt_thread_yield_rotates[OF y ct st] obtain ky where ky: "rt_thread_yield y = Some ky" "kinv ky"
    "timer_list ky = timer_list y" "timers ky = timers y" "tick ky = tick y" "objs ky = objs y" by metis
  have "\<exists>k3. (if th_remaining_tick (threads k2 t) = 0 then rt_thread_yield y else Some k2) = Some k3
    \<and> kinv k3 \<and> timer_list k3 = timer_list k \<and> timers k3 = timers k \<and> tick k3 = tick k + 1 \<and> objs k3 = objs k"
    using ky k2 sel by (cases "th_remaining_tick (threads k2 t) = 0") simp_all
  then obtain k3 where k3: "(if th_remaining_tick (threads k2 t) = 0 then rt_thread_yield y else Some k2) = Some k3"
    "kinv k3" "timer_list k3 = timer_list k" "timers k3 = timers k" "tick k3 = tick k + 1" "objs k3 = objs k"
    by blast
  have ok3: "timers_ok k3" using ok by (rule timers_ok_shorter) (simp_all add: k3)
  from timer_check_loop_returns[OF k3(2) ok3 app] obtain k' where
    k': "timer_check_loop app (tick k3) k3 = Some k'" "kinv k'" "timers_ok k'" "tick k' = tick k3" "due_set k' = {}"
    by blast
  have "rt_tick_increase app k =
      (if th_remaining_tick (threads k2 t) = 0 then rt_thread_yield y else Some k2)
      \<bind> (\<lambda>k3. timer_check_loop app (tick k3) k3)"
    using c by (simp add: rt_tick_increase_def rt_timer_check_def rt_tick_get_def Let_def y_def k2_def k1_def)
  then have "rt_tick_increase app k = Some k'" unfolding k3(1) using k'(1) by simp
  moreover have "2 \<le> due_in k' i" if "i \<in> set (timer_list k')" for i
    using k'(5) that unfolding due_set_def overdue_def by (metis (mono_tags, lifting) empty_iff mem_Collect_eq
        not_less_eq_eq one_add_one plus_1_eq_Suc)
  ultimately show ?thesis using k' k3(5) by (intro that[of k']) simp_all
qed

text \<open>When only waits are due, the check wakes exactly the threads whose wait is due.\<close>

lemma timer_check_wakes:
  assumes "kinv k" "timers_ok k" "\<And>i. i \<in> due_set k \<Longrightarrow> \<exists>t. i = ThreadTimer t"
  shows "\<exists>k'. timer_check_loop app (tick k) k = Some k' \<and> kinv k'
    \<and> (\<forall>t. if ThreadTimer t \<in> due_set k
          then thread_state k' t = RT_THREAD_READY \<and> th_error (threads k' t) = - RT_ETIMEOUT
          else threads k' t = threads k t)
    \<and> timer_list k' = filter (\<lambda>i. \<not> overdue k i) (timer_list k) \<and> timers k' = timers k \<and> tick k' = tick k
    \<and> timers_ok k' \<and> (settled k \<longrightarrow> settled k') \<and> kept k k'
    \<and> (\<forall>h. wait_head h \<longrightarrow> tlists k' h = filter (\<lambda>t. ThreadTimer t \<notin> due_set k) (tlists k h))"
  using assms
proof (induction "card (due_set k)" arbitrary: k rule: less_induct)
  case less
  note I = timer_invD[OF kinvD(2)[OF less.prems(1)]]
  show ?case
  proof (cases "timer_list k")
    case Nil
    then show ?thesis using less.prems by (subst timer_check_loop.simps) (simp add: due_set_def)
  next
    case (Cons i ts)
    have test: "tick k - tm_timeout_tick (timers k i) < RT_TICK_HALF \<longleftrightarrow> overdue k i"
      by (rule overdue_test, rule I(3)) (simp add: Cons)
    show ?thesis
    proof (cases "overdue k i")
      case False
      then have n: "\<not> overdue k j" if "j \<in> set (timer_list k)" for j
        using that I(2) by (auto simp: Cons overdue_def)
      then have "due_set k = {}" by (auto simp: due_set_def)
      moreover have "filter (\<lambda>i. \<not> overdue k i) (timer_list k) = timer_list k" using n by (simp add: filter_id_conv)
      ultimately show ?thesis using False test Cons less.prems by (subst timer_check_loop.simps) simp
    next
      case True
      have m: "i \<in> set (timer_list k)" by (simp add: Cons)
      have iD: "i \<in> due_set k" using m True by (simp add: due_set_def)
      then obtain t where t: "i = ThreadTimer t" using less.prems(3) by blast
      from fire_thread[OF less.prems(1,2) m[unfolded t], of app] obtain k1 k2 where
        k: "call_timeout app (tm_func (timers k i)) (rt_timer_remove i k) = Some k1"
        "rearm i k1 = Some k2" "kinv k2" "tick k1 = tick k" "tick k2 = tick k" "timers k2 = timers k"
        "timer_list k2 = removeAll i (timer_list k)" "thread_state k2 t = RT_THREAD_READY"
        "th_error (threads k2 t) = - RT_ETIMEOUT" "\<And>s. s \<noteq> t \<Longrightarrow> threads k2 s = threads k s"
        "\<And>x. x \<noteq> ObjTimer i \<Longrightarrow> objs k2 x = objs k x" "lock_nest k = 0 \<Longrightarrow> settled k2" "kept k k2"
        "tlists k2 = list_append (Ready (th_current_priority (threads k t))) t (list_delete t (tlists k))" unfolding t by metis
      have od: "overdue k2 j = overdue k j" for j using k(5,6) by (simp add: overdue_def due_in_def)
      have d2: "due_set k2 = due_set k - {i}" using k(7) od by (auto simp: due_set_def)
      have "finite (due_set k)" by (simp add: due_set_def)
      then have lt: "card (due_set k2) < card (due_set k)" using iD unfolding d2 by (rule card_Diff1_less)
      have ok2: "timers_ok k2" by (rule timers_ok_shorter[OF less.prems(2) _ k(6)]) (use k(7,11) in auto)
      have only: "\<And>i. i \<in> due_set k2 \<Longrightarrow> \<exists>t. i = ThreadTimer t" using less.prems(3) d2 by auto
      from less.hyps[OF lt k(3) ok2 only] obtain k' where
        k': "timer_check_loop app (tick k2) k2 = Some k'" "kinv k'"
        "\<And>t. if ThreadTimer t \<in> due_set k2
          then thread_state k' t = RT_THREAD_READY \<and> th_error (threads k' t) = - RT_ETIMEOUT
          else threads k' t = threads k2 t"
        "timer_list k' = filter (\<lambda>i. \<not> overdue k2 i) (timer_list k2)" "timers k' = timers k2" "tick k' = tick k2"
        "timers_ok k'" "settled k2 \<longrightarrow> settled k'" "kept k2 k'"
        "\<And>h. wait_head h \<Longrightarrow> tlists k' h = filter (\<lambda>t. ThreadTimer t \<notin> due_set k2) (tlists k2 h)" by blast
      have lists: "tlists k' h = filter (\<lambda>t. ThreadTimer t \<notin> due_set k) (tlists k h)" if h: "wait_head h" for h
      proof -
        have "h \<noteq> Ready p" for p using h by auto
        then have "tlists k2 h = filter (\<lambda>s. t \<noteq> s) (tlists k h)" by (simp add: k(14) list_append_def removeAll_filter_not_eq)
        then show ?thesis unfolding k'(10)[OF h] d2 using iD by (auto simp: t intro: filter_cong)
      qed
      have run: "timer_check_loop app (tick k) k = Some k'"
        using k k'(1) True test Cons by (subst timer_check_loop.simps) (simp add: rt_tick_get_def)
      have "if ThreadTimer s \<in> due_set k
          then thread_state k' s = RT_THREAD_READY \<and> th_error (threads k' s) = - RT_ETIMEOUT
          else threads k' s = threads k s" for s
        using k'(3)[of s] k(8,9) k(10)[of s] iD t unfolding d2 by (cases "s = t") (auto simp: thread_state_def)
      moreover have "timer_list k' = filter (\<lambda>i. \<not> overdue k i) (timer_list k)"
        unfolding k'(4) k(7) od using True
        by (simp add: removeAll_filter_not_eq) (rule filter_cong, auto)
      moreover have "settled k \<longrightarrow> settled k'" using k(12) k'(8) by (simp add: settled_def)
      moreover have "kept k k'" using k(13) k'(9) by (rule kept_trans)
      moreover have "timers k' = timers k" "tick k' = tick k" using k'(5,6) k(5,6) by simp_all
      ultimately show ?thesis using run k'(2,7) lists by blast
    qed
  qed
qed

subsection \<open>A periodic timer of 0 ticks\<close>

text \<open>The tick handler of a running periodic timer without a period restarts it as due, for ever.\<close>

definition stuck :: "kernel \<Rightarrow> bool" where
  "stuck k \<longleftrightarrow> (\<exists>n f p. timer_list k = [AppTimer n] \<and> tm_func (timers k (AppTimer n)) = AppTimeout f p
     \<and> tm_init_tick (timers k (AppTimer n)) = 0 \<and> tm_timeout_tick (timers k (AppTimer n)) = tick k
     \<and> timer_typed k (AppTimer n) \<and> periodic k (AppTimer n)
     \<and> obj_flag k (ObjTimer (AppTimer n)) AND RT_TIMER_FLAG_ACTIVATED \<noteq> 0)"

lemma stuck_round:
  assumes s: "stuck k"
  obtains i f p k2 where "timer_list k = [i]" "tm_func (timers k i) = AppTimeout f p"
    "tm_timeout_tick (timers k i) = tick k"
    "rearm i (rt_timer_remove i k) = Some k2" "stuck k2" "tick k2 = tick k"
proof -
  obtain n f p where a: "timer_list k = [AppTimer n]" "tm_func (timers k (AppTimer n)) = AppTimeout f p"
    "tm_init_tick (timers k (AppTimer n)) = 0" "tm_timeout_tick (timers k (AppTimer n)) = tick k"
    "timer_typed k (AppTimer n)" "periodic k (AppTimer n)"
    "obj_flag k (ObjTimer (AppTimer n)) AND RT_TIMER_FLAG_ACTIVATED \<noteq> 0"
    using s unfolding stuck_def by blast
  let ?i = "AppTimer n"
  let ?d = "deactivate ?i (rt_timer_remove ?i k)"
  have ty: "timer_typed ?d ?i" using a(5) by (simp add: rt_object_get_type_def)
  obtain k2 where st: "rt_timer_start ?i ?d = Some k2"
    using ty a(3) by (simp add: rt_timer_start_def rt_object_get_type_def Let_def)
  note g = rt_timer_start_some[OF st]
  have "rearm ?i (rt_timer_remove ?i k) = Some k2" using a(6,7) st by (simp add: rearm_def periodic_def)
  moreover have "periodic k2 ?i" using st a(6)
    by (auto simp: rt_timer_start_def Let_def activate_def deactivate_def periodic_def flag_simps
        split: Option.bind_splits)
  then have "stuck k2" unfolding stuck_def using a g ty
    by (intro exI[of _ n] exI[of _ f] exI[of _ p]) (simp add: rt_object_get_type_def)
  ultimately show ?thesis using a g(4) by (intro that[of ?i f p k2]) simp_all
qed

lemma timer_check_stuck:
  assumes "timer_check_loop app c k = Some k'"
  shows "app = (\<lambda>f p k. Some k) \<longrightarrow> c = tick k \<longrightarrow> \<not> stuck k"
  using assms
proof (rule timer_check_loop.raw_induct[rotated])
  fix loop app c k k'
  assume IH: "\<And>(app :: app_timeout) c k k'. loop app c k = Some k' \<Longrightarrow>
      app = (\<lambda>f p k. Some k) \<longrightarrow> c = tick k \<longrightarrow> \<not> stuck k"
    and body: "(case timer_list k of [] \<Rightarrow> Some k
      | t # _ \<Rightarrow> if c - tm_timeout_tick (timers k t) < RT_TICK_HALF
          then call_timeout app (tm_func (timers k t)) (rt_timer_remove t k) \<bind>
               (\<lambda>k1. rearm t k1 \<bind> (\<lambda>k2. loop app (rt_tick_get k1) k2))
          else Some k) = Some k'"
  show "app = (\<lambda>f p k. Some k) \<longrightarrow> c = tick k \<longrightarrow> \<not> stuck k"
  proof (intro impI notI)
    assume a: "app = (\<lambda>f p k. Some k)" "c = tick k" "stuck k"
    from stuck_round[OF a(3)] obtain i f p k2 where r: "timer_list k = [i]" "tm_func (timers k i) = AppTimeout f p"
      "tm_timeout_tick (timers k i) = tick k" "rearm i (rt_timer_remove i k) = Some k2" "stuck k2" "tick k2 = tick k"
      by metis
    have "loop app (tick k2) k2 = Some k'" using body r a(1,2) by (simp add: call_timeout_def rt_tick_get_def)
    with IH a(1) r(5) show False by blast
  qed
qed

subsection \<open>What the idle thread frees\<close>

lemma idle_excute_step:
  assumes "tlists k Defunct = t # ts" "interrupt_nest k = 0" "th_cleanup (threads k t) = None"
    "\<not> rt_object_is_systemobject (ObjThread t) k"
    "rt_exit_critical (rt_enter_critical (k\<lparr>tlists := list_delete t (tlists k)\<rparr>)) = Some k2"
    "rt_object_delete (ObjThread t) k2 = Some k3"
  shows "rt_thread_idle_excute cleanup freed k =
    rt_thread_idle_excute cleanup (freed @ [(th_stack_addr (threads k2 t), t)]) k3"
  using assms
  by (subst rt_thread_idle_excute.simps) (simp add: rt_enter_critical_def rt_object_is_systemobject_def)

lemma critical_roundtrip:
  assumes "lock_nest k = 0"
  shows "rt_exit_critical (rt_enter_critical k) = rt_schedule k"
proof -
  have same: "k\<lparr>lock_nest := 0\<rparr> = k" using assms by (cases k) simp
  have "rt_exit_critical (rt_enter_critical k) = rt_schedule (k\<lparr>lock_nest := 0\<rparr>)"
    using assms by (simp add: rt_exit_critical_def rt_enter_critical_def)
  then show ?thesis unfolding same .
qed

lemma delete_object_kinv:
  assumes "kinv k" "thread_state k t = RT_THREAD_CLOSE" "rt_object_delete (ObjThread t) k = Some k'"
  shows "kinv k'"
proof -
  have "k' = rt_object_detach (ObjThread t) k"
    using assms(3) by (auto simp: rt_object_delete_def rt_object_detach_def Let_def split: Option.bind_splits)
  with detach_object_kinv[OF assms(1,2)] show ?thesis by simp
qed

lemma defunct_delete_kinv:
  assumes i: "kinv k" and t: "t \<in> set (tlists k Defunct)"
  shows "kinv (k\<lparr>tlists := list_delete t (tlists k)\<rparr>)" (is "kinv ?k")
proof -
  have c: "thread_state k t = RT_THREAD_CLOSE" using thread_okD(1)[OF ready_invD(3)[OF kinvD(1)[OF i]] t] by simp
  have nr: "t \<notin> set (tlists k (Ready p))" for p
    by (rule not_ready_on_no_ready_list[OF kinvD(1)[OF i]]) (simp add: c)
  then have same: "removeAll t (tlists k (Ready p)) = tlists k (Ready p)" for p by simp
  have "ready_inv_wo t ?k"
    using ready_invD[OF kinvD(1)[OF i]] disjoint_delete[OF ready_invD(1)[OF kinvD(1)[OF i]], of t] same
    by (auto simp: ready_inv_wo_def bitmap_ok_def thread_ok_def thread_state_def)
  then have "ready_inv ?k" by (rule ready_inv_settle) (use c in \<open>simp_all add: thread_state_def\<close>)
  moreover have "timer_inv ?k" using kinvD(2)[OF i] by (rule timer_inv_frame) simp_all
  ultimately show ?thesis using kinvD(3)[OF i]
    by (simp add: kinv_def threads_inv_def live_def rt_object_get_type_def thread_state_def)
qed

text \<open>All defunct threads of dynamic objects without clean-up functions are freed in one call, in the
  order of the list, and the call returns.\<close>

lemma idle_excute_frees_all:
  assumes "kinv k" "interrupt_nest k = 0" "lock_nest k = 0" "current_thread k = Some c" "most_urgent k c"
    and "\<And>t. t \<in> set (tlists k Defunct) \<Longrightarrow> th_cleanup (threads k t) = None \<and> o_type (objs k (ObjThread t)) AND RT_Object_Class_Static = 0"
  shows "\<exists>k'. rt_thread_idle_excute cleanup freed k =
      Some (freed @ map (\<lambda>t. (th_stack_addr (threads k t), t)) (tlists k Defunct), k')
    \<and> kinv k' \<and> tlists k' Defunct = [] \<and> threads k' = threads k \<and> current_thread k' = Some c"
  using assms
proof (induction "tlists k Defunct" arbitrary: k freed)
  case Nil
  then show ?case by (subst rt_thread_idle_excute.simps) simp
next
  case (Cons t ts)
  have d: "distinct (t # ts)" using ready_invD(1)[OF kinvD(1)[OF Cons.prems(1)]] Cons(2)
    unfolding disjoint_lists_def by metis
  have t: "t \<in> set (tlists k Defunct)" using Cons(2)[symmetric] by simp
  have cl: "thread_state k t = RT_THREAD_CLOSE"
    using thread_okD(1)[OF ready_invD(3)[OF kinvD(1)[OF Cons.prems(1)]] t] by simp
  have ct: "c \<noteq> t" using Cons.prems(5) cl by (auto simp: most_urgent_def)
  let ?k1 = "k\<lparr>tlists := list_delete t (tlists k)\<rparr>"
  have k1: "kinv ?k1" by (rule defunct_delete_kinv[OF Cons.prems(1) t])
  have "t \<notin> set (tlists k (Ready p))" for p
    by (rule not_ready_on_no_ready_list[OF kinvD(1)[OF Cons.prems(1)]]) (simp add: cl)
  then have mu: "most_urgent ?k1 c" using Cons.prems(5) by (simp add: most_urgent_def thread_state_def)
  have "highest_ready ?k1 = Some (th_current_priority (threads k c), c)"
  proof -
    have "thread_state ?k1 c = RT_THREAD_READY" using mu by (simp add: most_urgent_def)
    from highest_ready_some[OF kinvD(1)[OF k1] this] obtain u where
      "highest_ready ?k1 = Some (th_current_priority (threads ?k1 u), u)" "most_urgent ?k1 u" by blast
    with most_urgent_unique[OF mu] show ?thesis by simp
  qed
  then have sc: "rt_schedule ?k1 = Some ?k1" using Cons.prems(3,4) by (simp add: rt_schedule_def)
  have ex: "rt_exit_critical (rt_enter_critical ?k1) = Some ?k1"
    using critical_roundtrip[of ?k1] Cons.prems(3) sc by simp
  obtain k3 where k3: "rt_object_delete (ObjThread t) ?k1 = Some k3"
    using Cons.prems(6)[OF t] by (simp add: rt_object_delete_def)
  have k3k: "kinv k3" by (rule delete_object_kinv[OF k1 _ k3]) (use cl in \<open>simp add: thread_state_def\<close>)
  have sel: "tlists k3 = list_delete t (tlists k)" "threads k3 = threads k" "interrupt_nest k3 = 0" "lock_nest k3 = 0"
    "current_thread k3 = Some c" "\<And>s. s \<noteq> t \<Longrightarrow> objs k3 (ObjThread s) = objs k (ObjThread s)"
    using k3 Cons.prems(2,3,4) by (auto simp: rt_object_delete_def split: Option.bind_splits)
  have ts: "ts = tlists k3 Defunct" using sel(1) Cons(2)[symmetric] d by simp
  have mu3: "most_urgent k3 c" using mu sel(1,2) by (simp add: most_urgent_def thread_state_def)
  have only: "\<And>s. s \<in> set (tlists k3 Defunct) \<Longrightarrow>
      th_cleanup (threads k3 s) = None \<and> o_type (objs k3 (ObjThread s)) AND RT_Object_Class_Static = 0"
    using Cons.prems(6) sel by auto
  have "rt_thread_idle_excute cleanup freed k =
      rt_thread_idle_excute cleanup (freed @ [(th_stack_addr (threads k t), t)]) k3"
    using idle_excute_step[OF Cons(2)[symmetric] Cons.prems(2) _ _ ex k3, of cleanup freed] Cons.prems(6)[OF t]
    by (simp add: rt_object_is_systemobject_def)
  moreover from Cons(1)[OF ts k3k sel(3,4,5) mu3 only, of "freed @ [(th_stack_addr (threads k t), t)]"] obtain k' where
    "rt_thread_idle_excute cleanup (freed @ [(th_stack_addr (threads k t), t)]) k3 =
      Some ((freed @ [(th_stack_addr (threads k t), t)]) @ map (\<lambda>t. (th_stack_addr (threads k3 t), t)) (tlists k3 Defunct), k')"
    "kinv k'" "tlists k' Defunct = []" "threads k' = threads k3" "current_thread k' = Some c" by blast
  moreover have "tlists k Defunct = t # tlists k3 Defunct" using Cons(2) ts by simp
  ultimately show ?case using sel(2) by (intro exI[of _ k']) simp
qed

end
