(* ===== verification/RT_Ticks.thy ===== *)
theory RT_Ticks
  imports RT_Clock
begin

text \<open>
  Time passing: a run of clock interrupts with no kernel call in between, while the running timers
  are the timers of waiting threads. A thread that sleeps, or waits with a timeout, for \<open>n\<close> ticks is
  woken by the \<open>n\<close>-th interrupt and by none before.
\<close>

primrec run_ticks :: "app_timeout \<Rightarrow> nat \<Rightarrow> kernel \<Rightarrow> kernel option" where
  "run_ticks app 0 k = Some k"
| "run_ticks app (Suc n) k = do { k1 \<leftarrow> rt_tick_increase app k; run_ticks app n k1 }"

definition waits_only :: "kernel \<Rightarrow> bool" where
  "waits_only k \<longleftrightarrow> (\<forall>i\<in>set (timer_list k). \<exists>t. i = ThreadTimer t)"

definition ticking :: "kernel \<Rightarrow> bool" where
  "ticking k \<longleftrightarrow> kinv k \<and> timers_ok k \<and> on_time k \<and> waits_only k \<and> settled k"

lemma yield_kept:
  assumes i: "kinv k" and c: "current_thread k = Some t" and r: "thread_state k t = RT_THREAD_READY"
    and y: "rt_thread_yield k = Some k'"
  shows "kept k k'" "\<And>h. wait_head h \<Longrightarrow> tlists k' h = tlists k h"
proof -
  define h0 where "h0 = Ready (th_current_priority (threads k t))"
  note rot = rt_thread_yield_rotates[OF i c r, folded h0_def]
  have k': "kept k k'"
    "tlists k' = (if 2 \<le> length (tlists k h0) then list_append h0 t (list_delete t (tlists k)) else tlists k)"
    by (rule rot, use y in \<open>simp add: kept_def periodic_def\<close>)+
  then show "kept k k'" by simp
  fix h assume h: "wait_head h"
  then have "t \<notin> set (tlists k h)" "h \<noteq> h0" using ready_not_waiting[OF kinvD(1)[OF i] r h] by (auto simp: h0_def)
  then show "tlists k' h = tlists k h" by (simp add: k'(2) list_append_def)
qed

text \<open>The first half of the handler: the tick, the slice of the running thread.\<close>

lemma slice_ok:
  assumes k: "ticking k"
  obtains k3 where "rt_tick_increase app k = timer_check_loop app (tick k3) k3" "kinv k3" "settled k3" "timers_ok k3"
    "timer_list k3 = timer_list k" "timers k3 = timers k" "tick k3 = tick k + 1"
    "\<And>s. thread_state k3 s = thread_state k s" "\<And>s. th_error (threads k3 s) = th_error (threads k s)"
    "kept k k3" "\<And>h. wait_head h \<Longrightarrow> tlists k3 h = tlists k h"
proof -
  have i: "kinv k" and ok: "timers_ok k" and o: "on_time k" and st: "settled k" using k by (auto simp: ticking_def)
  obtain t where c: "current_thread k = Some t" and mu: "most_urgent k t" and l: "lock_nest k = 0"
    using st by (auto simp: settled_def)
  have r: "thread_state k t = RT_THREAD_READY" using mu by (simp add: most_urgent_def)
  define k1 where "k1 = k\<lparr>tick := tick k + 1\<rparr>"
  define k2 where "k2 = upd_thread t (\<lambda>th. th\<lparr>th_remaining_tick := th_remaining_tick th - 1\<rparr>) k1"
  define y where "y = upd_thread t (\<lambda>th. th\<lparr>th_remaining_tick := th_init_tick th\<rparr>) k2"
  have "kinv k1" unfolding k1_def by (rule tick_kinv[OF i o])
  then have k2: "kinv k2" unfolding k2_def by (rule kinv_thread_upd) simp_all
  then have y: "kinv y" unfolding y_def by (rule kinv_thread_upd) simp_all
  have e: "rt_tick_increase app k =
      (if th_remaining_tick (threads k2 t) = 0 then rt_thread_yield y else Some k2)
      \<bind> (\<lambda>k3. timer_check_loop app (tick k3) k3)"
    using c by (simp add: rt_tick_increase_def rt_timer_check_def rt_tick_get_def Let_def y_def k2_def k1_def)
  show ?thesis
  proof (cases "th_remaining_tick (threads k2 t) = 0")
    case False
    have "timers_ok k2" using ok by (rule timers_ok_shorter) (simp_all add: k2_def k1_def)
    moreover have "settled k2" using st c l mu by (auto simp: settled_def most_urgent_def k2_def k1_def thread_state_def)
    ultimately show ?thesis using False e k2
      by (intro that[of k2]) (simp_all add: k2_def k1_def thread_state_def kept_def periodic_def)
  next
    case True
    have "thread_state y t = RT_THREAD_READY" "current_thread y = Some t"
      using r c by (simp_all add: thread_state_def y_def k2_def k1_def)
    from rt_thread_yield_rotates[OF y this(2,1)] obtain ky where ky: "rt_thread_yield y = Some ky" "kinv ky"
      "threads ky = threads y" "timer_list ky = timer_list y" "timers ky = timers y" "tick ky = tick y" "objs ky = objs y" "settled y \<Longrightarrow> settled ky"
      by metis
    note kw = yield_kept[OF y \<open>current_thread y = Some t\<close> \<open>thread_state y t = RT_THREAD_READY\<close> ky(1)]
    have "timers_ok ky" using ok by (rule timers_ok_shorter) (simp_all add: ky y_def k2_def k1_def)
    moreover have "settled y" using c l mu by (auto simp: settled_def most_urgent_def y_def k2_def k1_def thread_state_def)
    then have "settled ky" by (rule ky(8))
    ultimately show ?thesis using True e ky kw
      by (intro that[of ky]) (simp_all add: y_def k2_def k1_def thread_state_def kept_def periodic_def)
  qed
qed

text \<open>One interrupt: the waits that are due, and no others, end with a timeout; the rest comes one tick
  nearer.\<close>

lemma tick_wakes:
  assumes k: "ticking k"
  obtains k' where "rt_tick_increase app k = Some k'" "ticking k'"
    "\<And>t. ThreadTimer t \<in> set (timer_list k) \<Longrightarrow> due_in k (ThreadTimer t) \<le> 2 \<Longrightarrow>
       thread_state k' t = RT_THREAD_READY \<and> th_error (threads k' t) = - RT_ETIMEOUT"
    "\<And>t. ThreadTimer t \<notin> set (timer_list k) \<or> 2 < due_in k (ThreadTimer t) \<Longrightarrow>
       thread_state k' t = thread_state k t \<and> th_error (threads k' t) = th_error (threads k t)"
    "\<And>i. i \<in> set (timer_list k') \<longleftrightarrow> i \<in> set (timer_list k) \<and> 2 < due_in k i"
    "\<And>i. i \<in> set (timer_list k') \<Longrightarrow> due_in k' i = due_in k i - 1" "kept k k'"
    "\<And>h. wait_head h \<Longrightarrow> set (tlists k' h) \<subseteq> set (tlists k h)"
proof -
  from slice_ok[OF k, of app] obtain k3 where k3: "rt_tick_increase app k = timer_check_loop app (tick k3) k3"
    "kinv k3" "settled k3" "timers_ok k3" "timer_list k3 = timer_list k" "timers k3 = timers k" "tick k3 = tick k + 1"
    "\<And>s. thread_state k3 s = thread_state k s" "\<And>s. th_error (threads k3 s) = th_error (threads k s)"
    "kept k k3" "\<And>h. wait_head h \<Longrightarrow> tlists k3 h = tlists k h" by metis
  have o: "on_time k" and w: "waits_only k" using k by (auto simp: ticking_def)
  have d: "due_in k3 i = due_in k i - 1" if "i \<in> set (timer_list k)" for i
  proof -
    have "due_in k3 i = due_in (k\<lparr>tick := tick k + 1\<rparr>) i" using k3(6,7) by (simp add: due_in_def)
    also have "\<dots> = due_in k i - 1" using o that by (intro due_in_next) (simp add: on_time_def)
    finally show ?thesis .
  qed
  have od: "overdue k3 i \<longleftrightarrow> due_in k i \<le> 2" if "i \<in> set (timer_list k)" for i
    using d[OF that] by (auto simp: overdue_def)
  have ds: "i \<in> due_set k3 \<longleftrightarrow> i \<in> set (timer_list k) \<and> due_in k i \<le> 2" for i
    using od by (auto simp: due_set_def k3(5))
  have "\<exists>t. i = ThreadTimer t" if "i \<in> due_set k3" for i using that w by (auto simp: ds waits_only_def)
  from timer_check_wakes[OF k3(2,4) this, of app] obtain k' where
    k': "timer_check_loop app (tick k3) k3 = Some k'" "kinv k'"
    "\<And>t. if ThreadTimer t \<in> due_set k3 then thread_state k' t = RT_THREAD_READY \<and> th_error (threads k' t) = - RT_ETIMEOUT
          else threads k' t = threads k3 t"
    "timer_list k' = filter (\<lambda>i. \<not> overdue k3 i) (timer_list k3)" "timers k' = timers k3" "tick k' = tick k3"
    "timers_ok k'" "settled k'" "kept k3 k'"
    "\<And>h. wait_head h \<Longrightarrow> tlists k' h = filter (\<lambda>t. ThreadTimer t \<notin> due_set k3) (tlists k3 h)" using k3(3) by blast
  have kp: "kept k k'" by (rule kept_trans[OF k3(10) k'(9)])
  have sub: "set (tlists k' h) \<subseteq> set (tlists k h)" if "wait_head h" for h using k'(10)[OF that] k3(11)[OF that] by auto
  have dd: "due_in k' i = due_in k3 i" for i using k'(5,6) by (simp add: due_in_def)
  have m: "i \<in> set (timer_list k') \<longleftrightarrow> i \<in> set (timer_list k) \<and> 2 < due_in k i" for i
    using od[of i] by (auto simp: k'(4) k3(5))
  have "ticking k'" unfolding ticking_def
    using k'(2,7,8) w m d dd by (auto simp: on_time_def waits_only_def)
  moreover have "thread_state k' t = RT_THREAD_READY \<and> th_error (threads k' t) = - RT_ETIMEOUT"
    if "ThreadTimer t \<in> set (timer_list k)" "due_in k (ThreadTimer t) \<le> 2" for t
    using k'(3)[of t] that by (simp add: ds)
  moreover have "thread_state k' t = thread_state k t \<and> th_error (threads k' t) = th_error (threads k t)"
    if "ThreadTimer t \<notin> set (timer_list k) \<or> 2 < due_in k (ThreadTimer t)" for t
    using k'(3)[of t] that k3(8,9)[of t] by (auto simp: ds thread_state_def)
  ultimately show ?thesis using k3(1) k'(1) m d dd kp sub by (intro that[of k']) simp_all
qed

text \<open>\<open>waiting k t n\<close>: the wait of thread \<open>t\<close> ends at the \<open>n\<close>-th interrupt from now.\<close>

definition waiting :: "kernel \<Rightarrow> tid \<Rightarrow> nat \<Rightarrow> bool" where
  "waiting k t n \<longleftrightarrow> ThreadTimer t \<in> set (timer_list k) \<and> due_in k (ThreadTimer t) = Suc n"

lemma waiting_suspended: "kinv k \<Longrightarrow> waiting k t n \<Longrightarrow> thread_state k t = RT_THREAD_SUSPEND"
  by (simp add: waiting_def kinvD(5))

lemma run_ticks_wakes:
  assumes "ticking k" "waiting k t (Suc n)"
  shows "(\<forall>j\<le>n. \<exists>k'. run_ticks app j k = Some k' \<and> thread_state k' t = RT_THREAD_SUSPEND \<and> waiting k' t (Suc n - j))
    \<and> (\<exists>k'. run_ticks app (Suc n) k = Some k' \<and> ticking k' \<and> thread_state k' t = RT_THREAD_READY
         \<and> th_error (threads k' t) = - RT_ETIMEOUT)"
  using assms
proof (induction n arbitrary: k)
  case 0
  have "kinv k" using 0(1) by (simp add: ticking_def)
  from tick_wakes[OF 0(1), of app] obtain k' where "rt_tick_increase app k = Some k'" "ticking k'"
    "thread_state k' t = RT_THREAD_READY \<and> th_error (threads k' t) = - RT_ETIMEOUT"
    using 0(2) unfolding waiting_def by (metis One_nat_def Suc_1 order_refl)
  then show ?case using 0(2) waiting_suspended[OF \<open>kinv k\<close> 0(2)] by simp
next
  case (Suc n)
  have i: "kinv k" using Suc.prems(1) by (simp add: ticking_def)
  from tick_wakes[OF Suc.prems(1), of app] obtain k1 where k1: "rt_tick_increase app k = Some k1" "ticking k1"
    "\<And>i. i \<in> set (timer_list k1) \<longleftrightarrow> i \<in> set (timer_list k) \<and> 2 < due_in k i"
    "\<And>i. i \<in> set (timer_list k1) \<Longrightarrow> due_in k1 i = due_in k i - 1" by metis
  have w: "waiting k1 t (Suc n)" using Suc.prems(2) k1(3,4) by (simp add: waiting_def)
  note ih = Suc.IH[OF k1(2) w]
  have "\<exists>k'. run_ticks app j k = Some k' \<and> thread_state k' t = RT_THREAD_SUSPEND \<and> waiting k' t (Suc (Suc n) - j)"
    if "j \<le> Suc n" for j
  proof (cases j)
    case 0
    then show ?thesis using Suc.prems(2) waiting_suspended[OF i Suc.prems(2)] by simp
  next
    case (Suc j')
    with ih that k1(1) show ?thesis by simp
  qed
  moreover have "run_ticks app (Suc (Suc n)) k = run_ticks app (Suc n) k1" using k1(1) by simp
  ultimately show ?case using ih by metis
qed

text \<open>Starting and stopping a timer leaves its kind alone.\<close>

lemma periodic_start: "rt_timer_start i k = Some k' \<Longrightarrow> periodic k' j = periodic k j"
  by (cases "j = i") (auto simp: rt_timer_start_def Let_def activate_def deactivate_def rt_timer_remove_def
      periodic_def flag_simps split: Option.bind_splits)

lemma periodic_stop: "rt_timer_stop i k = Some (e, k') \<Longrightarrow> periodic k' j = periodic k j"
  by (cases "j = i") (auto simp: rt_timer_stop_def deactivate_def rt_timer_remove_def periodic_def flag_simps
      split: Option.bind_splits if_splits)

lemma kept_start: "rt_timer_start i k = Some k' \<Longrightarrow> kept k k'"
  using periodic_start[of i k k']
  by (auto simp: kept_def rt_timer_start_def Let_def activate_def deactivate_def rt_timer_remove_def split: Option.bind_splits)

lemma kept_stop: "rt_timer_stop i k = Some (e, k') \<Longrightarrow> kept k k'"
  using periodic_stop[of i k e k']
  by (auto simp: kept_def rt_timer_stop_def deactivate_def rt_timer_remove_def split: Option.bind_splits if_splits)

lemma kept_control: "rt_timer_control i 0 tmo k = Some (r, k') \<Longrightarrow> kept k k'"
  by (auto simp: rt_timer_control_def kept_def periodic_def split: Option.bind_splits)

lemma kept_schedule: "rt_schedule k = Some k' \<Longrightarrow> kept k k'"
  using rt_schedule_frame[of k k'] by (simp add: kept_def periodic_def)

lemma kept_suspend: "rt_thread_suspend t k = Some (e, k') \<Longrightarrow> kept k k'"
proof (cases "thread_state k t = RT_THREAD_READY")
  case True
  let ?k = "rt_schedule_remove_thread t (upd_thread t (\<lambda>th. th\<lparr>th_stat := RT_THREAD_SUSPEND OR (th_stat th AND NOT RT_THREAD_STAT_MASK)\<rparr>) k)"
  assume "rt_thread_suspend t k = Some (e, k')"
  then obtain e' where "rt_timer_stop (ThreadTimer t) ?k = Some (e', k')"
    using True by (auto simp: rt_thread_suspend_def Let_def split: Option.bind_splits)
  from kept_stop[OF this] show ?thesis by (simp add: kept_def periodic_def)
qed (auto simp: rt_thread_suspend_def split: Option.bind_splits)

text \<open>A call that arms at most the timer of one thread leaves the clock in order.\<close>

lemma ticking_armed:
  assumes k: "ticking k" and i: "kinv k'" and st: "settled k'" and t: "tick k' = tick k" and p: "\<not> periodic k (ThreadTimer t)"
    and pe: "\<And>i. periodic k' i = periodic k i"
    and mem: "set (timer_list k') \<subseteq> insert (ThreadTimer t) (set (timer_list k))"
    and tm: "\<And>i. i \<noteq> ThreadTimer t \<Longrightarrow> timers k' i = timers k i"
    and due: "ThreadTimer t \<in> set (timer_list k') \<Longrightarrow> 1 \<le> due_in k' (ThreadTimer t)"
  shows "ticking k'"
proof -
  have ok: "timers_ok k" and on: "on_time k" and w: "waits_only k" using k by (auto simp: ticking_def)
  have wo: "waits_only k'" using w mem by (fastforce simp: waits_only_def)
  moreover have "timers_ok k'" unfolding timers_ok_def
  proof
    fix i assume i: "i \<in> set (timer_list k')"
    then obtain s where s: "i = ThreadTimer s" using wo by (auto simp: waits_only_def)
    have "\<not> periodic k i" using i mem p ok s by (auto simp: timers_ok_def dest!: bspec)
    then show "case i of ThreadTimer t \<Rightarrow> \<not> periodic k' i
       | AppTimer n \<Rightarrow> (\<exists>f p. tm_func (timers k' i) = AppTimeout f p)
       \<and> (periodic k' i \<longrightarrow> 0 < tm_init_tick (timers k' i) \<and> tm_init_tick (timers k' i) < RT_TICK_HALF)"
      by (simp add: s pe)
  qed
  moreover have "on_time k'" unfolding on_time_def
  proof
    fix i assume i: "i \<in> set (timer_list k')"
    show "1 \<le> due_in k' i"
    proof (cases "i = ThreadTimer t")
      case True
      with due i show ?thesis by simp
    next
      case False
      then have "due_in k' i = due_in k i" "i \<in> set (timer_list k)" using tm[OF False] t i mem by (auto simp: due_in_def)
      then show ?thesis using on by (simp add: on_time_def)
    qed
  qed
  ultimately show ?thesis using i st by (simp add: ticking_def)
qed

text \<open>Going to sleep starts such a wait.\<close>

lemma sleep_waits:
  assumes k: "ticking k" and c: "current_thread k = Some t" and b: "tmo < RT_TICK_HALF"
    and o: "thread_state k u = RT_THREAD_READY" "u \<noteq> t" and p: "\<not> periodic k (ThreadTimer t)"
  obtains k' where "rt_thread_sleep tmo k = Some k'" "ticking k'" "waiting k' t (unat tmo)" "kept k k'"
    "\<And>s. s \<noteq> t \<Longrightarrow> threads k' s = threads k s" "\<And>h. wait_head h \<Longrightarrow> tlists k' h = tlists k h"
proof -
  have i: "kinv k" and st: "settled k" using k by (auto simp: ticking_def)
  have r: "thread_state k t = RT_THREAD_READY" and l: "lock_nest k = 0" using st c by (auto simp: settled_def most_urgent_def)
  have ty: "thread_typed k t" using kinvD(4)[OF i, of t] r by (simp add: live_def)
  from rt_thread_suspend_ready[OF i r] obtain k1 where k1: "rt_thread_suspend t k = Some (RT_EOK, k1)"
    "kinv k1" "thread_state k1 t = RT_THREAD_SUSPEND" "\<And>s. s \<noteq> t \<Longrightarrow> threads k1 s = threads k s" "lock_nest k1 = lock_nest k"
    "timer_list k1 = removeAll (ThreadTimer t) (timer_list k)" "timers k1 = timers k" "tick k1 = tick k"
    "tlists k1 = list_delete t (tlists k)" by metis
  from arm_timer[OF k1(2,3) b] obtain k2 k3 where k3: "rt_timer_control (ThreadTimer t) 0 tmo k1 = Some (tmo, k2)"
    "rt_timer_start (ThreadTimer t) k2 = Some k3" "kinv k3" "ThreadTimer t \<in> set (timer_list k3)"
    "due_in k3 (ThreadTimer t) = Suc (unat tmo)" "threads k3 = threads k1" "lock_nest k3 = lock_nest k1" "tick k3 = tick k1"
    "\<And>i. i \<noteq> ThreadTimer t \<Longrightarrow> timers k3 i = timers k1 i"
    "set (timer_list k3) = insert (ThreadTimer t) (set (timer_list k1))" "tlists k3 = tlists k1" by metis
  have u: "thread_state k3 u = RT_THREAD_READY" using o k3(6) k1(4) by (simp add: thread_state_def)
  from rt_schedule_some[OF kinvD(1)[OF k3(3)] u] obtain k' where sc: "rt_schedule k3 = Some k'" by blast
  note f = rt_schedule_frame[OF sc]
  have run: "rt_thread_sleep tmo k = Some k'" using c ty k1(1) k3(1,2) sc by (simp add: rt_thread_sleep_def)
  have kp: "kept k k'"
    by (rule kept_trans[OF kept_suspend[OF k1(1)] kept_trans[OF kept_control[OF k3(1)] kept_trans[OF kept_start[OF k3(2)] kept_schedule[OF sc]]]])
  have "settled k'" by (rule rt_schedule_settles[OF kinvD(1)[OF k3(3)] sc]) (simp add: k3(7) k1(5) l)
  then have "ticking k'"
    by (rule ticking_armed[OF k kinv_schedule[OF sc k3(3)] _ _ p])
      (use kp k3(4,5,8,9,10) k1(6,7,8) f in \<open>auto simp: kept_def due_in_def\<close>)
  moreover have "waiting k' t (unat tmo)" using k3(4,5) f by (simp add: waiting_def due_in_def)
  moreover have "tlists k' h = tlists k h" if "wait_head h" for h
    using ready_not_waiting[OF kinvD(1)[OF i] r that] k1(9) k3(11) f(1) by simp
  ultimately show ?thesis using run kp k1(4) k3(6) f(2) by (intro that[of k']) simp_all
qed

end
