(* ===== verification/RT_Ipc.thy ===== *)
theory RT_Ipc
  imports RT_Clock
begin

text \<open>
  The part of \<open>src/ipc.c\<close> that every IPC object shares: a list of suspended threads, in the order of
  arrival or of priority, with a timeout per thread. A node that is put on a list must be on no list
  before; \<open>rt_thread_suspend\<close> sees to that for a ready thread.
\<close>

subsection \<open>Operations\<close>

text \<open>The place of a thread on a list kept by priority: in front of the first waiter of a strictly
  greater priority number, else at the end.\<close>

fun prio_insert :: "(tid \<Rightarrow> u8) \<Rightarrow> tid \<Rightarrow> tid list \<Rightarrow> tid list" where
  "prio_insert prio t [] = [t]"
| "prio_insert prio t (s # ss) = (if prio t < prio s then t # s # ss else s # prio_insert prio t ss)"

definition wait_insert :: "u8 \<Rightarrow> (tid \<Rightarrow> u8) \<Rightarrow> tid \<Rightarrow> tid list \<Rightarrow> tid list" where
  "wait_insert flag prio t ts =
     (if flag = RT_IPC_FLAG_FIFO then ts @ [t]
      else if flag = RT_IPC_FLAG_PRIO then prio_insert prio t ts
      else ts)"

definition rt_ipc_list_suspend :: "thead \<Rightarrow> tid \<Rightarrow> u8 \<Rightarrow> kernel \<Rightarrow> kernel option" where
  "rt_ipc_list_suspend h t flag k = do {
     (_, k1) \<leftarrow> rt_thread_suspend t k;
     Some (k1\<lparr>tlists := (tlists k1)(h := wait_insert flag (\<lambda>s. th_current_priority (threads k1 s)) t (tlists k1 h))\<rparr>) }"

text \<open>With no waiter the entry computed from the list head is no thread.\<close>

definition rt_ipc_list_resume :: "thead \<Rightarrow> kernel \<Rightarrow> kernel option" where
  "rt_ipc_list_resume h k =
     (case tlists k h of [] \<Rightarrow> None
      | t # _ \<Rightarrow> do { (_, k1) \<leftarrow> rt_thread_resume t k; Some k1 })"

partial_function (option) rt_ipc_list_resume_all :: "thead \<Rightarrow> kernel \<Rightarrow> kernel option" where
  "rt_ipc_list_resume_all h k =
     (case tlists k h of [] \<Rightarrow> Some k
      | t # _ \<Rightarrow> do {
          (_, k1) \<leftarrow> rt_thread_resume t (upd_thread t (\<lambda>th. th\<lparr>th_error := - RT_ERROR\<rparr>) k);
          rt_ipc_list_resume_all h k1 })"

text \<open>The timer of a wait: none when the caller waits for ever (a negative time).\<close>

definition start_wait_timer :: "tid \<Rightarrow> int \<Rightarrow> kernel \<Rightarrow> kernel option" where
  "start_wait_timer t time k =
     (if time > 0 then do {
        (_, k1) \<leftarrow> rt_timer_control (ThreadTimer t) 0 (word_of_int time) k;
        rt_timer_start (ThreadTimer t) k1 }
      else Some k)"

text \<open>\<open>RT_DEBUG_IN_THREAD_CONTEXT\<close>.\<close>

definition in_thread_context :: "kernel \<Rightarrow> unit option" where
  "in_thread_context k = do {
     _ \<leftarrow> rt_assert (current_thread k \<noteq> None);
     rt_assert (interrupt_nest k = 0) }"

text \<open>What the caller of a blocking operation finds when it runs again.\<close>

definition wait_result :: "tid \<Rightarrow> kernel \<Rightarrow> rt_err_t" where
  "wait_result t k = th_error (threads k t)"

subsection \<open>The order of the waiters\<close>

lemma prio_insert_set [simp]: "set (prio_insert prio t ts) = insert t (set ts)"
  by (induction ts) auto

lemma prio_insert_distinct: "distinct ts \<Longrightarrow> t \<notin> set ts \<Longrightarrow> distinct (prio_insert prio t ts)"
  by (induction ts) auto

lemma prio_insert_sorted:
  "sorted_wrt (\<lambda>a b. prio a \<le> prio b) ts \<Longrightarrow> sorted_wrt (\<lambda>a b. prio a \<le> prio b) (prio_insert prio t ts)"
proof (induction ts)
  case (Cons s ss)
  then show ?case by (auto dest: order_less_imp_le intro: order_trans)
qed simp

text \<open>Among waiters of one priority the order is that of arrival.\<close>

lemma prio_insert_fifo:
  "sorted_wrt (\<lambda>a b. prio a \<le> prio b) ts \<Longrightarrow>
   filter (\<lambda>s. prio s = p) (prio_insert prio t ts) = filter (\<lambda>s. prio s = p) (ts @ (if prio t = p then [t] else []))"
proof (induction ts)
  case (Cons s ss)
  show ?case
  proof (cases "prio t < prio s")
    case True
    then have "\<forall>u\<in>set (s # ss). prio t < prio u" using Cons.prems by (auto dest: order_less_le_trans)
    then have "filter (\<lambda>u. prio u = p) (s # ss) = []" if "prio t = p" using that by (auto simp: filter_empty_conv)
    with True show ?thesis by auto
  next
    case False
    with Cons show ?thesis by simp
  qed
qed simp

lemma wait_insert_props:
  assumes "flag = RT_IPC_FLAG_FIFO \<or> flag = RT_IPC_FLAG_PRIO"
  shows "set (wait_insert flag prio t ts) = insert t (set ts)"
    "distinct ts \<Longrightarrow> t \<notin> set ts \<Longrightarrow> distinct (wait_insert flag prio t ts)"
  using assms by (auto simp: wait_insert_def prio_insert_distinct)

subsection \<open>Waiting\<close>

lemma kinv_wait_list:
  assumes i: "kinv k" and n: "on_none (tlists k) t" and s: "thread_state k t = RT_THREAD_SUSPEND" and h: "wait_head h"
    and ns: "set ns = insert t (set (tlists k h))" "distinct ns"
  shows "kinv (k\<lparr>tlists := (tlists k)(h := ns)\<rparr>)" (is "kinv ?k")
proof -
  have "ready_inv ?k" using suspend_list_inv[OF kinvD(1)[OF i] n s wait_head_state[OF h] ns] .
  moreover have "timer_inv ?k" using kinvD(2)[OF i] by (rule timer_inv_frame) simp_all
  ultimately show ?thesis using kinvD(3)[OF i]
    by (simp add: kinv_def threads_inv_def live_def rt_object_get_type_def thread_state_def)
qed

lemma list_distinct: "kinv k \<Longrightarrow> distinct (tlists k h)"
  using ready_invD(1)[OF kinvD(1)] by (simp add: disjoint_lists_def)

lemma rt_ipc_list_suspend_waits:
  assumes i: "kinv k" and r: "thread_state k t = RT_THREAD_READY" and h: "wait_head h"
    and fl: "flag = RT_IPC_FLAG_FIFO \<or> flag = RT_IPC_FLAG_PRIO"
  obtains k' where "rt_ipc_list_suspend h t flag k = Some k'" "kinv k'" "thread_state k' t = RT_THREAD_SUSPEND"
    "tlists k' h = wait_insert flag (\<lambda>s. th_current_priority (threads k s)) t (tlists k h)"
    "\<And>g. g \<noteq> h \<Longrightarrow> tlists k' g = removeAll t (tlists k g)"
    "\<And>s. s \<noteq> t \<Longrightarrow> threads k' s = threads k s"
    "threads k' t = (threads k t)\<lparr>th_stat := th_stat (threads k' t)\<rparr>"
    "timer_list k' = removeAll (ThreadTimer t) (timer_list k)" "timers k' = timers k" "tick k' = tick k"
    "\<And>x. o_type (objs k' x) = o_type (objs k x)" "\<And>x. x \<noteq> ObjTimer (ThreadTimer t) \<Longrightarrow> objs k' x = objs k x"
    "current_thread k' = current_thread k" "lock_nest k' = lock_nest k" "interrupt_nest k' = interrupt_nest k"
    "sems k' = sems k" "mutexes k' = mutexes k" "events k' = events k"
    "mailboxes k' = mailboxes k" "queues k' = queues k" "pools k' = pools k"
proof (rule rt_thread_suspend_ready[OF i r], goal_cases)
  case (1 k1)
  note a = 1(3-)
  let ?p = "\<lambda>s. th_current_priority (threads k1 s)"
  let ?k = "k1\<lparr>tlists := (tlists k1)(h := wait_insert flag ?p t (tlists k1 h))\<rparr>"
  have nh: "t \<notin> set (tlists k h)"
    using thread_okD(1)[OF ready_invD(3)[OF kinvD(1)[OF i]], of t h] r wait_head_state[OF h] by auto
  have eqp: "?p = (\<lambda>s. th_current_priority (threads k s))"
  proof
    fix s show "?p s = th_current_priority (threads k s)"
    proof (cases "s = t")
      case True
      show ?thesis unfolding True by (subst a(7)) simp
    qed (simp add: a(6))
  qed
  have l1: "tlists k1 h = tlists k h" using a(4) nh by simp
  have "kinv ?k"
    by (rule kinv_wait_list[OF a(1) a(3) a(2) h])
      (use wait_insert_props[OF fl] list_distinct[OF i, of h] l1 nh in simp_all)
  moreover have "rt_ipc_list_suspend h t flag k = Some ?k" using 1(2) by (simp add: rt_ipc_list_suspend_def)
  moreover have "thread_state ?k t = RT_THREAD_SUSPEND" using a(2) by (simp add: thread_state_def)
  ultimately show ?case
    by (intro that[of ?k]) (use a l1 eqp in simp_all)
qed


text \<open>The common part of every blocking call: the running thread goes on the list, its timer is armed
  when the wait is bounded, and another ready thread gets the processor.\<close>

definition block_on :: "thead \<Rightarrow> tid \<Rightarrow> u8 \<Rightarrow> int \<Rightarrow> kernel \<Rightarrow> kernel option" where
  "block_on h t flag time k = do {
     k1 \<leftarrow> rt_ipc_list_suspend h t flag k;
     k2 \<leftarrow> start_wait_timer t time k1;
     rt_schedule k2 }"

lemma start_wait_timer_arms:
  assumes i: "kinv k" and s: "thread_state k t = RT_THREAD_SUSPEND" and b: "time < 0x7FFFFFFF"
    and nt: "ThreadTimer t \<notin> set (timer_list k)"
  obtains k' where "start_wait_timer t time k = Some k'" "kinv k'"
    "time > 0 \<Longrightarrow> ThreadTimer t \<in> set (timer_list k') \<and> due_in k' (ThreadTimer t) = Suc (nat time)"
    "time \<le> 0 \<Longrightarrow> ThreadTimer t \<notin> set (timer_list k')"
    "threads k' = threads k" "tlists k' = tlists k" "tick k' = tick k"
    "current_thread k' = current_thread k" "lock_nest k' = lock_nest k" "interrupt_nest k' = interrupt_nest k"
    "\<And>x. o_type (objs k' x) = o_type (objs k x)" "\<And>x. x \<noteq> ObjTimer (ThreadTimer t) \<Longrightarrow> objs k' x = objs k x"
    "sems k' = sems k" "mutexes k' = mutexes k" "events k' = events k" "mailboxes k' = mailboxes k"
    "queues k' = queues k" "pools k' = pools k"
    "set (timer_list k') \<subseteq> insert (ThreadTimer t) (set (timer_list k))" "\<And>i. i \<noteq> ThreadTimer t \<Longrightarrow> timers k' i = timers k i"
proof (cases "time > 0")
  case False
  then have "start_wait_timer t time k = Some k" by (simp add: start_wait_timer_def)
  with False i nt show ?thesis by (intro that[of k]) (simp_all add: subset_insertI)
next
  case True
  have u: "unat (word_of_int time :: u32) = nat time"
  proof -
    have "uint (word_of_int time :: u32) = time mod 2 ^ 32" by (simp add: uint_word_of_int)
    also have "\<dots> = time" using True b by simp
    finally show ?thesis by (simp add: unat_eq_nat_uint)
  qed
  have "(word_of_int time :: u32) < RT_TICK_HALF" using u b True by (simp add: word_less_nat_alt nat_less_iff)
  then show ?thesis
  proof (rule arm_timer[OF i s], goal_cases)
    case (1 k1 k2)
    from 1(1,2) have "start_wait_timer t time k = Some k2" using True by (simp add: start_wait_timer_def)
    then show ?case by (rule that) (use 1 u True in simp_all)
  qed
qed

lemma block_on_waits:
  assumes i: "kinv k" and c: "current_thread k = Some t" and r: "thread_state k t = RT_THREAD_READY"
    and h: "wait_head h" and fl: "flag = RT_IPC_FLAG_FIFO \<or> flag = RT_IPC_FLAG_PRIO"
    and b: "time < 0x7FFFFFFF" and o: "thread_state k u = RT_THREAD_READY" "u \<noteq> t"
  obtains k' where "block_on h t flag time k = Some k'" "kinv k'" "thread_state k' t = RT_THREAD_SUSPEND"
    "tlists k' h = wait_insert flag (\<lambda>s. th_current_priority (threads k s)) t (tlists k h)"
    "\<And>g. g \<noteq> h \<Longrightarrow> tlists k' g = removeAll t (tlists k g)"
    "time > 0 \<Longrightarrow> ThreadTimer t \<in> set (timer_list k') \<and> due_in k' (ThreadTimer t) = Suc (nat time)"
    "time \<le> 0 \<Longrightarrow> ThreadTimer t \<notin> set (timer_list k')"
    "\<And>s. s \<noteq> t \<Longrightarrow> threads k' s = threads k s"
    "threads k' t = (threads k t)\<lparr>th_stat := th_stat (threads k' t)\<rparr>" "tick k' = tick k"
    "lock_nest k = 0 \<Longrightarrow> \<exists>v. current_thread k' = Some v \<and> v \<noteq> t \<and> most_urgent k' v"
    "\<And>x. o_type (objs k' x) = o_type (objs k x)" "\<And>x. x \<noteq> ObjTimer (ThreadTimer t) \<Longrightarrow> objs k' x = objs k x"
    "sems k' = sems k" "mutexes k' = mutexes k" "events k' = events k" "mailboxes k' = mailboxes k"
    "queues k' = queues k" "pools k' = pools k"
    "set (timer_list k') \<subseteq> insert (ThreadTimer t) (set (timer_list k))" "\<And>i. i \<noteq> ThreadTimer t \<Longrightarrow> timers k' i = timers k i"
    "lock_nest k' = lock_nest k" "interrupt_nest k' = interrupt_nest k"
proof (rule rt_ipc_list_suspend_waits[OF i r h fl], goal_cases)
  case (1 k1)
  note a = 1(3-)
  have nt: "ThreadTimer t \<notin> set (timer_list k1)" by (simp add: a(7))
  note ls = 1(2)
  show ?case
  proof (rule start_wait_timer_arms[OF a(1,2) b nt], goal_cases)
    case (1 k2)
    note d = 1(2-)
    have "thread_state k2 u = RT_THREAD_READY" using o a(5) d(4) by (simp add: thread_state_def)
    from rt_schedule_some[OF kinvD(1)[OF d(1)] this] obtain k' where sc: "rt_schedule k2 = Some k'" by blast
    note f = rt_schedule_frame[OF sc]
    have st: "thread_state k' t = RT_THREAD_SUSPEND" using a(2) d(4) f(2) by (simp add: thread_state_def)
    have cur: "\<exists>v. current_thread k' = Some v \<and> v \<noteq> t \<and> most_urgent k' v" if "lock_nest k = 0"
      using rt_schedule_current[OF kinvD(1)[OF d(1)] sc] that a(13) d(8) st by (auto simp: most_urgent_def)
    have due: "due_in k' = due_in k2" using f by (intro ext) (simp add: due_in_def)
    have sub: "set (timer_list k') \<subseteq> insert (ThreadTimer t) (set (timer_list k))" using f d(18) a(7) by auto
    have "block_on h t flag time k = Some k'"
      using sc 1(1) ls by (simp add: block_on_def)
    then show ?case
      by (rule that) (use kinv_schedule[OF sc d(1)] st cur f a d due sub in simp_all)
  qed
qed


subsection \<open>Waking\<close>

lemma waiter_suspended:
  assumes "kinv k" "wait_head h" "t \<in> set (tlists k h)"
  shows "thread_state k t = RT_THREAD_SUSPEND"
  using thread_okD(1)[OF ready_invD(3)[OF kinvD(1)[OF assms(1)]] assms(3)] wait_head_state[OF assms(2)] by simp

text \<open>The first waiter is resumed and leaves the list; the others keep their order.\<close>

lemma rt_ipc_list_resume_wakes:
  assumes i: "kinv k" and h: "wait_head h" and l: "tlists k h = t # ts"
  obtains k' where "rt_ipc_list_resume h k = Some k'" "kinv k'" "thread_state k' t = RT_THREAD_READY"
    "tlists k' h = ts" "\<And>g. wait_head g \<Longrightarrow> g \<noteq> h \<Longrightarrow> tlists k' g = tlists k g"
    "\<And>s. s \<noteq> t \<Longrightarrow> threads k' s = threads k s"
    "threads k' t = (threads k t)\<lparr>th_stat := th_stat (threads k' t)\<rparr>"
    "timer_list k' = removeAll (ThreadTimer t) (timer_list k)" "timers k' = timers k" "tick k' = tick k"
    "\<And>x. o_type (objs k' x) = o_type (objs k x)" "\<And>x. x \<noteq> ObjTimer (ThreadTimer t) \<Longrightarrow> objs k' x = objs k x"
    "current_thread k' = current_thread k" "lock_nest k' = lock_nest k" "interrupt_nest k' = interrupt_nest k"
    "sems k' = sems k" "mutexes k' = mutexes k" "events k' = events k"
    "mailboxes k' = mailboxes k" "queues k' = queues k" "pools k' = pools k"
proof -
  have s: "thread_state k t = RT_THREAD_SUSPEND" by (rule waiter_suspended[OF i h]) (simp add: l)
  have d: "t \<notin> set ts" using list_distinct[OF i, of h] by (simp add: l)
  have og: "removeAll t (tlists k g) = tlists k g" if "g \<noteq> h" for g
  proof -
    have "t \<notin> set (tlists k g)" using ready_invD(1)[OF kinvD(1)[OF i]] l that
      unfolding disjoint_lists_def by (metis disjoint_iff list.set_intros(1))
    then show ?thesis by simp
  qed
  have hr: "h \<noteq> Ready p" for p using h by auto
  show ?thesis
  proof (rule rt_thread_resume_suspended[OF i s], goal_cases)
    case (1 k')
    show ?case
      by (rule that[of k']) (use 1 l d hr og in \<open>auto simp: rt_ipc_list_resume_def list_append_def\<close>)
  qed
qed

text \<open>Waking everybody, as the destruction and the reset of an object do: every waiter becomes ready
  and is told \<open>-RT_ERROR\<close>, and the call returns.\<close>

lemma resume_all_wakes:
  assumes "kinv k" "wait_head h"
  shows "\<exists>k'. rt_ipc_list_resume_all h k = Some k' \<and> kinv k' \<and> tlists k' h = []
    \<and> (\<forall>t. if t \<in> set (tlists k h)
          then thread_state k' t = RT_THREAD_READY \<and> th_error (threads k' t) = - RT_ERROR
            \<and> th_current_priority (threads k' t) = th_current_priority (threads k t)
          else threads k' t = threads k t)
    \<and> (\<forall>g. wait_head g \<longrightarrow> g \<noteq> h \<longrightarrow> tlists k' g = tlists k g)
    \<and> set (timer_list k') = set (timer_list k) - ThreadTimer ` set (tlists k h)
    \<and> timers k' = timers k \<and> tick k' = tick k
    \<and> (\<forall>x. o_type (objs k' x) = o_type (objs k x))
    \<and> (\<forall>x. (\<forall>i. x \<noteq> ObjTimer i) \<longrightarrow> objs k' x = objs k x)
    \<and> current_thread k' = current_thread k \<and> lock_nest k' = lock_nest k \<and> interrupt_nest k' = interrupt_nest k
    \<and> sems k' = sems k \<and> mutexes k' = mutexes k \<and> events k' = events k
    \<and> mailboxes k' = mailboxes k \<and> queues k' = queues k \<and> pools k' = pools k"
  using assms
proof (induction "tlists k h" arbitrary: k)
  case Nil
  then show ?case by (subst rt_ipc_list_resume_all.simps) simp
next
  case (Cons t ts)
  let ?u = "upd_thread t (\<lambda>th. th\<lparr>th_error := - RT_ERROR\<rparr>) k"
  have u: "kinv ?u" using Cons.prems(1) by (rule kinv_thread_upd) simp_all
  have l: "tlists ?u h = t # ts" using Cons(2) by simp
  have d: "t \<notin> set ts" using list_distinct[OF Cons.prems(1), of h] Cons(2) by (metis distinct.simps(2))
  obtain k1 where "rt_ipc_list_resume h ?u = Some k1" and k1: "kinv k1" "thread_state k1 t = RT_THREAD_READY"
    "tlists k1 h = ts" "\<And>g. wait_head g \<Longrightarrow> g \<noteq> h \<Longrightarrow> tlists k1 g = tlists ?u g"
    "\<And>s. s \<noteq> t \<Longrightarrow> threads k1 s = threads ?u s"
    "threads k1 t = (threads ?u t)\<lparr>th_stat := th_stat (threads k1 t)\<rparr>"
    "timer_list k1 = removeAll (ThreadTimer t) (timer_list ?u)" "timers k1 = timers ?u" "tick k1 = tick ?u"
    "\<And>x. o_type (objs k1 x) = o_type (objs ?u x)" "\<And>x. x \<noteq> ObjTimer (ThreadTimer t) \<Longrightarrow> objs k1 x = objs ?u x"
    "current_thread k1 = current_thread ?u" "lock_nest k1 = lock_nest ?u" "interrupt_nest k1 = interrupt_nest ?u"
    "sems k1 = sems ?u" "mutexes k1 = mutexes ?u" "events k1 = events ?u"
    "mailboxes k1 = mailboxes ?u" "queues k1 = queues ?u" "pools k1 = pools ?u"
    by (rule rt_ipc_list_resume_wakes[OF u Cons.prems(2) l]) (rule that)
  then obtain e where re: "rt_thread_resume t ?u = Some (e, k1)"
    using l by (auto simp: rt_ipc_list_resume_def split: Option.bind_splits)
  have e1: "th_error (threads k1 t) = - RT_ERROR" "th_current_priority (threads k1 t) = th_current_priority (threads k t)"
    by (subst k1(6), simp)+
  have run: "rt_ipc_list_resume_all h k = rt_ipc_list_resume_all h k1"
    by (subst rt_ipc_list_resume_all.simps) (use Cons(2)[symmetric] re in simp)
  from Cons(1)[OF k1(3)[symmetric] k1(1) Cons.prems(2)] obtain k' where
    k': "rt_ipc_list_resume_all h k1 = Some k'" "kinv k'" "tlists k' h = []"
    "\<And>s. if s \<in> set (tlists k1 h)
          then thread_state k' s = RT_THREAD_READY \<and> th_error (threads k' s) = - RT_ERROR
            \<and> th_current_priority (threads k' s) = th_current_priority (threads k1 s)
          else threads k' s = threads k1 s"
    "\<And>g. wait_head g \<Longrightarrow> g \<noteq> h \<Longrightarrow> tlists k' g = tlists k1 g"
    "set (timer_list k') = set (timer_list k1) - ThreadTimer ` set (tlists k1 h)"
    "timers k' = timers k1" "tick k' = tick k1"
    "\<And>x. o_type (objs k' x) = o_type (objs k1 x)"
    "\<And>x. (\<forall>i. x \<noteq> ObjTimer i) \<Longrightarrow> objs k' x = objs k1 x"
    "current_thread k' = current_thread k1" "lock_nest k' = lock_nest k1" "interrupt_nest k' = interrupt_nest k1"
    "sems k' = sems k1" "mutexes k' = mutexes k1" "events k' = events k1"
    "mailboxes k' = mailboxes k1" "queues k' = queues k1" "pools k' = pools k1"
    by blast
  have th: "if s \<in> set (tlists k h)
          then thread_state k' s = RT_THREAD_READY \<and> th_error (threads k' s) = - RT_ERROR
            \<and> th_current_priority (threads k' s) = th_current_priority (threads k s)
          else threads k' s = threads k s" for s
    using k'(4)[of s] k1(2,3,5) e1 d Cons(2)[symmetric]
    by (cases "s = t") (auto simp: thread_state_def)
  have rest: "\<And>g. wait_head g \<Longrightarrow> g \<noteq> h \<Longrightarrow> tlists k' g = tlists k g"
    "set (timer_list k') = set (timer_list k) - ThreadTimer ` set (tlists k h)"
    using k'(5,6) k1(3,4,7) Cons(2)[symmetric] by auto
  show ?case
    by (intro exI[of _ k'] conjI allI impI th) (simp_all add: run rest k'(1-3,7-) k1(8-))
qed

subsection \<open>Set-up and error codes of the waiters\<close>

definition ipc_init :: "obj_ref \<Rightarrow> u8 \<Rightarrow> kernel \<Rightarrow> kernel" where
  "ipc_init r flag k =
     upd_obj r (\<lambda>ob. ob\<lparr>o_flag := flag\<rparr>) (k\<lparr>tlists := (tlists k)(Suspended r := [])\<rparr>)"

definition clear_error :: "tid \<Rightarrow> kernel \<Rightarrow> kernel" where
  "clear_error t = upd_thread t (\<lambda>th. th\<lparr>th_error := RT_EOK\<rparr>)"

text \<open>No waiter has an error recorded: the error a waiter sees when it runs again was set by what ended
  its wait.\<close>

definition waiters_clean :: "kernel \<Rightarrow> thead \<Rightarrow> bool" where
  "waiters_clean k h \<longleftrightarrow> (\<forall>t\<in>set (tlists k h). th_error (threads k t) = RT_EOK)"

lemma clear_error_sel [simp]:
  "threads (clear_error t k) = (threads k)(t := (threads k t)\<lparr>th_error := RT_EOK\<rparr>)"
  "tlists (clear_error t k) = tlists k" "objs (clear_error t k) = objs k" "sems (clear_error t k) = sems k"
  "mutexes (clear_error t k) = mutexes k" "events (clear_error t k) = events k"
  "mailboxes (clear_error t k) = mailboxes k" "queues (clear_error t k) = queues k" "pools (clear_error t k) = pools k"
  "timer_list (clear_error t k) = timer_list k" "timers (clear_error t k) = timers k" "tick (clear_error t k) = tick k"
  "current_thread (clear_error t k) = current_thread k" "lock_nest (clear_error t k) = lock_nest k"
  "interrupt_nest (clear_error t k) = interrupt_nest k" "thread_state (clear_error t k) u = thread_state k u"
  by (simp_all add: clear_error_def thread_state_def)

lemma clear_error_kinv: "kinv k \<Longrightarrow> kinv (clear_error t k)"
  unfolding clear_error_def by (rule kinv_thread_upd) simp_all

lemma typed_cong: "o_type (objs k' r) = o_type (objs k r) \<Longrightarrow> rt_object_get_type r k' = rt_object_get_type r k"
  by (simp add: rt_object_get_type_def)

lemma waiters_clean_insert:
  assumes "waiters_clean k h" "flag = RT_IPC_FLAG_FIFO \<or> flag = RT_IPC_FLAG_PRIO"
    and "tlists k' h = wait_insert flag prio t (tlists k h)" "th_error (threads k' t) = RT_EOK"
    and "\<And>s. s \<noteq> t \<Longrightarrow> threads k' s = threads k s"
  shows "waiters_clean k' h"
  unfolding waiters_clean_def
proof
  fix u assume "u \<in> set (tlists k' h)"
  then have "u = t \<or> u \<in> set (tlists k h)" using assms(3) wait_insert_props(1)[OF assms(2)] by simp
  then show "th_error (threads k' u) = RT_EOK"
    using assms(1,4,5) unfolding waiters_clean_def by (cases "u = t") auto
qed

lemma waiters_clean_subset:
  assumes "waiters_clean k h" "set (tlists k' h) \<subseteq> set (tlists k h)"
    and "\<And>s. s \<in> set (tlists k' h) \<Longrightarrow> th_error (threads k' s) = th_error (threads k s)"
  shows "waiters_clean k' h"
  using assms by (auto simp: waiters_clean_def)

subsection \<open>Waking one waiter, if there is one\<close>

definition wake_one :: "thead \<Rightarrow> kernel \<Rightarrow> kernel option" where
  "wake_one h k =
     (if tlists k h \<noteq> [] then do { k1 \<leftarrow> rt_ipc_list_resume h k; rt_schedule k1 } else Some k)"

lemma wake_one_wakes:
  assumes i: "kinv k" and h: "wait_head h"
  obtains k' where "wake_one h k = Some k'" "kinv k'" "tlists k' h = tl (tlists k h)"
    "\<And>g. wait_head g \<Longrightarrow> g \<noteq> h \<Longrightarrow> tlists k' g = tlists k g"
    "\<And>t ts. tlists k h = t # ts \<Longrightarrow> thread_state k' t = RT_THREAD_READY \<and> ThreadTimer t \<notin> set (timer_list k')"
    "\<And>s. s \<notin> set (take 1 (tlists k h)) \<Longrightarrow> threads k' s = threads k s"
    "\<And>s. th_error (threads k' s) = th_error (threads k s)"
    "\<And>x. o_type (objs k' x) = o_type (objs k x)" "\<And>x. (\<And>i. x \<noteq> ObjTimer i) \<Longrightarrow> objs k' x = objs k x"
    "lock_nest k' = lock_nest k" "interrupt_nest k' = interrupt_nest k" "tick k' = tick k"
    "sems k' = sems k" "mutexes k' = mutexes k" "events k' = events k"
    "mailboxes k' = mailboxes k" "queues k' = queues k" "pools k' = pools k"
proof (cases "tlists k h")
  case Nil
  then show ?thesis using i by (intro that[of k]) (simp_all add: wake_one_def)
next
  case (Cons t ts)
  show ?thesis
  proof (rule rt_ipc_list_resume_wakes[OF i h Cons], goal_cases)
    case (1 k1)
    note a = 1
    from rt_schedule_some[OF kinvD(1)[OF a(2)] a(3)] obtain k' where sc: "rt_schedule k1 = Some k'" by blast
    note f = rt_schedule_frame[OF sc]
    have e: "th_error (threads k1 t) = th_error (threads k t)" by (subst a(7)) simp
    then have "th_error (threads k1 s) = th_error (threads k s)" for s using a(6) by (cases "s = t") simp_all
    moreover have "wake_one h k = Some k'" using Cons a(1) sc by (simp add: wake_one_def)
    moreover have "thread_state k' t = RT_THREAD_READY" using a(3) f by (simp add: thread_state_def)
    moreover have "ThreadTimer t \<notin> set (timer_list k')" using a(8) f by simp
    moreover have "objs k' x = objs k x" if "\<And>i. x \<noteq> ObjTimer i" for x using a(12)[OF that] f by simp
    ultimately show ?thesis
      using kinv_schedule[OF sc a(2)] a f Cons by (intro that[of k']) auto
  qed
qed

lemma wake_one_Nil: "tlists k h = [] \<Longrightarrow> wake_one h k = Some k"
  by (simp add: wake_one_def)

text \<open>A critical section changes the lock count only; leaving it may switch threads.\<close>

lemma rt_enter_critical_sel [simp]:
  "threads (rt_enter_critical k) = threads k" "tlists (rt_enter_critical k) = tlists k" "sems (rt_enter_critical k) = sems k"
  "objs (rt_enter_critical k) = objs k" "thread_state (rt_enter_critical k) t = thread_state k t"
  "current_thread (rt_enter_critical k) = current_thread k" "interrupt_nest (rt_enter_critical k) = interrupt_nest k"
  "lock_nest (rt_enter_critical k) = lock_nest k + 1"
  by (simp_all add: rt_enter_critical_def thread_state_def)

lemma rt_enter_critical_kinv [simp]: "kinv (rt_enter_critical k) \<longleftrightarrow> kinv k"
  by (auto intro: kinv_same simp: same_threads_def rt_enter_critical_def)

lemma rt_exit_critical_returns:
  assumes i: "kinv k" and r: "thread_state k u = RT_THREAD_READY"
  obtains k' where "rt_exit_critical k = Some k'" "kinv k'" "threads k' = threads k" "tlists k' = tlists k"
    "sems k' = sems k" "objs k' = objs k"
proof -
  let ?l = "k\<lparr>lock_nest := lock_nest k - 1\<rparr>" and ?z = "k\<lparr>lock_nest := 0\<rparr>"
  have l: "kinv ?l" "kinv ?z" using i by (auto elim: kinv_same simp: same_threads_def)
  show ?thesis
  proof (cases "sint (lock_nest ?l) \<le> 0")
    case False
    then show ?thesis using l by (intro that[of ?l]) (simp_all add: rt_exit_critical_def)
  next
    case True
    have "thread_state ?z u = RT_THREAD_READY" using r by (simp add: thread_state_def)
    from rt_schedule_some[OF kinvD(1)[OF l(2)] this] obtain k' where sc: "rt_schedule ?z = Some k'" by blast
    have "rt_exit_critical k = Some k'" using True sc by (simp add: rt_exit_critical_def)
    then show ?thesis by (rule that) (use kinv_schedule[OF sc l(2)] rt_schedule_frame[OF sc] in simp_all)
  qed
qed

lemma waiters_clean_kept:
  assumes "waiters_clean k h" "tlists k' h = tlists k h \<or> tlists k' h = tl (tlists k h)"
    and "\<And>s. th_error (threads k' s) = th_error (threads k s)"
  shows "waiters_clean k' h"
proof -
  have "set (tl (tlists k h)) \<subseteq> set (tlists k h)" by (cases "tlists k h") auto
  then have "set (tlists k' h) \<subseteq> set (tlists k h)" using assms(2) by auto
  then show ?thesis using assms(1,3) by (auto simp: waiters_clean_def)
qed

text \<open>The rest of a bounded wait after \<open>now - start\<close> of its ticks: \<open>timeout -= tick_delta\<close> is computed in
  32-bit unsigned arithmetic and read as signed.\<close>

definition wait_left :: "int \<Rightarrow> u32 \<Rightarrow> u32 \<Rightarrow> int" where
  "wait_left timeout start now =
     (if timeout > 0 then
        (let left = sint ((word_of_int timeout :: u32) - (now - start)) in if left < 0 then 0 else left)
      else timeout)"

end
