(* ===== verification/RT_Sem.thy ===== *)
theory RT_Sem
  imports RT_Ipc
begin

text \<open>
  The semaphores of \<open>src/ipc.c\<close>. \<open>rt_sem_take\<close> is cut where it gives up the processor: \<open>Wait\<close> is
  returned there, and \<open>rt_sem_take_resume\<close> is what it returns when the thread runs again.
\<close>

subsection \<open>Operations\<close>

abbreviation sem_typed :: "kernel \<Rightarrow> nat \<Rightarrow> bool" where
  "sem_typed k s \<equiv> rt_object_get_type (ObjSem s) k = RT_Object_Class_Semaphore"

abbreviation sem_waiters :: "kernel \<Rightarrow> nat \<Rightarrow> tid list" where
  "sem_waiters k s \<equiv> tlists k (Suspended (ObjSem s))"

definition put_sem :: "nat \<Rightarrow> u16 \<Rightarrow> kernel \<Rightarrow> kernel" where
  "put_sem s v k = k\<lparr>sems := (sems k)(s := (sems k s)\<lparr>sem_value := v\<rparr>)\<rparr>"

definition rt_sem_init :: "nat \<Rightarrow> string \<Rightarrow> u32 \<Rightarrow> u8 \<Rightarrow> kernel \<Rightarrow> kernel option" where
  "rt_sem_init s name value flag k = do {
     k1 \<leftarrow> rt_object_init (ObjSem s) RT_Object_Class_Semaphore name k;
     Some (put_sem s (ucast value) (ipc_init (ObjSem s) flag k1)) }"

definition rt_sem_detach :: "nat \<Rightarrow> kernel \<Rightarrow> kernel option" where
  "rt_sem_detach s k = do {
     _ \<leftarrow> rt_assert (sem_typed k s);
     _ \<leftarrow> rt_assert (rt_object_is_systemobject (ObjSem s) k);
     k1 \<leftarrow> rt_ipc_list_resume_all (Suspended (ObjSem s)) k;
     Some (rt_object_detach (ObjSem s) k1) }"

definition rt_sem_create :: "nat option \<Rightarrow> string \<Rightarrow> u32 \<Rightarrow> u8 \<Rightarrow> kernel \<Rightarrow> (nat option \<times> kernel) option" where
  "rt_sem_create block name value flag k = do {
     _ \<leftarrow> rt_assert (interrupt_nest k = 0);
     (r, k1) \<leftarrow> rt_object_allocate (map_option ObjSem block) RT_Object_Class_Semaphore name k;
     case block of
       None \<Rightarrow> Some (None, k1)
     | Some s \<Rightarrow> Some (Some s, put_sem s (ucast value) (ipc_init (ObjSem s) flag k1)) }"

definition rt_sem_delete :: "nat \<Rightarrow> kernel \<Rightarrow> kernel option" where
  "rt_sem_delete s k = do {
     _ \<leftarrow> rt_assert (interrupt_nest k = 0);
     _ \<leftarrow> rt_assert (sem_typed k s);
     _ \<leftarrow> rt_assert (\<not> rt_object_is_systemobject (ObjSem s) k);
     k1 \<leftarrow> rt_ipc_list_resume_all (Suspended (ObjSem s)) k;
     rt_object_delete (ObjSem s) k1 }"

definition rt_sem_take :: "nat \<Rightarrow> int \<Rightarrow> kernel \<Rightarrow> (rt_err_t outcome \<times> kernel) option" where
  "rt_sem_take s time k = do {
     _ \<leftarrow> rt_assert (sem_typed k s);
     if sem_value (sems k s) > 0 then Some (Ret RT_EOK, put_sem s (sem_value (sems k s) - 1) k)
     else if time = 0 then Some (Ret (- RT_ETIMEOUT), k)
     else do {
       _ \<leftarrow> in_thread_context k;
       t \<leftarrow> current_thread k;
       k1 \<leftarrow> block_on (Suspended (ObjSem s)) t (obj_flag k (ObjSem s)) time (clear_error t k);
       Some (Wait, k1) } }"

definition rt_sem_take_resume :: "tid \<Rightarrow> kernel \<Rightarrow> rt_err_t" where
  "rt_sem_take_resume t k = (if th_error (threads k t) \<noteq> RT_EOK then th_error (threads k t) else RT_EOK)"

definition rt_sem_trytake :: "nat \<Rightarrow> kernel \<Rightarrow> (rt_err_t outcome \<times> kernel) option" where
  "rt_sem_trytake s k = rt_sem_take s 0 k"

definition rt_sem_release :: "nat \<Rightarrow> kernel \<Rightarrow> kernel option" where
  "rt_sem_release s k = do {
     _ \<leftarrow> rt_assert (sem_typed k s);
     if sem_waiters k s \<noteq> [] then do {
       k1 \<leftarrow> rt_ipc_list_resume (Suspended (ObjSem s)) k;
       rt_schedule k1 }
     else Some (put_sem s (sem_value (sems k s) + 1) k) }"

text \<open>\<open>RT_IPC_CMD_RESET\<close> is 1.\<close>

definition rt_sem_control :: "nat \<Rightarrow> int \<Rightarrow> u32 \<Rightarrow> kernel \<Rightarrow> (rt_err_t \<times> kernel) option" where
  "rt_sem_control s cmd arg k = do {
     _ \<leftarrow> rt_assert (sem_typed k s);
     if cmd = 1 then do {
       k1 \<leftarrow> rt_ipc_list_resume_all (Suspended (ObjSem s)) k;
       k2 \<leftarrow> rt_schedule (put_sem s (ucast arg) k1);
       Some (RT_EOK, k2) }
     else Some (- RT_ERROR, k) }"

subsection \<open>The semaphore invariant\<close>

text \<open>Nobody waits for a semaphore that is available, and no waiter has an error recorded.\<close>

definition sem_inv :: "kernel \<Rightarrow> nat \<Rightarrow> bool" where
  "sem_inv k s \<longleftrightarrow> sem_typed k s
     \<and> (obj_flag k (ObjSem s) = RT_IPC_FLAG_FIFO \<or> obj_flag k (ObjSem s) = RT_IPC_FLAG_PRIO)
     \<and> (sem_waiters k s = [] \<or> sem_value (sems k s) = 0)
     \<and> waiters_clean k (Suspended (ObjSem s))"

lemma put_sem_sel [simp]:
  "sem_value (sems (put_sem s v k) s) = v" "threads (put_sem s v k) = threads k" "tlists (put_sem s v k) = tlists k"
  "objs (put_sem s v k) = objs k" "timers (put_sem s v k) = timers k" "timer_list (put_sem s v k) = timer_list k"
  "tick (put_sem s v k) = tick k" "current_thread (put_sem s v k) = current_thread k"
  "lock_nest (put_sem s v k) = lock_nest k" "ready_group (put_sem s v k) = ready_group k"
  "thread_state (put_sem s v k) t = thread_state k t" "r \<noteq> s \<Longrightarrow> sems (put_sem s v k) r = sems k r"
  by (simp_all add: put_sem_def thread_state_def)

lemma put_sem_kinv [simp]: "kinv (put_sem s v k) \<longleftrightarrow> kinv k"
  by (auto intro: kinv_same simp: same_threads_def)

subsection \<open>Take\<close>

lemma rt_sem_take_available:
  assumes "sem_inv k s" "0 < sem_value (sems k s)"
  shows "rt_sem_take s time k = Some (Ret RT_EOK, put_sem s (sem_value (sems k s) - 1) k)"
    "sem_inv (put_sem s (sem_value (sems k s) - 1) k) s"
  using assms by (auto simp: rt_sem_take_def sem_inv_def waiters_clean_def rt_object_get_type_def)

lemma rt_sem_take_blocks:
  assumes i: "kinv k" and si: "sem_inv k s" and z: "sem_value (sems k s) = 0"
    and c: "current_thread k = Some t" and r: "thread_state k t = RT_THREAD_READY"
    and ni: "interrupt_nest k = 0" and b: "time \<noteq> 0" "time < 0x7FFFFFFF"
    and o: "thread_state k u = RT_THREAD_READY" "u \<noteq> t"
  obtains k' where "rt_sem_take s time k = Some (Wait, k')" "kinv k'" "sem_inv k' s"
    "thread_state k' t = RT_THREAD_SUSPEND" "sem_value (sems k' s) = 0"
    "sem_waiters k' s = wait_insert (obj_flag k (ObjSem s)) (\<lambda>s. th_current_priority (threads k s)) t (sem_waiters k s)"
    "time > 0 \<Longrightarrow> ThreadTimer t \<in> set (timer_list k') \<and> due_in k' (ThreadTimer t) = Suc (nat time)"
    "time < 0 \<Longrightarrow> ThreadTimer t \<notin> set (timer_list k')"
    "\<And>s. s \<noteq> t \<Longrightarrow> threads k' s = threads k s"
    "lock_nest k = 0 \<Longrightarrow> \<exists>v. current_thread k' = Some v \<and> v \<noteq> t \<and> most_urgent k' v"
proof -
  let ?h = "Suspended (ObjSem s)"
  have fl: "obj_flag k (ObjSem s) = RT_IPC_FLAG_FIFO \<or> obj_flag k (ObjSem s) = RT_IPC_FLAG_PRIO"
    and ty: "sem_typed k s" using si by (simp_all add: sem_inv_def)
  have ce: "kinv (clear_error t k)" by (rule clear_error_kinv[OF i])
  have prio: "(\<lambda>s. th_current_priority (threads (clear_error t k) s)) = (\<lambda>s. th_current_priority (threads k s))" by auto
  show ?thesis
  proof (rule block_on_waits[of "clear_error t k" t ?h "obj_flag k (ObjSem s)" time u, unfolded prio], goal_cases)
    case (9 k')
    note a = 9
    have e: "th_error (threads k' t) = RT_EOK" by (subst a(9)) simp
    have "waiters_clean (clear_error t k) ?h" using si by (simp add: sem_inv_def waiters_clean_def)
    then have "waiters_clean k' ?h"
      by (rule waiters_clean_insert[OF _ fl _ e]) (simp_all add: a(4) a(8))
    moreover have "sem_typed k' s" using ty a(12) by (simp add: rt_object_get_type_def)
    moreover have "obj_flag k' (ObjSem s) = obj_flag k (ObjSem s)" using a(13)[of "ObjSem s"] by simp
    ultimately have "sem_inv k' s" using fl a(14) z by (simp add: sem_inv_def)
    moreover have "rt_sem_take s time k = Some (Wait, k')"
      using ty z b(1) c ni a(1) by (simp add: rt_sem_take_def in_thread_context_def)
    ultimately show ?case
      by (intro that[of k']) (use a z in simp_all)
  qed (use ce c r fl b o in simp_all)
qed

subsection \<open>Release and reset\<close>

text \<open>A release with waiters hands the semaphore to the first of them; the count stays 0.\<close>

lemma rt_sem_release_wakes:
  assumes i: "kinv k" and si: "sem_inv k s" and l: "sem_waiters k s = t # ts"
  obtains k' where "rt_sem_release s k = Some k'" "kinv k'" "sem_inv k' s" "sem_value (sems k' s) = 0"
    "sem_waiters k' s = ts" "thread_state k' t = RT_THREAD_READY" "rt_sem_take_resume t k' = RT_EOK"
    "ThreadTimer t \<notin> set (timer_list k')" "\<And>s. s \<noteq> t \<Longrightarrow> threads k' s = threads k s"
    "lock_nest k = 0 \<Longrightarrow> \<exists>v. current_thread k' = Some v \<and> most_urgent k' v"
proof (rule rt_ipc_list_resume_wakes[OF i wait_head_simps(1) l], goal_cases)
  case (1 k1)
  note a = 1(3-)
  from rt_schedule_some[OF kinvD(1)[OF a(1)] a(2)] obtain k' where sc: "rt_schedule k1 = Some k'" by blast
  note f = rt_schedule_frame[OF sc]
  have e: "th_error (threads k1 t) = th_error (threads k t)" by (subst a(6)) simp
  have same: "th_error (threads k1 u) = th_error (threads k u)" for u using e a(5) by (cases "u = t") simp_all
  have te: "th_error (threads k t) = RT_EOK" using si l by (simp add: sem_inv_def waiters_clean_def)
  have z: "sem_value (sems k s) = 0" using si l by (simp add: sem_inv_def)
  have d: "t \<notin> set ts" using list_distinct[OF i, of "Suspended (ObjSem s)"] l by simp
  have "waiters_clean k (Suspended (ObjSem s))" using si by (simp add: sem_inv_def)
  then have wc: "waiters_clean k' (Suspended (ObjSem s))"
    by (rule waiters_clean_subset) (use a(3) f l same in auto)
  have ob: "o_type (objs k1 (ObjSem s)) = o_type (objs k (ObjSem s))" "objs k1 (ObjSem s) = objs k (ObjSem s)"
    using a(10,11) by simp_all
  have "sem_inv k' s" using si wc f a(15) z ob by (simp add: sem_inv_def rt_object_get_type_def)
  moreover have "rt_sem_release s k = Some k'" using si l 1(2) sc by (simp add: rt_sem_release_def sem_inv_def)
  moreover have "rt_sem_take_resume t k' = RT_EOK" using f e te by (simp add: rt_sem_take_resume_def)
  ultimately show ?case
    by (intro that[of k'])
      (use kinv_schedule[OF sc a(1)] f a z rt_schedule_current[OF kinvD(1)[OF a(1)] sc] in
        \<open>simp_all add: thread_state_def\<close>)
qed

lemma rt_sem_release_counts:
  assumes "sem_inv k s" "sem_waiters k s = []"
  shows "rt_sem_release s k = Some (put_sem s (sem_value (sems k s) + 1) k)"
    "sem_inv (put_sem s (sem_value (sems k s) + 1) k) s"
  using assms by (auto simp: rt_sem_release_def sem_inv_def waiters_clean_def rt_object_get_type_def)

text \<open>A reset wakes everybody with \<open>-RT_ERROR\<close> and sets the count to the low 16 bits asked for.\<close>

lemma rt_sem_control_resets:
  assumes i: "kinv k" and si: "sem_inv k s" and r: "thread_state k u = RT_THREAD_READY"
  obtains k' where "rt_sem_control s 1 arg k = Some (RT_EOK, k')" "kinv k'" "sem_inv k' s"
    "sem_waiters k' s = []" "sem_value (sems k' s) = ucast arg"
    "\<And>t. t \<in> set (sem_waiters k s) \<Longrightarrow> thread_state k' t = RT_THREAD_READY \<and> rt_sem_take_resume t k' = - RT_ERROR"
    "\<And>t. t \<notin> set (sem_waiters k s) \<Longrightarrow> threads k' t = threads k t"
proof -
  from resume_all_wakes[OF i wait_head_simps(1), of "ObjSem s"] obtain k1 where
    k1: "rt_ipc_list_resume_all (Suspended (ObjSem s)) k = Some k1" "kinv k1" "sem_waiters k1 s = []"
    "\<And>t. if t \<in> set (sem_waiters k s)
          then thread_state k1 t = RT_THREAD_READY \<and> th_error (threads k1 t) = - RT_ERROR
            \<and> th_current_priority (threads k1 t) = th_current_priority (threads k t)
          else threads k1 t = threads k t"
    "\<And>x. o_type (objs k1 x) = o_type (objs k x)" "\<And>x. (\<forall>i. x \<noteq> ObjTimer i) \<Longrightarrow> objs k1 x = objs k x"
    by blast
  let ?p = "put_sem s (ucast arg) k1"
  have "u \<notin> set (sem_waiters k s)" using waiter_suspended[OF i wait_head_simps(1), of u] r by auto
  then have "thread_state ?p u = RT_THREAD_READY" using k1(4)[of u] r by (simp add: thread_state_def)
  moreover have pk: "kinv ?p" using k1(2) by simp
  ultimately obtain k' where sc: "rt_schedule ?p = Some k'" using rt_schedule_some[OF kinvD(1)[OF pk]] by blast
  note f = rt_schedule_frame[OF sc]
  have "rt_sem_control s 1 arg k = Some (RT_EOK, k')"
    using si k1(1) sc by (simp add: rt_sem_control_def sem_inv_def)
  moreover have "sem_inv k' s" using si f k1(3,5,6) by (simp add: sem_inv_def waiters_clean_def rt_object_get_type_def)
  moreover have "thread_state k' t = RT_THREAD_READY \<and> rt_sem_take_resume t k' = - RT_ERROR"
    if "t \<in> set (sem_waiters k s)" for t
    using k1(4)[of t] that f by (simp add: rt_sem_take_resume_def thread_state_def)
  moreover have "threads k' t = threads k t" if "t \<notin> set (sem_waiters k s)" for t
    using k1(4)[of t] that f by simp
  ultimately show ?thesis
    by (intro that[of k']) (use kinv_schedule[OF sc pk] f k1(3) in simp_all)
qed

end
