(* ===== verification/RT_System.thy ===== *)
theory RT_System
  imports RT_Ticks RT_Sem
begin

text \<open>
  The kernel at work: threads that take and release semaphores with and without a time limit, sleep and yield,
  and the clock interrupt, in any order. The invariant says what every kernel call may rely on, the step relation
  says who may call what, and both meet in the two facts at the end: every reachable state satisfies the invariant, and
  no call that is allowed runs into an assertion or fails to return.

  The one rule for the callers is the kernel's own: the idle thread never waits.
\<close>

subsection \<open>The invariant\<close>

text \<open>The clock is in order and the most urgent thread runs (\<open>ticking\<close>), the idle thread is ready, no wait timer is
  periodic, and each semaphore satisfies its invariant.\<close>

definition sys_ok :: "tid \<Rightarrow> kernel \<Rightarrow> bool" where
  "sys_ok idle k \<longleftrightarrow> ticking k \<and> interrupt_nest k = 0 \<and> thread_state k idle = RT_THREAD_READY
     \<and> (\<forall>t. \<not> periodic k (ThreadTimer t)) \<and> (\<forall>t. ThreadTimer t \<in> set (timer_list k) \<longrightarrow> t \<noteq> idle)
     \<and> (\<forall>s. sem_typed k s \<longrightarrow> sem_inv k s)"

lemma sys_okD:
  assumes "sys_ok idle k"
  shows "ticking k" "kinv k" "settled k" "interrupt_nest k = 0" "thread_state k idle = RT_THREAD_READY"
    "\<not> periodic k (ThreadTimer t)" "sem_typed k s \<Longrightarrow> sem_inv k s"
  using assms by (auto simp: sys_ok_def ticking_def)

lemma sys_ok_running:
  assumes "sys_ok idle k"
  obtains c where "current_thread k = Some c" "most_urgent k c" "thread_state k c = RT_THREAD_READY" "lock_nest k = 0"
  using sys_okD(3)[OF assms] by (auto simp: settled_def most_urgent_def)

text \<open>A semaphore keeps its invariant when its waiters only leave.\<close>

lemma sem_inv_kept:
  assumes "sem_inv k s" "sems k' s = sems k s" "objs k' (ObjSem s) = objs k (ObjSem s)" "set (sem_waiters k' s) \<subseteq> set (sem_waiters k s)"
    and "\<And>t. t \<in> set (sem_waiters k' s) \<Longrightarrow> th_error (threads k' t) = th_error (threads k t)"
  shows "sem_inv k' s"
proof -
  have "sem_waiters k s = [] \<Longrightarrow> sem_waiters k' s = []" using assms(4) by auto
  moreover have "waiters_clean k' (Suspended (ObjSem s))"
    using assms(1,4,5) by (auto simp: sem_inv_def waiters_clean_def)
  ultimately show ?thesis using assms(1,2,3) by (auto simp: sem_inv_def rt_object_get_type_def)
qed

text \<open>What a step that keeps the objects has to show.\<close>

lemma sys_ok_kept:
  assumes k: "sys_ok idle k" and t: "ticking k'" and kp: "kept k k'" and i: "thread_state k' idle = RT_THREAD_READY"
    and w: "\<And>h. wait_head h \<Longrightarrow> set (tlists k' h) \<subseteq> set (tlists k h)"
    and e: "\<And>h u. wait_head h \<Longrightarrow> u \<in> set (tlists k' h) \<Longrightarrow> th_error (threads k' u) = th_error (threads k u)"
  shows "sys_ok idle k'"
proof -
  have o: "objs k' (ObjSem s) = objs k (ObjSem s)" "sems k' = sems k" for s using kp by (simp_all add: kept_def)
  have "sem_inv k' s" if "sem_typed k' s" for s
    by (rule sem_inv_kept[OF sys_okD(7)[OF k, of s]])
      (use that o w[of "Suspended (ObjSem s)"] e[of "Suspended (ObjSem s)"] in \<open>simp_all add: rt_object_get_type_def\<close>)
  moreover have "ThreadTimer u \<in> set (timer_list k') \<Longrightarrow> u \<noteq> idle" for u
    using kinvD(5)[of k' u] t i by (auto simp: ticking_def)
  ultimately show ?thesis using sys_okD[OF k] t kp i by (auto simp: sys_ok_def kept_def)
qed

subsection \<open>The calls\<close>

lemma interrupt_step:
  assumes k: "sys_ok idle k"
  obtains k' where "rt_tick_increase app k = Some k'" "sys_ok idle k'"
proof -
  from tick_wakes[OF sys_okD(1)[OF k], of app] obtain k' where k': "rt_tick_increase app k = Some k'" "ticking k'"
    "\<And>t. ThreadTimer t \<notin> set (timer_list k) \<or> 2 < due_in k (ThreadTimer t) \<Longrightarrow>
       thread_state k' t = thread_state k t \<and> th_error (threads k' t) = th_error (threads k t)"
    "\<And>t. ThreadTimer t \<in> set (timer_list k) \<Longrightarrow> due_in k (ThreadTimer t) \<le> 2 \<Longrightarrow>
       thread_state k' t = RT_THREAD_READY \<and> th_error (threads k' t) = - RT_ETIMEOUT"
    "kept k k'" "\<And>h. wait_head h \<Longrightarrow> set (tlists k' h) \<subseteq> set (tlists k h)" by metis
  have "ThreadTimer idle \<notin> set (timer_list k)" using k by (auto simp: sys_ok_def)
  then have i: "thread_state k' idle = RT_THREAD_READY" using k'(3) sys_okD(5)[OF k] by simp
  have "th_error (threads k' u) = th_error (threads k u)" if "wait_head h" "u \<in> set (tlists k' h)" for h u
  proof (rule ccontr)
    assume "\<not> ?thesis"
    then have "thread_state k' u = RT_THREAD_READY" using k'(3,4)[of u] by force
    moreover have "thread_state k' u = RT_THREAD_SUSPEND"
      using waiter_suspended[OF _ that] k'(2) by (simp add: ticking_def)
    ultimately show False by simp
  qed
  then have "sys_ok idle k'" by (intro sys_ok_kept[OF k k'(2,5) i k'(6)])
  with k'(1) show thesis by (rule that)
qed

lemma yield_step:
  assumes k: "sys_ok idle k"
  obtains k' where "rt_thread_yield k = Some k'" "sys_ok idle k'"
proof (rule sys_ok_running[OF k])
  fix c assume c: "current_thread k = Some c" "most_urgent k c" "thread_state k c = RT_THREAD_READY" "lock_nest k = 0"
  note i = sys_okD(2)[OF k]
  from rt_thread_yield_rotates[OF i c(1,3)] obtain k' where k': "rt_thread_yield k = Some k'" "kinv k'" "threads k' = threads k"
    "timer_list k' = timer_list k" "timers k' = timers k" "tick k' = tick k" "settled k \<Longrightarrow> settled k'" by metis
  note kw = yield_kept[OF i c(1,3) k'(1)]
  have "ticking k'"
  proof (rule ticking_armed[OF sys_okD(1)[OF k] k'(2) k'(7)[OF sys_okD(3)[OF k]] k'(6) sys_okD(6)[OF k, of idle]])
    show "1 \<le> due_in k' (ThreadTimer idle)" if "ThreadTimer idle \<in> set (timer_list k')"
      using that k k'(4) by (auto simp: sys_ok_def)
  qed (use kw(1) k'(4,5) in \<open>auto simp: kept_def\<close>)
  then have "sys_ok idle k'"
    by (rule sys_ok_kept[OF k _ kw(1)]) (use kw(2) k'(3) sys_okD(5)[OF k] in \<open>auto simp: thread_state_def\<close>)
  with k'(1) show thesis by (rule that)
qed

lemma sleep_step:
  assumes k: "sys_ok idle k" and n: "current_thread k \<noteq> Some idle" and b: "tmo < RT_TICK_HALF"
  obtains k' where "rt_thread_sleep tmo k = Some k'" "sys_ok idle k'"
proof (rule sys_ok_running[OF k])
  fix c assume c: "current_thread k = Some c" "most_urgent k c" "thread_state k c = RT_THREAD_READY" "lock_nest k = 0"
  have ni: "idle \<noteq> c" using n c by auto
  from sleep_waits[OF sys_okD(1)[OF k] c(1) b sys_okD(5)[OF k] ni sys_okD(6)[OF k]] obtain k' where
    k': "rt_thread_sleep tmo k = Some k'" "ticking k'" "kept k k'" "\<And>s. s \<noteq> c \<Longrightarrow> threads k' s = threads k s"
    "\<And>h. wait_head h \<Longrightarrow> tlists k' h = tlists k h" by metis
  have "u \<noteq> c" if "wait_head h" "u \<in> set (tlists k' h)" for h u
    using ready_not_waiting[OF kinvD(1)[OF sys_okD(2)[OF k]] c(3) that(1)] that k'(5) by auto
  then have "sys_ok idle k'"
    by (intro sys_ok_kept[OF k k'(2,3)]) (use k'(4)[OF ni] k'(4,5) sys_okD(5)[OF k] in \<open>auto simp: thread_state_def\<close>)
  with k'(1) show thesis by (rule that)
qed

lemma sys_ok_put:
  assumes k: "sys_ok idle k" and si: "sem_inv (put_sem s v k) s"
  shows "sys_ok idle (put_sem s v k)"
proof -
  let ?k = "put_sem s v k"
  have p: "periodic ?k = periodic k" by (intro ext) (simp add: periodic_def)
  have "settled ?k" by (rule settled_frame[OF sys_okD(3)[OF k]]) simp_all
  then have "ticking ?k"
    by (intro ticking_armed[OF sys_okD(1)[OF k] _ _ _ sys_okD(6)[OF k, of idle]])
      (use sys_okD(2)[OF k] k p in \<open>auto simp: sys_ok_def\<close>)
  moreover have "sem_inv ?k r" if "sem_typed ?k r" for r
  proof (cases "r = s")
    case False
    from that have "sem_inv k r" by (intro sys_okD(7)[OF k]) (simp add: rt_object_get_type_def)
    then show ?thesis by (rule sem_inv_kept) (use False in simp_all)
  qed (simp add: si)
  moreover have "interrupt_nest ?k = interrupt_nest k" by (simp add: put_sem_def)
  ultimately show ?thesis using sys_okD[OF k] k p by (auto simp: sys_ok_def)
qed

lemma kept_block:
  assumes "block_on h t fl time k = Some k'"
  shows "kept k k'"
proof -
  obtain k1 k2 where k: "rt_ipc_list_suspend h t fl k = Some k1" "start_wait_timer t time k1 = Some k2" "rt_schedule k2 = Some k'"
    using assms by (auto simp: block_on_def split: Option.bind_splits)
  obtain e k0 where k0: "rt_thread_suspend t k = Some (e, k0)"
    and k1: "\<exists>f. k1 = k0\<lparr>tlists := f\<rparr>" using k(1) by (auto simp: rt_ipc_list_suspend_def split: Option.bind_splits)
  have "kept k0 k1" using k1 by (auto simp: kept_def periodic_def)
  moreover have "kept k1 k2" using k(2)
    by (auto simp: start_wait_timer_def split: if_splits Option.bind_splits dest!: kept_control kept_start elim: kept_trans)
  ultimately show ?thesis using kept_suspend[OF k0] kept_schedule[OF k(3)] by (blast intro: kept_trans)
qed

text \<open>Waiting on any list, as the blocking half of every call: the caller's error is clear, the list gains it at its place.\<close>

lemma block_step:
  assumes k: "sys_ok idle k" and c: "current_thread k = Some c" and ni: "idle \<noteq> c" and h: "wait_head h"
    and fl: "flag = RT_IPC_FLAG_FIFO \<or> flag = RT_IPC_FLAG_PRIO" and b: "time < 0x7FFFFFFF"
    and run: "block_on h c flag time (clear_error c k) = Some k'"
  shows "ticking k'" "kept k k'" "\<And>u. u \<noteq> c \<Longrightarrow> threads k' u = threads k u" "\<And>g. wait_head g \<Longrightarrow> g \<noteq> h \<Longrightarrow> tlists k' g = tlists k g"
proof -
  note i = sys_okD(2)[OF k] and ti = sys_okD(1)[OF k]
  let ?c = "clear_error c k"
  have r: "thread_state k c = RT_THREAD_READY" and l: "lock_nest k = 0"
    using sys_okD(3)[OF k] c by (auto simp: settled_def most_urgent_def)
  have r': "thread_state ?c c = RT_THREAD_READY" "thread_state ?c idle = RT_THREAD_READY" "current_thread ?c = Some c"
    using r c sys_okD(5)[OF k] by (simp_all add: thread_state_def)
  note B = block_on_waits[OF clear_error_kinv[OF i] r'(3,1) h fl b r'(2) ni]
  have fr: "kinv k'" "tick k' = tick k" "lock_nest k' = lock_nest k" "set (timer_list k') \<subseteq> insert (ThreadTimer c) (set (timer_list k))"
    "time > 0 \<Longrightarrow> due_in k' (ThreadTimer c) = Suc (nat time)" "time \<le> 0 \<Longrightarrow> ThreadTimer c \<notin> set (timer_list k')"
    "\<exists>v. current_thread k' = Some v \<and> most_urgent k' v"
    by (rule B, use run l in auto)+
  have tm: "timers k' i = timers k i" if "i \<noteq> ThreadTimer c" for i by (rule B, use run that in auto)
  show th: "threads k' u = threads k u" if "u \<noteq> c" for u by (rule B, use run that in auto)
  show "tlists k' g = tlists k g" if g: "wait_head g" "g \<noteq> h" for g
  proof -
    have "c \<notin> set (tlists k g)" by (rule ready_not_waiting[OF kinvD(1)[OF i] r g(1)])
    then show ?thesis by - (rule B, use run g in auto)
  qed
  have "kept k ?c" by (simp add: kept_def periodic_def clear_error_def)
  then show kp: "kept k k'" using kept_block[OF run] by (rule kept_trans)
  have "settled k'" using fr(3,7) l by (simp add: settled_def)
  moreover have "1 \<le> due_in k' (ThreadTimer c)" if "ThreadTimer c \<in> set (timer_list k')"
    using that fr(5,6) by (cases "time > 0") auto
  ultimately show "ticking k'"
    using kp by (intro ticking_armed[OF ti fr(1) _ fr(2) sys_okD(6)[OF k] _ fr(4) tm]) (simp_all add: kept_def)
qed

lemma take_step:
  assumes k: "sys_ok idle k" and ty: "sem_typed k s" and b: "time < 0x7FFFFFFF"
    and n: "current_thread k = Some idle \<Longrightarrow> time = 0"
  obtains r k' where "rt_sem_take s time k = Some (r, k')" "sys_ok idle k'"
proof -
  note i = sys_okD(2)[OF k] and si = sys_okD(7)[OF k ty]
  consider (got) "0 < sem_value (sems k s)" | (refused) "sem_value (sems k s) = 0" "time = 0"
    | (wait) "sem_value (sems k s) = 0" "time \<noteq> 0" by (auto simp: word_gt_0)
  then show thesis
  proof cases
    case got
    let ?k = "put_sem s (sem_value (sems k s) - 1) k"
    have "sys_ok idle ?k" by (rule sys_ok_put[OF k rt_sem_take_available(2)[OF si got]])
    with rt_sem_take_available(1)[OF si got] show thesis by (rule that)
  next
    case refused
    then have "rt_sem_take s time k = Some (Ret (- RT_ETIMEOUT), k)" using ty by (simp add: rt_sem_take_def)
    then show thesis using k by (rule that)
  next
    case wait
    show thesis
    proof (rule sys_ok_running[OF k])
      fix c assume c: "current_thread k = Some c" "most_urgent k c" "thread_state k c = RT_THREAD_READY" "lock_nest k = 0"
      have ni: "idle \<noteq> c" using n c wait by auto
      have fl: "obj_flag k (ObjSem s) = RT_IPC_FLAG_FIFO \<or> obj_flag k (ObjSem s) = RT_IPC_FLAG_PRIO" using si by (simp add: sem_inv_def)
      note B = rt_sem_take_blocks[OF i si wait(1) c(1,3) sys_okD(4)[OF k] wait(2) b sys_okD(5)[OF k] ni]
      obtain k' where k': "rt_sem_take s time k = Some (Wait, k')" "sem_inv k' s" by (rule B) blast
      have run: "block_on (Suspended (ObjSem s)) c (obj_flag k (ObjSem s)) time (clear_error c k) = Some k'"
        using k'(1) ty wait c(1) sys_okD(4)[OF k]
        by (auto simp: rt_sem_take_def in_thread_context_def split: Option.bind_splits)
      note f = block_step[OF k c(1) ni wait_head_simps(1) fl b run]
      have "sem_inv k' r" if "sem_typed k' r" for r
      proof (cases "r = s")
        case False
        have o: "objs k' (ObjSem r) = objs k (ObjSem r)" "sems k' = sems k" using f(2) by (simp_all add: kept_def)
        have w: "sem_waiters k' r = sem_waiters k r" using False by (intro f(4)) simp_all
        have "c \<notin> set (sem_waiters k r)" by (rule ready_not_waiting[OF kinvD(1)[OF i] c(3)]) simp
        then have "th_error (threads k' u) = th_error (threads k u)" if "u \<in> set (sem_waiters k r)" for u
          using that f(3)[of u] \<open>c \<notin> set (sem_waiters k r)\<close> by (cases "u = c") simp_all
        then show ?thesis
          by (intro sem_inv_kept[OF sys_okD(7)[OF k, of r]]) (use that o w in \<open>auto simp: rt_object_get_type_def\<close>)
      qed (simp add: k'(2))
      moreover have id: "thread_state k' idle = RT_THREAD_READY" using sys_okD(5)[OF k] f(3)[OF ni] by (simp add: thread_state_def)
      moreover have "ThreadTimer u \<in> set (timer_list k') \<Longrightarrow> u \<noteq> idle" for u
        using kinvD(5)[of k' u] f(1) id by (auto simp: ticking_def)
      ultimately have "sys_ok idle k'" using f(1,2) sys_okD[OF k] by (auto simp: sys_ok_def kept_def)
      with k'(1) show thesis by (rule that)
    qed
  qed
qed

lemma kept_resume:
  assumes "rt_ipc_list_resume h k = Some k'"
  shows "kept k k'"
proof -
  obtain t e where r: "rt_thread_resume t k = Some (e, k')"
    using assms by (auto simp: rt_ipc_list_resume_def split: Option.bind_splits list.splits)
  show ?thesis
  proof (cases "thread_state k t = RT_THREAD_SUSPEND")
    case True
    let ?d = "k\<lparr>tlists := list_delete t (tlists k)\<rparr>"
    obtain e' k1 where s: "rt_timer_stop (ThreadTimer t) ?d = Some (e', k1)" and k': "k' = rt_schedule_insert_thread t k1"
      using r True by (auto simp: rt_thread_resume_def split: Option.bind_splits)
    have "kept k ?d" "kept k1 k'" by (simp_all add: kept_def periodic_def k')
    with kept_stop[OF s] show ?thesis by (blast intro: kept_trans)
  qed (use r in \<open>auto simp: rt_thread_resume_def split: Option.bind_splits\<close>)
qed

lemma release_step:
  assumes k: "sys_ok idle k" and ty: "sem_typed k s"
  obtains k' where "rt_sem_release s k = Some k'" "sys_ok idle k'"
proof (cases "sem_waiters k s")
  case Nil
  note si = sys_okD(7)[OF k ty]
  from rt_sem_release_counts[OF si Nil] sys_ok_put[OF k] show thesis by (intro that) auto
next
  case (Cons t ts)
  note i = sys_okD(2)[OF k] and si = sys_okD(7)[OF k ty]
  show thesis
  proof (rule rt_ipc_list_resume_wakes[OF i wait_head_simps(1) Cons], goal_cases)
    case (1 k1)
    note a = 1
    from rt_schedule_some[OF kinvD(1)[OF a(2)] a(3)] obtain k' where sc: "rt_schedule k1 = Some k'" by blast
    note f = rt_schedule_frame[OF sc]
    have run: "rt_sem_release s k = Some k'" using ty Cons a(1) sc by (simp add: rt_sem_release_def)
    have l: "lock_nest k = 0" using sys_okD(3)[OF k] by (simp add: settled_def)
    have kp: "kept k k'" using kept_resume[OF a(1)] kept_schedule[OF sc] by (rule kept_trans)
    have "ticking k'"
      by (rule ticking_armed[OF sys_okD(1)[OF k] kinv_schedule[OF sc a(2)] rt_schedule_settles[OF kinvD(1)[OF a(2)] sc] _ sys_okD(6)[OF k, of idle]])
        (use kp f a l k in \<open>auto simp: kept_def sys_ok_def\<close>)
    have ni: "idle \<noteq> t" using waiter_suspended[OF i wait_head_simps(1), of t "ObjSem s"] Cons sys_okD(5)[OF k] by auto
    have e: "th_error (threads k1 t) = th_error (threads k t)" by (subst a(7)) simp
    then have same: "th_error (threads k' u) = th_error (threads k u)" for u using a(6) f(2) by (cases "u = t") simp_all
    have "sys_ok idle k'"
    proof (rule sys_ok_kept[OF k \<open>ticking k'\<close> kp])
      show "thread_state k' idle = RT_THREAD_READY" using sys_okD(5)[OF k] a(6)[OF ni] f(2) by (simp add: thread_state_def)
      show "set (tlists k' g) \<subseteq> set (tlists k g)" if "wait_head g" for g
        using a(4,5) f(1) Cons that by (cases "g = Suspended (ObjSem s)") auto
    qed (rule same)
    with run show thesis by (rule that)
  qed
qed

subsection \<open>Steps and reachable states\<close>

datatype sys_event = Take nat int | Release nat | Sleep u32 | Yield | Interrupt

inductive sys_step :: "tid \<Rightarrow> app_timeout \<Rightarrow> sys_event \<Rightarrow> kernel \<Rightarrow> kernel \<Rightarrow> bool" for idle app where
  take: "sem_typed k s \<Longrightarrow> time < 0x7FFFFFFF \<Longrightarrow> current_thread k \<noteq> Some idle \<or> time = 0 \<Longrightarrow> rt_sem_take s time k = Some (r, k')
    \<Longrightarrow> sys_step idle app (Take s time) k k'"
| release: "sem_typed k s \<Longrightarrow> rt_sem_release s k = Some k' \<Longrightarrow> sys_step idle app (Release s) k k'"
| sleep: "current_thread k \<noteq> Some idle \<Longrightarrow> tmo < RT_TICK_HALF \<Longrightarrow> rt_thread_sleep tmo k = Some k' \<Longrightarrow> sys_step idle app (Sleep tmo) k k'"
| yield: "rt_thread_yield k = Some k' \<Longrightarrow> sys_step idle app Yield k k'"
| interrupt: "rt_tick_increase app k = Some k' \<Longrightarrow> sys_step idle app Interrupt k k'"

inductive_cases sys_step_cases: "sys_step idle app e k k'"

inductive_simps sys_step_simps:
  "sys_step idle app (Take s time) k k'" "sys_step idle app (Release s) k k'" "sys_step idle app (Sleep tmo) k k'"
  "sys_step idle app Yield k k'" "sys_step idle app Interrupt k k'"

text \<open>What a thread may call: semaphores that exist, times the kernel accepts, and no waiting in the idle thread.\<close>

fun sys_allowed :: "tid \<Rightarrow> sys_event \<Rightarrow> kernel \<Rightarrow> bool" where
  "sys_allowed idle (Take s time) k \<longleftrightarrow> sem_typed k s \<and> time < 0x7FFFFFFF \<and> (current_thread k \<noteq> Some idle \<or> time = 0)"
| "sys_allowed idle (Release s) k \<longleftrightarrow> sem_typed k s"
| "sys_allowed idle (Sleep tmo) k \<longleftrightarrow> current_thread k \<noteq> Some idle \<and> tmo < RT_TICK_HALF"
| "sys_allowed idle Yield k \<longleftrightarrow> True"
| "sys_allowed idle Interrupt k \<longleftrightarrow> True"

lemma sys_step_returns:
  assumes k: "sys_ok idle k" and a: "sys_allowed idle e k"
  obtains k' where "sys_step idle app e k k'" "sys_ok idle k'"
proof (cases e)
  case (Take s time)
  with a have "sem_typed k s" "time < 0x7FFFFFFF" "current_thread k = Some idle \<Longrightarrow> time = 0" by auto
  from take_step[OF k this] a Take that show ?thesis by (metis sys_allowed.simps(1) sys_step.take)
next
  case (Release s)
  with a release_step[OF k, of s] that show ?thesis by (metis sys_allowed.simps(2) sys_step.release)
next
  case (Sleep tmo)
  with a sleep_step[OF k, of tmo] that show ?thesis by (metis sys_allowed.simps(3) sys_step.sleep)
next
  case Yield
  with yield_step[OF k] that show ?thesis by (metis sys_step.yield)
next
  case Interrupt
  with interrupt_step[OF k, of app] that show ?thesis by (metis sys_step.interrupt)
qed

lemma sys_step_ok:
  assumes k: "sys_ok idle k" and st: "sys_step idle app e k k'"
  shows "sys_ok idle k'"
proof -
  have a: "sys_allowed idle e k" using st by (cases rule: sys_step_cases) auto
  from sys_step_returns[OF k a, of app] obtain k2 where k2: "sys_step idle app e k k2" "sys_ok idle k2" by blast
  have "k2 = k'" using st k2(1) by (cases e) (auto simp: sys_step_simps)
  with k2(2) show ?thesis by simp
qed

inductive sys_reach :: "tid \<Rightarrow> app_timeout \<Rightarrow> kernel \<Rightarrow> kernel \<Rightarrow> bool" for idle app k0 where
  start: "sys_reach idle app k0 k0"
| step: "sys_reach idle app k0 k \<Longrightarrow> sys_step idle app e k k' \<Longrightarrow> sys_reach idle app k0 k'"

lemma sys_reach_ok: "sys_reach idle app k0 k \<Longrightarrow> sys_ok idle k0 \<Longrightarrow> sys_ok idle k"
  by (induction rule: sys_reach.induct) (auto intro: sys_step_ok)

end
