(* ===== verification/RT_Demo.thy ===== *)
theory RT_Demo
  imports RT_Ipc
begin

text \<open>
  A small kernel state for the witnesses of the properties: the idle thread 0 and a thread 1 are
  ready, thread 1 runs, and thread 2, the most urgent one, waits on the list \<open>h\<close>; every other thread is
  initialised and not started. All objects are registered as static objects.
\<close>

definition demo_thread :: "u8 \<Rightarrow> u8 \<Rightarrow> rt_thread" where
  "demo_thread p st = \<lparr>th_entry = 0, th_parameter = 0, th_stack_addr = 1, th_stack_size = 256,
     th_error = 0, th_stat = st, th_current_priority = p, th_init_priority = p,
     th_number_mask = push_bit (unat p) 1, th_event_set = 0, th_event_info = 0,
     th_init_tick = 10, th_remaining_tick = 10, th_cleanup = None, th_user_data = 0\<rparr>"

fun demo_type :: "obj_ref \<Rightarrow> u8" where
  "demo_type (ObjThread _) = 0x80"
| "demo_type (ObjTimer _) = 0x89"
| "demo_type (ObjSem _) = 0x81"
| "demo_type (ObjMutex _) = 0x82"
| "demo_type (ObjEvent _) = 0x83"
| "demo_type (ObjMb _) = 0x84"
| "demo_type (ObjMq _) = 0x85"
| "demo_type (ObjMp _) = 0x87"

fun demo_flag :: "obj_ref \<Rightarrow> u8" where
  "demo_flag (ObjMutex _) = RT_IPC_FLAG_PRIO"
| "demo_flag _ = 0"

definition demo :: "thead \<Rightarrow> kernel" where
  "demo h = \<lparr>objs = (\<lambda>r. \<lparr>o_name = ''obj'', o_type = demo_type r, o_flag = demo_flag r\<rparr>),
     obj_lists = (\<lambda>_. []),
     threads = (\<lambda>t. if t = 0 then demo_thread 31 1 else if t = 1 then demo_thread 10 1
                    else if t = 2 then (demo_thread 5 2)\<lparr>th_event_set := 3, th_event_info := 6\<rparr>
                    else demo_thread 20 0),
     tlists = (\<lambda>g. if g = Ready 31 then [0] else if g = Ready 10 then [1] else if g = h then [2] else []),
     ready_group = 0x80000400,
     current_thread = Some 1, current_priority = 10, lock_nest = 0, interrupt_nest = 0,
     timers = (\<lambda>i. \<lparr>tm_func = (case i of ThreadTimer t \<Rightarrow> RtThreadTimeout t | AppTimer n \<Rightarrow> AppTimeout n 0),
                     tm_init_tick = 5, tm_timeout_tick = 0\<rparr>),
     timer_list = [], tick = 100,
     sems = (\<lambda>_. \<lparr>sem_value = 0\<rparr>),
     mutexes = (\<lambda>_. \<lparr>mtx_value = 0, mtx_original_priority = 10, mtx_hold = 1, mtx_owner = Some 1\<rparr>),
     events = (\<lambda>_. \<lparr>ev_set = 0\<rparr>),
     mailboxes = (\<lambda>_. \<lparr>mb_pool = [0, 0, 0, 0], mb_size = 4, mb_entry = 0, mb_in_offset = 0, mb_out_offset = 0\<rparr>),
     queues = (\<lambda>_. \<lparr>mq_next = (\<lambda>i. if i = 0 then None else Some (i - 1)), mq_data = (\<lambda>_. []),
                     mq_msg_size = 4, mq_max_msgs = 2, mq_entry = 0,
                     mq_head = None, mq_tail = None, mq_free = Some 1\<rparr>),
     pools = (\<lambda>_. \<lparr>mp_size = 24, mp_block_size = 8, mp_header = (\<lambda>i. NextFree (if i = 0 then None else Some (i - 1))),
                    mp_block_list = Some 1, mp_total_count = 2, mp_free_count = 2, mp_suspend_count = 0\<rparr>),
     hw_calls = []\<rparr>"

lemma demo_state [simp]:
  "thread_state (demo h) t = (if t = 0 \<or> t = 1 then RT_THREAD_READY else if t = 2 then RT_THREAD_SUSPEND else RT_THREAD_INIT)"
  by (simp add: thread_state_def demo_def demo_thread_def)

lemma demo_sel [simp]:
  "th_current_priority (threads (demo h) t) = (if t = 0 then 31 else if t = 1 then 10 else if t = 2 then 5 else 20)"
  "th_init_priority (threads (demo h) t) = (if t = 0 then 31 else if t = 1 then 10 else if t = 2 then 5 else 20)"
  "th_error (threads (demo h) t) = 0" "timer_list (demo h) = []" "tick (demo h) = 100"
  "current_thread (demo h) = Some 1" "lock_nest (demo h) = 0" "interrupt_nest (demo h) = 0"
  "o_type (objs (demo h) r) = demo_type r" "obj_flag (demo h) r = demo_flag r" "sem_value (sems (demo h) s) = 0"
  "mutexes (demo h) m = \<lparr>mtx_value = 0, mtx_original_priority = 10, mtx_hold = 1, mtx_owner = Some 1\<rparr>"
  "ev_set (events (demo h) e) = 0" "rt_object_get_type r (demo h) = demo_type r AND - 129"
  "th_event_set (threads (demo h) t) = (if t = 2 then 3 else 0)"
  "th_event_info (threads (demo h) t) = (if t = 2 then 6 else 0)"
  "th_remaining_tick (threads (demo h) t) = 10" "ready_group (demo h) = 0x80000400"
  "th_cleanup (threads (demo h) t) = None"
  by (simp_all add: demo_def demo_thread_def rt_object_get_type_def)

lemma demo_lists [simp]:
  assumes "wait_head h"
  shows "tlists (demo h) g = (if g = Ready 31 then [0] else if g = Ready 10 then [1] else if g = h then [2] else [])"
  by (simp add: demo_def)

lemma demo_bit: "bit (0x80000400 :: u32) n \<longleftrightarrow> n = 31 \<or> n = 10"
proof -
  have "(0x80000400 :: u32) = push_bit 31 1 OR push_bit 10 1" by simp
  then show ?thesis by (simp only: bit_or_iff bit_mask_at) auto
qed

lemma demo_kinv:
  assumes h: "wait_head h"
  shows "kinv (demo h)"
proof -
  have ne: "h \<noteq> Ready p" "Ready p \<noteq> h" "h \<noteq> Defunct" for p using h by auto
  have "disjoint_lists (tlists (demo h))"
    unfolding disjoint_lists_def using h ne by auto
  moreover have "bitmap_ok (demo h)"
    unfolding bitmap_ok_def
  proof
    fix p :: u8
    have "unat p = 31 \<longleftrightarrow> p = 31" "unat p = 10 \<longleftrightarrow> p = 10"
      using bit_word8_eq[of p 31] bit_word8_eq[of p 10] by simp_all
    then show "(tlists (demo h) (Ready p) \<noteq> []) = bit (ready_group (demo h)) (unat p)"
      using ne unfolding demo_sel demo_lists[OF h] demo_bit by simp
  qed
  moreover have "thread_ok (demo h) t" for t
    using h ne wait_head_state[OF h] unfolding thread_ok_def
    by (auto simp: mask_ok_def) (simp_all add: demo_def demo_thread_def)
  ultimately have "ready_inv (demo h)" by (simp add: ready_inv_def)
  moreover have "timer_inv (demo h)" by (simp add: timer_inv_def)
  moreover have "threads_inv (demo h)"
    by (auto simp: threads_inv_def live_def) (simp_all add: demo_def)
  ultimately show ?thesis by (simp add: kinv_def)
qed

end

