(* ===== verification/RT_Mutex.thy ===== *)
theory RT_Mutex
  imports RT_Sem
begin

text \<open>
  The mutexes of \<open>src/ipc.c\<close>: recursive, owned, with priority inheritance. \<open>mutex_contend\<close> is the code
  behind the label \<open>__again\<close>, which the resumed call enters again after \<open>-RT_EINTR\<close>.
\<close>

subsection \<open>Operations\<close>

abbreviation mutex_typed :: "kernel \<Rightarrow> nat \<Rightarrow> bool" where
  "mutex_typed k m \<equiv> rt_object_get_type (ObjMutex m) k = RT_Object_Class_Mutex"

abbreviation mutex_waiters :: "kernel \<Rightarrow> nat \<Rightarrow> tid list" where
  "mutex_waiters k m \<equiv> tlists k (Suspended (ObjMutex m))"

definition upd_mutex :: "nat \<Rightarrow> (rt_mutex \<Rightarrow> rt_mutex) \<Rightarrow> kernel \<Rightarrow> kernel" where
  "upd_mutex m f k = k\<lparr>mutexes := (mutexes k)(m := f (mutexes k m))\<rparr>"

definition free_mutex :: "rt_mutex \<Rightarrow> rt_mutex" where
  "free_mutex mx = mx\<lparr>mtx_value := 1, mtx_owner := None, mtx_original_priority := 0xFF, mtx_hold := 0\<rparr>"

definition rt_mutex_init :: "nat \<Rightarrow> string \<Rightarrow> u8 \<Rightarrow> kernel \<Rightarrow> kernel option" where
  "rt_mutex_init m name flag k = do {
     k1 \<leftarrow> rt_object_init (ObjMutex m) RT_Object_Class_Mutex name k;
     Some (upd_mutex m free_mutex (ipc_init (ObjMutex m) flag k1)) }"

definition rt_mutex_detach :: "nat \<Rightarrow> kernel \<Rightarrow> kernel option" where
  "rt_mutex_detach m k = do {
     _ \<leftarrow> rt_assert (mutex_typed k m);
     _ \<leftarrow> rt_assert (rt_object_is_systemobject (ObjMutex m) k);
     k1 \<leftarrow> rt_ipc_list_resume_all (Suspended (ObjMutex m)) k;
     Some (rt_object_detach (ObjMutex m) k1) }"

definition rt_mutex_create :: "nat option \<Rightarrow> string \<Rightarrow> u8 \<Rightarrow> kernel \<Rightarrow> (nat option \<times> kernel) option" where
  "rt_mutex_create block name flag k = do {
     _ \<leftarrow> rt_assert (interrupt_nest k = 0);
     (r, k1) \<leftarrow> rt_object_allocate (map_option ObjMutex block) RT_Object_Class_Mutex name k;
     case block of
       None \<Rightarrow> Some (None, k1)
     | Some m \<Rightarrow> Some (Some m, upd_mutex m free_mutex (ipc_init (ObjMutex m) flag k1)) }"

definition rt_mutex_delete :: "nat \<Rightarrow> kernel \<Rightarrow> kernel option" where
  "rt_mutex_delete m k = do {
     _ \<leftarrow> rt_assert (interrupt_nest k = 0);
     _ \<leftarrow> rt_assert (mutex_typed k m);
     _ \<leftarrow> rt_assert (\<not> rt_object_is_systemobject (ObjMutex m) k);
     k1 \<leftarrow> rt_ipc_list_resume_all (Suspended (ObjMutex m)) k;
     rt_object_delete (ObjMutex m) k1 }"

definition mutex_contend :: "nat \<Rightarrow> int \<Rightarrow> tid \<Rightarrow> kernel \<Rightarrow> (rt_err_t outcome \<times> kernel) option" where
  "mutex_contend m time t k =
     (if mtx_value (mutexes k m) > 0 then
        Some (Ret RT_EOK, upd_mutex m (\<lambda>mx. mx\<lparr>mtx_value := mtx_value mx - 1, mtx_owner := Some t,
                 mtx_original_priority := th_current_priority (threads k t), mtx_hold := mtx_hold mx + 1\<rparr>) k)
      else if time = 0 then
        Some (Ret (- RT_ETIMEOUT), upd_thread t (\<lambda>th. th\<lparr>th_error := - RT_ETIMEOUT\<rparr>) k)
      else do {
        owner \<leftarrow> mtx_owner (mutexes k m);
        k1 \<leftarrow> (if th_current_priority (threads k t) < th_current_priority (threads k owner)
               then rt_thread_control owner 2 (th_current_priority (threads k t)) k else Some k);
        k2 \<leftarrow> block_on (Suspended (ObjMutex m)) t (obj_flag k1 (ObjMutex m)) time k1;
        Some (Wait, k2) })"

definition rt_mutex_take :: "nat \<Rightarrow> int \<Rightarrow> kernel \<Rightarrow> (rt_err_t outcome \<times> kernel) option" where
  "rt_mutex_take m time k = do {
     _ \<leftarrow> in_thread_context k;
     _ \<leftarrow> rt_assert (mutex_typed k m);
     t \<leftarrow> current_thread k;
     let k1 = clear_error t k;
     if mtx_owner (mutexes k1 m) = Some t
     then Some (Ret RT_EOK, upd_mutex m (\<lambda>mx. mx\<lparr>mtx_hold := mtx_hold mx + 1\<rparr>) k1)
     else mutex_contend m time t k1 }"

definition rt_mutex_take_resume :: "nat \<Rightarrow> int \<Rightarrow> tid \<Rightarrow> kernel \<Rightarrow> (rt_err_t outcome \<times> kernel) option" where
  "rt_mutex_take_resume m time t k =
     (if th_error (threads k t) \<noteq> RT_EOK then
        if th_error (threads k t) = - RT_EINTR then mutex_contend m time t k
        else Some (Ret (th_error (threads k t)), k)
      else Some (Ret RT_EOK, k))"

definition rt_mutex_release :: "nat \<Rightarrow> kernel \<Rightarrow> (rt_err_t \<times> kernel) option" where
  "rt_mutex_release m k = do {
     _ \<leftarrow> rt_assert (mutex_typed k m);
     _ \<leftarrow> in_thread_context k;
     t \<leftarrow> current_thread k;
     if mtx_owner (mutexes k m) \<noteq> Some t
     then Some (- RT_ERROR, upd_thread t (\<lambda>th. th\<lparr>th_error := - RT_ERROR\<rparr>) k)
     else do {
       let k1 = upd_mutex m (\<lambda>mx. mx\<lparr>mtx_hold := mtx_hold mx - 1\<rparr>) k;
       if mtx_hold (mutexes k1 m) = 0 then do {
         k2 \<leftarrow> (if mtx_original_priority (mutexes k1 m) \<noteq> th_current_priority (threads k1 t)
                then rt_thread_control t 2 (mtx_original_priority (mutexes k1 m)) k1 else Some k1);
         (case mutex_waiters k2 m of
            w # _ \<Rightarrow> do {
              let k3 = upd_mutex m (\<lambda>mx. mx\<lparr>mtx_owner := Some w,
                 mtx_original_priority := th_current_priority (threads k2 w), mtx_hold := mtx_hold mx + 1\<rparr>) k2;
              k4 \<leftarrow> rt_ipc_list_resume (Suspended (ObjMutex m)) k3;
              k5 \<leftarrow> rt_schedule k4;
              Some (RT_EOK, k5) }
          | [] \<Rightarrow> Some (RT_EOK, upd_mutex m (\<lambda>mx. mx\<lparr>mtx_value := mtx_value mx + 1, mtx_owner := None,
                 mtx_original_priority := 0xFF\<rparr>) k2)) }
       else Some (RT_EOK, k1) } }"

definition rt_mutex_control :: "nat \<Rightarrow> kernel \<Rightarrow> rt_err_t option" where
  "rt_mutex_control m k = do { _ \<leftarrow> rt_assert (mutex_typed k m); Some (- RT_ERROR) }"

subsection \<open>The mutex invariant\<close>

text \<open>A mutex is free and nobody waits, or it has one owner, who is alive and does not wait for it.\<close>

definition mutex_inv :: "kernel \<Rightarrow> nat \<Rightarrow> bool" where
  "mutex_inv k m \<longleftrightarrow> mutex_typed k m
     \<and> (obj_flag k (ObjMutex m) = RT_IPC_FLAG_FIFO \<or> obj_flag k (ObjMutex m) = RT_IPC_FLAG_PRIO)
     \<and> waiters_clean k (Suspended (ObjMutex m))
     \<and> (case mtx_owner (mutexes k m) of
          None \<Rightarrow> mtx_value (mutexes k m) = 1 \<and> mtx_hold (mutexes k m) = 0 \<and> mutex_waiters k m = []
        | Some w \<Rightarrow> mtx_value (mutexes k m) = 0 \<and> mtx_hold (mutexes k m) \<noteq> 0 \<and> w \<notin> set (mutex_waiters k m)
            \<and> thread_typed k w \<and> mtx_original_priority (mutexes k m) < RT_THREAD_PRIORITY_MAX)"

text \<open>Priority inheritance: the owner is at least as urgent as everybody it makes wait.\<close>

definition inherits :: "kernel \<Rightarrow> nat \<Rightarrow> bool" where
  "inherits k m \<longleftrightarrow> (\<forall>w. mtx_owner (mutexes k m) = Some w \<longrightarrow>
     (\<forall>s\<in>set (mutex_waiters k m). th_current_priority (threads k w) \<le> th_current_priority (threads k s)))"

definition waiters_sorted :: "kernel \<Rightarrow> thead \<Rightarrow> bool" where
  "waiters_sorted k h \<longleftrightarrow>
     sorted_wrt (\<lambda>a b. th_current_priority (threads k a) \<le> th_current_priority (threads k b)) (tlists k h)"

lemma wait_insert_cong:
  assumes "\<And>s. s = t \<or> s \<in> set ts \<Longrightarrow> p s = q s"
  shows "wait_insert flag p t ts = wait_insert flag q t ts"
proof -
  have "prio_insert p t ts = prio_insert q t ts" using assms by (induction ts) auto
  then show ?thesis by (simp add: wait_insert_def)
qed

lemma upd_mutex_sel [simp]:
  "mutexes (upd_mutex m f k) = (mutexes k)(m := f (mutexes k m))" "threads (upd_mutex m f k) = threads k"
  "tlists (upd_mutex m f k) = tlists k" "objs (upd_mutex m f k) = objs k" "timers (upd_mutex m f k) = timers k"
  "timer_list (upd_mutex m f k) = timer_list k" "tick (upd_mutex m f k) = tick k"
  "current_thread (upd_mutex m f k) = current_thread k" "lock_nest (upd_mutex m f k) = lock_nest k"
  "interrupt_nest (upd_mutex m f k) = interrupt_nest k" "thread_state (upd_mutex m f k) t = thread_state k t"
  "ready_group (upd_mutex m f k) = ready_group k"
  by (simp_all add: upd_mutex_def thread_state_def)

lemma upd_mutex_kinv [simp]: "kinv (upd_mutex m f k) \<longleftrightarrow> kinv k"
  by (auto intro: kinv_same simp: same_threads_def)

lemma upd_mutex_get_type [simp]: "rt_object_get_type r (upd_mutex m f k) = rt_object_get_type r k"
  by (simp add: rt_object_get_type_def)

lemma clear_error_get_type [simp]: "rt_object_get_type r (clear_error t k) = rt_object_get_type r k"
  by (simp add: rt_object_get_type_def)

lemma change_priority_get_type [simp]: "rt_object_get_type r (change_priority t p k) = rt_object_get_type r k"
  by (simp add: rt_object_get_type_def)

text \<open>A change of priority does not disturb the lists of waiters.\<close>

lemma change_priority_waiters [simp]:
  assumes "kinv k" "wait_head h"
  shows "tlists (change_priority t p k) h = tlists k h"
proof (cases "thread_state k t = RT_THREAD_READY")
  case True
  then have "t \<notin> set (tlists k h)" using waiter_suspended[OF assms, of t] by auto
  then show ?thesis using True assms(2)
    by (auto simp: change_priority_def list_append_def set_priority_def wait_head_def)
next
  case False
  then show ?thesis by (simp add: change_priority_def set_priority_def)
qed

subsection \<open>Take\<close>

lemma rt_mutex_take_recursive:
  assumes "kinv k" "mutex_inv k m" "mtx_owner (mutexes k m) = Some t" "current_thread k = Some t"
    "interrupt_nest k = 0" "mtx_hold (mutexes k m) < 255"
  obtains k' where "rt_mutex_take m time k = Some (Ret RT_EOK, k')" "kinv k'" "mutex_inv k' m"
    "mtx_owner (mutexes k' m) = Some t" "mtx_hold (mutexes k' m) = mtx_hold (mutexes k m) + 1"
    "tlists k' = tlists k"
proof -
  let ?k = "upd_mutex m (\<lambda>mx. mx\<lparr>mtx_hold := mtx_hold mx + 1\<rparr>) (clear_error t k)"
  have "mtx_hold (mutexes k m) + 1 \<noteq> 0"
    using assms(6) by (auto simp: eq_neg_iff_add_eq_0[symmetric])
  moreover have "waiters_clean ?k (Suspended (ObjMutex m))"
    using assms(2) by (auto simp: mutex_inv_def waiters_clean_def)
  ultimately have "mutex_inv ?k m" using assms(2,3) by (simp add: mutex_inv_def)
  moreover have "rt_mutex_take m time k = Some (Ret RT_EOK, ?k)"
    using assms by (simp add: rt_mutex_take_def in_thread_context_def mutex_inv_def Let_def)
  ultimately show ?thesis using assms(1,3) clear_error_kinv by (intro that[of ?k]) simp_all
qed

lemma rt_mutex_take_free:
  assumes "kinv k" "mutex_inv k m" "mtx_owner (mutexes k m) = None" "current_thread k = Some t"
    "thread_state k t = RT_THREAD_READY" "interrupt_nest k = 0"
  obtains k' where "rt_mutex_take m time k = Some (Ret RT_EOK, k')" "kinv k'" "mutex_inv k' m"
    "mtx_owner (mutexes k' m) = Some t" "mtx_hold (mutexes k' m) = 1" "mtx_value (mutexes k' m) = 0"
    "mtx_original_priority (mutexes k' m) = th_current_priority (threads k t)" "inherits k' m"
proof -
  let ?k = "upd_mutex m (\<lambda>mx. mx\<lparr>mtx_value := mtx_value mx - 1, mtx_owner := Some t,
     mtx_original_priority := th_current_priority (threads k t), mtx_hold := mtx_hold mx + 1\<rparr>) (clear_error t k)"
  have l: "live k t" "mask_ok (threads k t)" using kinvD(4,6)[OF assms(1), of t] assms(5) by simp_all
  have "waiters_clean ?k (Suspended (ObjMutex m))" using assms(2,3) by (simp add: mutex_inv_def waiters_clean_def)
  then have "mutex_inv ?k m" using assms(2,3) l
    by (simp add: mutex_inv_def live_def mask_ok_def RT_THREAD_PRIORITY_MAX_def)
  moreover have "rt_mutex_take m time k = Some (Ret RT_EOK, ?k)"
    using assms by (simp add: rt_mutex_take_def in_thread_context_def mutex_inv_def Let_def mutex_contend_def)
  ultimately show ?thesis using assms(1,2,3) clear_error_kinv
    by (intro that[of ?k]) (simp_all add: mutex_inv_def inherits_def)
qed

text \<open>Taking a mutex another thread owns: the owner is boosted when it is less urgent, and the caller
  waits.\<close>

lemma rt_mutex_take_blocks:
  assumes i: "kinv k" and mi: "mutex_inv k m" and w: "mtx_owner (mutexes k m) = Some w" "w \<noteq> t"
    and c: "current_thread k = Some t" and r: "thread_state k t = RT_THREAD_READY"
    and ni: "interrupt_nest k = 0" and b: "time \<noteq> 0" "time < 0x7FFFFFFF"
    and o: "thread_state k u = RT_THREAD_READY" "u \<noteq> t"
  obtains k' where "rt_mutex_take m time k = Some (Wait, k')" "kinv k'" "mutex_inv k' m"
    "thread_state k' t = RT_THREAD_SUSPEND" "mtx_owner (mutexes k' m) = Some w"
    "mutex_waiters k' m = wait_insert (obj_flag k (ObjMutex m)) (\<lambda>s. th_current_priority (threads k s)) t (mutex_waiters k m)"
    "th_current_priority (threads k' w) = min (th_current_priority (threads k w)) (th_current_priority (threads k t))"
    "\<And>s. s \<noteq> w \<Longrightarrow> th_current_priority (threads k' s) = th_current_priority (threads k s)"
    "time > 0 \<Longrightarrow> ThreadTimer t \<in> set (timer_list k')" "time < 0 \<Longrightarrow> ThreadTimer t \<notin> set (timer_list k')"
    "lock_nest k = 0 \<Longrightarrow> \<exists>v. current_thread k' = Some v \<and> v \<noteq> t \<and> most_urgent k' v"
    "mutexes k' = mutexes k"
proof -
  let ?h = "Suspended (ObjMutex m)"
  let ?fl = "obj_flag k (ObjMutex m)"
  let ?pt = "th_current_priority (threads k t)"
  define k0 where "k0 = clear_error t k"
  define k1 where "k1 = (if ?pt < th_current_priority (threads k w) then change_priority w ?pt k0 else k0)"
  have fl: "?fl = RT_IPC_FLAG_FIFO \<or> ?fl = RT_IPC_FLAG_PRIO" and ty: "mutex_typed k m"
    and val: "mtx_value (mutexes k m) = 0" and wt: "thread_typed k w" and ww: "w \<notin> set (mutex_waiters k m)"
    and wc: "waiters_clean k ?h"
    using mi w by (simp_all add: mutex_inv_def)
  have k0: "kinv k0" unfolding k0_def by (rule clear_error_kinv[OF i])
  have pb: "?pt < RT_THREAD_PRIORITY_MAX"
    using kinvD(6)[OF i, of t] r by (simp add: mask_ok_def RT_THREAD_PRIORITY_MAX_def)
  have k1: "kinv k1" using change_priority_kinv[OF k0 pb] k0 by (simp add: k1_def)
  have sel: "current_thread k1 = Some t" "objs k1 = objs k" "mutexes k1 = mutexes k" "lock_nest k1 = lock_nest k"
    "tlists k1 ?h = tlists k ?h" "\<And>s. thread_state k1 s = thread_state k s" "interrupt_nest k1 = interrupt_nest k"
    using c ww by (simp_all add: k1_def k0_def)
  have pr: "th_current_priority (threads k1 s) = (if s = w then min (th_current_priority (threads k w)) ?pt
      else th_current_priority (threads k s))" for s
    by (cases "s = w") (simp_all add: k1_def k0_def min_def not_less)
  have er: "th_error (threads k1 s) = (if s = t then RT_EOK else th_error (threads k s))" for s
    by (simp add: k1_def k0_def)
  have insert_eq: "wait_insert ?fl (\<lambda>s. th_current_priority (threads k1 s)) t (tlists k ?h)
      = wait_insert ?fl (\<lambda>s. th_current_priority (threads k s)) t (tlists k ?h)"
    by (rule wait_insert_cong) (use ww w(2) pr in auto)
  have ctl: "(if th_current_priority (threads k0 t) < th_current_priority (threads k0 w)
      then rt_thread_control w 2 (th_current_priority (threads k0 t)) k0 else Some k0) = Some k1"
    using wt w(2) by (auto simp: k1_def k0_def rt_thread_control_def)
  show ?thesis
  proof (rule block_on_waits[OF k1 sel(1) _ wait_head_simps(1), of ?fl time u "ObjMutex m"], goal_cases)
    case (6 k')
    note a = 6
    have e: "th_error (threads k' t) = RT_EOK" by (subst a(9)) (simp add: er)
    have "th_current_priority (threads k' t) = th_current_priority (threads k1 t)" by (subst a(9)) simp
    then have prk: "th_current_priority (threads k' s) = th_current_priority (threads k1 s)" for s
      using a(8) by (cases "s = t") simp_all
    have wl: "tlists k' ?h = wait_insert ?fl (\<lambda>s. th_current_priority (threads k s)) t (tlists k ?h)"
      using a(4) sel(5) insert_eq by simp
    have "waiters_clean k1 ?h" using wc er sel(5) by (simp add: waiters_clean_def)
    then have "waiters_clean k' ?h" by (rule waiters_clean_insert[OF _ fl a(4) e a(8)])
    moreover have "obj_flag k' (ObjMutex m) = ?fl" using a(13)[of "ObjMutex m"] sel(2) by simp
    moreover have "rt_object_get_type x k' = rt_object_get_type x k" for x
      using a(12) sel(2) by (simp add: rt_object_get_type_def)
    moreover have "w \<notin> set (tlists k' ?h)" using wl wait_insert_props(1)[OF fl] ww w(2) by simp
    ultimately have "mutex_inv k' m" using mi w a(15) sel(3) by (simp add: mutex_inv_def)
    moreover have "rt_mutex_take m time k = Some (Wait, k')"
      using ty c ni w val b(1) a(1) ctl sel(2)
      by (simp add: rt_mutex_take_def in_thread_context_def mutex_contend_def k0_def[symmetric] Let_def)
         (simp add: k0_def)
    ultimately show ?case
      by (intro that[of k']) (use a wl prk pr sel w in simp_all)
  qed (use r fl b o sel in simp_all)
qed

text \<open>With waiters kept by priority, a wait keeps the order and the inheritance.\<close>

lemma mutex_block_inherits:
  assumes "mutex_inv k m" "obj_flag k (ObjMutex m) = RT_IPC_FLAG_PRIO" "inherits k m" "waiters_sorted k (Suspended (ObjMutex m))"
    and w: "mtx_owner (mutexes k m) = Some w" "w \<noteq> t" and m': "mutexes k' = mutexes k"
    and l: "mutex_waiters k' m = wait_insert (obj_flag k (ObjMutex m)) (\<lambda>s. th_current_priority (threads k s)) t (mutex_waiters k m)"
    and pw: "th_current_priority (threads k' w) = min (th_current_priority (threads k w)) (th_current_priority (threads k t))"
    and po: "\<And>s. s \<noteq> w \<Longrightarrow> th_current_priority (threads k' s) = th_current_priority (threads k s)"
  shows "inherits k' m" "waiters_sorted k' (Suspended (ObjMutex m))"
proof -
  have ww: "w \<notin> set (mutex_waiters k m)" using assms(1) w by (simp add: mutex_inv_def)
  have l': "mutex_waiters k' m = prio_insert (\<lambda>s. th_current_priority (threads k s)) t (mutex_waiters k m)"
    using l assms(2) by (simp add: wait_insert_def)
  have "th_current_priority (threads k' w) \<le> th_current_priority (threads k' s)" if "s \<in> set (mutex_waiters k' m)" for s
  proof -
    have s: "s = t \<or> s \<in> set (mutex_waiters k m)" using that l' by simp
    then have "s \<noteq> w" using ww w(2) by auto
    moreover have "s \<noteq> t \<Longrightarrow> th_current_priority (threads k w) \<le> th_current_priority (threads k s)"
      using s assms(3) w(1) by (simp add: inherits_def)
    ultimately show ?thesis using pw po[of s] by (cases "s = t") (auto simp: min_le_iff_disj)
  qed
  then show "inherits k' m" using w(1) m' by (simp add: inherits_def)
  have same: "th_current_priority (threads k' s) = th_current_priority (threads k s)" if "s \<in> set (mutex_waiters k' m)" for s
  proof -
    have "s \<noteq> w" using that l' ww w(2) by auto
    then show ?thesis by (rule po)
  qed
  have "sorted_wrt (\<lambda>a b. th_current_priority (threads k a) \<le> th_current_priority (threads k b)) (mutex_waiters k' m)"
    unfolding l' using assms(4) by (intro prio_insert_sorted) (simp add: waiters_sorted_def)
  then show "waiters_sorted k' (Suspended (ObjMutex m))" unfolding waiters_sorted_def
    by (rule sorted_wrt_mono_rel[rotated]) (simp add: same)
qed

subsection \<open>Release\<close>

lemma rt_mutex_release_not_owner:
  assumes "kinv k" "mutex_typed k m" "current_thread k = Some t" "interrupt_nest k = 0"
    and "mtx_owner (mutexes k m) \<noteq> Some t"
  obtains k' where "rt_mutex_release m k = Some (- RT_ERROR, k')" "kinv k'" "mutexes k' = mutexes k"
    "tlists k' = tlists k" "th_error (threads k' t) = - RT_ERROR"
proof -
  let ?k = "upd_thread t (\<lambda>th. th\<lparr>th_error := - RT_ERROR\<rparr>) k"
  have "kinv ?k" using assms(1) by (rule kinv_thread_upd) simp_all
  then show ?thesis using assms by (intro that[of ?k]) (simp_all add: rt_mutex_release_def in_thread_context_def)
qed

text \<open>The last release of the owner, up to the choice between a waiter and nobody.\<close>

lemma restore_priority:
  assumes i: "kinv k" and mi: "mutex_inv k m" and w: "mtx_owner (mutexes k m) = Some t" and h: "mtx_hold (mutexes k m) = 1"
  defines "k1 \<equiv> upd_mutex m (\<lambda>mx. mx\<lparr>mtx_hold := mtx_hold mx - 1\<rparr>) k"
  obtains k2 where "(if mtx_original_priority (mutexes k1 m) \<noteq> th_current_priority (threads k1 t)
                then rt_thread_control t 2 (mtx_original_priority (mutexes k1 m)) k1 else Some k1) = Some k2"
    "kinv k2" "mutexes k2 = mutexes k1" "mtx_hold (mutexes k2 m) = 0" "mutex_waiters k2 m = mutex_waiters k m"
    "th_current_priority (threads k2 t) = mtx_original_priority (mutexes k m)"
    "\<And>s. s \<noteq> t \<Longrightarrow> threads k2 s = threads k s" "\<And>s. thread_state k2 s = thread_state k s"
    "\<And>s. th_error (threads k2 s) = th_error (threads k s)" "objs k2 = objs k"
    "current_thread k2 = current_thread k" "lock_nest k2 = lock_nest k"
    "timer_list k2 = timer_list k"
proof -
  define p where "p = mtx_original_priority (mutexes k m)"
  have p: "p < RT_THREAD_PRIORITY_MAX" "thread_typed k t" using mi w by (simp_all add: mutex_inv_def p_def)
  have k1: "kinv k1" using i by (simp add: k1_def)
  have p1: "mtx_original_priority (mutexes k1 m) = p" by (simp add: k1_def p_def)
  show ?thesis
  proof (cases "p = th_current_priority (threads k t)")
    case True
    then show ?thesis using k1 h by (intro that[of k1]) (simp_all add: k1_def p_def)
  next
    case False
    have sel1: "threads k1 = threads k" "tlists k1 = tlists k" "objs k1 = objs k" "timer_list k1 = timer_list k"
      "current_thread k1 = current_thread k" "lock_nest k1 = lock_nest k" "mtx_hold (mutexes k1 m) = 0"
      "\<And>s. thread_state k1 s = thread_state k s" "thread_typed k1 t"
      using h p(2) by (simp_all add: k1_def)
    define k2 where "k2 = change_priority t p k1"
    have "(if p \<noteq> th_current_priority (threads k1 t) then rt_thread_control t 2 p k1 else Some k1) = Some k2"
      using False p(2) sel1 by (simp add: rt_thread_control_def k2_def)
    moreover have "mutex_waiters k2 m = mutex_waiters k m"
      unfolding k2_def change_priority_waiters[OF k1 wait_head_simps(1)] by (simp add: sel1)
    moreover have "kinv k2" unfolding k2_def by (rule change_priority_kinv[OF k1 p(1)])
    moreover have "mutexes k2 = mutexes k1" "mtx_hold (mutexes k2 m) = 0" "th_current_priority (threads k2 t) = p"
      "\<And>s. s \<noteq> t \<Longrightarrow> threads k2 s = threads k s" "\<And>s. thread_state k2 s = thread_state k s"
      "\<And>s. th_error (threads k2 s) = th_error (threads k s)" "objs k2 = objs k"
      "current_thread k2 = current_thread k" "lock_nest k2 = lock_nest k" "timer_list k2 = timer_list k"
      by (simp_all add: k2_def sel1)
    ultimately show ?thesis by (intro that[of k2]) (simp_all only: p1 p_def[symmetric])
  qed
qed

text \<open>The owner releases with nobody waiting: the mutex is free and the owner has its own priority
  again. There is no call of the scheduler on this path.\<close>

lemma rt_mutex_release_frees:
  assumes i: "kinv k" and mi: "mutex_inv k m" and w: "mtx_owner (mutexes k m) = Some t" and h: "mtx_hold (mutexes k m) = 1"
    and c: "current_thread k = Some t" and ni: "interrupt_nest k = 0" and l: "mutex_waiters k m = []"
  obtains k' where "rt_mutex_release m k = Some (RT_EOK, k')" "kinv k'" "mutex_inv k' m"
    "mtx_owner (mutexes k' m) = None" "mtx_value (mutexes k' m) = 1"
    "th_current_priority (threads k' t) = mtx_original_priority (mutexes k m)"
    "\<And>s. s \<noteq> t \<Longrightarrow> threads k' s = threads k s" "\<And>s. thread_state k' s = thread_state k s"
    "current_thread k' = Some t"
proof -
  define k1 where "k1 = upd_mutex m (\<lambda>mx. mx\<lparr>mtx_hold := mtx_hold mx - 1\<rparr>) k"
  have k1: "mtx_hold (mutexes k1 m) = 0" "mtx_value (mutexes k1 m) = 0" using h mi w by (simp_all add: k1_def mutex_inv_def)
  show ?thesis
  proof (rule restore_priority[OF i mi w h, folded k1_def], goal_cases)
    case (1 k2)
    let ?k = "upd_mutex m (\<lambda>mx. mx\<lparr>mtx_value := mtx_value mx + 1, mtx_owner := None, mtx_original_priority := 0xFF\<rparr>) k2"
    have "rt_mutex_release m k = Some (RT_EOK, ?k)"
      using mi c ni w 1(1) 1(5) l k1(1)
      by (simp add: rt_mutex_release_def in_thread_context_def mutex_inv_def k1_def[symmetric] Let_def)
    moreover have "mutex_inv ?k m" using mi w 1(3,4,5,10) l k1(2)
      by (simp add: mutex_inv_def waiters_clean_def rt_object_get_type_def)
    ultimately show ?case
      by (intro that[of ?k]) (use 1 c k1(2) in simp_all)
  qed
qed

text \<open>The owner releases with waiters: the first of them owns the mutex, is ready and sees success.\<close>

lemma rt_mutex_release_hands_over:
  assumes i: "kinv k" and mi: "mutex_inv k m" and w: "mtx_owner (mutexes k m) = Some t" and h: "mtx_hold (mutexes k m) = 1"
    and c: "current_thread k = Some t" and ni: "interrupt_nest k = 0" and l: "mutex_waiters k m = v # vs"
  obtains k' where "rt_mutex_release m k = Some (RT_EOK, k')" "kinv k'" "mutex_inv k' m"
    "mtx_owner (mutexes k' m) = Some v" "mtx_hold (mutexes k' m) = 1" "mutex_waiters k' m = vs"
    "mtx_original_priority (mutexes k' m) = th_current_priority (threads k v)"
    "thread_state k' v = RT_THREAD_READY" "rt_mutex_take_resume m time v k' = Some (Ret RT_EOK, k')"
    "th_current_priority (threads k' t) = mtx_original_priority (mutexes k m)"
    "\<And>s. s \<noteq> t \<Longrightarrow> th_current_priority (threads k' s) = th_current_priority (threads k s)"
    "lock_nest k = 0 \<Longrightarrow> \<exists>u. current_thread k' = Some u \<and> most_urgent k' u"
proof -
  let ?h = "Suspended (ObjMutex m)"
  define k1 where "k1 = upd_mutex m (\<lambda>mx. mx\<lparr>mtx_hold := mtx_hold mx - 1\<rparr>) k"
  have k1: "mtx_hold (mutexes k1 m) = 0" "mtx_value (mutexes k1 m) = 0" "mtx_owner (mutexes k1 m) = Some t"
    using h mi w by (simp_all add: k1_def mutex_inv_def)
  have vt: "v \<noteq> t" and vd: "v \<notin> set vs" and wc: "waiters_clean k ?h"
    using mi w l list_distinct[OF i, of ?h] by (auto simp: mutex_inv_def)
  have vs: "thread_state k v = RT_THREAD_SUSPEND" by (rule waiter_suspended[OF i wait_head_simps(1), of v "ObjMutex m"]) (simp add: l)
  have vl: "thread_typed k v" "mask_ok (threads k v)" using kinvD(4,6)[OF i, of v] vs by (simp_all add: live_def)
  show ?thesis
  proof (rule restore_priority[OF i mi w h, folded k1_def], goal_cases)
    case (1 k2)
    note a = 1
    define k3 where "k3 = upd_mutex m (\<lambda>mx. mx\<lparr>mtx_owner := Some v,
                 mtx_original_priority := th_current_priority (threads k2 v), mtx_hold := mtx_hold mx + 1\<rparr>) k2"
    have k3: "kinv k3" "tlists k3 ?h = v # vs" using a(2,5) l by (simp_all add: k3_def)
    show ?case
    proof (rule rt_ipc_list_resume_wakes[OF k3(1) wait_head_simps(1) k3(2)], goal_cases)
      case (1 k4)
      note d = 1
      from rt_schedule_some[OF kinvD(1)[OF d(2)] d(3)] obtain k' where sc: "rt_schedule k4 = Some k'" by blast
      note f = rt_schedule_frame[OF sc]
      have "th_current_priority (threads k4 v) = th_current_priority (threads k3 v)"
        "th_error (threads k4 v) = th_error (threads k3 v)" by (subst d(7), simp)+
      then have same: "th_current_priority (threads k' s) = th_current_priority (threads k2 s)"
        "th_error (threads k' s) = th_error (threads k s)" for s
        using d(6) f(2) a(9) by (cases "s = v"; simp add: k3_def)+
      have ev: "th_error (threads k v) = RT_EOK" using wc l by (simp add: waiters_clean_def)
      have run: "rt_mutex_release m k = Some (RT_EOK, k')"
        using mi c ni w a(1) a(5) l k1(1) d(1) sc
        by (simp add: rt_mutex_release_def in_thread_context_def mutex_inv_def k1_def[symmetric] k3_def[symmetric] Let_def)
      have "waiters_clean k' ?h"
        using wc by (rule waiters_clean_subset) (use f(1) d(4) l same in auto)
      moreover have "o_type (objs k' x) = o_type (objs k x)" for x
        using d(11) a(10) f(4) by (simp add: k3_def)
      then have "rt_object_get_type x k' = rt_object_get_type x k" for x by (simp add: rt_object_get_type_def)
      moreover have "objs k' (ObjMutex m) = objs k (ObjMutex m)"
        using d(12)[of "ObjMutex m"] a(10) f(4) by (simp add: k3_def)
      moreover have mx: "mutexes k' = mutexes k3" using f d by simp
      ultimately have "mutex_inv k' m"
        using mi w f(1) d(4) vl vd vt k1 a(3,4,7)
        by (simp add: mutex_inv_def k3_def mask_ok_def RT_THREAD_PRIORITY_MAX_def)
      moreover have "rt_mutex_take_resume m time v k' = Some (Ret RT_EOK, k')"
        using same(2)[of v] ev by (simp add: rt_mutex_take_resume_def)
      moreover have "thread_state k' v = RT_THREAD_READY" using d(3) f(2) by (simp add: thread_state_def)
      ultimately show ?case
        by (intro that[of k'])
          (use run kinv_schedule[OF sc d(2)] f(1) d(4) mx a same vt
            rt_schedule_current[OF kinvD(1)[OF d(2)] sc] d(14) in \<open>simp_all add: k3_def\<close>)
    qed
  qed
qed

end
