(* ===== verification/RT_Event.thy ===== *)
theory RT_Event
  imports RT_Sem
begin

text \<open>
  The event sets of \<open>src/ipc.c\<close>: 32 flags, a thread waits for all or for some of a set of them. The scan
  of the waiters in \<open>rt_event_send\<close> goes over the list as it was at the call: the next node is read
  before the current thread leaves the list.
\<close>

subsection \<open>Operations\<close>

abbreviation event_typed :: "kernel \<Rightarrow> nat \<Rightarrow> bool" where
  "event_typed k e \<equiv> rt_object_get_type (ObjEvent e) k = RT_Object_Class_Event"

abbreviation event_waiters :: "kernel \<Rightarrow> nat \<Rightarrow> tid list" where
  "event_waiters k e \<equiv> tlists k (Suspended (ObjEvent e))"

definition put_event :: "nat \<Rightarrow> u32 \<Rightarrow> kernel \<Rightarrow> kernel" where
  "put_event e v k = k\<lparr>events := (events k)(e := (events k e)\<lparr>ev_set := v\<rparr>)\<rparr>"

definition rt_event_init :: "nat \<Rightarrow> string \<Rightarrow> u8 \<Rightarrow> kernel \<Rightarrow> kernel option" where
  "rt_event_init e name flag k = do {
     k1 \<leftarrow> rt_object_init (ObjEvent e) RT_Object_Class_Event name k;
     Some (put_event e 0 (ipc_init (ObjEvent e) flag k1)) }"

definition rt_event_detach :: "nat \<Rightarrow> kernel \<Rightarrow> kernel option" where
  "rt_event_detach e k = do {
     _ \<leftarrow> rt_assert (event_typed k e);
     _ \<leftarrow> rt_assert (rt_object_is_systemobject (ObjEvent e) k);
     k1 \<leftarrow> rt_ipc_list_resume_all (Suspended (ObjEvent e)) k;
     Some (rt_object_detach (ObjEvent e) k1) }"

definition rt_event_create :: "nat option \<Rightarrow> string \<Rightarrow> u8 \<Rightarrow> kernel \<Rightarrow> (nat option \<times> kernel) option" where
  "rt_event_create block name flag k = do {
     _ \<leftarrow> rt_assert (interrupt_nest k = 0);
     (r, k1) \<leftarrow> rt_object_allocate (map_option ObjEvent block) RT_Object_Class_Event name k;
     case block of
       None \<Rightarrow> Some (None, k1)
     | Some e \<Rightarrow> Some (Some e, put_event e 0 (ipc_init (ObjEvent e) flag k1)) }"

definition rt_event_delete :: "nat \<Rightarrow> kernel \<Rightarrow> kernel option" where
  "rt_event_delete e k = do {
     _ \<leftarrow> rt_assert (event_typed k e);
     _ \<leftarrow> rt_assert (\<not> rt_object_is_systemobject (ObjEvent e) k);
     _ \<leftarrow> rt_assert (interrupt_nest k = 0);
     k1 \<leftarrow> rt_ipc_list_resume_all (Suspended (ObjEvent e)) k;
     rt_object_delete (ObjEvent e) k1 }"

text \<open>What a waiter gets of the flags that are set: nothing when its condition does not hold.\<close>

definition event_grant :: "rt_thread \<Rightarrow> u32 \<Rightarrow> u32 option" where
  "event_grant th set_flags =
     (if th_event_info th AND RT_EVENT_FLAG_AND \<noteq> 0 then
        (if th_event_set th AND set_flags = th_event_set th then Some (th_event_set th) else None)
      else if th_event_info th AND RT_EVENT_FLAG_OR \<noteq> 0 then
        (if th_event_set th AND set_flags \<noteq> 0 then Some (th_event_set th AND set_flags) else None)
      else None)"

fun event_scan :: "nat \<Rightarrow> tid list \<Rightarrow> bool \<times> kernel \<Rightarrow> (bool \<times> kernel) option" where
  "event_scan e [] (need_schedule, k) = Some (need_schedule, k)"
| "event_scan e (t # ts) (need_schedule, k) =
     (case event_grant (threads k t) (ev_set (events k e)) of
        None \<Rightarrow> event_scan e ts (need_schedule, k)
      | Some got \<Rightarrow> do {
          let k1 = upd_thread t (\<lambda>th. th\<lparr>th_event_set := got\<rparr>) k;
          let k2 = (if th_event_info (threads k1 t) AND RT_EVENT_FLAG_CLEAR \<noteq> 0
                    then put_event e (ev_set (events k1 e) AND NOT got) k1 else k1);
          (_, k3) \<leftarrow> rt_thread_resume t k2;
          event_scan e ts (True, k3) })"

definition rt_event_send :: "nat \<Rightarrow> u32 \<Rightarrow> kernel \<Rightarrow> (rt_err_t \<times> kernel) option" where
  "rt_event_send e set_flags k = do {
     _ \<leftarrow> rt_assert (event_typed k e);
     if set_flags = 0 then Some (- RT_ERROR, k)
     else do {
       let k1 = put_event e (ev_set (events k e) OR set_flags) k;
       (need_schedule, k2) \<leftarrow> event_scan e (event_waiters k1 e) (False, k1);
       k3 \<leftarrow> (if need_schedule then rt_schedule k2 else Some k2);
       Some (RT_EOK, k3) } }"

text \<open>The result is the error code and the word stored through \<open>recved\<close>, if any.\<close>

definition rt_event_recv :: "nat \<Rightarrow> u32 \<Rightarrow> u8 \<Rightarrow> int \<Rightarrow> kernel \<Rightarrow> ((rt_err_t \<times> u32 option) outcome \<times> kernel) option" where
  "rt_event_recv e set_flags option timeout k = do {
     _ \<leftarrow> in_thread_context k;
     _ \<leftarrow> rt_assert (event_typed k e);
     if set_flags = 0 then Some (Ret (- RT_ERROR, None), k)
     else do {
       t \<leftarrow> current_thread k;
       let k1 = clear_error t k;
       ok \<leftarrow> (if option AND RT_EVENT_FLAG_AND \<noteq> 0 then Some (ev_set (events k1 e) AND set_flags = set_flags)
              else if option AND RT_EVENT_FLAG_OR \<noteq> 0 then Some (ev_set (events k1 e) AND set_flags \<noteq> 0)
              else None);
       if ok then
         Some (Ret (RT_EOK, Some (ev_set (events k1 e) AND set_flags)),
               if option AND RT_EVENT_FLAG_CLEAR \<noteq> 0
               then put_event e (ev_set (events k1 e) AND NOT set_flags) k1 else k1)
       else if timeout = 0 then
         Some (Ret (- RT_ETIMEOUT, None), upd_thread t (\<lambda>th. th\<lparr>th_error := - RT_ETIMEOUT\<rparr>) k1)
       else do {
         let k2 = upd_thread t (\<lambda>th. th\<lparr>th_event_set := set_flags, th_event_info := option\<rparr>) k1;
         k3 \<leftarrow> block_on (Suspended (ObjEvent e)) t (obj_flag k2 (ObjEvent e)) timeout k2;
         Some (Wait, k3) } } }"

definition rt_event_recv_resume :: "tid \<Rightarrow> kernel \<Rightarrow> rt_err_t \<times> u32 option" where
  "rt_event_recv_resume t k =
     (if th_error (threads k t) \<noteq> RT_EOK then (th_error (threads k t), None)
      else (th_error (threads k t), Some (th_event_set (threads k t))))"

definition rt_event_control :: "nat \<Rightarrow> int \<Rightarrow> kernel \<Rightarrow> (rt_err_t \<times> kernel) option" where
  "rt_event_control e cmd k = do {
     _ \<leftarrow> rt_assert (event_typed k e);
     if cmd = 1 then do {
       k1 \<leftarrow> rt_ipc_list_resume_all (Suspended (ObjEvent e)) k;
       k2 \<leftarrow> rt_schedule (put_event e 0 k1);
       Some (RT_EOK, k2) }
     else Some (- RT_ERROR, k) }"

subsection \<open>The event invariant\<close>

text \<open>Every waiter waits in one of the two modes, and the flags that are set satisfy none of them.\<close>

definition event_inv :: "kernel \<Rightarrow> nat \<Rightarrow> bool" where
  "event_inv k e \<longleftrightarrow> event_typed k e
     \<and> (obj_flag k (ObjEvent e) = RT_IPC_FLAG_FIFO \<or> obj_flag k (ObjEvent e) = RT_IPC_FLAG_PRIO)
     \<and> waiters_clean k (Suspended (ObjEvent e))
     \<and> (\<forall>t\<in>set (event_waiters k e). event_grant (threads k t) (ev_set (events k e)) = None)"

lemma put_event_sel [simp]:
  "ev_set (events (put_event e v k) e) = v" "threads (put_event e v k) = threads k" "tlists (put_event e v k) = tlists k"
  "objs (put_event e v k) = objs k" "timers (put_event e v k) = timers k" "timer_list (put_event e v k) = timer_list k"
  "tick (put_event e v k) = tick k" "current_thread (put_event e v k) = current_thread k"
  "lock_nest (put_event e v k) = lock_nest k" "ready_group (put_event e v k) = ready_group k"
  "thread_state (put_event e v k) t = thread_state k t"
  "rt_object_get_type r (put_event e v k) = rt_object_get_type r k"
  by (simp_all add: put_event_def thread_state_def rt_object_get_type_def)

lemma put_event_kinv [simp]: "kinv (put_event e v k) \<longleftrightarrow> kinv k"
  by (auto intro: kinv_same simp: same_threads_def)

text \<open>Flags that go away satisfy nobody new.\<close>

lemma event_grant_mono:
  assumes "event_grant th s = None" "s' AND s = s'"
  shows "event_grant th s' = None"
proof -
  let ?w = "th_event_set th"
  have a: "?w AND s = ?w" if "?w AND s' = ?w"
  proof -
    have "?w AND s = (?w AND s') AND s" using that by simp
    also have "\<dots> = ?w AND (s' AND s)" by (simp add: and.assoc)
    finally show ?thesis using that assms(2) by simp
  qed
  have o: "?w AND s \<noteq> 0" if "?w AND s' \<noteq> 0"
  proof
    assume z: "?w AND s = 0"
    have "?w AND s' = ?w AND (s' AND s)" using assms(2) by simp
    also have "\<dots> = (?w AND s) AND s'" by (simp add: and.left_commute and.commute)
    finally show False using z that by simp
  qed
  show ?thesis using assms(1) a o unfolding event_grant_def by (auto split: if_splits)
qed

subsection \<open>Send\<close>

text \<open>What a scan of the waiters grants, as a function of their conditions and the flags alone: who gets
  what, and the flags that are left.\<close>

fun grants :: "(tid \<Rightarrow> rt_thread) \<Rightarrow> tid list \<Rightarrow> u32 \<Rightarrow> (tid \<times> u32) list \<times> u32" where
  "grants th [] s = ([], s)"
| "grants th (t # ts) s =
     (case event_grant (th t) s of
        None \<Rightarrow> grants th ts s
      | Some got \<Rightarrow>
          let (gs, s') = grants th ts (if th_event_info (th t) AND RT_EVENT_FLAG_CLEAR \<noteq> 0 then s AND NOT got else s)
          in ((t, got) # gs, s'))"

text \<open>The flags left behind by one grant.\<close>

definition left_flags :: "rt_thread \<Rightarrow> u32 \<Rightarrow> u32 \<Rightarrow> u32" where
  "left_flags th got s = (if th_event_info th AND RT_EVENT_FLAG_CLEAR \<noteq> 0 then s AND NOT got else s)"

lemma grants_Some:
  assumes "event_grant (th t) s = Some got"
  shows "grants th (t # ts) s = ((t, got) # fst (grants th ts (left_flags (th t) got s)),
    snd (grants th ts (left_flags (th t) got s)))"
  using assms by (simp add: left_flags_def split_beta)

lemma grants_None: "event_grant (th t) s = None \<Longrightarrow> grants th (t # ts) s = grants th ts s"
  by simp

lemma left_flags_shrink: "left_flags th got s AND s = left_flags th got s"
proof (cases "th_event_info th AND RT_EVENT_FLAG_CLEAR = 0")
  case False
  then show ?thesis by (simp add: left_flags_def and.left_commute and.commute)
qed (simp add: left_flags_def)

lemma grants_members: "fst ` set (fst (grants th ts s)) \<subseteq> set ts"
proof (induction ts arbitrary: s)
  case (Cons t ts)
  show ?case
  proof (cases "event_grant (th t) s")
    case (Some got)
    show ?thesis unfolding grants_Some[where th = th and t = t, OF Some] using Cons.IH by force
  next
    case None
    show ?thesis unfolding grants_None[where th = th and t = t, OF None] using Cons.IH by force
  qed
qed simp

lemma grants_shrink: "snd (grants th ts s) AND s = snd (grants th ts s)"
proof (induction ts arbitrary: s)
  case (Cons t ts)
  show ?case
  proof (cases "event_grant (th t) s")
    case (Some got)
    define s1 where "s1 = left_flags (th t) got s"
    have "snd (grants th ts s1) AND s = (snd (grants th ts s1) AND s1) AND s" by (simp only: Cons.IH)
    also have "\<dots> = snd (grants th ts s1) AND (s1 AND s)" by (rule and.assoc)
    also have "\<dots> = snd (grants th ts s1)" unfolding s1_def left_flags_shrink by (rule Cons.IH)
    finally show ?thesis unfolding grants_Some[where th = th and t = t, OF Some] snd_conv s1_def .
  next
    case None
    show ?thesis unfolding grants_None[where th = th and t = t, OF None] by (rule Cons.IH)
  qed
qed simp

text \<open>A waiter that gets nothing could get nothing from the flags that are left either.\<close>

lemma grants_rest:
  "t \<in> set ts \<Longrightarrow> t \<notin> fst ` set (fst (grants th ts s)) \<Longrightarrow> event_grant (th t) (snd (grants th ts s)) = None"
proof (induction ts arbitrary: s)
  case (Cons u ts)
  show ?case
  proof (cases "event_grant (th u) s")
    case None
    have "event_grant (th u) (snd (grants th ts s)) = None" using None grants_shrink by (rule event_grant_mono)
    with Cons.IH[of s] Cons.prems show ?thesis unfolding grants_None[where th = th and t = u, OF None] by (cases "t = u") simp_all
  next
    case (Some got)
    have "t \<noteq> u" "t \<in> set ts" "t \<notin> fst ` set (fst (grants th ts (left_flags (th u) got s)))"
      using Cons.prems unfolding grants_Some[where th = th and t = u, OF Some] by auto
    then show ?thesis unfolding grants_Some[where th = th and t = u, OF Some] snd_conv by (intro Cons.IH)
  qed
qed simp

lemma grants_cong: "(\<And>t. t \<in> set ts \<Longrightarrow> th t = th' t) \<Longrightarrow> grants th ts s = grants th' ts s"
proof (induction ts arbitrary: s)
  case (Cons t ts)
  have t: "th t = th' t" using Cons.prems by simp
  have "grants th ts s = grants th' ts s" for s by (rule Cons.IH) (use Cons.prems in simp)
  then have e: "grants th ts = grants th' ts" by (rule ext)
  show ?case unfolding grants.simps t e by (rule refl)
qed simp

lemma event_scan_grants:
  assumes "kinv k" "set ts \<subseteq> set (event_waiters k e)" "distinct ts"
  shows "\<exists>k'. event_scan e ts (b, k) = Some (b \<or> fst (grants (threads k) ts (ev_set (events k e))) \<noteq> [], k')
    \<and> kinv k' \<and> ev_set (events k' e) = snd (grants (threads k) ts (ev_set (events k e)))
    \<and> (\<forall>t got. (t, got) \<in> set (fst (grants (threads k) ts (ev_set (events k e)))) \<longrightarrow>
          thread_state k' t = RT_THREAD_READY \<and> th_event_set (threads k' t) = got
            \<and> th_error (threads k' t) = th_error (threads k t) \<and> ThreadTimer t \<notin> set (timer_list k'))
    \<and> (\<forall>t. t \<notin> fst ` set (fst (grants (threads k) ts (ev_set (events k e)))) \<longrightarrow> threads k' t = threads k t)
    \<and> event_waiters k' e = filter (\<lambda>t. t \<notin> fst ` set (fst (grants (threads k) ts (ev_set (events k e))))) (event_waiters k e)
    \<and> set (timer_list k') \<subseteq> set (timer_list k)
    \<and> (\<forall>x. o_type (objs k' x) = o_type (objs k x)) \<and> objs k' (ObjEvent e) = objs k (ObjEvent e)
    \<and> lock_nest k' = lock_nest k"
  using assms
proof (induction ts arbitrary: k b)
  case Nil
  then show ?case by simp
next
  case (Cons t ts)
  let ?s = "ev_set (events k e)"
  have st: "thread_state k t = RT_THREAD_SUSPEND"
    by (rule waiter_suspended[OF Cons.prems(1) wait_head_simps(1), of t "ObjEvent e"]) (use Cons.prems(2) in simp)
  show ?case
  proof (cases "event_grant (threads k t) ?s")
    case None
    from Cons.IH[OF Cons.prems(1), of b] Cons.prems(2,3) None show ?thesis by simp
  next
    case (Some got)
    define k1 where "k1 = upd_thread t (\<lambda>th. th\<lparr>th_event_set := got\<rparr>) k"
    define s1 where "s1 = left_flags (threads k t) got ?s"
    define k2 where "k2 = (if th_event_info (threads k1 t) AND RT_EVENT_FLAG_CLEAR \<noteq> 0
                    then put_event e (ev_set (events k1 e) AND NOT got) k1 else k1)"
    have k1: "kinv k1" unfolding k1_def using Cons.prems(1) by (rule kinv_thread_upd) simp_all
    have k2: "kinv k2" "ev_set (events k2 e) = s1" "threads k2 = threads k1" "tlists k2 = tlists k"
      "timer_list k2 = timer_list k" "objs k2 = objs k" "lock_nest k2 = lock_nest k"
      using k1 by (auto simp: k2_def s1_def left_flags_def k1_def)
    have st2: "thread_state k2 t = RT_THREAD_SUSPEND" using st k2(3) by (simp add: thread_state_def k1_def)
    obtain k3 where r: "rt_thread_resume t k2 = Some (RT_EOK, k3)" "kinv k3" "thread_state k3 t = RT_THREAD_READY"
      "\<And>s. s \<noteq> t \<Longrightarrow> threads k3 s = threads k2 s" "threads k3 t = (threads k2 t)\<lparr>th_stat := th_stat (threads k3 t)\<rparr>"
      "tlists k3 = list_append (Ready (th_current_priority (threads k2 t))) t (list_delete t (tlists k2))"
      "timer_list k3 = removeAll (ThreadTimer t) (timer_list k2)"
      "\<And>x. o_type (objs k3 x) = o_type (objs k2 x)" "\<And>x. x \<noteq> ObjTimer (ThreadTimer t) \<Longrightarrow> objs k3 x = objs k2 x"
      "lock_nest k3 = lock_nest k2" "events k3 = events k2"
      by (rule rt_thread_resume_suspended[OF k2(1) st2]) (rule that)
    have nts: "t \<notin> set ts" "distinct ts" using Cons.prems(3) by simp_all
    have w3: "event_waiters k3 e = removeAll t (event_waiters k e)" using r(6) k2(4) by (simp add: list_append_def)
    have sub: "set ts \<subseteq> set (event_waiters k3 e)" using w3 Cons.prems(2) nts by auto
    have thk: "threads k3 u = threads k u" if "u \<noteq> t" for u using r(4)[OF that] k2(3) that by (simp add: k1_def)
    have gc: "grants (threads k3) ts s1 = grants (threads k) ts s1"
      by (rule grants_cong, rule thk) (use nts in auto)
    have ev3: "ev_set (events k3 e) = s1" using r(11) k2(2) by simp
    have ge: "grants (threads k) (t # ts) ?s = ((t, got) # fst (grants (threads k) ts s1), snd (grants (threads k) ts s1))"
      unfolding s1_def by (rule grants_Some[where th = "threads k" and t = t, OF Some])
    define gs where "gs = fst (grants (threads k) ts s1)"
    have tgs: "t \<notin> fst ` set gs" using grants_members[of "threads k" ts s1] nts by (auto simp: gs_def)
    have run: "event_scan e (t # ts) (b, k) = event_scan e ts (True, k3)"
      using Some r(1) by (simp add: k1_def[symmetric] k2_def[symmetric] Let_def)
    have "th_event_set (threads k3 t) = got" "th_error (threads k3 t) = th_error (threads k t)"
      by (subst r(5), simp add: k2(3) k1_def)+
    note e3 = this
    from Cons.IH[OF r(2) sub nts(2), of True, unfolded ev3 gc, folded gs_def] obtain k' where
      k': "event_scan e ts (True, k3) = Some (True, k')" "kinv k'" "ev_set (events k' e) = snd (grants (threads k) ts s1)"
      "\<And>u g. (u, g) \<in> set gs \<Longrightarrow> thread_state k' u = RT_THREAD_READY \<and> th_event_set (threads k' u) = g
          \<and> th_error (threads k' u) = th_error (threads k3 u) \<and> ThreadTimer u \<notin> set (timer_list k')"
      "\<And>u. u \<notin> fst ` set gs \<Longrightarrow> threads k' u = threads k3 u"
      "event_waiters k' e = filter (\<lambda>t. t \<notin> fst ` set gs) (event_waiters k3 e)"
      "set (timer_list k') \<subseteq> set (timer_list k3)" "\<And>x. o_type (objs k' x) = o_type (objs k3 x)"
      "objs k' (ObjEvent e) = objs k3 (ObjEvent e)" "lock_nest k' = lock_nest k3" by auto
    have granted: "thread_state k' u = RT_THREAD_READY \<and> th_event_set (threads k' u) = g
            \<and> th_error (threads k' u) = th_error (threads k u) \<and> ThreadTimer u \<notin> set (timer_list k')"
      if "(u, g) \<in> set ((t, got) # gs)" for u g
    proof (cases "u = t")
      case True
      then have g: "g = got" using that tgs by force
      have "threads k' t = threads k3 t" using k'(5) tgs by simp
      moreover have "ThreadTimer t \<notin> set (timer_list k')" using k'(7) r(7) by auto
      ultimately show ?thesis using True g e3 r(3) by (simp add: thread_state_def)
    next
      case False
      with that k'(4)[of u g] thk[of u] show ?thesis by simp
    qed
    have other: "threads k' u = threads k u" if "u \<notin> fst ` set ((t, got) # gs)" for u
      using that k'(5)[of u] thk[of u] by auto
    have wl: "event_waiters k' e = filter (\<lambda>u. u \<notin> fst ` set ((t, got) # gs)) (event_waiters k e)"
      unfolding k'(6) w3 removeAll_filter_not_eq filter_filter by (rule filter_cong) auto
    have tsub: "set (timer_list k') \<subseteq> set (timer_list k)" using k'(7) r(7) k2(5) by auto
    have ots: "o_type (objs k' x) = o_type (objs k x)" for x using k'(8) r(8) k2(6) by simp
    have oe: "objs k' (ObjEvent e) = objs k (ObjEvent e)" using k'(9) r(9)[of "ObjEvent e"] k2(6) by simp
    show ?thesis unfolding run ge fst_conv snd_conv gs_def[symmetric]
      by (intro exI[of _ k'] conjI allI impI granted other wl tsub ots oe)
        (use k'(1,2,3,10) r(10) k2(7) in simp_all)
  qed
qed

lemma rt_event_send_grants:
  assumes i: "kinv k" and ei: "event_inv k e" and nz: "set_flags \<noteq> 0"
    and r: "thread_state k u = RT_THREAD_READY"
  defines "gs \<equiv> fst (grants (threads k) (event_waiters k e) (ev_set (events k e) OR set_flags))"
    and "left \<equiv> snd (grants (threads k) (event_waiters k e) (ev_set (events k e) OR set_flags))"
  shows "\<exists>k'. rt_event_send e set_flags k = Some (RT_EOK, k') \<and> kinv k' \<and> event_inv k' e
    \<and> ev_set (events k' e) = left
    \<and> (\<forall>t got. (t, got) \<in> set gs \<longrightarrow> thread_state k' t = RT_THREAD_READY
          \<and> rt_event_recv_resume t k' = (RT_EOK, Some got) \<and> ThreadTimer t \<notin> set (timer_list k'))
    \<and> (\<forall>t. t \<notin> fst ` set gs \<longrightarrow> threads k' t = threads k t)
    \<and> event_waiters k' e = filter (\<lambda>t. t \<notin> fst ` set gs) (event_waiters k e)"
proof -
  let ?k1 = "put_event e (ev_set (events k e) OR set_flags) k"
  have k1: "kinv ?k1" using i by simp
  have sub: "set (event_waiters k e) \<subseteq> set (event_waiters ?k1 e)" by simp
  have ty: "event_typed k e" and wc: "waiters_clean k (Suspended (ObjEvent e))" using ei by (simp_all add: event_inv_def)
  from event_scan_grants[OF k1 sub list_distinct[OF i], of False, unfolded put_event_sel(1) put_event_sel(2) put_event_sel(3),
      folded gs_def left_def]
  obtain k2 where k2: "event_scan e (event_waiters k e) (False, ?k1) = Some (gs \<noteq> [], k2)" "kinv k2"
    "ev_set (events k2 e) = left"
    "\<And>t got. (t, got) \<in> set gs \<Longrightarrow> thread_state k2 t = RT_THREAD_READY \<and> th_event_set (threads k2 t) = got
        \<and> th_error (threads k2 t) = th_error (threads k t) \<and> ThreadTimer t \<notin> set (timer_list k2)"
    "\<And>t. t \<notin> fst ` set gs \<Longrightarrow> threads k2 t = threads k t"
    "event_waiters k2 e = filter (\<lambda>t. t \<notin> fst ` set gs) (event_waiters k e)"
    "\<And>x. o_type (objs k2 x) = o_type (objs ?k1 x)" "objs k2 (ObjEvent e) = objs ?k1 (ObjEvent e)"
    by auto
  have nu: "u \<notin> fst ` set gs"
  proof
    assume "u \<in> fst ` set gs"
    then have "u \<in> set (event_waiters k e)" using grants_members by (force simp: gs_def)
    then show False using waiter_suspended[OF i wait_head_simps(1)] r by force
  qed
  have "thread_state k2 u = RT_THREAD_READY" using k2(5)[OF nu] r by (simp add: thread_state_def)
  from rt_schedule_some[OF kinvD(1)[OF k2(2)] this] obtain k3 where k3: "rt_schedule k2 = Some k3" by blast
  define k' where "k' = (if gs \<noteq> [] then k3 else k2)"
  have sc: "(if gs \<noteq> [] then rt_schedule k2 else Some k2) = Some k'" using k3 by (simp add: k'_def)
  have k'k: "kinv k'" using kinv_schedule[OF k3 k2(2)] k2(2) by (simp add: k'_def)
  have f: "threads k' = threads k2" "tlists k' = tlists k2" "events k' = events k2" "objs k' = objs k2"
      "timer_list k' = timer_list k2"
    using rt_schedule_frame[OF k3] by (simp_all add: k'_def)
  have "rt_event_send e set_flags k = Some (RT_EOK, k')"
    using ty nz k2(1) sc by (simp add: rt_event_send_def Let_def)
  moreover have "waiters_clean k' (Suspended (ObjEvent e))"
    using wc by (rule waiters_clean_subset) (use f(1,2) k2(5,6) in auto)
  moreover have "event_grant (threads k' t) left = None" if "t \<in> set (event_waiters k' e)" for t
  proof -
    have t: "t \<in> set (event_waiters k e)" "t \<notin> fst ` set gs" using that k2(6) f(2) by auto
    from grants_rest[OF t(1), of "threads k" "ev_set (events k e) OR set_flags"] t(2) k2(5)[OF t(2)] f(1)
    show ?thesis by (simp add: gs_def left_def)
  qed
  moreover have "event_typed k' e" using ty k2(7) f(4) by (simp add: rt_object_get_type_def)
  ultimately have inv: "event_inv k' e" using ei k2(3,8) f(3,4) by (simp add: event_inv_def)
  have res: "rt_event_recv_resume t k' = (RT_EOK, Some got)" if "(t, got) \<in> set gs" for t got
  proof -
    have "t \<in> fst ` set gs" using that by force
    then have "t \<in> set (event_waiters k e)" using grants_members by (force simp: gs_def)
    then have "th_error (threads k t) = RT_EOK" using wc by (simp add: waiters_clean_def)
    then show ?thesis using k2(4)[OF that] f(1) by (simp add: rt_event_recv_resume_def)
  qed
  show ?thesis
    using \<open>rt_event_send e set_flags k = Some (RT_EOK, k')\<close> k'k inv res k2(3,4,5,6) f
    by (intro exI[of _ k'] conjI allI impI) (simp_all add: thread_state_def)
qed

subsection \<open>Receive\<close>

text \<open>The condition of a receive, as the code tests it.\<close>

definition event_ready :: "kernel \<Rightarrow> nat \<Rightarrow> u32 \<Rightarrow> u8 \<Rightarrow> bool" where
  "event_ready k e w option \<longleftrightarrow>
     (if option AND RT_EVENT_FLAG_AND \<noteq> 0 then ev_set (events k e) AND w = w else ev_set (events k e) AND w \<noteq> 0)"

definition event_mode :: "u8 \<Rightarrow> bool" where
  "event_mode option \<longleftrightarrow> option AND RT_EVENT_FLAG_AND \<noteq> 0 \<or> option AND RT_EVENT_FLAG_OR \<noteq> 0"

lemma rt_event_recv_immediate:
  assumes i: "kinv k" and ei: "event_inv k e" and nz: "w \<noteq> 0" and md: "event_mode option" and rd: "event_ready k e w option"
    and c: "current_thread k = Some t" and r: "thread_state k t = RT_THREAD_READY" and ni: "interrupt_nest k = 0"
  obtains k' where "rt_event_recv e w option timeout k = Some (Ret (RT_EOK, Some (ev_set (events k e) AND w)), k')"
    "kinv k'" "event_inv k' e" "tlists k' = tlists k"
    "ev_set (events k' e) = (if option AND RT_EVENT_FLAG_CLEAR \<noteq> 0 then ev_set (events k e) AND NOT w else ev_set (events k e))"
proof -
  let ?c = "clear_error t k"
  let ?k = "if option AND RT_EVENT_FLAG_CLEAR \<noteq> 0 then put_event e (ev_set (events k e) AND NOT w) ?c else ?c"
  have ty: "event_typed k e" using ei by (simp add: event_inv_def)
  have "rt_event_recv e w option timeout k = Some (Ret (RT_EOK, Some (ev_set (events k e) AND w)), ?k)"
    using ty nz c ni md rd by (auto simp: rt_event_recv_def in_thread_context_def event_ready_def event_mode_def Let_def)
  moreover have "kinv ?k" using clear_error_kinv[OF i] by simp
  moreover have nt: "t \<notin> set (event_waiters k e)" using waiter_suspended[OF i wait_head_simps(1)] r by force
  have "event_grant (threads k u) (ev_set (events ?k e)) = None" if "u \<in> set (event_waiters k e)" for u
  proof (rule event_grant_mono)
    show "event_grant (threads k u) (ev_set (events k e)) = None" using ei that by (simp add: event_inv_def)
    show "ev_set (events ?k e) AND ev_set (events k e) = ev_set (events ?k e)"
      by (simp add: and.left_commute and.commute)
  qed
  then have "\<forall>u\<in>set (event_waiters ?k e). event_grant (threads ?k u) (ev_set (events ?k e)) = None"
    using nt by auto
  moreover have "waiters_clean ?k (Suspended (ObjEvent e))" "event_typed ?k e"
    using ei by (auto simp: event_inv_def waiters_clean_def rt_object_get_type_def)
  moreover have "obj_flag ?k (ObjEvent e) = obj_flag k (ObjEvent e)" by simp
  ultimately have "event_inv ?k e" using ei unfolding event_inv_def by simp
  with \<open>rt_event_recv e w option timeout k = _\<close> \<open>kinv ?k\<close> show ?thesis by (intro that[of ?k]) simp_all
qed

lemma rt_event_recv_blocks:
  assumes i: "kinv k" and ei: "event_inv k e" and nz: "w \<noteq> 0" and md: "event_mode option" and rd: "\<not> event_ready k e w option"
    and c: "current_thread k = Some t" and r: "thread_state k t = RT_THREAD_READY" and ni: "interrupt_nest k = 0"
    and b: "timeout \<noteq> 0" "timeout < 0x7FFFFFFF" and o: "thread_state k u = RT_THREAD_READY" "u \<noteq> t"
  obtains k' where "rt_event_recv e w option timeout k = Some (Wait, k')" "kinv k'" "event_inv k' e"
    "thread_state k' t = RT_THREAD_SUSPEND" "t \<in> set (event_waiters k' e)"
    "th_event_set (threads k' t) = w" "th_event_info (threads k' t) = option"
    "timeout > 0 \<Longrightarrow> ThreadTimer t \<in> set (timer_list k')" "timeout < 0 \<Longrightarrow> ThreadTimer t \<notin> set (timer_list k')"
    "lock_nest k = 0 \<Longrightarrow> \<exists>v. current_thread k' = Some v \<and> v \<noteq> t \<and> most_urgent k' v"
proof -
  let ?h = "Suspended (ObjEvent e)"
  let ?fl = "obj_flag k (ObjEvent e)"
  define k2 where "k2 = upd_thread t (\<lambda>th. th\<lparr>th_event_set := w, th_event_info := option\<rparr>) (clear_error t k)"
  have fl: "?fl = RT_IPC_FLAG_FIFO \<or> ?fl = RT_IPC_FLAG_PRIO" and ty: "event_typed k e" and wc: "waiters_clean k ?h"
    using ei by (simp_all add: event_inv_def)
  have k2: "kinv k2" unfolding k2_def by (rule kinv_thread_upd[OF clear_error_kinv[OF i]]) simp_all
  have sel: "current_thread k2 = Some t" "objs k2 = objs k" "events k2 = events k" "tlists k2 = tlists k"
    "lock_nest k2 = lock_nest k" "\<And>s. thread_state k2 s = thread_state k s" "\<And>s. s \<noteq> t \<Longrightarrow> threads k2 s = threads k s"
    "th_error (threads k2 t) = RT_EOK" "th_event_set (threads k2 t) = w" "th_event_info (threads k2 t) = option"
    using c by (simp_all add: k2_def thread_state_def)
  show ?thesis
  proof (rule block_on_waits[OF k2 sel(1) _ wait_head_simps(1), of ?fl timeout u "ObjEvent e"], goal_cases)
    case (6 k')
    note a = 6
    have t': "th_error (threads k' t) = RT_EOK" "th_event_set (threads k' t) = w" "th_event_info (threads k' t) = option"
      by (subst a(9), simp add: sel)+
    have "waiters_clean k2 ?h" using wc sel(4,7,8) unfolding waiters_clean_def by metis
    then have wck: "waiters_clean k' ?h" by (rule waiters_clean_insert[OF _ fl a(4) t'(1) a(8)])
    have mem: "set (event_waiters k' e) = insert t (set (event_waiters k e))"
      using a(4) wait_insert_props(1)[OF fl] sel(4) by simp
    have gr: "event_grant (threads k' s) (ev_set (events k' e)) = None" if "s \<in> set (event_waiters k' e)" for s
    proof (cases "s = t")
      case True
      have ev: "ev_set (events k' e) = ev_set (events k e)" using a(16) sel(3) by simp
      show ?thesis using rd md nz unfolding True event_grant_def t' ev event_ready_def event_mode_def
        by (simp add: and.commute[of w] split: if_splits)
    next
      case False
      then have "s \<in> set (event_waiters k e)" using that mem by simp
      then show ?thesis using ei a(8)[OF False] sel(3) sel(7)[of s] False a(16) by (simp add: event_inv_def)
    qed
    have "event_typed k' e" using ty a(12) sel(2) by (simp add: rt_object_get_type_def)
    then have "event_inv k' e" using ei wck gr a(13)[of "ObjEvent e"] sel(2) by (simp add: event_inv_def)
    moreover have "rt_event_recv e w option timeout k = Some (Wait, k')"
    proof -
      show ?thesis using ty nz c ni b(1) a(1) sel(2) md rd
        by (cases "option AND RT_EVENT_FLAG_AND = 0"; cases "ev_set (events k e) AND w = 0")
          (simp_all add: rt_event_recv_def in_thread_context_def Let_def k2_def[symmetric] event_ready_def event_mode_def)
    qed
    ultimately show ?case by (intro that[of k']) (use a t' mem sel in simp_all)
  qed (use r fl b o sel in simp_all)
qed

end
