(* ===== verification/Kernel_Theorems.thy ===== *)
theory Kernel_Theorems
  imports RT_Demo RT_Mutex RT_Event RT_Ticks
begin

text \<open>
  The properties of the kernel: scheduler, timers, threads, semaphores and mutexes. Each is stated
  over the definitions of its component and rests on that component's lemmas; each that has
  hypotheses is followed by a witness on the state of \<open>RT_Demo\<close>.
\<close>

subsection \<open>Scheduling\<close>

text \<open>C3. \<open>rt_schedule\<close> with the scheduler unlocked and some thread ready returns, keeps the ready-table
  invariant and makes current the thread at the front of the list of the most urgent priority that
  has a ready thread; that thread is unique.\<close>

theorem rt_schedule_most_urgent:
  assumes "ready_inv k" "thread_state k s = RT_THREAD_READY" "lock_nest k = 0"
  shows "\<exists>k' t. rt_schedule k = Some k' \<and> ready_inv k' \<and> current_thread k' = Some t \<and> most_urgent k' t
    \<and> (\<forall>u. most_urgent k' u \<longrightarrow> u = t)"
proof -
  obtain k' where k': "rt_schedule k = Some k'" using rt_schedule_some[OF assms(1,2)] by blast
  from rt_schedule_current[OF assms(1) k' assms(3)] obtain t where "current_thread k' = Some t" "most_urgent k' t" by blast
  with k' rt_schedule_inv[OF k' assms(1)] most_urgent_unique show ?thesis by blast
qed

theorem rt_schedule_most_urgent_witness:
  "\<exists>k' t. rt_schedule (demo (Suspended (ObjSem 0))) = Some k' \<and> current_thread k' = Some t \<and> most_urgent k' t"
  using rt_schedule_most_urgent[of "demo (Suspended (ObjSem 0))" 1] kinvD(1)[OF demo_kinv[of "Suspended (ObjSem 0)"]]
  by auto

subsection \<open>Semaphores\<close>

text \<open>C4. \<open>rt_sem_release\<close> with waiters hands the semaphore to the first of them: that thread becomes
  ready, leaves the waiting list, its timeout is stopped and its \<open>rt_sem_take\<close> returns \<open>RT_EOK\<close>, while the
  count stays 0 and the other threads are untouched; the kernel invariant and the semaphore invariant
  hold afterwards.\<close>

theorem rt_sem_release_hands_over:
  assumes "kinv k" "sem_inv k s" "sem_waiters k s = t # ts"
  shows "\<exists>k'. rt_sem_release s k = Some k' \<and> kinv k' \<and> sem_inv k' s \<and> sem_value (sems k' s) = 0
    \<and> sem_waiters k' s = ts \<and> thread_state k' t = RT_THREAD_READY \<and> rt_sem_take_resume t k' = RT_EOK
    \<and> ThreadTimer t \<notin> set (timer_list k') \<and> (\<forall>u. u \<noteq> t \<longrightarrow> threads k' u = threads k u)"
  by (rule rt_sem_release_wakes[OF assms]) blast

lemma demo_sem_inv: "sem_inv (demo (Suspended (ObjSem 0))) 0"
  by (simp add: sem_inv_def waiters_clean_def)

theorem rt_sem_release_hands_over_witness:
  "\<exists>k'. rt_sem_release 0 (demo (Suspended (ObjSem 0))) = Some k' \<and> thread_state k' 2 = RT_THREAD_READY"
  using rt_sem_release_hands_over[OF demo_kinv demo_sem_inv, of 2 "[]"] by auto


text \<open>C5. \<open>rt_sem_take\<close> on a semaphore with count 0 suspends the caller: it joins the waiters at the place its flag
  asks for (at the end, or behind the waiters of its priority), a bounded wait arms its timer for
  that many ticks and an unbounded one arms none, no other thread changes, and another ready
  thread, the most urgent one, runs.\<close>

theorem rt_sem_take_waits:
  assumes "kinv k" "sem_inv k s" "sem_value (sems k s) = 0" "current_thread k = Some t"
    "thread_state k t = RT_THREAD_READY" "interrupt_nest k = 0" "time \<noteq> 0" "time < 0x7FFFFFFF"
    "thread_state k u = RT_THREAD_READY" "u \<noteq> t" "lock_nest k = 0"
  shows "\<exists>k'. rt_sem_take s time k = Some (Wait, k') \<and> kinv k' \<and> sem_inv k' s \<and> thread_state k' t = RT_THREAD_SUSPEND
    \<and> sem_waiters k' s = wait_insert (obj_flag k (ObjSem s)) (\<lambda>s. th_current_priority (threads k s)) t (sem_waiters k s)
    \<and> (if time > 0 then ThreadTimer t \<in> set (timer_list k') \<and> due_in k' (ThreadTimer t) = Suc (nat time)
       else ThreadTimer t \<notin> set (timer_list k'))
    \<and> (\<forall>s. s \<noteq> t \<longrightarrow> threads k' s = threads k s)
    \<and> (\<exists>v. current_thread k' = Some v \<and> v \<noteq> t \<and> most_urgent k' v)"
  using assms(7,11) by - (rule rt_sem_take_blocks[OF assms(1-10)], auto)

theorem rt_sem_take_waits_witness:
  "\<exists>k'. rt_sem_take 0 20 (demo (Suspended (ObjSem 0))) = Some (Wait, k') \<and> sem_waiters k' 0 = [2, 1]
     \<and> due_in k' (ThreadTimer 1) = 21"
  using rt_sem_take_waits[OF demo_kinv demo_sem_inv, of 1 20 0] by (auto simp: wait_insert_def)

subsection \<open>Mutexes\<close>

text \<open>C6. A thread that blocks on a mutex lends its priority to the owner: the owner runs on with the more
  urgent of the two priorities, nobody else's priority changes, the mutex stays with its owner,
  and with the priority flag no waiter is more urgent than the owner and the waiters stay sorted.\<close>

theorem rt_mutex_take_inherits:
  assumes "kinv k" "mutex_inv k m" "mtx_owner (mutexes k m) = Some w" "w \<noteq> t" "current_thread k = Some t"
    "thread_state k t = RT_THREAD_READY" "interrupt_nest k = 0" "time \<noteq> 0" "time < 0x7FFFFFFF"
    "thread_state k u = RT_THREAD_READY" "u \<noteq> t"
    "obj_flag k (ObjMutex m) = RT_IPC_FLAG_PRIO" "inherits k m" "waiters_sorted k (Suspended (ObjMutex m))"
  shows "\<exists>k'. rt_mutex_take m time k = Some (Wait, k') \<and> kinv k' \<and> mutex_inv k' m
    \<and> thread_state k' t = RT_THREAD_SUSPEND \<and> t \<in> set (mutex_waiters k' m) \<and> mtx_owner (mutexes k' m) = Some w
    \<and> th_current_priority (threads k' w) = min (th_current_priority (threads k w)) (th_current_priority (threads k t))
    \<and> (\<forall>s. s \<noteq> w \<longrightarrow> th_current_priority (threads k' s) = th_current_priority (threads k s))
    \<and> inherits k' m \<and> waiters_sorted k' (Suspended (ObjMutex m))"
proof (rule rt_mutex_take_blocks[OF assms(1-11)], goal_cases)
  case (1 k')
  note inh = mutex_block_inherits[OF assms(2,12-14,3,4) 1(12,6,7) 1(8)]
  have "t \<in> set (mutex_waiters k' m)" using 1(6) assms(12) by (simp add: wait_insert_props)
  with 1 inh show ?case by blast
qed

lemma demo_mutex_inv: "mutex_inv (upd_mutex 0 (\<lambda>mx. mx\<lparr>mtx_owner := Some 0, mtx_original_priority := 31\<rparr>) (demo (Suspended (ObjSem 0)))) 0"
  by (simp add: mutex_inv_def waiters_clean_def RT_THREAD_PRIORITY_MAX_def)

theorem rt_mutex_take_inherits_witness:
  "\<exists>k'. rt_mutex_take 0 (- 1) (upd_mutex 0 (\<lambda>mx. mx\<lparr>mtx_owner := Some 0, mtx_original_priority := 31\<rparr>)
     (demo (Suspended (ObjSem 0)))) = Some (Wait, k') \<and> th_current_priority (threads k' 0) = 10"
  using rt_mutex_take_inherits[OF _ demo_mutex_inv, of 0 1 "- 1" 0] demo_kinv[of "Suspended (ObjSem 0)"]
  by (auto simp: inherits_def waiters_sorted_def)


text \<open>C7. The last release of a mutex with waiters makes the first waiter its owner, held once and with that
  waiter's own priority on record; the waiter is ready and its \<open>rt_mutex_take\<close> returns \<open>RT_EOK\<close>. The former
  owner is back at the priority it had when it took the mutex, and the most urgent ready thread runs.\<close>

theorem rt_mutex_release_passes_on:
  assumes "kinv k" "mutex_inv k m" "mtx_owner (mutexes k m) = Some t" "mtx_hold (mutexes k m) = 1"
    "current_thread k = Some t" "interrupt_nest k = 0" "mutex_waiters k m = v # vs" "lock_nest k = 0"
  shows "\<exists>k'. rt_mutex_release m k = Some (RT_EOK, k') \<and> kinv k' \<and> mutex_inv k' m
    \<and> mtx_owner (mutexes k' m) = Some v \<and> mtx_hold (mutexes k' m) = 1 \<and> mutex_waiters k' m = vs
    \<and> mtx_original_priority (mutexes k' m) = th_current_priority (threads k v)
    \<and> thread_state k' v = RT_THREAD_READY \<and> rt_mutex_take_resume m time v k' = Some (Ret RT_EOK, k')
    \<and> th_current_priority (threads k' t) = mtx_original_priority (mutexes k m)
    \<and> (\<exists>u. current_thread k' = Some u \<and> most_urgent k' u)"
  using assms(8) by - (rule rt_mutex_release_hands_over[OF assms(1-7)], blast)

lemma demo_held_inv: "mutex_inv (demo (Suspended (ObjMutex 0))) 0"
  by (simp add: mutex_inv_def waiters_clean_def RT_THREAD_PRIORITY_MAX_def)

theorem rt_mutex_release_passes_on_witness:
  "\<exists>k'. rt_mutex_release 0 (demo (Suspended (ObjMutex 0))) = Some (RT_EOK, k') \<and> mtx_owner (mutexes k' 0) = Some 2"
  using rt_mutex_release_passes_on[OF demo_kinv demo_held_inv, of 1 2 "[]" 0] by auto

text \<open>Mutual exclusion: while one thread owns a mutex, another thread's \<open>rt_mutex_take\<close> does not return
  \<open>RT_EOK\<close> at once, and its \<open>rt_mutex_release\<close> is refused with \<open>-RT_ERROR\<close>; neither call changes the mutex.\<close>

theorem rt_mutex_excludes:
  assumes "mutex_inv k m" "mtx_owner (mutexes k m) = Some w" "current_thread k = Some t" "t \<noteq> w"
  shows "(\<forall>r k1. rt_mutex_take m time k = Some (r, k1) \<longrightarrow> r = Wait \<or> time = 0 \<and> r = Ret (- RT_ETIMEOUT) \<and> mutexes k1 = mutexes k)
    \<and> (\<forall>e k2. rt_mutex_release m k = Some (e, k2) \<longrightarrow> e = - RT_ERROR \<and> mutexes k2 = mutexes k)"
proof (intro conjI allI impI)
  have v: "mtx_value (mutexes k m) = 0" using assms(1,2) by (simp add: mutex_inv_def)
  fix r k1 assume "rt_mutex_take m time k = Some (r, k1)"
  with v assms(2-) show "r = Wait \<or> time = 0 \<and> r = Ret (- RT_ETIMEOUT) \<and> mutexes k1 = mutexes k"
    by (auto simp: rt_mutex_take_def mutex_contend_def upd_thread_def Let_def split: if_splits bind_splits)
next
  fix e k2 assume "rt_mutex_release m k = Some (e, k2)"
  with assms(2-) show "e = - RT_ERROR" "mutexes k2 = mutexes k"
    by (auto simp: rt_mutex_release_def upd_thread_def split: if_splits bind_splits)
qed

theorem rt_mutex_excludes_witness:
  "\<not> (\<exists>k1. rt_mutex_take 0 0 (upd_mutex 0 (\<lambda>mx. mx\<lparr>mtx_owner := Some 0, mtx_original_priority := 31\<rparr>)
        (demo (Suspended (ObjSem 0)))) = Some (Ret RT_EOK, k1))
   \<and> \<not> (\<exists>k2. rt_mutex_release 0 (upd_mutex 0 (\<lambda>mx. mx\<lparr>mtx_owner := Some 0, mtx_original_priority := 31\<rparr>)
        (demo (Suspended (ObjSem 0)))) = Some (RT_EOK, k2))"
  using rt_mutex_excludes[OF demo_mutex_inv, of 0 1 0] by fastforce


subsection \<open>Time\<close>

text \<open>C8. \<open>rt_thread_sleep\<close> for \<open>tmo > 0\<close> ticks returns after exactly \<open>tmo\<close> clock interrupts: through the first
  \<open>tmo - 1\<close> of them the thread stays suspended, the \<open>tmo\<close>-th one makes it ready, the call returns
  \<open>RT_EOK\<close> and the time-out mark is cleared. (No other kernel call comes in between and the running timers are
  those of waiting threads.)\<close>

theorem rt_thread_sleep_wakes:
  assumes "ticking k" "current_thread k = Some t" "0 < tmo" "tmo < RT_TICK_HALF"
    "thread_state k u = RT_THREAD_READY" "u \<noteq> t" "\<not> periodic k (ThreadTimer t)"
  shows "\<exists>k'. rt_thread_sleep tmo k = Some k'
    \<and> (\<forall>j<unat tmo. \<exists>k2. run_ticks app j k' = Some k2 \<and> thread_state k2 t = RT_THREAD_SUSPEND)
    \<and> (\<exists>k2. run_ticks app (unat tmo) k' = Some k2 \<and> ticking k2 \<and> thread_state k2 t = RT_THREAD_READY
         \<and> fst (rt_thread_sleep_resume t k2) = RT_EOK
         \<and> th_error (threads (snd (rt_thread_sleep_resume t k2)) t) = RT_EOK)"
proof -
  obtain n where n: "unat tmo = Suc n" using assms(3) by (metis gr0_implies_Suc unat_gt_0 word_gt_0)
  from sleep_waits[OF assms(1,2,4-7)] obtain k' where k': "rt_thread_sleep tmo k = Some k'" "ticking k'" "waiting k' t (Suc n)"
    unfolding n by metis
  note w = run_ticks_wakes[OF k'(2,3), of app]
  then obtain k2 where k2: "run_ticks app (Suc n) k' = Some k2" "ticking k2" "thread_state k2 t = RT_THREAD_READY"
    "th_error (threads k2 t) = - RT_ETIMEOUT" by blast
  then have "fst (rt_thread_sleep_resume t k2) = RT_EOK" "th_error (threads (snd (rt_thread_sleep_resume t k2)) t) = RT_EOK"
    by (simp_all add: rt_thread_sleep_resume_def)
  with w k'(1) k2 show ?thesis unfolding n less_Suc_eq_le by blast
qed

lemma demo_ticking:
  assumes "wait_head h"
  shows "ticking (demo h)"
proof -
  have "most_urgent (demo h) 1"
    using assms by (auto simp: most_urgent_def simp del: One_nat_def)
  then show ?thesis using assms
    by (simp add: ticking_def demo_kinv timers_ok_def on_time_def waits_only_def settled_def)
qed

theorem rt_thread_sleep_wakes_witness:
  "\<exists>k' k2. rt_thread_sleep 3 (demo (Suspended (ObjSem 0))) = Some k' \<and> run_ticks (\<lambda>f p k. None) 3 k' = Some k2
     \<and> thread_state k2 1 = RT_THREAD_READY"
  using rt_thread_sleep_wakes[OF demo_ticking[of "Suspended (ObjSem 0)"], of 1 3 0 "\<lambda>f p k. None"]
  by (auto simp: periodic_def)

text \<open>C9. The clock interrupt handler returns whatever timers are due, periodic ones included: \<open>rt_tick_increase\<close>
  ends with the kernel invariant kept, the tick advanced by one and no running timer overdue, when the
  application's timeout functions keep the invariant and start no timer.\<close>

theorem rt_tick_increase_ends:
  assumes "kinv k" "timers_ok k" "app_ok app" "on_time k" "current_thread k = Some t" "thread_state k t = RT_THREAD_READY"
  shows "\<exists>k'. rt_tick_increase app k = Some k' \<and> kinv k' \<and> timers_ok k' \<and> tick k' = tick k + 1
    \<and> (\<forall>i\<in>set (timer_list k'). 2 \<le> due_in k' i)"
  by (rule rt_tick_increase_returns[OF assms]) blast

definition demo_periodic :: kernel where
  "demo_periodic = (demo (Suspended (ObjSem 0)))\<lparr>timer_list := [AppTimer 0],
     objs := (\<lambda>r. \<lparr>o_name = ''obj'', o_type = demo_type r, o_flag = (if r = ObjTimer (AppTimer 0) then 3 else 0)\<rparr>),
     timers := (timers (demo (Suspended (ObjSem 0))))(AppTimer 0 := \<lparr>tm_func = AppTimeout 0 0, tm_init_tick = 5, tm_timeout_tick = 101\<rparr>)\<rparr>"

lemma demo_periodic_kinv: "kinv demo_periodic"
proof -
  let ?d = "demo (Suspended (ObjSem 0))"
  have d: "kinv ?d" by (simp add: demo_kinv)
  have "ready_inv demo_periodic" using kinvD(1)[OF d] by (rule ready_inv_frame) (simp_all add: demo_periodic_def)
  moreover have "timer_inv demo_periodic"
    by (simp add: timer_inv_def demo_periodic_def due_in_def rt_object_get_type_def)
  moreover have "threads_inv demo_periodic"
    using kinvD(3)[OF d] by (auto simp: threads_inv_def live_def demo_periodic_def thread_state_def rt_object_get_type_def)
  ultimately show ?thesis by (simp add: kinv_def)
qed

theorem rt_tick_increase_ends_witness:
  "\<exists>k'. rt_tick_increase (\<lambda>f p k. Some k) demo_periodic = Some k' \<and> tick k' = 101 \<and> kinv k'"
proof -
  have "timers_ok demo_periodic" "on_time demo_periodic" "app_ok (\<lambda>f p k. Some k)"
    by (simp_all add: timers_ok_def demo_periodic_def on_time_def due_in_def app_ok_def)
  moreover have "current_thread demo_periodic = Some 1" "thread_state demo_periodic 1 = RT_THREAD_READY"
    "tick demo_periodic = 100"
    using demo_state[of "Suspended (ObjSem 0)" 1] by (simp_all add: demo_periodic_def thread_state_def)
  ultimately show ?thesis using rt_tick_increase_ends[OF demo_periodic_kinv, of "\<lambda>f p k. Some k" 1] by auto
qed

end
