(* ===== verification/System_Theorems.thy ===== *)
theory System_Theorems
  imports RT_System Kernel_Theorems
begin

text \<open>
  The properties of the kernel at work: what holds after any sequence of calls and clock interrupts, and that
  such a sequence never gets stuck in the kernel.
\<close>

text \<open>C1. Whatever the threads call in whatever order, and whenever the clock interrupts them: in every state that is
  reached, the one most urgent ready thread runs, no semaphore that is available has a waiter, every waiter is
  suspended, waits in one list only and has no error recorded, and no wait that runs is overdue.\<close>

theorem system_invariant:
  assumes "sys_ok idle k0" "sys_reach idle app k0 k"
  shows "(\<exists>c. current_thread k = Some c \<and> most_urgent k c \<and> (\<forall>u. most_urgent k u \<longrightarrow> u = c))
    \<and> (\<forall>s. sem_typed k s \<longrightarrow> 0 < sem_value (sems k s) \<longrightarrow> sem_waiters k s = [])
    \<and> (\<forall>s t. sem_typed k s \<longrightarrow> t \<in> set (sem_waiters k s) \<longrightarrow> thread_state k t = RT_THREAD_SUSPEND
          \<and> th_error (threads k t) = RT_EOK \<and> (\<forall>r. r \<noteq> s \<longrightarrow> t \<notin> set (sem_waiters k r)))
    \<and> (\<forall>i\<in>set (timer_list k). 1 \<le> due_in k i)"
proof -
  have ok: "sys_ok idle k" by (rule sys_reach_ok[OF assms(2,1)])
  note i = sys_okD(2)[OF ok]
  have "\<exists>c. current_thread k = Some c \<and> most_urgent k c \<and> (\<forall>u. most_urgent k u \<longrightarrow> u = c)"
    using sys_okD(3)[OF ok] most_urgent_unique by (auto simp: settled_def)
  moreover have "sem_waiters k s = []" if "sem_typed k s" "0 < sem_value (sems k s)" for s
    using sys_okD(7)[OF ok that(1)] that(2) by (auto simp: sem_inv_def)
  moreover have "thread_state k t = RT_THREAD_SUSPEND \<and> th_error (threads k t) = RT_EOK \<and> (\<forall>r. r \<noteq> s \<longrightarrow> t \<notin> set (sem_waiters k r))"
    if "sem_typed k s" "t \<in> set (sem_waiters k s)" for s t
    using waiter_suspended[OF i wait_head_simps(1) that(2)] sys_okD(7)[OF ok that(1)] that(2) ready_invD(1)[OF kinvD(1)[OF i]]
    by (auto simp: sem_inv_def waiters_clean_def disjoint_lists_def)
  moreover have "\<forall>i\<in>set (timer_list k). 1 \<le> due_in k i" using sys_okD(1)[OF ok] by (simp add: ticking_def on_time_def)
  ultimately show ?thesis by blast
qed

lemma demo_sys_ok: "sys_ok 0 (demo (Suspended (ObjSem 0)))"
proof -
  have "sem_inv (demo (Suspended (ObjSem 0))) s" for s by (simp add: sem_inv_def waiters_clean_def)
  moreover have "interrupt_nest (demo (Suspended (ObjSem 0))) = 0" by simp
  ultimately show ?thesis
    using demo_ticking[of "Suspended (ObjSem 0)"] by (simp add: sys_ok_def periodic_def)
qed

theorem system_invariant_witness:
  "\<exists>k. sys_step 0 (\<lambda>f p k. None) Interrupt (demo (Suspended (ObjSem 0))) k
     \<and> (\<exists>c. current_thread k = Some c \<and> most_urgent k c \<and> (\<forall>u. most_urgent k u \<longrightarrow> u = c))"
proof -
  obtain k where k: "sys_step 0 (\<lambda>f p k. None) Interrupt (demo (Suspended (ObjSem 0))) k"
    using sys_step_returns[OF demo_sys_ok, of Interrupt "\<lambda>f p k. None"] by auto
  then have "sys_reach 0 (\<lambda>f p k. None) (demo (Suspended (ObjSem 0))) k" by (rule sys_reach.step[OF sys_reach.start])
  with system_invariant[OF demo_sys_ok this] k show ?thesis by blast
qed

text \<open>C2. In every state that is reached, every call that is allowed, and the clock interrupt, returns: no
  assertion of the kernel fails, no list or timer it takes is missing, and the loop over the due timers ends. A thread
  that waits has handed the processor to another.\<close>

theorem system_progress:
  assumes "sys_ok idle k0" "sys_reach idle app k0 k" "sys_allowed idle e k"
  shows "\<exists>k'. sys_step idle app e k k' \<and> sys_reach idle app k0 k'
    \<and> (\<forall>t. current_thread k = Some t \<longrightarrow> thread_state k' t \<noteq> RT_THREAD_READY \<longrightarrow> current_thread k' \<noteq> Some t)"
proof -
  from sys_step_returns[OF sys_reach_ok[OF assms(2,1)] assms(3)] obtain k' where
    k': "sys_step idle app e k k'" "sys_ok idle k'" by blast
  obtain c where "current_thread k' = Some c" "thread_state k' c = RT_THREAD_READY" by (rule sys_ok_running[OF k'(2)])
  then have "\<forall>t. current_thread k' = Some t \<longrightarrow> thread_state k' t = RT_THREAD_READY" by simp
  with k'(1) sys_reach.step[OF assms(2) k'(1)] show ?thesis by blast
qed

theorem system_progress_witness:
  "\<exists>k'. sys_step 0 (\<lambda>f p k. None) (Take 0 5) (demo (Suspended (ObjSem 0))) k'
     \<and> (thread_state k' 1 \<noteq> RT_THREAD_READY \<longrightarrow> current_thread k' \<noteq> Some 1)"
  using system_progress[OF demo_sys_ok sys_reach.start, of "Take 0 5" "\<lambda>f p k. None"] by auto

subsection \<open>The lists and the bitmap underneath\<close>

text \<open>C10. The pointer operations on the kernel's lists do what the lists of the model do. Over a heap that holds a family of
  lists, each node on at most one of them and linked to itself otherwise: inserting before the head appends, inserting after
  the head prepends, inserting before a member puts the node in front of it, removing takes the node off the list it
  is on, the test for emptiness and the count are right, and every other list is unchanged.\<close>

theorem kernel_lists_refine:
  assumes "lists_of h L"
  shows "(on_none L n \<longrightarrow> lists_of (rt_list_insert_before (Head l) (Node n) h) (L(l := L l @ [n]))
        \<and> lists_of (rt_list_insert_after (Head l) (Node n) h) (L(l := n # L l))
        \<and> (\<forall>xs a ys. L l = xs @ a # ys \<longrightarrow> lists_of (rt_list_insert_before (Node a) (Node n) h) (L(l := xs @ n # a # ys))))
    \<and> lists_of (rt_list_remove (Node n) h) (\<lambda>l. removeAll n (L l))
    \<and> (rt_list_isempty (Head l) h \<longleftrightarrow> L l = []) \<and> rt_list_len (Head l) h = Some (length (L l))"
proof -
  have "rt_list_len (Head l) h = Some (length (L l))" using rt_list_len_ring[OF lists_of_ring[OF assms, of l]] by simp
  then show ?thesis
    using insert_before_refines[OF assms, of n l] insert_after_refines[OF assms, of n l] insert_before_node_refines[OF assms, of n l]
      remove_refines[OF assms, of n] isempty_refines[OF assms, of l]
    by (simp add: list_append_def list_prepend_def list_delete_def)
qed

definition empty_heap :: "(nat, nat) lnode list_heap" where
  "empty_heap = \<lparr>lnext = id, lprev = id\<rparr>"

theorem kernel_lists_refine_witness:
  "lists_of (rt_list_insert_before (Head 0) (Node 7) empty_heap) ((\<lambda>_. [])(0 := [7]))"
proof -
  have "lists_of empty_heap (\<lambda>_. [])" by (simp add: lists_of_def disjoint_lists_def ring_singleton empty_heap_def)
  from kernel_lists_refine[OF this, of 7 0] show ?thesis by (simp add: on_none_def)
qed

text \<open>C11. \<open>__rt_ffs\<close>, which finds the most urgent ready priority with a table of the bytes, computes the position of the
  lowest bit that is set, counted from 1, and 0 when no bit is.\<close>

theorem rt_ffs_is_lowest_bit:
  "rt_ffs v = (if v = 0 then 0 else (LEAST j. bit v j) + 1)"
proof (cases "v = 0")
  case False
  then have "lowest_bit v (rt_ffs v - 1)" "1 \<le> rt_ffs v" using rt_ffs_lowest_bit by blast+
  then have "(LEAST j. bit v j) = rt_ffs v - 1"
    by (intro Least_equality) (auto simp: lowest_bit_def not_less[symmetric])
  with False \<open>1 \<le> rt_ffs v\<close> show ?thesis by simp
qed simp

end
