(* ===== verification/RT_Fifo.thy ===== *)
theory RT_Fifo
  imports RT_Prelude
begin

text \<open>
  The contract the program's bounded queues share: mailboxes and message queues of the kernel, the
  byte ring buffer of the device drivers and the circular queue of the application. A provider
  interprets \<open>bounded_fifo\<close> with its own put, get and tests; what a client may conclude, for any
  sequence of calls, is proved once here.
\<close>

datatype 'a fifo_op = Put 'a | Get

text \<open>A run of calls as a client makes them: a put is tried only when the queue is not full, a get only
  when it is not empty. The result is what was accepted, what was delivered, and the queue.\<close>

fun run_fifo :: "('a \<Rightarrow> 'q \<Rightarrow> 'q) \<Rightarrow> ('q \<Rightarrow> 'a \<times> 'q) \<Rightarrow> ('q \<Rightarrow> bool) \<Rightarrow> ('q \<Rightarrow> bool) \<Rightarrow>
    'a fifo_op list \<Rightarrow> 'q \<Rightarrow> 'a list \<times> 'a list \<times> 'q" where
  "run_fifo put get is_full is_empty [] q = ([], [], q)"
| "run_fifo put get is_full is_empty (Put x # ops) q =
     (if is_full q then run_fifo put get is_full is_empty ops q
      else let (acc, outs, q') = run_fifo put get is_full is_empty ops (put x q) in (x # acc, outs, q'))"
| "run_fifo put get is_full is_empty (Get # ops) q =
     (if is_empty q then run_fifo put get is_full is_empty ops q
      else let (x, q1) = get q; (acc, outs, q') = run_fifo put get is_full is_empty ops q1 in (acc, x # outs, q'))"

locale bounded_fifo =
  fixes inv :: "'q \<Rightarrow> bool"
    and items :: "'q \<Rightarrow> 'a list"
    and cap :: "'q \<Rightarrow> nat"
    and put :: "'a \<Rightarrow> 'q \<Rightarrow> 'q"
    and get :: "'q \<Rightarrow> 'a \<times> 'q"
    and is_full :: "'q \<Rightarrow> bool"
    and is_empty :: "'q \<Rightarrow> bool"
  assumes full_iff: "inv q \<Longrightarrow> is_full q \<longleftrightarrow> length (items q) = cap q"
    and empty_iff: "inv q \<Longrightarrow> is_empty q \<longleftrightarrow> items q = []"
    and within: "inv q \<Longrightarrow> length (items q) \<le> cap q"
    and put_law: "inv q \<Longrightarrow> \<not> is_full q \<Longrightarrow> inv (put x q) \<and> items (put x q) = items q @ [x] \<and> cap (put x q) = cap q"
    and get_law: "inv q \<Longrightarrow> \<not> is_empty q \<Longrightarrow> inv (snd (get q)) \<and> items q = fst (get q) # items (snd (get q))
        \<and> cap (snd (get q)) = cap q"
begin

lemma run_order:
  "inv q \<Longrightarrow> run_fifo put get is_full is_empty ops q = (acc, outs, q') \<Longrightarrow>
   items q @ acc = outs @ items q' \<and> inv q' \<and> cap q' = cap q"
proof (induction ops arbitrary: q acc outs)
  case (Cons op ops)
  show ?case
  proof (cases op)
    case (Put x)
    show ?thesis
    proof (cases "is_full q")
      case True
      with Cons Put show ?thesis by simp
    next
      case False
      obtain a where a: "run_fifo put get is_full is_empty ops (put x q) = (a, outs, q')" "acc = x # a"
        using Cons.prems(2) Put False by (auto simp: Let_def split: prod.splits)
      note l = put_law[OF Cons.prems(1) False, of x]
      with Cons.IH[of "put x q" a outs] a show ?thesis by simp
    qed
  next
    case Get
    show ?thesis
    proof (cases "is_empty q")
      case True
      with Cons Get show ?thesis by simp
    next
      case False
      obtain o' where o: "run_fifo put get is_full is_empty ops (snd (get q)) = (acc, o', q')" "outs = fst (get q) # o'"
        using Cons.prems(2) Get False by (auto simp: Let_def split: prod.splits)
      note l = get_law[OF Cons.prems(1) False]
      with Cons.IH[of "snd (get q)" acc o'] o show ?thesis by simp
    qed
  qed
qed simp

text \<open>The queue never holds more than its capacity, and a queue that starts empty delivers a prefix of
  what it accepted.\<close>

lemma run_within:
  "inv q \<Longrightarrow> run_fifo put get is_full is_empty ops q = (acc, outs, q') \<Longrightarrow> length (items q') \<le> cap q"
  using run_order within by metis

lemma run_prefix:
  assumes "inv q" "is_empty q" "run_fifo put get is_full is_empty ops q = (acc, outs, q')"
  shows "outs = take (length outs) acc \<and> items q' = drop (length outs) acc"
proof -
  have "acc = outs @ items q'" using run_order[OF assms(1,3)] empty_iff[OF assms(1)] assms(2) by simp
  then show ?thesis by simp
qed

end

subsection \<open>A window of a ring\<close>

text \<open>The \<open>e\<close> elements of an array of \<open>n\<close> from position \<open>a\<close> on, going round: what a ring-buffered queue
  holds.\<close>

definition ring_window :: "'a list \<Rightarrow> nat \<Rightarrow> nat \<Rightarrow> nat \<Rightarrow> 'a list" where
  "ring_window pool n a e = map (\<lambda>i. pool ! ((a + i) mod n)) [0..<e]"

lemma length_ring_window [simp]: "length (ring_window pool n a e) = e"
  by (simp add: ring_window_def)

lemma ring_window_put:
  assumes "e < n" "length pool = n"
  shows "ring_window (pool[(a + e) mod n := v]) n a (Suc e) = ring_window pool n a e @ [v]"
proof -
  have "(pool[(a + e) mod n := v]) ! ((a + i) mod n) = pool ! ((a + i) mod n)" if "i < e" for i
    using mod_add_ne[OF that assms(1), of a] by (simp add: nth_list_update_neq)
  then have "map (\<lambda>i. (pool[(a + e) mod n := v]) ! ((a + i) mod n)) [0..<e] = ring_window pool n a e"
    by (simp add: ring_window_def)
  moreover have "(a + e) mod n < length pool" using assms by simp
  ultimately show ?thesis by (simp add: ring_window_def)
qed

lemma ring_window_get:
  assumes "0 < e"
  shows "ring_window pool n a e = pool ! (a mod n) # ring_window pool n ((a + 1) mod n) (e - 1)"
proof (rule nth_equalityI)
  show "length (ring_window pool n a e) = length (pool ! (a mod n) # ring_window pool n ((a + 1) mod n) (e - 1))"
    using assms by simp
  fix i assume i: "i < length (ring_window pool n a e)"
  show "ring_window pool n a e ! i = (pool ! (a mod n) # ring_window pool n ((a + 1) mod n) (e - 1)) ! i"
  proof (cases i)
    case (Suc j)
    then have "j < e - 1" using i by simp
    moreover have "((a + 1) mod n + j) mod n = (a + Suc j) mod n" by (simp add: mod_add_left_eq)
    ultimately show ?thesis using i Suc by (simp add: ring_window_def)
  qed (use assms in \<open>simp add: ring_window_def\<close>)
qed

lemma ring_window_shift: "ring_window pool n (a mod n) e = ring_window pool n a e"
  by (simp add: ring_window_def mod_add_left_eq)

end
