(* ===== verification/RT_Mailbox.thy ===== *)
theory RT_Mailbox
  imports RT_Sem RT_Fifo
begin

text \<open>
  The mailboxes of \<open>src/ipc.c\<close>: a ring of 32-bit mails with 16-bit offsets, a list of threads waiting
  for mail and a second one of threads waiting for room. \<open>rt_mb_send_wait\<close> and \<open>rt_mb_recv\<close> loop until there is room
  or mail; \<open>mb_send_round\<close> and \<open>mb_recv_round\<close> are the loop from its test on, entered by the call and,
  after each wait, by the resumed call.
\<close>

subsection \<open>The ring\<close>

definition mb_advance :: "u16 \<Rightarrow> u16 \<Rightarrow> u16" where
  "mb_advance sz off = (if off + 1 \<ge> sz then 0 else off + 1)"

definition mb_put :: "u32 \<Rightarrow> rt_mailbox \<Rightarrow> rt_mailbox" where
  "mb_put v mb = mb\<lparr>mb_pool := (mb_pool mb)[unat (mb_in_offset mb) := v],
     mb_in_offset := mb_advance (mb_size mb) (mb_in_offset mb), mb_entry := mb_entry mb + 1\<rparr>"

definition mb_get :: "rt_mailbox \<Rightarrow> u32 \<times> rt_mailbox" where
  "mb_get mb = (mb_pool mb ! unat (mb_out_offset mb),
     mb\<lparr>mb_out_offset := mb_advance (mb_size mb) (mb_out_offset mb), mb_entry := mb_entry mb - 1\<rparr>)"

definition mb_full :: "rt_mailbox \<Rightarrow> bool" where
  "mb_full mb \<longleftrightarrow> mb_entry mb = mb_size mb"

definition mb_empty :: "rt_mailbox \<Rightarrow> bool" where
  "mb_empty mb \<longleftrightarrow> mb_entry mb = 0"

definition mb_ok :: "rt_mailbox \<Rightarrow> bool" where
  "mb_ok mb \<longleftrightarrow> mb_size mb \<noteq> 0 \<and> length (mb_pool mb) = unat (mb_size mb)
     \<and> mb_entry mb \<le> mb_size mb \<and> mb_out_offset mb < mb_size mb
     \<and> unat (mb_in_offset mb) = (unat (mb_out_offset mb) + unat (mb_entry mb)) mod unat (mb_size mb)"

text \<open>The mails in the box, the oldest first.\<close>

definition mails :: "rt_mailbox \<Rightarrow> u32 list" where
  "mails mb = ring_window (mb_pool mb) (unat (mb_size mb)) (unat (mb_out_offset mb)) (unat (mb_entry mb))"

definition mb_cap :: "rt_mailbox \<Rightarrow> nat" where
  "mb_cap mb = unat (mb_size mb)"

lemma length_mails [simp]: "length (mails mb) = unat (mb_entry mb)"
  by (simp add: mails_def)

lemma advance_mod:
  assumes "off < sz"
  shows "unat (mb_advance sz off) = (unat off + 1) mod unat sz" "mb_advance sz off < sz"
proof -
  have s: "unat (off + 1) = unat off + 1" using unat_Suc_less[OF assms] by simp
  have lt: "unat off < unat sz" using assms by (simp add: word_less_nat_alt)
  show "unat (mb_advance sz off) = (unat off + 1) mod unat sz"
  proof (cases "off + 1 \<ge> sz")
    case True
    then have "unat off + 1 = unat sz" using s lt by (simp add: word_le_nat_alt)
    with True show ?thesis by (simp add: mb_advance_def)
  next
    case False
    then have "unat off + 1 < unat sz" using s by (simp add: word_le_nat_alt)
    with False s show ?thesis by (simp add: mb_advance_def)
  qed
  show "mb_advance sz off < sz"
    using assms by (auto simp: mb_advance_def not_le word_less_nat_alt)
qed

lemma mb_put_ok:
  assumes ok: "mb_ok mb" and nf: "\<not> mb_full mb"
  shows "mb_ok (mb_put v mb)" "mails (mb_put v mb) = mails mb @ [v]" "mb_size (mb_put v mb) = mb_size mb"
proof -
  define n where "n = unat (mb_size mb)"
  define e where "e = unat (mb_entry mb)"
  define a where "a = unat (mb_out_offset mb)"
  have lt: "e < n" using ok nf by (auto simp: mb_ok_def mb_full_def e_def n_def word_le_nat_alt word_unat_eq_iff le_less)
  have i: "unat (mb_in_offset mb) = (a + e) mod n" using ok by (simp add: mb_ok_def a_def e_def n_def)
  then have il: "mb_in_offset mb < mb_size mb" using lt by (simp add: word_less_nat_alt n_def)
  have e1: "unat (mb_entry mb + 1) = e + 1"
    using lt unat_Suc_less[of "mb_entry mb" "mb_size mb"] by (simp add: word_less_nat_alt e_def n_def)
  show "mb_size (mb_put v mb) = mb_size mb" by (simp add: mb_put_def)
  have "unat (mb_advance (mb_size mb) (mb_in_offset mb)) = (a + (e + 1)) mod n"
    using advance_mod(1)[OF il] i by (simp add: n_def mod_simps)
  then show "mb_ok (mb_put v mb)"
    using ok lt e1 by (simp add: mb_ok_def mb_put_def word_le_nat_alt a_def e_def n_def)
  show "mails (mb_put v mb) = mails mb @ [v]"
    using e1 i ring_window_put[OF lt, of "mb_pool mb" a v] ok
    by (simp add: mails_def mb_put_def mb_ok_def a_def[symmetric] n_def[symmetric] e_def[symmetric])
qed

lemma mb_get_ok:
  assumes ok: "mb_ok mb" and ne: "\<not> mb_empty mb"
  shows "mb_ok (snd (mb_get mb))" "mails mb = fst (mb_get mb) # mails (snd (mb_get mb))"
    "mb_size (snd (mb_get mb)) = mb_size mb"
proof -
  define n where "n = unat (mb_size mb)"
  define e where "e = unat (mb_entry mb)"
  define a where "a = unat (mb_out_offset mb)"
  have al: "mb_out_offset mb < mb_size mb" using ok by (simp add: mb_ok_def)
  have ep: "0 < e" using ne by (simp add: mb_empty_def e_def unat_gt_0)
  have en: "e \<le> n" using ok by (simp add: mb_ok_def word_le_nat_alt e_def n_def)
  have e1: "unat (mb_entry mb - 1) = e - 1" using ne by (simp add: mb_empty_def e_def unat_minus_one)
  have a1: "unat (mb_advance (mb_size mb) (mb_out_offset mb)) = (a + 1) mod n"
    using advance_mod(1)[OF al] by (simp add: a_def n_def)
  have an: "a < n" using al by (simp add: a_def n_def word_less_nat_alt)
  show "mb_size (snd (mb_get mb)) = mb_size mb" by (simp add: mb_get_def)
  have "((a + 1) mod n + (e - 1)) mod n = (a + e) mod n" using ep by (rule mod_step_back)
  moreover have "mb_entry mb - 1 \<le> mb_size mb" using e1 en by (simp add: word_le_nat_alt n_def)
  ultimately show "mb_ok (snd (mb_get mb))"
    using ok advance_mod(2)[OF al] a1 e1 by (simp add: mb_ok_def mb_get_def a_def e_def n_def)
  show "mails mb = fst (mb_get mb) # mails (snd (mb_get mb))"
    using ring_window_get[OF ep, of "mb_pool mb" n a] an a1 e1
    by (simp add: mails_def mb_get_def a_def[symmetric] n_def[symmetric] e_def[symmetric])
qed

interpretation mbq: bounded_fifo mb_ok mails mb_cap mb_put mb_get mb_full mb_empty
proof unfold_locales
  fix mb assume ok: "mb_ok mb"
  show "mb_full mb \<longleftrightarrow> length (mails mb) = mb_cap mb" by (simp add: mb_full_def mb_cap_def word_unat_eq_iff)
  show "mb_empty mb \<longleftrightarrow> mails mb = []" unfolding mb_empty_def length_0_conv[symmetric] by (simp add: unat_eq_0)
  show "length (mails mb) \<le> mb_cap mb" using ok by (simp add: mb_ok_def mb_cap_def word_le_nat_alt)
next
  fix mb x assume "mb_ok mb" "\<not> mb_full mb"
  from mb_put_ok[OF this] show "mb_ok (mb_put x mb) \<and> mails (mb_put x mb) = mails mb @ [x] \<and> mb_cap (mb_put x mb) = mb_cap mb"
    by (simp add: mb_cap_def)
next
  fix mb assume "mb_ok mb" "\<not> mb_empty mb"
  from mb_get_ok[OF this] show "mb_ok (snd (mb_get mb)) \<and> mails mb = fst (mb_get mb) # mails (snd (mb_get mb))
      \<and> mb_cap (snd (mb_get mb)) = mb_cap mb"
    by (simp add: mb_cap_def)
qed

subsection \<open>Operations\<close>

abbreviation mb_typed :: "kernel \<Rightarrow> nat \<Rightarrow> bool" where
  "mb_typed k m \<equiv> rt_object_get_type (ObjMb m) k = RT_Object_Class_MailBox"

definition upd_mb :: "nat \<Rightarrow> (rt_mailbox \<Rightarrow> rt_mailbox) \<Rightarrow> kernel \<Rightarrow> kernel" where
  "upd_mb m f k = k\<lparr>mailboxes := (mailboxes k)(m := f (mailboxes k m))\<rparr>"

definition mb_setup :: "nat \<Rightarrow> u32 list \<Rightarrow> u32 \<Rightarrow> u8 \<Rightarrow> kernel \<Rightarrow> kernel" where
  "mb_setup m pool sz flag k =
     (let k1 = upd_mb m (\<lambda>mb. mb\<lparr>mb_pool := pool, mb_size := ucast sz, mb_entry := 0, mb_in_offset := 0,
                                  mb_out_offset := 0\<rparr>) (ipc_init (ObjMb m) flag k)
      in k1\<lparr>tlists := (tlists k1)(Senders m := [])\<rparr>)"

definition rt_mb_init :: "nat \<Rightarrow> string \<Rightarrow> u32 list \<Rightarrow> u32 \<Rightarrow> u8 \<Rightarrow> kernel \<Rightarrow> kernel option" where
  "rt_mb_init m name msgpool sz flag k = do {
     k1 \<leftarrow> rt_object_init (ObjMb m) RT_Object_Class_MailBox name k;
     Some (mb_setup m msgpool sz flag k1) }"

definition mb_resume_everybody :: "nat \<Rightarrow> kernel \<Rightarrow> kernel option" where
  "mb_resume_everybody m k = do {
     k1 \<leftarrow> rt_ipc_list_resume_all (Suspended (ObjMb m)) k;
     rt_ipc_list_resume_all (Senders m) k1 }"

definition rt_mb_detach :: "nat \<Rightarrow> kernel \<Rightarrow> kernel option" where
  "rt_mb_detach m k = do {
     _ \<leftarrow> rt_assert (mb_typed k m);
     _ \<leftarrow> rt_assert (rt_object_is_systemobject (ObjMb m) k);
     k1 \<leftarrow> mb_resume_everybody m k;
     Some (rt_object_detach (ObjMb m) k1) }"

definition rt_mb_create ::
  "nat option \<Rightarrow> u32 list option \<Rightarrow> string \<Rightarrow> u32 \<Rightarrow> u8 \<Rightarrow> kernel \<Rightarrow> (nat option \<times> kernel) option" where
  "rt_mb_create block pool name sz flag k = do {
     _ \<leftarrow> rt_assert (interrupt_nest k = 0);
     (r, k1) \<leftarrow> rt_object_allocate (map_option ObjMb block) RT_Object_Class_MailBox name k;
     case block of
       None \<Rightarrow> Some (None, k1)
     | Some m \<Rightarrow>
         (case pool of
            None \<Rightarrow> do {
              k2 \<leftarrow> rt_object_delete (ObjMb m) (upd_mb m (\<lambda>mb. mb\<lparr>mb_size := ucast sz\<rparr>) (ipc_init (ObjMb m) flag k1));
              Some (None, k2) }
          | Some msgpool \<Rightarrow> Some (Some m, mb_setup m msgpool sz flag k1)) }"

definition rt_mb_delete :: "nat \<Rightarrow> kernel \<Rightarrow> kernel option" where
  "rt_mb_delete m k = do {
     _ \<leftarrow> rt_assert (interrupt_nest k = 0);
     _ \<leftarrow> rt_assert (mb_typed k m);
     _ \<leftarrow> rt_assert (\<not> rt_object_is_systemobject (ObjMb m) k);
     k1 \<leftarrow> mb_resume_everybody m k;
     rt_object_delete (ObjMb m) k1 }"

definition mb_send_round :: "nat \<Rightarrow> u32 \<Rightarrow> int \<Rightarrow> kernel \<Rightarrow> (rt_err_t outcome \<times> kernel) option" where
  "mb_send_round m value timeout k =
     (if mb_full (mailboxes k m) then do {
        t \<leftarrow> current_thread k;
        let k1 = clear_error t k;
        if timeout = 0 then Some (Ret (- RT_EFULL), k1)
        else do {
          _ \<leftarrow> in_thread_context k1;
          k2 \<leftarrow> block_on (Senders m) t (obj_flag k1 (ObjMb m)) timeout k1;
          Some (Wait, k2) } }
      else do {
        k1 \<leftarrow> wake_one (Suspended (ObjMb m)) (upd_mb m (mb_put value) k);
        Some (Ret RT_EOK, k1) })"

definition rt_mb_send_wait :: "nat \<Rightarrow> u32 \<Rightarrow> int \<Rightarrow> kernel \<Rightarrow> (rt_err_t outcome \<times> kernel) option" where
  "rt_mb_send_wait m value timeout k = do {
     _ \<leftarrow> rt_assert (mb_typed k m);
     if mb_full (mailboxes k m) \<and> timeout = 0 then Some (Ret (- RT_EFULL), k)
     else mb_send_round m value timeout k }"

definition rt_mb_send_resume :: "nat \<Rightarrow> u32 \<Rightarrow> int \<Rightarrow> u32 \<Rightarrow> tid \<Rightarrow> kernel \<Rightarrow> (rt_err_t outcome \<times> kernel) option" where
  "rt_mb_send_resume m value timeout start t k =
     (if th_error (threads k t) \<noteq> RT_EOK then Some (Ret (th_error (threads k t)), k)
      else mb_send_round m value (wait_left timeout start (rt_tick_get k)) k)"

definition rt_mb_send :: "nat \<Rightarrow> u32 \<Rightarrow> kernel \<Rightarrow> (rt_err_t outcome \<times> kernel) option" where
  "rt_mb_send m value k = rt_mb_send_wait m value 0 k"

definition mb_recv_round :: "nat \<Rightarrow> int \<Rightarrow> kernel \<Rightarrow> ((rt_err_t \<times> u32 option) outcome \<times> kernel) option" where
  "mb_recv_round m timeout k =
     (if mb_empty (mailboxes k m) then do {
        t \<leftarrow> current_thread k;
        let k1 = clear_error t k;
        if timeout = 0
        then Some (Ret (- RT_ETIMEOUT, None), upd_thread t (\<lambda>th. th\<lparr>th_error := - RT_ETIMEOUT\<rparr>) k1)
        else do {
          _ \<leftarrow> in_thread_context k1;
          k2 \<leftarrow> block_on (Suspended (ObjMb m)) t (obj_flag k1 (ObjMb m)) timeout k1;
          Some (Wait, k2) } }
      else do {
        let value = fst (mb_get (mailboxes k m));
        k1 \<leftarrow> wake_one (Senders m) (upd_mb m (\<lambda>mb. snd (mb_get mb)) k);
        Some (Ret (RT_EOK, Some value), k1) })"

definition rt_mb_recv :: "nat \<Rightarrow> int \<Rightarrow> kernel \<Rightarrow> ((rt_err_t \<times> u32 option) outcome \<times> kernel) option" where
  "rt_mb_recv m timeout k = do {
     _ \<leftarrow> rt_assert (mb_typed k m);
     if mb_empty (mailboxes k m) \<and> timeout = 0 then Some (Ret (- RT_ETIMEOUT, None), k)
     else mb_recv_round m timeout k }"

definition rt_mb_recv_resume :: "nat \<Rightarrow> int \<Rightarrow> u32 \<Rightarrow> tid \<Rightarrow> kernel \<Rightarrow> ((rt_err_t \<times> u32 option) outcome \<times> kernel) option" where
  "rt_mb_recv_resume m timeout start t k =
     (if th_error (threads k t) \<noteq> RT_EOK then Some (Ret (th_error (threads k t), None), k)
      else mb_recv_round m (wait_left timeout start (rt_tick_get k)) k)"

definition rt_mb_control :: "nat \<Rightarrow> int \<Rightarrow> kernel \<Rightarrow> (rt_err_t \<times> kernel) option" where
  "rt_mb_control m cmd k = do {
     _ \<leftarrow> rt_assert (mb_typed k m);
     if cmd = 1 then do {
       k1 \<leftarrow> mb_resume_everybody m k;
       k2 \<leftarrow> rt_schedule (upd_mb m (\<lambda>mb. mb\<lparr>mb_entry := 0, mb_in_offset := 0, mb_out_offset := 0\<rparr>) k1);
       Some (RT_EOK, k2) }
     else Some (- RT_ERROR, k) }"

subsection \<open>What the calls do\<close>

definition mbx_inv :: "kernel \<Rightarrow> nat \<Rightarrow> bool" where
  "mbx_inv k m \<longleftrightarrow> mb_typed k m \<and> mb_ok (mailboxes k m)
     \<and> (obj_flag k (ObjMb m) = RT_IPC_FLAG_FIFO \<or> obj_flag k (ObjMb m) = RT_IPC_FLAG_PRIO)
     \<and> waiters_clean k (Suspended (ObjMb m)) \<and> waiters_clean k (Senders m)"

abbreviation box :: "kernel \<Rightarrow> nat \<Rightarrow> u32 list" where
  "box k m \<equiv> mails (mailboxes k m)"

lemma upd_mb_sel [simp]:
  "mailboxes (upd_mb m f k) = (mailboxes k)(m := f (mailboxes k m))" "threads (upd_mb m f k) = threads k"
  "tlists (upd_mb m f k) = tlists k" "objs (upd_mb m f k) = objs k" "timers (upd_mb m f k) = timers k"
  "timer_list (upd_mb m f k) = timer_list k" "tick (upd_mb m f k) = tick k"
  "current_thread (upd_mb m f k) = current_thread k" "lock_nest (upd_mb m f k) = lock_nest k"
  "interrupt_nest (upd_mb m f k) = interrupt_nest k" "thread_state (upd_mb m f k) t = thread_state k t"
  "ready_group (upd_mb m f k) = ready_group k"
  "rt_object_get_type r (upd_mb m f k) = rt_object_get_type r k"
  by (simp_all add: upd_mb_def thread_state_def rt_object_get_type_def)

lemma upd_mb_kinv [simp]: "kinv (upd_mb m f k) \<longleftrightarrow> kinv k"
  by (auto intro: kinv_same simp: same_threads_def)

lemma mb_send_round_stores:
  assumes i: "kinv k" and mi: "mbx_inv k m" and nf: "\<not> mb_full (mailboxes k m)"
  obtains k' where "mb_send_round m v timeout k = Some (Ret RT_EOK, k')" "kinv k'" "mbx_inv k' m"
    "box k' m = box k m @ [v]"
    "tlists k' (Suspended (ObjMb m)) = tl (tlists k (Suspended (ObjMb m)))" "tlists k' (Senders m) = tlists k (Senders m)"
    "\<And>t ts. tlists k (Suspended (ObjMb m)) = t # ts \<Longrightarrow> thread_state k' t = RT_THREAD_READY \<and> th_error (threads k' t) = RT_EOK"
    "\<And>s. s \<notin> set (take 1 (tlists k (Suspended (ObjMb m)))) \<Longrightarrow> threads k' s = threads k s"
proof -
  let ?h = "Suspended (ObjMb m)"
  let ?u = "upd_mb m (mb_put v) k"
  have u: "kinv ?u" using i by simp
  have ok: "mb_ok (mailboxes k m)" using mi by (simp add: mbx_inv_def)
  show ?thesis
  proof (rule wake_one_wakes[OF u wait_head_simps(1), of "ObjMb m"], goal_cases)
    case (1 k')
    note a = 1
    have ty: "rt_object_get_type (ObjMb m) k' = rt_object_get_type (ObjMb m) k"
      using a(8) by (simp add: rt_object_get_type_def)
    have "waiters_clean k ?h" "waiters_clean k (Senders m)" using mi by (simp_all add: mbx_inv_def)
    then have "waiters_clean k' ?h" "waiters_clean k' (Senders m)"
      using a(3,4,7) by (auto elim!: waiters_clean_kept)
    then have "mbx_inv k' m" using mi ty a(9)[of "ObjMb m"] a(16) mb_put_ok(1)[OF ok nf] by (simp add: mbx_inv_def)
    moreover have "mb_send_round m v timeout k = Some (Ret RT_EOK, k')" using nf a(1) by (simp add: mb_send_round_def)
    moreover have "box k' m = box k m @ [v]" using a(16) mb_put_ok(2)[OF ok nf] by simp
    moreover have "th_error (threads k' t) = RT_EOK" if "tlists k ?h = t # ts" for t ts
      using that mi a(7) by (simp add: mbx_inv_def waiters_clean_def)
    ultimately show ?case by (intro that[of k']) (use a in simp_all)
  qed
qed

lemma mb_recv_round_takes:
  assumes i: "kinv k" and mi: "mbx_inv k m" and ne: "\<not> mb_empty (mailboxes k m)"
  obtains k' v where "mb_recv_round m timeout k = Some (Ret (RT_EOK, Some v), k')" "kinv k'" "mbx_inv k' m"
    "box k m = v # box k' m"
    "tlists k' (Senders m) = tl (tlists k (Senders m))"
    "tlists k' (Suspended (ObjMb m)) = tlists k (Suspended (ObjMb m))"
    "\<And>t ts. tlists k (Senders m) = t # ts \<Longrightarrow> thread_state k' t = RT_THREAD_READY \<and> th_error (threads k' t) = RT_EOK"
    "\<And>s. s \<notin> set (take 1 (tlists k (Senders m))) \<Longrightarrow> threads k' s = threads k s"
proof -
  let ?h = "Suspended (ObjMb m)"
  let ?u = "upd_mb m (\<lambda>mb. snd (mb_get mb)) k"
  have u: "kinv ?u" using i by simp
  have ok: "mb_ok (mailboxes k m)" using mi by (simp add: mbx_inv_def)
  show ?thesis
  proof (rule wake_one_wakes[OF u wait_head_simps(2), of m], goal_cases)
    case (1 k')
    note a = 1
    have ty: "rt_object_get_type (ObjMb m) k' = rt_object_get_type (ObjMb m) k"
      using a(8) by (simp add: rt_object_get_type_def)
    have "waiters_clean k ?h" "waiters_clean k (Senders m)" using mi by (simp_all add: mbx_inv_def)
    then have "waiters_clean k' ?h" "waiters_clean k' (Senders m)"
      using a(3,4,7) by (auto elim!: waiters_clean_kept)
    then have "mbx_inv k' m" using mi ty a(9)[of "ObjMb m"] a(16) mb_get_ok(1)[OF ok ne] by (simp add: mbx_inv_def)
    moreover have "mb_recv_round m timeout k = Some (Ret (RT_EOK, Some (fst (mb_get (mailboxes k m)))), k')"
      using ne a(1) by (simp add: mb_recv_round_def Let_def)
    moreover have "box k m = fst (mb_get (mailboxes k m)) # box k' m" using a(16) mb_get_ok(2)[OF ok ne] by simp
    moreover have "th_error (threads k' t) = RT_EOK" if "tlists k (Senders m) = t # ts" for t ts
      using that mi a(7) by (simp add: mbx_inv_def waiters_clean_def)
    ultimately show ?case by (intro that[of "fst (mb_get (mailboxes k m))" k']) (use a in simp_all)
  qed
qed

text \<open>A sender that finds the box full waits among the senders, a receiver that finds it empty among the
  receivers; neither changes the mails.\<close>

lemma mb_round_blocks:
  assumes i: "kinv k" and mi: "mbx_inv k m" and c: "current_thread k = Some t" and r: "thread_state k t = RT_THREAD_READY"
    and ni: "interrupt_nest k = 0" and b: "timeout \<noteq> 0" "timeout < 0x7FFFFFFF"
    and o: "thread_state k u = RT_THREAD_READY" "u \<noteq> t"
    and h: "h = Senders m \<and> mb_full (mailboxes k m) \<or> h = Suspended (ObjMb m) \<and> mb_empty (mailboxes k m)"
  obtains k' where "h = Senders m \<Longrightarrow> mb_send_round m v timeout k = Some (Wait, k')"
    "h = Suspended (ObjMb m) \<Longrightarrow> mb_recv_round m timeout k = Some (Wait, k')" "kinv k'" "mbx_inv k' m"
    "thread_state k' t = RT_THREAD_SUSPEND" "t \<in> set (tlists k' h)" "mailboxes k' = mailboxes k"
    "timeout > 0 \<Longrightarrow> ThreadTimer t \<in> set (timer_list k')" "timeout < 0 \<Longrightarrow> ThreadTimer t \<notin> set (timer_list k')"
proof -
  let ?fl = "obj_flag k (ObjMb m)"
  have fl: "?fl = RT_IPC_FLAG_FIFO \<or> ?fl = RT_IPC_FLAG_PRIO" using mi by (simp add: mbx_inv_def)
  have ce: "kinv (clear_error t k)" by (rule clear_error_kinv[OF i])
  have wh: "wait_head h" using h by auto
  show ?thesis
  proof (rule block_on_waits[of "clear_error t k" t h ?fl timeout u], goal_cases)
    case (9 k')
    note a = 9
    have e: "th_error (threads k' t) = RT_EOK" by (subst a(9)) simp
    have wc: "waiters_clean (clear_error t k) g" if "waiters_clean k g" for g using that by (simp add: waiters_clean_def)
    have wck: "waiters_clean k' g" if "waiters_clean k g" for g
    proof (cases "g = h")
      case True
      show ?thesis unfolding True
        by (rule waiters_clean_insert[OF wc fl a(4) e a(8)]) (use that True in simp)
    next
      case False
      have "th_error (threads k' s) = RT_EOK" if s: "s \<in> set (tlists k' g)" for s
        using e a(8)[of s] s a(5)[OF False] \<open>waiters_clean k g\<close> by (cases "s = t") (simp_all add: waiters_clean_def)
      then show ?thesis by (simp add: waiters_clean_def)
    qed
    have "rt_object_get_type (ObjMb m) k' = rt_object_get_type (ObjMb m) k"
      using a(12) by (simp add: rt_object_get_type_def)
    moreover have "obj_flag k' (ObjMb m) = ?fl" using a(13)[of "ObjMb m"] by simp
    ultimately have "mbx_inv k' m" using mi wck a(17) by (simp add: mbx_inv_def)
    moreover have "t \<in> set (tlists k' h)" using a(4) wait_insert_props(1)[OF fl] by simp
    moreover have "h = Senders m \<Longrightarrow> mb_send_round m v timeout k = Some (Wait, k')"
      using h c ni b(1) a(1) by (auto simp: mb_send_round_def in_thread_context_def Let_def)
    moreover have "h = Suspended (ObjMb m) \<Longrightarrow> mb_recv_round m timeout k = Some (Wait, k')"
      using h c ni b(1) a(1) by (auto simp: mb_recv_round_def in_thread_context_def Let_def)
    ultimately show ?case by (intro that[of k']) (use a in simp_all)
  qed (use ce c r wh fl b o in simp_all)
qed

lemma mb_control_resets:
  assumes i: "kinv k" and mi: "mbx_inv k m" and r: "thread_state k u = RT_THREAD_READY"
  obtains k' where "rt_mb_control m 1 k = Some (RT_EOK, k')" "kinv k'" "mbx_inv k' m" "box k' m = []"
    "tlists k' (Suspended (ObjMb m)) = []" "tlists k' (Senders m) = []"
    "\<And>t. t \<in> set (tlists k (Suspended (ObjMb m))) \<union> set (tlists k (Senders m)) \<Longrightarrow>
        thread_state k' t = RT_THREAD_READY \<and> th_error (threads k' t) = - RT_ERROR"
proof -
  let ?h = "Suspended (ObjMb m)" and ?s = "Senders m"
  from resume_all_wakes[OF i wait_head_simps(1), of "ObjMb m"] obtain k1 where
    k1: "rt_ipc_list_resume_all ?h k = Some k1" "kinv k1" "tlists k1 ?h = []"
    "\<And>t. if t \<in> set (tlists k ?h)
          then thread_state k1 t = RT_THREAD_READY \<and> th_error (threads k1 t) = - RT_ERROR
            \<and> th_current_priority (threads k1 t) = th_current_priority (threads k t)
          else threads k1 t = threads k t"
    "\<And>g. wait_head g \<Longrightarrow> g \<noteq> ?h \<Longrightarrow> tlists k1 g = tlists k g"
    "\<And>x. o_type (objs k1 x) = o_type (objs k x)" "\<And>x. (\<forall>i. x \<noteq> ObjTimer i) \<Longrightarrow> objs k1 x = objs k x"
    "mailboxes k1 = mailboxes k" by blast
  from resume_all_wakes[OF k1(2) wait_head_simps(2), of m] obtain k2 where
    k2: "rt_ipc_list_resume_all ?s k1 = Some k2" "kinv k2" "tlists k2 ?s = []"
    "\<And>t. if t \<in> set (tlists k1 ?s)
          then thread_state k2 t = RT_THREAD_READY \<and> th_error (threads k2 t) = - RT_ERROR
            \<and> th_current_priority (threads k2 t) = th_current_priority (threads k1 t)
          else threads k2 t = threads k1 t"
    "\<And>g. wait_head g \<Longrightarrow> g \<noteq> ?s \<Longrightarrow> tlists k2 g = tlists k1 g"
    "\<And>x. o_type (objs k2 x) = o_type (objs k1 x)" "\<And>x. (\<forall>i. x \<noteq> ObjTimer i) \<Longrightarrow> objs k2 x = objs k1 x"
    "mailboxes k2 = mailboxes k1" by blast
  let ?u = "upd_mb m (\<lambda>mb. mb\<lparr>mb_entry := 0, mb_in_offset := 0, mb_out_offset := 0\<rparr>) k2"
  have u: "kinv ?u" using k2(2) by simp
  have s1: "tlists k1 ?s = tlists k ?s" by (rule k1(5)) simp_all
  have h2: "tlists k2 ?h = []" using k2(5)[of ?h] k1(3) by simp
  have st1: "thread_state k1 u = RT_THREAD_READY"
    using k1(4)[of u] r by (cases "u \<in> set (tlists k ?h)") (simp_all add: thread_state_def)
  then have "thread_state ?u u = RT_THREAD_READY"
    using k2(4)[of u] by (cases "u \<in> set (tlists k1 ?s)") (simp_all add: thread_state_def)
  from rt_schedule_some[OF kinvD(1)[OF u] this] obtain k' where sc: "rt_schedule ?u = Some k'" by blast
  note f = rt_schedule_frame[OF sc]
  have ok: "mb_ok (mailboxes k m)" using mi by (simp add: mbx_inv_def)
  have mb: "mailboxes k' m = (mailboxes k m)\<lparr>mb_entry := 0, mb_in_offset := 0, mb_out_offset := 0\<rparr>"
    using f k1(8) k2(8) by simp
  have "mb_ok (mailboxes k' m)" using ok unfolding mb by (simp add: mb_ok_def word_gt_0 word_less_nat_alt)
  moreover have "rt_object_get_type (ObjMb m) k' = rt_object_get_type (ObjMb m) k" "obj_flag k' (ObjMb m) = obj_flag k (ObjMb m)"
    using f k1(6,7) k2(6,7) by (simp_all add: rt_object_get_type_def)
  ultimately have "mbx_inv k' m" using mi f h2 k2(3) by (simp add: mbx_inv_def waiters_clean_def)
  moreover have "rt_mb_control m 1 k = Some (RT_EOK, k')"
    using mi k1(1) k2(1) sc by (simp add: rt_mb_control_def mb_resume_everybody_def mbx_inv_def)
  moreover have "box k' m = []" unfolding mb by (simp add: mails_def ring_window_def)
  moreover have "thread_state k' t = RT_THREAD_READY \<and> th_error (threads k' t) = - RT_ERROR"
    if "t \<in> set (tlists k ?h) \<union> set (tlists k ?s)" for t
  proof (cases "t \<in> set (tlists k ?s)")
    case True
    then show ?thesis using k2(4)[of t] s1 f by (simp add: thread_state_def)
  next
    case False
    then show ?thesis using that k1(4)[of t] k2(4)[of t] s1 f by (simp add: thread_state_def)
  qed
  ultimately show ?thesis using kinv_schedule[OF sc u] f h2 k2(3) by (intro that[of k']) simp_all
qed

end
