(* ===== verification/RT_Mq.thy ===== *)
theory RT_Mq
  imports RT_Sem
begin

text \<open>
  The message queues of \<open>src/ipc.c\<close>. The pool is cut into slots, each a link word followed by
  \<open>msg_size\<close> bytes; a singly linked list of used slots with a tail pointer, and one of free slots. A
  call takes a slot off one list, copies the bytes with interrupts enabled, and puts the slot on the other: in
  between the slot is on neither list, so the invariant \<open>mq_ok\<close> allows slots in flight and every critical section
  keeps it on its own.
\<close>

subsection \<open>The critical sections\<close>

definition mq_set_next :: "nat \<Rightarrow> nat option \<Rightarrow> rt_messagequeue \<Rightarrow> rt_messagequeue" where
  "mq_set_next s p q = q\<lparr>mq_next := (mq_next q)(s := p)\<rparr>"

text \<open>Taking a slot off the free list, \<open>RT_NULL\<close> when there is none.\<close>

definition mq_alloc :: "rt_messagequeue \<Rightarrow> (nat \<times> rt_messagequeue) option" where
  "mq_alloc q = (case mq_free q of None \<Rightarrow> None | Some s \<Rightarrow> Some (s, q\<lparr>mq_free := mq_next q s\<rparr>))"

text \<open>\<open>rt_memcpy(msg + 1, buffer, size)\<close>: the bytes behind the copied ones stay.\<close>

definition mq_fill :: "nat \<Rightarrow> u8 list \<Rightarrow> rt_messagequeue \<Rightarrow> rt_messagequeue" where
  "mq_fill s buf q = q\<lparr>mq_data := (mq_data q)(s := buf @ drop (length buf) (mq_data q s))\<rparr>"

definition mq_link_tail :: "nat \<Rightarrow> rt_messagequeue \<Rightarrow> rt_messagequeue" where
  "mq_link_tail s q =
     (let q1 = (case mq_tail q of None \<Rightarrow> q | Some l \<Rightarrow> mq_set_next l (Some s) q);
          q2 = q1\<lparr>mq_tail := Some s\<rparr>;
          q3 = (if mq_head q2 = None then q2\<lparr>mq_head := Some s\<rparr> else q2)
      in q3\<lparr>mq_entry := mq_entry q3 + 1\<rparr>)"

definition mq_link_head :: "nat \<Rightarrow> rt_messagequeue \<Rightarrow> rt_messagequeue" where
  "mq_link_head s q =
     (let q1 = (mq_set_next s (mq_head q) q)\<lparr>mq_head := Some s\<rparr>;
          q2 = (if mq_tail q1 = None then q1\<lparr>mq_tail := Some s\<rparr> else q1)
      in q2\<lparr>mq_entry := mq_entry q2 + 1\<rparr>)"

definition mq_unlink :: "nat \<Rightarrow> rt_messagequeue \<Rightarrow> rt_messagequeue" where
  "mq_unlink s q =
     (let q1 = q\<lparr>mq_head := mq_next q s\<rparr>
      in if mq_tail q1 = Some s then q1\<lparr>mq_tail := None\<rparr> else q1)"

definition mq_release :: "nat \<Rightarrow> rt_messagequeue \<Rightarrow> rt_messagequeue" where
  "mq_release s q = (mq_set_next s (mq_free q) q)\<lparr>mq_free := Some s\<rparr>"

text \<open>The list of all slots, built free by \<open>rt_mq_init\<close> and \<open>rt_mq_create\<close>.\<close>

definition mq_format :: "u16 \<Rightarrow> u16 \<Rightarrow> rt_messagequeue \<Rightarrow> rt_messagequeue" where
  "mq_format sz n q =
     (fold mq_release [0..<unat n]
        (q\<lparr>mq_msg_size := sz, mq_max_msgs := n, mq_head := None, mq_tail := None, mq_free := None\<rparr>))\<lparr>mq_entry := 0\<rparr>"

text \<open>The loop of \<open>rt_mq_control\<close> that empties the queue.\<close>

partial_function (option) mq_flush :: "rt_messagequeue \<Rightarrow> rt_messagequeue option" where
  "mq_flush q = (case mq_head q of None \<Rightarrow> Some q | Some s \<Rightarrow> mq_flush (mq_release s (mq_unlink s q)))"

subsection \<open>The invariant\<close>

abbreviation mq_capacity :: "rt_messagequeue \<Rightarrow> nat" where
  "mq_capacity q \<equiv> unat (mq_max_msgs q)"

definition used_slots :: "rt_messagequeue \<Rightarrow> nat list" where
  "used_slots q = walk (mq_next q) (mq_capacity q) (mq_head q)"

definition free_slots :: "rt_messagequeue \<Rightarrow> nat list" where
  "free_slots q = walk (mq_next q) (mq_capacity q) (mq_free q)"

definition mq_shape :: "rt_messagequeue \<Rightarrow> nat list \<Rightarrow> nat list \<Rightarrow> bool" where
  "mq_shape q us fs \<longleftrightarrow> spath (mq_next q) (mq_head q) us \<and> spath (mq_next q) (mq_free q) fs
     \<and> distinct (us @ fs) \<and> set (us @ fs) \<subseteq> {0..<mq_capacity q}
     \<and> mq_tail q = (if us = [] then None else Some (last us)) \<and> unat (mq_entry q) = length us
     \<and> (\<forall>s<mq_capacity q. length (mq_data q s) = unat (mq_msg_size q))"

definition mq_ok :: "rt_messagequeue \<Rightarrow> bool" where
  "mq_ok q \<longleftrightarrow> mq_shape q (used_slots q) (free_slots q)"

text \<open>The messages, the next one to be received first.\<close>

definition messages :: "rt_messagequeue \<Rightarrow> u8 list list" where
  "messages q = map (mq_data q) (used_slots q)"

lemma shape_bound: "mq_shape q us fs \<Longrightarrow> length us + length fs \<le> mq_capacity q"
  using distinct_below[of "us @ fs" "mq_capacity q"] by (simp add: mq_shape_def)

text \<open>With a slot in flight there is room in the count of messages.\<close>

lemma in_flight_entry:
  assumes sh: "mq_shape q us fs" and s: "s \<notin> set (us @ fs)" "s < mq_capacity q"
  shows "unat (mq_entry q + 1) = Suc (length us)"
proof -
  have "length (s # us @ fs) \<le> mq_capacity q" using sh s by (intro distinct_below) (auto simp: mq_shape_def)
  then have "mq_entry q < mq_max_msgs q" using sh by (simp add: mq_shape_def word_less_nat_alt)
  from unat_Suc_less[OF this] show ?thesis using sh by (simp add: mq_shape_def)
qed

lemma shape_slots:
  assumes "mq_shape q us fs"
  shows "used_slots q = us" "free_slots q = fs" "mq_ok q"
proof -
  show "used_slots q = us" "free_slots q = fs"
    using assms shape_bound[OF assms] by (auto simp: used_slots_def free_slots_def mq_shape_def intro!: walk_spath)
  then show "mq_ok q" using assms by (simp add: mq_ok_def)
qed


subsection \<open>The critical sections keep it\<close>

lemma set_next_sel [simp]:
  "mq_next (mq_set_next s p q) = (mq_next q)(s := p)" "mq_data (mq_set_next s p q) = mq_data q"
  "mq_head (mq_set_next s p q) = mq_head q" "mq_tail (mq_set_next s p q) = mq_tail q"
  "mq_free (mq_set_next s p q) = mq_free q" "mq_entry (mq_set_next s p q) = mq_entry q"
  "mq_max_msgs (mq_set_next s p q) = mq_max_msgs q" "mq_msg_size (mq_set_next s p q) = mq_msg_size q"
  by (simp_all add: mq_set_next_def)

lemma mq_sizes [simp]:
  "mq_max_msgs (mq_fill s buf q) = mq_max_msgs q" "mq_msg_size (mq_fill s buf q) = mq_msg_size q"
  "mq_max_msgs (mq_link_tail s q) = mq_max_msgs q" "mq_msg_size (mq_link_tail s q) = mq_msg_size q"
  "mq_max_msgs (mq_link_head s q) = mq_max_msgs q" "mq_msg_size (mq_link_head s q) = mq_msg_size q"
  "mq_max_msgs (mq_unlink s q) = mq_max_msgs q" "mq_msg_size (mq_unlink s q) = mq_msg_size q"
  "mq_max_msgs (mq_release s q) = mq_max_msgs q" "mq_msg_size (mq_release s q) = mq_msg_size q"
  by (simp_all add: mq_fill_def mq_link_tail_def mq_link_head_def mq_unlink_def mq_release_def Let_def split: option.split)

lemma mq_data_kept [simp]:
  "mq_data (mq_link_tail s q) = mq_data q" "mq_data (mq_link_head s q) = mq_data q"
  "mq_data (mq_unlink s q) = mq_data q" "mq_data (mq_release s q) = mq_data q"
  by (simp_all add: mq_link_tail_def mq_link_head_def mq_unlink_def mq_release_def Let_def split: option.split)

lemma alloc_shape:
  assumes "mq_shape q us fs" "mq_alloc q = Some (s, q')"
  shows "fs = s # free_slots q'" "mq_shape q' us (free_slots q')" "mq_data q' = mq_data q"
    "mq_max_msgs q' = mq_max_msgs q" "mq_msg_size q' = mq_msg_size q"
proof -
  have f: "mq_free q = Some s" and q': "q' = q\<lparr>mq_free := mq_next q s\<rparr>"
    using assms(2) by (auto simp: mq_alloc_def split: option.splits)
  then obtain fs' where fs: "fs = s # fs'" using assms(1) by (cases fs) (auto simp: mq_shape_def)
  then have sh: "mq_shape q' us fs'" using assms(1) unfolding q' by (auto simp: mq_shape_def)
  from shape_slots(2)[OF sh] fs sh show "fs = s # free_slots q'" "mq_shape q' us (free_slots q')" by simp_all
  show "mq_data q' = mq_data q" "mq_max_msgs q' = mq_max_msgs q" "mq_msg_size q' = mq_msg_size q" by (simp_all add: q')
qed

lemma fill_shape:
  assumes "mq_shape q us fs" "length buf \<le> unat (mq_msg_size q)"
  shows "mq_shape (mq_fill s buf q) us fs"
  using assms by (auto simp: mq_shape_def mq_fill_def)

lemma spath_snoc:
  assumes "spath nxt p us" "us \<noteq> []" "s \<notin> set us" "distinct us"
  shows "spath (nxt(last us \<mapsto> s, s := None)) p (us @ [s])"
  using assms by (induction us arbitrary: p) auto

lemma link_tail_shape:
  assumes sh: "mq_shape q us fs" and s: "s \<notin> set (us @ fs)" "s < mq_capacity q" and n: "mq_next q s = None"
  shows "mq_shape (mq_link_tail s q) (us @ [s]) fs"
proof -
  have e: "unat (mq_entry q + 1) = Suc (length us)" by (rule in_flight_entry[OF sh s])
  show ?thesis
  proof (cases "us = []")
    case True
    then show ?thesis using sh s n e by (simp add: mq_shape_def mq_link_tail_def)
  next
    case False
    have h: "mq_head q \<noteq> None" using sh False by (cases us) (auto simp: mq_shape_def)
    have eq: "(mq_next q)(last us \<mapsto> s) = (mq_next q)(last us \<mapsto> s, s := None)"
      using n s False by (intro ext) (auto dest: last_in_set)
    have "spath ((mq_next q)(last us \<mapsto> s)) (mq_head q) (us @ [s])"
      using sh s False by (subst eq, intro spath_snoc) (simp_all add: mq_shape_def)
    moreover have "set us \<inter> set fs = {}" using sh by (simp add: mq_shape_def)
    then have "last us \<notin> set fs" using last_in_set[OF False] by blast
    then have "spath ((mq_next q)(last us \<mapsto> s)) (mq_free q) fs" using sh by (simp add: mq_shape_def)
    ultimately show ?thesis using sh s e h False by (auto simp: mq_shape_def mq_link_tail_def Let_def)
  qed
qed

lemma link_head_shape:
  assumes sh: "mq_shape q us fs" and s: "s \<notin> set (us @ fs)" "s < mq_capacity q"
  shows "mq_shape (mq_link_head s q) (s # us) fs"
proof -
  have e: "unat (mq_entry q + 1) = Suc (length us)" by (rule in_flight_entry[OF sh s])
  then show ?thesis using sh s by (auto simp: mq_shape_def mq_link_head_def Let_def)
qed

lemma unlink_shape:
  assumes sh: "mq_shape q (s # us) fs"
  shows "mq_shape ((mq_unlink s q)\<lparr>mq_entry := mq_entry q - 1\<rparr>) us fs"
proof -
  have "mq_entry q \<noteq> 0" using sh by (auto simp: mq_shape_def)
  then have "unat (mq_entry q - 1) = length us" using sh by (simp add: unat_minus_one mq_shape_def)
  then show ?thesis using sh last_in_set[of us] by (auto simp: mq_shape_def mq_unlink_def Let_def)
qed

lemma release_shape:
  assumes "mq_shape q us fs" "s \<notin> set (us @ fs)" "s < mq_capacity q"
  shows "mq_shape (mq_release s q) us (s # fs)"
  using assms by (auto simp: mq_shape_def mq_release_def)


text \<open>The emptying loop ends, with every slot free.\<close>

lemma mq_flush_returns:
  "mq_shape (q\<lparr>mq_entry := e\<rparr>) us fs \<Longrightarrow>
   \<exists>q'. mq_flush q = Some q' \<and> mq_shape (q'\<lparr>mq_entry := 0\<rparr>) [] (rev us @ fs)
     \<and> mq_max_msgs q' = mq_max_msgs q \<and> mq_msg_size q' = mq_msg_size q"
proof (induction us arbitrary: q e fs)
  case Nil
  then show ?case by (subst mq_flush.simps) (auto simp: mq_shape_def)
next
  case (Cons s us)
  let ?q = "mq_release s (mq_unlink s q)"
  have "mq_shape ((mq_unlink s q)\<lparr>mq_entry := e - 1\<rparr>) us fs"
    using unlink_shape[OF Cons.prems] by (simp add: mq_unlink_def Let_def split: if_splits)
  from release_shape[OF this, of s] have "mq_shape (?q\<lparr>mq_entry := e - 1\<rparr>) us (s # fs)"
    using Cons.prems by (auto simp: mq_shape_def mq_release_def)
  from Cons.IH[OF this] show ?case
    using Cons.prems by (subst mq_flush.simps) (auto simp: mq_shape_def)
qed

text \<open>A formatted pool has all its slots free.\<close>

lemma fold_release_shape:
  assumes "mq_max_msgs q = n" "mq_head q = None" "mq_tail q = None" "mq_free q = None" "mq_entry q = 0"
    and "\<And>s. s < unat n \<Longrightarrow> length (mq_data q s) = unat (mq_msg_size q)"
  shows "i \<le> unat n \<Longrightarrow> mq_shape (fold mq_release [0..<i] q) [] (rev [0..<i])
    \<and> mq_max_msgs (fold mq_release [0..<i] q) = n \<and> mq_msg_size (fold mq_release [0..<i] q) = mq_msg_size q"
proof (induction i)
  case 0
  then show ?case using assms by (simp add: mq_shape_def)
next
  case (Suc i)
  then show ?case
    using release_shape[of "fold mq_release [0..<i] q" "[]" "rev [0..<i]" i] by simp
qed

lemma release_entry: "mq_release s (p\<lparr>mq_entry := e\<rparr>) = (mq_release s p)\<lparr>mq_entry := e\<rparr>"
  by (cases p) (simp add: mq_release_def mq_set_next_def)

lemma mq_format_ok:
  assumes "\<And>s. s < unat n \<Longrightarrow> length (mq_data q s) = unat sz"
  shows "mq_ok (mq_format sz n q)" "messages (mq_format sz n q) = []" "length (free_slots (mq_format sz n q)) = unat n"
    "mq_max_msgs (mq_format sz n q) = n" "mq_msg_size (mq_format sz n q) = sz"
proof -
  let ?q = "q\<lparr>mq_msg_size := sz, mq_max_msgs := n, mq_head := None, mq_tail := None, mq_free := None\<rparr>"
  have e: "(fold mq_release xs p)\<lparr>mq_entry := 0\<rparr> = fold mq_release xs (p\<lparr>mq_entry := 0\<rparr>)" for xs p
    by (induction xs arbitrary: p) (simp_all add: release_entry)
  have f: "mq_format sz n q = fold mq_release [0..<unat n] (?q\<lparr>mq_entry := 0\<rparr>)"
    unfolding mq_format_def by (rule e)
  from fold_release_shape[of "?q\<lparr>mq_entry := 0\<rparr>" n "unat n"] assms
  have sh: "mq_shape (mq_format sz n q) [] (rev [0..<unat n])"
    and m: "mq_max_msgs (mq_format sz n q) = n" "mq_msg_size (mq_format sz n q) = sz"
    unfolding f by simp_all
  from shape_slots[OF sh] m show "mq_ok (mq_format sz n q)" "messages (mq_format sz n q) = []"
    "length (free_slots (mq_format sz n q)) = unat n" "mq_max_msgs (mq_format sz n q) = n" "mq_msg_size (mq_format sz n q) = sz"
    by (simp_all add: messages_def)
qed

subsection \<open>Operations\<close>

abbreviation mq_typed :: "kernel \<Rightarrow> nat \<Rightarrow> bool" where
  "mq_typed k m \<equiv> rt_object_get_type (ObjMq m) k = RT_Object_Class_MessageQueue"

definition upd_mq :: "nat \<Rightarrow> (rt_messagequeue \<Rightarrow> rt_messagequeue) \<Rightarrow> kernel \<Rightarrow> kernel" where
  "upd_mq m f k = k\<lparr>queues := (queues k)(m := f (queues k m))\<rparr>"

text \<open>The pool is \<open>pool_size\<close> bytes at an address of the caller; \<open>max_msgs\<close> slots fit. Its
  old bytes are what the slots hold.\<close>

definition rt_mq_init :: "nat \<Rightarrow> string \<Rightarrow> (nat \<Rightarrow> u8 list) \<Rightarrow> u32 \<Rightarrow> u32 \<Rightarrow> u8 \<Rightarrow> kernel \<Rightarrow> kernel option" where
  "rt_mq_init m name msgpool msg_size pool_size flag k = do {
     k1 \<leftarrow> rt_object_init (ObjMq m) RT_Object_Class_MessageQueue name k;
     let sz = (ucast (RT_ALIGN msg_size RT_ALIGN_SIZE) :: u16);
     let n = (ucast (pool_size div (ucast sz + 4)) :: u16);
     Some (upd_mq m (\<lambda>q. mq_format sz n (q\<lparr>mq_data := msgpool\<rparr>)) (ipc_init (ObjMq m) flag k1)) }"

definition rt_mq_detach :: "nat \<Rightarrow> kernel \<Rightarrow> kernel option" where
  "rt_mq_detach m k = do {
     _ \<leftarrow> rt_assert (mq_typed k m);
     _ \<leftarrow> rt_assert (rt_object_is_systemobject (ObjMq m) k);
     k1 \<leftarrow> rt_ipc_list_resume_all (Suspended (ObjMq m)) k;
     Some (rt_object_detach (ObjMq m) k1) }"

definition rt_mq_delete :: "nat \<Rightarrow> kernel \<Rightarrow> kernel option" where
  "rt_mq_delete m k = do {
     _ \<leftarrow> rt_assert (interrupt_nest k = 0);
     _ \<leftarrow> rt_assert (mq_typed k m);
     _ \<leftarrow> rt_assert (\<not> rt_object_is_systemobject (ObjMq m) k);
     k1 \<leftarrow> rt_ipc_list_resume_all (Suspended (ObjMq m)) k;
     rt_object_delete (ObjMq m) k1 }"

text \<open>The two allocations are parameters: the object block, and the pool of the queue (\<open>None\<close> where
  \<open>RT_KERNEL_MALLOC\<close> has no memory).\<close>

definition rt_mq_create ::
  "nat option \<Rightarrow> (nat \<Rightarrow> u8 list) option \<Rightarrow> string \<Rightarrow> u32 \<Rightarrow> u32 \<Rightarrow> u8 \<Rightarrow> kernel \<Rightarrow> (nat option \<times> kernel) option" where
  "rt_mq_create block pool name msg_size max_msgs flag k = do {
     _ \<leftarrow> rt_assert (interrupt_nest k = 0);
     (r, k1) \<leftarrow> rt_object_allocate (map_option ObjMq block) RT_Object_Class_MessageQueue name k;
     case block of
       None \<Rightarrow> Some (None, k1)
     | Some m \<Rightarrow>
         (let sz = (ucast (RT_ALIGN msg_size RT_ALIGN_SIZE) :: u16); n = (ucast max_msgs :: u16);
              k2 = upd_mq m (\<lambda>q. q\<lparr>mq_msg_size := sz, mq_max_msgs := n\<rparr>) (ipc_init (ObjMq m) flag k1)
          in case pool of
               None \<Rightarrow> do { k3 \<leftarrow> rt_mq_delete m k2; Some (None, k3) }
             | Some msgpool \<Rightarrow>
                 Some (Some m, upd_mq m (\<lambda>q. mq_format sz n (q\<lparr>mq_data := msgpool\<rparr>)) k2)) }"

text \<open>Sending at either end: \<open>buf\<close> is the \<open>size\<close> bytes at \<open>buffer\<close>.\<close>

definition mq_post ::
  "(nat \<Rightarrow> rt_messagequeue \<Rightarrow> rt_messagequeue) \<Rightarrow> nat \<Rightarrow> u8 list \<Rightarrow> kernel \<Rightarrow> (rt_err_t \<times> kernel) option" where
  "mq_post link m buf k = do {
     _ \<leftarrow> rt_assert (mq_typed k m);
     _ \<leftarrow> rt_assert (buf \<noteq> []);
     if length buf > unat (mq_msg_size (queues k m)) then Some (- RT_ERROR, k)
     else case mq_alloc (queues k m) of
       None \<Rightarrow> Some (- RT_EFULL, k)
     | Some (s, q) \<Rightarrow> do {
         k1 \<leftarrow> wake_one (Suspended (ObjMq m)) (upd_mq m (\<lambda>_. link s q) k);
         Some (RT_EOK, k1) } }"

definition rt_mq_send :: "nat \<Rightarrow> u8 list \<Rightarrow> kernel \<Rightarrow> (rt_err_t \<times> kernel) option" where
  "rt_mq_send m buf = mq_post (\<lambda>s q. mq_link_tail s (mq_fill s buf (mq_set_next s None q))) m buf"

definition rt_mq_urgent :: "nat \<Rightarrow> u8 list \<Rightarrow> kernel \<Rightarrow> (rt_err_t \<times> kernel) option" where
  "rt_mq_urgent m buf = mq_post (\<lambda>s q. mq_link_head s (mq_fill s buf q)) m buf"

definition mq_recv_round :: "nat \<Rightarrow> u32 \<Rightarrow> int \<Rightarrow> kernel \<Rightarrow> ((rt_err_t \<times> u8 list) outcome \<times> kernel) option" where
  "mq_recv_round m room timeout k =
     (if mq_entry (queues k m) = 0 then do {
        _ \<leftarrow> in_thread_context k;
        t \<leftarrow> current_thread k;
        let k1 = clear_error t k;
        if timeout = 0
        then Some (Ret (- RT_ETIMEOUT, []), upd_thread t (\<lambda>th. th\<lparr>th_error := - RT_ETIMEOUT\<rparr>) k1)
        else do {
          k2 \<leftarrow> block_on (Suspended (ObjMq m)) t (obj_flag k1 (ObjMq m)) timeout k1;
          Some (Wait, k2) } }
      else do {
        let q = queues k m;
        s \<leftarrow> mq_head q;
        let q1 = (mq_unlink s q)\<lparr>mq_entry := mq_entry q - 1\<rparr>;
        let got = take (min (unat room) (unat (mq_msg_size q1))) (mq_data q1 s);
        Some (Ret (RT_EOK, got), upd_mq m (\<lambda>_. mq_release s q1) k) })"

definition rt_mq_recv :: "nat \<Rightarrow> u32 \<Rightarrow> int \<Rightarrow> kernel \<Rightarrow> ((rt_err_t \<times> u8 list) outcome \<times> kernel) option" where
  "rt_mq_recv m room timeout k = do {
     _ \<leftarrow> rt_assert (mq_typed k m);
     _ \<leftarrow> rt_assert (room \<noteq> 0);
     if mq_entry (queues k m) = 0 \<and> timeout = 0 then Some (Ret (- RT_ETIMEOUT, []), k)
     else mq_recv_round m room timeout k }"

definition rt_mq_recv_resume :: "nat \<Rightarrow> u32 \<Rightarrow> int \<Rightarrow> u32 \<Rightarrow> tid \<Rightarrow> kernel \<Rightarrow> ((rt_err_t \<times> u8 list) outcome \<times> kernel) option" where
  "rt_mq_recv_resume m room timeout start t k =
     (if th_error (threads k t) \<noteq> RT_EOK then Some (Ret (th_error (threads k t), []), k)
      else mq_recv_round m room (wait_left timeout start (rt_tick_get k)) k)"

definition rt_mq_control :: "nat \<Rightarrow> int \<Rightarrow> kernel \<Rightarrow> (rt_err_t \<times> kernel) option" where
  "rt_mq_control m cmd k = do {
     _ \<leftarrow> rt_assert (mq_typed k m);
     if cmd = 1 then do {
       k1 \<leftarrow> rt_ipc_list_resume_all (Suspended (ObjMq m)) k;
       q \<leftarrow> mq_flush (queues k1 m);
       k2 \<leftarrow> rt_schedule (upd_mq m (\<lambda>_. q\<lparr>mq_entry := 0\<rparr>) k1);
       Some (RT_EOK, k2) }
     else Some (- RT_ERROR, k) }"


subsection \<open>What the calls do\<close>

definition mqx_inv :: "kernel \<Rightarrow> nat \<Rightarrow> bool" where
  "mqx_inv k m \<longleftrightarrow> mq_typed k m \<and> mq_ok (queues k m)
     \<and> (obj_flag k (ObjMq m) = RT_IPC_FLAG_FIFO \<or> obj_flag k (ObjMq m) = RT_IPC_FLAG_PRIO)
     \<and> waiters_clean k (Suspended (ObjMq m))"

lemma upd_mq_sel [simp]:
  "queues (upd_mq m f k) = (queues k)(m := f (queues k m))" "threads (upd_mq m f k) = threads k"
  "tlists (upd_mq m f k) = tlists k" "objs (upd_mq m f k) = objs k" "timers (upd_mq m f k) = timers k"
  "timer_list (upd_mq m f k) = timer_list k" "tick (upd_mq m f k) = tick k"
  "current_thread (upd_mq m f k) = current_thread k" "lock_nest (upd_mq m f k) = lock_nest k"
  "interrupt_nest (upd_mq m f k) = interrupt_nest k" "thread_state (upd_mq m f k) t = thread_state k t"
  "ready_group (upd_mq m f k) = ready_group k"
  "rt_object_get_type r (upd_mq m f k) = rt_object_get_type r k"
  by (simp_all add: upd_mq_def thread_state_def rt_object_get_type_def)

lemma upd_mq_kinv [simp]: "kinv (upd_mq m f k) \<longleftrightarrow> kinv k"
  by (auto intro: kinv_same simp: same_threads_def)

lemma alloc_some:
  assumes "mq_ok q" "free_slots q \<noteq> []"
  obtains s q' where "mq_alloc q = Some (s, q')"
  using assms by (cases "free_slots q") (auto simp: mq_ok_def mq_shape_def mq_alloc_def)

text \<open>Filling the slot in flight and linking it at one end.\<close>

lemma post_shape:
  assumes ok: "mq_ok q" and al: "mq_alloc q = Some (s, q1)" and len: "length buf \<le> unat (mq_msg_size q)"
  shows "mq_ok (mq_link_tail s (mq_fill s buf (mq_set_next s None q1)))"
    "messages (mq_link_tail s (mq_fill s buf (mq_set_next s None q1))) = messages q @ [buf @ drop (length buf) (mq_data q s)]"
    "mq_ok (mq_link_head s (mq_fill s buf q1))"
    "messages (mq_link_head s (mq_fill s buf q1)) = (buf @ drop (length buf) (mq_data q s)) # messages q"
    "length (mq_data q s) = unat (mq_msg_size q)"
proof -
  let ?u = "used_slots q"
  have sh: "mq_shape q ?u (free_slots q)" using ok by (simp add: mq_ok_def)
  note a = alloc_shape[OF sh al]
  have s: "s \<notin> set (?u @ free_slots q1)" "s < mq_capacity q1" using sh a(1,4) by (auto simp: mq_shape_def)
  then show "length (mq_data q s) = unat (mq_msg_size q)" using a by (simp add: mq_shape_def)
  have m: "map (mq_data (mq_fill s buf p)) ?u = map (mq_data p) ?u" for p using s by (auto simp: mq_fill_def)
  have sn: "mq_shape (mq_set_next s None q1) ?u (free_slots q1)" using a(2) s by (auto simp: mq_shape_def)
  have t: "mq_shape (mq_link_tail s (mq_fill s buf (mq_set_next s None q1))) (?u @ [s]) (free_slots q1)"
    by (rule link_tail_shape[OF fill_shape[OF sn]]) (use s len a(5) in \<open>simp_all add: mq_fill_def\<close>)
  have h: "mq_shape (mq_link_head s (mq_fill s buf q1)) (s # ?u) (free_slots q1)"
    by (rule link_head_shape[OF fill_shape[OF a(2)]]) (use s len a(5) in \<open>simp_all add: mq_fill_def\<close>)
  show "mq_ok (mq_link_tail s (mq_fill s buf (mq_set_next s None q1)))" "mq_ok (mq_link_head s (mq_fill s buf q1))"
    using shape_slots(3)[OF t] shape_slots(3)[OF h] by simp_all
  show "messages (mq_link_tail s (mq_fill s buf (mq_set_next s None q1))) = messages q @ [buf @ drop (length buf) (mq_data q s)]"
    unfolding messages_def shape_slots(1)[OF t] using a(3) s by (auto simp: mq_fill_def)
  show "messages (mq_link_head s (mq_fill s buf q1)) = (buf @ drop (length buf) (mq_data q s)) # messages q"
    unfolding messages_def shape_slots(1)[OF h] using a(3) s by (auto simp: mq_fill_def)
qed

text \<open>A send stores the message at its end of the queue and wakes the first receiver.\<close>

lemma mq_post_stores:
  assumes i: "kinv k" and mi: "mqx_inv k m" and room: "free_slots (queues k m) \<noteq> []"
    and buf: "buf \<noteq> []" "length buf \<le> unat (mq_msg_size (queues k m))"
    and link: "\<And>s q1. mq_alloc (queues k m) = Some (s, q1) \<Longrightarrow>
      mq_ok (link s q1) \<and> (\<exists>stale. messages (link s q1) = place (buf @ stale))"
  obtains k' stale where "mq_post link m buf k = Some (RT_EOK, k')" "kinv k'" "mqx_inv k' m"
    "messages (queues k' m) = place (buf @ stale)"
    "tlists k' (Suspended (ObjMq m)) = tl (tlists k (Suspended (ObjMq m)))"
    "\<And>t ts. tlists k (Suspended (ObjMq m)) = t # ts \<Longrightarrow> thread_state k' t = RT_THREAD_READY \<and> th_error (threads k' t) = RT_EOK"
    "\<And>s. s \<notin> set (take 1 (tlists k (Suspended (ObjMq m)))) \<Longrightarrow> threads k' s = threads k s"
proof -
  let ?h = "Suspended (ObjMq m)"
  have ok: "mq_ok (queues k m)" using mi by (simp add: mqx_inv_def)
  obtain s q1 where al: "mq_alloc (queues k m) = Some (s, q1)" using alloc_some[OF ok room] .
  let ?u = "upd_mq m (\<lambda>_. link s q1) k"
  have u: "kinv ?u" using i by simp
  obtain stale where st: "messages (link s q1) = place (buf @ stale)" using link[OF al] by blast
  show ?thesis
  proof (rule wake_one_wakes[OF u wait_head_simps(1), of "ObjMq m"], goal_cases)
    case (1 k')
    note a = 1
    have ty: "rt_object_get_type (ObjMq m) k' = rt_object_get_type (ObjMq m) k"
      using a(8) by (simp add: rt_object_get_type_def)
    have "waiters_clean k ?h" using mi by (simp add: mqx_inv_def)
    then have "waiters_clean k' ?h" using a(3,7) by (auto elim!: waiters_clean_kept)
    then have "mqx_inv k' m" using mi ty a(9)[of "ObjMq m"] a(17) link[OF al] by (simp add: mqx_inv_def)
    moreover have "mq_post link m buf k = Some (RT_EOK, k')"
      using mi buf al a(1) by (simp add: mq_post_def mqx_inv_def)
    moreover have "th_error (threads k' t) = RT_EOK" if "tlists k ?h = t # ts" for t ts
      using that mi a(7) by (simp add: mqx_inv_def waiters_clean_def)
    ultimately show ?case by (intro that[of k' stale]) (use a st in simp_all)
  qed
qed


lemma mq_full:
  assumes "mqx_inv k m" "free_slots (queues k m) = []" "buf \<noteq> []"
    and "length buf \<le> unat (mq_msg_size (queues k m))"
  shows "mq_post link m buf k = Some (- RT_EFULL, k)"
proof -
  have "mq_alloc (queues k m) = None"
    using assms(1,2) by (simp add: mqx_inv_def mq_ok_def mq_shape_def mq_alloc_def)
  then show ?thesis using assms by (simp add: mq_post_def mqx_inv_def)
qed

text \<open>A receive from a queue that holds messages takes the first one and frees its slot.\<close>

lemma mq_recv_round_takes:
  assumes i: "kinv k" and mi: "mqx_inv k m" and ne: "messages (queues k m) = msg # rest"
  obtains k' where "mq_recv_round m room timeout k =
      Some (Ret (RT_EOK, take (min (unat room) (unat (mq_msg_size (queues k m)))) msg), k')" "kinv k'" "mqx_inv k' m"
    "messages (queues k' m) = rest" "free_slots (queues k' m) \<noteq> []" "threads k' = threads k" "tlists k' = tlists k"
proof -
  let ?q = "queues k m"
  let ?u = "used_slots ?q" and ?f = "free_slots ?q"
  have sh: "mq_shape ?q ?u ?f" using mi by (simp add: mqx_inv_def mq_ok_def)
  from ne obtain s us where us: "?u = s # us" "msg = mq_data ?q s" "rest = map (mq_data ?q) us"
    by (auto simp: messages_def)
  have hd: "mq_head ?q = Some s" and e0: "mq_entry ?q \<noteq> 0" using sh us(1) by (auto simp: mq_shape_def)
  let ?q1 = "(mq_unlink s ?q)\<lparr>mq_entry := mq_entry ?q - 1\<rparr>"
  have s1: "mq_shape ?q1 us ?f" using unlink_shape sh us(1) by simp
  have s2: "mq_shape (mq_release s ?q1) us (s # ?f)"
    by (rule release_shape[OF s1]) (use sh us(1) in \<open>auto simp: mq_shape_def\<close>)
  let ?k = "upd_mq m (\<lambda>_. mq_release s ?q1) k"
  have "mqx_inv ?k m" using mi shape_slots(3)[OF s2] by (simp add: mqx_inv_def waiters_clean_def)
  then show ?thesis
    by (intro that[of ?k])
      (use i us hd e0 shape_slots[OF s2] in \<open>simp_all add: mq_recv_round_def messages_def Let_def\<close>)
qed

lemma mq_recv_round_blocks:
  assumes i: "kinv k" and mi: "mqx_inv k m" and e: "messages (queues k m) = []"
    and c: "current_thread k = Some t" and r: "thread_state k t = RT_THREAD_READY"
    and ni: "interrupt_nest k = 0" and b: "timeout \<noteq> 0" "timeout < 0x7FFFFFFF"
    and o: "thread_state k u = RT_THREAD_READY" "u \<noteq> t"
  obtains k' where "mq_recv_round m room timeout k = Some (Wait, k')" "kinv k'" "mqx_inv k' m"
    "thread_state k' t = RT_THREAD_SUSPEND" "t \<in> set (tlists k' (Suspended (ObjMq m)))" "queues k' = queues k"
    "timeout > 0 \<Longrightarrow> ThreadTimer t \<in> set (timer_list k')" "timeout < 0 \<Longrightarrow> ThreadTimer t \<notin> set (timer_list k')"
proof -
  let ?fl = "obj_flag k (ObjMq m)"
  have fl: "?fl = RT_IPC_FLAG_FIFO \<or> ?fl = RT_IPC_FLAG_PRIO" using mi by (simp add: mqx_inv_def)
  have ce: "kinv (clear_error t k)" by (rule clear_error_kinv[OF i])
  have e0: "mq_entry (queues k m) = 0"
    using mi e by (auto simp: mqx_inv_def mq_ok_def mq_shape_def messages_def unat_eq_0)
  show ?thesis
  proof (rule block_on_waits[of "clear_error t k" t "Suspended (ObjMq m)" ?fl timeout u], goal_cases)
    case (9 k')
    note a = 9
    have er: "th_error (threads k' t) = RT_EOK" by (subst a(9)) simp
    have "waiters_clean (clear_error t k) (Suspended (ObjMq m))" using mi by (simp add: waiters_clean_def mqx_inv_def)
    from waiters_clean_insert[OF this fl a(4) er a(8)] have "waiters_clean k' (Suspended (ObjMq m))" by simp
    moreover have "rt_object_get_type (ObjMq m) k' = rt_object_get_type (ObjMq m) k"
      using a(12) by (simp add: rt_object_get_type_def)
    moreover have "obj_flag k' (ObjMq m) = ?fl" using a(13)[of "ObjMq m"] by simp
    ultimately have "mqx_inv k' m" using mi a(18) by (simp add: mqx_inv_def)
    moreover have "t \<in> set (tlists k' (Suspended (ObjMq m)))" using a(4) wait_insert_props(1)[OF fl] by simp
    moreover have "mq_recv_round m room timeout k = Some (Wait, k')"
      using c ni b(1) a(1) e0 by (simp add: mq_recv_round_def in_thread_context_def Let_def)
    ultimately show ?case by (intro that[of k']) (use a in simp_all)
  qed (use ce c r fl b o in simp_all)
qed

lemma mq_control_resets:
  assumes i: "kinv k" and mi: "mqx_inv k m" and r: "thread_state k u = RT_THREAD_READY"
  obtains k' where "rt_mq_control m 1 k = Some (RT_EOK, k')" "kinv k'" "mqx_inv k' m" "messages (queues k' m) = []"
    "length (free_slots (queues k' m)) = length (used_slots (queues k m)) + length (free_slots (queues k m))"
    "tlists k' (Suspended (ObjMq m)) = []"
    "\<And>t. t \<in> set (tlists k (Suspended (ObjMq m))) \<Longrightarrow> thread_state k' t = RT_THREAD_READY \<and> th_error (threads k' t) = - RT_ERROR"
proof -
  let ?h = "Suspended (ObjMq m)" and ?q = "queues k m"
  from resume_all_wakes[OF i wait_head_simps(1), of "ObjMq m"] obtain k1 where
    k1: "rt_ipc_list_resume_all ?h k = Some k1" "kinv k1" "tlists k1 ?h = []"
    "\<And>t. if t \<in> set (tlists k ?h)
          then thread_state k1 t = RT_THREAD_READY \<and> th_error (threads k1 t) = - RT_ERROR
            \<and> th_current_priority (threads k1 t) = th_current_priority (threads k t)
          else threads k1 t = threads k t"
    "\<And>x. o_type (objs k1 x) = o_type (objs k x)" "\<And>x. (\<forall>i. x \<noteq> ObjTimer i) \<Longrightarrow> objs k1 x = objs k x"
    "queues k1 = queues k" by blast
  have "mq_shape (?q\<lparr>mq_entry := mq_entry ?q\<rparr>) (used_slots ?q) (free_slots ?q)" using mi by (simp add: mqx_inv_def mq_ok_def)
  from mq_flush_returns[OF this] obtain q where q: "mq_flush ?q = Some q"
    "mq_shape (q\<lparr>mq_entry := 0\<rparr>) [] (rev (used_slots ?q) @ free_slots ?q)" by blast
  let ?u = "upd_mq m (\<lambda>_. q\<lparr>mq_entry := 0\<rparr>) k1"
  have u: "kinv ?u" using k1(2) by simp
  have "thread_state ?u u = RT_THREAD_READY"
    using k1(4)[of u] r by (cases "u \<in> set (tlists k ?h)") (simp_all add: thread_state_def)
  from rt_schedule_some[OF kinvD(1)[OF u] this] obtain k' where sc: "rt_schedule ?u = Some k'" by blast
  note f = rt_schedule_frame[OF sc]
  have q': "queues k' m = q\<lparr>mq_entry := 0\<rparr>" using f by simp
  have "rt_object_get_type (ObjMq m) k' = rt_object_get_type (ObjMq m) k" "obj_flag k' (ObjMq m) = obj_flag k (ObjMq m)"
    using f k1(5,6) by (simp_all add: rt_object_get_type_def)
  then have "mqx_inv k' m" using mi f k1(3) shape_slots(3)[OF q(2)] q' by (simp add: mqx_inv_def waiters_clean_def)
  moreover have "rt_mq_control m 1 k = Some (RT_EOK, k')"
    using mi k1(1,7) q(1) sc by (simp add: rt_mq_control_def mqx_inv_def)
  moreover have "thread_state k' t = RT_THREAD_READY \<and> th_error (threads k' t) = - RT_ERROR"
    if "t \<in> set (tlists k ?h)" for t using that k1(4)[of t] f by (simp add: thread_state_def)
  ultimately show ?thesis
    using kinv_schedule[OF sc u] f k1(3) shape_slots[OF q(2)] q' by (intro that[of k']) (simp_all add: messages_def)
qed

end
