(* ===== verification/RT_Alloc.thy ===== *)
theory RT_Alloc
  imports RT_Prelude
begin

text \<open>
  The contract of the program's allocators (the fixed-block pools of \<open>src/mempool.c\<close> and the heap of
  \<open>src/mem.c\<close>): a request may be refused, a granted block was not in use, and a block given back stops being
  in use. A client's run of requests and returns is judged by what the client holds.
\<close>

datatype ('r, 'b) alloc_op = Request 'r | Return 'b

text \<open>A run: a refused request changes nothing, and the client gives back only what it holds. The
  result is the blocks granted, the blocks held and the allocator.\<close>

fun run_alloc :: "('r \<Rightarrow> 's \<Rightarrow> ('b \<times> 's) option) \<Rightarrow> ('b \<Rightarrow> 's \<Rightarrow> 's) \<Rightarrow>
    ('r, 'b) alloc_op list \<Rightarrow> 'b list \<Rightarrow> 's \<Rightarrow> 'b list \<times> 's" where
  "run_alloc alloc free [] held s = (held, s)"
| "run_alloc alloc free (Request r # ops) held s =
     (case alloc r s of
        None \<Rightarrow> run_alloc alloc free ops held s
      | Some (b, s') \<Rightarrow> run_alloc alloc free ops (b # held) s')"
| "run_alloc alloc free (Return b # ops) held s =
     (if b \<in> set held then run_alloc alloc free ops (remove1 b held) (free b s) else run_alloc alloc free ops held s)"

locale allocator =
  fixes inv :: "'s \<Rightarrow> bool"
    and live :: "'s \<Rightarrow> 'b set"
    and alloc :: "'r \<Rightarrow> 's \<Rightarrow> ('b \<times> 's) option"
    and free :: "'b \<Rightarrow> 's \<Rightarrow> 's"
  assumes alloc_law: "inv s \<Longrightarrow> alloc r s = Some (b, s') \<Longrightarrow> inv s' \<and> b \<notin> live s \<and> live s' = insert b (live s)"
    and free_law: "inv s \<Longrightarrow> b \<in> live s \<Longrightarrow> inv (free b s) \<and> live (free b s) = live s - {b}"
begin

text \<open>No block is ever handed out twice: what the client holds stays free of duplicates, and is
  exactly what the allocator counts as in use.\<close>

lemma run_exclusive:
  "inv s \<Longrightarrow> distinct held \<Longrightarrow> set held = live s \<Longrightarrow> run_alloc alloc free ops held s = (held', s') \<Longrightarrow>
   inv s' \<and> distinct held' \<and> set held' = live s'"
proof (induction ops arbitrary: held s)
  case (Cons op ops)
  show ?case
  proof (cases op)
    case (Request r)
    show ?thesis
    proof (cases "alloc r s")
      case None
      with Cons Request show ?thesis by simp
    next
      case (Some p)
      obtain b s1 where p: "p = (b, s1)" by (cases p)
      note l = alloc_law[OF Cons.prems(1) Some[unfolded p]]
      show ?thesis by (rule Cons.IH[of s1 "b # held"]) (use Cons.prems l Request Some p in simp_all)
    qed
  next
    case (Return b)
    show ?thesis
    proof (cases "b \<in> set held")
      case True
      then have l: "inv (free b s) \<and> live (free b s) = live s - {b}" using free_law Cons.prems by simp
      show ?thesis
        by (rule Cons.IH[of "free b s" "remove1 b held"]) (use Cons.prems l Return True in simp_all)
    qed (use Cons Return in simp)
  qed
qed simp

end

end
