(* ===== verification/RT_Mempool.thy ===== *)
theory RT_Mempool
  imports RT_Sem RT_Alloc
begin

text \<open>
  The fixed-block memory pools of \<open>src/mempool.c\<close>. A free block's first word links the free list, an
  allocated block's first word holds the pool it came from. Blocks are named by their index in
  the pool. Threads that find no free block wait in front of those already waiting.
\<close>

subsection \<open>The pool\<close>

text \<open>One pass of the loop that links block \<open>i\<close> to its successor.\<close>

definition mp_link :: "nat \<Rightarrow> nat option \<Rightarrow> rt_mempool \<Rightarrow> rt_mempool" where
  "mp_link b p mp = mp\<lparr>mp_header := (mp_header mp)(b := NextFree p)\<rparr>"

text \<open>Laying out the free list. With no block at all the last store, through index
  \<open>offset - 1\<close>, falls in front of the pool.\<close>

definition mp_format :: "rt_mempool \<Rightarrow> rt_mempool option" where
  "mp_format mp =
     (let n = unat (mp_total_count mp);
          mp1 = fold (\<lambda>i. mp_link i (Some (Suc i))) [0..<n] mp
      in if n = 0 then None else Some ((mp_link (n - 1) None mp1)\<lparr>mp_block_list := Some 0\<rparr>))"

text \<open>The critical section of \<open>rt_mp_alloc\<close> with a block available: an empty list fails its
  assertion, and a list that runs into an allocated block follows a pool address as a link.\<close>

definition mp_take :: "nat \<Rightarrow> rt_mempool \<Rightarrow> (nat \<times> rt_mempool) option" where
  "mp_take p mp = do {
     b \<leftarrow> mp_block_list mp;
     case mp_header mp b of
       PoolPtr _ \<Rightarrow> None
     | NextFree nx \<Rightarrow> Some (b, mp\<lparr>mp_free_count := mp_free_count mp - 1, mp_block_list := nx,
                                mp_header := (mp_header mp)(b := PoolPtr p)\<rparr>) }"

definition mp_give :: "nat \<Rightarrow> rt_mempool \<Rightarrow> rt_mempool" where
  "mp_give b mp = (mp_link b (mp_block_list mp) mp)\<lparr>mp_free_count := mp_free_count mp + 1, mp_block_list := Some b\<rparr>"

definition mp_next :: "rt_mempool \<Rightarrow> nat slist_heap" where
  "mp_next mp b = (case mp_header mp b of NextFree p \<Rightarrow> p | PoolPtr _ \<Rightarrow> None)"

abbreviation mp_capacity :: "rt_mempool \<Rightarrow> nat" where
  "mp_capacity mp \<equiv> unat (mp_total_count mp)"

definition free_blocks :: "rt_mempool \<Rightarrow> nat list" where
  "free_blocks mp = walk (mp_next mp) (mp_capacity mp) (mp_block_list mp)"

definition held_blocks :: "rt_mempool \<Rightarrow> nat set" where
  "held_blocks mp = {0..<mp_capacity mp} - set (free_blocks mp)"

definition mp_shape :: "nat \<Rightarrow> rt_mempool \<Rightarrow> nat list \<Rightarrow> bool" where
  "mp_shape p mp fs \<longleftrightarrow> spath (mp_next mp) (mp_block_list mp) fs \<and> distinct fs \<and> set fs \<subseteq> {0..<mp_capacity mp}
     \<and> unat (mp_free_count mp) = length fs
     \<and> (\<forall>b<mp_capacity mp. if b \<in> set fs then \<exists>nx. mp_header mp b = NextFree nx else mp_header mp b = PoolPtr p)"

definition mp_ok :: "nat \<Rightarrow> rt_mempool \<Rightarrow> bool" where
  "mp_ok p mp \<longleftrightarrow> (\<exists>fs. mp_shape p mp fs)"

lemma mp_shape_free:
  assumes "mp_shape p mp fs"
  shows "free_blocks mp = fs"
proof -
  have "length fs \<le> mp_capacity mp" using assms by (intro distinct_below) (simp_all add: mp_shape_def)
  then show ?thesis using assms by (simp add: free_blocks_def mp_shape_def walk_spath)
qed

lemma mp_ok_shape: "mp_ok p mp \<Longrightarrow> mp_shape p mp (free_blocks mp)"
  using mp_shape_free by (auto simp: mp_ok_def)

lemma mp_next_simps [simp]:
  "mp_next (mp_link b q mp) = (mp_next mp)(b := q)"
  "mp_next (mp\<lparr>mp_block_list := l\<rparr>) = mp_next mp" "mp_next (mp\<lparr>mp_free_count := c\<rparr>) = mp_next mp"
  "mp_next (mp\<lparr>mp_header := (mp_header mp)(b := PoolPtr p)\<rparr>) = (mp_next mp)(b := None)"
  by (auto simp: mp_next_def mp_link_def fun_eq_iff)

lemma mp_link_sel [simp]:
  "mp_header (mp_link b q mp) = (mp_header mp)(b := NextFree q)" "mp_total_count (mp_link b q mp) = mp_total_count mp"
  "mp_free_count (mp_link b q mp) = mp_free_count mp" "mp_block_list (mp_link b q mp) = mp_block_list mp"
  "mp_suspend_count (mp_link b q mp) = mp_suspend_count mp"
  by (simp_all add: mp_link_def)

lemma mp_take_ok:
  assumes ok: "mp_ok p mp" and ne: "mp_free_count mp \<noteq> 0"
  obtains b mp' where "mp_take p mp = Some (b, mp')" "mp_ok p mp'" "free_blocks mp = b # free_blocks mp'"
    "b \<notin> held_blocks mp" "held_blocks mp' = insert b (held_blocks mp)" "mp_suspend_count mp' = mp_suspend_count mp"
    "mp_free_count mp' = mp_free_count mp - 1" "mp_total_count mp' = mp_total_count mp"
proof -
  note sh = mp_ok_shape[OF ok]
  obtain b fs where fs: "free_blocks mp = b # fs"
    using sh ne by (cases "free_blocks mp") (auto simp: mp_shape_def unat_eq_0)
  have b: "b < mp_capacity mp" "mp_block_list mp = Some b" using sh fs by (auto simp: mp_shape_def)
  then obtain nx where nx: "mp_header mp b = NextFree nx" using sh fs by (fastforce simp: mp_shape_def)
  then have nb: "mp_next mp b = nx" by (simp add: mp_next_def)
  define mp' where "mp' = mp\<lparr>mp_free_count := mp_free_count mp - 1, mp_block_list := nx,
                                mp_header := (mp_header mp)(b := PoolPtr p)\<rparr>"
  have n': "mp_next mp' = (mp_next mp)(b := None)" by (auto simp: mp_next_def mp'_def fun_eq_iff)
  have c: "unat (mp_free_count mp - 1) = length fs" using sh ne fs by (simp add: mp_shape_def unat_minus_one)
  have sh': "mp_shape p mp' fs"
    using sh fs b nb c unfolding mp_shape_def n' by (auto simp: mp'_def)
  have f': "free_blocks mp' = fs" by (rule mp_shape_free[OF sh'])
  have cp: "mp_capacity mp' = mp_capacity mp" by (simp add: mp'_def)
  show ?thesis
  proof (rule that[of b mp'])
    show "mp_take p mp = Some (b, mp')" using b nx by (simp add: mp_take_def mp'_def)
    show "mp_ok p mp'" using sh' by (auto simp: mp_ok_def)
    show "free_blocks mp = b # free_blocks mp'" using fs f' by simp
    show "b \<notin> held_blocks mp" using fs by (simp add: held_blocks_def)
    show "held_blocks mp' = insert b (held_blocks mp)"
      using sh fs f' b cp by (auto simp: held_blocks_def mp_shape_def)
  qed (simp_all add: mp'_def)
qed

lemma mp_give_ok:
  assumes ok: "mp_ok p mp" and b: "b \<in> held_blocks mp"
  shows "mp_ok p (mp_give b mp)" "free_blocks (mp_give b mp) = b # free_blocks mp"
    "held_blocks (mp_give b mp) = held_blocks mp - {b}"
proof -
  note sh = mp_ok_shape[OF ok]
  let ?f = "free_blocks mp"
  have b': "b < mp_capacity mp" "b \<notin> set ?f" using b by (simp_all add: held_blocks_def)
  have "length (b # ?f) \<le> mp_capacity mp" using sh b' by (intro distinct_below) (auto simp: mp_shape_def)
  then have "mp_free_count mp < mp_total_count mp" using sh by (simp add: mp_shape_def word_less_nat_alt)
  from unat_Suc_less[OF this] have c: "unat (mp_free_count mp + 1) = Suc (length ?f)" using sh by (simp add: mp_shape_def)
  have n': "mp_next (mp_give b mp) = (mp_next mp)(b := mp_block_list mp)" by (auto simp: mp_next_def mp_give_def fun_eq_iff)
  have sh': "mp_shape p (mp_give b mp) (b # ?f)"
    using sh b' c unfolding mp_shape_def n' by (auto simp: mp_give_def)
  then show "mp_ok p (mp_give b mp)" by (auto simp: mp_ok_def)
  show "free_blocks (mp_give b mp) = b # free_blocks mp" by (rule mp_shape_free[OF sh'])
  then show "held_blocks (mp_give b mp) = held_blocks mp - {b}" by (auto simp: held_blocks_def mp_give_def)
qed

text \<open>The pool as an allocator: a request is the non-blocking call.\<close>

definition mp_request :: "nat \<Rightarrow> unit \<Rightarrow> rt_mempool \<Rightarrow> (nat \<times> rt_mempool) option" where
  "mp_request p u mp = (if mp_free_count mp = 0 then None else mp_take p mp)"

interpretation pool: allocator "mp_ok p" held_blocks "mp_request p" mp_give for p
proof unfold_locales
  fix mp u b mp' assume ok: "mp_ok p mp" and r: "mp_request p u mp = Some (b, mp')"
  then have "mp_free_count mp \<noteq> 0" by (auto simp: mp_request_def split: if_splits)
  from mp_take_ok[OF ok this] show "mp_ok p mp' \<and> b \<notin> held_blocks mp \<and> held_blocks mp' = insert b (held_blocks mp)"
    using r by (auto simp: mp_request_def split: if_splits)
next
  fix mp b assume "mp_ok p mp" "b \<in> held_blocks mp"
  then show "mp_ok p (mp_give b mp) \<and> held_blocks (mp_give b mp) = held_blocks mp - {b}"
    using mp_give_ok by blast
qed

text \<open>A freshly laid out pool has every block free, in address order.\<close>

lemma spath_upto:
  assumes "\<And>i. i < n \<Longrightarrow> h (m + i) = (if i + 1 < n then Some (m + i + 1) else None)" "0 < n"
  shows "spath h (Some m) [m..<m + n]"
  using assms
proof (induction n arbitrary: m)
  case (Suc n)
  show ?case
  proof (cases "n = 0")
    case True
    then show ?thesis using Suc.prems(1)[of 0] by simp
  next
    case False
    have "spath h (Some (Suc m)) [Suc m..<Suc m + n]"
      using Suc.prems(1)[of "Suc _"] False by (intro Suc.IH) simp_all
    then show ?thesis using Suc.prems(1)[of 0] False by (simp add: upt_conv_Cons)
  qed
qed simp

lemma fold_mp_link:
  "mp_header (fold (\<lambda>i. mp_link i (Some (Suc i))) [0..<n] mp) = (\<lambda>b. if b < n then NextFree (Some (Suc b)) else mp_header mp b)"
  "mp_total_count (fold (\<lambda>i. mp_link i (Some (Suc i))) [0..<n] mp) = mp_total_count mp"
  "mp_free_count (fold (\<lambda>i. mp_link i (Some (Suc i))) [0..<n] mp) = mp_free_count mp"
  "mp_suspend_count (fold (\<lambda>i. mp_link i (Some (Suc i))) [0..<n] mp) = mp_suspend_count mp"
  by (induction n) (auto simp: fun_eq_iff)

lemma mp_format_ok:
  assumes n: "mp_total_count mp \<noteq> 0" and c: "mp_free_count mp = mp_total_count mp"
  obtains mp' where "mp_format mp = Some mp'" "mp_ok p mp'" "free_blocks mp' = [0..<mp_capacity mp]"
    "mp_total_count mp' = mp_total_count mp" "mp_suspend_count mp' = mp_suspend_count mp"
proof -
  define n where "n = mp_capacity mp"
  have n0: "0 < n" using assms(1) by (simp add: n_def unat_gt_0)
  define mp' where "mp' = (mp_link (n - 1) None (fold (\<lambda>i. mp_link i (Some (Suc i))) [0..<n] mp))\<lparr>mp_block_list := Some 0\<rparr>"
  have h: "mp_header mp' = (\<lambda>b. if b < n then NextFree (if Suc b < n then Some (Suc b) else None) else mp_header mp b)"
    using n0 by (auto simp: mp'_def fold_mp_link fun_eq_iff)
  have "spath (mp_next mp') (Some 0) [0..<0 + n]"
    using n0 by (intro spath_upto) (simp_all add: mp_next_def h)
  then have sh: "mp_shape p mp' [0..<n]"
    using c by (auto simp: mp_shape_def mp'_def fold_mp_link n_def[symmetric] h[unfolded mp'_def])
  show ?thesis
  proof (rule that[of mp'])
    show "mp_format mp = Some mp'" using n0 by (simp add: mp_format_def mp'_def n_def[symmetric] Let_def)
    show "mp_ok p mp'" using sh by (auto simp: mp_ok_def)
    show "free_blocks mp' = [0..<mp_capacity mp]" using mp_shape_free[OF sh] by (simp add: n_def)
  qed (simp_all add: mp'_def fold_mp_link)
qed


subsection \<open>Operations\<close>

abbreviation mp_typed :: "kernel \<Rightarrow> nat \<Rightarrow> bool" where
  "mp_typed k p \<equiv> rt_object_get_type (ObjMp p) k = RT_Object_Class_MemPool"

definition upd_mp :: "nat \<Rightarrow> (rt_mempool \<Rightarrow> rt_mempool) \<Rightarrow> kernel \<Rightarrow> kernel" where
  "upd_mp p f k = k\<lparr>pools := (pools k)(p := f (pools k p))\<rparr>"

definition mp_setup :: "nat \<Rightarrow> u32 \<Rightarrow> u32 \<Rightarrow> u32 \<Rightarrow> kernel \<Rightarrow> kernel option" where
  "mp_setup p sz block_size cnt k = do {
     mp \<leftarrow> mp_format ((pools k p)\<lparr>mp_size := sz, mp_block_size := block_size, mp_total_count := cnt,
                                mp_free_count := cnt, mp_suspend_count := 0\<rparr>);
     Some ((upd_mp p (\<lambda>_. mp) k)\<lparr>tlists := (tlists k)(Suspended (ObjMp p) := [])\<rparr>) }"

definition rt_mp_init :: "nat \<Rightarrow> string \<Rightarrow> u32 \<Rightarrow> u32 \<Rightarrow> kernel \<Rightarrow> kernel option" where
  "rt_mp_init p name sz block_size k = do {
     k1 \<leftarrow> rt_object_init (ObjMp p) RT_Object_Class_MemPool name k;
     let sz1 = RT_ALIGN_DOWN sz RT_ALIGN_SIZE;
     let bs = RT_ALIGN block_size RT_ALIGN_SIZE;
     mp_setup p sz1 bs (sz1 div (bs + 4)) k1 }"

text \<open>The loop shared by \<open>rt_mp_detach\<close> and \<open>rt_mp_delete\<close>.\<close>

partial_function (option) mp_resume_everybody :: "nat \<Rightarrow> kernel \<Rightarrow> kernel option" where
  "mp_resume_everybody p k =
     (case tlists k (Suspended (ObjMp p)) of
        [] \<Rightarrow> Some k
      | t # _ \<Rightarrow> do {
          (_, k1) \<leftarrow> rt_thread_resume t (upd_thread t (\<lambda>th. th\<lparr>th_error := - RT_ERROR\<rparr>) k);
          mp_resume_everybody p (upd_mp p (\<lambda>mp. mp\<lparr>mp_suspend_count := mp_suspend_count mp - 1\<rparr>) k1) })"

definition rt_mp_detach :: "nat \<Rightarrow> kernel \<Rightarrow> kernel option" where
  "rt_mp_detach p k = do {
     _ \<leftarrow> rt_assert (mp_typed k p);
     _ \<leftarrow> rt_assert (rt_object_is_systemobject (ObjMp p) k);
     k1 \<leftarrow> mp_resume_everybody p k;
     Some (rt_object_detach (ObjMp p) k1) }"

definition rt_mp_create :: "nat option \<Rightarrow> bool \<Rightarrow> string \<Rightarrow> u32 \<Rightarrow> u32 \<Rightarrow> kernel \<Rightarrow> (nat option \<times> kernel) option" where
  "rt_mp_create block malloced name block_count block_size k = do {
     _ \<leftarrow> rt_assert (interrupt_nest k = 0);
     (r, k1) \<leftarrow> rt_object_allocate (map_option ObjMp block) RT_Object_Class_MemPool name k;
     case block of
       None \<Rightarrow> Some (None, k1)
     | Some p \<Rightarrow>
         (let bs = RT_ALIGN block_size RT_ALIGN_SIZE;
              k2 = upd_mp p (\<lambda>mp. mp\<lparr>mp_block_size := bs, mp_size := (bs + 4) * block_count\<rparr>) k1
          in if malloced then do { k3 \<leftarrow> mp_setup p ((bs + 4) * block_count) bs block_count k2; Some (Some p, k3) }
             else do { k3 \<leftarrow> rt_object_delete (ObjMp p) k2; Some (None, k3) }) }"

definition rt_mp_delete :: "nat \<Rightarrow> kernel \<Rightarrow> kernel option" where
  "rt_mp_delete p k = do {
     _ \<leftarrow> rt_assert (interrupt_nest k = 0);
     _ \<leftarrow> rt_assert (mp_typed k p);
     _ \<leftarrow> rt_assert (\<not> rt_object_is_systemobject (ObjMp p) k);
     k1 \<leftarrow> mp_resume_everybody p k;
     rt_object_delete (ObjMp p) k1 }"

text \<open>\<open>rt_set_errno\<close> of \<open>src/kservice.c\<close> for a running thread; the cell used in interrupt
  context is not part of the state.\<close>

definition rt_set_errno :: "rt_err_t \<Rightarrow> kernel \<Rightarrow> kernel" where
  "rt_set_errno e k =
     (if interrupt_nest k \<noteq> 0 then k
      else case current_thread k of None \<Rightarrow> k | Some t \<Rightarrow> upd_thread t (\<lambda>th. th\<lparr>th_error := e\<rparr>) k)"

text \<open>The wait of \<open>rt_mp_alloc\<close>: the caller goes in front of the other waiters.\<close>

definition mp_wait :: "nat \<Rightarrow> tid \<Rightarrow> int \<Rightarrow> kernel \<Rightarrow> kernel option" where
  "mp_wait p t time k = do {
     (_, k1) \<leftarrow> rt_thread_suspend t k;
     let k2 = upd_mp p (\<lambda>mp. mp\<lparr>mp_suspend_count := mp_suspend_count mp + 1\<rparr>)
                (k1\<lparr>tlists := list_prepend (Suspended (ObjMp p)) t (tlists k1)\<rparr>);
     k3 \<leftarrow> start_wait_timer t time k2;
     rt_schedule k3 }"

definition mp_alloc_round :: "nat \<Rightarrow> int \<Rightarrow> kernel \<Rightarrow> (nat option outcome \<times> kernel) option" where
  "mp_alloc_round p time k =
     (if mp_free_count (pools k p) = 0 then
        (if time = 0 then Some (Ret None, rt_set_errno (- RT_ETIMEOUT) k)
         else do {
           _ \<leftarrow> rt_assert (interrupt_nest k = 0);
           t \<leftarrow> current_thread k;
           k1 \<leftarrow> mp_wait p t time (clear_error t k);
           Some (Wait, k1) })
      else do {
        (b, mp) \<leftarrow> mp_take p (pools k p);
        Some (Ret (Some b), upd_mp p (\<lambda>_. mp) k) })"

definition rt_mp_alloc :: "nat \<Rightarrow> int \<Rightarrow> kernel \<Rightarrow> (nat option outcome \<times> kernel) option" where
  "rt_mp_alloc p time k = mp_alloc_round p time k"

definition rt_mp_alloc_resume :: "nat \<Rightarrow> int \<Rightarrow> u32 \<Rightarrow> tid \<Rightarrow> kernel \<Rightarrow> (nat option outcome \<times> kernel) option" where
  "rt_mp_alloc_resume p time start t k =
     (if th_error (threads k t) \<noteq> RT_EOK then Some (Ret None, k)
      else mp_alloc_round p (wait_left time start (rt_tick_get k)) k)"

text \<open>\<open>rt_mp_free\<close> of block \<open>b\<close> of pool \<open>p\<close>. Its first word must hold the pool: a block that is
  free already, or belongs to another pool's list, is not a block one may free, and the code would take
  the word for a pool all the same. With a positive count and an empty waiting list the list head is
  taken for a thread.\<close>

definition rt_mp_free :: "nat \<Rightarrow> nat \<Rightarrow> kernel \<Rightarrow> kernel option" where
  "rt_mp_free p b k =
     (if mp_header (pools k p) b \<noteq> PoolPtr p then None
      else let k1 = upd_mp p (mp_give b) k
           in if mp_suspend_count (pools k1 p) > 0 then
                (case tlists k1 (Suspended (ObjMp p)) of
                   [] \<Rightarrow> None
                 | t # _ \<Rightarrow> do {
                     (_, k2) \<leftarrow> rt_thread_resume t (upd_thread t (\<lambda>th. th\<lparr>th_error := RT_EOK\<rparr>) k1);
                     rt_schedule (upd_mp p (\<lambda>mp. mp\<lparr>mp_suspend_count := mp_suspend_count mp - 1\<rparr>) k2) })
              else Some k1)"


subsection \<open>What the calls do\<close>

definition mpx_inv :: "kernel \<Rightarrow> nat \<Rightarrow> bool" where
  "mpx_inv k p \<longleftrightarrow> mp_typed k p \<and> mp_ok p (pools k p)
     \<and> unat (mp_suspend_count (pools k p)) = length (tlists k (Suspended (ObjMp p)))"

lemma upd_mp_sel [simp]:
  "pools (upd_mp p f k) = (pools k)(p := f (pools k p))" "threads (upd_mp p f k) = threads k"
  "tlists (upd_mp p f k) = tlists k" "objs (upd_mp p f k) = objs k" "timers (upd_mp p f k) = timers k"
  "timer_list (upd_mp p f k) = timer_list k" "tick (upd_mp p f k) = tick k"
  "current_thread (upd_mp p f k) = current_thread k" "lock_nest (upd_mp p f k) = lock_nest k"
  "interrupt_nest (upd_mp p f k) = interrupt_nest k" "thread_state (upd_mp p f k) t = thread_state k t"
  "ready_group (upd_mp p f k) = ready_group k"
  "rt_object_get_type r (upd_mp p f k) = rt_object_get_type r k"
  by (simp_all add: upd_mp_def thread_state_def rt_object_get_type_def)

lemma upd_mp_kinv [simp]: "kinv (upd_mp p f k) \<longleftrightarrow> kinv k"
  by (auto intro: kinv_same simp: same_threads_def)

lemma mp_ok_count: "mp_ok p (mp\<lparr>mp_suspend_count := c\<rparr>) \<longleftrightarrow> mp_ok p mp"
proof -
  have "mp_next (mp\<lparr>mp_suspend_count := c\<rparr>) = mp_next mp" by (auto simp: mp_next_def fun_eq_iff)
  then show ?thesis by (simp add: mp_ok_def mp_shape_def)
qed

text \<open>With a free block the call returns one that nobody holds.\<close>

lemma mp_alloc_takes:
  assumes i: "kinv k" and mi: "mpx_inv k p" and ne: "mp_free_count (pools k p) \<noteq> 0"
  obtains b k' where "rt_mp_alloc p time k = Some (Ret (Some b), k')" "kinv k'" "mpx_inv k' p"
    "b \<notin> held_blocks (pools k p)" "held_blocks (pools k' p) = insert b (held_blocks (pools k p))"
    "threads k' = threads k" "tlists k' = tlists k"
proof -
  have "mp_ok p (pools k p)" using mi by (simp add: mpx_inv_def)
  from mp_take_ok[OF this ne] obtain b mp where a: "mp_take p (pools k p) = Some (b, mp)" "mp_ok p mp"
    "b \<notin> held_blocks (pools k p)" "held_blocks mp = insert b (held_blocks (pools k p))"
    "mp_suspend_count mp = mp_suspend_count (pools k p)" by metis
  show ?thesis
    by (rule that[of b "upd_mp p (\<lambda>_. mp) k"])
      (use i mi ne a in \<open>simp_all add: rt_mp_alloc_def mp_alloc_round_def mpx_inv_def\<close>)
qed

text \<open>Freeing a held block with nobody waiting puts it back.\<close>

lemma held_header: "mp_ok p mp \<Longrightarrow> b \<in> held_blocks mp \<Longrightarrow> mp_header mp b = PoolPtr p"
  using mp_ok_shape[of p mp] by (auto simp: held_blocks_def mp_shape_def)

lemma mp_give_count [simp]: "mp_suspend_count (mp_give b mp) = mp_suspend_count mp"
  by (simp add: mp_give_def)

lemma mp_free_returns:
  assumes i: "kinv k" and mi: "mpx_inv k p" and b: "b \<in> held_blocks (pools k p)"
    and l: "tlists k (Suspended (ObjMp p)) = []"
  obtains k' where "rt_mp_free p b k = Some k'" "kinv k'" "mpx_inv k' p" "b \<notin> held_blocks (pools k' p)"
    "held_blocks (pools k' p) = held_blocks (pools k p) - {b}" "threads k' = threads k"
proof -
  have ok: "mp_ok p (pools k p)" using mi by (simp add: mpx_inv_def)
  have "mp_suspend_count (pools k p) = 0" using mi l by (simp add: mpx_inv_def unat_eq_0)
  then show ?thesis
    by (intro that[of "upd_mp p (mp_give b) k"])
      (use i mi b held_header[OF ok b] mp_give_ok[OF ok b] in \<open>simp_all add: rt_mp_free_def mpx_inv_def\<close>)
qed

text \<open>With threads waiting the first of them is made ready, and finds the block free.\<close>

lemma mp_free_wakes:
  assumes i: "kinv k" and mi: "mpx_inv k p" and b: "b \<in> held_blocks (pools k p)"
    and l: "tlists k (Suspended (ObjMp p)) = t # ts"
  obtains k' where "rt_mp_free p b k = Some k'" "kinv k'" "mpx_inv k' p"
    "held_blocks (pools k' p) = held_blocks (pools k p) - {b}" "tlists k' (Suspended (ObjMp p)) = ts"
    "thread_state k' t = RT_THREAD_READY" "th_error (threads k' t) = RT_EOK"
proof -
  let ?h = "Suspended (ObjMp p)"
  have ok: "mp_ok p (pools k p)" using mi by (simp add: mpx_inv_def)
  define k1 where "k1 = upd_thread t (\<lambda>th. th\<lparr>th_error := RT_EOK\<rparr>) (upd_mp p (mp_give b) k)"
  have k1: "kinv k1" unfolding k1_def by (rule kinv_thread_upd) (use i in simp_all)
  have s1: "pools k1 = (pools k)(p := mp_give b (pools k p))" "tlists k1 = tlists k" "th_error (threads k1 t) = RT_EOK"
    "objs k1 = objs k" by (simp_all add: k1_def)
  have l1: "tlists k1 ?h = t # ts" using l s1 by simp
  have c0: "mp_suspend_count (pools k p) \<noteq> 0" using mi l by (auto simp: mpx_inv_def)
  then have c: "mp_suspend_count (pools k p) > 0" "unat (mp_suspend_count (pools k p) - 1) = length ts"
    using mi l by (simp_all add: mpx_inv_def word_gt_0 unat_minus_one)
  show ?thesis
  proof (rule rt_ipc_list_resume_wakes[OF k1 wait_head_simps(1) l1], goal_cases)
    case (1 k2)
    note a = 1
    from a(1) obtain e where re: "rt_thread_resume t k1 = Some (e, k2)"
      using l1 by (auto simp: rt_ipc_list_resume_def split: bind_splits)
    let ?u = "upd_mp p (\<lambda>mp. mp\<lparr>mp_suspend_count := mp_suspend_count mp - 1\<rparr>) k2"
    have u: "kinv ?u" using a(2) by simp
    have "thread_state ?u t = RT_THREAD_READY" using a(3) by simp
    from rt_schedule_some[OF kinvD(1)[OF u] this] obtain k' where sc: "rt_schedule ?u = Some k'" by blast
    note f = rt_schedule_frame[OF sc]
    have p': "pools k' p = (mp_give b (pools k p))\<lparr>mp_suspend_count := mp_suspend_count (pools k p) - 1\<rparr>"
      using f a(21) s1 by simp
    have h': "held_blocks (pools k' p) = held_blocks (pools k p) - {b}"
      using mp_give_ok(3)[OF ok b] unfolding p' held_blocks_def free_blocks_def mp_next_def by simp
    have "rt_object_get_type (ObjMp p) k' = rt_object_get_type (ObjMp p) k"
      using f a(11) s1 by (simp add: rt_object_get_type_def)
    then have "mpx_inv k' p" using mi mp_give_ok(1)[OF ok b] c f a(4) unfolding mpx_inv_def p' by (simp add: mp_ok_count)
    moreover have "rt_mp_free p b k = Some k'"
      using held_header[OF ok b] c(1) l re sc by (simp add: rt_mp_free_def k1_def Let_def)
    moreover have "th_error (threads k2 t) = RT_EOK" using s1(3) by (subst a(7)) simp
    ultimately show ?case
      by (intro that[of k']) (use f a h' kinv_schedule[OF sc u] in \<open>simp_all add: thread_state_def\<close>)
  qed
qed

text \<open>Without a free block the caller waits, in front of the others.\<close>

lemma mp_alloc_blocks:
  assumes i: "kinv k" and mi: "mpx_inv k p" and e: "mp_free_count (pools k p) = 0"
    and c: "current_thread k = Some t" and r: "thread_state k t = RT_THREAD_READY"
    and ni: "interrupt_nest k = 0" and b: "time \<noteq> 0" "time < 0x7FFFFFFF"
    and few: "length (tlists k (Suspended (ObjMp p))) < 0xFFFFFFFF"
    and o: "thread_state k u = RT_THREAD_READY" "u \<noteq> t"
  obtains k' where "rt_mp_alloc p time k = Some (Wait, k')" "kinv k'" "mpx_inv k' p"
    "thread_state k' t = RT_THREAD_SUSPEND" "tlists k' (Suspended (ObjMp p)) = t # tlists k (Suspended (ObjMp p))"
    "held_blocks (pools k' p) = held_blocks (pools k p)"
    "time > 0 \<Longrightarrow> ThreadTimer t \<in> set (timer_list k')" "time < 0 \<Longrightarrow> ThreadTimer t \<notin> set (timer_list k')"
proof -
  let ?h = "Suspended (ObjMp p)"
  define ce where "ce = clear_error t k"
  have cei: "kinv ce" unfolding ce_def by (rule clear_error_kinv[OF i])
  have cr: "thread_state ce t = RT_THREAD_READY" using r by (simp add: ce_def)
  have nh: "t \<notin> set (tlists k ?h)"
    using thread_okD(1)[OF ready_invD(3)[OF kinvD(1)[OF i]], of t ?h] r by auto
  show ?thesis
  proof (rule rt_thread_suspend_ready[OF cei cr], goal_cases)
    case (1 k1)
    note ls = 1(1)
    note a = 1(2-)
    have l1: "tlists k1 ?h = tlists k ?h" using a(4) nh by (simp add: ce_def)
    define k2 where "k2 = upd_mp p (\<lambda>mp. mp\<lparr>mp_suspend_count := mp_suspend_count mp + 1\<rparr>)
                (k1\<lparr>tlists := list_prepend ?h t (tlists k1)\<rparr>)"
    have "kinv (k1\<lparr>tlists := (tlists k1)(?h := t # tlists k1 ?h)\<rparr>)"
      by (rule kinv_wait_list[OF a(1) a(3) a(2)]) (use list_distinct[OF i, of ?h] l1 nh in simp_all)
    then have k2: "kinv k2" by (simp add: k2_def list_prepend_def)
    have st2: "thread_state k2 t = RT_THREAD_SUSPEND" using a(2) by (simp add: k2_def thread_state_def)
    have nt: "ThreadTimer t \<notin> set (timer_list k2)" by (simp add: k2_def a(5))
    show ?case
    proof (rule start_wait_timer_arms[OF k2 st2 b(2) nt], goal_cases)
      case (1 k3)
      note d = 1
      have "thread_state k3 u = RT_THREAD_READY" using o a(6) d(5) by (simp add: thread_state_def k2_def ce_def)
      from rt_schedule_some[OF kinvD(1)[OF d(2)] this] obtain k' where sc: "rt_schedule k3 = Some k'" by blast
      note f = rt_schedule_frame[OF sc]
      have m: "mp_wait p t time ce = Some k'"
        using ls d(1) sc by (simp add: mp_wait_def k2_def Let_def)
      have run: "rt_mp_alloc p time k = Some (Wait, k')"
        using e b ni c m by (simp add: rt_mp_alloc_def mp_alloc_round_def ce_def)
      have t': "tlists k' ?h = t # tlists k ?h" using f d(6) l1 by (simp add: k2_def list_prepend_def)
      have p': "pools k' p = (pools k p)\<lparr>mp_suspend_count := mp_suspend_count (pools k p) + 1\<rparr>"
        using f d a by (simp add: k2_def ce_def)
      have "mp_suspend_count (pools k p) < 0xFFFFFFFF" using few mi by (simp add: mpx_inv_def word_less_nat_alt)
      from unat_Suc_less[OF this]
      have "unat (mp_suspend_count (pools k' p)) = length (tlists k' ?h)" using mi t' p' by (simp add: mpx_inv_def)
      moreover have "mp_ok p (pools k' p)" using mi unfolding p' mp_ok_count by (simp add: mpx_inv_def)
      moreover have "rt_object_get_type (ObjMp p) k' = rt_object_get_type (ObjMp p) k"
        using f d(11) a by (simp add: rt_object_get_type_def k2_def ce_def)
      ultimately have inv: "mpx_inv k' p" using mi by (simp add: mpx_inv_def)
      have st: "thread_state k' t = RT_THREAD_SUSPEND" using st2 d(5) f by (simp add: thread_state_def)
      have hb: "held_blocks (pools k' p) = held_blocks (pools k p)"
        unfolding p' by (simp add: held_blocks_def free_blocks_def mp_next_def[abs_def])
      show ?case
        by (rule that[OF run kinv_schedule[OF sc d(2)] inv st t' hb]) (use d f in simp_all)
    qed
  qed
qed

text \<open>A waiter that timed out left the list and not the count: the next free takes the list head for a
  thread.\<close>

lemma mp_free_stale_count:
  assumes "mp_header (pools k p) b = PoolPtr p" "mp_suspend_count (pools k p) \<noteq> 0"
    and "tlists k (Suspended (ObjMp p)) = []"
  shows "rt_mp_free p b k = None"
  using assms by (simp add: rt_mp_free_def word_gt_0)

end
