(* ===== verification/Comm_Theorems.thy ===== *)
theory Comm_Theorems
  imports RT_Demo RT_Event RT_Mailbox RT_Mq RT_Mempool
begin

text \<open>
  The properties of events, mailboxes, message queues and memory pools, each followed by a witness where it has
  hypotheses.
\<close>

subsection \<open>Events\<close>

text \<open>C12. \<open>rt_event_send\<close> serves the waiters in their order on the flags that are then set: exactly the waiters whose
  condition holds (all their flags, or one of them) when their turn comes are made ready, each \<open>rt_event_recv\<close> returns
  \<open>RT_EOK\<close> with the flags it was granted, flags taken with \<open>CLEAR\<close> are gone for the waiters behind, and no
  waiter left has a condition that holds. The flags that stay set are those no \<open>CLEAR\<close> waiter took.\<close>

theorem rt_event_send_serves:
  assumes "kinv k" "event_inv k e" "set_flags \<noteq> 0" "thread_state k u = RT_THREAD_READY"
    "grants (threads k) (event_waiters k e) (ev_set (events k e) OR set_flags) = (gs, left)"
  shows "\<exists>k'. rt_event_send e set_flags k = Some (RT_EOK, k') \<and> kinv k' \<and> event_inv k' e \<and> ev_set (events k' e) = left
    \<and> (\<forall>t got. (t, got) \<in> set gs \<longrightarrow> thread_state k' t = RT_THREAD_READY
          \<and> rt_event_recv_resume t k' = (RT_EOK, Some got) \<and> ThreadTimer t \<notin> set (timer_list k'))
    \<and> (\<forall>t. t \<notin> fst ` set gs \<longrightarrow> threads k' t = threads k t)
    \<and> event_waiters k' e = filter (\<lambda>t. t \<notin> fst ` set gs) (event_waiters k e)
    \<and> (\<forall>t\<in>set (event_waiters k' e). event_grant (threads k' t) (ev_set (events k' e)) = None)"
proof -
  from rt_event_send_grants[OF assms(1-4), unfolded assms(5) fst_conv snd_conv] obtain k' where
    k': "rt_event_send e set_flags k = Some (RT_EOK, k')" "kinv k'" "event_inv k' e" "ev_set (events k' e) = left"
      "\<forall>t got. (t, got) \<in> set gs \<longrightarrow> thread_state k' t = RT_THREAD_READY
          \<and> rt_event_recv_resume t k' = (RT_EOK, Some got) \<and> ThreadTimer t \<notin> set (timer_list k')"
      "\<forall>t. t \<notin> fst ` set gs \<longrightarrow> threads k' t = threads k t"
      "event_waiters k' e = filter (\<lambda>t. t \<notin> fst ` set gs) (event_waiters k e)" by blast
  moreover have "\<forall>t\<in>set (event_waiters k' e). event_grant (threads k' t) (ev_set (events k' e)) = None"
    using k'(3) by (simp add: event_inv_def)
  ultimately show ?thesis by blast
qed

lemma demo_event_inv: "event_inv (demo (Suspended (ObjEvent 0))) 0"
  by (simp add: event_inv_def waiters_clean_def event_grant_def)

theorem rt_event_send_serves_witness:
  "\<exists>k'. rt_event_send 0 5 (demo (Suspended (ObjEvent 0))) = Some (RT_EOK, k') \<and> ev_set (events k' 0) = 4
     \<and> rt_event_recv_resume 2 k' = (RT_EOK, Some 1) \<and> event_waiters k' 0 = []"
  using rt_event_send_serves[OF demo_kinv demo_event_inv, of 5 0 "[(2, 1)]" 4]
  by (auto simp: event_grant_def)

subsection \<open>Mailboxes\<close>

text \<open>A mail sent to a mailbox that has room is stored behind the mails in it; the first receiver that waits is
  made ready without an error, senders that wait are left alone, and with a full mailbox a send that may not
  wait is refused with \<open>-RT_EFULL\<close> and changes nothing.\<close>

theorem rt_mb_send_stores:
  assumes "kinv k" "mbx_inv k m"
  shows "if mb_full (mailboxes k m) then rt_mb_send m v k = Some (Ret (- RT_EFULL), k)
    else \<exists>k'. rt_mb_send_wait m v timeout k = Some (Ret RT_EOK, k') \<and> kinv k' \<and> mbx_inv k' m
      \<and> box k' m = box k m @ [v] \<and> tlists k' (Suspended (ObjMb m)) = tl (tlists k (Suspended (ObjMb m)))
      \<and> tlists k' (Senders m) = tlists k (Senders m)
      \<and> (\<forall>t ts. tlists k (Suspended (ObjMb m)) = t # ts \<longrightarrow> thread_state k' t = RT_THREAD_READY \<and> th_error (threads k' t) = RT_EOK)"
proof (cases "mb_full (mailboxes k m)")
  case True
  then show ?thesis using assms(2) by (simp add: rt_mb_send_def rt_mb_send_wait_def mbx_inv_def)
next
  case False
  have e: "rt_mb_send_wait m v timeout k = mb_send_round m v timeout k"
    using False assms(2) by (simp add: rt_mb_send_wait_def mbx_inv_def)
  show ?thesis unfolding e if_not_P[OF False] by (rule mb_send_round_stores[OF assms False]) blast
qed

lemma demo_mailbox [simp]:
  "mailboxes (demo h) m = \<lparr>mb_pool = [0, 0, 0, 0], mb_size = 4, mb_entry = 0, mb_in_offset = 0, mb_out_offset = 0\<rparr>"
  by (simp add: demo_def)

lemma demo_mbx_inv: "mbx_inv (demo (Suspended (ObjMb 0))) 0"
  by (simp add: mbx_inv_def waiters_clean_def mb_ok_def)

theorem rt_mb_send_stores_witness:
  "\<exists>k'. rt_mb_send_wait 0 7 0 (demo (Suspended (ObjMb 0))) = Some (Ret RT_EOK, k') \<and> box k' 0 = [7]
    \<and> thread_state k' 2 = RT_THREAD_READY"
  using rt_mb_send_stores[OF demo_kinv demo_mbx_inv, of 7 0] by (auto simp: mb_full_def mails_def ring_window_def)

text \<open>A receiver that finds mails gets the oldest one, the others stay in order; the first sender that waits
  for room is made ready without an error. With an empty mailbox a receiver that may not wait gets
  \<open>-RT_ETIMEOUT\<close> and nothing changes.\<close>

theorem rt_mb_recv_takes:
  assumes "kinv k" "mbx_inv k m"
  shows "if mb_empty (mailboxes k m) then rt_mb_recv m 0 k = Some (Ret (- RT_ETIMEOUT, None), k)
    else \<exists>k' v. rt_mb_recv m timeout k = Some (Ret (RT_EOK, Some v), k') \<and> kinv k' \<and> mbx_inv k' m
      \<and> box k m = v # box k' m \<and> tlists k' (Senders m) = tl (tlists k (Senders m))
      \<and> (\<forall>t ts. tlists k (Senders m) = t # ts \<longrightarrow> thread_state k' t = RT_THREAD_READY \<and> th_error (threads k' t) = RT_EOK)"
proof (cases "mb_empty (mailboxes k m)")
  case True
  then show ?thesis using assms(2) by (simp add: rt_mb_recv_def mbx_inv_def)
next
  case False
  have e: "rt_mb_recv m timeout k = mb_recv_round m timeout k"
    using False assms(2) by (simp add: rt_mb_recv_def mbx_inv_def)
  show ?thesis unfolding e if_not_P[OF False] by (rule mb_recv_round_takes[OF assms False]) blast
qed

theorem rt_mb_recv_takes_witness:
  "\<exists>k'. rt_mb_recv 0 0 (upd_mb 0 (\<lambda>mb. mb\<lparr>mb_pool := [9, 8, 7, 0], mb_entry := 3, mb_in_offset := 3\<rparr>)
      (demo (Senders 0))) = Some (Ret (RT_EOK, Some 9), k') \<and> box k' 0 = [8, 7] \<and> thread_state k' 2 = RT_THREAD_READY"
proof -
  let ?k = "upd_mb 0 (\<lambda>mb. mb\<lparr>mb_pool := [9, 8, 7, 0], mb_entry := 3, mb_in_offset := 3\<rparr>) (demo (Senders 0))"
  have "kinv ?k" by (simp add: demo_kinv)
  moreover have "mbx_inv ?k 0" by (simp add: mbx_inv_def waiters_clean_def mb_ok_def)
  moreover have "box ?k 0 = [9, 8, 7]" by (simp add: mails_def ring_window_def upt_rec)
  moreover have "\<not> mb_empty (mailboxes ?k 0)" by (simp add: mb_empty_def)
  ultimately show ?thesis using rt_mb_recv_takes[of ?k 0 0] by auto
qed

text \<open>C13. The mailbox is a first-in first-out channel: after any sequence of puts and gets, made when it is not
  full respectively not empty, what was in it and what it accepted is, in order, what it delivered and what
  is in it, and it never holds more than its size.\<close>

theorem mailbox_fifo:
  assumes "mb_ok mb" "run_fifo mb_put mb_get mb_full mb_empty ops mb = (acc, outs, mb')"
  shows "mails mb @ acc = outs @ mails mb' \<and> mb_ok mb' \<and> length (mails mb') \<le> unat (mb_size mb)"
proof -
  note r = mbq.run_order[OF assms]
  have "length (mails mb') \<le> mb_cap mb'" by (rule mbq.within) (use r in blast)
  with r show ?thesis by (simp add: mb_cap_def)
qed

theorem mailbox_fifo_witness:
  "\<exists>mb'. run_fifo mb_put mb_get mb_full mb_empty [Put 1, Put 2, Get, Put 3, Put 4, Get]
      \<lparr>mb_pool = [0, 0], mb_size = 2, mb_entry = 0, mb_in_offset = 0, mb_out_offset = 0\<rparr> = ([1, 2, 3], [1, 2], mb')
     \<and> mails mb' = [3]"
proof -
  let ?mb = "\<lparr>mb_pool = [0, 0], mb_size = 2, mb_entry = 0, mb_in_offset = 0, mb_out_offset = 0\<rparr>"
  let ?r = "run_fifo mb_put mb_get mb_full mb_empty [Put 1, Put 2, Get, Put 3, Put 4, Get] ?mb"
  have r: "fst ?r = [1, 2, 3]" "fst (snd ?r) = [1, 2]"
    by (simp_all add: mb_put_def mb_get_def mb_full_def mb_empty_def mb_advance_def word_le_nat_alt)
  then obtain mb' where e: "?r = ([1, 2, 3], [1, 2], mb')" by (metis prod.collapse)
  have "mb_ok ?mb" "mails ?mb = []" by (simp_all add: mb_ok_def mails_def ring_window_def)
  with mailbox_fifo[OF this(1) e] have "mails mb' = [3]" by simp
  with e show ?thesis by blast
qed

subsection \<open>Message queues\<close>


lemma demo_queue:
  "queues (demo h) m = \<lparr>mq_next = (\<lambda>i. if i = 0 then None else Some (i - 1)), mq_data = (\<lambda>_. []),
     mq_msg_size = 4, mq_max_msgs = 2, mq_entry = 0, mq_head = None, mq_tail = None, mq_free = Some 1\<rparr>"
  by (simp add: demo_def)

lemma walk_two: "walk f 2 p = (case p of None \<Rightarrow> [] | Some a \<Rightarrow> a # (case f a of None \<Rightarrow> [] | Some b \<Rightarrow> [b]))"
  by (simp add: numeral_2_eq_2 split: option.splits)






text \<open>A receiver that finds messages gets the oldest one, cut to its buffer and to the message size, the
  others stay in order and a slot becomes free; with an empty queue a receiver that may not wait gets
  \<open>-RT_ETIMEOUT\<close> and nothing changes.\<close>

theorem rt_mq_recv_takes:
  assumes "kinv k" "mqx_inv k m" "room \<noteq> 0"
  shows "case messages (queues k m) of
      [] \<Rightarrow> rt_mq_recv m room 0 k = Some (Ret (- RT_ETIMEOUT, []), k)
    | msg # rest \<Rightarrow> \<exists>k'. rt_mq_recv m room timeout k =
          Some (Ret (RT_EOK, take (min (unat room) (unat (mq_msg_size (queues k m)))) msg), k') \<and> kinv k' \<and> mqx_inv k' m
        \<and> messages (queues k' m) = rest \<and> free_slots (queues k' m) \<noteq> []"
proof -
  have ty: "mq_typed k m" and sh: "mq_shape (queues k m) (used_slots (queues k m)) (free_slots (queues k m))"
    using assms(2) by (auto simp: mqx_inv_def mq_ok_def)
  have e: "unat (mq_entry (queues k m)) = length (messages (queues k m))" using sh by (simp add: mq_shape_def messages_def)
  show ?thesis
  proof (cases "messages (queues k m)")
    case Nil
    with e have "mq_entry (queues k m) = 0" by (simp add: unat_eq_0)
    with Nil ty assms(3) show ?thesis by (simp add: rt_mq_recv_def)
  next
    case (Cons msg rest)
    with e have "mq_entry (queues k m) \<noteq> 0" by auto
    then have e: "rt_mq_recv m room timeout k = mq_recv_round m room timeout k"
      using ty assms(3) by (simp add: rt_mq_recv_def)
    show ?thesis unfolding Cons list.case e by (rule mq_recv_round_takes[OF assms(1,2) Cons, of room timeout]) blast
  qed
qed

definition demo_mq_full :: kernel where
  "demo_mq_full = upd_mq 0 (\<lambda>q. q\<lparr>mq_data := (\<lambda>i. [word_of_nat i, 7, 8, 9]), mq_entry := 2, mq_head := Some 1,
     mq_tail := Some 0, mq_free := None\<rparr>) (demo (Suspended (ObjSem 0)))"

lemma demo_mq_full_slots: "used_slots (queues demo_mq_full 0) = [1, 0]" "free_slots (queues demo_mq_full 0) = []"
  by (simp_all add: demo_mq_full_def demo_queue used_slots_def free_slots_def walk_two)

lemma demo_mq_full_inv: "kinv demo_mq_full" "mqx_inv demo_mq_full 0" "messages (queues demo_mq_full 0) = [[1, 7, 8, 9], [0, 7, 8, 9]]"
  "mq_msg_size (queues demo_mq_full 0) = 4"
proof -
  show "kinv demo_mq_full" by (simp add: demo_mq_full_def demo_kinv)
  have "mq_shape (queues demo_mq_full 0) [1, 0] []" by (simp add: mq_shape_def demo_mq_full_def demo_queue)
  then have "mq_ok (queues demo_mq_full 0)" by (simp add: mq_ok_def demo_mq_full_slots)
  moreover have "mq_typed demo_mq_full 0" "obj_flag demo_mq_full (ObjMq 0) = 0" "waiters_clean demo_mq_full (Suspended (ObjMq 0))"
    by (simp_all add: demo_mq_full_def waiters_clean_def rt_object_get_type_def)
  ultimately show "mqx_inv demo_mq_full 0" by (simp add: mqx_inv_def)
  show "messages (queues demo_mq_full 0) = [[1, 7, 8, 9], [0, 7, 8, 9]]" "mq_msg_size (queues demo_mq_full 0) = 4"
    by (simp_all add: messages_def demo_mq_full_slots) (simp_all add: demo_mq_full_def demo_queue)
qed

lemma demo_mq_full_ready: "thread_state demo_mq_full 1 = RT_THREAD_READY"
  using demo_state[of "Suspended (ObjSem 0)" 1] by (simp add: thread_state_def demo_mq_full_def)

theorem rt_mq_recv_takes_witness:
  "\<exists>k'. rt_mq_recv 0 3 0 demo_mq_full = Some (Ret (RT_EOK, [1, 7, 8]), k') \<and> messages (queues k' 0) = [[0, 7, 8, 9]]"
  using rt_mq_recv_takes[OF demo_mq_full_inv(1,2), of 3 0] by (auto simp: demo_mq_full_inv)

text \<open>Resetting a message queue ends, whatever the queue holds: the loop over the messages returns, every slot is free
  again, nobody waits any more and each waiter's \<open>rt_mq_recv\<close> fails with \<open>-RT_ERROR\<close>.\<close>

theorem rt_mq_control_empties:
  assumes "kinv k" "mqx_inv k m" "thread_state k u = RT_THREAD_READY"
  shows "\<exists>k'. rt_mq_control m 1 k = Some (RT_EOK, k') \<and> kinv k' \<and> mqx_inv k' m \<and> messages (queues k' m) = []
    \<and> length (free_slots (queues k' m)) = length (used_slots (queues k m)) + length (free_slots (queues k m))
    \<and> tlists k' (Suspended (ObjMq m)) = []
    \<and> (\<forall>t\<in>set (tlists k (Suspended (ObjMq m))).
          thread_state k' t = RT_THREAD_READY \<and> rt_mq_recv_resume m room timeout start t k' = Some (Ret (- RT_ERROR, []), k'))"
  by (rule mq_control_resets[OF assms]) (auto simp: rt_mq_recv_resume_def)

theorem rt_mq_control_empties_witness:
  "\<exists>k'. rt_mq_control 0 1 demo_mq_full = Some (RT_EOK, k') \<and> messages (queues k' 0) = []
     \<and> length (free_slots (queues k' 0)) = 2"
  using rt_mq_control_empties[OF demo_mq_full_inv(1,2) demo_mq_full_ready, where room = 1 and timeout = 0 and start = 0]
  unfolding demo_mq_full_slots by fastforce

subsection \<open>Memory pools\<close>

text \<open>C15. Blocks of a pool are exclusive: through any sequence of requests and returns the blocks a client holds are all
  different and are exactly those the pool counts as handed out.\<close>

theorem mempool_exclusive:
  assumes "mp_ok p mp" "distinct held" "set held = held_blocks mp"
    "run_alloc (mp_request p) mp_give ops held mp = (held', mp')"
  shows "mp_ok p mp' \<and> distinct held' \<and> set held' = held_blocks mp'"
  by (rule pool.run_exclusive[OF assms])


definition demo_pool :: rt_mempool where
  "demo_pool = \<lparr>mp_size = 24, mp_block_size = 8, mp_header = (\<lambda>i. NextFree (if i = 0 then None else Some (i - 1))),
     mp_block_list = Some 1, mp_total_count = 2, mp_free_count = 2, mp_suspend_count = 0\<rparr>"

lemma demo_pool_ok: "mp_ok 0 demo_pool" "held_blocks demo_pool = {}"
proof -
  have m: "b < 2 \<longleftrightarrow> b = 0 \<or> b = 1" for b :: nat by auto
  have "mp_shape 0 demo_pool [1, 0]" by (simp add: mp_shape_def demo_pool_def mp_next_def m)
  then show "mp_ok 0 demo_pool" by (auto simp: mp_ok_def)
  show "held_blocks demo_pool = {}"
    by (auto simp: held_blocks_def free_blocks_def demo_pool_def walk_two mp_next_def)
qed

theorem mempool_exclusive_witness:
  "\<exists>mp'. run_alloc (mp_request 0) mp_give [Request (), Request (), Request (), Return 1] [] demo_pool = ([0], mp')
     \<and> held_blocks mp' = {0}"
proof -
  let ?r = "run_alloc (mp_request 0) mp_give [Request (), Request (), Request (), Return 1] [] demo_pool"
  have "fst ?r = [0]" by (simp add: demo_pool_def mp_request_def mp_take_def mp_give_def mp_link_def)
  then obtain mp' where e: "?r = ([0], mp')" by (metis prod.collapse)
  with mempool_exclusive[OF demo_pool_ok(1) _ _ e] demo_pool_ok(2) show ?thesis by auto
qed

text \<open>A block given back while threads wait for one goes to the pool and the first of them, the one that came
  last, is made ready without an error; with nobody waiting the block just becomes free. The count of waiting
  threads stays the number of threads on the list.\<close>

theorem rt_mp_free_returns:
  assumes "kinv k" "mpx_inv k p" "b \<in> held_blocks (pools k p)"
  shows "\<exists>k'. rt_mp_free p b k = Some k' \<and> kinv k' \<and> mpx_inv k' p \<and> held_blocks (pools k' p) = held_blocks (pools k p) - {b}
    \<and> (\<forall>t ts. tlists k (Suspended (ObjMp p)) = t # ts \<longrightarrow> tlists k' (Suspended (ObjMp p)) = ts
          \<and> thread_state k' t = RT_THREAD_READY \<and> th_error (threads k' t) = RT_EOK)"
proof (cases "tlists k (Suspended (ObjMp p))")
  case Nil
  show ?thesis by (rule mp_free_returns[OF assms Nil]) (use Nil in auto)
next
  case (Cons t ts)
  show ?thesis by (rule mp_free_wakes[OF assms Cons]) (use Cons in auto)
qed


definition demo_pool_empty :: "u32 \<Rightarrow> rt_mempool" where
  "demo_pool_empty waiters = \<lparr>mp_size = 24, mp_block_size = 8, mp_header = (\<lambda>_. PoolPtr 0),
     mp_block_list = None, mp_total_count = 2, mp_free_count = 0, mp_suspend_count = waiters\<rparr>"

lemma demo_pool_empty_ok: "mp_ok 0 (demo_pool_empty n)" "held_blocks (demo_pool_empty n) = {0, 1}"
proof -
  have m: "{0..<2} = {0, 1 :: nat}" by auto
  have "mp_shape 0 (demo_pool_empty n) []" by (simp add: mp_shape_def demo_pool_empty_def)
  then show "mp_ok 0 (demo_pool_empty n)" by (auto simp: mp_ok_def)
  show "held_blocks (demo_pool_empty n) = {0, 1}"
    by (simp add: held_blocks_def free_blocks_def demo_pool_empty_def walk_two m)
qed

lemma demo_mpx_inv:
  assumes "h = Suspended (ObjMp 0) \<and> n = 1 \<or> h = Suspended (ObjSem 0) \<and> n = 0"
  shows "kinv (upd_mp 0 (\<lambda>_. demo_pool_empty n) (demo h))" "mpx_inv (upd_mp 0 (\<lambda>_. demo_pool_empty n) (demo h)) 0"
  using assms demo_pool_empty_ok by (auto simp: demo_kinv mpx_inv_def rt_object_get_type_def demo_pool_empty_def)

theorem rt_mp_free_returns_witness:
  "\<exists>k'. rt_mp_free 0 1 (upd_mp 0 (\<lambda>_. demo_pool_empty 1) (demo (Suspended (ObjMp 0)))) = Some k'
     \<and> held_blocks (pools k' 0) = {0} \<and> thread_state k' 2 = RT_THREAD_READY"
proof -
  let ?k = "upd_mp 0 (\<lambda>_. demo_pool_empty 1) (demo (Suspended (ObjMp 0)))"
  have "1 \<in> held_blocks (pools ?k 0)" "tlists ?k (Suspended (ObjMp 0)) = [2]"
    "held_blocks (pools ?k 0) - {1} = {0}" by (auto simp: demo_pool_empty_ok)
  with rt_mp_free_returns[OF demo_mpx_inv, of "Suspended (ObjMp 0)" 1 1] show ?thesis by fastforce
qed

lemma rt_thread_timeout_pools: "rt_thread_timeout t k = Some k' \<Longrightarrow> pools k' = pools k"
  by (auto simp: rt_thread_timeout_def rt_schedule_insert_thread_def Let_def upd_thread_def
      dest!: rt_schedule_frame(16) split: Option.bind_splits)

text \<open>A wait for a block that ends by its timeout leaves the count of waiting threads one too high: the timer takes
  the thread off the list and nobody counts it out. If it was the only waiter, the next block given back
  finds a positive count and an empty list, and \<open>rt_mp_free\<close> takes the list head for a thread; it does
  not return.\<close>

theorem rt_mp_timeout_miscounts:
  assumes "kinv k" "mpx_inv k p" "mp_free_count (pools k p) = 0" "tlists k (Suspended (ObjMp p)) = []"
    "current_thread k = Some t" "thread_state k t = RT_THREAD_READY" "interrupt_nest k = 0" "0 < time" "time < 0x7FFFFFFF"
    "thread_state k u = RT_THREAD_READY" "u \<noteq> t" "b < mp_capacity (pools k p)"
  shows "\<exists>k1 k2. rt_mp_alloc p time k = Some (Wait, k1)
    \<and> rt_thread_timeout t (rt_timer_remove (ThreadTimer t) k1) = Some k2
    \<and> tlists k2 (Suspended (ObjMp p)) = [] \<and> mp_suspend_count (pools k2 p) = 1
    \<and> rt_mp_alloc_resume p time start t k2 = Some (Ret None, k2) \<and> rt_mp_free p b k2 = None"
proof -
  from mp_alloc_blocks[OF assms(1-3,5-7), of time u] assms(4,8-11) obtain k1 where
    k1: "rt_mp_alloc p time k = Some (Wait, k1)" "kinv k1" "mpx_inv k1 p" "thread_state k1 t = RT_THREAD_SUSPEND"
      "tlists k1 (Suspended (ObjMp p)) = [t]" "held_blocks (pools k1 p) = held_blocks (pools k p)" by auto
  let ?r = "rt_timer_remove (ThreadTimer t) k1"
  have r: "kinv ?r" "thread_state ?r t = RT_THREAD_SUSPEND" "ThreadTimer t \<notin> set (timer_list ?r)"
    using k1(2,4) by (simp_all add: kinv_timer_remove thread_state_def)
  from rt_thread_timeout_wakes[OF this] obtain k2 where k2: "rt_thread_timeout t ?r = Some k2"
    "th_error (threads k2 t) = - RT_ETIMEOUT"
    "tlists k2 = list_append (Ready (th_current_priority (threads ?r t))) t (list_delete t (tlists ?r))" by metis
  have c: "mp_suspend_count (pools k1 p) = 1"
    using k1(3,5) by (simp add: mpx_inv_def word_unat_eq_iff)
  have e: "tlists k2 (Suspended (ObjMp p)) = []" using k2(3) k1(5) by (simp add: list_append_def)
  have pl: "pools k2 = pools k1" using rt_thread_timeout_pools[OF k2(1)] by (simp add: rt_timer_remove_def)
  obtain fs where fs: "mp_shape p (pools k p) fs" using assms(2) by (auto simp: mpx_inv_def mp_ok_def)
  then have "b \<in> held_blocks (pools k p)"
    using assms(3,12) mp_shape_free[OF fs] by (simp add: held_blocks_def mp_shape_def)
  then have "mp_header (pools k2 p) b = PoolPtr p"
    using held_header[of p "pools k1 p" b] k1(3,6) pl by (simp add: mpx_inv_def)
  from mp_free_stale_count[OF this _ e] c pl have "rt_mp_free p b k2 = None" by simp
  with k1(1) k2 e c pl show ?thesis by (auto simp: rt_mp_alloc_resume_def)
qed

theorem rt_mp_timeout_miscounts_witness:
  "\<exists>k1 k2. rt_mp_alloc 0 5 (upd_mp 0 (\<lambda>_. demo_pool_empty 0) (demo (Suspended (ObjSem 0)))) = Some (Wait, k1)
     \<and> rt_thread_timeout 1 (rt_timer_remove (ThreadTimer 1) k1) = Some k2 \<and> rt_mp_free 0 0 k2 = None"
proof -
  let ?k = "upd_mp 0 (\<lambda>_. demo_pool_empty 0) (demo (Suspended (ObjSem 0)))"
  have m: "mp_free_count (pools ?k 0) = 0" "0 < mp_capacity (pools ?k 0)" "tlists ?k (Suspended (ObjMp 0)) = []"
    "current_thread ?k = Some 1" "interrupt_nest ?k = 0"
    by (simp_all add: demo_pool_empty_def upd_mp_def)
  have st: "thread_state ?k 0 = RT_THREAD_READY" "thread_state ?k 1 = RT_THREAD_READY"
    using demo_state[of "Suspended (ObjSem 0)" 0] demo_state[of "Suspended (ObjSem 0)" 1] by (simp_all add: thread_state_def)
  have "kinv ?k" "mpx_inv ?k 0" by (rule demo_mpx_inv, simp)+
  from rt_mp_timeout_miscounts[OF this m(1,3,4) st(2) m(5) _ _ st(1) _ m(2), of 5 0] show ?thesis by force
qed

end
