(* ===== verification/RT_Mem.thy ===== *)
theory RT_Mem
  imports RT_Alloc
begin

text \<open>
  The system heap of \<open>src/mem.c\<close> (the lwIP allocator): block headers inside the heap, doubly linked by byte
  offsets from \<open>heap_ptr\<close>, a sentinel header at the end and a pointer \<open>lfree\<close> to start the search at. Headers and
  payload bytes are two maps over the offsets. Offsets and sizes are naturals below \<open>2 ^ 32\<close>; a subtraction
  that the code may let wrap is \<open>sub32\<close>. A pointer into the heap is its offset. The heap semaphore makes the calls
  exclude each other; \<open>None\<close> is a call that never returns (a failed assertion, an endless loop) or reads a header in front of the
  heap.
\<close>

subsection \<open>State\<close>

abbreviation HEAP_MAGIC :: u16 where "HEAP_MAGIC \<equiv> 0x1ea0"

text \<open>\<open>SIZEOF_STRUCT_MEM\<close> and \<open>MIN_SIZE_ALIGNED\<close> are both 12 bytes on this port.\<close>

abbreviation SIZEOF_STRUCT_MEM :: nat where "SIZEOF_STRUCT_MEM \<equiv> 12"
abbreviation MIN_SIZE_ALIGNED :: nat where "MIN_SIZE_ALIGNED \<equiv> 12"

record heap_mem =
  hm_magic :: u16
  hm_used :: u16
  hm_next :: nat
  hm_prev :: nat

record mem_heap =
  heap_ptr :: nat
  hdr :: "nat \<Rightarrow> heap_mem"
  payload :: "nat \<Rightarrow> u8"
  lfree :: nat
  mem_size_aligned :: nat
  used_mem :: nat
  max_mem :: nat

definition sub32 :: "nat \<Rightarrow> nat \<Rightarrow> nat" where
  "sub32 a b = (if b \<le> a then a - b else 2 ^ 32 + a - b)"

lemma sub32_le [simp]: "b \<le> a \<Longrightarrow> sub32 a b = a - b"
  by (simp add: sub32_def)

abbreviation heap_end :: "mem_heap \<Rightarrow> nat" where
  "heap_end h \<equiv> mem_size_aligned h + SIZEOF_STRUCT_MEM"

definition upd_hdr :: "nat \<Rightarrow> (heap_mem \<Rightarrow> heap_mem) \<Rightarrow> mem_heap \<Rightarrow> mem_heap" where
  "upd_hdr p f h = h\<lparr>hdr := (hdr h)(p := f (hdr h p))\<rparr>"

abbreviation next_of :: "mem_heap \<Rightarrow> nat \<Rightarrow> nat" where "next_of h p \<equiv> hm_next (hdr h p)"
abbreviation used_at :: "mem_heap \<Rightarrow> nat \<Rightarrow> bool" where "used_at h p \<equiv> hm_used (hdr h p) \<noteq> 0"

subsection \<open>Operations\<close>

text \<open>\<open>plug_holes\<close>: its forward half, its backward half.\<close>

definition plug_forward :: "nat \<Rightarrow> mem_heap \<Rightarrow> mem_heap" where
  "plug_forward mem h =
     (let nmem = next_of h mem
      in if mem \<noteq> nmem \<and> \<not> used_at h nmem \<and> nmem \<noteq> heap_end h then
           (let h1 = (if lfree h = nmem then h\<lparr>lfree := mem\<rparr> else h);
                h2 = upd_hdr mem (\<lambda>m. m\<lparr>hm_next := next_of h1 nmem\<rparr>) h1
            in upd_hdr (next_of h2 nmem) (\<lambda>m. m\<lparr>hm_prev := mem\<rparr>) h2)
         else h)"

definition plug_backward :: "nat \<Rightarrow> mem_heap \<Rightarrow> mem_heap" where
  "plug_backward mem h =
     (let pmem = hm_prev (hdr h mem)
      in if pmem \<noteq> mem \<and> \<not> used_at h pmem then
           (let h1 = (if lfree h = mem then h\<lparr>lfree := pmem\<rparr> else h);
                h2 = upd_hdr pmem (\<lambda>m. m\<lparr>hm_next := next_of h1 mem\<rparr>) h1
            in upd_hdr (next_of h2 mem) (\<lambda>m. m\<lparr>hm_prev := pmem\<rparr>) h2)
         else h)"

definition plug_holes :: "nat \<Rightarrow> mem_heap \<Rightarrow> mem_heap option" where
  "plug_holes mem h = do {
     _ \<leftarrow> rt_assert (mem < heap_end h);
     _ \<leftarrow> rt_assert (\<not> used_at h mem);
     Some (plug_backward mem (plug_forward mem h)) }"

definition rt_system_heap_init :: "u32 \<Rightarrow> u32 \<Rightarrow> mem_heap \<Rightarrow> mem_heap" where
  "rt_system_heap_init begin_addr end_addr h =
     (let b = unat (RT_ALIGN begin_addr RT_ALIGN_SIZE); e = unat (RT_ALIGN_DOWN end_addr RT_ALIGN_SIZE)
      in if e > 2 * SIZEOF_STRUCT_MEM \<and> e - 2 * SIZEOF_STRUCT_MEM \<ge> b then
           (let msz = e - b - 2 * SIZEOF_STRUCT_MEM;
                h1 = h\<lparr>mem_size_aligned := msz, heap_ptr := b\<rparr>;
                h2 = upd_hdr 0 (\<lambda>m. m\<lparr>hm_magic := HEAP_MAGIC, hm_used := 0, hm_next := msz + SIZEOF_STRUCT_MEM, hm_prev := 0\<rparr>) h1;
                en = next_of h2 0;
                h3 = upd_hdr en (\<lambda>m. m\<lparr>hm_magic := HEAP_MAGIC, hm_used := 1, hm_next := msz + SIZEOF_STRUCT_MEM,
                                     hm_prev := msz + SIZEOF_STRUCT_MEM\<rparr>) h2
            in h3\<lparr>lfree := 0\<rparr>)
         else h)"

text \<open>The search of \<open>rt_malloc\<close>, and the loop that moves \<open>lfree\<close> on.\<close>

partial_function (option) heap_find :: "mem_heap \<Rightarrow> nat \<Rightarrow> nat \<Rightarrow> nat option option" where
  "heap_find h sz ptr =
     (if ptr < sub32 (mem_size_aligned h) sz then
        if \<not> used_at h ptr \<and> sz \<le> sub32 (next_of h ptr) (ptr + SIZEOF_STRUCT_MEM) then Some (Some ptr)
        else heap_find h sz (next_of h ptr)
      else Some None)"

partial_function (option) next_free :: "mem_heap \<Rightarrow> nat \<Rightarrow> nat option" where
  "next_free h p = (if used_at h p \<and> p \<noteq> heap_end h then next_free h (next_of h p) else Some p)"

definition account :: "nat \<Rightarrow> mem_heap \<Rightarrow> mem_heap" where
  "account n h = (let u = used_mem h + n in h\<lparr>used_mem := u, max_mem := (if max_mem h < u then u else max_mem h)\<rparr>)"

text \<open>A new free header at \<open>ptr2\<close>, linked behind the block at \<open>ptr\<close>: the split of \<open>rt_malloc\<close> and \<open>rt_realloc\<close>.\<close>

definition split_at :: "nat \<Rightarrow> nat \<Rightarrow> mem_heap \<Rightarrow> mem_heap" where
  "split_at ptr ptr2 h =
     (let h1 = upd_hdr ptr2 (\<lambda>m. m\<lparr>hm_magic := HEAP_MAGIC, hm_used := 0, hm_next := next_of h ptr, hm_prev := ptr\<rparr>) h;
          h2 = upd_hdr ptr (\<lambda>m. m\<lparr>hm_next := ptr2\<rparr>) h1;
          nx = next_of h2 ptr2
      in if nx \<noteq> heap_end h2 then upd_hdr nx (\<lambda>m. m\<lparr>hm_prev := ptr2\<rparr>) h2 else h2)"

definition take_block :: "nat \<Rightarrow> nat \<Rightarrow> mem_heap \<Rightarrow> mem_heap" where
  "take_block sz ptr h =
     (let h1 = (if sub32 (next_of h ptr) (ptr + SIZEOF_STRUCT_MEM) \<ge> sz + SIZEOF_STRUCT_MEM + MIN_SIZE_ALIGNED
                then account (sz + SIZEOF_STRUCT_MEM)
                       (upd_hdr ptr (\<lambda>m. m\<lparr>hm_used := 1\<rparr>) (split_at ptr (ptr + SIZEOF_STRUCT_MEM + sz) h))
                else account (sub32 (next_of h ptr) ptr) (upd_hdr ptr (\<lambda>m. m\<lparr>hm_used := 1\<rparr>) h))
      in upd_hdr ptr (\<lambda>m. m\<lparr>hm_magic := HEAP_MAGIC\<rparr>) h1)"

definition rt_malloc :: "u32 \<Rightarrow> mem_heap \<Rightarrow> (nat option \<times> mem_heap) option" where
  "rt_malloc size_arg h =
     (if size_arg = 0 then Some (None, h)
      else let s0 = unat (RT_ALIGN size_arg RT_ALIGN_SIZE)
           in if s0 > mem_size_aligned h then Some (None, h)
              else let sz = (if s0 < MIN_SIZE_ALIGNED then MIN_SIZE_ALIGNED else s0)
                   in do {
                     found \<leftarrow> heap_find h sz (lfree h);
                     case found of
                       None \<Rightarrow> Some (None, h)
                     | Some ptr \<Rightarrow> do {
                         let h1 = take_block sz ptr h;
                         h2 \<leftarrow> (if ptr = lfree h1 then do {
                                  l \<leftarrow> next_free h1 (lfree h1);
                                  _ \<leftarrow> rt_assert (l = heap_end h1 \<or> \<not> used_at h1 l);
                                  Some (h1\<lparr>lfree := l\<rparr>) }
                                else Some h1);
                         _ \<leftarrow> rt_assert (ptr + SIZEOF_STRUCT_MEM + sz \<le> heap_end h2);
                         _ \<leftarrow> rt_assert ((heap_ptr h2 + ptr + SIZEOF_STRUCT_MEM) mod 4 = 0);
                         _ \<leftarrow> rt_assert ((heap_ptr h2 + ptr) mod 4 = 0);
                         Some (Some (ptr + SIZEOF_STRUCT_MEM), h2) } })"

definition rt_free :: "nat option \<Rightarrow> mem_heap \<Rightarrow> mem_heap option" where
  "rt_free rmem h =
     (case rmem of
        None \<Rightarrow> Some h
      | Some off \<Rightarrow> do {
          _ \<leftarrow> rt_assert ((heap_ptr h + off) mod 4 = 0);
          _ \<leftarrow> rt_assert (off < heap_end h);
          _ \<leftarrow> rt_assert (SIZEOF_STRUCT_MEM \<le> off);
          let mem = off - SIZEOF_STRUCT_MEM;
          _ \<leftarrow> rt_assert (used_at h mem);
          _ \<leftarrow> rt_assert (hm_magic (hdr h mem) = HEAP_MAGIC);
          let h1 = upd_hdr mem (\<lambda>m. m\<lparr>hm_used := 0, hm_magic := HEAP_MAGIC\<rparr>) h;
          let h2 = (if mem < lfree h1 then h1\<lparr>lfree := mem\<rparr> else h1);
          let h3 = h2\<lparr>used_mem := sub32 (used_mem h2) (sub32 (next_of h2 mem) mem)\<rparr>;
          plug_holes mem h3 })"

definition copy_bytes :: "nat \<Rightarrow> nat \<Rightarrow> nat \<Rightarrow> mem_heap \<Rightarrow> mem_heap" where
  "copy_bytes dst src n h =
     h\<lparr>payload := (\<lambda>i. if dst \<le> i \<and> i < dst + n then payload h (src + (i - dst)) else payload h i)\<rparr>"

definition rt_realloc :: "nat option \<Rightarrow> u32 \<Rightarrow> mem_heap \<Rightarrow> (nat option \<times> mem_heap) option" where
  "rt_realloc rmem size_arg h =
     (let s = RT_ALIGN size_arg RT_ALIGN_SIZE; newsize = unat s
      in if newsize > mem_size_aligned h then Some (None, h)
         else if newsize = 0 then do { h1 \<leftarrow> rt_free rmem h; Some (None, h1) }
         else case rmem of
           None \<Rightarrow> rt_malloc s h
         | Some off \<Rightarrow>
             if off \<ge> heap_end h then Some (Some off, h)
             else do {
               _ \<leftarrow> rt_assert (SIZEOF_STRUCT_MEM \<le> off);
               let ptr = off - SIZEOF_STRUCT_MEM;
               let sz = sub32 (sub32 (next_of h ptr) ptr) SIZEOF_STRUCT_MEM;
               if sz = newsize then Some (Some off, h)
               else if newsize + SIZEOF_STRUCT_MEM + MIN_SIZE_ALIGNED < sz then do {
                 let h1 = h\<lparr>used_mem := sub32 (used_mem h) (sz - newsize)\<rparr>;
                 let ptr2 = ptr + SIZEOF_STRUCT_MEM + newsize;
                 h2 \<leftarrow> plug_holes ptr2 (split_at ptr ptr2 h1);
                 Some (Some off, h2) }
               else do {
                 (r, h1) \<leftarrow> rt_malloc s h;
                 case r of
                   None \<Rightarrow> Some (None, h1)
                 | Some nmem \<Rightarrow> do {
                     h2 \<leftarrow> rt_free (Some off) (copy_bytes nmem off (if sz < newsize then sz else newsize) h1);
                     Some (Some nmem, h2) } } })"

definition rt_calloc :: "u32 \<Rightarrow> u32 \<Rightarrow> mem_heap \<Rightarrow> (nat option \<times> mem_heap) option" where
  "rt_calloc count sz h = do {
     (r, h1) \<leftarrow> rt_malloc (count * sz) h;
     Some (case r of
             None \<Rightarrow> (None, h1)
           | Some p \<Rightarrow> (Some p, h1\<lparr>payload := (\<lambda>i. if p \<le> i \<and> i < p + unat (count * sz) then 0 else payload h1 i)\<rparr>)) }"

definition rt_memory_info :: "mem_heap \<Rightarrow> nat \<times> nat \<times> nat" where
  "rt_memory_info h = (mem_size_aligned h, used_mem h, max_mem h)"


subsection \<open>The heap as a sequence of blocks\<close>

text \<open>The abstract heap is the sequence of its blocks, each with its used flag and its length, header
  included. \<open>repr H q p ss\<close>: from offset \<open>p\<close> on the headers of \<open>H\<close> spell out \<open>ss\<close>, the first one linked back to \<open>q\<close>.\<close>

type_synonym seg = "bool \<times> nat"

fun repr :: "(nat \<Rightarrow> heap_mem) \<Rightarrow> nat \<Rightarrow> nat \<Rightarrow> seg list \<Rightarrow> bool" where
  "repr H q p [] \<longleftrightarrow> True"
| "repr H q p ((u, n) # ss) \<longleftrightarrow> hm_magic (H p) = HEAP_MAGIC \<and> hm_used (H p) = (if u then 1 else 0)
     \<and> hm_next (H p) = p + n \<and> hm_prev (H p) = q \<and> repr H p (p + n) ss"

abbreviation extent :: "seg list \<Rightarrow> nat" where
  "extent ss \<equiv> sum_list (map snd ss)"

fun last_start :: "nat \<Rightarrow> nat \<Rightarrow> seg list \<Rightarrow> nat" where
  "last_start q p [] = q"
| "last_start q p ((u, n) # ss) = last_start p (p + n) ss"

definition segs_ok :: "seg list \<Rightarrow> bool" where
  "segs_ok ss \<longleftrightarrow> (\<forall>(u, n)\<in>set ss. SIZEOF_STRUCT_MEM < n \<and> n mod 4 = 0)"

definition used_total :: "seg list \<Rightarrow> nat" where
  "used_total ss = sum_list (map (\<lambda>(u, n). if u then n else 0) ss)"

text \<open>No two free blocks in a row.\<close>

definition no_holes :: "seg list \<Rightarrow> bool" where
  "no_holes = successively (\<lambda>a b. fst a \<or> fst b)"

fun first_free :: "nat \<Rightarrow> seg list \<Rightarrow> nat" where
  "first_free p [] = p"
| "first_free p ((u, n) # ss) = (if u then first_free (p + n) ss else p)"

lemma repr_append:
  "repr H q p (xs @ ys) \<longleftrightarrow> repr H q p xs \<and> repr H (last_start q p xs) (p + extent xs) ys"
  by (induction xs arbitrary: q p) (auto simp: add.assoc)

lemma last_start_append: "last_start q p (xs @ ys) = last_start (last_start q p xs) (p + extent xs) ys"
  by (induction xs arbitrary: q p) (auto simp: add.assoc)

lemma repr_frame:
  "repr H q p ss \<Longrightarrow> (\<And>i. p \<le> i \<Longrightarrow> i < p + extent ss \<Longrightarrow> H' i = H i) \<Longrightarrow> segs_ok ss \<Longrightarrow> repr H' q p ss"
  by (induction ss arbitrary: q p) (auto simp: segs_ok_def)

lemma repr_upd [simp]:
  "segs_ok ss \<Longrightarrow> i < p \<or> p + extent ss \<le> i \<Longrightarrow> repr (H(i := v)) q p ss \<longleftrightarrow> repr H q p ss"
  by (auto elim!: repr_frame)

lemma segs_ok_simps [simp]:
  "segs_ok []" "segs_ok ((u, n) # ss) \<longleftrightarrow> 12 < n \<and> n mod 4 = 0 \<and> segs_ok ss" "segs_ok (xs @ ys) \<longleftrightarrow> segs_ok xs \<and> segs_ok ys"
  by (simp_all add: segs_ok_def ball_Un conj_assoc)

lemma used_total_simps [simp]:
  "used_total [] = 0" "used_total ((u, n) # ss) = (if u then n else 0) + used_total ss"
  "used_total (xs @ ys) = used_total xs + used_total ys"
  by (simp_all add: used_total_def)

lemma used_total_le: "used_total ss \<le> extent ss"
  by (induction ss) auto

lemma last_start_bounds:
  "xs \<noteq> [] \<Longrightarrow> segs_ok xs \<Longrightarrow> p \<le> last_start q p xs \<and> last_start q p xs < p + extent xs"
proof (induction xs arbitrary: q p)
  case (Cons a xs)
  obtain u n where a: "a = (u, n)" by (cases a)
  show ?case
  proof (cases "xs = []")
    case False
    from Cons.IH[OF False, where q = p and p = "p + n"] show ?thesis using Cons.prems a by simp
  qed (use Cons.prems a in simp)
qed simp

lemma segs_mod: "segs_ok ss \<Longrightarrow> extent ss mod 4 = 0"
  by (induction ss) (auto simp: mod_eq_0_iff_dvd)

text \<open>The invariant: the headers spell out a sequence of blocks that fills the heap, no two free blocks touch, the
  sentinel is in place, the used count is right, and \<open>lfree\<close> is the start of a free block or the end. \<open>lowest\<close>: it is the
  first free block.\<close>

definition sentinel :: "mem_heap \<Rightarrow> bool" where
  "sentinel h \<longleftrightarrow> hm_used (hdr h (heap_end h)) = 1 \<and> hm_magic (hdr h (heap_end h)) = HEAP_MAGIC
     \<and> hm_next (hdr h (heap_end h)) = heap_end h"

definition lfree_ok :: "nat \<Rightarrow> seg list \<Rightarrow> bool" where
  "lfree_ok l ss \<longleftrightarrow> (\<exists>xs ys. ss = xs @ ys \<and> l = extent xs \<and> (ys \<noteq> [] \<longrightarrow> \<not> fst (hd ys)))"

lemma lfree_okI: "ss = xs @ ys \<Longrightarrow> l = extent xs \<Longrightarrow> (ys \<noteq> [] \<longrightarrow> \<not> fst (hd ys)) \<Longrightarrow> lfree_ok l ss"
  by (auto simp: lfree_ok_def)

definition heap_body :: "mem_heap \<Rightarrow> seg list \<Rightarrow> bool" where
  "heap_body h ss \<longleftrightarrow> repr (hdr h) 0 0 ss \<and> extent ss = heap_end h \<and> MIN_SIZE_ALIGNED \<le> mem_size_aligned h \<and> segs_ok ss \<and> sentinel h
     \<and> used_mem h = used_total ss \<and> heap_ptr h mod 4 = 0 \<and> heap_ptr h + heap_end h + SIZEOF_STRUCT_MEM \<le> 2 ^ 32"

definition heap_inv :: "mem_heap \<Rightarrow> seg list \<Rightarrow> bool" where
  "heap_inv h ss \<longleftrightarrow> heap_body h ss \<and> no_holes ss \<and> lfree_ok (lfree h) ss"

definition lowest :: "mem_heap \<Rightarrow> seg list \<Rightarrow> bool" where
  "lowest h ss \<longleftrightarrow> lfree h = first_free 0 ss"

lemma first_free_split: "\<exists>xs ys. ss = xs @ ys \<and> first_free p ss = p + extent xs \<and> (\<forall>x\<in>set xs. fst x) \<and> (ys \<noteq> [] \<longrightarrow> \<not> fst (hd ys))"
proof (induction ss arbitrary: p)
  case (Cons a ss)
  obtain u n where a: "a = (u, n)" by (cases a)
  show ?case
  proof (cases u)
    case True
    from Cons.IH[of "p + n"] obtain xs ys where "ss = xs @ ys" "first_free (p + n) ss = p + n + extent xs"
      "\<forall>x\<in>set xs. fst x" "ys \<noteq> [] \<longrightarrow> \<not> fst (hd ys)" by blast
    then show ?thesis using a True by (intro exI[of _ "a # xs"] exI[of _ ys]) simp
  next
    case False
    then show ?thesis using a by (intro exI[of _ "[]"] exI[of _ "a # ss"]) simp
  qed
qed simp

lemma first_free_append:
  "first_free p (xs @ ys) = (if \<exists>x\<in>set xs. \<not> fst x then first_free p xs else first_free (p + extent xs) ys)"
proof (induction xs arbitrary: p)
  case (Cons a xs)
  then show ?case by (cases a) (simp add: add.assoc)
qed simp

lemma lowest_ok: "lowest h ss \<Longrightarrow> lfree_ok (lfree h) ss"
  using first_free_split[of ss 0] by (auto simp: lowest_def lfree_ok_def)


subsection \<open>The search\<close>

fun fit :: "nat \<Rightarrow> nat \<Rightarrow> nat \<Rightarrow> seg list \<Rightarrow> nat option" where
  "fit limit sz p [] = None"
| "fit limit sz p ((u, n) # ss) =
     (if p < limit then if \<not> u \<and> sz + SIZEOF_STRUCT_MEM \<le> n then Some p else fit limit sz (p + n) ss else None)"

lemma heap_find_fit:
  "repr (hdr h) q p ss \<Longrightarrow> segs_ok ss \<Longrightarrow> p + extent ss = heap_end h \<Longrightarrow> sz \<le> mem_size_aligned h \<Longrightarrow>
   heap_find h sz p = Some (fit (mem_size_aligned h - sz) sz p ss)"
proof (induction ss arbitrary: q p)
  case Nil
  then have "\<not> p < sub32 (mem_size_aligned h) sz" by simp
  then show ?case by (subst heap_find.simps) (simp only: if_False fit.simps)
next
  case (Cons a ss)
  obtain u n where a: "a = (u, n)" by (cases a)
  have n: "12 < n" "hm_next (hdr h p) = p + n" "hm_used (hdr h p) = (if u then 1 else 0)"
    and r: "repr (hdr h) p (p + n) ss" using Cons.prems a by auto
  have "sub32 (next_of h p) (p + SIZEOF_STRUCT_MEM) = n - 12" using n by simp
  then have "\<not> used_at h p \<and> sz \<le> sub32 (next_of h p) (p + SIZEOF_STRUCT_MEM) \<longleftrightarrow> \<not> u \<and> sz + 12 \<le> n"
    using n by auto
  moreover have "heap_find h sz (next_of h p) = Some (fit (mem_size_aligned h - sz) sz (p + n) ss)"
    using Cons.IH[OF r] Cons.prems a n by simp
  ultimately show ?case using Cons.prems a by (subst heap_find.simps) simp
qed

lemma fit_some:
  "fit l sz p ss = Some r \<Longrightarrow> \<exists>xs n ys. ss = xs @ (False, n) # ys \<and> r = p + extent xs \<and> sz + 12 \<le> n \<and> r < l
     \<and> (\<forall>(u, m)\<in>set xs. u \<or> m < sz + 12)"
proof (induction ss arbitrary: p)
  case (Cons a ss)
  obtain u n where a: "a = (u, n)" by (cases a)
  show ?case
  proof (cases "\<not> u \<and> sz + 12 \<le> n")
    case True
    then have "r = p" "r < l" "a # ss = [] @ (False, n) # ss" using Cons.prems a by (simp_all split: if_splits)
    then show ?thesis using True by - (rule exI[of _ "[]"], rule exI[of _ n], rule exI[of _ ss], simp)
  next
    case False
    then have "fit l sz (p + n) ss = Some r" using Cons.prems a by (auto split: if_splits)
    from Cons.IH[OF this] obtain xs m ys where "ss = xs @ (False, m) # ys" "r = p + n + extent xs" "sz + 12 \<le> m" "r < l"
      "\<forall>(u, m)\<in>set xs. u \<or> m < sz + 12" by blast
    then show ?thesis using a False by - (rule exI[of _ "a # xs"], rule exI[of _ m], rule exI[of _ ys], auto)
  qed
qed simp

lemma fit_complete:
  "fit l sz p ss = None \<Longrightarrow> ss = xs @ (False, n) # ys \<Longrightarrow> p + extent xs < l \<Longrightarrow> n < sz + 12"
proof (induction xs arbitrary: p ss)
  case Nil
  then show ?case by (auto split: if_splits)
next
  case (Cons a xs)
  obtain u m where a: "a = (u, m)" by (cases a)
  have "fit l sz (p + m) (xs @ (False, n) # ys) = None" using Cons.prems a by (auto split: if_splits)
  from Cons.IH[OF this refl] show ?case using Cons.prems a by simp
qed

lemma next_free_first:
  "repr (hdr h) q p ss \<Longrightarrow> segs_ok ss \<Longrightarrow> p + extent ss = heap_end h \<Longrightarrow> next_free h p = Some (first_free p ss)"
proof (induction ss arbitrary: q p)
  case Nil
  then show ?case by (subst next_free.simps) simp
next
  case (Cons a ss)
  obtain u n where a: "a = (u, n)" by (cases a)
  have n: "12 < n" "hm_next (hdr h p) = p + n" "hm_used (hdr h p) = (if u then 1 else 0)" "p \<noteq> heap_end h"
    and r: "repr (hdr h) p (p + n) ss" using Cons.prems a by auto
  show ?case using Cons.IH[OF r] Cons.prems a n by (subst next_free.simps) simp
qed

subsection \<open>Splitting and taking a block\<close>

lemma upd_hdr_sel [simp]:
  "hdr (upd_hdr p f h) = (hdr h)(p := f (hdr h p))" "lfree (upd_hdr p f h) = lfree h"
  "mem_size_aligned (upd_hdr p f h) = mem_size_aligned h" "used_mem (upd_hdr p f h) = used_mem h"
  "heap_ptr (upd_hdr p f h) = heap_ptr h" "payload (upd_hdr p f h) = payload h" "max_mem (upd_hdr p f h) = max_mem h"
  by (simp_all add: upd_hdr_def)

lemma split_at_sel [simp]:
  "lfree (split_at p r h) = lfree h" "mem_size_aligned (split_at p r h) = mem_size_aligned h"
  "used_mem (split_at p r h) = used_mem h" "heap_ptr (split_at p r h) = heap_ptr h"
  "payload (split_at p r h) = payload h" "max_mem (split_at p r h) = max_mem h"
  by (simp_all add: split_at_def Let_def)

lemma account_sel [simp]:
  "hdr (account n h) = hdr h" "lfree (account n h) = lfree h" "mem_size_aligned (account n h) = mem_size_aligned h"
  "used_mem (account n h) = used_mem h + n" "heap_ptr (account n h) = heap_ptr h" "payload (account n h) = payload h"
  by (simp_all add: account_def Let_def)

lemma repr_split_at:
  assumes r: "repr (hdr h) 0 0 (xs @ (u, n) # ys)" and ok: "segs_ok (xs @ (u, n) # ys)" and m: "12 < m" "m + 12 < n"
    and e: "extent (xs @ (u, n) # ys) = heap_end h" and p: "p = extent xs"
  shows "repr (hdr (split_at p (p + m) h)) 0 0 (xs @ (u, m) # (False, n - m) # ys)"
    "sentinel (split_at p (p + m) h) \<longleftrightarrow> sentinel h"
proof -
  let ?H = "hdr h"
  have r': "repr ?H 0 0 xs" "hm_magic (?H p) = HEAP_MAGIC" "hm_used (?H p) = (if u then 1 else 0)" "hm_next (?H p) = p + n"
    "hm_prev (?H p) = last_start 0 0 xs" "repr ?H p (p + n) ys"
    using r by (simp_all add: repr_append p)
  let ?G = "?H(p + m := (?H (p + m))\<lparr>hm_magic := HEAP_MAGIC, hm_used := 0, hm_next := p + n, hm_prev := p\<rparr>,
      p := (?H p)\<lparr>hm_next := p + m\<rparr>)"
  have pn: "p \<noteq> p + m" using m by simp
  have G: "repr ?G 0 0 xs" using r'(1) ok p m by simp
  have s: "hdr (split_at p (p + m) h) = (if p + n = heap_end h then ?G else ?G(p + n := (?G (p + n))\<lparr>hm_prev := p + m\<rparr>))"
    using r'(4) m by (simp add: split_at_def Let_def fun_upd_twist)
  have "repr (hdr (split_at p (p + m) h)) 0 0 xs \<and> repr (hdr (split_at p (p + m) h)) (p + m) (p + n) ys"
  proof (cases ys)
    case Nil
    then have "p + n = heap_end h" using e p by simp
    then show ?thesis using G Nil s by simp
  next
    case (Cons b zs)
    obtain v k where b: "b = (v, k)" by (cases b)
    have k: "12 < k" "segs_ok zs" "hm_magic (?H (p + n)) = HEAP_MAGIC" "hm_used (?H (p + n)) = (if v then 1 else 0)"
      "hm_next (?H (p + n)) = p + n + k" "repr ?H (p + n) (p + n + k) zs"
      using ok r'(6) Cons b by auto
    have "p + n \<noteq> heap_end h" using e p Cons b k by simp
    then show ?thesis using G Cons b s k m ok p by simp
  qed
  moreover have "(hdr (split_at p (p + m) h)) p = (?H p)\<lparr>hm_next := p + m\<rparr>"
    "(hdr (split_at p (p + m) h)) (p + m) = (?H (p + m))\<lparr>hm_magic := HEAP_MAGIC, hm_used := 0, hm_next := p + n, hm_prev := p\<rparr>"
    using s m by auto
  ultimately show "repr (hdr (split_at p (p + m) h)) 0 0 (xs @ (u, m) # (False, n - m) # ys)"
    using r' m by (simp add: repr_append p[symmetric])
  have "(hdr (split_at p (p + m) h)) (heap_end h) = ?H (heap_end h)"
    using s m e p by auto
  then show "sentinel (split_at p (p + m) h) \<longleftrightarrow> sentinel h" by (simp add: sentinel_def)
qed


text \<open>Marking a block, used or free.\<close>

lemma repr_mark:
  assumes r: "repr H 0 0 (xs @ (u, n) # ys)" and ok: "segs_ok (xs @ (u, n) # ys)" and p: "p = extent xs"
    and v: "hm_magic v = HEAP_MAGIC" "hm_used v = (if w then 1 else 0)" "hm_next v = hm_next (H p)" "hm_prev v = hm_prev (H p)"
  shows "repr (H(p := v)) 0 0 (xs @ (w, n) # ys)"
  using r ok v by (simp add: repr_append p)

lemma take_block_sel [simp]:
  "lfree (take_block sz p h) = lfree h" "mem_size_aligned (take_block sz p h) = mem_size_aligned h"
  "heap_ptr (take_block sz p h) = heap_ptr h" "payload (take_block sz p h) = payload h"
  by (simp_all add: take_block_def Let_def)

lemma take_block_body:
  assumes b: "heap_body h (xs @ (False, n) # ys)" and p: "p = extent xs"
    and s: "12 \<le> sz" "sz mod 4 = 0" "sz + 12 \<le> n"
  shows "heap_body (take_block sz p h)
    (xs @ (if sz + 36 \<le> n then [(True, sz + 12), (False, n - (sz + 12))] else [(True, n)]) @ ys)"
    (is "heap_body ?h (xs @ ?new @ ys)")
proof -
  have r: "repr (hdr h) 0 0 (xs @ (False, n) # ys)" and ok: "segs_ok (xs @ (False, n) # ys)"
    and e: "extent (xs @ (False, n) # ys) = heap_end h" and sn: "sentinel h" and us: "used_mem h = used_total (xs @ (False, n) # ys)"
    using b by (simp_all add: heap_body_def)
  have nx: "hm_next (hdr h p) = p + n" using r by (simp add: repr_append p)
  have c: "sub32 (next_of h p) (p + SIZEOF_STRUCT_MEM) \<ge> sz + SIZEOF_STRUCT_MEM + MIN_SIZE_ALIGNED \<longleftrightarrow> sz + 36 \<le> n"
    using nx s by (simp, arith)
  have q: "p + SIZEOF_STRUCT_MEM + sz = p + (sz + 12)" by simp
  have pe: "p < heap_end h" using e ok by (simp add: p)
  show "heap_body ?h (xs @ ?new @ ys)"
  proof (cases "sz + 36 \<le> n")
    case True
    let ?s = "split_at p (p + (sz + 12)) h"
    have m: "12 < sz + 12" "sz + 12 + 12 < n" using s True by simp_all
    note sp = repr_split_at[OF r ok m e p]
    have "n mod 4 = 0" using ok by simp
    then have n4: "(n - (sz + 12)) mod 4 = 0" using s(2) m by presburger
    then have ok': "segs_ok (xs @ (False, sz + 12) # (False, n - (sz + 12)) # ys)" using ok s True by (simp add: mod_add_eq[symmetric])
    have H: "hdr ?h = (hdr ?s)(p := (hdr ?s p)\<lparr>hm_used := 1, hm_magic := HEAP_MAGIC\<rparr>)"
      using True unfolding take_block_def c q Let_def by simp
    have "repr (hdr ?h) 0 0 (xs @ (True, sz + 12) # (False, n - (sz + 12)) # ys)"
      unfolding H by (rule repr_mark[OF sp(1) ok' p]) simp_all
    moreover have "sentinel ?h" using sn sp(2) pe H by (simp add: sentinel_def)
    moreover have "used_mem ?h = used_mem h + (sz + 12)"
      using True unfolding take_block_def c q Let_def by simp
    ultimately show ?thesis using b ok' m True by (simp add: heap_body_def)
  next
    case False
    have H: "hdr ?h = (hdr h)(p := (hdr h p)\<lparr>hm_used := 1, hm_magic := HEAP_MAGIC\<rparr>)"
      using False unfolding take_block_def c q Let_def by simp
    have "repr (hdr ?h) 0 0 (xs @ (True, n) # ys)" unfolding H by (rule repr_mark[OF r ok p]) simp_all
    moreover have "sentinel ?h" using sn pe H by (simp add: sentinel_def)
    moreover have "used_mem ?h = used_mem h + n"
      using False nx unfolding take_block_def c q Let_def by simp
    ultimately show ?thesis using b ok False by (simp add: heap_body_def)
  qed
qed

lemma no_holes_append:
  "no_holes (xs @ ys) \<longleftrightarrow> no_holes xs \<and> no_holes ys \<and> (xs \<noteq> [] \<longrightarrow> ys \<noteq> [] \<longrightarrow> fst (last xs) \<or> fst (hd ys))"
  by (auto simp: no_holes_def successively_append_iff)

lemma no_holes_simps [simp]:
  "no_holes []" "no_holes (a # ss) \<longleftrightarrow> no_holes ss \<and> (ss \<noteq> [] \<longrightarrow> fst a \<or> fst (hd ss))"
  by (cases ss; auto simp: no_holes_def)+


subsection \<open>Allocation\<close>

text \<open>The size a request is served with.\<close>

definition served :: "u32 \<Rightarrow> nat" where
  "served a = max MIN_SIZE_ALIGNED (unat (RT_ALIGN a RT_ALIGN_SIZE))"

lemma served_props: "12 \<le> served a" "served a mod 4 = 0"
  by (simp_all add: served_def align_nat max_def)

lemma extent_0: "segs_ok xs \<Longrightarrow> extent xs = 0 \<longleftrightarrow> xs = []"
  by (cases xs) auto

lemma heap_inv_min: "heap_body h ss \<Longrightarrow> 12 \<le> mem_size_aligned h"
  by (simp add: heap_body_def)

definition carved :: "nat \<Rightarrow> nat \<Rightarrow> seg list" where
  "carved sz n = (if sz + 36 \<le> n then [(True, sz + 12), (False, n - (sz + 12))] else [(True, n)])"

lemma carved_props: "carved sz n \<noteq> []" "fst (hd (carved sz n))" "fst (last (carved sz n)) \<or> 36 + sz \<le> n"
  "no_holes (carved sz n)" "used_total (carved sz n) = (if sz + 36 \<le> n then sz + 12 else n)"
  "sz + 12 \<le> n \<Longrightarrow> extent (carved sz n) = n"
  by (auto simp: carved_def)

lemma carved_holes: "no_holes (zs @ (False, n) # ys) \<Longrightarrow> no_holes (zs @ carved sz n @ ys)"
  by (auto simp: carved_def no_holes_append)

lemma heap_body_lfree: "heap_body (h\<lparr>lfree := l\<rparr>) ss \<longleftrightarrow> heap_body h ss"
  by (simp add: heap_body_def sentinel_def)

lemma malloc_search:
  assumes b: "heap_body h (as @ bs)" and l: "lfree h = extent as" and sz: "sz \<le> mem_size_aligned h"
  shows "heap_find h sz (lfree h) = Some (fit (mem_size_aligned h - sz) sz (extent as) bs)"
  using b sz unfolding l by (intro heap_find_fit) (auto simp: heap_body_def repr_append)

lemma malloc_grant:
  assumes b: "heap_body h (as @ bs)" and nh: "no_holes (as @ bs)" and l: "lfree h = extent as" and hd: "bs \<noteq> [] \<longrightarrow> \<not> fst (hd bs)"
    and bs: "bs = xs @ (False, n) # ys" and n: "served a + 12 \<le> n" and a: "a \<noteq> 0" "unat (RT_ALIGN a RT_ALIGN_SIZE) \<le> mem_size_aligned h"
    and f: "fit (mem_size_aligned h - served a) (served a) (extent as) bs = Some (extent as + extent xs)"
  obtains h' where "rt_malloc a h = Some (Some (extent (as @ xs) + SIZEOF_STRUCT_MEM), h')"
    "heap_inv h' (as @ xs @ carved (served a) n @ ys)" "lfree h' = (if xs = [] then first_free (extent as) (carved (served a) n @ ys) else lfree h)"
    "mem_size_aligned h' = mem_size_aligned h" "heap_ptr h' = heap_ptr h" "payload h' = payload h"
proof -
  let ?sz = "served a" and ?p = "extent (as @ xs)" and ?new = "carved (served a) n"
  let ?h1 = "take_block ?sz ?p h"
  have b': "heap_body h ((as @ xs) @ (False, n) # ys)" using b bs by simp
  note t = take_block_body[OF b' refl served_props n, folded carved_def]
  have sm: "?sz \<le> mem_size_aligned h" using a(2) heap_inv_min[OF b] by (simp add: served_def)
  have ok: "segs_ok (as @ xs)" using b' by (simp add: heap_body_def)
  have find: "heap_find h ?sz (lfree h) = Some (Some ?p)" using malloc_search[OF b l sm] f by simp
  have szeq: "(if unat (RT_ALIGN a RT_ALIGN_SIZE) < MIN_SIZE_ALIGNED then MIN_SIZE_ALIGNED else unat (RT_ALIGN a RT_ALIGN_SIZE)) = ?sz"
    by (simp add: served_def max_def)
  have al: "(heap_ptr h + ?p) mod 4 = 0" "(heap_ptr h + ?p + 12) mod 4 = 0"
    using segs_mod[OF ok] b by (simp_all add: heap_body_def mod_eq_0_iff_dvd del: map_append)
  have fits: "?p + 12 + ?sz \<le> heap_end h" using b' n by (simp add: heap_body_def)
  have nh': "no_holes (as @ xs @ ?new @ ys)"
    using carved_holes[of "as @ xs" n ys] nh bs by simp
  have pl: "?p = lfree h \<longleftrightarrow> xs = []" using l ok extent_0[of xs] by simp
  define h' where "h' = (if xs = [] then ?h1\<lparr>lfree := first_free (extent as) (?new @ ys)\<rparr> else ?h1)"
  have lf: "lfree h' = (if xs = [] then first_free (extent as) (?new @ ys) else lfree h)" using t by (simp add: h'_def)
  have adv: "next_free ?h1 (extent as) = Some (first_free (extent as) (?new @ ys))" if "xs = []"
    using t that by (intro next_free_first[of _ "last_start 0 0 as"]) (auto simp: heap_body_def repr_append)
  have ends: "first_free (extent as) (?new @ ys) = heap_end ?h1 \<or> \<not> used_at ?h1 (first_free (extent as) (?new @ ys))" if "xs = []"
  proof -
    from first_free_split[of "?new @ ys" "extent as"] obtain us vs where v: "?new @ ys = us @ vs"
      "first_free (extent as) (?new @ ys) = extent as + extent us" "vs \<noteq> [] \<longrightarrow> \<not> fst (hd vs)" by blast
    have "repr (hdr ?h1) 0 0 (as @ us @ vs)" "extent (as @ us @ vs) = heap_end ?h1"
      using t that v(1) by (simp_all add: heap_body_def append_assoc[symmetric] del: append_assoc)
    then show ?thesis using v(2,3) by (cases vs) (auto simp: repr_append)
  qed
  have inv: "heap_inv h' (as @ xs @ ?new @ ys)"
  proof -
    have "lfree_ok (lfree h') (as @ xs @ ?new @ ys)"
    proof (cases "xs = []")
      case True
      from first_free_split[of "?new @ ys" "extent as"] obtain us vs where v: "?new @ ys = us @ vs"
        "first_free (extent as) (?new @ ys) = extent as + extent us" "vs \<noteq> [] \<longrightarrow> \<not> fst (hd vs)" by blast
      then show ?thesis using lf True by (intro lfree_okI[of _ "as @ us" vs]) auto
    next
      case False
      then show ?thesis using lf l hd bs by (intro lfree_okI[of _ as "xs @ ?new @ ys"]) auto
    qed
    moreover have "heap_body h' (as @ xs @ ?new @ ys)"
      using t by (cases "xs = []") (simp_all add: h'_def heap_body_lfree)
    ultimately show ?thesis using nh' by (simp add: heap_inv_def)
  qed
  have "rt_malloc a h = Some (Some (?p + SIZEOF_STRUCT_MEM), h')"
    using a find pl adv ends al fits t l
    by (cases "xs = []") (simp_all add: rt_malloc_def szeq Let_def h'_def del: sum_list_eq_0_iff)
  with inv lf show ?thesis by (intro that[of h']) (use t in \<open>simp_all add: h'_def\<close>)
qed


text \<open>The starts of the free blocks: \<open>lfree\<close> is one of them or the end, the lowest one is where the search may begin.\<close>

fun free_starts :: "nat \<Rightarrow> seg list \<Rightarrow> nat set" where
  "free_starts p [] = {}"
| "free_starts p ((u, n) # ss) = (if u then {} else {p}) \<union> free_starts (p + n) ss"

lemma free_starts_append: "free_starts p (xs @ ys) = free_starts p xs \<union> free_starts (p + extent xs) ys"
  by (induction xs arbitrary: p) (auto simp: add.assoc)

lemma free_starts_bounds: "x \<in> free_starts p ss \<Longrightarrow> segs_ok ss \<Longrightarrow> p \<le> x \<and> x + 12 < p + extent ss"
  by (induction ss arbitrary: p) (fastforce split: if_splits)+

lemma free_starts_split: "x \<in> free_starts p ss \<Longrightarrow> \<exists>xs n ys. ss = xs @ (False, n) # ys \<and> x = p + extent xs"
proof (induction ss arbitrary: p)
  case (Cons a ss)
  obtain u n where a: "a = (u, n)" by (cases a)
  show ?case
  proof (cases "\<not> u \<and> x = p")
    case True
    then show ?thesis using a by - (rule exI[of _ "[]"], rule exI[of _ n], rule exI[of _ ss], simp)
  next
    case False
    then have "x \<in> free_starts (p + n) ss" using Cons.prems a by (auto split: if_splits)
    from Cons.IH[OF this] obtain xs m ys where "ss = xs @ (False, m) # ys" "x = p + n + extent xs" by blast
    then show ?thesis using a by - (rule exI[of _ "a # xs"], rule exI[of _ m], rule exI[of _ ys], simp)
  qed
qed simp

lemma lfree_ok_iff: "lfree_ok l ss \<longleftrightarrow> l \<in> free_starts 0 ss \<or> l = extent ss"
proof
  assume "lfree_ok l ss"
  then obtain xs ys where x: "ss = xs @ ys" "l = extent xs" "ys \<noteq> [] \<longrightarrow> \<not> fst (hd ys)" by (auto simp: lfree_ok_def)
  then show "l \<in> free_starts 0 ss \<or> l = extent ss" by (cases ys) (auto simp: free_starts_append)
next
  assume "l \<in> free_starts 0 ss \<or> l = extent ss"
  then show "lfree_ok l ss"
  proof
    assume "l \<in> free_starts 0 ss"
    from free_starts_split[OF this] obtain xs n ys where "ss = xs @ (False, n) # ys" "l = extent xs" by auto
    then show ?thesis by (intro lfree_okI[of _ xs "(False, n) # ys"]) simp_all
  next
    assume "l = extent ss"
    then show ?thesis by (intro lfree_okI[of _ ss "[]"]) simp_all
  qed
qed

lemma first_free_least: "segs_ok ss \<Longrightarrow> x \<in> free_starts p ss \<Longrightarrow> first_free p ss \<le> x"
proof (induction ss arbitrary: p)
  case (Cons a ss)
  obtain u n where a: "a = (u, n)" by (cases a)
  show ?case
  proof (cases u)
    case True
    then show ?thesis using Cons.IH[of "p + n"] Cons.prems a by simp
  next
    case False
    then show ?thesis using free_starts_bounds[OF Cons.prems(2,1)] a by simp
  qed
qed simp

lemma first_free_in: "first_free p ss \<in> free_starts p ss \<or> free_starts p ss = {} \<and> first_free p ss = p + extent ss"
proof (induction ss arbitrary: p)
  case (Cons a ss)
  obtain u n where a: "a = (u, n)" by (cases a)
  show ?case using Cons.IH[of "p + n"] a by (cases u) (auto simp: add.assoc)
qed simp

lemma lowest_iff:
  assumes "segs_ok ss" "lfree_ok (lfree h) ss"
  shows "lowest h ss \<longleftrightarrow> (\<forall>x\<in>free_starts 0 ss. lfree h \<le> x)"
proof
  assume "lowest h ss"
  then show "\<forall>x\<in>free_starts 0 ss. lfree h \<le> x" using first_free_least[OF assms(1)] by (simp add: lowest_def)
next
  assume le: "\<forall>x\<in>free_starts 0 ss. lfree h \<le> x"
  show "lowest h ss"
  proof (cases "free_starts 0 ss = {}")
    case True
    then show ?thesis using assms(2) first_free_in[of 0 ss] by (simp add: lfree_ok_iff lowest_def)
  next
    case False
    then have f: "first_free 0 ss \<in> free_starts 0 ss" using first_free_in[of 0 ss] by blast
    have "lfree h \<noteq> extent ss" using free_starts_bounds[OF f assms(1)] le f by auto
    then have "lfree h \<in> free_starts 0 ss" using assms(2) by (simp add: lfree_ok_iff)
    then show ?thesis using first_free_least[OF assms(1)] le f unfolding lowest_def by (meson le_antisym)
  qed
qed

text \<open>What \<open>rt_malloc\<close> returns. With \<open>lfree\<close> at the lowest free block it refuses only when no free block in
  reach is large enough.\<close>

lemma rt_malloc_cases:
  assumes i: "heap_inv h ss" and a: "a \<noteq> 0"
  obtains (granted) h' xs n ys where "ss = xs @ (False, n) # ys" "served a + 12 \<le> n"
      "rt_malloc a h = Some (Some (extent xs + SIZEOF_STRUCT_MEM), h')" "heap_inv h' (xs @ carved (served a) n @ ys)"
      "mem_size_aligned h' = mem_size_aligned h" "heap_ptr h' = heap_ptr h" "payload h' = payload h"
      "lowest h ss \<Longrightarrow> lowest h' (xs @ carved (served a) n @ ys)"
      "lowest h ss \<Longrightarrow> \<forall>(u, m)\<in>set xs. u \<or> m < served a + 12"
  | (refused) "rt_malloc a h = Some (None, h)"
      "lowest h ss \<Longrightarrow> mem_size_aligned h < unat (RT_ALIGN a RT_ALIGN_SIZE) \<or>
        (\<forall>xs n ys. ss = xs @ (False, n) # ys \<longrightarrow> extent xs + served a < mem_size_aligned h \<longrightarrow> n < served a + 12)"
proof (cases "mem_size_aligned h < unat (RT_ALIGN a RT_ALIGN_SIZE)")
  case True
  then show ?thesis using a by (intro refused) (simp_all add: rt_malloc_def)
next
  case False
  obtain as bs where d: "ss = as @ bs" "lfree h = extent as" "bs \<noteq> [] \<longrightarrow> \<not> fst (hd bs)" "lowest h ss \<longrightarrow> (\<forall>x\<in>set as. fst x)"
  proof (cases "lowest h ss")
    case True
    then show ?thesis using first_free_split[of ss 0] that by (auto simp: lowest_def)
  next
    case False
    then show ?thesis using i that by (auto simp: heap_inv_def lfree_ok_def)
  qed
  have b: "heap_body h (as @ bs)" "no_holes (as @ bs)" using i d(1) by (simp_all add: heap_inv_def)
  have sm: "served a \<le> mem_size_aligned h" using False heap_inv_min[OF b(1)] by (simp add: served_def)
  note find = malloc_search[OF b(1) d(2) sm]
  have szeq: "(if unat (RT_ALIGN a RT_ALIGN_SIZE) < MIN_SIZE_ALIGNED then MIN_SIZE_ALIGNED else unat (RT_ALIGN a RT_ALIGN_SIZE)) = served a"
    by (simp add: served_def max_def)
  show ?thesis
  proof (cases "fit (mem_size_aligned h - served a) (served a) (extent as) bs")
    case None
    have "n < served a + 12" if l: "lowest h ss" and s: "ss = xs @ (False, n) # ys" "extent xs + served a < mem_size_aligned h" for xs n ys
    proof -
      have "\<exists>us. xs = as @ us \<and> bs = us @ (False, n) # ys"
        using d(1) s(1) d(4) l by (force simp: append_eq_append_conv2 append_eq_Cons_conv Cons_eq_append_conv)
      then obtain us where "xs = as @ us" "bs = us @ (False, n) # ys" by blast
      with fit_complete[OF None this(2)] s(2) show ?thesis by simp
    qed
    then show ?thesis using a False find None by (intro refused) (auto simp: rt_malloc_def szeq Let_def)
  next
    case (Some r)
    from fit_some[OF Some] obtain xs n ys where f: "bs = xs @ (False, n) # ys" "r = extent as + extent xs" "served a + 12 \<le> n"
      "\<forall>(u, m)\<in>set xs. u \<or> m < served a + 12" by blast
    have na: "unat (RT_ALIGN a RT_ALIGN_SIZE) \<le> mem_size_aligned h" using False by simp
    show ?thesis
    proof (rule malloc_grant[OF b d(2,3) f(1,3) a na Some[unfolded f(2)]], goal_cases)
      case (1 h')
      have "lowest h' (as @ xs @ carved (served a) n @ ys)" if l: "lowest h ss"
      proof -
        have "first_free 0 (as @ zs) = first_free (extent as) zs" for zs using d(4) l by (auto simp: first_free_append)
        moreover have "first_free (extent as) (xs @ zs) = extent as" if "xs \<noteq> []" for zs
          using d(3) f(1) that by (cases xs) auto
        ultimately show ?thesis using 1(3) d(2) by (cases "xs = []") (simp_all add: lowest_def)
      qed
      then show ?case using 1 d f by (intro granted[of "as @ xs" n ys h']) auto
    qed
  qed
qed


subsection \<open>Release\<close>

text \<open>Melting two free neighbours: the stores both halves of \<open>plug_holes\<close> make.\<close>

lemma repr_melt:
  assumes r: "repr H 0 0 (ws @ (False, m) # (False, n) # zs)" and ok: "segs_ok (ws @ (False, m) # (False, n) # zs)" and q: "q = extent ws"
  shows "repr (H(q := (H q)\<lparr>hm_next := q + m + n\<rparr>, q + m + n := (H (q + m + n))\<lparr>hm_prev := q\<rparr>)) 0 0 (ws @ (False, m + n) # zs)"
proof -
  let ?G = "H(q := (H q)\<lparr>hm_next := q + m + n\<rparr>, q + m + n := (H (q + m + n))\<lparr>hm_prev := q\<rparr>)"
  have r': "repr H 0 0 ws" "hm_magic (H q) = HEAP_MAGIC" "hm_used (H q) = 0" "hm_prev (H q) = last_start 0 0 ws"
    "repr H (q + m) (q + m + n) zs" using r by (simp_all add: repr_append q)
  have mn: "12 < m" "12 < n" using ok by simp_all
  have "repr ?G 0 0 ws" using r'(1) ok q mn by simp
  moreover have "?G q = (H q)\<lparr>hm_next := q + m + n\<rparr>" using mn by simp
  moreover have "repr ?G q (q + m + n) zs"
  proof (cases zs)
    case (Cons b ys)
    obtain v k where b: "b = (v, k)" by (cases b)
    have "12 < k" "segs_ok ys" using ok Cons b by simp_all
    then show ?thesis using r'(5) Cons b mn by simp
  qed simp
  ultimately show ?thesis using r' by (simp add: repr_append q add.assoc)
qed

lemma plug_forward_sel [simp]:
  "mem_size_aligned (plug_forward p h) = mem_size_aligned h" "used_mem (plug_forward p h) = used_mem h"
  "heap_ptr (plug_forward p h) = heap_ptr h" "payload (plug_forward p h) = payload h"
  by (simp_all add: plug_forward_def Let_def)

lemma plug_backward_sel [simp]:
  "mem_size_aligned (plug_backward p h) = mem_size_aligned h" "used_mem (plug_backward p h) = used_mem h"
  "heap_ptr (plug_backward p h) = heap_ptr h" "payload (plug_backward p h) = payload h"
  by (simp_all add: plug_backward_def Let_def)

lemma plug_forward_melts:
  assumes b: "heap_body h (xs @ (False, n) # (False, m) # zs)" and p: "p = extent xs"
  shows "heap_body (plug_forward p h) (xs @ (False, n + m) # zs)"
    "lfree (plug_forward p h) = (if lfree h = p + n then p else lfree h)"
proof -
  have r: "repr (hdr h) 0 0 (xs @ (False, n) # (False, m) # zs)" and ok: "segs_ok (xs @ (False, n) # (False, m) # zs)"
    and e: "extent (xs @ (False, n) # (False, m) # zs) = heap_end h"
    using b by (simp_all add: heap_body_def)
  have nx: "hm_next (hdr h p) = p + n" "hm_next (hdr h (p + n)) = p + n + m" "hm_used (hdr h (p + n)) = 0"
    using r by (simp_all add: repr_append p)
  have nm: "12 < n" "12 < m" "p + n \<noteq> heap_end h" "p < heap_end h" using ok e p by simp_all
  have H: "hdr (plug_forward p h) =
      (hdr h)(p := (hdr h p)\<lparr>hm_next := p + n + m\<rparr>, p + n + m := (hdr h (p + n + m))\<lparr>hm_prev := p\<rparr>)"
    using nx nm by (auto simp: plug_forward_def Let_def)
  have "repr (hdr (plug_forward p h)) 0 0 (xs @ (False, n + m) # zs)" unfolding H by (rule repr_melt[OF r ok p])
  moreover have "sentinel (plug_forward p h)" using b nm unfolding sentinel_def H by (auto simp: heap_body_def sentinel_def)
  moreover have "(n + m) mod 4 = 0" using ok by (simp add: mod_eq_0_iff_dvd)
  ultimately show "heap_body (plug_forward p h) (xs @ (False, n + m) # zs)" using b by (simp add: heap_body_def)
  show "lfree (plug_forward p h) = (if lfree h = p + n then p else lfree h)"
    using nx nm by (simp add: plug_forward_def Let_def)
qed

lemma plug_forward_idle:
  assumes b: "heap_body h (xs @ (False, n) # ys)" and p: "p = extent xs" and y: "ys \<noteq> [] \<longrightarrow> fst (hd ys)"
  shows "plug_forward p h = h"
proof (cases ys)
  case Nil
  then show ?thesis using b p by (simp add: heap_body_def repr_append plug_forward_def)
next
  case (Cons a zs)
  then obtain k where "a = (True, k)" using y by (cases a) simp
  then show ?thesis using b p Cons by (simp add: heap_body_def repr_append plug_forward_def)
qed

lemma plug_backward_melts:
  assumes b: "heap_body h (ws @ (False, m) # (False, n) # zs)" and p: "p = extent ws + m"
  shows "heap_body (plug_backward p h) (ws @ (False, m + n) # zs)"
    "lfree (plug_backward p h) = (if lfree h = p then extent ws else lfree h)"
proof -
  define q where "q = extent ws"
  have r: "repr (hdr h) 0 0 (ws @ (False, m) # (False, n) # zs)" and ok: "segs_ok (ws @ (False, m) # (False, n) # zs)"
    and e: "extent (ws @ (False, m) # (False, n) # zs) = heap_end h"
    using b by (simp_all add: heap_body_def)
  have nx: "hm_next (hdr h p) = q + m + n" "hm_prev (hdr h p) = q" "hm_used (hdr h q) = 0"
    using r by (simp_all add: repr_append p q_def)
  have nm: "12 < n" "12 < m" "p \<noteq> q" "q < heap_end h" using ok e p by (simp_all add: q_def)
  have H: "hdr (plug_backward p h) =
      (hdr h)(q := (hdr h q)\<lparr>hm_next := q + m + n\<rparr>, q + m + n := (hdr h (q + m + n))\<lparr>hm_prev := q\<rparr>)"
    using nx nm by (auto simp: plug_backward_def Let_def)
  have "repr (hdr (plug_backward p h)) 0 0 (ws @ (False, m + n) # zs)" unfolding H by (rule repr_melt[OF r ok q_def])
  moreover have "sentinel (plug_backward p h)" using b nm unfolding sentinel_def H by (auto simp: heap_body_def sentinel_def)
  moreover have "(m + n) mod 4 = 0" using ok by (simp add: mod_eq_0_iff_dvd)
  ultimately show "heap_body (plug_backward p h) (ws @ (False, m + n) # zs)" using b by (simp add: heap_body_def)
  show "lfree (plug_backward p h) = (if lfree h = p then extent ws else lfree h)"
    using nx nm by (simp add: plug_backward_def Let_def q_def)
qed

lemma plug_backward_idle:
  assumes b: "heap_body h (xs @ (False, n) # ys)" and p: "p = extent xs" and x: "xs \<noteq> [] \<longrightarrow> fst (last xs)"
  shows "plug_backward p h = h"
proof (cases xs rule: rev_cases)
  case Nil
  then show ?thesis using b p by (simp add: heap_body_def plug_backward_def)
next
  case (snoc ws a)
  then obtain k where "a = (True, k)" using x by (cases a) simp
  then show ?thesis using b p snoc by (simp add: heap_body_def repr_append last_start_append plug_backward_def)
qed


text \<open>What a freed block and its neighbours become.\<close>

definition ahead :: "nat \<Rightarrow> seg list \<Rightarrow> nat \<times> seg list" where
  "ahead n ys = (case ys of [] \<Rightarrow> (n, []) | (u, m) # zs \<Rightarrow> if u then (n, ys) else (n + m, zs))"

definition freed :: "seg list \<Rightarrow> nat \<Rightarrow> seg list \<Rightarrow> seg list" where
  "freed xs n ys =
     (let (n1, ys1) = ahead n ys
      in if xs \<noteq> [] \<and> \<not> fst (last xs) then butlast xs @ (False, snd (last xs) + n1) # ys1 else xs @ (False, n1) # ys1)"

definition low :: "mem_heap \<Rightarrow> seg list \<Rightarrow> bool" where
  "low h ss \<longleftrightarrow> (\<forall>x\<in>free_starts 0 ss. lfree h \<le> x)"

lemma plug_forward_step:
  assumes b: "heap_body h (xs @ (False, n) # ys)" and p: "p = extent xs" and l: "lfree_ok (lfree h) (xs @ (False, n) # ys)"
    and y: "no_holes ys" and a: "ahead n ys = (n1, ys1)"
  shows "heap_body (plug_forward p h) (xs @ (False, n1) # ys1)" "lfree_ok (lfree (plug_forward p h)) (xs @ (False, n1) # ys1)"
    "low h (xs @ (False, n) # ys) \<Longrightarrow> low (plug_forward p h) (xs @ (False, n1) # ys1)"
    "ys1 \<noteq> [] \<longrightarrow> fst (hd ys1)" "no_holes ys1"
proof -
  consider (idle) "ys \<noteq> [] \<longrightarrow> fst (hd ys)" | (melt) m zs where "ys = (False, m) # zs" by (cases ys) (auto, blast)
  then have "heap_body (plug_forward p h) (xs @ (False, n1) # ys1) \<and> lfree_ok (lfree (plug_forward p h)) (xs @ (False, n1) # ys1)
    \<and> (low h (xs @ (False, n) # ys) \<longrightarrow> low (plug_forward p h) (xs @ (False, n1) # ys1)) \<and> (ys1 \<noteq> [] \<longrightarrow> fst (hd ys1)) \<and> no_holes ys1"
  proof cases
    case idle
    then have "n1 = n" "ys1 = ys" using a by (auto simp: ahead_def split: list.splits if_splits)
    then show ?thesis using plug_forward_idle[OF b p idle] b l y idle by simp
  next
    case melt
    then have n1: "n1 = n + m" "ys1 = zs" using a by (simp_all add: ahead_def)
    note f = plug_forward_melts[OF b[unfolded melt] p]
    have "lfree_ok (lfree (plug_forward p h)) (xs @ (False, n + m) # zs)"
      using l unfolding lfree_ok_iff f(2) melt by (auto simp: free_starts_append p add.assoc)
    moreover have "low (plug_forward p h) (xs @ (False, n + m) # zs)" if "low h (xs @ (False, n) # ys)"
      using that unfolding low_def f(2) melt by (auto simp: free_starts_append p add.assoc)
    ultimately show ?thesis using f(1) n1 y melt by auto
  qed
  then show "heap_body (plug_forward p h) (xs @ (False, n1) # ys1)" "lfree_ok (lfree (plug_forward p h)) (xs @ (False, n1) # ys1)"
    "low h (xs @ (False, n) # ys) \<Longrightarrow> low (plug_forward p h) (xs @ (False, n1) # ys1)"
    "ys1 \<noteq> [] \<longrightarrow> fst (hd ys1)" "no_holes ys1" by simp_all
qed

lemma last_free: "xs \<noteq> [] \<and> \<not> fst (last xs) \<Longrightarrow> xs = butlast xs @ [(False, snd (last xs))]"
  using append_butlast_last_id[of xs] by (cases "last xs") simp

lemma plug_backward_step:
  assumes b: "heap_body h (xs @ (False, n) # ys)" and p: "p = extent xs" and l: "lfree_ok (lfree h) (xs @ (False, n) # ys)"
    and nh: "no_holes xs" "no_holes ys" "ys \<noteq> [] \<longrightarrow> fst (hd ys)"
  defines "zs \<equiv> (if xs \<noteq> [] \<and> \<not> fst (last xs) then butlast xs @ (False, snd (last xs) + n) # ys else xs @ (False, n) # ys)"
  shows "heap_inv (plug_backward p h) zs" "low h (xs @ (False, n) # ys) \<Longrightarrow> low (plug_backward p h) zs"
proof -
  consider (idle) "xs \<noteq> [] \<longrightarrow> fst (last xs)" | (melt) m ws where "xs = ws @ [(False, m)]"
    using last_free[of xs] by blast
  then have "heap_inv (plug_backward p h) zs \<and> (low h (xs @ (False, n) # ys) \<longrightarrow> low (plug_backward p h) zs)"
  proof cases
    case idle
    then have "zs = xs @ (False, n) # ys" by (auto simp: zs_def)
    then show ?thesis using plug_backward_idle[OF b p idle] b l nh idle by (auto simp: heap_inv_def no_holes_append)
  next
    case melt
    then have z: "zs = ws @ (False, m + n) # ys" by (simp add: zs_def)
    have b': "heap_body h (ws @ (False, m) # (False, n) # ys)" using b melt by simp
    have p': "p = extent ws + m" using p melt by simp
    note f = plug_backward_melts[OF b' p']
    have "lfree_ok (lfree (plug_backward p h)) zs"
      using l unfolding lfree_ok_iff f(2) melt z by (auto simp: free_starts_append p' add.assoc)
    moreover have "low (plug_backward p h) zs" if "low h (xs @ (False, n) # ys)"
      using that unfolding low_def f(2) melt z by (auto simp: free_starts_append p' add.assoc)
    moreover have "no_holes zs" using nh melt z by (auto simp: no_holes_append)
    ultimately show ?thesis using f(1) z by (simp add: heap_inv_def)
  qed
  then show "heap_inv (plug_backward p h) zs" "low h (xs @ (False, n) # ys) \<Longrightarrow> low (plug_backward p h) zs" by simp_all
qed

lemma plug_holes_melts:
  assumes b: "heap_body h (xs @ (False, n) # ys)" and p: "p = extent xs" and l: "lfree_ok (lfree h) (xs @ (False, n) # ys)"
    and nh: "no_holes xs" "no_holes ys"
  obtains h' where "plug_holes p h = Some h'" "heap_inv h' (freed xs n ys)"
    "low h (xs @ (False, n) # ys) \<Longrightarrow> lowest h' (freed xs n ys)"
    "mem_size_aligned h' = mem_size_aligned h" "heap_ptr h' = heap_ptr h" "payload h' = payload h"
proof -
  obtain n1 ys1 where a: "ahead n ys = (n1, ys1)" by (cases "ahead n ys")
  note f = plug_forward_step[OF b p l nh(2) a]
  note g = plug_backward_step[OF f(1) p f(2) nh(1) f(5,4)]
  let ?h = "plug_backward p (plug_forward p h)"
  have fr: "freed xs n ys = (if xs \<noteq> [] \<and> \<not> fst (last xs) then butlast xs @ (False, snd (last xs) + n1) # ys1 else xs @ (False, n1) # ys1)"
    by (simp add: freed_def a)
  have "p < heap_end h" "\<not> used_at h p" using b p by (simp_all add: heap_body_def repr_append)
  then have "plug_holes p h = Some ?h" by (simp add: plug_holes_def)
  moreover have inv: "heap_inv ?h (freed xs n ys)" unfolding fr by (rule g(1))
  moreover have "lowest ?h (freed xs n ys)" if "low h (xs @ (False, n) # ys)"
    using g(2)[OF f(3)[OF that]] lowest_iff[of "freed xs n ys" ?h] inv unfolding fr low_def heap_inv_def heap_body_def by blast
  ultimately show ?thesis by (intro that[of ?h]) simp_all
qed

text \<open>Freeing a used block.\<close>

lemma rt_free_frees:
  assumes i: "heap_inv h (xs @ (True, n) # ys)"
  obtains h' where "rt_free (Some (extent xs + SIZEOF_STRUCT_MEM)) h = Some h'" "heap_inv h' (freed xs n ys)"
    "lowest h (xs @ (True, n) # ys) \<Longrightarrow> lowest h' (freed xs n ys)"
    "mem_size_aligned h' = mem_size_aligned h" "heap_ptr h' = heap_ptr h" "payload h' = payload h"
proof -
  define p where "p = extent xs"
  have b: "heap_body h (xs @ (True, n) # ys)" and nh: "no_holes xs" "no_holes ys" and l: "lfree_ok (lfree h) (xs @ (True, n) # ys)"
    using i by (simp_all add: heap_inv_def no_holes_append)
  have r: "repr (hdr h) 0 0 (xs @ (True, n) # ys)" and ok: "segs_ok (xs @ (True, n) # ys)" and us: "used_mem h = used_total (xs @ (True, n) # ys)"
    and e: "extent (xs @ (True, n) # ys) = heap_end h" and sn: "sentinel h"
    using b by (simp_all add: heap_body_def)
  have hp: "hm_magic (hdr h p) = HEAP_MAGIC" "hm_used (hdr h p) = 1" "hm_next (hdr h p) = p + n"
    using r by (simp_all add: repr_append p_def)
  have al: "(heap_ptr h + (p + 12)) mod 4 = 0"
    using segs_mod[of xs] ok b by (simp add: heap_body_def mod_eq_0_iff_dvd p_def)
  have pe: "p + 12 < heap_end h" using e ok by (simp add: p_def)
  let ?h1 = "upd_hdr p (\<lambda>m. m\<lparr>hm_used := 0, hm_magic := HEAP_MAGIC\<rparr>) h"
  define h2 where "h2 = (if p < lfree ?h1 then ?h1\<lparr>lfree := p\<rparr> else ?h1)"
  define h3 where "h3 = h2\<lparr>used_mem := sub32 (used_mem h2) (sub32 (next_of h2 p) p)\<rparr>"
  have sel: "hdr h3 = (hdr h)(p := (hdr h p)\<lparr>hm_used := 0, hm_magic := HEAP_MAGIC\<rparr>)" "lfree h3 = min p (lfree h)"
    "mem_size_aligned h3 = mem_size_aligned h" "heap_ptr h3 = heap_ptr h" "payload h3 = payload h"
    by (auto simp: h3_def h2_def)
  have "used_mem h2 = used_mem h" "next_of h2 p = p + n" using hp by (simp_all add: h2_def)
  then have um: "used_mem h3 = used_total (xs @ (False, n) # ys)" using us by (simp add: h3_def)
  have "repr (hdr h3) 0 0 (xs @ (False, n) # ys)" unfolding sel(1) by (rule repr_mark[OF r ok p_def]) simp_all
  moreover have "sentinel h3" using sn e ok unfolding sentinel_def sel by (simp add: p_def)
  ultimately have b3: "heap_body h3 (xs @ (False, n) # ys)" using b um sel by (simp add: heap_body_def)
  have l3: "lfree_ok (lfree h3) (xs @ (False, n) # ys)"
    using l unfolding lfree_ok_iff sel(2) by (auto simp: free_starts_append p_def min_def)
  have lw: "low h3 (xs @ (False, n) # ys)" if "lowest h (xs @ (True, n) # ys)"
    using that lowest_iff[OF ok l] unfolding low_def sel(2) by (auto simp: free_starts_append p_def min_le_iff_disj)
  show ?thesis
  proof (rule plug_holes_melts[OF b3 p_def l3 nh], goal_cases)
    case (1 h')
    have "rt_free (Some (p + SIZEOF_STRUCT_MEM)) h = Some h'"
      using 1(1) al pe hp unfolding h3_def h2_def by (simp add: rt_free_def Let_def)
    then show ?case using 1 lw sel by (intro that[of h']) (simp_all add: p_def)
  qed
qed


subsection \<open>The heap read back from its headers\<close>

fun read_segs :: "(nat \<Rightarrow> heap_mem) \<Rightarrow> nat \<Rightarrow> nat \<Rightarrow> nat \<Rightarrow> seg list" where
  "read_segs H e 0 p = []"
| "read_segs H e (Suc f) p =
     (if p < e then (hm_used (H p) \<noteq> 0, hm_next (H p) - p) # read_segs H e f (hm_next (H p)) else [])"

definition heap_segs :: "mem_heap \<Rightarrow> seg list" where
  "heap_segs h = read_segs (hdr h) (heap_end h) (heap_end h) 0"

definition heap_ok :: "mem_heap \<Rightarrow> bool" where
  "heap_ok h \<longleftrightarrow> heap_inv h (heap_segs h)"

fun used_starts :: "nat \<Rightarrow> seg list \<Rightarrow> nat set" where
  "used_starts p [] = {}"
| "used_starts p ((u, n) # ss) = (if u then {p} else {}) \<union> used_starts (p + n) ss"

text \<open>The blocks in use, named as \<open>rt_malloc\<close> returns them.\<close>

definition live_blocks :: "mem_heap \<Rightarrow> nat set" where
  "live_blocks h = (\<lambda>p. p + SIZEOF_STRUCT_MEM) ` used_starts 0 (heap_segs h)"

lemma read_segs_repr:
  "repr H q p ss \<Longrightarrow> segs_ok ss \<Longrightarrow> length ss < f \<Longrightarrow> read_segs H (p + extent ss) f p = ss"
proof (induction ss arbitrary: q p f)
  case Nil
  then show ?case by (cases f) simp_all
next
  case (Cons a ss)
  obtain u n where a: "a = (u, n)" by (cases a)
  obtain g where g: "f = Suc g" using Cons.prems by (cases f) simp_all
  have "read_segs H (p + n + extent ss) g (p + n) = ss" using Cons.IH[of p "p + n" g] Cons.prems a g by simp
  then show ?case using Cons.prems a g by (simp add: add.assoc)
qed

lemma length_le_extent: "segs_ok ss \<Longrightarrow> length ss \<le> extent ss"
  by (induction ss) auto

lemma segs_unique:
  assumes "heap_body h ss"
  shows "heap_segs h = ss"
proof -
  have b: "repr (hdr h) 0 0 ss" "segs_ok ss" "extent ss = heap_end h" using assms by (simp_all add: heap_body_def)
  have "length ss < heap_end h"
  proof (cases ss)
    case (Cons a zs)
    then show ?thesis using length_le_extent[of zs] b by (cases a) simp
  qed simp
  from read_segs_repr[OF b(1,2) this] b(3) show ?thesis by (simp add: heap_segs_def)
qed

lemma heap_inv_ok: "heap_inv h ss \<Longrightarrow> heap_ok h \<and> heap_segs h = ss"
  using segs_unique[of h ss] by (simp add: heap_inv_def heap_ok_def)

lemma used_starts_append: "used_starts p (xs @ ys) = used_starts p xs \<union> used_starts (p + extent xs) ys"
  by (induction xs arbitrary: p) (auto simp: add.assoc)

lemma used_starts_bounds: "x \<in> used_starts p ss \<Longrightarrow> segs_ok ss \<Longrightarrow> p \<le> x \<and> x + 12 < p + extent ss"
  by (induction ss arbitrary: p) (fastforce split: if_splits)+

lemma used_starts_split: "x \<in> used_starts p ss \<Longrightarrow> \<exists>xs n ys. ss = xs @ (True, n) # ys \<and> x = p + extent xs"
proof (induction ss arbitrary: p)
  case (Cons a ss)
  obtain u n where a: "a = (u, n)" by (cases a)
  show ?case
  proof (cases "u \<and> x = p")
    case True
    then show ?thesis using a by - (rule exI[of _ "[]"], rule exI[of _ n], rule exI[of _ ss], simp)
  next
    case False
    then have "x \<in> used_starts (p + n) ss" using Cons.prems a by (auto split: if_splits)
    from Cons.IH[OF this] obtain xs m ys where "ss = xs @ (True, m) # ys" "x = p + n + extent xs" by blast
    then show ?thesis using a by - (rule exI[of _ "a # xs"], rule exI[of _ m], rule exI[of _ ys], simp)
  qed
qed simp

lemma used_starts_carved:
  assumes "segs_ok (xs @ (False, n) # ys)" "sz + 12 \<le> n"
  shows "used_starts 0 (xs @ carved sz n @ ys) = insert (extent xs) (used_starts 0 (xs @ (False, n) # ys))"
    "extent xs \<notin> used_starts 0 (xs @ (False, n) # ys)"
proof -
  show "used_starts 0 (xs @ carved sz n @ ys) = insert (extent xs) (used_starts 0 (xs @ (False, n) # ys))"
    using assms(2) by (auto simp: used_starts_append carved_def)
  show "extent xs \<notin> used_starts 0 (xs @ (False, n) # ys)"
    using assms(1) used_starts_bounds[of "extent xs" 0 xs] used_starts_bounds[of "extent xs" "extent xs + n" ys]
    by (auto simp: used_starts_append)
qed

lemma used_starts_freed:
  assumes "segs_ok (xs @ (True, n) # ys)"
  shows "used_starts 0 (freed xs n ys) = used_starts 0 (xs @ (True, n) # ys) - {extent xs}"
proof -
  obtain n1 ys1 where a: "ahead n ys = (n1, ys1)" by (cases "ahead n ys")
  have f: "used_starts (k + n1) ys1 = used_starts (k + n) ys" for k
    using a by (cases ys) (auto simp: ahead_def add.assoc split: if_splits)
  have "used_starts 0 (freed xs n ys) = used_starts 0 xs \<union> used_starts (extent xs + n) ys"
  proof (cases "xs \<noteq> [] \<and> \<not> fst (last xs)")
    case True
    then obtain ws m where x: "xs = ws @ [(False, m)]" using last_free by blast
    then show ?thesis using f[of "extent ws + m"] by (simp add: freed_def a used_starts_append add.assoc)
  next
    case False
    then show ?thesis using f[of "extent xs"] by (auto simp: freed_def a used_starts_append)
  qed
  moreover have "extent xs \<notin> used_starts 0 xs \<union> used_starts (extent xs + n) ys"
    using assms used_starts_bounds[of "extent xs" 0 xs] used_starts_bounds[of "extent xs" "extent xs + n" ys] by auto
  ultimately show ?thesis by (auto simp: used_starts_append)
qed

text \<open>Every block in use has its own stretch of the heap.\<close>

lemma live_disjoint:
  assumes "segs_ok (xs @ (True, n) # ys)" "x \<in> used_starts 0 (xs @ (True, n) # ys)" "x \<noteq> extent xs"
  shows "x + 12 < extent xs \<or> extent xs + n \<le> x"
  using assms used_starts_bounds[of x 0 xs] used_starts_bounds[of x "extent xs + n" ys] by (auto simp: used_starts_append)

subsection \<open>The heap as an allocator\<close>

definition heap_request :: "u32 \<Rightarrow> mem_heap \<Rightarrow> (nat \<times> mem_heap) option" where
  "heap_request a h = (case rt_malloc a h of Some (Some p, h') \<Rightarrow> Some (p, h') | _ \<Rightarrow> None)"

definition heap_return :: "nat \<Rightarrow> mem_heap \<Rightarrow> mem_heap" where
  "heap_return p h = (case rt_free (Some p) h of Some h' \<Rightarrow> h' | None \<Rightarrow> h)"

lemma heap_request_fresh:
  assumes ok: "heap_ok h" and r: "heap_request a h = Some (p, h')"
  shows "heap_ok h' \<and> p \<notin> live_blocks h \<and> live_blocks h' = insert p (live_blocks h)"
proof -
  have i: "heap_inv h (heap_segs h)" using ok by (simp add: heap_ok_def)
  have a: "a \<noteq> 0" using r by (auto simp: heap_request_def rt_malloc_def)
  show ?thesis
  proof (rule rt_malloc_cases[OF i a], goal_cases)
    case (1 h1 xs n ys)
    then have p: "p = extent xs + SIZEOF_STRUCT_MEM" "h' = h1" using r by (simp_all add: heap_request_def)
    have "segs_ok (xs @ (False, n) # ys)" using i unfolding 1(1) by (simp add: heap_inv_def heap_body_def)
    note u = used_starts_carved[OF this 1(2)]
    show ?thesis using heap_inv_ok[OF 1(4)] u 1(1) p by (auto simp: live_blocks_def)
  qed (use r in \<open>simp add: heap_request_def\<close>)
qed

lemma live_block_at:
  assumes "p \<in> live_blocks h"
  obtains xs n ys where "heap_segs h = xs @ (True, n) # ys" "p = extent xs + SIZEOF_STRUCT_MEM"
proof -
  obtain q where q: "q \<in> used_starts 0 (heap_segs h)" "p = q + SIZEOF_STRUCT_MEM" using assms by (auto simp: live_blocks_def)
  from used_starts_split[OF q(1)] q(2) show ?thesis using that by auto
qed

lemma heap_free_returns:
  assumes ok: "heap_ok h" and p: "p \<in> live_blocks h"
  obtains h' where "rt_free (Some p) h = Some h'" "heap_ok h'" "live_blocks h' = live_blocks h - {p}" "payload h' = payload h"
    "lowest h (heap_segs h) \<Longrightarrow> lowest h' (heap_segs h')"
proof (rule live_block_at[OF p])
  fix xs n ys assume s: "heap_segs h = xs @ (True, n) # ys" and p: "p = extent xs + SIZEOF_STRUCT_MEM"
  have i: "heap_inv h (xs @ (True, n) # ys)" using ok s by (simp add: heap_ok_def)
  have so: "segs_ok (xs @ (True, n) # ys)" using i by (simp add: heap_inv_def heap_body_def)
  show ?thesis
  proof (rule rt_free_frees[OF i], goal_cases)
    case (1 h')
    note o = heap_inv_ok[OF 1(2)]
    have "live_blocks h' = live_blocks h - {p}"
      unfolding live_blocks_def conjunct2[OF o] used_starts_freed[OF so] s p
      by (subst image_set_diff) (auto simp: inj_on_def)
    then show ?thesis using 1 o s p by (intro that[of h']) simp_all
  qed
qed

interpretation heap: allocator heap_ok live_blocks heap_request heap_return
proof unfold_locales
  fix h a p h' assume "heap_ok h" "heap_request a h = Some (p, h')"
  then show "heap_ok h' \<and> p \<notin> live_blocks h \<and> live_blocks h' = insert p (live_blocks h)" by (rule heap_request_fresh)
next
  fix h p assume hp: "heap_ok h" "p \<in> live_blocks h"
  obtain h' where "rt_free (Some p) h = Some h'" "heap_ok h'" "live_blocks h' = live_blocks h - {p}"
    by (rule heap_free_returns[OF hp])
  then show "heap_ok (heap_return p h) \<and> live_blocks (heap_return p h) = live_blocks h - {p}"
    by (simp add: heap_return_def)
qed


subsection \<open>Initialisation and reallocation\<close>

lemma heap_init_ok:
  assumes b: "b = unat (RT_ALIGN begin_addr RT_ALIGN_SIZE)" and e: "e = unat (RT_ALIGN_DOWN end_addr RT_ALIGN_SIZE)"
    and fit: "b + 36 \<le> e" and u: "used_mem h = 0"
  shows "heap_inv (rt_system_heap_init begin_addr end_addr h) [(False, e - b - 12)]"
    "lowest (rt_system_heap_init begin_addr end_addr h) [(False, e - b - 12)]"
proof -
  define msz where "msz = e - b - 24"
  have m: "b mod 4 = 0" "e mod 4 = 0" by (simp_all add: b e align_nat align_down_nat)
  have eb: "e = b + msz + 24" "12 \<le> msz" using fit by (simp_all add: msz_def)
  have m4: "msz mod 4 = 0" "(msz + 12) mod 4 = 0" "(12 + msz) mod 4 = 0" using m eb by presburger+
  have "e < 2 ^ 32" unfolding e using unsigned_less[of "RT_ALIGN_DOWN end_addr RT_ALIGN_SIZE"] by simp
  moreover have un: "unat (RT_ALIGN begin_addr RT_ALIGN_SIZE) = b" "unat (RT_ALIGN_DOWN end_addr RT_ALIGN_SIZE) = b + msz + 24"
    using b e eb by simp_all
  ultimately have i: "heap_body (rt_system_heap_init begin_addr end_addr h) [(False, e - b - 12)]"
    using eb m m4 u by (simp add: rt_system_heap_init_def Let_def heap_body_def sentinel_def)
  have l: "lfree (rt_system_heap_init begin_addr end_addr h) = 0"
    using un eb by (simp add: rt_system_heap_init_def Let_def)
  then show "lowest (rt_system_heap_init begin_addr end_addr h) [(False, e - b - 12)]" by (simp add: lowest_def)
  then show "heap_inv (rt_system_heap_init begin_addr end_addr h) [(False, e - b - 12)]"
    using i lowest_ok by (simp add: heap_inv_def)
qed

text \<open>Shrinking in place splits the block and frees its tail.\<close>

lemma rt_realloc_shrinks:
  assumes i: "heap_inv h (xs @ (True, n) # ys)" and s: "s = unat (RT_ALIGN a RT_ALIGN_SIZE)" "0 < s" "s \<le> mem_size_aligned h"
    and n: "s + 36 < n"
  obtains h' where "rt_realloc (Some (extent xs + SIZEOF_STRUCT_MEM)) a h = Some (Some (extent xs + SIZEOF_STRUCT_MEM), h')"
    "heap_inv h' (freed (xs @ [(True, s + 12)]) (n - (s + 12)) ys)" "payload h' = payload h"
proof -
  define p where "p = extent xs"
  have b: "heap_body h (xs @ (True, n) # ys)" and nh: "no_holes xs" "no_holes ys" and l: "lfree_ok (lfree h) (xs @ (True, n) # ys)"
    using i by (simp_all add: heap_inv_def no_holes_append)
  have r: "repr (hdr h) 0 0 (xs @ (True, n) # ys)" and ok: "segs_ok (xs @ (True, n) # ys)" and us: "used_mem h = used_total (xs @ (True, n) # ys)"
    and e: "extent (xs @ (True, n) # ys) = heap_end h" using b by (simp_all add: heap_body_def)
  have nx: "hm_next (hdr h p) = p + n" using r by (simp add: repr_append p_def)
  have m: "12 < s + 12" "s + 12 + 12 < n" using s(2) n by simp_all
  have s4: "s mod 4 = 0" by (simp add: s(1) align_nat)
  let ?h1 = "h\<lparr>used_mem := sub32 (used_mem h) (n - 12 - s)\<rparr>"
  let ?h2 = "split_at p (p + (s + 12)) ?h1"
  have "repr (hdr ?h1) 0 0 (xs @ (True, n) # ys)" "extent (xs @ (True, n) # ys) = heap_end ?h1" using r e by simp_all
  note sp = repr_split_at[OF this(1) ok m this(2) p_def]
  have "n mod 4 = 0" using ok by simp
  then have n4: "(n - (s + 12)) mod 4 = 0" using s4 m by presburger
  have body: "heap_body ?h2 ((xs @ [(True, s + 12)]) @ (False, n - (s + 12)) # ys)"
    using b sp us m n4 s4 by (simp add: heap_body_def sentinel_def mod_add_eq[symmetric])
  have lf: "lfree_ok (lfree ?h2) ((xs @ [(True, s + 12)]) @ (False, n - (s + 12)) # ys)"
    using l m unfolding lfree_ok_iff by (auto simp: free_starts_append add.assoc)
  have x: "p + (s + 12) = extent (xs @ [(True, s + 12)])" by (simp add: p_def)
  have nhx: "no_holes (xs @ [(True, s + 12)])" using nh by (simp add: no_holes_append)
  show ?thesis
  proof (rule plug_holes_melts[OF body x lf nhx nh(2)], goal_cases)
    case (1 h')
    have off: "p + 12 < heap_end h" using e n by (simp add: p_def)
    have q: "p + SIZEOF_STRUCT_MEM + s = p + (s + 12)" by simp
    have c: "24 + s < n - 12" "n - 12 \<noteq> s" "sub32 (sub32 (next_of h p) p) SIZEOF_STRUCT_MEM = n - 12" using n nx by simp_all
    have "rt_realloc (Some (p + SIZEOF_STRUCT_MEM)) a h = do {
        h2 \<leftarrow> plug_holes (p + SIZEOF_STRUCT_MEM + s) (split_at p (p + SIZEOF_STRUCT_MEM + s) ?h1);
        Some (Some (p + SIZEOF_STRUCT_MEM), h2) }"
      using s c off by (simp add: rt_realloc_def s(1)[symmetric] Let_def)
    then have "rt_realloc (Some (p + SIZEOF_STRUCT_MEM)) a h = Some (Some (p + SIZEOF_STRUCT_MEM), h')"
      unfolding q using 1(1) by simp
    then show ?thesis using 1 by (intro that[of h']) (simp_all add: p_def)
  qed
qed

lemma heap_inv_copy [simp]: "heap_inv (copy_bytes d s n h) ss \<longleftrightarrow> heap_inv h ss"
  by (simp add: heap_inv_def heap_body_def sentinel_def copy_bytes_def)

text \<open>Growing moves the block: the old bytes are copied, the old block is freed, and when no block is found
  nothing has changed.\<close>

lemma rt_realloc_moves:
  assumes i: "heap_inv h (xs @ (True, n) # ys)" and s: "s = unat (RT_ALIGN a RT_ALIGN_SIZE)" "0 < s" "s \<le> mem_size_aligned h"
    and n: "n < s + 12"
  obtains (moved) p h' where "rt_realloc (Some (extent xs + SIZEOF_STRUCT_MEM)) a h = Some (Some p, h')" "heap_ok h'"
      "live_blocks h' = insert p (live_blocks h - {extent xs + SIZEOF_STRUCT_MEM})" "p \<notin> live_blocks h"
      "\<And>j. j < n - 12 \<Longrightarrow> payload h' (p + j) = payload h (extent xs + SIZEOF_STRUCT_MEM + j)"
  | (refused) "rt_realloc (Some (extent xs + SIZEOF_STRUCT_MEM)) a h = Some (None, h)"
proof -
  define q where "q = extent xs + SIZEOF_STRUCT_MEM"
  have b: "heap_body h (xs @ (True, n) # ys)" using i by (simp add: heap_inv_def)
  have r: "repr (hdr h) 0 0 (xs @ (True, n) # ys)" and ok: "segs_ok (xs @ (True, n) # ys)"
    and e: "extent (xs @ (True, n) # ys) = heap_end h" using b by (simp_all add: heap_body_def)
  have nx: "hm_next (hdr h (extent xs)) = extent xs + n" using r by (simp add: repr_append)
  have off: "q < heap_end h" using e ok by (simp add: q_def)
  have sa: "RT_ALIGN (RT_ALIGN a RT_ALIGN_SIZE) RT_ALIGN_SIZE = RT_ALIGN a RT_ALIGN_SIZE"
  proof -
    have "s + 3 < 2 ^ 32" using s(3) b by (simp add: heap_body_def)
    moreover have "s mod 4 = 0" by (simp add: s(1) align_nat)
    ultimately have "unat (RT_ALIGN (RT_ALIGN a RT_ALIGN_SIZE) RT_ALIGN_SIZE) = s"
      unfolding align_nat[of "RT_ALIGN a RT_ALIGN_SIZE"] s(1)[symmetric] by simp presburger
    then show ?thesis using s(1) by (simp add: word_unat_eq_iff)
  qed
  let ?a = "RT_ALIGN a RT_ALIGN_SIZE"
  have a0: "?a \<noteq> 0" using s(1,2) by auto
  have cs: "sub32 (sub32 (next_of h (q - SIZEOF_STRUCT_MEM)) (q - SIZEOF_STRUCT_MEM)) SIZEOF_STRUCT_MEM = n - 12"
    using nx ok by (simp add: q_def)
  have "12 < n" using ok by simp
  then have c: "n - 12 < s" "n - 12 \<noteq> s" "\<not> 24 + s < n - 12" using n by simp_all
  have q12: "SIZEOF_STRUCT_MEM \<le> q" by (simp add: q_def)
  have run: "rt_realloc (Some q) a h = do {
        (r, h1) \<leftarrow> rt_malloc ?a h;
        case r of None \<Rightarrow> Some (None, h1)
        | Some nmem \<Rightarrow> do { h2 \<leftarrow> rt_free (Some q) (copy_bytes nmem q (n - 12) h1); Some (Some nmem, h2) } }"
    using s off cs c q12 by (simp add: rt_realloc_def s(1)[symmetric] Let_def cong: option.case_cong)
  have ho: "heap_ok h" "heap_segs h = xs @ (True, n) # ys" using heap_inv_ok[OF i] by simp_all
  have ql: "q \<in> live_blocks h" using ho(2) by (simp add: live_blocks_def q_def used_starts_append)
  show ?thesis
  proof (rule rt_malloc_cases[OF i a0], goal_cases)
    case (1 h1 us k vs)
    define p where "p = extent us + SIZEOF_STRUCT_MEM"
    have rq: "heap_request ?a h = Some (p, h1)" using 1(3) by (simp add: heap_request_def p_def)
    note fr = heap_request_fresh[OF ho(1) rq]
    define h2 where "h2 = copy_bytes p q (n - 12) h1"
    have hs: "heap_segs h2 = heap_segs h1" by (simp add: heap_segs_def h2_def copy_bytes_def)
    then have h2: "heap_ok h2" "live_blocks h2 = live_blocks h1" using fr by (simp_all add: heap_ok_def h2_def live_blocks_def)
    have "q \<in> live_blocks h2" using h2(2) fr ql by blast
    from heap_free_returns[OF h2(1) this] obtain h' where
      f: "rt_free (Some q) h2 = Some h'" "heap_ok h'" "live_blocks h' = live_blocks h2 - {q}" "payload h' = payload h2" by blast
    have "rt_realloc (Some q) a h = Some (Some p, h')" using run 1(3) f(1) by (simp add: p_def[symmetric] h2_def[symmetric])
    moreover have "live_blocks h' = insert p (live_blocks h - {q})" using f(3) h2(2) fr ql by auto
    moreover have "payload h' (p + j) = payload h (q + j)" if "j < n - 12" for j
    proof -
      have "p + j < p + n - 12" using that by linarith
      then show ?thesis using f(4) 1(7) by (simp add: h2_def copy_bytes_def)
    qed
    ultimately show ?thesis using f(2) fr by (intro moved[of p h']) (simp_all add: q_def)
  next
    case 2
    then show ?thesis using run by (intro refused) (simp add: q_def)
  qed
qed

end
