(* ===== verification/RT_Ring.thy ===== *)
theory RT_Ring
  imports RT_Fifo
begin

text \<open>
  Block copies into and out of a ring: the one or two \<open>memcpy\<close> calls by which the byte ring buffer of the
  device drivers and the circular queue of the application move several bytes at once.
\<close>

definition blit :: "'a list \<Rightarrow> nat \<Rightarrow> 'a list \<Rightarrow> 'a list" where
  "blit pool pos src = take pos pool @ src @ drop (pos + length src) pool"

definition ring_blit :: "'a list \<Rightarrow> nat \<Rightarrow> 'a list \<Rightarrow> 'a list" where
  "ring_blit pool pos src =
     (let room = length pool - pos
      in if length src \<le> room then blit pool pos src
         else blit (blit pool pos (take room src)) 0 (drop room src))"

definition ring_read :: "'a list \<Rightarrow> nat \<Rightarrow> nat \<Rightarrow> 'a list" where
  "ring_read pool pos k =
     (let room = length pool - pos
      in if k \<le> room then take k (drop pos pool) else drop pos pool @ take (k - room) pool)"

lemma length_blit [simp]: "pos + length src \<le> length pool \<Longrightarrow> length (blit pool pos src) = length pool"
  by (simp add: blit_def)

lemma length_ring_blit [simp]:
  "pos < length pool \<Longrightarrow> length src \<le> length pool \<Longrightarrow> length (ring_blit pool pos src) = length pool"
  by (simp add: ring_blit_def blit_def Let_def)

lemma nth_blit:
  assumes "pos + length src \<le> length pool" "i < length pool"
  shows "blit pool pos src ! i = (if pos \<le> i \<and> i < pos + length src then src ! (i - pos) else pool ! i)"
  using assms by (auto simp: blit_def nth_append)

lemma wrap_index: "pos < n \<Longrightarrow> j < n \<Longrightarrow> (pos + j) mod n = (if pos + j < n then pos + j else pos + j - n)" for n :: nat
  by (simp add: mod_if)

lemma nth_ring_blit:
  assumes p: "pos < length pool" and s: "length src \<le> length pool" and j: "j < length pool"
  shows "ring_blit pool pos src ! ((pos + j) mod length pool) = (if j < length src then src ! j else pool ! ((pos + j) mod length pool))"
proof -
  define n where "n = length pool"
  define i where "i = (pos + j) mod n"
  have i: "i = (if pos + j < n then pos + j else pos + j - n)" "i < n" using wrap_index[of pos n j] p j by (auto simp: n_def i_def)
  show ?thesis
  proof (cases "length src \<le> n - pos")
    case True
    have b: "pos + length src \<le> length pool" "i < length pool" using True p i by (simp_all add: n_def)
    have "ring_blit pool pos src ! i = (if pos \<le> i \<and> i < pos + length src then src ! (i - pos) else pool ! i)"
      using nth_blit[OF b] True by (simp add: ring_blit_def Let_def n_def)
    moreover have "pos \<le> i \<and> i < pos + length src \<longleftrightarrow> j < length src" using i(1) True j p by (auto simp: n_def)
    moreover have "j < length src \<Longrightarrow> i - pos = j" using i(1) True p by (auto simp: n_def)
    ultimately show ?thesis by (simp add: i_def n_def)
  next
    case False
    define room where "room = n - pos"
    have r: "room < length src" "room \<le> n" "pos + room = n" using False p by (simp_all add: room_def n_def)
    let ?b = "blit pool pos (take room src)"
    have b1: "pos + length (take room src) \<le> length pool" "i < length pool" using r i by (simp_all add: n_def)
    then have lb: "length ?b = n" by (simp add: n_def)
    have b2: "0 + length (drop room src) \<le> length ?b" "i < length ?b" using r s i lb by (simp_all add: n_def)
    have "ring_blit pool pos src ! i = blit ?b 0 (drop room src) ! i"
      using False by (simp add: ring_blit_def Let_def room_def n_def)
    also have "\<dots> = (if i < length src - room then drop room src ! i else ?b ! i)"
      using nth_blit[OF b2] by simp
    also have "\<dots> = (if j < length src then src ! j else pool ! i)"
    proof (cases "pos + j < n")
      case True
      then have "i = pos + j" "j < room" using i(1) by (simp_all add: room_def)
      then show ?thesis using nth_blit[OF b1] r s by (auto simp: n_def)
    next
      case False
      then have ij: "i = pos + j - n" "j = room + i" using i(1) r by simp_all
      have "i < pos" using ij(1) j False p unfolding n_def by linarith
      have "?b ! i = pool ! i" using nth_blit[OF b1] \<open>i < pos\<close> by simp
      moreover have "drop room src ! i = src ! j" using ij(2) r by simp
      moreover have "i < length src - room \<longleftrightarrow> j < length src" using ij(2) by linarith
      ultimately show ?thesis by simp
    qed
    finally show ?thesis by (simp add: i_def n_def)
  qed
qed

lemma ring_window_blit:
  assumes n: "length pool = n" "a < n" and e: "e + length src \<le> n"
  shows "ring_window (ring_blit pool ((a + e) mod n) src) n a (e + length src) = ring_window pool n a e @ src"
proof (rule nth_equalityI)
  show "length (ring_window (ring_blit pool ((a + e) mod n) src) n a (e + length src)) = length (ring_window pool n a e @ src)"
    by simp
  define pos where "pos = (a + e) mod n"
  have pos: "pos < length pool" "length src \<le> length pool" using n e by (simp_all add: pos_def)
  fix i assume "i < length (ring_window (ring_blit pool ((a + e) mod n) src) n a (e + length src))"
  then have i: "i < e + length src" by simp
  define j where "j = (if i < e then i + n - e else i - e)"
  have j: "j < length pool" using i e n by (auto simp: j_def)
  have "(pos + j) mod n = (a + e + j) mod n" by (simp add: pos_def mod_add_left_eq)
  also have "\<dots> = (a + i) mod n"
  proof (cases "i < e")
    case True
    then have "a + e + j = a + i + n" using e by (simp add: j_def)
    then have "(a + e + j) mod n = (a + i + n) mod n" by (rule arg_cong)
    then show ?thesis by simp
  qed (simp add: j_def)
  finally have m: "(pos + j) mod length pool = (a + i) mod n" by (simp add: n)
  have "ring_blit pool pos src ! ((a + i) mod n) = (if j < length src then src ! j else pool ! ((a + i) mod n))"
    using nth_ring_blit[OF pos j] unfolding m .
  moreover have "j < length src \<longleftrightarrow> e \<le> i" using i e n by (auto simp: j_def)
  ultimately show "ring_window (ring_blit pool ((a + e) mod n) src) n a (e + length src) ! i = (ring_window pool n a e @ src) ! i"
    using i by (auto simp: ring_window_def pos_def[symmetric] nth_append j_def)
qed

lemma ring_window_split:
  assumes "k \<le> e"
  shows "ring_window pool n a e = ring_window pool n a k @ ring_window pool n ((a + k) mod n) (e - k)"
proof (rule nth_equalityI)
  fix i assume "i < length (ring_window pool n a e)"
  then have i: "i < e" by simp
  have "((a + k) mod n + (i - k)) mod n = (a + i) mod n" if "k \<le> i"
  proof -
    have "((a + k) mod n + (i - k)) mod n = (a + k + (i - k)) mod n" by (rule mod_add_left_eq)
    then show ?thesis using that by simp
  qed
  then show "ring_window pool n a e ! i = (ring_window pool n a k @ ring_window pool n ((a + k) mod n) (e - k)) ! i"
    using i assms by (auto simp: ring_window_def nth_append)
qed (use assms in simp)

lemma ring_read_window:
  assumes "length pool = n" "a < n" "k \<le> n"
  shows "ring_read pool a k = ring_window pool n a k"
proof (rule nth_equalityI)
  show "length (ring_read pool a k) = length (ring_window pool n a k)"
    using assms by (simp add: ring_read_def Let_def)
  fix i assume "i < length (ring_read pool a k)"
  then have i: "i < k" using assms by (simp add: ring_read_def Let_def split: if_splits)
  then have m: "(a + i) mod n = (if a + i < n then a + i else a + i - n)" using assms wrap_index[of a n i] by simp
  show "ring_read pool a k ! i = ring_window pool n a k ! i"
    using i assms m by (auto simp: ring_read_def ring_window_def Let_def nth_append add.commute)
qed

end
