(* ===== verification/RT_RingBuffer.thy ===== *)
theory RT_RingBuffer
  imports RT_Ring RT_Prelude
begin

text \<open>
  The byte ring buffer of the device drivers, \<open>components/drivers/src/ringbuffer.c\<close>: a read and a write
  index of 15 bits, each with a mirror bit that flips when the index wraps, so that a full buffer and an
  empty one differ. The buffer size is a positive 16-bit signed number, hence the indices, which stay
  below it, fit their fields.
\<close>

record rt_ringbuffer =
  buffer_ptr :: "u8 list"
  read_mirror :: bool
  read_index :: nat
  write_mirror :: bool
  write_index :: nat
  buffer_size :: nat

datatype rb_state = RB_EMPTY | RB_FULL | RB_HALFFULL

definition rt_ringbuffer_status :: "rt_ringbuffer \<Rightarrow> rb_state" where
  "rt_ringbuffer_status rb =
     (if read_index rb = write_index rb then if read_mirror rb = write_mirror rb then RB_EMPTY else RB_FULL
      else RB_HALFFULL)"

definition rt_ringbuffer_data_len :: "rt_ringbuffer \<Rightarrow> nat" where
  "rt_ringbuffer_data_len rb =
     (case rt_ringbuffer_status rb of
        RB_EMPTY \<Rightarrow> 0
      | RB_FULL \<Rightarrow> buffer_size rb
      | RB_HALFFULL \<Rightarrow>
          if write_index rb > read_index rb then write_index rb - read_index rb
          else buffer_size rb - (read_index rb - write_index rb))"

definition rt_ringbuffer_space_len :: "rt_ringbuffer \<Rightarrow> nat" where
  "rt_ringbuffer_space_len rb = buffer_size rb - rt_ringbuffer_data_len rb"

definition rt_ringbuffer_init :: "u8 list \<Rightarrow> nat \<Rightarrow> rt_ringbuffer option" where
  "rt_ringbuffer_init pool sz = do {
     _ \<leftarrow> rt_assert (0 < sz);
     Some \<lparr>buffer_ptr = pool, read_mirror = False, read_index = 0, write_mirror = False, write_index = 0,
           buffer_size = sz div 4 * 4\<rparr> }"

definition rt_ringbuffer_reset :: "rt_ringbuffer \<Rightarrow> rt_ringbuffer" where
  "rt_ringbuffer_reset rb = rb\<lparr>read_mirror := False, read_index := 0, write_mirror := False, write_index := 0\<rparr>"

text \<open>The copy both put functions make: in one piece when it ends before the end of the buffer, in two otherwise,
  with the write mirror flipped.\<close>

definition rb_write :: "u8 list \<Rightarrow> rt_ringbuffer \<Rightarrow> rt_ringbuffer" where
  "rb_write src rb =
     (let tail = buffer_size rb - write_index rb
      in if tail > length src
         then rb\<lparr>buffer_ptr := blit (buffer_ptr rb) (write_index rb) src, write_index := write_index rb + length src\<rparr>
         else rb\<lparr>buffer_ptr := blit (blit (buffer_ptr rb) (write_index rb) (take tail src)) 0 (drop tail src),
                 write_mirror := \<not> write_mirror rb, write_index := length src - tail\<rparr>)"

definition rt_ringbuffer_put :: "u8 list \<Rightarrow> rt_ringbuffer \<Rightarrow> nat \<times> rt_ringbuffer" where
  "rt_ringbuffer_put src rb =
     (let sz = rt_ringbuffer_space_len rb
      in if sz = 0 then (0, rb)
         else let len = (if sz < length src then sz else length src)
              in (len, rb_write (take len src) rb))"

definition rt_ringbuffer_put_force :: "u8 list \<Rightarrow> rt_ringbuffer \<Rightarrow> nat \<times> rt_ringbuffer" where
  "rt_ringbuffer_put_force src rb =
     (let space = rt_ringbuffer_space_len rb;
          src1 = (if length src > buffer_size rb then drop (length src - buffer_size rb) src else src);
          rb1 = rb_write src1 rb
      in (length src1,
          if length src1 > space then
            (if buffer_size rb - write_index rb > length src1 then rb1\<lparr>read_index := write_index rb1\<rparr>
             else rb1\<lparr>read_mirror := \<not> read_mirror rb1, read_index := write_index rb1\<rparr>)
          else rb1))"

definition rt_ringbuffer_get :: "nat \<Rightarrow> rt_ringbuffer \<Rightarrow> u8 list \<times> rt_ringbuffer" where
  "rt_ringbuffer_get n rb =
     (let sz = rt_ringbuffer_data_len rb
      in if sz = 0 then ([], rb)
         else let len = (if sz < n then sz else n); tail = buffer_size rb - read_index rb
              in if tail > len
                 then (take len (drop (read_index rb) (buffer_ptr rb)), rb\<lparr>read_index := read_index rb + len\<rparr>)
                 else (take tail (drop (read_index rb) (buffer_ptr rb)) @ take (len - tail) (buffer_ptr rb),
                       rb\<lparr>read_mirror := \<not> read_mirror rb, read_index := len - tail\<rparr>))"

text \<open>The index comparison with \<open>buffer_size - 1\<close>, a signed \<open>-1\<close> when the size is 0.\<close>

definition rb_step_write :: "u8 \<Rightarrow> rt_ringbuffer \<Rightarrow> rt_ringbuffer" where
  "rb_step_write ch rb =
     (let rb1 = rb\<lparr>buffer_ptr := (buffer_ptr rb)[write_index rb := ch]\<rparr>
      in if write_index rb + 1 = buffer_size rb then rb1\<lparr>write_mirror := \<not> write_mirror rb, write_index := 0\<rparr>
         else rb1\<lparr>write_index := write_index rb + 1\<rparr>)"

definition rt_ringbuffer_putchar :: "u8 \<Rightarrow> rt_ringbuffer \<Rightarrow> nat \<times> rt_ringbuffer" where
  "rt_ringbuffer_putchar ch rb = (if rt_ringbuffer_space_len rb = 0 then (0, rb) else (1, rb_step_write ch rb))"

definition rt_ringbuffer_putchar_force :: "u8 \<Rightarrow> rt_ringbuffer \<Rightarrow> nat \<times> rt_ringbuffer" where
  "rt_ringbuffer_putchar_force ch rb =
     (let old_state = rt_ringbuffer_status rb; rb1 = rb_step_write ch rb
      in (1, if old_state = RB_FULL then
               (if write_index rb + 1 = buffer_size rb
                then rb1\<lparr>read_mirror := \<not> read_mirror rb1, read_index := write_index rb1\<rparr>
                else rb1\<lparr>read_index := write_index rb1\<rparr>)
             else rb1))"

definition rt_ringbuffer_getchar :: "rt_ringbuffer \<Rightarrow> u8 option \<times> rt_ringbuffer" where
  "rt_ringbuffer_getchar rb =
     (if rt_ringbuffer_data_len rb = 0 then (None, rb)
      else (Some (buffer_ptr rb ! read_index rb),
            if read_index rb + 1 = buffer_size rb then rb\<lparr>read_mirror := \<not> read_mirror rb, read_index := 0\<rparr>
            else rb\<lparr>read_index := read_index rb + 1\<rparr>))"

text \<open>Creation: the two allocations are parameters. When the pool cannot be had the control block is freed and its
  pointer returned all the same: the result is the block and whether it is still allocated.\<close>

definition rt_ringbuffer_create ::
  "nat option \<Rightarrow> u8 list option \<Rightarrow> nat \<Rightarrow> (nat option \<times> rt_ringbuffer option) option" where
  "rt_ringbuffer_create block pool sz = do {
     _ \<leftarrow> rt_assert (0 < sz);
     let sz1 = sz div 4 * 4;
     case block of
       None \<Rightarrow> Some (None, None)
     | Some rb \<Rightarrow>
         (case pool of
            None \<Rightarrow> Some (Some rb, None)
          | Some p \<Rightarrow> do { r \<leftarrow> rt_ringbuffer_init p sz1; Some (Some rb, Some r) }) }"

subsection \<open>What it holds\<close>

definition rb_ok :: "rt_ringbuffer \<Rightarrow> bool" where
  "rb_ok rb \<longleftrightarrow> 0 < buffer_size rb \<and> buffer_size rb < 2 ^ 15 \<and> length (buffer_ptr rb) = buffer_size rb
     \<and> read_index rb < buffer_size rb \<and> write_index rb < buffer_size rb
     \<and> (read_mirror rb = write_mirror rb \<longrightarrow> read_index rb \<le> write_index rb)
     \<and> (read_mirror rb \<noteq> write_mirror rb \<longrightarrow> write_index rb \<le> read_index rb)"

definition rb_bytes :: "rt_ringbuffer \<Rightarrow> u8 list" where
  "rb_bytes rb = ring_window (buffer_ptr rb) (buffer_size rb) (read_index rb) (rt_ringbuffer_data_len rb)"


lemma data_len_eq:
  "rb_ok rb \<Longrightarrow> rt_ringbuffer_data_len rb =
     (if read_mirror rb = write_mirror rb then write_index rb - read_index rb
      else buffer_size rb - (read_index rb - write_index rb))"
  by (auto simp: rt_ringbuffer_data_len_def rt_ringbuffer_status_def rb_ok_def)

text \<open>The two mirror bits say whether the data run over the end of the buffer.\<close>

lemma rb_okD:
  assumes "rb_ok rb"
  shows "rt_ringbuffer_data_len rb \<le> buffer_size rb"
    "write_index rb = (read_index rb + rt_ringbuffer_data_len rb) mod buffer_size rb"
    "read_mirror rb = write_mirror rb \<longleftrightarrow> read_index rb + rt_ringbuffer_data_len rb < buffer_size rb"
    "rt_ringbuffer_space_len rb = buffer_size rb - rt_ringbuffer_data_len rb"
proof -
  note d = data_len_eq[OF assms]
  show "rt_ringbuffer_data_len rb \<le> buffer_size rb"
    unfolding d using assms by (auto simp: rb_ok_def)
  show "write_index rb = (read_index rb + rt_ringbuffer_data_len rb) mod buffer_size rb"
    unfolding d using assms by (auto simp: rb_ok_def)
  show "read_mirror rb = write_mirror rb \<longleftrightarrow> read_index rb + rt_ringbuffer_data_len rb < buffer_size rb"
    unfolding d using assms by (auto simp: rb_ok_def)
  show "rt_ringbuffer_space_len rb = buffer_size rb - rt_ringbuffer_data_len rb"
    by (simp add: rt_ringbuffer_space_len_def)
qed

lemma rb_okI:
  assumes "0 < buffer_size rb" "buffer_size rb < 2 ^ 15" "length (buffer_ptr rb) = buffer_size rb" "read_index rb < buffer_size rb"
    and "n \<le> buffer_size rb" "write_index rb = (read_index rb + n) mod buffer_size rb"
    and "read_mirror rb = write_mirror rb \<longleftrightarrow> read_index rb + n < buffer_size rb"
  shows "rb_ok rb" "rt_ringbuffer_data_len rb = n"
proof -
  have w: "write_index rb = (if read_index rb + n < buffer_size rb then read_index rb + n else read_index rb + n - buffer_size rb)"
  proof (cases "n = buffer_size rb")
    case False
    then show ?thesis using wrap_index[of "read_index rb" "buffer_size rb" n] assms(4-6) by simp
  qed (use assms in simp)
  show ok: "rb_ok rb" using assms w by (auto simp: rb_ok_def)
  show "rt_ringbuffer_data_len rb = n" unfolding data_len_eq[OF ok] using assms w by auto
qed

lemma length_rb_bytes [simp]: "length (rb_bytes rb) = rt_ringbuffer_data_len rb"
  by (simp add: rb_bytes_def)

lemma rb_bytes_empty [simp]: "rb_bytes rb = [] \<longleftrightarrow> rt_ringbuffer_data_len rb = 0"
  by (simp add: rb_bytes_def ring_window_def)

lemma rb_write_pool:
  assumes "rb_ok rb" "length src \<le> buffer_size rb"
  shows "buffer_ptr (rb_write src rb) = ring_blit (buffer_ptr rb) (write_index rb) src"
    "write_index (rb_write src rb) = (write_index rb + length src) mod buffer_size rb"
    "write_mirror (rb_write src rb) = (write_mirror rb = (write_index rb + length src < buffer_size rb))"
    "read_index (rb_write src rb) = read_index rb" "read_mirror (rb_write src rb) = read_mirror rb"
    "buffer_size (rb_write src rb) = buffer_size rb"
proof -
  have w: "write_index rb < buffer_size rb" "length (buffer_ptr rb) = buffer_size rb" using assms(1) by (simp_all add: rb_ok_def)
  have b0: "blit pool 0 [] = pool" for pool :: "u8 list" by (simp add: blit_def)
  show "buffer_ptr (rb_write src rb) = ring_blit (buffer_ptr rb) (write_index rb) src"
    using w b0 by (auto simp: rb_write_def ring_blit_def Let_def)
  have "length src - (buffer_size rb - write_index rb) = (write_index rb + length src) mod buffer_size rb"
    if "\<not> length src < buffer_size rb - write_index rb"
  proof (cases "length src = buffer_size rb")
    case False
    then show ?thesis using that w assms(2) wrap_index[of "write_index rb" "buffer_size rb" "length src"] by auto
  qed (use w in simp)
  then show "write_index (rb_write src rb) = (write_index rb + length src) mod buffer_size rb"
    using w by (auto simp: rb_write_def Let_def)
  show "write_mirror (rb_write src rb) = (write_mirror rb = (write_index rb + length src < buffer_size rb))"
    using w by (auto simp: rb_write_def Let_def)
qed (simp_all add: rb_write_def Let_def)

lemma rb_write_appends:
  assumes ok: "rb_ok rb" and room: "rt_ringbuffer_data_len rb + length src \<le> buffer_size rb"
  shows "rb_ok (rb_write src rb)" "rb_bytes (rb_write src rb) = rb_bytes rb @ src"
proof -
  let ?n = "buffer_size rb" and ?r = "read_index rb" and ?l = "rt_ringbuffer_data_len rb" and ?w = "rb_write src rb"
  have s: "length src \<le> ?n" using room by simp
  note f = rb_write_pool[OF ok s]
  note d = rb_okD[OF ok]
  have b: "0 < ?n" "?n < 2 ^ 15" "length (buffer_ptr rb) = ?n" "?r < ?n" "write_index rb < ?n" using ok by (simp_all add: rb_ok_def)
  have m: "read_mirror ?w = write_mirror ?w \<longleftrightarrow> read_index ?w + (?l + length src) < buffer_size ?w"
  proof (cases "?r + ?l < ?n")
    case True
    then have "write_index rb = ?r + ?l" using d(2) by simp
    then show ?thesis using f d(3) True by auto
  next
    case False
    then have "write_index rb \<le> ?r" using d(3) ok by (auto simp: rb_ok_def)
    moreover have "write_index rb = ?r + ?l - ?n"
      using d(1,2) False b(4) by (cases "?l = ?n") (simp_all add: wrap_index)
    ultimately have "write_index rb + length src < ?n" using room b(4) False by simp
    then show ?thesis using f d(3) False by auto
  qed
  have w: "write_index ?w = (read_index ?w + (?l + length src)) mod buffer_size ?w"
    using f d(2) by (simp add: mod_add_left_eq add.assoc)
  have lp: "length (buffer_ptr ?w) = buffer_size ?w" using f(1,6) b s by simp
  have k: "0 < buffer_size ?w" "buffer_size ?w < 2 ^ 15" "read_index ?w < buffer_size ?w" "?l + length src \<le> buffer_size ?w"
    using f b room by simp_all
  note i = rb_okI[OF k(1,2) lp k(3,4) w m]
  show "rb_ok ?w" by (rule i(1))
  show "rb_bytes ?w = rb_bytes rb @ src"
    using ring_window_blit[OF b(3,4) room] i(2) f d(2) by (simp add: rb_bytes_def)
qed

text \<open>Taking \<open>n\<close> bytes off the front.\<close>

definition rb_skip :: "nat \<Rightarrow> rt_ringbuffer \<Rightarrow> rt_ringbuffer" where
  "rb_skip n rb = rb\<lparr>read_mirror := (read_mirror rb = (read_index rb + n < buffer_size rb)),
                     read_index := (read_index rb + n) mod buffer_size rb\<rparr>"

lemma rb_skip_drops:
  assumes ok: "rb_ok rb" and n: "n \<le> rt_ringbuffer_data_len rb"
  shows "rb_ok (rb_skip n rb)" "rb_bytes rb = ring_read (buffer_ptr rb) (read_index rb) n @ rb_bytes (rb_skip n rb)"
proof -
  let ?n = "buffer_size rb" and ?r = "read_index rb" and ?l = "rt_ringbuffer_data_len rb" and ?k = "rb_skip n rb"
  note d = rb_okD[OF ok]
  have b: "0 < ?n" "?n < 2 ^ 15" "length (buffer_ptr rb) = ?n" "?r < ?n" "write_index rb < ?n" using ok by (simp_all add: rb_ok_def)
  have r: "(?r + n) mod ?n = (if ?r + n < ?n then ?r + n else ?r + n - ?n)"
    using b n d(1) by (cases "n = ?n") (simp_all add: wrap_index)
  have f: "read_index ?k = (?r + n) mod ?n" "buffer_size ?k = ?n" "buffer_ptr ?k = buffer_ptr rb" "write_index ?k = write_index rb"
    "write_mirror ?k = write_mirror rb" "read_mirror ?k = (read_mirror rb = (?r + n < ?n))"
    by (simp_all add: rb_skip_def)
  have "(?r + n) mod ?n + (?l - n) = ?r + ?l - (if ?r + n < ?n then 0 else ?n)" unfolding r using n by simp
  moreover have "(?r + ?l - (if ?r + n < ?n then 0 else ?n)) mod ?n = (?r + ?l) mod ?n"
    using n by (simp add: le_mod_geq)
  ultimately have w: "write_index ?k = (read_index ?k + (?l - n)) mod buffer_size ?k" using f d(2) by simp
  have m: "read_mirror ?k = write_mirror ?k \<longleftrightarrow> read_index ?k + (?l - n) < buffer_size ?k"
    using f d(1,3) r n b by auto
  have k: "0 < buffer_size ?k" "buffer_size ?k < 2 ^ 15" "length (buffer_ptr ?k) = buffer_size ?k" "read_index ?k < buffer_size ?k"
    "?l - n \<le> buffer_size ?k" using f b d(1) by simp_all
  note i = rb_okI[OF k w m]
  show "rb_ok ?k" by (rule i(1))
  show "rb_bytes rb = ring_read (buffer_ptr rb) ?r n @ rb_bytes ?k"
    using ring_read_window[OF b(3,4)] ring_window_split[OF n] i(2) f n d(1) by (simp add: rb_bytes_def)
qed


subsection \<open>What the calls do\<close>

lemma rb_size_kept [simp]: "buffer_size (rb_write src rb) = buffer_size rb" "buffer_size (rb_skip n rb) = buffer_size rb"
  by (simp_all add: rb_write_def rb_skip_def Let_def)

lemma put_appends:
  assumes ok: "rb_ok rb" and p: "rt_ringbuffer_put src rb = (n, rb')"
  shows "n = min (length src) (rt_ringbuffer_space_len rb)" "rb_ok rb'" "rb_bytes rb' = rb_bytes rb @ take n src"
    "buffer_size rb' = buffer_size rb"
proof -
  note d = rb_okD[OF ok]
  show n: "n = min (length src) (rt_ringbuffer_space_len rb)"
    using p by (auto simp: rt_ringbuffer_put_def Let_def split: if_splits)
  have "rb' = rb_write (take n src) rb \<or> n = 0 \<and> rb' = rb"
    using p by (auto simp: rt_ringbuffer_put_def Let_def split: if_splits)
  moreover have "rt_ringbuffer_data_len rb + length (take n src) \<le> buffer_size rb" using n d(1,4) by simp
  note rb_write_appends[OF ok this]
  ultimately show "rb_ok rb'" "rb_bytes rb' = rb_bytes rb @ take n src" "buffer_size rb' = buffer_size rb" using ok by auto
qed

lemma get_takes:
  assumes ok: "rb_ok rb" and g: "rt_ringbuffer_get n rb = (out, rb')"
  shows "out = take n (rb_bytes rb)" "rb_ok rb'" "rb_bytes rb' = drop n (rb_bytes rb)" "buffer_size rb' = buffer_size rb"
proof -
  note d = rb_okD[OF ok]
  define k where "k = min n (rt_ringbuffer_data_len rb)"
  have k: "k \<le> rt_ringbuffer_data_len rb" by (simp add: k_def)
  have b: "length (buffer_ptr rb) = buffer_size rb" "read_index rb < buffer_size rb" using ok by (simp_all add: rb_ok_def)
  have len: "(if rt_ringbuffer_data_len rb < n then rt_ringbuffer_data_len rb else n) = k" by (simp add: k_def)
  have wr: "(read_index rb + k) mod buffer_size rb = (if read_index rb + k < buffer_size rb then read_index rb + k else read_index rb + k - buffer_size rb)"
    using b(2) k d(1) wrap_index[of "read_index rb" "buffer_size rb" k] by (cases "k = buffer_size rb") simp_all
  have r: "out = ring_read (buffer_ptr rb) (read_index rb) k \<and> rb' = rb_skip k rb"
  proof (cases "rt_ringbuffer_data_len rb = 0")
    case True
    then have "k = 0" by (simp add: k_def)
    then show ?thesis using g True b by (auto simp: rt_ringbuffer_get_def ring_read_def rb_skip_def)
  next
    case False
    show ?thesis
    proof (cases "buffer_size rb - read_index rb > k")
      case True
      then have "read_index rb + k < buffer_size rb" by simp
      then show ?thesis using g False True b wr unfolding rt_ringbuffer_get_def len Let_def
        by (auto simp: ring_read_def rb_skip_def)
    next
      case ge: False
      then have "\<not> read_index rb + k < buffer_size rb" by simp
      moreover have "k - (buffer_size rb - read_index rb) = read_index rb + k - buffer_size rb" using ge b by simp
      ultimately show ?thesis using g False ge b wr unfolding rt_ringbuffer_get_def len Let_def
        by (auto simp: ring_read_def rb_skip_def Let_def)
    qed
  qed
  note s = rb_skip_drops[OF ok k]
  have l: "length out = k" using r b k d(1) by (simp add: ring_read_window[OF b(1,2)])
  have e: "rb_bytes rb = out @ rb_bytes rb'" using s(2) r by simp
  have "take n (rb_bytes rb) = out \<and> drop n (rb_bytes rb) = rb_bytes rb'"
  proof (cases "n \<le> rt_ringbuffer_data_len rb")
    case True
    then have "n = length out" using l by (simp add: k_def)
    then show ?thesis unfolding e by simp
  next
    case False
    then have "length out = rt_ringbuffer_data_len rb" using l by (simp add: k_def)
    moreover have "length (rb_bytes rb) = length out + length (rb_bytes rb')" unfolding e by simp
    ultimately have "length (rb_bytes rb') = 0" by simp
    then have "rb_bytes rb' = []" unfolding length_0_conv .
    then have "rb_bytes rb = out" using e by (simp only: append_Nil2)
    then show ?thesis unfolding \<open>rb_bytes rb' = []\<close> using False \<open>length out = rt_ringbuffer_data_len rb\<close> by simp
  qed
  then show "out = take n (rb_bytes rb)" "rb_bytes rb' = drop n (rb_bytes rb)" by simp_all
  show "rb_ok rb'" "buffer_size rb' = buffer_size rb" using s(1) r by simp_all
qed

text \<open>The one-byte calls are the block calls on one byte.\<close>

lemma step_write_eq:
  assumes "rb_ok rb"
  shows "rb_step_write ch rb = rb_write [ch] rb"
proof -
  have w: "write_index rb < buffer_size rb" "length (buffer_ptr rb) = buffer_size rb" using assms by (simp_all add: rb_ok_def)
  have b: "(buffer_ptr rb)[write_index rb := ch] = blit (buffer_ptr rb) (write_index rb) [ch]"
    using w by (simp add: blit_def upd_conv_take_nth_drop)
  have b0: "blit pool 0 [] = pool" for pool :: "u8 list" by (simp add: blit_def)
  show ?thesis
  proof (cases "write_index rb + 1 = buffer_size rb")
    case True
    then have "buffer_size rb - write_index rb = 1" by simp
    then show ?thesis using b b0 True by (simp add: rb_step_write_def rb_write_def Let_def)
  next
    case False
    then have "1 < buffer_size rb - write_index rb" using w by simp
    then show ?thesis using b False by (simp add: rb_step_write_def rb_write_def Let_def)
  qed
qed

lemma putchar_put:
  assumes "rb_ok rb"
  shows "rt_ringbuffer_putchar ch rb = rt_ringbuffer_put [ch] rb"
  using step_write_eq[OF assms] by (simp add: rt_ringbuffer_putchar_def rt_ringbuffer_put_def Let_def)

lemma getchar_get:
  assumes ok: "rb_ok rb"
  shows "rt_ringbuffer_get 1 rb = (case rt_ringbuffer_getchar rb of (None, r) \<Rightarrow> ([], r) | (Some c, r) \<Rightarrow> ([c], r))"
proof -
  have b: "length (buffer_ptr rb) = buffer_size rb" "read_index rb < buffer_size rb" using ok by (simp_all add: rb_ok_def)
  have t: "take 1 (drop (read_index rb) (buffer_ptr rb)) = [buffer_ptr rb ! read_index rb]"
    using b by (simp add: take_Suc_conv_app_nth)
  show ?thesis
  proof (cases "read_index rb + 1 = buffer_size rb")
    case True
    then have "buffer_size rb - read_index rb = 1" by simp
    then show ?thesis using t True by (simp add: rt_ringbuffer_get_def rt_ringbuffer_getchar_def Let_def)
  next
    case False
    then have "1 < buffer_size rb - read_index rb" using b by simp
    then show ?thesis using t False by (simp add: rt_ringbuffer_get_def rt_ringbuffer_getchar_def Let_def)
  qed
qed

text \<open>The buffer as a first-in first-out queue of bytes.\<close>

definition rb_putc :: "u8 \<Rightarrow> rt_ringbuffer \<Rightarrow> rt_ringbuffer" where
  "rb_putc ch rb = snd (rt_ringbuffer_putchar ch rb)"

definition rb_getc :: "rt_ringbuffer \<Rightarrow> u8 \<times> rt_ringbuffer" where
  "rb_getc rb = (case rt_ringbuffer_getchar rb of (None, r) \<Rightarrow> (0, r) | (Some c, r) \<Rightarrow> (c, r))"

abbreviation rb_is_full :: "rt_ringbuffer \<Rightarrow> bool" where "rb_is_full rb \<equiv> rt_ringbuffer_space_len rb = 0"
abbreviation rb_is_empty :: "rt_ringbuffer \<Rightarrow> bool" where "rb_is_empty rb \<equiv> rt_ringbuffer_data_len rb = 0"

interpretation rbq: bounded_fifo rb_ok rb_bytes buffer_size rb_putc rb_getc rb_is_full rb_is_empty
proof unfold_locales
  fix rb assume ok: "rb_ok rb"
  note d = rb_okD[OF ok]
  show "rb_is_full rb \<longleftrightarrow> length (rb_bytes rb) = buffer_size rb" using d(1,4) by auto
  show "rb_is_empty rb \<longleftrightarrow> rb_bytes rb = []" by simp
  show "length (rb_bytes rb) \<le> buffer_size rb" using d(1) by simp
next
  fix rb ch assume ok: "rb_ok rb" and nf: "\<not> rb_is_full rb"
  obtain n rb' where p: "rt_ringbuffer_put [ch] rb = (n, rb')" by (cases "rt_ringbuffer_put [ch] rb")
  have "n = 1" using put_appends(1)[OF ok p] nf by simp
  then show "rb_ok (rb_putc ch rb) \<and> rb_bytes (rb_putc ch rb) = rb_bytes rb @ [ch] \<and> buffer_size (rb_putc ch rb) = buffer_size rb"
    using put_appends(2-4)[OF ok p] p by (simp add: rb_putc_def putchar_put[OF ok])
next
  fix rb assume ok: "rb_ok rb" and ne: "\<not> rb_is_empty rb"
  obtain out rb' where g: "rt_ringbuffer_get 1 rb = (out, rb')" by (cases "rt_ringbuffer_get 1 rb")
  have "rt_ringbuffer_getchar rb = (Some (buffer_ptr rb ! read_index rb), snd (rt_ringbuffer_getchar rb))"
    using ne by (simp add: rt_ringbuffer_getchar_def)
  then have c: "out = [fst (rb_getc rb)]" "rb' = snd (rb_getc rb)" using g getchar_get[OF ok] by (auto simp: rb_getc_def split: prod.splits option.splits)
  note t = get_takes[OF ok g]
  have "rb_bytes rb = out @ rb_bytes rb'" using t(1,3) by simp
  then show "rb_ok (snd (rb_getc rb)) \<and> rb_bytes rb = fst (rb_getc rb) # rb_bytes (snd (rb_getc rb))
      \<and> buffer_size (snd (rb_getc rb)) = buffer_size rb"
    using t(2,4) c by simp
qed


subsection \<open>Overwriting\<close>

text \<open>Writing over the oldest bytes when the write position has already lapped the read position: the buffer ends up
  full, with its last \<open>buffer_size\<close> bytes.\<close>

lemma overwrite_full:
  assumes ok: "rb_ok rb" and s: "length src \<le> buffer_size rb"
    and rb': "rb' = rb_write src rb" "full = rb'\<lparr>read_index := write_index rb', read_mirror := \<not> write_mirror rb'\<rparr>"
    and over: "buffer_size rb \<le> rt_ringbuffer_data_len rb + length src"
  shows "rb_ok full" "rb_bytes full = drop (rt_ringbuffer_data_len rb + length src - buffer_size rb) (rb_bytes rb) @ src"
proof -
  let ?n = "buffer_size rb" and ?l = "rt_ringbuffer_data_len rb"
  define j where "j = ?l + length src - ?n"
  note f = rb_write_pool[OF ok s]
  note d = rb_okD[OF ok]
  have b: "0 < ?n" "?n < 2 ^ 15" "length (buffer_ptr rb) = ?n" "read_index rb < ?n" "write_index rb < ?n" using ok by (simp_all add: rb_ok_def)
  have j: "j \<le> ?l" using s by (simp add: j_def)
  have k: "buffer_size full = ?n" "buffer_ptr full = ring_blit (buffer_ptr rb) (write_index rb) src"
    "read_index full = (write_index rb + length src) mod ?n" "write_index full = (write_index rb + length src) mod ?n"
    "read_mirror full \<noteq> write_mirror full" using f rb' by simp_all
  have i: "rb_ok full" "rt_ringbuffer_data_len full = ?n"
    using rb_okI[of full ?n] k b s by (simp_all)
  show "rb_ok full" by (rule i(1))
  have a: "(read_index rb + j) mod ?n = read_index full"
  proof -
    have "read_index full = (read_index rb + ?l + length src) mod ?n" using k(3) d(2) by (simp add: mod_add_left_eq)
    also have "read_index rb + ?l + length src = read_index rb + j + ?n" using over by (simp add: j_def)
    finally show ?thesis by simp
  qed
  have l: "?l - j + length src = ?n" using over s j by (simp add: j_def)
  have w: "write_index rb = ((read_index rb + j) mod ?n + (?l - j)) mod ?n"
  proof -
    have "((read_index rb + j) mod ?n + (?l - j)) mod ?n = (read_index rb + j + (?l - j)) mod ?n" by (rule mod_add_left_eq)
    then show ?thesis using d(2) j by simp
  qed
  have "rb_bytes full = ring_window (ring_blit (buffer_ptr rb) (write_index rb) src) ?n ((read_index rb + j) mod ?n) (?l - j + length src)"
    using i(2) k a l by (simp add: rb_bytes_def)
  also have "\<dots> = ring_window (buffer_ptr rb) ?n ((read_index rb + j) mod ?n) (?l - j) @ src"
    unfolding w by (rule ring_window_blit) (use b l in simp_all)
  also have "ring_window (buffer_ptr rb) ?n ((read_index rb + j) mod ?n) (?l - j) = drop j (rb_bytes rb)"
    unfolding rb_bytes_def ring_window_split[OF j, of "buffer_ptr rb" ?n "read_index rb"] by simp
  finally show "rb_bytes full = drop (?l + length src - ?n) (rb_bytes rb) @ src" by (simp add: j_def)
qed

text \<open>One byte at a time this always works.\<close>

lemma putchar_force_keeps_last:
  assumes ok: "rb_ok rb"
  shows "rb_ok (snd (rt_ringbuffer_putchar_force ch rb))"
    "rb_bytes (snd (rt_ringbuffer_putchar_force ch rb)) =
       (if rb_is_full rb then tl (rb_bytes rb) else rb_bytes rb) @ [ch]"
proof -
  let ?p = "snd (rt_ringbuffer_putchar_force ch rb)"
  note d = rb_okD[OF ok]
  have b: "0 < buffer_size rb" "write_index rb < buffer_size rb" using ok by (simp_all add: rb_ok_def)
  have st: "rt_ringbuffer_status rb = RB_FULL \<longleftrightarrow> rb_is_full rb"
  proof -
    have "rt_ringbuffer_status rb = RB_FULL \<longleftrightarrow> rt_ringbuffer_data_len rb = buffer_size rb"
      using ok unfolding data_len_eq[OF ok] rt_ringbuffer_status_def rb_ok_def by auto
    then show ?thesis using d(1,4) by auto
  qed
  have "rb_ok ?p \<and> rb_bytes ?p = (if rb_is_full rb then tl (rb_bytes rb) else rb_bytes rb) @ [ch]"
  proof (cases "rb_is_full rb")
    case False
    then have "rt_ringbuffer_data_len rb + length [ch] \<le> buffer_size rb" using d(1,4) by simp
    from rb_write_appends[OF ok this] show ?thesis
      using False st by (simp add: rt_ringbuffer_putchar_force_def Let_def step_write_eq[OF ok])
  next
    case True
    then have l: "rt_ringbuffer_data_len rb = buffer_size rb" using d(1,4) by simp
    then have mir: "read_mirror rb \<noteq> write_mirror rb" using d(3) by simp
    let ?w = "rb_write [ch] rb"
    note f = rb_write_pool[OF ok, of "[ch]"]
    have "?p = ?w\<lparr>read_index := write_index ?w, read_mirror := \<not> write_mirror ?w\<rparr>"
    proof (cases "write_index rb + 1 = buffer_size rb")
      case True
      then show ?thesis using st \<open>rb_is_full rb\<close> f mir b by (auto simp: rt_ringbuffer_putchar_force_def Let_def step_write_eq[OF ok])
    next
      case False
      then have "write_index rb + 1 < buffer_size rb" using b by simp
      then have "?w\<lparr>read_index := write_index ?w\<rparr> = ?w\<lparr>read_index := write_index ?w, read_mirror := \<not> write_mirror ?w\<rparr>"
        using f mir b by (cases ?w) auto
      then show ?thesis using st \<open>rb_is_full rb\<close> False by (simp add: rt_ringbuffer_putchar_force_def Let_def step_write_eq[OF ok])
    qed
    note o = overwrite_full[OF ok _ refl this]
    have "rb_ok ?p" "rb_bytes ?p = drop 1 (rb_bytes rb) @ [ch]" using o l b by simp_all
    then show ?thesis using True by (simp add: drop_Suc)
  qed
  then show "rb_ok ?p" "rb_bytes ?p = (if rb_is_full rb then tl (rb_bytes rb) else rb_bytes rb) @ [ch]" by simp_all
qed

text \<open>A block that overwrites while the data do not run over the end leaves the buffer empty instead of full: both
  mirrors flip.\<close>

lemma put_force_loses_all:
  assumes ok: "rb_ok rb" and eq: "read_mirror rb = write_mirror rb" and l: "length src \<le> buffer_size rb"
    and over: "rt_ringbuffer_space_len rb < length src"
  shows "rb_bytes (snd (rt_ringbuffer_put_force src rb)) = []"
proof -
  note d = rb_okD[OF ok]
  have w: "write_index rb = read_index rb + rt_ringbuffer_data_len rb" using d(2,3) eq by simp
  have o: "buffer_size rb < rt_ringbuffer_data_len rb + length src" using over d(1,4) by simp
  then have c: "\<not> buffer_size rb - write_index rb > length src" using w by simp
  have "\<not> length src > buffer_size rb" using l by simp
  then have "rt_ringbuffer_status (snd (rt_ringbuffer_put_force src rb)) = RB_EMPTY"
    using over eq c by (simp add: rt_ringbuffer_put_force_def Let_def rb_write_def rt_ringbuffer_status_def)
  then show ?thesis by (simp add: rt_ringbuffer_data_len_def)
qed

end
