(* ===== verification/Cir_Queue.thy ===== *)
theory Cir_Queue
  imports RT_Ring RT_Prelude
begin

text \<open>
  The circular byte queue of the application, \<open>User/App/src/queue.c\<close>: a head, a tail, a length and a capacity over
  a byte buffer. \<open>QUEUE_HAVE_NODE\<close> is off in \<open>queue.h\<close>, so the node functions are not compiled. The C
  \<open>int\<close> fields only hold lengths up to the capacity. A queue state is returned as the code's \<open>Q_STATE\<close>; a
  buffer parameter is the bytes at its address.
\<close>

datatype q_state = Q_STATE_SUCCESS | Q_STATE_FAILED

record cirqueue =
  m_iHead :: nat
  m_iTail :: nat
  m_iQueueLenth :: nat
  m_iQueueCapacity :: nat
  m_pQueue :: "u8 list"

definition IsCirQueueEmpty :: "cirqueue \<Rightarrow> q_state" where
  "IsCirQueueEmpty q = (if m_iQueueLenth q = 0 then Q_STATE_SUCCESS else Q_STATE_FAILED)"

definition IsCirQueueFull :: "cirqueue \<Rightarrow> q_state" where
  "IsCirQueueFull q = (if m_iQueueLenth q = m_iQueueCapacity q then Q_STATE_SUCCESS else Q_STATE_FAILED)"

definition GetCirQueueLength :: "cirqueue \<Rightarrow> nat" where
  "GetCirQueueLength q = m_iQueueLenth q"

definition EnCirQueue :: "u8 \<Rightarrow> cirqueue \<Rightarrow> q_state \<times> cirqueue" where
  "EnCirQueue element q =
     (if IsCirQueueFull q = Q_STATE_SUCCESS then (Q_STATE_FAILED, q)
      else let q1 = q\<lparr>m_pQueue := (m_pQueue q)[m_iTail q := element], m_iTail := m_iTail q + 1\<rparr>;
               q2 = q1\<lparr>m_iTail := m_iTail q1 mod m_iQueueCapacity q1\<rparr>
           in (Q_STATE_SUCCESS, q2\<lparr>m_iQueueLenth := m_iQueueLenth q2 + 1\<rparr>))"

text \<open>The block put: \<open>buf\<close> is the \<open>BufferLen\<close> bytes at \<open>pBuffer\<close>.\<close>

definition BufferEnCirQueue :: "u8 list \<Rightarrow> cirqueue \<Rightarrow> nat \<times> cirqueue" where
  "BufferEnCirQueue buf q =
     (let residueLen = m_iQueueCapacity q - m_iQueueLenth q;
          preZeroLen = m_iQueueCapacity q - m_iTail q
      in if buf = [] then (0, q)
         else let increaseLens = (if length buf > residueLen then residueLen else length buf);
                  pool = (if preZeroLen \<ge> increaseLens then blit (m_pQueue q) (m_iTail q) (take increaseLens buf)
                          else blit (blit (m_pQueue q) (m_iTail q) (take preZeroLen buf)) 0
                                 (take (increaseLens - preZeroLen) (drop preZeroLen buf)))
              in (increaseLens,
                  q\<lparr>m_pQueue := pool, m_iTail := (m_iTail q + increaseLens) mod m_iQueueCapacity q,
                    m_iQueueLenth := m_iQueueLenth q + increaseLens\<rparr>))"

definition DeCirQueue :: "cirqueue \<Rightarrow> q_state \<times> u8 option \<times> cirqueue" where
  "DeCirQueue q =
     (if IsCirQueueEmpty q = Q_STATE_SUCCESS then (Q_STATE_FAILED, None, q)
      else let element = m_pQueue q ! m_iHead q; q1 = q\<lparr>m_iHead := m_iHead q + 1\<rparr>;
               q2 = q1\<lparr>m_iHead := m_iHead q1 mod m_iQueueCapacity q1\<rparr>
           in (Q_STATE_SUCCESS, Some element, q2\<lparr>m_iQueueLenth := m_iQueueLenth q2 - 1\<rparr>))"

definition cir_copy_out :: "cirqueue \<Rightarrow> nat \<Rightarrow> u8 list" where
  "cir_copy_out q n =
     (let preZeroLen = m_iQueueCapacity q - m_iHead q
      in if preZeroLen \<ge> n then take n (drop (m_iHead q) (m_pQueue q))
         else take preZeroLen (drop (m_iHead q) (m_pQueue q)) @ take (n - preZeroLen) (m_pQueue q))"

definition BufferDeCirQueue :: "nat \<Rightarrow> cirqueue \<Rightarrow> nat \<times> u8 list \<times> cirqueue" where
  "BufferDeCirQueue BufferLen q =
     (if IsCirQueueEmpty q = Q_STATE_SUCCESS then (0, [], q)
      else if BufferLen = 0 then (0, [], q)
      else let returnLength = (if BufferLen > m_iQueueLenth q then m_iQueueLenth q else BufferLen)
           in (returnLength, cir_copy_out q returnLength,
               q\<lparr>m_iHead := (m_iHead q + returnLength) mod m_iQueueCapacity q,
                 m_iQueueLenth := m_iQueueLenth q - returnLength\<rparr>))"

text \<open>This one splits its copy when the data end exactly at the end of the buffer, and returns the length after
  setting it to 0.\<close>

definition AllBufferDeCirQueue :: "cirqueue \<Rightarrow> nat \<times> u8 list \<times> cirqueue" where
  "AllBufferDeCirQueue q =
     (if IsCirQueueEmpty q = Q_STATE_SUCCESS then (0, [], q)
      else let preZeroLen = m_iQueueCapacity q - m_iHead q; n = m_iQueueLenth q;
               bytes = (if preZeroLen > n then take n (drop (m_iHead q) (m_pQueue q))
                        else take preZeroLen (drop (m_iHead q) (m_pQueue q)) @ take (n - preZeroLen) (m_pQueue q));
               q1 = q\<lparr>m_iHead := (m_iHead q + n) mod m_iQueueCapacity q, m_iQueueLenth := 0\<rparr>
           in (m_iQueueLenth q1, bytes, q1))"

text \<open>Creation: the two allocations are parameters. The static variant is given its buffer by the caller.\<close>

definition xCirQueueGenericCreate :: "u32 \<Rightarrow> bool \<Rightarrow> bool \<Rightarrow> cirqueue option" where
  "xCirQueueGenericCreate uxQueueLength block_ok buffer_ok =
     (if uxQueueLength < 10 \<or> \<not> block_ok \<or> \<not> buffer_ok then None
      else Some \<lparr>m_iHead = 0, m_iTail = 0, m_iQueueLenth = 0, m_iQueueCapacity = unat uxQueueLength,
                 m_pQueue = replicate (unat uxQueueLength) 0\<rparr>)"

definition xCirQueueGenericStaticCreate :: "u32 \<Rightarrow> bool \<Rightarrow> u8 list \<Rightarrow> cirqueue option" where
  "xCirQueueGenericStaticCreate uxQueueLength block_ok buffer =
     (if uxQueueLength < 10 \<or> \<not> block_ok then None
      else Some \<lparr>m_iHead = 0, m_iTail = 0, m_iQueueLenth = 0, m_iQueueCapacity = unat uxQueueLength,
                 m_pQueue = blit buffer 0 (replicate (unat uxQueueLength) 0)\<rparr>)"

definition vCirQueueGenericClear :: "cirqueue \<Rightarrow> cirqueue" where
  "vCirQueueGenericClear q = q\<lparr>m_iHead := 0, m_iTail := 0, m_iQueueLenth := 0\<rparr>"

subsection \<open>What it holds\<close>

definition cir_ok :: "cirqueue \<Rightarrow> bool" where
  "cir_ok q \<longleftrightarrow> 0 < m_iQueueCapacity q \<and> length (m_pQueue q) = m_iQueueCapacity q \<and> m_iHead q < m_iQueueCapacity q
     \<and> m_iQueueLenth q \<le> m_iQueueCapacity q \<and> m_iTail q = (m_iHead q + m_iQueueLenth q) mod m_iQueueCapacity q"

definition cir_items :: "cirqueue \<Rightarrow> u8 list" where
  "cir_items q = ring_window (m_pQueue q) (m_iQueueCapacity q) (m_iHead q) (m_iQueueLenth q)"

lemma length_cir_items [simp]: "length (cir_items q) = m_iQueueLenth q"
  by (simp add: cir_items_def)

lemma cir_ok_create:
  assumes "xCirQueueGenericCreate n a b = Some q"
  shows "cir_ok q" "cir_items q = []" "m_iQueueCapacity q = unat n"
proof -
  have "10 \<le> n" "q = \<lparr>m_iHead = 0, m_iTail = 0, m_iQueueLenth = 0, m_iQueueCapacity = unat n, m_pQueue = replicate (unat n) 0\<rparr>"
    using assms by (auto simp: xCirQueueGenericCreate_def split: if_splits)
  then show "cir_ok q" "cir_items q = []" "m_iQueueCapacity q = unat n"
    by (auto simp: cir_ok_def cir_items_def ring_window_def word_le_nat_alt)
qed

text \<open>The block put appends what fits.\<close>

lemma BufferEn_appends:
  assumes ok: "cir_ok q" and p: "BufferEnCirQueue buf q = (n, q')"
  shows "n = min (length buf) (m_iQueueCapacity q - m_iQueueLenth q)" "cir_ok q'" "cir_items q' = cir_items q @ take n buf"
    "m_iQueueCapacity q' = m_iQueueCapacity q"
proof -
  let ?c = "m_iQueueCapacity q"
  have b: "0 < ?c" "length (m_pQueue q) = ?c" "m_iHead q < ?c" "m_iQueueLenth q \<le> ?c" "m_iTail q = (m_iHead q + m_iQueueLenth q) mod ?c"
    using ok by (simp_all add: cir_ok_def)
  have t: "m_iTail q < ?c" using b by simp
  show n: "n = min (length buf) (?c - m_iQueueLenth q)"
    using p by (auto simp: BufferEnCirQueue_def Let_def split: if_splits)
  have fits: "m_iQueueLenth q + length (take n buf) \<le> ?c" using n b(4) by simp
  have "cir_ok q' \<and> cir_items q' = cir_items q @ take n buf \<and> m_iQueueCapacity q' = ?c"
  proof (cases "buf = []")
    case True
    then show ?thesis using p ok by (simp add: BufferEnCirQueue_def)
  next
    case False
    have "(if length buf > ?c - m_iQueueLenth q then ?c - m_iQueueLenth q else length buf) = n" using n by simp
    then have q': "q' = q\<lparr>m_pQueue := ring_blit (m_pQueue q) (m_iTail q) (take n buf), m_iTail := (m_iTail q + n) mod ?c,
        m_iQueueLenth := m_iQueueLenth q + n\<rparr>"
      using p False t b(2) n by (auto simp: BufferEnCirQueue_def Let_def ring_blit_def take_drop min_def)
    have ln: "length (take n buf) = n" using n by simp
    have "cir_ok q'"
      using b fits t ln by (simp add: q' cir_ok_def mod_add_left_eq add.assoc)
    moreover have "cir_items q' = cir_items q @ take n buf"
      using ring_window_blit[OF b(2,3) fits] b(5) ln by (simp add: q' cir_items_def)
    ultimately show ?thesis by (simp add: q')
  qed
  then show "cir_ok q'" "cir_items q' = cir_items q @ take n buf" "m_iQueueCapacity q' = ?c" by simp_all
qed


text \<open>One element at a time is the block of one.\<close>

lemma En_is_Buffer:
  assumes ok: "cir_ok q"
  shows "BufferEnCirQueue [x] q = (if IsCirQueueFull q = Q_STATE_SUCCESS then (0, q) else (1, snd (EnCirQueue x q)))"
proof -
  have b: "0 < m_iQueueCapacity q" "length (m_pQueue q) = m_iQueueCapacity q" "m_iHead q < m_iQueueCapacity q"
    "m_iQueueLenth q \<le> m_iQueueCapacity q" "m_iTail q = (m_iHead q + m_iQueueLenth q) mod m_iQueueCapacity q"
    using ok by (simp_all add: cir_ok_def)
  have t: "m_iTail q < m_iQueueCapacity q" using b by simp
  show ?thesis
  proof (cases "m_iQueueLenth q = m_iQueueCapacity q")
    case True
    have m: "m_iTail q mod m_iQueueCapacity q = m_iTail q" using t by simp
    have bl: "blit (m_pQueue q) (m_iTail q) [] = m_pQueue q" by (simp add: blit_def)
    show ?thesis using True m bl by (simp add: BufferEnCirQueue_def IsCirQueueFull_def Let_def)
  next
    case False
    then have "m_iQueueLenth q < m_iQueueCapacity q" "1 \<le> m_iQueueCapacity q - m_iTail q" using b(4) t by simp_all
    moreover have "(m_pQueue q)[m_iTail q := x] = blit (m_pQueue q) (m_iTail q) [x]"
      using t b(2) by (simp add: blit_def upd_conv_take_nth_drop)
    ultimately show ?thesis
      using False by (simp add: BufferEnCirQueue_def EnCirQueue_def IsCirQueueFull_def Let_def)
  qed
qed

definition cir_skip :: "nat \<Rightarrow> cirqueue \<Rightarrow> cirqueue" where
  "cir_skip n q = q\<lparr>m_iHead := (m_iHead q + n) mod m_iQueueCapacity q, m_iQueueLenth := m_iQueueLenth q - n\<rparr>"

lemma cir_skip_drops:
  assumes ok: "cir_ok q" and n: "n \<le> m_iQueueLenth q"
  shows "cir_ok (cir_skip n q)" "cir_items q = cir_copy_out q n @ cir_items (cir_skip n q)" "length (cir_copy_out q n) = n"
proof -
  let ?c = "m_iQueueCapacity q" and ?h = "m_iHead q" and ?l = "m_iQueueLenth q"
  have b: "0 < ?c" "length (m_pQueue q) = ?c" "?h < ?c" "?l \<le> ?c" "m_iTail q = (?h + ?l) mod ?c"
    using ok by (simp_all add: cir_ok_def)
  have "((?h + n) mod ?c + (?l - n)) mod ?c = (?h + n + (?l - n)) mod ?c" by (rule mod_add_left_eq)
  then have "((?h + n) mod ?c + (?l - n)) mod ?c = (?h + ?l) mod ?c" using n by simp
  then show "cir_ok (cir_skip n q)" using b by (simp add: cir_ok_def cir_skip_def)
  have r: "cir_copy_out q n = ring_read (m_pQueue q) ?h n"
    using b by (auto simp: cir_copy_out_def ring_read_def Let_def)
  have nc: "n \<le> ?c" using n b by simp
  show "cir_items q = cir_copy_out q n @ cir_items (cir_skip n q)"
    unfolding r ring_read_window[OF b(2,3) nc] using ring_window_split[OF n] by (simp add: cir_items_def cir_skip_def)
  show "length (cir_copy_out q n) = n" unfolding r ring_read_window[OF b(2,3) nc] by simp
qed

lemma BufferDe_takes:
  assumes ok: "cir_ok q" and d: "BufferDeCirQueue n q = (k, out, q')"
  shows "k = min n (m_iQueueLenth q)" "out = take n (cir_items q)" "cir_ok q'" "cir_items q' = drop n (cir_items q)"
    "m_iQueueCapacity q' = m_iQueueCapacity q"
proof -
  have z: "cir_skip 0 q = q" using ok by (simp add: cir_skip_def cir_ok_def)
  have z0: "cir_copy_out q 0 = []" using cir_skip_drops(3)[OF ok, of 0] by simp
  have r: "k = min n (m_iQueueLenth q) \<and> out = cir_copy_out q k \<and> q' = cir_skip k q"
  proof (cases "m_iQueueLenth q = 0 \<or> n = 0")
    case True
    then show ?thesis using d z z0 by (auto simp: BufferDeCirQueue_def IsCirQueueEmpty_def split: if_splits)
  next
    case False
    then show ?thesis using d by (auto simp: BufferDeCirQueue_def IsCirQueueEmpty_def Let_def cir_skip_def split: if_splits)
  qed
  then have k: "k \<le> m_iQueueLenth q" by simp
  note s = cir_skip_drops[OF ok k]
  have e: "cir_items q = out @ cir_items q'" "length out = k" using s(2,3) r by simp_all
  have l: "length (cir_items q) = length out + length (cir_items q')" unfolding e(1) by simp
  show "k = min n (m_iQueueLenth q)" using r by simp
  show "cir_ok q'" "m_iQueueCapacity q' = m_iQueueCapacity q" using r s(1) by (simp_all add: cir_skip_def)
  show "out = take n (cir_items q)" "cir_items q' = drop n (cir_items q)"
  proof -
    have "take n (cir_items q) = take k (cir_items q) \<and> drop n (cir_items q) = drop k (cir_items q)"
      using r by (cases "n \<le> m_iQueueLenth q") simp_all
    then show "out = take n (cir_items q)" "cir_items q' = drop n (cir_items q)" using e by simp_all
  qed
qed

text \<open>Taking everything: all the bytes come out, and the length returned is 0.\<close>

lemma AllBufferDe_drains:
  assumes ok: "cir_ok q" and d: "AllBufferDeCirQueue q = (k, out, q')"
  shows "k = 0" "out = cir_items q" "cir_ok q'" "cir_items q' = []"
proof -
  let ?n = "m_iQueueLenth q"
  have b: "length (m_pQueue q) = m_iQueueCapacity q" "m_iHead q < m_iQueueCapacity q" using ok by (simp_all add: cir_ok_def)
  have r: "k = 0 \<and> out = cir_copy_out q ?n \<and> q' = cir_skip ?n q"
  proof (cases "?n = 0")
    case True
    have "cir_skip 0 q = q" using ok by (simp add: cir_skip_def cir_ok_def)
    moreover have "cir_copy_out q 0 = []" using cir_skip_drops(3)[OF ok, of 0] by simp
    ultimately show ?thesis using True d by (auto simp: AllBufferDeCirQueue_def IsCirQueueEmpty_def)
  next
    case False
    then show ?thesis using d b by (auto simp: AllBufferDeCirQueue_def IsCirQueueEmpty_def Let_def cir_skip_def cir_copy_out_def)
  qed
  note s = cir_skip_drops[OF ok order_refl]
  have "cir_items (cir_skip ?n q) = []" by (simp add: cir_items_def cir_skip_def ring_window_def)
  then show "k = 0" "out = cir_items q" "cir_ok q'" "cir_items q' = []" using s r by simp_all
qed

definition cir_put :: "u8 \<Rightarrow> cirqueue \<Rightarrow> cirqueue" where
  "cir_put x q = snd (EnCirQueue x q)"

definition cir_get :: "cirqueue \<Rightarrow> u8 \<times> cirqueue" where
  "cir_get q = (case DeCirQueue q of (_, Some x, q') \<Rightarrow> (x, q') | (_, None, q') \<Rightarrow> (0, q'))"

interpretation cirq: bounded_fifo cir_ok cir_items m_iQueueCapacity cir_put cir_get
  "\<lambda>q. IsCirQueueFull q = Q_STATE_SUCCESS" "\<lambda>q. IsCirQueueEmpty q = Q_STATE_SUCCESS"
proof unfold_locales
  fix q assume ok: "cir_ok q"
  show "IsCirQueueFull q = Q_STATE_SUCCESS \<longleftrightarrow> length (cir_items q) = m_iQueueCapacity q" by (simp add: IsCirQueueFull_def)
  show "IsCirQueueEmpty q = Q_STATE_SUCCESS \<longleftrightarrow> cir_items q = []" unfolding length_0_conv[symmetric] by (simp add: IsCirQueueEmpty_def)
  show "length (cir_items q) \<le> m_iQueueCapacity q" using ok by (simp add: cir_ok_def)
next
  fix q x assume ok: "cir_ok q" and nf: "\<not> IsCirQueueFull q = Q_STATE_SUCCESS"
  have "BufferEnCirQueue [x] q = (1, cir_put x q)" using nf by (simp add: En_is_Buffer[OF ok] cir_put_def)
  from BufferEn_appends(2-4)[OF ok this]
  show "cir_ok (cir_put x q) \<and> cir_items (cir_put x q) = cir_items q @ [x] \<and> m_iQueueCapacity (cir_put x q) = m_iQueueCapacity q"
    by simp
next
  fix q assume ok: "cir_ok q" and ne: "\<not> IsCirQueueEmpty q = Q_STATE_SUCCESS"
  then have l: "1 \<le> m_iQueueLenth q" by (auto simp: IsCirQueueEmpty_def split: if_splits)
  have b: "length (m_pQueue q) = m_iQueueCapacity q" "m_iHead q < m_iQueueCapacity q" using ok by (simp_all add: cir_ok_def)
  have "snd (cir_get q) = cir_skip 1 q" using ne by (simp add: cir_get_def DeCirQueue_def Let_def cir_skip_def)
  moreover have "cir_copy_out q 1 = [fst (cir_get q)]"
  proof -
    have "1 \<le> m_iQueueCapacity q - m_iHead q" using b(2) by simp
    then show ?thesis using ne b by (simp add: cir_get_def DeCirQueue_def Let_def cir_copy_out_def take_Suc_conv_app_nth)
  qed
  moreover note cir_skip_drops[OF ok l]
  ultimately show "cir_ok (snd (cir_get q)) \<and> cir_items q = fst (cir_get q) # cir_items (snd (cir_get q))
      \<and> m_iQueueCapacity (snd (cir_get q)) = m_iQueueCapacity q"
    by (simp add: cir_skip_def)
qed

end
