(* ===== verification/Memory_Theorems.thy ===== *)
theory Memory_Theorems
  imports RT_Mem RT_RingBuffer Cir_Queue
begin

text \<open>
  The properties of the system heap and of the byte queues, each followed by a witness where it has hypotheses.
\<close>

subsection \<open>The heap\<close>

text \<open>C16. \<open>rt_malloc\<close> is a first fit on the sequence of blocks: it grants the first free block that is large enough, cut
  to the size served when the rest can hold another block, or it refuses and changes nothing; it refuses only
  when the request exceeds the heap or every free block that starts below \<open>mem_size_aligned\<close> minus the
  size is too small. The stored bytes are not touched and \<open>lfree\<close> stays the lowest free block.\<close>

theorem rt_malloc_first_fit:
  assumes "heap_inv h ss" "lowest h ss" "a \<noteq> 0"
  shows "(\<exists>h' xs n ys. ss = xs @ (False, n) # ys \<and> served a + SIZEOF_STRUCT_MEM \<le> n \<and> (\<forall>(u, m)\<in>set xs. u \<or> m < served a + SIZEOF_STRUCT_MEM)
      \<and> rt_malloc a h = Some (Some (extent xs + SIZEOF_STRUCT_MEM), h')
      \<and> heap_inv h' (xs @ carved (served a) n @ ys) \<and> lowest h' (xs @ carved (served a) n @ ys) \<and> payload h' = payload h)
    \<or> rt_malloc a h = Some (None, h) \<and> (mem_size_aligned h < unat (RT_ALIGN a RT_ALIGN_SIZE) \<or>
        (\<forall>xs n ys. ss = xs @ (False, n) # ys \<longrightarrow> extent xs + served a < mem_size_aligned h \<longrightarrow> n < served a + SIZEOF_STRUCT_MEM))"
proof (rule rt_malloc_cases[OF assms(1,3)], goal_cases)
  case (1 h' xs n ys)
  note g = 1(1-4,7) 1(8,9)[OF assms(2)]
  show ?case
    by (intro disjI1 exI[of _ h'] exI[of _ xs] exI[of _ n] exI[of _ ys] conjI) (fact g)+
next
  case 2
  from 2(1) 2(2)[OF assms(2)] show ?case by blast
qed

definition small_heap :: mem_heap where
  "small_heap = rt_system_heap_init 0x20001001 0x20001063
     \<lparr>heap_ptr = 0, hdr = (\<lambda>_. \<lparr>hm_magic = 0, hm_used = 0, hm_next = 0, hm_prev = 0\<rparr>), payload = (\<lambda>_. 0),
      lfree = 0, mem_size_aligned = 0, used_mem = 0, max_mem = 0\<rparr>"

lemma small_heap_inv: "heap_inv small_heap [(False, 80)]" "lowest small_heap [(False, 80)]" "mem_size_aligned small_heap = 68"
proof -
  have a: "unat (RT_ALIGN (0x20001001 :: u32) RT_ALIGN_SIZE) = 0x20001004" "unat (RT_ALIGN_DOWN (0x20001063 :: u32) RT_ALIGN_SIZE) = 0x20001060"
    by (simp_all add: RT_ALIGN_def RT_ALIGN_DOWN_def)
  show "heap_inv small_heap [(False, 80)]" "lowest small_heap [(False, 80)]"
    using heap_init_ok[OF a(1)[symmetric] a(2)[symmetric]] by (simp_all add: small_heap_def)
  show "mem_size_aligned small_heap = 68" by (simp add: small_heap_def rt_system_heap_init_def Let_def a)
qed

theorem rt_malloc_first_fit_witness:
  "\<exists>h'. rt_malloc 10 small_heap = Some (Some 12, h') \<and> heap_inv h' [(True, 24), (False, 56)]
    \<and> lowest h' [(True, 24), (False, 56)]"
proof -
  have s: "served 10 = 12" "carved 12 80 = [(True, 24), (False, 56)]" by (simp_all add: served_def carved_def RT_ALIGN_def)
  have r: "unat (RT_ALIGN (10 :: u32) RT_ALIGN_SIZE) = 12" by (simp add: RT_ALIGN_def)
  from rt_malloc_first_fit[OF small_heap_inv(1,2), of 10] show ?thesis
    unfolding s(1) r small_heap_inv(3) by (auto simp: s(2) Cons_eq_append_conv)
qed

text \<open>C17. Blocks of the heap are exclusive: through any sequence of \<open>rt_malloc\<close> and \<open>rt_free\<close> calls by clients that free
  only what they hold, the blocks held are all different and are exactly the used blocks of the heap, and
  the heap stays well formed (headers chained both ways, no two free blocks in a row, accounts right).\<close>

theorem heap_exclusive:
  assumes "heap_ok h" "distinct held" "set held = live_blocks h"
    "run_alloc heap_request heap_return ops held h = (held', h')"
  shows "heap_ok h' \<and> distinct held' \<and> set held' = live_blocks h'"
  by (rule heap.run_exclusive[OF assms])

lemma small_heap_ok: "heap_ok small_heap" "live_blocks small_heap = {}"
  using heap_inv_ok[OF small_heap_inv(1)] by (simp_all add: live_blocks_def)

theorem heap_exclusive_witness:
  "\<exists>p h'. run_alloc heap_request heap_return [Request 10, Request 0] [] small_heap = ([p], h') \<and> live_blocks h' = {p}"
proof -
  obtain h1 where h1: "rt_malloc 10 small_heap = Some (Some 12, h1)" using rt_malloc_first_fit_witness by blast
  have e: "run_alloc heap_request heap_return [Request 10, Request 0] [] small_heap = ([12], h1)"
    using h1 by (simp add: heap_request_def rt_malloc_def[of 0])
  from heap_exclusive[OF small_heap_ok(1) _ _ e] small_heap_ok(2) e show ?thesis by auto
qed

text \<open>C18. \<open>rt_free\<close> of a used block joins it with the free blocks on both sides, so that no two free blocks touch, gives its
  size back to the account and leaves every other block and all stored bytes alone.\<close>

theorem rt_free_coalesces:
  assumes "heap_inv h (xs @ (True, n) # ys)" "lowest h (xs @ (True, n) # ys)"
  shows "\<exists>h'. rt_free (Some (extent xs + SIZEOF_STRUCT_MEM)) h = Some h' \<and> heap_inv h' (freed xs n ys) \<and> lowest h' (freed xs n ys)
    \<and> payload h' = payload h \<and> live_blocks h' = live_blocks h - {extent xs + SIZEOF_STRUCT_MEM}"
proof -
  have so: "segs_ok (xs @ (True, n) # ys)" using assms(1) by (simp add: heap_inv_def heap_body_def)
  show ?thesis
  proof (rule rt_free_frees[OF assms(1)], goal_cases)
    case (1 h')
    have "live_blocks h' = live_blocks h - {extent xs + SIZEOF_STRUCT_MEM}"
      unfolding live_blocks_def heap_inv_ok[OF 1(2), THEN conjunct2] heap_inv_ok[OF assms(1), THEN conjunct2] used_starts_freed[OF so]
      by (subst image_set_diff) (auto simp: inj_on_def)
    with 1 1(3)[OF assms(2)] show ?case by blast
  qed
qed

theorem rt_free_coalesces_witness:
  "\<exists>h1 h2. rt_malloc 10 small_heap = Some (Some 12, h1) \<and> rt_free (Some 12) h1 = Some h2 \<and> heap_inv h2 [(False, 80)]"
proof -
  obtain h1 where h1: "rt_malloc 10 small_heap = Some (Some 12, h1)" "heap_inv h1 [(True, 24), (False, 56)]"
    "lowest h1 [(True, 24), (False, 56)]" using rt_malloc_first_fit_witness by blast
  with rt_free_coalesces[of h1 "[]" 24 "[(False, 56)]"] h1 show ?thesis by (auto simp: freed_def ahead_def)
qed


text \<open>Growing a block with \<open>rt_realloc\<close> either moves it to a block that was not in use, with all its bytes copied and
  the old block freed, or returns \<open>RT_NULL\<close> with the heap as it was.\<close>

theorem rt_realloc_grows:
  assumes "heap_inv h (xs @ (True, n) # ys)" "mem_size_aligned h \<ge> unat (RT_ALIGN a RT_ALIGN_SIZE)" "0 < unat (RT_ALIGN a RT_ALIGN_SIZE)"
    "n < unat (RT_ALIGN a RT_ALIGN_SIZE) + SIZEOF_STRUCT_MEM"
  defines "old \<equiv> extent xs + SIZEOF_STRUCT_MEM"
  shows "rt_realloc (Some old) a h = Some (None, h)
    \<or> (\<exists>p h'. rt_realloc (Some old) a h = Some (Some p, h') \<and> heap_ok h' \<and> p \<notin> live_blocks h
        \<and> live_blocks h' = insert p (live_blocks h - {old}) \<and> (\<forall>j<n - SIZEOF_STRUCT_MEM. payload h' (p + j) = payload h (old + j)))"
  unfolding old_def by (rule rt_realloc_moves[OF assms(1) refl assms(3,2,4)]) blast+

theorem rt_realloc_grows_witness:
  "\<exists>h1. rt_malloc 10 small_heap = Some (Some 12, h1) \<and> (rt_realloc (Some 12) 20 h1 = Some (None, h1)
     \<or> (\<exists>p h'. rt_realloc (Some 12) 20 h1 = Some (Some p, h') \<and> p \<noteq> 12 \<and> live_blocks h' = {p}))"
proof -
  obtain h1 where h1: "rt_malloc 10 small_heap = Some (Some 12, h1)" "heap_inv h1 [(True, 24), (False, 56)]"
    using rt_malloc_first_fit_witness by blast
  have m: "mem_size_aligned h1 = 68" using h1(2) by (simp add: heap_inv_def heap_body_def)
  have "live_blocks h1 = {12}" using heap_inv_ok[OF h1(2)] by (simp add: live_blocks_def)
  with rt_realloc_grows[of h1 "[]" 24 "[(False, 56)]" 20] h1 m show ?thesis by (auto simp: RT_ALIGN_def)
qed

text \<open>A request within three bytes of the largest number wraps to 0 when it is aligned and is served like a request of
  12 bytes: \<open>rt_malloc\<close> returns a block far smaller than asked for.\<close>

theorem rt_malloc_wraps:
  assumes "0xFFFFFFFC < a" "12 \<le> mem_size_aligned h"
  shows "rt_malloc a h = rt_malloc 12 h"
proof -
  have a: "a = 0xFFFFFFFD \<or> a = 0xFFFFFFFE \<or> a = 0xFFFFFFFF"
  proof -
    have "unat a < 2 ^ 32" "0xFFFFFFFC < unat a" using assms(1) unsigned_less[of a] by (simp_all add: word_less_nat_alt)
    then have "unat a = 0xFFFFFFFD \<or> unat a = 0xFFFFFFFE \<or> unat a = 0xFFFFFFFF" by auto
    then show ?thesis by (simp add: word_unat_eq_iff)
  qed
  then have "RT_ALIGN a RT_ALIGN_SIZE = 0" "a \<noteq> 0" by (auto simp: RT_ALIGN_def)
  moreover have "unat (RT_ALIGN (12 :: u32) RT_ALIGN_SIZE) = 12" by (simp add: RT_ALIGN_def)
  ultimately show ?thesis using assms(2) by (simp add: rt_malloc_def)
qed

theorem rt_malloc_wraps_witness: "rt_malloc 0xFFFFFFFF small_heap = rt_malloc 12 small_heap"
  by (rule rt_malloc_wraps) (simp_all add: small_heap_inv)

text \<open>A fresh heap refuses a request for exactly the bytes its only block has, and grants the next smaller one: the search
  stops at \<open>mem_size_aligned - size\<close>, although the test in front of it lets the size pass.\<close>

theorem rt_malloc_refuses_exact_fit:
  assumes "heap_inv h [(False, mem_size_aligned h + SIZEOF_STRUCT_MEM)]" "lowest h [(False, mem_size_aligned h + SIZEOF_STRUCT_MEM)]"
    "unat (RT_ALIGN a RT_ALIGN_SIZE) = mem_size_aligned h"
  shows "rt_malloc a h = Some (None, h)"
proof -
  have m: "12 \<le> mem_size_aligned h" using assms(1) by (simp add: heap_inv_def heap_body_def)
  then have "a \<noteq> 0" using assms(3) by (auto simp: RT_ALIGN_def)
  moreover have "lfree h = 0" using assms(2) by (simp add: lowest_def)
  moreover have "heap_find h (mem_size_aligned h) 0 = Some None" by (subst heap_find.simps) simp
  ultimately show ?thesis using m by (simp add: rt_malloc_def assms(3) Let_def)
qed

theorem rt_malloc_refuses_exact_fit_witness:
  "rt_malloc 68 small_heap = Some (None, small_heap)"
  by (rule rt_malloc_refuses_exact_fit) (simp_all add: small_heap_inv RT_ALIGN_def)


subsection \<open>The ring buffer of the drivers\<close>

text \<open>What \<open>rt_ringbuffer_put\<close> accepts, the first bytes up to the free space, is appended to what the buffer holds, and
  \<open>rt_ringbuffer_get\<close> takes the oldest bytes: getting as many bytes as the buffer then holds returns the old
  contents followed by the accepted bytes and leaves it empty.\<close>

theorem ringbuffer_put_get:
  assumes "rb_ok rb" "rt_ringbuffer_put src rb = (n, rb1)" "rt_ringbuffer_get len rb1 = (out, rb2)"
  shows "n = min (length src) (rt_ringbuffer_space_len rb) \<and> rb_ok rb1 \<and> rb_bytes rb1 = rb_bytes rb @ take n src
    \<and> rb_ok rb2 \<and> out = take len (rb_bytes rb @ take n src) \<and> rb_bytes rb2 = drop len (rb_bytes rb @ take n src)"
  using put_appends[OF assms(1,2)] get_takes[OF _ assms(3)] by auto

definition small_ring :: rt_ringbuffer where
  "small_ring = \<lparr>buffer_ptr = [1, 2, 3, 4], read_mirror = False, read_index = 3, write_mirror = True, write_index = 1, buffer_size = 4\<rparr>"

lemma small_ring_ok: "rb_ok small_ring" "rb_bytes small_ring = [4, 1]" "rt_ringbuffer_space_len small_ring = 2"
  by (simp_all add: rb_ok_def small_ring_def rb_bytes_def ring_window_def rt_ringbuffer_data_len_def rt_ringbuffer_status_def
      rt_ringbuffer_space_len_def upt_rec)

theorem ringbuffer_put_get_witness:
  "\<exists>rb1 rb2. rt_ringbuffer_put [7, 8, 9] small_ring = (2, rb1) \<and> rt_ringbuffer_get 3 rb1 = ([4, 1, 7], rb2) \<and> rb_bytes rb2 = [8]"
proof -
  obtain n rb1 where p: "rt_ringbuffer_put [7, 8, 9] small_ring = (n, rb1)" by fastforce
  obtain out rb2 where g: "rt_ringbuffer_get 3 rb1 = (out, rb2)" by fastforce
  from ringbuffer_put_get[OF small_ring_ok(1) p g] p g show ?thesis by (simp add: small_ring_ok)
qed

text \<open>C19. Byte by byte the ring buffer is a first-in first-out channel of \<open>buffer_size\<close> bytes, for any sequence of
  \<open>rt_ringbuffer_putchar\<close> and \<open>rt_ringbuffer_getchar\<close>.\<close>

theorem ringbuffer_fifo:
  assumes "rb_ok rb" "run_fifo rb_putc rb_getc (\<lambda>rb. rb_is_full rb) (\<lambda>rb. rb_is_empty rb) ops rb = (acc, outs, rb')"
  shows "rb_bytes rb @ acc = outs @ rb_bytes rb' \<and> rb_ok rb' \<and> length (rb_bytes rb') \<le> buffer_size rb"
proof -
  note r = rbq.run_order[OF assms]
  have "length (rb_bytes rb') \<le> buffer_size rb'" by (rule rbq.within) (use r in blast)
  with r show ?thesis by simp
qed

theorem ringbuffer_fifo_witness:
  "\<exists>rb'. run_fifo rb_putc rb_getc (\<lambda>rb. rb_is_full rb) (\<lambda>rb. rb_is_empty rb) [Put 5, Put 6, Put 7, Get, Get] small_ring
     = ([5, 6], [4, 1], rb') \<and> rb_bytes rb' = [5, 6]"
proof -
  let ?r = "run_fifo rb_putc rb_getc (\<lambda>rb. rb_is_full rb) (\<lambda>rb. rb_is_empty rb) [Put 5, Put 6, Put 7, Get, Get] small_ring"
  have "fst ?r = [5, 6]" "fst (snd ?r) = [4, 1]"
    by (simp_all add: small_ring_def rb_putc_def rb_getc_def rt_ringbuffer_putchar_def rt_ringbuffer_getchar_def rb_step_write_def
        rt_ringbuffer_space_len_def rt_ringbuffer_data_len_def rt_ringbuffer_status_def)
  then obtain rb' where e: "?r = ([5, 6], [4, 1], rb')" by (metis prod.collapse)
  with ringbuffer_fifo[OF small_ring_ok(1) e] show ?thesis by (simp add: small_ring_ok)
qed

text \<open>\<open>rt_ringbuffer_put_force\<close> is to overwrite the oldest bytes when there is no room. When read and write index are in
  the same mirror and the new bytes do not fit in the free space, both mirrors are flipped to the same side again, so
  that the buffer ends up empty: every byte, the new ones included, is lost.\<close>

theorem ringbuffer_put_force_loses:
  assumes "rb_ok rb" "read_mirror rb = write_mirror rb" "length src \<le> buffer_size rb" "rt_ringbuffer_space_len rb < length src"
  shows "rb_bytes (snd (rt_ringbuffer_put_force src rb)) = [] \<and> fst (rt_ringbuffer_put_force src rb) = length src"
  using put_force_loses_all[OF assms] assms(3) by (simp add: rt_ringbuffer_put_force_def Let_def)

theorem ringbuffer_put_force_loses_witness:
  "rb_bytes (snd (rt_ringbuffer_put_force [7, 8, 9] (small_ring\<lparr>read_index := 1, read_mirror := True, write_index := 3\<rparr>))) = []"
proof -
  let ?rb = "small_ring\<lparr>read_index := 1, read_mirror := True, write_index := 3\<rparr>"
  have "rb_ok ?rb" "read_mirror ?rb = write_mirror ?rb" "buffer_size ?rb = 4" "rt_ringbuffer_space_len ?rb = 2"
    by (simp_all add: rb_ok_def small_ring_def rt_ringbuffer_space_len_def rt_ringbuffer_data_len_def rt_ringbuffer_status_def)
  with ringbuffer_put_force_loses[of ?rb "[7, 8, 9]"] show ?thesis by simp
qed

text \<open>\<open>rt_ringbuffer_putchar_force\<close> keeps the newest bytes: it drops the oldest one when the buffer is full and
  appends the new one.\<close>

theorem ringbuffer_putchar_force_keeps:
  assumes "rb_ok rb"
  shows "rb_ok (snd (rt_ringbuffer_putchar_force ch rb)) \<and> rb_bytes (snd (rt_ringbuffer_putchar_force ch rb)) =
    (if rt_ringbuffer_space_len rb = 0 then tl (rb_bytes rb) else rb_bytes rb) @ [ch]"
  using putchar_force_keeps_last[OF assms] by simp

theorem ringbuffer_putchar_force_keeps_witness:
  "rb_bytes (snd (rt_ringbuffer_putchar_force 9 small_ring)) = [4, 1, 9]"
  using ringbuffer_putchar_force_keeps[OF small_ring_ok(1), of 9] by (simp add: small_ring_ok)

subsection \<open>The byte queue of the application\<close>

text \<open>\<open>BufferEnCirQueue\<close> stores as many of the bytes as there is room for behind those in the queue and
  \<open>BufferDeCirQueue\<close> returns the oldest ones in order, however the data lie around the end of the buffer.\<close>

theorem cirqueue_put_get:
  assumes "cir_ok q" "BufferEnCirQueue buf q = (n, q1)" "BufferDeCirQueue len q1 = (k, out, q2)"
  shows "n = min (length buf) (m_iQueueCapacity q - m_iQueueLenth q) \<and> cir_items q1 = cir_items q @ take n buf
    \<and> cir_ok q2 \<and> out = take len (cir_items q @ take n buf) \<and> k = length out \<and> cir_items q2 = drop len (cir_items q @ take n buf)"
proof -
  note e = BufferEn_appends[OF assms(1,2)]
  note d = BufferDe_takes[OF e(2) assms(3)]
  have "k = length out" unfolding d(1,2) by (simp add: min.commute)
  with e(1,3) d(3) d(2,4)[unfolded e(3)] show ?thesis by (intro conjI)
qed

definition small_cir :: cirqueue where
  "small_cir = \<lparr>m_iHead = 2, m_iTail = 1, m_iQueueLenth = 2, m_iQueueCapacity = 3, m_pQueue = [1, 2, 3]\<rparr>"

theorem cirqueue_put_get_witness:
  "\<exists>q1 q2. BufferEnCirQueue [8, 9] small_cir = (1, q1) \<and> BufferDeCirQueue 2 q1 = (2, [3, 1], q2) \<and> cir_items q2 = [8]"
proof -
  have ok: "cir_ok small_cir" "cir_items small_cir = [3, 1]" "m_iQueueCapacity small_cir = 3" "m_iQueueLenth small_cir = 2"
    by (simp_all add: cir_ok_def small_cir_def cir_items_def ring_window_def upt_rec)
  obtain n q1 where p: "BufferEnCirQueue [8, 9] small_cir = (n, q1)" by fastforce
  obtain k out q2 where g: "BufferDeCirQueue 2 q1 = (k, out, q2)" by (metis prod_cases3)
  from cirqueue_put_get[OF ok(1) p g] p g show ?thesis by (simp add: ok)
qed

text \<open>\<open>AllBufferDeCirQueue\<close> copies the whole queue out in order and empties it, but returns 0 whatever it copied: the
  length it returns has been cleared before.\<close>

theorem cirqueue_drain_returns_zero:
  assumes "cir_ok q" "AllBufferDeCirQueue q = (k, out, q1)"
  shows "out = cir_items q \<and> cir_ok q1 \<and> cir_items q1 = [] \<and> k = 0"
  using AllBufferDe_drains[OF assms] by simp

theorem cirqueue_drain_returns_zero_witness:
  "\<exists>q1. AllBufferDeCirQueue small_cir = (0, [3, 1], q1) \<and> cir_items q1 = []"
proof -
  have ok: "cir_ok small_cir" "cir_items small_cir = [3, 1]"
    by (simp_all add: cir_ok_def small_cir_def cir_items_def ring_window_def upt_rec)
  obtain k out q1 where g: "AllBufferDeCirQueue small_cir = (k, out, q1)" by (metis prod_cases3)
  from cirqueue_drain_returns_zero[OF ok(1) g] g show ?thesis by (simp add: ok)
qed

end
