(* ===== verification/App_Rtc.thy ===== *)
theory App_Rtc
  imports RT_Prelude
begin

text \<open>
  The calendar of the application, \<open>src/User/App/src/rtc.c\<close>: the conversion between the counter of the real-time
  clock, seconds since the start of 2013, and a date. A date has signed 8-bit fields, kept as integers; a
  store narrows with \<open>s8\<close>. The set-up of the clock peripheral is register access and is not modelled.
\<close>

subsection \<open>The code\<close>

record TIME_T =
  year :: int
  month :: int
  day :: int
  hour :: int
  mins :: int
  sec :: int

abbreviation START_YEAR :: int where "START_YEAR \<equiv> 13"
abbreviation END_YEAR :: int where "END_YEAR \<equiv> 70"
abbreviation DAY_SECOND :: u32 where "DAY_SECOND \<equiv> 0x15180"
abbreviation HOUR_SECOND :: u32 where "HOUR_SECOND \<equiv> 0xE10"
abbreviation MIN_SECOND :: u32 where "MIN_SECOND \<equiv> 60"
abbreviation YEAR_SECOND :: u32 where "YEAR_SECOND \<equiv> 0x1E13380"

definition s8 :: "int \<Rightarrow> int" where
  "s8 i = sint (word_of_int i :: 8 word)"

definition LeapYear :: "int \<Rightarrow> u32" where
  "LeapYear y = (if y mod 4 = 0 \<and> y mod 100 \<noteq> 0 \<or> y mod 400 = 0 then 1 else 0)"

definition MonTab :: "nat list" where
  "MonTab = [0, 31, 28, 31, 30, 31, 30, 31, 31, 30, 31, 30, 31]"

text \<open>The loop reads \<open>MonTab[i]\<close> for \<open>1 \<le> i < mm\<close>, beyond the table when \<open>mm > 13\<close>.\<close>

definition YearDay :: "int \<Rightarrow> int \<Rightarrow> int \<Rightarrow> u16 option" where
  "YearDay yy mm dd =
     (if mm > 13 then None
      else let TotalDay = fold (\<lambda>i t. t + word_of_nat (MonTab ! i)) [1..<nat mm] 0 + word_of_int dd
           in Some (if LeapYear yy = 1 \<and> mm > 2 then TotalDay + 1 else TotalDay))"

definition ConverseGmtime :: "TIME_T \<Rightarrow> u32 option" where
  "ConverseGmtime tt =
     (if year tt \<ge> START_YEAR \<and> year tt \<le> END_YEAR then do {
        yd \<leftarrow> YearDay (year tt + 2000) (month tt) (day tt);
        let TotalDay = fold (\<lambda>i t. t + (365 + LeapYear (i + 2000))) [START_YEAR..year tt - 1] 0 + ucast yd;
        Some ((TotalDay - 1) * DAY_SECOND + word_of_int (hour tt) * HOUR_SECOND + word_of_int (mins tt) * 60 + word_of_int (sec tt)) }
      else Some 0)"

text \<open>The loop all the fields but the seconds are found with: \<open>step i\<close> is the length of the \<open>i\<close>-th unit (\<open>None\<close>: a read beyond
  the table). It ends with the number behind the unit and the start of the unit that holds the counter.\<close>

partial_function (option) gm_scan :: "(int \<Rightarrow> u32 option) \<Rightarrow> u32 \<Rightarrow> int \<Rightarrow> u32 \<Rightarrow> u32 \<Rightarrow> (int \<times> u32) option" where
  "gm_scan step counter i acc temp =
     (if acc \<le> counter then do {
        d \<leftarrow> step i;
        let acc1 = acc + d;
        gm_scan step counter (i + 1) acc1 (if acc1 \<le> counter then acc1 else temp) }
      else Some (i, temp))"

definition month_step :: "int \<Rightarrow> int \<Rightarrow> u32 option" where
  "month_step y i =
     (if i > 12 then None
      else let d = word_of_nat (MonTab ! nat i) * DAY_SECOND
           in Some (if i = 2 \<and> LeapYear y \<noteq> 0 then d + DAY_SECOND else d))"

definition Gmtime :: "TIME_T \<Rightarrow> u32 \<Rightarrow> TIME_T option" where
  "Gmtime tt counter =
     (if counter < 0xBC191380 then do {
        (i, temp) \<leftarrow> gm_scan (\<lambda>i. Some (LeapYear (i + 2000) * DAY_SECOND + YEAR_SECOND)) counter START_YEAR 0 0;
        let y = s8 (i - 1);
        let c1 = counter - temp;
        (i, temp) \<leftarrow> gm_scan (month_step y) c1 1 0 0;
        let mo = s8 (i - 1);
        let c2 = c1 - temp;
        (i, temp) \<leftarrow> gm_scan (\<lambda>_. Some DAY_SECOND) c2 1 0 0;
        let d = s8 (i - 1);
        let c3 = c2 - temp;
        (i, temp) \<leftarrow> gm_scan (\<lambda>_. Some HOUR_SECOND) c3 0 0 0;
        let h = s8 (i - 1);
        let c4 = c3 - temp;
        (i, temp) \<leftarrow> gm_scan (\<lambda>_. Some MIN_SECOND) c4 0 0 0;
        Some \<lparr>year = y, month = mo, day = d, hour = h, mins = s8 (i - 1), sec = s8 (uint (c4 - temp))\<rparr> }
      else Some tt)"

definition CheckTimeStruct :: "TIME_T \<Rightarrow> bool" where
  "CheckTimeStruct tt \<longleftrightarrow> \<not> (year tt > END_YEAR \<or> year tt < START_YEAR \<or> month tt > 12 \<or> month tt < 1 \<or> day tt > 31 \<or> day tt < 1
     \<or> hour tt > 23 \<or> hour tt < 0 \<or> mins tt > 59 \<or> mins tt < 0 \<or> sec tt > 59 \<or> sec tt < 0)"

text \<open>The number is written to ten digits; leading zeros are skipped, but a number below 10 gets one. \<open>None\<close>: the
  skipping loop runs off the ten digits.\<close>

definition Num2NumStr :: "u32 \<Rightarrow> u8 list option" where
  "Num2NumStr Num =
     (if Num = 0 then Some [0]
      else let digit = (\<lambda>k. ucast (Num div 10 ^ k mod 10) + 48 :: u8);
               NumChar = map digit (rev [0..<10]);
               i = length (takeWhile (\<lambda>c. c = 48) NumChar)
           in if i = 10 then None
              else if i = 9 then Some [48, NumChar ! 9, 0]
              else Some (drop i NumChar @ [0]))"

subsection \<open>The search loop\<close>

lemma gm_scan_finds:
  assumes start: "cum 0 = 0" and step: "\<And>j. j \<le> k \<Longrightarrow> step (i0 + int j) = Some (word_of_nat (cum (Suc j) - cum j))"
    and mono: "\<And>j. j \<le> k \<Longrightarrow> cum j \<le> cum (Suc j)" and lo: "cum k \<le> unat counter" and hi: "unat counter < cum (Suc k)"
    and fit: "cum (Suc k) < 2 ^ 32"
  shows "gm_scan step counter i0 0 0 = Some (i0 + int k + 1, word_of_nat (cum k))"
proof -
  have up: "cum j \<le> cum (Suc k)" "j \<le> k \<Longrightarrow> cum j \<le> cum k" if "j \<le> Suc k" for j
  proof -
    have "cum i \<le> cum (i + d)" if "i + d \<le> Suc k" for i d
      using that by (induction d) (auto intro: order_trans mono)
    from this[of j "Suc k - j"] this[of j "k - j"] that show "cum j \<le> cum (Suc k)" "j \<le> k \<Longrightarrow> cum j \<le> cum k" by simp_all
  qed
  have le: "word_of_nat (cum j) \<le> counter \<longleftrightarrow> cum j \<le> unat counter" if "j \<le> Suc k" for j
    using up(1)[OF that] fit by (simp add: word_le_nat_alt unat_of_nat)
  have add: "word_of_nat (cum j) + word_of_nat (cum (Suc j) - cum j) = (word_of_nat (cum (Suc j)) :: u32)" if "j \<le> k" for j
    using mono[OF that] by (simp flip: of_nat_add)
  have "gm_scan step counter (i0 + int j) (word_of_nat (cum j)) (word_of_nat (cum j)) = Some (i0 + int k + 1, word_of_nat (cum k))"
    if "j \<le> k" for j
    using that
  proof (induction "k - j" arbitrary: j)
    case 0
    then have j: "j = k" by simp
    have n: "\<not> word_of_nat (cum (Suc k)) \<le> counter" using le[of "Suc k"] hi by simp
    have "gm_scan step counter (i0 + int k + 1) (word_of_nat (cum (Suc k))) (word_of_nat (cum k)) = Some (i0 + int k + 1, word_of_nat (cum k))"
      using n by (subst gm_scan.simps) simp
    then show ?case unfolding j using le[of k] lo step[of k] add[of k] n
      by (subst gm_scan.simps) (simp add: Let_def)
  next
    case (Suc d)
    then have j: "Suc j \<le> k" by simp
    have "cum (Suc j) \<le> unat counter" "cum j \<le> unat counter" using up(2)[of "Suc j"] up(2)[of j] j lo by simp_all
    then have "gm_scan step counter (i0 + int j) (word_of_nat (cum j)) (word_of_nat (cum j))
        = gm_scan step counter (i0 + int (Suc j)) (word_of_nat (cum (Suc j))) (word_of_nat (cum (Suc j)))"
      using le[of j] le[of "Suc j"] step[of j] add[of j] j by (subst gm_scan.simps) (simp add: Let_def ac_simps)
    also have "\<dots> = Some (i0 + int k + 1, word_of_nat (cum k))" using Suc.hyps(1)[of "Suc j"] Suc.hyps(2) j by simp
    finally show ?case .
  qed
  from this[of 0] start show ?thesis by simp
qed

subsection \<open>The calendar\<close>

text \<open>The calendar the conversions are to implement, in natural numbers: the days of a year and a month, the days before
  them, and the seconds a date is after the start of 2013.\<close>

definition leap :: "nat \<Rightarrow> bool" where
  "leap y \<longleftrightarrow> 4 dvd y \<and> (\<not> 100 dvd y \<or> 400 dvd y)"

definition month_days :: "nat \<Rightarrow> nat \<Rightarrow> nat" where
  "month_days y m = MonTab ! m + (if m = 2 \<and> leap y then 1 else 0)"

primrec days_before_year :: "nat \<Rightarrow> nat" where
  "days_before_year 0 = 0"
| "days_before_year (Suc k) = days_before_year k + (if leap (2013 + k) then 366 else 365)"

primrec days_before_month :: "nat \<Rightarrow> nat \<Rightarrow> nat" where
  "days_before_month y 0 = 0"
| "days_before_month y (Suc k) = days_before_month y k + month_days y (Suc k)"

definition date_upto :: "int \<Rightarrow> TIME_T \<Rightarrow> bool" where
  "date_upto ymax tt \<longleftrightarrow> 13 \<le> year tt \<and> year tt \<le> ymax \<and> 1 \<le> month tt \<and> month tt \<le> 12
     \<and> 1 \<le> day tt \<and> day tt \<le> int (month_days (nat (year tt) + 2000) (nat (month tt)))
     \<and> 0 \<le> hour tt \<and> hour tt < 24 \<and> 0 \<le> mins tt \<and> mins tt < 60 \<and> 0 \<le> sec tt \<and> sec tt < 60"

definition seconds :: "TIME_T \<Rightarrow> nat" where
  "seconds tt = (days_before_year (nat (year tt) - 13) + days_before_month (nat (year tt) + 2000) (nat (month tt) - 1) + (nat (day tt) - 1)) * 86400
     + nat (hour tt) * 3600 + nat (mins tt) * 60 + nat (sec tt)"

lemma LeapYear_leap: "LeapYear (int y) = (if leap y then 1 else 0)"
proof -
  have "int y mod int n = 0 \<longleftrightarrow> n dvd y" for n by (simp add: int_dvd_int_iff flip: dvd_eq_mod_eq_0)
  from this[of 4] this[of 100] this[of 400]
  have "int y mod 4 = 0 \<longleftrightarrow> 4 dvd y" "int y mod 100 = 0 \<longleftrightarrow> 100 dvd y" "int y mod 400 = 0 \<longleftrightarrow> 400 dvd y" by simp_all
  moreover have "400 dvd y \<Longrightarrow> 4 dvd y" by (rule dvd_trans[of 4 400]) simp_all
  ultimately show ?thesis by (auto simp: LeapYear_def leap_def)
qed

lemma days_before_year_bounds: "365 * k \<le> days_before_year k" "days_before_year k \<le> 366 * k"
  by (induction k) auto

lemma month_days_bounds: "1 \<le> m \<Longrightarrow> m \<le> 12 \<Longrightarrow> 28 \<le> month_days y m \<and> month_days y m \<le> 31"
proof -
  assume "1 \<le> m" "m \<le> 12"
  then have "m \<in> set [1..<13]" by simp
  then show ?thesis by (auto simp: upt_rec month_days_def MonTab_def)
qed

lemma days_before_month_12: "days_before_month y 12 = (if leap y then 366 else 365)"
  by (simp add: numeral_eq_Suc month_days_def MonTab_def)

lemma days_before_month_le: "k \<le> 12 \<Longrightarrow> days_before_month y k \<le> 31 * k"
proof (induction k)
  case (Suc k)
  then show ?case using month_days_bounds[of "Suc k" y] by simp
qed simp

lemma days_before_month_mono: "j \<le> k \<Longrightarrow> days_before_month y j \<le> days_before_month y k"
  by (induction k) (auto simp: le_Suc_eq)

lemma cum_finds:
  fixes cum :: "nat \<Rightarrow> nat"
  assumes "cum 0 = 0" "n < cum K"
  obtains k where "k < K" "cum k \<le> n" "n < cum (Suc k)"
proof -
  have "n < cum K \<Longrightarrow> \<exists>k<K. cum k \<le> n \<and> n < cum (Suc k)"
  proof (induction K)
    case (Suc K)
    then show ?case by (cases "n < cum K") (auto simp: less_Suc_eq)
  qed (use assms(1) in simp)
  with assms(2) that show thesis by blast
qed

text \<open>Every second before the end of the last year is a second of exactly one date: here, that it is of one.\<close>

lemma date_of_seconds:
  assumes n: "n < days_before_year Y * 86400"
  obtains tt where "date_upto (12 + int Y) tt" "seconds tt = n"
proof -
  from n have "n div 86400 < days_before_year Y" by (simp add: less_mult_imp_div_less)
  then obtain k where k: "k < Y" "days_before_year k \<le> n div 86400" "n div 86400 < days_before_year (Suc k)"
    using cum_finds[of days_before_year] by (metis days_before_year.simps(1))
  define d where "d = n div 86400 - days_before_year k"
  have d: "d < days_before_month (2013 + k) 12" using k unfolding d_def days_before_month_12 by (auto split: if_splits)
  then obtain m where m: "m < 12" "days_before_month (2013 + k) m \<le> d" "d < days_before_month (2013 + k) (Suc m)"
    using cum_finds[of "days_before_month (2013 + k)"] by (metis days_before_month.simps(1))
  define e where "e = d - days_before_month (2013 + k) m"
  have e: "e < month_days (2013 + k) (Suc m)" using m unfolding e_def by simp
  define r where "r = n mod 86400"
  have r: "r < 86400" unfolding r_def by simp
  define tt where "tt = \<lparr>year = int (13 + k), month = int (Suc m), day = int (Suc e), hour = int (r div 3600),
    mins = int (r mod 3600 div 60), sec = int (r mod 60)\<rparr>"
  have sel: "nat (year tt) = 13 + k" "nat (month tt) = Suc m" "nat (day tt) = Suc e" "nat (hour tt) = r div 3600"
    "nat (mins tt) = r mod 3600 div 60" "nat (sec tt) = r mod 60" by (simp_all add: tt_def nat_add_distrib)
  have y: "13 + k + 2000 = 2013 + k" by simp
  have "r div 3600 < 24" using r by (simp add: less_mult_imp_div_less)
  moreover have "r mod 3600 div 60 < 60" by (simp add: less_mult_imp_div_less)
  ultimately have "date_upto (12 + int Y) tt"
    unfolding date_upto_def sel y using k(1) m(1) e by (simp add: tt_def)
  moreover have "(n div 86400) * 86400 + r = n" unfolding r_def by simp
  moreover have "r div 3600 * 3600 + r mod 3600 div 60 * 60 + r mod 60 = r"
  proof -
    have "r mod 60 = r mod 3600 mod 60" by (simp add: mod_mod_cancel)
    then have "r mod 3600 div 60 * 60 + r mod 60 = r mod 3600" by simp
    then show ?thesis using div_mult_mod_eq[of r 3600] by linarith
  qed
  moreover have "days_before_year k + days_before_month (2013 + k) m + e = n div 86400"
    using k(2) m(2) unfolding e_def d_def by linarith
  ultimately have "seconds tt = n" unfolding seconds_def sel y by simp
  with \<open>date_upto (12 + int Y) tt\<close> that show thesis by blast
qed

lemma LeapYear_century: "LeapYear (13 + int k + 2000) = (if leap (2013 + k) then 1 else 0)"
    "LeapYear (13 + int k) = (if leap (2013 + k) then 1 else 0)"
proof -
  have 2: "2013 + k = 2000 + (13 + k)" by simp
  have "c dvd 2000 \<Longrightarrow> c dvd 2000 + (13 + k) \<longleftrightarrow> c dvd 13 + k" for c by (rule dvd_add_right_iff)
  from this[of 4] this[of 100] this[of 400] have "leap (2013 + k) = leap (13 + k)" unfolding 2 leap_def by simp
  then show "LeapYear (13 + int k + 2000) = (if leap (2013 + k) then 1 else 0)"
    "LeapYear (13 + int k) = (if leap (2013 + k) then 1 else 0)"
    using LeapYear_leap[of "2013 + k"] LeapYear_leap[of "13 + k"] by (simp_all add: add.commute)
qed

lemma s8_id: "- 128 \<le> i \<Longrightarrow> i < 128 \<Longrightarrow> s8 i = i"
  by (simp add: s8_def signed_of_int signed_take_bit_int_eq_self)

subsection \<open>From a date to the counter\<close>

lemma years_fold:
  "fold (\<lambda>i t. t + (365 + LeapYear (i + 2000))) [13..13 + int k - 1] 0 = (word_of_nat (days_before_year k) :: u32)"
proof (induction k)
  case (Suc k)
  have "[13..13 + int (Suc k) - 1] = [13..13 + int k - 1] @ [13 + int k]" by (simp add: upto_rec2)
  then show ?case using Suc LeapYear_century(1)[of k] by simp
qed simp

lemma YearDay_is:
  assumes "1 \<le> m" "m \<le> 12"
  shows "YearDay (int y) (int m) (int d) = Some (word_of_nat (days_before_month y (m - 1) + d))"
proof -
  have "m \<in> set [1..<13]" using assms by simp
  then show ?thesis
    by (auto simp: upt_rec YearDay_def LeapYear_leap MonTab_def month_days_def numeral_eq_Suc)
qed

text \<open>The fields of a date as natural numbers.\<close>

lemma date_uptoE:
  assumes "date_upto ymax tt"
  obtains k m d h i x where "tt = \<lparr>year = 13 + int k, month = 1 + int m, day = 1 + int d, hour = int h, mins = int i, sec = int x\<rparr>"
    "13 + int k \<le> ymax" "m < 12" "d < month_days (2013 + k) (Suc m)" "h < 24" "i < 60" "x < 60"
    "seconds tt = (days_before_year k + days_before_month (2013 + k) m + d) * 86400 + h * 3600 + i * 60 + x"
proof (rule that)
  note a = assms[unfolded date_upto_def]
  let ?k = "nat (year tt) - 13" and ?m = "nat (month tt) - 1" and ?d = "nat (day tt) - 1"
  have y: "2013 + ?k = nat (year tt) + 2000" using a by linarith
  have m: "Suc ?m = nat (month tt)" using a by linarith
  show "tt = \<lparr>year = 13 + int ?k, month = 1 + int ?m, day = 1 + int ?d, hour = int (nat (hour tt)), mins = int (nat (mins tt)), sec = int (nat (sec tt))\<rparr>"
  proof (rule TIME_T.equality)
    show "year tt = year \<lparr>year = 13 + int ?k, month = 1 + int ?m, day = 1 + int ?d, hour = int (nat (hour tt)), mins = int (nat (mins tt)), sec = int (nat (sec tt))\<rparr>"
      "month tt = month \<lparr>year = 13 + int ?k, month = 1 + int ?m, day = 1 + int ?d, hour = int (nat (hour tt)), mins = int (nat (mins tt)), sec = int (nat (sec tt))\<rparr>"
      "day tt = day \<lparr>year = 13 + int ?k, month = 1 + int ?m, day = 1 + int ?d, hour = int (nat (hour tt)), mins = int (nat (mins tt)), sec = int (nat (sec tt))\<rparr>"
      unfolding TIME_T.simps using a by linarith+
  qed (use a in simp_all)
  show "13 + int ?k \<le> ymax" "?m < 12" "nat (hour tt) < 24" "nat (mins tt) < 60" "nat (sec tt) < 60" using a by linarith+
  show "?d < month_days (2013 + ?k) (Suc ?m)" unfolding y m using a by linarith
  show "seconds tt = (days_before_year ?k + days_before_month (2013 + ?k) ?m + ?d) * 86400 + nat (hour tt) * 3600 + nat (mins tt) * 60 + nat (sec tt)"
    unfolding y seconds_def ..
qed

lemma ConverseGmtime_is:
  assumes "date_upto 70 tt"
  shows "ConverseGmtime tt = Some (word_of_nat (seconds tt))"
  using assms
proof (rule date_uptoE)
  fix k m d h i x
  assume tt: "tt = \<lparr>year = 13 + int k, month = 1 + int m, day = 1 + int d, hour = int h, mins = int i, sec = int x\<rparr>"
    and k: "13 + int k \<le> 70" and m: "m < 12" and d: "d < month_days (2013 + k) (Suc m)"
    and s: "seconds tt = (days_before_year k + days_before_month (2013 + k) m + d) * 86400 + h * 3600 + i * 60 + x"
  let ?D = "days_before_month (2013 + k) m + Suc d"
  have yd: "YearDay (13 + int k + 2000) (1 + int m) (1 + int d) = Some (word_of_nat ?D)"
    using YearDay_is[of "Suc m" "2013 + k" "Suc d"] m by (simp add: ac_simps)
  have "?D < 2 ^ 16" using days_before_month_le[of m "2013 + k"] month_days_bounds[of "Suc m" "2013 + k"] m d by simp
  then have u: "(ucast (word_of_nat ?D :: u16) :: u32) = word_of_nat ?D" by (simp add: unsigned_of_nat take_bit_nat_eq_self del: of_nat_add of_nat_Suc)
  have t: "year tt = 13 + int k" "month tt = 1 + int m" "day tt = 1 + int d" "hour tt = int h" "mins tt = int i" "sec tt = int x"
    by (simp_all add: tt)
  show ?thesis
    unfolding ConverseGmtime_def t using k
    unfolding yd Option.bind.bind_lunit u Let_def years_fold s by (simp add: algebra_simps)
qed

text \<open>A date to the end of 2112 is the one the search for its counter finds.\<close>

lemma Gmtime_is:
  assumes "date_upto 112 tt" "seconds tt < 0xBC191380"
  shows "Gmtime tt0 (word_of_nat (seconds tt)) = Some tt"
  using assms(1)
proof (rule date_uptoE)
  fix k m d h i x
  assume tt: "tt = \<lparr>year = 13 + int k, month = 1 + int m, day = 1 + int d, hour = int h, mins = int i, sec = int x\<rparr>"
    and k: "13 + int k \<le> 112" and m: "m < 12" and d: "d < month_days (2013 + k) (Suc m)" and h: "h < 24" and i: "i < 60" and x: "x < 60"
    and s: "seconds tt = (days_before_year k + days_before_month (2013 + k) m + d) * 86400 + h * 3600 + i * 60 + x"
  define n where "n = seconds tt"
  define n1 where "n1 = n - days_before_year k * 86400"
  define n2 where "n2 = n1 - days_before_month (2013 + k) m * 86400"
  define n3 where "n3 = n2 - d * 86400"
  define n4 where "n4 = n3 - h * 3600"
  have eq: "n4 = i * 60 + x" "n3 = h * 3600 + n4" "n2 = d * 86400 + n3" "n1 = days_before_month (2013 + k) m * 86400 + n2"
    "n = days_before_year k * 86400 + n1"
    unfolding n4_def n3_def n2_def n1_def n_def s by (simp_all add: algebra_simps)
  have lt: "n4 < 3600" "n3 < 86400" using eq i x h by linarith+
  have md: "month_days (2013 + k) (Suc m) \<le> 31" using month_days_bounds[of "Suc m"] m by simp
  have lt2: "n2 < month_days (2013 + k) (Suc m) * 86400" using eq lt d by linarith
  have up: "days_before_month (2013 + k) (Suc m) \<le> days_before_month (2013 + k) 12" using m by (intro days_before_month_mono) simp
  then have lt1: "n1 < (if leap (2013 + k) then 366 else 365) * 86400" unfolding days_before_month_12 using eq lt2 by auto
  have n: "n < 0xBC191380" using assms(2) unfolding n_def .
  have bounds: "days_before_year (Suc k) * 86400 < 2 ^ 32" using days_before_year_bounds(2)[of "Suc k"] k by simp
  have dm: "days_before_month (2013 + k) (Suc m) \<le> 366" using up unfolding days_before_month_12 by (auto split: if_splits)
  have u: "unat (word_of_nat j :: u32) = j" if "j \<le> n" for j using that n by (simp add: unat_of_nat)
  have sub: "word_of_nat j - word_of_nat l = (word_of_nat (j - l) :: u32)" if "l \<le> j" for j l using that by (simp add: of_nat_diff)
  have 1: "gm_scan (\<lambda>i. Some (LeapYear (i + 2000) * DAY_SECOND + YEAR_SECOND)) (word_of_nat n) 13 0 0
      = Some (13 + int k + 1, word_of_nat (days_before_year k * 86400))"
  proof (rule gm_scan_finds[of "\<lambda>k. days_before_year k * 86400"])
    show "unat (word_of_nat n :: u32) < days_before_year (Suc k) * 86400" unfolding u[OF order_refl] using eq lt1 by auto
    show "days_before_year k * 86400 \<le> unat (word_of_nat n :: u32)" unfolding u[OF order_refl] using eq by simp
    show "Some (LeapYear (13 + int j + 2000) * DAY_SECOND + YEAR_SECOND)
        = Some (word_of_nat (days_before_year (Suc j) * 86400 - days_before_year j * 86400))" for j
      unfolding LeapYear_century by (simp add: algebra_simps)
  qed (use bounds in auto)
  have 2: "gm_scan (month_step (13 + int k)) (word_of_nat n1) 1 0 0
      = Some (1 + int m + 1, word_of_nat (days_before_month (2013 + k) m * 86400))"
  proof (rule gm_scan_finds[of "\<lambda>j. days_before_month (2013 + k) j * 86400"])
    show "month_step (13 + int k) (1 + int j)
        = Some (word_of_nat (days_before_month (2013 + k) (Suc j) * 86400 - days_before_month (2013 + k) j * 86400))" if "j \<le> m" for j
    proof -
      have "nat (1 + int j) = Suc j" "1 + int j = 2 \<longleftrightarrow> Suc j = 2" by auto
      then show ?thesis using that m unfolding month_step_def LeapYear_century by (simp add: Let_def month_days_def algebra_simps)
    qed
    have "unat (word_of_nat n1 :: u32) = n1" using u[of n1] eq(5) by simp
    then show "unat (word_of_nat n1 :: u32) < days_before_month (2013 + k) (Suc m) * 86400"
      "days_before_month (2013 + k) m * 86400 \<le> unat (word_of_nat n1 :: u32)" using eq lt2 by auto
  qed (use dm in auto)
  have same: "gm_scan (\<lambda>_. Some (word_of_nat w)) (word_of_nat j) a 0 0 = Some (a + int q + 1, word_of_nat (q * w))"
    if "j = q * w + r" "r < w" "j \<le> n" "w \<le> 86400" for w j a q r
  proof (rule gm_scan_finds[of "\<lambda>q. q * w"])
    show "q * w \<le> unat (word_of_nat j :: u32)" "unat (word_of_nat j :: u32) < Suc q * w" using u[OF that(3)] that by auto
    have "q * w \<le> n" using that by simp
    then show "Suc q * w < 2 ^ 32" using n that by simp
  qed (use that in auto)
  have 3: "gm_scan (\<lambda>_. Some DAY_SECOND) (word_of_nat n2) 1 0 0 = Some (1 + int d + 1, word_of_nat (d * 86400))"
    using same[of n2 d 86400 n3 1] eq lt by simp
  have 4: "gm_scan (\<lambda>_. Some HOUR_SECOND) (word_of_nat n3) 0 0 0 = Some (0 + int h + 1, word_of_nat (h * 3600))"
    using same[of n3 h 3600 n4 0] eq lt by simp
  have 5: "gm_scan (\<lambda>_. Some MIN_SECOND) (word_of_nat n4) 0 0 0 = Some (0 + int i + 1, word_of_nat (i * 60))"
    using same[of n4 i 60 x 0] eq x by simp
  have subs: "word_of_nat n - word_of_nat (days_before_year k * 86400) = (word_of_nat n1 :: u32)"
    "word_of_nat n1 - word_of_nat (days_before_month (2013 + k) m * 86400) = (word_of_nat n2 :: u32)"
    "word_of_nat n2 - word_of_nat (d * 86400) = (word_of_nat n3 :: u32)"
    "word_of_nat n3 - word_of_nat (h * 3600) = (word_of_nat n4 :: u32)"
    "word_of_nat n4 - word_of_nat (i * 60) = (word_of_nat x :: u32)"
    by (subst sub; use eq in simp)+
  have s8: "s8 (13 + int k + 1 - 1) = 13 + int k" "s8 (1 + int m + 1 - 1) = 1 + int m" "s8 (1 + int d + 1 - 1) = 1 + int d"
    "s8 (0 + int h + 1 - 1) = int h" "s8 (0 + int i + 1 - 1) = int i" "s8 (uint (word_of_nat x :: u32)) = int x"
    using k m md d h i x by (simp_all add: s8_id uint_nat u unat_of_nat)
  have lim: "(word_of_nat n :: u32) < 0xBC191380" using n u[of n] by (simp add: word_less_nat_alt)
  show ?thesis
    unfolding Gmtime_def n_def[symmetric] if_P[OF lim] 1 Option.bind.bind_lunit prod.case Let_def s8(1) subs(1) 2 s8(2) subs(2) 3 s8(3) subs(3)
      4 s8(4) subs(4) 5 s8(5) subs(5) s8(6) by (simp add: tt)
qed

subsection \<open>The range of the calendar\<close>

lemma days_before_year_mono: "j \<le> k \<Longrightarrow> days_before_year j \<le> days_before_year k"
  by (induction k) (auto simp: le_Suc_eq)

lemma seconds_less:
  assumes "date_upto (12 + int Y) tt"
  shows "seconds tt < days_before_year Y * 86400"
  using assms
proof (rule date_uptoE)
  fix k m d h i x
  assume k: "13 + int k \<le> 12 + int Y" and m: "m < 12" and d: "d < month_days (2013 + k) (Suc m)" and t: "h < 24" "i < 60" "x < 60"
    and s: "seconds tt = (days_before_year k + days_before_month (2013 + k) m + d) * 86400 + h * 3600 + i * 60 + x"
  have "days_before_month (2013 + k) (Suc m) \<le> days_before_month (2013 + k) 12" using m by (intro days_before_month_mono) simp
  moreover have "days_before_year (Suc k) = days_before_year k + days_before_month (2013 + k) 12"
    by (simp add: days_before_month_12)
  ultimately have "days_before_year k + days_before_month (2013 + k) m + d < days_before_year (Suc k)"
    using d by simp
  also have "\<dots> \<le> days_before_year Y" using k by (intro days_before_year_mono) linarith
  finally have "(days_before_year k + days_before_month (2013 + k) m + d) * 86400 + 86400 \<le> days_before_year Y * 86400" by simp
  then show ?thesis unfolding s using t by linarith
qed

lemma days_before_year_numeral:
  "days_before_year (numeral v) = days_before_year (pred_numeral v) + (if leap (2013 + pred_numeral v) then 366 else 365)"
  by (simp add: numeral_eq_Suc)

lemma days_2070: "days_before_year 58 = 21184" and days_2112: "days_before_year 100 = 36524"
  by (simp_all add: days_before_year_numeral leap_def)

lemma seconds_2070: "date_upto 70 tt \<Longrightarrow> seconds tt < 0x6D182000"
  using seconds_less[of 58 tt] unfolding days_2070 by simp

lemma seconds_2112: "date_upto 112 tt \<Longrightarrow> seconds tt < 0xBC17C200"
  using seconds_less[of 100 tt] unfolding days_2112 by simp

lemma counter_2112:
  assumes "counter < (0xBC17C200 :: u32)"
  obtains tt where "date_upto 112 tt" "seconds tt = unat counter" "year tt \<le> 70 \<longleftrightarrow> counter < 0x6D182000"
proof -
  have "unat counter < days_before_year 100 * 86400" using assms unfolding days_2112 by (simp add: word_less_nat_alt)
  then obtain tt where tt: "date_upto 112 tt" "seconds tt = unat counter" using date_of_seconds[of _ 100] by auto
  have "counter < 0x6D182000" if "year tt \<le> 70"
    using that tt seconds_2070[of tt] by (auto simp: date_upto_def word_less_nat_alt)
  moreover have "\<not> counter < 0x6D182000" if "\<not> year tt \<le> 70"
    using tt(1)
  proof (rule date_uptoE)
    fix k m d h i x
    assume k: "tt = \<lparr>year = 13 + int k, month = 1 + int m, day = 1 + int d, hour = int h, mins = int i, sec = int x\<rparr>"
      and s: "seconds tt = (days_before_year k + days_before_month (2013 + k) m + d) * 86400 + h * 3600 + i * 60 + x"
    have "days_before_year 58 \<le> days_before_year k" using that k by (intro days_before_year_mono) simp
    then have "21184 * 86400 \<le> seconds tt" unfolding s days_2070 by (simp add: algebra_simps)
    then show "\<not> counter < 0x6D182000" using tt(2) by (simp add: word_less_nat_alt)
  qed
  ultimately show thesis using that tt by blast
qed

lemma CheckTimeStruct_date:
  assumes "date_upto ymax tt"
  shows "CheckTimeStruct tt \<longleftrightarrow> year tt \<le> 70"
proof -
  have "month_days y (nat (month tt)) \<le> 31" for y using assms month_days_bounds[of "nat (month tt)" y] by (auto simp: date_upto_def nat_le_iff Suc_le_eq)
  from this[of "nat (year tt) + 2000"] show ?thesis using assms by (auto simp: CheckTimeStruct_def date_upto_def)
qed

end
