(* ===== verification/App_Timer.thy ===== *)
theory App_Timer
  imports RT_Prelude
begin

text \<open>
  The software timers of the application, \<open>src/User/Api/src/ApiTimer.c\<close>: two tables of six timers, counted by the
  interrupts of two hardware timers, every 10 ms and every second. The fields \<open>number\<close>, \<open>timeswitch\<close> and \<open>timerMode\<close>
  are the bit fields of 6, 1 and 1 bits the code declares. A callback is called by its number: \<open>call\<close> says
  whether it returns \<open>SUCCESS\<close> and what it does to the timers and to the rest of the application. The field \<open>msg\<close>,
  which nothing reads or writes, is left out.
\<close>

subsection \<open>The code\<close>

record STR_TIMER =
  number :: "6 word"
  timeswitch :: "1 word"
  timerMode :: "1 word"
  timeLen :: u16
  timeCount :: u16
  callback :: "nat option"

abbreviation MAX_TIMENUM :: nat where "MAX_TIMENUM \<equiv> 6"
abbreviation TIMER_MODE_ONCE :: u8 where "TIMER_MODE_ONCE \<equiv> 0"
abbreviation TIMER_MODE_CONTINUE :: u8 where "TIMER_MODE_CONTINUE \<equiv> 1"
abbreviation TIMER_MODE_STOP_WHEN_SUCCESS :: u8 where "TIMER_MODE_STOP_WHEN_SUCCESS \<equiv> 0xFF"

record timers =
  gTimeInf10ms :: "STR_TIMER list"
  gTimeInf1s :: "STR_TIMER list"

text \<open>The tables as \<open>TimerInit\<close> clears them.\<close>

definition TimerInit :: timers where
  "TimerInit = (let t = \<lparr>number = 0, timeswitch = 0, timerMode = 0, timeLen = 0, timeCount = 0, callback = None\<rparr>
     in \<lparr>gTimeInf10ms = replicate MAX_TIMENUM t, gTimeInf1s = replicate MAX_TIMENUM t\<rparr>)"

definition timer_start :: "u8 \<Rightarrow> u16 \<Rightarrow> u8 \<Rightarrow> nat option \<Rightarrow> STR_TIMER list \<Rightarrow> u8 \<times> STR_TIMER list" where
  "timer_start timeNumber len mode cb ts =
     (if unat timeNumber < MAX_TIMENUM \<and> len > 0
      then (0, ts[unat timeNumber := \<lparr>number = ucast timeNumber, timeswitch = 1, timerMode = ucast mode,
                    timeLen = len, timeCount = 0, callback = cb\<rparr>])
      else (1, ts))"

definition timer_close :: "u8 \<Rightarrow> STR_TIMER list \<Rightarrow> u8 \<times> STR_TIMER list" where
  "timer_close timeNumber ts =
     (if unat timeNumber < MAX_TIMENUM
      then (0, ts[unat timeNumber := (ts ! unat timeNumber)\<lparr>timeswitch := 0\<rparr>])
      else (1, ts))"

definition Timer10msStart :: "u8 \<Rightarrow> u16 \<Rightarrow> u8 \<Rightarrow> nat option \<Rightarrow> timers \<Rightarrow> u8 \<times> timers" where
  "Timer10msStart timeNumber len mode cb s =
     (let (r, ts) = timer_start timeNumber len mode cb (gTimeInf10ms s) in (r, s\<lparr>gTimeInf10ms := ts\<rparr>))"

definition RestartTime10ms :: "u8 \<Rightarrow> timers \<Rightarrow> u8 \<times> timers" where
  "RestartTime10ms timeNumber s =
     (if unat timeNumber < MAX_TIMENUM
      then (0, s\<lparr>gTimeInf10ms := (gTimeInf10ms s)[unat timeNumber :=
                 (gTimeInf10ms s ! unat timeNumber)\<lparr>timeswitch := 1, timeCount := 0\<rparr>]\<rparr>)
      else (1, s))"

definition CloseTime10ms :: "u8 \<Rightarrow> timers \<Rightarrow> u8 \<times> timers" where
  "CloseTime10ms timeNumber s = (let (r, ts) = timer_close timeNumber (gTimeInf10ms s) in (r, s\<lparr>gTimeInf10ms := ts\<rparr>))"

definition Timer1sStart :: "u8 \<Rightarrow> u16 \<Rightarrow> u8 \<Rightarrow> nat option \<Rightarrow> timers \<Rightarrow> u8 \<times> timers" where
  "Timer1sStart timeNumber len mode cb s =
     (let (r, ts) = timer_start timeNumber len mode cb (gTimeInf1s s) in (r, s\<lparr>gTimeInf1s := ts\<rparr>))"

definition CloseTime1s :: "u8 \<Rightarrow> timers \<Rightarrow> u8 \<times> timers" where
  "CloseTime1s timeNumber s = (let (r, ts) = timer_close timeNumber (gTimeInf1s s) in (r, s\<lparr>gTimeInf1s := ts\<rparr>))"

text \<open>One round of the loop of the two manage functions, on the table the functions \<open>tab\<close> and \<open>put\<close> read and write. The
  local \<open>err\<close> lives through the loop.\<close>

definition timer_round ::
  "(nat \<Rightarrow> timers \<times> 'w \<Rightarrow> bool \<times> timers \<times> 'w) \<Rightarrow> (timers \<Rightarrow> STR_TIMER list) \<Rightarrow> ((STR_TIMER list \<Rightarrow> STR_TIMER list) \<Rightarrow> timers \<Rightarrow> timers)
    \<Rightarrow> nat \<Rightarrow> bool \<times> timers \<times> 'w \<Rightarrow> bool \<times> timers \<times> 'w" where
  "timer_round call tab put i x =
     (let (err, s, w) = x;
          upd = (\<lambda>f s. put (\<lambda>ts. ts[i := f (ts ! i)]) s)
      in if timeswitch (tab s ! i) = 1 then
           let s1 = upd (\<lambda>t. t\<lparr>timeCount := timeCount t + 1\<rparr>) s
           in if timeCount (tab s1 ! i) \<ge> timeLen (tab s1 ! i) then
                let s2 = upd (\<lambda>t. t\<lparr>timeCount := 0\<rparr>) s1;
                    (err, s3, w3) = (case callback (tab s2 ! i) of None \<Rightarrow> (err, s2, w) | Some c \<Rightarrow> call c (s2, w))
                in if ucast (timerMode (tab s3 ! i)) = TIMER_MODE_ONCE
                     \<or> ucast (timerMode (tab s3 ! i)) = TIMER_MODE_STOP_WHEN_SUCCESS \<and> err
                   then (err, upd (\<lambda>t. t\<lparr>timeswitch := 0\<rparr>) s3, w3)
                   else (err, s3, w3)
              else (err, s1, w)
         else (err, s, w))"

definition TimerManage10ms :: "(nat \<Rightarrow> timers \<times> 'w \<Rightarrow> bool \<times> timers \<times> 'w) \<Rightarrow> timers \<times> 'w \<Rightarrow> timers \<times> 'w" where
  "TimerManage10ms call s = snd (fold (timer_round call gTimeInf10ms gTimeInf10ms_update) [0..<MAX_TIMENUM] (False, s))"

definition TimerManage1s :: "(nat \<Rightarrow> timers \<times> 'w \<Rightarrow> bool \<times> timers \<times> 'w) \<Rightarrow> timers \<times> 'w \<Rightarrow> timers \<times> 'w" where
  "TimerManage1s call s = snd (fold (timer_round call gTimeInf1s gTimeInf1s_update) [0..<MAX_TIMENUM] (False, s))"

subsection \<open>Callbacks that leave the timers alone\<close>

text \<open>A callback that is only noted: the world is the log of the calls. \<open>ok\<close> says which callbacks return \<open>SUCCESS\<close>.\<close>

definition noted :: "(nat \<Rightarrow> bool) \<Rightarrow> nat \<Rightarrow> timers \<times> nat list \<Rightarrow> bool \<times> timers \<times> nat list" where
  "noted ok c x = (ok c, fst x, snd x @ [c])"

text \<open>What one tick does to one timer, and the callbacks it calls.\<close>

definition timer_due :: "STR_TIMER \<Rightarrow> bool" where
  "timer_due t \<longleftrightarrow> timeswitch t = 1 \<and> timeCount t + 1 \<ge> timeLen t"

definition timer_next :: "STR_TIMER \<Rightarrow> STR_TIMER" where
  "timer_next t =
     (if timer_due t then (if timerMode t = 0 then t\<lparr>timeCount := 0, timeswitch := 0\<rparr> else t\<lparr>timeCount := 0\<rparr>)
      else if timeswitch t = 1 then t\<lparr>timeCount := timeCount t + 1\<rparr> else t)"

definition timer_calls :: "STR_TIMER \<Rightarrow> nat list" where
  "timer_calls t = (if timer_due t \<and> callback t \<noteq> None then [the (callback t)] else [])"

lemma bit_mode: "(ucast (m :: 1 word) :: u8) \<noteq> 0xFF" "(ucast (m :: 1 word) :: u8) = 0 \<longleftrightarrow> m = 0"
proof -
  have "m = 0 \<or> m = 1" using unsigned_less[of m, where 'a = nat] by (auto simp: word_unat_eq_iff less_2_cases_iff)
  then show "(ucast m :: u8) \<noteq> 0xFF" "(ucast m :: u8) = 0 \<longleftrightarrow> m = 0" by auto
qed

text \<open>Both tables obey the same laws of a field of a record, from which the behaviour of the manage functions follows.\<close>

locale timer_table =
  fixes tab :: "timers \<Rightarrow> STR_TIMER list" and put :: "(STR_TIMER list \<Rightarrow> STR_TIMER list) \<Rightarrow> timers \<Rightarrow> timers"
  assumes tab_put [simp]: "tab (put f s) = f (tab s)"
    and put_put [simp]: "put f (put g s) = put (\<lambda>ts. f (g ts)) s"
    and put_same: "f (tab s) = g (tab s) \<Longrightarrow> put f s = put g s"
    and put_id: "f (tab s) = tab s \<Longrightarrow> put f s = s"
begin

lemma round_noted:
  assumes "i < length (tab s)"
  shows "\<exists>err'. timer_round (noted ok) tab put i (err, s, log)
    = (err', put (\<lambda>ts. ts[i := timer_next (ts ! i)]) s, log @ timer_calls (tab s ! i))"
proof -
  have q: "s = put (\<lambda>ts. ts[i := timer_next (ts ! i)]) s" if "timer_next (tab s ! i) = tab s ! i"
    by (rule put_id[symmetric]) (simp add: that)
  let ?t = "tab s ! i"
  consider (off) "timeswitch ?t \<noteq> 1" | (early) "timeswitch ?t = 1" "\<not> timer_due ?t" | (due) "timer_due ?t" by blast
  then show ?thesis
  proof cases
    case off
    then have "timer_next ?t = ?t" "timer_calls ?t = []" by (simp_all add: timer_next_def timer_calls_def timer_due_def)
    with q off show ?thesis by (simp add: timer_round_def)
  next
    case early
    then show ?thesis using assms
      by (auto simp: timer_round_def timer_next_def timer_calls_def timer_due_def Let_def intro!: put_same)
  next
    case due
    then show ?thesis using assms
      by (auto simp: timer_round_def noted_def timer_next_def timer_calls_def timer_due_def bit_mode Let_def
          intro!: put_same split: option.splits)
  qed
qed

lemma loop_noted:
  "n \<le> length (tab s) \<Longrightarrow> \<exists>err'. fold (timer_round (noted ok) tab put) [0..<n] (err, s, log)
    = (err', put (\<lambda>ts. map timer_next (take n ts) @ drop n ts) s, log @ concat (map timer_calls (take n (tab s))))"
proof (induction n)
  case 0
  then show ?case by (simp add: put_id)
next
  case (Suc n)
  define s1 where "s1 = put (\<lambda>ts. map timer_next (take n ts) @ drop n ts) s"
  from Suc obtain e where e: "fold (timer_round (noted ok) tab put) [0..<n] (err, s, log)
    = (e, s1, log @ concat (map timer_calls (take n (tab s))))" unfolding s1_def by auto
  have t: "tab s1 = map timer_next (take n (tab s)) @ drop n (tab s)" by (simp add: s1_def)
  have n: "tab s1 ! n = tab s ! n" "n < length (tab s1)" using Suc.prems by (simp_all add: t nth_append)
  from round_noted[OF n(2), of ok e "log @ concat (map timer_calls (take n (tab s)))"] obtain e' where
    "timer_round (noted ok) tab put n (e, s1, log @ concat (map timer_calls (take n (tab s))))
      = (e', put (\<lambda>ts. ts[n := timer_next (ts ! n)]) s1, (log @ concat (map timer_calls (take n (tab s)))) @ timer_calls (tab s ! n))"
    unfolding n by blast
  moreover have "put (\<lambda>ts. ts[n := timer_next (ts ! n)]) s1 = put (\<lambda>ts. map timer_next (take (Suc n) ts) @ drop (Suc n) ts) s"
    unfolding s1_def put_put
    by (rule put_same) (use Suc.prems in \<open>simp add: list_update_append nth_append take_Suc_conv_app_nth flip: Cons_nth_drop_Suc\<close>)
  ultimately show ?case using e Suc.prems by (simp add: take_Suc_conv_app_nth)
qed

text \<open>A tick steps every timer of the table and notes the calls of those that are due, in their order.\<close>

lemma tick_noted:
  assumes "length (tab s) = MAX_TIMENUM"
  shows "snd (fold (timer_round (noted ok) tab put) [0..<MAX_TIMENUM] (False, s, log))
    = (put (map timer_next) s, log @ concat (map timer_calls (tab s)))"
proof -
  from loop_noted[of MAX_TIMENUM s ok False log] assms obtain e where
    "fold (timer_round (noted ok) tab put) [0..<MAX_TIMENUM] (False, s, log)
      = (e, put (\<lambda>ts. map timer_next (take MAX_TIMENUM ts) @ drop MAX_TIMENUM ts) s, log @ concat (map timer_calls (take MAX_TIMENUM (tab s))))"
    by auto
  moreover have "put (\<lambda>ts. map timer_next (take MAX_TIMENUM ts) @ drop MAX_TIMENUM ts) s = put (map timer_next) s"
    by (rule put_same) (simp add: assms)
  ultimately show ?thesis using assms by simp
qed

end

interpretation ms10: timer_table gTimeInf10ms gTimeInf10ms_update
  by unfold_locales (simp_all cong: timers.fold_congs)

interpretation s1: timer_table gTimeInf1s gTimeInf1s_update
  by unfold_locales (simp_all cong: timers.fold_congs)

subsection \<open>How often a timer fires\<close>

text \<open>The calls of callback \<open>c\<close> in \<open>n\<close> ticks of a table that only timer \<open>i\<close> calls it from.\<close>

primrec fires :: "STR_TIMER \<Rightarrow> nat \<Rightarrow> nat" where
  "fires t 0 = 0"
| "fires t (Suc n) = (if timer_due t then 1 else 0) + fires (timer_next t) n"

definition only_calls :: "nat \<Rightarrow> nat \<Rightarrow> STR_TIMER list \<Rightarrow> bool" where
  "only_calls i c ts \<longleftrightarrow> i < length ts \<and> callback (ts ! i) = Some c \<and> (\<forall>j<length ts. j \<noteq> i \<longrightarrow> callback (ts ! j) \<noteq> Some c)"

lemma timer_next_callback [simp]: "callback (timer_next t) = callback t"
  by (simp add: timer_next_def)

lemma only_calls_next: "only_calls i c ts \<Longrightarrow> only_calls i c (map timer_next ts)"
  by (simp add: only_calls_def)

lemma count_calls:
  assumes "only_calls i c ts"
  shows "count_list (concat (map timer_calls ts)) c = (if timer_due (ts ! i) then 1 else 0)"
proof -
  have one: "count_list (timer_calls (ts ! j)) c = (if j = i \<and> timer_due (ts ! i) then 1 else 0)" if "j < length ts" for j
  proof (cases "j = i")
    case True
    have "callback (ts ! i) = Some c" using assms unfolding only_calls_def by blast
    with True show ?thesis by (simp add: timer_calls_def)
  next
    case False
    then have "callback (ts ! j) \<noteq> Some c" using assms that unfolding only_calls_def by blast
    with False show ?thesis by (cases "callback (ts ! j)") (simp_all add: timer_calls_def)
  qed
  have "n \<le> length ts \<Longrightarrow> count_list (concat (map timer_calls (take n ts))) c = (if i < n \<and> timer_due (ts ! i) then 1 else 0)" for n
    by (induction n) (auto simp: take_Suc_conv_app_nth one less_Suc_eq)
  from this[of "length ts"] assms show ?thesis by (simp add: only_calls_def)
qed

lemma fires_stopped: "timeswitch t \<noteq> 1 \<Longrightarrow> fires t n = 0"
  by (induction n arbitrary: t) (simp_all add: timer_due_def timer_next_def)

lemma fires_once:
  assumes "timeswitch t = 1" "timerMode t = 0" "unat (timeCount t) + d = unat (timeLen t)" "d > 0"
  shows "fires t n = (if n \<ge> d then 1 else 0)"
  using assms
proof (induction n arbitrary: t d)
  case (Suc n)
  have c: "unat (timeCount t + 1) = unat (timeCount t) + 1"
    using Suc.prems unat_Suc_less[of "timeCount t" "timeLen t"] by (simp add: word_less_nat_alt)
  then have due: "timer_due t \<longleftrightarrow> d = 1" using Suc.prems by (auto simp: timer_due_def word_le_nat_alt)
  show ?case
  proof (cases "d = 1")
    case True
    then have "timer_due t" using due by simp
    then have "timeswitch (timer_next t) \<noteq> 1" using Suc.prems by (simp add: timer_next_def)
    with True \<open>timer_due t\<close> show ?thesis by (simp add: fires_stopped)
  next
    case False
    then have "fires (timer_next t) n = (if n \<ge> d - 1 then 1 else 0)"
      using Suc.prems due c by (intro Suc.IH) (simp_all add: timer_next_def)
    with False due Suc.prems show ?thesis by auto
  qed
qed simp

lemma fires_again:
  assumes "timeswitch t = 1" "timerMode t \<noteq> 0" "unat (timeCount t) = m" "m < unat (timeLen t)"
  shows "fires t n = (m + n) div unat (timeLen t)"
  using assms
proof (induction n arbitrary: t m)
  case (Suc n)
  have c: "unat (timeCount t + 1) = m + 1"
    using Suc.prems unat_Suc_less[of "timeCount t" "timeLen t"] by (simp add: word_less_nat_alt)
  then have due: "timer_due t \<longleftrightarrow> m + 1 = unat (timeLen t)" using Suc.prems by (auto simp: timer_due_def word_le_nat_alt)
  show ?case
  proof (cases "timer_due t")
    case True
    then have "fires (timer_next t) n = (0 + n) div unat (timeLen (timer_next t))"
      using Suc.prems by (intro Suc.IH) (simp_all add: timer_next_def)
    moreover have "m + Suc n = unat (timeLen t) + n" using True due by simp
    then have "(m + Suc n) div unat (timeLen t) = Suc (n div unat (timeLen t))"
      using Suc.prems(4) div_add_self1[of "unat (timeLen t)" n] by (metis Suc_eq_plus1 not_less0)
    moreover have "timeLen (timer_next t) = timeLen t" by (simp add: timer_next_def)
    ultimately show ?thesis using True by simp
  next
    case False
    then have "fires (timer_next t) n = (m + 1 + n) div unat (timeLen (timer_next t))"
      using Suc.prems due c by (intro Suc.IH) (simp_all add: timer_next_def)
    moreover have "timeLen (timer_next t) = timeLen t" by (simp add: timer_next_def)
    ultimately show ?thesis using False by simp
  qed
qed simp

context timer_table
begin

text \<open>The calls in a run of ticks, whatever was noted before.\<close>

lemma run_noted:
  assumes "length (tab s) = MAX_TIMENUM" "only_calls i c (tab s)"
  shows "count_list (snd (((\<lambda>x. snd (fold (timer_round (noted ok) tab put) [0..<MAX_TIMENUM] (False, x))) ^^ n) (s, log))) c
    = count_list log c + fires (tab s ! i) n"
  using assms
proof (induction n arbitrary: s log)
  case (Suc n)
  have i: "i < length (tab s)" using Suc.prems by (simp add: only_calls_def)
  show ?case
    unfolding funpow_Suc_right o_apply tick_noted[OF Suc.prems(1)]
    using Suc.IH[of "put (map timer_next) s"] Suc.prems i by (simp add: only_calls_next count_calls)
qed simp

end

text \<open>The calls a started timer makes: once, or again and again.\<close>

lemma TimerManage_noted:
  "TimerManage10ms (noted ok) = (\<lambda>x. snd (fold (timer_round (noted ok) gTimeInf10ms gTimeInf10ms_update) [0..<MAX_TIMENUM] (False, x)))"
  "TimerManage1s (noted ok) = (\<lambda>x. snd (fold (timer_round (noted ok) gTimeInf1s gTimeInf1s_update) [0..<MAX_TIMENUM] (False, x)))"
  by (rule ext, simp add: TimerManage10ms_def TimerManage1s_def)+

definition expected :: "u8 \<Rightarrow> nat \<Rightarrow> nat \<Rightarrow> nat" where
  "expected mode len n = (if even (unat mode) then (if n \<ge> len then 1 else 0) else n div len)"

lemma started_fires:
  assumes "len > 0"
  shows "fires \<lparr>number = nr, timeswitch = 1, timerMode = ucast mode, timeLen = len, timeCount = 0, callback = cb\<rparr> n
    = expected mode (unat len) n"
proof -
  have "(ucast mode :: 1 word) = word_of_nat (unat mode)" by simp
  then have m: "(ucast mode :: 1 word) = 0 \<longleftrightarrow> even (unat mode)" by (simp only: word_of_nat_eq_0_iff) simp
  have l: "unat len > 0" using assms by (simp add: word_less_nat_alt)
  show ?thesis
  proof (cases "even (unat mode)")
    case True
    then show ?thesis using l m by (subst fires_once[of _ "unat len"]) (simp_all add: expected_def)
  next
    case False
    then show ?thesis using l m by (subst fires_again[of _ 0]) (simp_all add: expected_def)
  qed
qed

context timer_table
begin

text \<open>The calls counted after \<open>n\<close> ticks that follow a start.\<close>

lemma start_noted:
  assumes l: "length (tab s) = MAX_TIMENUM" and i: "unat i < MAX_TIMENUM" and len: "len > 0"
    and o: "\<forall>j<MAX_TIMENUM. j \<noteq> unat i \<longrightarrow> callback (tab s ! j) \<noteq> Some c"
    and s': "tab s' = snd (timer_start i len mode (Some c) (tab s))"
  shows "count_list (snd (((\<lambda>x. snd (fold (timer_round (noted ok) tab put) [0..<MAX_TIMENUM] (False, x))) ^^ n) (s', []))) c
    = expected mode (unat len) n"
proof -
  define t where "t = \<lparr>number = ucast i, timeswitch = 1, timerMode = ucast mode, timeLen = len, timeCount = 0, callback = Some c\<rparr>"
  have tab: "tab s' = (tab s)[unat i := t]" using i len by (simp add: s' timer_start_def t_def)
  have "only_calls (unat i) c (tab s')" using l i o unfolding tab only_calls_def by (auto simp: t_def nth_list_update)
  moreover have "length (tab s') = MAX_TIMENUM" using l tab by simp
  moreover have "fires (tab s' ! unat i) n = expected mode (unat len) n"
    using started_fires[OF len] l i unfolding tab by (simp add: t_def)
  ultimately show ?thesis by (simp add: run_noted)
qed

end

lemma Timer10msStart_is:
  assumes "unat i < MAX_TIMENUM" "len > 0"
  shows "\<exists>s'. Timer10msStart i len mode cb s = (0, s') \<and> gTimeInf10ms s' = snd (timer_start i len mode cb (gTimeInf10ms s))"
  using assms by (simp add: Timer10msStart_def timer_start_def)

lemma Timer1sStart_is:
  assumes "unat i < MAX_TIMENUM" "len > 0"
  shows "\<exists>s'. Timer1sStart i len mode cb s = (0, s') \<and> gTimeInf1s s' = snd (timer_start i len mode cb (gTimeInf1s s))"
  using assms by (simp add: Timer1sStart_def timer_start_def)

lemma TimerInit_tables:
  "length (gTimeInf10ms TimerInit) = 6" "length (gTimeInf1s TimerInit) = 6"
  "j < 6 \<Longrightarrow> callback (gTimeInf10ms TimerInit ! j) = None" "j < 6 \<Longrightarrow> callback (gTimeInf1s TimerInit ! j) = None"
  by (simp_all add: TimerInit_def Let_def)

end
