(* ===== verification/App_Task.thy ===== *)
theory App_Task
  imports RT_Mailbox RT_Event RT_Clock
begin

text \<open>
  The task scheduler of the application, \<open>src/User/App/src/taskschedule.c\<close>, its idle hook in \<open>src/User/main.c\<close> and
  the watchdog thread of \<open>src/User/App/src/WDogManage.c\<close>. The idle hook looks for tasks that are due and mails
  their numbers to the task thread; the task thread runs a task for each mail and sets the task's flag in the watchdog's event;
  the watchdog thread feeds the watchdog when all the flags it waits for are set.

  A call that wakes a more urgent thread gives it the processor at once: \<open>others\<close> is what the other threads do to the
  system until the caller runs again. The tasks themselves are called by their names through \<open>handle\<close>, which says
  what they return and what they do to the system (\<open>None\<close>: the task does not return).
\<close>

subsection \<open>The code\<close>

datatype timer_op = LZM_PublicTimerTask | CommParam_TimeTask | CommTest5_TimeTask | Adc_CollectApp_TimeTask | TimerNopHandleTask
datatype ev_op = EvNopHandleTask | SendCanData_EvTask

text \<open>\<open>FunctionalState\<close> is \<open>True\<close> for \<open>ENABLE\<close>. An entry of the event table that has no initialiser has no handler.\<close>

record TIME_TASK =
  TaskTimerState :: bool
  TaskTimerCount :: u32
  TaskExTimer :: u32
  operate :: timer_op

record EVEN_TASK =
  evTaskOnState :: bool
  evOperate :: "ev_op option"

record tasks =
  MyTimerTask :: "TIME_TASK list"
  MyEvTask :: "EVEN_TASK list"
  task_mailBox :: "nat option"
  wdog_event :: "nat option"

type_synonym sys = "tasks \<times> kernel"

abbreviation MAX_TIMETASK :: nat where "MAX_TIMETASK \<equiv> 5"
abbreviation MAX_EVENTASK :: nat where "MAX_EVENTASK \<equiv> 12"
abbreviation WDOG_EVENT_FLAG :: u32 where "WDOG_EVENT_FLAG \<equiv> 0x1E"

definition initial_tasks :: tasks where
  "initial_tasks = \<lparr>MyTimerTask = [
      \<lparr>TaskTimerState = False, TaskTimerCount = 0, TaskExTimer = 10, operate = LZM_PublicTimerTask\<rparr>,
      \<lparr>TaskTimerState = False, TaskTimerCount = 0, TaskExTimer = 10, operate = CommParam_TimeTask\<rparr>,
      \<lparr>TaskTimerState = False, TaskTimerCount = 0, TaskExTimer = 10, operate = CommTest5_TimeTask\<rparr>,
      \<lparr>TaskTimerState = True, TaskTimerCount = 0, TaskExTimer = 2, operate = Adc_CollectApp_TimeTask\<rparr>,
      \<lparr>TaskTimerState = True, TaskTimerCount = 0, TaskExTimer = 100, operate = TimerNopHandleTask\<rparr>],
    MyEvTask = replicate 2 \<lparr>evTaskOnState = False, evOperate = Some EvNopHandleTask\<rparr>
      @ replicate 10 \<lparr>evTaskOnState = False, evOperate = None\<rparr>,
    task_mailBox = None, wdog_event = None\<rparr>"

definition upd_task :: "nat \<Rightarrow> (TIME_TASK \<Rightarrow> TIME_TASK) \<Rightarrow> tasks \<Rightarrow> tasks" where
  "upd_task i f s = s\<lparr>MyTimerTask := (MyTimerTask s)[i := f (MyTimerTask s ! i)]\<rparr>"

definition SetTimerTask :: "nat \<Rightarrow> u32 \<Rightarrow> sys \<Rightarrow> sys option" where
  "SetTimerTask task time x = (let (s, k) = x in
     if task < length (MyTimerTask s)
     then Some (upd_task task (\<lambda>t. t\<lparr>TaskTimerState := True, TaskExTimer := time, TaskTimerCount := time + rt_tick_get k\<rparr>) s, k)
     else None)"

definition ClrTimerTask :: "nat \<Rightarrow> sys \<Rightarrow> sys option" where
  "ClrTimerTask task x = (let (s, k) = x in
     if task < length (MyTimerTask s) then Some (upd_task task (\<lambda>t. t\<lparr>TaskTimerState := False\<rparr>) s, k) else None)"

definition task_due :: "u32 \<Rightarrow> TIME_TASK \<Rightarrow> bool" where
  "task_due nowtimer t \<longleftrightarrow> TaskTimerState t \<and> nowtimer \<ge> TaskTimerCount t"

definition timer_task_round :: "(sys \<Rightarrow> sys) \<Rightarrow> u32 \<Rightarrow> nat \<Rightarrow> sys \<Rightarrow> sys option" where
  "timer_task_round others nowtimer i x = (let (s, k) = x in
     if task_due nowtimer (MyTimerTask s ! i) then do {
       let s1 = upd_task i (\<lambda>t. t\<lparr>TaskTimerCount := nowtimer + TaskExTimer t\<rparr>) s;
       m \<leftarrow> task_mailBox s1;
       (_, k1) \<leftarrow> rt_mb_send m (word_of_nat i) k;
       Some (if current_thread k1 = current_thread k then (s1, k1) else others (s1, k1)) }
     else Some x)"

fun timer_task_loop :: "(sys \<Rightarrow> sys) \<Rightarrow> u32 \<Rightarrow> nat list \<Rightarrow> sys \<Rightarrow> sys option" where
  "timer_task_loop others nowtimer [] x = Some x"
| "timer_task_loop others nowtimer (i # is) x = do {
     x1 \<leftarrow> timer_task_round others nowtimer i x;
     timer_task_loop others nowtimer is x1 }"

definition TimerTaskScheduler :: "(sys \<Rightarrow> sys) \<Rightarrow> sys \<Rightarrow> sys option" where
  "TimerTaskScheduler others x = timer_task_loop others (rt_tick_get (snd x)) [0..<MAX_TIMETASK] x"

definition rt_thread_idle_hook :: "(sys \<Rightarrow> sys) \<Rightarrow> sys \<Rightarrow> sys option" where
  "rt_thread_idle_hook others x = (if task_mailBox (fst x) \<noteq> None then TimerTaskScheduler others x else Some x)"

definition InitEvTask :: "tasks \<Rightarrow> tasks" where
  "InitEvTask s = s\<lparr>MyEvTask := map (\<lambda>t. t\<lparr>evTaskOnState := False\<rparr>) (MyEvTask s)\<rparr>"

definition SetEvTask :: "u8 \<Rightarrow> tasks \<Rightarrow> tasks option" where
  "SetEvTask ev s =
     (if unat ev < length (MyEvTask s)
      then Some (s\<lparr>MyEvTask := (MyEvTask s)[unat ev := (MyEvTask s ! unat ev)\<lparr>evTaskOnState := True\<rparr>]\<rparr>)
      else None)"

text \<open>Both handlers that exist do nothing; an enabled entry without one is called through a null pointer.\<close>

definition ev_task_call :: "ev_op option \<Rightarrow> tasks \<Rightarrow> tasks option" where
  "ev_task_call f s = (case f of Some EvNopHandleTask \<Rightarrow> Some s | Some SendCanData_EvTask \<Rightarrow> Some s | None \<Rightarrow> None)"

fun ev_task_loop :: "nat list \<Rightarrow> tasks \<Rightarrow> tasks option" where
  "ev_task_loop [] s = Some s"
| "ev_task_loop (i # is) s =
     (if evTaskOnState (MyEvTask s ! i) then do {
        let s1 = s\<lparr>MyEvTask := (MyEvTask s)[i := (MyEvTask s ! i)\<lparr>evTaskOnState := False\<rparr>]\<rparr>;
        s2 \<leftarrow> ev_task_call (evOperate (MyEvTask s1 ! i)) s1;
        ev_task_loop is s2 }
      else ev_task_loop is s)"

definition EvTaskScheduler :: "tasks \<Rightarrow> tasks option" where
  "EvTaskScheduler s = ev_task_loop [0..<MAX_EVENTASK] s"

text \<open>\<open>TimerNopHandleTask\<close> is the one task whose code is here.\<close>

definition run_task :: "(timer_op \<Rightarrow> sys \<Rightarrow> (bool \<times> sys) option) \<Rightarrow> timer_op \<Rightarrow> sys \<Rightarrow> (bool \<times> sys) option" where
  "run_task handle p x = (if p = TimerNopHandleTask then Some (True, x) else handle p x)"

text \<open>What the task thread does with the result of \<open>rt_mb_recv\<close>, up to the send to the watchdog's event. \<open>mail\<close> is the local
  variable, with no value before the first mail.\<close>

definition task_schedule_mail ::
  "(timer_op \<Rightarrow> sys \<Rightarrow> (bool \<times> sys) option) \<Rightarrow> rt_err_t \<times> u32 option \<Rightarrow> u32 option \<Rightarrow> sys \<Rightarrow> (u32 option \<times> sys) option" where
  "task_schedule_mail handle res mail x = do {
     (mail, s, k) \<leftarrow>
       (if fst res = RT_EOK then do {
          v \<leftarrow> snd res;
          _ \<leftarrow> rt_assert (unat v < length (MyTimerTask (fst x)));
          (state, s, k) \<leftarrow> run_task handle (operate (MyTimerTask (fst x) ! unat v)) x;
          Some (Some v, upd_task (unat v) (\<lambda>t. t\<lparr>TaskTimerState := state\<rparr>) s, k) }
        else Some (mail, x));
     v \<leftarrow> mail;
     e \<leftarrow> wdog_event s;
     _ \<leftarrow> rt_assert (v < 31);
     (_, k1) \<leftarrow> rt_event_send e (push_bit (unat v) 1) k;
     Some (mail, s, k1) }"

text \<open>The rest of the task thread: it creates its mailbox, waits for a mail for ever, and yields after each mail.\<close>

definition task_schedule_start :: "nat option \<Rightarrow> u32 list option \<Rightarrow> sys \<Rightarrow> sys option" where
  "task_schedule_start block pool x = do {
     (m, k) \<leftarrow> rt_mb_create block pool ''task_mailbox'' (of_nat MAX_TIMETASK) RT_IPC_FLAG_FIFO (snd x);
     Some ((fst x)\<lparr>task_mailBox := m\<rparr>, k) }"

definition task_schedule_wait :: "sys \<Rightarrow> ((rt_err_t \<times> u32 option) outcome \<times> kernel) option" where
  "task_schedule_wait x = do { m \<leftarrow> task_mailBox (fst x); rt_mb_recv m (- 1) (snd x) }"

text \<open>The watchdog thread creates its event, and waits for all of its flags, which it takes when they are there, for ever.\<close>

definition watchDog_start :: "nat option \<Rightarrow> sys \<Rightarrow> sys option" where
  "watchDog_start block x = do {
     (e, k) \<leftarrow> rt_event_create block ''wdog_event'' RT_IPC_FLAG_FIFO (snd x);
     Some ((fst x)\<lparr>wdog_event := e\<rparr>, k) }"

definition watchDog_wait :: "sys \<Rightarrow> ((rt_err_t \<times> u32 option) outcome \<times> kernel) option" where
  "watchDog_wait x = do {
     e \<leftarrow> wdog_event (fst x);
     rt_event_recv e WDOG_EVENT_FLAG (RT_EVENT_FLAG_AND OR RT_EVENT_FLAG_CLEAR) (- 1) (snd x) }"

subsection \<open>The idle hook\<close>

lemma send_plain:
  assumes i: "kinv k" and mi: "mbx_inv k m" and no: "tlists k (Suspended (ObjMb m)) = []"
  obtains r k' where "rt_mb_send m v k = Some (r, k')" "kinv k'" "mbx_inv k' m" "tlists k' = tlists k"
    "current_thread k' = current_thread k" "mb_size (mailboxes k' m) = mb_size (mailboxes k m)"
    "box k' m = box k m @ (if length (box k m) < mb_cap (mailboxes k m) then [v] else [])"
proof (cases "mb_full (mailboxes k m)")
  case True
  then have "rt_mb_send m v k = Some (Ret (- RT_EFULL), k)" "\<not> length (box k m) < mb_cap (mailboxes k m)"
    using mi by (simp_all add: rt_mb_send_def rt_mb_send_wait_def mbx_inv_def mb_full_def mb_cap_def)
  with i mi show ?thesis by (intro that[of "Ret (- RT_EFULL)" k]) simp_all
next
  case False
  let ?k = "upd_mb m (mb_put v) k"
  have ok: "mb_ok (mailboxes k m)" using mi by (simp add: mbx_inv_def)
  have "rt_mb_send m v k = Some (Ret RT_EOK, ?k)"
    using False mi no by (simp add: rt_mb_send_def rt_mb_send_wait_def mb_send_round_def wake_one_def mbx_inv_def)
  moreover have "mbx_inv ?k m"
    using mi mb_put_ok(1)[OF ok False] by (simp add: mbx_inv_def waiters_clean_def rt_object_get_type_def)
  moreover have "length (box k m) < mb_cap (mailboxes k m)"
    using False mbq.within[OF ok] mbq.full_iff[OF ok] by simp
  ultimately show ?thesis using i mb_put_ok(2,3)[OF ok False] by (intro that[of "Ret RT_EOK" ?k]) simp_all
qed

definition task_rearm :: "u32 \<Rightarrow> TIME_TASK \<Rightarrow> TIME_TASK" where
  "task_rearm nowtimer t = (if task_due nowtimer t then t\<lparr>TaskTimerCount := nowtimer + TaskExTimer t\<rparr> else t)"

lemma upd_task_sel [simp]:
  "MyTimerTask (upd_task i f s) = (MyTimerTask s)[i := f (MyTimerTask s ! i)]" "task_mailBox (upd_task i f s) = task_mailBox s"
  "wdog_event (upd_task i f s) = wdog_event s"
  by (simp_all add: upd_task_def)

lemma take_room:
  "zs = xs @ (if length xs < n then [a] else []) \<Longrightarrow> zs @ take (n - length zs) ys = xs @ take (n - length xs) (a # ys)"
  by (cases "length xs < n") (simp_all add: take_Cons')

lemma timer_task_loop_posts:
  assumes "kinv k" "mbx_inv k m" "tlists k (Suspended (ObjMb m)) = []" "task_mailBox s = Some m"
    "distinct is" "set is \<subseteq> {0..<length (MyTimerTask s)}"
  shows "\<exists>k'. timer_task_loop others nowtimer is (s, k) = Some (fold (\<lambda>i. upd_task i (task_rearm nowtimer)) is s, k') \<and> kinv k' \<and> mbx_inv k' m
    \<and> box k' m = box k m @ take (mb_cap (mailboxes k m) - length (box k m))
        (map word_of_nat (filter (\<lambda>i. task_due nowtimer (MyTimerTask s ! i)) is))"
  using assms
proof (induction "is" arbitrary: s k)
  case (Cons i js)
  have i: "i < length (MyTimerTask s)" using Cons.prems by simp
  let ?s = "upd_task i (task_rearm nowtimer) s"
  have rest: "filter (\<lambda>j. task_due nowtimer (MyTimerTask ?s ! j)) js = filter (\<lambda>j. task_due nowtimer (MyTimerTask s ! j)) js"
    using Cons.prems by (intro filter_cong refl) (metis distinct.simps(2) nth_list_update_neq upd_task_sel(1))
  show ?case
  proof (cases "task_due nowtimer (MyTimerTask s ! i)")
    case False
    then have "task_rearm nowtimer (MyTimerTask s ! i) = MyTimerTask s ! i" by (simp add: task_rearm_def)
    then have s: "?s = s" by (simp add: upd_task_def)
    have "timer_task_round others nowtimer i (s, k) = Some (s, k)" using False by (simp add: timer_task_round_def)
    with Cons.IH[OF Cons.prems(1-4)] Cons.prems(5,6) False show ?thesis by (simp add: s)
  next
    case True
    from send_plain[OF Cons.prems(1-3), of "word_of_nat i"] obtain r k1 where
      k1: "rt_mb_send m (word_of_nat i) k = Some (r, k1)" "kinv k1" "mbx_inv k1 m" "tlists k1 = tlists k"
        "current_thread k1 = current_thread k" "mb_size (mailboxes k1 m) = mb_size (mailboxes k m)"
        "box k1 m = box k m @ (if length (box k m) < mb_cap (mailboxes k m) then [word_of_nat i] else [])" by blast
    have "timer_task_round others nowtimer i (s, k) = Some (?s, k1)"
      using True Cons.prems(4) k1(1,5) by (simp add: timer_task_round_def task_rearm_def upd_task_def)
    moreover from Cons.IH[of k1 ?s] Cons.prems k1 obtain k' where
      "timer_task_loop others nowtimer js (?s, k1) = Some (fold (\<lambda>i. upd_task i (task_rearm nowtimer)) js ?s, k')" "kinv k'" "mbx_inv k' m"
      "box k' m = box k1 m @ take (mb_cap (mailboxes k1 m) - length (box k1 m))
          (map word_of_nat (filter (\<lambda>j. task_due nowtimer (MyTimerTask ?s ! j)) js))" by auto
    moreover have "mb_cap (mailboxes k1 m) = mb_cap (mailboxes k m)" using k1(6) by (simp add: mb_cap_def)
    ultimately show ?thesis unfolding rest using True take_room[OF k1(7)] by (intro exI[of _ k']) simp
  qed
qed simp

lemma task_rearm_all: "fold (\<lambda>i. upd_task i (task_rearm nowtimer)) [0..<length (MyTimerTask s)] s
    = s\<lparr>MyTimerTask := map (task_rearm nowtimer) (MyTimerTask s)\<rparr>"
proof -
  have "n \<le> length (MyTimerTask s) \<Longrightarrow> fold (\<lambda>i. upd_task i (task_rearm nowtimer)) [0..<n] s
      = s\<lparr>MyTimerTask := map (task_rearm nowtimer) (take n (MyTimerTask s)) @ drop n (MyTimerTask s)\<rparr>" for n
  proof (induction n)
    case (Suc n)
    then show ?case
      by (simp add: upd_task_def list_update_append nth_append take_Suc_conv_app_nth flip: Cons_nth_drop_Suc)
  qed simp
  from this[OF order_refl] show ?thesis by simp
qed

subsection \<open>The watchdog\<close>

definition watchdog_waits :: "kernel \<Rightarrow> nat \<Rightarrow> tid \<Rightarrow> bool" where
  "watchdog_waits k e w \<longleftrightarrow> event_inv k e \<and> event_waiters k e = [w] \<and> th_event_set (threads k w) = WDOG_EVENT_FLAG
     \<and> th_event_info (threads k w) = RT_EVENT_FLAG_AND OR RT_EVENT_FLAG_CLEAR"

lemma watchdog_grants:
  assumes "watchdog_waits k e w"
  shows "grants (threads k) (event_waiters k e) flags =
    (if flags AND WDOG_EVENT_FLAG = WDOG_EVENT_FLAG then ([(w, WDOG_EVENT_FLAG)], flags AND NOT WDOG_EVENT_FLAG) else ([], flags))"
  using assms by (simp add: watchdog_waits_def event_grant_def and.commute)

lemma watchdog_send:
  assumes i: "kinv k" and w: "watchdog_waits k e w" and r: "thread_state k u = RT_THREAD_READY" and v: "v < 5"
  defines "flags \<equiv> ev_set (events k e) OR push_bit v 1"
  shows "\<exists>k'. rt_event_send e (push_bit v 1) k = Some (RT_EOK, k') \<and> kinv k'
    \<and> (if flags AND WDOG_EVENT_FLAG = WDOG_EVENT_FLAG
       then thread_state k' w = RT_THREAD_READY \<and> rt_event_recv_resume w k' = (RT_EOK, Some WDOG_EVENT_FLAG)
          \<and> event_waiters k' e = [] \<and> ev_set (events k' e) = flags AND NOT WDOG_EVENT_FLAG
       else watchdog_waits k' e w \<and> ev_set (events k' e) = flags)"
proof -
  have "(push_bit v 1 :: u32) \<noteq> 0" using v by (simp add: numeral_eq_Suc less_Suc_eq) auto
  from rt_event_send_grants[OF i _ this r, of e] w watchdog_grants[OF w]
  show ?thesis by (auto simp: watchdog_waits_def flags_def)
qed

end
