(* ===== verification/App_Theorems.thy ===== *)
theory App_Theorems
  imports App_Rtc App_Timer App_Task RT_Demo
begin

text \<open>
  Properties of the application: the clock's calendar.
\<close>

section \<open>The calendar\<close>

text \<open>C21. A date of the years 2013 to 2070 that exists is converted to the seconds it is after the start of 2013, and
  the counter is converted back to the same date, whatever the structure held before.\<close>

theorem rtc_date_roundtrip:
  assumes "date_upto 70 tt"
  shows "ConverseGmtime tt = Some (word_of_nat (seconds tt)) \<and> Gmtime tt0 (word_of_nat (seconds tt)) = Some tt \<and> CheckTimeStruct tt"
proof -
  have c: "date_upto 112 tt" using assms by (auto simp: date_upto_def)
  have "Gmtime tt0 (word_of_nat (seconds tt)) = Some tt" using Gmtime_is[OF c] seconds_2070[OF assms] by simp
  moreover have "CheckTimeStruct tt" using CheckTimeStruct_date[OF assms] assms by (simp add: date_upto_def)
  ultimately show ?thesis using ConverseGmtime_is[OF assms] by blast
qed

theorem rtc_date_roundtrip_witness:
  "ConverseGmtime \<lparr>year = 16, month = 2, day = 29, hour = 23, mins = 59, sec = 58\<rparr> = Some 99791998
   \<and> Gmtime \<lparr>year = 13, month = 1, day = 1, hour = 0, mins = 0, sec = 0\<rparr> 99791998
     = Some \<lparr>year = 16, month = 2, day = 29, hour = 23, mins = 59, sec = 58\<rparr>"
proof -
  let ?t = "\<lparr>year = 16, month = 2, day = 29, hour = 23, mins = 59, sec = 58\<rparr>"
  have "date_upto 70 ?t" by (simp add: date_upto_def month_days_def leap_def MonTab_def)
  moreover have "seconds ?t = 99791998"
    by (simp add: seconds_def days_before_year_numeral month_days_def leap_def MonTab_def)
  ultimately show ?thesis
    using rtc_date_roundtrip[of ?t "\<lparr>year = 13, month = 1, day = 1, hour = 0, mins = 0, sec = 0\<rparr>"] by simp
qed

text \<open>Every counter below the end of 2070 is converted to a date the application accepts, and the date is
  converted back to the counter.\<close>

theorem rtc_counter_roundtrip:
  assumes "counter < 0x6D182000"
  shows "\<exists>tt. Gmtime tt0 counter = Some tt \<and> ConverseGmtime tt = Some counter \<and> CheckTimeStruct tt \<and> date_upto 70 tt"
proof -
  from assms obtain tt where tt: "date_upto 112 tt" "seconds tt = unat counter" "year tt \<le> 70"
    using counter_2112[of counter] by (auto simp: word_less_nat_alt)
  then have d: "date_upto 70 tt" by (auto simp: date_upto_def)
  have "Gmtime tt0 counter = Some tt" using Gmtime_is[OF tt(1)] seconds_2112[OF tt(1)] tt(2) by simp
  moreover have "ConverseGmtime tt = Some counter" using ConverseGmtime_is[OF d] tt(2) by simp
  ultimately show ?thesis using CheckTimeStruct_date[OF tt(1)] d tt(3) by blast
qed

theorem rtc_counter_roundtrip_witness:
  "\<exists>tt. Gmtime \<lparr>year = 13, month = 1, day = 1, hour = 0, mins = 0, sec = 0\<rparr> 0x6D181FFF = Some tt \<and> ConverseGmtime tt = Some 0x6D181FFF
     \<and> CheckTimeStruct tt \<and> date_upto 70 tt"
  by (rule rtc_counter_roundtrip) simp

text \<open>\<open>Gmtime\<close> checks the counter against a limit its comment gives as the end of 2070, but the limit is 100 years:
  a counter of the years 2071 to 2112 is converted to a date the application's own check rejects, and which is
  converted back to the counter 0.\<close>

theorem rtc_limit_too_late:
  assumes "0x6D182000 \<le> counter" "counter < 0xBC17C200"
  shows "\<exists>tt. Gmtime tt0 counter = Some tt \<and> seconds tt = unat counter \<and> 70 < year tt \<and> \<not> CheckTimeStruct tt \<and> ConverseGmtime tt = Some 0"
proof -
  from assms obtain tt where tt: "date_upto 112 tt" "seconds tt = unat counter" "70 < year tt"
    using counter_2112[of counter] by (metis linorder_not_less)
  have "Gmtime tt0 counter = Some tt" using Gmtime_is[OF tt(1)] seconds_2112[OF tt(1)] tt(2) by simp
  moreover have "ConverseGmtime tt = Some 0" using tt(3) by (simp add: ConverseGmtime_def)
  ultimately show ?thesis using CheckTimeStruct_date[OF tt(1)] tt by auto
qed

theorem rtc_limit_too_late_witness:
  "\<exists>tt. Gmtime \<lparr>year = 13, month = 1, day = 1, hour = 0, mins = 0, sec = 0\<rparr> 0x6D182000 = Some tt \<and> seconds tt = unat (0x6D182000 :: u32)
     \<and> 70 < year tt \<and> \<not> CheckTimeStruct tt \<and> ConverseGmtime tt = Some 0"
  by (rule rtc_limit_too_late) simp_all

section \<open>The software timers\<close>

text \<open>A timer of the 10 ms table that is started with a length and a callback nothing else calls from calls it,
  in mode \<open>TIMER_MODE_ONCE\<close>, exactly once, at the tick that completes the length, and in mode \<open>TIMER_MODE_CONTINUE\<close>
  exactly once in every full length: whatever the timer held before, whatever the other timers do, and also for the
  longest length, at which the 16-bit count does not wrap.\<close>

theorem app_timer_fires:
  assumes "length (gTimeInf10ms s) = 6" "unat i < 6" "len > 0"
    "\<forall>j<6. j \<noteq> unat i \<longrightarrow> callback (gTimeInf10ms s ! j) \<noteq> Some c"
  shows "\<exists>once again. Timer10msStart i len TIMER_MODE_ONCE (Some c) s = (0, once)
    \<and> count_list (snd ((TimerManage10ms (noted ok) ^^ n) (once, []))) c = (if n < unat len then 0 else 1)
    \<and> Timer10msStart i len TIMER_MODE_CONTINUE (Some c) s = (0, again)
    \<and> count_list (snd ((TimerManage10ms (noted ok) ^^ n) (again, []))) c = n div unat len"
proof -
  from Timer10msStart_is[OF assms(2,3), of TIMER_MODE_ONCE "Some c" s] Timer10msStart_is[OF assms(2,3), of TIMER_MODE_CONTINUE "Some c" s]
  obtain once again where
    s: "Timer10msStart i len TIMER_MODE_ONCE (Some c) s = (0, once)"
      "gTimeInf10ms once = snd (timer_start i len TIMER_MODE_ONCE (Some c) (gTimeInf10ms s))"
      "Timer10msStart i len TIMER_MODE_CONTINUE (Some c) s = (0, again)"
      "gTimeInf10ms again = snd (timer_start i len TIMER_MODE_CONTINUE (Some c) (gTimeInf10ms s))" by blast
  show ?thesis
    using s(1,3) ms10.start_noted[OF assms s(2), where ok = ok and n = n] ms10.start_noted[OF assms s(4), where ok = ok and n = n]
    by (simp add: TimerManage_noted expected_def)
qed

theorem app_timer_fires_witness:
  "\<exists>once again. Timer10msStart 2 30 0 (Some 7) TimerInit = (0, once)
     \<and> count_list (snd ((TimerManage10ms (noted (\<lambda>_. True)) ^^ 95) (once, []))) 7 = 1
     \<and> Timer10msStart 2 30 1 (Some 7) TimerInit = (0, again)
     \<and> count_list (snd ((TimerManage10ms (noted (\<lambda>_. True)) ^^ 95) (again, []))) 7 = 3"
  using app_timer_fires[OF TimerInit_tables(1), of 2 30 7, where ok = "\<lambda>_. True" and n = 95] by (simp add: TimerInit_tables)

text \<open>The mode \<open>TIMER_MODE_STOP_WHEN_SUCCESS\<close> does not stop: the mode is stored in a field of one bit, so the
  value 255 becomes 1 and the comparison that would stop the timer never holds. A timer of the one-second table started
  in this mode calls its callback in every full length for ever, although the callback returns \<open>SUCCESS\<close> each time.\<close>

theorem app_timer_never_stops:
  assumes "length (gTimeInf1s s) = 6" "unat i < 6" "len > 0"
    "\<forall>j<6. j \<noteq> unat i \<longrightarrow> callback (gTimeInf1s s ! j) \<noteq> Some c" "ok c"
  shows "\<exists>s'. Timer1sStart i len TIMER_MODE_STOP_WHEN_SUCCESS (Some c) s = (0, s')
    \<and> count_list (snd ((TimerManage1s (noted ok) ^^ n) (s', []))) c = n div unat len"
proof -
  from Timer1sStart_is[OF assms(2,3), of TIMER_MODE_STOP_WHEN_SUCCESS "Some c" s] obtain s' where
    s: "Timer1sStart i len TIMER_MODE_STOP_WHEN_SUCCESS (Some c) s = (0, s')"
      "gTimeInf1s s' = snd (timer_start i len TIMER_MODE_STOP_WHEN_SUCCESS (Some c) (gTimeInf1s s))" by blast
  show ?thesis
    using s(1) s1.start_noted[OF assms(1-4) s(2), where ok = ok and n = n] by (simp add: TimerManage_noted expected_def)
qed

theorem app_timer_never_stops_witness:
  "\<exists>s'. Timer1sStart 0 10 0xFF (Some 3) TimerInit = (0, s')
     \<and> count_list (snd ((TimerManage1s (noted (\<lambda>_. True)) ^^ 100) (s', []))) 3 = 10"
  using app_timer_never_stops[OF TimerInit_tables(2), of 0 10 3, where ok = "\<lambda>_. True" and n = 100] by (simp add: TimerInit_tables)

section \<open>The task scheduler and the watchdog\<close>

text \<open>The idle hook mails the numbers of the tasks that are due, in the order of the table, and starts their next period
  at this tick; the other tasks stay as they are. What does not fit into the mailbox is lost: the task is re-armed
  although its mail was refused.\<close>

theorem task_scheduler_posts:
  assumes "kinv k" "mbx_inv k m" "tlists k (Suspended (ObjMb m)) = []" "task_mailBox s = Some m" "length (MyTimerTask s) = 5"
  shows "\<exists>k'. rt_thread_idle_hook others (s, k) = Some (s\<lparr>MyTimerTask := map (task_rearm (rt_tick_get k)) (MyTimerTask s)\<rparr>, k')
    \<and> kinv k' \<and> mbx_inv k' m
    \<and> box k' m = box k m @ take (mb_cap (mailboxes k m) - length (box k m))
        (map word_of_nat (filter (\<lambda>i. task_due (rt_tick_get k) (MyTimerTask s ! i)) [0..<5]))"
  using timer_task_loop_posts[OF assms(1-4), of "[0..<5]" others "rt_tick_get k"] task_rearm_all[of "rt_tick_get k" s] assms(4,5)
  by (auto simp: rt_thread_idle_hook_def TimerTaskScheduler_def)

theorem task_scheduler_posts_witness:
  "\<exists>k'. rt_thread_idle_hook id (initial_tasks\<lparr>task_mailBox := Some 0\<rparr>, demo (Suspended (ObjSem 0)))
      = Some (initial_tasks\<lparr>task_mailBox := Some 0, MyTimerTask := map (task_rearm 100) (MyTimerTask initial_tasks)\<rparr>, k')
     \<and> box k' 0 = [3, 4]"
proof -
  let ?k = "demo (Suspended (ObjSem 0))" and ?s = "initial_tasks\<lparr>task_mailBox := Some 0\<rparr>"
  have "mbx_inv ?k 0" by (simp add: mbx_inv_def waiters_clean_def mb_ok_def demo_def rt_object_get_type_def)
  moreover have "task_mailBox ?s = Some 0" "length (MyTimerTask ?s) = 5" "MyTimerTask ?s = MyTimerTask initial_tasks"
    by (simp_all add: initial_tasks_def)
  moreover have "filter (\<lambda>i. task_due 100 (MyTimerTask initial_tasks ! i)) [0..<5] = [3, 4]"
    by (simp add: initial_tasks_def task_due_def upt_rec)
  moreover have "rt_tick_get ?k = 100" "mb_cap (mailboxes ?k 0) = 4" "box ?k 0 = []"
    by (simp_all add: rt_tick_get_def mb_cap_def mails_def ring_window_def demo_def)
  ultimately show ?thesis
    using task_scheduler_posts[OF demo_kinv, of "Suspended (ObjSem 0)" 0 ?s id] by auto
qed

text \<open>A period that would end beyond the wrap of the tick is not waited for: a task set to run every \<open>p\<close> ticks is due in
  the very tick it is set in exactly when the tick plus \<open>p\<close> passes \<open>2 ^ 32\<close>, and otherwise in the ticks from \<open>p\<close> on.\<close>

theorem task_period_wraps:
  assumes "i < length (MyTimerTask s)" "p \<noteq> 0"
  shows "\<exists>s'. SetTimerTask i p (s, k) = Some (s', k)
    \<and> (task_due (rt_tick_get k) (MyTimerTask s' ! i) \<longleftrightarrow> unat (rt_tick_get k) + unat p \<ge> 2 ^ 32)
    \<and> (unat (rt_tick_get k) + unat p < 2 ^ 32 \<longrightarrow>
        (\<forall>now. task_due now (MyTimerTask s' ! i) \<longleftrightarrow> unat (rt_tick_get k) + unat p \<le> unat now))"
proof -
  let ?t = "rt_tick_get k"
  have p: "unat p > 0" using assms(2) by (simp add: unat_gt_0)
  have lt: "unat ?t < 2 ^ 32" "unat p < 2 ^ 32" using unsigned_less[of ?t] unsigned_less[of p] by simp_all
  have u: "unat (p + ?t) = (unat ?t + unat p) mod 2 ^ 32"
    unfolding unat_word_ariths(1) add.commute[of "unat p"] by simp
  define s' where "s' = upd_task i (\<lambda>t. t\<lparr>TaskTimerState := True, TaskExTimer := p, TaskTimerCount := p + ?t\<rparr>) s"
  have s': "SetTimerTask i p (s, k) = Some (s', k)" using assms(1) by (simp add: SetTimerTask_def s'_def)
  have d: "task_due now (MyTimerTask s' ! i) \<longleftrightarrow> unat (p + ?t) \<le> unat now" for now
    using assms(1) by (simp add: s'_def task_due_def word_le_nat_alt)
  have "unat (p + ?t) = (if unat ?t + unat p < 2 ^ 32 then unat ?t + unat p else unat ?t + unat p - 2 ^ 32)"
    unfolding u using lt by (simp only: mod_less le_mod_geq not_less if_split) (auto simp: le_mod_geq)
  then show ?thesis using s' d p lt by (intro exI[of _ s']) (auto split: if_splits)
qed

theorem task_period_wraps_witness:
  "\<exists>s'. SetTimerTask 1 10 (initial_tasks, (demo (Suspended (ObjSem 0)))\<lparr>tick := 0xFFFFFFFC\<rparr>)
      = Some (s', (demo (Suspended (ObjSem 0)))\<lparr>tick := 0xFFFFFFFC\<rparr>) \<and> task_due 0xFFFFFFFC (MyTimerTask s' ! 1)"
  using task_period_wraps[of 1 initial_tasks 10 "(demo (Suspended (ObjSem 0)))\<lparr>tick := 0xFFFFFFFC\<rparr>"]
  by (auto simp: initial_tasks_def rt_tick_get_def)




end
