(* ===== verification/RT_Completion.thy ===== *)
theory RT_Completion
  imports RT_Ipc
begin

text \<open>
  The completions of the driver framework, \<open>components/drivers/src/completion.c\<close>: a flag and a list with
  at most one waiter. \<open>rt_completion_wait\<close> is cut where it gives up the processor: \<open>Wait\<close> is returned
  there, and \<open>rt_completion_wait_resume\<close> is the rest of the call, when the thread runs again. The flag is
  the state of the completion itself; its waiters are in the kernel, on the list \<open>CompletionList\<close>.
\<close>

subsection \<open>Operations\<close>

abbreviation RT_COMPLETED :: u32 where "RT_COMPLETED \<equiv> 1"

abbreviation RT_UNCOMPLETED :: u32 where "RT_UNCOMPLETED \<equiv> 0"

record rt_completion =
  cp_flag :: u32

abbreviation cp_waiters :: "kernel \<Rightarrow> nat \<Rightarrow> tid list" where
  "cp_waiters k c \<equiv> tlists k (CompletionList c)"

definition rt_completion_init :: "nat \<Rightarrow> rt_completion \<Rightarrow> kernel \<Rightarrow> rt_completion \<times> kernel" where
  "rt_completion_init c cp k =
     (cp\<lparr>cp_flag := RT_UNCOMPLETED\<rparr>, k\<lparr>tlists := (tlists k)(CompletionList c := [])\<rparr>)"

definition rt_completion_wait ::
  "nat \<Rightarrow> int \<Rightarrow> rt_completion \<Rightarrow> kernel \<Rightarrow> (rt_err_t outcome \<times> rt_completion \<times> kernel) option" where
  "rt_completion_wait c timeout cp k =
     (if cp_flag cp \<noteq> RT_COMPLETED then do {
        _ \<leftarrow> rt_assert (cp_waiters k c = []);
        if timeout = 0 then Some (Ret (- RT_ETIMEOUT), cp, k)
        else do {
          t \<leftarrow> current_thread k;
          _ \<leftarrow> rt_assert (interrupt_nest k = 0);
          k1 \<leftarrow> block_on (CompletionList c) t RT_IPC_FLAG_FIFO timeout (clear_error t k);
          Some (Wait, cp, k1) } }
      else Some (Ret RT_EOK, cp\<lparr>cp_flag := RT_UNCOMPLETED\<rparr>, k))"

definition rt_completion_wait_resume :: "tid \<Rightarrow> rt_completion \<Rightarrow> kernel \<Rightarrow> rt_err_t \<times> rt_completion" where
  "rt_completion_wait_resume t cp k = (th_error (threads k t), cp\<lparr>cp_flag := RT_UNCOMPLETED\<rparr>)"

definition rt_completion_done :: "nat \<Rightarrow> rt_completion \<Rightarrow> kernel \<Rightarrow> (rt_completion \<times> kernel) option" where
  "rt_completion_done c cp k =
     (if cp_flag cp = RT_COMPLETED then Some (cp, k)
      else do {
        k1 \<leftarrow> wake_one (CompletionList c) k;
        Some (cp\<lparr>cp_flag := RT_COMPLETED\<rparr>, k1) })"

subsection \<open>What the calls do\<close>

text \<open>At most one thread waits, with no error recorded, and nobody waits for what has happened.\<close>

definition completion_inv :: "kernel \<Rightarrow> nat \<Rightarrow> rt_completion \<Rightarrow> bool" where
  "completion_inv k c cp \<longleftrightarrow> length (cp_waiters k c) \<le> 1 \<and> waiters_clean k (CompletionList c)
     \<and> (cp_flag cp = RT_COMPLETED \<longrightarrow> cp_waiters k c = [])"

lemma rt_completion_wait_done:
  assumes "cp_flag cp = RT_COMPLETED" "completion_inv k c cp"
  shows "rt_completion_wait c timeout cp k = Some (Ret RT_EOK, cp\<lparr>cp_flag := RT_UNCOMPLETED\<rparr>, k)"
    "completion_inv k c (cp\<lparr>cp_flag := RT_UNCOMPLETED\<rparr>)"
  using assms by (simp_all add: rt_completion_wait_def completion_inv_def)

lemma rt_completion_wait_blocks:
  assumes i: "kinv k" and f: "cp_flag cp \<noteq> RT_COMPLETED" and e: "cp_waiters k c = []"
    and c: "current_thread k = Some t" and r: "thread_state k t = RT_THREAD_READY"
    and ni: "interrupt_nest k = 0" and b: "timeout \<noteq> 0" "timeout < 0x7FFFFFFF"
    and o: "thread_state k u = RT_THREAD_READY" "u \<noteq> t"
  obtains k' where "rt_completion_wait c timeout cp k = Some (Wait, cp, k')" "kinv k'" "completion_inv k' c cp"
    "cp_waiters k' c = [t]" "thread_state k' t = RT_THREAD_SUSPEND" "th_error (threads k' t) = RT_EOK"
    "timeout > 0 \<Longrightarrow> ThreadTimer t \<in> set (timer_list k') \<and> due_in k' (ThreadTimer t) = Suc (nat timeout)"
    "timeout < 0 \<Longrightarrow> ThreadTimer t \<notin> set (timer_list k')"
    "lock_nest k = 0 \<Longrightarrow> \<exists>v. current_thread k' = Some v \<and> v \<noteq> t \<and> most_urgent k' v"
proof (rule block_on_waits[of "clear_error t k" t "CompletionList c" RT_IPC_FLAG_FIFO timeout u], goal_cases)
  case (9 k')
  note a = 9
  have er: "th_error (threads k' t) = RT_EOK" by (subst a(10)) simp
  have w: "cp_waiters k' c = [t]" using a(5) e by (simp add: wait_insert_def)
  then have "completion_inv k' c cp" using er f by (simp add: completion_inv_def waiters_clean_def)
  moreover have "rt_completion_wait c timeout cp k = Some (Wait, cp, k')"
    using f e b(1) c ni a(2) by (simp add: rt_completion_wait_def)
  ultimately show ?case by (intro that[of k']) (use a w er in simp_all)
qed (use clear_error_kinv[OF i] c r b o in simp_all)

lemma rt_completion_done_wakes:
  assumes i: "kinv k" and ci: "completion_inv k c cp"
  obtains k' where "rt_completion_done c cp k = Some (cp\<lparr>cp_flag := RT_COMPLETED\<rparr>, k')" "kinv k'"
    "completion_inv k' c (cp\<lparr>cp_flag := RT_COMPLETED\<rparr>)" "cp_waiters k' c = []"
    "\<And>t. t \<in> set (cp_waiters k c) \<Longrightarrow> thread_state k' t = RT_THREAD_READY \<and> ThreadTimer t \<notin> set (timer_list k')
        \<and> rt_completion_wait_resume t (cp\<lparr>cp_flag := RT_COMPLETED\<rparr>) k' = (RT_EOK, cp\<lparr>cp_flag := RT_UNCOMPLETED\<rparr>)"
    "\<And>t. t \<notin> set (cp_waiters k c) \<Longrightarrow> threads k' t = threads k t"
proof (cases "cp_flag cp = RT_COMPLETED")
  case True
  then have w: "cp_waiters k c = []" "cp\<lparr>cp_flag := RT_COMPLETED\<rparr> = cp" using ci by (simp_all add: completion_inv_def)
  show ?thesis by (rule that[of k], unfold w(2)) (use i ci True w(1) in \<open>simp_all add: rt_completion_done_def rt_completion_wait_resume_def\<close>)
next
  case False
  have le: "length (cp_waiters k c) \<le> 1" and cl: "waiters_clean k (CompletionList c)" using ci by (simp_all add: completion_inv_def)
  show ?thesis
  proof (rule wake_one_wakes[OF i wait_head_simps(5), of c], goal_cases)
    case (1 k')
    note a = 1
    have w: "cp_waiters k' c = []" using a(3) le by (cases "cp_waiters k c") simp_all
    have "rt_completion_done c cp k = Some (cp\<lparr>cp_flag := RT_COMPLETED\<rparr>, k')" using False a(1) by (simp add: rt_completion_done_def)
    moreover have "completion_inv k' c (cp\<lparr>cp_flag := RT_COMPLETED\<rparr>)" using w by (simp add: completion_inv_def waiters_clean_def)
    moreover have "thread_state k' t = RT_THREAD_READY \<and> ThreadTimer t \<notin> set (timer_list k')
        \<and> rt_completion_wait_resume t (cp\<lparr>cp_flag := RT_COMPLETED\<rparr>) k' = (RT_EOK, cp\<lparr>cp_flag := RT_UNCOMPLETED\<rparr>)"
      if t: "t \<in> set (cp_waiters k c)" for t
    proof -
      have "cp_waiters k c = [t]" using le t by (cases "cp_waiters k c") auto
      moreover have "th_error (threads k' t) = RT_EOK" using cl t a(7) by (simp add: waiters_clean_def)
      ultimately show ?thesis using a(5) by (simp add: rt_completion_wait_resume_def)
    qed
    moreover have "threads k' t = threads k t" if "t \<notin> set (cp_waiters k c)" for t
      by (rule a(6)) (use that in \<open>auto dest: in_set_takeD\<close>)
    ultimately show ?case using a(2) w by (rule_tac that[of k']) simp_all
  qed
qed

end
