(* ===== verification/RT_DataQueue.thy ===== *)
theory RT_DataQueue
  imports RT_Ipc RT_Fifo
begin

text \<open>
  The data queues of the driver framework, \<open>components/drivers/src/dataqueue.c\<close>: a ring of items between a
  free-running get and put index of 16 bits, with a list of threads that wait to push and one of threads that
  wait to pop. The indices are promoted to \<open>int\<close> where the code subtracts them. A push or pop is cut where it
  gives up the processor (\<open>Wait\<close>); \<open>rt_data_queue_push_resume\<close> and \<open>rt_data_queue_pop_resume\<close> go on
  from there, with the same timeout again. The callback \<open>evt_notify\<close> belongs to the driver: an operation
  returns the event it calls it with, and \<open>None\<close> when it does not call it.
\<close>

subsection \<open>Operations\<close>

abbreviation RT_DATAQUEUE_EVENT_POP :: u32 where "RT_DATAQUEUE_EVENT_POP \<equiv> 1"

abbreviation RT_DATAQUEUE_EVENT_PUSH :: u32 where "RT_DATAQUEUE_EVENT_PUSH \<equiv> 2"

abbreviation RT_DATAQUEUE_EVENT_LWM :: u32 where "RT_DATAQUEUE_EVENT_LWM \<equiv> 3"

record rt_data_item =
  data_ptr :: u32
  data_size :: u32

record rt_data_queue =
  dq_size :: u16
  dq_lwm :: u16
  dq_get :: u16
  dq_put :: u16
  dq_queue :: "rt_data_item list"
  dq_has_notify :: bool

text \<open>\<open>RT_DATAQUEUE_SIZE\<close>: the difference of the promoted indices.\<close>

definition dq_used :: "rt_data_queue \<Rightarrow> int" where
  "dq_used q = uint (dq_put q) - uint (dq_get q)"

definition dq_notify :: "u32 \<Rightarrow> rt_data_queue \<Rightarrow> u32 option" where
  "dq_notify event q = (if dq_has_notify q then Some event else None)"

text \<open>The memory of the items is allocated; \<open>None\<close> stands for a refused allocation.\<close>

definition rt_data_queue_init ::
  "nat \<Rightarrow> u16 \<Rightarrow> u16 \<Rightarrow> bool \<Rightarrow> rt_data_item list option \<Rightarrow> rt_data_queue \<Rightarrow> kernel \<Rightarrow> rt_err_t \<times> rt_data_queue \<times> kernel" where
  "rt_data_queue_init q sz lwm has_notify mem dq k =
     (let dq1 = dq\<lparr>dq_has_notify := has_notify, dq_size := sz, dq_lwm := lwm, dq_get := 0, dq_put := 0\<rparr>;
          k1 = k\<lparr>tlists := (tlists k)(PushList q := [], PopList q := [])\<rparr>
      in case mem of None \<Rightarrow> (- RT_ENOMEM, dq1\<lparr>dq_queue := []\<rparr>, k1)
       | Some items \<Rightarrow> (RT_EOK, dq1\<lparr>dq_queue := items\<rparr>, k1))"

definition dq_store :: "rt_data_item \<Rightarrow> rt_data_queue \<Rightarrow> rt_data_queue" where
  "dq_store x q = q\<lparr>dq_queue := (dq_queue q)[unat (dq_put q) mod unat (dq_size q) := x], dq_put := dq_put q + 1\<rparr>"

definition dq_front :: "rt_data_queue \<Rightarrow> rt_data_item" where
  "dq_front q = dq_queue q ! (unat (dq_get q) mod unat (dq_size q))"

definition dq_full :: "rt_data_queue \<Rightarrow> bool" where
  "dq_full q \<longleftrightarrow> dq_used q = uint (dq_size q)"

definition dq_empty :: "rt_data_queue \<Rightarrow> bool" where
  "dq_empty q \<longleftrightarrow> dq_get q = dq_put q"

text \<open>One round of the loop of a push, and what follows it.\<close>

definition rt_data_queue_push ::
  "nat \<Rightarrow> rt_data_item \<Rightarrow> int \<Rightarrow> rt_data_queue \<Rightarrow> kernel \<Rightarrow>
   (rt_err_t outcome \<times> u32 option \<times> rt_data_queue \<times> kernel) option" where
  "rt_data_queue_push q x timeout dq k =
     (if dq_full dq then
        if timeout = 0 then Some (Ret (- RT_ETIMEOUT), None, dq, k)
        else do {
          _ \<leftarrow> rt_assert (interrupt_nest k = 0);
          t \<leftarrow> current_thread k;
          k1 \<leftarrow> block_on (PushList q) t RT_IPC_FLAG_FIFO timeout (clear_error t k);
          Some (Wait, None, dq, k1) }
      else let dq1 = dq_store x dq in
        if tlists k (PopList q) \<noteq> [] then do {
          k1 \<leftarrow> wake_one (PopList q) k;
          Some (Ret RT_EOK, None, dq1, k1) }
        else Some (Ret RT_EOK, dq_notify RT_DATAQUEUE_EVENT_PUSH dq1, dq1, k))"

definition rt_data_queue_push_resume ::
  "nat \<Rightarrow> rt_data_item \<Rightarrow> int \<Rightarrow> tid \<Rightarrow> rt_data_queue \<Rightarrow> kernel \<Rightarrow>
   (rt_err_t outcome \<times> u32 option \<times> rt_data_queue \<times> kernel) option" where
  "rt_data_queue_push_resume q x timeout t dq k =
     (if th_error (threads k t) \<noteq> RT_EOK then Some (Ret (th_error (threads k t)), None, dq, k)
      else rt_data_queue_push q x timeout dq k)"

text \<open>A pop; below the low-water mark it wakes a pusher and tells the driver so.\<close>

definition rt_data_queue_pop ::
  "nat \<Rightarrow> int \<Rightarrow> rt_data_queue \<Rightarrow> kernel \<Rightarrow>
   ((rt_err_t \<times> rt_data_item option) outcome \<times> u32 option \<times> rt_data_queue \<times> kernel) option" where
  "rt_data_queue_pop q timeout dq k =
     (if dq_empty dq then
        if timeout = 0 then Some (Ret (- RT_ETIMEOUT, None), None, dq, k)
        else do {
          _ \<leftarrow> rt_assert (interrupt_nest k = 0);
          t \<leftarrow> current_thread k;
          k1 \<leftarrow> block_on (PopList q) t RT_IPC_FLAG_FIFO timeout (clear_error t k);
          Some (Wait, None, dq, k1) }
      else let x = dq_front dq; dq1 = dq\<lparr>dq_get := dq_get dq + 1\<rparr> in
        if dq_used dq1 \<le> uint (dq_lwm dq1) then do {
          k1 \<leftarrow> wake_one (PushList q) k;
          Some (Ret (RT_EOK, Some x), dq_notify RT_DATAQUEUE_EVENT_LWM dq1, dq1, k1) }
        else Some (Ret (RT_EOK, Some x), dq_notify RT_DATAQUEUE_EVENT_POP dq1, dq1, k))"

definition rt_data_queue_pop_resume ::
  "nat \<Rightarrow> int \<Rightarrow> tid \<Rightarrow> rt_data_queue \<Rightarrow> kernel \<Rightarrow>
   ((rt_err_t \<times> rt_data_item option) outcome \<times> u32 option \<times> rt_data_queue \<times> kernel) option" where
  "rt_data_queue_pop_resume q timeout t dq k =
     (if th_error (threads k t) \<noteq> RT_EOK then Some (Ret (th_error (threads k t), None), None, dq, k)
      else rt_data_queue_pop q timeout dq k)"

definition rt_data_queue_peak :: "rt_data_queue \<Rightarrow> rt_err_t \<times> rt_data_item option" where
  "rt_data_queue_peak dq = (if dq_empty dq then (- RT_EEMPTY, None) else (RT_EOK, Some (dq_front dq)))"

definition rt_data_queue_reset :: "nat \<Rightarrow> kernel \<Rightarrow> kernel option" where
  "rt_data_queue_reset q k = do {
     k1 \<leftarrow> rt_ipc_list_resume_all (PopList q) (rt_enter_critical k);
     k2 \<leftarrow> rt_ipc_list_resume_all (PushList q) k1;
     k3 \<leftarrow> rt_exit_critical k2;
     rt_schedule k3 }"

subsection \<open>The items\<close>

text \<open>As long as the put index has not passed the end of its 16 bits.\<close>

definition dq_ok :: "rt_data_queue \<Rightarrow> bool" where
  "dq_ok q \<longleftrightarrow> 0 < dq_size q \<and> length (dq_queue q) = unat (dq_size q) \<and> dq_get q \<le> dq_put q
     \<and> unat (dq_put q) - unat (dq_get q) \<le> unat (dq_size q)"

definition dq_items :: "rt_data_queue \<Rightarrow> rt_data_item list" where
  "dq_items q = ring_window (dq_queue q) (unat (dq_size q)) (unat (dq_get q)) (unat (dq_put q) - unat (dq_get q))"

lemma length_dq_items [simp]: "length (dq_items q) = unat (dq_put q) - unat (dq_get q)"
  by (simp add: dq_items_def)

lemma dq_used_ok: "dq_ok q \<Longrightarrow> dq_used q = int (length (dq_items q))"
  by (simp add: dq_ok_def dq_used_def word_le_nat_alt of_nat_diff)

lemma int_eq_iff_uint: "int n = uint (w :: u16) \<longleftrightarrow> n = unat w"
  by (metis nat_int of_nat_unat)

lemma dq_full_iff: "dq_ok q \<Longrightarrow> dq_full q \<longleftrightarrow> length (dq_items q) = unat (dq_size q)"
  by (simp only: dq_full_def dq_used_ok int_eq_iff_uint)

lemma dq_empty_iff: "dq_ok q \<Longrightarrow> dq_empty q \<longleftrightarrow> dq_items q = []"
  unfolding length_0_conv[symmetric] by (auto simp: dq_empty_def dq_ok_def word_le_nat_alt word_unat_eq_iff)

lemma unat_inc16: "w \<noteq> 0xFFFF \<Longrightarrow> unat (w + 1 :: u16) = unat w + 1"
  by (rule unat_Suc_less[of w "0xFFFF", simplified Suc_eq_plus1]) (use unsigned_less[of w, where ?'a = nat] in \<open>simp add: word_less_nat_alt word_unat_eq_iff\<close>)

lemma dq_store_ok:
  assumes ok: "dq_ok q" and nf: "\<not> dq_full q" and w: "dq_put q \<noteq> 0xFFFF"
  shows "dq_ok (dq_store x q)" "dq_items (dq_store x q) = dq_items q @ [x]"
proof -
  define n where "n = unat (dq_size q)"
  define a where "a = unat (dq_get q)"
  define e where "e = unat (dq_put q) - unat (dq_get q)"
  have p: "unat (dq_put q) = a + e" using ok by (simp add: dq_ok_def word_le_nat_alt a_def e_def)
  have p1: "unat (dq_put q + 1) = a + e + 1" using unat_inc16[OF w] p by simp
  have lt: "e < n" using ok nf dq_full_iff[OF ok] by (simp add: dq_ok_def e_def n_def)
  show "dq_ok (dq_store x q)"
    using ok p1 lt by (simp add: dq_ok_def dq_store_def word_le_nat_alt a_def e_def n_def)
  show "dq_items (dq_store x q) = dq_items q @ [x]"
    using ring_window_put[OF lt, of "dq_queue q" a x] ok p p1
    by (simp add: dq_items_def dq_store_def dq_ok_def a_def[symmetric] n_def[symmetric])
qed

lemma dq_take_ok:
  assumes ok: "dq_ok q" and ne: "\<not> dq_empty q"
  shows "dq_ok (q\<lparr>dq_get := dq_get q + 1\<rparr>)" "dq_items q = dq_front q # dq_items (q\<lparr>dq_get := dq_get q + 1\<rparr>)"
proof -
  define n where "n = unat (dq_size q)"
  define a where "a = unat (dq_get q)"
  define e where "e = unat (dq_put q) - unat (dq_get q)"
  have lt: "dq_get q < dq_put q" using ok ne by (auto simp: dq_ok_def dq_empty_def)
  then have e0: "0 < e" by (simp add: e_def word_less_nat_alt)
  have a1: "unat (dq_get q + 1) = a + 1" using unat_Suc_less[OF lt] by (simp add: a_def)
  have le: "unat (dq_put q) = a + e" using lt by (simp add: a_def e_def word_less_nat_alt)
  show "dq_ok (q\<lparr>dq_get := dq_get q + 1\<rparr>)"
    using ok a1 le e0 by (auto simp: dq_ok_def word_le_nat_alt a_def)
  show "dq_items q = dq_front q # dq_items (q\<lparr>dq_get := dq_get q + 1\<rparr>)"
    using ring_window_get[OF e0, of "dq_queue q" n a] a1 le
    by (simp add: dq_items_def dq_front_def ring_window_shift a_def[symmetric] n_def[symmetric])
qed

text \<open>Once the put index has passed the end of its 16 bits and the get index has not, no number of items
  makes the queue full.\<close>

lemma dq_wrapped_never_full: "dq_put q < dq_get q \<Longrightarrow> \<not> dq_full q"
  using unsigned_greater_eq[of "dq_size q", where ?'a = int] unfolding dq_full_def dq_used_def word_less_def by linarith

subsection \<open>What the calls do\<close>

definition data_queue_inv :: "kernel \<Rightarrow> nat \<Rightarrow> rt_data_queue \<Rightarrow> bool" where
  "data_queue_inv k q dq \<longleftrightarrow> dq_ok dq \<and> waiters_clean k (PushList q) \<and> waiters_clean k (PopList q)"

lemma data_queue_push_stores:
  assumes i: "kinv k" and di: "data_queue_inv k q dq" and nf: "\<not> dq_full dq" and w: "dq_put dq \<noteq> 0xFFFF"
  obtains ev k' where "rt_data_queue_push q x timeout dq k = Some (Ret RT_EOK, ev, dq_store x dq, k')" "kinv k'"
    "data_queue_inv k' q (dq_store x dq)" "dq_items (dq_store x dq) = dq_items dq @ [x]"
    "tlists k' (PopList q) = tl (tlists k (PopList q))" "tlists k' (PushList q) = tlists k (PushList q)"
    "\<And>t ts. tlists k (PopList q) = t # ts \<Longrightarrow> thread_state k' t = RT_THREAD_READY \<and> th_error (threads k' t) = RT_EOK"
    "\<And>s. s \<notin> set (take 1 (tlists k (PopList q))) \<Longrightarrow> threads k' s = threads k s"
    "ev = (if tlists k (PopList q) = [] then dq_notify RT_DATAQUEUE_EVENT_PUSH dq else None)"
proof -
  have ok: "dq_ok dq" and cl: "waiters_clean k (PushList q)" "waiters_clean k (PopList q)"
    using di by (simp_all add: data_queue_inv_def)
  note st = dq_store_ok[OF ok nf w, of x]
  let ?ev = "if tlists k (PopList q) = [] then dq_notify RT_DATAQUEUE_EVENT_PUSH dq else None"
  have nt: "dq_notify e (dq_store x dq) = dq_notify e dq" for e by (simp add: dq_notify_def dq_store_def)
  show ?thesis
  proof (rule wake_one_wakes[OF i wait_head_simps(7), of q], goal_cases)
    case (1 k')
    note a = 1
    have "waiters_clean k' (PushList q)" "waiters_clean k' (PopList q)" using cl a(3,4,7) by (auto elim!: waiters_clean_kept)
    then have "data_queue_inv k' q (dq_store x dq)" using st by (simp add: data_queue_inv_def)
    moreover have "rt_data_queue_push q x timeout dq k = Some (Ret RT_EOK, ?ev, dq_store x dq, k')"
      using nf a(1) by (cases "tlists k (PopList q) = []") (simp_all add: rt_data_queue_push_def Let_def nt wake_one_Nil)
    moreover have "th_error (threads k' t) = RT_EOK" if "tlists k (PopList q) = t # ts" for t ts
      using that cl a(7) by (simp add: waiters_clean_def)
    ultimately show ?case by (rule_tac that[of ?ev k']) (use a st in simp_all)
  qed
qed

lemma data_queue_pop_takes:
  assumes i: "kinv k" and di: "data_queue_inv k q dq" and ne: "\<not> dq_empty dq"
  defines "dq' \<equiv> dq\<lparr>dq_get := dq_get dq + 1\<rparr>"
  obtains ev k' where "rt_data_queue_pop q timeout dq k = Some (Ret (RT_EOK, Some (dq_front dq)), ev, dq', k')" "kinv k'"
    "data_queue_inv k' q dq'" "dq_items dq = dq_front dq # dq_items dq'"
    "tlists k' (PopList q) = tlists k (PopList q)"
    "tlists k' (PushList q) = (if length (dq_items dq') \<le> unat (dq_lwm dq) then tl (tlists k (PushList q)) else tlists k (PushList q))"
    "\<And>t ts. tlists k (PushList q) = t # ts \<Longrightarrow> length (dq_items dq') \<le> unat (dq_lwm dq) \<Longrightarrow>
        thread_state k' t = RT_THREAD_READY \<and> th_error (threads k' t) = RT_EOK"
    "ev = dq_notify (if length (dq_items dq') \<le> unat (dq_lwm dq) then RT_DATAQUEUE_EVENT_LWM else RT_DATAQUEUE_EVENT_POP) dq"
proof -
  have ok: "dq_ok dq" and cl: "waiters_clean k (PushList q)" "waiters_clean k (PopList q)"
    using di by (simp_all add: data_queue_inv_def)
  note tk = dq_take_ok[OF ok ne, folded dq'_def]
  have dq_lwm_kept: "dq_lwm dq' = dq_lwm dq" by (simp add: dq'_def)
  have nt: "dq_notify e dq' = dq_notify e dq" for e by (simp add: dq_notify_def dq'_def)
  have lw: "dq_used dq' \<le> uint (dq_lwm dq') \<longleftrightarrow> length (dq_items dq') \<le> unat (dq_lwm dq)"
    unfolding dq_used_ok[OF tk(1)] by (metis dq_lwm_kept of_nat_le_iff of_nat_unat)
  show ?thesis
  proof (cases "length (dq_items dq') \<le> unat (dq_lwm dq)")
    case False
    have "rt_data_queue_pop q timeout dq k
        = Some (Ret (RT_EOK, Some (dq_front dq)), dq_notify RT_DATAQUEUE_EVENT_POP dq, dq', k)"
      using ne False lw by (simp add: rt_data_queue_pop_def Let_def nt flip: dq'_def)
    moreover have "data_queue_inv k q dq'" using di tk by (simp add: data_queue_inv_def)
    ultimately show ?thesis by (rule_tac that[of _ k]) (use i tk False in simp_all)
  next
    case True
    show ?thesis
    proof (rule wake_one_wakes[OF i wait_head_simps(6), of q], goal_cases)
      case (1 k')
      note a = 1
      have "waiters_clean k' (PushList q)" "waiters_clean k' (PopList q)" using cl a(3,4,7) by (auto elim!: waiters_clean_kept)
      then have "data_queue_inv k' q dq'" using tk by (simp add: data_queue_inv_def)
      moreover have "rt_data_queue_pop q timeout dq k
          = Some (Ret (RT_EOK, Some (dq_front dq)), dq_notify RT_DATAQUEUE_EVENT_LWM dq, dq', k')"
        using ne True lw a(1) by (simp add: rt_data_queue_pop_def Let_def nt flip: dq'_def)
      moreover have "th_error (threads k' t) = RT_EOK" if "tlists k (PushList q) = t # ts" for t ts
        using that cl a(7) by (simp add: waiters_clean_def)
      ultimately show ?case by (rule_tac that[of _ k']) (use a tk True in simp_all)
    qed
  qed
qed

text \<open>A push to a full queue waits among the pushers, a pop of an empty one among the poppers; neither changes
  the items.\<close>

lemma data_queue_blocks:
  assumes i: "kinv k" and di: "data_queue_inv k q dq" and c: "current_thread k = Some t"
    and r: "thread_state k t = RT_THREAD_READY" and ni: "interrupt_nest k = 0" and b: "timeout \<noteq> 0" "timeout < 0x7FFFFFFF"
    and o: "thread_state k u = RT_THREAD_READY" "u \<noteq> t"
    and h: "h = PushList q \<and> dq_full dq \<or> h = PopList q \<and> dq_empty dq"
  obtains k' where "h = PushList q \<Longrightarrow> rt_data_queue_push q x timeout dq k = Some (Wait, None, dq, k')"
    "h = PopList q \<Longrightarrow> rt_data_queue_pop q timeout dq k = Some (Wait, None, dq, k')"
    "kinv k'" "data_queue_inv k' q dq" "thread_state k' t = RT_THREAD_SUSPEND" "tlists k' h = tlists k h @ [t]"
    "timeout > 0 \<Longrightarrow> ThreadTimer t \<in> set (timer_list k') \<and> due_in k' (ThreadTimer t) = Suc (nat timeout)"
    "timeout < 0 \<Longrightarrow> ThreadTimer t \<notin> set (timer_list k')"
    "lock_nest k = 0 \<Longrightarrow> \<exists>v. current_thread k' = Some v \<and> v \<noteq> t \<and> most_urgent k' v"
proof -
  have wh: "wait_head h" using h by auto
  have ce: "kinv (clear_error t k)" by (rule clear_error_kinv[OF i])
  show ?thesis
  proof (rule block_on_waits[OF ce, of t h RT_IPC_FLAG_FIFO timeout u], goal_cases)
    case (8 k')
    note a = 8
    have fl: "RT_IPC_FLAG_FIFO = RT_IPC_FLAG_FIFO \<or> RT_IPC_FLAG_FIFO = RT_IPC_FLAG_PRIO" by simp
    have e: "th_error (threads k' t) = RT_EOK" by (subst a(9)) simp
    have wck: "waiters_clean k' g" if g: "waiters_clean k g" for g
    proof (cases "g = h")
      case True
      have "waiters_clean (clear_error t k) h" using g True by (simp add: waiters_clean_def)
      then show ?thesis unfolding True by (rule waiters_clean_insert[OF _ fl a(4) e a(8)])
    next
      case False
      have "th_error (threads k' s) = RT_EOK" if s: "s \<in> set (tlists k' g)" for s
        using e a(8)[of s] s a(5)[OF False] g by (cases "s = t") (simp_all add: waiters_clean_def)
      then show ?thesis by (simp add: waiters_clean_def)
    qed
    have "data_queue_inv k' q dq" using di wck by (simp add: data_queue_inv_def)
    moreover have "h = PushList q \<Longrightarrow> rt_data_queue_push q x timeout dq k = Some (Wait, None, dq, k')"
      using h c ni b(1) a(1) by (auto simp: rt_data_queue_push_def)
    moreover have "h = PopList q \<Longrightarrow> rt_data_queue_pop q timeout dq k = Some (Wait, None, dq, k')"
      using h c ni b(1) a(1) by (auto simp: rt_data_queue_pop_def)
    ultimately show ?case by (rule_tac that[of k']) (use a in \<open>simp_all add: wait_insert_def\<close>)
  qed (use c r wh b o in simp_all)
qed

text \<open>A reset wakes everybody with \<open>-RT_ERROR\<close>; the items stay.\<close>

lemma data_queue_reset_wakes:
  assumes i: "kinv k" and r: "thread_state k u = RT_THREAD_READY"
  obtains k' where "rt_data_queue_reset q k = Some k'" "kinv k'" "tlists k' (PushList q) = []" "tlists k' (PopList q) = []"
    "\<And>t. t \<in> set (tlists k (PushList q)) \<union> set (tlists k (PopList q)) \<Longrightarrow>
        thread_state k' t = RT_THREAD_READY \<and> th_error (threads k' t) = - RT_ERROR"
    "\<And>t. t \<notin> set (tlists k (PushList q)) \<union> set (tlists k (PopList q)) \<Longrightarrow> threads k' t = threads k t"
proof -
  let ?e = "rt_enter_critical k"
  have e: "kinv ?e" using i by simp
  from resume_all_wakes[OF e wait_head_simps(7), of q] obtain k1 where
    k1: "rt_ipc_list_resume_all (PopList q) ?e = Some k1" "kinv k1" "tlists k1 (PopList q) = []"
    "\<And>t. if t \<in> set (tlists ?e (PopList q))
          then thread_state k1 t = RT_THREAD_READY \<and> th_error (threads k1 t) = - RT_ERROR
            \<and> th_current_priority (threads k1 t) = th_current_priority (threads ?e t)
          else threads k1 t = threads ?e t"
    "\<And>g. wait_head g \<Longrightarrow> g \<noteq> PopList q \<Longrightarrow> tlists k1 g = tlists ?e g" by blast
  from resume_all_wakes[OF k1(2) wait_head_simps(6), of q] obtain k2 where
    k2: "rt_ipc_list_resume_all (PushList q) k1 = Some k2" "kinv k2" "tlists k2 (PushList q) = []"
    "\<And>t. if t \<in> set (tlists k1 (PushList q))
          then thread_state k2 t = RT_THREAD_READY \<and> th_error (threads k2 t) = - RT_ERROR
            \<and> th_current_priority (threads k2 t) = th_current_priority (threads k1 t)
          else threads k2 t = threads k1 t"
    "\<And>g. wait_head g \<Longrightarrow> g \<noteq> PushList q \<Longrightarrow> tlists k2 g = tlists k1 g" by blast
  have p1: "tlists k1 (PushList q) = tlists k (PushList q)" using k1(5)[of "PushList q"] by simp
  have p2: "tlists k2 (PopList q) = []" using k2(5)[of "PopList q"] k1(3) by simp
  have "thread_state k1 u = RT_THREAD_READY"
    using k1(4)[of u] r by (cases "u \<in> set (tlists k (PopList q))") (simp_all add: thread_state_def)
  then have ru: "thread_state k2 u = RT_THREAD_READY"
    using k2(4)[of u] by (cases "u \<in> set (tlists k1 (PushList q))") (simp_all add: thread_state_def)
  obtain k3 where k3: "rt_exit_critical k2 = Some k3" "kinv k3" "threads k3 = threads k2" "tlists k3 = tlists k2"
    by (rule rt_exit_critical_returns[OF k2(2) ru])
  have "thread_state k3 u = RT_THREAD_READY" using ru k3(3) by (simp add: thread_state_def)
  from rt_schedule_some[OF kinvD(1)[OF k3(2)] this] obtain k' where sc: "rt_schedule k3 = Some k'" by blast
  note f = rt_schedule_frame[OF sc]
  have run: "rt_data_queue_reset q k = Some k'" using k1(1) k2(1) k3(1) sc by (simp add: rt_data_queue_reset_def)
  have woken: "thread_state k' t = RT_THREAD_READY \<and> th_error (threads k' t) = - RT_ERROR"
    if "t \<in> set (tlists k (PushList q)) \<union> set (tlists k (PopList q))" for t
    using that k1(4)[of t] k2(4)[of t] p1 f k3 by (cases "t \<in> set (tlists k (PushList q))") (simp_all add: thread_state_def)
  have others: "threads k' t = threads k t" if "t \<notin> set (tlists k (PushList q)) \<union> set (tlists k (PopList q))" for t
    using that k1(4)[of t] k2(4)[of t] p1 f k3 by simp
  show ?thesis
    by (rule that[OF run kinv_schedule[OF sc k3(2)] _ _ woken others]) (use f k3 k2(3) p2 in simp_all)
qed

end
