(* ===== verification/RT_WorkQueue.thy ===== *)
theory RT_WorkQueue
  imports RT_Sem
begin

text \<open>
  The work queues of the driver framework, \<open>components/drivers/src/workqueue.c\<close>: a list of works, the work
  being done, a worker thread and a semaphore on which \<open>rt_workqueue_cancel_work_sync\<close> waits for the end of
  the current work. A work is a number; its function belongs to the driver and is a parameter of the worker.
  The worker thread is cut where another thread may run in between: after it has looked at the empty
  list (\<open>worker_sees_empty\<close>), where it is suspended (\<open>worker_suspends\<close>) and before it takes a work
  (\<open>worker_takes\<close>).
\<close>

subsection \<open>Operations\<close>

record rt_workqueue =
  wq_list :: "nat list"
  wq_current :: "nat option"
  wq_sem :: nat
  wq_thread :: tid

text \<open>The loop of \<open>_workqueue_work_completion\<close>: a semaphore that is not available is released and tried
  again.\<close>

partial_function (option) work_completion_loop :: "nat \<Rightarrow> kernel \<Rightarrow> (rt_err_t \<times> kernel) option" where
  "work_completion_loop s k = do {
     (r, k1) \<leftarrow> rt_sem_trytake s k;
     if r = Ret (- RT_ETIMEOUT) then do { k2 \<leftarrow> rt_sem_release s k1; work_completion_loop s k2 }
     else if r = Ret RT_EOK then Some (RT_EOK, k1)
     else Some (- RT_ERROR, k1) }"

definition workqueue_work_completion :: "nat \<Rightarrow> kernel \<Rightarrow> (rt_err_t \<times> kernel) option" where
  "workqueue_work_completion s k = do {
     (r, k1) \<leftarrow> work_completion_loop s (rt_enter_critical k);
     k2 \<leftarrow> rt_exit_critical k1;
     Some (r, k2) }"

definition worker_sees_empty :: "rt_workqueue \<Rightarrow> bool" where
  "worker_sees_empty wq \<longleftrightarrow> wq_list wq = []"

definition worker_suspends :: "kernel \<Rightarrow> kernel option" where
  "worker_suspends k = do {
     t \<leftarrow> current_thread k;
     (_, k1) \<leftarrow> rt_thread_suspend t k;
     rt_schedule k1 }"

text \<open>The first entry of the list is taken to be a work without another look: with an empty list it is the
  list head, and the function called is whatever lies behind it.\<close>

definition worker_takes :: "rt_workqueue \<Rightarrow> (nat \<times> rt_workqueue) option" where
  "worker_takes wq = (case wq_list wq of [] \<Rightarrow> None | w # ws \<Rightarrow> Some (w, wq\<lparr>wq_list := ws, wq_current := Some w\<rparr>))"

definition worker_finishes :: "rt_workqueue \<Rightarrow> kernel \<Rightarrow> (rt_workqueue \<times> kernel) option" where
  "worker_finishes wq k = do {
     let wq1 = wq\<lparr>wq_current := None\<rparr>;
     (_, k1) \<leftarrow> workqueue_work_completion (wq_sem wq1) k;
     Some (wq1, k1) }"

text \<open>One turn of the worker's loop that does not have to wait: \<open>run\<close> is the function of the work.\<close>

definition workqueue_thread_entry ::
  "(nat \<Rightarrow> rt_workqueue \<Rightarrow> kernel \<Rightarrow> (rt_workqueue \<times> kernel) option) \<Rightarrow> rt_workqueue \<Rightarrow> kernel \<Rightarrow>
   (unit outcome \<times> rt_workqueue \<times> kernel) option" where
  "workqueue_thread_entry run wq k =
     (if worker_sees_empty wq then do { k1 \<leftarrow> worker_suspends k; Some (Wait, wq, k1) }
      else do {
        (w, wq1) \<leftarrow> worker_takes wq;
        (wq2, k1) \<leftarrow> run w wq1 k;
        (wq3, k2) \<leftarrow> worker_finishes wq2 k1;
        Some (Ret (), wq3, k2) })"

text \<open>The three allocations (the work queue, the thread and its stack) are parameters; \<open>sem\<close> is the
  semaphore inside the work queue and \<open>entry\<close> the address of the worker's function.\<close>

definition rt_workqueue_create ::
  "bool \<Rightarrow> nat \<Rightarrow> tid option \<Rightarrow> nat option \<Rightarrow> nat \<Rightarrow> nat \<Rightarrow> string \<Rightarrow> u16 \<Rightarrow> u8 \<Rightarrow> kernel \<Rightarrow> (rt_workqueue option \<times> kernel) option" where
  "rt_workqueue_create block sem thread stack entry self name stack_size priority k =
     (if \<not> block then Some (None, k)
      else do {
        k1 \<leftarrow> rt_sem_init sem ''wqueue'' 0 RT_IPC_FLAG_FIFO k;
        (r, k2) \<leftarrow> rt_thread_create thread stack name entry self (ucast stack_size) priority 10 k1;
        case r of
          None \<Rightarrow> Some (None, k2)
        | Some t \<Rightarrow> do {
            k3 \<leftarrow> rt_thread_startup t k2;
            Some (Some \<lparr>wq_list = [], wq_current = None, wq_sem = sem, wq_thread = t\<rparr>, k3) } })"

definition rt_workqueue_destroy :: "rt_workqueue \<Rightarrow> kernel \<Rightarrow> (rt_err_t \<times> kernel) option" where
  "rt_workqueue_destroy wq k = do { k1 \<leftarrow> rt_thread_delete (wq_thread wq) k; Some (RT_EOK, k1) }"

text \<open>Both entry points put the work last.\<close>

definition rt_workqueue_dowork :: "nat \<Rightarrow> rt_workqueue \<Rightarrow> kernel \<Rightarrow> (rt_err_t \<times> rt_workqueue \<times> kernel) option" where
  "rt_workqueue_dowork w wq k =
     (if wq_current wq = Some w then Some (- RT_EBUSY, wq, k)
      else let wq1 = wq\<lparr>wq_list := removeAll w (wq_list wq) @ [w]\<rparr> in
        if wq_current wq1 = None then do {
          (_, k1) \<leftarrow> rt_thread_resume (wq_thread wq1) k;
          k2 \<leftarrow> rt_schedule k1;
          Some (RT_EOK, wq1, k2) }
        else Some (RT_EOK, wq1, k))"

definition rt_workqueue_critical_work :: "nat \<Rightarrow> rt_workqueue \<Rightarrow> kernel \<Rightarrow> (rt_err_t \<times> rt_workqueue \<times> kernel) option" where
  "rt_workqueue_critical_work w wq k =
     (if wq_current wq = Some w then Some (- RT_EBUSY, wq, k)
      else let wq1 = wq\<lparr>wq_list := removeAll w (wq_list wq) @ [w]\<rparr> in
        if wq_current wq1 = None then do {
          (_, k1) \<leftarrow> rt_thread_resume (wq_thread wq1) k;
          k2 \<leftarrow> rt_schedule k1;
          Some (RT_EOK, wq1, k2) }
        else Some (RT_EOK, wq1, k))"

definition rt_workqueue_cancel_work :: "nat \<Rightarrow> rt_workqueue \<Rightarrow> rt_err_t \<times> rt_workqueue" where
  "rt_workqueue_cancel_work w wq =
     (if wq_current wq = Some w then (- RT_EBUSY, wq)
      else (RT_EOK, wq\<lparr>wq_list := removeAll w (wq_list wq)\<rparr>))"

text \<open>The result of the wait is not looked at: \<open>Wait\<close> means that the caller waits for the work to end, and
  returns \<open>RT_EOK\<close> after that.\<close>

definition rt_workqueue_cancel_work_sync ::
  "nat \<Rightarrow> rt_workqueue \<Rightarrow> kernel \<Rightarrow> (rt_err_t outcome \<times> rt_workqueue \<times> kernel) option" where
  "rt_workqueue_cancel_work_sync w wq k =
     (if wq_current wq = Some w then do {
        (r, k1) \<leftarrow> rt_sem_take (wq_sem wq) (-1) k;
        Some (case r of Wait \<Rightarrow> Wait | Ret _ \<Rightarrow> Ret RT_EOK, wq, k1) }
      else Some (Ret RT_EOK, wq\<lparr>wq_list := removeAll w (wq_list wq)\<rparr>, k))"

definition rt_workqueue_cancel_all_work :: "rt_workqueue \<Rightarrow> kernel \<Rightarrow> (rt_err_t \<times> rt_workqueue \<times> kernel) option" where
  "rt_workqueue_cancel_all_work wq k = do {
     k1 \<leftarrow> rt_exit_critical (rt_enter_critical k);
     Some (RT_EOK, wq\<lparr>wq_list := []\<rparr>, k1) }"

subsection \<open>The list of works\<close>

text \<open>No work is on the list twice, and the current work is not on it.\<close>

definition works_ok :: "rt_workqueue \<Rightarrow> bool" where
  "works_ok wq \<longleftrightarrow> distinct (wq_list wq) \<and> (\<forall>w. wq_current wq = Some w \<longrightarrow> w \<notin> set (wq_list wq))"

lemma works_ok_kept:
  assumes ok: "works_ok wq"
  shows "rt_workqueue_dowork w wq k = Some (r, wq', k') \<Longrightarrow> works_ok wq'"
    "rt_workqueue_cancel_work w wq = (r, wq') \<Longrightarrow> works_ok wq'"
    "rt_workqueue_cancel_work_sync w wq k = Some (r2, wq', k') \<Longrightarrow> works_ok wq'"
    "rt_workqueue_cancel_all_work wq k = Some (r, wq', k') \<Longrightarrow> works_ok wq'"
    "worker_takes wq = Some (w, wq') \<Longrightarrow> works_ok wq'"
    "worker_finishes wq k = Some (wq', k') \<Longrightarrow> works_ok wq'"
  using ok
  by (auto simp: works_ok_def rt_workqueue_dowork_def rt_workqueue_cancel_work_def rt_workqueue_cancel_work_sync_def
      rt_workqueue_cancel_all_work_def worker_takes_def worker_finishes_def Let_def distinct_removeAll
      split: if_splits Option.bind_splits list.splits)

lemma critical_work_is_dowork: "rt_workqueue_critical_work = rt_workqueue_dowork"
  by (intro ext) (simp add: rt_workqueue_critical_work_def rt_workqueue_dowork_def)

subsection \<open>The end of a work\<close>

lemma take_resume_error: "rt_sem_take_resume t k = th_error (threads k t)"
  by (simp add: rt_sem_take_resume_def)

text \<open>The loop wakes the waiters one after the other, then takes the count it has put there itself.\<close>

lemma work_completion_loop_ends:
  assumes "kinv k" "sem_inv k s" "sem_value (sems k s) = 0"
  shows "\<exists>k'. work_completion_loop s k = Some (RT_EOK, k') \<and> kinv k' \<and> sem_inv k' s \<and> sem_waiters k' s = []
    \<and> sem_value (sems k' s) = 0
    \<and> (\<forall>t\<in>set (sem_waiters k s). thread_state k' t = RT_THREAD_READY \<and> rt_sem_take_resume t k' = RT_EOK)
    \<and> (\<forall>t. t \<notin> set (sem_waiters k s) \<longrightarrow> threads k' t = threads k t)"
  using assms
proof (induction "sem_waiters k s" arbitrary: k)
  case Nil
  have ty: "sem_typed k s" using Nil.prems(2) by (simp add: sem_inv_def)
  let ?p = "put_sem s 1 k"
  note rc = rt_sem_release_counts[OF Nil.prems(2) Nil(1)[symmetric]]
  have si: "sem_inv ?p s" using rc(2) Nil.prems(3) by simp
  have tr: "rt_sem_trytake s k = Some (Ret (- RT_ETIMEOUT), k)" using ty Nil.prems(3) by (simp add: rt_sem_trytake_def rt_sem_take_def)
  have rl: "rt_sem_release s k = Some ?p" using rc(1) Nil.prems(3) by simp
  have v: "0 < sem_value (sems ?p s)" by simp
  note tk = rt_sem_take_available[OF si v]
  have one: "work_completion_loop s ?p = Some (RT_EOK, put_sem s 0 ?p)"
    by (subst work_completion_loop.simps) (simp add: rt_sem_trytake_def tk(1))
  have run: "work_completion_loop s k = Some (RT_EOK, put_sem s 0 ?p)"
    by (subst work_completion_loop.simps) (simp add: tr rl one)
  have "sem_inv (put_sem s 0 ?p) s" using tk(2) by simp
  then show ?case using run Nil.prems(1) Nil(1)[symmetric] by simp
next
  case (Cons t ts)
  have ty: "sem_typed k s" using Cons.prems(2) by (simp add: sem_inv_def)
  have tr: "rt_sem_trytake s k = Some (Ret (- RT_ETIMEOUT), k)" using ty Cons.prems(3) by (simp add: rt_sem_trytake_def rt_sem_take_def)
  obtain k1 where k1: "rt_sem_release s k = Some k1" "kinv k1" "sem_inv k1 s" "sem_value (sems k1 s) = 0"
    "sem_waiters k1 s = ts" "thread_state k1 t = RT_THREAD_READY" "rt_sem_take_resume t k1 = RT_EOK"
    "\<And>u. u \<noteq> t \<Longrightarrow> threads k1 u = threads k u"
    by (rule rt_sem_release_wakes[OF Cons.prems(1,2) Cons(2)[symmetric]]) (rule that, assumption+)
  from Cons(1)[OF k1(5)[symmetric] k1(2-4)] obtain k' where
    k': "work_completion_loop s k1 = Some (RT_EOK, k')" "kinv k'" "sem_inv k' s" "sem_waiters k' s = []" "sem_value (sems k' s) = 0"
    "\<And>u. u \<in> set ts \<Longrightarrow> thread_state k' u = RT_THREAD_READY \<and> rt_sem_take_resume u k' = RT_EOK"
    "\<And>u. u \<notin> set ts \<Longrightarrow> threads k' u = threads k1 u" using k1(5) by metis
  have nt: "t \<notin> set ts" using list_distinct[OF Cons.prems(1), of "Suspended (ObjSem s)"] Cons(2) by (metis distinct.simps(2))
  have "thread_state k' t = RT_THREAD_READY \<and> rt_sem_take_resume t k' = RT_EOK"
    using k'(7)[OF nt] k1(6,7) by (simp add: thread_state_def take_resume_error)
  moreover have "work_completion_loop s k = Some (RT_EOK, k')"
    by (subst work_completion_loop.simps) (simp add: tr k1(1) k'(1))
  ultimately show ?case using k' k1(8) Cons(2)[symmetric] by auto
qed

lemma workqueue_work_completion_ends:
  assumes i: "kinv k" and si: "sem_inv k s" and z: "sem_value (sems k s) = 0" and r: "thread_state k u = RT_THREAD_READY"
  obtains k' where "workqueue_work_completion s k = Some (RT_EOK, k')" "kinv k'" "sem_inv k' s" "sem_waiters k' s = []"
    "sem_value (sems k' s) = 0"
    "\<And>t. t \<in> set (sem_waiters k s) \<Longrightarrow> thread_state k' t = RT_THREAD_READY \<and> rt_sem_take_resume t k' = RT_EOK"
    "\<And>t. t \<notin> set (sem_waiters k s) \<Longrightarrow> threads k' t = threads k t"
proof -
  let ?e = "rt_enter_critical k"
  have e: "kinv ?e" "sem_inv ?e s" "sem_value (sems ?e s) = 0" using i si z
    by (simp_all add: sem_inv_def waiters_clean_def rt_object_get_type_def)
  from work_completion_loop_ends[OF e] obtain k1 where
    k1: "work_completion_loop s ?e = Some (RT_EOK, k1)" "kinv k1" "sem_inv k1 s" "sem_waiters k1 s = []" "sem_value (sems k1 s) = 0"
    "\<And>t. t \<in> set (sem_waiters k s) \<Longrightarrow> thread_state k1 t = RT_THREAD_READY \<and> rt_sem_take_resume t k1 = RT_EOK"
    "\<And>t. t \<notin> set (sem_waiters k s) \<Longrightarrow> threads k1 t = threads k t"
    by auto
  have "u \<notin> set (sem_waiters k s)" using waiter_suspended[OF i wait_head_simps(1), of u] r by auto
  then have "thread_state k1 u = RT_THREAD_READY" using k1(7)[of u] r by (simp add: thread_state_def)
  then obtain k2 where k2: "rt_exit_critical k1 = Some k2" "kinv k2" "threads k2 = threads k1" "tlists k2 = tlists k1"
    "sems k2 = sems k1" "objs k2 = objs k1"
    by (rule rt_exit_critical_returns[OF k1(2)])
  have "sem_inv k2 s" using k1(3) k2 by (simp add: sem_inv_def waiters_clean_def rt_object_get_type_def)
  moreover have "workqueue_work_completion s k = Some (RT_EOK, k2)" using k1(1) k2(1) by (simp add: workqueue_work_completion_def)
  ultimately show ?thesis
    by (rule_tac that[of k2]) (use k1 k2 in \<open>simp_all add: thread_state_def take_resume_error\<close>)
qed

subsection \<open>Handing in a work\<close>

lemma rt_workqueue_dowork_wakes:
  assumes i: "kinv k" and s: "thread_state k (wq_thread wq) = RT_THREAD_SUSPEND" and c: "wq_current wq = None"
  obtains k' where "rt_workqueue_dowork w wq k = Some (RT_EOK, wq\<lparr>wq_list := removeAll w (wq_list wq) @ [w]\<rparr>, k')"
    "kinv k'" "thread_state k' (wq_thread wq) = RT_THREAD_READY" "ThreadTimer (wq_thread wq) \<notin> set (timer_list k')"
    "\<And>t. t \<noteq> wq_thread wq \<Longrightarrow> threads k' t = threads k t"
    "lock_nest k = 0 \<Longrightarrow> \<exists>v. current_thread k' = Some v \<and> most_urgent k' v"
proof (rule rt_thread_resume_suspended[OF i s], goal_cases)
  case (1 k1)
  note a = 1(2-)
  from rt_schedule_some[OF kinvD(1)[OF a(2)] a(3)] obtain k' where sc: "rt_schedule k1 = Some k'" by blast
  note f = rt_schedule_frame[OF sc]
  have "rt_workqueue_dowork w wq k = Some (RT_EOK, wq\<lparr>wq_list := removeAll w (wq_list wq) @ [w]\<rparr>, k')"
    using c a(1) sc by (simp add: rt_workqueue_dowork_def)
  moreover have "\<exists>v. current_thread k' = Some v \<and> most_urgent k' v" if "lock_nest k = 0"
    by (rule rt_schedule_current[OF kinvD(1)[OF a(2)] sc]) (use a that in simp)
  ultimately show ?case
    by (rule_tac that[of k']) (use kinv_schedule[OF sc a(2)] a f in \<open>simp_all add: thread_state_def\<close>)
qed

text \<open>A worker that has seen the empty list and is not suspended yet stays what it is.\<close>

lemma rt_workqueue_dowork_running:
  assumes i: "kinv k" and c: "settled k" "current_thread k = Some (wq_thread wq)" and n: "wq_current wq = None"
  obtains k' where "rt_workqueue_dowork w wq k = Some (RT_EOK, wq\<lparr>wq_list := removeAll w (wq_list wq) @ [w]\<rparr>, k')"
    "kinv k'" "settled k'" "current_thread k' = Some (wq_thread wq)" "threads k' = threads k"
proof -
  have mu: "most_urgent k (wq_thread wq)" "lock_nest k = 0" using c by (simp_all add: settled_def)
  then have r: "thread_state k (wq_thread wq) = RT_THREAD_READY" by (simp add: most_urgent_def)
  have ty: "thread_typed k (wq_thread wq)" using kinvD(4)[OF i, of "wq_thread wq"] r by (simp add: live_def)
  have rs: "rt_thread_resume (wq_thread wq) k = Some (- RT_ERROR, k)" using rt_thread_resume_not_suspended[OF ty] r by simp
  from rt_schedule_some[OF kinvD(1)[OF i] r] obtain k' where sc: "rt_schedule k = Some k'" by blast
  note f = rt_schedule_frame[OF sc]
  from rt_schedule_current[OF kinvD(1)[OF i] sc mu(2)] obtain v where v: "current_thread k' = Some v" "most_urgent k' v" by blast
  have "most_urgent k' (wq_thread wq)" using mu(1) f by (simp add: most_urgent_def thread_state_def)
  then have "v = wq_thread wq" using v(2) most_urgent_unique by blast
  moreover have "rt_workqueue_dowork w wq k = Some (RT_EOK, wq\<lparr>wq_list := removeAll w (wq_list wq) @ [w]\<rparr>, k')"
    using n rs sc by (simp add: rt_workqueue_dowork_def)
  ultimately show ?thesis
    by (rule_tac that[of k']) (use kinv_schedule[OF sc i] rt_schedule_settles[OF kinvD(1)[OF i] sc mu(2)] v f in simp_all)
qed

lemma worker_suspends_waits:
  assumes i: "kinv k" and c: "current_thread k = Some t" and r: "thread_state k t = RT_THREAD_READY"
    and o: "thread_state k u = RT_THREAD_READY" "u \<noteq> t"
  obtains k' where "worker_suspends k = Some k'" "kinv k'" "thread_state k' t = RT_THREAD_SUSPEND"
    "ThreadTimer t \<notin> set (timer_list k')" "\<And>s. s \<noteq> t \<Longrightarrow> threads k' s = threads k s" "on_none (tlists k') t"
proof (rule rt_thread_suspend_ready[OF i r], goal_cases)
  case (1 k1)
  note a = 1(2-)
  have "thread_state k1 u = RT_THREAD_READY" using o a(7) by (simp add: thread_state_def)
  from rt_schedule_some[OF kinvD(1)[OF a(2)] this] obtain k' where sc: "rt_schedule k1 = Some k'" by blast
  note f = rt_schedule_frame[OF sc]
  have "worker_suspends k = Some k'" using c a(1) sc by (simp add: worker_suspends_def)
  then show ?case by (rule that) (use kinv_schedule[OF sc a(2)] a f in \<open>simp_all add: thread_state_def\<close>)
qed

end
