(* ===== verification/RT_WaitQueue.thy ===== *)
theory RT_WaitQueue
  imports RT_Ipc
begin

text \<open>
  The wait queues of the driver framework, \<open>components/drivers/src/waitqueue.c\<close>: a flag and a list of
  nodes, each with the thread that polls and the function that says whether a key concerns it (0 for yes). A
  node is named by a number; \<open>rt_wqueue_wait\<close> makes one of its own, whose function always answers 0, and is
  cut where it gives up the processor. A waiting thread is on no list of the kernel; only its node is on the
  queue.
\<close>

subsection \<open>Operations\<close>

abbreviation RT_WQ_FLAG_CLEAN :: u32 where "RT_WQ_FLAG_CLEAN \<equiv> 0"

abbreviation RT_WQ_FLAG_WAKEUP :: u32 where "RT_WQ_FLAG_WAKEUP \<equiv> 1"

record rt_wqueue_node =
  wn_id :: nat
  wn_thread :: tid
  wn_wakeup :: "u32 \<Rightarrow> int"

record rt_wqueue =
  wqu_flag :: u32
  wqu_list :: "rt_wqueue_node list"

definition rt_wqueue_init :: "rt_wqueue \<Rightarrow> rt_wqueue" where
  "rt_wqueue_init q = q\<lparr>wqu_flag := RT_WQ_FLAG_CLEAN, wqu_list := []\<rparr>"

definition rt_wqueue_add :: "rt_wqueue_node \<Rightarrow> rt_wqueue \<Rightarrow> rt_wqueue" where
  "rt_wqueue_add n q = q\<lparr>wqu_list := wqu_list q @ [n]\<rparr>"

definition rt_wqueue_remove :: "nat \<Rightarrow> rt_wqueue \<Rightarrow> rt_wqueue" where
  "rt_wqueue_remove n q = q\<lparr>wqu_list := filter (\<lambda>m. wn_id m \<noteq> n) (wqu_list q)\<rparr>"

definition wqueue_default_wake :: "u32 \<Rightarrow> int" where
  "wqueue_default_wake key = 0"

text \<open>The first node whose function answers 0.\<close>

definition rt_wqueue_wakeup :: "u32 \<Rightarrow> rt_wqueue \<Rightarrow> kernel \<Rightarrow> (rt_wqueue \<times> kernel) option" where
  "rt_wqueue_wakeup key q k =
     (let q1 = q\<lparr>wqu_flag := RT_WQ_FLAG_WAKEUP\<rparr> in
      case find (\<lambda>n. wn_wakeup n key = 0) (wqu_list q1) of
        None \<Rightarrow> Some (q1, k)
      | Some n \<Rightarrow> do {
          (_, k1) \<leftarrow> rt_thread_resume (wn_thread n) k;
          k2 \<leftarrow> rt_schedule k1;
          Some (rt_wqueue_remove (wn_id n) q1, k2) })"

definition start_poll_timer :: "tid \<Rightarrow> int \<Rightarrow> kernel \<Rightarrow> kernel option" where
  "start_poll_timer t tck k =
     (if tck \<noteq> - 1 then do {
        (_, k1) \<leftarrow> rt_timer_control (ThreadTimer t) 0 (word_of_int tck) k;
        rt_timer_start (ThreadTimer t) k1 }
      else Some k)"

text \<open>\<open>n\<close> is the node \<open>__wait\<close> on the caller's stack. The result of \<open>rt_thread_suspend\<close> is not looked
  at.\<close>

definition rt_wqueue_wait ::
  "int \<Rightarrow> nat \<Rightarrow> bool \<Rightarrow> int \<Rightarrow> rt_wqueue \<Rightarrow> kernel \<Rightarrow> (int outcome \<times> rt_wqueue \<times> kernel) option" where
  "rt_wqueue_wait tick_per_second n condition msec q k = do {
     t \<leftarrow> current_thread k;
     _ \<leftarrow> rt_assert (interrupt_nest k = 0);
     tck \<leftarrow> rt_tick_from_millisecond tick_per_second msec;
     if condition \<or> tck = 0 then Some (Ret 0, q, k)
     else if wqu_flag q = RT_WQ_FLAG_WAKEUP then Some (Ret 0, q\<lparr>wqu_flag := 0\<rparr>, k)
     else do {
       let q1 = rt_wqueue_add \<lparr>wn_id = n, wn_thread = t, wn_wakeup = wqueue_default_wake\<rparr> q;
       (_, k1) \<leftarrow> rt_thread_suspend t k;
       k2 \<leftarrow> start_poll_timer t tck k1;
       k3 \<leftarrow> rt_schedule k2;
       Some (Wait, q1, k3) } }"

definition rt_wqueue_wait_resume :: "nat \<Rightarrow> rt_wqueue \<Rightarrow> int \<times> rt_wqueue" where
  "rt_wqueue_wait_resume n q = (0, rt_wqueue_remove n (q\<lparr>wqu_flag := 0\<rparr>))"

subsection \<open>What the calls do\<close>

lemma rt_wqueue_wait_suspends:
  assumes i: "kinv k" and c: "current_thread k = Some t" and r: "thread_state k t = RT_THREAD_READY"
    and ni: "interrupt_nest k = 0" and f: "wqu_flag q \<noteq> RT_WQ_FLAG_WAKEUP"
    and tk: "rt_tick_from_millisecond hz msec = Some tck" "tck \<noteq> 0" "0 \<le> hz"
    and o: "thread_state k u = RT_THREAD_READY" "u \<noteq> t"
  obtains k' where "rt_wqueue_wait hz n False msec q k =
      Some (Wait, rt_wqueue_add \<lparr>wn_id = n, wn_thread = t, wn_wakeup = wqueue_default_wake\<rparr> q, k')"
    "kinv k'" "thread_state k' t = RT_THREAD_SUSPEND" "\<And>s. s \<noteq> t \<Longrightarrow> threads k' s = threads k s"
    "tck \<noteq> - 1 \<Longrightarrow> ThreadTimer t \<in> set (timer_list k') \<and> due_in k' (ThreadTimer t) = Suc (nat tck)"
    "tck = - 1 \<Longrightarrow> ThreadTimer t \<notin> set (timer_list k')"
proof (rule rt_thread_suspend_ready[OF i r], goal_cases)
  case (1 k1)
  note a = 1(2-)
  have nt: "ThreadTimer t \<notin> set (timer_list k1)" using a(6) by simp
  have range: "tck = - 1 \<or> 0 < tck \<and> tck < 0x7FFFFFFF"
  proof (cases "msec < 0")
    case False
    have "0 \<le> hz * msec" using tk(3) False by simp
    then have "0 \<le> (hz * msec + 999) div 1000" by simp
    then show ?thesis using tk False by (auto simp: rt_tick_from_millisecond_def split: if_splits)
  qed (use tk in \<open>simp add: rt_tick_from_millisecond_def\<close>)
  then have b: "tck < 0x7FFFFFFF" by auto
  have same: "start_poll_timer t tck k1 = start_wait_timer t tck k1"
    using range by (auto simp: start_poll_timer_def start_wait_timer_def)
  note sus = a
  show ?case
  proof (rule start_wait_timer_arms[OF a(2,3) b nt], goal_cases)
    case (1 k2)
    note d = 1
    have "thread_state k2 u = RT_THREAD_READY" using o sus(7) d(5) by (simp add: thread_state_def)
    from rt_schedule_some[OF kinvD(1)[OF d(2)] this] obtain k' where sc: "rt_schedule k2 = Some k'" by blast
    note g = rt_schedule_frame[OF sc]
    have "rt_wqueue_wait hz n False msec q k =
        Some (Wait, rt_wqueue_add \<lparr>wn_id = n, wn_thread = t, wn_wakeup = wqueue_default_wake\<rparr> q, k')"
      using c ni f tk sus(1) d(1) sc same by (simp add: rt_wqueue_wait_def)
    moreover have "due_in k' = due_in k2" using g by (intro ext) (simp add: due_in_def)
    ultimately show ?case
      by (rule_tac that[of k'])
        (use kinv_schedule[OF sc d(2)] d(3,4,5) sus(3,7) g range in \<open>auto simp: thread_state_def\<close>)
  qed
qed

text \<open>A wake-up reaches the first node that the key concerns and takes it off; the flag stays up for the next
  caller of a wait.\<close>

lemma rt_wqueue_wakeup_wakes:
  assumes i: "kinv k" and fi: "find (\<lambda>n. wn_wakeup n key = 0) (wqu_list q) = Some n"
    and s: "thread_state k (wn_thread n) = RT_THREAD_SUSPEND"
  obtains k' where "rt_wqueue_wakeup key q k = Some (rt_wqueue_remove (wn_id n) (q\<lparr>wqu_flag := RT_WQ_FLAG_WAKEUP\<rparr>), k')"
    "kinv k'" "thread_state k' (wn_thread n) = RT_THREAD_READY" "ThreadTimer (wn_thread n) \<notin> set (timer_list k')"
    "\<And>t. t \<noteq> wn_thread n \<Longrightarrow> threads k' t = threads k t"
proof (rule rt_thread_resume_suspended[OF i s], goal_cases)
  case (1 k1)
  note a = 1(2-)
  from rt_schedule_some[OF kinvD(1)[OF a(2)] a(3)] obtain k' where sc: "rt_schedule k1 = Some k'" by blast
  note f = rt_schedule_frame[OF sc]
  have "rt_wqueue_wakeup key q k = Some (rt_wqueue_remove (wn_id n) (q\<lparr>wqu_flag := RT_WQ_FLAG_WAKEUP\<rparr>), k')"
    using fi a(1) sc by (simp add: rt_wqueue_wakeup_def)
  then show ?case
    by (rule_tac that[of k']) (use kinv_schedule[OF sc a(2)] a f in \<open>simp_all add: thread_state_def\<close>)
qed

text \<open>The node of a thread whose wait has timed out stays on the queue until the thread runs again. A wake-up
  in between is spent on it: a second thread that waits behind it is not woken, and the flag is lowered by the
  first when it runs.\<close>

lemma rt_wqueue_wakeup_spent:
  assumes i: "kinv k" and q: "wqu_list q = [n, m]" "wn_wakeup n key = 0" "wn_id n \<noteq> wn_id m"
    and s: "thread_state k (wn_thread n) = RT_THREAD_READY" "thread_state k (wn_thread m) = RT_THREAD_SUSPEND"
  obtains k' where "rt_wqueue_wakeup key q k = Some (\<lparr>wqu_flag = RT_WQ_FLAG_WAKEUP, wqu_list = [m]\<rparr>, k')" "kinv k'"
    "thread_state k' (wn_thread m) = RT_THREAD_SUSPEND"
    "rt_wqueue_wait_resume (wn_id n) \<lparr>wqu_flag = RT_WQ_FLAG_WAKEUP, wqu_list = [m]\<rparr> = (0, \<lparr>wqu_flag = 0, wqu_list = [m]\<rparr>)"
proof -
  have "thread_typed k (wn_thread n)" using kinvD(4)[OF i, of "wn_thread n"] s by (simp add: live_def)
  then have re: "rt_thread_resume (wn_thread n) k = Some (- RT_ERROR, k)" using rt_thread_resume_not_suspended s by simp
  from rt_schedule_some[OF kinvD(1)[OF i] s(1)] obtain k' where sc: "rt_schedule k = Some k'" by blast
  have "rt_wqueue_wakeup key q k = Some (\<lparr>wqu_flag = RT_WQ_FLAG_WAKEUP, wqu_list = [m]\<rparr>, k')"
    using q re sc by (cases q) (simp add: rt_wqueue_wakeup_def rt_wqueue_remove_def)
  then show ?thesis
    by (rule_tac that[of k'])
      (use kinv_schedule[OF sc i] rt_schedule_frame[OF sc] s q in
        \<open>simp_all add: thread_state_def rt_wqueue_wait_resume_def rt_wqueue_remove_def\<close>)
qed

end
