(* ===== verification/Driver_Theorems.thy ===== *)
theory Driver_Theorems
  imports RT_Completion RT_DataQueue RT_WorkQueue RT_WaitQueue RT_Demo
begin

text \<open>
  Properties of the objects drivers wait on: completions, data queues and work queues. The waits and wake-ups are
  those of the kernel, so a property follows a caller into its wait, another caller's wake-up and the rest of the
  first call.
\<close>

section \<open>Completions\<close>

text \<open>C22. The two orders of \<open>rt_completion_wait\<close> and \<open>rt_completion_done\<close> end alike: a wait that comes first suspends
  its thread, and the completion makes the thread ready and its wait return \<open>RT_EOK\<close>; a completion that comes first
  lets the wait return \<open>RT_EOK\<close> at once. Both leave the flag clean for the next use.\<close>

theorem completion_handshake:
  assumes "kinv k" "cp_flag cp = RT_UNCOMPLETED" "cp_waiters k c = []" "current_thread k = Some t"
    "thread_state k t = RT_THREAD_READY" "interrupt_nest k = 0" "timeout \<noteq> 0" "timeout < 0x7FFFFFFF"
    "thread_state k u = RT_THREAD_READY" "u \<noteq> t"
  shows "\<exists>k1 k2. rt_completion_wait c timeout cp k = Some (Wait, cp, k1) \<and> thread_state k1 t = RT_THREAD_SUSPEND
      \<and> rt_completion_done c cp k1 = Some (cp\<lparr>cp_flag := RT_COMPLETED\<rparr>, k2) \<and> thread_state k2 t = RT_THREAD_READY
      \<and> rt_completion_wait_resume t (cp\<lparr>cp_flag := RT_COMPLETED\<rparr>) k2 = (RT_EOK, cp)
      \<and> rt_completion_done c cp k = Some (cp\<lparr>cp_flag := RT_COMPLETED\<rparr>, k)
      \<and> rt_completion_wait c timeout (cp\<lparr>cp_flag := RT_COMPLETED\<rparr>) k = Some (Ret RT_EOK, cp, k)"
proof -
  have cp: "cp\<lparr>cp_flag := RT_UNCOMPLETED\<rparr> = cp" using assms(2) by simp
  have f: "cp_flag cp \<noteq> RT_COMPLETED" using assms(2) by simp
  obtain k1 where k1: "rt_completion_wait c timeout cp k = Some (Wait, cp, k1)" "kinv k1" "completion_inv k1 c cp"
    "cp_waiters k1 c = [t]" "thread_state k1 t = RT_THREAD_SUSPEND"
    by (rule rt_completion_wait_blocks[OF assms(1) f assms(3-10)])
  obtain k2 where k2: "rt_completion_done c cp k1 = Some (cp\<lparr>cp_flag := RT_COMPLETED\<rparr>, k2)"
    "\<And>t. t \<in> set (cp_waiters k1 c) \<Longrightarrow> thread_state k2 t = RT_THREAD_READY \<and> ThreadTimer t \<notin> set (timer_list k2)
        \<and> rt_completion_wait_resume t (cp\<lparr>cp_flag := RT_COMPLETED\<rparr>) k2 = (RT_EOK, cp\<lparr>cp_flag := RT_UNCOMPLETED\<rparr>)"
    by (rule rt_completion_done_wakes[OF k1(2,3)]) (rule that, assumption+)
  have "rt_completion_done c cp k = Some (cp\<lparr>cp_flag := RT_COMPLETED\<rparr>, k)"
    using f assms(3) by (simp add: rt_completion_done_def wake_one_Nil)
  moreover have "rt_completion_wait c timeout (cp\<lparr>cp_flag := RT_COMPLETED\<rparr>) k = Some (Ret RT_EOK, cp, k)"
    using cp by (simp add: rt_completion_wait_def)
  ultimately show ?thesis using k1 k2(1) k2(2)[of t] cp by auto
qed

lemma demo_nobody: "wait_head h \<Longrightarrow> wait_head g \<Longrightarrow> g \<noteq> h \<Longrightarrow> tlists (demo h) g = []"
  by auto

theorem completion_handshake_witness:
  "\<exists>k1 k2. rt_completion_wait 0 20 \<lparr>cp_flag = 0\<rparr> (demo (Senders 0)) = Some (Wait, \<lparr>cp_flag = 0\<rparr>, k1)
     \<and> rt_completion_done 0 \<lparr>cp_flag = 0\<rparr> k1 = Some (\<lparr>cp_flag = 1\<rparr>, k2)
     \<and> rt_completion_wait_resume 1 \<lparr>cp_flag = 1\<rparr> k2 = (RT_EOK, \<lparr>cp_flag = 0\<rparr>)"
  using completion_handshake[OF demo_kinv, of "Senders 0" "\<lparr>cp_flag = 0\<rparr>" 0 1 20 0] by auto

section \<open>Data queues\<close>

text \<open>A thread that pops from an empty data queue waits; the next push stores its item, makes the thread ready, and
  the rest of its pop returns exactly this item and leaves the queue empty.\<close>

theorem data_queue_hands_over:
  assumes "kinv k" "data_queue_inv k q dq" "dq_items dq = []" "dq_put dq \<noteq> 0xFFFF" "tlists k (PopList q) = []"
    "current_thread k = Some t" "thread_state k t = RT_THREAD_READY" "interrupt_nest k = 0" "timeout \<noteq> 0" "timeout < 0x7FFFFFFF"
    "thread_state k u = RT_THREAD_READY" "u \<noteq> t"
  shows "\<exists>k1 ev2 k2 ev3 dq3 k3. rt_data_queue_pop q timeout dq k = Some (Wait, None, dq, k1) \<and> thread_state k1 t = RT_THREAD_SUSPEND
      \<and> rt_data_queue_push q x 0 dq k1 = Some (Ret RT_EOK, ev2, dq_store x dq, k2) \<and> thread_state k2 t = RT_THREAD_READY
      \<and> rt_data_queue_pop_resume q timeout t (dq_store x dq) k2 = Some (Ret (RT_EOK, Some x), ev3, dq3, k3)
      \<and> dq_items dq3 = [] \<and> kinv k3 \<and> data_queue_inv k3 q dq3"
proof -
  have ok: "dq_ok dq" using assms(2) by (simp add: data_queue_inv_def)
  have e: "dq_empty dq" using dq_empty_iff[OF ok] assms(3) by simp
  have nf: "\<not> dq_full dq"
  proof -
    have "0 < unat (dq_size dq)" using ok by (simp add: dq_ok_def word_less_nat_alt)
    then show ?thesis unfolding dq_full_iff[OF ok] assms(3) by simp
  qed
  have h: "PopList q = PushList q \<and> dq_full dq \<or> PopList q = PopList q \<and> dq_empty dq" using e by simp
  obtain k1 where k1: "rt_data_queue_pop q timeout dq k = Some (Wait, None, dq, k1)"
    "kinv k1" "data_queue_inv k1 q dq" "thread_state k1 t = RT_THREAD_SUSPEND" "tlists k1 (PopList q) = tlists k (PopList q) @ [t]"
    by (rule data_queue_blocks[OF assms(1,2,6-12) h]) (rule that, blast, assumption+)
  have l1: "tlists k1 (PopList q) = [t]" using k1(5) assms(5) by simp
  obtain ev2 k2 where k2: "rt_data_queue_push q x 0 dq k1 = Some (Ret RT_EOK, ev2, dq_store x dq, k2)" "kinv k2"
    "data_queue_inv k2 q (dq_store x dq)" "dq_items (dq_store x dq) = dq_items dq @ [x]"
    "\<And>t ts. tlists k1 (PopList q) = t # ts \<Longrightarrow> thread_state k2 t = RT_THREAD_READY \<and> th_error (threads k2 t) = RT_EOK"
    by (rule data_queue_push_stores[OF k1(2,3) nf assms(4), of x 0]) (rule that, assumption+)
  have ok2: "dq_ok (dq_store x dq)" using k2(3) by (simp add: data_queue_inv_def)
  have ne: "\<not> dq_empty (dq_store x dq)" using dq_empty_iff[OF ok2] k2(4) by simp
  let ?d3 = "(dq_store x dq)\<lparr>dq_get := dq_get (dq_store x dq) + 1\<rparr>"
  obtain ev3 k3 where k3: "rt_data_queue_pop q timeout (dq_store x dq) k2 = Some (Ret (RT_EOK, Some (dq_front (dq_store x dq))), ev3, ?d3, k3)"
    "kinv k3" "data_queue_inv k3 q ?d3" "dq_items (dq_store x dq) = dq_front (dq_store x dq) # dq_items ?d3"
    by (rule data_queue_pop_takes[OF k2(2,3) ne, of timeout])
  have "dq_front (dq_store x dq) = x" "dq_items ?d3 = []" using k3(4) k2(4) assms(3) by simp_all
  moreover have "rt_data_queue_pop_resume q timeout t (dq_store x dq) k2 = rt_data_queue_pop q timeout (dq_store x dq) k2"
    using k2(5)[OF l1] by (simp add: rt_data_queue_pop_resume_def)
  ultimately show ?thesis using k1(1,4) k2(1) k2(5)[OF l1] k3(1-3) by auto
qed

definition demo_dq :: "u16 \<Rightarrow> rt_data_queue" where
  "demo_dq p = \<lparr>dq_size = 2, dq_lwm = 1, dq_get = p, dq_put = p, dq_queue = replicate 2 \<lparr>data_ptr = 0, data_size = 0\<rparr>, dq_has_notify = True\<rparr>"

theorem data_queue_hands_over_witness:
  "\<exists>k1 ev2 k2 ev3 dq3 k3. rt_data_queue_pop 0 (-1) (demo_dq 7) (demo (Senders 0)) = Some (Wait, None, demo_dq 7, k1)
     \<and> rt_data_queue_push 0 \<lparr>data_ptr = 0x20001000, data_size = 12\<rparr> 0 (demo_dq 7) k1
         = Some (Ret RT_EOK, ev2, dq_store \<lparr>data_ptr = 0x20001000, data_size = 12\<rparr> (demo_dq 7), k2)
     \<and> rt_data_queue_pop_resume 0 (-1) 1 (dq_store \<lparr>data_ptr = 0x20001000, data_size = 12\<rparr> (demo_dq 7)) k2
         = Some (Ret (RT_EOK, Some \<lparr>data_ptr = 0x20001000, data_size = 12\<rparr>), ev3, dq3, k3)"
proof -
  have d: "data_queue_inv (demo (Senders 0)) 0 (demo_dq 7)" "dq_items (demo_dq 7) = []" "dq_put (demo_dq 7) \<noteq> 0xFFFF"
    by (simp_all add: data_queue_inv_def waiters_clean_def dq_ok_def demo_dq_def dq_items_def ring_window_def)
  from data_queue_hands_over[OF demo_kinv d, of 1 "-1" 0 "\<lparr>data_ptr = 0x20001000, data_size = 12\<rparr>"]
  show ?thesis by simp blast
qed

text \<open>The full test subtracts the 16-bit indices as \<open>int\<close>s. When the put index has passed \<open>0xFFFF\<close> and the get index
  has not, a data queue is never full: the push that fills the queue to its size is followed by one that
  is accepted too, where \<open>-RT_ETIMEOUT\<close> is due.\<close>

theorem data_queue_overruns:
  assumes "kinv k" "data_queue_inv k q dq" "tlists k (PopList q) = []" "dq_put dq = 0xFFFF"
    "length (dq_items dq) + 1 = unat (dq_size dq)" "dq_items dq \<noteq> []"
  shows "\<exists>ev1 ev2. rt_data_queue_push q x 0 dq k = Some (Ret RT_EOK, ev1, dq_store x dq, k)
      \<and> rt_data_queue_push q y 0 (dq_store x dq) k = Some (Ret RT_EOK, ev2, dq_store y (dq_store x dq), k)"
proof -
  have ok: "dq_ok dq" using assms(2) by (simp add: data_queue_inv_def)
  have "\<not> dq_full dq" unfolding dq_full_iff[OF ok] using assms(5) by simp
  moreover have "\<not> dq_full (dq_store x dq)"
  proof (rule dq_wrapped_never_full)
    have "dq_get dq \<noteq> 0"
    proof
      assume "dq_get dq = 0"
      then have "length (dq_items dq) = 65535" using assms(4) by simp
      then have "unat (dq_size dq) = 65536" using assms(5) by simp
      then show False using unsigned_less[of "dq_size dq", where ?'a = nat] by simp
    qed
    then have "0 < dq_get (dq_store x dq)" by (simp add: dq_store_def word_gt_0)
    moreover have "dq_put (dq_store x dq) = 0" using assms(4) by (simp add: dq_store_def)
    ultimately show "dq_put (dq_store x dq) < dq_get (dq_store x dq)" by simp
  qed
  ultimately show ?thesis using assms(3) by (simp add: rt_data_queue_push_def Let_def)
qed

theorem data_queue_overruns_witness:
  "\<exists>ev1 ev2. rt_data_queue_push 0 \<lparr>data_ptr = 16, data_size = 4\<rparr> 0 ((demo_dq 0xFFFE)\<lparr>dq_put := 0xFFFF\<rparr>) (demo (Senders 0))
      = Some (Ret RT_EOK, ev1, dq_store \<lparr>data_ptr = 16, data_size = 4\<rparr> ((demo_dq 0xFFFE)\<lparr>dq_put := 0xFFFF\<rparr>), demo (Senders 0))
     \<and> rt_data_queue_push 0 \<lparr>data_ptr = 20, data_size = 4\<rparr> 0 (dq_store \<lparr>data_ptr = 16, data_size = 4\<rparr> ((demo_dq 0xFFFE)\<lparr>dq_put := 0xFFFF\<rparr>)) (demo (Senders 0))
      = Some (Ret RT_EOK, ev2, dq_store \<lparr>data_ptr = 20, data_size = 4\<rparr> (dq_store \<lparr>data_ptr = 16, data_size = 4\<rparr> ((demo_dq 0xFFFE)\<lparr>dq_put := 0xFFFF\<rparr>)), demo (Senders 0))"
proof (rule data_queue_overruns)
  let ?d = "(demo_dq 0xFFFE)\<lparr>dq_put := 0xFFFF\<rparr>"
  show "data_queue_inv (demo (Senders 0)) 0 ?d"
    by (simp add: data_queue_inv_def waiters_clean_def dq_ok_def demo_dq_def)
  show "length (dq_items ?d) + 1 = unat (dq_size ?d)" "dq_items ?d \<noteq> []"
    by (simp_all add: demo_dq_def dq_items_def ring_window_def)
qed (simp_all add: demo_kinv demo_dq_def)

section \<open>Work queues\<close>

text \<open>\<open>_workqueue_work_completion\<close> returns: with its semaphore at 0 it wakes every thread that waits for the end of
  the current work, each with \<open>RT_EOK\<close>, and leaves the semaphore at 0 again.\<close>

theorem work_completion_ends:
  assumes "kinv k" "sem_inv k s" "sem_value (sems k s) = 0" "thread_state k u = RT_THREAD_READY"
  shows "\<exists>k'. workqueue_work_completion s k = Some (RT_EOK, k') \<and> kinv k' \<and> sem_inv k' s \<and> sem_waiters k' s = []
    \<and> sem_value (sems k' s) = 0
    \<and> (\<forall>t\<in>set (sem_waiters k s). thread_state k' t = RT_THREAD_READY \<and> rt_sem_take_resume t k' = RT_EOK)"
  by (rule workqueue_work_completion_ends[OF assms]) blast

theorem work_completion_ends_witness:
  "\<exists>k'. workqueue_work_completion 0 (demo (Suspended (ObjSem 0))) = Some (RT_EOK, k') \<and> sem_waiters k' 0 = []
     \<and> thread_state k' 2 = RT_THREAD_READY"
proof -
  have "sem_inv (demo (Suspended (ObjSem 0))) 0" by (simp add: sem_inv_def waiters_clean_def)
  from work_completion_ends[OF demo_kinv this, of 1] show ?thesis by auto
qed

text \<open>A work handed to an idle work queue is served: the worker becomes ready with the work last on its list, and
  what it takes next is the first work of the list.\<close>

theorem workqueue_serves:
  assumes "kinv k" "works_ok wq" "thread_state k (wq_thread wq) = RT_THREAD_SUSPEND" "wq_current wq = None"
  shows "\<exists>wq' k' first rest. rt_workqueue_dowork w wq k = Some (RT_EOK, wq', k') \<and> kinv k' \<and> works_ok wq'
    \<and> wq_list wq' = removeAll w (wq_list wq) @ [w] \<and> thread_state k' (wq_thread wq) = RT_THREAD_READY
    \<and> wq_list wq' = first # rest \<and> worker_takes wq' = Some (first, wq'\<lparr>wq_list := rest, wq_current := Some first\<rparr>)"
proof -
  let ?w = "wq\<lparr>wq_list := removeAll w (wq_list wq) @ [w]\<rparr>"
  obtain k' where k': "rt_workqueue_dowork w wq k = Some (RT_EOK, ?w, k')" "kinv k'" "thread_state k' (wq_thread wq) = RT_THREAD_READY"
    by (rule rt_workqueue_dowork_wakes[OF assms(1,3,4)])
  obtain first rest where l: "removeAll w (wq_list wq) @ [w] = first # rest" by (cases "removeAll w (wq_list wq) @ [w]") auto
  have "worker_takes ?w = Some (first, ?w\<lparr>wq_list := rest, wq_current := Some first\<rparr>)" by (simp add: worker_takes_def l)
  then show ?thesis using k' l works_ok_kept(1)[OF assms(2) k'(1)]
    by (intro exI[of _ ?w] exI[of _ k'] exI[of _ first] exI[of _ rest]) simp
qed

theorem workqueue_serves_witness:
  "\<exists>wq' k' first rest. rt_workqueue_dowork 4 \<lparr>wq_list = [], wq_current = None, wq_sem = 0, wq_thread = 2\<rparr> (demo (Senders 0)) = Some (RT_EOK, wq', k')
     \<and> wq_list wq' = [4] \<and> worker_takes wq' = Some (first, wq'\<lparr>wq_list := rest, wq_current := Some first\<rparr>)"
  using workqueue_serves[OF demo_kinv, of "Senders 0" "\<lparr>wq_list = [], wq_current = None, wq_sem = 0, wq_thread = 2\<rparr>" 4]
  by (fastforce simp: works_ok_def)

text \<open>The worker looks at its list before it suspends itself, and not again. A work that is handed in by an
  interrupt in between does not wake it, because it is still running: it suspends with the work on its list, and no
  timer will wake it.\<close>

theorem workqueue_misses_work:
  assumes "kinv k" "settled k" "current_thread k = Some (wq_thread wq)" "worker_sees_empty wq" "wq_current wq = None"
    "thread_state k u = RT_THREAD_READY" "u \<noteq> wq_thread wq"
  shows "\<exists>wq' k1 k2. rt_workqueue_dowork w wq k = Some (RT_EOK, wq', k1) \<and> worker_suspends k1 = Some k2
    \<and> wq_list wq' = [w] \<and> wq_current wq' = None \<and> thread_state k2 (wq_thread wq') = RT_THREAD_SUSPEND
    \<and> ThreadTimer (wq_thread wq') \<notin> set (timer_list k2)"
proof -
  have e: "wq_list wq = []" using assms(4) by (simp add: worker_sees_empty_def)
  obtain k1 where k1: "rt_workqueue_dowork w wq k = Some (RT_EOK, wq\<lparr>wq_list := removeAll w (wq_list wq) @ [w]\<rparr>, k1)"
    "kinv k1" "settled k1" "current_thread k1 = Some (wq_thread wq)" "threads k1 = threads k"
    by (rule rt_workqueue_dowork_running[OF assms(1-3,5)])
  have r: "thread_state k1 (wq_thread wq) = RT_THREAD_READY" using k1(3,4) by (simp add: settled_def most_urgent_def)
  have u: "thread_state k1 u = RT_THREAD_READY" using k1(5) assms(6) by (simp add: thread_state_def)
  obtain k2 where k2: "worker_suspends k1 = Some k2" "kinv k2" "thread_state k2 (wq_thread wq) = RT_THREAD_SUSPEND"
    "ThreadTimer (wq_thread wq) \<notin> set (timer_list k2)"
    by (rule worker_suspends_waits[OF k1(2,4) r u assms(7)])
  show ?thesis using k1(1) k2 e assms(5) by auto
qed

theorem workqueue_misses_work_witness:
  "\<exists>wq' k1 k2. rt_workqueue_dowork 4 \<lparr>wq_list = [], wq_current = None, wq_sem = 0, wq_thread = 1\<rparr> (demo (Senders 0)) = Some (RT_EOK, wq', k1)
     \<and> worker_suspends k1 = Some k2 \<and> wq_list wq' = [4] \<and> thread_state k2 (wq_thread wq') = RT_THREAD_SUSPEND"
proof -
  have "settled (demo (Senders 0))" by (auto simp: settled_def most_urgent_def)
  then show ?thesis
    using workqueue_misses_work[OF demo_kinv, of "Senders 0" "\<lparr>wq_list = [], wq_current = None, wq_sem = 0, wq_thread = 1\<rparr>" 0 4]
    by (fastforce simp: worker_sees_empty_def)
qed

text \<open>A work that is cancelled before the worker it has woken runs leaves the worker with an empty list, from which it
  takes an entry without looking.\<close>

theorem workqueue_cancelled_work:
  assumes "kinv k" "thread_state k (wq_thread wq) = RT_THREAD_SUSPEND" "wq_current wq = None" "wq_list wq = []"
  shows "\<exists>wq1 k1 wq2. rt_workqueue_dowork w wq k = Some (RT_EOK, wq1, k1) \<and> rt_workqueue_cancel_work w wq1 = (RT_EOK, wq2)
    \<and> thread_state k1 (wq_thread wq) = RT_THREAD_READY \<and> worker_takes wq2 = None"
proof -
  obtain k1 where k1: "rt_workqueue_dowork w wq k = Some (RT_EOK, wq\<lparr>wq_list := removeAll w (wq_list wq) @ [w]\<rparr>, k1)"
    "thread_state k1 (wq_thread wq) = RT_THREAD_READY"
    by (rule rt_workqueue_dowork_wakes[OF assms(1-3)])
  then show ?thesis using assms(3,4) by (auto simp: rt_workqueue_cancel_work_def worker_takes_def)
qed

end
