(* ===== verification/App_Bytes.thy ===== *)
theory App_Bytes
  imports App_Rtc
begin

text \<open>
  The conversions of \<open>User/Api/src/Public.c\<close>: between bytes and their text, between packed decimal (BCD) and
  numbers or dates, between integers and their bytes, and the checks of blocks. A buffer parameter is the list of
  the bytes at its address; a local buffer that is read beyond what was written to it has the bytes \<open>rest\<close>
  there. Of the standard library the code uses \<open>sprintf\<close> with \<open>%0<w>d\<close> (\<open>zero_pad\<close>), \<open>strlen\<close> and
  \<open>memcpy\<close>. The characters of the text are ASCII codes.
\<close>

subsection \<open>Text of numbers\<close>

fun digits :: "nat \<Rightarrow> u8 list" where
  "digits n = (if n < 10 then [of_nat n + 48] else digits (n div 10) @ [of_nat (n mod 10) + 48])"

declare digits.simps [simp del]

text \<open>\<open>sprintf("%0<w>d")\<close> of an \<open>int\<close>: a sign counts for the width.\<close>

definition zero_pad :: "nat \<Rightarrow> int \<Rightarrow> u8 list" where
  "zero_pad w v =
     (let ds = digits (nat \<bar>v\<bar>)
      in if v < 0 then 45 # replicate (w - 1 - length ds) 48 @ ds else replicate (w - length ds) 48 @ ds)"

definition Public_ConvertAscToVal :: "u8 \<Rightarrow> u8" where
  "Public_ConvertAscToVal val =
     (if val \<ge> 0x30 \<and> val \<le> 0x39 then val - 0x30
      else if val \<ge> 0x41 \<and> val \<le> 0x46 then val - 0x41 + 10
      else 0xff)"

definition Public_ConvertTwoAscToOneChar :: "u8 \<Rightarrow> u8 \<Rightarrow> u8 option" where
  "Public_ConvertTwoAscToOneChar val0 val1 =
     (let temp1 = Public_ConvertAscToVal val0 in
      if temp1 = 0xff then None
      else let temp = Public_ConvertAscToVal val1 in
        if temp = 0xff then None else Some (temp1 * 16 + temp))"

subsection \<open>Checks of blocks\<close>

definition Public_GetSumVerify :: "u8 list \<Rightarrow> u16 \<Rightarrow> u8" where
  "Public_GetSumVerify Pdata datalen = fold (\<lambda>i s. s + Pdata ! i) [0..<unat datalen] 0"

text \<open>The first byte is read whatever the length.\<close>

definition Public_GetXorVerify :: "u8 list \<Rightarrow> u16 \<Rightarrow> u8" where
  "Public_GetXorVerify Pdata datalen = fold (\<lambda>i v. v XOR Pdata ! i) [1..<unat datalen] (Pdata ! 0)"

fun first_difference :: "u8 list \<Rightarrow> u8 list \<Rightarrow> nat \<Rightarrow> nat \<Rightarrow> u8" where
  "first_difference a b i 0 = 0"
| "first_difference a b i (Suc n) = (if a ! i \<noteq> b ! i then 1 else first_difference a b (Suc i) n)"

definition Public_CheckArrayValIsEqual :: "u8 list \<Rightarrow> u8 list \<Rightarrow> u16 \<Rightarrow> u8" where
  "Public_CheckArrayValIsEqual a b len = first_difference a b 0 (unat len)"

text \<open>The destination is behind its first \<open>len\<close> bytes what it was.\<close>

definition Public_Mymemcpy :: "u8 list \<Rightarrow> u8 list \<Rightarrow> u16 \<Rightarrow> u8 \<Rightarrow> u8 list" where
  "Public_Mymemcpy des src len flag =
     (let n = unat len in
      if flag = 0 then fold (\<lambda>i d. d[i := src ! i]) [0..<n] des
      else fold (\<lambda>i d. d[n - 1 - i := src ! i]) [0..<n] des)"

subsection \<open>Packed decimals\<close>

definition Public_ConvertAscToBCD :: "u8 list \<Rightarrow> u8 \<Rightarrow> u8 list" where
  "Public_ConvertAscToBCD source len =
     map (\<lambda>i. push_bit 4 (source ! (2 * i) AND 0x0F) OR (source ! (2 * i + 1) AND 0x0F)) [0..<unat len]"

definition Public_ConvertBcdToAsc :: "u8 list \<Rightarrow> u8 \<Rightarrow> u8 list" where
  "Public_ConvertBcdToAsc pBcd BcdLen =
     concat (map (\<lambda>i. [drop_bit 4 (pBcd ! i) + 0x30, (pBcd ! i AND 0x0f) + 0x30]) [0..<unat BcdLen])"

definition Public_ConvertBcdToValue :: "u8 list \<Rightarrow> u8 \<Rightarrow> u8 list" where
  "Public_ConvertBcdToValue pBcd BcdLen =
     map (\<lambda>i. drop_bit 4 (pBcd ! i) * 10 + (pBcd ! i AND 0x0f)) [0..<unat BcdLen]"

definition Public_BCD2HEX :: "u8 \<Rightarrow> u8" where
  "Public_BCD2HEX val = (let temp = val AND 0x0f; val1 = drop_bit 4 val AND 0x0f; val2 = val1 * 10 in temp + val2)"

definition Public_HEX2BCD :: "u8 \<Rightarrow> u8" where
  "Public_HEX2BCD val = (let i = val div 10; j = val mod 10 in j + push_bit 4 i)"

definition Public_CheckStrIsBCD :: "u8 \<Rightarrow> u8" where
  "Public_CheckStrIsBCD val =
     (let temp = val div 16; temp1 = val mod 16 in if temp > 9 \<or> temp1 > 9 then 0xff else temp * 10 + temp1)"

text \<open>Numbers to BCD: the text is written to a buffer of 20 bytes, of which as many characters are converted
  as the text has, each two to a byte; the conversion therefore reads twice as many bytes as were
  written. \<open>%d\<close> takes the number as an \<open>int\<close>.\<close>

definition Public_ConvertShortToBCD :: "u16 \<Rightarrow> u8 list \<Rightarrow> u8 list" where
  "Public_ConvertShortToBCD val rest =
     (let v = (if val > 9999 then 9999 else val)
      in take 2 (Public_ConvertAscToBCD (zero_pad 4 (uint v) @ 0 # rest) 4))"

definition Public_ConvertShortToBCDEx :: "u16 \<Rightarrow> u8 list \<Rightarrow> u8 list" where
  "Public_ConvertShortToBCDEx val rest = take 3 (Public_ConvertAscToBCD (zero_pad 6 (uint val) @ 0 # rest) 6)"

definition Public_ConvertLongToBCD :: "u32 \<Rightarrow> u8 list \<Rightarrow> u8 list" where
  "Public_ConvertLongToBCD val rest =
     (let v = (if val > 99999999 then 99999999 else val)
      in take 4 (Public_ConvertAscToBCD (zero_pad 8 (sint v) @ 0 # rest) 8))"

definition Public_ConvertLongToBCDEx :: "u32 \<Rightarrow> u8 list \<Rightarrow> u8 list" where
  "Public_ConvertLongToBCDEx val rest = take 5 (Public_ConvertAscToBCD (zero_pad 10 (sint val) @ 0 # rest) 10)"

definition Public_ConvertBCDToLong :: "u8 list \<Rightarrow> u32" where
  "Public_ConvertBCDToLong buffer =
     (let data = Public_ConvertBcdToValue buffer 4
      in 1000000 * ucast (data ! 0) + 10000 * ucast (data ! 1) + 100 * ucast (data ! 2) + ucast (data ! 3))"

text \<open>The arguments of the conversion are the wrong way round: the bytes of the fresh local array \<open>data\<close> are
  converted into the caller's buffer. Returns the number and the buffer.\<close>

definition Public_ConvertBCDToShort :: "u8 list \<Rightarrow> u8 list \<Rightarrow> u16 \<times> u8 list" where
  "Public_ConvertBCDToShort data buffer =
     (ucast (100 * ucast (data ! 0) + ucast (data ! 1) :: u32), Public_ConvertBcdToValue data 4 @ drop 4 buffer)"

subsection \<open>Bytes of integers\<close>

definition Public_ConvertLongToBuffer :: "u32 \<Rightarrow> u8 list" where
  "Public_ConvertLongToBuffer value = map (\<lambda>k. ucast (drop_bit (8 * (3 - k)) value)) [0..<4]"

definition Public_ConvertBufferToLong :: "u8 list \<Rightarrow> u32" where
  "Public_ConvertBufferToLong buf =
     push_bit 24 (ucast (buf ! 0)) OR push_bit 16 (ucast (buf ! 1)) OR push_bit 8 (ucast (buf ! 2)) OR ucast (buf ! 3)"

definition Public_ConvertBufferToShort :: "u8 list \<Rightarrow> u16" where
  "Public_ConvertBufferToShort buf = push_bit 8 (ucast (buf ! 0)) OR ucast (buf ! 1)"

definition Public_ConvertShortToBuffer :: "u16 \<Rightarrow> u8 list" where
  "Public_ConvertShortToBuffer value = [ucast (drop_bit 8 value), ucast (value AND 0xff)]"

subsection \<open>Dates as packed decimals\<close>

text \<open>The six bytes of a \<open>TIME_T\<close>.\<close>

definition time_of_bytes :: "u8 list \<Rightarrow> TIME_T" where
  "time_of_bytes b = \<lparr>year = sint (b ! 0), month = sint (b ! 1), day = sint (b ! 2), hour = sint (b ! 3),
     mins = sint (b ! 4), sec = sint (b ! 5)\<rparr>"

definition time_text :: "TIME_T \<Rightarrow> u8 list" where
  "time_text t = concat (map (zero_pad 2) [year t, month t, day t, hour t, mins t, sec t])"

text \<open>\<open>None\<close>: the text and its final zero do not fit in the 20 bytes of the buffer.\<close>

definition Public_ConvertTimeToBCD :: "TIME_T \<Rightarrow> u8 list \<Rightarrow> u8 list option" where
  "Public_ConvertTimeToBCD stTime rest =
     (let buffer = [50, 48] @ time_text stTime
      in if length buffer \<ge> 20 then None
         else Some (take 7 (Public_ConvertAscToBCD (buffer @ 0 # rest) (of_nat (length buffer)))))"

definition Public_ConvertTimeToBCDEx :: "TIME_T \<Rightarrow> u8 list \<Rightarrow> u8 list option" where
  "Public_ConvertTimeToBCDEx stTime rest =
     (let buffer = time_text stTime
      in if length buffer \<ge> 20 then None
         else Some (take 6 (Public_ConvertAscToBCD (buffer @ 0 # rest) (of_nat (length buffer)))))"

definition Public_CheckTimeStruct :: "TIME_T \<Rightarrow> bool" where
  "Public_CheckTimeStruct tt \<longleftrightarrow> \<not> (year tt > END_YEAR \<or> year tt < 0 \<or> month tt > 12 \<or> month tt < 1 \<or> day tt > 31 \<or> day tt < 1
     \<or> hour tt > 23 \<or> hour tt < 0 \<or> mins tt > 59 \<or> mins tt < 0 \<or> sec tt > 59 \<or> sec tt < 0)"

definition Public_ConvertBCDToTimeEx :: "u8 list \<Rightarrow> TIME_T" where
  "Public_ConvertBCDToTimeEx data = time_of_bytes (Public_ConvertBcdToValue data 6)"

text \<open>\<open>None\<close> is the result 0, with the caller's date left as it was.\<close>

definition Public_ConvertBCDToTime :: "u8 list \<Rightarrow> TIME_T option" where
  "Public_ConvertBCDToTime data =
     (let buffer = Public_ConvertBcdToValue data 6
      in if Public_CheckTimeStruct (time_of_bytes buffer) then Some (time_of_bytes buffer) else None)"

subsection \<open>Decimal digits\<close>

fun decimals :: "nat \<Rightarrow> nat \<Rightarrow> nat list" where
  "decimals 0 n = []"
| "decimals (Suc w) n = decimals w (n div 10) @ [n mod 10]"

lemma length_decimals [simp]: "length (decimals w n) = w" by (induction w arbitrary: n) simp_all

lemma decimals_zero: "decimals w 0 = replicate w 0"
  by (induction w) (simp_all add: replicate_append_same)

lemma decimals_less: "d \<in> set (decimals w n) \<Longrightarrow> d < 10" by (induction w arbitrary: n) auto

lemma zero_pad_decimals: "n < 10 ^ w \<Longrightarrow> 0 < w \<Longrightarrow> zero_pad w (int n) = map (\<lambda>d. of_nat d + 48) (decimals w n)"
proof (induction w arbitrary: n)
  case (Suc w)
  show ?case
  proof (cases "n < 10")
    case True
    then have "digits n = [of_nat n + 48]" by (simp add: digits.simps[of n])
    then show ?thesis using True by (simp add: zero_pad_def decimals_zero)
  next
    case False
    then have w: "0 < w" using Suc.prems by (cases w) auto
    have "n div 10 < 10 ^ w" using Suc.prems by (simp add: less_mult_imp_div_less)
    then have ih: "zero_pad w (int (n div 10)) = map (\<lambda>d. of_nat d + 48) (decimals w (n div 10))" using Suc.IH w by blast
    have "digits n = digits (n div 10) @ [of_nat (n mod 10) + 48]" using False by (simp add: digits.simps[of n])
    then have "zero_pad (Suc w) (int n) = zero_pad w (int (n div 10)) @ [of_nat (n mod 10) + 48]"
      by (simp add: zero_pad_def Let_def nat_div_distrib flip: of_nat_div)
    then show ?thesis using ih by simp
  qed
qed simp

text \<open>Two digits, packed and read back.\<close>

definition packed :: "nat \<Rightarrow> nat \<Rightarrow> u8" where
  "packed a b = push_bit 4 (of_nat a) OR of_nat b"

lemma packed_digits:
  assumes "a < 10" "b < 10"
  shows "push_bit 4 ((of_nat a + 48 :: u8) AND 0x0F) OR ((of_nat b + 48) AND 0x0F) = packed a b"
    "drop_bit 4 (packed a b) * 10 + (packed a b AND 0x0f) = of_nat (10 * a + b)"
    "drop_bit 4 (packed a b) = of_nat a" "packed a b AND 0x0f = of_nat b"
proof -
  have "\<forall>a\<in>set [0..<10]. \<forall>b\<in>set [0..<10].
      push_bit 4 ((of_nat a + 48 :: u8) AND 0x0F) OR ((of_nat b + 48) AND 0x0F) = packed a b
      \<and> drop_bit 4 (packed a b) * 10 + (packed a b AND 0x0f) = of_nat (10 * a + b)
      \<and> drop_bit 4 (packed a b) = of_nat a \<and> packed a b AND 0x0f = of_nat b"
    unfolding packed_def by code_simp
  then have "push_bit 4 ((of_nat a + 48 :: u8) AND 0x0F) OR ((of_nat b + 48) AND 0x0F) = packed a b
      \<and> drop_bit 4 (packed a b) * 10 + (packed a b AND 0x0f) = of_nat (10 * a + b)
      \<and> drop_bit 4 (packed a b) = of_nat a \<and> packed a b AND 0x0f = of_nat b"
    using assms by (metis atLeastLessThan_iff atLeast_upt lessThan_iff)
  then show "push_bit 4 ((of_nat a + 48 :: u8) AND 0x0F) OR ((of_nat b + 48) AND 0x0F) = packed a b"
    "drop_bit 4 (packed a b) * 10 + (packed a b AND 0x0f) = of_nat (10 * a + b)"
    "drop_bit 4 (packed a b) = of_nat a" "packed a b AND 0x0f = of_nat b" by blast+
qed

lemma ascii_to_bcd:
  assumes d: "\<forall>d\<in>set ds. d < 10" and l: "2 * k \<le> length ds" and n: "k \<le> unat len"
  shows "take k (Public_ConvertAscToBCD (map (\<lambda>d. of_nat d + 48) ds @ rest) len) = map (\<lambda>i. packed (ds ! (2 * i)) (ds ! (2 * i + 1))) [0..<k]"
proof -
  have "take k [0..<unat len] = [0..<k]" using n by (simp add: take_upt)
  then have "take k (Public_ConvertAscToBCD (map (\<lambda>d. of_nat d + 48) ds @ rest) len)
      = map (\<lambda>i. push_bit 4 ((map (\<lambda>d. of_nat d + 48) ds @ rest) ! (2 * i) AND 0x0F)
          OR ((map (\<lambda>d. of_nat d + 48) ds @ rest) ! (2 * i + 1) AND 0x0F)) [0..<k]"
    by (simp add: Public_ConvertAscToBCD_def take_map)
  also have "\<dots> = map (\<lambda>i. packed (ds ! (2 * i)) (ds ! (2 * i + 1))) [0..<k]"
  proof (rule map_cong[OF refl])
    fix i assume "i \<in> set [0..<k]"
    then have i: "2 * i < length ds" "2 * i + 1 < length ds" using l by auto
    then have "ds ! (2 * i) < 10" "ds ! (2 * i + 1) < 10" using d by simp_all
    from packed_digits(1)[OF this] i
    show "push_bit 4 ((map (\<lambda>d. of_nat d + 48) ds @ rest) ! (2 * i) AND 0x0F)
          OR ((map (\<lambda>d. of_nat d + 48) ds @ rest) ! (2 * i + 1) AND 0x0F) = packed (ds ! (2 * i)) (ds ! (2 * i + 1))"
      by (simp add: nth_append)
  qed
  finally show ?thesis .
qed

lemma bcd_to_value:
  assumes "\<And>v. v \<in> set vs \<Longrightarrow> a v < 10 \<and> b v < 10" "unat len = length vs"
  shows "Public_ConvertBcdToValue (map (\<lambda>v. packed (a v) (b v)) vs) len = map (\<lambda>v. of_nat (10 * a v + b v)) vs"
  unfolding Public_ConvertBcdToValue_def
  by (rule nth_equalityI) (use assms packed_digits(2) in \<open>simp_all del: of_nat_add of_nat_mult\<close>)

subsection \<open>Round trips\<close>

text \<open>A date whose fields have two digits.\<close>

definition two_digit_time :: "TIME_T \<Rightarrow> bool" where
  "two_digit_time t \<longleftrightarrow> (\<forall>v\<in>{year t, month t, day t, hour t, mins t, sec t}. 0 \<le> v \<and> v < 100)"

lemma zero_pad_2: "0 \<le> v \<Longrightarrow> v < 100 \<Longrightarrow> zero_pad 2 v = map (\<lambda>d. of_nat d + 48) [nat v div 10, nat v mod 10]"
  using zero_pad_decimals[of "nat v" 2] by (simp add: numeral_2_eq_2)

lemma time_to_bcd:
  assumes "two_digit_time t"
  shows "Public_ConvertTimeToBCDEx t rest = Some (map (\<lambda>v. packed (nat v div 10) (nat v mod 10)) [year t, month t, day t, hour t, mins t, sec t])"
    "Public_ConvertTimeToBCD t rest = Some (packed 2 0 # map (\<lambda>v. packed (nat v div 10) (nat v mod 10)) [year t, month t, day t, hour t, mins t, sec t])"
proof -
  let ?vs = "[year t, month t, day t, hour t, mins t, sec t]"
  let ?ds = "concat (map (\<lambda>v. [nat v div 10, nat v mod 10]) ?vs)"
  have tx: "time_text t = map (\<lambda>d. of_nat d + 48) ?ds"
    using assms by (simp add: time_text_def two_digit_time_def zero_pad_2)
  have l: "\<forall>d\<in>set ?ds. d < 10" using assms by (auto simp: two_digit_time_def)
  show "Public_ConvertTimeToBCDEx t rest = Some (map (\<lambda>v. packed (nat v div 10) (nat v mod 10)) ?vs)"
    unfolding Public_ConvertTimeToBCDEx_def Let_def tx using ascii_to_bcd[OF l, of 6 12 "0 # rest"]
    by (simp add: upt_rec)
  have t2: "[50, 48] @ time_text t = map (\<lambda>d. of_nat d + 48) ([2, 0] @ ?ds)" unfolding tx by simp
  have l2: "\<forall>d\<in>set ([2, 0] @ ?ds). d < 10" using l by simp
  show "Public_ConvertTimeToBCD t rest = Some (packed 2 0 # map (\<lambda>v. packed (nat v div 10) (nat v mod 10)) ?vs)"
    unfolding Public_ConvertTimeToBCD_def Let_def t2 using ascii_to_bcd[OF l2, of 7 14 "0 # rest"]
    by (simp add: upt_rec)
qed

lemma sint_of_small: "0 \<le> v \<Longrightarrow> v < 100 \<Longrightarrow> sint (word_of_int v :: u8) = v"
  using s8_id[of v] by (simp add: s8_def)

lemma bcd_to_time:
  assumes "two_digit_time t"
  shows "Public_ConvertBCDToTimeEx (map (\<lambda>v. packed (nat v div 10) (nat v mod 10)) [year t, month t, day t, hour t, mins t, sec t]) = t"
proof -
  let ?vs = "[year t, month t, day t, hour t, mins t, sec t]"
  have "Public_ConvertBcdToValue (map (\<lambda>v. packed (nat v div 10) (nat v mod 10)) ?vs) 6
      = map (\<lambda>v. of_nat (10 * (nat v div 10) + nat v mod 10)) ?vs"
    by (rule bcd_to_value) (use assms in \<open>auto simp: two_digit_time_def\<close>)
  then show ?thesis using assms
    by (simp only: Public_ConvertBCDToTimeEx_def time_of_bytes_def two_digit_time_def list.map nth_Cons_0 nth_Cons_Suc numeral_eq_Suc pred_numeral_simps)
      (simp add: sint_of_small)
qed

lemma decimals_value: "n < 10 ^ w \<Longrightarrow> foldl (\<lambda>v d. 10 * v + d) 0 (decimals w n) = n"
  by (induction w arbitrary: n) (simp_all add: less_mult_imp_div_less)

lemma ucast_small: "k < 256 \<Longrightarrow> (ucast (of_nat k :: u8) :: u32) = of_nat k"
  by (simp add: word_unat_eq_iff unat_of_nat unsigned_of_nat take_bit_nat_eq_self)

lemma list_of_8: "length xs = 8 \<Longrightarrow> \<exists>d0 d1 d2 d3 d4 d5 d6 d7. xs = [d0, d1, d2, d3, d4, d5, d6, d7]"
  by (auto simp: numeral_eq_Suc length_Suc_conv)

lemma long_bcd_roundtrip:
  assumes "v \<le> 99999999"
  shows "Public_ConvertBCDToLong (Public_ConvertLongToBCD v rest) = v"
proof -
  let ?ds = "decimals 8 (unat v)"
  have n: "unat v < 10 ^ 8" using assms by (simp add: word_le_nat_alt)
  have "sint v = int (unat v)"
  proof -
    have "unat v < 100000000" using n by simp
    then have "int (unat v) < 2147483648 \<and> 0 \<le> int (unat v)" by linarith
    then have "uint v < 2147483648 \<and> 0 \<le> uint v" unfolding of_nat_unat .
    then have "uint v < 2147483648 \<and> - 2147483648 \<le> uint v" by linarith
    then have "signed_take_bit 31 (uint v) = uint v" by (intro signed_take_bit_int_eq_self) auto
    then show ?thesis by (simp add: sint_uint)
  qed
  then have tx: "zero_pad 8 (sint v) = map (\<lambda>d. of_nat d + 48) ?ds" using zero_pad_decimals[OF n] by simp
  have small: "\<forall>d\<in>set ?ds. d < 10" using decimals_less by blast
  have "Public_ConvertLongToBCD v rest = map (\<lambda>i. packed (?ds ! (2 * i)) (?ds ! (2 * i + 1))) [0..<4]"
    using assms ascii_to_bcd[OF small, of 4 8 "0 # rest"] by (simp add: Public_ConvertLongToBCD_def tx not_le[symmetric])
  moreover have "Public_ConvertBcdToValue (map (\<lambda>i. packed (?ds ! (2 * i)) (?ds ! (2 * i + 1))) [0..<4]) 4
      = map (\<lambda>i. of_nat (10 * ?ds ! (2 * i) + ?ds ! (2 * i + 1))) [0..<4]"
    by (rule bcd_to_value) (use small in auto)
  moreover obtain d0 d1 d2 d3 d4 d5 d6 d7 where ds: "?ds = [d0, d1, d2, d3, d4, d5, d6, d7]"
    using list_of_8[OF length_decimals[of 8 "unat v"]] by blast
  moreover have up: "[0..<4] = [0, 1, 2, 3]" by (simp add: upt_rec)
  ultimately have "Public_ConvertBcdToValue (Public_ConvertLongToBCD v rest) 4 =
      [of_nat (10 * d0 + d1), of_nat (10 * d2 + d3), of_nat (10 * d4 + d5), of_nat (10 * d6 + d7)]"
    by (simp only: up list.map) (simp add: nth_Cons')
  then have "Public_ConvertBCDToLong (Public_ConvertLongToBCD v rest) =
      1000000 * ucast (of_nat (10 * d0 + d1) :: u8) + 10000 * ucast (of_nat (10 * d2 + d3) :: u8)
      + 100 * ucast (of_nat (10 * d4 + d5) :: u8) + ucast (of_nat (10 * d6 + d7) :: u8)"
    by (simp only: Public_ConvertBCDToLong_def Let_def) (simp add: nth_Cons')
  also have "\<dots> = of_nat (1000000 * (10 * d0 + d1) + 10000 * (10 * d2 + d3) + 100 * (10 * d4 + d5) + (10 * d6 + d7))"
    using small unfolding ds by (simp add: ucast_small del: of_nat_add of_nat_mult) simp
  also have "1000000 * (10 * d0 + d1) + 10000 * (10 * d2 + d3) + 100 * (10 * d4 + d5) + (10 * d6 + d7) = unat v"
    using decimals_value[OF n] unfolding ds by simp
  finally show ?thesis by simp
qed

lemma bytes_of_long:
  fixes v :: u32
  shows "push_bit 24 (ucast (ucast (drop_bit 24 v) :: u8)) OR push_bit 16 (ucast (ucast (drop_bit 16 v) :: u8))
    OR push_bit 8 (ucast (ucast (drop_bit 8 v) :: u8)) OR ucast (ucast v :: u8) = v" (is "?l = v")
proof (rule bit_word_eqI)
  fix n assume "n < LENGTH(32)"
  then consider "n < 8" | "8 \<le> n" "n < 16" | "16 \<le> n" "n < 24" | "24 \<le> n" "n < 32" by fastforce
  then show "bit ?l n = bit v n" by cases (auto simp: bit_simps)
qed

lemma long_buffer_roundtrip: "Public_ConvertBufferToLong (Public_ConvertLongToBuffer v) = v"
proof -
  have l: "Public_ConvertLongToBuffer v = [ucast (drop_bit 24 v), ucast (drop_bit 16 v), ucast (drop_bit 8 v), ucast v]"
    by (simp add: Public_ConvertLongToBuffer_def upt_rec)
  show ?thesis using bytes_of_long[of v] by (simp add: Public_ConvertBufferToLong_def l)
qed

lemma short_buffer_roundtrip: "Public_ConvertBufferToShort (Public_ConvertShortToBuffer v) = v"
proof -
  have m: "(0xff :: u16) = mask 8" by (simp add: mask_eq_exp_minus_1)
  show ?thesis unfolding Public_ConvertBufferToShort_def Public_ConvertShortToBuffer_def m
    by (rule bit_word_eqI) (auto simp: bit_simps)
qed

end
