(* ===== verification/App_Public.thy ===== *)
theory App_Public
  imports App_Bytes
begin

text \<open>
  The rest of the logic of \<open>User/Api/src/Public.c\<close>: the tick-driven timers of an application table
  (\<open>LZM_TIMER\<close>) and the time ranges a parameter of the terminal may be valid in. A timer's function is a
  parameter, which may change the table. What shows text or voice, or reads and writes the FRAM, is not modelled.
\<close>

subsection \<open>Timers\<close>

abbreviation TIMER_ENABLE :: u8 where "TIMER_ENABLE \<equiv> 0xBA"
abbreviation TIMER_DISENABLE :: u8 where "TIMER_DISENABLE \<equiv> 0x10"
abbreviation ONCE :: u32 where "ONCE \<equiv> 0"

record lzm_timer =
  lt_counter :: u32
  lt_interval :: u32
  lt_enabled :: u8
  lt_operate :: "nat option"

definition LZM_PublicSetCycTimer :: "u32 \<Rightarrow> nat option \<Rightarrow> u32 \<Rightarrow> lzm_timer \<Rightarrow> lzm_timer" where
  "LZM_PublicSetCycTimer val function now st =
     st\<lparr>lt_enabled := TIMER_ENABLE, lt_counter := val + now, lt_interval := val, lt_operate := function\<rparr>"

definition LZM_PublicSetOnceTimer :: "u32 \<Rightarrow> nat option \<Rightarrow> u32 \<Rightarrow> lzm_timer \<Rightarrow> lzm_timer" where
  "LZM_PublicSetOnceTimer val function now st =
     st\<lparr>lt_enabled := TIMER_ENABLE, lt_counter := val + now, lt_interval := ONCE, lt_operate := function\<rparr>"

definition LZM_PublicKillTimer :: "lzm_timer \<Rightarrow> lzm_timer" where
  "LZM_PublicKillTimer st = st\<lparr>lt_enabled := TIMER_DISENABLE\<rparr>"

definition LZM_PublicGetTimerEnable :: "lzm_timer \<Rightarrow> u8" where
  "LZM_PublicGetTimerEnable st = (if TIMER_ENABLE = lt_enabled st then 1 else 0)"

definition LZM_PublicKillTimerAll :: "nat \<Rightarrow> lzm_timer list \<Rightarrow> lzm_timer list" where
  "LZM_PublicKillTimerAll maxtimes ts = fold (\<lambda>i ts. ts[i := LZM_PublicKillTimer (ts ! i)]) [0..<maxtimes] ts"

text \<open>What becomes of a timer that is due.\<close>

definition lzm_due :: "u32 \<Rightarrow> lzm_timer \<Rightarrow> bool" where
  "lzm_due now st \<longleftrightarrow> TIMER_ENABLE = lt_enabled st \<and> lt_counter st \<le> now"

definition lzm_rearm :: "u32 \<Rightarrow> lzm_timer \<Rightarrow> lzm_timer" where
  "lzm_rearm now st =
     (if ONCE = lt_interval st then st\<lparr>lt_enabled := TIMER_DISENABLE\<rparr>
      else let st1 = st\<lparr>lt_counter := lt_counter st + lt_interval st\<rparr>
           in if lt_counter st1 < now then st1\<lparr>lt_counter := now\<rparr> else st1)"

definition LZM_PublicTimerHandler ::
  "(nat \<Rightarrow> lzm_timer list \<times> 'e \<Rightarrow> lzm_timer list \<times> 'e) \<Rightarrow> nat \<Rightarrow> u32 \<Rightarrow> lzm_timer list \<times> 'e \<Rightarrow> lzm_timer list \<times> 'e" where
  "LZM_PublicTimerHandler call maxtimes now =
     fold (\<lambda>i (ts, e).
       if lzm_due now (ts ! i)
       then let ts1 = ts[i := lzm_rearm now (ts ! i)]
            in case lt_operate (ts1 ! i) of None \<Rightarrow> (ts1, e) | Some f \<Rightarrow> call f (ts1, e)
       else (ts, e)) [0..<maxtimes]"

subsection \<open>Time ranges\<close>

text \<open>\<open>PUBLIC_CHECKBIT\<close>.\<close>

definition PUBLIC_CHECKBIT :: "u32 \<Rightarrow> nat \<Rightarrow> bool" where
  "PUBLIC_CHECKBIT x n \<longleftrightarrow> x AND push_bit n 1 \<noteq> 0"

text \<open>The control word says which fields of a date count; what is compared is never 0.\<close>

definition Public_ConvertTimeToLong :: "u16 \<Rightarrow> TIME_T \<Rightarrow> u32" where
  "Public_ConvertTimeToLong ctrl st =
     (if ctrl = 0 then 0
      else let c = ucast ctrl :: u32; f = (word_of_int :: int \<Rightarrow> u32);
               t = (if PUBLIC_CHECKBIT c 0
                    then (((((f (year st) * 12 + f (month st)) * 31 + f (day st)) * 24 + f (hour st)) * 60 + f (mins st)) * 60 + f (sec st))
                    else if PUBLIC_CHECKBIT c 1 then (f (year st) * 12 + f (month st)) * 31 + f (day st)
                    else if PUBLIC_CHECKBIT c 2 then ((0 * 24 + f (hour st)) * 60 + f (mins st)) * 60 + f (sec st)
                    else if PUBLIC_CHECKBIT c 3 then (0 * 12 + f (month st)) * 31 + f (day st)
                    else if PUBLIC_CHECKBIT c 4 then 0
                    else if PUBLIC_CHECKBIT c 5 then 0 * 31 + f (day st)
                    else if PUBLIC_CHECKBIT c 6 then 0 * 12 + f (month st)
                    else if PUBLIC_CHECKBIT c 7 then f (year st)
                    else 0)
           in t + 1)"

definition Public_ConvertBCDTimeToLong :: "u16 \<Rightarrow> u8 list \<Rightarrow> u32" where
  "Public_ConvertBCDTimeToLong ctrl data =
     (if ctrl = 0 then 0 else Public_ConvertTimeToLong ctrl (Public_ConvertBCDToTimeEx data))"

definition Public_CheckTimeRangeIsValid :: "u16 \<Rightarrow> u32 \<Rightarrow> u32 \<Rightarrow> bool" where
  "Public_CheckTimeRangeIsValid ctrl startTime endTime =
     (if startTime = 0 \<or> endTime = 0 then False
      else if startTime = endTime \<and> (PUBLIC_CHECKBIT (ucast ctrl) 0 \<or> PUBLIC_CHECKBIT (ucast ctrl) 2) then False
      else True)"

definition Public_ConvertWeekDay :: "u8 \<Rightarrow> u8 \<Rightarrow> TIME_T \<Rightarrow> u32 \<Rightarrow> u32 \<Rightarrow> u8" where
  "Public_ConvertWeekDay flag week st startTime endTime =
     (if flag = 0 then week
      else if startTime > endTime \<and> hour st < 12 then (if week = 1 then 7 else week - 1)
      else week)"

definition Public_CheckTimeIsInRange :: "u32 \<Rightarrow> u32 \<Rightarrow> u32 \<Rightarrow> bool" where
  "Public_CheckTimeIsInRange curTime startTime endTime =
     (if startTime < endTime then startTime \<le> curTime \<and> curTime \<le> endTime
      else if startTime > endTime then startTime \<le> curTime \<or> curTime \<le> endTime
      else startTime = curTime)"

text \<open>The call that would find the day of the week is commented out: \<open>week0\<close> is what the uninitialised variable
  holds. A shift by less than 0 or more than 31 is undefined.\<close>

definition check_in_range :: "u16 \<Rightarrow> u8 \<Rightarrow> TIME_T \<Rightarrow> u32 \<Rightarrow> u32 \<Rightarrow> bool option" where
  "check_in_range ctrl week0 st startTime endTime =
     (let temp = drop_bit 8 (ctrl AND 0xff00);
          week = Public_ConvertWeekDay 0 week0 st startTime endTime
      in if temp \<noteq> 0 \<and> (week < 1 \<or> week > 32) then None
         else if temp \<noteq> 0 \<and> \<not> PUBLIC_CHECKBIT (ucast temp) (unat week - 1) then Some False
         else Some (Public_CheckTimeIsInRange (Public_ConvertTimeToLong ctrl st) startTime endTime))"

definition Public_CheckCurTimeIsInTimeRange :: "u16 \<Rightarrow> u8 \<Rightarrow> TIME_T \<Rightarrow> u32 \<Rightarrow> u32 \<Rightarrow> bool option" where
  "Public_CheckCurTimeIsInTimeRange ctrl week0 now startTime endTime =
     (if \<not> Public_CheckTimeRangeIsValid ctrl startTime endTime then Some False
      else check_in_range ctrl week0 now startTime endTime)"

text \<open>\<open>st0\<close> is what the uninitialised date holds, which \<open>Gmtime\<close> leaves for a counter beyond its range.\<close>

definition Public_CheckTimeIsInTimeRange :: "u16 \<Rightarrow> u8 \<Rightarrow> TIME_T \<Rightarrow> u32 \<Rightarrow> u32 \<Rightarrow> u32 \<Rightarrow> bool option" where
  "Public_CheckTimeIsInTimeRange ctrl week0 st0 checkTime startTime endTime =
     (if \<not> Public_CheckTimeRangeIsValid ctrl startTime endTime then Some False
      else do {
        st \<leftarrow> Gmtime st0 checkTime;
        check_in_range ctrl week0 st startTime endTime })"

definition Public_CheckCurTimeIsInEarlyAlarmTimeRange ::
  "u16 \<Rightarrow> u8 \<Rightarrow> TIME_T \<Rightarrow> u32 \<Rightarrow> u32 \<Rightarrow> u32 \<Rightarrow> u32 \<Rightarrow> bool option" where
  "Public_CheckCurTimeIsInEarlyAlarmTimeRange ctrl week0 st0 counter earlyTime startTime endTime =
     Public_CheckTimeIsInTimeRange ctrl week0 st0 (counter + earlyTime) startTime endTime"

subsection \<open>One round of the timers\<close>

text \<open>With functions that only leave a note, a round re-arms the due timers and calls their functions in the order of
  the table, each once.\<close>

definition lzm_note :: "nat \<Rightarrow> lzm_timer list \<times> nat list \<Rightarrow> lzm_timer list \<times> nat list" where
  "lzm_note f = (\<lambda>(ts, e). (ts, e @ [f]))"

definition lzm_step :: "u32 \<Rightarrow> lzm_timer \<Rightarrow> lzm_timer" where
  "lzm_step now st = (if lzm_due now st then lzm_rearm now st else st)"

definition lzm_calls :: "u32 \<Rightarrow> lzm_timer list \<Rightarrow> nat list" where
  "lzm_calls now ts = List.map_filter (\<lambda>st. if lzm_due now st then lt_operate st else None) ts"

lemma lzm_rearm_operate [simp]: "lt_operate (lzm_rearm now st) = lt_operate st"
  by (simp add: lzm_rearm_def Let_def)

lemma LZM_PublicTimerHandler_round:
  assumes "n \<le> length ts"
  shows "LZM_PublicTimerHandler lzm_note n now (ts, e)
    = (map (lzm_step now) (take n ts) @ drop n ts, e @ lzm_calls now (take n ts))"
  using assms
proof (induction n)
  case 0
  show ?case by (simp add: LZM_PublicTimerHandler_def lzm_calls_def List.map_filter_simps)
next
  case (Suc n)
  then have n: "n < length ts" by simp
  have tk: "take (Suc n) ts = take n ts @ [ts ! n]" using n by (simp add: take_Suc_conv_app_nth)
  have dr: "drop n ts = ts ! n # drop (Suc n) ts" using n by (simp add: Cons_nth_drop_Suc)
  have st: "LZM_PublicTimerHandler lzm_note (Suc n) now (ts, e) =
      (\<lambda>(ts, e). if lzm_due now (ts ! n) then let ts1 = ts[n := lzm_rearm now (ts ! n)]
            in case lt_operate (ts1 ! n) of None \<Rightarrow> (ts1, e) | Some f \<Rightarrow> lzm_note f (ts1, e) else (ts, e))
      (LZM_PublicTimerHandler lzm_note n now (ts, e))"
    by (simp add: LZM_PublicTimerHandler_def)
  let ?ts = "map (lzm_step now) (take n ts) @ drop n ts"
  have nth: "?ts ! n = ts ! n" "length ?ts = length ts" using n by (simp_all add: nth_append)
  have up: "?ts[n := v] = map (lzm_step now) (take n ts) @ v # drop (Suc n) ts" for v
    using n by (simp add: list_update_append dr)
  have ih: "LZM_PublicTimerHandler lzm_note n now (ts, e) = (?ts, e @ lzm_calls now (take n ts))"
    by (rule Suc.IH) (use n in simp)
  have calls: "lzm_calls now (take n ts @ [ts ! n]) = lzm_calls now (take n ts) @ lzm_calls now [ts ! n]"
    by (simp add: lzm_calls_def List.map_filter_def)
  have one: "lzm_calls now [ts ! n] = (if lzm_due now (ts ! n) then case lt_operate (ts ! n) of None \<Rightarrow> [] | Some f \<Rightarrow> [f] else [])"
    by (simp add: lzm_calls_def List.map_filter_simps split: option.split)
  have there: "?ts[n := v] ! n = v" for v using n nth(2) by simp
  have cur: "map (lzm_step now) (take n ts) @ drop n ts = map (lzm_step now) (take n ts) @ ts ! n # drop (Suc n) ts" unfolding dr ..
  show ?case
  proof (cases "lzm_due now (ts ! n)")
    case True
    have op: "lt_operate (?ts[n := lzm_rearm now (ts ! n)] ! n) = lt_operate (ts ! n)" unfolding there by simp
    show ?thesis unfolding st ih tk calls one prod.case nth(1) Let_def op unfolding up using True
      by (auto simp: lzm_note_def lzm_step_def split: option.split)
  next
    case False
    then show ?thesis unfolding st ih tk calls one prod.case nth(1) unfolding cur by (simp add: lzm_step_def)
  qed
qed

text \<open>A repeating timer that is due is next due one interval later, or at once when that has passed already.\<close>

lemma lzm_rearm_interval:
  assumes "lt_interval st \<noteq> ONCE" "unat (lt_counter st) + unat (lt_interval st) < 2 ^ 32"
  shows "unat (lt_counter (lzm_rearm now st)) = max (unat (lt_counter st) + unat (lt_interval st)) (unat now)"
    "lt_enabled (lzm_rearm now st) = lt_enabled st"
proof -
  have "unat (lt_counter st + lt_interval st) = unat (lt_counter st) + unat (lt_interval st)" using assms(2) by (simp add: unat_word_ariths)
  then show "unat (lt_counter (lzm_rearm now st)) = max (unat (lt_counter st) + unat (lt_interval st)) (unat now)"
    "lt_enabled (lzm_rearm now st) = lt_enabled st"
    using assms(1) by (auto simp: lzm_rearm_def Let_def word_less_nat_alt max_def)
qed

text \<open>A time that wraps is due at once.\<close>

lemma lzm_wraps_due:
  assumes "2 ^ 32 \<le> unat val + unat now"
  shows "lzm_due now (LZM_PublicSetOnceTimer val f now st)"
proof -
  have "unat (val + now) = unat val + unat now - 2 ^ 32"
    using assms unsigned_less[of val, where ?'a = nat] unsigned_less[of now, where ?'a = nat]
    by (simp add: unat_word_ariths mod_if)
  then have "val + now \<le> now" using unsigned_less[of val, where ?'a = nat] by (simp add: word_le_nat_alt)
  then show ?thesis by (simp add: lzm_due_def LZM_PublicSetOnceTimer_def)
qed

subsection \<open>Ranges go round\<close>

text \<open>A point is in the range when it is no further behind the start than the end is, going round.\<close>

lemma in_range_circular: "Public_CheckTimeIsInRange c s e \<longleftrightarrow> c - s \<le> e - s"
proof -
  have u: "unat (x - s) = (if s \<le> x then unat x - unat s else unat x + 2 ^ 32 - unat s)" for x :: u32
  proof (cases "s \<le> x")
    case False
    then show ?thesis by (simp add: unat_sub_if' word_le_nat_alt)
  qed (simp add: unat_sub)
  have "unat c < 2 ^ 32" "unat e < 2 ^ 32" "unat s < 2 ^ 32"
    using unsigned_less[of c, where ?'a = nat] unsigned_less[of e, where ?'a = nat] unsigned_less[of s, where ?'a = nat] by simp_all
  then show ?thesis
    unfolding word_le_nat_alt[of "c - s"] u Public_CheckTimeIsInRange_def
    by (auto simp: word_le_nat_alt word_less_nat_alt word_unat_eq_iff)
qed

subsection \<open>The order of dates\<close>

text \<open>The compared number of a date with all its fields, as a natural number.\<close>

definition date_key :: "nat \<Rightarrow> nat \<Rightarrow> nat \<Rightarrow> nat \<Rightarrow> nat \<Rightarrow> nat \<Rightarrow> nat" where
  "date_key k m d h i x = ((k * 12 + m) * 31 + d) * 86400 + h * 3600 + i * 60 + x"

lemma days_ordered:
  assumes m: "m < 12" "m' < 12" and d: "d < month_days (2013 + k) (Suc m)" and lt: "k * 12 + m < k' * 12 + m'"
  shows "days_before_year k + days_before_month (2013 + k) m + d < days_before_year k' + days_before_month (2013 + k') m'"
proof (cases "k = k'")
  case True
  then have "Suc m \<le> m'" using lt by simp
  then have "days_before_month (2013 + k) (Suc m) \<le> days_before_month (2013 + k) m'" by (rule days_before_month_mono)
  then show ?thesis using True d by simp
next
  case False
  then have kk: "Suc k \<le> k'" using lt m by linarith
  have "days_before_month (2013 + k) (Suc m) \<le> days_before_month (2013 + k) 12" using m by (intro days_before_month_mono) simp
  then have "days_before_year k + days_before_month (2013 + k) m + d < days_before_year (Suc k)"
    using d by (simp add: days_before_month_12)
  also have "\<dots> \<le> days_before_year k'" using kk by (rule days_before_year_mono)
  finally show ?thesis by simp
qed

lemma date_key_order:
  assumes m: "m < 12" "m' < 12" and d: "d < month_days (2013 + k) (Suc m)" "d' < month_days (2013 + k') (Suc m')"
    and t: "h < 24" "i < 60" "x < 60" and t': "h' < 24" "i' < 60" "x' < 60"
    and s: "s = (days_before_year k + days_before_month (2013 + k) m + d) * 86400 + h * 3600 + i * 60 + x"
    and s': "s' = (days_before_year k' + days_before_month (2013 + k') m' + d') * 86400 + h' * 3600 + i' * 60 + x'"
  shows "date_key k m d h i x \<le> date_key k' m' d' h' i' x' \<longleftrightarrow> s \<le> s'"
proof -
  have d31: "d < 31" "d' < 31" using d month_days_bounds[of "Suc m" "2013 + k"] month_days_bounds[of "Suc m'" "2013 + k'"] m by simp_all
  define a where "a = k * 12 + m"
  define a' where "a' = k' * 12 + m'"
  define r where "r = days_before_year k + days_before_month (2013 + k) m"
  define r' where "r' = days_before_year k' + days_before_month (2013 + k') m'"
  define c where "c = h * 3600 + i * 60 + x"
  define c' where "c' = h' * 3600 + i' * 60 + x'"
  have cl: "c < 86400" "c' < 86400" using t t' by (simp_all add: c_def c'_def)
  have less: "a < a' \<Longrightarrow> r + d < r'" "a' < a \<Longrightarrow> r' + d' < r"
    using days_ordered[OF m d(1)] days_ordered[OF m(2,1) d(2)] by (simp_all add: a_def a'_def r_def r'_def)
  have same: "a = a' \<Longrightarrow> r = r'"
  proof -
    assume "a = a'"
    then have "k = k' \<and> m = m'" using m by (simp add: a_def a'_def) (metis add.commute div_mult_self3 div_less mod_less mod_mult_self3 add_right_cancel zero_neq_numeral add_0_right)
    then show "r = r'" by (simp add: r_def r'_def)
  qed
  have k: "date_key k m d h i x = (a * 31 + d) * 86400 + c" "date_key k' m' d' h' i' x' = (a' * 31 + d') * 86400 + c'"
    by (simp_all add: date_key_def a_def a'_def c_def c'_def)
  have ss: "s = (r + d) * 86400 + c" "s' = (r' + d') * 86400 + c'"
    by (simp_all add: s s' r_def r'_def c_def c'_def)
  consider "a < a'" | "a' < a" | "a = a'" by linarith
  then show ?thesis
  proof cases
    case 1
    have "a * 31 + d + 1 \<le> a' * 31 + d'" using 1 d31 by linarith
    then have "(a * 31 + d) * 86400 + c \<le> (a' * 31 + d') * 86400 + c'" using cl by (simp add: algebra_simps)
    moreover have "r + d + 1 \<le> r' + d'" using less(1)[OF 1] by linarith
    then have "(r + d) * 86400 + c \<le> (r' + d') * 86400 + c'" using cl by (simp add: algebra_simps)
    ultimately show ?thesis unfolding k ss by simp
  next
    case 2
    have "a' * 31 + d' + 1 \<le> a * 31 + d" using 2 d31 by linarith
    then have "(a' * 31 + d') * 86400 + c' < (a * 31 + d) * 86400 + c" using cl by (simp add: algebra_simps)
    moreover have "r' + d' + 1 \<le> r + d" using less(2)[OF 2] by linarith
    then have "(r' + d') * 86400 + c' < (r + d) * 86400 + c" using cl by (simp add: algebra_simps)
    ultimately show ?thesis unfolding k ss by simp
  next
    case 3
    then show ?thesis using same unfolding k ss by simp
  qed
qed

lemma ConvertTimeToLong_key:
  "Public_ConvertTimeToLong 1 \<lparr>year = 13 + int k, month = 1 + int m, day = 1 + int d, hour = int h, mins = int i, sec = int x\<rparr>
     = of_nat (date_key k m d h i x + 420595201)"
proof -
  have "PUBLIC_CHECKBIT 1 0" by (simp add: PUBLIC_CHECKBIT_def)
  then show ?thesis by (simp add: Public_ConvertTimeToLong_def date_key_def algebra_simps)
qed

text \<open>Dates of the calendar are ordered as their counters are.\<close>

lemma ConvertTimeToLong_order:
  assumes "date_upto 70 a" "date_upto 70 b"
  shows "Public_ConvertTimeToLong 1 a \<le> Public_ConvertTimeToLong 1 b \<longleftrightarrow> seconds a \<le> seconds b" "Public_ConvertTimeToLong 1 a \<noteq> 0"
proof -
  obtain k m d h i x where A: "a = \<lparr>year = 13 + int k, month = 1 + int m, day = 1 + int d, hour = int h, mins = int i, sec = int x\<rparr>"
    "13 + int k \<le> 70" "m < 12" "d < month_days (2013 + k) (Suc m)" "h < 24" "i < 60" "x < 60"
    "seconds a = (days_before_year k + days_before_month (2013 + k) m + d) * 86400 + h * 3600 + i * 60 + x"
    by (rule date_uptoE[OF assms(1)])
  obtain k' m' d' h' i' x' where B: "b = \<lparr>year = 13 + int k', month = 1 + int m', day = 1 + int d', hour = int h', mins = int i', sec = int x'\<rparr>"
    "13 + int k' \<le> 70" "m' < 12" "d' < month_days (2013 + k') (Suc m')" "h' < 24" "i' < 60" "x' < 60"
    "seconds b = (days_before_year k' + days_before_month (2013 + k') m' + d') * 86400 + h' * 3600 + i' * 60 + x'"
    by (rule date_uptoE[OF assms(2)])
  have small: "date_key k m d h i x + 420595201 < 2 ^ 32"
    if "13 + int k \<le> 70" "m < 12" "d < month_days (2013 + k) (Suc m)" "h < 24" "i < 60" "x < 60" for k m d h i x
  proof -
    have "d < 31" using that(2,3) month_days_bounds[of "Suc m" "2013 + k"] by simp
    then have "(k * 12 + m) * 31 + d \<le> 21576" using that(1,2) by simp
    moreover have "h * 3600 + i * 60 + x < 86400" using that(4-6) by simp
    ultimately show ?thesis unfolding date_key_def by simp
  qed
  note sa = small[OF A(2-7)] and sb = small[OF B(2-7)]
  have ka: "unat (Public_ConvertTimeToLong 1 a) = date_key k m d h i x + 420595201"
    unfolding A(1) ConvertTimeToLong_key using sa by (simp add: unat_of_nat del: of_nat_add)
  have kb: "unat (Public_ConvertTimeToLong 1 b) = date_key k' m' d' h' i' x' + 420595201"
    unfolding B(1) ConvertTimeToLong_key using sb by (simp add: unat_of_nat del: of_nat_add)
  show "Public_ConvertTimeToLong 1 a \<le> Public_ConvertTimeToLong 1 b \<longleftrightarrow> seconds a \<le> seconds b"
    using date_key_order[OF A(3) B(3) A(4) B(4) A(5-7) B(5-7) A(8) B(8)] by (simp add: word_le_nat_alt ka kb)
  show "Public_ConvertTimeToLong 1 a \<noteq> 0" using ka by auto
qed

end
