(* ===== verification/App_LzmQueue.thy ===== *)
theory App_LzmQueue
  imports RT_Ring RT_Prelude
begin

text \<open>
  The byte queue of \<open>User/Api/src/Public.c\<close> (\<open>ST_QUEUE\<close>): a front, a rear, a count and a capacity of 16 bits
  over a byte buffer. \<open>QUEUE_TYPE\<close> is the circular queue; the system queues (\<open>USE_SYS_QUEUE\<close>) and the stack
  (\<open>USE_STACK\<close>) are not compiled. Sums and comparisons of the 16-bit fields are done on \<open>int\<close> by the
  code; a store narrows. A single insert or delete is \<open>None\<close> where it would touch a byte behind the
  buffer; a buffer parameter is the bytes at its address.
\<close>

subsection \<open>Operations\<close>

record st_queue =
  q_datalen :: u16
  q_front :: u16
  q_rear :: u16
  q_count :: u16
  q_data :: "u8 list"

definition LZM_QueueClear :: "st_queue \<Rightarrow> st_queue" where
  "LZM_QueueClear q = q\<lparr>q_front := 0, q_rear := 0, q_count := 0\<rparr>"

definition LZM_QueueEmpty :: "st_queue \<Rightarrow> bool" where
  "LZM_QueueEmpty q \<longleftrightarrow> 0 = q_count q"

definition LZM_QueueFull :: "st_queue \<Rightarrow> bool" where
  "LZM_QueueFull q \<longleftrightarrow> q_count q = q_datalen q"

definition LZM_QueueInsert :: "u8 \<Rightarrow> st_queue \<Rightarrow> st_queue option" where
  "LZM_QueueInsert x q =
     (if LZM_QueueFull q then Some q
      else if unat (q_rear q) \<ge> length (q_data q) then None
      else let q1 = q\<lparr>q_data := (q_data q)[unat (q_rear q) := x], q_rear := q_rear q + 1\<rparr>;
               q2 = (if q_rear q1 \<ge> q_datalen q1 then q1\<lparr>q_rear := 0\<rparr> else q1)
           in Some (q2\<lparr>q_count := q_count q2 + 1\<rparr>))"

definition LZM_QueueDataBatchInsert :: "u8 list \<Rightarrow> u16 \<Rightarrow> st_queue \<Rightarrow> u16 \<times> st_queue" where
  "LZM_QueueDataBatchInsert src datalen q =
     (if LZM_QueueFull q then (0, q)
      else let count = (if unat (q_count q) + unat datalen > unat (q_datalen q) then q_datalen q - q_count q else datalen);
               rear = unat (q_rear q);
               q1 = (if rear + unat count > unat (q_datalen q)
                     then let count1 = unat (q_datalen q - q_rear q)
                          in q\<lparr>q_data := blit (blit (q_data q) rear (take count1 src)) 0 (take (unat count - count1) (drop count1 src)),
                               q_rear := of_nat (unat count - count1)\<rparr>
                     else q\<lparr>q_data := blit (q_data q) rear (take (unat count) src), q_rear := q_rear q + count\<rparr>)
           in (count, q1\<lparr>q_count := q_count q1 + count\<rparr>))"

definition LZM_QueueDelete :: "st_queue \<Rightarrow> (u8 \<times> st_queue) option" where
  "LZM_QueueDelete q =
     (if LZM_QueueEmpty q then Some (0, q)
      else if unat (q_front q) \<ge> length (q_data q) then None
      else let x = q_data q ! unat (q_front q);
               q1 = q\<lparr>q_count := q_count q - 1, q_front := q_front q + 1\<rparr>
           in Some (x, if q_front q1 \<ge> q_datalen q1 then q1\<lparr>q_front := 0\<rparr> else q1))"

definition LZM_QueueDataBatchDelete :: "u16 \<Rightarrow> st_queue \<Rightarrow> u16 \<times> u8 list \<times> st_queue" where
  "LZM_QueueDataBatchDelete maxcount q =
     (if LZM_QueueEmpty q then (0, [], q)
      else let count = (if q_count q > maxcount then maxcount else q_count q);
               q1 = q\<lparr>q_count := q_count q - count\<rparr>; front = unat (q_front q)
           in if front + unat count > unat (q_datalen q)
              then let count1 = unat (q_datalen q - q_front q); rest = unat count - count1
                   in (count, take count1 (drop front (q_data q)) @ take rest (q_data q), q1\<lparr>q_front := of_nat rest\<rparr>)
              else (count, take (unat count) (drop front (q_data q)), q1\<lparr>q_front := q_front q + count\<rparr>))"

text \<open>The parameters are saved and brought back; the bytes are not.\<close>

definition LZM_QueueBackUpParam :: "st_queue \<Rightarrow> st_queue \<Rightarrow> st_queue" where
  "LZM_QueueBackUpParam src bak = bak\<lparr>q_datalen := q_datalen src, q_count := q_count src, q_front := q_front src, q_rear := q_rear src\<rparr>"

definition LZM_QueueRecoveryParam :: "st_queue \<Rightarrow> st_queue \<Rightarrow> st_queue" where
  "LZM_QueueRecoveryParam des bak = des\<lparr>q_datalen := q_datalen bak, q_count := q_count bak, q_front := q_front bak, q_rear := q_rear bak\<rparr>"

definition LZM_QueueDataCount :: "st_queue \<Rightarrow> u16" where
  "LZM_QueueDataCount q = q_count q"

definition LZM_QueueDataFreeSpace :: "st_queue \<Rightarrow> u16" where
  "LZM_QueueDataFreeSpace q = q_datalen q - q_count q"

definition LZM_QueueDataInit :: "u8 list \<Rightarrow> int \<Rightarrow> st_queue \<Rightarrow> st_queue" where
  "LZM_QueueDataInit data dataLen q = LZM_QueueClear (q\<lparr>q_data := data, q_datalen := word_of_int dataLen\<rparr>)"

subsection \<open>The bytes of a queue\<close>

text \<open>The rear and the front may stand right behind the buffer: a block that ends at its end leaves them there.\<close>

definition lzm_ok :: "st_queue \<Rightarrow> bool" where
  "lzm_ok q \<longleftrightarrow> 0 < q_datalen q \<and> length (q_data q) = unat (q_datalen q) \<and> q_front q \<le> q_datalen q \<and> q_rear q \<le> q_datalen q
     \<and> q_count q \<le> q_datalen q
     \<and> unat (q_rear q) mod unat (q_datalen q) = (unat (q_front q) + unat (q_count q)) mod unat (q_datalen q)"

definition lzm_items :: "st_queue \<Rightarrow> u8 list" where
  "lzm_items q = ring_window (q_data q) (unat (q_datalen q)) (unat (q_front q)) (unat (q_count q))"

lemma length_lzm_items [simp]: "length (lzm_items q) = unat (q_count q)"
  by (simp add: lzm_items_def)

lemma lzm_init_ok:
  "0 < dataLen \<Longrightarrow> dataLen < 65536 \<Longrightarrow> length data = nat dataLen \<Longrightarrow>
   lzm_ok (LZM_QueueDataInit data dataLen q) \<and> lzm_items (LZM_QueueDataInit data dataLen q) = []"
  by (simp add: lzm_ok_def lzm_items_def LZM_QueueDataInit_def LZM_QueueClear_def ring_window_def word_less_nat_alt
      unat_eq_nat_uint uint_word_of_int)

lemma ring_blit_end: "src \<noteq> [] \<Longrightarrow> length src \<le> length pool \<Longrightarrow> ring_blit pool (length pool) src = ring_blit pool 0 src"
  by (simp add: ring_blit_def blit_def Let_def)

lemma unat_diff16: "(b :: u16) \<le> a \<Longrightarrow> unat (a - b) = unat a - unat b"
  by (simp add: unat_sub)

lemma unat_add16: "unat (a :: u16) + unat b \<le> unat (c :: u16) \<Longrightarrow> unat (a + b) = unat a + unat b"
  using unsigned_less[of c, where ?'a = nat] by (simp add: unat_word_ariths)

lemma unat_of16: "n \<le> unat (c :: u16) \<Longrightarrow> unat (of_nat n :: u16) = n"
  using unsigned_less[of c, where ?'a = nat] by (simp add: unat_of_nat)

text \<open>A block insert appends what fits.\<close>

lemma lzm_batch_insert:
  assumes ok: "lzm_ok q" and l: "unat datalen \<le> length src" and b: "LZM_QueueDataBatchInsert src datalen q = (count, q')"
  shows "unat count = min (unat datalen) (unat (q_datalen q) - unat (q_count q))" (is ?c) "lzm_ok q'"
    "lzm_items q' = lzm_items q @ take (unat count) src" "q_datalen q' = q_datalen q"
proof -
  define n where "n = unat (q_datalen q)"
  define a where "a = unat (q_front q)"
  define e where "e = unat (q_count q)"
  define r where "r = unat (q_rear q)"
  have n0: "0 < n" "length (q_data q) = n" "a \<le> n" "r \<le> n" "e \<le> n" "r mod n = (a + e) mod n"
    using ok by (simp_all add: lzm_ok_def word_le_nat_alt n_def a_def e_def r_def word_less_nat_alt)
  have all: "?c \<and> lzm_ok q' \<and> lzm_items q' = lzm_items q @ take (unat count) src \<and> q_datalen q' = q_datalen q"
  proof (cases "LZM_QueueFull q")
    case True
    then show ?thesis using b ok by (auto simp: LZM_QueueDataBatchInsert_def LZM_QueueFull_def)
  next
    case False
    let ?count = "if unat (q_count q) + unat datalen > unat (q_datalen q) then q_datalen q - q_count q else datalen"
    have cn: "count = ?count" using b False by (auto simp: LZM_QueueDataBatchInsert_def Let_def split: if_splits)
    define c where "c = unat count"
    have c: "c = min (unat datalen) (n - e)"
      using n0(5) unfolding c_def cn by (auto simp: unat_diff16 word_le_nat_alt n_def e_def)
    have cl: "length (take c src) = c" using c l by simp
    have fit: "e + c \<le> n" using c n0(5) by simp
    let ?src = "take c src"
    have q': "q_data q' = (if c = 0 then q_data q else ring_blit (q_data q) r ?src)" "q_datalen q' = q_datalen q"
      "q_front q' = q_front q" "unat (q_count q') = e + c"
      "unat (q_rear q') = (if r + c > n then r + c - n else r + c)"
    proof -
      have d: "unat (q_datalen q - q_rear q) = n - r" using n0(4) by (simp add: unat_diff16 word_le_nat_alt n_def r_def)
      have cc: "unat (q_count q + count) = e + c" using fit unat_add16[of "q_count q" count "q_datalen q"] by (simp add: e_def c_def n_def)
      have qd: "q' = (if r + c > n
          then q\<lparr>q_data := blit (blit (q_data q) r (take (n - r) src)) 0 (take (c - (n - r)) (drop (n - r) src)),
                 q_rear := of_nat (c - (n - r)), q_count := q_count q + count\<rparr>
          else q\<lparr>q_data := blit (q_data q) r (take c src), q_rear := q_rear q + count, q_count := q_count q + count\<rparr>)"
        using b False cn d by (auto simp: LZM_QueueDataBatchInsert_def Let_def c_def n_def r_def split: if_splits)
      show "q_datalen q' = q_datalen q" "q_front q' = q_front q" "unat (q_count q') = e + c" using qd cc by simp_all
      show "unat (q_rear q') = (if r + c > n then r + c - n else r + c)"
      proof (cases "r + c > n")
        case True
        have "unat (of_nat (c - (n - r)) :: u16) = c - (n - r)" using fit by (intro unat_of16[of _ "q_datalen q"]) (simp add: n_def)
        then show ?thesis using qd True n0(4) by simp
      next
        case False
        then show ?thesis using qd unat_add16[of "q_rear q" count "q_datalen q"] by (simp add: r_def c_def n_def)
      qed
      show "q_data q' = (if c = 0 then q_data q else ring_blit (q_data q) r ?src)"
      proof (cases "r + c > n")
        case True
        then have "\<not> length ?src \<le> length (q_data q) - r" "c \<noteq> 0" using cl n0 by simp_all
        moreover have "take (n - r) ?src = take (n - r) src" using True by simp
        moreover have "drop (n - r) ?src = take (c - (n - r)) (drop (n - r) src)" by (simp add: drop_take)
        ultimately show ?thesis using qd True n0(2) by (simp add: ring_blit_def Let_def)
      next
        case False
        then have "length ?src \<le> length (q_data q) - r" using cl n0 by simp
        then show ?thesis using qd False by (cases "c = 0") (simp_all add: ring_blit_def Let_def blit_def)
      qed
    qed
    have an: "a mod n < n" using n0(1) by simp
    have am: "(a mod n + e) mod n = (a + e) mod n" by (simp add: mod_add_left_eq)
    have pool: "q_data q' = ring_blit (q_data q) ((a mod n + e) mod n) ?src"
    proof (cases "c = 0")
      case True
      then show ?thesis using q'(1) by (simp add: ring_blit_def blit_def)
    next
      case False
      then have ne: "?src \<noteq> []" using cl by auto
      show ?thesis
      proof (cases "r = n")
        case True
        have "(a + e) mod n = 0" using n0(6) True by simp
        then show ?thesis using q'(1) False ring_blit_end[OF ne, of "q_data q"] True n0(2) cl fit am by simp
      next
        case rn: False
        then have "(a + e) mod n = r" using n0(4,6) by simp
        then show ?thesis using q'(1) False am by simp
      qed
    qed
    have items: "lzm_items q' = lzm_items q @ ?src"
    proof -
      have "lzm_items q' = ring_window (q_data q') n (a mod n) (e + length ?src)"
        using q' cl by (simp add: lzm_items_def ring_window_shift n_def a_def)
      also have "\<dots> = ring_window (q_data q) n (a mod n) e @ ?src"
        unfolding pool by (rule ring_window_blit) (use n0 an fit cl in simp_all)
      finally show ?thesis by (simp add: lzm_items_def ring_window_shift n_def a_def e_def)
    qed
    have "length (q_data q') = n" unfolding pool using n0 cl fit by simp
    moreover have "unat (q_rear q') \<le> n" using q'(5) n0(4) fit by auto
    moreover have "unat (q_rear q') mod n = (a + (e + c)) mod n"
    proof -
      have "unat (q_rear q') mod n = (r + c) mod n" using q'(5) by (simp add: le_mod_geq)
      also have "\<dots> = (a + e + c) mod n" using n0(6) by (metis mod_add_left_eq)
      finally show ?thesis by (simp add: add.assoc)
    qed
    ultimately have "lzm_ok q'"
      using ok q' fit by (simp add: lzm_ok_def word_le_nat_alt n_def a_def)
    then show ?thesis using items c q'(2) by (simp add: c_def n_def e_def)
  qed
  then show ?c "lzm_ok q'" "lzm_items q' = lzm_items q @ take (unat count) src" "q_datalen q' = q_datalen q" by simp_all
qed

text \<open>A block delete takes the oldest bytes.\<close>

lemma lzm_batch_delete:
  assumes ok: "lzm_ok q" and b: "LZM_QueueDataBatchDelete maxcount q = (count, out, q')"
  shows "unat count = min (unat maxcount) (unat (q_count q))" (is ?c) "lzm_ok q'"
    "lzm_items q = out @ lzm_items q'" "length out = unat count" "q_datalen q' = q_datalen q"
proof -
  define n where "n = unat (q_datalen q)"
  define a where "a = unat (q_front q)"
  define e where "e = unat (q_count q)"
  have n0: "0 < n" "length (q_data q) = n" "a \<le> n" "e \<le> n"
    using ok by (simp_all add: lzm_ok_def word_le_nat_alt n_def a_def e_def word_less_nat_alt)
  have all: "?c \<and> lzm_ok q' \<and> lzm_items q = out @ lzm_items q' \<and> length out = unat count \<and> q_datalen q' = q_datalen q"
  proof (cases "LZM_QueueEmpty q")
    case True
    then show ?thesis using b ok by (auto simp: LZM_QueueDataBatchDelete_def LZM_QueueEmpty_def)
  next
    case False
    have cn: "count = (if q_count q > maxcount then maxcount else q_count q)"
      using b False by (auto simp: LZM_QueueDataBatchDelete_def Let_def split: if_splits)
    define c where "c = unat count"
    have c: "c = min (unat maxcount) e" unfolding c_def cn by (auto simp: e_def word_less_nat_alt)
    have d: "unat (q_datalen q - q_front q) = n - a" using n0(3) by (simp add: unat_diff16 word_le_nat_alt n_def a_def)
    have qd: "q' = (if a + c > n then q\<lparr>q_count := q_count q - count, q_front := of_nat (c - (n - a))\<rparr>
          else q\<lparr>q_count := q_count q - count, q_front := q_front q + count\<rparr>)"
      "out = (if a + c > n then take (n - a) (drop a (q_data q)) @ take (c - (n - a)) (q_data q) else take c (drop a (q_data q)))"
      using b False cn d by (auto simp: LZM_QueueDataBatchDelete_def Let_def c_def n_def a_def split: if_splits)
    have out: "out = ring_read (q_data q) a c"
    proof (cases "a + c > n")
      case True
      then have "\<not> c \<le> n - a" using n0(3) by simp
      then show ?thesis using qd(2) True n0(2) by (simp add: ring_read_def Let_def)
    next
      case False
      then have "c \<le> n - a" by simp
      then show ?thesis using qd(2) False n0(2) by (simp add: ring_read_def Let_def)
    qed
    have q': "q_data q' = q_data q" "q_datalen q' = q_datalen q" "unat (q_count q') = e - c"
      "q_rear q' = q_rear q" "unat (q_front q') \<le> n" "unat (q_front q') mod n = (a + c) mod n"
    proof -
      have "count \<le> q_count q" using c by (simp add: word_le_nat_alt c_def e_def)
      then have cc: "unat (q_count q - count) = e - c" by (simp add: unat_diff16 e_def c_def)
      show "q_data q' = q_data q" "q_datalen q' = q_datalen q" "unat (q_count q') = e - c" "q_rear q' = q_rear q"
        using qd(1) cc by simp_all
      have fr: "unat (q_front q') = (if a + c > n then c - (n - a) else a + c)"
      proof (cases "a + c > n")
        case True
        have "unat (of_nat (c - (n - a)) :: u16) = c - (n - a)" using c n0(4) by (intro unat_of16[of _ "q_datalen q"]) (simp add: n_def)
        then show ?thesis using qd(1) True by simp
      next
        case False
        then show ?thesis using qd(1) unat_add16[of "q_front q" count "q_datalen q"] by (simp add: a_def c_def n_def)
      qed
      then show "unat (q_front q') \<le> n" using c n0(4) by auto
      have "unat (q_front q') = (if a + c > n then a + c - n else a + c)" using fr n0(3) by auto
      then show "unat (q_front q') mod n = (a + c) mod n" by (simp add: le_mod_geq)
    qed
    have rd: "ring_read (q_data q) a c = ring_window (q_data q) n a c"
    proof (cases "a = n")
      case True
      have "ring_read (q_data q) n c = ring_read (q_data q) 0 c" using n0 c by (simp add: ring_read_def Let_def)
      also have "\<dots> = ring_window (q_data q) n (n mod n) c" using ring_read_window[of "q_data q" n 0 c] n0 c by simp
      finally show ?thesis unfolding True ring_window_shift .
    next
      case False
      then show ?thesis using ring_read_window[of "q_data q" n a c] n0 c by simp
    qed
    have w: "ring_window (q_data q) n a e = ring_window (q_data q) n a c @ ring_window (q_data q) n ((a + c) mod n) (e - c)"
      using c by (intro ring_window_split) simp
    have "lzm_items q' = ring_window (q_data q) n (unat (q_front q') mod n) (e - c)"
      unfolding ring_window_shift using q'(1-3) by (simp add: lzm_items_def n_def)
    then have items: "lzm_items q = out @ lzm_items q'" using w q'(6) out rd by (simp add: lzm_items_def n_def a_def e_def)
    have "unat (q_rear q) mod n = (unat (q_front q') + (e - c)) mod n"
    proof -
      have "unat (q_rear q) mod n = (a + c + (e - c)) mod n" using ok c by (simp add: lzm_ok_def n_def a_def e_def)
      then show ?thesis using q'(6) by (metis mod_add_left_eq)
    qed
    then have "lzm_ok q'" using ok q' n0(4) by (simp add: lzm_ok_def word_le_nat_alt n_def)
    then show ?thesis using items c q'(2) out rd by (simp add: c_def e_def)
  qed
  then show ?c "lzm_ok q'" "lzm_items q = out @ lzm_items q'" "length out = unat count" "q_datalen q' = q_datalen q" by simp_all
qed

text \<open>A single insert is a block insert of one byte, as long as the rear is inside the buffer, and leaves it
  inside; likewise a single delete.\<close>

lemma lzm_insert_is_batch:
  assumes ok: "lzm_ok q" and r: "q_rear q < q_datalen q"
  obtains q' where "LZM_QueueInsert x q = Some q'" "lzm_ok q'" "q_rear q' < q_datalen q'" "q_front q' = q_front q"
    "lzm_items q' = lzm_items q @ (if LZM_QueueFull q then [] else [x])" "q_datalen q' = q_datalen q"
proof (cases "LZM_QueueFull q")
  case True
  then show ?thesis using ok r by (intro that[of q]) (simp_all add: LZM_QueueInsert_def)
next
  case False
  obtain count qb where b: "LZM_QueueDataBatchInsert [x] 1 q = (count, qb)" by fastforce
  have le: "unat (q_count q) < unat (q_datalen q)" using ok False
    by (auto simp: lzm_ok_def LZM_QueueFull_def word_le_nat_alt word_unat_eq_iff)
  note l = lzm_batch_insert[OF ok _ b, simplified]
  have c1: "unat count = 1" using l(1) le by simp
  then have "count = 1" by (simp add: word_unat_eq_iff)
  have r1: "unat (q_rear q + 1) = unat (q_rear q) + 1" using unat_Suc_less[OF r] by simp
  define q2 where "q2 = q\<lparr>q_data := (q_data q)[unat (q_rear q) := x], q_rear := if q_rear q + 1 \<ge> q_datalen q then 0 else q_rear q + 1,
      q_count := q_count q + 1\<rparr>"
  have run: "LZM_QueueInsert x q = Some q2"
    using False r ok by (simp add: LZM_QueueInsert_def Let_def q2_def lzm_ok_def word_less_nat_alt)
  have pos: "unat (q_rear q) < length (q_data q)" using r ok by (simp add: lzm_ok_def word_less_nat_alt)
  have qb: "qb = q\<lparr>q_data := (q_data q)[unat (q_rear q) := x], q_rear := q_rear q + 1, q_count := q_count q + 1\<rparr>"
    using b False le r pos
    by (auto simp: LZM_QueueDataBatchInsert_def Let_def word_less_nat_alt blit_def upd_conv_take_nth_drop split: if_splits)
  have same: "q_data q2 = q_data qb" "q_front q2 = q_front qb" "q_count q2 = q_count qb" "q_datalen q2 = q_datalen qb"
    "q_datalen qb = q_datalen q"
    by (simp_all add: q2_def qb)
  have it: "lzm_items q2 = lzm_items qb" using same by (simp add: lzm_items_def)
  have rr: "q_rear q2 < q_datalen q2 \<and> unat (q_rear q2) mod unat (q_datalen q2) = unat (q_rear qb) mod unat (q_datalen q2)"
  proof (cases "q_rear q + 1 \<ge> q_datalen q")
    case True
    then have "unat (q_rear q + 1) = unat (q_datalen q)" using r r1 by (simp add: word_le_nat_alt word_less_nat_alt)
    then show ?thesis using True ok by (simp add: q2_def qb lzm_ok_def)
  next
    case False
    then show ?thesis by (simp add: q2_def qb)
  qed
  have "lzm_ok q2" using l(2) same rr by (simp add: lzm_ok_def less_imp_le)
  moreover have "q_front q2 = q_front q" by (simp add: q2_def)
  ultimately show ?thesis using run rr it l(3) c1 False same by (intro that[of q2]) simp_all
qed

lemma lzm_delete_is_batch:
  assumes ok: "lzm_ok q" and f: "q_front q < q_datalen q" and ne: "\<not> LZM_QueueEmpty q"
  obtains x q' where "LZM_QueueDelete q = Some (x, q')" "lzm_ok q'" "q_front q' < q_datalen q'" "q_rear q' = q_rear q"
    "lzm_items q = x # lzm_items q'" "q_datalen q' = q_datalen q"
proof -
  obtain count out qb where b: "LZM_QueueDataBatchDelete 1 q = (count, out, qb)" by (metis prod_cases3)
  note l = lzm_batch_delete[OF ok b]
  have c0: "unat (q_count q) \<noteq> 0" using ne by (auto simp: LZM_QueueEmpty_def unat_eq_0)
  then have c1: "unat count = 1" using l(1) by simp
  then have c: "count = 1" by (simp add: word_unat_eq_iff)
  have pos: "unat (q_front q) < length (q_data q)" "unat (q_front q) + 1 \<le> unat (q_datalen q)"
    using f ok by (simp_all add: lzm_ok_def word_less_nat_alt)
  have r1: "unat (q_front q + 1) = unat (q_front q) + 1" using unat_Suc_less[OF f] by simp
  let ?x = "q_data q ! unat (q_front q)"
  define q2 where "q2 = q\<lparr>q_count := q_count q - 1, q_front := if q_front q + 1 \<ge> q_datalen q then 0 else q_front q + 1\<rparr>"
  have run: "LZM_QueueDelete q = Some (?x, q2)"
    using ne pos(1) by (auto simp: LZM_QueueDelete_def Let_def q2_def)
  have cc: "(if q_count q > 1 then 1 else q_count q) = 1" using c0 by (auto simp: word_less_nat_alt word_unat_eq_iff)
  have qb: "qb = q\<lparr>q_count := q_count q - 1, q_front := q_front q + 1\<rparr>" "out = [?x]"
    using b ne pos cc by (simp_all add: LZM_QueueDataBatchDelete_def take_Suc_conv_app_nth)
  have rr: "q_front q2 < q_datalen q2 \<and> unat (q_front q2) mod unat (q_datalen q2) = unat (q_front qb) mod unat (q_datalen q2)"
  proof (cases "q_front q + 1 \<ge> q_datalen q")
    case True
    then have "unat (q_front q + 1) = unat (q_datalen q)" using r1 pos by (simp add: word_le_nat_alt)
    then show ?thesis using True ok by (simp add: q2_def qb lzm_ok_def)
  next
    case False
    then show ?thesis by (simp add: q2_def qb)
  qed
  let ?n = "unat (q_datalen q)"
  have same: "q_data q2 = q_data qb" "q_rear q2 = q_rear qb" "q_count q2 = q_count qb" "q_datalen q2 = q_datalen q" "q_datalen qb = q_datalen q"
    by (simp_all add: q2_def qb)
  have md: "unat (q_front q2) mod ?n = unat (q_front qb) mod ?n" using rr same(4) by simp
  have "lzm_items q2 = ring_window (q_data q2) ?n (unat (q_front q2) mod ?n) (unat (q_count q2))"
    unfolding ring_window_shift by (simp add: lzm_items_def same(4))
  also have "\<dots> = lzm_items qb" unfolding md ring_window_shift by (simp add: lzm_items_def same)
  finally have it: "lzm_items q2 = lzm_items qb" .
  have "(unat (q_front q2) + unat (q_count q2)) mod ?n = (unat (q_front qb) + unat (q_count qb)) mod ?n"
    using md same(3) by (metis mod_add_left_eq)
  then have "lzm_ok q2" using l(2) same rr by (simp add: lzm_ok_def less_imp_le)
  then show ?thesis using run rr it l(3) qb(2) same by (intro that[of ?x q2]) (simp_all add: qb(1))
qed

definition lzm_in :: "st_queue \<Rightarrow> bool" where
  "lzm_in q \<longleftrightarrow> lzm_ok q \<and> q_rear q < q_datalen q \<and> q_front q < q_datalen q"

interpretation lzmq: bounded_fifo lzm_in lzm_items "\<lambda>q. unat (q_datalen q)" "\<lambda>x q. the (LZM_QueueInsert x q)"
  "\<lambda>q. the (LZM_QueueDelete q)" LZM_QueueFull LZM_QueueEmpty
proof unfold_locales
  fix q assume i: "lzm_in q"
  show "LZM_QueueFull q \<longleftrightarrow> length (lzm_items q) = unat (q_datalen q)" by (simp add: LZM_QueueFull_def word_unat_eq_iff)
  show "LZM_QueueEmpty q \<longleftrightarrow> lzm_items q = []" unfolding length_0_conv[symmetric] by (auto simp: LZM_QueueEmpty_def unat_eq_0)
  show "length (lzm_items q) \<le> unat (q_datalen q)" using i by (simp add: lzm_in_def lzm_ok_def word_le_nat_alt)
next
  fix q x assume i: "lzm_in q" and nf: "\<not> LZM_QueueFull q"
  obtain q' where "LZM_QueueInsert x q = Some q'" "lzm_ok q'" "q_rear q' < q_datalen q'" "q_front q' = q_front q"
    "lzm_items q' = lzm_items q @ (if LZM_QueueFull q then [] else [x])" "q_datalen q' = q_datalen q"
    by (rule lzm_insert_is_batch[of q x]) (use i in \<open>simp_all add: lzm_in_def\<close>)
  then show "lzm_in (the (LZM_QueueInsert x q)) \<and> lzm_items (the (LZM_QueueInsert x q)) = lzm_items q @ [x]
      \<and> unat (q_datalen (the (LZM_QueueInsert x q))) = unat (q_datalen q)"
    using i nf by (simp add: lzm_in_def)
next
  fix q assume i: "lzm_in q" and ne: "\<not> LZM_QueueEmpty q"
  obtain x q' where "LZM_QueueDelete q = Some (x, q')" "lzm_ok q'" "q_front q' < q_datalen q'" "q_rear q' = q_rear q"
    "lzm_items q = x # lzm_items q'" "q_datalen q' = q_datalen q"
    by (rule lzm_delete_is_batch[of q]) (use i ne in \<open>simp_all add: lzm_in_def\<close>)
  then show "lzm_in (snd (the (LZM_QueueDelete q))) \<and> lzm_items q = fst (the (LZM_QueueDelete q)) # lzm_items (snd (the (LZM_QueueDelete q)))
      \<and> unat (q_datalen (snd (the (LZM_QueueDelete q)))) = unat (q_datalen q)"
    using i by (simp add: lzm_in_def)
qed

text \<open>A block that ends exactly at the end of the buffer leaves the rear behind it; the next single byte is
  written there, outside of the buffer.\<close>

lemma lzm_insert_outside:
  assumes ok: "lzm_ok q" and l: "unat datalen \<le> length src" and f: "unat (q_count q) + unat datalen \<le> unat (q_datalen q)"
    and e: "unat (q_rear q) + unat datalen = unat (q_datalen q)" and nf: "\<not> LZM_QueueFull q"
  obtains q' where "LZM_QueueDataBatchInsert src datalen q = (datalen, q')" "q_rear q' = q_datalen q'"
    "\<not> LZM_QueueFull q' \<Longrightarrow> LZM_QueueInsert x q' = None"
proof -
  obtain count q' where b: "LZM_QueueDataBatchInsert src datalen q = (count, q')" by fastforce
  have q': "count = datalen" "q_rear q' = q_rear q + datalen" "q_datalen q' = q_datalen q"
    using b nf f e by (auto simp: LZM_QueueDataBatchInsert_def Let_def)
  have "unat (q_rear q + datalen) = unat (q_datalen q)" using e unat_add16[of "q_rear q" datalen "q_datalen q"] by simp
  then have r: "q_rear q' = q_datalen q'" using q' by (simp add: word_unat_eq_iff)
  have "length (q_data q') = unat (q_datalen q')" using lzm_batch_insert(2)[OF ok l b] by (simp add: lzm_ok_def)
  then have "\<not> LZM_QueueFull q' \<Longrightarrow> LZM_QueueInsert x q' = None" using r by (simp add: LZM_QueueInsert_def)
  then show ?thesis using b q'(1) r by (intro that[of q']) simp_all
qed

end
