(* ===== verification/Public_Theorems.thy ===== *)
theory Public_Theorems
  imports App_Public App_LzmQueue RT_Fifo
begin

text \<open>
  Properties of \<open>User/Api/src/Public.c\<close>: its byte queue, its packed decimals and its time ranges.
\<close>

section \<open>The byte queue\<close>

text \<open>C23. The byte queue with block operations: a block insert appends as many bytes as there is room for and a
  block delete takes the oldest ones, across the end of the buffer and from any position the other operations
  leave; so what is put in comes out unchanged and in order.\<close>

theorem lzm_queue_blocks:
  assumes "lzm_ok q" "unat n \<le> length src" "LZM_QueueDataBatchInsert src n q = (stored, q1)"
    "LZM_QueueDataBatchDelete m q1 = (taken, out, q2)"
  shows "unat stored = min (unat n) (unat (q_datalen q) - unat (q_count q))
    \<and> lzm_items q1 = lzm_items q @ take (unat stored) src
    \<and> unat taken = min (unat m) (unat (q_count q) + unat stored)
    \<and> out = take (unat taken) (lzm_items q @ take (unat stored) src)
    \<and> lzm_items q2 = drop (unat taken) (lzm_items q @ take (unat stored) src) \<and> lzm_ok q2"
proof -
  note i = lzm_batch_insert[OF assms(1-3)]
  note d = lzm_batch_delete[OF i(2) assms(4)]
  have le: "unat stored \<le> length src" using i(1) assms(2) by linarith
  have "length (lzm_items q1) = length (lzm_items q @ take (unat stored) src)" using i(3) by (rule arg_cong)
  then have c: "unat (q_count q1) = unat (q_count q) + unat stored" using le by simp
  have "out = take (unat taken) (lzm_items q1)" "lzm_items q2 = drop (unat taken) (lzm_items q1)"
    unfolding d(3) using d(4) by simp_all
  then show ?thesis unfolding c[symmetric] i(3)[symmetric] using i(1) d(1,2) by blast
qed

lemma demo_lzm: "lzm_ok \<lparr>q_datalen = 4, q_front = 3, q_rear = 4, q_count = 1, q_data = [0, 0, 0, 9]\<rparr>"
  by (simp add: lzm_ok_def)

theorem lzm_queue_blocks_witness:
  "LZM_QueueDataBatchInsert [1, 2, 3, 4] 4 \<lparr>q_datalen = 4, q_front = 3, q_rear = 4, q_count = 1, q_data = [0, 0, 0, 9]\<rparr>
     = (3, \<lparr>q_datalen = 4, q_front = 3, q_rear = 3, q_count = 4, q_data = [1, 2, 3, 9]\<rparr>)
   \<and> (\<exists>q2. LZM_QueueDataBatchDelete 2 \<lparr>q_datalen = 4, q_front = 3, q_rear = 3, q_count = 4, q_data = [1, 2, 3, 9]\<rparr> = (2, [9, 1], q2)
       \<and> lzm_items q2 = [2, 3])"
proof -
  let ?q = "\<lparr>q_datalen = 4, q_front = 3, q_rear = 4, q_count = 1, q_data = [0, 0, 0, 9]\<rparr>"
  let ?q1 = "\<lparr>q_datalen = 4, q_front = 3, q_rear = 3, q_count = 4, q_data = [1, 2, 3, 9]\<rparr>"
  have i: "LZM_QueueDataBatchInsert [1, 2, 3, 4] 4 ?q = (3, ?q1)"
    by (simp add: LZM_QueueDataBatchInsert_def LZM_QueueFull_def blit_def)
  obtain taken out q2 where d: "LZM_QueueDataBatchDelete 2 ?q1 = (taken, out, q2)" by (metis prod_cases3)
  have items: "lzm_items ?q = [9]" by (simp add: lzm_items_def ring_window_def)
  from lzm_queue_blocks[OF demo_lzm _ i d] items have "unat taken = 2 \<and> out = take (unat taken) [9, 1, 2, 3] \<and> lzm_items q2 = drop (unat taken) [9, 1, 2, 3]"
    by simp
  then have "taken = 2 \<and> out = [9, 1] \<and> lzm_items q2 = [2, 3]" by (auto simp: word_unat_eq_iff)
  then show ?thesis using i d by simp
qed

text \<open>A block that ends exactly at the end of the buffer leaves the rear behind it. The block operations cope with
  that, but the next single insert into the queue, which has room, would store its byte behind the buffer.\<close>

theorem lzm_insert_overruns:
  assumes "lzm_ok q" "unat n \<le> length src" "unat (q_rear q) + unat n = unat (q_datalen q)"
    "unat (q_count q) + unat n < unat (q_datalen q)"
  shows "\<exists>q'. LZM_QueueDataBatchInsert src n q = (n, q') \<and> lzm_ok q' \<and> \<not> LZM_QueueFull q' \<and> LZM_QueueInsert x q' = None"
proof -
  have nf: "\<not> LZM_QueueFull q" using assms(4) by (auto simp: LZM_QueueFull_def)
  obtain q' where q': "LZM_QueueDataBatchInsert src n q = (n, q')" "\<not> LZM_QueueFull q' \<Longrightarrow> LZM_QueueInsert x q' = None"
    by (rule lzm_insert_outside[OF assms(1,2) less_imp_le[OF assms(4)] assms(3) nf]) (rule that, assumption+)
  note i = lzm_batch_insert[OF assms(1,2) q'(1)]
  have "unat (q_count q') = unat (q_count q) + unat n"
    using arg_cong[OF i(3), of length] assms(2) by simp
  then have "\<not> LZM_QueueFull q'" using assms(4) i(4) by (auto simp: LZM_QueueFull_def)
  then show ?thesis using q' i(2) by blast
qed

theorem lzm_insert_overruns_witness:
  "\<exists>q'. LZM_QueueDataBatchInsert [5, 6] 2 \<lparr>q_datalen = 4, q_front = 2, q_rear = 2, q_count = 0, q_data = [0, 0, 0, 0]\<rparr> = (2, q')
     \<and> lzm_ok q' \<and> \<not> LZM_QueueFull q' \<and> LZM_QueueInsert 7 q' = None"
  by (rule lzm_insert_overruns) (simp_all add: lzm_ok_def)

section \<open>Packed decimals\<close>

text \<open>A date the application accepts is written as six bytes of packed decimals, or seven with the century, and read
  back as the same date, whatever the memory behind the text holds; an eight-digit number and the four bytes of
  a word are read back from what they are written to as well.\<close>

theorem public_bcd_roundtrip:
  assumes "Public_CheckTimeStruct t" "v \<le> 99999999"
  shows "(\<exists>bcd. Public_ConvertTimeToBCDEx t rest = Some bcd \<and> Public_ConvertTimeToBCD t rest = Some (0x20 # bcd)
        \<and> length bcd = 6 \<and> Public_ConvertBCDToTime bcd = Some t)
    \<and> Public_ConvertBCDToLong (Public_ConvertLongToBCD v rest) = v
    \<and> Public_ConvertBufferToLong (Public_ConvertLongToBuffer w) = w"
proof -
  have d: "two_digit_time t" using assms(1) by (auto simp: Public_CheckTimeStruct_def two_digit_time_def)
  have "packed 2 0 = 0x20" by (simp add: packed_def)
  moreover have "Public_ConvertBCDToTime (map (\<lambda>v. packed (nat v div 10) (nat v mod 10)) [year t, month t, day t, hour t, mins t, sec t]) = Some t"
    using bcd_to_time[OF d] assms(1) by (simp add: Public_ConvertBCDToTime_def Public_ConvertBCDToTimeEx_def Let_def)
  ultimately show ?thesis
    using time_to_bcd[OF d, of rest] long_bcd_roundtrip[OF assms(2)] long_buffer_roundtrip by auto
qed

theorem public_bcd_roundtrip_witness:
  "(\<exists>bcd. Public_ConvertTimeToBCDEx \<lparr>year = 19, month = 8, day = 7, hour = 23, mins = 5, sec = 59\<rparr> [] = Some bcd
      \<and> Public_ConvertBCDToTime bcd = Some \<lparr>year = 19, month = 8, day = 7, hour = 23, mins = 5, sec = 59\<rparr>)
   \<and> Public_ConvertBCDToLong (Public_ConvertLongToBCD 20190807 []) = 20190807"
  using public_bcd_roundtrip[of "\<lparr>year = 19, month = 8, day = 7, hour = 23, mins = 5, sec = 59\<rparr>" 20190807 "[]"]
  by (auto simp: Public_CheckTimeStruct_def)

section \<open>Time ranges\<close>

text \<open>C24. The check of a moment against a range of dates (control word 1, all fields count) is the comparison of
  seconds: for two dates of the calendar, the first before the second, a counter of the clock is in the range
  exactly when it lies between the seconds of the two.\<close>

theorem public_time_range:
  assumes "date_upto 70 a" "date_upto 70 b" "seconds a < seconds b" "counter < 0x6D182000"
  shows "Public_CheckTimeIsInTimeRange 1 week0 st0 counter (Public_ConvertTimeToLong 1 a) (Public_ConvertTimeToLong 1 b)
    = Some (seconds a \<le> unat counter \<and> unat counter \<le> seconds b)"
proof -
  have "counter < 0xBC17C200" using assms(4) by (simp add: word_less_nat_alt)
  then obtain tt where tt: "date_upto 112 tt" "seconds tt = unat counter" "year tt \<le> 70"
    using counter_2112[of counter] assms(4) by auto
  then have d: "date_upto 70 tt" by (auto simp: date_upto_def)
  have g: "Gmtime st0 counter = Some tt" using Gmtime_is[OF tt(1)] seconds_2112[OF tt(1)] tt(2) by simp
  let ?f = "Public_ConvertTimeToLong 1"
  note o = ConvertTimeToLong_order
  have ab: "?f a < ?f b" using o(1)[OF assms(2,1)] assms(3) by (simp add: not_le[symmetric])
  have valid: "Public_CheckTimeRangeIsValid 1 (?f a) (?f b)"
    using o(2)[OF assms(1,2)] o(2)[OF assms(2,1)] ab by (auto simp: Public_CheckTimeRangeIsValid_def)
  have "Public_CheckTimeIsInRange (?f tt) (?f a) (?f b) \<longleftrightarrow> seconds a \<le> seconds tt \<and> seconds tt \<le> seconds b"
    using ab o(1)[OF assms(1) d] o(1)[OF d assms(2)] by (simp add: Public_CheckTimeIsInRange_def)
  then show ?thesis using valid g tt(2)
    by (simp add: Public_CheckTimeIsInTimeRange_def check_in_range_def Let_def)
qed

theorem public_time_range_witness:
  "Public_CheckTimeIsInTimeRange 1 0 \<lparr>year = 0, month = 0, day = 0, hour = 0, mins = 0, sec = 0\<rparr> 99000000
      (Public_ConvertTimeToLong 1 \<lparr>year = 16, month = 1, day = 31, hour = 0, mins = 0, sec = 0\<rparr>)
      (Public_ConvertTimeToLong 1 \<lparr>year = 16, month = 2, day = 29, hour = 12, mins = 0, sec = 0\<rparr>) = Some True"
proof -
  let ?a = "\<lparr>year = 16, month = 1, day = 31, hour = 0, mins = 0, sec = 0\<rparr>" and ?b = "\<lparr>year = 16, month = 2, day = 29, hour = 12, mins = 0, sec = 0\<rparr>"
  have d: "date_upto 70 ?a" "date_upto 70 ?b" by (simp_all add: date_upto_def month_days_def leap_def MonTab_def)
  have s: "seconds ?a = 97200000" "seconds ?b = 99748800"
    by (simp_all add: seconds_def days_before_year_numeral month_days_def leap_def MonTab_def)
  show ?thesis using public_time_range[OF d, of 99000000] unfolding s by simp
qed

text \<open>The check of a number against a range is membership in an interval that goes round: the number is no further behind
  the start than the end is, in 32-bit arithmetic, so that a range whose end is before its start reaches
  over midnight.\<close>

theorem public_range_circular:
  "Public_CheckTimeIsInRange c s e \<longleftrightarrow> c - s \<le> e - s"
  by (rule in_range_circular)

end
