(* ===== verification/App_E2Tables.thy ===== *)
theory App_E2Tables
  imports RT_Prelude
begin

text \<open>
  The tables of the terminal's parameters, \<open>User/driver/src/EepromPram.c\<close>: where a parameter is in the EEPROM, how
  long it is and whether it is a string. Their entries are the values of the macros of \<open>EepromPram.h\<close>; an
  entry of 0 is a number that is not used. That the parameters lie apart is computed here, once.
\<close>

subsection \<open>The tables\<close>

abbreviation E2_PRAM_ID_INDEX_MAX :: nat where "E2_PRAM_ID_INDEX_MAX \<equiv> 439"

definition EepromPramAddress :: "u16 list" where
  "EepromPramAddress =
     [0, 10, 15, 20, 25, 30, 35, 40, 0, 0, 0, 0, 0, 0, 0, 0, 45, 70, 95, 120,
      145, 170, 195, 220, 245, 250, 1900, 1941, 1946, 1951, 0, 0, 315, 320, 325, 0, 0, 0, 0, 330,
      335, 340, 0, 0, 345, 350, 355, 360, 365, 1700, 0, 0, 0, 0, 0, 0, 0, 0, 0, 0,
      0, 0, 0, 0, 370, 395, 420, 445, 470, 495, 500, 505, 510, 535, 0, 0, 0, 0, 0, 0,
      560, 565, 570, 575, 580, 585, 590, 595, 600, 605, 610, 1992, 1995, 1998, 2001, 0, 0, 0, 0, 0,
      2004, 2009, 0, 0, 0, 0, 0, 0, 0, 0, 0, 0, 615, 620, 625, 630, 635, 0, 0, 0,
      0, 0, 0, 0, 0, 0, 0, 0, 640, 645, 650, 655, 680, 0, 0, 0, 0, 0, 0, 0,
      0, 0, 0, 0, 2014, 2016, 2018, 2020, 2025, 2027, 0, 0, 0, 0, 0, 0, 0, 0, 0, 0,
      0, 0, 0, 0, 0, 0, 0, 0, 0, 0, 0, 0, 0, 0, 0, 0, 0, 0, 0, 0,
      0, 0, 0, 0, 0, 0, 0, 0, 0, 0, 0, 0, 0, 0, 0, 0, 0, 0, 0, 0,
      0, 0, 0, 0, 0, 0, 0, 0, 0, 0, 0, 0, 0, 0, 0, 0, 0, 0, 0, 0,
      0, 0, 0, 0, 0, 0, 0, 0, 0, 0, 0, 0, 0, 0, 0, 0, 0, 0, 0, 0,
      0, 0, 0, 0, 0, 0, 0, 0, 0, 0, 0, 0, 0, 0, 0, 0, 2032, 2037, 2040, 2045,
      0, 0, 0, 0, 0, 0, 0, 0, 0, 0, 0, 0, 2048, 2058, 2785, 2795, 2805, 2815, 2825, 2835,
      685, 710, 735, 740, 745, 750, 760, 770, 790, 815, 840, 850, 875, 885, 1140, 1145, 1150, 1155, 1160, 1165,
      1170, 1175, 1180, 1205, 1230, 1255, 1280, 1285, 1290, 1315, 1340, 1365, 1565, 1570, 1595, 1605, 1630, 1635, 1645, 1665,
      1670, 1675, 1680, 1690, 1695, 1705, 1710, 1715, 1720, 1725, 1730, 1735, 1740, 1745, 1865, 1870, 1875, 1880, 1885, 1890,
      0, 0, 0, 0, 2651, 2068, 2073, 2110, 2115, 2120, 0, 0, 0, 0, 2435, 2440, 2125, 2127, 2130, 2132,
      2139, 2144, 2175, 2180, 2185, 2200, 2232, 2237, 2242, 2247, 2252, 2268, 2273, 2278, 2310, 2315, 2320, 2336, 2341, 2373,
      2378, 2383, 2415, 2420, 2425, 2430, 2445, 2461, 2466, 2471, 2476, 2508, 2513, 2518, 2523, 2555, 2560, 2565, 2570, 2575,
      2580, 2585, 2590, 2595, 2600, 2632, 2637, 2639, 2656, 2766, 0, 2779, 2659, 2691, 2696, 2701, 2733, 2769, 2774, 2781,
      2783, 0, 0, 0, 0, 0, 0, 0, 0, 0, 2845, 2848, 2851, 2854, 2857, 2860, 2863, 2866, 0]"

definition EepromPramLength :: "u8 list" where
  "EepromPramLength =
     [0, 4, 4, 4, 4, 4, 4, 4, 0, 0, 0, 0, 0, 0, 0, 0, 20, 20, 20, 20, 20, 20, 20, 20, 4, 4, 39, 4, 4, 39,
      0, 0, 4, 4, 4, 0, 0, 0, 0, 4, 4, 4, 0, 0, 4, 4, 4, 4, 4, 2, 0, 0, 0, 0, 0, 0, 0, 0, 0, 0,
      0, 0, 0, 0, 20, 20, 20, 20, 20, 4, 4, 4, 20, 20, 0, 0, 0, 0, 0, 0, 4, 4, 4, 4, 4, 4, 4, 4, 4, 4,
      4, 2, 2, 2, 2, 0, 0, 0, 0, 0, 4, 4, 0, 0, 0, 0, 0, 0, 0, 0, 0, 0, 4, 4, 4, 4, 4, 0, 0, 0,
      0, 0, 0, 0, 0, 0, 0, 0, 4, 2, 2, 20, 1, 0, 0, 0, 0, 0, 0, 0, 0, 0, 0, 0, 1, 1, 1, 4, 1, 4,
      0, 0, 0, 0, 0, 0, 0, 0, 0, 0, 0, 0, 0, 0, 0, 0, 0, 0, 0, 0, 0, 0, 0, 0, 0, 0, 0, 0, 0, 0,
      0, 0, 0, 0, 0, 0, 0, 0, 0, 0, 0, 0, 0, 0, 0, 0, 0, 0, 0, 0, 0, 0, 0, 0, 0, 0, 0, 0, 0, 0,
      0, 0, 0, 0, 0, 0, 0, 0, 0, 0, 0, 0, 0, 0, 0, 0, 0, 0, 0, 0, 0, 0, 0, 0, 0, 0, 0, 0, 0, 0,
      0, 0, 0, 0, 0, 0, 0, 0, 0, 0, 0, 0, 0, 0, 0, 0, 4, 2, 4, 2, 0, 0, 0, 0, 0, 0, 0, 0, 0, 0,
      0, 0, 8, 8, 8, 8, 8, 8, 8, 8, 20, 20, 1, 4, 4, 5, 7, 6, 20, 20, 3, 20, 5, 150, 1, 3, 1, 1, 1, 4,
      4, 1, 20, 20, 20, 20, 2, 2, 20, 20, 20, 100, 2, 20, 10, 20, 1, 6, 20, 4, 4, 1, 7, 1, 4, 4, 1, 1, 1, 1,
      1, 1, 1, 120, 4, 4, 1, 4, 4, 4, 0, 0, 0, 0, 4, 4, 35, 4, 4, 4, 0, 0, 0, 0, 4, 2, 1, 2, 1, 1,
      4, 30, 4, 4, 4, 30, 4, 4, 4, 4, 14, 4, 4, 30, 4, 4, 14, 4, 30, 4, 4, 30, 4, 4, 4, 4, 14, 4, 4, 4,
      30, 4, 4, 4, 30, 4, 4, 4, 4, 4, 4, 4, 4, 4, 30, 4, 1, 10, 2, 2, 0, 1, 30, 4, 4, 20, 20, 4, 4, 1,
      1, 0, 0, 0, 0, 0, 0, 0, 0, 0, 2, 2, 2, 2, 2, 2, 2, 16, 0]"

definition EepromPramSwitch :: "u8 list" where
  "EepromPramSwitch =
     [0, 0, 0, 0, 0, 0, 0, 0, 0, 0, 0, 0, 0, 0, 0, 0, 1, 1, 1, 1, 1, 1, 1, 1, 0, 0, 1, 0, 0, 1, 0, 0, 0, 0, 0, 0, 0, 0, 0, 0,
      0, 0, 0, 0, 0, 0, 0, 0, 0, 0, 0, 0, 0, 0, 0, 0, 0, 0, 0, 0, 0, 0, 0, 0, 1, 1, 1, 1, 1, 0, 0, 0, 1, 1, 0, 0, 0, 0, 0, 0,
      0, 0, 0, 0, 0, 0, 0, 0, 0, 0, 0, 0, 0, 0, 0, 0, 0, 0, 0, 0, 0, 0, 0, 0, 0, 0, 0, 0, 0, 0, 0, 0, 0, 0, 0, 0, 0, 0, 0, 0,
      0, 0, 0, 0, 0, 0, 0, 0, 0, 0, 0, 1, 0, 0, 0, 0, 0, 0, 0, 0, 0, 0, 0, 0, 0, 0, 0, 0, 0, 0, 0, 0, 0, 0, 0, 0, 0, 0, 0, 0,
      0, 0, 0, 0, 0, 0, 0, 0, 0, 0, 0, 0, 0, 0, 0, 0, 0, 0, 0, 0, 0, 0, 0, 0, 0, 0, 0, 0, 0, 0, 0, 0, 0, 0, 0, 0, 0, 0, 0, 0,
      0, 0, 0, 0, 0, 0, 0, 0, 0, 0, 0, 0, 0, 0, 0, 0, 0, 0, 0, 0, 0, 0, 0, 0, 0, 0, 0, 0, 0, 0, 0, 0, 0, 0, 0, 0, 0, 0, 0, 0,
      0, 0, 0, 0, 0, 0, 0, 0, 0, 0, 0, 0, 0, 0, 0, 0, 0, 0, 0, 0, 0, 0, 0, 0, 0, 0, 0, 0, 0, 0, 0, 0, 1, 1, 1, 1, 1, 1, 1, 1,
      1, 1, 0, 0, 0, 1, 1, 1, 1, 1, 1, 1, 1, 1, 0, 1, 0, 0, 0, 0, 0, 0, 1, 1, 1, 1, 0, 0, 1, 1, 1, 1, 0, 1, 1, 1, 0, 1, 1, 0,
      0, 0, 1, 0, 0, 0, 0, 0, 0, 0, 0, 0, 0, 1, 0, 0, 0, 0, 0, 0, 0, 0, 0, 0, 0, 0, 1, 0, 0, 0, 0, 0, 0, 0, 0, 0, 0, 0, 0, 0,
      0, 1, 0, 0, 0, 1, 0, 0, 0, 0, 1, 0, 0, 1, 0, 0, 1, 0, 1, 0, 0, 1, 0, 0, 0, 0, 1, 0, 0, 0, 1, 0, 0, 0, 1, 0, 0, 0, 0, 0,
      0, 0, 0, 0, 1, 0, 0, 1, 0, 0, 0, 0, 1, 0, 0, 1, 1, 0, 0, 0, 0, 0, 0, 0, 0, 0, 0, 0, 0, 0, 0, 0, 0, 0, 0, 0, 0, 1, 0]"

abbreviation E2_PRAM_BASE_CUSTOM_ID :: u16 where "E2_PRAM_BASE_CUSTOM_ID \<equiv> 0xF200"

abbreviation E2_SYSTEM_DEFINE_ID_MAX :: u16 where "E2_SYSTEM_DEFINE_ID_MAX \<equiv> 0x118"

definition E2ParamApp_ConvertPramIDToGroupIndex :: "u16 \<Rightarrow> u16" where
  "E2ParamApp_ConvertPramIDToGroupIndex PramID =
     (if PramID < E2_SYSTEM_DEFINE_ID_MAX then PramID AND 0xFFF
      else if PramID \<ge> E2_PRAM_BASE_CUSTOM_ID
      then (PramID - E2_PRAM_BASE_CUSTOM_ID + E2_SYSTEM_DEFINE_ID_MAX) AND 0xFFF
      else 0)"

subsection \<open>What the tables say\<close>

text \<open>Of a parameter: its index, address, length and type.\<close>

definition e2_table :: "(int \<times> int \<times> int \<times> int) list" where
  "e2_table = zip [0..438] (zip (map uint EepromPramAddress) (zip (map uint EepromPramLength) (map uint EepromPramSwitch)))"

definition e2_entry_ok :: "int \<times> int \<times> int \<times> int \<Rightarrow> bool" where
  "e2_entry_ok = (\<lambda>(i, a, l, s). (a = 0 \<longleftrightarrow> l = 0) \<and> (l = 0 \<or> 10 \<le> a \<and> a + l + 2 \<le> 2884) \<and> l \<le> 150
     \<and> (if l = 0 \<or> l = 1 \<or> l = 2 \<or> l = 4 then s = 0 else s = 1))"

lemma e2_tables_long: "length EepromPramAddress = 439" "length EepromPramLength = 439" "length EepromPramSwitch = 439"
  by (simp_all add: EepromPramAddress_def EepromPramLength_def EepromPramSwitch_def)

lemma e2_entries_ok: "list_all e2_entry_ok e2_table"
  by code_simp

text \<open>Where a parameter begins and ends with its length byte and its sum. Four are followed too closely.\<close>

definition e2_spans :: "(int \<times> int \<times> int) list" where
  "e2_spans = sort_key fst (map (\<lambda>(i, a, l, s). (a, a + l + 1 + s, i)) (filter (\<lambda>(i, a, l, s). l \<noteq> 0) e2_table))"

definition e2_too_close :: "(int \<times> int) list" where
  "e2_too_close = [(314, 315), (318, 319), (333, 334), (361, 362)]"

fun spaced :: "(int \<times> int \<times> int) list \<Rightarrow> bool" where
  "spaced ((a, e, i) # (a', e', i') # xs) \<longleftrightarrow> a \<le> a' \<and> (e \<le> a' \<or> (i, i') \<in> set e2_too_close)
     \<and> (case xs of [] \<Rightarrow> True | (a'', _) # _ \<Rightarrow> e \<le> a'') \<and> spaced ((a', e', i') # xs)"
| "spaced xs \<longleftrightarrow> True"

lemma e2_spans_spaced: "spaced e2_spans"
  by code_simp

lemma spaced_starts: "spaced (x # xs) \<Longrightarrow> z \<in> set xs \<Longrightarrow> fst x \<le> fst z"
proof (induction xs arbitrary: x)
  case (Cons y ys)
  obtain a e i a' e' i' where x: "x = (a, e, i)" "y = (a', e', i')" by (cases x; cases y)
  have "a \<le> a'" "spaced (y # ys)" using Cons.prems(1) by (simp_all add: x)
  with Cons.IH[of y] Cons.prems(2) x show ?case by fastforce
qed simp

lemma spaced_apart: "spaced xs \<Longrightarrow> sorted_wrt (\<lambda>(a, e, i) (a', e', i'). e \<le> a' \<or> (i, i') \<in> set e2_too_close) xs"
proof (induction xs rule: spaced.induct)
  case (1 a e i a' e' i' xs)
  have r: "spaced ((a', e', i') # xs)" "e \<le> a' \<or> (i, i') \<in> set e2_too_close" using 1(2) by simp_all
  have "e \<le> fst z" if z: "z \<in> set xs" for z
  proof (cases xs)
    case (Cons w ws)
    then have "e \<le> fst w" using 1(2) by (cases w) simp
    moreover have "fst w \<le> fst z"
    proof (cases "z = w")
      case False
      have "spaced (w # ws)" using r(1) Cons by (cases w) simp
      then show ?thesis using z Cons False spaced_starts[of w ws z] by simp
    qed simp
    ultimately show ?thesis by simp
  qed (use z in simp)
  then show ?case using 1(1)[OF r(1)] r(2) by fastforce
qed auto

lemma e2_table_nth:
  assumes "i < 439"
  shows "e2_table ! i = (int i, uint (EepromPramAddress ! i), uint (EepromPramLength ! i), uint (EepromPramSwitch ! i))"
    "length e2_table = 439"
  using assms by (simp_all add: e2_table_def e2_tables_long nth_upto)

lemma uint_int_unat: "uint w = int (unat w)" by simp

lemma e2_entry:
  assumes "i < 439"
  shows "EepromPramAddress ! i = 0 \<longleftrightarrow> EepromPramLength ! i = 0" (is ?zero)
    "EepromPramLength ! i \<noteq> 0 \<Longrightarrow> unat (EepromPramAddress ! i) + unat (EepromPramLength ! i) + 2 \<le> 2884" (is "?l \<Longrightarrow> ?inside")
    "unat (EepromPramLength ! i) \<le> 150" (is ?short)
    "EepromPramSwitch ! i = (if EepromPramLength ! i \<in> {0, 1, 2, 4} then 0 else 1)" (is ?switch)
proof -
  let ?a = "EepromPramAddress ! i" and ?n = "EepromPramLength ! i" and ?s = "EepromPramSwitch ! i"
  have "e2_entry_ok (e2_table ! i)" using e2_entries_ok e2_table_nth(2)[OF assms] assms by (simp add: list_all_length)
  then have ok: "(uint ?a = 0 \<longleftrightarrow> uint ?n = 0) \<and> (uint ?n = 0 \<or> 10 \<le> uint ?a \<and> uint ?a + uint ?n + 2 \<le> 2884) \<and> uint ?n \<le> 150
     \<and> (if uint ?n = 0 \<or> uint ?n = 1 \<or> uint ?n = 2 \<or> uint ?n = 4 then uint ?s = 0 else uint ?s = 1)"
    by (simp add: e2_table_nth(1)[OF assms] e2_entry_ok_def)
  then show ?zero by (simp add: word_uint_eq_iff)
  have "uint ?n \<le> 150" using ok by blast
  then show ?short unfolding uint_int_unat by linarith
  show ?inside if "?n \<noteq> 0"
  proof -
    have "uint ?a + uint ?n + 2 \<le> 2884" using ok that by (simp add: word_uint_eq_iff)
    then show ?thesis unfolding uint_int_unat by linarith
  qed
  show ?switch using ok by (auto simp: word_uint_eq_iff[of ?n] word_uint_eq_iff[of ?s])
qed

lemma e2_apart:
  assumes "i < 439" "j < 439" "i \<noteq> j" "EepromPramLength ! i \<noteq> 0" "EepromPramLength ! j \<noteq> 0"
    and "(int i, int j) \<notin> set e2_too_close" "(int j, int i) \<notin> set e2_too_close"
  defines "stop \<equiv> \<lambda>i. unat (EepromPramAddress ! i) + unat (EepromPramLength ! i) + 1 + unat (EepromPramSwitch ! i)"
  shows "stop i \<le> unat (EepromPramAddress ! j) \<or> stop j \<le> unat (EepromPramAddress ! i)"
proof -
  let ?span = "\<lambda>i. (uint (EepromPramAddress ! i), uint (EepromPramAddress ! i) + uint (EepromPramLength ! i) + 1 + uint (EepromPramSwitch ! i), int i)"
  have mem: "?span k \<in> set e2_spans" if "k < 439" "EepromPramLength ! k \<noteq> 0" for k
  proof -
    have "e2_table ! k \<in> set e2_table" using that(1) e2_table_nth(2) by simp
    then have "(int k, uint (EepromPramAddress ! k), uint (EepromPramLength ! k), uint (EepromPramSwitch ! k)) \<in> set e2_table"
      unfolding e2_table_nth(1)[OF that(1)] .
    then have "(\<lambda>(i, a, l, s). (a, a + l + 1 + s, i)) (int k, uint (EepromPramAddress ! k), uint (EepromPramLength ! k), uint (EepromPramSwitch ! k))
        \<in> set e2_spans" using that(2) unfolding e2_spans_def set_sort set_map set_filter by (intro imageI) (simp add: word_uint_eq_iff)
    then show ?thesis by simp
  qed
  obtain p q where pq: "p < length e2_spans" "e2_spans ! p = ?span i" "q < length e2_spans" "e2_spans ! q = ?span j"
    using mem[OF assms(1,4)] mem[OF assms(2,5)] by (auto simp: in_set_conv_nth)
  have "p \<noteq> q" using pq(2,4) assms(3) by auto
  then consider "p < q" | "q < p" by linarith
  then show ?thesis
  proof cases
    case 1
    from sorted_wrt_nth_less[OF spaced_apart[OF e2_spans_spaced] 1 pq(3)] have
      "uint (EepromPramAddress ! i) + uint (EepromPramLength ! i) + 1 + uint (EepromPramSwitch ! i) \<le> uint (EepromPramAddress ! j)"
      using assms(6) by (simp add: pq)
    then show ?thesis unfolding stop_def uint_int_unat by linarith
  next
    case 2
    from sorted_wrt_nth_less[OF spaced_apart[OF e2_spans_spaced] 2 pq(1)] have
      "uint (EepromPramAddress ! j) + uint (EepromPramLength ! j) + 1 + uint (EepromPramSwitch ! j) \<le> uint (EepromPramAddress ! i)"
      using assms(7) by (simp add: pq)
    then show ?thesis unfolding stop_def uint_int_unat by linarith
  qed
qed

end
