(* ===== verification/App_Store.thy ===== *)
theory App_Store
  imports RT_Prelude
begin

text \<open>
  A memory of bytes with things stored in it. The parameters in the EEPROM and the areas of the FRAM are both stored
  as a block of bytes (value, length, checksum) at an address of their own; the locale \<open>byte_store\<close> says
  what a write promises, and shows that things whose blocks lie apart keep what was written to them last.
\<close>

text \<open>A memory with bytes written over it.\<close>

definition patch :: "(nat \<Rightarrow> u8) \<Rightarrow> nat \<Rightarrow> u8 list \<Rightarrow> nat \<Rightarrow> u8" where
  "patch m a xs = (\<lambda>i. if a \<le> i \<and> i < a + length xs then xs ! (i - a) else m i)"

fun holds :: "(nat \<Rightarrow> u8) \<Rightarrow> nat \<Rightarrow> u8 list \<Rightarrow> bool" where
  "holds m a [] \<longleftrightarrow> True"
| "holds m a (x # xs) \<longleftrightarrow> m a = x \<and> holds m (Suc a) xs"

lemma patch_Nil [simp]: "patch m a [] = m"
  by (rule ext) (auto simp: patch_def)

lemma patch_Cons: "patch (m(a := x)) (Suc a) xs = patch m a (x # xs)"
  by (auto simp: patch_def nth_Cons' fun_eq_iff)

lemma patch_append: "patch (patch m a xs) (a + length xs) ys = patch m a (xs @ ys)"
  by (auto simp: patch_def nth_append fun_eq_iff)

lemma patch_one: "m(a := x) = patch m a [x]"
  by (auto simp: patch_def fun_eq_iff)

lemma holds_iff: "holds m a xs \<longleftrightarrow> map m [a..<a + length xs] = xs"
proof (induction xs arbitrary: a)
  case (Cons x xs)
  then show ?case by (simp add: upt_conv_Cons del: upt_Suc)
qed simp

lemma holds_append: "holds m a (xs @ ys) \<longleftrightarrow> holds m a xs \<and> holds m (a + length xs) ys"
  by (induction xs arbitrary: a) simp_all

lemma holds_patch: "holds (patch m a xs) a xs"
  unfolding holds_iff by (rule nth_equalityI) (simp_all add: patch_def)

lemma holds_apart: "holds m a xs \<Longrightarrow> a + length xs \<le> b \<or> b + length ys \<le> a \<Longrightarrow> holds (patch m b ys) a xs"
  by (induction xs arbitrary: a) (auto simp: patch_def)

subsection \<open>Stores of things that lie apart\<close>

text \<open>\<open>key\<close> tells the things apart, \<open>addr\<close> and \<open>image\<close> are the place and the bytes a write leaves, \<open>ok\<close> are the writes that
  are allowed, and \<open>works\<close> the states the store promises something about.\<close>

definition last_write :: "('w \<Rightarrow> 'k) \<Rightarrow> 'w list \<Rightarrow> 'k \<Rightarrow> 'w option" where
  "last_write key ws = fold (\<lambda>w M. M(key w \<mapsto> w)) ws Map.empty"

lemma last_write_Nil [simp]: "last_write key [] k = None"
  by (simp add: last_write_def)

lemma last_write_snoc [simp]: "last_write key (ws @ [w]) k = (if k = key w then Some w else last_write key ws k)"
  by (simp add: last_write_def)

lemma last_write_is_Some: "w \<in> set ws \<Longrightarrow> last_write key ws (key w) \<noteq> None"
  by (induction ws rule: rev_induct) auto

lemma last_write_in: "last_write key ws k = Some w \<Longrightarrow> w \<in> set ws \<and> key w = k"
  by (induction ws rule: rev_induct) (auto split: if_splits)

lemma last_write_once: "distinct (map key ws) \<Longrightarrow> w \<in> set ws \<Longrightarrow> last_write key ws (key w) = Some w"
  by (induction ws rule: rev_induct) (auto simp: image_iff)

locale byte_store =
  fixes memory :: "'c \<Rightarrow> nat \<Rightarrow> u8" and works :: "'c \<Rightarrow> bool" and store :: "'w \<Rightarrow> 'c \<Rightarrow> 'c"
    and ok :: "'w \<Rightarrow> bool" and key :: "'w \<Rightarrow> 'k" and addr :: "'w \<Rightarrow> nat" and image :: "'w \<Rightarrow> u8 list"
  assumes stores: "works c \<Longrightarrow> ok w \<Longrightarrow> memory (store w c) = patch (memory c) (addr w) (image w)"
    and keeps_working: "works c \<Longrightarrow> ok w \<Longrightarrow> works (store w c)"
    and apart: "ok v \<Longrightarrow> ok w \<Longrightarrow> key v \<noteq> key w \<Longrightarrow> addr v + length (image v) \<le> addr w \<or> addr w + length (image w) \<le> addr v"
begin

lemma run_works:
  assumes "works c" "\<forall>w\<in>set ws. ok w"
  shows "works (fold store ws c)"
  using assms by (induction ws arbitrary: c) (simp_all add: keeps_working)

text \<open>Whatever was written last to a key is where it belongs.\<close>

lemma run_holds:
  assumes "works c" "\<forall>w\<in>set ws. ok w" "last_write key ws k = Some w"
  shows "holds (memory (fold store ws c)) (addr w) (image w)"
  using assms(2,3)
proof (induction ws arbitrary: k rule: rev_induct)
  case (snoc v ws)
  have m: "memory (fold store (ws @ [v]) c) = patch (memory (fold store ws c)) (addr v) (image v)"
    using stores[OF run_works[OF assms(1)]] snoc.prems(1) by simp
  show ?case
  proof (cases "k = key v")
    case True
    then show ?thesis using snoc.prems(2) holds_patch unfolding m by simp
  next
    case False
    then have l: "last_write key ws k = Some w" using snoc.prems(2) by simp
    with snoc.IH snoc.prems(1) have h: "holds (memory (fold store ws c)) (addr w) (image w)" by simp
    have w: "w \<in> set ws" "key w = k" using last_write_in[OF l] by simp_all
    then have "ok w" "ok v" "key w \<noteq> key v" using snoc.prems(1) False by auto
    then show ?thesis unfolding m by (intro holds_apart[OF h] apart)
  qed
qed simp

end

end
