(* ===== verification/App_E2Param.thy ===== *)
theory App_E2Param
  imports App_E2Tables App_Store
begin

text \<open>
  The parameters of the terminal in its EEPROM, \<open>User/driver/src/EepromPram.c\<close>: a numeric parameter is stored as
  its bytes and a byte with their sum, a string with its length in front. \<open>E2prom_25LC320A.c\<close> hands single
  bytes to the flash library, which talks to the chip: what the library and the chip do is the parameter
  \<open>sfud\<close>, and \<open>e2_chip\<close> says what is relied on, a memory of 4096 bytes.
\<close>

subsection \<open>The chip\<close>

record 'c sfud =
  sfud_read :: "u32 \<Rightarrow> nat \<Rightarrow> 'c \<Rightarrow> u8 list \<times> 'c"
  sfud_write :: "u32 \<Rightarrow> u8 list \<Rightarrow> 'c \<Rightarrow> u32 \<times> 'c"

text \<open>The error of a read is dropped: what is then in the caller's buffer is the list.\<close>

definition E2prom_ReadByte :: "'c sfud \<Rightarrow> u16 \<Rightarrow> u8 \<Rightarrow> 'c \<Rightarrow> u8 list \<times> 'c" where
  "E2prom_ReadByte ops Address bytenum c = sfud_read ops (ucast Address) (unat bytenum) c"

definition E2prom_WriteByte :: "'c sfud \<Rightarrow> u16 \<Rightarrow> u8 \<Rightarrow> 'c \<Rightarrow> u8 \<times> 'c" where
  "E2prom_WriteByte ops Address data c =
     (let (result, c1) = sfud_write ops (ucast Address) [data] c in (if (ucast result :: u8) = 0 then 1 else 0, c1))"

text \<open>The self-test writes and reads back the last two bytes, three times at most.\<close>

fun check_eeprom :: "'c sfud \<Rightarrow> nat \<Rightarrow> 'c \<Rightarrow> bool \<times> 'c" where
  "check_eeprom ops 0 c = (False, c)"
| "check_eeprom ops (Suc n) c =
     (let Address = 0x1000 - 2;
          c1 = snd (E2prom_WriteByte ops Address 0x4F c);
          c2 = snd (E2prom_WriteByte ops (Address + 1) 0x4B c1);
          (ReadBuffer, c3) = E2prom_ReadByte ops Address 2 c2
      in if ReadBuffer ! 0 = 0x4F \<and> ReadBuffer ! 1 = 0x4B then (True, c3) else check_eeprom ops n c3)"

definition CheckEepromChip :: "'c sfud \<Rightarrow> 'c \<Rightarrow> bool \<times> 'c" where
  "CheckEepromChip ops c = check_eeprom ops 3 c"

abbreviation E2_ALL_DRIVER_INFORMATION_ID :: u32 where "E2_ALL_DRIVER_INFORMATION_ID \<equiv> 0xF20D"

abbreviation E2_UPDATA_URL_ID :: u32 where "E2_UPDATA_URL_ID \<equiv> 0xF21F"

subsection \<open>Writing and reading a parameter\<close>

fun e2_write_bytes :: "'c sfud \<Rightarrow> u16 \<Rightarrow> u8 list \<Rightarrow> 'c \<Rightarrow> u16 \<times> 'c" where
  "e2_write_bytes ops Address [] c = (Address, c)"
| "e2_write_bytes ops Address (x # xs) c = e2_write_bytes ops (Address + 1) xs (snd (E2prom_WriteByte ops Address x c))"

text \<open>Up to 49 bytes are read back and their sum is compared.\<close>

definition EepromPram_WritePram :: "'c sfud \<Rightarrow> u32 \<Rightarrow> u8 list \<Rightarrow> u8 \<Rightarrow> 'c \<Rightarrow> u16 \<times> 'c" where
  "EepromPram_WritePram ops PramID pBuffer BufferLen c =
     (let ID = unat (E2ParamApp_ConvertPramIDToGroupIndex (ucast PramID)) in
      if ID = 0 then (0, c)
      else if ID \<ge> E2_PRAM_ID_INDEX_MAX then (0, c)
      else if EepromPramAddress ! ID = 0 then (0, c)
      else if BufferLen > EepromPramLength ! ID \<or> BufferLen = 0 then (0, c)
      else let data = take (unat BufferLen) pBuffer;
               VerifyByte = sum_list data;
               Address = EepromPramAddress ! ID;
               (a1, c1) = (if EepromPramSwitch ! ID = 1 then (Address + 1, snd (E2prom_WriteByte ops Address BufferLen c))
                           else (Address, c));
               (a2, c2) = e2_write_bytes ops a1 data c1;
               c3 = snd (E2prom_WriteByte ops a2 VerifyByte c2);
               a3 = a2 + 1
           in if BufferLen > 49 then (ucast BufferLen, c3)
              else let (Buffer, c4) = E2prom_ReadByte ops (a3 - (ucast BufferLen + 1)) BufferLen c3
                   in (if sum_list (take (unat BufferLen) Buffer) = VerifyByte then ucast BufferLen else 0, c4))"

text \<open>A number of \<open>n\<close> bytes and its sum; \<open>memcpy\<close> to the caller's buffer is the returned list.\<close>

definition e2_read_number :: "'c sfud \<Rightarrow> u16 \<Rightarrow> u8 \<Rightarrow> 'c \<Rightarrow> u16 \<times> u8 list \<times> 'c" where
  "e2_read_number ops Address n c =
     (let (Buffer, c1) = E2prom_ReadByte ops Address (n + 1) c; data = take (unat n) Buffer
      in if sum_list data = Buffer ! unat n then (ucast n, data, c1) else (0, [], c1))"

text \<open>\<open>None\<close>: the index is read from behind the tables.\<close>

definition EepromPram_ReadPram :: "'c sfud \<Rightarrow> u32 \<Rightarrow> 'c \<Rightarrow> (u16 \<times> u8 list \<times> 'c) option" where
  "EepromPram_ReadPram ops PramID c =
     (let ID = unat (E2ParamApp_ConvertPramIDToGroupIndex (ucast PramID)) in
      if ID = 0 then Some (0, [], c)
      else if ID \<ge> E2_PRAM_ID_INDEX_MAX then None
      else let Address = EepromPramAddress ! ID; len = EepromPramLength ! ID in
      if len = 0 then Some (0, [], c)
      else if len = 1 then Some (e2_read_number ops Address 1 c)
      else if len = 2 then Some (e2_read_number ops Address 2 c)
      else if len = 4 then Some (e2_read_number ops Address 4 c)
      else let (first, c1) = E2prom_ReadByte ops Address 1 c; length1 = first ! 0; a1 = Address + 1 in
        if PramID = E2_ALL_DRIVER_INFORMATION_ID \<or> PramID = E2_UPDATA_URL_ID
        then let (data, c2) = E2prom_ReadByte ops a1 length1 c1 in Some (ucast length1, data, c2)
        else if length1 > 49 then Some (0, [], c1)
        else Some (e2_read_number ops a1 length1 c1))"

text \<open>The end of the area is taken to be byte 1630.\<close>

definition EepromPram_EraseAllPram :: "'c sfud \<Rightarrow> 'c \<Rightarrow> 'c" where
  "EepromPram_EraseAllPram ops c =
     fold (\<lambda>a c. snd (E2prom_WriteByte ops (of_nat a) 0xff c)) [10..<1630] c"

subsection \<open>The chip as a memory\<close>

text \<open>\<open>mem c\<close> are the bytes of the chip: a read returns them and changes none, a write of one byte changes one.\<close>

definition e2_chip :: "'c sfud \<Rightarrow> ('c \<Rightarrow> nat \<Rightarrow> u8) \<Rightarrow> bool" where
  "e2_chip ops mem \<longleftrightarrow>
     (\<forall>a n c. a + n \<le> 4096 \<longrightarrow> fst (sfud_read ops (of_nat a) n c) = map (mem c) [a..<a + n] \<and> mem (snd (sfud_read ops (of_nat a) n c)) = mem c)
   \<and> (\<forall>a d c. a < 4096 \<longrightarrow> mem (snd (sfud_write ops (of_nat a) [d] c)) = (mem c)(a := d))"

lemma E2prom_ReadByte_chip:
  assumes "e2_chip ops mem" "unat a + unat n \<le> 4096"
  obtains c' where "E2prom_ReadByte ops a n c = (map (mem c) [unat a..<unat a + unat n], c')" "mem c' = mem c"
proof -
  have "ucast a = (of_nat (unat a) :: u32)" by simp
  moreover obtain out c' where r: "sfud_read ops (of_nat (unat a)) (unat n) c = (out, c')" by fastforce
  moreover have "out = map (mem c) [unat a..<unat a + unat n]" "mem c' = mem c" using assms r unfolding e2_chip_def by (metis fst_conv, metis snd_conv)
  ultimately show thesis using that by (simp add: E2prom_ReadByte_def)
qed

lemma E2prom_WriteByte_chip:
  assumes "e2_chip ops mem" "unat a < 4096"
  shows "mem (snd (E2prom_WriteByte ops a d c)) = (mem c)(unat a := d)"
proof -
  have "ucast a = (of_nat (unat a) :: u32)" by simp
  moreover obtain e c' where r: "sfud_write ops (of_nat (unat a)) [d] c = (e, c')" by fastforce
  moreover have "mem c' = (mem c)(unat a := d)" using assms r unfolding e2_chip_def by (metis snd_conv)
  ultimately show ?thesis by (simp add: E2prom_WriteByte_def)
qed

lemma e2_write_bytes_chip:
  assumes "e2_chip ops mem" "unat a + length xs \<le> 4096" "e2_write_bytes ops a xs c = (a', c')"
  shows "unat a' = unat a + length xs \<and> mem c' = patch (mem c) (unat a) xs"
  using assms(2,3)
proof (induction xs arbitrary: a c)
  case (Cons x xs)
  have s: "unat (a + 1) = Suc (unat a)" using Cons.prems(1) by (intro unat_Suc_less[of _ 4096]) (simp add: word_less_nat_alt)
  have "unat a' = unat (a + 1) + length xs \<and> mem c' = patch (mem (snd (E2prom_WriteByte ops a x c))) (unat (a + 1)) xs"
    by (rule Cons.IH) (use Cons.prems s in simp_all)
  then show ?case using Cons.prems(1) E2prom_WriteByte_chip[OF assms(1), of a x c] by (simp add: s patch_Cons)
qed simp

subsection \<open>What a write leaves and a read finds\<close>

definition e2_index :: "u32 \<Rightarrow> nat" where
  "e2_index PramID = unat (E2ParamApp_ConvertPramIDToGroupIndex (ucast PramID))"

text \<open>A parameter that exists, the bytes it takes, and those values that are read as they were written.\<close>

definition e2_known :: "u32 \<Rightarrow> bool" where
  "e2_known p \<longleftrightarrow> e2_index p \<noteq> 0 \<and> e2_index p < 439 \<and> EepromPramLength ! e2_index p \<noteq> 0"

abbreviation e2_address :: "u32 \<Rightarrow> nat" where "e2_address p \<equiv> unat (EepromPramAddress ! e2_index p)"

definition e2_image :: "nat \<Rightarrow> u8 list \<Rightarrow> u8 list" where
  "e2_image i data = (if EepromPramSwitch ! i = 1 then [of_nat (length data)] else []) @ data @ [sum_list data]"

definition e2_value :: "u32 \<Rightarrow> u8 list \<Rightarrow> bool" where
  "e2_value p data \<longleftrightarrow> data \<noteq> [] \<and> length data \<le> unat (EepromPramLength ! e2_index p)
     \<and> (if EepromPramSwitch ! e2_index p = 1
        then length data \<le> 49 \<or> p = E2_ALL_DRIVER_INFORMATION_ID \<or> p = E2_UPDATA_URL_ID
        else length data = unat (EepromPramLength ! e2_index p))"

lemma e2_store:
  assumes ch: "e2_chip ops mem" and b: "unat a + length data < 4096" and w: "e2_write_bytes ops a data c = (a', c')"
  shows "mem (snd (E2prom_WriteByte ops a' x c')) = patch (mem c) (unat a) (data @ [x])" "a' = a + of_nat (length data)"
proof -
  have r: "unat a' = unat a + length data" "mem c' = patch (mem c) (unat a) data"
    using e2_write_bytes_chip[OF ch less_imp_le[OF b] w] by simp_all
  have "mem (snd (E2prom_WriteByte ops a' x c')) = (mem c')(unat a' := x)" by (rule E2prom_WriteByte_chip[OF ch]) (use r b in simp)
  also have "\<dots> = patch (mem c) (unat a) (data @ [x])" unfolding r patch_one[of _ "unat a + length data"] patch_append ..
  finally show "mem (snd (E2prom_WriteByte ops a' x c')) = patch (mem c) (unat a) (data @ [x])" .
  have "a' = of_nat (unat a')" by simp
  then show "a' = a + of_nat (length data)" unfolding r(1) by simp
qed

lemma EepromPram_WritePram_stores:
  assumes ch: "e2_chip ops mem" and k: "e2_known p" and n: "0 < n" "n \<le> EepromPramLength ! e2_index p" "unat n \<le> length buf"
  obtains c' where "EepromPram_WritePram ops p buf n c = (ucast n, c')"
    "mem c' = patch (mem c) (e2_address p) (e2_image (e2_index p) (take (unat n) buf))"
proof -
  let ?i = "e2_index p"
  define d where "d = take (unat n) buf"
  have i: "?i \<noteq> 0" "?i < 439" "EepromPramLength ! ?i \<noteq> 0" using k by (simp_all add: e2_known_def)
  note e = e2_entry[OF i(2)]
  let ?a = "EepromPramAddress ! ?i"
  have l: "length d = unat n" using n(3) by (simp add: d_def)
  have b: "unat ?a + unat n + 2 \<le> 2884" using e(2)[OF i(3)] n(2) by (simp add: word_le_nat_alt)
  have a0: "?a \<noteq> 0" using e(1) i(3) by simp
  let ?s = "EepromPramSwitch ! ?i = 1"
  define a1 where "a1 = (if ?s then ?a + 1 else ?a)"
  define c1 where "c1 = (if ?s then snd (E2prom_WriteByte ops ?a n c) else c)"
  obtain a2 c2 where w: "e2_write_bytes ops a1 d c1 = (a2, c2)" by fastforce
  have ua: "unat (?a + 1) = Suc (unat ?a)" by (rule unat_Suc_less[of _ 4096]) (use b in \<open>simp add: word_less_nat_alt\<close>)
  then have ua1: "unat a1 = unat ?a + (if ?s then 1 else 0)" by (simp add: a1_def)
  have b1: "unat a1 + length d < 4096" using b l ua1 by simp
  define c3 where "c3 = snd (E2prom_WriteByte ops a2 (sum_list d) c2)"
  have m3: "mem c3 = patch (mem c1) (unat a1) (d @ [sum_list d])" and a2: "a2 = a1 + of_nat (unat n)"
    using e2_store[OF ch b1 w] by (simp_all add: c3_def l)
  have "mem c1 = (if ?s then patch (mem c) (unat ?a) [n] else mem c)"
    using E2prom_WriteByte_chip[OF ch, of ?a n c] b by (simp add: c1_def patch_one)
  then have img: "mem c3 = patch (mem c) (unat ?a) (e2_image ?i d)"
    unfolding m3 ua1 e2_image_def using patch_append[of "mem c" "unat ?a" "[n]" "d @ [sum_list d]"] l by auto
  have un: "of_nat (unat n) = (ucast n :: u16)" by simp
  have a3: "a2 - ucast n = a1" unfolding a2 un by simp
  have nn: "\<not> (n > EepromPramLength ! ?i \<or> n = 0)" using n(1,2) by auto
  have rb: "unat a1 + unat n \<le> 4096" using b1 l by simp
  obtain c4 where c4: "E2prom_ReadByte ops a1 n c3 = (map (mem c3) [unat a1..<unat a1 + unat n], c4)" "mem c4 = mem c3"
    by (rule E2prom_ReadByte_chip[OF ch rb])
  have "holds (mem c3) (unat a1) d" using holds_patch[of "mem c1" "unat a1" "d @ [sum_list d]"] by (simp add: m3 holds_append)
  then have rd: "map (mem c3) [unat a1..<unat a1 + unat n] = d" unfolding holds_iff l .
  have idx: "unat (E2ParamApp_ConvertPramIDToGroupIndex (ucast p)) = ?i" by (simp add: e2_index_def)
  have pair: "(if ?s then (?a + 1, snd (E2prom_WriteByte ops ?a n c)) else (?a, c)) = (a1, c1)" by (simp add: a1_def c1_def)
  have "EepromPram_WritePram ops p buf n c = (if n > 49 then (ucast n, c3) else (ucast n, c4))"
    using i(1,2) a0 nn c4(1) rd l
    by (simp add: EepromPram_WritePram_def Let_def idx pair w a3 flip: c3_def d_def)
  then show thesis using that[of c3] that[of c4] c4(2) img unfolding d_def by (auto split: if_splits)
qed

lemma e2_read_number_chip:
  assumes ch: "e2_chip ops mem" and b: "unat a + unat n < 4096" "n < 255" and h: "holds (mem c) (unat a) (data @ [x])" "length data = unat n"
  obtains c' where "e2_read_number ops a n c = (if sum_list data = x then (ucast n, data, c') else (0, [], c'))" "mem c' = mem c"
proof -
  have n: "unat (n + 1) = Suc (unat n)" using b(2) by (rule unat_Suc_less)
  have "unat a + unat (n + 1) \<le> 4096" using b(1) n by simp
  then obtain c' where c': "E2prom_ReadByte ops a (n + 1) c = (map (mem c) [unat a..<unat a + unat (n + 1)], c')" "mem c' = mem c"
    by (rule E2prom_ReadByte_chip[OF ch])
  have "map (mem c) [unat a..<unat a + unat (n + 1)] = data @ [x]" using h unfolding holds_iff n by simp
  then have "e2_read_number ops a n c = (if sum_list data = x then (ucast n, data, c') else (0, [], c'))"
    using h(2) by (simp add: e2_read_number_def c'(1) nth_append)
  then show thesis using c'(2) by (rule that)
qed

lemma EepromPram_ReadPram_string:
  assumes ch: "e2_chip ops mem" and k: "e2_known p" and st: "EepromPramSwitch ! e2_index p = 1"
    and l: "length data \<le> unat (EepromPramLength ! e2_index p)" "length data \<le> 49"
    and np: "p \<noteq> E2_ALL_DRIVER_INFORMATION_ID" "p \<noteq> E2_UPDATA_URL_ID"
    and h: "holds (mem c) (e2_address p) (of_nat (length data) # data @ [x])"
  obtains c' where "EepromPram_ReadPram ops p c = Some (if sum_list data = x then (of_nat (length data), data, c') else (0, [], c'))"
    "mem c' = mem c"
proof -
  let ?i = "e2_index p"
  let ?a = "EepromPramAddress ! ?i" and ?l = "EepromPramLength ! ?i"
  have i: "?i \<noteq> 0" "?i < 439" "?l \<noteq> 0" using k by (simp_all add: e2_known_def)
  have b: "unat ?a + unat ?l + 2 \<le> 2884" by (rule e2_entry(2)[OF i(2,3)])
  have idx: "unat (E2ParamApp_ConvertPramIDToGroupIndex (ucast p)) = ?i" by (simp add: e2_index_def)
  have f: "?l \<notin> {1, 2, 4}" using st e2_entry(4)[OF i(2)] by (auto split: if_splits)
  have dn: "unat (of_nat (length data) :: u8) = length data" using l(2) by (simp add: unat_of_nat)
  have h': "mem c (unat ?a) = of_nat (length data)" "holds (mem c) (Suc (unat ?a)) (data @ [x])" using h by simp_all
  have "unat ?a + unat (1 :: u8) \<le> 4096" using b by simp
  then obtain c1 where "E2prom_ReadByte ops ?a 1 c = (map (mem c) [unat ?a..<unat ?a + unat (1 :: u8)], c1)" "mem c1 = mem c"
    by (rule E2prom_ReadByte_chip[OF ch])
  then have c1: "E2prom_ReadByte ops ?a 1 c = ([of_nat (length data)], c1)" "mem c1 = mem c" using h'(1) by simp_all
  have ua: "unat (?a + 1) = Suc (unat ?a)" by (rule unat_Suc_less[of _ 4096]) (use b in \<open>simp add: word_less_nat_alt\<close>)
  have ul: "ucast (of_nat (length data) :: u8) = (of_nat (length data) :: u16)" using arg_cong[OF dn, of "of_nat :: nat \<Rightarrow> u16"] by simp
  have le: "\<not> (of_nat (length data) :: u8) > 49" "(of_nat (length data) :: u8) < 255" using l(2) by (simp_all add: word_less_nat_alt dn)
  have b': "unat (?a + 1) + unat (of_nat (length data) :: u8) < 4096" using b l(1) by (simp add: ua dn)
  have h2: "holds (mem c1) (unat (?a + 1)) (data @ [x])" using h'(2) by (simp add: ua c1(2))
  obtain c2 where c2: "e2_read_number ops (?a + 1) (of_nat (length data)) c1 =
      (if sum_list data = x then (ucast (of_nat (length data) :: u8), data, c2) else (0, [], c2))" "mem c2 = mem c1"
    by (rule e2_read_number_chip[OF ch b' le(2) h2]) (simp_all add: dn)
  have "EepromPram_ReadPram ops p c = Some (e2_read_number ops (?a + 1) (of_nat (length data)) c1)"
    using f i c1(1) le(1) np by (auto simp: EepromPram_ReadPram_def Let_def idx)
  then show thesis using c1(2) c2 that unfolding ul by simp
qed

lemma EepromPram_ReadPram_finds:
  assumes ch: "e2_chip ops mem" and k: "e2_known p" and v: "e2_value p data"
    and h: "holds (mem c) (e2_address p) (e2_image (e2_index p) data)"
  obtains c' where "EepromPram_ReadPram ops p c = Some (of_nat (length data), data, c')" "mem c' = mem c"
proof -
  let ?i = "e2_index p"
  let ?a = "EepromPramAddress ! ?i" and ?l = "EepromPramLength ! ?i"
  have i: "?i \<noteq> 0" "?i < 439" "?l \<noteq> 0" using k by (simp_all add: e2_known_def)
  note e = e2_entry[OF i(2)]
  have b: "unat ?a + unat ?l + 2 \<le> 2884" by (rule e(2)[OF i(3)])
  have idx: "unat (E2ParamApp_ConvertPramIDToGroupIndex (ucast p)) = ?i" by (simp add: e2_index_def)
  show thesis
  proof (cases "?l \<in> {1, 2, 4}")
    case True
    then have s: "EepromPramSwitch ! ?i \<noteq> 1" using e(4) by auto
    then have d: "length data = unat ?l" using v by (simp add: e2_value_def)
    have h': "holds (mem c) (unat ?a) (data @ [sum_list data])" using h s by (simp add: e2_image_def)
    have l: "?l < 255" using True by auto
    have b': "unat ?a + unat ?l < 4096" using b by simp
    obtain c' where c': "e2_read_number ops ?a ?l c = (ucast ?l, data, c')" "mem c' = mem c"
      by (rule e2_read_number_chip[OF ch b' l h' d]) simp
    have "EepromPram_ReadPram ops p c = Some (e2_read_number ops ?a ?l c)"
      using True i by (auto simp: EepromPram_ReadPram_def Let_def idx)
    then show thesis using c' that[of c'] by (simp add: d)
  next
    case False
    then have s: "EepromPramSwitch ! ?i = 1" using e(4) i(3) by auto
    have dl: "length data \<le> unat ?l" "data \<noteq> []" using v by (simp_all add: e2_value_def)
    then have dn: "unat (of_nat (length data) :: u8) = length data" using e(3) by (simp add: unat_of_nat)
    have h': "mem c (unat ?a) = of_nat (length data)" "holds (mem c) (Suc (unat ?a)) (data @ [sum_list data])"
      using h s by (simp_all add: e2_image_def)
    have "unat ?a + unat (1 :: u8) \<le> 4096" using b by simp
    then obtain c1 where "E2prom_ReadByte ops ?a 1 c = (map (mem c) [unat ?a..<unat ?a + unat (1 :: u8)], c1)" "mem c1 = mem c"
      by (rule E2prom_ReadByte_chip[OF ch])
    then have c1: "E2prom_ReadByte ops ?a 1 c = ([of_nat (length data)], c1)" "mem c1 = mem c" using h'(1) by simp_all
    have ua: "unat (?a + 1) = Suc (unat ?a)" by (rule unat_Suc_less[of _ 4096]) (use b in \<open>simp add: word_less_nat_alt\<close>)
    have ul: "ucast (of_nat (length data) :: u8) = (of_nat (length data) :: u16)"
      using dn by (simp add: word_unat_eq_iff unsigned_ucast_eq unat_of_nat take_bit_nat_eq_self) 
    show thesis
    proof (cases "p = E2_ALL_DRIVER_INFORMATION_ID \<or> p = E2_UPDATA_URL_ID")
      case special: True
      have "unat (?a + 1) + unat (of_nat (length data) :: u8) \<le> 4096" using b dl(1) by (simp add: ua dn)
      then obtain c2 where c2: "E2prom_ReadByte ops (?a + 1) (of_nat (length data)) c1
          = (map (mem c1) [unat (?a + 1)..<unat (?a + 1) + unat (of_nat (length data) :: u8)], c2)" "mem c2 = mem c1"
        by (rule E2prom_ReadByte_chip[OF ch])
      have "map (mem c1) [unat (?a + 1)..<unat (?a + 1) + unat (of_nat (length data) :: u8)] = data"
        using conjunct1[OF h'(2)[unfolded holds_append]] unfolding holds_iff dn ua c1(2) .
      then have "EepromPram_ReadPram ops p c = Some (of_nat (length data), data, c2)"
        using special False i c1(1) c2(1) ul by (auto simp: EepromPram_ReadPram_def Let_def idx)
      then show thesis using c1(2) c2(2) that by simp
    next
      case normal: False
      have l49: "length data \<le> 49" using v s normal by (simp add: e2_value_def)
      from h s have hs: "holds (mem c) (e2_address p) (of_nat (length data) # data @ [sum_list data])" by (simp add: e2_image_def)
      have np: "p \<noteq> E2_ALL_DRIVER_INFORMATION_ID" "p \<noteq> E2_UPDATA_URL_ID" using normal by auto
      show thesis by (rule EepromPram_ReadPram_string[OF ch k s dl(1) l49 np hs]) (use that in simp)
    qed
  qed
qed

end
