(* ===== verification/App_E2Runs.thy ===== *)
theory App_E2Runs
  imports App_E2Param
begin

text \<open>
  Runs of writes to the EEPROM: writes that the tables allow keep out of each other's bytes, so each parameter holds
  what was written to it last.
\<close>

text \<open>A sequence of writes, and the values it leaves. A parameter is named by its index, which several numbers have.\<close>

definition e2_run :: "'c sfud \<Rightarrow> (u32 \<times> u8 list) list \<Rightarrow> 'c \<Rightarrow> 'c" where
  "e2_run ops ws c = fold (\<lambda>(p, data) c. snd (EepromPram_WritePram ops p data (of_nat (length data)) c)) ws c"

definition e2_last :: "(u32 \<times> u8 list) list \<Rightarrow> nat \<Rightarrow> u8 list option" where
  "e2_last ws i = map_option snd (last_write (\<lambda>w. e2_index (fst w)) ws i)"

text \<open>A write the tables allow, short enough not to reach into the parameter behind it.\<close>

definition e2_proper :: "u32 \<times> u8 list \<Rightarrow> bool" where
  "e2_proper = (\<lambda>(p, data). e2_known p \<and> e2_value p data \<and>
     (\<forall>(i, j)\<in>set e2_too_close. int (e2_index p) = i \<longrightarrow>
       e2_address p + length (e2_image (e2_index p) data) \<le> unat (EepromPramAddress ! nat j)))"

lemma e2_image_length: "length (e2_image i data) = length data + 1 + (if EepromPramSwitch ! i = 1 then 1 else 0)"
  by (simp add: e2_image_def)

lemma e2_value_length:
  assumes "e2_known p" "e2_value p data"
  shows "0 < (of_nat (length data) :: u8)" "(of_nat (length data) :: u8) \<le> EepromPramLength ! e2_index p"
    "unat (of_nat (length data) :: u8) = length data" "length data \<le> unat (EepromPramLength ! e2_index p)"
proof -
  have l: "length data \<le> unat (EepromPramLength ! e2_index p)" "data \<noteq> []" using assms(2) by (simp_all add: e2_value_def)
  then have "length data \<le> 150" using e2_entry(3)[of "e2_index p"] assms(1) by (force simp: e2_known_def)
  then have u: "unat (of_nat (length data) :: u8) = length data" by (simp add: unat_of_nat)
  then show "0 < (of_nat (length data) :: u8)" "(of_nat (length data) :: u8) \<le> EepromPramLength ! e2_index p"
    using l by (simp_all add: word_less_nat_alt word_le_nat_alt)
  show "unat (of_nat (length data) :: u8) = length data" "length data \<le> unat (EepromPramLength ! e2_index p)" by fact+
qed

lemma e2_write_value:
  assumes "e2_chip ops mem" "e2_known p" "e2_value p data"
  shows "mem (snd (EepromPram_WritePram ops p data (of_nat (length data)) c)) = patch (mem c) (e2_address p) (e2_image (e2_index p) data)"
    "fst (EepromPram_WritePram ops p data (of_nat (length data)) c) = of_nat (length data)"
proof -
  note l = e2_value_length[OF assms(2,3)]
  have le: "unat (of_nat (length data) :: u8) \<le> length data" using l(3) by simp
  obtain c' where "EepromPram_WritePram ops p data (of_nat (length data)) c = (ucast (of_nat (length data) :: u8), c')"
    "mem c' = patch (mem c) (e2_address p) (e2_image (e2_index p) (take (unat (of_nat (length data) :: u8)) data))"
    by (rule EepromPram_WritePram_stores[OF assms(1,2) l(1,2) le])
  moreover have "ucast (of_nat (length data) :: u8) = (of_nat (length data) :: u16)"
    using arg_cong[OF l(3), of "of_nat :: nat \<Rightarrow> u16"] by simp
  ultimately show "mem (snd (EepromPram_WritePram ops p data (of_nat (length data)) c)) = patch (mem c) (e2_address p) (e2_image (e2_index p) data)"
    "fst (EepromPram_WritePram ops p data (of_nat (length data)) c) = of_nat (length data)" by (simp_all add: l(3))
qed

lemma e2_images_apart:
  assumes "e2_proper (p, x)" "e2_proper (q, y)" "e2_index p \<noteq> e2_index q"
  shows "e2_address p + length (e2_image (e2_index p) x) \<le> e2_address q \<or> e2_address q + length (e2_image (e2_index q) y) \<le> e2_address p"
proof -
  have p: "e2_index p < 439" "EepromPramLength ! e2_index p \<noteq> 0" "length x \<le> unat (EepromPramLength ! e2_index p)"
    and q: "e2_index q < 439" "EepromPramLength ! e2_index q \<noteq> 0" "length y \<le> unat (EepromPramLength ! e2_index q)"
    using assms(1,2) by (simp_all add: e2_proper_def e2_known_def e2_value_def)
  have s: "unat (EepromPramSwitch ! i) = (if EepromPramSwitch ! i = 1 then 1 else 0)" if "i < 439" for i
    using e2_entry(4)[OF that] by auto
  show ?thesis
  proof (cases "(int (e2_index p), int (e2_index q)) \<in> set e2_too_close \<or> (int (e2_index q), int (e2_index p)) \<in> set e2_too_close")
    case True
    then show ?thesis using assms(1,2) by (fastforce simp: e2_proper_def)
  next
    case False
    then have "(int (e2_index p), int (e2_index q)) \<notin> set e2_too_close" "(int (e2_index q), int (e2_index p)) \<notin> set e2_too_close"
      by blast+
    from e2_apart[OF p(1) q(1) assms(3) p(2) q(2) this] show ?thesis
      using p(3) q(3) unfolding e2_image_length s[OF p(1)] s[OF q(1)] by linarith
  qed
qed

text \<open>The parameters are a store of things that lie apart. Its state is a chip that answers, with its bytes.\<close>

definition e2_put :: "u32 \<times> u8 list \<Rightarrow> 'c sfud \<times> ('c \<Rightarrow> nat \<Rightarrow> u8) \<times> 'c \<Rightarrow> 'c sfud \<times> ('c \<Rightarrow> nat \<Rightarrow> u8) \<times> 'c" where
  "e2_put = (\<lambda>(p, data) (ops, mem, c). (ops, mem, snd (EepromPram_WritePram ops p data (of_nat (length data)) c)))"

interpretation e2: byte_store "\<lambda>(ops, mem, c). mem c" "\<lambda>(ops, mem, c). e2_chip ops mem" e2_put e2_proper
  "\<lambda>w. e2_index (fst w)" "\<lambda>w. e2_address (fst w)" "\<lambda>w. e2_image (e2_index (fst w)) (snd w)"
proof
  show "(case e2_put w x of (ops, mem, c) \<Rightarrow> mem c) = patch (case x of (ops, mem, c) \<Rightarrow> mem c) (e2_address (fst w)) (e2_image (e2_index (fst w)) (snd w))"
    if "case x of (ops, mem, c) \<Rightarrow> e2_chip ops mem" "e2_proper w" for x :: "'c sfud \<times> ('c \<Rightarrow> nat \<Rightarrow> u8) \<times> 'c" and w
    using that by (cases x; cases w) (simp add: e2_put_def e2_proper_def e2_write_value(1))
  show "case e2_put w x of (ops, mem, c) \<Rightarrow> e2_chip ops mem" if "case x of (ops, mem, c) \<Rightarrow> e2_chip ops mem"
    for x :: "'c sfud \<times> ('c \<Rightarrow> nat \<Rightarrow> u8) \<times> 'c" and w
    using that by (cases x; cases w) (simp add: e2_put_def)
  show "e2_address (fst v) + length (e2_image (e2_index (fst v)) (snd v)) \<le> e2_address (fst w)
     \<or> e2_address (fst w) + length (e2_image (e2_index (fst w)) (snd w)) \<le> e2_address (fst v)"
    if "e2_proper v" "e2_proper w" "e2_index (fst v) \<noteq> e2_index (fst w)" for v w
    using that by (cases v; cases w) (simp add: e2_images_apart)
qed

lemma e2_run_put: "fold e2_put ws (ops, mem, c) = (ops, mem, e2_run ops ws c)"
  by (induction ws arbitrary: c) (auto simp: e2_run_def e2_put_def)

text \<open>Every parameter that has been written holds its last value.\<close>

lemma e2_run_holds:
  assumes "e2_chip ops mem" "\<forall>w\<in>set ws. e2_proper w" "e2_last ws (e2_index q) = Some y"
  shows "holds (mem (e2_run ops ws c)) (e2_address q) (e2_image (e2_index q) y)"
proof -
  obtain w where w: "last_write (\<lambda>w. e2_index (fst w)) ws (e2_index q) = Some w" "snd w = y"
    using assms(3) by (auto simp: e2_last_def)
  have "holds (mem (e2_run ops ws c)) (e2_address (fst w)) (e2_image (e2_index (fst w)) (snd w))"
    using e2.run_holds[OF _ assms(2) w(1), of "(ops, mem, c)"] assms(1) by (simp add: e2_run_put)
  moreover have "e2_index (fst w) = e2_index q" using last_write_in[OF w(1)] by simp
  ultimately show ?thesis using w(2) by simp
qed

end
