(* ===== verification/App_E2Defaults.thy ===== *)
theory App_E2Defaults
  imports App_E2Runs App_Bytes
begin

text \<open>
  The factory settings of \<open>User/driver/src/EepromPram.c\<close>: \<open>EepromPram_DefaultSet\<close> writes 111 parameters, each from the
  same local buffer and a second time when the first write failed, and \<open>EepromPram_DefaultSetRead\<close> looks whether 72 of
  them can be read. The calls of \<open>IWDG_ReloadCounter\<close> in between feed the hardware watchdog and change nothing
  here. \<open>HUOYUN_DEBUG_OPEN\<close> is not defined; whether \<open>MOD_TYPE\<close> is \<open>CDMA_MODULE_MC8331\<close>, which the
  build decides, is the argument \<open>mc8331\<close>.
\<close>

subsection \<open>The numbers of the parameters\<close>

abbreviation E2_TERMINAL_HEARTBEAT_ID :: u32 where "E2_TERMINAL_HEARTBEAT_ID \<equiv> 0x1"

abbreviation E2_TCP_ACK_OVERTIME_ID :: u32 where "E2_TCP_ACK_OVERTIME_ID \<equiv> 0x2"

abbreviation E2_TCP_RESEND_TIMES_ID :: u32 where "E2_TCP_RESEND_TIMES_ID \<equiv> 0x3"

abbreviation E2_UDP_ACK_OVERTIME_ID :: u32 where "E2_UDP_ACK_OVERTIME_ID \<equiv> 0x4"

abbreviation E2_UDP_RESEND_TIMES_ID :: u32 where "E2_UDP_RESEND_TIMES_ID \<equiv> 0x5"

abbreviation E2_SMS_ACK_OVERTIME_ID :: u32 where "E2_SMS_ACK_OVERTIME_ID \<equiv> 0x6"

abbreviation E2_SMS_RESEND_TIMES_ID :: u32 where "E2_SMS_RESEND_TIMES_ID \<equiv> 0x7"

abbreviation E2_POSITION_REPORT_STRATEGY_ID :: u32 where "E2_POSITION_REPORT_STRATEGY_ID \<equiv> 0x20"

abbreviation E2_POSITION_REPORT_SCHEME_ID :: u32 where "E2_POSITION_REPORT_SCHEME_ID \<equiv> 0x21"

abbreviation E2_DRIVER_UNLOGIN_REPORT_TIME_ID :: u32 where "E2_DRIVER_UNLOGIN_REPORT_TIME_ID \<equiv> 0x22"

abbreviation E2_SLEEP_REPORT_TIME_ID :: u32 where "E2_SLEEP_REPORT_TIME_ID \<equiv> 0x27"

abbreviation E2_EMERGENCY_REPORT_TIME_ID :: u32 where "E2_EMERGENCY_REPORT_TIME_ID \<equiv> 0x28"

abbreviation E2_ACCON_REPORT_TIME_ID :: u32 where "E2_ACCON_REPORT_TIME_ID \<equiv> 0x29"

abbreviation E2_ACCON_REPORT_DISTANCE_ID :: u32 where "E2_ACCON_REPORT_DISTANCE_ID \<equiv> 0x2c"

abbreviation E2_DRIVER_UNLOGIN_REPORT_DISTANCE_ID :: u32 where "E2_DRIVER_UNLOGIN_REPORT_DISTANCE_ID \<equiv> 0x2d"

abbreviation E2_SLEEP_REPORT_DISTANCE_ID :: u32 where "E2_SLEEP_REPORT_DISTANCE_ID \<equiv> 0x2e"

abbreviation E2_EMERGENCY_REPORT_DISTANCE_ID :: u32 where "E2_EMERGENCY_REPORT_DISTANCE_ID \<equiv> 0x2f"

abbreviation E2_CORNER_REPORT_ID :: u32 where "E2_CORNER_REPORT_ID \<equiv> 0x30"

abbreviation E2_ELECTRON_RADIUS_ID :: u32 where "E2_ELECTRON_RADIUS_ID \<equiv> 0x31"

abbreviation E2_TERMINAL_GET_PHONE_STRATEGY_ID :: u32 where "E2_TERMINAL_GET_PHONE_STRATEGY_ID \<equiv> 0x45"

abbreviation E2_MAX_PHONE_TIME_EACH_ID :: u32 where "E2_MAX_PHONE_TIME_EACH_ID \<equiv> 0x46"

abbreviation E2_MAX_PHONE_TIME_MONTH_ID :: u32 where "E2_MAX_PHONE_TIME_MONTH_ID \<equiv> 0x47"

abbreviation E2_ALARM_MASK_ID :: u32 where "E2_ALARM_MASK_ID \<equiv> 0x50"

abbreviation E2_ALARM_TEXT_SWITCH_ID :: u32 where "E2_ALARM_TEXT_SWITCH_ID \<equiv> 0x51"

abbreviation E2_ALARM_PHOTO_SWITCH_ID :: u32 where "E2_ALARM_PHOTO_SWITCH_ID \<equiv> 0x52"

abbreviation E2_ALARM_PHOTO_STORE_FLAG_ID :: u32 where "E2_ALARM_PHOTO_STORE_FLAG_ID \<equiv> 0x53"

abbreviation E2_KEY_FLAG_ID :: u32 where "E2_KEY_FLAG_ID \<equiv> 0x54"

abbreviation E2_MAX_SPEED_ID :: u32 where "E2_MAX_SPEED_ID \<equiv> 0x55"

abbreviation E2_OVER_SPEED_KEEP_TIME_ID :: u32 where "E2_OVER_SPEED_KEEP_TIME_ID \<equiv> 0x56"

abbreviation E2_MAX_DRVIE_TIME_ID :: u32 where "E2_MAX_DRVIE_TIME_ID \<equiv> 0x57"

abbreviation E2_MAX_DRVIE_TIME_ONEDAY_ID :: u32 where "E2_MAX_DRVIE_TIME_ONEDAY_ID \<equiv> 0x58"

abbreviation E2_MIN_RELAX_TIME_ID :: u32 where "E2_MIN_RELAX_TIME_ID \<equiv> 0x59"

abbreviation E2_MAX_STOP_CAR_TIME_ID :: u32 where "E2_MAX_STOP_CAR_TIME_ID \<equiv> 0x5a"

abbreviation E2_SPEED_EARLY_ALARM_DVALUE_ID :: u32 where "E2_SPEED_EARLY_ALARM_DVALUE_ID \<equiv> 0x5b"

abbreviation E2_TIRE_EARLY_ALARM_DVALUE_ID :: u32 where "E2_TIRE_EARLY_ALARM_DVALUE_ID \<equiv> 0x5c"

abbreviation E2_SET_CRASH_ALARM_ID :: u32 where "E2_SET_CRASH_ALARM_ID \<equiv> 0x5d"

abbreviation E2_SET_ROLLOVER_ALARM_ID :: u32 where "E2_SET_ROLLOVER_ALARM_ID \<equiv> 0x5e"

abbreviation E2_TIME_PHOTO_CONTROL_ID :: u32 where "E2_TIME_PHOTO_CONTROL_ID \<equiv> 0x64"

abbreviation E2_MILE_PHOTO_CONTROL_ID :: u32 where "E2_MILE_PHOTO_CONTROL_ID \<equiv> 0x65"

abbreviation E2_CAR_TOTAL_MILE_ID :: u32 where "E2_CAR_TOTAL_MILE_ID \<equiv> 0x80"

abbreviation E2_GPS_SET_MODE_ID :: u32 where "E2_GPS_SET_MODE_ID \<equiv> 0x90"

abbreviation E2_GPS_SET_BAUD_ID :: u32 where "E2_GPS_SET_BAUD_ID \<equiv> 0x91"

abbreviation E2_GPS_SET_OUTPUT_RATE_ID :: u32 where "E2_GPS_SET_OUTPUT_RATE_ID \<equiv> 0x92"

abbreviation E2_GPS_SET_GATHER_RATE_ID :: u32 where "E2_GPS_SET_GATHER_RATE_ID \<equiv> 0x93"

abbreviation E2_GPS_SET_UPLOAD_MODE_ID :: u32 where "E2_GPS_SET_UPLOAD_MODE_ID \<equiv> 0x94"

abbreviation E2_GPS_SET_UPLOAD_VALUE_ID :: u32 where "E2_GPS_SET_UPLOAD_VALUE_ID \<equiv> 0x95"

abbreviation E2_CAN1_GATHER_TIME_ID :: u32 where "E2_CAN1_GATHER_TIME_ID \<equiv> 0x100"

abbreviation E2_CAN1_UPLOAD_TIME_ID :: u32 where "E2_CAN1_UPLOAD_TIME_ID \<equiv> 0x101"

abbreviation E2_CAN2_GATHER_TIME_ID :: u32 where "E2_CAN2_GATHER_TIME_ID \<equiv> 0x102"

abbreviation E2_CAN2_UPLOAD_TIME_ID :: u32 where "E2_CAN2_UPLOAD_TIME_ID \<equiv> 0x103"

abbreviation E2_CAN_SET_ONLY_GATHER_0_ID :: u32 where "E2_CAN_SET_ONLY_GATHER_0_ID \<equiv> 0x110"

abbreviation E2_MANUFACTURE_ID :: u32 where "E2_MANUFACTURE_ID \<equiv> 0xf205"

abbreviation E2_CAR_FEATURE_COEF_ID :: u32 where "E2_CAR_FEATURE_COEF_ID \<equiv> 0xf20f"

abbreviation E2_SPEED_SELECT_ID :: u32 where "E2_SPEED_SELECT_ID \<equiv> 0xf210"

abbreviation E2_DOOR_SET_ID :: u32 where "E2_DOOR_SET_ID \<equiv> 0xf229"

abbreviation E2_INSTALL_TIME_FLAG_ID :: u32 where "E2_INSTALL_TIME_FLAG_ID \<equiv> 0xf22e"

abbreviation E2_GPS_CONTROL_ID :: u32 where "E2_GPS_CONTROL_ID \<equiv> 0xf230"

abbreviation E2_TAXIMETER_CONTROL_ID :: u32 where "E2_TAXIMETER_CONTROL_ID \<equiv> 0xf232"

abbreviation E2_BACKLIGHT_SELECT_ID :: u32 where "E2_BACKLIGHT_SELECT_ID \<equiv> 0xf211"

abbreviation E2_NIGHT_TIME0_ID :: u32 where "E2_NIGHT_TIME0_ID \<equiv> 0xf239"

abbreviation E2_NIGHT_MAX_DRVIE_TIME0_ID :: u32 where "E2_NIGHT_MAX_DRVIE_TIME0_ID \<equiv> 0xf23a"

abbreviation E2_NIGHT_MAX_SPEED0_ID :: u32 where "E2_NIGHT_MAX_SPEED0_ID \<equiv> 0xf23b"

abbreviation E2_UNLOGIN_TTS_PLAY_ID :: u32 where "E2_UNLOGIN_TTS_PLAY_ID \<equiv> 0xf24c"

abbreviation E2_OVERSPEED_PREALARM_KEEPTIME_ID :: u32 where "E2_OVERSPEED_PREALARM_KEEPTIME_ID \<equiv> 0xf250"

abbreviation E2_OVERSPEED_PREALARM_VOICE_ID :: u32 where "E2_OVERSPEED_PREALARM_VOICE_ID \<equiv> 0xf251"

abbreviation E2_OVERSPEED_PREALARM_GPROUP_TIME_ID :: u32 where "E2_OVERSPEED_PREALARM_GPROUP_TIME_ID \<equiv> 0xf252"

abbreviation E2_OVERSPEED_PREALARM_NUMBER_ID :: u32 where "E2_OVERSPEED_PREALARM_NUMBER_ID \<equiv> 0xf253"

abbreviation E2_OVERSPEED_PREALARM_NUMBER_TIME_ID :: u32 where "E2_OVERSPEED_PREALARM_NUMBER_TIME_ID \<equiv> 0xf254"

abbreviation E2_OVERSPEED_ALARM_VOICE_ID :: u32 where "E2_OVERSPEED_ALARM_VOICE_ID \<equiv> 0xf255"

abbreviation E2_OVERSPEED_ALARM_GPROUP_TIME_ID :: u32 where "E2_OVERSPEED_ALARM_GPROUP_TIME_ID \<equiv> 0xf256"

abbreviation E2_OVERSPEED_ALARM_NUMBER_ID :: u32 where "E2_OVERSPEED_ALARM_NUMBER_ID \<equiv> 0xf257"

abbreviation E2_OVERSPEED_ALARM_NUMBER_TIME_ID :: u32 where "E2_OVERSPEED_ALARM_NUMBER_TIME_ID \<equiv> 0xf258"

abbreviation E2_OVERSPEED_ALARM_REPORT_TIME_ID :: u32 where "E2_OVERSPEED_ALARM_REPORT_TIME_ID \<equiv> 0xf259"

abbreviation E2_OVERSPEED_NIGHT_TIME_ID :: u32 where "E2_OVERSPEED_NIGHT_TIME_ID \<equiv> 0xf25a"

abbreviation E2_NIGHT_OVERSPEED_PERCENT_ID :: u32 where "E2_NIGHT_OVERSPEED_PERCENT_ID \<equiv> 0xf25b"

abbreviation E2_NIGHT_DRIVE_PREALARM_TIME_ID :: u32 where "E2_NIGHT_DRIVE_PREALARM_TIME_ID \<equiv> 0xf25c"

abbreviation E2_NIGHT_DRIVE_PREALARM_VOICE_ID :: u32 where "E2_NIGHT_DRIVE_PREALARM_VOICE_ID \<equiv> 0xf25d"

abbreviation E2_NIGHT_DRIVE_PREALARM_GPOUP_TIME_ID :: u32 where "E2_NIGHT_DRIVE_PREALARM_GPOUP_TIME_ID \<equiv> 0xf25e"

abbreviation E2_NIGHT_DRIVE_PREALARM_NUMBER_ID :: u32 where "E2_NIGHT_DRIVE_PREALARM_NUMBER_ID \<equiv> 0xf25f"

abbreviation E2_FORBID_DRIVE_NIGHT_TIME_ID :: u32 where "E2_FORBID_DRIVE_NIGHT_TIME_ID \<equiv> 0xf260"

abbreviation E2_FORBID_DRIVE_PREALARM_TIME_ID :: u32 where "E2_FORBID_DRIVE_PREALARM_TIME_ID \<equiv> 0xf261"

abbreviation E2_FORBID_DRIVE_PREALARM_VOICE_ID :: u32 where "E2_FORBID_DRIVE_PREALARM_VOICE_ID \<equiv> 0xf262"

abbreviation E2_FORBID_DRIVE_PREALARM_GPOUP_TIME_ID :: u32 where "E2_FORBID_DRIVE_PREALARM_GPOUP_TIME_ID \<equiv> 0xf263"

abbreviation E2_FORBID_DRIVE_PREALARM_NUMBER_ID :: u32 where "E2_FORBID_DRIVE_PREALARM_NUMBER_ID \<equiv> 0xf264"

abbreviation E2_FORBID_DRIVE_ALARM_VOICE_ID :: u32 where "E2_FORBID_DRIVE_ALARM_VOICE_ID \<equiv> 0xf265"

abbreviation E2_FORBID_DRIVE_ALARM_GPOUP_TIME_ID :: u32 where "E2_FORBID_DRIVE_ALARM_GPOUP_TIME_ID \<equiv> 0xf266"

abbreviation E2_FORBID_DRIVE_ALARM_NUMBER_ID :: u32 where "E2_FORBID_DRIVE_ALARM_NUMBER_ID \<equiv> 0xf267"

abbreviation E2_FORBID_DRIVE_RUN_SPEED_ID :: u32 where "E2_FORBID_DRIVE_RUN_SPEED_ID \<equiv> 0xf268"

abbreviation E2_FORBID_DRIVE_RUN_SPEED_KEEPTIME_ID :: u32 where "E2_FORBID_DRIVE_RUN_SPEED_KEEPTIME_ID \<equiv> 0xf269"

abbreviation E2_TIRED_DRIVE_NIGHT_TIME_ID :: u32 where "E2_TIRED_DRIVE_NIGHT_TIME_ID \<equiv> 0xf26a"

abbreviation E2_NIGHT_MAX_DRVIE_TIME_ID :: u32 where "E2_NIGHT_MAX_DRVIE_TIME_ID \<equiv> 0xf26b"

abbreviation E2_NIGHT_MIN_RELAX_TIME_ID :: u32 where "E2_NIGHT_MIN_RELAX_TIME_ID \<equiv> 0xf26c"

abbreviation E2_TIRED_DRIVE_ALARM_TIME_ID :: u32 where "E2_TIRED_DRIVE_ALARM_TIME_ID \<equiv> 0xf26d"

abbreviation E2_TIRED_DRIVE_PREALARM_VOICE_ID :: u32 where "E2_TIRED_DRIVE_PREALARM_VOICE_ID \<equiv> 0xf26e"

abbreviation E2_TIRED_DRIVE_PREALARM_GPOUP_TIME_ID :: u32 where "E2_TIRED_DRIVE_PREALARM_GPOUP_TIME_ID \<equiv> 0xf26f"

abbreviation E2_TIRED_DRIVE_PREALARM_NUMBER_ID :: u32 where "E2_TIRED_DRIVE_PREALARM_NUMBER_ID \<equiv> 0xf270"

abbreviation E2_TIRED_DRIVE_PREALARM_NUMBER_TIME_ID :: u32 where "E2_TIRED_DRIVE_PREALARM_NUMBER_TIME_ID \<equiv> 0xf271"

abbreviation E2_TIRED_DRIVE_ALARM_VOICE_ID :: u32 where "E2_TIRED_DRIVE_ALARM_VOICE_ID \<equiv> 0xf272"

abbreviation E2_TIRED_DRIVE_ALARM_GPOUP_TIME_ID :: u32 where "E2_TIRED_DRIVE_ALARM_GPOUP_TIME_ID \<equiv> 0xf273"

abbreviation E2_TIRED_DRIVE_ALARM_NUMBER_ID :: u32 where "E2_TIRED_DRIVE_ALARM_NUMBER_ID \<equiv> 0xf274"

abbreviation E2_TIRED_DRIVE_ALARM_NUMBER_TIME_ID :: u32 where "E2_TIRED_DRIVE_ALARM_NUMBER_TIME_ID \<equiv> 0xf275"

abbreviation E2_TIRED_DRIVE_REPORT_OPEN_TIME_ID :: u32 where "E2_TIRED_DRIVE_REPORT_OPEN_TIME_ID \<equiv> 0xf276"

abbreviation E2_TIRED_DRIVE_REPORT_TIME_ID :: u32 where "E2_TIRED_DRIVE_REPORT_TIME_ID \<equiv> 0xf277"

abbreviation E2_TIRED_DRIVE_RUN_SPEED_ID :: u32 where "E2_TIRED_DRIVE_RUN_SPEED_ID \<equiv> 0xf278"

abbreviation E2_TIRED_DRIVE_RUN_KEEPTIME_ID :: u32 where "E2_TIRED_DRIVE_RUN_KEEPTIME_ID \<equiv> 0xf279"

abbreviation E2_ROUTE_EXCURSION_ALARM_NUMBER_ID :: u32 where "E2_ROUTE_EXCURSION_ALARM_NUMBER_ID \<equiv> 0xf27a"

abbreviation E2_ROUTE_EXCURSION_ALARM_GPOUP_TIME_ID :: u32 where "E2_ROUTE_EXCURSION_ALARM_GPOUP_TIME_ID \<equiv> 0xf27b"

abbreviation E2_ROUTE_EXCURSION_ALARM_VOICE_ID :: u32 where "E2_ROUTE_EXCURSION_ALARM_VOICE_ID \<equiv> 0xf27c"

abbreviation E2_REPORT_FREQ_EVENT_SWITCH_ID :: u32 where "E2_REPORT_FREQ_EVENT_SWITCH_ID \<equiv> 0xf27d"

abbreviation E2_RUN_FORBID_CALL_SWITCH_ID :: u32 where "E2_RUN_FORBID_CALL_SWITCH_ID \<equiv> 0xf27e"

abbreviation E2_LED_PORT_ID :: u32 where "E2_LED_PORT_ID \<equiv> 0xf280"

subsection \<open>Setting a parameter from the buffer\<close>

text \<open>What is put at the beginning of the buffer: a number, zeros (\<open>memset\<close> or a loop) or a text (\<open>strcpy\<close>).\<close>

datatype e2_fill = Long u32 | Short u16 | Byte u8 | Zeros nat | Text "u8 list"

fun fill_bytes :: "e2_fill \<Rightarrow> u8 list" where
  "fill_bytes (Long temp) = Public_ConvertLongToBuffer temp"
| "fill_bytes (Short temp) = Public_ConvertShortToBuffer temp"
| "fill_bytes (Byte temp) = [temp]"
| "fill_bytes (Zeros n) = replicate n 0"
| "fill_bytes (Text s) = s @ [0]"

definition fill_buffer :: "e2_fill \<Rightarrow> u8 list \<Rightarrow> u8 list" where
  "fill_buffer f Buffer = (let b = fill_bytes f in b @ drop (length b) Buffer)"

text \<open>\<open>Set f p off n\<close> fills the buffer and writes \<open>n\<close> of its bytes from \<open>off\<close> on; a text is written with its \<open>strlen\<close>.\<close>

datatype e2_default = Set e2_fill u32 nat u8

abbreviation Set_Text :: "u8 list \<Rightarrow> u32 \<Rightarrow> e2_default" where
  "Set_Text s PramID \<equiv> Set (Text s) PramID 0 (of_nat (length s))"

fun e2_set_all :: "'c sfud \<Rightarrow> e2_default list \<Rightarrow> u8 list \<Rightarrow> 'c \<Rightarrow> 'c" where
  "e2_set_all ops [] Buffer c = c"
| "e2_set_all ops (Set f PramID off BufferLen # ds) Buffer c =
     (let Buffer1 = fill_buffer f Buffer;
          (r, c1) = EepromPram_WritePram ops PramID (drop off Buffer1) BufferLen c;
          c2 = (if r = 0 then snd (EepromPram_WritePram ops PramID (drop off Buffer1) BufferLen c1) else c1)
      in e2_set_all ops ds Buffer1 c2)"

subsection \<open>The factory settings\<close>

text \<open>Links to the server and position reports.\<close>

definition defaults_link :: "e2_default list" where
  "defaults_link =
   [Set (Long 60) E2_TERMINAL_HEARTBEAT_ID 0 4,
    Set (Long 10) E2_TCP_ACK_OVERTIME_ID 0 4,
    Set (Long 3) E2_TCP_RESEND_TIMES_ID 0 4,
    Set (Long 10) E2_UDP_ACK_OVERTIME_ID 0 4,
    Set (Long 3) E2_UDP_RESEND_TIMES_ID 0 4,
    Set (Long 30) E2_SMS_ACK_OVERTIME_ID 0 4,
    Set (Long 3) E2_SMS_RESEND_TIMES_ID 0 4,
    Set (Long 0) E2_POSITION_REPORT_STRATEGY_ID 0 4,
    Set (Long 0) E2_POSITION_REPORT_SCHEME_ID 0 4,
    Set (Long 60) E2_DRIVER_UNLOGIN_REPORT_TIME_ID 0 4]"

text \<open>Position reports and the telephone.\<close>

definition defaults_report :: "e2_default list" where
  "defaults_report =
   [Set (Long 240) E2_SLEEP_REPORT_TIME_ID 0 4,
    Set (Long 10) E2_EMERGENCY_REPORT_TIME_ID 0 4,
    Set (Long 30) E2_ACCON_REPORT_TIME_ID 0 4,
    Set (Long 500) E2_ACCON_REPORT_DISTANCE_ID 0 4,
    Set (Long 500) E2_DRIVER_UNLOGIN_REPORT_DISTANCE_ID 0 4,
    Set (Long 200) E2_SLEEP_REPORT_DISTANCE_ID 0 4,
    Set (Long 200) E2_EMERGENCY_REPORT_DISTANCE_ID 0 4,
    Set (Long 30) E2_CORNER_REPORT_ID 0 4,
    Set (Short 500) E2_ELECTRON_RADIUS_ID 0 2,
    Set (Long 0) E2_TERMINAL_GET_PHONE_STRATEGY_ID 0 4,
    Set (Long 0) E2_MAX_PHONE_TIME_EACH_ID 0 4,
    Set (Long 0) E2_MAX_PHONE_TIME_MONTH_ID 0 4]"

text \<open>Alarms.\<close>

definition defaults_alarm :: "e2_default list" where
  "defaults_alarm =
   [Set (Long 0x1001a00) E2_ALARM_MASK_ID 0 4,
    Set (Long 0) E2_ALARM_TEXT_SWITCH_ID 0 4,
    Set (Long 1) E2_ALARM_PHOTO_SWITCH_ID 0 4,
    Set (Long 0) E2_ALARM_PHOTO_STORE_FLAG_ID 0 4,
    Set (Long 0) E2_KEY_FLAG_ID 0 4,
    Set (Long 100) E2_MAX_SPEED_ID 0 4,
    Set (Long 10) E2_OVER_SPEED_KEEP_TIME_ID 0 4,
    Set (Long 14400) E2_MAX_DRVIE_TIME_ID 0 4,
    Set (Long 0xffffffff) E2_MAX_DRVIE_TIME_ONEDAY_ID 0 4,
    Set (Long 1200) E2_MIN_RELAX_TIME_ID 0 4,
    Set (Long 0xffffffff) E2_MAX_STOP_CAR_TIME_ID 0 4,
    Set (Short 50) E2_SPEED_EARLY_ALARM_DVALUE_ID 0 2,
    Set (Short 1800) E2_TIRE_EARLY_ALARM_DVALUE_ID 0 2,
    Set (Short 10241) E2_SET_CRASH_ALARM_ID 0 2,
    Set (Short 45) E2_SET_ROLLOVER_ALARM_ID 0 2]"

text \<open>Photographs, positioning, buses and the vehicle.\<close>

definition defaults_device :: "e2_default list" where
  "defaults_device =
   [Set (Long 0) E2_TIME_PHOTO_CONTROL_ID 0 4,
    Set (Long 0) E2_MILE_PHOTO_CONTROL_ID 0 4,
    Set (Long 0) E2_CAR_TOTAL_MILE_ID 0 4,
    Set (Byte 3) E2_GPS_SET_MODE_ID 0 1,
    Set (Byte 2) E2_GPS_SET_BAUD_ID 0 1,
    Set (Byte 1) E2_GPS_SET_OUTPUT_RATE_ID 0 1,
    Set (Long 1) E2_GPS_SET_GATHER_RATE_ID 0 4,
    Set (Byte 0) E2_GPS_SET_UPLOAD_MODE_ID 0 1,
    Set (Long 0) E2_GPS_SET_UPLOAD_VALUE_ID 0 4,
    Set (Long 0) E2_CAN1_GATHER_TIME_ID 0 4,
    Set (Short 0) E2_CAN1_UPLOAD_TIME_ID 0 2,
    Set (Long 0) E2_CAN2_GATHER_TIME_ID 0 4,
    Set (Short 0) E2_CAN2_UPLOAD_TIME_ID 0 2,
    Set (Zeros 8) E2_CAN_SET_ONLY_GATHER_0_ID 0 8,
    Set (Text [55, 48, 49, 48, 56]) E2_MANUFACTURE_ID 0 5,
    Set (Long 7200) E2_CAR_FEATURE_COEF_ID 1 3,
    Set (Byte 3) E2_SPEED_SELECT_ID 0 1,
    Set (Long 0) E2_DOOR_SET_ID 0 1,
    Set (Byte 0) E2_INSTALL_TIME_FLAG_ID 0 1,
    Set (Byte 0) E2_GPS_CONTROL_ID 0 1,
    Set (Byte 0) E2_TAXIMETER_CONTROL_ID 0 1]"

text \<open>Driving too fast.\<close>

definition defaults_speed :: "e2_default list" where
  "defaults_speed =
   [Set (Byte 1) E2_BACKLIGHT_SELECT_ID 0 1,
    Set (Zeros 4) E2_NIGHT_TIME0_ID 0 4,
    Set (Long 7200) E2_NIGHT_MAX_DRVIE_TIME0_ID 0 4,
    Set (Long 255) E2_NIGHT_MAX_SPEED0_ID 0 4,
    Set (Byte 0) E2_UNLOGIN_TTS_PLAY_ID 0 1,
    Set (Long 3) E2_OVERSPEED_PREALARM_KEEPTIME_ID 0 4,
    Set_Text [199, 235, 191, 216, 214, 198, 179, 181, 203, 217] E2_OVERSPEED_PREALARM_VOICE_ID,
    Set (Long 5) E2_OVERSPEED_PREALARM_GPROUP_TIME_ID 0 4,
    Set (Long 3) E2_OVERSPEED_PREALARM_NUMBER_ID 0 4,
    Set (Long 10) E2_OVERSPEED_PREALARM_NUMBER_TIME_ID 0 4,
    Set_Text [196, 250, 210, 209, 179, 172, 203, 217, 163, 172, 199, 235, 188, 245, 203, 217, 208, 208, 202, 187] E2_OVERSPEED_ALARM_VOICE_ID,
    Set (Long 5) E2_OVERSPEED_ALARM_GPROUP_TIME_ID 0 4,
    Set (Long 3) E2_OVERSPEED_ALARM_NUMBER_ID 0 4,
    Set (Long 10) E2_OVERSPEED_ALARM_NUMBER_TIME_ID 0 4,
    Set (Long 0) E2_OVERSPEED_ALARM_REPORT_TIME_ID 0 4,
    Set (Zeros 14) E2_OVERSPEED_NIGHT_TIME_ID 0 14]"

text \<open>Driving at night and at forbidden hours.\<close>

definition defaults_night :: "e2_default list" where
  "defaults_night =
   [Set (Long 80) E2_NIGHT_OVERSPEED_PERCENT_ID 0 4,
    Set (Long 10) E2_NIGHT_DRIVE_PREALARM_TIME_ID 0 4,
    Set_Text [188, 180, 189, 171, 189, 248, 200, 235, 210, 185, 188, 228, 202, 177, 182, 206] E2_NIGHT_DRIVE_PREALARM_VOICE_ID,
    Set (Long 5) E2_NIGHT_DRIVE_PREALARM_GPOUP_TIME_ID 0 4,
    Set (Long 3) E2_NIGHT_DRIVE_PREALARM_NUMBER_ID 0 4,
    Set (Zeros 14) E2_FORBID_DRIVE_NIGHT_TIME_ID 0 14,
    Set (Long 30) E2_FORBID_DRIVE_PREALARM_TIME_ID 0 4,
    Set_Text [199, 235, 176, 180, 185, 230, 182, 168, 202, 177, 188, 228, 205, 163, 179, 181, 208, 221, 207, 162] E2_FORBID_DRIVE_PREALARM_VOICE_ID,
    Set (Long 5) E2_FORBID_DRIVE_PREALARM_GPOUP_TIME_ID 0 4,
    Set (Long 3) E2_FORBID_DRIVE_PREALARM_NUMBER_ID 0 4,
    Set_Text [199, 235, 176, 180, 185, 230, 182, 168, 202, 177, 188, 228, 205, 163, 179, 181, 208, 221, 207, 162] E2_FORBID_DRIVE_ALARM_VOICE_ID,
    Set (Long 5) E2_FORBID_DRIVE_ALARM_GPOUP_TIME_ID 0 4,
    Set (Long 3) E2_FORBID_DRIVE_ALARM_NUMBER_ID 0 4,
    Set (Long 20) E2_FORBID_DRIVE_RUN_SPEED_ID 0 4,
    Set (Long 5) E2_FORBID_DRIVE_RUN_SPEED_KEEPTIME_ID 0 4]"

text \<open>Driving too long.\<close>

definition defaults_tired :: "e2_default list" where
  "defaults_tired =
   [Set (Zeros 14) E2_TIRED_DRIVE_NIGHT_TIME_ID 0 14,
    Set (Long 7200) E2_NIGHT_MAX_DRVIE_TIME_ID 0 4,
    Set (Long 1200) E2_NIGHT_MIN_RELAX_TIME_ID 0 4,
    Set (Long 30) E2_TIRED_DRIVE_ALARM_TIME_ID 0 4,
    Set_Text [188, 180, 189, 171, 179, 172, 202, 177, 188, 221, 202, 187] E2_TIRED_DRIVE_PREALARM_VOICE_ID,
    Set (Long 5) E2_TIRED_DRIVE_PREALARM_GPOUP_TIME_ID 0 4,
    Set (Long 3) E2_TIRED_DRIVE_PREALARM_NUMBER_ID 0 4,
    Set (Long 10) E2_TIRED_DRIVE_PREALARM_NUMBER_TIME_ID 0 4,
    Set_Text [199, 235, 206, 240, 179, 172, 202, 177, 188, 221, 202, 187] E2_TIRED_DRIVE_ALARM_VOICE_ID,
    Set (Long 5) E2_TIRED_DRIVE_ALARM_GPOUP_TIME_ID 0 4,
    Set (Long 3) E2_TIRED_DRIVE_ALARM_NUMBER_ID 0 4,
    Set (Long 10) E2_TIRED_DRIVE_ALARM_NUMBER_TIME_ID 0 4,
    Set (Long 0xffffffff) E2_TIRED_DRIVE_REPORT_OPEN_TIME_ID 0 4,
    Set (Long 0) E2_TIRED_DRIVE_REPORT_TIME_ID 0 4,
    Set (Long 20) E2_TIRED_DRIVE_RUN_SPEED_ID 0 4,
    Set (Long 60) E2_TIRED_DRIVE_RUN_KEEPTIME_ID 0 4]"

text \<open>Leaving the route, reports and ports.\<close>

definition defaults_other :: "bool \<Rightarrow> e2_default list" where
  "defaults_other mc8331 =
   [Set (Long 3) E2_ROUTE_EXCURSION_ALARM_NUMBER_ID 0 4,
    Set (Long 5) E2_ROUTE_EXCURSION_ALARM_GPOUP_TIME_ID 0 4,
    Set_Text [199, 235, 196, 227, 176, 180, 185, 230, 182, 168, 207, 223, 194, 183, 208, 208, 202, 187] E2_ROUTE_EXCURSION_ALARM_VOICE_ID,
    Set (Long 0) E2_REPORT_FREQ_EVENT_SWITCH_ID 0 4,
    Set (Byte (if mc8331 then 1 else 0)) E2_RUN_FORBID_CALL_SWITCH_ID 0 1,
    Set (Short 0) E2_LED_PORT_ID 0 2]"

definition factory_settings :: "bool \<Rightarrow> e2_default list" where
  "factory_settings mc8331 = defaults_link @ defaults_report @ defaults_alarm @ defaults_device @ defaults_speed
     @ defaults_night @ defaults_tired @ defaults_other mc8331"

text \<open>\<open>Buffer\<close> are the 31 bytes the local buffer happens to hold.\<close>

definition EepromPram_DefaultSet :: "'c sfud \<Rightarrow> bool \<Rightarrow> u8 list \<Rightarrow> 'c \<Rightarrow> 'c" where
  "EepromPram_DefaultSet ops mc8331 Buffer c = e2_set_all ops (factory_settings mc8331) Buffer c"

subsection \<open>Looking whether they can be read\<close>

definition settings_read :: "u32 list" where
  "settings_read =
   [E2_TERMINAL_GET_PHONE_STRATEGY_ID, E2_MAX_PHONE_TIME_EACH_ID, E2_MAX_PHONE_TIME_MONTH_ID, E2_ALARM_MASK_ID,
    E2_ALARM_TEXT_SWITCH_ID, E2_ALARM_PHOTO_SWITCH_ID, E2_ALARM_PHOTO_STORE_FLAG_ID, E2_KEY_FLAG_ID,
    E2_MAX_DRVIE_TIME_ONEDAY_ID, E2_MAX_STOP_CAR_TIME_ID, E2_MANUFACTURE_ID, E2_CAR_FEATURE_COEF_ID, E2_SPEED_SELECT_ID,
    E2_DOOR_SET_ID, E2_INSTALL_TIME_FLAG_ID, E2_GPS_CONTROL_ID, E2_TAXIMETER_CONTROL_ID, E2_CAR_TOTAL_MILE_ID,
    E2_SET_CRASH_ALARM_ID, E2_SET_ROLLOVER_ALARM_ID, E2_UNLOGIN_TTS_PLAY_ID, E2_MAX_SPEED_ID, E2_OVER_SPEED_KEEP_TIME_ID,
    E2_SPEED_EARLY_ALARM_DVALUE_ID, E2_OVERSPEED_PREALARM_KEEPTIME_ID, E2_OVERSPEED_PREALARM_VOICE_ID,
    E2_OVERSPEED_PREALARM_GPROUP_TIME_ID, E2_OVERSPEED_PREALARM_NUMBER_ID, E2_OVERSPEED_PREALARM_NUMBER_TIME_ID,
    E2_OVERSPEED_ALARM_VOICE_ID, E2_OVERSPEED_ALARM_GPROUP_TIME_ID, E2_OVERSPEED_ALARM_NUMBER_ID,
    E2_OVERSPEED_ALARM_NUMBER_TIME_ID, E2_OVERSPEED_ALARM_REPORT_TIME_ID, E2_OVERSPEED_NIGHT_TIME_ID, E2_NIGHT_TIME0_ID,
    E2_NIGHT_OVERSPEED_PERCENT_ID, E2_NIGHT_MAX_SPEED0_ID, E2_NIGHT_DRIVE_PREALARM_TIME_ID, E2_NIGHT_DRIVE_PREALARM_VOICE_ID,
    E2_NIGHT_DRIVE_PREALARM_GPOUP_TIME_ID, E2_NIGHT_DRIVE_PREALARM_NUMBER_ID, E2_FORBID_DRIVE_NIGHT_TIME_ID,
    E2_FORBID_DRIVE_PREALARM_TIME_ID, E2_FORBID_DRIVE_PREALARM_VOICE_ID, E2_FORBID_DRIVE_PREALARM_GPOUP_TIME_ID,
    E2_FORBID_DRIVE_PREALARM_NUMBER_ID, E2_FORBID_DRIVE_ALARM_VOICE_ID, E2_FORBID_DRIVE_ALARM_GPOUP_TIME_ID,
    E2_FORBID_DRIVE_ALARM_NUMBER_ID, E2_FORBID_DRIVE_RUN_SPEED_ID, E2_FORBID_DRIVE_RUN_SPEED_KEEPTIME_ID,
    E2_MAX_DRVIE_TIME_ID, E2_MIN_RELAX_TIME_ID, E2_TIRE_EARLY_ALARM_DVALUE_ID, E2_TIRED_DRIVE_NIGHT_TIME_ID,
    E2_NIGHT_MAX_DRVIE_TIME_ID, E2_NIGHT_MAX_DRVIE_TIME0_ID, E2_NIGHT_MIN_RELAX_TIME_ID, E2_TIRED_DRIVE_ALARM_TIME_ID,
    E2_TIRED_DRIVE_PREALARM_VOICE_ID, E2_TIRED_DRIVE_PREALARM_GPOUP_TIME_ID, E2_TIRED_DRIVE_PREALARM_NUMBER_ID,
    E2_TIRED_DRIVE_PREALARM_NUMBER_TIME_ID, E2_TIRED_DRIVE_ALARM_VOICE_ID, E2_TIRED_DRIVE_ALARM_GPOUP_TIME_ID,
    E2_TIRED_DRIVE_ALARM_NUMBER_ID, E2_TIRED_DRIVE_ALARM_NUMBER_TIME_ID, E2_TIRED_DRIVE_REPORT_OPEN_TIME_ID,
    E2_TIRED_DRIVE_REPORT_TIME_ID, E2_TIRED_DRIVE_RUN_SPEED_ID, E2_TIRED_DRIVE_RUN_KEEPTIME_ID]"

text \<open>\<open>flag\<close> counts what was read as 0 bytes, the length being cut to 8 bits, and is cut to 1 at the end. The code does
  nothing with it. \<open>None\<close>: an index behind the tables.\<close>

fun e2_count_missing :: "'c sfud \<Rightarrow> u32 list \<Rightarrow> u8 \<Rightarrow> 'c \<Rightarrow> (u8 \<times> 'c) option" where
  "e2_count_missing ops [] flag c = Some (flag, c)"
| "e2_count_missing ops (p # ps) flag c =
     (case EepromPram_ReadPram ops p c of
        None \<Rightarrow> None
      | Some (n, data, c1) \<Rightarrow> e2_count_missing ops ps (if (ucast n :: u8) = 0 then flag + 1 else flag) c1)"

definition EepromPram_DefaultSetRead :: "'c sfud \<Rightarrow> 'c \<Rightarrow> (u8 \<times> 'c) option" where
  "EepromPram_DefaultSetRead ops c =
     (case e2_count_missing ops settings_read 0 c of
        None \<Rightarrow> None
      | Some (flag, c1) \<Rightarrow> Some (if flag \<noteq> 0 then 1 else flag, c1))"

subsection \<open>The writes fit the tables\<close>

text \<open>The parameters and bytes that are written. What the tables say of them is computed on integers, in one pass.\<close>

fun e2_default_writes :: "e2_default list \<Rightarrow> u8 list \<Rightarrow> (u32 \<times> u8 list) list" where
  "e2_default_writes [] Buffer = []"
| "e2_default_writes (Set f PramID off BufferLen # ds) Buffer =
     (PramID, take (unat BufferLen) (drop off (fill_buffer f Buffer))) # e2_default_writes ds (fill_buffer f Buffer)"

text \<open>Whether a write is proper depends on the number and the length only.\<close>

definition e2_index_int :: "u32 \<Rightarrow> int" where
  "e2_index_int p = uint (E2ParamApp_ConvertPramIDToGroupIndex (ucast p))"

definition e2_ends :: "(int \<times> int) list" where
  "e2_ends = [(314, 1605), (318, 1665), (333, 1865), (361, 2175)]"

fun e2_covers :: "(int \<times> int \<times> int \<times> int) list \<Rightarrow> (int \<times> int) list \<Rightarrow> bool" where
  "e2_covers ts [] \<longleftrightarrow> True"
| "e2_covers [] (d # ds) \<longleftrightarrow> False"
| "e2_covers ((i, a, l, s) # ts) ((j, n) # ds) \<longleftrightarrow>
     (if i = j then 0 < n \<and> n \<le> l \<and> (if s = 1 then n \<le> 49 else n = l)
        \<and> list_all (\<lambda>(i', b). i = i' \<longrightarrow> a + n + 1 + s \<le> b) e2_ends \<and> e2_covers ((i, a, l, s) # ts) ds
      else e2_covers ts ((j, n) # ds))"

fun fill_length :: "e2_fill \<Rightarrow> int" where
  "fill_length (Long temp) = 4"
| "fill_length (Short temp) = 2"
| "fill_length (Byte temp) = 1"
| "fill_length (Zeros n) = int n"
| "fill_length (Text s) = int (length s) + 1"

fun e2_default_fits :: "e2_default \<Rightarrow> bool" where
  "e2_default_fits (Set f p off n) \<longleftrightarrow> fill_length f \<le> 31 \<and> int off + uint n \<le> 31"

fun e2_default_size :: "e2_default \<Rightarrow> int \<times> int" where
  "e2_default_size (Set f p off n) = (e2_index_int p, uint n)"

lemma factory_settings_fit: "list_all e2_default_fits (factory_settings mc8331)"
  by code_simp

lemma factory_settings_covered: "e2_covers e2_table (sort_key fst (map e2_default_size (factory_settings mc8331)))"
  by code_simp

lemma e2_ends_ok:
  assumes "(i, j) \<in> set e2_too_close"
  obtains b where "(i, int b) \<in> set e2_ends" "b = unat (EepromPramAddress ! nat j)"
proof -
  have "EepromPramAddress ! 315 = 1605" "EepromPramAddress ! 319 = 1665" "EepromPramAddress ! 334 = 1865" "EepromPramAddress ! 362 = 2175"
    by (simp_all add: EepromPramAddress_def)
  then have "(i, int (unat (EepromPramAddress ! nat j))) \<in> set e2_ends" using assms by (auto simp: e2_too_close_def e2_ends_def)
  then show thesis by (rule that) simp
qed

lemma e2_coversD:
  "e2_covers ts ds \<Longrightarrow> (j, n) \<in> set ds \<Longrightarrow>
     \<exists>a l s. (j, a, l, s) \<in> set ts \<and> 0 < n \<and> n \<le> l \<and> (if s = 1 then n \<le> 49 else n = l) \<and> (\<forall>b. (j, b) \<in> set e2_ends \<longrightarrow> a + n + 1 + s \<le> b)"
proof (induction ts ds rule: e2_covers.induct)
  case (3 i a l s ts j' n' ds)
  show ?case
  proof (cases "i = j'")
    case True
    then have r: "e2_covers ((i, a, l, s) # ts) ds" "0 < n'" "n' \<le> l" "if s = 1 then n' \<le> 49 else n' = l"
      "list_all (\<lambda>(i', b). i = i' \<longrightarrow> a + n' + 1 + s \<le> b) e2_ends" using "3.prems"(1) by simp_all
    from r(5) have e: "\<forall>b. (j', b) \<in> set e2_ends \<longrightarrow> a + n' + 1 + s \<le> b" using True by (auto simp: list_all_iff)
    show ?thesis
    proof (cases "(j, n) \<in> set ds")
      case True
      with "3.IH"(1)[OF \<open>i = j'\<close> r(1)] show ?thesis by blast
    next
      case False
      then have "j = i" "n = n'" using "3.prems"(2) True by simp_all
      then show ?thesis using r(2-4) e True by (intro exI[of _ a] exI[of _ l] exI[of _ s]) simp
    qed
  next
    case False
    then have "e2_covers ts ((j', n') # ds)" using "3.prems"(1) by simp
    from "3.IH"(2)[OF False this "3.prems"(2)] show ?thesis by (meson list.set_intros(2))
  qed
qed simp_all

lemma e2_covered_proper:
  assumes c: "e2_covers e2_table (sort_key fst (map e2_default_size ds))" and d: "Set f p off n \<in> set ds" and l: "length data = unat n"
  shows "e2_proper (p, data)"
proof -
  let ?i = "e2_index p"
  have "(e2_index_int p, uint n) \<in> set (sort_key fst (map e2_default_size ds))" using d by force
  from e2_coversD[OF c this] obtain a l s where t: "(int ?i, a, l, s) \<in> set e2_table" "0 < uint n" "uint n \<le> l"
    "if s = 1 then uint n \<le> 49 else uint n = l" "\<forall>b. (int ?i, b) \<in> set e2_ends \<longrightarrow> a + uint n + 1 + s \<le> b"
    by (auto simp: e2_index_int_def e2_index_def)
  obtain k where k: "k < 439" "e2_table ! k = (int ?i, a, l, s)" using t(1) e2_table_nth(2)[of 0] by (auto simp: in_set_conv_nth)
  then have ki: "k = ?i" "a = uint (EepromPramAddress ! ?i)" "l = uint (EepromPramLength ! ?i)" "s = uint (EepromPramSwitch ! ?i)"
    using e2_table_nth(1)[OF k(1)] by auto
  have sw: "s = 1 \<longleftrightarrow> EepromPramSwitch ! ?i = 1" by (simp add: ki word_uint_eq_iff)
  have n: "uint n = int (length data)" using l by simp
  define m where "m = unat (EepromPramLength ! ?i)"
  have lm: "uint (EepromPramLength ! ?i) = int m" unfolding m_def by simp
  have v: "e2_value p data" using t(2-4) unfolding e2_value_def sw ki(3) n lm m_def[symmetric] by (auto split: if_splits)
  have "EepromPramLength ! ?i \<noteq> 0" using t(2,3) unfolding ki(3) by auto
  moreover have "EepromPramLength ! 0 = 0" by (simp add: EepromPramLength_def)
  ultimately have kn: "e2_known p" using k(1) ki(1) unfolding e2_known_def by metis
  have im: "int (length (e2_image ?i data)) = uint n + 1 + s"
  proof -
    have "s = (if EepromPramSwitch ! ?i = 1 then 1 else 0)" using e2_entry(4)[OF k(1)] unfolding ki(1) ki(4) by auto
    then show ?thesis unfolding e2_image_length n by simp
  qed
  have "e2_address p + length (e2_image ?i data) \<le> unat (EepromPramAddress ! nat j')" if cl: "(int ?i, j') \<in> set e2_too_close" for j'
  proof -
    obtain b where b: "(int ?i, int b) \<in> set e2_ends" "b = unat (EepromPramAddress ! nat j')" by (rule e2_ends_ok[OF cl])
    have "a + uint n + 1 + s \<le> int b" using t(5) b(1) by blast
    then show ?thesis using im unfolding ki(2) uint_int_unat b(2)[symmetric] by linarith
  qed
  then show ?thesis using v kn by (auto simp: e2_proper_def)
qed

subsection \<open>What the factory settings leave\<close>

lemma EepromPram_WritePram_take: "EepromPram_WritePram ops p (take (unat n) buf) n c = EepromPram_WritePram ops p buf n c"
  unfolding EepromPram_WritePram_def take_take min.idem ..

lemma fill_buffer_length:
  assumes "length Buffer = 31" "fill_length f \<le> 31"
  shows "length (fill_buffer f Buffer) = 31"
proof -
  have "int (length (fill_bytes f)) = fill_length f"
    by (cases f) (simp_all add: Public_ConvertLongToBuffer_def Public_ConvertShortToBuffer_def)
  then show ?thesis using assms by (simp add: fill_buffer_def Let_def)
qed

lemma e2_default_fits_room: "e2_default_fits (Set f p off n) \<Longrightarrow> off + unat n \<le> 31"
  unfolding e2_default_fits.simps uint_int_unat by linarith

lemma e2_default_writes_fit:
  assumes "list_all e2_default_fits ds" "length Buffer = 31" "(p, data) \<in> set (e2_default_writes ds Buffer)"
  shows "\<exists>f off n. Set f p off n \<in> set ds \<and> length data = unat n"
  using assms
proof (induction ds Buffer rule: e2_default_writes.induct)
  case (2 f q off n ds Buffer)
  have b: "length (fill_buffer f Buffer) = 31" using 2(2,3) by (intro fill_buffer_length) simp_all
  show ?case
  proof (cases "(p, data) \<in> set (e2_default_writes ds (fill_buffer f Buffer))")
    case True
    then show ?thesis using 2(1)[OF _ b] 2(2) by fastforce
  next
    case False
    then have "p = q" "data = take (unat n) (drop off (fill_buffer f Buffer))" using 2(4) by simp_all
    moreover have "off + unat n \<le> 31" using 2(2) by (intro e2_default_fits_room[of f]) simp_all
    ultimately have "Set f p off n \<in> set (Set f q off n # ds) \<and> length data = unat n" using b by simp
    then show ?thesis by blast
  qed
qed simp

lemma e2_default_writes_proper:
  assumes "list_all e2_default_fits ds" "length Buffer = 31" "e2_covers e2_table (sort_key fst (map e2_default_size ds))"
    "(p, data) \<in> set (e2_default_writes ds Buffer)"
  shows "e2_proper (p, data)"
proof -
  from e2_default_writes_fit[OF assms(1,2,4)] obtain f off n where "Set f p off n \<in> set ds" "length data = unat n" by blast
  then show ?thesis by (rule e2_covered_proper[OF assms(3)])
qed

text \<open>No write is repeated on a chip that answers.\<close>

lemma e2_set_all_run:
  assumes ch: "e2_chip ops mem"
  shows "\<forall>w\<in>set (e2_default_writes ds Buffer). e2_proper w \<Longrightarrow> list_all e2_default_fits ds \<Longrightarrow> length Buffer = 31
     \<Longrightarrow> e2_set_all ops ds Buffer c = e2_run ops (e2_default_writes ds Buffer) c"
proof (induction ds Buffer arbitrary: c rule: e2_default_writes.induct)
  case (2 f p off n ds Buffer)
  let ?B = "fill_buffer f Buffer" let ?d = "take (unat n) (drop off ?B)"
  have b: "length ?B = 31" using 2(3,4) by (intro fill_buffer_length) simp_all
  have o: "off + unat n \<le> 31" using 2(3) by (intro e2_default_fits_room[of f]) simp_all
  then have d: "length ?d = unat n" using b by simp
  have pr: "e2_known p" "e2_value p ?d" using 2(2) by (simp_all add: e2_proper_def)
  obtain c1 where c1: "EepromPram_WritePram ops p (drop off ?B) n c = (of_nat (unat n), c1)"
    using e2_write_value(2)[OF ch pr, of c] unfolding d
    by (cases "EepromPram_WritePram ops p (drop off ?B) n c") (simp add: EepromPram_WritePram_take)
  have "0 < unat n" "unat n < 2 ^ 8" using pr(2) d unsigned_less[of n] by (auto simp: e2_value_def)
  then have nz: "(of_nat (unat n) :: u16) \<noteq> 0" by (simp add: word_unat_eq_iff unsigned_ucast_eq take_bit_nat_eq_self)
  have "e2_set_all ops (Set f p off n # ds) Buffer c = e2_set_all ops ds ?B c1" using c1 nz by (simp add: Let_def)
  also have "\<dots> = e2_run ops (e2_default_writes ds ?B) c1" using 2 b by simp
  also have "\<dots> = e2_run ops (e2_default_writes (Set f p off n # ds) Buffer) c"
    using c1 unfolding e2_run_def e2_default_writes.simps fold_simps case_prod_conv comp_def d
    by (simp add: EepromPram_WritePram_take)
  finally show ?case .
qed (simp add: e2_run_def)

text \<open>Each parameter is set once, so it holds the value it was given.\<close>

lemma factory_settings_once: "distinct (map (fst \<circ> e2_default_size) (factory_settings mc8331))"
  by code_simp

lemma settings_read_set: "list_all (\<lambda>p. list_ex (\<lambda>d. case d of Set f q off n \<Rightarrow> p = q) (factory_settings mc8331)) settings_read"
  by code_simp

lemma e2_default_writes_indices: "map (int \<circ> e2_index \<circ> fst) (e2_default_writes ds Buffer) = map (fst \<circ> e2_default_size) ds"
  by (induction ds Buffer rule: e2_default_writes.induct) (simp_all add: e2_index_int_def e2_index_def)

lemma e2_default_writes_numbers: "map fst (e2_default_writes ds Buffer) = map (\<lambda>d. case d of Set f p off n \<Rightarrow> p) ds"
  by (induction ds Buffer rule: e2_default_writes.induct) simp_all

lemma factory_settings_found:
  assumes ch: "e2_chip ops mem" and B: "length Buffer = 31" and v: "(p, v) \<in> set (e2_default_writes (factory_settings mc8331) Buffer)"
    and m: "mem c1 = mem (EepromPram_DefaultSet ops mc8331 Buffer c)"
  shows "\<exists>c2. EepromPram_ReadPram ops p c1 = Some (of_nat (length v), v, c2) \<and> mem c2 = mem c1"
proof -
  let ?ws = "e2_default_writes (factory_settings mc8331) Buffer"
  have pr: "\<forall>w\<in>set ?ws. e2_proper w"
    using e2_default_writes_proper[OF factory_settings_fit B factory_settings_covered] by auto
  have run: "EepromPram_DefaultSet ops mc8331 Buffer c = e2_run ops ?ws c"
    unfolding EepromPram_DefaultSet_def by (rule e2_set_all_run[OF ch pr factory_settings_fit B])
  have "distinct (map (int \<circ> e2_index \<circ> fst) ?ws)" unfolding e2_default_writes_indices by (rule factory_settings_once)
  then have "distinct (map (e2_index \<circ> fst) ?ws)" by (simp add: distinct_map inj_on_def)
  then have "distinct (map (\<lambda>w. e2_index (fst w)) ?ws)" by (simp add: comp_def)
  from last_write_once[OF this v] have "e2_last ?ws (e2_index p) = Some v" by (simp add: e2_last_def)
  from e2_run_holds[OF ch pr this] have h: "holds (mem (e2_run ops ?ws c)) (e2_address p) (e2_image (e2_index p) v)" .
  have kv: "e2_known p" "e2_value p v" using pr v by (auto simp: e2_proper_def)
  have "holds (mem c1) (e2_address p) (e2_image (e2_index p) v)" using h unfolding m run .
  then obtain c2 where "EepromPram_ReadPram ops p c1 = Some (of_nat (length v), v, c2)" "mem c2 = mem c1"
    by (rule EepromPram_ReadPram_finds[OF ch kv])
  then show ?thesis by blast
qed

lemma factory_settings_none_missing:
  assumes ch: "e2_chip ops mem" and B: "length Buffer = 31"
  obtains c1 where "EepromPram_DefaultSetRead ops (EepromPram_DefaultSet ops mc8331 Buffer c) = Some (0, c1)"
proof -
  let ?ws = "e2_default_writes (factory_settings mc8331) Buffer"
  have step: "\<exists>n v c2. EepromPram_ReadPram ops p c1 = Some (n, v, c2) \<and> (ucast n :: u8) \<noteq> 0 \<and> mem c2 = mem c1"
    if p: "p \<in> set settings_read" and m: "mem c1 = mem (EepromPram_DefaultSet ops mc8331 Buffer c)" for p c1
  proof -
    have "list_ex (\<lambda>d. case d of Set f q off n \<Rightarrow> p = q) (factory_settings mc8331)"
      using settings_read_set[of mc8331] p by (simp add: list_all_iff)
    then obtain d where d: "d \<in> set (factory_settings mc8331)" "case d of Set f q off n \<Rightarrow> p = q" by (auto simp: list_ex_iff)
    from d(2) have "p = (case d of Set f p off n \<Rightarrow> p)" by (cases d) simp
    then have "p \<in> (\<lambda>d. case d of Set f p off n \<Rightarrow> p) ` set (factory_settings mc8331)" using d(1) by (rule image_eqI)
    then have "p \<in> set (map fst ?ws)" unfolding e2_default_writes_numbers by simp
    then obtain v where v: "(p, v) \<in> set ?ws" by auto
    from factory_settings_found[OF ch B v m] obtain c2 where c2: "EepromPram_ReadPram ops p c1 = Some (of_nat (length v), v, c2)" "mem c2 = mem c1"
      by blast
    have pr: "e2_proper (p, v)" by (rule e2_default_writes_proper[OF factory_settings_fit B factory_settings_covered v])
    then have kv: "e2_known p" "e2_value p v" by (simp_all add: e2_proper_def)
    have "(ucast (of_nat (length v) :: u16) :: u8) = of_nat (length v)"
      by (simp add: word_unat_eq_iff unat_of_nat unsigned_ucast_eq take_bit_nat_def mod_mod_cancel)
    with e2_value_length(1)[OF kv] have "(ucast (of_nat (length v) :: u16) :: u8) \<noteq> 0" by (metis word_not_simps(1))
    then show ?thesis using c2 by blast
  qed
  have "\<exists>c2. e2_count_missing ops ps 0 c1 = Some (0, c2)"
    if "set ps \<subseteq> set settings_read" "mem c1 = mem (EepromPram_DefaultSet ops mc8331 Buffer c)" for ps c1
    using that
  proof (induction ps arbitrary: c1)
    case (Cons p ps)
    from step[of p c1] Cons.prems obtain n v c2 where c2: "EepromPram_ReadPram ops p c1 = Some (n, v, c2)" "(ucast n :: u8) \<noteq> 0" "mem c2 = mem c1"
      by auto
    then show ?case using Cons by simp
  qed simp
  then obtain c2 where "e2_count_missing ops settings_read 0 (EepromPram_DefaultSet ops mc8331 Buffer c) = Some (0, c2)" by blast
  then show thesis using that by (simp add: EepromPram_DefaultSetRead_def)
qed

end
