(* ===== verification/Param_Theorems.thy ===== *)
theory Param_Theorems
  imports App_E2Defaults
begin

text \<open>
  Properties of the parameters in the EEPROM. All but four of them lie apart: over any sequence of writes, what is read is
  what was written last. The four exceptions, the numbers behind the tables and the end of the erased area are
  where the code does not do what it means to.
\<close>

section \<open>Parameters that lie apart\<close>

text \<open>C25. The parameters keep their values: after any sequence of writes to parameters that exist, of values of their length,
  and not so long that they reach into the next one (which four can), a parameter that was written is read as the value that
  was written to it last, byte for byte, with the checksum in order.\<close>

theorem parameters_kept:
  assumes "e2_chip ops mem" "\<forall>w\<in>set ws. e2_proper w" "(q, y) \<in> set ws" "e2_last ws (e2_index q) = Some z" "e2_value q z"
  shows "\<exists>c'. EepromPram_ReadPram ops q (e2_run ops ws c) = Some (of_nat (length z), z, c') \<and> mem c' = mem (e2_run ops ws c)"
proof -
  have k: "e2_known q" using assms(2,3) by (auto simp: e2_proper_def)
  obtain c' where "EepromPram_ReadPram ops q (e2_run ops ws c) = Some (of_nat (length z), z, c')" "mem c' = mem (e2_run ops ws c)"
    by (rule EepromPram_ReadPram_finds[OF assms(1) k assms(5) e2_run_holds[OF assms(1,2,4)]])
  then show ?thesis by blast
qed

text \<open>The bytes of a chip that answers.\<close>

definition demo_chip :: "(nat \<Rightarrow> u8) sfud" where
  "demo_chip = \<lparr>sfud_read = \<lambda>a n m. (map m [unat a..<unat a + n], m), sfud_write = \<lambda>a ds m. (0, patch m (unat a) ds)\<rparr>"

lemma demo_chip_ok: "e2_chip demo_chip (\<lambda>m. m)"
  by (auto simp: e2_chip_def demo_chip_def patch_def unat_of_nat fun_eq_iff)

lemma e2_entries_used:
  "EepromPramAddress ! 2 = 15" "EepromPramLength ! 2 = 4" "EepromPramSwitch ! 2 = 0"
  "EepromPramAddress ! 19 = 120" "EepromPramLength ! 19 = 20" "EepromPramSwitch ! 19 = 1"
  "EepromPramAddress ! 314 = 1595" "EepromPramLength ! 314 = 10" "EepromPramSwitch ! 314 = 1"
  "EepromPramAddress ! 315 = 1605" "EepromPramLength ! 315 = 20" "EepromPramSwitch ! 315 = 1"
  "EepromPramAddress ! 437 = 2866" "EepromPramLength ! 437 = 16" "EepromPramSwitch ! 437 = 1"
  by (simp_all add: EepromPramAddress_def EepromPramLength_def EepromPramSwitch_def)

lemma e2_indices_used:
  "e2_index 2 = 2" "e2_index 0x13 = 19" "e2_index 0xF222 = 314" "e2_index 0xF223 = 315" "e2_index 0xF29D = 437"
  by (simp_all add: e2_index_def E2ParamApp_ConvertPramIDToGroupIndex_def)

lemmas e2_used = e2_entries_used e2_indices_used

theorem parameters_kept_witness:
  "\<exists>c'. EepromPram_ReadPram demo_chip 2 (e2_run demo_chip [(2, [0, 0, 0, 60]), (0x13, [49, 50, 55]), (2, [0, 0, 0, 30])] (\<lambda>_. 0xFF))
     = Some (4, [0, 0, 0, 30], c')"
  using parameters_kept[OF demo_chip_ok, of "[(2, [0, 0, 0, 60]), (0x13, [49, 50, 55]), (2, [0, 0, 0, 30])]" 2 "[0, 0, 0, 30]" "[0, 0, 0, 30]" "\<lambda>_. 0xFF"]
  by (auto simp: e2_proper_def e2_known_def e2_value_def e2_last_def last_write_def e2_too_close_def e2_used)

text \<open>C26. The factory settings: after \<open>EepromPram_DefaultSet\<close>, whatever the chip and the local buffer held before, each of its 111
  parameters is read with the value it was given. None of the tables' lengths or overlaps is in the way.\<close>

theorem factory_settings_kept:
  assumes "e2_chip ops mem" "length Buffer = 31" "(p, v) \<in> set (e2_default_writes (factory_settings mc8331) Buffer)"
  shows "\<exists>c'. EepromPram_ReadPram ops p (EepromPram_DefaultSet ops mc8331 Buffer c) = Some (of_nat (length v), v, c')"
  using factory_settings_found[OF assms refl] by blast

theorem factory_settings_kept_witness:
  "\<exists>c'. EepromPram_ReadPram demo_chip E2_TERMINAL_HEARTBEAT_ID (EepromPram_DefaultSet demo_chip False (replicate 31 0) (\<lambda>_. 0xFF))
     = Some (4, [0, 0, 0, 60], c')"
proof -
  obtain ds where "factory_settings False = Set (Long 60) E2_TERMINAL_HEARTBEAT_ID 0 4 # ds"
    by (simp add: factory_settings_def defaults_link_def)
  then have "(E2_TERMINAL_HEARTBEAT_ID, [0, 0, 0, 60]) \<in> set (e2_default_writes (factory_settings False) (replicate 31 0))"
    by (simp add: fill_buffer_def Public_ConvertLongToBuffer_def upt_rec)
  from factory_settings_kept[OF demo_chip_ok _ this, of "\<lambda>_. 0xFF"] show ?thesis by simp
qed

section \<open>Parameters that do not\<close>

text \<open>C27. The telephone number for calling back (\<open>0xF223\<close>) begins where the last byte of the manufacturer's number
  (\<open>0xF222\<close>) lies. After both are written, each with success, the manufacturer's number is read with the length of the
  telephone number as its last byte, or not at all, because its checksum is the first digit of the telephone.\<close>

theorem phone_overwrites_manufacturer:
  assumes ch: "e2_chip ops mem" and d: "length d = 10" and ph: "length ph \<le> 20" "ph \<noteq> []"
  shows "\<exists>c1 c2 c3. EepromPram_WritePram ops 0xF222 d 10 c = (10, c1)
      \<and> EepromPram_WritePram ops 0xF223 ph (of_nat (length ph)) c1 = (of_nat (length ph), c2)
      \<and> EepromPram_ReadPram ops 0xF222 c2 =
          Some (if sum_list (take 9 d @ [of_nat (length ph)]) = hd ph then (10, take 9 d @ [of_nat (length ph)], c3) else (0, [], c3))"
proof -
  have k: "e2_known 0xF222" "e2_known 0xF223" by (simp_all add: e2_known_def e2_used)
  have v: "e2_value 0xF222 d" "e2_value 0xF223 ph" using d ph by (auto simp: e2_value_def e2_used)
  note w = e2_write_value[OF ch k(1) v(1)] e2_write_value[OF ch k(2) v(2)]
  have ten: "of_nat (length d) = (10 :: u8)" "of_nat (length d) = (10 :: u16)" by (simp_all add: d)
  obtain c1 where c1: "EepromPram_WritePram ops 0xF222 d 10 c = (10, c1)" "mem c1 = patch (mem c) 1595 (10 # d @ [sum_list d])"
    using w(1,2)[of c] unfolding ten by (cases "EepromPram_WritePram ops 0xF222 d 10 c") (simp add: e2_used e2_image_def ten)
  obtain c2 where c2: "EepromPram_WritePram ops 0xF223 ph (of_nat (length ph)) c1 = (of_nat (length ph), c2)"
    "mem c2 = patch (mem c1) 1605 (of_nat (length ph) # ph @ [sum_list ph])"
    using w(3,4)[of c1] by (cases "EepromPram_WritePram ops 0xF223 ph (of_nat (length ph)) c1") (simp add: e2_used e2_image_def)
  let ?new = "take 9 d @ [of_nat (length ph)]"
  have sp: "10 # d @ [sum_list d] = (10 # take 9 d) @ drop 9 d @ [sum_list d]" by simp
  have l9: "1595 + length (10 # take 9 d) = 1605" using d by simp
  have "holds (mem c1) 1595 (10 # take 9 d)"
    using holds_patch[of "mem c" 1595 "10 # d @ [sum_list d]"] unfolding c1(2) sp holds_append by blast
  then have front: "holds (mem c2) 1595 (10 # take 9 d)" unfolding c2(2) by (rule holds_apart) (simp add: l9)
  have "holds (mem c2) 1605 (of_nat (length ph) # ph @ [sum_list ph])" unfolding c2(2) by (rule holds_patch)
  then have "holds (mem c2) 1605 [of_nat (length ph), hd ph]" using ph(2) by (cases ph) simp_all
  with front have "holds (mem c2) 1595 ((10 # take 9 d) @ [of_nat (length ph), hd ph])" unfolding holds_append l9 by blast
  moreover have new: "length ?new = 10" using d by simp
  ultimately have h: "holds (mem c2) (e2_address 0xF222) (of_nat (length ?new) # ?new @ [hd ph])" by (simp add: e2_used)
  obtain c3 where c3: "EepromPram_ReadPram ops 0xF222 c2 = Some (if sum_list ?new = hd ph then (of_nat (length ?new), ?new, c3) else (0, [], c3))"
    by (rule EepromPram_ReadPram_string[OF ch k(1) _ _ _ _ _ h]) (simp_all add: e2_used new)
  from c3[unfolded new] c1(1) c2(1) show ?thesis by auto
qed

theorem phone_overwrites_manufacturer_witness:
  "\<exists>c1 c2 c3. EepromPram_WritePram demo_chip 0xF222 [48, 48, 48, 48, 55, 48, 49, 49, 49, 50] 10 (\<lambda>_. 0xFF) = (10, c1)
     \<and> EepromPram_WritePram demo_chip 0xF223 [49, 51, 56] 3 c1 = (3, c2) \<and> EepromPram_ReadPram demo_chip 0xF222 c2 = Some (0, [], c3)"
  using phone_overwrites_manufacturer[OF demo_chip_ok, of "[48, 48, 48, 48, 55, 48, 49, 49, 49, 50]" "[49, 51, 56]" "\<lambda>_. 0xFF"] by simp

lemma EepromPram_EraseAllPram_chip:
  assumes ch: "e2_chip ops mem"
  shows "mem (EepromPram_EraseAllPram ops c) = patch (mem c) 10 (replicate 1620 0xff)"
proof -
  have "mem (fold (\<lambda>a c. snd (E2prom_WriteByte ops (of_nat a) 0xff c)) [s..<s + n] c) = patch (mem c) s (replicate n 0xff)"
    if "s + n \<le> 4096" for s n
    using that
  proof (induction n)
    case (Suc n)
    let ?c = "fold (\<lambda>a c. snd (E2prom_WriteByte ops (of_nat a) 0xff c)) [s..<s + n] c"
    have u: "unat (of_nat (s + n) :: u16) = s + n" using Suc.prems by (simp add: unat_of_nat del: of_nat_add)
    have "mem (snd (E2prom_WriteByte ops (of_nat (s + n)) 0xff ?c)) = (mem ?c)(s + n := 0xff)"
      using E2prom_WriteByte_chip[OF ch, of "of_nat (s + n)"] Suc.prems unfolding u by simp
    also have "mem ?c = patch (mem c) s (replicate n 0xff)" using Suc by simp
    finally show ?case using patch_append[of "mem c" s "replicate n 0xff" "[0xff]"]
      by (simp add: patch_one[of _ "s + n"] replicate_append_same)
  qed simp
  moreover have "10 + 1620 \<le> (4096 :: nat)" "(1630 :: nat) = 10 + 1620" by simp_all
  ultimately show ?thesis unfolding EepromPram_EraseAllPram_def by metis
qed

text \<open>\<open>EepromPram_EraseAllPram\<close> erases up to byte 1630 only: a parameter behind it is read with its old value afterwards.\<close>

theorem erase_is_incomplete:
  assumes ch: "e2_chip ops mem" and k: "e2_known p" and v: "e2_value p data" and a: "1630 \<le> e2_address p"
    and h: "holds (mem c) (e2_address p) (e2_image (e2_index p) data)"
  shows "\<exists>c'. EepromPram_ReadPram ops p (EepromPram_EraseAllPram ops c) = Some (of_nat (length data), data, c')"
proof -
  have "holds (mem (EepromPram_EraseAllPram ops c)) (e2_address p) (e2_image (e2_index p) data)"
    unfolding EepromPram_EraseAllPram_chip[OF ch] by (rule holds_apart[OF h]) (use a in simp)
  then obtain c' where "EepromPram_ReadPram ops p (EepromPram_EraseAllPram ops c) = Some (of_nat (length data), data, c')"
    by (rule EepromPram_ReadPram_finds[OF ch k v])
  then show ?thesis by blast
qed

theorem erase_is_incomplete_witness:
  "\<exists>c'. EepromPram_ReadPram demo_chip 0xF29D (EepromPram_EraseAllPram demo_chip (patch (\<lambda>_. 0) 2866 [2, 65, 66, 131])) = Some (2, [65, 66], c')"
proof -
  have i: "e2_image 437 [65, 66] = [2, 65, 66, 131]" by (simp add: e2_image_def e2_used)
  from erase_is_incomplete[OF demo_chip_ok, where p = "0xF29D" and data = "[65, 66]" and c = "patch (\<lambda>_. 0) 2866 [2, 65, 66, 131]"] holds_patch[of "\<lambda>_. 0" 2866 "[2, 65, 66, 131]"]
  show ?thesis by (simp add: e2_known_def e2_value_def e2_used i)
qed

text \<open>A write looks at the size of the tables and refuses a number behind them; a read does not, and takes the address
  and the length from behind the tables.\<close>

theorem read_behind_tables:
  assumes "0xF29F \<le> p" "p \<le> 0xFFFF"
  shows "EepromPram_WritePram ops p buf n c = (0, c) \<and> EepromPram_ReadPram ops p c = None"
proof -
  have u: "unat (ucast p :: u16) = unat p" using assms(2) by (simp add: unsigned_ucast_eq take_bit_nat_eq_self word_le_nat_alt)
  have b: "62111 \<le> unat p" "unat p \<le> 65535" using assms by (simp_all add: word_le_nat_alt)
  have "unat ((ucast p :: u16) - 61672) = unat p - 61672" using b u by (simp add: unat_sub word_le_nat_alt)
  then have "unat ((ucast p :: u16) - 0xF200 + 0x118) = unat p - 61672" by simp
  moreover have "(0xFFF :: u16) = mask 12" by (simp add: mask_eq_exp_minus_1)
  ultimately have "unat (((ucast p :: u16) - 0xF200 + 0x118) AND 0xFFF) = take_bit 12 (unat p - 61672)"
    by (simp only: take_bit_eq_mask[symmetric] unsigned_take_bit_eq)
  then have "unat (((ucast p :: u16) - 0xF200 + 0x118) AND 0xFFF) = unat p - 61672" using b by (simp add: take_bit_nat_eq_self)
  moreover have "\<not> (ucast p :: u16) < 0x118" "0xF200 \<le> (ucast p :: u16)" using b u by (simp_all add: word_less_nat_alt word_le_nat_alt)
  ultimately have i: "unat (E2ParamApp_ConvertPramIDToGroupIndex (ucast p)) = unat p - 61672"
    by (simp add: E2ParamApp_ConvertPramIDToGroupIndex_def)
  have "unat p - 61672 \<noteq> 0" "E2_PRAM_ID_INDEX_MAX \<le> unat p - 61672" using b by simp_all
  then show ?thesis unfolding EepromPram_WritePram_def EepromPram_ReadPram_def Let_def i by (simp only: if_True if_False simp_thms)
qed

theorem read_behind_tables_witness:
  "EepromPram_WritePram demo_chip 0xF300 [1] 1 (\<lambda>_. 0) = (0, \<lambda>_. 0) \<and> EepromPram_ReadPram demo_chip 0xF300 (\<lambda>_. 0) = None"
  by (rule read_behind_tables) simp_all

end
