(* ===== verification/App_Fram.thy ===== *)
theory App_Fram
  imports App_Store App_E2Defaults
begin

text \<open>
  The FRAM of the terminal, \<open>User/driver/src/fm25c160.c\<close>: blocks of bytes with a checksum behind them. The chip hangs on a
  serial bus. The bus and the chip are the parameter \<open>'s spi_bus\<close>: the two levels of the select line, the exchange of a
  byte (\<open>sFLASH_SendByte\<close>) and the set-up of the port (\<open>SPI_INTERFACE_INIT\<close>). \<open>fram_chip\<close> says what is
  relied on, the command set of the FM25C160.
\<close>

subsection \<open>The bus\<close>

record 's spi_bus =
  FRAM_CS_LOW :: "'s \<Rightarrow> 's"
  FRAM_CS_HIGH :: "'s \<Rightarrow> 's"
  sFLASH_SendByte :: "u8 \<Rightarrow> 's \<Rightarrow> u8 \<times> 's"
  SPI_INTERFACE_INIT :: "'s \<Rightarrow> 's"

fun send_bytes :: "'s spi_bus \<Rightarrow> u8 list \<Rightarrow> 's \<Rightarrow> 's" where
  "send_bytes bus [] s = s"
| "send_bytes bus (x # xs) s = send_bytes bus xs (snd (sFLASH_SendByte bus x s))"

definition sFLASH_ReadByte :: "'s spi_bus \<Rightarrow> 's \<Rightarrow> u8 \<times> 's" where
  "sFLASH_ReadByte bus s = sFLASH_SendByte bus 0xA5 s"

fun read_bytes :: "'s spi_bus \<Rightarrow> nat \<Rightarrow> 's \<Rightarrow> u8 list \<times> 's" where
  "read_bytes bus 0 s = ([], s)"
| "read_bytes bus (Suc n) s =
     (let (x, s1) = sFLASH_ReadByte bus s; (xs, s2) = read_bytes bus n s1 in (x # xs, s2))"

subsection \<open>The commands\<close>

definition FRAM_WriteEnable :: "'s spi_bus \<Rightarrow> 's \<Rightarrow> 's" where
  "FRAM_WriteEnable bus s = FRAM_CS_HIGH bus (send_bytes bus [0x06] (FRAM_CS_LOW bus s))"

definition FRAM_WriteDisable :: "'s spi_bus \<Rightarrow> 's \<Rightarrow> 's" where
  "FRAM_WriteDisable bus s = FRAM_CS_HIGH bus (send_bytes bus [0x04] (FRAM_CS_LOW bus s))"

definition FRAM_WriteStatusRegister :: "'s spi_bus \<Rightarrow> u8 \<Rightarrow> 's \<Rightarrow> 's" where
  "FRAM_WriteStatusRegister bus b s =
     FRAM_CS_HIGH bus (send_bytes bus [0x01, b] (FRAM_CS_LOW bus (SPI_INTERFACE_INIT bus s)))"

definition FRAM_ReadStatusRegister :: "'s spi_bus \<Rightarrow> 's \<Rightarrow> u8 \<times> 's" where
  "FRAM_ReadStatusRegister bus s =
     (let (temp, s1) = sFLASH_ReadByte bus (send_bytes bus [0x05] (FRAM_CS_LOW bus (SPI_INTERFACE_INIT bus s)))
      in (temp, FRAM_CS_HIGH bus s1))"

text \<open>A write while the enable flag of the chip is set is dropped, and the 21st in a row clears the flag. \<open>count\<close> is the static
  counter.\<close>

definition FRAM_BufferWrite :: "'s spi_bus \<Rightarrow> u16 \<Rightarrow> u8 list \<Rightarrow> u16 \<Rightarrow> u8 \<times> 's \<Rightarrow> u8 \<times> 's" where
  "FRAM_BufferWrite bus WriteAddr pBuffer NumBytesToWrite = (\<lambda>(count, s).
     let (temp, s1) = FRAM_ReadStatusRegister bus (SPI_INTERFACE_INIT bus s) in
     if 2 = (temp AND 2)
     then let count1 = count + 1 in if count1 > 20 then (0, FRAM_WriteDisable bus s1) else (count1, s1)
     else let data = take (unat NumBytesToWrite) pBuffer;
              s2 = FRAM_WriteEnable bus s1;
              s3 = send_bytes bus ([0x02, ucast (drop_bit 8 WriteAddr), ucast WriteAddr] @ data @ [sum_list data]) (FRAM_CS_LOW bus s2)
          in (0, FRAM_CS_HIGH bus s3))"

text \<open>The running sums of the bytes, as the loop that counts those that are 0 computes them.\<close>

fun running_sums :: "u8 \<Rightarrow> u8 list \<Rightarrow> u8 list" where
  "running_sums sum0 [] = []"
| "running_sums sum0 (x # xs) = (sum0 + x) # running_sums (sum0 + x) xs"

definition FRAM_BufferRead :: "'s spi_bus \<Rightarrow> u16 \<Rightarrow> u16 \<Rightarrow> 's \<Rightarrow> u8 \<times> u8 list \<times> 's" where
  "FRAM_BufferRead bus NumBytesToRead ReadAddr s =
     (let s1 = FRAM_CS_LOW bus (SPI_INTERFACE_INIT bus s);
          s2 = send_bytes bus [0x03, ucast (drop_bit 8 ReadAddr), ucast ReadAddr] s1;
          (data, s3) = read_bytes bus (unat NumBytesToRead) s2;
          (verify, s4) = sFLASH_ReadByte bus s3;
          s5 = FRAM_CS_HIGH bus s4;
          zeroCount = of_nat (length (filter (\<lambda>v. v = 0) (running_sums 0 data))) :: u8
      in if (ucast zeroCount :: u16) = NumBytesToRead then (0, data, s5)
         else if verify = sum_list data then (ucast NumBytesToRead, data, s5) else (0, data, s5))"

abbreviation FRAM_LAST_ADDR :: u16 where "FRAM_LAST_ADDR \<equiv> 0x07fc"

text \<open>The self-test writes two patterns to the last cells and reads them back; \<open>True\<close> is \<open>SUCCESS\<close>.\<close>

definition CheckFramChip :: "'s spi_bus \<Rightarrow> u8 \<times> 's \<Rightarrow> bool \<times> u8 \<times> 's" where
  "CheckFramChip bus = (\<lambda>(count, s).
     let (temp, s1) = FRAM_ReadStatusRegister bus s in
     if 0 \<noteq> (0x0C AND temp) then (False, count, s1)
     else let s2 = FRAM_WriteDisable bus s1;
              (count3, s3) = FRAM_BufferWrite bus FRAM_LAST_ADDR [0x5a, 0, 0] 1 (count, s2);
              (n4, read4, s4) = FRAM_BufferRead bus 1 FRAM_LAST_ADDR s3
          in if read4 ! 0 = 0x5a
             then let (count5, s5) = FRAM_BufferWrite bus FRAM_LAST_ADDR [0xa5, 0, 0] 1 (count3, s4);
                      (n6, read6, s6) = FRAM_BufferRead bus 1 FRAM_LAST_ADDR s5
                  in (read6 ! 0 = 0xa5, count5, s6)
             else (False, count3, s4))"

definition FRAM_EraseChip :: "'s spi_bus \<Rightarrow> u8 \<times> 's \<Rightarrow> u8 \<times> 's" where
  "FRAM_EraseChip bus = (\<lambda>(count, s).
     fold (\<lambda>i. FRAM_BufferWrite bus (of_nat i) [0] 1) [0..<unat FRAM_LAST_ADDR] (count, SPI_INTERFACE_INIT bus s))"

abbreviation FRAM_VDR_DOUBT_DATA_ADDR :: nat where "FRAM_VDR_DOUBT_DATA_ADDR \<equiv> 298"

abbreviation FRAM_VDR_OVERTIME_NIGHT_END_POSITION_ADDR :: nat where "FRAM_VDR_OVERTIME_NIGHT_END_POSITION_ADDR \<equiv> 1073"

definition FRAM_EraseAllDvrArea :: "'s spi_bus \<Rightarrow> u8 \<times> 's \<Rightarrow> u8 \<times> 's" where
  "FRAM_EraseAllDvrArea bus = (\<lambda>(count, s).
     fold (\<lambda>i. FRAM_BufferWrite bus (of_nat i) [0] 1)
       [FRAM_VDR_DOUBT_DATA_ADDR..<FRAM_VDR_OVERTIME_NIGHT_END_POSITION_ADDR + 10] (count, SPI_INTERFACE_INIT bus s))"

text \<open>The areas of \<open>fm25c160.h\<close>, address and length, but for the telephone number of the owner (89, 12), whose checksum
  is the first byte of the next area.\<close>

definition fram_areas :: "(nat \<times> nat) list" where
  "fram_areas =
   [(0, 12), (13, 11), (25, 4), (58, 1), (60, 1), (62, 4), (67, 4), (72, 2), (75, 1), (77, 1), (79, 1), (81, 1),
    (83, 1), (85, 1), (87, 1), (101, 30), (132, 30), (163, 1), (165, 1), (167, 1), (169, 1), (171, 2), (174, 1),
    (176, 4), (185, 2), (197, 2), (209, 1), (217, 1), (225, 1), (233, 1), (241, 2), (253, 2), (265, 1), (273, 1),
    (281, 1), (289, 1), (298, 2), (756, 4), (861, 2), (864, 96), (969, 4), (974, 4), (979, 4), (984, 4), (989, 4),
    (994, 4), (999, 1), (1001, 18), (1020, 4), (1025, 4), (1030, 10), (1041, 10), (1052, 4), (1057, 4), (1062, 10),
    (1073, 10), (1084, 4), (1104, 4), (1109, 4), (1114, 4), (1119, 4), (1124, 1), (1126, 1), (1128, 1), (1130, 1),
    (1132, 2), (1135, 2), (1138, 4), (1143, 2), (1146, 2)]"

subsection \<open>The chip\<close>

text \<open>\<open>mem s\<close> are the 2048 bytes, \<open>wel s\<close> is the enable flag, \<open>bp s\<close> says that blocks are protected. A frame is what lies
  between two changes of the select line; a write needs the flag and clears it.\<close>

definition frame :: "'s spi_bus \<Rightarrow> u8 list \<Rightarrow> 's \<Rightarrow> 's" where
  "frame bus xs s = FRAM_CS_HIGH bus (send_bytes bus xs (FRAM_CS_LOW bus s))"

definition read_frame :: "'s spi_bus \<Rightarrow> u8 list \<Rightarrow> nat \<Rightarrow> 's \<Rightarrow> u8 list \<times> 's" where
  "read_frame bus xs n s =
     (let (ys, s1) = read_bytes bus n (send_bytes bus xs (FRAM_CS_LOW bus s)) in (ys, FRAM_CS_HIGH bus s1))"

definition fram_chip :: "'s spi_bus \<Rightarrow> ('s \<Rightarrow> nat \<Rightarrow> u8) \<Rightarrow> ('s \<Rightarrow> bool) \<Rightarrow> ('s \<Rightarrow> bool) \<Rightarrow> bool" where
  "fram_chip bus mem wel bp \<longleftrightarrow>
     (\<forall>s. mem (SPI_INTERFACE_INIT bus s) = mem s \<and> wel (SPI_INTERFACE_INIT bus s) = wel s \<and> bp (SPI_INTERFACE_INIT bus s) = bp s)
   \<and> (\<forall>s. mem (frame bus [0x06] s) = mem s \<and> wel (frame bus [0x06] s) \<and> bp (frame bus [0x06] s) = bp s)
   \<and> (\<forall>s. mem (frame bus [0x04] s) = mem s \<and> \<not> wel (frame bus [0x04] s) \<and> bp (frame bus [0x04] s) = bp s)
   \<and> (\<forall>s ys s'. read_frame bus [0x05] 1 s = (ys, s') \<longrightarrow>
        mem s' = mem s \<and> wel s' = wel s \<and> bp s' = bp s \<and> (ys ! 0 AND 2 = 2 \<longleftrightarrow> wel s) \<and> (0x0C AND ys ! 0 = 0 \<longleftrightarrow> \<not> bp s))
   \<and> (\<forall>s hi lo n ys s'. read_frame bus [0x03, hi, lo] n s = (ys, s') \<longrightarrow> unat hi * 256 + unat lo + n \<le> 2048 \<longrightarrow>
        ys = map (mem s) [unat hi * 256 + unat lo..<unat hi * 256 + unat lo + n] \<and> mem s' = mem s \<and> wel s' = wel s \<and> bp s' = bp s)
   \<and> (\<forall>s hi lo xs. wel s \<longrightarrow> \<not> bp s \<longrightarrow> unat hi * 256 + unat lo + length xs \<le> 2048 \<longrightarrow>
        mem (frame bus ([0x02, hi, lo] @ xs) s) = patch (mem s) (unat hi * 256 + unat lo) xs
        \<and> \<not> wel (frame bus ([0x02, hi, lo] @ xs) s) \<and> bp (frame bus ([0x02, hi, lo] @ xs) s) = bp s)"

lemma fram_chipD:
  assumes "fram_chip bus mem wel bp"
  shows "mem (SPI_INTERFACE_INIT bus s) = mem s \<and> wel (SPI_INTERFACE_INIT bus s) = wel s \<and> bp (SPI_INTERFACE_INIT bus s) = bp s"
    "mem (frame bus [0x06] s) = mem s \<and> wel (frame bus [0x06] s) \<and> bp (frame bus [0x06] s) = bp s"
    "mem (frame bus [0x04] s) = mem s \<and> \<not> wel (frame bus [0x04] s) \<and> bp (frame bus [0x04] s) = bp s"
    "read_frame bus [0x05] 1 s = (ys, s') \<Longrightarrow>
       mem s' = mem s \<and> wel s' = wel s \<and> bp s' = bp s \<and> (ys ! 0 AND 2 = 2 \<longleftrightarrow> wel s) \<and> (0x0C AND ys ! 0 = 0 \<longleftrightarrow> \<not> bp s)"
    "read_frame bus [0x03, hi, lo] n s = (ys, s') \<Longrightarrow> unat hi * 256 + unat lo + n \<le> 2048 \<Longrightarrow>
       ys = map (mem s) [unat hi * 256 + unat lo..<unat hi * 256 + unat lo + n] \<and> mem s' = mem s \<and> wel s' = wel s \<and> bp s' = bp s"
    "wel s \<Longrightarrow> \<not> bp s \<Longrightarrow> unat hi * 256 + unat lo + length xs \<le> 2048 \<Longrightarrow>
       mem (frame bus ([0x02, hi, lo] @ xs) s) = patch (mem s) (unat hi * 256 + unat lo) xs
       \<and> \<not> wel (frame bus ([0x02, hi, lo] @ xs) s) \<and> bp (frame bus ([0x02, hi, lo] @ xs) s) = bp s"
  using assms unfolding fram_chip_def by blast+

text \<open>The functions as frames.\<close>

lemma fram_frames:
  "FRAM_WriteEnable bus s = frame bus [0x06] s" "FRAM_WriteDisable bus s = frame bus [0x04] s"
  by (simp_all add: FRAM_WriteEnable_def FRAM_WriteDisable_def frame_def)

lemma FRAM_ReadStatusRegister_frame:
  "FRAM_ReadStatusRegister bus s = (let (ys, s1) = read_frame bus [0x05] 1 (SPI_INTERFACE_INIT bus s) in (ys ! 0, s1))"
  by (simp add: FRAM_ReadStatusRegister_def read_frame_def split: prod.split)

lemma read_bytes_Suc:
  "read_bytes bus (Suc n) s = (let (xs, s1) = read_bytes bus n s; (x, s2) = sFLASH_ReadByte bus s1 in (xs @ [x], s2))"
  by (induction n arbitrary: s) (simp_all add: split_beta Let_def)

lemma read_bytes_length: "length (fst (read_bytes bus n s)) = n"
  by (induction n arbitrary: s) (simp_all add: split_beta)

lemma FRAM_BufferRead_frame:
  assumes "read_frame bus [0x03, ucast (drop_bit 8 a), ucast a] (Suc (unat n)) (SPI_INTERFACE_INIT bus s) = (data @ [verify], s')"
    "length data = unat n"
  shows "FRAM_BufferRead bus n a s =
    (if (ucast (of_nat (length (filter (\<lambda>v. v = 0) (running_sums 0 data))) :: u8) :: u16) = n then (0, data, s')
     else if verify = sum_list data then (ucast n, data, s') else (0, data, s'))"
  using assms unfolding read_frame_def read_bytes_Suc FRAM_BufferRead_def
  by (auto simp: Let_def split: prod.splits if_splits)

lemma address_bytes: "unat (ucast (drop_bit 8 a) :: u8) * 256 + unat (ucast a :: u8) = unat a" for a :: u16
proof -
  have "unat (ucast (drop_bit 8 a) :: u8) = unat a div 256"
  proof -
    have "unat a < 2 ^ LENGTH(16)" by (rule unsigned_less)
    then have "unat a div 256 < 256" by simp
    then show ?thesis by (simp add: unsigned_ucast_eq unsigned_drop_bit_eq take_bit_nat_def drop_bit_eq_div unat_div)
  qed
  moreover have "unat (ucast a :: u8) = unat a mod 256" by (simp add: unsigned_ucast_eq take_bit_nat_def)
  ultimately show ?thesis by simp
qed

subsection \<open>Writing and reading a block\<close>

lemma FRAM_ReadStatusRegister_chip:
  assumes "fram_chip bus mem wel bp"
  obtains temp s' where "FRAM_ReadStatusRegister bus s = (temp, s')" "mem s' = mem s" "wel s' = wel s" "bp s' = bp s"
    "temp AND 2 = 2 \<longleftrightarrow> wel s" "0x0C AND temp = 0 \<longleftrightarrow> \<not> bp s"
proof -
  obtain ys s' where r: "read_frame bus [0x05] 1 (SPI_INTERFACE_INIT bus s) = (ys, s')" by fastforce
  from fram_chipD(4)[OF assms r] fram_chipD(1)[OF assms, of s] show thesis
    by (intro that[of "ys ! 0" s']) (simp_all add: FRAM_ReadStatusRegister_frame r[unfolded One_nat_def])
qed

lemma FRAM_BufferWrite_take: "FRAM_BufferWrite bus a (take (unat n) buf) n = FRAM_BufferWrite bus a buf n"
  unfolding FRAM_BufferWrite_def take_take min.idem ..

text \<open>An idle chip takes the block and the checksum.\<close>

lemma FRAM_BufferWrite_idle:
  assumes ch: "fram_chip bus mem wel bp" and idle: "\<not> wel s" "\<not> bp s" and l: "length data = unat n" "unat a + unat n < 2048"
  obtains s' where "FRAM_BufferWrite bus a data n (count, s) = (0, s')" "mem s' = patch (mem s) (unat a) (data @ [sum_list data])"
    "\<not> wel s'" "\<not> bp s'"
proof -
  obtain temp s1 where s1: "FRAM_ReadStatusRegister bus (SPI_INTERFACE_INIT bus s) = (temp, s1)" "mem s1 = mem s" "wel s1 = wel s" "bp s1 = bp s"
    "temp AND 2 = 2 \<longleftrightarrow> wel s"
    using FRAM_ReadStatusRegister_chip[OF ch, of "SPI_INTERFACE_INIT bus s"] fram_chipD(1)[OF ch, of s] by metis
  let ?hi = "ucast (drop_bit 8 a) :: u8" and ?lo = "ucast a :: u8"
  let ?s2 = "frame bus [0x06] s1" and ?xs = "data @ [sum_list data]"
  let ?s3 = "frame bus ([0x02, ?hi, ?lo] @ ?xs) ?s2"
  note e = fram_chipD(2)[OF ch, of s1]
  have "unat ?hi * 256 + unat ?lo + length ?xs \<le> 2048" unfolding address_bytes using l by simp
  then have m: "mem ?s3 = patch (mem ?s2) (unat ?hi * 256 + unat ?lo) ?xs \<and> \<not> wel ?s3 \<and> bp ?s3 = bp ?s2"
    using e idle(2) s1(4) by (intro fram_chipD(6)[OF ch]) simp_all
  have "FRAM_BufferWrite bus a data n (count, s) = (0, ?s3)"
    using s1(1,5) idle(1) l(1) by (simp add: FRAM_BufferWrite_def fram_frames frame_def Let_def and.commute[of 2])
  moreover have "mem ?s3 = patch (mem s) (unat a) ?xs" "\<not> wel ?s3" "\<not> bp ?s3"
    using m e s1(2,4) idle(2) unfolding address_bytes by simp_all
  ultimately show thesis by (rule that)
qed

text \<open>A chip that reports a write in progress gets nothing, until the 21st attempt in a row clears its flag.\<close>

lemma FRAM_BufferWrite_busy:
  assumes ch: "fram_chip bus mem wel bp" and busy: "wel s"
  obtains s' where "FRAM_BufferWrite bus a data n (count, s) = (if count + 1 > 20 then 0 else count + 1, s')" "mem s' = mem s"
    "wel s' \<longleftrightarrow> \<not> (count + 1 > 20)" "bp s' = bp s"
proof -
  obtain temp s1 where s1: "FRAM_ReadStatusRegister bus (SPI_INTERFACE_INIT bus s) = (temp, s1)" "mem s1 = mem s" "wel s1 = wel s" "bp s1 = bp s"
    "temp AND 2 = 2 \<longleftrightarrow> wel s"
    using FRAM_ReadStatusRegister_chip[OF ch, of "SPI_INTERFACE_INIT bus s"] fram_chipD(1)[OF ch, of s] by metis
  let ?s' = "if count + 1 > 20 then frame bus [0x04] s1 else s1"
  have "FRAM_BufferWrite bus a data n (count, s) = (if count + 1 > 20 then 0 else count + 1, ?s')"
    using s1(1,5) busy by (simp add: FRAM_BufferWrite_def fram_frames Let_def and.commute[of 2])
  then show thesis using s1(2-4) busy fram_chipD(3)[OF ch, of s1] by (intro that[of ?s']) simp_all
qed

lemma running_sums_length [simp]: "length (running_sums v xs) = length xs"
  by (induction xs arbitrary: v) simp_all

text \<open>All running sums are 0 exactly when all bytes are.\<close>

lemma running_sums_zero: "(\<forall>x\<in>set (running_sums 0 xs). x = 0) \<longleftrightarrow> (\<forall>x\<in>set xs. x = 0)"
proof -
  have "v = 0 \<Longrightarrow> (\<forall>x\<in>set (running_sums v xs). x = 0) \<longleftrightarrow> (\<forall>x\<in>set xs. x = 0)" for v
    by (induction xs arbitrary: v) auto
  then show ?thesis by simp
qed

lemma zero_count:
  assumes "length data = unat n"
  shows "(ucast (of_nat (length (filter (\<lambda>v. v = 0) (running_sums 0 data))) :: u8) :: u16) = n \<longleftrightarrow> unat n < 256 \<and> (\<forall>x\<in>set data. x = 0)"
proof -
  let ?z = "length (filter (\<lambda>v. v = 0) (running_sums 0 data))"
  have le: "?z \<le> unat n" using assms length_filter_le[of "\<lambda>v. v = 0" "running_sums 0 data"] by simp
  have u: "unat (ucast (of_nat ?z :: u8) :: u16) = ?z mod 256"
    by (simp add: unsigned_ucast_eq unat_of_nat take_bit_nat_eq_self_iff take_bit_nat_def)
  have "(ucast (of_nat ?z :: u8) :: u16) = n \<longleftrightarrow> ?z mod 256 = unat n" unfolding u[symmetric] by (rule word_unat_eq_iff)
  also have "\<dots> \<longleftrightarrow> unat n < 256 \<and> ?z = unat n"
  proof (cases "unat n < 256")
    case True
    then show ?thesis using le by simp
  next
    case False
    have "?z mod 256 < 256" by (rule mod_less_divisor) simp
    then show ?thesis using False by linarith
  qed
  also have "?z = unat n \<longleftrightarrow> (\<forall>x\<in>set (running_sums 0 data). x = 0)"
    using assms by (metis (mono_tags, lifting) filter_True length_filter_less running_sums_length less_irrefl)
  finally show ?thesis unfolding running_sums_zero .
qed

text \<open>A read finds a block that is there with its checksum, unless all of it is 0. The length that is returned has 8 bits.\<close>

lemma FRAM_BufferRead_finds:
  assumes ch: "fram_chip bus mem wel bp" and h: "holds (mem s) (unat a) (data @ [sum_list data])"
    and l: "length data = unat n" "unat a + unat n < 2048"
  obtains s' where "FRAM_BufferRead bus n a s = (if unat n < 256 \<and> (\<forall>x\<in>set data. x = 0) then 0 else ucast n, data, s')"
    "mem s' = mem s" "wel s' = wel s" "bp s' = bp s"
proof -
  let ?s0 = "SPI_INTERFACE_INIT bus s"
  obtain ys s' where r: "read_frame bus [0x03, ucast (drop_bit 8 a), ucast a] (Suc (unat n)) ?s0 = (ys, s')" by fastforce
  have "unat (ucast (drop_bit 8 a) :: u8) * 256 + unat (ucast a :: u8) + Suc (unat n) \<le> 2048" unfolding address_bytes using l by simp
  from fram_chipD(5)[OF ch r this] have y: "ys = map (mem ?s0) [unat a..<unat a + Suc (unat n)]" "mem s' = mem ?s0" "wel s' = wel ?s0" "bp s' = bp ?s0"
    unfolding address_bytes by simp_all
  note i = fram_chipD(1)[OF ch, of s]
  have "ys = data @ [sum_list data]" using h l unfolding y(1) i[THEN conjunct1] holds_iff by (simp del: upt_Suc)
  from FRAM_BufferRead_frame[OF r[unfolded this] l(1)] show thesis
    using that[of s'] y(2-4) i unfolding zero_count[OF l(1)] by simp
qed

subsection \<open>The areas\<close>

lemma fram_areas_spaced: "sorted_wrt (\<lambda>(a, l) (b, m). a + l + 1 \<le> b) fram_areas"
proof -
  have t: "transp (\<lambda>(a, l) (b, m). a + l + 1 \<le> (b :: nat))" by (auto simp: transp_def)
  have "successively (\<lambda>(a, l) (b, m). a + l + 1 \<le> b) fram_areas" by (simp add: fram_areas_def)
  then show ?thesis unfolding successively_conv_sorted_wrt[OF t] .
qed

lemma fram_areas_fit: "(a, l) \<in> set fram_areas \<Longrightarrow> 0 < l \<and> l < 256 \<and> a + l < 2040"
proof -
  have "list_all (\<lambda>(a, l). 0 < l \<and> l < 256 \<and> a + l < (2040 :: nat)) fram_areas" by (simp add: fram_areas_def)
  then show "(a, l) \<in> set fram_areas \<Longrightarrow> 0 < l \<and> l < 256 \<and> a + l < 2040" by (auto simp: list_all_iff)
qed

lemma fram_areas_apart:
  assumes "(a, l) \<in> set fram_areas" "(b, m) \<in> set fram_areas" "a \<noteq> b"
  shows "a + l + 1 \<le> b \<or> b + m + 1 \<le> a"
proof -
  obtain i j where ij: "i < length fram_areas" "fram_areas ! i = (a, l)" "j < length fram_areas" "fram_areas ! j = (b, m)"
    using assms(1,2) by (metis in_set_conv_nth)
  have "i \<noteq> j" using ij assms(3) by auto
  then consider "i < j" | "j < i" by linarith
  then show ?thesis
    by cases (use sorted_wrt_nth_less[OF fram_areas_spaced, of i j] sorted_wrt_nth_less[OF fram_areas_spaced, of j i] ij in auto)
qed

text \<open>Writes of whole areas, one after the other.\<close>

definition fram_run :: "'s spi_bus \<Rightarrow> (nat \<times> u8 list) list \<Rightarrow> u8 \<times> 's \<Rightarrow> u8 \<times> 's" where
  "fram_run bus ws cs = fold (\<lambda>(a, data). FRAM_BufferWrite bus (of_nat a) data (of_nat (length data))) ws cs"

definition fram_area_write :: "nat \<times> u8 list \<Rightarrow> bool" where
  "fram_area_write = (\<lambda>(a, data). (a, length data) \<in> set fram_areas)"

definition fram_put :: "nat \<times> u8 list \<Rightarrow> ('s spi_bus \<times> ('s \<Rightarrow> nat \<Rightarrow> u8) \<times> ('s \<Rightarrow> bool) \<times> ('s \<Rightarrow> bool)) \<times> u8 \<times> 's
    \<Rightarrow> ('s spi_bus \<times> ('s \<Rightarrow> nat \<Rightarrow> u8) \<times> ('s \<Rightarrow> bool) \<times> ('s \<Rightarrow> bool)) \<times> u8 \<times> 's" where
  "fram_put = (\<lambda>(a, data) (chip, cs). (chip, FRAM_BufferWrite (fst chip) (of_nat a) data (of_nat (length data)) cs))"

definition fram_works :: "('s spi_bus \<times> ('s \<Rightarrow> nat \<Rightarrow> u8) \<times> ('s \<Rightarrow> bool) \<times> ('s \<Rightarrow> bool)) \<times> u8 \<times> 's \<Rightarrow> bool" where
  "fram_works = (\<lambda>((bus, mem, wel, bp), count, s). fram_chip bus mem wel bp \<and> \<not> wel s \<and> \<not> bp s)"

definition fram_memory :: "('s spi_bus \<times> ('s \<Rightarrow> nat \<Rightarrow> u8) \<times> ('s \<Rightarrow> bool) \<times> ('s \<Rightarrow> bool)) \<times> u8 \<times> 's \<Rightarrow> nat \<Rightarrow> u8" where
  "fram_memory = (\<lambda>((bus, mem, wel, bp), count, s). mem s)"

lemma fram_put_works:
  assumes "fram_works x" "fram_area_write w"
  shows "fram_memory (fram_put w x) = patch (fram_memory x) (fst w) (snd w @ [sum_list (snd w)]) \<and> fram_works (fram_put w x)"
proof -
  obtain bus mem wel bp count s where x: "x = ((bus, mem, wel, bp), count, s)" by (cases x) auto
  obtain a data where w: "w = (a, data)" by (cases w)
  from assms have ch: "fram_chip bus mem wel bp" "\<not> wel s" "\<not> bp s" and ar: "(a, length data) \<in> set fram_areas"
    by (simp_all add: fram_works_def fram_area_write_def x w)
  from fram_areas_fit[OF ar] have f: "length data < 256" "a + length data < 2040" by simp_all
  then have u: "unat (of_nat a :: u16) = a" "unat (of_nat (length data) :: u16) = length data" by (simp_all add: unat_of_nat)
  obtain s' where "FRAM_BufferWrite bus (of_nat a) data (of_nat (length data)) (count, s) = (0, s')"
    "mem s' = patch (mem s) a (data @ [sum_list data])" "\<not> wel s'" "\<not> bp s'"
    by (rule FRAM_BufferWrite_idle[OF ch, of data "of_nat (length data)" "of_nat a" count]) (use u f in auto)
  then show ?thesis using ch(1) by (simp add: x w fram_put_def fram_works_def fram_memory_def)
qed

interpretation fram: byte_store fram_memory fram_works fram_put fram_area_write fst fst "\<lambda>w. snd w @ [sum_list (snd w)]"
proof
  show "fst v + length (snd v @ [sum_list (snd v)]) \<le> fst w \<or> fst w + length (snd w @ [sum_list (snd w)]) \<le> fst v"
    if "fram_area_write v" "fram_area_write w" "fst v \<noteq> fst w" for v w
    using that fram_areas_apart by (cases v; cases w) (force simp: fram_area_write_def)
qed (simp_all add: fram_put_works)

lemma fram_run_put: "fold fram_put ws (chip, cs) = (chip, fram_run (fst chip) ws cs)"
proof (induction ws arbitrary: cs)
  case (Cons w ws)
  obtain a data where w: "w = (a, data)" by (cases w)
  show ?case using Cons[of "FRAM_BufferWrite (fst chip) (of_nat a) data (of_nat (length data)) cs"]
    by (simp add: fram_run_def fram_put_def w)
qed (simp add: fram_run_def)

lemma fram_run_keeps:
  assumes "fram_chip bus mem wel bp" "\<not> wel s" "\<not> bp s" "\<forall>w\<in>set ws. fram_area_write w" "last_write fst ws a = Some (b, data)"
    and "fram_run bus ws (count, s) = (count', s')"
  shows "holds (mem s') a (data @ [sum_list data])"
proof -
  let ?x = "((bus, mem, wel, bp), count, s)"
  have "fram_works ?x" using assms(1-3) by (simp add: fram_works_def)
  from fram.run_holds[OF this assms(4,5)] last_write_in[OF assms(5)] show ?thesis
    by (simp add: fram_run_put assms(6) fram_memory_def)
qed

subsection \<open>Erasing, and the self-test\<close>

text \<open>Writing a zero to every place leaves zeros: each write also zeroes the place behind it.\<close>

lemma fram_zeroes:
  assumes ch: "fram_chip bus mem wel bp"
  shows "\<not> wel s \<Longrightarrow> \<not> bp s \<Longrightarrow> i + n < 2048 \<Longrightarrow> 0 < n \<Longrightarrow> \<exists>s'. fold (\<lambda>i. FRAM_BufferWrite bus (of_nat i) [0] 1) [i..<i + n] (count, s) = (0, s')
     \<and> mem s' = patch (mem s) i (replicate (Suc n) 0) \<and> \<not> wel s' \<and> \<not> bp s'"
proof (induction n)
  case (Suc n)
  have "\<exists>count1 s1. fold (\<lambda>i. FRAM_BufferWrite bus (of_nat i) [0] 1) [i..<i + n] (count, s) = (count1, s1)
     \<and> (\<exists>m. mem s1 = patch (mem s) i (replicate m 0) \<and> m \<le> Suc n \<and> n \<le> m) \<and> \<not> wel s1 \<and> \<not> bp s1"
  proof (cases "n = 0")
    case True
    then show ?thesis using Suc.prems by (intro exI[of _ count] exI[of _ s]) (auto intro: exI[of _ 0])
  next
    case False
    then show ?thesis using Suc by (metis add_Suc_right less_Suc_eq less_SucI not_gr_zero order_refl le_SucI Suc_lessD)
  qed
  then obtain count1 s1 m where s1: "fold (\<lambda>i. FRAM_BufferWrite bus (of_nat i) [0] 1) [i..<i + n] (count, s) = (count1, s1)"
    "mem s1 = patch (mem s) i (replicate m 0)" "m \<le> Suc n" "n \<le> m" "\<not> wel s1" "\<not> bp s1" by blast
  have u: "unat (of_nat (i + n) :: u16) = i + n" using Suc.prems by (simp add: unat_of_nat del: of_nat_add)
  obtain s2 where s2: "FRAM_BufferWrite bus (of_nat (i + n)) [0] 1 (count1, s1) = (0, s2)"
    "mem s2 = patch (mem s1) (i + n) ([0] @ [sum_list [0]])" "\<not> wel s2" "\<not> bp s2"
    by (rule FRAM_BufferWrite_idle[OF ch s1(5,6), of "[0]" 1 "of_nat (i + n)" count1]) (use Suc.prems u in \<open>auto simp del: of_nat_add\<close>)
  have "mem s2 = patch (mem s) i (replicate (Suc (Suc n)) 0)"
    unfolding s2(2) s1(2) using s1(3,4) by (auto simp: patch_def fun_eq_iff nth_Cons' nth_append simp del: replicate_Suc)
  then show ?case using s1(1) s2 by (intro exI[of _ s2]) simp
qed simp

lemma FRAM_EraseChip_zeroes:
  assumes ch: "fram_chip bus mem wel bp" and "\<not> wel s" "\<not> bp s"
  obtains s' where "FRAM_EraseChip bus (count, s) = (0, s')" "mem s' = patch (mem s) 0 (replicate 2045 0)" "\<not> wel s'" "\<not> bp s'"
proof -
  let ?s = "SPI_INTERFACE_INIT bus s"
  have "\<not> wel ?s" "\<not> bp ?s" "mem ?s = mem s" using fram_chipD(1)[OF ch, of s] assms(2,3) by simp_all
  from fram_zeroes[OF ch this(1,2), of 0 2044 count] this(3) obtain s' where
    "fold (\<lambda>i. FRAM_BufferWrite bus (of_nat i) [0] 1) [0..<2044] (count, ?s) = (0, s')"
    "mem s' = patch (mem s) 0 (replicate (Suc 2044) 0)" "\<not> wel s'" "\<not> bp s'" unfolding add_0 by auto
  moreover have "unat FRAM_LAST_ADDR = 2044" "Suc 2044 = 2045" by simp_all
  ultimately show thesis using that[of s'] unfolding FRAM_EraseChip_def case_prod_conv by metis
qed

text \<open>An idle chip that answers passes the self-test, and keeps the last pattern.\<close>

lemma CheckFramChip_passes:
  assumes ch: "fram_chip bus mem wel bp" and bp: "\<not> bp s"
  obtains s' where "CheckFramChip bus (count, s) = (True, 0, s')" "mem s' = patch (mem s) 2044 [0xa5, 0xa5]" "\<not> wel s'" "\<not> bp s'"
proof -
  obtain temp s1 where s1: "FRAM_ReadStatusRegister bus s = (temp, s1)" "mem s1 = mem s" "bp s1 = bp s" "0x0C AND temp = 0"
    using FRAM_ReadStatusRegister_chip[OF ch, of s] bp by metis
  let ?s2 = "FRAM_WriteDisable bus s1"
  have i2: "mem ?s2 = mem s" "\<not> wel ?s2" "\<not> bp ?s2" using fram_chipD(3)[OF ch, of s1] s1 bp by (simp_all add: fram_frames)
  have wr: "\<exists>s'. FRAM_BufferWrite bus FRAM_LAST_ADDR [x, 0, 0] 1 (count, s) = (0, s') \<and> mem s' = patch (mem s) 2044 [x, x] \<and> \<not> wel s' \<and> \<not> bp s'"
    if idle: "\<not> wel s" "\<not> bp s" for x count s
  proof -
    obtain s' where "FRAM_BufferWrite bus FRAM_LAST_ADDR [x] 1 (count, s) = (0, s')" "mem s' = patch (mem s) 2044 [x, x]" "\<not> wel s'" "\<not> bp s'"
      by (rule FRAM_BufferWrite_idle[OF ch idle, of "[x]" 1 FRAM_LAST_ADDR count]) simp_all
    moreover have "FRAM_BufferWrite bus FRAM_LAST_ADDR [x, 0, 0] 1 (count, s) = FRAM_BufferWrite bus FRAM_LAST_ADDR [x] 1 (count, s)"
      using FRAM_BufferWrite_take[of bus FRAM_LAST_ADDR 1 "[x, 0, 0]"] by simp
    ultimately show ?thesis by auto
  qed
  have rd: "\<exists>n s'. FRAM_BufferRead bus 1 FRAM_LAST_ADDR s = (n, [x], s') \<and> mem s' = mem s \<and> wel s' = wel s \<and> bp s' = bp s"
    if "mem s = patch m 2044 [x, x]" for m x s
  proof -
    have h: "holds (mem s) (unat FRAM_LAST_ADDR) ([x] @ [sum_list [x]])" using holds_patch[of m 2044 "[x, x]"] that by simp
    obtain n s' where "FRAM_BufferRead bus 1 FRAM_LAST_ADDR s = (n, [x], s')" "mem s' = mem s" "wel s' = wel s" "bp s' = bp s"
      by (rule FRAM_BufferRead_finds[OF ch h, of 1]) auto
    then show ?thesis by blast
  qed
  obtain s3 where s3: "FRAM_BufferWrite bus FRAM_LAST_ADDR [0x5a, 0, 0] 1 (count, ?s2) = (0, s3)" "mem s3 = patch (mem ?s2) 2044 [0x5a, 0x5a]"
    "\<not> wel s3" "\<not> bp s3" using wr[OF i2(2,3)] by blast
  obtain n4 s4 where s4: "FRAM_BufferRead bus 1 FRAM_LAST_ADDR s3 = (n4, [0x5a], s4)" "mem s4 = mem s3" "\<not> wel s4" "\<not> bp s4"
    using rd[OF s3(2)] s3(3,4) by blast
  obtain s5 where s5: "FRAM_BufferWrite bus FRAM_LAST_ADDR [0xa5, 0, 0] 1 (0, s4) = (0, s5)" "mem s5 = patch (mem s4) 2044 [0xa5, 0xa5]"
    "\<not> wel s5" "\<not> bp s5" using wr[OF s4(3,4)] by blast
  obtain n6 s6 where s6: "FRAM_BufferRead bus 1 FRAM_LAST_ADDR s5 = (n6, [0xa5], s6)" "mem s6 = mem s5" "\<not> wel s6" "\<not> bp s6"
    using rd[OF s5(2)] s5(3,4) by blast
  have "CheckFramChip bus (count, s) = (True, 0, s6)"
    using s1(1,4) s3(1) s4(1) s5(1) s6(1) by (simp add: CheckFramChip_def Let_def)
  moreover have "mem s6 = patch (mem s) 2044 [0xa5, 0xa5]"
    unfolding s6(2) s5(2) s4(2) s3(2) i2(1) by (auto simp: patch_def fun_eq_iff)
  ultimately show thesis using that s6(3,4) by blast
qed

subsection \<open>The settings of the type approval test\<close>

text \<open>\<open>EepromPram_GBTestSet\<close> sets eleven parameters in the EEPROM and a switch in the FRAM.\<close>

definition gb_test_settings :: "e2_default list" where
  "gb_test_settings =
   [Set (Long 0xfffbfef1) E2_ALARM_MASK_ID 0 4,
    Set (Long 0) E2_OVER_SPEED_KEEP_TIME_ID 0 4,
    Set (Long 14400) E2_MAX_DRVIE_TIME_ID 0 4,
    Set (Long 1200) E2_MIN_RELAX_TIME_ID 0 4,
    Set (Short 50) E2_SPEED_EARLY_ALARM_DVALUE_ID 0 2,
    Set (Short 1800) E2_TIRE_EARLY_ALARM_DVALUE_ID 0 2,
    Set (Long 3600) E2_CAR_FEATURE_COEF_ID 1 3,
    Set (Byte 0) E2_SPEED_SELECT_ID 0 1,
    Set (Byte 129) E2_UNLOGIN_TTS_PLAY_ID 0 1,
    Set (Long 0) E2_TIRED_DRIVE_RUN_SPEED_ID 0 4,
    Set (Long 10) E2_TIRED_DRIVE_RUN_KEEPTIME_ID 0 4]"

abbreviation FRAM_VDR_SPEED_STATUS_ENABLE_ADDR :: u16 where "FRAM_VDR_SPEED_STATUS_ENABLE_ADDR \<equiv> 1124"

definition EepromPram_GBTestSet :: "'c sfud \<Rightarrow> 's spi_bus \<Rightarrow> u8 list \<Rightarrow> 'c \<times> u8 \<times> 's \<Rightarrow> 'c \<times> u8 \<times> 's" where
  "EepromPram_GBTestSet ops bus Buffer = (\<lambda>(c, cs).
     (e2_set_all ops gb_test_settings Buffer c, FRAM_BufferWrite bus FRAM_VDR_SPEED_STATUS_ENABLE_ADDR [1] 1 cs))"

end
