(* ===== verification/Fram_Theorems.thy ===== *)
theory Fram_Theorems
  imports App_Fram
begin

text \<open>Properties of the FRAM.\<close>

text \<open>A chip that answers: the bytes received since it was selected, its memory and its flag.\<close>

record demo_fram =
  df_in :: "u8 list"
  df_mem :: "nat \<Rightarrow> u8"
  df_wel :: bool

definition demo_out :: "demo_fram \<Rightarrow> u8" where
  "demo_out d = (case df_in d of
      [b] \<Rightarrow> if b = 0x05 \<and> df_wel d then 2 else 0
    | b # hi # lo # xs \<Rightarrow> df_mem d (unat hi * 256 + unat lo + length xs)
    | _ \<Rightarrow> 0)"

definition demo_high :: "demo_fram \<Rightarrow> demo_fram" where
  "demo_high d = (case df_in d of
      [b] \<Rightarrow> d\<lparr>df_in := [], df_wel := (if b = 0x06 then True else if b = 0x04 then False else df_wel d)\<rparr>
    | b # hi # lo # xs \<Rightarrow> if b = 0x02 \<and> df_wel d then d\<lparr>df_in := [], df_mem := patch (df_mem d) (unat hi * 256 + unat lo) xs, df_wel := False\<rparr>
        else d\<lparr>df_in := []\<rparr>
    | _ \<Rightarrow> d\<lparr>df_in := []\<rparr>)"

definition demo_bus :: "demo_fram spi_bus" where
  "demo_bus = \<lparr>FRAM_CS_LOW = \<lambda>d. d\<lparr>df_in := []\<rparr>, FRAM_CS_HIGH = demo_high,
     sFLASH_SendByte = \<lambda>b d. (demo_out d, d\<lparr>df_in := df_in d @ [b]\<rparr>), SPI_INTERFACE_INIT = \<lambda>d. d\<rparr>"

lemma demo_bus_simps [simp]:
  "FRAM_CS_LOW demo_bus d = d\<lparr>df_in := []\<rparr>" "FRAM_CS_HIGH demo_bus d = demo_high d"
  "sFLASH_SendByte demo_bus b d = (demo_out d, d\<lparr>df_in := df_in d @ [b]\<rparr>)" "SPI_INTERFACE_INIT demo_bus d = d"
  by (simp_all add: demo_bus_def)

lemma demo_send: "send_bytes demo_bus xs d = d\<lparr>df_in := df_in d @ xs\<rparr>"
  by (induction xs arbitrary: d) simp_all

lemma demo_read:
  assumes "df_in d = b # hi # lo # xs"
  shows "read_bytes demo_bus n d = (map (df_mem d) [unat hi * 256 + unat lo + length xs..<unat hi * 256 + unat lo + length xs + n],
     d\<lparr>df_in := df_in d @ replicate n 0xA5\<rparr>)"
  using assms
proof (induction n arbitrary: d xs)
  case (Suc n)
  show ?case using Suc.IH[of "d\<lparr>df_in := df_in d @ [0xA5]\<rparr>" "xs @ [0xA5]"] Suc.prems
    by (simp add: sFLASH_ReadByte_def demo_out_def upt_conv_Cons del: upt_Suc)
qed simp

lemma demo_bus_ok: "fram_chip demo_bus df_mem df_wel (\<lambda>_. False)"
proof -
  have f: "frame demo_bus xs s = demo_high (s\<lparr>df_in := xs\<rparr>)" for xs s by (simp add: frame_def demo_send)
  have r5: "read_frame demo_bus [5] 1 s = ([if df_wel s then 2 else 0], demo_high (s\<lparr>df_in := [5, 0xA5]\<rparr>))" for s
    by (simp add: read_frame_def demo_send sFLASH_ReadByte_def demo_out_def)
  have r3: "read_frame demo_bus [3, hi, lo] n s = (map (df_mem s) [unat hi * 256 + unat lo..<unat hi * 256 + unat lo + n],
      demo_high (s\<lparr>df_in := [3, hi, lo] @ replicate n 0xA5\<rparr>))" for s hi lo n
    by (simp add: read_frame_def demo_send demo_read)
  show ?thesis unfolding fram_chip_def r5 r3 f by (auto simp: demo_high_def)
qed




text \<open>A chip whose enable flag is stuck comes back: 21 writes in a row are lost, the last of them clears the flag, and the
  next one is stored.\<close>

theorem fram_write_recovers:
  assumes ch: "fram_chip bus mem wel bp" and stuck: "wel s" "\<not> bp s" and l: "length data = unat n" "unat a + unat n < 2048"
  shows "\<exists>s1 s2. (FRAM_BufferWrite bus a data n ^^ 21) (0, s) = (0, s1) \<and> mem s1 = mem s \<and> \<not> wel s1
     \<and> FRAM_BufferWrite bus a data n (0, s1) = (0, s2) \<and> mem s2 = patch (mem s) (unat a) (data @ [sum_list data])"
proof -
  have lost: "\<exists>s1. (FRAM_BufferWrite bus a data n ^^ k) (0, s) = (of_nat k, s1) \<and> mem s1 = mem s \<and> wel s1 \<and> \<not> bp s1" if "k \<le> 20" for k
    using that
  proof (induction k)
    case (Suc k)
    then obtain s1 where s1: "(FRAM_BufferWrite bus a data n ^^ k) (0, s) = (of_nat k, s1)" "mem s1 = mem s" "wel s1" "\<not> bp s1" by auto
    have "unat (of_nat (Suc k) :: u8) = Suc k" using Suc.prems by (simp add: unat_of_nat del: of_nat_Suc)
    then have "\<not> (20 :: u8) < of_nat (Suc k)" using Suc.prems by (simp add: word_less_nat_alt del: of_nat_Suc)
    then have "\<not> (20 :: u8) < of_nat k + 1" by (simp add: add.commute)
    moreover obtain s2 where "FRAM_BufferWrite bus a data n (of_nat k, s1) = (if of_nat k + 1 > (20 :: u8) then 0 else of_nat k + 1, s2)"
      "mem s2 = mem s1" "wel s2 \<longleftrightarrow> \<not> (of_nat k + 1 > (20 :: u8))" "bp s2 = bp s1"
      by (rule FRAM_BufferWrite_busy[OF ch s1(3)])
    ultimately show ?case using s1 by (intro exI[of _ s2]) (simp add: add.commute)
  qed (use stuck in simp)
  obtain s0 where s0: "(FRAM_BufferWrite bus a data n ^^ 20) (0, s) = (20, s0)" "mem s0 = mem s" "wel s0" "\<not> bp s0" using lost[of 20] by auto
  obtain s1 where "FRAM_BufferWrite bus a data n (20, s0) = (if 20 + 1 > (20 :: u8) then 0 else 20 + 1, s1)" "mem s1 = mem s0"
    "wel s1 \<longleftrightarrow> \<not> (20 + 1 > (20 :: u8))" "bp s1 = bp s0" by (rule FRAM_BufferWrite_busy[OF ch s0(3)])
  then have s1: "FRAM_BufferWrite bus a data n (20, s0) = (0, s1)" "mem s1 = mem s" "\<not> wel s1" "\<not> bp s1" using s0 by simp_all
  have "(FRAM_BufferWrite bus a data n ^^ 21) (0, s) = (0, s1)"
    using funpow_add[of 1 20 "FRAM_BufferWrite bus a data n"] s0(1) s1(1) by simp
  moreover obtain s2 where "FRAM_BufferWrite bus a data n (0, s1) = (0, s2)" "mem s2 = patch (mem s1) (unat a) (data @ [sum_list data])"
    by (rule FRAM_BufferWrite_idle[OF ch s1(3,4) l])
  ultimately show ?thesis using s1 by auto
qed

theorem fram_write_recovers_witness:
  "\<exists>s1 s2. (FRAM_BufferWrite demo_bus 75 [1] 1 ^^ 21) (0, \<lparr>df_in = [], df_mem = \<lambda>_. 0xFF, df_wel = True\<rparr>) = (0, s1)
     \<and> FRAM_BufferWrite demo_bus 75 [1] 1 (0, s1) = (0, s2) \<and> df_mem s2 75 = 1"
proof -
  have "patch (\<lambda>_. 0xFF) 75 [1, 1] 75 = (1 :: u8)" by (simp add: patch_def)
  with fram_write_recovers[OF demo_bus_ok, of "\<lparr>df_in = [], df_mem = \<lambda>_. 0xFF, df_wel = True\<rparr>" "[1]" 1 75] show ?thesis by auto
qed

end
