(* ===== verification/App_IoWords.thy ===== *)
theory App_IoWords
  imports App_Fram
begin

text \<open>
  The status, alarm and control words of \<open>User/driver/src/Io.c\<close>: words of bits with an index each, of which some are
  shared by several users (the loudspeaker, the over-speed alarm), and one is kept in the FRAM (the recording). The
  static variables of the file are one record. An output pin is the level that was last set.
\<close>

subsection \<open>The variables\<close>

datatype FlagStatus = RESET | SET

text \<open>The sampling of a voltage: sum, least and greatest value, number of samples.\<close>

record ad_sum =
  AdSum :: u32
  AdMin :: u16
  AdMax :: u16
  AdCount :: u8

record io =
  Status :: u32
  Alarm :: u32
  ExtCarStatus :: u32
  IoStatus :: u32
  SuoMeiStatus :: u32
  SelfDefine2 :: u32
  SelfDefine2MaskWord :: u32
  SelfDefine2HighValid :: u32
  KeyAlarm :: u32
  AlarmHighValid :: u32
  StatusHighValid :: u32
  ExtCarStatusHighValid :: u32
  MicControl :: u8
  SpeakerControl :: u8
  OverSpeedControl :: u8
  OvertimeControl :: u8
  PreOvertimeControl :: u8
  RecordControl :: u8
  AlarmMaskWord :: u32
  AlarmPhotoSwitch :: u32
  AlarmPhotoStoreFlag :: u32
  StatusPhotoSwitch :: u32
  StatusPhotoStoreFlag :: u32
  MicBaseOnOffFlag :: u8
  V_COL :: bool
  BUZZER :: bool
  BeepOnOffFlag :: u8
  BeepOnTime :: u32
  BeepOffTime :: u32
  LastOneKeyStatus :: u8
  DoorSelectFlag :: u8
  PowerLowMaxValue :: u16
  PowerShutValue :: u16
  CarVoltageType :: u8
  StatusCounts :: "nat \<Rightarrow> u8 \<times> u8"
  ExtCarCounts :: "nat \<Rightarrow> u8 \<times> u8"
  Define2Counts :: "nat \<Rightarrow> u8 \<times> u8"
  AlarmCounts :: "nat \<Rightarrow> u8 \<times> u8"
  DoorCountsP :: "u8 \<times> u8"
  DoorCountsN :: "u8 \<times> u8"
  PhoneKeyCounts :: "u8 \<times> u8"
  PowerLowCounts :: "u8 \<times> u8"
  PowerShutCounts :: "u8 \<times> u8"
  PowerAd :: ad_sum
  LoadAlarmCounts :: "u8 \<times> u8"
  LoadStatusCounts :: "u8 \<times> u8"
  LoadAd :: ad_sum

abbreviation STATUS_BIT_ACC :: nat where "STATUS_BIT_ACC \<equiv> 0"
abbreviation STATUS_BIT_FULL_LOAD1 :: nat where "STATUS_BIT_FULL_LOAD1 \<equiv> 8"
abbreviation STATUS_BIT_FULL_LOAD2 :: nat where "STATUS_BIT_FULL_LOAD2 \<equiv> 9"
abbreviation STATUS_BIT_DOOR1 :: nat where "STATUS_BIT_DOOR1 \<equiv> 13"
abbreviation STATUS_BIT_DOOR2 :: nat where "STATUS_BIT_DOOR2 \<equiv> 14"
abbreviation STATUS_BIT_GPS :: nat where "STATUS_BIT_GPS \<equiv> 18"
abbreviation STATUS_BIT_COMPASS :: nat where "STATUS_BIT_COMPASS \<equiv> 19"
abbreviation STATUS_BIT_GLONASS :: nat where "STATUS_BIT_GLONASS \<equiv> 20"
abbreviation STATUS_BIT_GALILEO :: nat where "STATUS_BIT_GALILEO \<equiv> 21"
abbreviation IO_STATUS_BIT_SLEEP :: nat where "IO_STATUS_BIT_SLEEP \<equiv> 1"
abbreviation ALARM_BIT_EMERGENCY :: nat where "ALARM_BIT_EMERGENCY \<equiv> 0"
abbreviation ALARM_BIT_OVER_SPEED :: nat where "ALARM_BIT_OVER_SPEED \<equiv> 1"
abbreviation ALARM_BIT_TIRED_DRIVE :: nat where "ALARM_BIT_TIRED_DRIVE \<equiv> 2"
abbreviation ALARM_BIT_ANT_SHUT :: nat where "ALARM_BIT_ANT_SHUT \<equiv> 5"
abbreviation ALARM_BIT_ANT_SHORT :: nat where "ALARM_BIT_ANT_SHORT \<equiv> 6"
abbreviation ALARM_BIT_POWER_LOW :: nat where "ALARM_BIT_POWER_LOW \<equiv> 7"
abbreviation ALARM_BIT_POWER_SHUT :: nat where "ALARM_BIT_POWER_SHUT \<equiv> 8"
abbreviation ALARM_BIT_TIRED_DRIVE_PRE_ALARM :: nat where "ALARM_BIT_TIRED_DRIVE_PRE_ALARM \<equiv> 14"
abbreviation DEFINE_BIT_25 :: nat where "DEFINE_BIT_25 \<equiv> 25"
abbreviation MIC_BIT_MAX :: nat where "MIC_BIT_MAX \<equiv> 3"
abbreviation SPEAKER_BIT_MAX :: nat where "SPEAKER_BIT_MAX \<equiv> 2"
abbreviation OVER_SPEED_BIT_MAX :: nat where "OVER_SPEED_BIT_MAX \<equiv> 5"
abbreviation OVER_TIME_BIT_MAX :: nat where "OVER_TIME_BIT_MAX \<equiv> 2"
abbreviation PRE_OVER_TIME_BIT_MAX :: nat where "PRE_OVER_TIME_BIT_MAX \<equiv> 2"
abbreviation RECORD_BIT_MAX :: nat where "RECORD_BIT_MAX \<equiv> 3"

subsection \<open>Bits of words\<close>

definition read_bit :: "nat \<Rightarrow> nat \<Rightarrow> u32 \<Rightarrow> u8" where
  "read_bit n b w = (if b < n then ucast (drop_bit b (w AND push_bit b 1)) else 0)"

definition write_bit :: "nat \<Rightarrow> nat \<Rightarrow> FlagStatus \<Rightarrow> 'a::len word \<Rightarrow> 'a word" where
  "write_bit n b state w =
     (if b < n then (case state of SET \<Rightarrow> w OR push_bit b 1 | RESET \<Rightarrow> w AND NOT (push_bit b 1)) else w)"

definition read_control :: "nat \<Rightarrow> nat \<Rightarrow> u8 \<Rightarrow> FlagStatus" where
  "read_control n b w =
     (if b < n then (if push_bit b 1 = (push_bit b 1 AND w) then SET else RESET) else RESET)"

definition Io_ReadStatus :: "io \<Rightarrow> u32" where "Io_ReadStatus s = Status s"

definition Io_ReadStatusBit :: "nat \<Rightarrow> io \<Rightarrow> u8" where "Io_ReadStatusBit b s = read_bit 32 b (Status s)"

definition Io_WriteStatusBit :: "nat \<Rightarrow> FlagStatus \<Rightarrow> io \<Rightarrow> io" where
  "Io_WriteStatusBit b state s = s\<lparr>Status := write_bit 32 b state (Status s)\<rparr>"

definition Io_ReadExtCarStatus :: "io \<Rightarrow> u32" where "Io_ReadExtCarStatus s = ExtCarStatus s"

definition Io_ReadExtCarStatusBit :: "nat \<Rightarrow> io \<Rightarrow> u8" where
  "Io_ReadExtCarStatusBit b s = read_bit 32 b (ExtCarStatus s)"

definition Io_WriteExtCarStatusBit :: "nat \<Rightarrow> FlagStatus \<Rightarrow> io \<Rightarrow> io" where
  "Io_WriteExtCarStatusBit b state s = s\<lparr>ExtCarStatus := write_bit 32 b state (ExtCarStatus s)\<rparr>"

definition Io_ReadIoStatus :: "io \<Rightarrow> u16" where "Io_ReadIoStatus s = ucast (IoStatus s)"

definition Io_ReadIoStatusBit :: "nat \<Rightarrow> io \<Rightarrow> u8" where "Io_ReadIoStatusBit b s = read_bit 16 b (IoStatus s)"

definition Io_WriteIoStatusBit :: "nat \<Rightarrow> FlagStatus \<Rightarrow> io \<Rightarrow> io" where
  "Io_WriteIoStatusBit b state s = s\<lparr>IoStatus := write_bit 16 b state (IoStatus s)\<rparr>"

definition Io_ReadSuoMeiStatus :: "io \<Rightarrow> u32" where "Io_ReadSuoMeiStatus s = SuoMeiStatus s"

definition Io_ReadSuoMeiStatusBit :: "nat \<Rightarrow> io \<Rightarrow> u8" where
  "Io_ReadSuoMeiStatusBit b s = read_bit 32 b (SuoMeiStatus s)"

definition Io_WriteSuoMeiStatusBit :: "nat \<Rightarrow> FlagStatus \<Rightarrow> io \<Rightarrow> io" where
  "Io_WriteSuoMeiStatusBit b state s = s\<lparr>SuoMeiStatus := write_bit 32 b state (SuoMeiStatus s)\<rparr>"

subsection \<open>Alarms and their mask\<close>

text \<open>\<open>HUOYUN_DEBUG_OPEN\<close> is not defined.\<close>

definition Io_ReadAlarmMaskBit :: "nat \<Rightarrow> io \<Rightarrow> u8" where
  "Io_ReadAlarmMaskBit b s =
     (if b < 32 then (if KeyAlarm s AND push_bit b 1 = push_bit b 1 then 0
                        else ucast (drop_bit b (AlarmMaskWord s AND push_bit b 1))) else 0)"

definition Io_ReadAlarm :: "io \<Rightarrow> u32" where "Io_ReadAlarm s = Alarm s AND NOT (AlarmMaskWord s)"

definition Io_ReadKeyAlarm :: "io \<Rightarrow> u32" where "Io_ReadKeyAlarm s = KeyAlarm s"

definition Io_ReadSelfDefine2 :: "io \<Rightarrow> u32" where
  "Io_ReadSelfDefine2 s = SelfDefine2 s AND NOT (SelfDefine2MaskWord s)"

definition Io_ReadSelfDefine2Bit :: "nat \<Rightarrow> io \<Rightarrow> u8" where
  "Io_ReadSelfDefine2Bit b s = read_bit 32 b (SelfDefine2 s AND NOT (SelfDefine2MaskWord s))"

definition Io_ReadAlarmBit :: "nat \<Rightarrow> io \<Rightarrow> u8" where
  "Io_ReadAlarmBit b s = read_bit 32 b (Alarm s AND NOT (AlarmMaskWord s))"

definition Io_ReadKeyAlarmBit :: "nat \<Rightarrow> io \<Rightarrow> u8" where "Io_ReadKeyAlarmBit b s = read_bit 32 b (KeyAlarm s)"

definition Io_WriteAlarmBit :: "nat \<Rightarrow> FlagStatus \<Rightarrow> io \<Rightarrow> io" where
  "Io_WriteAlarmBit b state s = s\<lparr>Alarm := write_bit 32 b state (Alarm s)\<rparr>"

definition Io_WriteKeyAlarmBit :: "nat \<Rightarrow> FlagStatus \<Rightarrow> io \<Rightarrow> io" where
  "Io_WriteKeyAlarmBit b state s = s\<lparr>KeyAlarm := write_bit 32 b state (KeyAlarm s)\<rparr>"

definition Io_WriteSelfDefine2Bit :: "nat \<Rightarrow> FlagStatus \<Rightarrow> io \<Rightarrow> io" where
  "Io_WriteSelfDefine2Bit b state s = s\<lparr>SelfDefine2 := write_bit 32 b state (SelfDefine2 s)\<rparr>"

subsection \<open>Words shared by several users\<close>

definition Io_ReadOverSpeedConrtolBit :: "nat \<Rightarrow> io \<Rightarrow> FlagStatus" where
  "Io_ReadOverSpeedConrtolBit b s = read_control OVER_SPEED_BIT_MAX b (OverSpeedControl s)"

definition Io_WriteOverSpeedConrtolBit :: "nat \<Rightarrow> FlagStatus \<Rightarrow> io \<Rightarrow> io" where
  "Io_WriteOverSpeedConrtolBit b state s =
     (let s1 = s\<lparr>OverSpeedControl := write_bit OVER_SPEED_BIT_MAX b state (OverSpeedControl s)\<rparr>
      in Io_WriteAlarmBit ALARM_BIT_OVER_SPEED (if 0 = OverSpeedControl s1 then RESET else SET) s1)"

definition Io_ReadPreOvertimeConrtolBit :: "nat \<Rightarrow> io \<Rightarrow> FlagStatus" where
  "Io_ReadPreOvertimeConrtolBit b s = read_control PRE_OVER_TIME_BIT_MAX b (PreOvertimeControl s)"

definition Io_WritePreOvertimeConrtolBit :: "nat \<Rightarrow> FlagStatus \<Rightarrow> io \<Rightarrow> io" where
  "Io_WritePreOvertimeConrtolBit b state s =
     (let s1 = s\<lparr>PreOvertimeControl := write_bit PRE_OVER_TIME_BIT_MAX b state (PreOvertimeControl s)\<rparr>
      in Io_WriteAlarmBit ALARM_BIT_TIRED_DRIVE_PRE_ALARM (if 0 = PreOvertimeControl s1 then RESET else SET) s1)"

definition Io_ReadOvertimeConrtolBit :: "nat \<Rightarrow> io \<Rightarrow> FlagStatus" where
  "Io_ReadOvertimeConrtolBit b s = read_control OVER_TIME_BIT_MAX b (OvertimeControl s)"

definition Io_WriteOvertimeConrtolBit :: "nat \<Rightarrow> FlagStatus \<Rightarrow> io \<Rightarrow> io" where
  "Io_WriteOvertimeConrtolBit b state s =
     (let s1 = s\<lparr>OvertimeControl := write_bit OVER_TIME_BIT_MAX b state (OvertimeControl s)\<rparr>
      in Io_WriteAlarmBit ALARM_BIT_TIRED_DRIVE (if 0 = OvertimeControl s1 then RESET else SET) s1)"

definition Io_WriteMicConrtolBit :: "nat \<Rightarrow> FlagStatus \<Rightarrow> io \<Rightarrow> io" where
  "Io_WriteMicConrtolBit b state s =
     (let s1 = s\<lparr>MicControl := write_bit MIC_BIT_MAX b state (MicControl s)\<rparr>
      in s1\<lparr>MicBaseOnOffFlag := if 0 = MicControl s1 then 0 else 1\<rparr>)"

definition Io_WriteSpeakerConrtolBit :: "nat \<Rightarrow> FlagStatus \<Rightarrow> io \<Rightarrow> io" where
  "Io_WriteSpeakerConrtolBit b state s =
     (let s1 = s\<lparr>SpeakerControl := write_bit SPEAKER_BIT_MAX b state (SpeakerControl s)\<rparr>
      in s1\<lparr>V_COL := 0 \<noteq> SpeakerControl s1\<rparr>)"

subsection \<open>Recording, kept in the FRAM\<close>

abbreviation FRAM_EMERGENCY_FLAG_ADDR :: u16 where "FRAM_EMERGENCY_FLAG_ADDR \<equiv> 75"
abbreviation FRAM_RECORD_CONTROL_ADDR :: u16 where "FRAM_RECORD_CONTROL_ADDR \<equiv> 77"
abbreviation FRAM_RECORD_CLOSE_ADDR :: u16 where "FRAM_RECORD_CLOSE_ADDR \<equiv> 79"
abbreviation FRAM_RECORD_OPEN_ADDR :: u16 where "FRAM_RECORD_OPEN_ADDR \<equiv> 81"

definition Io_ReadRecordConrtol :: "io \<Rightarrow> u8" where "Io_ReadRecordConrtol s = RecordControl s"

definition Io_ReadRecordConrtolBit :: "nat \<Rightarrow> io \<Rightarrow> FlagStatus" where
  "Io_ReadRecordConrtolBit b s = read_control RECORD_BIT_MAX b (RecordControl s)"

definition Io_WriteRecordConrtolBit :: "'f spi_bus \<Rightarrow> nat \<Rightarrow> FlagStatus \<Rightarrow> io \<times> u8 \<times> 'f \<Rightarrow> io \<times> u8 \<times> 'f" where
  "Io_WriteRecordConrtolBit bus b state = (\<lambda>(s, f).
     if b < RECORD_BIT_MAX
     then let s1 = s\<lparr>RecordControl := write_bit RECORD_BIT_MAX b state (RecordControl s)\<rparr>;
              f1 = (if 0 = RecordControl s1 then FRAM_BufferWrite bus FRAM_RECORD_CLOSE_ADDR [NOT (push_bit b 1)] 1 f
                    else if state = SET then FRAM_BufferWrite bus FRAM_RECORD_OPEN_ADDR [push_bit b 1] 1 f
                    else f)
          in (s1, FRAM_BufferWrite bus FRAM_RECORD_CONTROL_ADDR [RecordControl s1] 1 f1)
     else (s, f))"

definition Io_ClearAlarmWord :: "'f spi_bus \<Rightarrow> io \<times> u8 \<times> 'f \<Rightarrow> io \<times> u8 \<times> 'f" where
  "Io_ClearAlarmWord bus = (\<lambda>(s, f). (s\<lparr>Alarm := 0\<rparr>, FRAM_BufferWrite bus FRAM_EMERGENCY_FLAG_ADDR [0] 1 f))"

definition Io_ClearStatusWord :: "io \<Rightarrow> io" where "Io_ClearStatusWord s = s\<lparr>Status := 0\<rparr>"

definition Io_ClearExtCarStatusWord :: "io \<Rightarrow> io" where "Io_ClearExtCarStatusWord s = s\<lparr>ExtCarStatus := 0\<rparr>"

definition Io_GetCarVoltageType :: "io \<Rightarrow> u8" where "Io_GetCarVoltageType s = CarVoltageType s"

subsection \<open>Levels that count as active\<close>

definition Io_WriteStatusHighValidBit :: "nat \<Rightarrow> FlagStatus \<Rightarrow> io \<Rightarrow> io" where
  "Io_WriteStatusHighValidBit b state s = s\<lparr>StatusHighValid := write_bit 32 b state (StatusHighValid s)\<rparr>"

definition Io_WriteExtCarStatusHighValidBit :: "nat \<Rightarrow> FlagStatus \<Rightarrow> io \<Rightarrow> io" where
  "Io_WriteExtCarStatusHighValidBit b state s = s\<lparr>ExtCarStatusHighValid := write_bit 32 b state (ExtCarStatusHighValid s)\<rparr>"

definition Io_WriteSelfDefine2HighValidBit :: "nat \<Rightarrow> FlagStatus \<Rightarrow> io \<Rightarrow> io" where
  "Io_WriteSelfDefine2HighValidBit b state s = s\<lparr>SelfDefine2HighValid := write_bit 32 b state (SelfDefine2HighValid s)\<rparr>"

definition Io_WriteAlarmHighValidBit :: "nat \<Rightarrow> FlagStatus \<Rightarrow> io \<Rightarrow> io" where
  "Io_WriteAlarmHighValidBit b state s = s\<lparr>AlarmHighValid := write_bit 32 b state (AlarmHighValid s)\<rparr>"

definition Io_InitStatusHighValid :: "io \<Rightarrow> io" where
  "Io_InitStatusHighValid s =
     fold (\<lambda>b. Io_WriteStatusHighValidBit b SET) [STATUS_BIT_ACC, STATUS_BIT_DOOR1, STATUS_BIT_DOOR2] (s\<lparr>StatusHighValid := 0\<rparr>)"

text \<open>Side, near, brake, horn, far, left and right light, air conditioning.\<close>

definition Io_InitExtCarStatusHighValid :: "io \<Rightarrow> io" where
  "Io_InitExtCarStatusHighValid s = fold (\<lambda>b. Io_WriteExtCarStatusHighValidBit b SET) [7, 0, 4, 8, 1, 3, 2, 9] s"

definition Io_InitDefine2StatusHighValid :: "io \<Rightarrow> io" where "Io_InitDefine2StatusHighValid s = s"

definition Io_InitAlarmHighValid :: "io \<Rightarrow> io" where
  "Io_InitAlarmHighValid s =
     fold (\<lambda>b. Io_WriteAlarmHighValidBit b RESET) [ALARM_BIT_EMERGENCY, ALARM_BIT_ANT_SHORT] (s\<lparr>AlarmHighValid := 0xffffffff\<rparr>)"

text \<open>Beside this, \<open>Io_Init\<close> configures pins.\<close>

definition Io_Init :: "io \<Rightarrow> io" where
  "Io_Init s = Io_InitDefine2StatusHighValid (Io_InitAlarmHighValid (Io_InitExtCarStatusHighValid (Io_InitStatusHighValid s)))"

text \<open>The values the variables start with.\<close>

definition io_start :: io where
  "io_start = \<lparr>Status = 0, Alarm = 0, ExtCarStatus = 0, IoStatus = 0, SuoMeiStatus = 0, SelfDefine2 = 0, SelfDefine2MaskWord = 0,
     SelfDefine2HighValid = 0, KeyAlarm = 0, AlarmHighValid = 0xffffffff, StatusHighValid = 0, ExtCarStatusHighValid = 0,
     MicControl = 0, SpeakerControl = 0, OverSpeedControl = 0, OvertimeControl = 0, PreOvertimeControl = 0, RecordControl = 0,
     AlarmMaskWord = 0, AlarmPhotoSwitch = 0, AlarmPhotoStoreFlag = 0, StatusPhotoSwitch = 0, StatusPhotoStoreFlag = 0,
     MicBaseOnOffFlag = 0, V_COL = False, BUZZER = False, BeepOnOffFlag = 0, BeepOnTime = 0, BeepOffTime = 0,
     LastOneKeyStatus = 0, DoorSelectFlag = 0, PowerLowMaxValue = 0, PowerShutValue = 50, CarVoltageType = 0,
     StatusCounts = \<lambda>_. (0, 0), ExtCarCounts = \<lambda>_. (0, 0), Define2Counts = \<lambda>_. (0, 0), AlarmCounts = \<lambda>_. (0, 0),
     DoorCountsP = (0, 0), DoorCountsN = (0, 0), PhoneKeyCounts = (0, 0), PowerLowCounts = (0, 0), PowerShutCounts = (0, 0),
     PowerAd = \<lparr>AdSum = 0, AdMin = 0xffff, AdMax = 0, AdCount = 0\<rparr>, LoadAlarmCounts = (0, 0), LoadStatusCounts = (0, 0),
     LoadAd = \<lparr>AdSum = 0, AdMin = 0xffff, AdMax = 0, AdCount = 0\<rparr>\<rparr>"

subsection \<open>Facts on bits\<close>

lemma bit_write_bit: "bit (write_bit n b state w) i \<longleftrightarrow> (if i = b \<and> b < n \<and> b < LENGTH('a) then state = SET else bit w i)"
  for w :: "'a::len word"
  by (cases state) (auto simp: write_bit_def bit_simps dest: bit_imp_le_length)

lemma read_bit_bit: "b < n \<Longrightarrow> n \<le> 32 \<Longrightarrow> read_bit n b w = (if bit w b then 1 else 0)"
  unfolding read_bit_def by (auto intro!: bit_word_eqI simp: bit_simps)

lemma push_bit_1_and: "bit w b \<Longrightarrow> push_bit b 1 AND w = push_bit b 1" for w :: "'a::len word"
  by (rule bit_word_eqI) (auto simp: bit_simps)

lemma read_control_bit:
  assumes "b < n" "n \<le> 8"
  shows "read_control n b w = SET \<longleftrightarrow> bit w b"
proof -
  have "bit (push_bit b 1 :: u8) b" using assms by (simp add: bit_simps)
  then have "push_bit b 1 = (push_bit b 1 AND w) \<longleftrightarrow> bit w b"
    by (metis bit_and_iff push_bit_1_and)
  then show ?thesis using assms(1) by (simp add: read_control_def)
qed

end
