(* ===== verification/App_IoDetect.thy ===== *)
theory App_IoDetect
  imports App_IoWords App_Task
begin

text \<open>
  The periodic part of \<open>User/driver/src/Io.c\<close>: inputs are debounced by counters, voltages are averaged over ten samples and
  compared, and what is found is put into the status and alarm words. What is outside (pins, converters, the flags
  of other modules, the tick) is the parameter \<open>io_env\<close>. An index is below 32, as all callers have it.
\<close>

subsection \<open>The outside\<close>

datatype io_pin = DLIGHTI | LLIGHTI | BREAK | ACC | DOORI_N | DOORI_P | DOORI2 | XLIGHTI | RLIGHTI | BKHI | SWITCHI | HORNI
  | VIRBRATIONI | DETCT1I | GPS_OC | GPS_SC

datatype io_adc = ADC_EXTERN1 | ADC_MAIN_POWER

record io_env =
  GpioInGetState :: "io_pin \<Rightarrow> u8"
  Ad_GetValue :: "io_adc \<Rightarrow> u16"
  GpsOnOffFlag :: u8
  BBGNTestFlag :: u8
  BBXYTestFlag :: u8
  Timer_Val :: u32

subsection \<open>Debounced inputs\<close>

definition DetectStatusHighDelay :: "u8 list" where
  "DetectStatusHighDelay =
   [20, 0, 0, 0, 0, 0, 0, 0,
    0, 0, 0, 0, 0, 20, 20, 20,
    20, 20, 0, 0, 0, 0, 0, 0,
    0, 0, 0, 0, 0, 0, 0, 0]"

definition DetectStatusLowDelay :: "u8 list" where
  "DetectStatusLowDelay =
   [20, 0, 0, 0, 0, 0, 0, 0,
    0, 0, 0, 0, 0, 20, 20, 20,
    20, 20, 0, 0, 0, 0, 0, 0,
    0, 0, 0, 0, 0, 0, 0, 0]"

definition DetectExtCarStatusHighDelay :: "u8 list" where
  "DetectExtCarStatusHighDelay =
   [3, 3, 3, 3, 3, 20, 3, 3,
    3, 20, 0, 0, 0, 0, 0, 0,
    0, 0, 0, 0, 0, 0, 0, 0,
    0, 0, 0, 0, 0, 0, 0, 0]"

definition DetectExtCarStatusLowDelay :: "u8 list" where
  "DetectExtCarStatusLowDelay =
   [3, 3, 3, 3, 3, 20, 3, 3,
    3, 20, 0, 0, 0, 0, 0, 0,
    0, 0, 0, 0, 0, 0, 0, 0,
    0, 0, 0, 0, 0, 0, 0, 0]"

definition DetectAlarmHighDelay :: "u8 list" where
  "DetectAlarmHighDelay =
   [40, 0, 0, 0, 0, 20, 20, 0,
    0, 0, 0, 0, 0, 0, 0, 0,
    0, 0, 0, 0, 0, 0, 0, 0,
    0, 0, 0, 0, 0, 0, 0, 0]"

definition DetectAlarmLowDelay :: "u8 list" where
  "DetectAlarmLowDelay =
   [40, 0, 0, 0, 0, 20, 20, 0,
    0, 0, 0, 0, 0, 0, 0, 0,
    0, 0, 0, 0, 0, 0, 0, 0,
    0, 0, 0, 0, 0, 0, 0, 0]"

text \<open>The two counters of an input: one counts up to its limit and clears the other. The voltages use them as well.\<close>

definition count_up :: "u8 \<Rightarrow> u8 \<Rightarrow> u8" where
  "count_up lim n = (if n + 1 \<ge> lim then lim else n + 1)"

definition count_level :: "u8 \<Rightarrow> u8 \<Rightarrow> bool \<Rightarrow> u8 \<times> u8 \<Rightarrow> u8 \<times> u8" where
  "count_level hi lo high = (\<lambda>(HighCount, LowCount). if high then (count_up hi HighCount, 0) else (0, count_up lo LowCount))"

definition valid_bit :: "nat \<Rightarrow> u32 \<Rightarrow> bool" where
  "valid_bit index w \<longleftrightarrow> (ucast (drop_bit index (w AND push_bit index 1)) :: u8) = 1"

definition Io_DetectStatus :: "io_env \<Rightarrow> io_pin \<Rightarrow> nat \<Rightarrow> io \<Rightarrow> io" where
  "Io_DetectStatus env IoNum index s =
     (let hi = DetectStatusHighDelay ! index; lo = DetectStatusLowDelay ! index;
          c = count_level hi lo (GpioInGetState env IoNum = 1) (StatusCounts s index);
          s1 = s\<lparr>StatusCounts := (StatusCounts s)(index := c)\<rparr>;
          s2 = (if fst c \<ge> hi then Io_WriteStatusBit index (if valid_bit index (StatusHighValid s1) then SET else RESET) s1
                else if snd c \<ge> lo then Io_WriteStatusBit index (if valid_bit index (StatusHighValid s1) then RESET else SET) s1
                else s1)
      in if BBGNTestFlag env = 1 \<or> BBXYTestFlag env = 1
         then Io_WriteIoStatusBit IO_STATUS_BIT_SLEEP (if 1 = Io_ReadStatusBit STATUS_BIT_ACC s2 then RESET else SET) s2
         else s2)"

definition Io_DetectExtCarStatus :: "io_env \<Rightarrow> io_pin \<Rightarrow> nat \<Rightarrow> io \<Rightarrow> io" where
  "Io_DetectExtCarStatus env IoNum index s =
     (let hi = DetectExtCarStatusHighDelay ! index; lo = DetectExtCarStatusLowDelay ! index;
          c = count_level hi lo (GpioInGetState env IoNum = 1) (ExtCarCounts s index);
          s1 = s\<lparr>ExtCarCounts := (ExtCarCounts s)(index := c)\<rparr>
      in if fst c \<ge> hi then Io_WriteExtCarStatusBit index (if valid_bit index (ExtCarStatusHighValid s1) then SET else RESET) s1
         else if snd c \<ge> lo then Io_WriteExtCarStatusBit index (if valid_bit index (ExtCarStatusHighValid s1) then RESET else SET) s1
         else s1)"

definition Io_DetectDefine2Status :: "io_env \<Rightarrow> io_pin \<Rightarrow> nat \<Rightarrow> io \<Rightarrow> io" where
  "Io_DetectDefine2Status env IoNum index s =
     (let c = count_level 3 3 (GpioInGetState env IoNum = 1) (Define2Counts s index);
          s1 = s\<lparr>Define2Counts := (Define2Counts s)(index := c)\<rparr>
      in if fst c \<ge> 3 then Io_WriteSelfDefine2Bit index (if valid_bit index (SelfDefine2HighValid s1) then SET else RESET) s1
         else if snd c \<ge> 3 then Io_WriteSelfDefine2Bit index (if valid_bit index (SelfDefine2HighValid s1) then RESET else SET) s1
         else s1)"

text \<open>The emergency alarm is set here, and only the monitoring centre clears it. When the key is low, it is kept in the FRAM too.\<close>

definition Io_DetectAlarm :: "io_env \<Rightarrow> 'f spi_bus \<Rightarrow> io_pin \<Rightarrow> nat \<Rightarrow> io \<times> u8 \<times> 'f \<Rightarrow> io \<times> u8 \<times> 'f" where
  "Io_DetectAlarm env bus IoNum index = (\<lambda>(s, f).
     let hi = DetectAlarmHighDelay ! index; lo = DetectAlarmLowDelay ! index;
         c = count_level hi lo (GpioInGetState env IoNum = 1) (AlarmCounts s index);
         s1 = s\<lparr>AlarmCounts := (AlarmCounts s)(index := c)\<rparr>
     in if fst c \<ge> hi
        then (if valid_bit index (AlarmHighValid s1) then (Io_WriteAlarmBit index SET s1, f)
              else if ALARM_BIT_EMERGENCY = index then (s1, f)
              else (Io_WriteAlarmBit index RESET s1, f))
        else if snd c \<ge> lo
        then (if \<not> valid_bit index (AlarmHighValid s1)
              then (Io_WriteAlarmBit index SET s1,
                    if ALARM_BIT_EMERGENCY = index then FRAM_BufferWrite bus FRAM_EMERGENCY_FLAG_ADDR [1] 1 f else f)
              else if ALARM_BIT_EMERGENCY = index then (s1, f)
              else (Io_WriteAlarmBit index RESET s1, f))
        else (s1, f))"

definition Io_DetectFrontDoor :: "io_env \<Rightarrow> io \<Rightarrow> io" where
  "Io_DetectFrontDoor env s =
     (if 1 = DoorSelectFlag s
      then let c = count_level 3 3 (GpioInGetState env DOORI_P = 1) (DoorCountsP s); s1 = s\<lparr>DoorCountsP := c\<rparr>
           in if fst c \<ge> 3 then Io_WriteStatusBit STATUS_BIT_DOOR1 SET s1
              else if snd c \<ge> 3 then Io_WriteStatusBit STATUS_BIT_DOOR1 RESET s1 else s1
      else if 0 = DoorSelectFlag s
      then let c = count_level 3 3 (GpioInGetState env DOORI_N = 1) (DoorCountsN s); s1 = s\<lparr>DoorCountsN := c\<rparr>
           in if fst c \<ge> 3 then Io_WriteStatusBit STATUS_BIT_DOOR1 RESET s1
              else if snd c \<ge> 3 then Io_WriteStatusBit STATUS_BIT_DOOR1 SET s1 else s1
      else Io_WriteStatusBit STATUS_BIT_DOOR1 RESET s)"

definition Io_DetectPhoneKey :: "io_env \<Rightarrow> io \<Rightarrow> u8 \<times> io" where
  "Io_DetectPhoneKey env s =
     (let c = count_level 3 3 (GpioInGetState env VIRBRATIONI = 1) (PhoneKeyCounts s)
      in (if snd c \<ge> 3 then 1 else 0, s\<lparr>PhoneKeyCounts := c\<rparr>))"

subsection \<open>Voltages\<close>

definition ad_add :: "u16 \<Rightarrow> ad_sum \<Rightarrow> ad_sum" where
  "ad_add Ad a = \<lparr>AdSum = AdSum a + ucast Ad, AdMin = if AdMin a > Ad then Ad else AdMin a,
     AdMax = if AdMax a < Ad then Ad else AdMax a, AdCount = AdCount a + 1\<rparr>"

text \<open>The mean of ten samples without the least and the greatest, in tenths of a volt.\<close>

definition ad_volts :: "ad_sum \<Rightarrow> u32" where
  "ad_volts a = drop_bit 3 (AdSum a - ucast (AdMin a) - ucast (AdMax a)) * 33 * 9 div 0xfff"

definition ad_reset :: ad_sum where
  "ad_reset = \<lparr>AdSum = 0, AdMin = 0xffff, AdMax = 0, AdCount = 0\<rparr>"

text \<open>The alarms from a measured voltage: 15 times in a row.\<close>

definition power_low_alarm :: "u32 \<Rightarrow> io \<Rightarrow> io" where
  "power_low_alarm v s =
     (let c = count_level 15 15 (v < ucast (PowerLowMaxValue s) \<and> v > ucast (PowerShutValue s)) (PowerLowCounts s);
          s1 = s\<lparr>PowerLowCounts := c\<rparr>
      in if fst c \<ge> 15 then Io_WriteAlarmBit ALARM_BIT_POWER_SHUT RESET (Io_WriteAlarmBit ALARM_BIT_POWER_LOW SET s1)
         else if snd c \<ge> 15 then Io_WriteAlarmBit ALARM_BIT_POWER_LOW RESET s1 else s1)"

definition power_shut_alarm :: "u32 \<Rightarrow> io \<Rightarrow> io" where
  "power_shut_alarm v s =
     (let c = count_level 15 15 (v < ucast (PowerShutValue s)) (PowerShutCounts s);
          s1 = s\<lparr>PowerShutCounts := c\<rparr>
      in if fst c \<ge> 15 then Io_WriteAlarmBit ALARM_BIT_POWER_LOW RESET (Io_WriteAlarmBit ALARM_BIT_POWER_SHUT SET s1)
         else if snd c \<ge> 15 then Io_WriteAlarmBit ALARM_BIT_POWER_SHUT RESET s1 else s1)"

definition main_power_alarms :: "u32 \<Rightarrow> io \<Rightarrow> io" where
  "main_power_alarms v s = power_shut_alarm v (power_low_alarm v s)"

definition Io_DetectMainPower :: "io_env \<Rightarrow> io \<Rightarrow> io" where
  "Io_DetectMainPower env s =
     (let a = ad_add (Ad_GetValue env ADC_MAIN_POWER) (PowerAd s)
      in if AdCount a \<ge> 10 then (main_power_alarms (ad_volts a) s)\<lparr>PowerAd := ad_reset\<rparr> else s\<lparr>PowerAd := a\<rparr>)"

definition load_alarms :: "u32 \<Rightarrow> io \<Rightarrow> io" where
  "load_alarms v s =
     (let c = count_level 3 3 (v < 20 \<or> v > 45) (LoadAlarmCounts s);
          s1 = s\<lparr>LoadAlarmCounts := c\<rparr>;
          s2 = (if v < 20 \<or> v > 45 then s1
                else let d = count_level 3 3 (v > 20 \<and> v < 32) (LoadStatusCounts s1);
                         s3 = s1\<lparr>LoadStatusCounts := d\<rparr>
                     in if fst d = 3 then Io_WriteStatusBit STATUS_BIT_FULL_LOAD2 SET (Io_WriteStatusBit STATUS_BIT_FULL_LOAD1 SET s3)
                        else if snd d = 3 then Io_WriteStatusBit STATUS_BIT_FULL_LOAD2 RESET (Io_WriteStatusBit STATUS_BIT_FULL_LOAD1 RESET s3)
                        else s3)
      in if fst c = 3 then Io_WriteSelfDefine2Bit DEFINE_BIT_25 SET s2
         else if snd c = 3 then Io_WriteSelfDefine2Bit DEFINE_BIT_25 RESET s2 else s2)"

definition Io_DetectLoad :: "io_env \<Rightarrow> io \<Rightarrow> io" where
  "Io_DetectLoad env s =
     (let a = ad_add (Ad_GetValue env ADC_EXTERN1) (LoadAd s)
      in if AdCount a \<ge> 10 then (load_alarms (ad_volts a) s)\<lparr>LoadAd := ad_reset\<rparr> else s\<lparr>LoadAd := a\<rparr>)"

text \<open>\<open>Ad i\<close> is the \<open>i\<close>-th of the ten samples at power-on; above 19.0 V it is a 24 V system.\<close>

definition Io_PowerOnDetectMainPower :: "(nat \<Rightarrow> u16) \<Rightarrow> io \<Rightarrow> io" where
  "Io_PowerOnDetectMainPower Ad s =
     (if ad_volts (fold (\<lambda>i. ad_add (Ad i)) [0..<10] ad_reset) > 190
      then s\<lparr>CarVoltageType := 1, PowerLowMaxValue := 220\<rparr> else s\<lparr>CarVoltageType := 0, PowerLowMaxValue := 110\<rparr>)"

subsection \<open>Parameters and what outlives a restart\<close>

abbreviation E2_STATUS_PHOTO_SWITCH_ID :: u32 where "E2_STATUS_PHOTO_SWITCH_ID \<equiv> 0xf236"
abbreviation E2_STATUS_PHOTO_STORE_FLAG_ID :: u32 where "E2_STATUS_PHOTO_STORE_FLAG_ID \<equiv> 0xf237"

definition update_word :: "'c sfud \<Rightarrow> u32 \<Rightarrow> (u32 \<Rightarrow> io \<Rightarrow> io) \<Rightarrow> io \<times> 'c \<Rightarrow> (io \<times> 'c) option" where
  "update_word ops p f = (\<lambda>(s, c).
     case EepromPram_ReadPram ops p c of
       None \<Rightarrow> None
     | Some (n, Buffer, c1) \<Rightarrow> Some (if (ucast n :: u8) = 4 then f (Public_ConvertBufferToLong Buffer) s else s, c1))"

definition update_byte :: "'c sfud \<Rightarrow> u32 \<Rightarrow> (u8 \<Rightarrow> io \<Rightarrow> io) \<Rightarrow> io \<times> 'c \<Rightarrow> (io \<times> 'c) option" where
  "update_byte ops p f = (\<lambda>(s, c).
     case EepromPram_ReadPram ops p c of
       None \<Rightarrow> None
     | Some (n, Buffer, c1) \<Rightarrow> Some (if (ucast n :: u8) = 1 then f (Buffer ! 0) s else s, c1))"

definition update_emergency :: "'f spi_bus \<Rightarrow> io \<times> 'f \<Rightarrow> io \<times> 'f" where
  "update_emergency bus = (\<lambda>(s, f).
     let (n, Buffer, f1) = FRAM_BufferRead bus 1 FRAM_EMERGENCY_FLAG_ADDR f
     in (if n = 1 then Io_WriteAlarmBit ALARM_BIT_EMERGENCY (if Buffer ! 0 = 1 then SET else RESET) s else s, f1))"

definition update_record :: "'f spi_bus \<Rightarrow> io \<times> 'f \<Rightarrow> io \<times> 'f" where
  "update_record bus = (\<lambda>(s, f).
     let (n, Buffer, f1) = FRAM_BufferRead bus 1 FRAM_RECORD_CONTROL_ADDR f
     in (s\<lparr>RecordControl := if 1 \<noteq> n then 0 else Buffer ! 0\<rparr>, f1))"

definition update_gps_mode :: "u8 \<Rightarrow> io \<Rightarrow> io" where
  "update_gps_mode b s =
     fold (\<lambda>(m, i). Io_WriteStatusBit i (if m = (m AND b) then SET else RESET))
       [(1, STATUS_BIT_GPS), (2, STATUS_BIT_COMPASS), (4, STATUS_BIT_GLONASS), (8, STATUS_BIT_GALILEO)] s"

definition Io_UpdataPram :: "'c sfud \<Rightarrow> 'f spi_bus \<Rightarrow> io \<times> 'c \<times> 'f \<Rightarrow> (io \<times> 'c \<times> 'f) option" where
  "Io_UpdataPram ops bus = (\<lambda>(s, c, f). do {
     (s, c) \<leftarrow> update_word ops E2_KEY_FLAG_ID (\<lambda>w s. s\<lparr>KeyAlarm := w\<rparr>) (s, c);
     (s, c) \<leftarrow> update_word ops E2_ALARM_MASK_ID (\<lambda>w s. s\<lparr>AlarmMaskWord := w\<rparr>) (s, c);
     (s, c) \<leftarrow> update_word ops E2_ALARM_PHOTO_SWITCH_ID (\<lambda>w s. s\<lparr>AlarmPhotoSwitch := w\<rparr>) (s, c);
     (s, c) \<leftarrow> update_word ops E2_ALARM_PHOTO_STORE_FLAG_ID (\<lambda>w s. s\<lparr>AlarmPhotoStoreFlag := w\<rparr>) (s, c);
     (s, c) \<leftarrow> update_word ops E2_STATUS_PHOTO_SWITCH_ID (\<lambda>w s. s\<lparr>StatusPhotoSwitch := w\<rparr>) (s, c);
     (s, c) \<leftarrow> update_word ops E2_STATUS_PHOTO_STORE_FLAG_ID (\<lambda>w s. s\<lparr>StatusPhotoStoreFlag := w\<rparr>) (s, c);
     let (s, f) = update_emergency bus (s, f);
     (s, c) \<leftarrow> update_byte ops E2_DOOR_SET_ID (\<lambda>b s. s\<lparr>DoorSelectFlag := b\<rparr>) (s, c);
     let (s, f) = update_record bus (s, f);
     (s, c) \<leftarrow> update_byte ops E2_GPS_SET_MODE_ID update_gps_mode (s, c);
     Some (s, c, f) })"

subsection \<open>The task\<close>

abbreviation EV_CALLING :: u8 where "EV_CALLING \<equiv> 7"

text \<open>A released one-key call sets an event of the task scheduler.\<close>

definition Io_TimeTask :: "io_env \<Rightarrow> 'f spi_bus \<Rightarrow> io \<times> (u8 \<times> 'f) \<times> tasks \<Rightarrow> (io \<times> (u8 \<times> 'f) \<times> tasks) option" where
  "Io_TimeTask env bus = (\<lambda>(s, f, t). do {
     let s = Io_DetectExtCarStatus env BREAK 4 s;
     let s = Io_DetectStatus env ACC STATUS_BIT_ACC s;
     let Acc = Io_ReadStatusBit STATUS_BIT_ACC s;
     let s = Io_DetectExtCarStatus env BKHI 9 s;
     let (s, f) = (if 1 = GpsOnOffFlag env \<and> 1 = Acc
       then Io_DetectAlarm env bus GPS_SC ALARM_BIT_ANT_SHORT (Io_DetectAlarm env bus GPS_OC ALARM_BIT_ANT_SHUT (s, f)) else (s, f));
     let (s, f) = Io_DetectAlarm env bus SWITCHI ALARM_BIT_EMERGENCY (s, f);
     let s = Io_DetectExtCarStatus env DLIGHTI 1 s;
     let s = Io_DetectExtCarStatus env XLIGHTI 0 s;
     let s = Io_DetectExtCarStatus env DETCT1I 7 s;
     let s = Io_DetectExtCarStatus env LLIGHTI 3 s;
     let s = Io_DetectExtCarStatus env RLIGHTI 2 s;
     let s = Io_DetectExtCarStatus env HORNI 8 s;
     let s = Io_DetectStatus env DOORI2 STATUS_BIT_DOOR2 s;
     let s = Io_DetectFrontDoor env s;
     let (OneKeyStatus, s) = Io_DetectPhoneKey env s;
     t \<leftarrow> (if 0 = OneKeyStatus \<and> 1 = LastOneKeyStatus s then SetEvTask EV_CALLING t else Some t);
     let s = s\<lparr>LastOneKeyStatus := OneKeyStatus\<rparr>;
     let s = Io_DetectMainPower env s;
     let s = (if 1 = BeepOnOffFlag s \<and> Timer_Val env - BeepOnTime s \<ge> 100
              then s\<lparr>BUZZER := False, BeepOnOffFlag := 0, BeepOffTime := Timer_Val env\<rparr> else s);
     Some (s, f, t) })"

end
