(* ===== verification/App_IoDebounce.thy ===== *)
theory App_IoDebounce
  imports App_IoDetect
begin

text \<open>
  What a debounced input promises: its bit is the last level that was seen often enough in a row. The promise is a
  locale, proved once and interpreted on the four functions of \<open>Io.c\<close> that debounce.
\<close>

subsection \<open>The reference\<close>

text \<open>The history has the newest sample first; \<open>hi\<close> high or \<open>lo\<close> low samples in a row settle the level.\<close>

fun last_level :: "nat \<Rightarrow> nat \<Rightarrow> bool list \<Rightarrow> bool option" where
  "last_level hi lo [] = None"
| "last_level hi lo (b # bs) =
     (if (if b then hi else lo) \<le> length (takeWhile (\<lambda>x. x = b) (b # bs)) then Some b else last_level hi lo bs)"

definition history :: "('e \<Rightarrow> bool) \<Rightarrow> 'e list \<Rightarrow> bool list" where
  "history high es = rev (map high es)"

lemma history_simps [simp]: "history high [] = []" "history high (es @ [e]) = high e # history high es"
  by (simp_all add: history_def)

subsection \<open>Counters\<close>

lemma count_up_min:
  assumes "n \<le> lim" "lim < 255"
  shows "unat (count_up lim n) = min (unat lim) (Suc (unat n))"
proof -
  have "unat n < 255" using assms by (simp add: word_le_nat_alt word_less_nat_alt)
  then have "unat (n + 1) = Suc (unat n)" by (simp add: unat_word_ariths)
  then show ?thesis by (simp add: count_up_def word_le_nat_alt)
qed

text \<open>A counter whose limit is below 255 counts up to it. Counters within their limits stay there, and enough equal levels fill the one and clear the other.\<close>

definition within :: "u8 \<Rightarrow> u8 \<Rightarrow> u8 \<times> u8 \<Rightarrow> bool" where
  "within hi lo c \<longleftrightarrow> fst c \<le> hi \<and> snd c \<le> lo"

lemma count_level_within: "within hi lo c \<Longrightarrow> within hi lo (count_level hi lo b c)"
  by (cases c) (auto simp: within_def count_level_def count_up_def)

lemma count_level_steps:
  assumes "within hi lo c" "hi < 255" "lo < 255"
  shows "within hi lo ((count_level hi lo b ^^ k) c) \<and>
    (if b then unat (fst ((count_level hi lo b ^^ k) c)) = min (unat hi) (unat (fst c) + k)
     else unat (snd ((count_level hi lo b ^^ k) c)) = min (unat lo) (unat (snd c) + k)) \<and>
    (0 < k \<longrightarrow> (if b then snd else fst) ((count_level hi lo b ^^ k) c) = 0)"
proof (induction k)
  case 0
  then show ?case using assms by (auto simp: within_def word_le_nat_alt)
next
  case (Suc k)
  let ?c = "(count_level hi lo b ^^ k) c"
  obtain h l where c: "?c = (h, l)" by fastforce
  have w: "within hi lo (h, l)" using Suc c by simp
  then show ?case using Suc count_level_within[OF w, of b] c
    using assms(2,3) by (auto simp: count_level_def count_up_min within_def)
qed

lemma count_level_fills:
  assumes "within hi lo c" "hi < 255" "lo < 255" "unat (if b then hi else lo) \<le> k" "0 < k"
  shows "(count_level hi lo b ^^ k) c = (if b then (hi, 0) else (0, lo))"
  using count_level_steps[OF assms(1-3), of k b] assms(4,5)
  by (cases "(count_level hi lo b ^^ k) c") (auto simp: word_unat_eq_iff min_def split: if_splits)

subsection \<open>The contract\<close>

locale debouncer =
  fixes detect :: "'e \<Rightarrow> 's \<Rightarrow> 's" and high :: "'e \<Rightarrow> 's \<Rightarrow> bool" and works :: "'s \<Rightarrow> bool"
    and counts :: "'s \<Rightarrow> u8 \<times> u8" and highs :: "'s \<Rightarrow> u8" and lows :: "'s \<Rightarrow> u8"
    and valid :: "'s \<Rightarrow> bool" and level :: "'s \<Rightarrow> bool"
  assumes keeps: "works s \<Longrightarrow> works (detect e s) \<and> highs (detect e s) = highs s \<and> lows (detect e s) = lows s
      \<and> valid (detect e s) = valid s \<and> high e' (detect e s) = high e' s"
    and proper: "works s \<Longrightarrow> 0 < highs s \<and> highs s < 255 \<and> 0 < lows s \<and> lows s < 255"
    and counting: "works s \<Longrightarrow> counts (detect e s) = count_level (highs s) (lows s) (high e s) (counts s)"
    and deciding: "works s \<Longrightarrow> level (detect e s) = (if highs s \<le> fst (counts (detect e s)) then valid s
      else if lows s \<le> snd (counts (detect e s)) then \<not> valid s else level s)"
begin

lemma run_keeps:
  assumes "works s"
  shows "works (fold detect es s) \<and> highs (fold detect es s) = highs s \<and> lows (fold detect es s) = lows s
    \<and> valid (fold detect es s) = valid s \<and> high e' (fold detect es s) = high e' s"
  using assms by (induction es arbitrary: s) (simp_all add: keeps)

text \<open>The counters are the lengths of the last runs.\<close>

lemma run_counts:
  assumes "works s" "counts s = (0, 0)"
  shows "unat (fst (counts (fold detect es s))) = min (unat (highs s)) (length (takeWhile (\<lambda>x. x) (history (\<lambda>e. high e s) es)))
    \<and> unat (snd (counts (fold detect es s))) = min (unat (lows s)) (length (takeWhile Not (history (\<lambda>e. high e s) es)))"
proof (induction es rule: rev_induct)
  case (snoc e es)
  note k = run_keeps[OF assms(1), of es]
  obtain h l where c: "counts (fold detect es s) = (h, l)" by fastforce
  then have u: "h \<le> highs s" "l \<le> lows s" "highs s < 255" "lows s < 255" using snoc proper[OF assms(1)] by (simp_all add: word_le_nat_alt)
  have "counts (fold detect (es @ [e]) s) = count_level (highs s) (lows s) (high e s) (h, l)"
    using k counting[of "fold detect es s" e] c by simp
  then show ?case using snoc c u by (cases "high e s") (simp_all add: count_level_def count_up_min)
qed (simp add: assms(2))

theorem run_level:
  assumes "works s" "counts s = (0, 0)"
  shows "level (fold detect es s) = (case last_level (unat (highs s)) (unat (lows s)) (history (\<lambda>e. high e s) es) of
    None \<Rightarrow> level s | Some b \<Rightarrow> b = valid s)"
proof (induction es rule: rev_induct)
  case (snoc e es)
  let ?h = "history (\<lambda>e. high e s) es"
  note k = run_keeps[OF assms(1), of es]
  have p: "0 < unat (highs s)" "0 < unat (lows s)" using proper[OF assms(1)] by (simp_all add: word_less_nat_alt)
  from run_counts[OF assms, of "es @ [e]"]
  have c: "highs s \<le> fst (counts (fold detect (es @ [e]) s)) \<longleftrightarrow> high e s \<and> unat (highs s) \<le> Suc (length (takeWhile (\<lambda>x. x) ?h))"
    "lows s \<le> snd (counts (fold detect (es @ [e]) s)) \<longleftrightarrow> \<not> high e s \<and> unat (lows s) \<le> Suc (length (takeWhile Not ?h))"
    using p by (auto simp: word_le_nat_alt min_def)
  have "level (fold detect (es @ [e]) s) = (if highs s \<le> fst (counts (fold detect (es @ [e]) s)) then valid s
      else if lows s \<le> snd (counts (fold detect (es @ [e]) s)) then \<not> valid s else level (fold detect es s))"
    using k deciding[of "fold detect es s" e] by simp
  then show ?case unfolding c using snoc by (cases "high e s") (auto simp: eq_commute[of False] Not_eq_iff)
qed simp

end

subsection \<open>The inputs of the program\<close>

text \<open>An input is a pin with the index of its bit, and the state around it.\<close>

lemma valid_bit_bit: "i < 32 \<Longrightarrow> valid_bit i w \<longleftrightarrow> bit w i"
  using read_bit_bit[of i 32 w] by (simp add: valid_bit_def read_bit_def)

lemma delays:
  "i < 32 \<Longrightarrow> DetectStatusHighDelay ! i < 255 \<and> DetectStatusLowDelay ! i = DetectStatusHighDelay ! i"
  "i < 32 \<Longrightarrow> DetectExtCarStatusHighDelay ! i < 255 \<and> DetectExtCarStatusLowDelay ! i = DetectExtCarStatusHighDelay ! i"
  "i < 32 \<Longrightarrow> DetectAlarmHighDelay ! i < 255 \<and> DetectAlarmLowDelay ! i = DetectAlarmHighDelay ! i"
proof -
  have all: "P (xs ! i)" if "i < 32" "length xs = 32" "\<forall>x\<in>set xs. P x" for i P and xs :: "u8 list" using that by simp
  show "i < 32 \<Longrightarrow> DetectStatusHighDelay ! i < 255 \<and> DetectStatusLowDelay ! i = DetectStatusHighDelay ! i"
    using all[of i DetectStatusHighDelay "\<lambda>x. x < 255"] by (simp add: DetectStatusHighDelay_def DetectStatusLowDelay_def)
  show "i < 32 \<Longrightarrow> DetectExtCarStatusHighDelay ! i < 255 \<and> DetectExtCarStatusLowDelay ! i = DetectExtCarStatusHighDelay ! i"
    using all[of i DetectExtCarStatusHighDelay "\<lambda>x. x < 255"] by (simp add: DetectExtCarStatusHighDelay_def DetectExtCarStatusLowDelay_def)
  show "i < 32 \<Longrightarrow> DetectAlarmHighDelay ! i < 255 \<and> DetectAlarmLowDelay ! i = DetectAlarmHighDelay ! i"
    using all[of i DetectAlarmHighDelay "\<lambda>x. x < 255"] by (simp add: DetectAlarmHighDelay_def DetectAlarmLowDelay_def)
qed

definition status_input :: "io_env \<Rightarrow> io_pin \<times> nat \<times> io \<Rightarrow> io_pin \<times> nat \<times> io" where
  "status_input env = (\<lambda>(pin, i, s). (pin, i, Io_DetectStatus env pin i s))"

definition ext_car_input :: "io_env \<Rightarrow> io_pin \<times> nat \<times> io \<Rightarrow> io_pin \<times> nat \<times> io" where
  "ext_car_input env = (\<lambda>(pin, i, s). (pin, i, Io_DetectExtCarStatus env pin i s))"

definition define2_input :: "io_env \<Rightarrow> io_pin \<times> nat \<times> io \<Rightarrow> io_pin \<times> nat \<times> io" where
  "define2_input env = (\<lambda>(pin, i, s). (pin, i, Io_DetectDefine2Status env pin i s))"

definition alarm_input :: "io_env \<Rightarrow> io_pin \<times> nat \<times> 'f spi_bus \<times> io \<times> u8 \<times> 'f \<Rightarrow> io_pin \<times> nat \<times> 'f spi_bus \<times> io \<times> u8 \<times> 'f" where
  "alarm_input env = (\<lambda>(pin, i, bus, sf). (pin, i, bus, Io_DetectAlarm env bus pin i sf))"

definition pin_high :: "io_env \<Rightarrow> io_pin \<times> 'a \<Rightarrow> bool" where
  "pin_high env = (\<lambda>(pin, _). GpioInGetState env pin = 1)"

lemma Io_Write_simps:
  "Status (Io_WriteStatusBit b x s) = write_bit 32 b x (Status s)" "StatusHighValid (Io_WriteStatusBit b x s) = StatusHighValid s"
  "StatusCounts (Io_WriteStatusBit b x s) = StatusCounts s"
  "Status (Io_WriteIoStatusBit b x s) = Status s" "StatusHighValid (Io_WriteIoStatusBit b x s) = StatusHighValid s"
  "StatusCounts (Io_WriteIoStatusBit b x s) = StatusCounts s"
  "ExtCarStatus (Io_WriteExtCarStatusBit b x s) = write_bit 32 b x (ExtCarStatus s)"
  "ExtCarStatusHighValid (Io_WriteExtCarStatusBit b x s) = ExtCarStatusHighValid s"
  "ExtCarCounts (Io_WriteExtCarStatusBit b x s) = ExtCarCounts s"
  "SelfDefine2 (Io_WriteSelfDefine2Bit b x s) = write_bit 32 b x (SelfDefine2 s)"
  "SelfDefine2HighValid (Io_WriteSelfDefine2Bit b x s) = SelfDefine2HighValid s"
  "Define2Counts (Io_WriteSelfDefine2Bit b x s) = Define2Counts s"
  "Alarm (Io_WriteAlarmBit b x s) = write_bit 32 b x (Alarm s)" "AlarmHighValid (Io_WriteAlarmBit b x s) = AlarmHighValid s"
  "AlarmCounts (Io_WriteAlarmBit b x s) = AlarmCounts s"
  by (simp_all add: Io_WriteStatusBit_def Io_WriteIoStatusBit_def Io_WriteExtCarStatusBit_def Io_WriteSelfDefine2Bit_def Io_WriteAlarmBit_def)

lemma Io_DetectStatus_fields:
  assumes "i < 32"
  shows "StatusHighValid (Io_DetectStatus env pin i s) = StatusHighValid s"
    "StatusCounts (Io_DetectStatus env pin i s) = (StatusCounts s)(i := count_level (DetectStatusHighDelay ! i) (DetectStatusLowDelay ! i)
       (GpioInGetState env pin = 1) (StatusCounts s i))"
    "bit (Status (Io_DetectStatus env pin i s)) i \<longleftrightarrow>
      (if DetectStatusHighDelay ! i \<le> fst (StatusCounts (Io_DetectStatus env pin i s) i) then bit (StatusHighValid s) i
       else if DetectStatusLowDelay ! i \<le> snd (StatusCounts (Io_DetectStatus env pin i s) i) then \<not> bit (StatusHighValid s) i else bit (Status s) i)"
  using assms by (simp_all add: Io_DetectStatus_def Let_def Io_Write_simps bit_write_bit valid_bit_bit)

lemma Io_DetectExtCarStatus_fields:
  assumes "i < 32"
  shows "ExtCarStatusHighValid (Io_DetectExtCarStatus env pin i s) = ExtCarStatusHighValid s"
    "ExtCarCounts (Io_DetectExtCarStatus env pin i s) = (ExtCarCounts s)(i := count_level (DetectExtCarStatusHighDelay ! i)
       (DetectExtCarStatusLowDelay ! i) (GpioInGetState env pin = 1) (ExtCarCounts s i))"
    "bit (ExtCarStatus (Io_DetectExtCarStatus env pin i s)) i \<longleftrightarrow>
      (if DetectExtCarStatusHighDelay ! i \<le> fst (ExtCarCounts (Io_DetectExtCarStatus env pin i s) i) then bit (ExtCarStatusHighValid s) i
       else if DetectExtCarStatusLowDelay ! i \<le> snd (ExtCarCounts (Io_DetectExtCarStatus env pin i s) i)
         then \<not> bit (ExtCarStatusHighValid s) i else bit (ExtCarStatus s) i)"
  using assms by (simp_all add: Io_DetectExtCarStatus_def Let_def Io_Write_simps bit_write_bit valid_bit_bit)

lemma Io_DetectDefine2Status_fields:
  assumes "i < 32"
  shows "SelfDefine2HighValid (Io_DetectDefine2Status env pin i s) = SelfDefine2HighValid s"
    "Define2Counts (Io_DetectDefine2Status env pin i s) = (Define2Counts s)(i := count_level 3 3 (GpioInGetState env pin = 1) (Define2Counts s i))"
    "bit (SelfDefine2 (Io_DetectDefine2Status env pin i s)) i \<longleftrightarrow>
      (if 3 \<le> fst (Define2Counts (Io_DetectDefine2Status env pin i s) i) then bit (SelfDefine2HighValid s) i
       else if 3 \<le> snd (Define2Counts (Io_DetectDefine2Status env pin i s) i) then \<not> bit (SelfDefine2HighValid s) i else bit (SelfDefine2 s) i)"
  using assms by (simp_all add: Io_DetectDefine2Status_def Let_def Io_Write_simps bit_write_bit valid_bit_bit)

lemma Io_DetectAlarm_fields:
  assumes "i < 32"
  shows "AlarmHighValid (fst (Io_DetectAlarm env bus pin i sf)) = AlarmHighValid (fst sf)"
    "AlarmCounts (fst (Io_DetectAlarm env bus pin i sf)) = (AlarmCounts (fst sf))(i := count_level (DetectAlarmHighDelay ! i)
       (DetectAlarmLowDelay ! i) (GpioInGetState env pin = 1) (AlarmCounts (fst sf) i))"
    "bit (Alarm (fst (Io_DetectAlarm env bus pin i sf))) j \<longleftrightarrow>
      (if j \<noteq> i then bit (Alarm (fst sf)) j
       else if DetectAlarmHighDelay ! i \<le> fst (AlarmCounts (fst (Io_DetectAlarm env bus pin i sf)) i)
         then bit (AlarmHighValid (fst sf)) i \<or> i = ALARM_BIT_EMERGENCY \<and> bit (Alarm (fst sf)) i
       else if DetectAlarmLowDelay ! i \<le> snd (AlarmCounts (fst (Io_DetectAlarm env bus pin i sf)) i)
         then \<not> bit (AlarmHighValid (fst sf)) i \<or> i = ALARM_BIT_EMERGENCY \<and> bit (Alarm (fst sf)) i
       else bit (Alarm (fst sf)) i)"
  using assms by (simp_all add: Io_DetectAlarm_def split_beta Let_def Io_Write_simps bit_write_bit valid_bit_bit)

lemma Io_DetectFrontDoor_fields:
  assumes "DoorSelectFlag s = 0 \<or> DoorSelectFlag s = 1"
  shows "DoorSelectFlag (Io_DetectFrontDoor env s) = DoorSelectFlag s"
    "DoorCountsP (Io_DetectFrontDoor env s) =
      (if DoorSelectFlag s = 1 then count_level 3 3 (GpioInGetState env DOORI_P = 1) (DoorCountsP s) else DoorCountsP s)"
    "DoorCountsN (Io_DetectFrontDoor env s) =
      (if DoorSelectFlag s = 0 then count_level 3 3 (GpioInGetState env DOORI_N = 1) (DoorCountsN s) else DoorCountsN s)"
    "bit (Status (Io_DetectFrontDoor env s)) STATUS_BIT_DOOR1 \<longleftrightarrow>
      (let c = (if DoorSelectFlag s = 1 then DoorCountsP (Io_DetectFrontDoor env s) else DoorCountsN (Io_DetectFrontDoor env s))
       in if 3 \<le> fst c then DoorSelectFlag s = 1 else if 3 \<le> snd c then DoorSelectFlag s = 0 else bit (Status s) STATUS_BIT_DOOR1)"
  using assms by (auto simp: Io_DetectFrontDoor_def Let_def Io_WriteStatusBit_def bit_write_bit)

interpretation status: debouncer status_input pin_high "\<lambda>(_, i, _). i < 32 \<and> 0 < DetectStatusHighDelay ! i"
  "\<lambda>(_, i, s). StatusCounts s i" "\<lambda>(_, i, _). DetectStatusHighDelay ! i" "\<lambda>(_, i, _). DetectStatusLowDelay ! i"
  "\<lambda>(_, i, s). bit (StatusHighValid s) i" "\<lambda>(_, i, s). bit (Status s) i"
  by unfold_locales (auto simp: status_input_def pin_high_def delays Io_DetectStatus_fields)

interpretation ext_car: debouncer ext_car_input pin_high "\<lambda>(_, i, _). i < 32 \<and> 0 < DetectExtCarStatusHighDelay ! i"
  "\<lambda>(_, i, s). ExtCarCounts s i" "\<lambda>(_, i, _). DetectExtCarStatusHighDelay ! i" "\<lambda>(_, i, _). DetectExtCarStatusLowDelay ! i"
  "\<lambda>(_, i, s). bit (ExtCarStatusHighValid s) i" "\<lambda>(_, i, s). bit (ExtCarStatus s) i"
  by unfold_locales (auto simp: ext_car_input_def pin_high_def delays Io_DetectExtCarStatus_fields)

interpretation define2: debouncer define2_input pin_high "\<lambda>(_, i, _). i < 32"
  "\<lambda>(_, i, s). Define2Counts s i" "\<lambda>_. 3" "\<lambda>_. 3" "\<lambda>(_, i, s). bit (SelfDefine2HighValid s) i" "\<lambda>(_, i, s). bit (SelfDefine2 s) i"
  by unfold_locales (auto simp: define2_input_def pin_high_def Io_DetectDefine2Status_fields)

text \<open>Of the alarms all but the emergency are debounced like this.\<close>

interpretation alarm: debouncer alarm_input pin_high "\<lambda>(_, i, _). 0 < i \<and> i < 32 \<and> 0 < DetectAlarmHighDelay ! i"
  "\<lambda>(_, i, _, sf). AlarmCounts (fst sf) i" "\<lambda>(_, i, _). DetectAlarmHighDelay ! i" "\<lambda>(_, i, _). DetectAlarmLowDelay ! i"
  "\<lambda>(_, i, _, sf). bit (AlarmHighValid (fst sf)) i" "\<lambda>(_, i, _, sf). bit (Alarm (fst sf)) i"
  by unfold_locales (auto simp: alarm_input_def pin_high_def delays Io_DetectAlarm_fields)

text \<open>The front door has a low-active and a high-active wire, of which a parameter selects one.\<close>

interpretation front_door: debouncer Io_DetectFrontDoor
  "\<lambda>env s. GpioInGetState env (if DoorSelectFlag s = 1 then DOORI_P else DOORI_N) = 1" "\<lambda>s. DoorSelectFlag s = 0 \<or> DoorSelectFlag s = 1"
  "\<lambda>s. if DoorSelectFlag s = 1 then DoorCountsP s else DoorCountsN s" "\<lambda>_. 3" "\<lambda>_. 3"
  "\<lambda>s. DoorSelectFlag s = 1" "\<lambda>s. bit (Status s) STATUS_BIT_DOOR1"
  by unfold_locales (auto simp: Io_DetectFrontDoor_fields Let_def)

end
