(* ===== verification/App_IoState.thy ===== *)
theory App_IoState
  imports App_IoDebounce
begin

text \<open>
  What the states of \<open>Io.c\<close> keep: the words shared by several users (a locale, interpreted on the five of them), the two
  alarms of the main power, and the agreement of the memory with the FRAM, over any run of the program's operations.
\<close>

subsection \<open>Words shared by several users\<close>

text \<open>The switch is on while one of the users wants it to be.\<close>

locale shared_switch =
  fixes put :: "nat \<Rightarrow> FlagStatus \<Rightarrow> 's \<Rightarrow> 's" and control :: "'s \<Rightarrow> u8" and users :: nat and on :: "'s \<Rightarrow> bool"
  assumes control: "control (put b x s) = write_bit users b x (control s)"
    and on: "on (put b x s) \<longleftrightarrow> control (put b x s) \<noteq> 0"
    and users: "users \<le> 8"
begin

lemma run_control:
  assumes "control s = 0"
  shows "bit (control (fold (\<lambda>(b, x). put b x) ws s)) b \<longleftrightarrow> b < users \<and> last_write fst ws b = Some (b, SET)"
proof (induction ws rule: rev_induct)
  case (snoc w ws)
  obtain b' x where w: "w = (b', x)" by (cases w)
  have "b < users \<Longrightarrow> b < LENGTH(8)" using users by simp
  then show ?case using snoc by (auto simp: w control bit_write_bit)
qed (simp add: assms)

theorem run_on:
  assumes "control s = 0" "ws \<noteq> []"
  shows "on (fold (\<lambda>(b, x). put b x) ws s) \<longleftrightarrow> (\<exists>b<users. last_write fst ws b = Some (b, SET))"
proof -
  obtain vs b x where ws: "ws = vs @ [(b, x)]" using assms(2) by (cases ws rule: rev_cases) auto
  have "on (fold (\<lambda>(b, x). put b x) ws s) \<longleftrightarrow> control (fold (\<lambda>(b, x). put b x) ws s) \<noteq> 0" by (simp add: ws on)
  also have "\<dots> \<longleftrightarrow> (\<exists>b. bit (control (fold (\<lambda>(b, x). put b x) ws s)) b)" by (metis bit_0_eq bit_word_eqI bot_apply bot_bool_def)
  finally show ?thesis unfolding run_control[OF assms(1)] by blast
qed

end

lemma Io_WriteAlarmBit_simps [simp]:
  "OverSpeedControl (Io_WriteAlarmBit b x s) = OverSpeedControl s" "OvertimeControl (Io_WriteAlarmBit b x s) = OvertimeControl s"
  "PreOvertimeControl (Io_WriteAlarmBit b x s) = PreOvertimeControl s" "RecordControl (Io_WriteAlarmBit b x s) = RecordControl s"
  "Alarm (Io_WriteAlarmBit b x s) = write_bit 32 b x (Alarm s)"
  by (simp_all add: Io_WriteAlarmBit_def)

interpretation over_speed: shared_switch Io_WriteOverSpeedConrtolBit OverSpeedControl OVER_SPEED_BIT_MAX "\<lambda>s. bit (Alarm s) ALARM_BIT_OVER_SPEED"
  by unfold_locales (simp_all add: Io_WriteOverSpeedConrtolBit_def Let_def bit_write_bit)

interpretation overtime: shared_switch Io_WriteOvertimeConrtolBit OvertimeControl OVER_TIME_BIT_MAX "\<lambda>s. bit (Alarm s) ALARM_BIT_TIRED_DRIVE"
  by unfold_locales (simp_all add: Io_WriteOvertimeConrtolBit_def Let_def bit_write_bit)

interpretation pre_overtime: shared_switch Io_WritePreOvertimeConrtolBit PreOvertimeControl PRE_OVER_TIME_BIT_MAX
  "\<lambda>s. bit (Alarm s) ALARM_BIT_TIRED_DRIVE_PRE_ALARM"
  by unfold_locales (simp_all add: Io_WritePreOvertimeConrtolBit_def Let_def bit_write_bit)

interpretation mic: shared_switch Io_WriteMicConrtolBit MicControl MIC_BIT_MAX "\<lambda>s. MicBaseOnOffFlag s = 1"
  by unfold_locales (simp_all add: Io_WriteMicConrtolBit_def Let_def)

interpretation speaker: shared_switch Io_WriteSpeakerConrtolBit SpeakerControl SPEAKER_BIT_MAX V_COL
  by unfold_locales (simp_all add: Io_WriteSpeakerConrtolBit_def Let_def)

subsection \<open>The main power\<close>

lemmas main_power_defs = main_power_alarms_def power_low_alarm_def power_shut_alarm_def Let_def Io_WriteAlarmBit_def

lemma main_power_alarms_fields:
  "PowerAd (main_power_alarms v s) = PowerAd s" "PowerLowMaxValue (main_power_alarms v s) = PowerLowMaxValue s"
  "PowerShutValue (main_power_alarms v s) = PowerShutValue s"
  "PowerLowCounts (main_power_alarms v s) =
    count_level 15 15 (v < ucast (PowerLowMaxValue s) \<and> v > ucast (PowerShutValue s)) (PowerLowCounts s)"
  "PowerShutCounts (main_power_alarms v s) = count_level 15 15 (v < ucast (PowerShutValue s)) (PowerShutCounts s)"
  by (simp_all add: main_power_defs)

text \<open>What one measurement does to the two alarms and the others.\<close>

lemma main_power_alarms_bits:
  fixes v s
  defines "c \<equiv> count_level 15 15 (v < ucast (PowerLowMaxValue s) \<and> v > ucast (PowerShutValue s)) (PowerLowCounts s)"
    and "d \<equiv> count_level 15 15 (v < ucast (PowerShutValue s)) (PowerShutCounts s)"
  shows "bit (Alarm (main_power_alarms v s)) ALARM_BIT_POWER_LOW \<longleftrightarrow>
      \<not> 15 \<le> fst d \<and> (15 \<le> fst c \<or> \<not> 15 \<le> snd c \<and> bit (Alarm s) ALARM_BIT_POWER_LOW)"
    "bit (Alarm (main_power_alarms v s)) ALARM_BIT_POWER_SHUT \<longleftrightarrow>
      15 \<le> fst d \<or> \<not> 15 \<le> snd d \<and> \<not> 15 \<le> fst c \<and> bit (Alarm s) ALARM_BIT_POWER_SHUT"
    "i \<noteq> ALARM_BIT_POWER_LOW \<Longrightarrow> i \<noteq> ALARM_BIT_POWER_SHUT \<Longrightarrow> bit (Alarm (main_power_alarms v s)) i = bit (Alarm s) i"
  unfolding c_def d_def by (simp_all add: main_power_defs bit_write_bit)

text \<open>Ten equal samples are one measurement.\<close>

definition volts_of :: "u16 \<Rightarrow> nat" where
  "volts_of x = unat x * 297 div 4095"

lemma ad_volts_constant:
  assumes "x \<le> 0xfff"
  shows "unat (ad_volts ((ad_add x ^^ 10) ad_reset)) = volts_of x"
proof -
  have x: "unat x \<le> 4095" using assms by (simp add: word_le_nat_alt)
  have u: "unat (ucast x :: u32) = unat x" using x by (simp add: unsigned_ucast_eq take_bit_nat_eq_self)
  let ?a = "(ad_add x ^^ 10) ad_reset"
  have le: "x \<le> 0xffff" using x by (simp add: word_le_nat_alt)
  have a: "AdMin ?a = x" "AdMax ?a = x" "AdSum ?a = 10 * ucast x"
    using le by (simp_all add: ad_add_def ad_reset_def numeral_eq_Suc word_gt_0)
  have "AdSum ?a - ucast (AdMin ?a) - ucast (AdMax ?a) = 8 * (ucast x :: u32)" unfolding a by simp
  moreover have "unat (8 * (ucast x :: u32)) = 8 * unat x" using x by (simp add: unat_word_ariths u)
  then have "drop_bit 3 (8 * (ucast x :: u32)) = ucast x" by (simp add: word_unat_eq_iff unat_drop_bit_eq drop_bit_eq_div u unat_div)
  moreover have "unat (ucast x * 33 * 9 div 0xfff :: u32) = volts_of x"
    using x by (simp add: unat_div unat_word_ariths u volts_of_def)
  ultimately show ?thesis by (simp add: ad_volts_def)
qed

lemma main_power_alarms_PowerAd: "main_power_alarms v (s\<lparr>PowerAd := a\<rparr>) = (main_power_alarms v s)\<lparr>PowerAd := a\<rparr>"
proof -
  have "power_low_alarm v (s\<lparr>PowerAd := a\<rparr>) = (power_low_alarm v s)\<lparr>PowerAd := a\<rparr>" for s
    by (simp add: power_low_alarm_def Let_def Io_WriteAlarmBit_def)
  moreover have "power_shut_alarm v (s\<lparr>PowerAd := a\<rparr>) = (power_shut_alarm v s)\<lparr>PowerAd := a\<rparr>" for s
    by (simp add: power_shut_alarm_def Let_def Io_WriteAlarmBit_def)
  ultimately show ?thesis by (simp add: main_power_alarms_def)
qed

lemma Io_DetectMainPower_measures:
  assumes "PowerAd s = ad_reset" "Ad_GetValue env ADC_MAIN_POWER = x"
  shows "(Io_DetectMainPower env ^^ 10) s = main_power_alarms (ad_volts ((ad_add x ^^ 10) ad_reset)) s"
proof -
  have c: "AdCount ((ad_add x ^^ k) ad_reset) = of_nat k" for k by (induction k) (simp_all add: ad_add_def ad_reset_def add.commute)
  have p: "PowerAd s' = (ad_add x ^^ k) ad_reset \<Longrightarrow> k < 9 \<Longrightarrow> Io_DetectMainPower env s' = s'\<lparr>PowerAd := (ad_add x ^^ Suc k) ad_reset\<rparr>" for s' k
    using c[of "Suc k"] assms(2) by (simp add: Io_DetectMainPower_def Let_def word_le_nat_alt unat_of_nat del: of_nat_Suc)
  have nine: "k < 10 \<Longrightarrow> (Io_DetectMainPower env ^^ k) s = s\<lparr>PowerAd := (ad_add x ^^ k) ad_reset\<rparr>" for k
  proof (induction k)
    case 0
    have "s = s\<lparr>PowerAd := PowerAd s\<rparr>" by simp
    then show ?case using assms(1) by simp
  next
    case (Suc k)
    then show ?case using p[of "s\<lparr>PowerAd := (ad_add x ^^ k) ad_reset\<rparr>" k] by simp
  qed
  let ?v = "ad_volts ((ad_add x ^^ 10) ad_reset)"
  have "(Io_DetectMainPower env ^^ Suc 9) s = Io_DetectMainPower env (s\<lparr>PowerAd := (ad_add x ^^ 9) ad_reset\<rparr>)"
    unfolding funpow.simps(2) comp_apply using nine[of 9] by (simp only: less_numeral_extra numeral_less_iff rel_simps)
  also have "\<dots> = (main_power_alarms (ad_volts ((ad_add x ^^ Suc 9) ad_reset)) s)\<lparr>PowerAd := ad_reset\<rparr>"
    using c[of "Suc 9"] assms(2) unfolding funpow.simps(2) comp_apply by (simp add: Io_DetectMainPower_def Let_def main_power_alarms_PowerAd)
  also have "\<dots> = main_power_alarms ?v (s\<lparr>PowerAd := PowerAd s\<rparr>)" unfolding main_power_alarms_PowerAd assms(1) by simp
  finally show ?thesis by simp
qed

lemma main_power_alarms_run:
  fixes v :: u32
  shows
  "PowerAd ((main_power_alarms v ^^ k) s) = PowerAd s \<and> PowerLowMaxValue ((main_power_alarms v ^^ k) s) = PowerLowMaxValue s
   \<and> PowerShutValue ((main_power_alarms v ^^ k) s) = PowerShutValue s
   \<and> PowerLowCounts ((main_power_alarms v ^^ k) s) =
      (count_level 15 15 (v < ucast (PowerLowMaxValue s) \<and> v > ucast (PowerShutValue s)) ^^ k) (PowerLowCounts s)
   \<and> PowerShutCounts ((main_power_alarms v ^^ k) s) = (count_level 15 15 (v < ucast (PowerShutValue s)) ^^ k) (PowerShutCounts s)"
  by (induction k) (simp_all add: main_power_alarms_fields)

lemma Io_DetectMainPower_run:
  assumes "PowerAd s = ad_reset" "Ad_GetValue env ADC_MAIN_POWER = x"
  shows "(Io_DetectMainPower env ^^ (10 * k)) s = (main_power_alarms (ad_volts ((ad_add x ^^ 10) ad_reset)) ^^ k) s"
  using main_power_alarms_run assms
  by (induction k) (simp_all add: Io_DetectMainPower_measures funpow_add)

text \<open>15 equal measurements decide both alarms.\<close>

lemma main_power_alarms_decides:
  assumes "within 15 15 (PowerLowCounts s)" "within 15 15 (PowerShutCounts s)"
  shows "bit (Alarm ((main_power_alarms v ^^ 15) s)) ALARM_BIT_POWER_LOW \<longleftrightarrow> v < ucast (PowerLowMaxValue s) \<and> v > ucast (PowerShutValue s)"
    "bit (Alarm ((main_power_alarms v ^^ 15) s)) ALARM_BIT_POWER_SHUT \<longleftrightarrow> v < ucast (PowerShutValue s)"
proof -
  let ?s = "(main_power_alarms v ^^ 14) s" and ?P = "v < ucast (PowerLowMaxValue s) \<and> v > ucast (PowerShutValue s)"
  note r = main_power_alarms_run[where v = v and k = 14 and s = s]
  have step: "(main_power_alarms v ^^ 15) s = main_power_alarms v ?s" using funpow.simps(2)[of 14 "main_power_alarms v"] by simp
  have full: "within 15 15 c \<Longrightarrow> count_level 15 15 b ((count_level 15 15 b ^^ 14) c) = (if b then (15, 0) else (0, 15))" for b c
    using count_level_fills[of 15 15 c b 15] funpow.simps(2)[of 14 "count_level 15 15 b"] by simp
  have c: "count_level 15 15 ?P (PowerLowCounts ?s) = (if ?P then (15, 0) else (0, 15))" using full[OF assms(1), of ?P] r by metis
  have d: "count_level 15 15 (v < ucast (PowerShutValue s)) (PowerShutCounts ?s) = (if v < ucast (PowerShutValue s) then (15, 0) else (0, 15))"
    using full[OF assms(2), of "v < ucast (PowerShutValue s)"] r by metis
  show "bit (Alarm ((main_power_alarms v ^^ 15) s)) ALARM_BIT_POWER_LOW \<longleftrightarrow> ?P"
    "bit (Alarm ((main_power_alarms v ^^ 15) s)) ALARM_BIT_POWER_SHUT \<longleftrightarrow> v < ucast (PowerShutValue s)"
    unfolding step main_power_alarms_bits using r c d by (auto split: if_splits)
qed

end
