(* ===== verification/App_IoRun.thy ===== *)
theory App_IoRun
  imports App_IoState
begin

text \<open>
  The runs of \<open>Io.c\<close> with its chips: what the memory and the FRAM agree on in every state that the operations reach, and what
  a restart makes of it.
\<close>

subsection \<open>Single writes\<close>

text \<open>The emergency flag and the three bytes of the recording have areas of their own.\<close>

lemma FRAM_byte_write:
  assumes "fram_chip bus mem wel bp" "\<not> wel f" "\<not> bp f" "a \<in> {75, 77, 79, 81}"
  obtains f' where "FRAM_BufferWrite bus a [x] 1 (n, f) = (0, f')" "mem f' = patch (mem f) (unat a) [x, x]" "\<not> wel f'" "\<not> bp f'"
proof -
  have "unat a + unat (1 :: u16) < 2048" using assms(4) by auto
  moreover have "length [x] = unat (1 :: u16)" by simp
  ultimately show thesis using FRAM_BufferWrite_idle[OF assms(1-3), of "[x]" 1 a n] that by auto
qed

text \<open>A restart finds a byte that is not 0, and what it takes for one is there with its sum.\<close>

lemma FRAM_byte_read:
  assumes ch: "fram_chip bus mem wel bp" and a: "a \<in> {75, 77}"
  obtains n b f' where "FRAM_BufferRead bus 1 a f = (n, [b], f')" "mem f' = mem f" "wel f' = wel f" "bp f' = bp f"
    "n = 1 \<longleftrightarrow> b \<noteq> 0 \<and> holds (mem f) (unat a) [b, b]" "b = mem f (unat a)"
proof -
  let ?f = "SPI_INTERFACE_INIT bus f" and ?a = "unat a"
  obtain ys f' where r: "read_frame bus [0x03, ucast (drop_bit 8 a), ucast a] (Suc (unat (1 :: u16))) ?f = (ys, f')" by fastforce
  have "unat (ucast (drop_bit 8 a) :: u8) * 256 + unat (ucast a :: u8) + Suc (unat (1 :: u16)) \<le> 2048"
    unfolding address_bytes using a by auto
  from fram_chipD(5)[OF ch r this] have y: "ys = map (mem f) [?a..<?a + 2]" "mem f' = mem f" "wel f' = wel f" "bp f' = bp f"
    using fram_chipD(1)[OF ch, of f] unfolding address_bytes by simp_all
  have l: "[?a..<?a + 2] = [?a, Suc ?a]" by (simp add: numeral_2_eq_2)
  let ?b = "mem f ?a" and ?v = "mem f (Suc ?a)"
  have "read_frame bus [0x03, ucast (drop_bit 8 a), ucast a] (Suc (unat (1 :: u16))) ?f = ([?b] @ [?v], f')" unfolding r y(1) l by simp
  from FRAM_BufferRead_frame[OF this] zero_count[of "[?b]" 1] have b: "FRAM_BufferRead bus 1 a f = (if ?b = 0 then 0 else if ?v = ?b then 1 else 0, [?b], f')"
    by (auto simp: fun_eq_iff)
  have h: "holds (mem f) ?a [?b, ?b] \<longleftrightarrow> ?v = ?b" by simp
  show thesis by (rule that[OF b y(2-4)]) (auto simp: h)
qed

subsection \<open>Agreement\<close>

text \<open>An emergency that is raised is in the FRAM, and a recording that is on too. The key is active when low, as \<open>Io_Init\<close> leaves it.\<close>

definition io_agrees :: "('f \<Rightarrow> nat \<Rightarrow> u8) \<Rightarrow> ('f \<Rightarrow> bool) \<Rightarrow> ('f \<Rightarrow> bool) \<Rightarrow> io \<times> u8 \<times> 'f \<Rightarrow> bool" where
  "io_agrees mem wel bp = (\<lambda>(s, n, f). \<not> wel f \<and> \<not> bp f \<and> \<not> bit (AlarmHighValid s) ALARM_BIT_EMERGENCY
     \<and> (bit (Alarm s) ALARM_BIT_EMERGENCY \<longrightarrow> holds (mem f) 75 [1, 1])
     \<and> (RecordControl s \<noteq> 0 \<longrightarrow> holds (mem f) 77 [RecordControl s, RecordControl s]))"

text \<open>What most functions leave alone.\<close>

definition calm :: "io \<Rightarrow> io \<Rightarrow> bool" where
  "calm s s' \<longleftrightarrow> bit (Alarm s') ALARM_BIT_EMERGENCY = bit (Alarm s) ALARM_BIT_EMERGENCY \<and> RecordControl s' = RecordControl s
     \<and> AlarmHighValid s' = AlarmHighValid s"

lemma calm_trans: "calm s s' \<Longrightarrow> calm s' s'' \<Longrightarrow> calm s s''"
  by (simp add: calm_def)

lemma calm_agrees: "calm s s' \<Longrightarrow> io_agrees mem wel bp (s, f) \<Longrightarrow> io_agrees mem wel bp (s', f)"
  by (cases f) (simp add: calm_def io_agrees_def)

lemma calm_writes:
  "calm s (Io_WriteStatusBit b x s)" "calm s (Io_WriteIoStatusBit b x s)" "calm s (Io_WriteExtCarStatusBit b x s)"
  "0 < b \<Longrightarrow> calm s (Io_WriteAlarmBit b x s)"
  by (simp_all add: calm_def Io_WriteStatusBit_def Io_WriteIoStatusBit_def Io_WriteExtCarStatusBit_def Io_WriteAlarmBit_def bit_write_bit)

lemma calm_detects:
  "calm s (Io_DetectStatus env pin i s)" "calm s (Io_DetectExtCarStatus env pin i s)" "calm s (Io_DetectFrontDoor env s)"
  "calm s (snd (Io_DetectPhoneKey env s))" "calm s (Io_DetectMainPower env s)"
  by (simp_all add: calm_def Io_DetectStatus_def Io_DetectExtCarStatus_def Io_DetectFrontDoor_def Io_DetectPhoneKey_def Io_DetectMainPower_def
      Let_def Io_WriteStatusBit_def Io_WriteIoStatusBit_def Io_WriteExtCarStatusBit_def main_power_alarms_bits main_power_defs bit_write_bit)

lemma calm_refl: "calm s s"
  by (simp add: calm_def)

lemmas calm_steps = calm_refl calm_detects[THEN calm_trans[rotated]]

lemma Io_DetectAlarm_calm:
  assumes "0 < i" "i < 32"
  shows "\<exists>s'. Io_DetectAlarm env bus pin i (s, f) = (s', f) \<and> calm s s'"
  using assms by (simp add: Io_DetectAlarm_def Let_def calm_def Io_WriteAlarmBit_def bit_write_bit)

text \<open>The emergency key: the alarm is never cleared by it, and set together with the flag in the FRAM.\<close>

lemma Io_DetectAlarm_emergency:
  assumes ch: "fram_chip bus mem wel bp" and ag: "io_agrees mem wel bp (s, f)"
    and d: "Io_DetectAlarm env bus pin ALARM_BIT_EMERGENCY (s, f) = (s', f')"
  shows "io_agrees mem wel bp (s', f') \<and> (bit (Alarm s) ALARM_BIT_EMERGENCY \<longrightarrow> bit (Alarm s') ALARM_BIT_EMERGENCY)
    \<and> RecordControl s' = RecordControl s"
proof -
  obtain n g where f: "f = (n, g)" by (cases f)
  have id: "\<not> wel g" "\<not> bp g" "\<not> bit (AlarmHighValid s) 0" using ag by (simp_all add: io_agrees_def f)
  let ?c = "count_level (DetectAlarmHighDelay ! 0) (DetectAlarmLowDelay ! 0) (GpioInGetState env pin = 1) (AlarmCounts s 0)"
  let ?s = "s\<lparr>AlarmCounts := (AlarmCounts s)(0 := ?c)\<rparr>"
  have v: "\<not> valid_bit 0 (AlarmHighValid ?s)" using id(3) by (simp add: valid_bit_bit)
  show ?thesis
  proof (cases "\<not> fst ?c \<ge> DetectAlarmHighDelay ! 0 \<and> snd ?c \<ge> DetectAlarmLowDelay ! 0")
    case True
    then have s': "s' = Io_WriteAlarmBit 0 SET ?s" "f' = FRAM_BufferWrite bus 75 [1] 1 (n, g)"
      using d v by (auto simp: Io_DetectAlarm_def Let_def f)
    obtain g' where g': "FRAM_BufferWrite bus 75 [1] 1 (n, g) = (0, g')" "mem g' = patch (mem g) (unat (75 :: u16)) [1, 1]" "\<not> wel g'" "\<not> bp g'"
      by (rule FRAM_byte_write[OF ch id(1,2), of 75 1 n]) simp
    have "holds (mem g') 75 [1, 1]" unfolding g'(2) using holds_patch[of "mem g" 75 "[1, 1]"] by simp
    moreover have "holds (mem g') 77 [r, r]" if "holds (mem g) 77 [r, r]" for r
      unfolding g'(2) by (rule holds_apart[OF that]) simp
    ultimately show ?thesis using ag g' id(3) unfolding s' by (auto simp: io_agrees_def f bit_write_bit Io_WriteAlarmBit_def)
  next
    case False
    then have "s' = ?s" "f' = (n, g)" using d v by (auto simp: Io_DetectAlarm_def Let_def f split: if_splits)
    then show ?thesis using ag by (simp add: io_agrees_def f)
  qed
qed

lemma Io_TimeTask_agrees:
  assumes ch: "fram_chip bus mem wel bp" and ag: "io_agrees mem wel bp (s, f)" and t: "Io_TimeTask env bus (s, f, t) = Some (s', f', t')"
  shows "io_agrees mem wel bp (s', f') \<and> (bit (Alarm s) ALARM_BIT_EMERGENCY \<longrightarrow> bit (Alarm s') ALARM_BIT_EMERGENCY)
    \<and> RecordControl s' = RecordControl s"
proof -
  define s1 where "s1 = Io_DetectExtCarStatus env BKHI 9 (Io_DetectStatus env ACC STATUS_BIT_ACC (Io_DetectExtCarStatus env BREAK 4 s))"
  have c1: "calm s s1" unfolding s1_def by (intro calm_steps)
  define P where "P \<longleftrightarrow> 1 = GpsOnOffFlag env \<and> 1 = Io_ReadStatusBit STATUS_BIT_ACC (Io_DetectStatus env ACC STATUS_BIT_ACC (Io_DetectExtCarStatus env BREAK 4 s))"
  obtain u where u: "Io_DetectAlarm env bus GPS_OC ALARM_BIT_ANT_SHUT (s1, f) = (u, f)" "calm s1 u"
    using Io_DetectAlarm_calm[of ALARM_BIT_ANT_SHUT env bus GPS_OC s1 f] by auto
  obtain v where v: "Io_DetectAlarm env bus GPS_SC ALARM_BIT_ANT_SHORT (u, f) = (v, f)" "calm u v"
    using Io_DetectAlarm_calm[of ALARM_BIT_ANT_SHORT env bus GPS_SC u f] by auto
  define s2 where "s2 = (if P then v else s1)"
  have x: "(if P then Io_DetectAlarm env bus GPS_SC ALARM_BIT_ANT_SHORT (Io_DetectAlarm env bus GPS_OC ALARM_BIT_ANT_SHUT (s1, f)) else (s1, f)) = (s2, f)"
    by (simp add: s2_def u(1) v(1) del: One_nat_def)
  have "calm s1 s2" using calm_trans[OF u(2) v(2)] calm_refl[of s1] by (simp add: s2_def)
  obtain s3 f3 where s3: "Io_DetectAlarm env bus SWITCHI ALARM_BIT_EMERGENCY (s2, f) = (s3, f3)" by (cases "Io_DetectAlarm env bus SWITCHI ALARM_BIT_EMERGENCY (s2, f)")
  have c2: "calm s s2" by (rule calm_trans[OF c1 \<open>calm s1 s2\<close>])
  note e = Io_DetectAlarm_emergency[OF ch calm_agrees[OF c2 ag] s3]
  define s4 where "s4 = Io_DetectFrontDoor env (Io_DetectStatus env DOORI2 STATUS_BIT_DOOR2 (Io_DetectExtCarStatus env HORNI 8
    (Io_DetectExtCarStatus env RLIGHTI 2 (Io_DetectExtCarStatus env LLIGHTI 3 (Io_DetectExtCarStatus env DETCT1I 7
    (Io_DetectExtCarStatus env XLIGHTI 0 (Io_DetectExtCarStatus env DLIGHTI 1 s3)))))))"
  have c4: "calm s3 s4" unfolding s4_def by (intro calm_steps)
  obtain k s5 where s5: "Io_DetectPhoneKey env s4 = (k, s5)" by fastforce
  have c5: "calm s4 s5" using calm_detects(4)[of s4 env] s5 by simp
  define s6 where "s6 = Io_DetectMainPower env (s5\<lparr>LastOneKeyStatus := k\<rparr>)"
  have c6: "calm s5 s6" unfolding s6_def by (rule calm_trans[OF _ calm_detects(5)]) (simp add: calm_def)
  have "f' = f3 \<and> s' = (if 1 = BeepOnOffFlag s6 \<and> Timer_Val env - BeepOnTime s6 \<ge> 100
      then s6\<lparr>BUZZER := False, BeepOnOffFlag := 0, BeepOffTime := Timer_Val env\<rparr> else s6)"
    using t unfolding Io_TimeTask_def Let_def split s1_def[symmetric] P_def[symmetric] x split s3 s4_def[symmetric] s5 s6_def[symmetric]
    by (auto split: if_splits bind_splits)
  then have "calm s6 s'" "f' = f3" by (auto simp: calm_def)
  with c4 c5 c6 have "calm s3 s'" by (blast intro: calm_trans)
  then show ?thesis using e c2 calm_agrees[of s3 s' mem wel bp f3] \<open>f' = f3\<close> by (auto simp: calm_def)
qed

lemma Io_WriteRecordConrtolBit_agrees:
  assumes ch: "fram_chip bus mem wel bp" and ag: "io_agrees mem wel bp (s, n, f)"
  shows "io_agrees mem wel bp (Io_WriteRecordConrtolBit bus b x (s, n, f))"
proof (cases "b < RECORD_BIT_MAX")
  case True
  have id: "\<not> wel f" "\<not> bp f" using ag by (simp_all add: io_agrees_def)
  let ?r = "write_bit RECORD_BIT_MAX b x (RecordControl s)"
  have keep: "\<exists>f'. FRAM_BufferWrite bus a [y] 1 (n, f) = (0, f') \<and> \<not> wel f' \<and> \<not> bp f'
      \<and> (holds (mem f) 75 [1, 1] \<longrightarrow> holds (mem f') 75 [1, 1])" if a: "a \<in> {79, 81}" for a y
  proof -
    obtain f' where f': "FRAM_BufferWrite bus a [y] 1 (n, f) = (0, f')" "mem f' = patch (mem f) (unat a) [y, y]" "\<not> wel f'" "\<not> bp f'"
      by (rule FRAM_byte_write[OF ch id, of a y n]) (use a in auto)
    have "holds (mem f') 75 [1, 1]" if "holds (mem f) 75 [1, 1]"
      unfolding f'(2) by (rule holds_apart[OF that]) (use a in auto)
    then show ?thesis using f' by blast
  qed
  let ?y = "if 0 = ?r then FRAM_BufferWrite bus FRAM_RECORD_CLOSE_ADDR [NOT (push_bit b 1)] 1 (n, f)
    else if x = SET then FRAM_BufferWrite bus FRAM_RECORD_OPEN_ADDR [push_bit b 1] 1 (n, f) else (n, f)"
  have "\<exists>m g. ?y = (m, g) \<and> \<not> wel g \<and> \<not> bp g \<and> (holds (mem f) 75 [1, 1] \<longrightarrow> holds (mem g) 75 [1, 1])"
    using keep[of 79 "NOT (push_bit b 1)"] keep[of 81 "push_bit b 1"] id
    by (cases "0 = ?r"; cases x) (simp_all del: holds.simps, blast+)
  then obtain m g where y: "?y = (m, g)" "\<not> wel g" "\<not> bp g" "holds (mem f) 75 [1, 1] \<longrightarrow> holds (mem g) 75 [1, 1]"
    by blast
  obtain g' where g': "FRAM_BufferWrite bus 77 [?r] 1 (m, g) = (0, g')" "mem g' = patch (mem g) (unat (77 :: u16)) [?r, ?r]" "\<not> wel g'" "\<not> bp g'"
    by (rule FRAM_byte_write[OF ch y(2,3), of 77 ?r m]) simp
  have "Io_WriteRecordConrtolBit bus b x (s, n, f) = (s\<lparr>RecordControl := ?r\<rparr>, 0, g')"
    using True y(1) g'(1) by (simp add: Io_WriteRecordConrtolBit_def Let_def)
  moreover have "holds (mem g') 77 [?r, ?r]" unfolding g'(2) using holds_patch[of "mem g" 77 "[?r, ?r]"] by simp
  moreover have "holds (mem g') 75 [1, 1]" if "holds (mem g) 75 [1, 1]" unfolding g'(2) by (rule holds_apart[OF that]) simp
  ultimately show ?thesis using ag y(4) g' by (auto simp: io_agrees_def)
qed (use ag in \<open>simp add: Io_WriteRecordConrtolBit_def\<close>)

lemma Io_ClearAlarmWord_agrees:
  assumes ch: "fram_chip bus mem wel bp" and ag: "io_agrees mem wel bp (s, n, f)"
  shows "io_agrees mem wel bp (Io_ClearAlarmWord bus (s, n, f))"
proof -
  have id: "\<not> wel f" "\<not> bp f" using ag by (simp_all add: io_agrees_def)
  obtain f' where f': "FRAM_BufferWrite bus 75 [0] 1 (n, f) = (0, f')" "mem f' = patch (mem f) (unat (75 :: u16)) [0, 0]" "\<not> wel f'" "\<not> bp f'"
    by (rule FRAM_byte_write[OF ch id, of 75 0 n]) simp
  have "holds (mem f') 77 [r, r]" if "holds (mem f) 77 [r, r]" for r unfolding f'(2) by (rule holds_apart[OF that]) simp
  then show ?thesis using ag f' by (simp add: io_agrees_def Io_ClearAlarmWord_def)
qed

subsection \<open>Restart\<close>

lemma EepromPram_ReadPram_some: "e2_index p < 439 \<Longrightarrow> \<exists>n data c'. EepromPram_ReadPram ops p c = Some (n, data, c')"
proof -
  assume i: "e2_index p < 439"
  have "EepromPram_ReadPram ops p c \<noteq> None" using i unfolding EepromPram_ReadPram_def e2_index_def Let_def split_beta by (simp del: not_None_eq)
  then show ?thesis by (metis option.exhaust prod_cases3)
qed

lemma update_calm:
  assumes "e2_index p < 439"
  shows "(\<And>w s. calm s (g w s)) \<Longrightarrow> \<exists>s' c'. update_word ops p g (s, c) = Some (s', c') \<and> calm s s'"
    and "(\<And>w s. calm s (h w s)) \<Longrightarrow> \<exists>s' c'. update_byte ops p h (s, c) = Some (s', c') \<and> calm s s'"
  using EepromPram_ReadPram_some[OF assms, of ops c] by (auto simp: update_word_def update_byte_def calm_refl)

lemma update_gps_mode_calm: "calm s (update_gps_mode b s)"
proof -
  have "calm s (fold (\<lambda>(m, i). Io_WriteStatusBit i (if m = (m AND b) then SET else RESET)) xs s)" for xs :: "(u8 \<times> nat) list"
    by (induction xs arbitrary: s) (auto intro: calm_refl calm_trans[OF calm_writes(1)])
  then show ?thesis unfolding update_gps_mode_def .
qed

text \<open>A byte of the FRAM, as far as a restart accepts it.\<close>

definition kept_byte :: "(nat \<Rightarrow> u8) \<Rightarrow> nat \<Rightarrow> u8 option" where
  "kept_byte m a = (if m a \<noteq> 0 \<and> holds m a [m a, m a] then Some (m a) else None)"

lemma update_fram:
  assumes "fram_chip bus mem wel bp"
  obtains f' where "update_emergency bus (s, f) =
      ((case kept_byte (mem f) 75 of None \<Rightarrow> s | Some b \<Rightarrow> Io_WriteAlarmBit ALARM_BIT_EMERGENCY (if b = 1 then SET else RESET) s), f')"
    "mem f' = mem f" "wel f' = wel f" "bp f' = bp f"
  using assms
proof -
  obtain n b f' where "FRAM_BufferRead bus 1 75 f = (n, [b], f')" "mem f' = mem f" "wel f' = wel f" "bp f' = bp f"
    "n = 1 \<longleftrightarrow> b \<noteq> 0 \<and> holds (mem f) (unat (75 :: u16)) [b, b]" "b = mem f (unat (75 :: u16))"
    by (rule FRAM_byte_read[OF assms, of 75 f]) simp
  then show thesis by (intro that[of f']) (simp_all add: update_emergency_def kept_byte_def del: holds.simps)
qed

lemma update_record_fram:
  assumes "fram_chip bus mem wel bp"
  obtains f' where "update_record bus (s, f) = (s\<lparr>RecordControl := (case kept_byte (mem f) 77 of None \<Rightarrow> 0 | Some b \<Rightarrow> b)\<rparr>, f')"
    "mem f' = mem f" "wel f' = wel f" "bp f' = bp f"
proof -
  obtain n b f' where "FRAM_BufferRead bus 1 77 f = (n, [b], f')" "mem f' = mem f" "wel f' = wel f" "bp f' = bp f"
    "n = 1 \<longleftrightarrow> b \<noteq> 0 \<and> holds (mem f) (unat (77 :: u16)) [b, b]" "b = mem f (unat (77 :: u16))"
    by (rule FRAM_byte_read[OF assms, of 77 f]) simp
  then show thesis by (intro that[of f']) (simp_all add: update_record_def kept_byte_def del: holds.simps)
qed

text \<open>After it, alarm and recording are what the FRAM says.\<close>

lemma Io_UpdataPram_restores:
  assumes ch: "fram_chip bus mem wel bp"
  obtains s' c' f' where "Io_UpdataPram ops bus (s, c, f) = Some (s', c', f')" "mem f' = mem f" "wel f' = wel f" "bp f' = bp f"
    "AlarmHighValid s' = AlarmHighValid s"
    "bit (Alarm s') ALARM_BIT_EMERGENCY \<longleftrightarrow> (case kept_byte (mem f) 75 of None \<Rightarrow> bit (Alarm s) ALARM_BIT_EMERGENCY | Some b \<Rightarrow> b = 1)"
    "RecordControl s' = (case kept_byte (mem f) 77 of None \<Rightarrow> 0 | Some b \<Rightarrow> b)"
proof -
  note i = e2_index_def E2ParamApp_ConvertPramIDToGroupIndex_def
  have ix: "e2_index E2_KEY_FLAG_ID < 439" "e2_index E2_ALARM_MASK_ID < 439" "e2_index E2_ALARM_PHOTO_SWITCH_ID < 439"
    "e2_index E2_ALARM_PHOTO_STORE_FLAG_ID < 439" "e2_index E2_STATUS_PHOTO_SWITCH_ID < 439" "e2_index E2_STATUS_PHOTO_STORE_FLAG_ID < 439"
    "e2_index E2_DOOR_SET_ID < 439" "e2_index E2_GPS_SET_MODE_ID < 439"
    by (simp_all add: i)
  note w = update_calm(1)[where ops = ops] and b = update_calm(2)[where ops = ops]
  obtain s1 c1 where 1: "update_word ops E2_KEY_FLAG_ID (\<lambda>w s. s\<lparr>KeyAlarm := w\<rparr>) (s, c) = Some (s1, c1)" "calm s s1"
    using w[OF ix(1), of "\<lambda>w s. s\<lparr>KeyAlarm := w\<rparr>" s c] by (auto simp: calm_def)
  obtain s2 c2 where 2: "update_word ops E2_ALARM_MASK_ID (\<lambda>w s. s\<lparr>AlarmMaskWord := w\<rparr>) (s1, c1) = Some (s2, c2)" "calm s1 s2"
    using w[OF ix(2), of "\<lambda>w s. s\<lparr>AlarmMaskWord := w\<rparr>" s1 c1] by (auto simp: calm_def)
  obtain s3 c3 where 3: "update_word ops E2_ALARM_PHOTO_SWITCH_ID (\<lambda>w s. s\<lparr>AlarmPhotoSwitch := w\<rparr>) (s2, c2) = Some (s3, c3)" "calm s2 s3"
    using w[OF ix(3), of "\<lambda>w s. s\<lparr>AlarmPhotoSwitch := w\<rparr>" s2 c2] by (auto simp: calm_def)
  obtain s4 c4 where 4: "update_word ops E2_ALARM_PHOTO_STORE_FLAG_ID (\<lambda>w s. s\<lparr>AlarmPhotoStoreFlag := w\<rparr>) (s3, c3) = Some (s4, c4)" "calm s3 s4"
    using w[OF ix(4), of "\<lambda>w s. s\<lparr>AlarmPhotoStoreFlag := w\<rparr>" s3 c3] by (auto simp: calm_def)
  obtain s5 c5 where 5: "update_word ops E2_STATUS_PHOTO_SWITCH_ID (\<lambda>w s. s\<lparr>StatusPhotoSwitch := w\<rparr>) (s4, c4) = Some (s5, c5)" "calm s4 s5"
    using w[OF ix(5), of "\<lambda>w s. s\<lparr>StatusPhotoSwitch := w\<rparr>" s4 c4] by (auto simp: calm_def)
  obtain s6 c6 where 6: "update_word ops E2_STATUS_PHOTO_STORE_FLAG_ID (\<lambda>w s. s\<lparr>StatusPhotoStoreFlag := w\<rparr>) (s5, c5) = Some (s6, c6)" "calm s5 s6"
    using w[OF ix(6), of "\<lambda>w s. s\<lparr>StatusPhotoStoreFlag := w\<rparr>" s5 c5] by (auto simp: calm_def)
  let ?s7 = "case kept_byte (mem f) 75 of None \<Rightarrow> s6 | Some b \<Rightarrow> Io_WriteAlarmBit ALARM_BIT_EMERGENCY (if b = 1 then SET else RESET) s6"
  obtain f7 where 7: "update_emergency bus (s6, f) = (?s7, f7)" "mem f7 = mem f" "wel f7 = wel f" "bp f7 = bp f"
    by (rule update_fram[OF ch])
  obtain s8 c8 where 8: "update_byte ops E2_DOOR_SET_ID (\<lambda>b s. s\<lparr>DoorSelectFlag := b\<rparr>) (?s7, c6) = Some (s8, c8)" "calm ?s7 s8"
    using b[OF ix(7), of "\<lambda>b s. s\<lparr>DoorSelectFlag := b\<rparr>" ?s7 c6] by (auto simp: calm_def)
  obtain f9 where 9: "update_record bus (s8, f7) = (s8\<lparr>RecordControl := (case kept_byte (mem f7) 77 of None \<Rightarrow> 0 | Some b \<Rightarrow> b)\<rparr>, f9)"
    "mem f9 = mem f7" "wel f9 = wel f7" "bp f9 = bp f7"
    by (rule update_record_fram[OF ch])
  let ?s9 = "s8\<lparr>RecordControl := (case kept_byte (mem f) 77 of None \<Rightarrow> 0 | Some b \<Rightarrow> b)\<rparr>"
  obtain s10 c10 where 10: "update_byte ops E2_GPS_SET_MODE_ID update_gps_mode (?s9, c8) = Some (s10, c10)" "calm ?s9 s10"
    using b[OF ix(8), of update_gps_mode ?s9 c8] update_gps_mode_calm by blast
  have "Io_UpdataPram ops bus (s, c, f) = Some (s10, c10, f9)"
    by (simp add: Io_UpdataPram_def 1(1) 2(1) 3(1) 4(1) 5(1) 6(1) 7(1) 8(1) 9(1) 7(2) 10(1))
  moreover have c6: "calm s s6" using 1(2) 2(2) 3(2) 4(2) 5(2) 6(2) by (blast intro: calm_trans)
  moreover have "AlarmHighValid ?s7 = AlarmHighValid s6" "bit (Alarm ?s7) ALARM_BIT_EMERGENCY \<longleftrightarrow>
      (case kept_byte (mem f) 75 of None \<Rightarrow> bit (Alarm s6) ALARM_BIT_EMERGENCY | Some b \<Rightarrow> b = 1)"
    by (auto simp: Io_WriteAlarmBit_def bit_write_bit split: option.split)
  ultimately show thesis using 7 8(2) 9 10(2) by (intro that[of s10 c10 f9]) (simp_all add: calm_def split: option.splits)
qed

subsection \<open>Runs\<close>

text \<open>The steps of a run: the periodic task, the functions that other modules call, writes of other areas of the FRAM, and a restart,
  which starts from the initial values and reads the parameters of the EEPROM, whatever it holds.\<close>

inductive io_step :: "'c sfud \<Rightarrow> 'f spi_bus \<Rightarrow> io \<times> u8 \<times> 'f \<Rightarrow> io \<times> u8 \<times> 'f \<Rightarrow> bool" for ops bus where
  task: "Io_TimeTask env bus (s, f, t) = Some (s', f', t') \<Longrightarrow> io_step ops bus (s, f) (s', f')"
| record_control: "io_step ops bus (s, f) (Io_WriteRecordConrtolBit bus b x (s, f))"
| alarm_bit: "0 < b \<Longrightarrow> io_step ops bus (s, f) (Io_WriteAlarmBit b x s, f)"
| clear: "io_step ops bus (s, f) (Io_ClearAlarmWord bus (s, f))"
| other_area: "(a, length data) \<in> set fram_areas \<Longrightarrow> a \<noteq> 75 \<Longrightarrow> a \<noteq> 77 \<Longrightarrow>
    io_step ops bus (s, f) (s, FRAM_BufferWrite bus (of_nat a) data (of_nat (length data)) f)"
| restart: "Io_UpdataPram ops bus (Io_Init io_start, c, f) = Some (s', c', f') \<Longrightarrow> io_step ops bus (s, n, f) (s', 0, f')"

inductive_cases io_stepE: "io_step ops bus x y"

lemma Io_Init_start: "\<not> bit (AlarmHighValid (Io_Init io_start)) ALARM_BIT_EMERGENCY" "Alarm (Io_Init io_start) = 0" "RecordControl (Io_Init io_start) = 0"
  by (simp_all add: Io_Init_def Io_InitStatusHighValid_def Io_InitExtCarStatusHighValid_def Io_InitAlarmHighValid_def
      Io_InitDefine2StatusHighValid_def Io_WriteStatusHighValidBit_def Io_WriteExtCarStatusHighValidBit_def Io_WriteAlarmHighValidBit_def
      io_start_def bit_write_bit)

lemma kept_byte_holds: "kept_byte m a = Some b \<Longrightarrow> holds m a [b, b]"
  by (auto simp: kept_byte_def split: if_splits)

lemma holds_kept: "holds m a [b, b] \<Longrightarrow> kept_byte m a = (if b = 0 then None else Some b)"
  by (auto simp: kept_byte_def)

lemma restart_agrees:
  assumes ch: "fram_chip bus mem wel bp" and id: "\<not> wel f" "\<not> bp f"
    and r: "Io_UpdataPram ops bus (Io_Init io_start, c, f) = Some (s', c', f')"
  shows "io_agrees mem wel bp (s', n, f') \<and> mem f' = mem f
    \<and> (bit (Alarm s') ALARM_BIT_EMERGENCY \<longleftrightarrow> kept_byte (mem f) 75 = Some 1)
    \<and> RecordControl s' = (case kept_byte (mem f) 77 of None \<Rightarrow> 0 | Some b \<Rightarrow> b)"
proof -
  obtain s1 c1 f1 where 1: "Io_UpdataPram ops bus (Io_Init io_start, c, f) = Some (s1, c1, f1)" "mem f1 = mem f" "wel f1 = wel f" "bp f1 = bp f"
    "AlarmHighValid s1 = AlarmHighValid (Io_Init io_start)"
    "bit (Alarm s1) ALARM_BIT_EMERGENCY \<longleftrightarrow>
      (case kept_byte (mem f) 75 of None \<Rightarrow> bit (Alarm (Io_Init io_start)) ALARM_BIT_EMERGENCY | Some b \<Rightarrow> b = 1)"
    "RecordControl s1 = (case kept_byte (mem f) 77 of None \<Rightarrow> 0 | Some b \<Rightarrow> b)"
    by (rule Io_UpdataPram_restores[OF ch])
  then show ?thesis using r id Io_Init_start kept_byte_holds[of "mem f" 75] kept_byte_holds[of "mem f" 77]
    by (auto simp: io_agrees_def split: option.splits)
qed

lemma io_step_agrees:
  assumes ch: "fram_chip bus mem wel bp" and st: "io_step ops bus x y" and ag: "io_agrees mem wel bp x"
  shows "io_agrees mem wel bp y"
  using st ag
proof (cases rule: io_step.cases)
  case (task env s f t s' f' t')
  then show ?thesis using Io_TimeTask_agrees[OF ch] ag by blast
next
  case (record_control s f b z)
  then show ?thesis using Io_WriteRecordConrtolBit_agrees[OF ch] ag by (cases f) simp
next
  case (alarm_bit b s f z)
  then show ?thesis using calm_agrees[OF calm_writes(4)] ag by blast
next
  case (clear s f)
  then show ?thesis using Io_ClearAlarmWord_agrees[OF ch] ag by (cases f) simp
next
  case (other_area a data s f)
  obtain n g where f: "f = (n, g)" by (cases f)
  note u = fram_areas_fit[OF other_area(3)]
  have id: "\<not> wel g" "\<not> bp g" using ag other_area(1) by (simp_all add: io_agrees_def f)
  have w: "unat (of_nat a :: u16) = a" "unat (of_nat (length data) :: u16) = length data" using u by (simp_all add: unat_of_nat)
  obtain g' where g': "FRAM_BufferWrite bus (of_nat a) data (of_nat (length data)) (n, g) = (0, g')"
    "mem g' = patch (mem g) (unat (of_nat a :: u16)) (data @ [sum_list data])" "\<not> wel g'" "\<not> bp g'"
    by (rule FRAM_BufferWrite_idle[OF ch id, of data "of_nat (length data)" "of_nat a" n]) (use u w in auto)
  have "(75, 1) \<in> set fram_areas" "(77, 1) \<in> set fram_areas" by (simp_all add: fram_areas_def)
  from fram_areas_apart[OF this(1) other_area(3)] fram_areas_apart[OF this(2) other_area(3)] other_area(4,5)
  have ap: "75 + 2 \<le> a \<or> a + Suc (length data) \<le> 75" "77 + 2 \<le> a \<or> a + Suc (length data) \<le> 77" by auto
  have "holds (mem g') b [r, r]" if "holds (mem g) b [r, r]" "b = 75 \<or> b = 77" for b r
    unfolding g'(2) w(1) by (rule holds_apart[OF that(1)]) (use ap that(2) in auto)
  from this[of 75 1] this[of 77 "RecordControl s"]
  have "holds (mem g) 75 [1, 1] \<longrightarrow> holds (mem g') 75 [1, 1]"
    "holds (mem g) 77 [RecordControl s, RecordControl s] \<longrightarrow> holds (mem g') 77 [RecordControl s, RecordControl s]" by blast+
  then show ?thesis using ag g'(1,3,4) unfolding other_area(1,2) f io_agrees_def split by (simp del: holds.simps)
next
  case (restart c f s' c' f' s n)
  then have "\<not> wel f" "\<not> bp f" using ag by (simp_all add: io_agrees_def)
  then show ?thesis using restart_agrees[OF ch _ _ restart(3)] restart(2) by blast
qed

lemma io_run_agrees:
  assumes "fram_chip bus mem wel bp" "(io_step ops bus)\<^sup>*\<^sup>* x y" "io_agrees mem wel bp x"
  shows "io_agrees mem wel bp y"
  using assms(2,3) by (induction rule: rtranclp_induct) (simp_all add: io_step_agrees[OF assms(1)])

end
