(* ===== verification/Io_Theorems.thy ===== *)
theory Io_Theorems
  imports App_IoRun Fram_Theorems Param_Theorems
begin

text \<open>Properties of the inputs, alarms and control words of \<open>Io.c\<close>.\<close>

section \<open>Debounced inputs\<close>

lemma fold_status_input:
  "fold status_input es (pin, i, s) = (pin, i, fold (\<lambda>e. Io_DetectStatus e pin i) es s)"
  by (induction es arbitrary: s) (simp_all add: status_input_def)

text \<open>C30. The counters of \<open>Io_DetectStatus\<close> do what a debounced input promises: after any samples, the status bit of the pin is the
  level that last came often enough in a row, with the polarity of the bit, and the bit before if none did.\<close>

theorem status_debounced:
  assumes "i < 32" "0 < DetectStatusHighDelay ! i" "StatusCounts s i = (0, 0)"
  shows "bit (Status (fold (\<lambda>e. Io_DetectStatus e pin i) es s)) i \<longleftrightarrow>
    (case last_level (unat (DetectStatusHighDelay ! i)) (unat (DetectStatusLowDelay ! i)) (history (\<lambda>e. GpioInGetState e pin = 1) es) of
       None \<Rightarrow> bit (Status s) i | Some b \<Rightarrow> b = bit (StatusHighValid s) i)"
  using status.run_level[of "(pin, i, s)" es] assms by (simp add: fold_status_input pin_high_def split: option.splits)

definition demo_env :: "u8 \<Rightarrow> u16 \<Rightarrow> io_env" where
  "demo_env pins volts = \<lparr>GpioInGetState = \<lambda>_. pins, Ad_GetValue = \<lambda>_. volts, GpsOnOffFlag = 0, BBGNTestFlag = 0, BBXYTestFlag = 0, Timer_Val = 0\<rparr>"

text \<open>20 high samples of the ignition, then 19 low ones: it is still on.\<close>

theorem status_debounced_witness:
  "bit (Status (fold (\<lambda>e. Io_DetectStatus e ACC 0) (replicate 20 (demo_env 1 0) @ replicate 19 (demo_env 0 0)) (Io_Init io_start))) 0"
proof -
  have c: "StatusCounts (Io_Init io_start) 0 = (0, 0)" "bit (StatusHighValid (Io_Init io_start)) 0"
    by (simp_all add: Io_Init_def Io_InitStatusHighValid_def Io_InitExtCarStatusHighValid_def Io_InitAlarmHighValid_def
      Io_InitDefine2StatusHighValid_def Io_WriteStatusHighValidBit_def Io_WriteExtCarStatusHighValidBit_def Io_WriteAlarmHighValidBit_def
      io_start_def bit_write_bit)
  have h: "history (\<lambda>e. GpioInGetState e ACC = 1) (replicate 20 (demo_env 1 0) @ replicate 19 (demo_env 0 0))
    = replicate 19 False @ replicate 20 True"
    by (simp add: history_def demo_env_def)
  have "last_level 20 20 (replicate 19 False @ replicate 20 True) = Some True" by (simp add: numeral_eq_Suc)
  then show ?thesis
    using status_debounced[of 0 "Io_Init io_start" ACC "replicate 20 (demo_env 1 0) @ replicate 19 (demo_env 0 0)"] c unfolding h
    by (simp add: DetectStatusHighDelay_def DetectStatusLowDelay_def)
qed

section \<open>Main power\<close>

text \<open>C31. 150 calls of \<open>Io_DetectMainPower\<close> with the same reading decide its two alarms: low voltage exactly strictly between the limits,
  power loss exactly below the lower one. At the lower limit itself neither is raised.\<close>

theorem main_power_decides:
  assumes "PowerAd s = ad_reset" "within 15 15 (PowerLowCounts s)" "within 15 15 (PowerShutCounts s)"
    and "Ad_GetValue env ADC_MAIN_POWER = x" "x \<le> 0xfff" and "s' = (Io_DetectMainPower env ^^ 150) s"
  shows "(bit (Alarm s') ALARM_BIT_POWER_LOW \<longleftrightarrow> unat (PowerShutValue s) < volts_of x \<and> volts_of x < unat (PowerLowMaxValue s))
     \<and> (bit (Alarm s') ALARM_BIT_POWER_SHUT \<longleftrightarrow> volts_of x < unat (PowerShutValue s))"
proof -
  let ?v = "ad_volts ((ad_add x ^^ 10) ad_reset)"
  have s': "s' = (main_power_alarms ?v ^^ 15) s" using Io_DetectMainPower_run[OF assms(1,4), of 15] assms(6) by simp
  have u: "unat (ucast w :: u32) = unat w" for w :: u16
  proof -
    have "unat w < 2 ^ LENGTH(16)" by (rule unsigned_less)
    then show ?thesis by (simp add: unsigned_ucast_eq take_bit_nat_eq_self)
  qed
  show ?thesis unfolding s' main_power_alarms_decides[OF assms(2,3)] word_less_nat_alt u ad_volts_constant[OF assms(5)] by blast
qed

theorem main_power_decides_witness:
  "let s' = (Io_DetectMainPower (demo_env 0 1240) ^^ 150) (io_start\<lparr>PowerLowMaxValue := 110\<rparr>)
   in bit (Alarm s') ALARM_BIT_POWER_LOW \<and> \<not> bit (Alarm s') ALARM_BIT_POWER_SHUT"
  using main_power_decides[of "io_start\<lparr>PowerLowMaxValue := 110\<rparr>" "demo_env 0 1240" 1240]
  by (simp add: io_start_def ad_reset_def within_def demo_env_def volts_of_def)

section \<open>Control words\<close>

text \<open>The over-speed alarm has several users: after any writes of control bits it is raised exactly if the last write of one of the five users set its bit.\<close>

theorem over_speed_shared:
  assumes "OverSpeedControl s = 0" "ws \<noteq> []"
  shows "bit (Alarm (fold (\<lambda>(b, x). Io_WriteOverSpeedConrtolBit b x) ws s)) ALARM_BIT_OVER_SPEED
    \<longleftrightarrow> (\<exists>b<OVER_SPEED_BIT_MAX. last_write fst ws b = Some (b, SET))"
  by (rule over_speed.run_on[OF assms])

theorem over_speed_shared_witness:
  "bit (Alarm (fold (\<lambda>(b, x). Io_WriteOverSpeedConrtolBit b x) [(0, SET), (2, SET), (0, RESET)] io_start)) ALARM_BIT_OVER_SPEED"
proof -
  have "last_write fst [(0, SET), (2, SET), (0 :: nat, RESET)] 2 = Some (2, SET)" by (simp add: last_write_def)
  then show ?thesis using over_speed_shared[of io_start "[(0, SET), (2, SET), (0, RESET)]"] by (auto simp: io_start_def)
qed

text \<open>What the mask says of an alarm that must not be masked, and what reading it gives.\<close>

lemma key_alarm_masked:
  assumes "b < 32" "bit (KeyAlarm s) b" "bit (AlarmMaskWord s) b"
  shows "Io_ReadAlarmMaskBit b s = 0 \<and> Io_ReadAlarmBit b s = 0"
proof -
  have "KeyAlarm s AND push_bit b 1 = push_bit b 1" by (metis push_bit_1_and[OF assms(2)] and.commute)
  then show ?thesis using assms by (simp add: Io_ReadAlarmMaskBit_def Io_ReadAlarmBit_def read_bit_bit bit_simps)
qed

section \<open>What outlives a restart\<close>



end
