(* ===== verification/RT_String.thy ===== *)
theory RT_String
  imports App_Store
begin

text \<open>
  The memory and string functions of \<open>src/kservice.c\<close>, on a memory of bytes. A pointer is the number of its
  byte; blocks lie below the end of the address space, and counts below \<open>2 ^ 31\<close>. \<open>RT_USING_TINY_SIZE\<close> is off.
\<close>

type_synonym memory = "nat \<Rightarrow> u8"

subsection \<open>Words in memory\<close>

definition word_bytes :: "u32 \<Rightarrow> u8 list" where
  "word_bytes w = [ucast w, ucast (drop_bit 8 w), ucast (drop_bit 16 w), ucast (drop_bit 24 w)]"

definition bytes_word :: "u8 \<Rightarrow> u8 \<Rightarrow> u8 \<Rightarrow> u8 \<Rightarrow> u32" where
  "bytes_word b0 b1 b2 b3 = ucast b0 OR push_bit 8 (ucast b1) OR push_bit 16 (ucast b2) OR push_bit 24 (ucast b3)"

definition store32 :: "nat \<Rightarrow> u32 \<Rightarrow> memory \<Rightarrow> memory" where
  "store32 a w m = m(a := ucast w, a + 1 := ucast (drop_bit 8 w), a + 2 := ucast (drop_bit 16 w), a + 3 := ucast (drop_bit 24 w))"

definition load32 :: "memory \<Rightarrow> nat \<Rightarrow> u32" where
  "load32 m a = bytes_word (m a) (m (a + 1)) (m (a + 2)) (m (a + 3))"

subsection \<open>Filling\<close>

function memset_blocks :: "u32 \<Rightarrow> nat \<times> nat \<times> memory \<Rightarrow> nat \<times> nat \<times> memory" where
  "memset_blocks buffer (a, count, m) =
     (if count \<ge> 4 * 4
      then memset_blocks buffer (a + 16, count - 4 * 4,
        store32 (a + 12) buffer (store32 (a + 8) buffer (store32 (a + 4) buffer (store32 a buffer m))))
      else (a, count, m))"
  by pat_completeness auto
termination by (relation "measure (\<lambda>(_, _, count, _). count)") auto

function memset_words :: "u32 \<Rightarrow> nat \<times> nat \<times> memory \<Rightarrow> nat \<times> nat \<times> memory" where
  "memset_words buffer (a, count, m) =
     (if count \<ge> 4 then memset_words buffer (a + 4, count - 4, store32 a buffer m) else (a, count, m))"
  by pat_completeness auto
termination by (relation "measure (\<lambda>(_, _, count, _). count)") auto

fun memset_bytes :: "u8 \<Rightarrow> nat \<Rightarrow> nat \<Rightarrow> memory \<Rightarrow> memory" where
  "memset_bytes d a 0 m = m"
| "memset_bytes d a (Suc count) m = memset_bytes d (a + 1) count (m(a := d))"

definition rt_memset :: "nat \<Rightarrow> u32 \<Rightarrow> nat \<Rightarrow> memory \<Rightarrow> memory" where
  "rt_memset s c count m =
     (let d = c AND 0xff;
          (a, n, m1) = (if \<not> count < 4 \<and> s mod 4 = 0
            then let b = push_bit 8 d OR d; buffer = b OR push_bit 16 b in memset_words buffer (memset_blocks buffer (s, count, m))
            else (s, count, m))
      in memset_bytes (ucast d) a n m1)"

subsection \<open>Copying\<close>

function memcpy_blocks :: "nat \<times> nat \<times> nat \<times> memory \<Rightarrow> nat \<times> nat \<times> nat \<times> memory" where
  "memcpy_blocks (d, s, len, m) =
     (if len \<ge> 16
      then let m1 = store32 d (load32 m s) m;
               m2 = store32 (d + 4) (load32 m1 (s + 4)) m1;
               m3 = store32 (d + 8) (load32 m2 (s + 8)) m2;
               m4 = store32 (d + 12) (load32 m3 (s + 12)) m3
           in memcpy_blocks (d + 16, s + 16, len - 16, m4)
      else (d, s, len, m))"
  by pat_completeness auto
termination by (relation "measure (\<lambda>(_, _, len, _). len)") auto

function memcpy_words :: "nat \<times> nat \<times> nat \<times> memory \<Rightarrow> nat \<times> nat \<times> nat \<times> memory" where
  "memcpy_words (d, s, len, m) =
     (if len \<ge> 4 then memcpy_words (d + 4, s + 4, len - 4, store32 d (load32 m s) m) else (d, s, len, m))"
  by pat_completeness auto
termination by (relation "measure (\<lambda>(_, _, len, _). len)") auto

fun copy_up :: "nat \<Rightarrow> nat \<Rightarrow> nat \<Rightarrow> memory \<Rightarrow> memory" where
  "copy_up d s 0 m = m"
| "copy_up d s (Suc n) m = copy_up (d + 1) (s + 1) n (m(d := m s))"

fun copy_down :: "nat \<Rightarrow> nat \<Rightarrow> nat \<Rightarrow> memory \<Rightarrow> memory" where
  "copy_down d s 0 m = m"
| "copy_down d s (Suc n) m = copy_down d s n (m(d + n := m (s + n)))"

definition rt_memcpy :: "nat \<Rightarrow> nat \<Rightarrow> nat \<Rightarrow> memory \<Rightarrow> memory" where
  "rt_memcpy dst src count m =
     (let (d, s, n, m1) = (if \<not> count < 16 \<and> \<not> (src mod 4 \<noteq> 0 \<or> dst mod 4 \<noteq> 0)
        then memcpy_words (memcpy_blocks (dst, src, count, m)) else (dst, src, count, m))
      in copy_up d s n m1)"

definition rt_memmove :: "nat \<Rightarrow> nat \<Rightarrow> nat \<Rightarrow> memory \<Rightarrow> memory" where
  "rt_memmove dest src n m = (if src < dest \<and> dest < src + n then copy_down dest src n m else copy_up dest src n m)"

declare memset_blocks.simps [simp del] memset_words.simps [simp del] memcpy_blocks.simps [simp del] memcpy_words.simps [simp del]

subsection \<open>Comparing\<close>

fun rt_memcmp :: "memory \<Rightarrow> nat \<Rightarrow> nat \<Rightarrow> nat \<Rightarrow> int" where
  "rt_memcmp m cs ct 0 = 0"
| "rt_memcmp m cs ct (Suc count) =
     (let res = uint (m cs) - uint (m ct) in if res \<noteq> 0 then res else rt_memcmp m (cs + 1) (ct + 1) count)"

text \<open>Strings end with a 0. A loop that finds none does not return.\<close>

partial_function (option) strlen_from :: "memory \<Rightarrow> nat \<Rightarrow> nat \<Rightarrow> nat option" where
  "strlen_from m s sc = (if m sc \<noteq> 0 then strlen_from m s (sc + 1) else Some (sc - s))"

definition rt_strlen :: "memory \<Rightarrow> nat \<Rightarrow> nat option" where
  "rt_strlen m s = strlen_from m s s"

fun rt_strnlen :: "memory \<Rightarrow> nat \<Rightarrow> nat \<Rightarrow> nat" where
  "rt_strnlen m s 0 = 0"
| "rt_strnlen m s (Suc maxlen) = (if m s \<noteq> 0 then Suc (rt_strnlen m (s + 1) maxlen) else 0)"

partial_function (option) rt_strcmp :: "memory \<Rightarrow> nat \<Rightarrow> nat \<Rightarrow> int option" where
  "rt_strcmp m cs ct = (if m cs \<noteq> 0 \<and> m cs = m ct then rt_strcmp m (cs + 1) (ct + 1) else Some (uint (m cs) - uint (m ct)))"

definition lower_case :: "u8 \<Rightarrow> u8" where
  "lower_case c = (if c \<ge> 65 \<and> c \<le> 90 then c + (97 - 65) else c)"

partial_function (option) rt_strcasecmp :: "memory \<Rightarrow> nat \<Rightarrow> nat \<Rightarrow> u32 option" where
  "rt_strcasecmp m a b =
     (let ca = lower_case (m a); cb = lower_case (m b)
      in if ca = cb \<and> ca \<noteq> 0 then rt_strcasecmp m (a + 1) (b + 1) else Some (ucast ca - ucast cb))"

fun strstr_loop :: "memory \<Rightarrow> nat \<Rightarrow> nat \<Rightarrow> nat \<Rightarrow> nat \<Rightarrow> nat option" where
  "strstr_loop m s1 s2 l2 0 = None"
| "strstr_loop m s1 s2 l2 (Suc l1) =
     (if Suc l1 \<ge> l2 then if rt_memcmp m s1 s2 l2 = 0 then Some s1 else strstr_loop m (s1 + 1) s2 l2 l1 else None)"

definition rt_strstr :: "memory \<Rightarrow> nat \<Rightarrow> nat \<Rightarrow> nat option option" where
  "rt_strstr m s1 s2 =
     (case rt_strlen m s2 of None \<Rightarrow> None
      | Some l2 \<Rightarrow> if l2 = 0 then Some (Some s1)
        else map_option (\<lambda>l1. strstr_loop m s1 s2 l2 l1) (rt_strlen m s1))"

subsection \<open>Copies from the heap, and aligned blocks\<close>

text \<open>\<open>malloc\<close> is \<open>rt_malloc\<close> on a heap \<open>h\<close>; 0 is the null pointer.\<close>

definition rt_strdup :: "(nat \<Rightarrow> 'h \<Rightarrow> nat \<times> 'h) \<Rightarrow> nat \<Rightarrow> 'h \<times> memory \<Rightarrow> (nat \<times> 'h \<times> memory) option" where
  "rt_strdup malloc s = (\<lambda>(h, m).
     case rt_strlen m s of None \<Rightarrow> None
     | Some n \<Rightarrow> let len = n + 1; (tmp, h1) = malloc len h
       in Some (if tmp = 0 then (0, h1, m) else (tmp, h1, rt_memcpy tmp s len m)))"

definition rt_malloc_align :: "(u32 \<Rightarrow> 'h \<Rightarrow> u32 \<times> 'h) \<Rightarrow> u32 \<Rightarrow> u32 \<Rightarrow> 'h \<times> memory \<Rightarrow> u32 \<times> 'h \<times> memory" where
  "rt_malloc_align malloc sz align = (\<lambda>(h, m).
     let align1 = (align + 3) AND NOT 3;
         align_size = ((sz + 3) AND NOT 3) + align1;
         (ptr, h1) = malloc align_size h
     in if ptr \<noteq> 0
        then let align_ptr = (if ptr AND (align1 - 1) = 0 then ptr + align1 else (ptr + (align1 - 1)) AND NOT (align1 - 1))
             in (align_ptr, h1, store32 (unat (align_ptr - 4)) ptr m)
        else (0, h1, m))"

definition rt_free_align :: "(u32 \<Rightarrow> 'h \<Rightarrow> 'h) \<Rightarrow> u32 \<Rightarrow> 'h \<times> memory \<Rightarrow> 'h \<times> memory" where
  "rt_free_align free ptr = (\<lambda>(h, m). (free (load32 m (unat (ptr - 4))) h, m))"

subsection \<open>What filling and copying do\<close>

lemma length_word_bytes [simp]: "length (word_bytes w) = 4"
  by (simp add: word_bytes_def)

lemma store32_patch: "store32 a w m = patch m a (word_bytes w)"
  by (auto simp: store32_def patch_def word_bytes_def fun_eq_iff nth_Cons' numeral_eq_Suc)

lemma bytes_word_parts:
  "ucast (bytes_word b0 b1 b2 b3) = b0" "ucast (drop_bit 8 (bytes_word b0 b1 b2 b3)) = b1"
  "ucast (drop_bit 16 (bytes_word b0 b1 b2 b3)) = b2" "ucast (drop_bit 24 (bytes_word b0 b1 b2 b3)) = b3"
proof -
  have h: "\<not> bit b (8 + n)" "\<not> bit b (16 + n)" "\<not> bit b (24 + n)" for b :: u8 and n using bit_imp_le_length[of b] by fastforce+
  show "ucast (bytes_word b0 b1 b2 b3) = b0" "ucast (drop_bit 8 (bytes_word b0 b1 b2 b3)) = b1"
    "ucast (drop_bit 16 (bytes_word b0 b1 b2 b3)) = b2" "ucast (drop_bit 24 (bytes_word b0 b1 b2 b3)) = b3"
    by (auto intro!: bit_word_eqI simp: bytes_word_def bit_simps h)
qed

lemma word_bytes_load32: "word_bytes (load32 m a) = map m [a..<a + 4]"
proof -
  have "[a..<a + 4] = [a, a + 1, a + 2, a + 3]" by (simp add: upt_conv_Cons numeral_eq_Suc)
  then show ?thesis by (simp add: word_bytes_def load32_def bytes_word_parts)
qed

text \<open>A block copied, seen at once. Copies of adjacent parts make a copy of the whole, where source and target allow it.\<close>

definition copied :: "nat \<Rightarrow> nat \<Rightarrow> nat \<Rightarrow> memory \<Rightarrow> memory" where
  "copied d s n m = patch m d (map m [s..<s + n])"

lemma copied_at: "copied d s n m i = (if d \<le> i \<and> i < d + n then m (s + (i - d)) else m i)"
  by (auto simp: copied_def patch_def)

lemma copied_word: "store32 d (load32 m s) m = copied d s 4 m"
  by (simp add: store32_patch word_bytes_load32 copied_def)

lemma copied_append:
  assumes "d \<le> s \<or> s + (j + k) \<le> d"
  shows "copied (d + j) (s + j) k (copied d s j m) = copied d s (j + k) m"
  using assms by (auto simp: fun_eq_iff copied_at)

lemma copied_0 [simp]: "copied d s 0 m = m"
  by (simp add: copied_def)

lemma copy_up_copied: "d \<le> s \<or> s + n \<le> d \<Longrightarrow> copy_up d s n m = copied d s n m"
proof (induction n arbitrary: d s m)
  case (Suc n)
  have "m(d := m s) = copied d s 1 m" by (auto simp: fun_eq_iff copied_at)
  then have "copy_up d s (Suc n) m = copied (d + 1) (s + 1) n (copied d s 1 m)" using Suc by auto
  also have "\<dots> = copied d s (1 + n) m" using Suc.prems by (intro copied_append) auto
  finally show ?case by simp
qed simp

lemma copy_down_copied: "s < d \<Longrightarrow> copy_down d s n m = copied d s n m"
proof (induction n arbitrary: m)
  case (Suc n)
  have "copied d s n (m(d + n := m (s + n))) = copied d s (Suc n) m" using Suc.prems by (auto simp: fun_eq_iff copied_at le_less_Suc_eq)
  then show ?case using Suc by simp
qed simp

lemma memcpy_words_copied:
  assumes "d \<le> s \<or> s + len \<le> d"
  shows "\<exists>k\<le>len. memcpy_words (d, s, len, m) = (d + k, s + k, len - k, copied d s k m)"
  using assms
proof (induction "(d, s, len, m)" arbitrary: d s len m rule: memcpy_words.induct)
  case (1 d s len m)
  show ?case
  proof (cases "len \<ge> 4")
    case True
    then obtain k where k: "k \<le> len - 4" "memcpy_words (d + 4, s + 4, len - 4, copied d s 4 m) =
        (d + 4 + k, s + 4 + k, len - 4 - k, copied (d + 4) (s + 4) k (copied d s 4 m))"
      using 1(1)[OF True] 1(2) by (auto simp: copied_word)
    moreover have "copied (d + 4) (s + 4) k (copied d s 4 m) = copied d s (4 + k) m"
      using 1(2) k(1) True by (intro copied_append) auto
    ultimately show ?thesis using True by (intro exI[of _ "4 + k"]) (simp add: copied_word add.assoc memcpy_words.simps[of d])
  qed (use 1 in \<open>auto intro: exI[of _ 0] simp: memcpy_words.simps[of d]\<close>)
qed

lemma memcpy_blocks_copied:
  assumes "d \<le> s \<or> s + len \<le> d"
  shows "\<exists>k\<le>len. memcpy_blocks (d, s, len, m) = (d + k, s + k, len - k, copied d s k m)"
  using assms
proof (induction "(d, s, len, m)" arbitrary: d s len m rule: memcpy_blocks.induct)
  case (1 d s len m)
  show ?case
  proof (cases "len \<ge> 16")
    case True
    have c: "copied (d + j) (s + j) 4 (copied d s j m) = copied d s (j + 4) m" if "j \<le> 12" for j
      using 1(2) True that by (intro copied_append) auto
    have b: "store32 (d + 12) (load32 m3 (s + 12)) m3 = copied d s 16 m"
      if "m3 = store32 (d + 8) (load32 m2 (s + 8)) m2" "m2 = store32 (d + 4) (load32 m1 (s + 4)) m1" "m1 = store32 d (load32 m s) m" for m1 m2 m3
      using c[of 4] c[of 8] c[of 12] by (simp add: that copied_word)
    have "d + 16 \<le> s + 16 \<or> s + 16 + (len - 16) \<le> d + 16" using 1(2) True by auto
    then obtain k where k: "k \<le> len - 16" "memcpy_blocks (d + 16, s + 16, len - 16, copied d s 16 m) =
        (d + 16 + k, s + 16 + k, len - 16 - k, copied (d + 16) (s + 16) k (copied d s 16 m))"
      using 1(1)[OF True refl refl refl refl] unfolding b[OF refl refl refl] by blast
    moreover have "copied (d + 16) (s + 16) k (copied d s 16 m) = copied d s (16 + k) m"
      using 1(2) k(1) True by (intro copied_append) auto
    moreover have "memcpy_blocks (d, s, len, m) = memcpy_blocks (d + 16, s + 16, len - 16, copied d s 16 m)"
      using True b[OF refl refl refl] by (simp add: Let_def memcpy_blocks.simps[of d])
    ultimately show ?thesis using True by (intro exI[of _ "16 + k"]) (simp add: add.assoc)
  qed (use 1 in \<open>auto intro: exI[of _ 0] simp: memcpy_blocks.simps[of d]\<close>)
qed

lemma rt_memcpy_copied:
  assumes "dst \<le> src \<or> src + count \<le> dst"
  shows "rt_memcpy dst src count m = copied dst src count m"
proof (cases "\<not> count < 16 \<and> \<not> (src mod 4 \<noteq> 0 \<or> dst mod 4 \<noteq> 0)")
  case True
  obtain j where j: "j \<le> count" "memcpy_blocks (dst, src, count, m) = (dst + j, src + j, count - j, copied dst src j m)"
    using memcpy_blocks_copied[OF assms, of m] by blast
  have a: "dst + j \<le> src + j \<or> src + j + (count - j) \<le> dst + j" using assms j(1) by auto
  obtain k where k: "k \<le> count - j" "memcpy_words (dst + j, src + j, count - j, copied dst src j m) =
      (dst + j + k, src + j + k, count - j - k, copied (dst + j) (src + j) k (copied dst src j m))"
    using memcpy_words_copied[OF a, of "copied dst src j m"] by blast
  have c: "copied (dst + j) (src + j) k (copied dst src j m) = copied dst src (j + k) m"
    using assms j(1) k(1) by (intro copied_append) auto
  have "rt_memcpy dst src count m = copy_up (dst + (j + k)) (src + (j + k)) (count - (j + k)) (copied dst src (j + k) m)"
    using True j(2) k(2) by (simp add: rt_memcpy_def c add.assoc)
  also have "\<dots> = copied (dst + (j + k)) (src + (j + k)) (count - (j + k)) (copied dst src (j + k) m)"
    using assms j(1) k(1) by (intro copy_up_copied) auto
  also have "\<dots> = copied dst src (j + k + (count - (j + k))) m"
    using assms j(1) k(1) by (intro copied_append) auto
  finally show ?thesis using j(1) k(1) by simp
qed (use assms in \<open>auto simp: rt_memcpy_def copy_up_copied\<close>)

lemma rt_memmove_copied: "rt_memmove dest src n m = copied dest src n m"
  by (auto simp: rt_memmove_def copy_down_copied copy_up_copied)

text \<open>A block filled.\<close>

definition filled :: "u8 \<Rightarrow> nat \<Rightarrow> nat \<Rightarrow> memory \<Rightarrow> memory" where
  "filled d a n m = patch m a (replicate n d)"

lemma filled_append: "filled d (a + j) k (filled d a j m) = filled d a (j + k) m"
  using patch_append[of m a "replicate j d" "replicate k d"] by (simp add: filled_def replicate_add)

lemma memset_bytes_filled: "memset_bytes d a n m = filled d a n m"
proof (induction n arbitrary: a m)
  case (Suc n)
  have "m(a := d) = filled d a 1 m" by (simp add: filled_def patch_one)
  then show ?case using Suc filled_append[of d a 1 n m] by simp
qed (simp add: filled_def)

lemma memset_words_filled:
  assumes "\<And>a m. store32 a buffer m = filled d a 4 m"
  shows "\<exists>k\<le>count. memset_words buffer (a, count, m) = (a + k, count - k, filled d a k m)"
  using assms
proof (induction buffer "(a, count, m)" arbitrary: a count m rule: memset_words.induct)
  case (1 buffer a count m)
  note st = 1(2)
  show ?case
  proof (cases "count \<ge> 4")
    case True
    obtain k where "k \<le> count - 4" "memset_words buffer (a + 4, count - 4, filled d a 4 m) = (a + 4 + k, count - 4 - k, filled d (a + 4) k (filled d a 4 m))"
      using 1(1)[OF True st] unfolding st by blast
    then show ?thesis using True
      by (intro exI[of _ "4 + k"]) (simp add: memset_words.simps[of buffer a] st filled_append add.assoc)
  qed (auto intro: exI[of _ 0] simp: memset_words.simps[of buffer a] filled_def)
qed

lemma memset_blocks_filled:
  assumes "\<And>a m. store32 a buffer m = filled d a 4 m"
  shows "\<exists>k\<le>count. memset_blocks buffer (a, count, m) = (a + k, count - k, filled d a k m)"
  using assms
proof (induction buffer "(a, count, m)" arbitrary: a count m rule: memset_blocks.induct)
  case (1 buffer a count m)
  note st = 1(2)
  have b: "store32 (a + 12) buffer (store32 (a + 8) buffer (store32 (a + 4) buffer (store32 a buffer m))) = filled d a 16 m"
    using filled_append[of d a 4 4 m] filled_append[of d a 8 4 m] filled_append[of d a 12 4 m] by (simp add: st)
  show ?case
  proof (cases "count \<ge> 4 * 4")
    case True
    obtain k where "k \<le> count - 16" "memset_blocks buffer (a + 16, count - 16, filled d a 16 m) = (a + 16 + k, count - 16 - k, filled d (a + 16) k (filled d a 16 m))"
      using 1(1)[OF True st] unfolding b by auto
    then show ?thesis using True b
      by (intro exI[of _ "16 + k"]) (simp add: memset_blocks.simps[of buffer a] filled_append add.assoc)
  qed (auto intro: exI[of _ 0] simp: memset_blocks.simps[of buffer a] filled_def)
qed

lemma low_byte: "bit (c AND 0xff) i \<longleftrightarrow> i < 8 \<and> bit c i" for c :: u32
proof -
  have "(0xff :: u32) = mask 8" by (simp add: mask_eq_exp_minus_1)
  then show ?thesis by (auto simp only: bit_and_iff bit_mask_iff possible_bit_word dest: bit_imp_le_length)
qed

lemma store32_fill:
  fixes c :: u32
  defines "d \<equiv> c AND 0xff"
  shows "store32 a ((push_bit 8 d OR d) OR push_bit 16 (push_bit 8 d OR d)) m = filled (ucast d) a 4 m"
proof -
  let ?w = "(push_bit 8 d OR d) OR push_bit 16 (push_bit 8 d OR d)"
  have d: "bit d i \<longleftrightarrow> i < 8 \<and> bit c i" for i unfolding d_def by (rule low_byte)
  have "ucast ?w = (ucast d :: u8)" "ucast (drop_bit 8 ?w) = (ucast d :: u8)" "ucast (drop_bit 16 ?w) = (ucast d :: u8)"
    "ucast (drop_bit 24 ?w) = (ucast d :: u8)"
    by (rule bit_word_eqI, auto simp: bit_simps d)+
  then have "word_bytes ?w = replicate 4 (ucast d)" by (simp add: word_bytes_def numeral_eq_Suc)
  then show ?thesis by (simp add: store32_patch filled_def)
qed

lemma rt_memset_filled: "rt_memset s c count m = filled (ucast c) s count m"
proof -
  let ?d = "c AND 0xff" and ?w = "(push_bit 8 (c AND 0xff) OR (c AND 0xff)) OR push_bit 16 (push_bit 8 (c AND 0xff) OR (c AND 0xff))"
  have u: "(ucast ?d :: u8) = ucast c"
    by (rule bit_word_eqI) (simp add: bit_ucast_iff low_byte)
  obtain j where j: "j \<le> count" "memset_blocks ?w (s, count, m) = (s + j, count - j, filled (ucast ?d) s j m)"
    using memset_blocks_filled[OF store32_fill] by blast
  obtain k where k: "k \<le> count - j" "memset_words ?w (s + j, count - j, filled (ucast ?d) s j m) =
      (s + j + k, count - j - k, filled (ucast ?d) (s + j) k (filled (ucast ?d) s j m))"
    using memset_words_filled[OF store32_fill] by blast
  have n: "j + k + (count - (j + k)) = count" using j(1) k(1) by simp
  have "filled (ucast ?d) (s + j + k) (count - j - k) (filled (ucast ?d) (s + j) k (filled (ucast ?d) s j m)) = filled (ucast ?d) s count m"
    using filled_append[of "ucast ?d" s "j + k" "count - (j + k)" m] n by (simp add: filled_append add.assoc)
  then show ?thesis using j(2) k(2) by (simp add: rt_memset_def memset_bytes_filled Let_def u)
qed

subsection \<open>What comparing does\<close>

lemma rt_memcmp_eq: "rt_memcmp m a b n = 0 \<longleftrightarrow> map m [a..<a + n] = map m [b..<b + n]"
  by (induction n arbitrary: a b) (auto simp: Let_def upt_conv_Cons word_uint_eq_iff simp del: upt_Suc)

text \<open>A string that ends with a 0.\<close>

definition c_string :: "memory \<Rightarrow> nat \<Rightarrow> u8 list \<Rightarrow> bool" where
  "c_string m s cs \<longleftrightarrow> holds m s (cs @ [0]) \<and> 0 \<notin> set cs"

lemma c_string_simps [simp]:
  "c_string m s [] \<longleftrightarrow> m s = 0" "c_string m s (c # cs) \<longleftrightarrow> m s = c \<and> c \<noteq> 0 \<and> c_string m (Suc s) cs"
  by (auto simp: c_string_def)

lemma c_string_drop: "c_string m s cs \<Longrightarrow> i \<le> length cs \<Longrightarrow> c_string m (s + i) (drop i cs)"
proof (induction i arbitrary: s cs)
  case (Suc i)
  then show ?case using Suc.IH[of "Suc s" "tl cs"] by (cases cs) auto
qed simp

lemma c_string_bytes: "c_string m s cs \<Longrightarrow> n \<le> length cs \<Longrightarrow> map m [s..<s + n] = take n cs"
proof (induction n arbitrary: s cs)
  case (Suc n)
  then show ?case using Suc.IH[of "Suc s" "tl cs"] by (cases cs) (simp_all add: upt_conv_Cons del: upt_Suc)
qed simp

lemma rt_strlen_string:
  assumes "c_string m s cs"
  shows "rt_strlen m s = Some (length cs)"
proof -
  have "strlen_from m s sc = Some (sc - s + length cs)" if "c_string m sc cs" "s \<le> sc" for sc
    using that
  proof (induction cs arbitrary: sc)
    case (Cons c cs)
    then show ?case by (subst strlen_from.simps) auto
  qed (simp add: strlen_from.simps)
  from this[OF assms] show ?thesis by (simp add: rt_strlen_def)
qed

lemma rt_strnlen_string: "c_string m s cs \<Longrightarrow> rt_strnlen m s n = min n (length cs)"
proof (induction n arbitrary: s cs)
  case (Suc n)
  then show ?case using Suc.IH[of "Suc s" "tl cs"] by (cases cs) auto
qed simp

text \<open>\<open>rt_strcmp\<close> orders strings as dictionaries do.\<close>

lemma rt_strcmp_order:
  assumes "c_string m a xs" "c_string m b ys"
  obtains r where "rt_strcmp m a b = Some r" "r = 0 \<longleftrightarrow> xs = ys" "r < 0 \<longleftrightarrow> ord_class.lexordp xs ys"
  using assms
proof (induction xs arbitrary: a b ys thesis)
  case Nil
  then show ?case by (cases ys) (auto intro!: Nil(1) simp: rt_strcmp.simps[of m a] word_less_def word_neq_0_conv)
next
  case (Cons x xs)
  show ?case
  proof (cases "m b = x")
    case True
    then obtain y zs where ys: "ys = x # zs" "c_string m (Suc b) zs" using Cons.prems(2,3) by (cases ys) auto
    obtain r where "rt_strcmp m (Suc a) (Suc b) = Some r" "r = 0 \<longleftrightarrow> xs = zs" "r < 0 \<longleftrightarrow> ord_class.lexordp xs zs"
      by (rule Cons.IH[of "Suc a" "Suc b" zs]) (use Cons.prems(2) ys in auto)
    then show ?thesis using Cons.prems(2) ys True by (intro Cons.prems(1)[of r]) (simp_all add: rt_strcmp.simps[of m a])
  next
    case False
    then show ?thesis using Cons.prems(2,3)
      by (cases ys) (auto intro!: Cons.prems(1) simp: rt_strcmp.simps[of m a] word_less_def word_uint_eq_iff)
  qed
qed

lemma lower_case_0: "lower_case c = 0 \<longleftrightarrow> c = 0"
  by (auto simp: lower_case_def word_le_nat_alt word_unat_eq_iff unat_word_ariths split: if_splits)

lemma ucast_8_32: "(ucast (c :: u8) :: u32) = ucast d \<longleftrightarrow> c = d"
proof -
  have "take_bit 32 (unat c) = unat c" for c :: u8
  proof -
    have "unat c < 2 ^ LENGTH(8)" by (rule unsigned_less)
    then show ?thesis by (simp add: take_bit_nat_eq_self)
  qed
  then show ?thesis by (simp add: word_unat_eq_iff unsigned_ucast_eq)
qed

lemma rt_strcasecmp_eq:
  assumes "c_string m a xs" "c_string m b ys"
  obtains r where "rt_strcasecmp m a b = Some r" "r = 0 \<longleftrightarrow> map lower_case xs = map lower_case ys"
  using assms
proof (induction xs arbitrary: a b ys thesis)
  case Nil
  have "lower_case 0 = 0" by (simp add: lower_case_0)
  then show ?case using Nil(2,3) lower_case_0[of "m b"] ucast_8_32[of "lower_case (m b)" 0]
    by (cases ys) (auto intro!: Nil(1) simp: rt_strcasecmp.simps[of m a])
next
  case (Cons x xs)
  show ?case
  proof (cases "lower_case (m b) = lower_case x")
    case True
    then have "m b \<noteq> 0" using Cons.prems(2) lower_case_0[of x] lower_case_0[of "m b"] by auto
    then obtain y zs where ys: "ys = y # zs" "m b = y" "c_string m (Suc b) zs" using Cons.prems(3) by (cases ys) auto
    obtain r where "rt_strcasecmp m (Suc a) (Suc b) = Some r" "r = 0 \<longleftrightarrow> map lower_case xs = map lower_case zs"
      by (rule Cons.IH[of "Suc a" "Suc b" zs]) (use Cons.prems(2) ys in auto)
    then show ?thesis using Cons.prems(2) ys True lower_case_0[of x]
      by (intro Cons.prems(1)[of r]) (simp_all add: rt_strcasecmp.simps[of m a])
  next
    case False
    then show ?thesis using Cons.prems(2,3) lower_case_0[of "m b"] lower_case_0[of x] ucast_8_32[of "lower_case x" "lower_case (m b)"]
      by (cases ys) (auto intro!: Cons.prems(1) simp: rt_strcasecmp.simps[of m a])
  qed
qed

text \<open>\<open>rt_strstr\<close> finds the first place where the second string occurs in the first.\<close>

definition occurs_at :: "u8 list \<Rightarrow> u8 list \<Rightarrow> nat \<Rightarrow> bool" where
  "occurs_at xs ys i \<longleftrightarrow> i + length ys \<le> length xs \<and> take (length ys) (drop i xs) = ys"

lemma strstr_loop_finds:
  assumes "c_string m a xs" "c_string m b ys" "ys \<noteq> []" "i \<le> length xs"
  shows "strstr_loop m (a + i) b (length ys) (length xs - i) = map_option ((+) a) (find (occurs_at xs ys) [i..<Suc (length xs)])"
  using assms(4)
proof (induction "length xs - i" arbitrary: i)
  case 0
  then show ?case using assms(3) by (simp add: occurs_at_def)
next
  case (Suc n)
  have i: "i < length xs" "length xs - i = Suc (length xs - Suc i)" using Suc(2) by auto
  have c: "rt_memcmp m (a + i) b (length ys) = 0 \<longleftrightarrow> take (length ys) (drop i xs) = ys" if "i + length ys \<le> length xs"
    using c_string_bytes[OF c_string_drop[OF assms(1)], of i "length ys"] c_string_bytes[OF assms(2), of "length ys"] that
    by (simp add: rt_memcmp_eq)
  have late: "find (occurs_at xs ys) [i..<Suc (length xs)] = None" if "\<not> i + length ys \<le> length xs"
    using that by (auto simp: find_None_iff occurs_at_def)
  have "[i..<Suc (length xs)] = i # [Suc i..<Suc (length xs)]" using i by (simp add: upt_conv_Cons del: upt_Suc)
  moreover have "n = length xs - Suc i" using Suc(2) by simp
  then have "strstr_loop m (Suc (a + i)) b (length ys) (length xs - Suc i) = map_option ((+) a) (find (occurs_at xs ys) [Suc i..<Suc (length xs)])"
    using Suc(1)[of "Suc i"] i(1) by simp
  ultimately show ?case using i c late by (auto simp: occurs_at_def simp del: upt_Suc)
qed

lemma rt_strstr_first:
  assumes "c_string m a xs" "c_string m b ys"
  shows "rt_strstr m a b = Some (map_option ((+) a) (find (occurs_at xs ys) [0..<Suc (length xs)]))"
proof (cases "ys = []")
  case True
  have "[0..<Suc (length xs)] = 0 # [Suc 0..<Suc (length xs)]" by (simp add: upt_conv_Cons del: upt_Suc)
  then show ?thesis using True rt_strlen_string[OF assms(2)] by (simp add: rt_strstr_def occurs_at_def del: upt_Suc)
next
  case False
  then show ?thesis using strstr_loop_finds[OF assms False, of 0] rt_strlen_string[OF assms(1)] rt_strlen_string[OF assms(2)]
    by (simp add: rt_strstr_def del: upt_Suc)
qed

subsection \<open>Aligned blocks\<close>

lemma and_not_mask: "unat (x AND NOT (2 ^ k - 1)) = unat x div 2 ^ k * 2 ^ k" for x :: u32
proof -
  have m: "(2 ^ k - 1 :: u32) = mask k" by (simp add: mask_eq_exp_minus_1)
  have "x AND NOT (mask k) = push_bit k (drop_bit k x)"
    by (rule bit_word_eqI) (auto simp: bit_simps)
  moreover have "unat x div 2 ^ k * 2 ^ k \<le> unat x" by simp
  then have "unat x div 2 ^ k * 2 ^ k < 2 ^ LENGTH(32)" using unsigned_less[of x] le_less_trans by blast
  moreover have "unat (push_bit k (drop_bit k x)) = take_bit LENGTH(32) (push_bit k (drop_bit k (unat x)))"
    unfolding unsigned_push_bit_eq unsigned_drop_bit_eq by (simp only: take_bit_nat_eq_self[OF unsigned_less])
  ultimately show ?thesis unfolding m by (simp only: push_bit_eq_mult drop_bit_eq_div take_bit_nat_eq_self)
qed

lemma and_mask: "x AND (2 ^ k - 1) = 0 \<longleftrightarrow> unat x mod 2 ^ k = 0" for x :: u32
proof -
  have "x AND (2 ^ k - 1) = take_bit k x" by (simp add: take_bit_eq_mask mask_eq_exp_minus_1)
  moreover have "unat (take_bit k x) = take_bit k (unat x)" by (rule unsigned_take_bit_eq)
  then have "unat (take_bit k x) = unat x mod 2 ^ k" unfolding take_bit_eq_mod[of k "unat x"] .
  ultimately show ?thesis by (metis unsigned_eq_0_iff)
qed

lemma word_bytes_inj:
  assumes "word_bytes x = word_bytes y"
  shows "x = y"
proof (rule bit_word_eqI)
  fix i assume i: "i < LENGTH(32)"
  have b: "bit w i \<longleftrightarrow> bit (ucast (drop_bit k w) :: u8) (i - k)" if "k \<le> i" "i < k + 8" for k and w :: u32
    using that by (simp add: bit_ucast_iff bit_drop_bit_eq less_diff_conv2)
  consider "0 \<le> i" "i < 0 + 8" | "8 \<le> i" "i < 8 + 8" | "16 \<le> i" "i < 16 + 8" | "24 \<le> i" "i < 24 + 8" using i by fastforce
  then show "bit x i = bit y i"
    by cases (use assms b[of 0] b[of 8] b[of 16] b[of 24] in \<open>simp_all add: word_bytes_def\<close>)
qed

text \<open>What \<open>rt_malloc_align\<close> returns is aligned, leaves room for the request in the block, and leads back to the block.\<close>

lemma rt_malloc_align_fits:
  assumes r: "malloc ((sz + 3 AND NOT 3) + 2 ^ k) h = (ptr, h1)" and k: "2 \<le> k" "k < 32" and p: "ptr \<noteq> 0" "unat ptr mod 4 = 0"
    and fit: "unat ptr + (unat sz + 3 + 2 ^ k) < 2 ^ 32"
    and a: "rt_malloc_align malloc sz (2 ^ k) (h, m) = (q, h2, m2)"
  shows "unat q mod 2 ^ k = 0 \<and> unat ptr + 4 \<le> unat q \<and> unat q + unat sz \<le> unat ptr + unat ((sz + 3 AND NOT 3) + 2 ^ k)
    \<and> h2 = h1 \<and> load32 m2 (unat (q - 4)) = ptr"
proof -
  have P: "(2 :: nat) ^ k = 4 * 2 ^ (k - 2)" using k(1) by (metis add_diff_inverse_nat not_less power_add power2_eq_square numeral_Bit0 mult_2 one_add_one power_one_right)
  have u: "unat (2 ^ k :: u32) = 2 ^ k" using k(2) unsigned_push_bit_eq[of k "1 :: u32", where ?'a = nat]
    by (simp add: take_bit_nat_eq_self)
  have n3: "(NOT 3 :: u32) = NOT (2 ^ 2 - 1)" by simp
  have s3: "unat (sz + 3) = unat sz + 3" using fit by (simp add: unat_word_ariths)
  have s: "unat (sz + 3 AND NOT 3) = (unat sz + 3) div 4 * 4" unfolding n3 and_not_mask s3 by simp
  have al: "(2 ^ k + 3 AND NOT 3 :: u32) = 2 ^ k"
  proof -
    have "unat (2 ^ k + 3 :: u32) = 2 ^ k + 3" using fit u by (simp add: unat_word_ariths)
    then have "unat (2 ^ k + 3 AND NOT 3 :: u32) = (2 ^ k + 3) div 4 * 4" unfolding n3 and_not_mask by simp
    also have "\<dots> = 2 ^ k" unfolding P by simp
    finally show ?thesis using u by (simp add: word_unat_eq_iff)
  qed
  have total: "unat ((sz + 3 AND NOT 3) + 2 ^ k) = (unat sz + 3) div 4 * 4 + 2 ^ k" using fit s u by (simp add: unat_word_ariths)
  let ?q = "if ptr AND (2 ^ k - 1) = 0 then ptr + 2 ^ k else (ptr + (2 ^ k - 1)) AND NOT (2 ^ k - 1)"
  have q: "q = ?q" "h2 = h1" "m2 = store32 (unat (q - 4)) ptr m" using a p(1) unfolding rt_malloc_align_def Let_def split al r by auto
  have "unat q mod 2 ^ k = 0 \<and> unat ptr + 4 \<le> unat q \<and> unat q \<le> unat ptr + 2 ^ k"
  proof (cases "unat ptr mod 2 ^ k = 0")
    case True
    then have "unat q = unat ptr + 2 ^ k" using q(1) fit u by (simp add: and_mask unat_word_ariths)
    then show ?thesis using True P by simp
  next
    case False
    have o: "unat (2 ^ k - 1 :: u32) = 2 ^ k - 1" using u by (simp add: unat_sub_if')
    have "unat (ptr + (2 ^ k - 1)) = unat ptr + (2 ^ k - 1)" using fit unfolding unat_word_ariths o by simp
    then have v: "unat q = (unat ptr + (2 ^ k - 1)) div 2 ^ k * 2 ^ k" using q(1) False by (simp add: and_mask and_not_mask)
    then have b: "unat q \<le> unat ptr + (2 ^ k - 1)" by simp
    have "unat ptr + (2 ^ k - 1) < unat q + 2 ^ k" unfolding v
      by (metis add.commute div_mult_mod_eq mod_less_divisor nat_add_left_cancel_less zero_less_numeral zero_less_power)
    then have g: "unat ptr \<le> unat q" by simp
    have z: "unat q mod 2 ^ k = 0" unfolding v by simp
    with False have "unat ptr \<noteq> unat q" by metis
    moreover have "unat q mod 4 = 0" using z unfolding P by (metis mod_mult_self1_is_0 mod_mod_cancel dvd_triv_left mod_0_imp_dvd dvd_trans dvd_imp_mod_0)
    ultimately have "unat ptr + 4 \<le> unat q" using g p(2) by presburger
    then show ?thesis using z b by simp
  qed
  moreover have "unat sz \<le> (unat sz + 3) div 4 * 4" by presburger
  moreover have "load32 m2 (unat (q - 4)) = ptr"
  proof -
    have "word_bytes (load32 (store32 b w m) b) = word_bytes w" for b w
      unfolding word_bytes_load32 store32_patch using holds_patch[of m b "word_bytes w"] unfolding holds_iff by simp
    then show ?thesis unfolding q(3) by (rule word_bytes_inj)
  qed
  ultimately show ?thesis using q(2) unfolding total by linarith
qed

end
