(* ===== verification/RT_Printf.thy ===== *)
theory RT_Printf
  imports RT_String
begin

text \<open>
  Formatted output of \<open>src/kservice.c\<close>: \<open>rt_vsnprintf\<close> and what is built on it. \<open>RT_PRINTF_PRECISION\<close> is on (the file defines it),
  \<open>RT_PRINTF_SPECIAL\<close> and \<open>RT_PRINTF_LONGLONG\<close> are off. A format is the list of its characters without the
  final 0; the output goes byte by byte to memory. Widths are mathematical integers: a width that overflows
  \<open>int\<close> is undefined in C. \<open>None\<close> is an argument that is missing or of the wrong kind.
\<close>

subsection \<open>Characters, flags and arguments\<close>

record print_flags =
  ZEROPAD :: bool
  SIGN :: bool
  PLUS :: bool
  SPACE :: bool
  LEFT :: bool
  SPECIAL :: bool
  LARGE :: bool

definition no_flags :: print_flags where
  "no_flags = \<lparr>ZEROPAD = False, SIGN = False, PLUS = False, SPACE = False, LEFT = False, SPECIAL = False, LARGE = False\<rparr>"

datatype va_arg = Word_arg u32 | Str_arg "string option"

definition isdigit :: "char \<Rightarrow> bool" where
  "isdigit c \<longleftrightarrow> (of_char c - 48 :: u32) < 10"

fun skip_atoi :: "int \<Rightarrow> string \<Rightarrow> int \<times> string" where
  "skip_atoi i [] = (i, [])"
| "skip_atoi i (c # cs) = (if isdigit c then skip_atoi (i * 10 + of_char c - 48) cs else (i, c # cs))"

subsection \<open>Bytes to memory\<close>

text \<open>Nothing is written behind \<open>end\<close>, but the pointer goes on.\<close>

definition put :: "nat \<Rightarrow> char \<Rightarrow> memory \<times> nat \<Rightarrow> memory \<times> nat" where
  "put lim c = (\<lambda>(m, str). (if str \<le> lim then m(str := of_char c) else m, str + 1))"

definition put_many :: "nat \<Rightarrow> char \<Rightarrow> int \<Rightarrow> memory \<times> nat \<Rightarrow> memory \<times> nat" where
  "put_many lim c n o1 = (put lim c ^^ nat n) o1"

definition put_text :: "nat \<Rightarrow> string \<Rightarrow> memory \<times> nat \<Rightarrow> memory \<times> nat" where
  "put_text lim cs o1 = fold (put lim) cs o1"

subsection \<open>Numbers\<close>

text \<open>Every base but 10 is taken for 16.\<close>

definition divide :: "u32 \<Rightarrow> nat \<Rightarrow> u32 \<times> u32" where
  "divide n base = (if base = 10 then (n mod 10, n div 10) else (n mod 16, n div 16))"

lemma divide_less: "n \<noteq> 0 \<Longrightarrow> unat (snd (divide n base)) < unat n"
proof -
  assume "n \<noteq> 0"
  then have "0 < unat n" by (simp add: unat_gt_0)
  then show ?thesis by (simp add: divide_def unat_div)
qed

function number_digits :: "string \<Rightarrow> nat \<Rightarrow> u32 \<Rightarrow> string" where
  "number_digits digits base num =
     (if num = 0 then [] else digits ! unat (fst (divide num base)) # number_digits digits base (snd (divide num base)))"
  by pat_completeness auto
termination by (relation "measure (\<lambda>(_, _, num). unat num)") (auto simp: divide_less)

declare number_digits.simps [simp del]

definition small_digits :: string where "small_digits = ''0123456789abcdef''"
definition large_digits :: string where "large_digits = ''0123456789ABCDEF''"

text \<open>The sign and the absolute value.\<close>

definition number_sign :: "print_flags \<Rightarrow> u32 \<Rightarrow> string \<times> u32" where
  "number_sign type num =
     (if SIGN type then if sint num < 0 then (''-'', - num) else if PLUS type then (''+'', num) else if SPACE type then ('' '', num) else ('''', num)
      else ('''', num))"

definition print_number :: "nat \<Rightarrow> u32 \<Rightarrow> nat \<Rightarrow> int \<Rightarrow> int \<Rightarrow> print_flags \<Rightarrow> memory \<times> nat \<Rightarrow> memory \<times> nat" where
  "print_number lim num base s precision type buf =
     (let digits = if LARGE type then large_digits else small_digits;
          zeropad = ZEROPAD type \<and> \<not> LEFT type;
          c = if zeropad then CHR ''0'' else CHR '' '';
          (sign, num) = number_sign type num;
          tmp = if num = 0 then ''0'' else number_digits digits base num;
          i = int (length tmp);
          precision = if i > precision then i else precision;
          sz = s - precision;
          (buf, sz) = (if \<not> (zeropad \<or> LEFT type)
            then let sz = if sign \<noteq> '''' \<and> sz > 0 then sz - 1 else sz
                 in (put_many lim (CHR '' '') sz buf, if sz > 0 then - 1 else sz - 1)
            else (buf, sz));
          (buf, sz) = (if sign \<noteq> '''' then (put_text lim sign buf, if snd buf \<le> lim then sz - 1 else sz) else (buf, sz));
          (buf, sz) = (if \<not> LEFT type then (put_many lim c sz buf, if sz > 0 then - 1 else sz - 1) else (buf, sz));
          buf = put_many lim (CHR ''0'') (precision - i) buf;
          buf = put_text lim (rev tmp) buf
      in put_many lim (CHR '' '') sz buf)"

subsection \<open>Conversions\<close>

fun get_flags :: "print_flags \<Rightarrow> string \<Rightarrow> print_flags \<times> string" where
  "get_flags f [] = (f, [])"
| "get_flags f (c # fmt) =
     (if c = CHR ''-'' then get_flags (f\<lparr>LEFT := True\<rparr>) fmt
      else if c = CHR ''+'' then get_flags (f\<lparr>PLUS := True\<rparr>) fmt
      else if c = CHR '' '' then get_flags (f\<lparr>SPACE := True\<rparr>) fmt
      else if c = CHR ''#'' then get_flags (f\<lparr>SPECIAL := True\<rparr>) fmt
      else if c = CHR ''0'' then get_flags (f\<lparr>ZEROPAD := True\<rparr>) fmt
      else (f, c # fmt))"

definition int_arg :: "va_arg list \<Rightarrow> (u32 \<times> va_arg list) option" where
  "int_arg args = (case args of Word_arg x # rest \<Rightarrow> Some (x, rest) | _ \<Rightarrow> None)"

definition get_width :: "print_flags \<Rightarrow> string \<Rightarrow> va_arg list \<Rightarrow> (print_flags \<times> int \<times> string \<times> va_arg list) option" where
  "get_width f fmt args =
     (case fmt of
        [] \<Rightarrow> Some (f, - 1, fmt, args)
      | c # rest \<Rightarrow>
        if isdigit c then let (w, fmt1) = skip_atoi 0 fmt in Some (f, w, fmt1, args)
        else if c = CHR ''*''
        then map_option (\<lambda>(x, args1). if sint x < 0 then (f\<lparr>LEFT := True\<rparr>, - sint x, rest, args1) else (f, sint x, rest, args1)) (int_arg args)
        else Some (f, - 1, fmt, args))"

definition get_precision :: "string \<Rightarrow> va_arg list \<Rightarrow> (int \<times> string \<times> va_arg list) option" where
  "get_precision fmt args =
     (case fmt of
        [] \<Rightarrow> Some (- 1, fmt, args)
      | c # fmt1 \<Rightarrow>
        if c = CHR ''.''
        then (case fmt1 of
                [] \<Rightarrow> Some (0, fmt1, args)
              | d # rest \<Rightarrow>
                if isdigit d then let (p, fmt2) = skip_atoi 0 fmt1 in Some (p, fmt2, args)
                else if d = CHR ''*'' then map_option (\<lambda>(x, args1). (max 0 (sint x), rest, args1)) (int_arg args)
                else Some (0, fmt1, args))
        else Some (- 1, fmt, args))"

definition get_qualifier :: "string \<Rightarrow> char option \<times> string" where
  "get_qualifier fmt = (case fmt of c # rest \<Rightarrow> if c = CHR ''h'' \<or> c = CHR ''l'' then (Some c, rest) else (None, fmt) | [] \<Rightarrow> (None, fmt))"

text \<open>The number an integer argument stands for.\<close>

definition arg_number :: "char option \<Rightarrow> print_flags \<Rightarrow> u32 \<Rightarrow> u32" where
  "arg_number q f x = (if q = Some (CHR ''h'') then if SIGN f then scast (ucast x :: u16) else ucast (ucast x :: u16) else x)"

text \<open>\<open>None\<close>: not a conversion of an integer.\<close>

definition integer_format :: "char \<Rightarrow> print_flags \<Rightarrow> (nat \<times> print_flags) option" where
  "integer_format k f =
     (if k = CHR ''o'' then Some (8, f)
      else if k = CHR ''X'' then Some (16, f\<lparr>LARGE := True\<rparr>)
      else if k = CHR ''x'' then Some (16, f)
      else if k = CHR ''d'' \<or> k = CHR ''i'' then Some (10, f\<lparr>SIGN := True\<rparr>)
      else if k = CHR ''u'' then Some (10, f)
      else None)"

definition put_char_arg :: "nat \<Rightarrow> print_flags \<Rightarrow> int \<Rightarrow> u32 \<Rightarrow> memory \<times> nat \<Rightarrow> memory \<times> nat" where
  "put_char_arg lim f w x str =
     (let (str, w) = (if \<not> LEFT f then (put_many lim (CHR '' '') (w - 1) str, if w > 1 then 0 else w - 1) else (str, w));
          str = put lim (char_of (unat (ucast x :: u8))) str
      in put_many lim (CHR '' '') (w - 1) str)"

definition put_string_arg :: "nat \<Rightarrow> print_flags \<Rightarrow> int \<Rightarrow> int \<Rightarrow> string option \<Rightarrow> memory \<times> nat \<Rightarrow> memory \<times> nat" where
  "put_string_arg lim f w precision s str =
     (let s = (case s of None \<Rightarrow> ''(NULL)'' | Some s \<Rightarrow> s);
          len = (if precision > 0 \<and> int (length s) > precision then precision else int (length s));
          (str, w) = (if \<not> LEFT f then (put_many lim (CHR '' '') (w - len) str, if w > len then len - 1 else w - 1) else (str, w));
          str = put_text lim (take (nat len) s) str
      in put_many lim (CHR '' '') (w - len) str)"

definition convert_arg :: "nat \<Rightarrow> char \<Rightarrow> print_flags \<Rightarrow> int \<Rightarrow> int \<Rightarrow> char option \<Rightarrow> va_arg list \<Rightarrow> memory \<times> nat \<Rightarrow> (va_arg list \<times> memory \<times> nat) option" where
  "convert_arg lim k f w precision q args str =
     (if k = CHR ''c'' then map_option (\<lambda>(x, args). (args, put_char_arg lim f w x str)) (int_arg args)
      else if k = CHR ''s'' then (case args of Str_arg s # args \<Rightarrow> Some (args, put_string_arg lim f w precision s str) | _ \<Rightarrow> None)
      else if k = CHR ''p''
      then let (w, f) = (if w = - 1 then (8, f\<lparr>ZEROPAD := True\<rparr>) else (w, f))
           in map_option (\<lambda>(x, args). (args, print_number lim x 16 w precision f str)) (int_arg args)
      else if k = CHR ''%'' then Some (args, put lim (CHR ''%'') str)
      else case integer_format k f of
        Some (base, f) \<Rightarrow> map_option (\<lambda>(x, args). (args, print_number lim (arg_number q f x) base w precision f str)) (int_arg args)
      | None \<Rightarrow> Some (args, put lim k (put lim (CHR ''%'') str)))"

lemma skip_atoi_length: "length (snd (skip_atoi i cs)) \<le> length cs"
  by (induction i cs rule: skip_atoi.induct) auto

lemma get_flags_length: "length (snd (get_flags f fmt)) \<le> length fmt"
  by (induction f fmt rule: get_flags.induct) auto

lemma get_width_length: "get_width f fmt args = Some (f2, w, fmt2, args2) \<Longrightarrow> length fmt2 \<le> length fmt"
  using skip_atoi_length[of 0 fmt] by (auto simp: get_width_def split: list.splits if_splits prod.splits)

lemma get_precision_length: "get_precision fmt args = Some (p, fmt2, args2) \<Longrightarrow> length fmt2 \<le> length fmt"
  using skip_atoi_length[of 0 "tl fmt"] by (auto simp: get_precision_def split: list.splits if_splits prod.splits)

lemma get_qualifier_length: "length (snd (get_qualifier fmt)) \<le> length fmt"
  by (auto simp: get_qualifier_def split: list.splits)

text \<open>What stands between the percent sign and the conversion, and what follows.\<close>

definition directive :: "string \<Rightarrow> va_arg list \<Rightarrow> (print_flags \<times> int \<times> int \<times> char option \<times> string \<times> va_arg list) option" where
  "directive fmt args =
     (let (f, fmt1) = get_flags no_flags fmt in
      case get_width f fmt1 args of None \<Rightarrow> None | Some (f, w, fmt2, args) \<Rightarrow>
      case get_precision fmt2 args of None \<Rightarrow> None | Some (precision, fmt3, args) \<Rightarrow>
      let (q, fmt4) = get_qualifier fmt3 in Some (f, w, precision, q, fmt4, args))"

lemma directive_length: "directive fmt args = Some (f, w, precision, q, fmt4, args') \<Longrightarrow> length fmt4 \<le> length fmt"
  unfolding directive_def
  by (auto split: prod.splits option.splits dest!: get_width_length get_precision_length)
    (metis get_flags_length get_qualifier_length le_trans snd_conv)

text \<open>The loop over the format.\<close>

function format_loop :: "nat \<Rightarrow> string \<Rightarrow> va_arg list \<Rightarrow> memory \<times> nat \<Rightarrow> (memory \<times> nat) option" where
  "format_loop lim [] args str = Some str"
| "format_loop lim (c # fmt) args str =
     (if c \<noteq> CHR ''%'' then format_loop lim fmt args (put lim c str)
      else case directive fmt args of
        None \<Rightarrow> None
      | Some (f, w, precision, q, [], args) \<Rightarrow> Some (put lim (CHR ''%'') str)
      | Some (f, w, precision, q, k # fmt, args) \<Rightarrow>
          (case convert_arg lim k f w precision q args str of
             None \<Rightarrow> None
           | Some (args, str) \<Rightarrow> format_loop lim fmt args str))"
  by pat_completeness auto
termination
  by (relation "measure (\<lambda>(_, fmt, _). length fmt)") (auto dest: directive_length)

declare format_loop.simps(2) [simp del]

definition rt_vsnprintf :: "u32 \<Rightarrow> u32 \<Rightarrow> string \<Rightarrow> va_arg list \<Rightarrow> memory \<Rightarrow> (memory \<times> nat) option" where
  "rt_vsnprintf buf sz fmt args m =
     (let e = buf + sz - 1; lim = unat (if e < buf then - 1 else e)
      in map_option (\<lambda>(m, str). (if str \<le> lim then m(str := 0) else m(lim := 0), str - unat buf)) (format_loop lim fmt args (m, unat buf)))"

definition rt_vsprintf :: "u32 \<Rightarrow> string \<Rightarrow> va_arg list \<Rightarrow> memory \<Rightarrow> (memory \<times> nat) option" where
  "rt_vsprintf buf fmt args m = rt_vsnprintf buf (- 1) fmt args m"

definition rt_snprintf :: "u32 \<Rightarrow> u32 \<Rightarrow> string \<Rightarrow> va_arg list \<Rightarrow> memory \<Rightarrow> (memory \<times> nat) option" where
  "rt_snprintf buf sz fmt args m = rt_vsnprintf buf sz fmt args m"

definition rt_sprintf :: "u32 \<Rightarrow> string \<Rightarrow> va_arg list \<Rightarrow> memory \<Rightarrow> (memory \<times> nat) option" where
  "rt_sprintf buf fmt args m = rt_vsprintf buf fmt args m"

text \<open>What \<open>rt_kprintf\<close> hands to the console device; its buffer \<open>rt_log_buf\<close> has 128 bytes.\<close>

definition rt_kprintf :: "u32 \<Rightarrow> string \<Rightarrow> va_arg list \<Rightarrow> memory \<Rightarrow> (u8 list \<times> memory) option" where
  "rt_kprintf rt_log_buf fmt args m =
     map_option (\<lambda>(m, n). let n = (if n > 128 - 1 then 128 - 1 else n) in (map m [unat rt_log_buf..<unat rt_log_buf + n], m))
       (rt_vsnprintf rt_log_buf (128 - 1) fmt args m)"

end
