(* ===== verification/RT_PrintfText.thy ===== *)
theory RT_PrintfText
  imports RT_Printf
begin

text \<open>
  The text a format stands for, as a function of the format and the arguments alone, and that \<open>rt_vsnprintf\<close> writes
  it: the whole of it where it fits, and otherwise its beginning, never anything outside of the buffer.
\<close>

subsection \<open>The text\<close>

text \<open>\<open>room\<close> is whether the first character still lies in the buffer; where it does not, the code forgets that the sign takes a place.\<close>

definition number_text :: "bool \<Rightarrow> u32 \<Rightarrow> nat \<Rightarrow> int \<Rightarrow> int \<Rightarrow> print_flags \<Rightarrow> string" where
  "number_text room num base w precision type =
     (let (sign, n) = number_sign type num;
          d = rev (if n = 0 then ''0'' else number_digits (if LARGE type then large_digits else small_digits) base n);
          body = replicate (nat (precision - int (length d))) (CHR ''0'') @ d;
          blank = (\<lambda>k c. replicate (nat (w - int (length body) - k)) c);
          len = int (length sign)
      in if LEFT type then sign @ body @ blank (if room then len else 0) (CHR '' '')
         else if ZEROPAD type then sign @ blank (if room then len else 0) (CHR ''0'') @ body
         else blank len (CHR '' '') @ sign @ body)"

definition char_text :: "print_flags \<Rightarrow> int \<Rightarrow> u32 \<Rightarrow> string" where
  "char_text f w x =
     (let c = [char_of (unat (ucast x :: u8))]; blank = replicate (nat (w - 1)) (CHR '' '') in if LEFT f then c @ blank else blank @ c)"

definition string_text :: "print_flags \<Rightarrow> int \<Rightarrow> int \<Rightarrow> string option \<Rightarrow> string" where
  "string_text f w precision s =
     (let s = (case s of None \<Rightarrow> ''(NULL)'' | Some s \<Rightarrow> s);
          t = (if precision > 0 then take (nat precision) s else s);
          blank = replicate (nat (w - int (length t))) (CHR '' '')
      in if LEFT f then t @ blank else blank @ t)"

definition convert_text :: "bool \<Rightarrow> char \<Rightarrow> print_flags \<Rightarrow> int \<Rightarrow> int \<Rightarrow> char option \<Rightarrow> va_arg list \<Rightarrow> (va_arg list \<times> string) option" where
  "convert_text room k f w precision q args =
     (if k = CHR ''c'' then map_option (\<lambda>(x, args). (args, char_text f w x)) (int_arg args)
      else if k = CHR ''s'' then (case args of Str_arg s # args \<Rightarrow> Some (args, string_text f w precision s) | _ \<Rightarrow> None)
      else if k = CHR ''p''
      then let (w, f) = (if w = - 1 then (8, f\<lparr>ZEROPAD := True\<rparr>) else (w, f))
           in map_option (\<lambda>(x, args). (args, number_text room x 16 w precision f)) (int_arg args)
      else if k = CHR ''%'' then Some (args, ''%'')
      else case integer_format k f of
        Some (base, f) \<Rightarrow> map_option (\<lambda>(x, args). (args, number_text room (arg_number q f x) base w precision f)) (int_arg args)
      | None \<Rightarrow> Some (args, [CHR ''%'', k]))"

function format_text :: "string \<Rightarrow> va_arg list \<Rightarrow> string option" where
  "format_text [] args = Some []"
| "format_text (c # fmt) args =
     (if c \<noteq> CHR ''%'' then map_option ((#) c) (format_text fmt args)
      else case directive fmt args of
        None \<Rightarrow> None
      | Some (f, w, precision, q, [], args) \<Rightarrow> Some ''%''
      | Some (f, w, precision, q, k # fmt, args) \<Rightarrow>
          (case convert_text True k f w precision q args of
             None \<Rightarrow> None
           | Some (args, t) \<Rightarrow> map_option ((@) t) (format_text fmt args)))"
  by pat_completeness auto
termination
  by (relation "measure (\<lambda>(fmt, _). length fmt)") (auto dest: directive_length)

declare format_text.simps(2) [simp del]

subsection \<open>What has been put\<close>

definition shown :: "nat \<Rightarrow> nat \<Rightarrow> memory \<Rightarrow> string \<Rightarrow> memory \<times> nat" where
  "shown b lim m out = (patch m b (take (Suc lim - b) (map of_char out)), b + length out)"

lemma put_shown: "put lim c (shown b lim m out) = shown b lim m (out @ [c])"
proof (cases "b + length out \<le> lim")
  case True
  then have "Suc (length out) \<le> Suc lim - b" by simp
  then show ?thesis using True patch_append[of m b "map of_char out" "[of_char c]"]
    by (simp add: put_def shown_def patch_one)
qed (simp add: put_def shown_def)

lemma put_many_shown: "put_many lim c n (shown b lim m out) = shown b lim m (out @ replicate (nat n) c)"
proof -
  have "(put lim c ^^ k) (shown b lim m out) = shown b lim m (out @ replicate k c)" for k
  proof (induction k)
    case (Suc k)
    then show ?case by (simp add: put_shown flip: replicate_append_same)
  qed simp
  then show ?thesis by (simp add: put_many_def)
qed

lemma put_text_shown: "put_text lim cs (shown b lim m out) = shown b lim m (out @ cs)"
  unfolding put_text_def by (induction cs arbitrary: out) (simp_all add: put_shown)

lemma snd_shown: "snd (shown b lim m out) = b + length out"
  by (simp add: shown_def)

lemmas shown_simps = put_shown put_many_shown put_text_shown snd_shown

lemma print_number_shown:
  "print_number lim num base w precision f (shown b lim m out) = shown b lim m (out @ number_text (b + length out \<le> lim) num base w precision f)"
proof -
  obtain sign n where sn: "number_sign f num = (sign, n)" by fastforce
  then have one: "sign = '''' \<or> length sign = 1" by (auto simp: number_sign_def split: if_splits)
  show ?thesis
    using one unfolding print_number_def number_text_def sn
    by (cases "LEFT f"; cases "ZEROPAD f"; cases "sign = ''''") (auto simp: Let_def shown_simps nat_diff_distrib algebra_simps)
qed

lemma put_char_arg_shown: "put_char_arg lim f w x (shown b lim m out) = shown b lim m (out @ char_text f w x)"
  by (simp add: put_char_arg_def char_text_def Let_def shown_simps)

lemma put_string_arg_shown: "put_string_arg lim f w precision s (shown b lim m out) = shown b lim m (out @ string_text f w precision s)"
proof -
  define S where "S = (case s of None \<Rightarrow> ''(NULL)'' | Some s \<Rightarrow> s)"
  define len where "len = (if precision > 0 \<and> int (length S) > precision then precision else int (length S))"
  have t: "(if precision > 0 then take (nat precision) S else S) = take (nat len) S" "int (length (take (nat len) S)) = len"
    by (auto simp: len_def min_def)
  show ?thesis unfolding put_string_arg_def string_text_def Let_def S_def[symmetric] len_def[symmetric] t
    by (simp add: shown_simps)
qed

lemma convert_arg_shown:
  "convert_arg lim k f w precision q args (shown b lim m out) =
   map_option (\<lambda>(args, t). (args, shown b lim m (out @ t))) (convert_text (b + length out \<le> lim) k f w precision q args)"
  unfolding convert_arg_def convert_text_def
  by (auto simp: put_char_arg_shown put_string_arg_shown print_number_shown put_shown int_arg_def Let_def option.map_comp
      split: list.splits va_arg.splits option.splits)

text \<open>The text that was put and the text that is meant agree as far as the buffer goes.\<close>

definition agree :: "nat \<Rightarrow> string \<Rightarrow> string \<Rightarrow> bool" where
  "agree cap out t \<longleftrightarrow> out = t \<or> cap \<le> length out \<and> cap \<le> length t \<and> take cap out = take cap t"

lemma agree_append:
  assumes "agree cap out t" "length out < cap \<longrightarrow> x = y"
  shows "agree cap (out @ x) (t @ y)"
  using assms by (auto simp: agree_def)

lemma convert_text_room:
  "(convert_text False k f w precision q args = None \<longleftrightarrow> convert_text True k f w precision q args = None) \<and>
   (\<forall>a t a' t'. convert_text False k f w precision q args = Some (a, t) \<longrightarrow> convert_text True k f w precision q args = Some (a', t') \<longrightarrow> a = a')"
  by (auto simp: convert_text_def int_arg_def Let_def split: list.splits va_arg.splits option.splits if_splits)

lemma format_loop_shown:
  assumes "b \<le> Suc lim" "agree (Suc lim - b) out t"
  shows "case format_text fmt args of None \<Rightarrow> format_loop lim fmt args (shown b lim m out) = None
    | Some u \<Rightarrow> \<exists>out'. format_loop lim fmt args (shown b lim m out) = Some (shown b lim m out') \<and> agree (Suc lim - b) out' (t @ u)"
  using assms(2)
proof (induction fmt args arbitrary: out t rule: format_text.induct)
  case (2 c fmt args)
  show ?case
  proof (cases "c = CHR ''%''")
    case False
    have "agree (Suc lim - b) (out @ [c]) (t @ [c])" by (rule agree_append[OF 2(3)]) simp
    from 2(1)[OF False this] show ?thesis using False by (auto simp: format_text.simps(2) format_loop.simps(2) put_shown split: option.splits)
  next
    case True
    show ?thesis
    proof (cases "directive fmt args")
      case None
      then show ?thesis using True by (simp add: format_text.simps(2) format_loop.simps(2))
    next
      case (Some d)
      obtain f w precision q fmt4 args4 where d: "d = (f, w, precision, q, fmt4, args4)" by (cases d) auto
      show ?thesis
      proof (cases fmt4)
        case Nil
        have "agree (Suc lim - b) (out @ ''%'') (t @ ''%'')" by (rule agree_append[OF 2(3)]) simp
        then show ?thesis using True Some d Nil by (auto simp: format_text.simps(2) format_loop.simps(2) put_shown)
      next
        case (Cons k fmt5)
        let ?r = "b + length out \<le> lim"
        note room = convert_text_room[of k f w precision q args4]
        show ?thesis
        proof (cases "convert_text True k f w precision q args4")
          case None
          then have "convert_text ?r k f w precision q args4 = None" using room by (cases ?r) auto
          then show ?thesis using None True Some d Cons by (simp add: format_text.simps(2) format_loop.simps(2) convert_arg_shown)
        next
          case (Some r)
          obtain args5 u where r: "r = (args5, u)" by (cases r)
          obtain u' where u': "convert_text ?r k f w precision q args4 = Some (args5, u')" "?r \<longrightarrow> u' = u"
            using room Some r by (cases ?r; cases "convert_text False k f w precision q args4") auto
          have "length out < Suc lim - b \<longrightarrow> u' = u" using u'(2) assms(1) by auto
          from agree_append[OF 2(3) this] have ag: "agree (Suc lim - b) (out @ u') (t @ u)" .
          have "format_text (c # fmt) args = map_option ((@) u) (format_text fmt5 args5)"
            using True \<open>directive fmt args = Some d\<close> d Cons Some r by (simp add: format_text.simps(2))
          moreover have "format_loop lim (c # fmt) args (shown b lim m out) = format_loop lim fmt5 args5 (shown b lim m (out @ u'))"
            using True \<open>directive fmt args = Some d\<close> d Cons u'(1) by (simp add: format_loop.simps(2) convert_arg_shown)
          moreover have "case format_text fmt5 args5 of None \<Rightarrow> format_loop lim fmt5 args5 (shown b lim m (out @ u')) = None
            | Some v \<Rightarrow> \<exists>out'. format_loop lim fmt5 args5 (shown b lim m (out @ u')) = Some (shown b lim m out') \<and> agree (Suc lim - b) out' ((t @ u) @ v)"
            using 2(2)[OF _ \<open>directive fmt args = Some d\<close>[unfolded d Cons] refl refl refl refl refl refl Some[unfolded r] refl ag] True by blast
          ultimately show ?thesis by (auto split: option.splits)
        qed
      qed
    qed
  qed
qed auto

subsection \<open>The buffer\<close>

text \<open>The end of a buffer that does not reach around the address space, and the one that is taken for no limit.\<close>

lemma buffer_end:
  fixes buf sz :: u32
  assumes "0 < unat sz" "unat buf + unat sz \<le> 2 ^ 32"
  shows "\<not> buf + sz - 1 < buf" "unat (buf + sz - 1) = unat buf + unat sz - 1"
proof -
  have "unat (sz - 1) = unat sz - 1" using assms(1) by (simp add: unat_sub_if' Suc_le_eq)
  moreover have "buf + sz - 1 = buf + (sz - 1)" by simp
  ultimately show u: "unat (buf + sz - 1) = unat buf + unat sz - 1" using assms by (simp only: unat_word_ariths) simp
  show "\<not> buf + sz - 1 < buf" using assms(1) by (simp add: word_less_nat_alt u)
qed

lemma rt_vsnprintf_writes:
  assumes "0 < unat sz" "unat buf + unat sz \<le> 2 ^ 32"
  shows "case format_text fmt args of None \<Rightarrow> rt_vsnprintf buf sz fmt args m = None
    | Some t \<Rightarrow> \<exists>n. rt_vsnprintf buf sz fmt args m = Some (patch m (unat buf) (take (unat sz - 1) (map of_char t) @ [0]), n)
        \<and> (if length t < unat sz then n = length t else unat sz \<le> n)"
proof -
  let ?b = "unat buf" and ?l = "unat buf + unat sz - 1"
  have s0: "(m, ?b) = shown ?b ?l m []" by (simp add: shown_def)
  have cap: "Suc ?l - ?b = unat sz" using assms(1) by simp
  have ag: "agree (Suc ?l - ?b) [] []" by (simp add: agree_def)
  have le: "?b \<le> Suc ?l" by simp
  note f = format_loop_shown[OF le ag, of fmt args m, unfolded cap append_Nil, folded s0]
  have run: "rt_vsnprintf buf sz fmt args m =
      map_option (\<lambda>(m, str). (if str \<le> ?l then m(str := 0) else m(?l := 0), str - ?b)) (format_loop ?l fmt args (m, ?b))"
    unfolding rt_vsnprintf_def Let_def if_not_P[OF buffer_end(1)[OF assms]] buffer_end(2)[OF assms] ..
  show ?thesis
  proof (cases "format_text fmt args")
    case None
    then show ?thesis using f run by simp
  next
    case (Some t)
    then obtain out where out: "format_loop ?l fmt args (m, ?b) = Some (shown ?b ?l m out)" "agree (unat sz) out t" using f by auto
    have "rt_vsnprintf buf sz fmt args m = Some (patch m ?b (take (unat sz - 1) (map of_char t) @ [0]), length out)"
    proof (cases "length out < unat sz")
      case True
      then have "out = t" "?b + length out \<le> ?l" using out(2) by (auto simp: agree_def)
      then show ?thesis using True patch_append[of m ?b "map of_char t" "[0]"]
        unfolding run out(1) by (simp add: shown_def cap[simplified] patch_one)
    next
      case False
      have tk: "take (unat sz) out = take (unat sz) t" using out(2) by (auto simp: agree_def)
      have "take (unat sz - 1) out = take (unat sz - 1) (take (unat sz) out)" by simp
      also have "\<dots> = take (unat sz - 1) t" unfolding tk by simp
      finally have "take (unat sz - 1) (map of_char out) = (take (unat sz - 1) (map of_char t) :: u8 list)" by (simp add: take_map)
      moreover have "take (unat sz) (map of_char out) = (take (unat sz - 1) (map of_char out) :: u8 list) @ [of_char (out ! (unat sz - 1))]"
        using False assms(1) take_Suc_conv_app_nth[of "unat sz - 1" "map of_char out :: u8 list"] by simp
      moreover have "(patch m ?b (xs @ [x]))(?l := 0) = patch m ?b (xs @ [0])" if "length xs = unat sz - 1" for xs x
        using that assms(1) by (auto simp: patch_def fun_eq_iff nth_append)
      moreover have "length (take (unat sz - 1) (map of_char t :: u8 list)) = unat sz - 1" "\<not> ?b + length out \<le> ?l"
        using False assms(1) out(2) by (auto simp: agree_def)
      ultimately show ?thesis unfolding run out(1) by (simp add: shown_def cap[simplified])
    qed
    then show ?thesis using Some out(2) by (auto simp: agree_def)
  qed
qed

text \<open>A size of 0 is taken for no limit, as is the size \<open>rt_vsprintf\<close> passes.\<close>

lemma rt_vsnprintf_unlimited:
  assumes "sz = 0 \<or> sz = - 1" "0 < unat buf" "format_text fmt args = Some t" "unat buf + length t < 2 ^ 32"
  shows "rt_vsnprintf buf sz fmt args m = Some (patch m (unat buf) (map of_char t @ [0]), length t)"
proof -
  let ?b = "unat buf" and ?e = "buf + sz - 1" and ?l = "2 ^ 32 - 1 :: nat"
  have minus_one: "unat (- 1 :: u32) = ?l" unfolding unsigned_minus_1_eq_mask by (simp add: mask_eq_exp_minus_1)
  have lim: "unat (if ?e < buf then - 1 else ?e) = ?l"
  proof (cases "sz = 0")
    case True
    have "buf - 1 < buf" using assms(2) by (simp add: word_less_nat_alt unat_sub_if' Suc_le_eq)
    then show ?thesis using True minus_one by simp
  next
    case False
    then have e: "?e = buf - 2" using assms(1) by simp
    show ?thesis
    proof (cases "?b = 1")
      case True
      then have "buf = 1" by (simp add: word_unat_eq_iff)
      then show ?thesis using False assms(1) minus_one by simp
    next
      case False
      then have "buf - 2 < buf" using assms(2) by (simp add: word_less_nat_alt unat_sub_if')
      then show ?thesis unfolding e using minus_one by simp
    qed
  qed
  have s0: "(m, ?b) = shown ?b ?l m []" by (simp add: shown_def)
  have le: "?b \<le> Suc ?l" using assms(4) by simp
  have "\<exists>out. format_loop ?l fmt args (m, ?b) = Some (shown ?b ?l m out) \<and> agree (Suc ?l - ?b) out t"
    using format_loop_shown[OF le, of "[]" "[]" fmt args m] assms(3) unfolding s0 by (simp add: agree_def)
  then obtain out where out: "format_loop ?l fmt args (m, ?b) = Some (shown ?b ?l m out)" "agree (Suc ?l - ?b) out t" by blast
  have "length t < Suc ?l - ?b" using assms(4) by simp
  then have "out = t" using out(2) by (auto simp: agree_def)
  moreover have "?b + length t \<le> ?l" using assms(4) by simp
  ultimately show ?thesis using out(1) lim patch_append[of m ?b "map of_char t" "[0]"]
    by (simp add: rt_vsnprintf_def Let_def shown_def patch_one)
qed

end
