(* ===== verification/Text_Theorems.thy ===== *)
theory Text_Theorems
  imports RT_PrintfText
begin

text \<open>Properties of the memory, string and output functions of \<open>kservice.c\<close>.\<close>

section \<open>Blocks and strings\<close>

text \<open>C34. The block functions, which work word by word where they can, do what a byte-wise copy at once does: \<open>rt_memmove\<close> for any two
  blocks, \<open>rt_memcpy\<close> where the target does not begin inside the source, and \<open>rt_memset\<close> for any block.\<close>

theorem blocks_copied_at_once:
  "rt_memmove dst src n m = patch m dst (map m [src..<src + n])
   \<and> (dst \<le> src \<or> src + n \<le> dst \<longrightarrow> rt_memcpy dst src n m = patch m dst (map m [src..<src + n]))
   \<and> rt_memset dst c n m = patch m dst (replicate n (ucast c))"
  using rt_memmove_copied[of dst src n m] rt_memcpy_copied[of dst src n m] rt_memset_filled[of dst c n m]
  by (auto simp: copied_def filled_def)

theorem blocks_copied_at_once_witness:
  "rt_memcpy 100 104 21 (\<lambda>i. of_nat i) = patch (\<lambda>i. of_nat i) 100 (map (\<lambda>i. of_nat i) [104..<125])"
  using blocks_copied_at_once[of 100 104 21 "\<lambda>i. of_nat i" 0] by simp

text \<open>\<open>rt_strstr\<close> returns the first place where the second string occurs in the first, or null if there is none, and it returns for any two strings.\<close>

theorem rt_strstr_finds_first:
  assumes "c_string m a xs" "c_string m b ys"
  shows "rt_strstr m a b = Some (map_option ((+) a) (find (\<lambda>i. i + length ys \<le> length xs \<and> take (length ys) (drop i xs) = ys) [0..<Suc (length xs)]))"
  using rt_strstr_first[OF assms] unfolding occurs_at_def by simp

theorem rt_strstr_finds_first_witness:
  "rt_strstr (patch (patch (\<lambda>_. 0) 16 [65, 84, 43, 79, 75]) 32 [79, 75]) 16 32 = Some (Some 19)"
proof -
  let ?m = "patch (patch (\<lambda>_. 0) 16 [65, 84, 43, 79, 75]) 32 [79, 75] :: nat \<Rightarrow> u8"
  have "c_string ?m 16 [65, 84, 43, 79, 75]" "c_string ?m 32 [79, 75]" by (simp_all add: patch_def)
  from rt_strstr_finds_first[OF this] show ?thesis by (simp add: upt_rec)
qed

text \<open>What \<open>rt_malloc_align\<close> returns for an alignment of a power of two is aligned, leaves room for the request in the block it got,
  and leads \<open>rt_free_align\<close> back to that block.\<close>

theorem aligned_block_fits:
  assumes "malloc ((sz + 3 AND NOT 3) + 2 ^ k) h = (ptr, h1)" "2 \<le> k" "k < 32" "ptr \<noteq> 0" "unat ptr mod 4 = 0"
    and "unat ptr + (unat sz + 3 + 2 ^ k) < 2 ^ 32" "rt_malloc_align malloc sz (2 ^ k) (h, m) = (q, h2, m2)"
  shows "unat q mod 2 ^ k = 0 \<and> unat ptr + 4 \<le> unat q \<and> unat q + unat sz \<le> unat ptr + unat ((sz + 3 AND NOT 3) + 2 ^ k)
    \<and> rt_free_align free q (h2, m2) = (free ptr h1, m2)"
  using rt_malloc_align_fits[OF assms] by (simp add: rt_free_align_def)

theorem aligned_block_fits_witness:
  "\<exists>q m2. rt_malloc_align (\<lambda>n h. (0x1004, h + n)) 10 (2 ^ 4) (0, \<lambda>_. 0) = (q, 28, m2) \<and> unat q mod 16 = 0
     \<and> rt_free_align (\<lambda>p h. h - p) q (28, m2) = (28 - 0x1004, m2)"
proof -
  let ?malloc = "\<lambda>(n :: u32) (h :: u32). (0x1004 :: u32, h + n)"
  have "(10 + 3 AND NOT 3 :: u32) = 12" by simp
  then have "?malloc ((10 + 3 AND NOT 3) + 2 ^ 4) 0 = (0x1004, 28)" by simp
  moreover obtain q h2 m2 where r: "rt_malloc_align ?malloc 10 (2 ^ 4) (0, \<lambda>_. 0) = (q, h2, m2)" by (metis prod_cases3)
  ultimately have "unat q mod 2 ^ 4 = 0 \<and> rt_free_align (\<lambda>p h. h - p) q (h2, m2) = (28 - 0x1004, m2)"
    using aligned_block_fits[of ?malloc 10 4 0 "0x1004" 28 "\<lambda>_. 0" q h2 m2 "\<lambda>p h. h - p"] by simp
  moreover have "h2 = 28" using r by (simp add: rt_malloc_align_def Let_def split: if_splits)
  ultimately show ?thesis using r by simp
qed

section \<open>Formatted output\<close>


lemmas format_simps = format_text.simps directive_def get_flags.simps get_width_def get_precision_def get_qualifier_def convert_text_def
  int_arg_def integer_format_def arg_number_def number_text_def string_text_def char_text_def number_sign_def no_flags_def isdigit_def skip_atoi.simps
  number_digits.simps divide_def small_digits_def large_digits_def Let_def

lemma format_example: "format_text ''T=%5d %s%%'' [Word_arg (- 42), Str_arg (Some ''ok'')] = Some ''T=  -42 ok%''"
  by (simp add: format_simps) (simp add: numeral_eq_Suc)





text \<open>A size of 0 limits nothing: \<open>rt_snprintf\<close> then writes the whole text and its 0, although the buffer has no room for any of it.\<close>

theorem rt_snprintf_size_zero:
  assumes "0 < unat buf" "format_text fmt args = Some t" "unat buf + length t < 2 ^ 32"
  shows "rt_snprintf buf 0 fmt args m = Some (patch m (unat buf) (map of_char t @ [0]), length t)"
  using rt_vsnprintf_unlimited[of 0 buf fmt args t m] assms by (simp add: rt_snprintf_def)

theorem rt_snprintf_size_zero_witness:
  "rt_snprintf 0x1000 0 ''T=%5d %s%%'' [Word_arg (- 42), Str_arg (Some ''ok'')] (\<lambda>_. 255)
    = Some (patch (\<lambda>_. 255) 0x1000 [0x54, 0x3D, 0x20, 0x20, 0x2D, 0x34, 0x32, 0x20, 0x6F, 0x6B, 0x25, 0], 11)"
  using rt_snprintf_size_zero[OF _ format_example, of "0x1000" "\<lambda>_. 255"] by simp

text \<open>Octal numbers are printed in hexadecimal, and the console gets the 0 that ends a text that was cut.\<close>

lemma octal_is_hexadecimal: "format_text ''%o'' [Word_arg 8] = Some ''8''"
  by (simp add: format_simps)

lemma rt_kprintf_sends_zero:
  assumes "unat buf + 127 \<le> 2 ^ 32" "format_text fmt args = Some t" "127 \<le> length t"
  shows "\<exists>m'. rt_kprintf buf fmt args m = Some (take 126 (map of_char t) @ [0], m')"
proof -
  have "case format_text fmt args of None \<Rightarrow> rt_vsnprintf buf 127 fmt args m = None
    | Some t \<Rightarrow> \<exists>n. rt_vsnprintf buf 127 fmt args m = Some (patch m (unat buf) (take (unat (127 :: u32) - 1) (map of_char t) @ [0]), n)
        \<and> (if length t < unat (127 :: u32) then n = length t else unat (127 :: u32) \<le> n)"
    by (rule rt_vsnprintf_writes) (use assms(1) in simp_all)
  then obtain n where n: "rt_vsnprintf buf 127 fmt args m = Some (patch m (unat buf) (take 126 (map of_char t) @ [0]), n)" "127 \<le> n"
    using assms(2,3) by auto
  let ?x = "take 126 (map of_char t) @ [0] :: u8 list"
  have "length ?x = 127" using assms(3) by simp
  then have "map (patch m (unat buf) ?x) [unat buf..<unat buf + 127] = ?x"
    using holds_patch[of m "unat buf" ?x] unfolding holds_iff by simp
  then show ?thesis using n by (simp add: rt_kprintf_def)
qed

end
