(* ===== verification/RT_MemHeap.thy ===== *)
theory RT_MemHeap
  imports RT_Mem RT_String RT_List
begin

text \<open>
  The memory heaps of \<open>src/memheap.c\<close>: pools of memory cut into items, which are linked in a ring in the order of their
  addresses, and in a second ring, behind a header in the heap object, if they are free. The links are two heaps of pointers
  (\<open>list_heap\<close>) over the addresses of the items, magic numbers and owners two maps, the bytes a \<open>memory\<close>. A pointer is a natural
  below \<open>2 ^ 32\<close>, 0 is null. Sizes are naturals; where the code may wrap, the result is reduced (\<open>add32\<close>, \<open>sub32\<close>).

  A heap is an object with a lock, a semaphore that starts with 1: \<open>None\<close> is a failed assertion or a call that waits for the lock.
  Calls of several threads exclude each other by it, so they are taken one after the other. Of the object the list of its
  class is kept.
\<close>

subsection \<open>State\<close>

abbreviation RT_MEMHEAP_MAGIC :: u32 where "RT_MEMHEAP_MAGIC \<equiv> 0x1ea01ea0"
abbreviation RT_MEMHEAP_MASK :: u32 where "RT_MEMHEAP_MASK \<equiv> 0xfffffffe"
abbreviation RT_MEMHEAP_USED :: u32 where "RT_MEMHEAP_USED \<equiv> 1"
abbreviation RT_MEMHEAP_MINIALLOC :: nat where "RT_MEMHEAP_MINIALLOC \<equiv> 12"
abbreviation RT_MEMHEAP_SIZE :: nat where "RT_MEMHEAP_SIZE \<equiv> 24"

record rt_memheap =
  mh_start_addr :: nat
  mh_pool_size :: nat
  mh_available_size :: nat
  mh_max_used_size :: nat
  mh_block_list :: nat
  mh_free_list :: nat
  mh_lock :: nat

record memheaps =
  mh_heaps :: "nat \<Rightarrow> rt_memheap"
  mh_objects :: "nat list"
  mi_magic :: "nat \<Rightarrow> u32"
  mi_pool_ptr :: "nat \<Rightarrow> nat"
  mi_links :: "nat list_heap"
  mi_free_links :: "nat list_heap"
  mh_memory :: memory

definition add32 :: "nat \<Rightarrow> nat \<Rightarrow> nat" where
  "add32 a b = (a + b) mod 2 ^ 32"

text \<open>The place of \<open>free_header\<close> in the heap object.\<close>

definition free_header :: "nat \<Rightarrow> nat" where
  "free_header heap = heap + 44"

definition upd_mh :: "nat \<Rightarrow> (rt_memheap \<Rightarrow> rt_memheap) \<Rightarrow> memheaps \<Rightarrow> memheaps" where
  "upd_mh k f s = s\<lparr>mh_heaps := (mh_heaps s)(k := f (mh_heaps s k))\<rparr>"

definition upd_links :: "(nat list_heap \<Rightarrow> nat list_heap) \<Rightarrow> memheaps \<Rightarrow> memheaps" where
  "upd_links f s = s\<lparr>mi_links := f (mi_links s)\<rparr>"

definition upd_free_links :: "(nat list_heap \<Rightarrow> nat list_heap) \<Rightarrow> memheaps \<Rightarrow> memheaps" where
  "upd_free_links f s = s\<lparr>mi_free_links := f (mi_free_links s)\<rparr>"

definition set_magic :: "nat \<Rightarrow> u32 \<Rightarrow> memheaps \<Rightarrow> memheaps" where
  "set_magic p v s = s\<lparr>mi_magic := (mi_magic s)(p := v)\<rparr>"

definition set_pool_ptr :: "nat \<Rightarrow> nat \<Rightarrow> memheaps \<Rightarrow> memheaps" where
  "set_pool_ptr p k s = s\<lparr>mi_pool_ptr := (mi_pool_ptr s)(p := k)\<rparr>"

abbreviation next_item :: "memheaps \<Rightarrow> nat \<Rightarrow> nat" where "next_item s p \<equiv> lnext (mi_links s) p"
abbreviation prev_item :: "memheaps \<Rightarrow> nat \<Rightarrow> nat" where "prev_item s p \<equiv> lprev (mi_links s) p"

definition RT_MEMHEAP_IS_USED :: "memheaps \<Rightarrow> nat \<Rightarrow> bool" where
  "RT_MEMHEAP_IS_USED s p \<longleftrightarrow> mi_magic s p AND RT_MEMHEAP_USED \<noteq> 0"

definition MEMITEM_SIZE :: "memheaps \<Rightarrow> nat \<Rightarrow> nat" where
  "MEMITEM_SIZE s p = sub32 (sub32 (next_item s p) p) RT_MEMHEAP_SIZE"

text \<open>Linking an item behind another, and taking one out, on either ring.\<close>

definition link_after :: "nat \<Rightarrow> nat \<Rightarrow> nat list_heap \<Rightarrow> nat list_heap" where
  "link_after l n h =
     (let h1 = set_prev n l h;
          h2 = set_next n (lnext h1 l) h1;
          h3 = set_prev (lnext h2 l) n h2
      in set_next l n h3)"

definition unlink :: "nat \<Rightarrow> nat list_heap \<Rightarrow> nat list_heap" where
  "unlink n h =
     (let h1 = set_prev (lnext h n) (lprev h n) h
      in set_next (lprev h1 n) (lnext h1 n) h1)"

definition clear_links :: "nat \<Rightarrow> nat list_heap \<Rightarrow> nat list_heap" where
  "clear_links n h = set_prev n 0 (set_next n 0 h)"

text \<open>The counters when bytes are taken, and the lock.\<close>

definition use_bytes :: "nat \<Rightarrow> nat \<Rightarrow> memheaps \<Rightarrow> memheaps" where
  "use_bytes heap n = upd_mh heap (\<lambda>h.
     let h1 = h\<lparr>mh_available_size := sub32 (mh_available_size h) n\<rparr>;
         used = sub32 (mh_pool_size h1) (mh_available_size h1)
     in if used > mh_max_used_size h1 then h1\<lparr>mh_max_used_size := used\<rparr> else h1)"

definition return_bytes :: "nat \<Rightarrow> nat \<Rightarrow> memheaps \<Rightarrow> memheaps" where
  "return_bytes heap n = upd_mh heap (\<lambda>h. h\<lparr>mh_available_size := add32 (mh_available_size h) n\<rparr>)"

definition take_lock :: "nat \<Rightarrow> memheaps \<Rightarrow> memheaps option" where
  "take_lock heap s = (if mh_lock (mh_heaps s heap) > 0 then Some (upd_mh heap (\<lambda>h. h\<lparr>mh_lock := mh_lock h - 1\<rparr>) s) else None)"

definition give_lock :: "nat \<Rightarrow> memheaps \<Rightarrow> memheaps" where
  "give_lock heap = upd_mh heap (\<lambda>h. h\<lparr>mh_lock := mh_lock h + 1\<rparr>)"

subsection \<open>Operations\<close>

definition rt_memheap_init :: "nat \<Rightarrow> nat \<Rightarrow> u32 \<Rightarrow> memheaps \<Rightarrow> memheaps option" where
  "rt_memheap_init memheap start sz s = do {
     _ \<leftarrow> rt_assert (memheap \<noteq> 0);
     _ \<leftarrow> rt_assert (memheap \<notin> set (mh_objects s));
     let pool = unat (RT_ALIGN_DOWN sz RT_ALIGN_SIZE);
         avail = sub32 pool (2 * RT_MEMHEAP_SIZE);
         header = free_header memheap;
         tailer = add32 start (add32 avail RT_MEMHEAP_SIZE);
         s1 = upd_mh memheap (\<lambda>h. h\<lparr>mh_start_addr := start, mh_pool_size := pool, mh_available_size := avail,
                mh_max_used_size := sub32 pool avail, mh_free_list := header\<rparr>) (s\<lparr>mh_objects := memheap # mh_objects s\<rparr>);
         s2 = upd_free_links (\<lambda>f. set_prev header header (set_next header header f))
                (upd_links (clear_links header) (set_pool_ptr header memheap (set_magic header RT_MEMHEAP_MAGIC s1)));
         s3 = upd_free_links (\<lambda>f. set_prev start start (set_next start start f))
                (upd_links (clear_links start) (set_pool_ptr start memheap (set_magic start RT_MEMHEAP_MAGIC s2)));
         s4 = upd_links (\<lambda>b. set_prev start tailer (set_next start tailer b)) s3;
         s5 = upd_mh memheap (\<lambda>h. h\<lparr>mh_block_list := start\<rparr>) s4;
         s6 = upd_free_links (link_after header start) s5;
         s7 = upd_links (\<lambda>b. set_prev tailer start (set_next tailer start b))
                (set_pool_ptr tailer memheap (set_magic tailer (RT_MEMHEAP_MAGIC OR RT_MEMHEAP_USED) s6));
         s8 = upd_free_links (clear_links tailer) s7
     in Some (upd_mh memheap (\<lambda>h. h\<lparr>mh_lock := 1\<rparr>) s8) }"

definition rt_memheap_detach :: "nat \<Rightarrow> memheaps \<Rightarrow> memheaps option" where
  "rt_memheap_detach heap s = do {
     _ \<leftarrow> rt_assert (heap \<noteq> 0);
     _ \<leftarrow> rt_assert (heap \<in> set (mh_objects s));
     Some (s\<lparr>mh_objects := removeAll heap (mh_objects s)\<rparr>) }"

text \<open>The search on the free list: the item found and its size.\<close>

partial_function (option) find_free :: "memheaps \<Rightarrow> nat \<Rightarrow> nat \<Rightarrow> nat \<Rightarrow> nat \<Rightarrow> (nat \<times> nat) option" where
  "find_free s free_list sz header_ptr free_size =
     (if header_ptr \<noteq> free_list \<and> free_size < sz
      then let free_size = MEMITEM_SIZE s header_ptr
           in find_free s free_list sz (if free_size < sz then lnext (mi_free_links s) header_ptr else header_ptr) free_size
      else Some (header_ptr, free_size))"

text \<open>The end of an item as a new free item of its own, with the rest of a free item behind it.\<close>

definition new_item :: "nat \<Rightarrow> nat \<Rightarrow> nat \<Rightarrow> memheaps \<Rightarrow> memheaps" where
  "new_item heap header_ptr new_ptr s =
     upd_links (link_after header_ptr new_ptr) (set_pool_ptr new_ptr heap (set_magic new_ptr RT_MEMHEAP_MAGIC s))"

definition insert_free :: "nat \<Rightarrow> nat \<Rightarrow> memheaps \<Rightarrow> memheaps" where
  "insert_free heap p s = upd_free_links (link_after (mh_free_list (mh_heaps s heap)) p) s"

definition take_item :: "nat \<Rightarrow> nat \<Rightarrow> nat \<Rightarrow> nat \<Rightarrow> memheaps \<Rightarrow> memheaps" where
  "take_item heap sz header_ptr free_size s =
     (let s1 = (if free_size \<ge> add32 sz (RT_MEMHEAP_SIZE + RT_MEMHEAP_MINIALLOC)
        then let new_ptr = header_ptr + sz + RT_MEMHEAP_SIZE;
                 s1 = new_item heap header_ptr new_ptr s;
                 s2 = upd_free_links (clear_links header_ptr \<circ> unlink header_ptr) s1
             in use_bytes heap (sz + RT_MEMHEAP_SIZE) (insert_free heap new_ptr s2)
        else upd_free_links (clear_links header_ptr \<circ> unlink header_ptr) (use_bytes heap free_size s))
      in set_magic header_ptr (mi_magic s1 header_ptr OR RT_MEMHEAP_USED) s1)"

text \<open>The size that is served.\<close>

definition item_size :: "u32 \<Rightarrow> nat" where
  "item_size sz = (let n = unat (RT_ALIGN sz RT_ALIGN_SIZE) in if n < RT_MEMHEAP_MINIALLOC then RT_MEMHEAP_MINIALLOC else n)"

definition rt_memheap_alloc :: "nat \<Rightarrow> u32 \<Rightarrow> memheaps \<Rightarrow> (nat \<times> memheaps) option" where
  "rt_memheap_alloc heap size_arg s = do {
     _ \<leftarrow> rt_assert (heap \<noteq> 0);
     _ \<leftarrow> rt_assert (heap \<in> set (mh_objects s));
     let sz = item_size size_arg;
     if sz < mh_available_size (mh_heaps s heap) then do {
       s1 \<leftarrow> take_lock heap s;
       let free_list = mh_free_list (mh_heaps s1 heap);
       (header_ptr, free_size) \<leftarrow> find_free s1 free_list sz (lnext (mi_free_links s1) free_list) 0;
       if free_size \<ge> sz then Some (header_ptr + RT_MEMHEAP_SIZE, give_lock heap (take_item heap sz header_ptr free_size s1))
       else Some (0, give_lock heap s1) }
     else Some (0, s) }"

text \<open>\<open>rt_memheap_free\<close>: joining with the item in front, and with the one behind.\<close>

definition merge_left :: "nat \<Rightarrow> nat \<Rightarrow> memheaps \<Rightarrow> memheaps \<times> nat \<times> bool" where
  "merge_left heap header_ptr s =
     (if \<not> RT_MEMHEAP_IS_USED s (prev_item s header_ptr)
      then let s1 = return_bytes heap RT_MEMHEAP_SIZE s;
               s2 = upd_links (\<lambda>b. set_next (lprev b header_ptr) (lnext b header_ptr) b) s1;
               s3 = upd_links (\<lambda>b. set_prev (lnext b header_ptr) (lprev b header_ptr) b) s2
           in (s3, prev_item s3 header_ptr, False)
      else (s, header_ptr, True))"

definition join_next :: "nat \<Rightarrow> nat \<Rightarrow> memheaps \<Rightarrow> memheaps" where
  "join_next header_ptr next_ptr s =
     (let s1 = upd_links (\<lambda>b. set_prev (lnext b next_ptr) header_ptr b) s;
          s2 = upd_links (\<lambda>b. set_next header_ptr (lnext b next_ptr) b) s1
      in upd_free_links (unlink next_ptr) s2)"

definition merge_right :: "nat \<Rightarrow> nat \<Rightarrow> memheaps \<Rightarrow> memheaps" where
  "merge_right heap header_ptr s =
     (if \<not> RT_MEMHEAP_IS_USED s (next_item s header_ptr)
      then join_next header_ptr (next_item s header_ptr) (return_bytes heap RT_MEMHEAP_SIZE s)
      else s)"

definition rt_memheap_free :: "nat \<Rightarrow> memheaps \<Rightarrow> memheaps option" where
  "rt_memheap_free ptr s =
     (if ptr = 0 then Some s
      else do {
        let header_ptr = sub32 ptr RT_MEMHEAP_SIZE;
        _ \<leftarrow> rt_assert (mi_magic s header_ptr AND RT_MEMHEAP_MASK = RT_MEMHEAP_MAGIC);
        _ \<leftarrow> rt_assert (mi_magic s header_ptr AND RT_MEMHEAP_USED \<noteq> 0);
        _ \<leftarrow> rt_assert (mi_magic s (next_item s header_ptr) AND RT_MEMHEAP_MASK = RT_MEMHEAP_MAGIC);
        let heap = mi_pool_ptr s header_ptr;
        _ \<leftarrow> rt_assert (heap \<noteq> 0);
        _ \<leftarrow> rt_assert (heap \<in> set (mh_objects s));
        s1 \<leftarrow> take_lock heap s;
        let s2 = set_magic header_ptr (mi_magic s1 header_ptr AND NOT RT_MEMHEAP_USED) s1;
        let s3 = return_bytes heap (MEMITEM_SIZE s2 header_ptr) s2;
        let (s4, header_ptr, insert_header) = merge_left heap header_ptr s3;
        let s5 = merge_right heap header_ptr s4;
        let s6 = (if insert_header then insert_free heap header_ptr s5 else s5);
        Some (give_lock heap s6) })"

text \<open>\<open>rt_memheap_realloc\<close>: growing into a free item behind, moving, and cutting off the end.\<close>

definition grow_item :: "nat \<Rightarrow> nat \<Rightarrow> nat \<Rightarrow> nat \<Rightarrow> memheaps \<Rightarrow> memheaps" where
  "grow_item heap ptr oldsize newsize s =
     (let header_ptr = sub32 ptr RT_MEMHEAP_SIZE;
          next_ptr = next_item s header_ptr;
          s1 = use_bytes heap (newsize - oldsize) s;
          s2 = upd_links (unlink next_ptr) (upd_free_links (unlink next_ptr) s1);
          next_ptr = add32 ptr newsize
      in insert_free heap next_ptr (new_item heap header_ptr next_ptr s2))"

definition shrink_item :: "nat \<Rightarrow> nat \<Rightarrow> nat \<Rightarrow> memheaps \<Rightarrow> memheaps" where
  "shrink_item heap header_ptr newsize s =
     (let new_ptr = header_ptr + newsize + RT_MEMHEAP_SIZE;
          s1 = new_item heap header_ptr new_ptr s;
          s2 = (if \<not> RT_MEMHEAP_IS_USED s1 (next_item s1 new_ptr)
                then let free_ptr = next_item s1 new_ptr
                     in join_next new_ptr free_ptr
                          (upd_mh heap (\<lambda>h. h\<lparr>mh_available_size := sub32 (mh_available_size h) (MEMITEM_SIZE s1 free_ptr)\<rparr>) s1)
                else s1);
          s3 = insert_free heap new_ptr s2
      in return_bytes heap (MEMITEM_SIZE s3 new_ptr) s3)"

definition rt_memheap_realloc :: "nat \<Rightarrow> nat \<Rightarrow> u32 \<Rightarrow> memheaps \<Rightarrow> (nat \<times> memheaps) option" where
  "rt_memheap_realloc heap ptr size_arg s = do {
     _ \<leftarrow> rt_assert (heap \<noteq> 0);
     _ \<leftarrow> rt_assert (heap \<in> set (mh_objects s));
     if size_arg = 0 then map_option (Pair 0) (rt_memheap_free ptr s)
     else do {
       let newsize = item_size size_arg;
       if ptr = 0 then rt_memheap_alloc heap (word_of_nat newsize) s
       else do {
         let header_ptr = sub32 ptr RT_MEMHEAP_SIZE;
         let oldsize = MEMITEM_SIZE s header_ptr;
         if newsize > oldsize then do {
           s1 \<leftarrow> take_lock heap s;
           let next_ptr = next_item s1 header_ptr;
           _ \<leftarrow> rt_assert (next_ptr > header_ptr);
           if \<not> RT_MEMHEAP_IS_USED s1 next_ptr \<and> add32 (MEMITEM_SIZE s1 next_ptr) oldsize > add32 newsize RT_MEMHEAP_MINIALLOC
           then Some (ptr, give_lock heap (grow_item heap ptr oldsize newsize s1))
           else do {
             (new_ptr, s2) \<leftarrow> rt_memheap_alloc heap (word_of_nat newsize) (give_lock heap s1);
             if new_ptr \<noteq> 0 then do {
               s3 \<leftarrow> rt_memheap_free ptr (s2\<lparr>mh_memory := rt_memcpy new_ptr ptr (if oldsize < newsize then oldsize else newsize) (mh_memory s2)\<rparr>);
               Some (new_ptr, s3) }
             else Some (0, s2) } }
         else if add32 newsize (RT_MEMHEAP_SIZE + RT_MEMHEAP_MINIALLOC) \<ge> oldsize then Some (ptr, s)
         else do {
           s1 \<leftarrow> take_lock heap s;
           Some (ptr, give_lock heap (shrink_item heap header_ptr newsize s1)) } } } }"

subsection \<open>The heaps as the system heap\<close>

text \<open>With \<open>RT_USING_MEMHEAP_AS_HEAP\<close> the calls of \<open>RT_Mem\<close> are these instead. \<open>sys_heap\<close> is the address of the default heap (\<open>_heap\<close>).\<close>

fun other_heaps :: "nat \<Rightarrow> u32 \<Rightarrow> nat list \<Rightarrow> memheaps \<Rightarrow> (nat \<times> memheaps) option" where
  "other_heaps sys_heap sz [] s = Some (0, s)"
| "other_heaps sys_heap sz (heap # heaps) s =
     (if heap = sys_heap then other_heaps sys_heap sz heaps s
      else do {
        (ptr, s1) \<leftarrow> rt_memheap_alloc heap sz s;
        if ptr \<noteq> 0 then Some (ptr, s1) else other_heaps sys_heap sz heaps s1 })"

definition memheap_malloc :: "nat \<Rightarrow> u32 \<Rightarrow> memheaps \<Rightarrow> (nat \<times> memheaps) option" where
  "memheap_malloc sys_heap sz s = do {
     (ptr, s1) \<leftarrow> rt_memheap_alloc sys_heap sz s;
     if ptr = 0 then other_heaps sys_heap sz (mh_objects s1) s1 else Some (ptr, s1) }"

definition memheap_realloc :: "nat \<Rightarrow> nat \<Rightarrow> u32 \<Rightarrow> memheaps \<Rightarrow> (nat \<times> memheaps) option" where
  "memheap_realloc sys_heap rmem newsize s =
     (if rmem = 0 then memheap_malloc sys_heap newsize s
      else if newsize = 0 then map_option (Pair 0) (rt_memheap_free rmem s)
      else do {
        let header_ptr = sub32 rmem RT_MEMHEAP_SIZE;
        (new_ptr, s1) \<leftarrow> rt_memheap_realloc (mi_pool_ptr s header_ptr) rmem newsize s;
        if new_ptr = 0 then do {
          (new_ptr, s2) \<leftarrow> memheap_malloc sys_heap newsize s1;
          if new_ptr \<noteq> 0 then do {
            let oldsize = MEMITEM_SIZE s2 header_ptr;
            s3 \<leftarrow> rt_memheap_free rmem (s2\<lparr>mh_memory :=
              rt_memcpy new_ptr rmem (if unat newsize > oldsize then oldsize else unat newsize) (mh_memory s2)\<rparr>);
            Some (new_ptr, s3) }
          else Some (0, s2) }
        else Some (new_ptr, s1) })"

definition memheap_calloc :: "nat \<Rightarrow> u32 \<Rightarrow> u32 \<Rightarrow> memheaps \<Rightarrow> (nat \<times> memheaps) option" where
  "memheap_calloc sys_heap count sz s = do {
     let total_size = count * sz;
     (ptr, s1) \<leftarrow> memheap_malloc sys_heap total_size s;
     Some (ptr, if ptr \<noteq> 0 then s1\<lparr>mh_memory := rt_memset ptr 0 (unat total_size) (mh_memory s1)\<rparr> else s1) }"

end
