(* ===== verification/RT_MemHeapInv.thy ===== *)
theory RT_MemHeapInv
  imports RT_MemHeap
begin

text \<open>
  The heaps of \<open>RT_MemHeap\<close> as lists: the items in the order of their addresses, each with its use, and the free ones in the order
  of the free list. \<open>mh_ok\<close> relates a heap to these lists and says what is always true of them; each operation acts on the lists.
\<close>

subsection \<open>Links\<close>

lemma ring_at:
  assumes "ring h l (xs @ a # ys)"
  shows "lnext h a = hd (ys @ [l]) \<and> lprev h a = last (l # xs)"
proof -
  have r: "ring h a (ys @ l # xs)" using assms by (rule ring_rotate)
  have "lnext h a = hd (ys @ l # xs @ [a])" using ring_next[OF r] by simp
  moreover have "lprev h a = last (l # xs)" using ring_prev[OF r] by simp
  ultimately show ?thesis by (cases ys) simp_all
qed

lemma ring_link_after:
  assumes "ring h l ns" "n \<notin> set (l # ns)"
  shows "ring (link_after l n h) l (n # ns)"
proof -
  have "lnext h l \<in> set (l # ns)" using ring_next[OF assms(1)] by (cases ns) auto
  then have "n \<noteq> l" "n \<noteq> lnext h l" using assms(2) by auto
  then have "link_after l n h = rt_list_insert_after l n h"
    by (auto simp: link_after_def list_ops_defs fun_eq_iff)
  with ring_insert_after[OF assms] show ?thesis by simp
qed

lemma ring_link_at:
  assumes "ring h l (xs @ a # ys)" "n \<notin> set (l # xs @ a # ys)"
  shows "ring (link_after a n h) l (xs @ a # n # ys)"
proof -
  have "ring (link_after a n h) a ((n # ys) @ l # xs)"
    using ring_link_after[OF ring_rotate[OF assms(1)], of n] assms(2) by auto
  from ring_rotate[OF this] show ?thesis by simp
qed

lemma ring_unlink:
  assumes "ring h l (xs @ n # ys)"
  shows "ring (unlink n h) l (xs @ ys)"
proof (rule ring_frame)
  show "ring (rt_list_remove n h) l (xs @ ys)" using ring_remove[OF assms] by simp
  have "n \<notin> set (l # xs @ ys)" using assms by (auto simp: ring_def)
  then show "lnext (unlink n h) x = lnext (rt_list_remove n h) x \<and> lprev (unlink n h) x = lprev (rt_list_remove n h) x"
    if "x \<in> set (l # xs @ ys)" for x
    using that by (auto simp: unlink_def list_ops_defs)
qed

lemma ring_clear: "ring h l ns \<Longrightarrow> n \<notin> set (l # ns) \<Longrightarrow> ring (clear_links n h) l ns"
  by (erule ring_frame) (auto simp: clear_links_def set_next_def set_prev_def)

subsection \<open>Lists of items\<close>

text \<open>The bytes of the free items; \<open>e\<close> is the address behind the last item.\<close>

fun free_room :: "(nat \<times> bool) list \<Rightarrow> nat \<Rightarrow> nat" where
  "free_room [] e = 0"
| "free_room ((a, u) # bl) e = (if u then 0 else hd (map fst bl @ [e]) - a - RT_MEMHEAP_SIZE) + free_room bl e"

lemma free_room_append: "free_room (xs @ (a, u) # ys) e = free_room xs a + free_room ((a, u) # ys) e"
proof (induction xs)
  case (Cons x xs)
  then show ?case by (cases x; cases xs) auto
qed simp

text \<open>Items lie apart by a header and the least size, and are aligned like the first one.\<close>

definition layout :: "nat \<Rightarrow> nat \<Rightarrow> nat list \<Rightarrow> bool" where
  "layout start e as \<longleftrightarrow> as \<noteq> [] \<and> hd as = start \<and> 0 < start \<and> e + RT_MEMHEAP_SIZE \<le> 2 ^ 32
     \<and> sorted_wrt (\<lambda>a b. a + (RT_MEMHEAP_SIZE + RT_MEMHEAP_MINIALLOC) \<le> b) (as @ [e])
     \<and> (\<forall>a \<in> set as. a mod 4 = start mod 4)"

lemma layout_range: "layout start e as \<Longrightarrow> a \<in> set as \<Longrightarrow> start \<le> a \<and> a + 36 \<le> e"
  by (cases as) (auto simp: layout_def sorted_wrt_append)

lemma layout_next: "layout start e (xs @ a # ys) \<Longrightarrow> a + 36 \<le> hd (ys @ [e]) \<and> hd (ys @ [e]) \<le> e"
  by (cases ys) (auto simp: layout_def sorted_wrt_append)

lemma layout_sides:
  assumes "layout start e (xs @ a # ys)"
  shows "(\<forall>x \<in> set xs. x \<le> a) \<and> (\<forall>y \<in> set ys. hd (ys @ [e]) \<le> y)"
proof -
  have s: "sorted_wrt (\<lambda>a b. a + 36 \<le> b) (xs @ a # ys @ [e])" using assms by (simp add: layout_def)
  then have "\<forall>x \<in> set xs. x + 36 \<le> a" by (simp add: sorted_wrt_append)
  moreover have "\<forall>y \<in> set ys. hd (ys @ [e]) \<le> y" using s by (cases ys) (auto simp: sorted_wrt_append)
  ultimately show ?thesis by auto
qed

lemma layout_insert:
  assumes "layout start e (xs @ a # ys)" "a + 36 \<le> n" "n + 36 \<le> hd (ys @ [e])" "n mod 4 = a mod 4"
  shows "layout start e (xs @ a # n # ys) \<and> n \<notin> set (xs @ a # ys) \<and> n < e"
proof -
  have s: "sorted_wrt (\<lambda>a b. a + 36 \<le> b) (xs @ a # ys @ [e])" "\<forall>x\<in>set xs. x + 36 \<le> a" using assms(1) by (auto simp: layout_def sorted_wrt_append)
  have y: "\<forall>y \<in> set (ys @ [e]). n + 36 \<le> y"
    using assms(3) s(1) by (cases ys) (auto simp: sorted_wrt_append)
  have "sorted_wrt (\<lambda>a b. a + 36 \<le> b) (xs @ a # n # ys @ [e])"
    using s y assms(2) by (auto simp: sorted_wrt_append)
  moreover have "n \<notin> set (xs @ a # ys)" "n < e" using y s(2) assms(2) by auto
  moreover have "hd (xs @ a # n # ys) = hd (xs @ a # ys)" by (cases xs) simp_all
  moreover have "start mod 4 = a mod 4" using assms(1) by (simp add: layout_def)
  ultimately show ?thesis using assms(1,4) by (simp add: layout_def)
qed

lemma layout_remove: "layout start e (xs @ a # b # ys) \<Longrightarrow> layout start e (xs @ a # ys)"
  by (cases xs) (auto simp: layout_def sorted_wrt_append)

subsection \<open>A heap and its lists\<close>

abbreviation used_magic :: u32 where "used_magic \<equiv> RT_MEMHEAP_MAGIC OR RT_MEMHEAP_USED"

definition mh_end :: "rt_memheap \<Rightarrow> nat" where
  "mh_end h = mh_start_addr h + mh_pool_size h - RT_MEMHEAP_SIZE"

fun marked :: "memheaps \<Rightarrow> nat \<Rightarrow> (nat \<times> bool) list \<Rightarrow> bool" where
  "marked s k [] \<longleftrightarrow> True"
| "marked s k ((a, u) # bl) \<longleftrightarrow> mi_magic s a = (if u then used_magic else RT_MEMHEAP_MAGIC) \<and> mi_pool_ptr s a = k \<and> marked s k bl"

lemma marked_append [simp]: "marked s k (xs @ ys) \<longleftrightarrow> marked s k xs \<and> marked s k ys"
  by (induction xs) auto

lemma marked_at: "marked s k bl \<Longrightarrow> (a, u) \<in> set bl \<Longrightarrow> mi_magic s a = (if u then used_magic else RT_MEMHEAP_MAGIC) \<and> mi_pool_ptr s a = k"
  by (induction bl) auto

lemma mh_end_upds [simp]:
  "mh_end (h\<lparr>mh_lock := x\<rparr>) = mh_end h" "mh_end (h\<lparr>mh_available_size := x\<rparr>) = mh_end h"
  by (simp_all add: mh_end_def)

definition mh_rep :: "memheaps \<Rightarrow> nat \<Rightarrow> (nat \<times> bool) list \<Rightarrow> nat list \<Rightarrow> bool" where
  "mh_rep s k bl fs \<longleftrightarrow>
     (let h = mh_heaps s k
      in k \<noteq> 0 \<and> k \<in> set (mh_objects s) \<and> mh_free_list h = free_header k
        \<and> layout (mh_start_addr h) (mh_end h) (map fst bl)
        \<and> (free_header k < mh_start_addr h \<or> mh_end h + RT_MEMHEAP_SIZE \<le> free_header k)
        \<and> ring (mi_links s) (mh_end h) (map fst bl) \<and> ring (mi_free_links s) (free_header k) fs
        \<and> marked s k bl \<and> mi_magic s (mh_end h) = used_magic \<and> mi_pool_ptr s (mh_end h) = k)"

text \<open>And what holds between the calls: no two free items side by side, the free list holds the free ones, the counters are right; the lock is free.\<close>

definition mh_core :: "memheaps \<Rightarrow> nat \<Rightarrow> (nat \<times> bool) list \<Rightarrow> nat list \<Rightarrow> bool" where
  "mh_core s k bl fs \<longleftrightarrow> mh_rep s k bl fs \<and> successively (\<lambda>x y. snd x \<or> snd y) bl \<and> set fs = {a. (a, False) \<in> set bl}
     \<and> mh_available_size (mh_heaps s k) = free_room bl (mh_end (mh_heaps s k))
     \<and> mh_pool_size (mh_heaps s k) - mh_available_size (mh_heaps s k) \<le> mh_max_used_size (mh_heaps s k)"

lemma mh_coreD:
  assumes "mh_core s k bl fs"
  shows "mh_rep s k bl fs" "successively (\<lambda>x y. snd x \<or> snd y) bl" "set fs = {a. (a, False) \<in> set bl}"
    "mh_available_size (mh_heaps s k) = free_room bl (mh_end (mh_heaps s k))"
    "mh_pool_size (mh_heaps s k) - mh_available_size (mh_heaps s k) \<le> mh_max_used_size (mh_heaps s k)"
  using assms unfolding mh_core_def by blast+

definition mh_ok :: "memheaps \<Rightarrow> nat \<Rightarrow> (nat \<times> bool) list \<Rightarrow> nat list \<Rightarrow> bool" where
  "mh_ok s k bl fs \<longleftrightarrow> mh_core s k bl fs \<and> mh_lock (mh_heaps s k) = 1"

lemma upd_sels [simp]:
  "mh_heaps (upd_links f s) = mh_heaps s" "mh_heaps (upd_free_links f s) = mh_heaps s" "mh_heaps (set_magic p v s) = mh_heaps s" "mh_heaps (set_pool_ptr p q s) = mh_heaps s"
  "mh_heaps (upd_mh k g s) = (mh_heaps s)(k := g (mh_heaps s k))"
  "mh_objects (upd_links f s) = mh_objects s" "mh_objects (upd_free_links f s) = mh_objects s" "mh_objects (set_magic p v s) = mh_objects s"
  "mh_objects (set_pool_ptr p q s) = mh_objects s" "mh_objects (upd_mh k g s) = mh_objects s"
  "mi_links (upd_links f s) = f (mi_links s)" "mi_links (upd_free_links f s) = mi_links s" "mi_links (set_magic p v s) = mi_links s"
  "mi_links (set_pool_ptr p q s) = mi_links s" "mi_links (upd_mh k g s) = mi_links s"
  "mi_free_links (upd_links f s) = mi_free_links s" "mi_free_links (upd_free_links f s) = f (mi_free_links s)" "mi_free_links (set_magic p v s) = mi_free_links s"
  "mi_free_links (set_pool_ptr p q s) = mi_free_links s" "mi_free_links (upd_mh k g s) = mi_free_links s"
  "mi_magic (upd_links f s) = mi_magic s" "mi_magic (upd_free_links f s) = mi_magic s" "mi_magic (set_magic p v s) = (mi_magic s)(p := v)"
  "mi_magic (set_pool_ptr p q s) = mi_magic s" "mi_magic (upd_mh k g s) = mi_magic s"
  "mi_pool_ptr (upd_links f s) = mi_pool_ptr s" "mi_pool_ptr (upd_free_links f s) = mi_pool_ptr s" "mi_pool_ptr (set_magic p v s) = mi_pool_ptr s"
  "mi_pool_ptr (set_pool_ptr p q s) = (mi_pool_ptr s)(p := q)" "mi_pool_ptr (upd_mh k g s) = mi_pool_ptr s"
  by (simp_all add: upd_links_def upd_free_links_def set_magic_def set_pool_ptr_def upd_mh_def)

lemma upd_memory [simp]:
  "mh_memory (upd_links f s) = mh_memory s" "mh_memory (upd_free_links f s) = mh_memory s" "mh_memory (set_magic p v s) = mh_memory s"
  "mh_memory (set_pool_ptr p q s) = mh_memory s" "mh_memory (upd_mh k g s) = mh_memory s"
  by (simp_all add: upd_links_def upd_free_links_def set_magic_def set_pool_ptr_def upd_mh_def)

lemma marked_frames [simp]:
  "marked (upd_links f s) k bl = marked s k bl" "marked (upd_free_links f s) k bl = marked s k bl" "marked (upd_mh j g s) k bl = marked s k bl"
  "n \<notin> fst ` set bl \<Longrightarrow> marked (set_magic n v s) k bl = marked s k bl" "n \<notin> fst ` set bl \<Longrightarrow> marked (set_pool_ptr n j s) k bl = marked s k bl"
  by (induction bl) auto

lemma mh_repD:
  assumes "mh_rep s k bl fs"
  shows "k \<noteq> 0" "k \<in> set (mh_objects s)" "mh_free_list (mh_heaps s k) = free_header k"
    "layout (mh_start_addr (mh_heaps s k)) (mh_end (mh_heaps s k)) (map fst bl)"
    "ring (mi_links s) (mh_end (mh_heaps s k)) (map fst bl)" "ring (mi_free_links s) (free_header k) fs"
    "(a, u) \<in> set bl \<Longrightarrow> mi_magic s a = (if u then used_magic else RT_MEMHEAP_MAGIC) \<and> mi_pool_ptr s a = k \<and> a \<noteq> free_header k \<and> a \<noteq> mh_end (mh_heaps s k)"
    "mi_magic s (mh_end (mh_heaps s k)) = used_magic"
proof -
  show "k \<noteq> 0" "k \<in> set (mh_objects s)" "mh_free_list (mh_heaps s k) = free_header k"
    "layout (mh_start_addr (mh_heaps s k)) (mh_end (mh_heaps s k)) (map fst bl)"
    "ring (mi_links s) (mh_end (mh_heaps s k)) (map fst bl)" "ring (mi_free_links s) (free_header k) fs"
    "mi_magic s (mh_end (mh_heaps s k)) = used_magic"
    using assms by (simp_all add: mh_rep_def Let_def)
  assume a: "(a, u) \<in> set bl"
  then have "a \<in> set (map fst bl)" by force
  with assms have "mh_start_addr (mh_heaps s k) \<le> a \<and> a + 36 \<le> mh_end (mh_heaps s k)"
    using layout_range[of "mh_start_addr (mh_heaps s k)" "mh_end (mh_heaps s k)" "map fst bl" a] by (simp add: mh_rep_def Let_def)
  moreover have "marked s k bl" using assms by (simp add: mh_rep_def Let_def)
  moreover have "free_header k < mh_start_addr (mh_heaps s k) \<or> mh_end (mh_heaps s k) + RT_MEMHEAP_SIZE \<le> free_header k"
    using assms by (simp add: mh_rep_def Let_def)
  ultimately show "mi_magic s a = (if u then used_magic else RT_MEMHEAP_MAGIC) \<and> mi_pool_ptr s a = k \<and> a \<noteq> free_header k \<and> a \<noteq> mh_end (mh_heaps s k)"
    using marked_at[OF _ a] by auto
qed

text \<open>The item behind, the item in front, whether an item is used, and its size.\<close>

lemma mh_rep_at:
  assumes "mh_rep s k (xs @ (a, u) # ys) fs"
  shows "next_item s a = hd (map fst ys @ [mh_end (mh_heaps s k)])"
    "prev_item s a = last (mh_end (mh_heaps s k) # map fst xs)"
    "MEMITEM_SIZE s a = hd (map fst ys @ [mh_end (mh_heaps s k)]) - a - RT_MEMHEAP_SIZE"
    "a + 36 \<le> hd (map fst ys @ [mh_end (mh_heaps s k)])" "hd (map fst ys @ [mh_end (mh_heaps s k)]) + 24 \<le> 2 ^ 32"
proof -
  let ?e = "mh_end (mh_heaps s k)"
  have r: "ring (mi_links s) ?e (map fst xs @ a # map fst ys)" using mh_repD(5)[OF assms] by simp
  show n: "next_item s a = hd (map fst ys @ [?e])" "prev_item s a = last (?e # map fst xs)" using ring_at[OF r] by auto
  have l: "layout (mh_start_addr (mh_heaps s k)) ?e (map fst xs @ a # map fst ys)" using mh_repD(4)[OF assms] by simp
  show "a + 36 \<le> hd (map fst ys @ [?e])" "hd (map fst ys @ [?e]) + 24 \<le> 2 ^ 32"
    using layout_next[OF l] l by (auto simp: layout_def)
  then show "MEMITEM_SIZE s a = hd (map fst ys @ [?e]) - a - RT_MEMHEAP_SIZE" by (simp add: MEMITEM_SIZE_def n)
qed

lemma used_by_magic: "used_magic AND RT_MEMHEAP_USED \<noteq> 0" "RT_MEMHEAP_MAGIC AND RT_MEMHEAP_USED = 0"
  by simp_all

lemma mh_rep_used: "mh_rep s k bl fs \<Longrightarrow> (a, u) \<in> set bl \<Longrightarrow> RT_MEMHEAP_IS_USED s a = u"
  using mh_repD(7)[of s k bl fs a u] by (simp add: RT_MEMHEAP_IS_USED_def)

lemma mh_rep_end_used: "mh_rep s k bl fs \<Longrightarrow> RT_MEMHEAP_IS_USED s (mh_end (mh_heaps s k))"
  using mh_repD(8)[of s k bl fs] by (simp add: RT_MEMHEAP_IS_USED_def)

subsection \<open>Single steps\<close>

lemma rep_upd_mh:
  assumes "\<And>h. mh_start_addr (f h) = mh_start_addr h \<and> mh_pool_size (f h) = mh_pool_size h \<and> mh_free_list (f h) = mh_free_list h"
  shows "mh_rep (upd_mh j f s) k bl fs = mh_rep s k bl fs"
  using assms by (simp add: mh_rep_def Let_def mh_end_def)

lemma rep_unlink_free: "mh_rep s k bl (us @ a # vs) \<Longrightarrow> mh_rep (upd_free_links (unlink a) s) k bl (us @ vs)"
  using ring_unlink[of "mi_free_links s" "free_header k" us a vs] by (simp add: mh_rep_def Let_def)

lemma rep_clear_free: "mh_rep s k bl fs \<Longrightarrow> a \<notin> set (free_header k # fs) \<Longrightarrow> mh_rep (upd_free_links (clear_links a) s) k bl fs"
  using ring_clear[of "mi_free_links s" "free_header k" fs a] by (simp add: mh_rep_def Let_def)

lemma rep_take_free:
  assumes "mh_rep s k bl (us @ a # vs)"
  shows "mh_rep (upd_free_links (clear_links a \<circ> unlink a) s) k bl (us @ vs)"
proof -
  have "a \<notin> set (free_header k # us @ vs)" using mh_repD(6)[OF assms] by (auto simp: ring_def)
  with rep_clear_free[OF rep_unlink_free[OF assms]] show ?thesis by (simp add: upd_free_links_def)
qed

lemma rep_insert_free:
  assumes "mh_rep s k bl fs" "a \<in> fst ` set bl" "a \<notin> set fs"
  shows "mh_rep (insert_free k a s) k bl (a # fs)"
proof -
  have "a \<noteq> free_header k" using mh_repD(7)[OF assms(1)] assms(2) by force
  with assms ring_link_after[of "mi_free_links s" "free_header k" fs a] show ?thesis
    by (simp add: mh_rep_def insert_free_def Let_def)
qed

lemma rep_set_magic:
  assumes "mh_rep s k (xs @ (a, u) # ys) fs"
  shows "mh_rep (set_magic a (if v then used_magic else RT_MEMHEAP_MAGIC) s) k (xs @ (a, v) # ys) fs"
proof -
  have "a \<noteq> mh_end (mh_heaps s k)" using mh_repD(7)[OF assms, of a u] by simp
  moreover have "distinct (map fst (xs @ (a, u) # ys))" using mh_repD(5)[OF assms] by (simp add: ring_def)
  then have "a \<notin> fst ` set xs \<union> fst ` set ys" by auto
  ultimately show ?thesis using assms by (auto simp: mh_rep_def Let_def image_iff)
qed

lemma rep_new_item:
  assumes "mh_rep s k (xs @ (a, u) # ys) fs" "a + 36 \<le> n" "n + 36 \<le> hd (map fst ys @ [mh_end (mh_heaps s k)])" "n mod 4 = a mod 4"
  shows "mh_rep (new_item k a n s) k (xs @ (a, u) # (n, False) # ys) fs \<and> n \<notin> fst ` set (xs @ (a, u) # ys)"
proof -
  let ?e = "mh_end (mh_heaps s k)"
  have l: "layout (mh_start_addr (mh_heaps s k)) ?e (map fst xs @ a # map fst ys)" using mh_repD(4)[OF assms(1)] by simp
  have i: "layout (mh_start_addr (mh_heaps s k)) ?e (map fst xs @ a # n # map fst ys)" "n \<notin> set (map fst xs @ a # map fst ys)" "n < ?e"
    using layout_insert[OF l assms(2-4)] by auto
  have "ring (mi_links s) ?e (map fst xs @ a # map fst ys)" using mh_repD(5)[OF assms(1)] by simp
  then have "ring (link_after a n (mi_links s)) ?e (map fst xs @ a # n # map fst ys)"
    by (rule ring_link_at) (use i in auto)
  with assms(1) i show ?thesis by (auto simp: mh_rep_def new_item_def Let_def)
qed

lemma join_links:
  assumes "ring b l (xs @ a # n # ys)"
  shows "(let b1 = set_prev (lnext b n) a b in set_next a (lnext b1 n) b1) = unlink n b"
  using ring_at[of b l "xs @ [a]" n ys] assms by (simp add: unlink_def Let_def set_prev_def)

lemma rep_join_next:
  assumes "mh_rep s k (xs @ (a, u) # (n, v) # ys) (us @ n # vs)"
  shows "mh_rep (join_next a n s) k (xs @ (a, u) # ys) (us @ vs)"
proof -
  let ?e = "mh_end (mh_heaps s k)"
  have r: "ring (mi_links s) ?e (map fst xs @ a # n # map fst ys)" using mh_repD(5)[OF assms] by simp
  have f: "ring (mi_free_links s) (free_header k) (us @ n # vs)" using mh_repD(6)[OF assms] .
  have "ring (unlink n (mi_links s)) ?e ((map fst xs @ [a]) @ map fst ys)" by (rule ring_unlink) (use r in simp)
  with assms ring_unlink[OF f] layout_remove[of _ ?e "map fst xs" a n "map fst ys"] join_links[OF r]
  show ?thesis by (auto simp: mh_rep_def join_next_def Let_def)
qed

end
