(* ===== verification/RT_MemHeapOps.thy ===== *)
theory RT_MemHeapOps
  imports RT_MemHeapInv
begin

text \<open>What the operations of \<open>RT_MemHeap\<close> do to the lists of items of a heap.\<close>

subsection \<open>Counters and lock\<close>

lemma free_room_le: "layout start e (map fst bl) \<Longrightarrow> free_room bl e \<le> e - start"
proof (induction bl arbitrary: start)
  case (Cons x bl)
  obtain a u where x: "x = (a, u)" by (cases x)
  show ?case
  proof (cases bl)
    case Nil
    with Cons.prems x show ?thesis by (auto simp: layout_def)
  next
    case (Cons y ys)
    have l: "layout (fst y) e (map fst bl)" using Cons.prems Cons x by (auto simp: layout_def)
    have "a = start" "a + 36 \<le> fst y" "fst y \<le> e" using Cons.prems Cons x layout_next[of start e "[]" a "map fst bl"] by (auto simp: layout_def)
    with Cons.IH[OF l] Cons x show ?thesis by auto
  qed
qed simp

lemma mh_rep_sizes:
  assumes "mh_rep s k bl fs"
  shows "free_room bl (mh_end (mh_heaps s k)) \<le> mh_pool_size (mh_heaps s k)" "mh_end (mh_heaps s k) + 24 \<le> 2 ^ 32"
    "mh_end (mh_heaps s k) + 24 = mh_start_addr (mh_heaps s k) + mh_pool_size (mh_heaps s k)" "mh_pool_size (mh_heaps s k) < 2 ^ 32"
proof -
  note l = mh_repD(4)[OF assms]
  obtain a where "a \<in> set (map fst bl)" using l by (cases bl) (auto simp: layout_def)
  from layout_range[OF l this] have "mh_start_addr (mh_heaps s k) < mh_end (mh_heaps s k)" by simp
  then show e: "mh_end (mh_heaps s k) + 24 = mh_start_addr (mh_heaps s k) + mh_pool_size (mh_heaps s k)" by (simp add: mh_end_def)
  show "mh_end (mh_heaps s k) + 24 \<le> 2 ^ 32" using l by (simp add: layout_def)
  with e show "free_room bl (mh_end (mh_heaps s k)) \<le> mh_pool_size (mh_heaps s k)" "mh_pool_size (mh_heaps s k) < 2 ^ 32"
    using free_room_le[OF l] l by (auto simp: layout_def)
qed

lemma rep_counters [simp]:
  "mh_rep (use_bytes j n s) k bl fs = mh_rep s k bl fs" "mh_rep (return_bytes j n s) k bl fs = mh_rep s k bl fs"
  "mh_rep (give_lock j s) k bl fs = mh_rep s k bl fs"
  by (auto simp: use_bytes_def return_bytes_def give_lock_def Let_def intro!: rep_upd_mh)

lemma use_bytes_fields:
  assumes "n \<le> mh_available_size (mh_heaps s k)" "mh_available_size (mh_heaps s k) \<le> mh_pool_size (mh_heaps s k)"
    "mh_pool_size (mh_heaps s k) - mh_available_size (mh_heaps s k) \<le> mh_max_used_size (mh_heaps s k)"
  shows "mh_available_size (mh_heaps (use_bytes k n s) k) = mh_available_size (mh_heaps s k) - n"
    "mh_pool_size (mh_heaps s k) - (mh_available_size (mh_heaps s k) - n) \<le> mh_max_used_size (mh_heaps (use_bytes k n s) k)"
  using assms by (auto simp: use_bytes_def Let_def)

lemma counters_sels [simp]:
  "mh_start_addr (mh_heaps (use_bytes k n s) j) = mh_start_addr (mh_heaps s j)" "mh_pool_size (mh_heaps (use_bytes k n s) j) = mh_pool_size (mh_heaps s j)"
  "mh_lock (mh_heaps (use_bytes k n s) j) = mh_lock (mh_heaps s j)" "mh_free_list (mh_heaps (use_bytes k n s) j) = mh_free_list (mh_heaps s j)"
  "mh_end (mh_heaps (use_bytes k n s) j) = mh_end (mh_heaps s j)"
  "mi_links (use_bytes k n s) = mi_links s" "mi_free_links (use_bytes k n s) = mi_free_links s" "mi_magic (use_bytes k n s) = mi_magic s"
  "mh_memory (use_bytes k n s) = mh_memory s"
  "mh_start_addr (mh_heaps (return_bytes k n s) j) = mh_start_addr (mh_heaps s j)" "mh_pool_size (mh_heaps (return_bytes k n s) j) = mh_pool_size (mh_heaps s j)"
  "mh_lock (mh_heaps (return_bytes k n s) j) = mh_lock (mh_heaps s j)" "mh_free_list (mh_heaps (return_bytes k n s) j) = mh_free_list (mh_heaps s j)"
  "mh_end (mh_heaps (return_bytes k n s) j) = mh_end (mh_heaps s j)"
  "mh_max_used_size (mh_heaps (return_bytes k n s) j) = mh_max_used_size (mh_heaps s j)"
  "mh_available_size (mh_heaps (return_bytes k n s) k) = (mh_available_size (mh_heaps s k) + n) mod 2 ^ 32"
  "mi_links (return_bytes k n s) = mi_links s" "mi_free_links (return_bytes k n s) = mi_free_links s" "mi_magic (return_bytes k n s) = mi_magic s"
  "mh_memory (return_bytes k n s) = mh_memory s"
  by (simp_all add: use_bytes_def return_bytes_def mh_end_def Let_def add32_def)

lemma lock_sels [simp]:
  "mh_end (mh_heaps (give_lock k s) j) = mh_end (mh_heaps s j)" "mh_memory (give_lock k s) = mh_memory s"
  by (simp_all add: give_lock_def mh_end_def)

lemma take_item_sels [simp]:
  "mh_end (mh_heaps (take_item k n a m s) j) = mh_end (mh_heaps s j)" "mh_memory (take_item k n a m s) = mh_memory s"
  "mh_lock (mh_heaps (take_item k n a m s) j) = mh_lock (mh_heaps s j)"
  by (simp_all add: take_item_def Let_def new_item_def insert_free_def)

lemma item_sels [simp]:
  "mh_heaps (new_item k a n s) = mh_heaps s" "mh_heaps (insert_free k a s) = mh_heaps s" "mh_heaps (join_next a n s) = mh_heaps s"
  "mh_memory (new_item k a n s) = mh_memory s" "mh_memory (insert_free k a s) = mh_memory s" "mh_memory (join_next a n s) = mh_memory s"
  "mi_links (insert_free k a s) = mi_links s" "mi_magic (insert_free k a s) = mi_magic s" "mi_magic (join_next a n s) = mi_magic s"
  by (simp_all add: new_item_def insert_free_def join_next_def Let_def)

lemma core_lock [simp]:
  "mh_core (upd_mh j (\<lambda>h. h\<lparr>mh_lock := f h\<rparr>) s) k bl fs = mh_core s k bl fs"
  by (simp add: mh_core_def rep_upd_mh mh_end_def)

lemma take_lock_ok: "mh_ok s k bl fs \<Longrightarrow> \<exists>s1. take_lock k s = Some s1 \<and> s1 = upd_mh k (\<lambda>h. h\<lparr>mh_lock := 0\<rparr>) s \<and> mh_core s1 k bl fs"
proof -
  assume "mh_ok s k bl fs"
  then have c: "mh_core s k bl fs" and l: "mh_lock (mh_heaps s k) = 1" by (simp_all add: mh_ok_def)
  have "upd_mh k (\<lambda>h. h\<lparr>mh_lock := mh_lock h - 1\<rparr>) s = upd_mh k (\<lambda>h. h\<lparr>mh_lock := 0\<rparr>) s" using l by (simp add: upd_mh_def)
  then show ?thesis using c l by (simp add: take_lock_def)
qed

lemma give_lock_ok: "mh_core s k bl fs \<Longrightarrow> mh_lock (mh_heaps s k) = 0 \<Longrightarrow> mh_ok (give_lock k s) k bl fs"
  by (simp add: mh_ok_def give_lock_def)

subsection \<open>The search\<close>

lemma find_free_finds:
  assumes "ring (mi_free_links s) l (us @ vs)" "f < sz"
  shows "case find (\<lambda>a. sz \<le> MEMITEM_SIZE s a) vs of
      None \<Rightarrow> \<exists>f' < sz. find_free s l sz (hd (vs @ [l])) f = Some (l, f')
    | Some a \<Rightarrow> find_free s l sz (hd (vs @ [l])) f = Some (a, MEMITEM_SIZE s a)"
  using assms
proof (induction vs arbitrary: us f)
  case Nil
  then show ?case by (auto simp: find_free.simps)
next
  case (Cons a vs)
  have a: "a \<noteq> l" using Cons.prems(1) by (auto simp: ring_def)
  have n: "lnext (mi_free_links s) a = hd (vs @ [l])" using ring_at[OF Cons.prems(1)] by simp
  show ?case
  proof (cases "sz \<le> MEMITEM_SIZE s a")
    case True
    then show ?thesis using a Cons.prems(2) by (simp add: find_free.simps[of s l sz a f] find_free.simps[of s l sz a "MEMITEM_SIZE s a"] Let_def)
  next
    case False
    with Cons.IH[of "us @ [a]" "MEMITEM_SIZE s a"] Cons.prems a n show ?thesis
      by (simp add: find_free.simps[of s l sz a f] Let_def split: option.splits)
  qed
qed

subsection \<open>Taking an item\<close>

lemma successively_used: "successively (\<lambda>x y. snd x \<or> snd y) (xs @ (a, u) # ys) \<Longrightarrow> successively (\<lambda>x y. snd x \<or> snd y) (xs @ (a, True) # ys)"
  by (cases ys) (auto simp: successively_append_iff)

lemma use_bytes_room:
  assumes "mh_rep s k bl fs" "n \<le> mh_available_size (mh_heaps s k)" "mh_available_size (mh_heaps s k) \<le> mh_pool_size (mh_heaps s k)"
    "mh_pool_size (mh_heaps s k) - mh_available_size (mh_heaps s k) \<le> mh_max_used_size (mh_heaps s k)"
    "mh_heaps t k = mh_heaps (use_bytes k n s) k" "r = mh_available_size (mh_heaps s k) - n"
  shows "mh_available_size (mh_heaps t k) = r \<and> mh_pool_size (mh_heaps t k) - mh_available_size (mh_heaps t k) \<le> mh_max_used_size (mh_heaps t k)
    \<and> mh_end (mh_heaps t k) = mh_end (mh_heaps s k)"
  using use_bytes_fields[OF assms(2-4)] assms(5,6) by simp

lemma mh_coreI:
  assumes "mh_rep t k bl fs" "successively (\<lambda>x y. snd x \<or> snd y) bl" "set fs = {a. (a, False) \<in> set bl}"
    "mh_available_size (mh_heaps t k) = free_room bl e \<and> mh_pool_size (mh_heaps t k) - mh_available_size (mh_heaps t k) \<le> mh_max_used_size (mh_heaps t k)
      \<and> mh_end (mh_heaps t k) = e"
  shows "mh_core t k bl fs"
  using assms unfolding mh_core_def by blast

lemma take_item_core:
  assumes c: "mh_core s k (xs @ (a, False) # ys) (us @ a # vs)" and n: "12 \<le> n" "n mod 4 = 0" "n \<le> m" and m: "m = MEMITEM_SIZE s a"
  shows "if n + 36 \<le> m then mh_core (take_item k n a m s) k (xs @ (a, True) # (a + n + 24, False) # ys) ((a + n + 24) # us @ vs)
    else mh_core (take_item k n a m s) k (xs @ (a, True) # ys) (us @ vs)"
proof -
  let ?bl = "xs @ (a, False) # ys" and ?e = "mh_end (mh_heaps s k)" and ?new = "a + n + 24"
  have r: "mh_rep s k ?bl (us @ a # vs)" using c by (simp add: mh_core_def)
  note at = mh_rep_at[OF r] and sz = mh_rep_sizes[OF r]
  have av: "mh_available_size (mh_heaps s k) = free_room xs a + (m + free_room ys ?e)"
    using c at by (simp add: mh_core_def free_room_append m)
  then have le: "mh_available_size (mh_heaps s k) \<le> mh_pool_size (mh_heaps s k)" using c sz(1) by (simp add: mh_core_def)
  have mx: "mh_pool_size (mh_heaps s k) - mh_available_size (mh_heaps s k) \<le> mh_max_used_size (mh_heaps s k)" by (rule mh_coreD(5)[OF c])
  note adj = mh_coreD(2)[OF c] and fr = mh_coreD(3)[OF c]
  have d: "distinct (map fst ?bl)" "distinct (us @ a # vs)" using mh_repD(5,6)[OF r] by (auto simp: ring_def)
  have add: "add32 n 36 = n + 36" using n(3) m at by (simp add: add32_def)
  have fr2: "set (us @ vs) = {x. (x, False) \<in> set (xs @ (a, True) # ys)}"
  proof -
    have "set (us @ vs) = set (us @ a # vs) - {a}" using d(2) by auto
    also have "\<dots> = {x. (x, False) \<in> set (xs @ (a, True) # ys)}" unfolding fr using d(1) by (auto simp: image_iff)
    finally show ?thesis .
  qed
  show ?thesis
  proof (cases "n + 36 \<le> m")
    case True
    let ?s1 = "new_item k a ?new s"
    let ?s2 = "upd_free_links (clear_links a \<circ> unlink a) ?s1"
    let ?s3 = "use_bytes k (n + 24) (insert_free k ?new ?s2)"
    have ni: "mh_rep ?s1 k (xs @ (a, False) # (?new, False) # ys) (us @ a # vs)" "?new \<notin> fst ` set ?bl"
      using rep_new_item[OF r, of ?new] n True m at by (auto simp: mod_add_eq[symmetric])
    have nf: "?new \<notin> set (us @ a # vs)" unfolding fr using ni(2) by force
    have "mh_rep (insert_free k ?new ?s2) k (xs @ (a, False) # (?new, False) # ys) (?new # us @ vs)"
      by (rule rep_insert_free[OF rep_take_free[OF ni(1)]]) (use nf in auto)
    then have "mh_rep ?s3 k (xs @ (a, False) # (?new, False) # ys) (?new # us @ vs)" by simp
    from rep_set_magic[OF this, of True]
    have R: "mh_rep (take_item k n a m s) k (xs @ (a, True) # (?new, False) # ys) (?new # us @ vs)"
      using mh_repD(7)[OF \<open>mh_rep ?s3 k _ _\<close>, of a False] True by (simp add: take_item_def add Let_def)
    have h: "mh_heaps (take_item k n a m s) k = mh_heaps (use_bytes k (n + 24) s) k"
      using True by (simp add: take_item_def add Let_def use_bytes_def)
    have u: "mh_available_size (mh_heaps (take_item k n a m s) k) = free_room (xs @ (a, True) # (?new, False) # ys) ?e
      \<and> mh_pool_size (mh_heaps (take_item k n a m s) k) - mh_available_size (mh_heaps (take_item k n a m s) k) \<le> mh_max_used_size (mh_heaps (take_item k n a m s) k)
      \<and> mh_end (mh_heaps (take_item k n a m s) k) = ?e"
      by (rule use_bytes_room[OF r _ le mx h]) (use True av at m in \<open>simp_all add: free_room_append\<close>)
    have "successively (\<lambda>x y. snd x \<or> snd y) (xs @ (a, True) # (?new, False) # ys)"
      using adj by (cases ys) (auto simp: successively_append_iff)
    moreover have "set (?new # us @ vs) = {x. (x, False) \<in> set (xs @ (a, True) # (?new, False) # ys)}"
      using fr2 by auto
    ultimately show ?thesis using True mh_coreI[OF R _ _ u] by simp
  next
    case False
    let ?s2 = "upd_free_links (clear_links a \<circ> unlink a) (use_bytes k m s)"
    have R2: "mh_rep ?s2 k ?bl (us @ vs)" by (rule rep_take_free) (use r in simp)
    from rep_set_magic[OF this, of True]
    have R: "mh_rep (take_item k n a m s) k (xs @ (a, True) # ys) (us @ vs)"
      using mh_repD(7)[OF R2, of a False] False by (simp add: take_item_def add Let_def)
    have h: "mh_heaps (take_item k n a m s) k = mh_heaps (use_bytes k m s) k"
      using False by (simp add: take_item_def add Let_def)
    have u: "mh_available_size (mh_heaps (take_item k n a m s) k) = free_room (xs @ (a, True) # ys) ?e
      \<and> mh_pool_size (mh_heaps (take_item k n a m s) k) - mh_available_size (mh_heaps (take_item k n a m s) k) \<le> mh_max_used_size (mh_heaps (take_item k n a m s) k)
      \<and> mh_end (mh_heaps (take_item k n a m s) k) = ?e"
      by (rule use_bytes_room[OF r _ le mx h]) (use av in \<open>simp_all add: free_room_append\<close>)
    show ?thesis using False mh_coreI[OF R successively_used[OF adj] fr2 u] by simp
  qed
qed

lemma item_size_range: "12 \<le> item_size sz \<and> item_size sz mod 4 = 0 \<and> (unat sz \<le> 2 ^ 32 - 4 \<longrightarrow> unat sz \<le> item_size sz)"
proof -
  have "unat (RT_ALIGN sz 4) = (unat sz + 3) mod 2 ^ 32 div 4 * 4" by (rule align_nat)
  moreover have "unat sz \<le> x div 4 * 4" if "x = unat sz + 3" for x using that by presburger
  ultimately show ?thesis by (auto simp: item_size_def Let_def)
qed

text \<open>What \<open>rt_memheap_alloc\<close> does: the first item of the free list that is large enough, cut if the rest can be an item.\<close>

definition fits_at :: "memheaps \<Rightarrow> nat \<Rightarrow> nat list \<Rightarrow> nat option" where
  "fits_at s n fs = find (\<lambda>a. n \<le> MEMITEM_SIZE s a) fs"

definition taken :: "nat \<Rightarrow> nat \<Rightarrow> nat \<Rightarrow> (nat \<times> bool) list \<Rightarrow> (nat \<times> bool) list" where
  "taken a n m ys = (a, True) # (if n + 36 \<le> m then [(a + n + 24, False)] else []) @ ys"

lemma alloc_refuses:
  assumes "mh_ok s k bl fs" "mh_available_size (mh_heaps s k) \<le> item_size sz \<or> fits_at s (item_size sz) fs = None"
  shows "rt_memheap_alloc k sz s = Some (0, s)"
proof -
  have c: "mh_core s k bl fs" and lk: "mh_lock (mh_heaps s k) = 1" using assms(1) by (simp_all add: mh_ok_def)
  note r = mh_coreD(1)[OF c] and ok = mh_repD(1,2)[OF mh_coreD(1)[OF c]]
  show ?thesis
  proof (cases "item_size sz < mh_available_size (mh_heaps s k)")
    case True
    then have f: "fits_at s (item_size sz) fs = None" using assms(2) by simp
    obtain s1 where s1: "take_lock k s = Some s1" "s1 = upd_mh k (\<lambda>h. h\<lparr>mh_lock := 0\<rparr>) s" using take_lock_ok[OF assms(1)] by auto
    have R: "ring (mi_free_links s1) (free_header k) ([] @ fs)" using mh_repD(6)[OF r] s1 by simp
    have m: "MEMITEM_SIZE s1 = MEMITEM_SIZE s" using s1 by (simp add: MEMITEM_SIZE_def fun_eq_iff)
    obtain f' where "f' < item_size sz" "find_free s1 (free_header k) (item_size sz) (hd (fs @ [free_header k])) 0 = Some (free_header k, f')"
      using find_free_finds[OF R, of 0 "item_size sz"] f item_size_range[of sz] by (auto simp: m fits_at_def)
    moreover have "lnext (mi_free_links s1) (free_header k) = hd (fs @ [free_header k])" using ring_next[OF R] by simp
    moreover have "mh_free_list (mh_heaps s1 k) = free_header k" using mh_repD(3)[OF r] s1 by simp
    moreover have "give_lock k s1 = s"
      using lk s1 by (simp add: give_lock_def upd_mh_def fun_upd_idem)
    ultimately show ?thesis using ok True s1(1) by (simp add: rt_memheap_alloc_def)
  qed (use ok in \<open>simp add: rt_memheap_alloc_def\<close>)
qed

lemma alloc_takes:
  assumes "mh_ok s k (xs @ (a, False) # ys) (us @ a # vs)" "item_size sz < mh_available_size (mh_heaps s k)"
    "fits_at s (item_size sz) (us @ a # vs) = Some a" and m: "m = MEMITEM_SIZE s a"
  shows "\<exists>s'. rt_memheap_alloc k sz s = Some (a + 24, s') \<and> mh_memory s' = mh_memory s \<and> mh_end (mh_heaps s' k) = mh_end (mh_heaps s k)
    \<and> mh_ok s' k (xs @ taken a (item_size sz) m ys) (if item_size sz + 36 \<le> m then (a + item_size sz + 24) # us @ vs else us @ vs)"
proof -
  let ?n = "item_size sz"
  have c: "mh_core s k (xs @ (a, False) # ys) (us @ a # vs)" and lk: "mh_lock (mh_heaps s k) = 1" using assms(1) by (simp_all add: mh_ok_def)
  note r = mh_coreD(1)[OF c] and ok = mh_repD(1,2)[OF mh_coreD(1)[OF c]]
  obtain s1 where s1: "take_lock k s = Some s1" "s1 = upd_mh k (\<lambda>h. h\<lparr>mh_lock := 0\<rparr>) s" "mh_core s1 k (xs @ (a, False) # ys) (us @ a # vs)"
    using take_lock_ok[OF assms(1)] by auto
  have R: "ring (mi_free_links s1) (free_header k) ([] @ us @ a # vs)" using mh_repD(6)[OF r] s1 by simp
  have ms: "MEMITEM_SIZE s1 = MEMITEM_SIZE s" using s1 by (simp add: MEMITEM_SIZE_def fun_eq_iff)
  have nm: "?n \<le> m" using assms(3) by (auto simp: fits_at_def m find_Some_iff)
  have "find_free s1 (free_header k) ?n (hd ((us @ a # vs) @ [free_header k])) 0 = Some (a, m)"
    using find_free_finds[OF R, of 0 ?n] assms(3) item_size_range[of sz] by (simp add: ms m fits_at_def)
  moreover have "lnext (mi_free_links s1) (free_header k) = hd ((us @ a # vs) @ [free_header k])" using ring_next[OF R] by simp
  moreover have "mh_free_list (mh_heaps s1 k) = free_header k" using mh_repD(3)[OF r] s1 by simp
  ultimately have e: "rt_memheap_alloc k sz s = Some (a + 24, give_lock k (take_item k ?n a m s1))"
    using ok assms(2) s1(1) nm by (simp add: rt_memheap_alloc_def)
  have lk1: "mh_lock (mh_heaps (take_item k ?n a m s1) k) = 0" using s1(2) by simp
  have "mh_memory (give_lock k (take_item k ?n a m s1)) = mh_memory s \<and> mh_end (mh_heaps (give_lock k (take_item k ?n a m s1)) k) = mh_end (mh_heaps s k)"
    using s1(2) by simp
  moreover have "mh_ok (give_lock k (take_item k ?n a m s1)) k (xs @ taken a ?n m ys) (if ?n + 36 \<le> m then (a + ?n + 24) # us @ vs else us @ vs)"
    by (rule give_lock_ok[OF _ lk1])
      (use take_item_core[OF s1(3), of ?n m] item_size_range[of sz] nm m ms in \<open>auto simp: taken_def split: if_splits\<close>)
  ultimately show ?thesis using e by simp
qed

end
