(* ===== verification/RT_MemHeapFree.thy ===== *)
theory RT_MemHeapFree
  imports RT_MemHeapOps
begin

text \<open>Freeing and resizing items of the heaps of \<open>RT_MemHeap\<close>.\<close>

subsection \<open>Joining items\<close>

text \<open>An item that becomes free joins the free ones in front and behind.\<close>

definition left_free :: "(nat \<times> bool) list \<Rightarrow> bool" where
  "left_free xs \<longleftrightarrow> xs \<noteq> [] \<and> \<not> snd (last xs)"

definition right_free :: "(nat \<times> bool) list \<Rightarrow> bool" where
  "right_free ys \<longleftrightarrow> ys \<noteq> [] \<and> \<not> snd (hd ys)"

definition joined :: "(nat \<times> bool) list \<Rightarrow> nat \<Rightarrow> (nat \<times> bool) list \<Rightarrow> (nat \<times> bool) list" where
  "joined xs a ys = xs @ (if left_free xs then [] else [(a, False)]) @ (if right_free ys then tl ys else ys)"

definition freed :: "(nat \<times> bool) list \<Rightarrow> nat \<Rightarrow> (nat \<times> bool) list \<Rightarrow> nat list \<Rightarrow> nat list" where
  "freed xs a ys fs = (if left_free xs then [] else [a]) @ (if right_free ys then remove1 (fst (hd ys)) fs else fs)"

lemma left_freeE: "left_free xs \<Longrightarrow> (\<And>zs p. xs = zs @ [(p, False)] \<Longrightarrow> P) \<Longrightarrow> P"
  by (cases xs rule: rev_cases) (auto simp: left_free_def)

lemma right_freeE: "right_free ys \<Longrightarrow> (\<And>n zs. ys = (n, False) # zs \<Longrightarrow> P) \<Longrightarrow> P"
  by (cases ys) (auto simp: right_free_def)

lemma joined_alternates:
  assumes "successively (\<lambda>x y. snd x \<or> snd y) (xs @ (a, True) # ys)"
  shows "successively (\<lambda>x y. snd x \<or> snd y) (joined xs a ys)"
proof -
  have x: "successively (\<lambda>x y. snd x \<or> snd y) xs" and y: "successively (\<lambda>x y. snd x \<or> snd y) ys"
    using assms by (auto simp: successively_append_iff successively_Cons)
  let ?y = "if right_free ys then tl ys else ys"
  have y2: "successively (\<lambda>x y. snd x \<or> snd y) ((b, False) # ?y)" for b :: nat
    using y by (cases ys; cases "tl ys") (auto simp: right_free_def)
  show ?thesis
  proof (cases "left_free xs")
    case True
    then obtain zs p where "xs = zs @ [(p, False)]" by (rule left_freeE)
    then show ?thesis using x y2[of p] True by (auto simp: joined_def successively_append_iff)
  next
    case False
    then have "xs = [] \<or> snd (last xs)" by (auto simp: left_free_def)
    then show ?thesis using x y2[of a] False by (auto simp: joined_def successively_append_iff)
  qed
qed

lemma joined_frees:
  assumes "set fs = {x. (x, False) \<in> set (xs @ (a, True) # ys)}" "distinct fs" "distinct (map fst (xs @ (a, True) # ys))"
  shows "set (freed xs a ys fs) = {x. (x, False) \<in> set (joined xs a ys)}"
proof -
  have y: "set (if right_free ys then remove1 (fst (hd ys)) fs else fs) = {x. (x, False) \<in> set xs \<or> (x, False) \<in> set (if right_free ys then tl ys else ys)}"
  proof (cases "right_free ys")
    case True
    then obtain n zs where "ys = (n, False) # zs" by (rule right_freeE)
    then show ?thesis using assms True by (auto simp: image_iff)
  qed (use assms(1) in auto)
  show ?thesis
  proof (cases "left_free xs")
    case False
    then show ?thesis using y by (auto simp: freed_def joined_def)
  qed (use y in \<open>auto simp: freed_def joined_def\<close>)
qed

lemma joined_room:
  assumes "layout start e (map fst (xs @ (a, True) # ys))"
  shows "free_room (joined xs a ys) e = free_room (xs @ (a, True) # ys) e + (hd (map fst ys @ [e]) - a - 24)
    + (if left_free xs then 24 else 0) + (if right_free ys then 24 else 0)"
proof -
  let ?y = "if right_free ys then tl ys else ys" and ?n = "hd (map fst ys @ [e])"
  have n: "a + 36 \<le> ?n" using layout_next[of start e "map fst xs" a "map fst ys"] assms by simp
  have r: "(hd (map fst ?y @ [e]) - b - 24) + free_room ?y e = (?n - b - 24) + free_room ys e + (if right_free ys then 24 else 0)" if "b \<le> a" for b
  proof (cases "right_free ys")
    case True
    then obtain c zs where c: "ys = (c, False) # zs" by (rule right_freeE)
    then have "c + 36 \<le> hd (map fst zs @ [e])" using layout_next[of start e "map fst xs @ [a]" c "map fst zs"] assms by simp
    then show ?thesis using True c n that by simp
  qed simp
  show ?thesis
  proof (cases "left_free xs")
    case True
    then obtain zs p where p: "xs = zs @ [(p, False)]" by (rule left_freeE)
    then have pa: "p + 36 \<le> a" using layout_next[of start e "map fst zs" p "a # map fst ys"] assms by simp
    have "joined xs a ys = zs @ (p, False) # ?y" using True p by (simp add: joined_def)
    then have "free_room (joined xs a ys) e = free_room zs p + ((hd (map fst ?y @ [e]) - p - 24) + free_room ?y e)" by (simp add: free_room_append)
    also have "\<dots> = free_room zs p + ((?n - p - 24) + free_room ys e + (if right_free ys then 24 else 0))" using r[of p] pa by simp
    also have "\<dots> = free_room (xs @ (a, True) # ys) e + (?n - a - 24) + 24 + (if right_free ys then 24 else 0)"
      using p pa n by (simp add: free_room_append)
    finally show ?thesis using True by simp
  next
    case False
    then have "joined xs a ys = xs @ (a, False) # ?y" by (simp add: joined_def)
    then show ?thesis using False r[of a] by (simp add: free_room_append)
  qed
qed

lemma rep_merge_left:
  assumes "mh_rep s k (xs @ (a, False) # ys) fs"
  obtains s' zs h where "merge_left k a s = (s', h, \<not> left_free xs)" "mh_rep s' k (zs @ (h, False) # ys) fs"
    "zs @ [(h, False)] = xs @ (if left_free xs then [] else [(a, False)])"
    "s' = (if left_free xs then upd_links (unlink a) (return_bytes k 24 s) else s)"
proof (cases "left_free xs")
  case True
  then obtain zs p where p: "xs = zs @ [(p, False)]" by (rule left_freeE)
  have pv: "prev_item s a = p" using mh_rep_at(2)[OF assms] p by simp
  have u: "\<not> RT_MEMHEAP_IS_USED s p" using mh_rep_used[OF assms, of p False] p by simp
  have R: "ring (mi_links s) (mh_end (mh_heaps s k)) (map fst zs @ p # a # map fst ys)" using mh_repD(5)[OF assms] p by simp
  have a: "lprev (mi_links s) a = p" "p \<noteq> a" "lnext (mi_links s) a \<noteq> a"
    using pv R ring_at[of "mi_links s" "mh_end (mh_heaps s k)" "map fst zs @ [p]" a "map fst ys"] by (cases ys; auto simp: ring_def)+
  let ?b = "mi_links s" and ?s1 = "return_bytes k 24 s"
  have swap: "(let b1 = set_next (lprev ?b a) (lnext ?b a) ?b in set_prev (lnext b1 a) (lprev b1 a) b1) = unlink a ?b"
    using a by (simp add: unlink_def Let_def set_prev_def set_next_def)
  have m: "merge_left k a s = (upd_links (unlink a) ?s1, p, False)"
    using u a swap by (simp add: merge_left_def pv Let_def upd_links_def unlink_def set_prev_def set_next_def)
  have "mh_rep (upd_links (unlink a) ?s1) k (zs @ (p, False) # ys) fs"
  proof -
    have "ring (unlink a ?b) (mh_end (mh_heaps s k)) ((map fst zs @ [p]) @ map fst ys)" by (rule ring_unlink) (use R in simp)
    moreover have "mh_rep ?s1 k (zs @ (p, False) # (a, False) # ys) fs" using assms p by simp
    ultimately show ?thesis using layout_remove[of _ "mh_end (mh_heaps s k)" "map fst zs" p a "map fst ys"]
      by (auto simp: mh_rep_def Let_def)
  qed
  moreover have "zs @ [(p, False)] = xs @ (if left_free xs then [] else [(a, False)])" using True p by simp
  moreover have "merge_left k a s = (upd_links (unlink a) ?s1, p, \<not> left_free xs)" using m True by simp
  moreover have "upd_links (unlink a) ?s1 = (if left_free xs then upd_links (unlink a) ?s1 else s)" using True by simp
  ultimately show ?thesis by (intro that)
next
  case False
  have "RT_MEMHEAP_IS_USED s (prev_item s a)"
  proof (cases xs rule: rev_cases)
    case Nil
    then show ?thesis using mh_rep_at(2)[OF assms] mh_rep_end_used[OF assms] by simp
  next
    case (snoc zs x)
    then show ?thesis using mh_rep_at(2)[OF assms] mh_rep_used[OF assms, of "fst x" "snd x"] False by (auto simp: left_free_def)
  qed
  then show ?thesis using that[of s a xs] assms False by (simp add: merge_left_def)
qed

lemma rep_merge_right:
  assumes "mh_rep s k (xs @ (a, False) # ys) fs" "right_free ys \<Longrightarrow> fst (hd ys) \<in> set fs"
  shows "mh_rep (merge_right k a s) k (xs @ (a, False) # (if right_free ys then tl ys else ys)) (if right_free ys then remove1 (fst (hd ys)) fs else fs)
    \<and> mh_heaps (merge_right k a s) = mh_heaps (if right_free ys then return_bytes k 24 s else s)
    \<and> mh_memory (merge_right k a s) = mh_memory s"
proof (cases "right_free ys")
  case True
  then obtain n zs where n: "ys = (n, False) # zs" by (rule right_freeE)
  have nx: "next_item s a = n" using mh_rep_at(1)[OF assms(1)] n by simp
  have u: "\<not> RT_MEMHEAP_IS_USED s n" using mh_rep_used[OF assms(1), of n False] n by simp
  obtain us vs where f: "fs = us @ n # vs" "n \<notin> set us" using assms(2) True n split_list_first[of n fs] by auto
  have "mh_rep (return_bytes k 24 s) k (xs @ (a, False) # (n, False) # zs) (us @ n # vs)" using assms(1) n f by simp
  from rep_join_next[OF this] show ?thesis using True n f u nx by (simp add: merge_right_def remove1_append)
next
  case False
  have "RT_MEMHEAP_IS_USED s (next_item s a)"
  proof (cases ys)
    case Nil
    then show ?thesis using mh_rep_at(1)[OF assms(1)] mh_rep_end_used[OF assms(1)] by simp
  next
    case (Cons x zs)
    then show ?thesis using mh_rep_at(1)[OF assms(1)] mh_rep_used[OF assms(1), of "fst x" "snd x"] False by (auto simp: right_free_def)
  qed
  then show ?thesis using assms False by (simp add: merge_right_def)
qed

subsection \<open>Freeing\<close>

lemma used_mask: "used_magic AND RT_MEMHEAP_MASK = RT_MEMHEAP_MAGIC" "RT_MEMHEAP_MAGIC AND RT_MEMHEAP_MASK = RT_MEMHEAP_MAGIC"
  "used_magic AND NOT RT_MEMHEAP_USED = RT_MEMHEAP_MAGIC"
  by simp_all

text \<open>The steps between mark and insertion, on the lists.\<close>

lemma free_steps:
  assumes r: "mh_rep s k (xs @ (a, False) # ys) fs" and f: "right_free ys \<Longrightarrow> fst (hd ys) \<in> set fs" "a \<notin> set fs"
    and t: "(s4, h, ins) = merge_left k a s" "t = (if ins then insert_free k h (merge_right k h s4) else merge_right k h s4)"
  shows "mh_rep t k (joined xs a ys) (freed xs a ys fs)"
    "mh_available_size (mh_heaps t k) = (mh_available_size (mh_heaps s k) + (if left_free xs then 24 else 0) + (if right_free ys then 24 else 0)) mod 2 ^ 32
      \<or> \<not> left_free xs \<and> \<not> right_free ys \<and> mh_available_size (mh_heaps t k) = mh_available_size (mh_heaps s k)"
    "mh_lock (mh_heaps t k) = mh_lock (mh_heaps s k) \<and> mh_max_used_size (mh_heaps t k) = mh_max_used_size (mh_heaps s k)
      \<and> mh_end (mh_heaps t k) = mh_end (mh_heaps s k) \<and> mh_pool_size (mh_heaps t k) = mh_pool_size (mh_heaps s k) \<and> mh_memory t = mh_memory s"
proof -
  obtain s4' zs h' where m: "merge_left k a s = (s4', h', \<not> left_free xs)" "mh_rep s4' k (zs @ (h', False) # ys) fs"
    "zs @ [(h', False)] = xs @ (if left_free xs then [] else [(a, False)])"
    "s4' = (if left_free xs then upd_links (unlink a) (return_bytes k 24 s) else s)"
    by (rule rep_merge_left[OF r])
  then have e: "s4 = s4'" "h = h'" "ins = (\<not> left_free xs)" using t(1) by simp_all
  let ?ys = "if right_free ys then tl ys else ys" and ?fs = "if right_free ys then remove1 (fst (hd ys)) fs else fs"
  let ?u = "merge_right k h s4"
  have R: "mh_rep ?u k (zs @ (h, False) # ?ys) ?fs" "mh_heaps ?u = mh_heaps (if right_free ys then return_bytes k 24 s4 else s4)" "mh_memory ?u = mh_memory s4"
    using rep_merge_right[OF m(2) f(1)] e by auto
  have "(zs @ [(h, False)]) @ ?ys = joined xs a ys" using m(3) e by (simp add: joined_def)
  then have j: "zs @ (h, False) # ?ys = joined xs a ys" by simp
  show "mh_rep t k (joined xs a ys) (freed xs a ys fs)"
  proof (cases "left_free xs")
    case True
    then show ?thesis using R(1) t(2) e(3) j by (simp add: freed_def)
  next
    case False
    then have "h = a" using m(3) e by simp
    moreover have "a \<notin> set ?fs" using f(2) by (auto dest: in_set_remove1)
    ultimately show ?thesis using rep_insert_free[OF R(1), of h] False t(2) e(3) j by (simp add: freed_def)
  qed
  have av: "mh_available_size (mh_heaps s4 k) = (if left_free xs then (mh_available_size (mh_heaps s k) + 24) mod 2 ^ 32 else mh_available_size (mh_heaps s k))"
    using m(4) e by simp
  have T: "mh_heaps t = mh_heaps ?u" "mh_memory t = mh_memory s" using t(2) R(3) m(4) e by auto
  show "mh_available_size (mh_heaps t k) = (mh_available_size (mh_heaps s k) + (if left_free xs then 24 else 0) + (if right_free ys then 24 else 0)) mod 2 ^ 32
      \<or> \<not> left_free xs \<and> \<not> right_free ys \<and> mh_available_size (mh_heaps t k) = mh_available_size (mh_heaps s k)"
    using av by (simp add: T R(2) mod_add_left_eq)
  show "mh_lock (mh_heaps t k) = mh_lock (mh_heaps s k) \<and> mh_max_used_size (mh_heaps t k) = mh_max_used_size (mh_heaps s k)
      \<and> mh_end (mh_heaps t k) = mh_end (mh_heaps s k) \<and> mh_pool_size (mh_heaps t k) = mh_pool_size (mh_heaps s k) \<and> mh_memory t = mh_memory s"
  proof -
    let ?same = "\<lambda>h h'. mh_lock h' = mh_lock h \<and> mh_max_used_size h' = mh_max_used_size h \<and> mh_end h' = mh_end h \<and> mh_pool_size h' = mh_pool_size h"
    have "?same (mh_heaps s k) (mh_heaps s4 k)" using m(4) e(1) by simp
    moreover have "?same (mh_heaps s4 k) (mh_heaps t k)" unfolding T(1) R(2) by simp
    ultimately show ?thesis using T(2) by simp
  qed
qed

lemma rt_memheap_free_joins:
  assumes "mh_ok s k (xs @ (a, True) # ys) fs"
  shows "\<exists>s'. rt_memheap_free (a + 24) s = Some s' \<and> mh_ok s' k (joined xs a ys) (freed xs a ys fs) \<and> mh_memory s' = mh_memory s
    \<and> mh_end (mh_heaps s' k) = mh_end (mh_heaps s k)"
proof -
  let ?bl = "xs @ (a, True) # ys" and ?e = "mh_end (mh_heaps s k)"
  obtain s1 where s1: "take_lock k s = Some s1" "s1 = upd_mh k (\<lambda>h. h\<lparr>mh_lock := 0\<rparr>) s" "mh_core s1 k ?bl fs"
    using take_lock_ok[OF assms] by auto
  have c: "mh_core s k ?bl fs" using assms by (simp add: mh_ok_def)
  note r = mh_coreD(1)[OF c] and at = mh_rep_at[OF mh_coreD(1)[OF c]] and sz = mh_rep_sizes[OF mh_coreD(1)[OF c]]
  have nx: "mi_magic s (next_item s a) AND RT_MEMHEAP_MASK = RT_MEMHEAP_MAGIC"
  proof (cases ys)
    case Nil
    then show ?thesis using at(1) mh_repD(8)[OF r] by simp
  next
    case (Cons y zs)
    then show ?thesis using at(1) mh_repD(7)[OF r, of "fst y" "snd y"] by simp
  qed
  have a: "mi_magic s a = used_magic" "mi_pool_ptr s a = k" using mh_repD(7)[OF r, of a True] by auto
  let ?s2 = "set_magic a (mi_magic s1 a AND NOT RT_MEMHEAP_USED) s1" and ?m = "hd (map fst ys @ [?e]) - a - 24"
  let ?s3 = "return_bytes k ?m ?s2"
  have m: "MEMITEM_SIZE ?s2 a = ?m" using at(3) s1(2) by (simp add: MEMITEM_SIZE_def)
  have "mh_rep ?s2 k (xs @ (a, False) # ys) fs" using rep_set_magic[OF mh_coreD(1)[OF s1(3)], of False] a s1(2) by simp
  then have r3: "mh_rep ?s3 k (xs @ (a, False) # ys) fs" by simp
  have d: "distinct (map fst ?bl)" "distinct fs" using mh_repD(5,6)[OF r] by (auto simp: ring_def)
  note fr = mh_coreD(3)[OF c]
  have f: "right_free ys \<Longrightarrow> fst (hd ys) \<in> set fs" "a \<notin> set fs" unfolding fr using d(1) by (auto elim!: right_freeE simp: image_iff)
  obtain s4 h ins where ml: "(s4, h, ins) = merge_left k a ?s3" by (metis prod_cases3)
  obtain t where t: "t = (if ins then insert_free k h (merge_right k h s4) else merge_right k h s4)" by blast
  note st = free_steps[OF r3 f ml t]
  have "rt_memheap_free (a + 24) s = Some (give_lock k t)"
    using s1(1) nx a mh_repD(1,2)[OF r] m ml[symmetric] t by (simp add: rt_memheap_free_def used_mask)
  moreover have "mh_ok (give_lock k t) k (joined xs a ys) (freed xs a ys fs)"
  proof (rule give_lock_ok[OF mh_coreI])
    show "mh_rep t k (joined xs a ys) (freed xs a ys fs)" by (rule st(1))
    show "successively (\<lambda>x y. snd x \<or> snd y) (joined xs a ys)" by (rule joined_alternates[OF mh_coreD(2)[OF c]])
    show "set (freed xs a ys fs) = {x. (x, False) \<in> set (joined xs a ys)}" by (rule joined_frees[OF fr d(2) d(1)])
    show "mh_lock (mh_heaps t k) = 0" using st(3) s1(2) by simp
    have J: "free_room (joined xs a ys) ?e = mh_available_size (mh_heaps s k) + ?m + (if left_free xs then 24 else 0) + (if right_free ys then 24 else 0)"
      using joined_room[OF mh_repD(4)[OF r]] mh_coreD(4)[OF c] by simp
    have E: "mh_end (mh_heaps t k) = ?e" "mh_pool_size (mh_heaps t k) = mh_pool_size (mh_heaps s k)" "mh_max_used_size (mh_heaps t k) = mh_max_used_size (mh_heaps s k)"
    proof -
      have "mh_end (mh_heaps ?s3 k) = ?e \<and> mh_pool_size (mh_heaps ?s3 k) = mh_pool_size (mh_heaps s k) \<and> mh_max_used_size (mh_heaps ?s3 k) = mh_max_used_size (mh_heaps s k)"
        using s1(2) by (simp add: mh_end_def)
      with st(3) show "mh_end (mh_heaps t k) = ?e" "mh_pool_size (mh_heaps t k) = mh_pool_size (mh_heaps s k)" "mh_max_used_size (mh_heaps t k) = mh_max_used_size (mh_heaps s k)"
        by metis+
    qed
    have L: "free_room (joined xs a ys) ?e < 2 ^ 32" using mh_rep_sizes(1,4)[OF st(1)] E by simp
    then have "mh_available_size (mh_heaps t k) = free_room (joined xs a ys) ?e"
      using st(2) s1(2) unfolding J by (auto simp: mod_add_left_eq)
    then show "mh_available_size (mh_heaps t k) = free_room (joined xs a ys) ?e
      \<and> mh_pool_size (mh_heaps t k) - mh_available_size (mh_heaps t k) \<le> mh_max_used_size (mh_heaps t k) \<and> mh_end (mh_heaps t k) = ?e"
      using E mh_coreD(5)[OF c] J by simp
  qed
  moreover have "mh_memory t = mh_memory s \<and> mh_end (mh_heaps t k) = ?e" using st(3) s1(2) by (auto simp: mh_end_def)
  ultimately show ?thesis by simp
qed

end
