(* ===== verification/RT_MemHeapRuns.thy ===== *)
theory RT_MemHeapRuns
  imports RT_MemHeapFree
begin

text \<open>The heaps of \<open>RT_MemHeap\<close> as allocators, and resizing.\<close>

subsection \<open>The blocks in use\<close>

text \<open>The items of a heap, read off its ring.\<close>

partial_function (option) items_from :: "memheaps \<Rightarrow> nat \<Rightarrow> nat \<Rightarrow> (nat \<times> bool) list option" where
  "items_from s e p = (if p = e then Some [] else do { bl \<leftarrow> items_from s e (next_item s p); Some ((p, RT_MEMHEAP_IS_USED s p) # bl) })"

definition mh_items :: "memheaps \<Rightarrow> nat \<Rightarrow> (nat \<times> bool) list" where
  "mh_items s k = the (items_from s (mh_end (mh_heaps s k)) (mh_start_addr (mh_heaps s k)))"

lemma items_from_ring:
  assumes "mh_rep s k (xs @ ys) fs"
  shows "items_from s (mh_end (mh_heaps s k)) (hd (map fst ys @ [mh_end (mh_heaps s k)])) = Some ys"
  using assms
proof (induction ys arbitrary: xs)
  case Nil
  then show ?case by (simp add: items_from.simps)
next
  case (Cons y ys)
  obtain a u where y: "y = (a, u)" by (cases y)
  have r: "mh_rep s k (xs @ (a, u) # ys) fs" using Cons.prems y by simp
  have "a \<noteq> mh_end (mh_heaps s k)" using mh_repD(7)[OF r, of a u] by simp
  moreover have "RT_MEMHEAP_IS_USED s a = u" using mh_rep_used[OF r, of a u] by simp
  moreover have "items_from s (mh_end (mh_heaps s k)) (next_item s a) = Some ys"
    using Cons.IH[of "xs @ [y]"] Cons.prems mh_rep_at(1)[OF r] by simp
  ultimately show ?case using y by (simp add: items_from.simps[of s _ a])
qed

lemma mh_items_ok: "mh_ok s k bl fs \<Longrightarrow> mh_items s k = bl"
proof -
  assume "mh_ok s k bl fs"
  then have r: "mh_rep s k ([] @ bl) fs" by (simp add: mh_ok_def mh_core_def)
  have "mh_start_addr (mh_heaps s k) = hd (map fst bl @ [mh_end (mh_heaps s k)])" using mh_repD(4)[OF r] by (cases bl) (auto simp: layout_def)
  with items_from_ring[OF r] show ?thesis by (simp add: mh_items_def)
qed

definition mh_live :: "nat \<Rightarrow> memheaps \<Rightarrow> nat set" where
  "mh_live k s = (\<lambda>a. a + RT_MEMHEAP_SIZE) ` {a. (a, True) \<in> set (mh_items s k)}"

definition mh_inv :: "nat \<Rightarrow> memheaps \<Rightarrow> bool" where
  "mh_inv k s \<longleftrightarrow> (\<exists>bl fs. mh_ok s k bl fs)"

definition mh_request :: "nat \<Rightarrow> u32 \<Rightarrow> memheaps \<Rightarrow> (nat \<times> memheaps) option" where
  "mh_request k sz s = (case rt_memheap_alloc k sz s of Some (p, s') \<Rightarrow> if p = 0 then None else Some (p, s') | None \<Rightarrow> None)"

definition mh_return :: "nat \<Rightarrow> memheaps \<Rightarrow> memheaps" where
  "mh_return p s = (case rt_memheap_free p s of Some s' \<Rightarrow> s' | None \<Rightarrow> s)"

lemma used_split:
  assumes "(a, u) \<in> set bl"
  obtains xs ys where "bl = xs @ (a, u) # ys"
  using assms by (meson split_list)

lemma mh_ok_distinct: "mh_ok s k bl fs \<Longrightarrow> distinct (map fst bl) \<and> distinct fs"
  using mh_repD(5,6)[of s k bl fs] by (auto simp: mh_ok_def mh_core_def ring_def)

text \<open>An allocation in one lemma.\<close>

lemma alloc_cases:
  assumes "mh_ok s k bl fs"
  shows "rt_memheap_alloc k sz s = Some (0, s)
    \<or> (\<exists>xs a ys us vs s'. bl = xs @ (a, False) # ys \<and> fs = us @ a # vs \<and> item_size sz \<le> MEMITEM_SIZE s a \<and> mh_memory s' = mh_memory s
        \<and> mh_end (mh_heaps s' k) = mh_end (mh_heaps s k)
        \<and> rt_memheap_alloc k sz s = Some (a + 24, s') \<and> mh_ok s' k (xs @ taken a (item_size sz) (MEMITEM_SIZE s a) ys)
             (if item_size sz + 36 \<le> MEMITEM_SIZE s a then (a + item_size sz + 24) # us @ vs else us @ vs))"
proof (cases "item_size sz < mh_available_size (mh_heaps s k) \<and> fits_at s (item_size sz) fs \<noteq> None")
  case True
  then obtain a where f: "fits_at s (item_size sz) fs = Some a" by auto
  then have a: "a \<in> set fs" "item_size sz \<le> MEMITEM_SIZE s a" by (auto simp: fits_at_def find_Some_iff)
  obtain us vs where fs: "fs = us @ a # vs" using a(1) by (meson split_list)
  have "(a, False) \<in> set bl" using a(1) assms by (auto simp: mh_ok_def mh_core_def)
  then obtain xs ys where bl: "bl = xs @ (a, False) # ys" by (rule used_split)
  show ?thesis using alloc_takes[of s k xs a ys us vs sz "MEMITEM_SIZE s a"] assms True f a(2) bl fs by blast
next
  case False
  then show ?thesis using alloc_refuses[OF assms, of sz] by auto
qed

lemma taken_used: "{x. (x, True) \<in> set (xs @ taken a n m ys)} = insert a {x. (x, True) \<in> set (xs @ (a, False) # ys)}"
  by (auto simp: taken_def)

lemma joined_used: "a \<notin> fst ` (set xs \<union> set ys) \<Longrightarrow> {x. (x, True) \<in> set (joined xs a ys)} = {x. (x, True) \<in> set (xs @ (a, True) # ys)} - {a}"
proof -
  assume a: "a \<notin> fst ` (set xs \<union> set ys)"
  then have "(a, True) \<notin> set xs" "(a, True) \<notin> set ys" by force+
  then show ?thesis by (cases ys) (auto simp: joined_def right_free_def)
qed

lemma mh_live_ok: "mh_ok s k bl fs \<Longrightarrow> mh_live k s = (\<lambda>a. a + RT_MEMHEAP_SIZE) ` {a. (a, True) \<in> set bl}"
  by (simp add: mh_live_def mh_items_ok)

lemma mh_request_fresh:
  assumes "mh_inv k s" "mh_request k sz s = Some (p, s')"
  shows "mh_inv k s' \<and> p \<notin> mh_live k s \<and> mh_live k s' = insert p (mh_live k s)"
proof -
  obtain bl fs where ok: "mh_ok s k bl fs" using assms(1) by (auto simp: mh_inv_def)
  have al: "rt_memheap_alloc k sz s = Some (p, s')" "p \<noteq> 0"
    using assms(2) by (auto simp: mh_request_def split: option.splits if_splits)
  obtain xs a ys us vs where b: "bl = xs @ (a, False) # ys" "p = a + 24"
    and ok': "mh_ok s' k (xs @ taken a (item_size sz) (MEMITEM_SIZE s a) ys) (if item_size sz + 36 \<le> MEMITEM_SIZE s a then (a + item_size sz + 24) # us @ vs else us @ vs)"
    using alloc_cases[OF ok, of sz] al by auto
  have "(a, True) \<notin> set bl" using mh_ok_distinct[OF ok] b(1) by (auto simp: image_iff)
  then have "p \<notin> mh_live k s" unfolding mh_live_ok[OF ok] b(2) by auto
  moreover have "mh_live k s' = insert p (mh_live k s)" unfolding mh_live_ok[OF ok] mh_live_ok[OF ok'] taken_used b by simp
  ultimately show ?thesis using ok' by (auto simp: mh_inv_def)
qed

lemma mh_free_returns:
  assumes "mh_inv k s" "p \<in> mh_live k s"
  shows "\<exists>s'. rt_memheap_free p s = Some s' \<and> mh_inv k s' \<and> mh_live k s' = mh_live k s - {p}"
proof -
  obtain bl fs where ok: "mh_ok s k bl fs" using assms(1) by (auto simp: mh_inv_def)
  obtain a where a: "p = a + 24" "(a, True) \<in> set bl" using assms(2) mh_items_ok[OF ok] by (auto simp: mh_live_def)
  obtain xs ys where b: "bl = xs @ (a, True) # ys" using a(2) by (rule used_split)
  obtain s' where s': "rt_memheap_free (a + 24) s = Some s'" "mh_ok s' k (joined xs a ys) (freed xs a ys fs)"
    using rt_memheap_free_joins[of s k xs a ys fs] ok b by auto
  have "a \<notin> fst ` (set xs \<union> set ys)" using mh_ok_distinct[OF ok] b by auto
  then have j: "{x. (x, True) \<in> set (joined xs a ys)} = {x. (x, True) \<in> set bl} - {a}" unfolding b by (rule joined_used)
  have "(\<lambda>x. x + (24 :: nat)) ` (A - {a}) = (\<lambda>x. x + 24) ` A - {a + 24}" for A by auto
  then have "mh_live k s' = mh_live k s - {p}" unfolding mh_live_ok[OF ok] mh_live_ok[OF s'(2)] a(1) j by blast
  moreover have "mh_inv k s'" unfolding mh_inv_def using s'(2) by blast
  ultimately show ?thesis using s'(1) unfolding a(1) by blast
qed

interpretation memheap: allocator "mh_inv k" "mh_live k" "mh_request k" mh_return for k
proof unfold_locales
  fix s r b s' assume "mh_inv k s" "mh_request k r s = Some (b, s')"
  then show "mh_inv k s' \<and> b \<notin> mh_live k s \<and> mh_live k s' = insert b (mh_live k s)" by (rule mh_request_fresh)
next
  fix s b assume "mh_inv k s" "b \<in> mh_live k s"
  then obtain s' where "rt_memheap_free b s = Some s'" "mh_inv k s' \<and> mh_live k s' = mh_live k s - {b}" using mh_free_returns by blast
  then show "mh_inv k (mh_return b s) \<and> mh_live k (mh_return b s) = mh_live k s - {b}" unfolding mh_return_def by simp
qed

end
