(* ===== verification/RT_MemHeapRealloc.thy ===== *)
theory RT_MemHeapRealloc
  imports RT_MemHeapRuns
begin

text \<open>\<open>rt_memheap_realloc\<close> of \<open>RT_MemHeap\<close>: growing into the item behind, cutting off the end, moving.\<close>

lemma rep_unlink:
  assumes "mh_rep s k (xs @ (a, u) # (b, v) # ys) fs"
  shows "mh_rep (upd_links (unlink b) s) k (xs @ (a, u) # ys) fs"
proof -
  let ?e = "mh_end (mh_heaps s k)"
  have "ring (mi_links s) ?e ((map fst xs @ [a]) @ b # map fst ys)" using mh_repD(5)[OF assms] by simp
  then have "ring (unlink b (mi_links s)) ?e ((map fst xs @ [a]) @ map fst ys)" by (rule ring_unlink)
  with assms layout_remove[of _ ?e "map fst xs" a b "map fst ys"] show ?thesis by (auto simp: mh_rep_def Let_def)
qed

lemma grow_core:
  assumes c: "mh_core s k (xs @ (a, True) # (b, False) # ys) (us @ b # vs)"
    and n: "12 \<le> n" "n mod 4 = 0" "old = b - a - 24" "old < n" and nx: "nx = hd (map fst ys @ [mh_end (mh_heaps s k)])" "a + n + 60 \<le> nx"
  shows "mh_core (grow_item k (a + 24) old n s) k (xs @ (a, True) # (a + 24 + n, False) # ys) ((a + 24 + n) # us @ vs)"
proof -
  let ?bl = "xs @ (a, True) # (b, False) # ys" and ?e = "mh_end (mh_heaps s k)" and ?new = "a + 24 + n"
  note r = mh_coreD(1)[OF c] and fr = mh_coreD(3)[OF c]
  note sz = mh_rep_sizes[OF r]
  have b: "a + 36 \<le> b" "next_item s a = b" using mh_rep_at[OF r] by auto
  have r': "mh_rep s k ((xs @ [(a, True)]) @ (b, False) # ys) (us @ b # vs)" using r by simp
  have bn: "b + 36 \<le> nx" "nx + 24 \<le> 2 ^ 32" using mh_rep_at(4,5)[OF r'] nx by auto
  have d: "distinct (map fst ?bl)" "distinct (us @ b # vs)" using mh_repD(5,6)[OF r] by (auto simp: ring_def)
  let ?s1 = "use_bytes k (n - old) s"
  let ?s2 = "upd_links (unlink b) (upd_free_links (unlink b) ?s1)"
  have R2: "mh_rep ?s2 k (xs @ (a, True) # ys) (us @ vs)" by (rule rep_unlink, rule rep_unlink_free) (use r in simp)
  have R3: "mh_rep (new_item k a ?new ?s2) k (xs @ (a, True) # (?new, False) # ys) (us @ vs)" "?new \<notin> fst ` set (xs @ (a, True) # ys)"
    using rep_new_item[OF R2, of ?new] n nx by (auto simp: mod_add_eq[symmetric])
  have fr2: "set (us @ vs) = {x. (x, False) \<in> set (xs @ (a, True) # ys)}"
  proof -
    have "set (us @ vs) = set (us @ b # vs) - {b}" using d(2) by auto
    also have "\<dots> = {x. (x, False) \<in> set (xs @ (a, True) # ys)}" unfolding fr using d(1) by (auto simp: image_iff)
    finally show ?thesis .
  qed
  have nf: "?new \<notin> set (us @ vs)" unfolding fr2 using R3(2) by force
  have g: "grow_item k (a + 24) old n s = insert_free k ?new (new_item k a ?new ?s2)"
    using b nx bn by (simp add: grow_item_def Let_def add32_def)
  have R: "mh_rep (grow_item k (a + 24) old n s) k (xs @ (a, True) # (?new, False) # ys) (?new # us @ vs)"
    unfolding g by (rule rep_insert_free[OF R3(1) _ nf]) auto
  have av: "mh_available_size (mh_heaps s k) = free_room xs a + ((nx - b - 24) + free_room ys ?e)"
    using mh_coreD(4)[OF c] nx by (simp add: free_room_append)
  have le: "mh_available_size (mh_heaps s k) \<le> mh_pool_size (mh_heaps s k)" using mh_coreD(4)[OF c] sz(1) by simp
  have h: "mh_heaps (grow_item k (a + 24) old n s) k = mh_heaps ?s1 k" by (simp add: g)
  have u: "mh_available_size (mh_heaps (grow_item k (a + 24) old n s) k) = free_room (xs @ (a, True) # (?new, False) # ys) ?e
      \<and> mh_pool_size (mh_heaps (grow_item k (a + 24) old n s) k) - mh_available_size (mh_heaps (grow_item k (a + 24) old n s) k)
        \<le> mh_max_used_size (mh_heaps (grow_item k (a + 24) old n s) k)
      \<and> mh_end (mh_heaps (grow_item k (a + 24) old n s) k) = ?e"
    by (rule use_bytes_room[OF r _ le mh_coreD(5)[OF c] h]) (use av nx n b bn in \<open>simp_all add: free_room_append\<close>)
  have adj: "successively (\<lambda>x y. snd x \<or> snd y) (xs @ (a, True) # (?new, False) # ys)"
    using mh_coreD(2)[OF c] by (cases ys) (auto simp: successively_append_iff)
  show ?thesis by (rule mh_coreI[OF R adj _ u]) (use fr2 in auto)
qed

lemma shrink_core:
  assumes c: "mh_core s k (xs @ (a, True) # ys) fs"
    and n: "12 \<le> n" "n mod 4 = 0" and nx: "nx = hd (map fst ys @ [mh_end (mh_heaps s k)])" "a + n + 60 < nx"
  shows "mh_core (shrink_item k a n s) k (joined (xs @ [(a, True)]) (a + n + 24) ys) (freed (xs @ [(a, True)]) (a + n + 24) ys fs)"
proof -
  let ?bl = "xs @ (a, True) # ys" and ?e = "mh_end (mh_heaps s k)" and ?new = "a + n + 24" and ?y = "if right_free ys then tl ys else ys"
  let ?fs = "if right_free ys then remove1 (fst (hd ys)) fs else fs"
  note r = mh_coreD(1)[OF c] and fr = mh_coreD(3)[OF c]
  note sz = mh_rep_sizes[OF r]
  have bn: "nx + 24 \<le> 2 ^ 32" using mh_rep_at(5)[OF r] nx by auto
  have d: "distinct (map fst ?bl)" "distinct fs" using mh_repD(5,6)[OF r] by (auto simp: ring_def)
  let ?s1 = "new_item k a ?new s"
  have R1: "mh_rep ?s1 k (xs @ (a, True) # (?new, False) # ys) fs" "?new \<notin> fst ` set ?bl"
    using rep_new_item[OF r, of ?new] n nx by (auto simp: mod_add_eq[symmetric])
  have R1': "mh_rep ?s1 k ((xs @ [(a, True)]) @ (?new, False) # ys) fs" using R1(1) by simp
  have n1: "next_item ?s1 ?new = nx" using mh_rep_at(1)[OF R1'] nx by simp
  have lf: "\<not> left_free (xs @ [(a, True)])" by (simp add: left_free_def)
  have J: "joined (xs @ [(a, True)]) ?new ys = xs @ (a, True) # (?new, False) # ?y" "freed (xs @ [(a, True)]) ?new ys fs = ?new # ?fs"
    using lf by (simp_all add: joined_def freed_def)
  obtain s2 where s2: "shrink_item k a n s = return_bytes k (MEMITEM_SIZE (insert_free k ?new s2) ?new) (insert_free k ?new s2)"
    "mh_rep s2 k (xs @ (a, True) # (?new, False) # ?y) ?fs"
    "mh_available_size (mh_heaps s2 k) = mh_available_size (mh_heaps s k) - (if right_free ys then hd (map fst ?y @ [?e]) - nx - 24 else 0)"
    "mh_end (mh_heaps s2 k) = ?e" "mh_pool_size (mh_heaps s2 k) = mh_pool_size (mh_heaps s k)" "mh_max_used_size (mh_heaps s2 k) = mh_max_used_size (mh_heaps s k)"
  proof (cases "right_free ys")
    case True
    then obtain f zs where f: "ys = (f, False) # zs" by (rule right_freeE)
    then have fn: "f = nx" using nx by simp
    have u: "\<not> RT_MEMHEAP_IS_USED ?s1 nx" using mh_rep_used[OF R1(1), of f False] f fn by simp
    have "nx \<in> set fs" unfolding fr using f fn by simp
    then obtain us vs where us: "fs = us @ nx # vs" "nx \<notin> set us" using split_list_first[of nx fs] by auto
    have rf: "mh_rep s k ((xs @ [(a, True)]) @ (nx, False) # zs) fs" using r f fn by simp
    have m: "MEMITEM_SIZE ?s1 nx = hd (map fst zs @ [?e]) - nx - 24"
    proof -
      have "mh_rep ?s1 k ((xs @ [(a, True), (?new, False)]) @ (nx, False) # zs) fs" using R1(1) f fn by simp
      from mh_rep_at(3)[OF this] show ?thesis by simp
    qed
    have lz: "hd (map fst zs @ [?e]) - nx - 24 \<le> mh_available_size (mh_heaps s k)"
      using mh_coreD(4)[OF c] f fn by (simp add: free_room_append)
    let ?h = "\<lambda>h. h\<lparr>mh_available_size := sub32 (mh_available_size h) (MEMITEM_SIZE ?s1 nx)\<rparr>"
    have "mh_rep (upd_mh k ?h ?s1) k ((xs @ [(a, True)]) @ (?new, False) # (nx, False) # zs) (us @ nx # vs)"
      using R1(1) f fn us by (subst rep_upd_mh) simp_all
    from rep_join_next[OF this]
    show ?thesis
      by (intro that[of "join_next ?new nx (upd_mh k ?h ?s1)"]) (use True f fn u us lz in \<open>simp_all add: shrink_item_def n1 m remove1_append mh_end_def Let_def\<close>)
  next
    case False
    have "RT_MEMHEAP_IS_USED ?s1 nx"
    proof (cases ys)
      case Nil
      then show ?thesis using mh_rep_end_used[OF R1(1)] nx by simp
    next
      case (Cons y zs)
      then show ?thesis using mh_rep_used[OF R1(1), of "fst y" "snd y"] nx False by (auto simp: right_free_def)
    qed
    then show ?thesis by (intro that[of ?s1]) (use False R1(1) n1 in \<open>simp_all add: shrink_item_def Let_def\<close>)
  qed
  let ?s3 = "insert_free k ?new s2"
  have "?new \<notin> set fs" unfolding fr using R1(2) by force
  then have nf: "?new \<notin> set ?fs" by (auto dest: in_set_remove1)
  have R3: "mh_rep ?s3 k (xs @ (a, True) # (?new, False) # ?y) (?new # ?fs)"
    by (rule rep_insert_free[OF s2(2) _ nf]) auto
  then have R3': "mh_rep ?s3 k ((xs @ [(a, True)]) @ (?new, False) # ?y) (?new # ?fs)" by simp
  let ?next = "hd (map fst ?y @ [?e])"
  have m3: "MEMITEM_SIZE ?s3 ?new = ?next - ?new - 24" "?new + 36 \<le> ?next" using mh_rep_at(3,4)[OF R3'] s2(4) by auto
  have R: "mh_rep (shrink_item k a n s) k (xs @ (a, True) # (?new, False) # ?y) (?new # ?fs)" using R3 s2(1) by simp
  have lay: "layout (mh_start_addr (mh_heaps s k)) ?e (map fst ((xs @ [(a, True)]) @ (?new, True) # ys))" using mh_repD(4)[OF R1(1)] by simp
  have room: "free_room (joined (xs @ [(a, True)]) ?new ys) ?e = mh_available_size (mh_heaps s k) + (nx - ?new - 24) + (if right_free ys then 24 else 0)"
    using joined_room[OF lay] lf mh_coreD(4)[OF c] nx by (simp add: free_room_append)
  have L: "free_room (joined (xs @ [(a, True)]) ?new ys) ?e < 2 ^ 32" unfolding J using mh_rep_sizes(1,4)[OF s2(2)] s2(4) by simp
  have sum: "mh_available_size (mh_heaps s2 k) + (?next - ?new - 24) = free_room (joined (xs @ [(a, True)]) ?new ys) ?e"
  proof (cases "right_free ys")
    case True
    then obtain f zs where f: "ys = (f, False) # zs" by (rule right_freeE)
    have "mh_rep s k ((xs @ [(a, True)]) @ (f, False) # zs) fs" using r f by simp
    then have "f + 36 \<le> hd (map fst zs @ [?e])" by (rule mh_rep_at(4))
    moreover have "hd (map fst zs @ [?e]) - f - 24 \<le> mh_available_size (mh_heaps s k)"
      using mh_coreD(4)[OF c] f by (simp add: free_room_append)
    ultimately show ?thesis using True f nx n s2(3) room by simp
  next
    case False
    then show ?thesis using s2(3) room nx by simp
  qed
  show ?thesis unfolding J
  proof (rule mh_coreI[OF R])
    show "successively (\<lambda>x y. snd x \<or> snd y) (xs @ (a, True) # (?new, False) # ?y)"
      using joined_alternates[of "xs @ [(a, True)]" ?new ys] mh_coreD(2)[OF c] unfolding J(1) by (cases ys) (auto simp: successively_append_iff)
    have "distinct (map fst ((xs @ [(a, True)]) @ (?new, True) # ys))" using mh_repD(5)[OF R1(1)] by (simp add: ring_def)
    moreover have "set fs = {x. (x, False) \<in> set ((xs @ [(a, True)]) @ (?new, True) # ys)}" using fr by simp
    ultimately show "set (?new # ?fs) = {x. (x, False) \<in> set (xs @ (a, True) # (?new, False) # ?y)}"
      using joined_frees[of fs "xs @ [(a, True)]" ?new ys] d(2) unfolding J by blast
    show "mh_available_size (mh_heaps (shrink_item k a n s) k) = free_room (xs @ (a, True) # (?new, False) # ?y) ?e
      \<and> mh_pool_size (mh_heaps (shrink_item k a n s) k) - mh_available_size (mh_heaps (shrink_item k a n s) k) \<le> mh_max_used_size (mh_heaps (shrink_item k a n s) k)
      \<and> mh_end (mh_heaps (shrink_item k a n s) k) = ?e"
      using sum L room mh_coreD(5)[OF c] s2(4-6) unfolding J(1) by (simp add: s2(1) m3(1))
  qed
qed

subsection \<open>The call\<close>

lemma item_size_again:
  assumes "unat sz \<le> 2 ^ 32 - 16"
  shows "item_size (word_of_nat (item_size sz)) = item_size sz" "item_size sz + 12 < 2 ^ 32" "unat sz \<le> item_size sz"
proof -
  have a: "unat (RT_ALIGN w 4) = (unat w + 3) mod 2 ^ 32 div 4 * 4" for w by (rule align_nat)
  have "(unat sz + 3) div 4 * 4 \<le> unat sz + 3" by simp
  then have "(unat sz + 3) div 4 * 4 + 12 < 2 ^ 32" using assms by simp
  then show l: "item_size sz + 12 < 2 ^ 32" using assms by (auto simp: item_size_def a Let_def)
  have n: "item_size sz mod 4 = 0" "12 \<le> item_size sz" using item_size_range[of sz] by auto
  show "unat sz \<le> item_size sz" using item_size_range[of sz] assms by simp
  have "unat (word_of_nat (item_size sz) :: u32) = item_size sz" using l by (simp add: unat_of_nat)
  moreover have "(item_size sz + 3) div 4 * 4 = item_size sz" using n(1) by presburger
  ultimately show "item_size (word_of_nat (item_size sz)) = item_size sz"
    using l n(2) by (subst item_size_def) (simp add: a Let_def)
qed

lemma joined_size:
  assumes "mh_rep s k (xs @ (a, True) # ys) fs" "mh_rep s' k (joined xs a ys) fs'" "mh_end (mh_heaps s' k) = mh_end (mh_heaps s k)"
    "(b, True) \<in> set xs \<union> set ys"
  shows "MEMITEM_SIZE s' b = MEMITEM_SIZE s b"
proof (cases "(b, True) \<in> set xs")
  case True
  then obtain x1 x2 where x: "xs = x1 @ (b, True) # x2" by (meson split_list)
  let ?r = "(if left_free xs then [] else [(a, False)]) @ (if right_free ys then tl ys else ys)"
  have r: "mh_rep s k (x1 @ (b, True) # (x2 @ (a, True) # ys)) fs" "mh_rep s' k (x1 @ (b, True) # (x2 @ ?r)) fs'"
    using assms(1,2) x by (simp_all add: joined_def)
  have "hd (map fst (x2 @ (a, True) # ys) @ [mh_end (mh_heaps s k)]) = hd (map fst (x2 @ ?r) @ [mh_end (mh_heaps s k)])"
    using x by (cases x2) (simp_all add: left_free_def)
  then show ?thesis unfolding mh_rep_at(3)[OF r(1)] mh_rep_at(3)[OF r(2)] assms(3) by (rule arg_cong[OF sym])
next
  case False
  then have "(b, True) \<in> set ys" using assms(4) by simp
  then obtain y1 y2 where y: "ys = y1 @ (b, True) # y2" by (meson split_list)
  have t: "(if right_free ys then tl ys else ys) = (if right_free ys then tl y1 else y1) @ (b, True) # y2"
    using y by (cases y1) (auto simp: right_free_def)
  have "joined xs a ys = (xs @ (if left_free xs then [] else [(a, False)]) @ (if right_free ys then tl y1 else y1)) @ (b, True) # y2"
    unfolding joined_def t by simp
  then have r: "mh_rep s' k ((xs @ (if left_free xs then [] else [(a, False)]) @ (if right_free ys then tl y1 else y1)) @ (b, True) # y2) fs'"
    using assms(2) by metis
  have r0: "mh_rep s k ((xs @ (a, True) # y1) @ (b, True) # y2) fs" using assms(1) y by simp
  show ?thesis using mh_rep_at(3)[OF r0] mh_rep_at(3)[OF r] assms(3) by simp
qed

lemma ok_memory [simp]: "mh_ok (s\<lparr>mh_memory := m\<rparr>) k bl fs = mh_ok s k bl fs"
proof -
  have "marked (s\<lparr>mh_memory := m\<rparr>) k bl = marked s k bl" by (induction bl) auto
  then show ?thesis by (simp add: mh_ok_def mh_core_def mh_rep_def Let_def)
qed

text \<open>What a resized block is: in use in place of the old one, large enough, with the old bytes.\<close>

definition resized :: "nat \<Rightarrow> nat \<Rightarrow> nat \<Rightarrow> memheaps \<Rightarrow> nat \<Rightarrow> memheaps \<Rightarrow> bool" where
  "resized k a n s q s' \<longleftrightarrow> mh_inv k s' \<and> mh_live k s' = insert q (mh_live k s - {a + 24}) \<and> n \<le> MEMITEM_SIZE s' (q - 24)
     \<and> (\<forall>i < min (MEMITEM_SIZE s a) n. mh_memory s' (q + i) = mh_memory s (a + 24 + i))"

lemma resizedI:
  assumes "mh_ok s k bl fs" "mh_ok s' k bl' fs'" "{x. (x, True) \<in> set bl'} = {x. (x, True) \<in> set bl}" "(a, True) \<in> set bl"
    "mh_memory s' = mh_memory s" "n \<le> MEMITEM_SIZE s' a"
  shows "resized k a n s (a + 24) s'"
proof -
  have "mh_live k s' = mh_live k s" unfolding mh_live_ok[OF assms(1)] mh_live_ok[OF assms(2)] assms(3) ..
  moreover have "a + 24 \<in> mh_live k s" unfolding mh_live_ok[OF assms(1)] using assms(4) by blast
  ultimately show ?thesis using assms(2,5,6) by (auto simp: resized_def mh_inv_def)
qed

lemma realloc_grows:
  assumes ok: "mh_ok s k (xs @ (a, True) # (b, False) # ys) (us @ b # vs)" and sz: "sz \<noteq> 0" "unat sz \<le> 2 ^ 32 - 16"
    and n: "b - a - 24 < item_size sz" "item_size sz + 12 < MEMITEM_SIZE s b + (b - a - 24)"
  shows "\<exists>s'. rt_memheap_realloc k (a + 24) sz s = Some (a + 24, s') \<and> resized k a (item_size sz) s (a + 24) s'"
proof -
  let ?n = "item_size sz" and ?bl = "xs @ (a, True) # (b, False) # ys" and ?e = "mh_end (mh_heaps s k)"
  have c: "mh_core s k ?bl (us @ b # vs)" using ok by (simp add: mh_ok_def)
  note r = mh_coreD(1)[OF c]
  have r': "mh_rep s k ((xs @ [(a, True)]) @ (b, False) # ys) (us @ b # vs)" using r by simp
  let ?nx = "hd (map fst ys @ [?e])"
  have at: "next_item s a = b" "MEMITEM_SIZE s a = b - a - 24" "a + 36 \<le> b" "MEMITEM_SIZE s b = ?nx - b - 24" "b + 36 \<le> ?nx" "?nx + 24 \<le> 2 ^ 32"
    using mh_rep_at[OF r] mh_rep_at[OF r'] by auto
  obtain s1 where s1: "take_lock k s = Some s1" "s1 = upd_mh k (\<lambda>h. h\<lparr>mh_lock := 0\<rparr>) s" "mh_core s1 k ?bl (us @ b # vs)"
    using take_lock_ok[OF ok] by auto
  have same: "next_item s1 a = b" "MEMITEM_SIZE s1 b = ?nx - b - 24" "\<not> RT_MEMHEAP_IS_USED s1 b" "mh_end (mh_heaps s1 k) = ?e"
    using at s1(2) mh_rep_used[OF r, of b False] by (simp_all add: MEMITEM_SIZE_def RT_MEMHEAP_IS_USED_def)
  note isz = item_size_again[OF sz(2)]
  have add: "add32 (?nx - b - 24) (b - a - 24) = (?nx - b - 24) + (b - a - 24)" "add32 ?n 12 = ?n + 12" using at isz(2) by (simp_all add: add32_def)
  have G: "mh_core (grow_item k (a + 24) (b - a - 24) ?n s1) k (xs @ (a, True) # (a + 24 + ?n, False) # ys) ((a + 24 + ?n) # us @ vs)"
    by (rule grow_core[OF s1(3), where nx = ?nx]) (use item_size_range[of sz] n at same in auto)
  let ?t = "give_lock k (grow_item k (a + 24) (b - a - 24) ?n s1)"
  have g: "mh_lock (mh_heaps (grow_item k (a + 24) (b - a - 24) ?n s1) k) = 0" "mh_memory ?t = mh_memory s"
    using s1(2) by (simp_all add: grow_item_def Let_def)
  have ok': "mh_ok ?t k (xs @ (a, True) # (a + 24 + ?n, False) # ys) ((a + 24 + ?n) # us @ vs)" by (rule give_lock_ok[OF G g(1)])
  have "mh_rep ?t k (xs @ (a, True) # (a + 24 + ?n, False) # ys) ((a + 24 + ?n) # us @ vs)" using ok' by (simp add: mh_ok_def mh_core_def)
  from mh_rep_at(3)[OF this] have "MEMITEM_SIZE ?t a = ?n" by simp
  then have "resized k a ?n s (a + 24) ?t" by (intro resizedI[OF ok ok']) (use g(2) in auto)
  moreover have "rt_memheap_realloc k (a + 24) sz s = Some (a + 24, ?t)"
    using mh_repD(1,2)[OF r] sz(1) at n s1(1) same add by (simp add: rt_memheap_realloc_def)
  ultimately show ?thesis by blast
qed

lemma realloc_shrinks:
  assumes ok: "mh_ok s k (xs @ (a, True) # ys) fs" and sz: "sz \<noteq> 0" "unat sz \<le> 2 ^ 32 - 16" and n: "item_size sz \<le> MEMITEM_SIZE s a"
  shows "\<exists>s'. rt_memheap_realloc k (a + 24) sz s = Some (a + 24, s') \<and> resized k a (item_size sz) s (a + 24) s'"
proof -
  let ?n = "item_size sz" and ?bl = "xs @ (a, True) # ys" and ?e = "mh_end (mh_heaps s k)"
  have c: "mh_core s k ?bl fs" using ok by (simp add: mh_ok_def)
  note r = mh_coreD(1)[OF c]
  let ?nx = "hd (map fst ys @ [?e])"
  have at: "MEMITEM_SIZE s a = ?nx - a - 24" "a + 36 \<le> ?nx" "?nx + 24 \<le> 2 ^ 32" using mh_rep_at[OF r] by auto
  have add: "add32 ?n 36 = ?n + 36" using at n by (simp add: add32_def)
  show ?thesis
  proof (cases "?nx - a - 24 \<le> ?n + 36")
    case True
    then have "rt_memheap_realloc k (a + 24) sz s = Some (a + 24, s)"
      using mh_repD(1,2)[OF r] sz(1) at n add by (simp add: rt_memheap_realloc_def)
    moreover have "resized k a ?n s (a + 24) s" by (rule resizedI[OF ok ok]) (use n in auto)
    ultimately show ?thesis by blast
  next
    case False
    obtain s1 where s1: "take_lock k s = Some s1" "s1 = upd_mh k (\<lambda>h. h\<lparr>mh_lock := 0\<rparr>) s" "mh_core s1 k ?bl fs"
      using take_lock_ok[OF ok] by auto
    have e: "mh_end (mh_heaps s1 k) = ?e" using s1(2) by (simp add: mh_end_def)
    let ?xs = "xs @ [(a, True)]" and ?new = "a + ?n + 24"
    have G: "mh_core (shrink_item k a ?n s1) k (joined ?xs ?new ys) (freed ?xs ?new ys fs)"
      by (rule shrink_core[OF s1(3), where nx = ?nx]) (use item_size_range[of sz] False e in auto)
    let ?t = "give_lock k (shrink_item k a ?n s1)"
    have g: "mh_lock (mh_heaps (shrink_item k a ?n s1) k) = 0" "mh_memory ?t = mh_memory s"
      using s1(2) by (simp_all add: shrink_item_def Let_def)
    have ok': "mh_ok ?t k (joined ?xs ?new ys) (freed ?xs ?new ys fs)" by (rule give_lock_ok[OF G g(1)])
    have j: "joined ?xs ?new ys = xs @ (a, True) # (?new, False) # (if right_free ys then tl ys else ys)" by (simp add: joined_def left_free_def)
    have "mh_rep ?t k (xs @ (a, True) # (?new, False) # (if right_free ys then tl ys else ys)) (freed ?xs ?new ys fs)"
      using ok' unfolding j by (simp add: mh_ok_def mh_core_def)
    from mh_rep_at(3)[OF this] have m: "MEMITEM_SIZE ?t a = ?n" by simp
    have u: "{x. (x, True) \<in> set (joined ?xs ?new ys)} = {x. (x, True) \<in> set ?bl}"
      unfolding j by (cases ys) (auto simp: right_free_def)
    have "resized k a ?n s (a + 24) ?t" by (rule resizedI[OF ok ok' u]) (use g(2) m in auto)
    moreover have "rt_memheap_realloc k (a + 24) sz s = Some (a + 24, ?t)"
      using mh_repD(1,2)[OF r] sz(1) at n add False s1(1) by (simp add: rt_memheap_realloc_def)
    ultimately show ?thesis by blast
  qed
qed

lemma map_upt_at: "map f [a..<a + n] ! i = f (a + i)" if "i < n"
  using that by simp

text \<open>Moving: a new block, a copy, and the old block back.\<close>

lemma realloc_moves:
  assumes ok: "mh_ok s k (xs @ (a, True) # ys) fs" and sz: "sz \<noteq> 0" "unat sz \<le> 2 ^ 32 - 16" and n: "MEMITEM_SIZE s a < item_size sz"
    and no: "\<not> (right_free ys \<and> item_size sz + 12 < MEMITEM_SIZE s (fst (hd ys)) + MEMITEM_SIZE s a)"
  shows "rt_memheap_realloc k (a + 24) sz s = Some (0, s)
    \<or> (\<exists>q s'. rt_memheap_realloc k (a + 24) sz s = Some (q, s') \<and> q \<noteq> 0 \<and> resized k a (item_size sz) s q s')"
proof -
  let ?n = "item_size sz" and ?bl = "xs @ (a, True) # ys" and ?e = "mh_end (mh_heaps s k)" and ?old = "MEMITEM_SIZE s a"
  have c: "mh_core s k ?bl fs" and lk: "mh_lock (mh_heaps s k) = 1" using ok by (simp_all add: mh_ok_def)
  note r = mh_coreD(1)[OF c] and isz = item_size_again[OF sz(2)]
  let ?nx = "hd (map fst ys @ [?e])"
  have at: "next_item s a = ?nx" "?old = ?nx - a - 24" "a + 36 \<le> ?nx" "?nx + 24 \<le> 2 ^ 32" using mh_rep_at[OF r] by auto
  obtain s1 where s1: "take_lock k s = Some s1" "s1 = upd_mh k (\<lambda>h. h\<lparr>mh_lock := 0\<rparr>) s" using take_lock_ok[OF ok] by auto
  have same: "MEMITEM_SIZE s1 = MEMITEM_SIZE s" "RT_MEMHEAP_IS_USED s1 = RT_MEMHEAP_IS_USED s" "give_lock k s1 = s" "next_item s1 = next_item s"
    using s1(2) lk by (simp_all add: MEMITEM_SIZE_def RT_MEMHEAP_IS_USED_def fun_eq_iff give_lock_def upd_mh_def fun_upd_idem)
  have stuck: "\<not> (\<not> RT_MEMHEAP_IS_USED s ?nx \<and> add32 (MEMITEM_SIZE s ?nx) ?old > add32 ?n 12)"
  proof (cases "right_free ys")
    case True
    then obtain b zs where b: "ys = (b, False) # zs" by (rule right_freeE)
    have rb: "mh_rep s k ((xs @ [(a, True)]) @ (b, False) # zs) fs" using r b by simp
    have "MEMITEM_SIZE s b + ?old < 2 ^ 32" using mh_rep_at(3-5)[OF rb] at b by simp
    then show ?thesis using no True b isz(2) by (simp add: add32_def)
  next
    case False
    have "RT_MEMHEAP_IS_USED s ?nx"
    proof (cases ys)
      case Nil
      then show ?thesis using mh_rep_end_used[OF r] by simp
    next
      case (Cons y zs)
      then show ?thesis using mh_rep_used[OF r, of "fst y" "snd y"] False by (auto simp: right_free_def)
    qed
    then show ?thesis by simp
  qed
  have e: "rt_memheap_realloc k (a + 24) sz s = do {
      (new_ptr, s2) \<leftarrow> rt_memheap_alloc k (word_of_nat ?n) s;
      if new_ptr \<noteq> 0 then do {
        s3 \<leftarrow> rt_memheap_free (a + 24) (s2\<lparr>mh_memory := rt_memcpy new_ptr (a + 24) ?old (mh_memory s2)\<rparr>);
        Some (new_ptr, s3) }
      else Some (0, s2) }"
    by (cases "RT_MEMHEAP_IS_USED s ?nx")
      (use mh_repD(1,2)[OF r] sz(1) n s1(1) stuck at(1) at(3) in \<open>simp_all add: rt_memheap_realloc_def same Let_def\<close>)
  show ?thesis
  proof (cases "rt_memheap_alloc k (word_of_nat ?n) s = Some (0, s)")
    case True
    then show ?thesis using e by simp
  next
    case False
    then obtain us p ws fu fv s2 where A: "?bl = us @ (p, False) # ws" "fs = fu @ p # fv" "?n \<le> MEMITEM_SIZE s p" "mh_memory s2 = mh_memory s"
      "mh_end (mh_heaps s2 k) = ?e" "rt_memheap_alloc k (word_of_nat ?n) s = Some (p + 24, s2)"
      and ok2: "mh_ok s2 k (us @ taken p ?n (MEMITEM_SIZE s p) ws) (if ?n + 36 \<le> MEMITEM_SIZE s p then (p + ?n + 24) # fu @ fv else fu @ fv)"
      using alloc_cases[OF ok, of "word_of_nat ?n"] False unfolding isz(1) by blast
    let ?bl2 = "us @ taken p ?n (MEMITEM_SIZE s p) ws"
    let ?s2 = "s2\<lparr>mh_memory := rt_memcpy (p + 24) (a + 24) ?old (mh_memory s2)\<rparr>"
    have u2: "{x. (x, True) \<in> set ?bl2} = insert p {x. (x, True) \<in> set ?bl}" unfolding A(1) by (rule taken_used)
    then have "(a, True) \<in> set ?bl2" by auto
    then obtain xs2 ys2 where b2: "?bl2 = xs2 @ (a, True) # ys2" by (rule used_split)
    obtain fs2 where ok2': "mh_ok ?s2 k (xs2 @ (a, True) # ys2) fs2" using ok2 b2 by auto
    obtain s3 where s3: "rt_memheap_free (a + 24) ?s2 = Some s3" "mh_ok s3 k (joined xs2 a ys2) (freed xs2 a ys2 fs2)" "mh_memory s3 = mh_memory ?s2"
      "mh_end (mh_heaps s3 k) = mh_end (mh_heaps ?s2 k)"
      using rt_memheap_free_joins[OF ok2'] by blast
    have d: "distinct (map fst ?bl)" "distinct (map fst (xs2 @ (a, True) # ys2))" using mh_ok_distinct[OF ok] mh_ok_distinct[OF ok2'] by auto
    have pa: "(p, False) \<in> set ?bl" "p \<noteq> a"
    proof -
      show "(p, False) \<in> set ?bl" unfolding A(1) by simp
      then show "p \<noteq> a" using d(1) by (auto simp: image_iff)
    qed
    have rr: "mh_rep s3 k (joined xs2 a ys2) (freed xs2 a ys2 fs2)" "mh_rep ?s2 k (xs2 @ (a, True) # ys2) fs2"
      using s3(2) ok2' by (simp_all add: mh_ok_def mh_core_def)
    have j: "{x. (x, True) \<in> set (joined xs2 a ys2)} = {x. (x, True) \<in> set (xs2 @ (a, True) # ys2)} - {a}" by (rule joined_used) (use d(2) in auto)
    have "mh_live k s3 = insert (p + 24) (mh_live k s - {a + 24})"
    proof -
      have "(\<lambda>x. x + (24 :: nat)) ` (insert p B - {a}) = insert (p + 24) ((\<lambda>x. x + 24) ` B - {a + 24})" for B using pa(2) by auto
      then show ?thesis unfolding mh_live_ok[OF ok] mh_live_ok[OF s3(2)] j b2[symmetric] u2 by blast
    qed
    moreover have "?n \<le> MEMITEM_SIZE s3 p"
    proof -
      have "(p, True) \<in> set xs2 \<union> set ys2"
      proof -
        have "(p, True) \<in> set ?bl2" by (simp add: taken_def)
        then show ?thesis unfolding b2 using pa(2) by auto
      qed
      from joined_size[OF rr(2,1) s3(4) this] have "MEMITEM_SIZE s3 p = MEMITEM_SIZE s2 p" by (simp add: MEMITEM_SIZE_def)
      moreover have "?n \<le> MEMITEM_SIZE s2 p"
      proof -
        have "mh_rep s2 k ?bl2 (if ?n + 36 \<le> MEMITEM_SIZE s p then (p + ?n + 24) # fu @ fv else fu @ fv)" using ok2 by (simp add: mh_ok_def mh_core_def)
        then have q: "mh_rep s2 k (us @ (p, True) # (if ?n + 36 \<le> MEMITEM_SIZE s p then [(p + ?n + 24, False)] else []) @ ws)
          (if ?n + 36 \<le> MEMITEM_SIZE s p then (p + ?n + 24) # fu @ fv else fu @ fv)" by (simp add: taken_def)
        have "mh_rep s k (us @ (p, False) # ws) fs" using r unfolding A(1) .
        from mh_rep_at(3)[OF this] have "MEMITEM_SIZE s p = hd (map fst ws @ [?e]) - p - 24" .
        then show ?thesis using mh_rep_at(3)[OF q] A(3,5) by (auto split: if_splits)
      qed
      ultimately show ?thesis by simp
    qed
    moreover have "mh_memory s3 (p + 24 + i) = mh_memory s (a + 24 + i)" if "i < min ?old ?n" for i
    proof -
      have "p + 24 \<le> a + 24 \<or> a + 24 + ?old \<le> p + 24"
      proof -
        have "p \<in> set (map fst xs) \<or> p \<in> set (map fst ys)" using pa by force
        moreover have "layout (mh_start_addr (mh_heaps s k)) ?e (map fst xs @ a # map fst ys)" using mh_repD(4)[OF r] by simp
        then have "(\<forall>x \<in> set (map fst xs). x \<le> a) \<and> (\<forall>y \<in> set (map fst ys). ?nx \<le> y)" by (rule layout_sides)
        ultimately have "p \<le> a \<or> ?nx \<le> p" by blast
        then show ?thesis using at(2,3) by linarith
      qed
      then have "mh_memory s3 = patch (mh_memory s) (p + 24) (map (mh_memory s) [a + 24..<a + 24 + ?old])"
        using rt_memcpy_copied[of "p + 24" "a + 24" ?old "mh_memory s2"] A(4) s3(3) by (auto simp: copied_def)
      then show ?thesis using that by (simp add: patch_def)
    qed
    ultimately have "resized k a ?n s (p + 24) s3" using s3(2) by (auto simp: resized_def mh_inv_def)
    then show ?thesis using e A(6) s3(1) by simp
  qed
qed

text \<open>All together.\<close>

lemma rt_memheap_realloc_resizes:
  assumes "mh_inv k s" "p \<in> mh_live k s" "sz \<noteq> 0" "unat sz \<le> 2 ^ 32 - 16"
  shows "rt_memheap_realloc k p sz s = Some (0, s)
    \<or> (\<exists>q s'. rt_memheap_realloc k p sz s = Some (q, s') \<and> q \<noteq> 0 \<and> resized k (p - 24) (item_size sz) s q s')"
proof -
  obtain bl fs where ok: "mh_ok s k bl fs" using assms(1) by (auto simp: mh_inv_def)
  obtain a where a: "p = a + 24" "(a, True) \<in> set bl" using assms(2) unfolding mh_live_ok[OF ok] by auto
  obtain xs ys where b: "bl = xs @ (a, True) # ys" using a(2) by (rule used_split)
  note ok = ok[unfolded b]
  have r: "mh_rep s k (xs @ (a, True) # ys) fs" and fr: "set fs = {x. (x, False) \<in> set (xs @ (a, True) # ys)}" using ok by (simp_all add: mh_ok_def mh_core_def)
  consider "item_size sz \<le> MEMITEM_SIZE s a"
    | "MEMITEM_SIZE s a < item_size sz" "right_free ys" "item_size sz + 12 < MEMITEM_SIZE s (fst (hd ys)) + MEMITEM_SIZE s a"
    | "MEMITEM_SIZE s a < item_size sz" "\<not> (right_free ys \<and> item_size sz + 12 < MEMITEM_SIZE s (fst (hd ys)) + MEMITEM_SIZE s a)"
    by linarith
  then show ?thesis
  proof cases
    case 1
    from realloc_shrinks[OF ok assms(3,4) this] show ?thesis using a(1) by auto
  next
    case 2
    then obtain n zs where n: "ys = (n, False) # zs" by (auto elim: right_freeE)
    then have "n \<in> set fs" unfolding fr by simp
    then obtain us vs where f: "fs = us @ n # vs" by (meson split_list)
    have m: "MEMITEM_SIZE s a = n - a - 24" using mh_rep_at(3)[OF r] n by simp
    show ?thesis using realloc_grows[of s k xs a n zs us vs sz] ok assms(3,4) 2 a(1) n f m by auto
  next
    case 3
    from realloc_moves[OF ok assms(3,4) this] show ?thesis using a(1) by auto
  qed
qed

end
