(* ===== verification/MemHeap_Theorems.thy ===== *)
theory MemHeap_Theorems
  imports RT_MemHeapRealloc
begin

text \<open>Properties of the memory heaps of \<open>memheap.c\<close>.\<close>

text \<open>A fresh heap is one free item in front of the end mark.\<close>

lemma rt_memheap_init_ok:
  assumes "k \<noteq> 0" "k \<notin> set (mh_objects s)" "0 < start" "60 \<le> unat (RT_ALIGN_DOWN sz 4)" "start + unat (RT_ALIGN_DOWN sz 4) \<le> 2 ^ 32"
    "free_header k < start \<or> start + unat (RT_ALIGN_DOWN sz 4) \<le> free_header k"
  obtains s' where "rt_memheap_init k start sz s = Some s'" "mh_ok s' k [(start, False)] [start]" "mh_memory s' = mh_memory s"
proof -
  let ?p = "unat (RT_ALIGN_DOWN sz 4)"
  let ?t = "start + ?p - 24"
  have t: "add32 start (add32 (sub32 ?p 48) 24) = ?t" "start + 36 \<le> ?t" "?t + 24 \<le> 2 ^ 32" "free_header k \<noteq> start" "free_header k \<noteq> ?t"
    using assms(4-6) by (auto simp: add32_def)
  obtain s' where s': "rt_memheap_init k start sz s = Some s'" using assms(1,2) by (simp add: rt_memheap_init_def Let_def)
  then have e: "s' = the (rt_memheap_init k start sz s)" by simp
  have h: "mh_heaps s' k = \<lparr>mh_start_addr = start, mh_pool_size = ?p, mh_available_size = ?p - 48, mh_max_used_size = 48,
      mh_block_list = start, mh_free_list = free_header k, mh_lock = 1\<rparr>"
    using assms(1,2,4) unfolding e by (simp add: rt_memheap_init_def Let_def)
  have o: "k \<in> set (mh_objects s')" "mh_memory s' = mh_memory s" using assms(1,2) unfolding e by (simp_all add: rt_memheap_init_def Let_def)
  have m: "mi_magic s' start = RT_MEMHEAP_MAGIC" "mi_pool_ptr s' start = k" "mi_magic s' ?t = used_magic" "mi_pool_ptr s' ?t = k"
    using assms(1,2) t unfolding e by (simp_all add: rt_memheap_init_def Let_def)
  have r: "ring (mi_links s') ?t [start]" "ring (mi_free_links s') (free_header k) [start]"
    using assms(1,2) t unfolding e
    by (simp_all add: rt_memheap_init_def Let_def ring_Cons clear_links_def set_next_def set_prev_def link_after_def)
  have "mh_rep s' k [(start, False)] [start]"
    using assms(1,3,6) h o m r t by (auto simp: mh_rep_def mh_end_def layout_def Let_def)
  then have "mh_ok s' k [(start, False)] [start]"
    using h assms(4) by (simp add: mh_ok_def mh_core_def mh_end_def)
  then show ?thesis using that s' o(2) by blast
qed

lemma rt_memheap_init_asserts: "rt_memheap_init k start sz s = Some s' \<Longrightarrow> k \<noteq> 0 \<and> k \<notin> set (mh_objects s)"
  by (auto simp: rt_memheap_init_def rt_assert_def split: if_splits)

lemma live_apart:
  assumes "mh_inv k s" "p \<in> mh_live k s" "q \<in> mh_live k s" "p < q"
  shows "p + MEMITEM_SIZE s (p - 24) + 24 \<le> q"
proof -
  obtain bl fs where ok: "mh_ok s k bl fs" using assms(1) by (auto simp: mh_inv_def)
  obtain a b where a: "p = a + 24" "(a, True) \<in> set bl" and b: "q = b + 24" "(b, True) \<in> set bl"
    using assms(2,3) unfolding mh_live_ok[OF ok] by auto
  obtain xs ys where x: "bl = xs @ (a, True) # ys" using a(2) by (rule used_split)
  have r: "mh_rep s k (xs @ (a, True) # ys) fs" using ok x by (simp add: mh_ok_def mh_core_def)
  have "layout (mh_start_addr (mh_heaps s k)) (mh_end (mh_heaps s k)) (map fst xs @ a # map fst ys)" using mh_repD(4)[OF r] by simp
  note l = layout_sides[OF this]
  have "b \<in> set (map fst xs) \<or> b = a \<or> b \<in> set (map fst ys)" using b(2) x by force
  then have "hd (map fst ys @ [mh_end (mh_heaps s k)]) \<le> b" using l assms(4) a(1) b(1) by auto
  then show ?thesis using mh_rep_at(3,4)[OF r] a(1) b(1) by simp
qed

text \<open>C35. From a fresh heap on, for any sequence of requests and returns: the blocks handed out are exactly the used items of the heap, no block is
  handed out twice, and the bytes of two blocks do not overlap (the header of the next item lies between them).\<close>

theorem memheap_exclusive:
  assumes "rt_memheap_init k start sz s = Some s0" "0 < start" "60 \<le> unat (RT_ALIGN_DOWN sz 4)" "start + unat (RT_ALIGN_DOWN sz 4) \<le> 2 ^ 32"
    "free_header k < start \<or> start + unat (RT_ALIGN_DOWN sz 4) \<le> free_header k"
    and "run_alloc (mh_request k) mh_return ops [] s0 = (held, s1)"
  shows "distinct held \<and> set held = mh_live k s1 \<and> (\<forall>p \<in> set held. \<forall>q \<in> set held. p < q \<longrightarrow> p + MEMITEM_SIZE s1 (p - 24) + 24 \<le> q)"
proof -
  have ok: "mh_ok s0 k [(start, False)] [start]"
    using rt_memheap_init_ok[of k s start sz] rt_memheap_init_asserts[OF assms(1)] assms(1-5) by auto
  have "mh_inv k s0" "mh_live k s0 = {}" using ok mh_live_ok[OF ok] by (auto simp: mh_inv_def)
  then have "mh_inv k s1 \<and> distinct held \<and> set held = mh_live k s1" using memheap.run_exclusive[OF _ _ _ assms(6)] by simp
  then show ?thesis using live_apart[of k s1] by auto
qed

definition no_heaps :: memheaps where
  "no_heaps = \<lparr>mh_heaps = \<lambda>_. \<lparr>mh_start_addr = 0, mh_pool_size = 0, mh_available_size = 0, mh_max_used_size = 0, mh_block_list = 0, mh_free_list = 0, mh_lock = 0\<rparr>,
     mh_objects = [], mi_magic = \<lambda>_. 0, mi_pool_ptr = \<lambda>_. 0, mi_links = \<lparr>lnext = \<lambda>_. 0, lprev = \<lambda>_. 0\<rparr>, mi_free_links = \<lparr>lnext = \<lambda>_. 0, lprev = \<lambda>_. 0\<rparr>, mh_memory = \<lambda>_. 0\<rparr>"

text \<open>The first allocation from a fresh heap.\<close>

lemma fresh_alloc:
  assumes "mh_ok s k [(start, False)] [start]" "item_size sz + start + 48 < mh_end (mh_heaps s k)"
  obtains s' where "rt_memheap_alloc k sz s = Some (start + 24, s')" "mh_ok s' k ((start, True) # (if item_size sz + 36 \<le> mh_end (mh_heaps s k) - start - 24
      then [(start + item_size sz + 24, False)] else [])) (if item_size sz + 36 \<le> mh_end (mh_heaps s k) - start - 24 then [start + item_size sz + 24] else [])"
proof -
  let ?m = "mh_end (mh_heaps s k) - start - 24"
  have c: "mh_core s k ([] @ (start, False) # []) [start]" using assms(1) by (simp add: mh_ok_def)
  have m: "MEMITEM_SIZE s start = ?m" using mh_rep_at(3)[OF mh_coreD(1)[OF c]] by simp
  have "mh_ok s k ([] @ (start, False) # []) ([] @ start # [])" using assms(1) by simp
  moreover have "item_size sz < mh_available_size (mh_heaps s k)" using mh_coreD(4)[OF c] assms(2) by simp
  moreover have "fits_at s (item_size sz) ([] @ start # []) = Some start" using m assms(2) by (simp add: fits_at_def)
  ultimately obtain s' where "rt_memheap_alloc k sz s = Some (start + 24, s')"
      "mh_ok s' k ([] @ taken start (item_size sz) ?m []) (if item_size sz + 36 \<le> ?m then (start + item_size sz + 24) # [] @ [] else [] @ [])"
    using alloc_takes[OF _ _ _ m[symmetric]] by blast
  then show ?thesis using that by (simp add: taken_def split: if_splits)
qed

lemma demo_heap:
  obtains s0 s1 where "rt_memheap_init 0x100 0x1000 1024 no_heaps = Some s0" "mh_ok s0 0x100 [(0x1000, False)] [0x1000]"
    "rt_memheap_alloc 0x100 10 s0 = Some (0x1018, s1)" "mh_ok s1 0x100 [(0x1000, True), (0x1024, False)] [0x1024]"
proof -
  obtain s0 where s0: "rt_memheap_init 0x100 0x1000 1024 no_heaps = Some s0" "mh_ok s0 0x100 [(0x1000, False)] [0x1000]"
    using rt_memheap_init_ok[of "0x100" no_heaps "0x1000" 1024] by (auto simp: no_heaps_def free_header_def RT_ALIGN_DOWN_def)
  have e: "mh_end (mh_heaps s0 0x100) = 0x1000 + 1024 - 24"
    using s0(1) by (auto simp: rt_memheap_init_def no_heaps_def rt_assert_def RT_ALIGN_DOWN_def mh_end_def Let_def)
  have i: "item_size 10 = 12" by (simp add: item_size_def RT_ALIGN_def)
  obtain s1 where "rt_memheap_alloc 0x100 10 s0 = Some (0x1018, s1)" "mh_ok s1 0x100 [(0x1000, True), (0x1024, False)] [0x1024]"
    by (rule fresh_alloc[OF s0(2), of 10]) (simp_all add: e i)
  then show ?thesis using that s0 by blast
qed

theorem memheap_exclusive_witness:
  "\<exists>s0 s1. rt_memheap_init 0x100 0x1000 1024 no_heaps = Some s0
     \<and> run_alloc (mh_request 0x100) mh_return [Request 10, Return 0x1018, Return 0x1018] [] s0 = ([], s1) \<and> mh_live 0x100 s1 = {}"
proof -
  obtain s0 s1 where s: "rt_memheap_init 0x100 0x1000 1024 no_heaps = Some s0" "rt_memheap_alloc 0x100 10 s0 = Some (0x1018, s1)" by (rule demo_heap)
  then have r: "run_alloc (mh_request 0x100) mh_return [Request 10, Return 0x1018, Return 0x1018] [] s0 = ([], mh_return 0x1018 s1)"
    by (simp add: mh_request_def)
  have "set [] = mh_live 0x100 (mh_return 0x1018 s1)"
    using memheap_exclusive[OF s(1) _ _ _ _ r] by (simp add: free_header_def RT_ALIGN_DOWN_def)
  then show ?thesis using s(1) r by auto
qed

text \<open>C36. \<open>rt_memheap_realloc\<close> on a block in use either fails and changes nothing, or returns a block that is in use instead of the old one, is large enough and
  begins with the bytes of the old one, wherever it lies: grown into the free item behind, cut, left as it is, or moved.\<close>

theorem memheap_realloc_keeps:
  assumes "mh_inv k s" "p \<in> mh_live k s" "sz \<noteq> 0" "unat sz \<le> 2 ^ 32 - 16"
  shows "\<exists>q s'. rt_memheap_realloc k p sz s = Some (q, s')
    \<and> (if q = 0 then s' = s
       else mh_inv k s' \<and> mh_live k s' = insert q (mh_live k s - {p}) \<and> unat sz \<le> MEMITEM_SIZE s' (q - 24)
         \<and> (\<forall>i < min (MEMITEM_SIZE s (p - 24)) (unat sz). mh_memory s' (q + i) = mh_memory s (p + i)))"
proof -
  have p: "p - 24 + 24 = p" using assms(1,2) by (auto simp: mh_live_def)
  consider "rt_memheap_realloc k p sz s = Some (0, s)"
    | q s' where "rt_memheap_realloc k p sz s = Some (q, s')" "q \<noteq> 0" "resized k (p - 24) (item_size sz) s q s'"
    using rt_memheap_realloc_resizes[OF assms] by blast
  then show ?thesis
  proof cases
    case 1
    then show ?thesis by simp
  next
    case 2
    then show ?thesis using item_size_again(3)[OF assms(4)] p by (auto simp: resized_def)
  qed
qed

theorem memheap_realloc_keeps_witness:
  "\<exists>s q s'. rt_memheap_realloc 0x100 0x1018 40 s = Some (q, s') \<and> (q = 0 \<or> 40 \<le> MEMITEM_SIZE s' (q - 24) \<and> mh_memory s' (q + 11) = mh_memory s (0x1018 + 11))"
proof -
  obtain s1 where s: "mh_ok s1 0x100 [(0x1000, True), (0x1024, False)] [0x1024]" by (rule demo_heap)
  then have l: "mh_inv 0x100 s1" "0x1018 \<in> mh_live 0x100 s1" using mh_live_ok[OF s] by (auto simp: mh_inv_def)
  have "mh_rep s1 0x100 ([] @ (0x1000, True) # [(0x1024, False)]) [0x1024]" using s by (simp add: mh_ok_def mh_core_def)
  from mh_rep_at(3)[OF this] have "MEMITEM_SIZE s1 0x1000 = 12" by simp
  then have i: "11 < min (MEMITEM_SIZE s1 (0x1018 - 24)) (unat (40 :: u32))" by simp
  obtain q s' where q: "rt_memheap_realloc 0x100 0x1018 40 s1 = Some (q, s')"
    "q \<noteq> 0 \<Longrightarrow> 40 \<le> MEMITEM_SIZE s' (q - 24) \<and> (\<forall>i < min (MEMITEM_SIZE s1 (0x1018 - 24)) (unat (40 :: u32)). mh_memory s' (q + i) = mh_memory s1 (0x1018 + i))"
    using memheap_realloc_keeps[OF l, of 40] by (auto split: if_splits)
  then have "q = 0 \<or> 40 \<le> MEMITEM_SIZE s' (q - 24) \<and> mh_memory s' (q + 11) = mh_memory s1 (0x1018 + 11)" using i by blast
  with q(1) show ?thesis by blast
qed

text \<open>A request for exactly the bytes that are available is refused, although the only item has them; a request near the end of the range of numbers is granted in place.\<close>

lemma memheap_exact_refused:
  assumes "mh_ok s k bl fs" "mh_available_size (mh_heaps s k) = item_size sz"
  shows "rt_memheap_alloc k sz s = Some (0, s)"
  using alloc_refuses[OF assms(1), of sz] assms(2) by simp

lemma memheap_realloc_wraps:
  assumes ok: "mh_ok s k (xs @ (a, True) # (b, False) # ys) fs" and sz: "2 ^ 32 - 15 \<le> unat sz" "unat sz \<le> 2 ^ 32 - 4"
  shows "\<exists>s'. rt_memheap_realloc k (a + 24) sz s = Some (a + 24, s')"
proof -
  let ?bl = "xs @ (a, True) # (b, False) # ys" and ?e = "mh_end (mh_heaps s k)" and ?n = "item_size sz"
  have c: "mh_core s k ?bl fs" using ok by (simp add: mh_ok_def)
  note r = mh_coreD(1)[OF c]
  have r': "mh_rep s k ((xs @ [(a, True)]) @ (b, False) # ys) fs" using r by simp
  let ?nx = "hd (map fst ys @ [?e])"
  have at: "next_item s a = b" "MEMITEM_SIZE s a = b - a - 24" "a + 36 \<le> b" "MEMITEM_SIZE s b = ?nx - b - 24" "b + 36 \<le> ?nx" "?nx + 24 \<le> 2 ^ 32"
    using mh_rep_at[OF r] mh_rep_at[OF r'] by auto
  obtain s1 where s1: "take_lock k s = Some s1" "s1 = upd_mh k (\<lambda>h. h\<lparr>mh_lock := 0\<rparr>) s" using take_lock_ok[OF ok] by auto
  have same: "next_item s1 a = b" "MEMITEM_SIZE s1 b = ?nx - b - 24" "\<not> RT_MEMHEAP_IS_USED s1 b"
    using at s1(2) mh_rep_used[OF r, of b False] by (simp_all add: MEMITEM_SIZE_def RT_MEMHEAP_IS_USED_def)
  have "unat (RT_ALIGN sz 4) = (unat sz + 3) mod 2 ^ 32 div 4 * 4" by (rule align_nat)
  then have n: "2 ^ 32 - 12 \<le> ?n" "?n < 2 ^ 32" using sz unsigned_less[of "RT_ALIGN sz 4"] by (auto simp: item_size_def Let_def)
  then have "(?n + 12) mod 2 ^ 32 = ?n + 12 - 2 ^ 32" by (simp add: le_mod_geq)
  then have "add32 ?n 12 < 12" "sz \<noteq> 0" using sz n(2) by (auto simp: add32_def)
  moreover have "12 < add32 (?nx - b - 24) (b - a - 24)" using at by (simp add: add32_def)
  moreover have "b - a - 24 < ?n" using at n(1) by simp
  ultimately show ?thesis using mh_repD(1,2)[OF r] s1(1) at same by (simp add: rt_memheap_realloc_def)
qed

end
