(* ===== verification/App_Gdi.thy ===== *)
theory App_Gdi
  imports RT_Prelude
begin

text \<open>
  The drawing functions of \<open>driver/src/Gdi.c\<close> for the panel of 132 by 64 pixels. They draw into a buffer of 8 pages of 132 bytes, a byte for
  8 pixels one below the other, and paint parts of the buffer on the panel. What is sent out is a list of events: the commands
  and data bytes for the panel (\<open>Lcd_WriteCom\<close> and \<open>Lcd_WriteData\<close> of \<open>lcd_driver.C\<close> shift them out), and calls of functions that
  are not in the repository (the alarm timer and the back light).

  Coordinates are bytes, and so are most loop counters: a loop up to 255 never ends (\<open>None\<close>). The characters of the fonts come from a
  flash memory, the parameter \<open>flash\<close>. A string is the list of its bytes without the final 0; \<open>char\<close> is unsigned.
\<close>

abbreviation SCR_WIDTH :: u8 where "SCR_WIDTH \<equiv> 132"
abbreviation SCR_HEIGHT :: u8 where "SCR_HEIGHT \<equiv> 64"

datatype lcd_event = Lcd_WriteCom u8 | Lcd_WriteData u8 | LZM_SetAlarm u32 | FlashLcdBackLight | SysAutoRunCountReset

record gdi =
  ScrBuf :: "nat \<Rightarrow> nat \<Rightarrow> u8"
  ScrCpy :: "nat \<Rightarrow> nat \<Rightarrow> u8"
  LcdCopyFlag :: u8
  displayCtrlFlag :: u8
  Dot :: u8
  events :: "lcd_event list"

definition emit :: "lcd_event \<Rightarrow> gdi \<Rightarrow> gdi" where
  "emit e s = s\<lparr>events := events s @ [e]\<rparr>"

text \<open>\<open>for(i = a; i <= b; i++)\<close> with a counter of 8 bits.\<close>

partial_function (option) for_u8 :: "(u8 \<Rightarrow> 's \<Rightarrow> 's option) \<Rightarrow> u8 \<Rightarrow> u8 \<Rightarrow> 's \<Rightarrow> 's option" where
  "for_u8 body i b s = (if i \<le> b then do { s1 \<leftarrow> body i s; for_u8 body (i + 1) b s1 } else Some s)"

text \<open>\<open>for(i = 0; i < n; i++)\<close>.\<close>

definition for_below :: "(u8 \<Rightarrow> 's \<Rightarrow> 's) \<Rightarrow> u8 \<Rightarrow> 's \<Rightarrow> 's" where
  "for_below body n s = fold (\<lambda>i. body (word_of_nat i)) [0..<unat n] s"

subsection \<open>The copy flag\<close>

definition SetLcdCopyFlag :: "gdi \<Rightarrow> gdi" where
  "SetLcdCopyFlag s = s\<lparr>LcdCopyFlag := 0x55, displayCtrlFlag := 1\<rparr>"

definition ClearLcdCopyFlag :: "gdi \<Rightarrow> gdi" where
  "ClearLcdCopyFlag s = s\<lparr>LcdCopyFlag := 0, displayCtrlFlag := 0\<rparr>"

definition GetLcdCopyFlag :: "gdi \<Rightarrow> bool" where
  "GetLcdCopyFlag s \<longleftrightarrow> LcdCopyFlag s = 0x55"

subsection \<open>The panel\<close>

definition LcdConvertPage :: "u8 \<Rightarrow> u8" where
  "LcdConvertPage page = (if page < 4 then 3 - page else if page < 8 then 11 - page else 4)"

definition LcdMoveCursor :: "u8 \<Rightarrow> u8 \<Rightarrow> gdi \<Rightarrow> gdi" where
  "LcdMoveCursor page column s =
     emit (Lcd_WriteCom (0xB0 + page)) (emit (Lcd_WriteCom (0x10 + drop_bit 4 column)) (emit (Lcd_WriteCom (0x00 + (column AND 0x0F))) s))"

definition LcdMoveCursorEx :: "u8 \<Rightarrow> u8 \<Rightarrow> gdi \<Rightarrow> gdi" where
  "LcdMoveCursorEx page column = LcdMoveCursor (LcdConvertPage page) column"

definition LcdPaintScreen :: "u8 \<Rightarrow> u8 \<Rightarrow> u8 \<Rightarrow> u8 \<Rightarrow> gdi \<Rightarrow> gdi option" where
  "LcdPaintScreen x1 y1 x2 y2 s =
     (let x2 = (if x2 > SCR_WIDTH - 1 then SCR_WIDTH - 1 else x2);
          y2 = (if y2 > SCR_HEIGHT - 1 then SCR_HEIGHT - 1 else y2)
      in if x1 > x2 \<or> y1 > y2 then Some s
         else for_u8 (\<lambda>i s. for_u8 (\<lambda>j s. Some (emit (Lcd_WriteData (ScrBuf s (unat i) (unat j))) s)) x1 x2 (LcdMoveCursorEx i x1 s))
           (drop_bit 3 y1) (drop_bit 3 y2) s)"

subsection \<open>Pixels\<close>

definition put_byte :: "nat \<Rightarrow> nat \<Rightarrow> u8 \<Rightarrow> gdi \<Rightarrow> gdi" where
  "put_byte p x v s = s\<lparr>ScrBuf := (ScrBuf s)(p := (ScrBuf s p)(x := v))\<rparr>"

definition LcdSetPixel :: "u8 \<Rightarrow> u8 \<Rightarrow> u8 \<Rightarrow> gdi \<Rightarrow> gdi" where
  "LcdSetPixel x y color s =
     (if x \<ge> SCR_WIDTH then s
      else if y \<ge> SCR_HEIGHT then s
      else let temp = drop_bit 3 y; temp1 = y - push_bit 3 temp; old = ScrBuf s (unat temp) (unat x)
           in put_byte (unat temp) (unat x) (if color \<noteq> 0 then old OR push_bit (unat temp1) 1 else old AND NOT (push_bit (unat temp1) 1)) s)"

definition LcdGetPixel :: "u8 \<Rightarrow> u8 \<Rightarrow> gdi \<Rightarrow> u8" where
  "LcdGetPixel x y s =
     (if x \<ge> SCR_WIDTH then 0
      else if y \<ge> SCR_HEIGHT then 0
      else let temp = drop_bit 3 y; temp1 = y - push_bit 3 temp
           in ScrBuf s (unat temp) (unat x) AND push_bit (unat temp1) 1)"

text \<open>\<open>LcdSetPixel(x, y, !LcdGetPixel(x, y))\<close>.\<close>

definition flip_pixel :: "u8 \<Rightarrow> u8 \<Rightarrow> gdi \<Rightarrow> gdi" where
  "flip_pixel x y s = LcdSetPixel x y (if LcdGetPixel x y s = 0 then 1 else 0) s"

subsection \<open>Drawing into the buffer\<close>

definition FillArea :: "u8 \<Rightarrow> u8 \<Rightarrow> u8 \<Rightarrow> u8 \<Rightarrow> u8 \<Rightarrow> gdi \<Rightarrow> gdi option" where
  "FillArea x1 y1 x2 y2 color = for_u8 (\<lambda>i. for_u8 (\<lambda>j s. Some (LcdSetPixel i j color s)) y1 y2) x1 x2"

definition CopyArea :: "u8 \<Rightarrow> u8 \<Rightarrow> u8 \<Rightarrow> u8 \<Rightarrow> u8 \<Rightarrow> u8 \<Rightarrow> gdi \<Rightarrow> gdi option" where
  "CopyArea x1 y1 width height x2 y2 =
     (if y2 < y1
      then for_u8 (\<lambda>j. for_u8 (\<lambda>i s. Some (LcdSetPixel (x2 + i) (y2 + j) (LcdGetPixel (x1 + i) (y1 + j) s) s)) 0 width) 0 height
      else if y2 > y1
      then for_u8 (\<lambda>j. for_u8 (\<lambda>i s. Some (LcdSetPixel (x2 + i) (y2 + (height - j)) (LcdGetPixel (x1 + i) (y1 + (height - j)) s) s)) 0 width) 0 height
      else Some)"

definition DrawVerLine :: "u8 \<Rightarrow> u8 \<Rightarrow> u8 \<Rightarrow> u8 \<Rightarrow> gdi \<Rightarrow> gdi option" where
  "DrawVerLine x y1 y2 mode =
     (if mode AND 0x0F \<noteq> 0 then for_u8 (\<lambda>i s. Some (flip_pixel x i s)) y1 y2
      else if mode AND 0xf0 \<noteq> 0 then for_u8 (\<lambda>i s. Some (LcdSetPixel x i (if i mod 2 \<noteq> 0 \<or> i = y1 then 1 else 0) s)) y1 y2
      else for_u8 (\<lambda>i s. Some (LcdSetPixel x i 1 s)) y1 y2)"

definition DrawHorLine :: "u8 \<Rightarrow> u8 \<Rightarrow> u8 \<Rightarrow> u8 \<Rightarrow> gdi \<Rightarrow> gdi option" where
  "DrawHorLine x1 x2 y mode =
     (if mode AND 0x0F \<noteq> 0 then for_u8 (\<lambda>i s. Some (flip_pixel i y s)) x1 x2
      else if mode AND 0xf0 \<noteq> 0 then for_u8 (\<lambda>i s. Some (LcdSetPixel i y (if i mod 2 \<noteq> 0 \<or> i = x1 then 1 else 0) s)) x1 x2
      else for_u8 (\<lambda>i s. Some (LcdSetPixel i y 1 s)) x1 x2)"

definition DrawRect :: "u8 \<Rightarrow> u8 \<Rightarrow> u8 \<Rightarrow> u8 \<Rightarrow> u8 \<Rightarrow> gdi \<Rightarrow> gdi option" where
  "DrawRect x1 y1 x2 y2 mode s =
     (let x2 = (if x2 > SCR_WIDTH - 1 then SCR_WIDTH - 1 else x2);
          y2 = (if y2 > SCR_HEIGHT - 1 then SCR_HEIGHT - 1 else y2)
      in if x1 > x2 \<or> y1 > y2 then Some s
         else if x1 = x2 then DrawVerLine x1 y1 y2 mode s
         else do {
           s1 \<leftarrow> DrawHorLine x1 x2 y1 mode s;
           if y1 = y2 then Some s1
           else do {
             s2 \<leftarrow> DrawHorLine x1 x2 y2 mode s1;
             if uint y2 - 1 \<ge> uint y1 + 1 then do {
               s3 \<leftarrow> DrawVerLine x1 (y1 + 1) (y2 - 1) mode s2;
               DrawVerLine x2 (y1 + 1) (y2 - 1) mode s3 }
             else Some s2 } })"

definition ReverseBar :: "u8 \<Rightarrow> u8 \<Rightarrow> u8 \<Rightarrow> u8 \<Rightarrow> gdi \<Rightarrow> gdi option" where
  "ReverseBar x1 y1 x2 y2 = for_u8 (\<lambda>i. for_u8 (\<lambda>j s. Some (flip_pixel i j s)) y1 y2) x1 x2"

text \<open>A fold of calls that may not return.\<close>

fun run_calls :: "('s \<Rightarrow> 's option) list \<Rightarrow> 's \<Rightarrow> 's option" where
  "run_calls [] s = Some s"
| "run_calls (c # cs) s = do { s1 \<leftarrow> c s; run_calls cs s1 }"

definition DrawArrow :: "u8 \<Rightarrow> u8 \<Rightarrow> u8 \<Rightarrow> u8 \<Rightarrow> u8 \<Rightarrow> gdi \<Rightarrow> gdi option" where
  "DrawArrow x y type len mode =
     run_calls (map (\<lambda>n. let i = word_of_nat n :: u8 in
       if type = 1 then DrawRect (x + i) (y - i) (x + i) (y + i) mode
       else if type = 2 then DrawRect (x - i) (y - i) (x - i) (y + i) mode
       else if type = 3 then DrawRect (x - i) (y + i) (x + i) (y + i) mode
       else if type = 4 then DrawRect (x - i) (y - i) (x + i) (y - i) mode
       else Some) [0..<unat len])"

text \<open>One pixel of a picture whose bytes are columns of 8 pixels; \<open>inverted\<close> pictures have their bytes complemented.\<close>

definition show_bit :: "u8 \<Rightarrow> u8 \<Rightarrow> u8 \<Rightarrow> u8 \<Rightarrow> u8 \<Rightarrow> gdi \<Rightarrow> gdi" where
  "show_bit xx yy data k mode s =
     (let data = (if mode \<noteq> 0 then data XOR 0xff else data)
      in LcdSetPixel xx yy (if data AND drop_bit (unat k) 0x80 \<noteq> 0 then 1 else 0) s)"

definition DrawPic :: "u8 \<Rightarrow> u8 \<Rightarrow> u8 \<Rightarrow> u8 \<Rightarrow> (nat \<Rightarrow> u8) \<Rightarrow> u8 \<Rightarrow> gdi \<Rightarrow> gdi" where
  "DrawPic x y width height pic mode =
     for_below (\<lambda>i. let index = drop_bit 3 i; k = 7 + push_bit 3 index - i; index = index * width; yy = y + i
       in for_below (\<lambda>j. show_bit (x + j) yy (pic (unat j + unat index)) k mode) width) height"

subsection \<open>Characters\<close>

text \<open>Reading a character from the fonts in the flash (\<open>lcd_driver.C\<close>).\<close>

definition Lcd_ReadOneEnglishCharacterFromFlash :: "(u32 \<Rightarrow> u8) \<Rightarrow> u32 \<Rightarrow> nat \<Rightarrow> u8" where
  "Lcd_ReadOneEnglishCharacterFromFlash flash Address j = flash (Address + 0x40000 + word_of_nat j)"

definition Lcd_ReadOneChineseCharacterFromFlash :: "(u32 \<Rightarrow> u8) \<Rightarrow> u32 \<Rightarrow> nat \<Rightarrow> u8" where
  "Lcd_ReadOneChineseCharacterFromFlash flash Address j = flash (Address + word_of_nat j)"

definition DrawChar :: "(u32 \<Rightarrow> u8) \<Rightarrow> u8 \<Rightarrow> u8 \<Rightarrow> u8 \<Rightarrow> u8 \<Rightarrow> u8 \<Rightarrow> gdi \<Rightarrow> gdi" where
  "DrawChar flash x y hiByte loByte mode =
     (if hiByte = 0
      then let DispBuffer = Lcd_ReadOneEnglishCharacterFromFlash flash (push_bit 4 (ucast loByte))
           in for_below (\<lambda>i. let index = push_bit 3 (drop_bit 3 i); k = 7 + index - i; yy = y + i
                in for_below (\<lambda>j. show_bit (x + j) yy (DispBuffer (unat j + unat index)) k mode) 8) 16
      else let DispBuffer = Lcd_ReadOneChineseCharacterFromFlash flash (push_bit 5 ((ucast hiByte - 0xa1) * 94 + (ucast loByte - 0xa1)))
           in for_below (\<lambda>i. let index = drop_bit 3 i; k = 7 + push_bit 3 index - i; index = push_bit 4 index; yy = y + i
                in for_below (\<lambda>j. show_bit (x + j) yy (DispBuffer (unat j + unat index)) k mode) 16) 16)"

text \<open>The loop of \<open>DrawStr\<close>: the place of the next character, the lower end of the area to paint, the bytes shown.\<close>

record draw_pos =
  dp_xx :: u8
  dp_yy :: u8
  dp_width :: u16
  dp_tmp :: u16

text \<open>A new line where the character does not fit; \<open>True\<close>: the panel is full.\<close>

definition next_line :: "int \<Rightarrow> draw_pos \<Rightarrow> draw_pos \<times> bool" where
  "next_line w d =
     (if uint (dp_xx d) + w > 131
      then let d1 = d\<lparr>dp_xx := 0, dp_yy := dp_yy d + 16, dp_width := dp_width d + 16\<rparr>
           in if dp_width d1 > 64 then (d1\<lparr>dp_yy := 0, dp_width := ucast SCR_HEIGHT\<rparr>, True) else (d1, False)
      else (d, False))"

function draw_chars :: "(u32 \<Rightarrow> u8) \<Rightarrow> u8 \<Rightarrow> u16 \<Rightarrow> u8 list \<Rightarrow> draw_pos \<times> gdi \<Rightarrow> draw_pos \<times> gdi" where
  "draw_chars flash mode length1 [] (d, s) = (d, s)"
| "draw_chars flash mode length1 (c # cs) (d, s) =
     (if c > 0x80
      then let (d, full) = next_line 16 d
           in if full then (d, s)
              else let s = DrawChar flash (dp_xx d) (dp_yy d) c (case cs of [] \<Rightarrow> 0 | c2 # _ \<Rightarrow> c2) mode s;
                       d = d\<lparr>dp_xx := dp_xx d + 16, dp_tmp := dp_tmp d + 2\<rparr>
                   in if length1 \<le> dp_tmp d then (d, s) else draw_chars flash mode length1 (tl cs) (d, s)
      else let (d, full) = next_line 8 d
           in if full then (d, s)
              else let s = DrawChar flash (dp_xx d) (dp_yy d) 0 c mode s;
                       d = d\<lparr>dp_xx := dp_xx d + 8, dp_tmp := dp_tmp d + 1\<rparr>
                   in if length1 \<le> dp_tmp d then (d, s) else draw_chars flash mode length1 cs (d, s))"
  by pat_completeness auto
termination by (relation "measure (\<lambda>(_, _, _, cs, _). length cs)") auto

declare draw_chars.simps(2) [simp del]

definition DrawStr :: "(u32 \<Rightarrow> u8) \<Rightarrow> u8 \<Rightarrow> u8 \<Rightarrow> u8 list \<Rightarrow> u8 \<Rightarrow> u16 \<Rightarrow> gdi \<Rightarrow> (u8 \<times> gdi) option" where
  "DrawStr flash x y str mode len s =
     (let length1 = word_of_nat (length str);
          length1 = (if len < length1 then len else length1);
          (d, s) = draw_chars flash mode length1 str (\<lparr>dp_xx = x, dp_yy = y, dp_width = 16 + ucast y, dp_tmp = 0\<rparr>, s);
          length1 = push_bit 3 length1 + ucast x;
          (xx, length1) = (if length1 \<ge> ucast SCR_WIDTH then (0, ucast SCR_WIDTH) else (x, length1))
      in map_option (Pair (ucast (dp_tmp d))) (LcdPaintScreen xx y (ucast length1) (ucast (dp_width d)) s))"

end
