(* ===== verification/App_GdiShow.thy ===== *)
theory App_GdiShow
  imports App_Gdi
begin

text \<open>The functions of \<open>Gdi.c\<close> that draw and paint what they drew, messages, and the numbers of the main screen.\<close>

definition LcdClearScreen :: "gdi \<Rightarrow> gdi" where
  "LcdClearScreen = for_below (\<lambda>i s. for_below (\<lambda>j s. let s = put_byte (unat i) (unat j) 0 s
       in emit (Lcd_WriteData (ScrBuf s (unat i) (unat j))) s) SCR_WIDTH (LcdMoveCursorEx i 0 s)) 8"

definition LcdClearArea :: "u8 \<Rightarrow> u8 \<Rightarrow> u8 \<Rightarrow> u8 \<Rightarrow> gdi \<Rightarrow> gdi option" where
  "LcdClearArea x1 y1 x2 y2 s = do { s1 \<leftarrow> FillArea x1 y1 x2 y2 0 s; LcdPaintScreen x1 y1 x2 y2 s1 }"

definition LcdCopyArea :: "u8 \<Rightarrow> u8 \<Rightarrow> u8 \<Rightarrow> u8 \<Rightarrow> u8 \<Rightarrow> u8 \<Rightarrow> gdi \<Rightarrow> gdi option" where
  "LcdCopyArea x1 y1 width height x2 y2 s = do { s1 \<leftarrow> CopyArea x1 y1 width height x2 y2 s; LcdPaintScreen x2 y2 (x2 + width) (y2 + height) s1 }"

definition LcdShowVerLine :: "u8 \<Rightarrow> u8 \<Rightarrow> u8 \<Rightarrow> u8 \<Rightarrow> gdi \<Rightarrow> gdi option" where
  "LcdShowVerLine x y1 y2 mode s = do { s1 \<leftarrow> DrawVerLine x y1 y2 mode s; LcdPaintScreen x y1 x y2 s1 }"

definition LcdShowHorLine :: "u8 \<Rightarrow> u8 \<Rightarrow> u8 \<Rightarrow> u8 \<Rightarrow> gdi \<Rightarrow> gdi option" where
  "LcdShowHorLine x1 x2 y mode s = do { s1 \<leftarrow> DrawHorLine x1 x2 y mode s; LcdPaintScreen x1 y x2 y s1 }"

definition LcdShowRect :: "u8 \<Rightarrow> u8 \<Rightarrow> u8 \<Rightarrow> u8 \<Rightarrow> u8 \<Rightarrow> gdi \<Rightarrow> gdi option" where
  "LcdShowRect x1 y1 x2 y2 mode s = do {
     s1 \<leftarrow> DrawRect x1 y1 x2 y2 mode s;
     s2 \<leftarrow> LcdPaintScreen x1 y1 x1 y2 s1;
     s3 \<leftarrow> LcdPaintScreen x2 y1 x2 y2 s2;
     s4 \<leftarrow> LcdPaintScreen x1 y1 x2 y1 s3;
     LcdPaintScreen x1 y2 x2 y2 s4 }"

definition LcdReverseBar :: "u8 \<Rightarrow> u8 \<Rightarrow> u8 \<Rightarrow> u8 \<Rightarrow> gdi \<Rightarrow> gdi option" where
  "LcdReverseBar x1 y1 x2 y2 s = do { s1 \<leftarrow> ReverseBar x1 y1 x2 y2 s; LcdPaintScreen x1 y1 x2 y2 s1 }"

definition LcdShowArrow :: "u8 \<Rightarrow> u8 \<Rightarrow> u8 \<Rightarrow> u8 \<Rightarrow> u8 \<Rightarrow> gdi \<Rightarrow> gdi option" where
  "LcdShowArrow x y type len mode s = do {
     s1 \<leftarrow> DrawArrow x y type len mode s;
     if type = 1 then LcdPaintScreen x (y - len) (x + len) (y + len) s1
     else if type = 2 then LcdPaintScreen (x - len) (y - len) x (y + len) s1
     else if type = 3 then LcdPaintScreen (x - len) y (x + len) (y + len) s1
     else if type = 4 then LcdPaintScreen (x - len) (y - len) (x + len) y s1
     else Some s1 }"

definition LcdShowBorder :: "gdi \<Rightarrow> gdi option" where
  "LcdShowBorder s = LcdShowRect 0 0 (SCR_WIDTH - 1) (SCR_HEIGHT - 1) 0 (LcdClearScreen s)"

definition LcdShowWindow :: "u16 \<Rightarrow> u8 \<Rightarrow> u16 \<Rightarrow> u8 \<Rightarrow> gdi \<Rightarrow> gdi option" where
  "LcdShowWindow x1 y1 x2 y2 s = do {
     s1 \<leftarrow> LcdClearArea (ucast x1) y1 (ucast x2) y2 s;
     s2 \<leftarrow> DrawRect (ucast (x1 + 1)) (y1 + 1) (ucast (x2 - 1)) (y2 - 1) 0x00 s1;
     LcdPaintScreen (ucast x1) y1 (ucast x2) y2 s2 }"

definition LcdCopyScreen :: "gdi \<Rightarrow> gdi" where
  "LcdCopyScreen s =
     for_below (\<lambda>i. for_below (\<lambda>j s. s\<lparr>ScrCpy := (ScrCpy s)(unat i := (ScrCpy s (unat i))(unat j := ScrBuf s (unat i) (unat j)))\<rparr>) SCR_WIDTH) 8
       (SetLcdCopyFlag s)"

definition LcdPasteScreen :: "gdi \<Rightarrow> gdi" where
  "LcdPasteScreen s =
     (if \<not> GetLcdCopyFlag s then s
      else for_below (\<lambda>i s. for_below (\<lambda>j s. let s = put_byte (unat i) (unat j) (ScrCpy s (unat i) (unat j)) s
             in emit (Lcd_WriteData (ScrBuf s (unat i) (unat j))) s) SCR_WIDTH (LcdMoveCursorEx i 0 s)) 8 (ClearLcdCopyFlag s))"

definition LcdShowStrEx :: "(u32 \<Rightarrow> u8) \<Rightarrow> u8 \<Rightarrow> u8 \<Rightarrow> u8 list \<Rightarrow> u8 \<Rightarrow> u16 \<Rightarrow> gdi \<Rightarrow> (u8 \<times> gdi) option" where
  "LcdShowStrEx = DrawStr"

definition LcdShowStr :: "(u32 \<Rightarrow> u8) \<Rightarrow> u8 \<Rightarrow> u8 \<Rightarrow> u8 list \<Rightarrow> u8 \<Rightarrow> gdi \<Rightarrow> gdi option" where
  "LcdShowStr flash x y str mode s = map_option snd (DrawStr flash x y str mode (word_of_nat (length str)) s)"

definition LcdShowPic :: "u8 \<Rightarrow> u8 \<Rightarrow> u8 \<Rightarrow> u8 \<Rightarrow> (nat \<Rightarrow> u8) \<Rightarrow> gdi \<Rightarrow> gdi option" where
  "LcdShowPic x y width height pic s = LcdPaintScreen x y (x + width) (y + height) (DrawPic x y width height pic 0 s)"

text \<open>A button: its text on a cleared ground with a frame, inverted if \<open>mode\<close>.\<close>

definition LcdShowButton :: "(u32 \<Rightarrow> u8) \<Rightarrow> u8 list \<Rightarrow> u16 \<Rightarrow> u8 \<Rightarrow> u8 \<Rightarrow> gdi \<Rightarrow> gdi option" where
  "LcdShowButton flash str x y mode s =
     (let len = word_of_nat (length str) :: u8;
          (w, len) = (if (case str of [] \<Rightarrow> 0 | c # _ \<Rightarrow> c) > 0x9f then (16, len div 2) else (8, len));
          x1 = ucast (x + 2); y1 = y + 1; x2 = x1 + len * w + 4; y2 = y1 + 16 + 2
      in do {
        s1 \<leftarrow> LcdClearArea (ucast x) y x2 y2 s;
        s2 \<leftarrow> LcdShowStr flash (x1 + 2) (y1 + 1) str 0 s1;
        s3 \<leftarrow> (if mode \<noteq> 0
               then run_calls (map (\<lambda>i. LcdShowRect x1 (word_of_nat i) (x2 - 1) (word_of_nat i) 0x01) [unat (y1 + 1)..<unat y2 - 1]) s2
               else Some s2);
        LcdShowRect (ucast x) y (x2 + 1) y2 0x00 s3 })"

definition LcdShowCaption :: "(u32 \<Rightarrow> u8) \<Rightarrow> u8 list \<Rightarrow> u8 \<Rightarrow> gdi \<Rightarrow> gdi option" where
  "LcdShowCaption flash str y s =
     (let len = push_bit 2 (word_of_nat (length str)) :: u8 in LcdShowStr flash (if len < 65 then 65 - len else 0) y str 0 s)"

text \<open>Three rows of dots behind a text, one after the other, and then a round without.\<close>

definition LcdShowWaitPlease :: "(u32 \<Rightarrow> u8) \<Rightarrow> u16 \<Rightarrow> u16 \<Rightarrow> u8 list \<Rightarrow> gdi \<Rightarrow> gdi option" where
  "LcdShowWaitPlease flash x y str s =
     (let len = word_of_nat (length str * 8) :: u8; x2 = ucast (x + ucast len)
      in do {
        s1 \<leftarrow> LcdShowStr flash (ucast x) (ucast y) str 0x00 s;
        s2 \<leftarrow> (if Dot s1 = 0 then LcdShowStr flash x2 (ucast y) [0x2e, 0x20, 0x20, 0x20, 0x20] 0x00 s1
               else if Dot s1 = 1 then LcdShowStr flash x2 (ucast y) [0x2e, 0x2e, 0x2e, 0x20, 0x20] 0x00 s1
               else if Dot s1 = 2 then LcdShowStr flash x2 (ucast y) [0x2e, 0x2e, 0x2e, 0x2e, 0x2e] 0x00 s1
               else Some s1);
        Some (s2\<lparr>Dot := (if Dot s2 < 3 then Dot s2 + 1 else 0)\<rparr>) })"

text \<open>Messages. A text of more than 16 bytes overruns the copy \<open>LcdShowMsg\<close> makes (\<open>None\<close>).\<close>

definition start_alarm :: "u32 \<Rightarrow> gdi \<Rightarrow> gdi" where
  "start_alarm time s = emit FlashLcdBackLight (if time \<noteq> 0 then emit (LZM_SetAlarm time) s else s)"

definition LcdShowMsg :: "(u32 \<Rightarrow> u8) \<Rightarrow> u8 list \<Rightarrow> u32 \<Rightarrow> gdi \<Rightarrow> gdi option" where
  "LcdShowMsg flash msg time s =
     (if length msg > 16 then None
      else let X1 = word_of_nat (length msg) :: u16;
               width = push_bit 3 X1;
               X1 = drop_bit 1 (ucast SCR_WIDTH - width);
               xx = X1;
               (X1, width) = (if X1 < 10 then (0, ucast SCR_WIDTH - 1) else (X1 - 10, width + 20));
               Y1 = drop_bit 1 (ucast SCR_HEIGHT) - 12 :: u16
           in do {
             s2 \<leftarrow> LcdShowWindow X1 (ucast Y1) (X1 + width) (ucast (Y1 + 16 + 8)) (if \<not> GetLcdCopyFlag s then LcdCopyScreen s else s);
             s3 \<leftarrow> LcdShowStr flash (ucast xx) (ucast (Y1 + 4)) msg 0x00 s2;
             Some (start_alarm time s3) })"

definition LcdShowMsgEx :: "(u32 \<Rightarrow> u8) \<Rightarrow> u8 list \<Rightarrow> u32 \<Rightarrow> gdi \<Rightarrow> gdi option" where
  "LcdShowMsgEx flash msg time s =
     (let s1 = LcdClearScreen (if \<not> GetLcdCopyFlag s then LcdCopyScreen s else s); len = word_of_nat (length msg) :: u8
      in do {
        s2 \<leftarrow> LcdShowCaption flash msg (if len \<le> 16 then 23 else 0) s1;
        Some (start_alarm time s2) })"

subsection \<open>Lines of the main screen\<close>

text \<open>\<open>GetShowMainInterfaceFlag\<close> is the parameter \<open>shown\<close>.\<close>

definition Lcd_DisplayString :: "bool \<Rightarrow> (u32 \<Rightarrow> u8) \<Rightarrow> u8 \<Rightarrow> u8 \<Rightarrow> u8 \<Rightarrow> u8 list \<Rightarrow> u16 \<Rightarrow> gdi \<Rightarrow> gdi option" where
  "Lcd_DisplayString shown flash Line StartColumn DisplayModule str len s =
     (if shown then map_option snd (LcdShowStrEx flash StartColumn (push_bit 4 (Line - 1)) str DisplayModule len s) else Some s)"

definition Lcd_DisplayOneEnglishCharacter :: "bool \<Rightarrow> (u32 \<Rightarrow> u8) \<Rightarrow> u8 \<Rightarrow> u8 \<Rightarrow> u8 \<Rightarrow> u8 list \<Rightarrow> gdi \<Rightarrow> gdi option" where
  "Lcd_DisplayOneEnglishCharacter shown flash Line StartColumn DisplayModule str = Lcd_DisplayString shown flash Line StartColumn DisplayModule str 1"

definition Lcd_DisplayOneChineseCharacter :: "u8 \<Rightarrow> u8 \<Rightarrow> u8 \<Rightarrow> (nat \<Rightarrow> u8) \<Rightarrow> gdi \<Rightarrow> gdi option" where
  "Lcd_DisplayOneChineseCharacter Line StartColumn DisplayModule buff s =
     (let y = push_bit 4 (Line - 1)
      in LcdPaintScreen StartColumn y (StartColumn + 16) (y + 16) (DrawPic StartColumn y 16 16 buff DisplayModule s))"

definition Lcd_DisplayOneNumber :: "(u32 \<Rightarrow> u8) \<Rightarrow> u8 \<Rightarrow> u8 \<Rightarrow> u8 \<Rightarrow> u8 \<Rightarrow> gdi \<Rightarrow> gdi option" where
  "Lcd_DisplayOneNumber flash Line StartColumn DisplayModule val =
     (let LowByte = 0xB0 + val; Address = ((0xA3 - 0xa1) * 94 + (ucast LowByte - 0xa1)) * 32
      in Lcd_DisplayOneChineseCharacter Line StartColumn DisplayModule (Lcd_ReadOneChineseCharacterFromFlash flash Address))"

definition Lcd_DisplayNumber16 :: "(u32 \<Rightarrow> u8) \<Rightarrow> u8 \<Rightarrow> u8 \<Rightarrow> u8 \<Rightarrow> u8 \<Rightarrow> gdi \<Rightarrow> gdi option" where
  "Lcd_DisplayNumber16 flash Line StartColumn DisplayModule val s =
     (let temp = val div 100; temp1 = val div 10 mod 10; temp2 = val mod 10; y = push_bit 4 (Line - 1)
      in do {
        s1 \<leftarrow> (if temp > 0 then Lcd_DisplayOneNumber flash 1 StartColumn DisplayModule temp s else Some s);
        s2 \<leftarrow> (if temp1 > 0 \<or> val > 99 then Lcd_DisplayOneNumber flash 1 (StartColumn + 16) DisplayModule temp1 s1
               else LcdClearArea (StartColumn + 16) y (StartColumn + 32) (y + 15) s1);
        Lcd_DisplayOneNumber flash 1 (StartColumn + 32) DisplayModule temp2 s2 })"

definition LcdShowOnePage :: "(u32 \<Rightarrow> u8) \<Rightarrow> u8 list \<Rightarrow> gdi \<Rightarrow> (u8 \<times> gdi) option" where
  "LcdShowOnePage flash str s = LcdShowStrEx flash 0 0 str 0 64 (LcdClearScreen (emit SysAutoRunCountReset s))"

subsection \<open>Other functions of \<open>lcd_driver.C\<close>\<close>

definition Lcd_DisplayClr :: "gdi \<Rightarrow> gdi" where
  "Lcd_DisplayClr = LcdClearScreen"

text \<open>\<open>displayfull\<close> sends to the panel only.\<close>

definition displayfull :: "gdi \<Rightarrow> gdi" where
  "displayfull = for_below (\<lambda>i s. for_below (\<lambda>j. emit (Lcd_WriteData 0xff)) 128
     (emit (Lcd_WriteCom (0xb0 OR i)) (emit (Lcd_WriteCom 0x10) (emit (Lcd_WriteCom 0x01) s)))) 8"

text \<open>\<open>ChangeGraphFormatToChineseFormat\<close>: one corner of 8 by 8 pixels, and the four corners.\<close>

definition graph_byte :: "u8 list \<Rightarrow> nat \<Rightarrow> u8" where
  "graph_byte pG i = fold (\<lambda>j NewChar. NewChar OR push_bit j (drop_bit (7 - i) (pG ! j AND push_bit (7 - i) 1))) [0..<8] 0"

definition ChangeGraphFormatToChineseFormat :: "u8 list \<Rightarrow> u8 list" where
  "ChangeGraphFormatToChineseFormat pGraphBuffer =
     map (graph_byte pGraphBuffer) [0..<8] @ map (graph_byte (drop 16 pGraphBuffer)) [0..<8]
     @ map (graph_byte (drop 8 pGraphBuffer)) [0..<8] @ map (graph_byte (drop 24 pGraphBuffer)) [0..<8]"

end
