(* ===== verification/App_GdiPixels.thy ===== *)
theory App_GdiPixels
  imports App_GdiShow
begin

text \<open>The buffer of \<open>App_Gdi\<close> as a bitmap: which pixels each drawing function changes, and how.\<close>

definition pixel :: "gdi \<Rightarrow> nat \<Rightarrow> nat \<Rightarrow> bool" where
  "pixel s x y = bit (ScrBuf s (y div 8) x) (y mod 8)"

definition on_screen :: "nat \<Rightarrow> nat \<Rightarrow> bool" where
  "on_screen x y \<longleftrightarrow> x < 132 \<and> y < 64"

subsection \<open>One pixel\<close>

lemma row_in_byte:
  fixes y :: u8
  shows "unat (y - push_bit 3 (drop_bit 3 y)) = unat y mod 8" "unat (drop_bit 3 y) = unat y div 8"
proof -
  have d: "drop_bit 3 y = y div 8" "push_bit 3 (y div 8) = y div 8 * 8" by (simp_all add: drop_bit_eq_div push_bit_eq_mult)
  then show "unat (drop_bit 3 y) = unat y div 8" by (simp add: unat_div)
  have "y - y div 8 * 8 = y mod 8" by (simp add: minus_div_mult_eq_mod)
  then show "unat (y - push_bit 3 (drop_bit 3 y)) = unat y mod 8" by (simp add: d unat_mod)
qed

lemma bit_one_exp: "bit (2 ^ n :: u8) m \<longleftrightarrow> m = n \<and> m < 8"
  by (auto simp: bit_simps)

lemma pixel_put:
  "pixel (put_byte (y div 8) x (if c then ScrBuf s (y div 8) x OR push_bit (y mod 8) 1 else ScrBuf s (y div 8) x AND NOT (push_bit (y mod 8) 1)) s) a b
    = (if a = x \<and> b = y then c else pixel s a b)"
proof -
  have "b div 8 = y div 8 \<and> b mod 8 = y mod 8 \<longleftrightarrow> b = y" by (metis div_mult_mod_eq)
  then show ?thesis by (auto simp: pixel_def put_byte_def bit_one_exp bit_or_iff bit_and_iff bit_not_iff)
qed

lemma pixel_set: "pixel (LcdSetPixel x y c s) a b = (if a = unat x \<and> b = unat y \<and> on_screen a b then c \<noteq> 0 else pixel s a b)"
proof (cases "x \<ge> 132 \<or> y \<ge> 64")
  case True
  then have "\<not> on_screen (unat x) (unat y)" by (auto simp: on_screen_def word_le_nat_alt)
  with True show ?thesis by (auto simp: LcdSetPixel_def)
next
  case False
  then have "on_screen (unat x) (unat y)" by (auto simp: on_screen_def word_le_nat_alt)
  with False show ?thesis using pixel_put[of "unat y" "unat x" "c \<noteq> 0" s a b] by (auto simp: LcdSetPixel_def row_in_byte Let_def)
qed

lemma pixel_get: "LcdGetPixel x y s \<noteq> 0 \<longleftrightarrow> on_screen (unat x) (unat y) \<and> pixel s (unat x) (unat y)"
proof (cases "x \<ge> 132 \<or> y \<ge> 64")
  case True
  then have "\<not> on_screen (unat x) (unat y)" by (auto simp: on_screen_def word_le_nat_alt)
  with True show ?thesis by (auto simp: LcdGetPixel_def)
next
  case False
  then have "on_screen (unat x) (unat y)" by (auto simp: on_screen_def word_le_nat_alt)
  moreover have "v AND push_bit n 1 \<noteq> 0 \<longleftrightarrow> bit v n" for v :: u8 and n
    using and_exp_eq_0_iff_not_bit[of v n] by (simp add: push_bit_of_1)
  then have "ScrBuf s p q AND push_bit n 1 = 0 \<longleftrightarrow> \<not> bit (ScrBuf s p q) n" for p q n by blast
  ultimately show ?thesis using False by (simp only: LcdGetPixel_def row_in_byte Let_def pixel_def if_False simp_thms de_Morgan_disj)
qed

subsection \<open>Drawing functions\<close>

text \<open>A function that changes nothing but the pixels of a region, each to a value that depends on itself.\<close>

definition draws :: "(gdi \<Rightarrow> gdi) \<Rightarrow> (nat \<Rightarrow> nat \<Rightarrow> bool) \<Rightarrow> (nat \<Rightarrow> nat \<Rightarrow> bool \<Rightarrow> bool) \<Rightarrow> bool" where
  "draws f P g \<longleftrightarrow> (\<forall>s. f s = s\<lparr>ScrBuf := ScrBuf (f s)\<rparr> \<and> (\<forall>a b. pixel (f s) a b = (if P a b then g a b (pixel s a b) else pixel s a b)))"

lemma drawsD:
  "draws f P g \<Longrightarrow> pixel (f s) a b = (if P a b then g a b (pixel s a b) else pixel s a b)"
  "draws f P g \<Longrightarrow> f s = s\<lparr>ScrBuf := ScrBuf (f s)\<rparr>"
  unfolding draws_def by blast+

lemma draws_cong: "draws f P g \<Longrightarrow> (\<And>a b. P a b = P' a b) \<Longrightarrow> (\<And>a b p. P a b \<Longrightarrow> g a b p = g' a b p) \<Longrightarrow> draws f P' g'"
  by (auto simp: draws_def)

lemma set_pixel_frame: "LcdSetPixel x y c s = s\<lparr>ScrBuf := ScrBuf (LcdSetPixel x y c s)\<rparr>"
  by (simp add: LcdSetPixel_def put_byte_def Let_def)

lemma draws_set: "draws (LcdSetPixel x y c) (\<lambda>a b. a = unat x \<and> b = unat y \<and> on_screen a b) (\<lambda>_ _ _. c \<noteq> 0)"
  unfolding draws_def using set_pixel_frame pixel_set by blast

lemma draws_flip: "draws (flip_pixel x y) (\<lambda>a b. a = unat x \<and> b = unat y \<and> on_screen a b) (\<lambda>_ _ p. \<not> p)"
proof -
  have "pixel (flip_pixel x y s) a b = (if a = unat x \<and> b = unat y \<and> on_screen a b then \<not> pixel s a b else pixel s a b)" for s a b
    using pixel_get[of x y s] by (auto simp: flip_pixel_def pixel_set)
  moreover have "flip_pixel x y s = s\<lparr>ScrBuf := ScrBuf (flip_pixel x y s)\<rparr>" for s
    unfolding flip_pixel_def by (rule set_pixel_frame)
  ultimately show ?thesis unfolding draws_def by blast
qed

lemma draws_id: "draws (\<lambda>s. s) (\<lambda>_ _. False) g"
  by (simp add: draws_def)

lemma draws_comp:
  assumes "draws f P g" "draws f' P' g'" "\<And>a b. P a b \<Longrightarrow> \<not> P' a b"
  shows "draws (\<lambda>s. f' (f s)) (\<lambda>a b. P a b \<or> P' a b) (\<lambda>a b. if P a b then g a b else g' a b)"
proof -
  have "f' (f s) = s\<lparr>ScrBuf := ScrBuf (f' (f s))\<rparr>" for s
  proof -
    have "f' (f s) = (f s)\<lparr>ScrBuf := ScrBuf (f' (f s))\<rparr>" by (rule drawsD(2)[OF assms(2)])
    also have "\<dots> = (s\<lparr>ScrBuf := ScrBuf (f s)\<rparr>)\<lparr>ScrBuf := ScrBuf (f' (f s))\<rparr>" by (subst drawsD(2)[OF assms(1)]) simp
    finally show ?thesis by simp
  qed
  moreover have "pixel (f' (f s)) a b = (if P a b \<or> P' a b then (if P a b then g a b else g' a b) (pixel s a b) else pixel s a b)" for s a b
    using drawsD(1)[OF assms(2), of "f s" a b] drawsD(1)[OF assms(1), of s a b] assms(3)[of a b] by auto
  ultimately show ?thesis unfolding draws_def by blast
qed

text \<open>Loops over regions that do not overlap.\<close>

lemma draws_fold:
  assumes "\<And>i. i \<in> set xs \<Longrightarrow> draws (F i) (P i) g" "distinct xs" "\<And>i j a b. i \<in> set xs \<Longrightarrow> j \<in> set xs \<Longrightarrow> P i a b \<Longrightarrow> P j a b \<Longrightarrow> i = j"
  shows "draws (fold F xs) (\<lambda>a b. \<exists>i \<in> set xs. P i a b) g"
  using assms
proof (induction xs)
  case Nil
  then show ?case using draws_id by simp
next
  case (Cons i xs)
  have "draws (\<lambda>s. fold F xs (F i s)) (\<lambda>a b. P i a b \<or> (\<exists>i \<in> set xs. P i a b)) (\<lambda>a b. if P i a b then g a b else g a b)"
  proof (rule draws_comp[where f = "F i" and f' = "fold F xs" and P = "P i" and P' = "\<lambda>a b. \<exists>i \<in> set xs. P i a b" and g = g and g' = g])
    show "draws (F i) (P i) g" using Cons.prems(1) by simp
    show "draws (fold F xs) (\<lambda>a b. \<exists>i \<in> set xs. P i a b) g"
      by (rule Cons.IH) (use Cons.prems in \<open>auto 4 4\<close>)
    show "\<not> (\<exists>i \<in> set xs. P i a b)" if "P i a b" for a b
      using that Cons.prems(2,3) by (metis distinct.simps(2) list.set_intros)
  qed
  then have "draws (\<lambda>s. fold F xs (F i s)) (\<lambda>a b. \<exists>i \<in> set (i # xs). P i a b) g" by (rule draws_cong) auto
  then show ?case by (simp add: comp_def)
qed

subsection \<open>The loops of the code\<close>

lemma unat_8_le: "unat (w :: u8) \<le> 255"
proof -
  have "unat w < 2 ^ LENGTH(8)" by (rule unsigned_less)
  then show ?thesis by simp
qed

lemma for_u8_run:
  assumes "b < 255"
  shows "for_u8 body a b s = run_calls (map (\<lambda>i. body (word_of_nat i)) [unat a..<Suc (unat b)]) s"
proof (induction "Suc (unat b) - unat a" arbitrary: a s)
  case 0
  then have "\<not> a \<le> b" by (auto simp: word_le_nat_alt)
  with 0 show ?case by (simp add: for_u8.simps)
next
  case (Suc n)
  then have a: "a \<le> b" by (auto simp: word_le_nat_alt)
  have "unat b < 255" using assms by (simp add: word_less_nat_alt)
  then have n: "unat (a + 1) = Suc (unat a)" using a by (simp add: word_le_nat_alt unat_word_ariths)
  have "for_u8 body a b s = body a s \<bind> (\<lambda>s1. for_u8 body (a + 1) b s1)" using a by (simp add: for_u8.simps[of body a b s])
  also have "\<dots> = body a s \<bind> run_calls (map (\<lambda>i. body (word_of_nat i)) [Suc (unat a)..<Suc (unat b)])"
    using Suc.hyps(1)[of "a + 1"] Suc.hyps(2) n by simp
  also have "\<dots> = run_calls (map (\<lambda>i. body (word_of_nat i)) (unat a # [Suc (unat a)..<Suc (unat b)])) s"
    by (simp del: upt_Suc)
  also have "unat a # [Suc (unat a)..<Suc (unat b)] = [unat a..<Suc (unat b)]"
    using a by (intro upt_conv_Cons[symmetric]) (simp add: word_le_nat_alt)
  finally show ?case .
qed

lemma for_u8_stops: "for_u8 body i b s = Some r \<Longrightarrow> b \<noteq> 255"
proof (induction rule: for_u8.raw_induct[rotated, consumes 1])
  case (1 f body i b s r)
  have "i \<le> 255" using unat_8_le[of i] by (simp add: word_le_nat_alt)
  then show ?case using 1 by (auto split: if_splits Option.bind_splits)
qed

lemma for_u8_endless: "for_u8 body a 255 s = None"
  using for_u8_stops[of body a 255 s] by (cases "for_u8 body a 255 s") auto

lemma run_calls_some: "run_calls (map (\<lambda>i s. Some (f i s)) xs) s = Some (fold f xs s)"
  by (induction xs arbitrary: s) simp_all

lemma run_calls_returns: "(\<And>c s. c \<in> set cs \<Longrightarrow> \<exists>t. c s = Some t) \<Longrightarrow> \<exists>t. run_calls cs s = Some t"
proof (induction cs arbitrary: s)
  case (Cons c cs)
  then obtain t where "c s = Some t" by (metis list.set_intros(1))
  then show ?case using Cons by simp
qed simp

lemma for_u8_returns: "b < 255 \<Longrightarrow> (\<And>i s. \<exists>t. body i s = Some t) \<Longrightarrow> \<exists>t. for_u8 body a b s = Some t"
  unfolding for_u8_run by (rule run_calls_returns) auto

lemma for_u8_fold: "b < 255 \<Longrightarrow> for_u8 (\<lambda>i s. Some (f i s)) a b s = Some (fold (\<lambda>i. f (word_of_nat i)) [unat a..<Suc (unat b)] s)"
  by (simp add: for_u8_run run_calls_some[of "\<lambda>i. f (word_of_nat i)"])

lemma for_u8_area:
  assumes "x2 < 255" "y2 < 255"
  shows "for_u8 (\<lambda>i. for_u8 (\<lambda>j s. Some (f i j s)) y1 y2) x1 x2 s
    = Some (fold (\<lambda>i. fold (\<lambda>j. f (word_of_nat i) (word_of_nat j)) [unat y1..<Suc (unat y2)]) [unat x1..<Suc (unat x2)] s)"
  unfolding for_u8_fold[OF assms(2)] by (rule for_u8_fold[OF assms(1)])

text \<open>A loop over a rectangle whose body changes the pixel at hand only.\<close>

definition in_rect :: "u8 \<Rightarrow> u8 \<Rightarrow> u8 \<Rightarrow> u8 \<Rightarrow> nat \<Rightarrow> nat \<Rightarrow> bool" where
  "in_rect x1 y1 x2 y2 a b \<longleftrightarrow> unat x1 \<le> a \<and> a \<le> unat x2 \<and> unat y1 \<le> b \<and> b \<le> unat y2 \<and> on_screen a b"

lemma unat_of_nat_8: "n \<le> 255 \<Longrightarrow> unat (word_of_nat n :: u8) = n"
  by (simp add: unat_of_nat)

lemma draws_area:
  fixes f :: "u8 \<Rightarrow> u8 \<Rightarrow> gdi \<Rightarrow> gdi"
  assumes "\<And>i j. draws (f i j) (\<lambda>a b. a = unat i \<and> b = unat j \<and> on_screen a b) g"
  shows "draws (fold (\<lambda>i. fold (\<lambda>j. f (word_of_nat i) (word_of_nat j)) [unat y1..<Suc (unat y2)]) [unat x1..<Suc (unat x2)]) (in_rect x1 y1 x2 y2) g"
proof -
  have c: "draws (fold (\<lambda>j. f (word_of_nat i) (word_of_nat j)) [unat y1..<Suc (unat y2)]) (\<lambda>a b. a = i \<and> unat y1 \<le> b \<and> b \<le> unat y2 \<and> on_screen a b) g" if "i \<le> 255" for i
  proof (rule draws_cong[OF draws_fold])
    show "draws (f (word_of_nat i) (word_of_nat j)) (\<lambda>a b. a = i \<and> b = j \<and> on_screen a b) g" if "j \<in> set [unat y1..<Suc (unat y2)]" for j
    proof -
      have "unat (word_of_nat i :: u8) = i" "unat (word_of_nat j :: u8) = j" using that \<open>i \<le> 255\<close> unat_8_le[of y2] by (auto intro: unat_of_nat_8)
      then show ?thesis using assms[of "word_of_nat i" "word_of_nat j"] by (simp only:)
    qed
  qed auto
  have "draws (fold (\<lambda>i. fold (\<lambda>j. f (word_of_nat i) (word_of_nat j)) [unat y1..<Suc (unat y2)]) [unat x1..<Suc (unat x2)])
    (\<lambda>a b. \<exists>i \<in> set [unat x1..<Suc (unat x2)]. a = i \<and> unat y1 \<le> b \<and> b \<le> unat y2 \<and> on_screen a b) g"
  proof (rule draws_fold[where P = "\<lambda>i a b. a = i \<and> unat y1 \<le> b \<and> b \<le> unat y2 \<and> on_screen a b"])
    show "draws (fold (\<lambda>j. f (word_of_nat i) (word_of_nat j)) [unat y1..<Suc (unat y2)]) (\<lambda>a b. a = i \<and> unat y1 \<le> b \<and> b \<le> unat y2 \<and> on_screen a b) g"
      if "i \<in> set [unat x1..<Suc (unat x2)]" for i
      using that unat_8_le[of x2] by (intro c) auto
  qed auto
  then show ?thesis by (rule draws_cong) (auto simp: in_rect_def)
qed

end
