(* ===== verification/App_GdiPanel.thy ===== *)
theory App_GdiPanel
  imports App_GdiPixels
begin

text \<open>
  What the panel shows of the buffer. The controller of the panel is not in the repository: a \<open>panel\<close> is a state with the two
  operations of its interface, and \<open>panel_ok\<close> states the part of its data sheet the code relies on: the commands that set
  the column (low and high four bits) and the page, and data that goes to the place of the cursor and moves it to the right.
  The panel keeps the buffer's pages at other places, \<open>LcdConvertPage\<close>.
\<close>

record 'p panel =
  com :: "u8 \<Rightarrow> 'p \<Rightarrow> 'p"
  dat :: "u8 \<Rightarrow> 'p \<Rightarrow> 'p"
  page_at :: "'p \<Rightarrow> nat"
  column_at :: "'p \<Rightarrow> nat"
  ram :: "'p \<Rightarrow> nat \<Rightarrow> nat \<Rightarrow> u8"

definition panel_ok :: "'p panel \<Rightarrow> bool" where
  "panel_ok P \<longleftrightarrow>
     (\<forall>p n. n < 16 \<longrightarrow> column_at P (com P (word_of_nat n) p) = column_at P p div 16 * 16 + n
        \<and> page_at P (com P (word_of_nat n) p) = page_at P p \<and> ram P (com P (word_of_nat n) p) = ram P p)
     \<and> (\<forall>p n. n < 16 \<longrightarrow> column_at P (com P (word_of_nat (16 + n)) p) = n * 16 + column_at P p mod 16
        \<and> page_at P (com P (word_of_nat (16 + n)) p) = page_at P p \<and> ram P (com P (word_of_nat (16 + n)) p) = ram P p)
     \<and> (\<forall>p n. n < 8 \<longrightarrow> page_at P (com P (word_of_nat (176 + n)) p) = n
        \<and> column_at P (com P (word_of_nat (176 + n)) p) = column_at P p \<and> ram P (com P (word_of_nat (176 + n)) p) = ram P p)
     \<and> (\<forall>p v. column_at P p < 132 \<longrightarrow> ram P (dat P v p) = (ram P p)(page_at P p := (ram P p (page_at P p))(column_at P p := v))
        \<and> page_at P (dat P v p) = page_at P p \<and> (column_at P p < 131 \<longrightarrow> column_at P (dat P v p) = Suc (column_at P p)))"

definition panel_step :: "'p panel \<Rightarrow> lcd_event \<Rightarrow> 'p \<Rightarrow> 'p" where
  "panel_step P e = (case e of Lcd_WriteCom c \<Rightarrow> com P c | Lcd_WriteData v \<Rightarrow> dat P v | _ \<Rightarrow> id)"

definition feed :: "'p panel \<Rightarrow> lcd_event list \<Rightarrow> 'p \<Rightarrow> 'p" where
  "feed P es = fold (panel_step P) es"

text \<open>The byte of the panel that belongs to column \<open>j\<close> of the buffer's page \<open>i\<close>.\<close>

definition shown :: "'p panel \<Rightarrow> 'p \<Rightarrow> gdi \<Rightarrow> nat \<Rightarrow> nat \<Rightarrow> u8" where
  "shown P p0 s i j = ram P (feed P (events s) p0) (unat (LcdConvertPage (word_of_nat i))) j"

definition in_sync :: "'p panel \<Rightarrow> 'p \<Rightarrow> gdi \<Rightarrow> bool" where
  "in_sync P p0 s \<longleftrightarrow> (\<forall>i < 8. \<forall>j < 132. shown P p0 s i j = ScrBuf s i j)"

lemma feed_simps [simp]:
  "feed P [] p = p" "feed P (e # es) p = feed P es (panel_step P e p)" "feed P (es @ fs) p = feed P fs (feed P es p)"
  by (simp_all add: feed_def)

subsection \<open>Pages and the cursor\<close>

lemma upt_8: "[0..<8] = [0, 1, 2, 3, 4, 5, 6, 7 :: nat]"
  by (simp add: upt_rec)

lemma less_8_cases: "(i :: nat) < 8 \<Longrightarrow> i \<in> {0, 1, 2, 3, 4, 5, 6, 7}"
  by auto

lemma convert_page:
  assumes "i < 8"
  shows "unat (LcdConvertPage (word_of_nat i)) < 8" "j < 8 \<Longrightarrow> unat (LcdConvertPage (word_of_nat i)) = unat (LcdConvertPage (word_of_nat j)) \<longleftrightarrow> i = j"
proof -
  have c: "unat (LcdConvertPage (word_of_nat i)) = (if i < 4 then 3 - i else 11 - i)" if "i < 8" for i
    using less_8_cases[OF that] by (auto simp: LcdConvertPage_def)
  show "unat (LcdConvertPage (word_of_nat i)) < 8" using assms by (auto simp: c)
  show "unat (LcdConvertPage (word_of_nat i)) = unat (LcdConvertPage (word_of_nat j)) \<longleftrightarrow> i = j" if "j < 8"
    using assms that by (auto simp: c)
qed

lemma cursor_moves:
  assumes "panel_ok P" "unat page < 8"
  shows "page_at P (feed P (events (LcdMoveCursor page column s)) p0) = unat page"
    "column_at P (feed P (events (LcdMoveCursor page column s)) p0) = unat column"
    "ram P (feed P (events (LcdMoveCursor page column s)) p0) = ram P (feed P (events s) p0)"
proof -
  let ?lo = "unat column mod 16" and ?hi = "unat column div 16"
  have u: "unat column < 256" using unat_8_le[of column] by simp
  have w: "column AND 0x0F = word_of_nat ?lo" "0x10 + drop_bit 4 column = word_of_nat (16 + ?hi)" "0xB0 + page = word_of_nat (176 + unat page)"
  proof -
    have "column AND 0x0F = take_bit 4 column" by (simp add: take_bit_eq_mask mask_numeral)
    then show "column AND 0x0F = word_of_nat ?lo" by (simp add: take_bit_eq_mod word_unat_eq_iff unat_mod unat_of_nat)
    have "drop_bit 4 column = word_of_nat ?hi" by (simp add: drop_bit_eq_div word_unat_eq_iff unat_div unat_of_nat) (use u in simp)
    then show "0x10 + drop_bit 4 column = word_of_nat (16 + ?hi)" by simp
    show "0xB0 + page = word_of_nat (176 + unat page)" by simp
  qed
  have "?hi < 16" "?lo < 16" using u by auto
  moreover have "16 * ?hi + ?lo = unat column" by simp
  ultimately show "page_at P (feed P (events (LcdMoveCursor page column s)) p0) = unat page"
    "column_at P (feed P (events (LcdMoveCursor page column s)) p0) = unat column"
    "ram P (feed P (events (LcdMoveCursor page column s)) p0) = ram P (feed P (events s) p0)"
    using assms unfolding panel_ok_def
    by (simp_all add: LcdMoveCursor_def emit_def panel_step_def w del: of_nat_add)
qed

subsection \<open>Rows of data\<close>

lemma feed_row:
  assumes "panel_ok P" "b \<le> 132"
  shows "column_at P p = a \<Longrightarrow> ram P (feed P (map (\<lambda>j. Lcd_WriteData (D j)) [a..<b]) p)
      = (\<lambda>q c. if q = page_at P p \<and> a \<le> c \<and> c < b then D c else ram P p q c)"
proof (induction "b - a" arbitrary: a p)
  case 0
  then show ?case by (auto simp: fun_eq_iff)
next
  case (Suc n)
  then have a: "a < b" "a < 132" using assms(2) by auto
  have d: "ram P (dat P (D a) p) = (ram P p)(page_at P p := (ram P p (page_at P p))(a := D a))" "page_at P (dat P (D a) p) = page_at P p"
    using assms(1) Suc.prems a(2) by (auto simp: panel_ok_def)
  have u: "[a..<b] = a # [Suc a..<b]" using a(1) by (rule upt_conv_Cons)
  show ?case
  proof (cases "a < 131")
    case True
    then have "column_at P (dat P (D a) p) = Suc a" using assms(1) Suc.prems a(2) by (auto simp: panel_ok_def)
    from Suc.hyps(1)[OF _ this] Suc.hyps(2) show ?thesis by (auto simp: u panel_step_def d fun_eq_iff)
  next
    case False
    then have "[Suc a..<b] = []" "b = Suc a" using a assms(2) by auto
    then show ?thesis by (auto simp: u panel_step_def d fun_eq_iff)
  qed
qed

definition row_events :: "(nat \<Rightarrow> u8) \<Rightarrow> nat \<Rightarrow> nat \<Rightarrow> lcd_event list" where
  "row_events D a b = map (\<lambda>j. Lcd_WriteData (D j)) [a..<b]"

text \<open>The cursor and a row: from column \<open>x\<close> up to \<open>b\<close>.\<close>

lemma row_shown:
  assumes "panel_ok P" "i < 8" "b \<le> 132" "j < 132" "k < 8" "events s' = events (LcdMoveCursorEx (word_of_nat i) x s) @ row_events D (unat x) b"
  shows "shown P p0 s' k j = (if k = i \<and> unat x \<le> j \<and> j < b then D j else shown P p0 s k j)"
  using cursor_moves[OF assms(1) convert_page(1)[OF assms(2)], of x s p0] convert_page(2)[OF assms(5), of i] assms(2)
    feed_row[OF assms(1,3), of "feed P (events (LcdMoveCursorEx (word_of_nat i) x s)) p0" "unat x" D]
  by (simp add: shown_def assms(6) row_events_def LcdMoveCursorEx_def)

subsection \<open>Painting\<close>

text \<open>The bytes \<open>LcdPaintScreen\<close> paints.\<close>

definition in_bytes :: "u8 \<Rightarrow> u8 \<Rightarrow> u8 \<Rightarrow> u8 \<Rightarrow> nat \<Rightarrow> nat \<Rightarrow> bool" where
  "in_bytes x1 y1 x2 y2 i j \<longleftrightarrow> unat x1 \<le> j \<and> j \<le> unat x2 \<and> unat y1 div 8 \<le> i \<and> i \<le> unat y2 div 8 \<and> y1 \<le> y2"

lemma emit_row:
  "fold (\<lambda>j s. emit (Lcd_WriteData (D j)) s) [a..<b] s = s\<lparr>events := events s @ row_events D a b\<rparr>"
  by (induction b) (auto simp: row_events_def emit_def)

lemma emit_buffer_row:
  "fold (\<lambda>j s. emit (Lcd_WriteData (ScrBuf s i j)) s) xs s = s\<lparr>events := events s @ map (\<lambda>j. Lcd_WriteData (ScrBuf s i j)) xs\<rparr>"
  by (induction xs arbitrary: s) (simp_all add: emit_def)

definition same_but_events :: "gdi \<Rightarrow> gdi \<Rightarrow> bool" where
  "same_but_events s t \<longleftrightarrow> t = s\<lparr>events := events t\<rparr>"

lemma same_but_eventsD: "same_but_events s t \<Longrightarrow> ScrBuf t = ScrBuf s" "same_but_events s t \<Longrightarrow> ScrCpy t = ScrCpy s"
  unfolding same_but_events_def by (metis gdi.select_convs(1,2) gdi.surjective gdi.update_convs(6))+

lemma same_but_events_update: "same_but_events s t \<Longrightarrow> same_but_events s (t\<lparr>events := e\<rparr>)"
  by (cases s; cases t) (simp add: same_but_events_def)

lemma same_but_events_trans: "same_but_events s t \<Longrightarrow> same_but_events t u \<Longrightarrow> same_but_events s u"
  by (cases s; cases t; cases u) (simp add: same_but_events_def)

lemma paint_row:
  assumes "panel_ok P" "i < 8" "x1 \<le> x2" "x2 < 132"
  obtains t where "for_u8 (\<lambda>j s. Some (emit (Lcd_WriteData (ScrBuf s i (unat j))) s)) x1 x2 (LcdMoveCursorEx (word_of_nat i) x1 s) = Some t"
    "same_but_events s t" "\<And>k j. k < 8 \<Longrightarrow> j < 132 \<Longrightarrow> shown P p0 t k j = (if k = i \<and> unat x1 \<le> j \<and> j \<le> unat x2 then ScrBuf s i j else shown P p0 s k j)"
proof -
  define c where "c = LcdMoveCursorEx (word_of_nat i) x1 s"
  define t where "t = c\<lparr>events := events c @ row_events (ScrBuf s i) (unat x1) (Suc (unat x2))\<rparr>"
  have x: "unat x2 < 132" using assms(4) by (simp add: word_less_nat_alt)
  have c: "same_but_events s c" by (simp add: c_def same_but_events_def LcdMoveCursorEx_def LcdMoveCursor_def emit_def)
  have "for_u8 (\<lambda>j s. Some (emit (Lcd_WriteData (ScrBuf s i (unat j))) s)) x1 x2 c
    = Some (fold (\<lambda>j s. emit (Lcd_WriteData (ScrBuf s i (unat (word_of_nat j :: u8)))) s) [unat x1..<Suc (unat x2)] c)"
    by (rule for_u8_fold) (use x in \<open>simp add: word_less_nat_alt\<close>)
  also have "\<dots> = Some (fold (\<lambda>j s. emit (Lcd_WriteData (ScrBuf s i j)) s) [unat x1..<Suc (unat x2)] c)"
    using x by (intro arg_cong[where f = Some] fold_cong) (auto simp: unat_of_nat_8)
  also have "\<dots> = Some t" using same_but_eventsD(1)[OF c] by (simp add: emit_buffer_row t_def row_events_def del: upt_Suc)
  finally have f: "for_u8 (\<lambda>j s. Some (emit (Lcd_WriteData (ScrBuf s i (unat j))) s)) x1 x2 c = Some t" .
  have "same_but_events s t" unfolding t_def by (rule same_but_events_update[OF c])
  moreover have "shown P p0 t k j = (if k = i \<and> unat x1 \<le> j \<and> j \<le> unat x2 then ScrBuf s i j else shown P p0 s k j)" if "k < 8" "j < 132" for k j
    using row_shown[OF assms(1,2), of "Suc (unat x2)" j k t x1 s "ScrBuf s i"] x that by (auto simp: t_def c_def less_Suc_eq_le)
  ultimately show ?thesis using that f by (simp add: c_def)
qed

lemma paint_rows:
  assumes "panel_ok P" "x1 \<le> x2" "x2 < 132"
  shows "b \<le> 8 \<Longrightarrow> \<exists>t. run_calls (map (\<lambda>i s. for_u8 (\<lambda>j s. Some (emit (Lcd_WriteData (ScrBuf s i (unat j))) s)) x1 x2 (LcdMoveCursorEx (word_of_nat i) x1 s)) [a..<b]) s = Some t
      \<and> same_but_events s t \<and> (\<forall>k < 8. \<forall>j < 132. shown P p0 t k j = (if a \<le> k \<and> k < b \<and> unat x1 \<le> j \<and> j \<le> unat x2 then ScrBuf s k j else shown P p0 s k j))"
proof (induction "b - a" arbitrary: a s)
  case 0
  then show ?case by (auto simp: same_but_events_def)
next
  case (Suc n)
  then have a: "a < b" "a < 8" by auto
  obtain t where t: "for_u8 (\<lambda>j s. Some (emit (Lcd_WriteData (ScrBuf s a (unat j))) s)) x1 x2 (LcdMoveCursorEx (word_of_nat a) x1 s) = Some t" "same_but_events s t"
    "\<And>k j. k < 8 \<Longrightarrow> j < 132 \<Longrightarrow> shown P p0 t k j = (if k = a \<and> unat x1 \<le> j \<and> j \<le> unat x2 then ScrBuf s a j else shown P p0 s k j)"
    using paint_row[OF assms(1) a(2) assms(2,3), of s p0] by blast
  have n: "n = b - Suc a" using Suc.hyps(2) by simp
  obtain u where u: "run_calls (map (\<lambda>i s. for_u8 (\<lambda>j s. Some (emit (Lcd_WriteData (ScrBuf s i (unat j))) s)) x1 x2 (LcdMoveCursorEx (word_of_nat i) x1 s)) [Suc a..<b]) t = Some u"
    "same_but_events t u" "\<forall>k < 8. \<forall>j < 132. shown P p0 u k j = (if Suc a \<le> k \<and> k < b \<and> unat x1 \<le> j \<and> j \<le> unat x2 then ScrBuf s k j else shown P p0 t k j)"
    using Suc.hyps(1)[OF n Suc.prems, of t] unfolding same_but_eventsD(1)[OF t(2)] by (elim exE conjE)
  have l: "[a..<b] = a # [Suc a..<b]" using a(1) by (rule upt_conv_Cons)
  have "shown P p0 u k j = (if a \<le> k \<and> k < b \<and> unat x1 \<le> j \<and> j \<le> unat x2 then ScrBuf s k j else shown P p0 s k j)" if "k < 8" "j < 132" for k j
    using u(3)[rule_format, OF that] t(3)[OF that] a(1) by (cases "k = a") auto
  moreover have "same_but_events s u" using same_but_events_trans[OF t(2) u(2)] .
  moreover have "run_calls (map (\<lambda>i s. for_u8 (\<lambda>j s. Some (emit (Lcd_WriteData (ScrBuf s i (unat j))) s)) x1 x2 (LcdMoveCursorEx (word_of_nat i) x1 s)) [a..<b]) s = Some u"
    unfolding l by (simp add: t(1) u(1))
  ultimately show ?case by blast
qed

lemma paint_shown:
  assumes "panel_ok P"
  obtains t where "LcdPaintScreen x1 y1 x2 y2 s = Some t" "same_but_events s t"
    "\<And>i j. i < 8 \<Longrightarrow> j < 132 \<Longrightarrow> shown P p0 t i j = (if in_bytes x1 y1 x2 y2 i j then ScrBuf s i j else shown P p0 s i j)"
proof -
  define x where "x = (if x2 > SCR_WIDTH - 1 then SCR_WIDTH - 1 else x2)"
  define y where "y = (if y2 > SCR_HEIGHT - 1 then SCR_HEIGHT - 1 else y2)"
  have b: "unat x = min (unat x2) 131" "unat y = min (unat y2) 63" by (auto simp: x_def y_def word_less_nat_alt)
  have p: "LcdPaintScreen x1 y1 x2 y2 s = (if x1 > x \<or> y1 > y then Some s
    else for_u8 (\<lambda>i s. for_u8 (\<lambda>j s. Some (emit (Lcd_WriteData (ScrBuf s (unat i) (unat j))) s)) x1 x (LcdMoveCursorEx i x1 s)) (drop_bit 3 y1) (drop_bit 3 y) s)"
    unfolding LcdPaintScreen_def x_def[symmetric] y_def[symmetric] Let_def ..
  show ?thesis
  proof (cases "x1 > x \<or> y1 > y")
    case True
    have "\<not> in_bytes x1 y1 x2 y2 i j" if "i < 8" "j < 132" for i j
      using True that b by (auto simp: in_bytes_def word_less_nat_alt word_le_nat_alt)
    with True p show ?thesis by (intro that) (auto simp: same_but_events_def)
  next
    case False
    have y8: "unat y div 8 < 8" "Suc (unat y div 8) \<le> 8" using b(2) by auto
    have x: "x1 \<le> x" "x < 132" using False b(1) by (auto simp: word_less_nat_alt word_le_nat_alt)
    obtain t where t: "run_calls (map (\<lambda>i s. for_u8 (\<lambda>j s. Some (emit (Lcd_WriteData (ScrBuf s i (unat j))) s)) x1 x (LcdMoveCursorEx (word_of_nat i) x1 s))
        [unat y1 div 8..<Suc (unat y div 8)]) s = Some t" "same_but_events s t"
      "\<forall>k < 8. \<forall>j < 132. shown P p0 t k j = (if unat y1 div 8 \<le> k \<and> k < Suc (unat y div 8) \<and> unat x1 \<le> j \<and> j \<le> unat x then ScrBuf s k j else shown P p0 s k j)"
      using paint_rows[OF assms x y8(2), of "unat y1 div 8" s p0] by blast
    have "LcdPaintScreen x1 y1 x2 y2 s = Some t"
    proof -
      have "for_u8 (\<lambda>i s. for_u8 (\<lambda>j s. Some (emit (Lcd_WriteData (ScrBuf s (unat i) (unat j))) s)) x1 x (LcdMoveCursorEx i x1 s)) (drop_bit 3 y1) (drop_bit 3 y) s
        = run_calls (map (\<lambda>i s. for_u8 (\<lambda>j s. Some (emit (Lcd_WriteData (ScrBuf s (unat (word_of_nat i :: u8)) (unat j))) s)) x1 x (LcdMoveCursorEx (word_of_nat i) x1 s))
            [unat y1 div 8..<Suc (unat y div 8)]) s"
        using y8 by (subst for_u8_run) (simp_all add: word_less_nat_alt row_in_byte del: upt_Suc)
      also have "\<dots> = Some t" unfolding t(1)[symmetric]
        using y8 by (intro arg_cong2[where f = run_calls] map_cong refl) (auto simp: unat_of_nat_8 row_in_byte)
      finally show ?thesis using p False by simp
    qed
    moreover have "shown P p0 t i j = (if in_bytes x1 y1 x2 y2 i j then ScrBuf s i j else shown P p0 s i j)" if "i < 8" "j < 132" for i j
      using t(3) that b False by (auto simp: in_bytes_def word_less_nat_alt word_le_nat_alt less_Suc_eq_le)
    ultimately show ?thesis using t(2) by (intro that)
  qed
qed

end
