(* ===== verification/App_GdiDraw.thy ===== *)
theory App_GdiDraw
  imports App_GdiPixels
begin

text \<open>What the drawing functions of \<open>App_Gdi\<close> do to the bitmap: the region each changes and the new value of its pixels.\<close>

definition drawn :: "(gdi \<Rightarrow> gdi option) \<Rightarrow> (nat \<Rightarrow> nat \<Rightarrow> bool) \<Rightarrow> (nat \<Rightarrow> nat \<Rightarrow> bool \<Rightarrow> bool) \<Rightarrow> bool" where
  "drawn f P g \<longleftrightarrow> (\<exists>F. f = (\<lambda>s. Some (F s)) \<and> draws F P g)"

lemma drawnE:
  assumes "drawn f P g"
  obtains t where "f s = Some t" "t = s\<lparr>ScrBuf := ScrBuf t\<rparr>" "\<And>a b. pixel t a b = (if P a b then g a b (pixel s a b) else pixel s a b)"
proof -
  from assms obtain F where F: "f = (\<lambda>s. Some (F s))" "draws F P g" by (auto simp: drawn_def)
  show ?thesis by (rule that[of "F s"]) (simp add: F(1), rule drawsD(2)[OF F(2)], rule drawsD(1)[OF F(2)])
qed

lemma drawn_cong: "drawn f P g \<Longrightarrow> (\<And>a b. P a b = P' a b) \<Longrightarrow> (\<And>a b p. P a b \<Longrightarrow> g a b p = g' a b p) \<Longrightarrow> drawn f P' g'"
  unfolding drawn_def using draws_cong by blast

lemma drawnI: "(\<And>s. f s = Some (F s)) \<Longrightarrow> draws F P g \<Longrightarrow> drawn f P g"
  unfolding drawn_def by blast

lemma drawn_Some: "draws F P g \<Longrightarrow> drawn (\<lambda>s. Some (F s)) P g"
  by (rule drawnI) simp_all

lemma drawn_bind:
  assumes "drawn f P g" "drawn f' P' g'" "\<And>a b. P a b \<Longrightarrow> \<not> P' a b"
  shows "drawn (\<lambda>s. f s \<bind> f') (\<lambda>a b. P a b \<or> P' a b) (\<lambda>a b. if P a b then g a b else g' a b)"
proof -
  from assms(1,2) obtain F F' where F: "f = (\<lambda>s. Some (F s))" "draws F P g" "f' = (\<lambda>s. Some (F' s))" "draws F' P' g'" by (auto simp: drawn_def)
  show ?thesis unfolding F(1,3) by (simp add: drawn_Some[OF draws_comp[OF F(2,4) assms(3)]])
qed

lemma drawn_area:
  assumes "x2 < 255" "y2 < 255" "\<And>i j. draws (f i j) (\<lambda>a b. a = unat i \<and> b = unat j \<and> on_screen a b) g"
  shows "drawn (for_u8 (\<lambda>i. for_u8 (\<lambda>j s. Some (f i j s)) y1 y2) x1 x2) (in_rect x1 y1 x2 y2) g"
  by (rule drawnI[OF for_u8_area[OF assms(1,2)] draws_area[OF assms(3)]])

text \<open>A line: a loop over the pixels of one column, or of one row.\<close>

lemma drawn_column:
  assumes "y2 < 255" "\<And>j. draws (f j) (\<lambda>a b. a = unat x \<and> b = unat j \<and> on_screen a b) g"
  shows "drawn (for_u8 (\<lambda>j s. Some (f j s)) y1 y2) (in_rect x y1 x y2) g"
proof -
  have "draws (fold (\<lambda>j. f (word_of_nat j)) [unat y1..<Suc (unat y2)]) (\<lambda>a b. \<exists>j \<in> set [unat y1..<Suc (unat y2)]. a = unat x \<and> b = j \<and> on_screen a b) g"
  proof (rule draws_fold[where P = "\<lambda>j a b. a = unat x \<and> b = j \<and> on_screen a b"])
    show "draws (f (word_of_nat j)) (\<lambda>a b. a = unat x \<and> b = j \<and> on_screen a b) g" if "j \<in> set [unat y1..<Suc (unat y2)]" for j
    proof -
      have "unat (word_of_nat j :: u8) = j" using that unat_8_le[of y2] by (intro unat_of_nat_8) auto
      then show ?thesis using assms(2)[of "word_of_nat j"] by (simp only:)
    qed
  qed auto
  then have "draws (fold (\<lambda>j. f (word_of_nat j)) [unat y1..<Suc (unat y2)]) (in_rect x y1 x y2) g"
    by (rule draws_cong) (auto simp: in_rect_def)
  then show ?thesis by (rule drawnI[OF for_u8_fold[OF assms(1)]])
qed

lemma drawn_row:
  assumes "x2 < 255" "\<And>i. draws (f i) (\<lambda>a b. a = unat i \<and> b = unat y \<and> on_screen a b) g"
  shows "drawn (for_u8 (\<lambda>i s. Some (f i s)) x1 x2) (in_rect x1 y x2 y) g"
proof -
  have "draws (fold (\<lambda>i. f (word_of_nat i)) [unat x1..<Suc (unat x2)]) (\<lambda>a b. \<exists>i \<in> set [unat x1..<Suc (unat x2)]. a = i \<and> b = unat y \<and> on_screen a b) g"
  proof (rule draws_fold[where P = "\<lambda>i a b. a = i \<and> b = unat y \<and> on_screen a b"])
    show "draws (f (word_of_nat i)) (\<lambda>a b. a = i \<and> b = unat y \<and> on_screen a b) g" if "i \<in> set [unat x1..<Suc (unat x2)]" for i
    proof -
      have "unat (word_of_nat i :: u8) = i" using that unat_8_le[of x2] by (intro unat_of_nat_8) auto
      then show ?thesis using assms(2)[of "word_of_nat i"] by (simp only:)
    qed
  qed auto
  then have "draws (fold (\<lambda>i. f (word_of_nat i)) [unat x1..<Suc (unat x2)]) (in_rect x1 y x2 y) g"
    by (rule draws_cong) (auto simp: in_rect_def)
  then show ?thesis by (rule drawnI[OF for_u8_fold[OF assms(1)]])
qed

subsection \<open>Areas and lines\<close>

lemma fill_drawn: "x2 < 255 \<Longrightarrow> y2 < 255 \<Longrightarrow> drawn (FillArea x1 y1 x2 y2 c) (in_rect x1 y1 x2 y2) (\<lambda>_ _ _. c \<noteq> 0)"
  unfolding FillArea_def by (rule drawn_area) (assumption, assumption, rule draws_set)

lemma reverse_drawn: "x2 < 255 \<Longrightarrow> y2 < 255 \<Longrightarrow> drawn (ReverseBar x1 y1 x2 y2) (in_rect x1 y1 x2 y2) (\<lambda>_ _ p. \<not> p)"
  unfolding ReverseBar_def by (rule drawn_area) (assumption, assumption, rule draws_flip)

text \<open>The pixels of a line: \<open>k\<close> the coordinate along the line, \<open>from\<close> where it starts.\<close>

definition line_pixel :: "u8 \<Rightarrow> u8 \<Rightarrow> nat \<Rightarrow> bool \<Rightarrow> bool" where
  "line_pixel mode from k p = (if mode AND 0x0F \<noteq> 0 then \<not> p else if mode AND 0xf0 \<noteq> 0 then odd k \<or> k = unat from else True)"

lemma odd_byte: "(i :: u8) mod 2 \<noteq> 0 \<longleftrightarrow> odd (unat i)"
  by (simp add: word_unat_eq_iff unat_mod odd_iff_mod_2_eq_one)

lemma draws_dash:
  fixes i "from" :: u8
  shows
  "draws (LcdSetPixel x y (if i mod 2 \<noteq> 0 \<or> i = from then 1 else 0)) (\<lambda>a b. a = unat x \<and> b = unat y \<and> on_screen a b) (\<lambda>_ _ _. odd (unat i) \<or> unat i = unat from)"
proof -
  have "i mod 2 \<noteq> 0 \<or> i = from \<longleftrightarrow> odd (unat i) \<or> unat i = unat from" using word_unat_eq_iff[of i "from"] by (simp only: odd_byte)
  then show ?thesis by (simp only:) (rule draws_cong[OF draws_set], simp_all)
qed

lemma ver_line_drawn:
  assumes "y2 < 255"
  shows "drawn (DrawVerLine x y1 y2 mode) (in_rect x y1 x y2) (\<lambda>a b. line_pixel mode y1 b)"
proof -
  have "draws (LcdSetPixel x i (if i mod 2 \<noteq> 0 \<or> i = y1 then 1 else 0)) (\<lambda>a b. a = unat x \<and> b = unat i \<and> on_screen a b) (\<lambda>_ b _. odd b \<or> b = unat y1)" for i
    by (rule draws_cong[OF draws_dash]) auto
  then have dash: "drawn (for_u8 (\<lambda>i s. Some (LcdSetPixel x i (if i mod 2 \<noteq> 0 \<or> i = y1 then 1 else 0) s)) y1 y2) (in_rect x y1 x y2) (\<lambda>_ b _. odd b \<or> b = unat y1)"
    by (rule drawn_column[OF assms])
  have flip: "drawn (for_u8 (\<lambda>i s. Some (flip_pixel x i s)) y1 y2) (in_rect x y1 x y2) (\<lambda>_ _ p. \<not> p)"
    by (rule drawn_column[OF assms]) (rule draws_flip)
  have solid: "drawn (for_u8 (\<lambda>i s. Some (LcdSetPixel x i 1 s)) y1 y2) (in_rect x y1 x y2) (\<lambda>_ _ _. (1 :: u8) \<noteq> 0)"
    by (rule drawn_column[OF assms]) (rule draws_set)
  show ?thesis
  proof (cases "mode AND 0x0F \<noteq> 0")
    case True
    have "drawn (DrawVerLine x y1 y2 mode) R (\<lambda>a b. line_pixel mode y1 b)" if "drawn (DrawVerLine x y1 y2 mode) R (\<lambda>_ _ p. \<not> p)" for R
      using that by (rule drawn_cong) (simp_all only: line_pixel_def True if_True not_False_eq_True)
    then show ?thesis using flip by (simp only: DrawVerLine_def True if_True not_False_eq_True)
  next
    case fl: False
    show ?thesis
    proof (cases "mode AND 0xf0 \<noteq> 0")
      case True
      have "drawn (DrawVerLine x y1 y2 mode) R (\<lambda>a b. line_pixel mode y1 b)" if "drawn (DrawVerLine x y1 y2 mode) R (\<lambda>_ b _. odd b \<or> b = unat y1)" for R
        using that by (rule drawn_cong) (simp_all only: line_pixel_def fl True if_True if_False not_False_eq_True)
      then show ?thesis using dash by (simp only: DrawVerLine_def fl True if_True if_False not_False_eq_True)
    next
      case False
      have "drawn (DrawVerLine x y1 y2 mode) R (\<lambda>a b. line_pixel mode y1 b)" if "drawn (DrawVerLine x y1 y2 mode) R (\<lambda>_ _ _. (1 :: u8) \<noteq> 0)" for R
        using that by (rule drawn_cong) (simp_all only: line_pixel_def fl False if_False one_neq_zero not_False_eq_True)
      then show ?thesis using solid by (simp only: DrawVerLine_def fl False if_False)
    qed
  qed
qed

lemma hor_line_drawn:
  assumes "x2 < 255"
  shows "drawn (DrawHorLine x1 x2 y mode) (in_rect x1 y x2 y) (\<lambda>a b. line_pixel mode x1 a)"
proof -
  have "draws (LcdSetPixel i y (if i mod 2 \<noteq> 0 \<or> i = x1 then 1 else 0)) (\<lambda>a b. a = unat i \<and> b = unat y \<and> on_screen a b) (\<lambda>a _ _. odd a \<or> a = unat x1)" for i
    by (rule draws_cong[OF draws_dash]) auto
  then have dash: "drawn (for_u8 (\<lambda>i s. Some (LcdSetPixel i y (if i mod 2 \<noteq> 0 \<or> i = x1 then 1 else 0) s)) x1 x2) (in_rect x1 y x2 y) (\<lambda>a _ _. odd a \<or> a = unat x1)"
    by (rule drawn_row[OF assms])
  have flip: "drawn (for_u8 (\<lambda>i s. Some (flip_pixel i y s)) x1 x2) (in_rect x1 y x2 y) (\<lambda>_ _ p. \<not> p)"
    by (rule drawn_row[OF assms]) (rule draws_flip)
  have solid: "drawn (for_u8 (\<lambda>i s. Some (LcdSetPixel i y 1 s)) x1 x2) (in_rect x1 y x2 y) (\<lambda>_ _ _. (1 :: u8) \<noteq> 0)"
    by (rule drawn_row[OF assms]) (rule draws_set)
  show ?thesis
  proof (cases "mode AND 0x0F \<noteq> 0")
    case True
    have "drawn (DrawHorLine x1 x2 y mode) R (\<lambda>a b. line_pixel mode x1 a)" if "drawn (DrawHorLine x1 x2 y mode) R (\<lambda>_ _ p. \<not> p)" for R
      using that by (rule drawn_cong) (simp_all only: line_pixel_def True if_True not_False_eq_True)
    then show ?thesis using flip by (simp only: DrawHorLine_def True if_True not_False_eq_True)
  next
    case fl: False
    show ?thesis
    proof (cases "mode AND 0xf0 \<noteq> 0")
      case True
      have "drawn (DrawHorLine x1 x2 y mode) R (\<lambda>a b. line_pixel mode x1 a)" if "drawn (DrawHorLine x1 x2 y mode) R (\<lambda>a _ _. odd a \<or> a = unat x1)" for R
        using that by (rule drawn_cong) (simp_all only: line_pixel_def fl True if_True if_False not_False_eq_True)
      then show ?thesis using dash by (simp only: DrawHorLine_def fl True if_True if_False not_False_eq_True)
    next
      case False
      have "drawn (DrawHorLine x1 x2 y mode) R (\<lambda>a b. line_pixel mode x1 a)" if "drawn (DrawHorLine x1 x2 y mode) R (\<lambda>_ _ _. (1 :: u8) \<noteq> 0)" for R
        using that by (rule drawn_cong) (simp_all only: line_pixel_def fl False if_False one_neq_zero not_False_eq_True)
      then show ?thesis using solid by (simp only: DrawHorLine_def fl False if_False)
    qed
  qed
qed

subsection \<open>The frame of a rectangle\<close>

text \<open>\<open>DrawRect\<close> clips the lower right corner to the screen; the frame is that of the clipped rectangle, every pixel once.\<close>

definition clip_x :: "u8 \<Rightarrow> u8" where
  "clip_x x = (if x > SCR_WIDTH - 1 then SCR_WIDTH - 1 else x)"

definition clip_y :: "u8 \<Rightarrow> u8" where
  "clip_y y = (if y > SCR_HEIGHT - 1 then SCR_HEIGHT - 1 else y)"

lemma clip_unat: "unat (clip_x x) = min (unat x) 131" "unat (clip_y y) = min (unat y) 63"
  by (auto simp: clip_x_def clip_y_def word_less_nat_alt)

lemma clip_less: "clip_x x < 255" "clip_y y < 255"
  using clip_unat(1)[of x] clip_unat(2)[of y] by (auto simp: word_less_nat_alt)

definition in_frame :: "u8 \<Rightarrow> u8 \<Rightarrow> u8 \<Rightarrow> u8 \<Rightarrow> nat \<Rightarrow> nat \<Rightarrow> bool" where
  "in_frame x1 y1 x2 y2 a b \<longleftrightarrow> in_rect x1 y1 x2 y2 a b
     \<and> (a = unat x1 \<or> a = min (unat x2) 131 \<or> b = unat y1 \<or> b = min (unat y2) 63)"

definition frame_pixel :: "u8 \<Rightarrow> u8 \<Rightarrow> u8 \<Rightarrow> u8 \<Rightarrow> u8 \<Rightarrow> nat \<Rightarrow> nat \<Rightarrow> bool \<Rightarrow> bool" where
  "frame_pixel mode x1 y1 x2 y2 a b =
     (if unat x1 = min (unat x2) 131 then line_pixel mode y1 b
      else if b = unat y1 \<or> b = min (unat y2) 63 then line_pixel mode x1 a
      else line_pixel mode (y1 + 1) b)"

lemma DrawRect_clipped:
  "DrawRect x1 y1 x2 y2 mode s =
     (if x1 > clip_x x2 \<or> y1 > clip_y y2 then Some s
      else if x1 = clip_x x2 then DrawVerLine x1 y1 (clip_y y2) mode s
      else DrawHorLine x1 (clip_x x2) y1 mode s \<bind> (\<lambda>s1.
        if y1 = clip_y y2 then Some s1
        else DrawHorLine x1 (clip_x x2) (clip_y y2) mode s1 \<bind> (\<lambda>s2.
          if uint (clip_y y2) - 1 \<ge> uint y1 + 1
          then DrawVerLine x1 (y1 + 1) (clip_y y2 - 1) mode s2 \<bind> DrawVerLine (clip_x x2) (y1 + 1) (clip_y y2 - 1) mode
          else Some s2)))"
  unfolding DrawRect_def clip_x_def[symmetric] clip_y_def[symmetric] Let_def ..

lemma inner_rows:
  fixes y1 y :: u8
  assumes "unat y1 + 2 \<le> unat y" "unat y \<le> 63"
  shows "unat (y1 + 1) = unat y1 + 1" "unat (y - 1) = unat y - 1" "y - 1 < 255"
proof -
  show "unat (y1 + 1) = unat y1 + 1" using assms by (simp add: unat_word_ariths)
  have "1 \<le> y" using assms by (simp add: word_le_nat_alt)
  then show "unat (y - 1) = unat y - 1" by (simp add: unat_sub)
  then show "y - 1 < 255" using assms by (simp add: word_less_nat_alt)
qed

lemma frame_split:
  fixes a b p q r t :: nat
  assumes "p < r" "q + 2 \<le> t"
  shows "((p \<le> a \<and> a \<le> r \<and> q \<le> b \<and> b \<le> q) \<or> (p \<le> a \<and> a \<le> r \<and> t \<le> b \<and> b \<le> t))
      \<or> (p \<le> a \<and> a \<le> p \<and> q + 1 \<le> b \<and> b \<le> t - 1) \<or> (r \<le> a \<and> a \<le> r \<and> q + 1 \<le> b \<and> b \<le> t - 1)
    \<longleftrightarrow> p \<le> a \<and> a \<le> r \<and> q \<le> b \<and> b \<le> t \<and> (a = p \<or> a = r \<or> b = q \<or> b = t)"
  using assms by presburger

lemma rect_drawn: "drawn (DrawRect x1 y1 x2 y2 mode) (in_frame x1 y1 x2 y2) (frame_pixel mode x1 y1 x2 y2)"
proof -
  define x y where "x = clip_x x2" and "y = clip_y y2"
  note clip = clip_unat(1)[of x2, folded x_def] clip_unat(2)[of y2, folded y_def] clip_less(1)[of x2, folded x_def] clip_less(2)[of y2, folded y_def]
  note D = DrawRect_clipped[of x1 y1 x2 y2 mode, folded x_def y_def]
  have R: "in_frame x1 y1 x2 y2 a b \<longleftrightarrow> in_rect x1 y1 x y a b \<and> (a = unat x1 \<or> a = unat x \<or> b = unat y1 \<or> b = unat y)" for a b
    by (auto simp: in_frame_def in_rect_def on_screen_def clip)
  note G = frame_pixel_def clip(1,2)[symmetric]
  show ?thesis
  proof (cases "x1 > x \<or> y1 > y")
    case True
    have "\<not> in_frame x1 y1 x2 y2 a b" for a b
      using True by (auto simp: R in_rect_def word_less_nat_alt)
    moreover have "DrawRect x1 y1 x2 y2 mode = Some" using True D by (simp add: fun_eq_iff)
    ultimately show ?thesis
      using drawn_cong[OF drawn_Some[OF draws_id], of "in_frame x1 y1 x2 y2" "\<lambda>_ _ p. p" "frame_pixel mode x1 y1 x2 y2"] by simp
  next
    case ne: False
    show ?thesis
    proof (cases "x1 = x")
      case True
      then have d: "DrawRect x1 y1 x2 y2 mode = DrawVerLine x1 y1 y mode" using ne D by (simp add: fun_eq_iff)
      have xu: "unat x1 = unat x" using True by simp
      show ?thesis unfolding d
        by (rule drawn_cong[OF ver_line_drawn[OF clip(4)]]) (use xu in \<open>auto simp: R G in_rect_def\<close>)
    next
      case x: False
      then have xu: "unat x1 \<noteq> unat x" "unat x1 < unat x" using ne by (auto simp: word_unat_eq_iff word_less_nat_alt)
      note top = hor_line_drawn[OF clip(3), of x1 y1 mode]
      show ?thesis
      proof (cases "y1 = y")
        case True
        then have d: "DrawRect x1 y1 x2 y2 mode = DrawHorLine x1 x y1 mode" using ne x D by (simp add: fun_eq_iff)
        have yu: "unat y1 = unat y" using True by simp
        show ?thesis unfolding d
          by (rule drawn_cong[OF top]) (use yu xu in \<open>auto simp: R G in_rect_def\<close>)
      next
        case y: False
        then have yu: "unat y1 \<noteq> unat y" "unat y1 < unat y" using ne by (auto simp: word_unat_eq_iff word_less_nat_alt)
        note bottom = hor_line_drawn[OF clip(3), of x1 y mode]
        have tb: "drawn (\<lambda>s. DrawHorLine x1 x y1 mode s \<bind> DrawHorLine x1 x y mode)
            (\<lambda>a b. in_rect x1 y1 x y1 a b \<or> in_rect x1 y x y a b) (\<lambda>a b. line_pixel mode x1 a)"
          by (rule drawn_cong[OF drawn_bind[OF top bottom]]) (use yu in \<open>auto simp: in_rect_def\<close>)
        show ?thesis
        proof (cases "uint y - 1 \<ge> uint y1 + 1")
          case True
          then have "int (unat y) - 1 \<ge> int (unat y1) + 1" by (simp only: uint_nat)
          then have l: "unat y1 + 2 \<le> unat y" by linarith
          have c: "unat y \<le> 63" using clip(2) by simp
          note y2 = inner_rows(1,2)[OF l c] l inner_rows(3)[OF l c]
          note sides = drawn_bind[OF ver_line_drawn[OF y2(4), of x1 "y1 + 1" mode] ver_line_drawn[OF y2(4), of x "y1 + 1" mode]]
          have all: "drawn (\<lambda>s. (DrawHorLine x1 x y1 mode s \<bind> DrawHorLine x1 x y mode)
               \<bind> (\<lambda>s. DrawVerLine x1 (y1 + 1) (y - 1) mode s \<bind> DrawVerLine x (y1 + 1) (y - 1) mode))
             (\<lambda>a b. (in_rect x1 y1 x y1 a b \<or> in_rect x1 y x y a b) \<or> in_rect x1 (y1 + 1) x1 (y - 1) a b \<or> in_rect x (y1 + 1) x (y - 1) a b)
             (\<lambda>a b. if in_rect x1 y1 x y1 a b \<or> in_rect x1 y x y a b then line_pixel mode x1 a else
               if in_rect x1 (y1 + 1) x1 (y - 1) a b then line_pixel mode (y1 + 1) b else line_pixel mode (y1 + 1) b)"
            by (rule drawn_bind[OF tb sides]) (use xu yu y2 in \<open>auto simp: in_rect_def\<close>)
          have "DrawRect x1 y1 x2 y2 mode = (\<lambda>s. (DrawHorLine x1 x y1 mode s \<bind> DrawHorLine x1 x y mode)
               \<bind> (\<lambda>s. DrawVerLine x1 (y1 + 1) (y - 1) mode s \<bind> DrawVerLine x (y1 + 1) (y - 1) mode))"
            using D ne x y True by (simp add: fun_eq_iff)
          moreover have "(in_rect x1 y1 x y1 a b \<or> in_rect x1 y x y a b) \<or> in_rect x1 (y1 + 1) x1 (y - 1) a b \<or> in_rect x (y1 + 1) x (y - 1) a b
              \<longleftrightarrow> in_frame x1 y1 x2 y2 a b" for a b
            using frame_split[OF xu(2) l, of a b] unfolding R in_rect_def y2(1,2) by blast
          moreover have "in_rect x1 y1 x y1 a b \<or> in_rect x1 y x y a b \<longleftrightarrow> b = unat y1 \<or> b = unat y" if "in_frame x1 y1 x2 y2 a b" for a b
            using that yu by (auto simp: R in_rect_def)
          ultimately show ?thesis
            by (simp only:) (rule drawn_cong[OF all], simp, use xu in \<open>simp add: G\<close>)
        next
          case False
          then have "\<not> int (unat y) - 1 \<ge> int (unat y1) + 1" by (simp only: uint_nat not_False_eq_True)
          then have yu1: "unat y = unat y1 + 1" using yu by linarith
          have "DrawRect x1 y1 x2 y2 mode = (\<lambda>s. DrawHorLine x1 x y1 mode s \<bind> DrawHorLine x1 x y mode)"
            using D ne x y False by (simp add: fun_eq_iff)
          then show ?thesis
            by (simp only:) (rule drawn_cong[OF tb], (use xu yu1 in \<open>auto simp: R G in_rect_def\<close>))
        qed
      qed
    qed
  qed
qed

end
