(* ===== verification/App_GdiSync.thy ===== *)
theory App_GdiSync
  imports App_GdiPanel App_GdiDraw
begin

text \<open>
  Calls of the drawing functions keep the panel equal to the buffer: every function paints an area that holds all the pixels
  it draws.
\<close>

subsection \<open>What a call may change\<close>

definition inside :: "gdi \<Rightarrow> gdi \<Rightarrow> (nat \<Rightarrow> nat \<Rightarrow> bool) \<Rightarrow> bool" where
  "inside s t R \<longleftrightarrow> t = s\<lparr>ScrBuf := ScrBuf t\<rparr> \<and> (\<forall>a b. \<not> (R a b \<and> on_screen a b) \<longrightarrow> pixel t a b = pixel s a b)"

lemma inside_refl: "inside s s R"
  by (simp add: inside_def)

lemma inside_trans: "inside s t R \<Longrightarrow> inside t u R \<Longrightarrow> inside s u R"
  by (cases s; cases t; cases u) (simp add: inside_def)

lemma inside_mono: "inside s t R \<Longrightarrow> (\<And>a b. R a b \<Longrightarrow> on_screen a b \<Longrightarrow> R' a b) \<Longrightarrow> inside s t R'"
  unfolding inside_def by blast

lemma inside_set_pixel: "(on_screen (unat x) (unat y) \<Longrightarrow> R (unat x) (unat y)) \<Longrightarrow> inside s (LcdSetPixel x y c s) R"
  unfolding inside_def using set_pixel_frame[of x y c s] by (auto simp: pixel_set)

lemma inside_drawn: "drawn f P g \<Longrightarrow> f s = Some t \<Longrightarrow> (\<And>a b. P a b \<Longrightarrow> on_screen a b \<and> R a b) \<Longrightarrow> inside s t R"
  unfolding inside_def by (erule drawnE[where s = s]) auto

lemma inside_fold: "(\<And>i s. i \<in> set xs \<Longrightarrow> inside s (F i s) R) \<Longrightarrow> inside s (fold F xs s) R"
proof (induction xs arbitrary: s)
  case (Cons i xs)
  have "inside s (F i s) R" using Cons.prems by simp
  moreover have "inside (F i s) (fold F xs (F i s)) R" using Cons by simp
  ultimately show ?case using inside_trans by auto
qed (simp add: inside_refl)

lemma inside_below: "(\<And>i s. i < unat n \<Longrightarrow> inside s (body (word_of_nat i) s) R) \<Longrightarrow> inside s (for_below body n s) R"
  unfolding for_below_def by (rule inside_fold) simp

subsection \<open>What the panel lags behind\<close>

definition fresh_but :: "'p panel \<Rightarrow> 'p \<Rightarrow> gdi \<Rightarrow> (nat \<Rightarrow> nat \<Rightarrow> bool) \<Rightarrow> bool" where
  "fresh_but P p0 s B \<longleftrightarrow> (\<forall>i < 8. \<forall>j < 132. \<not> B i j \<longrightarrow> shown P p0 s i j = ScrBuf s i j)"

lemma in_sync_fresh: "in_sync P p0 s \<longleftrightarrow> fresh_but P p0 s (\<lambda>_ _. False)"
  by (simp add: in_sync_def fresh_but_def)

lemma byte_by_pixels:
  assumes "\<And>n. n < 8 \<Longrightarrow> pixel t j (8 * i + n) = pixel s j (8 * i + n)"
  shows "ScrBuf t i j = ScrBuf s i j"
proof (rule bit_word_eqI)
  fix n assume "n < LENGTH(8)"
  then show "bit (ScrBuf t i j) n = bit (ScrBuf s i j) n" using assms[of n] by (simp add: pixel_def)
qed

lemma inside_fresh:
  assumes "in_sync P p0 s" "inside s t R" "\<And>a b. on_screen a b \<Longrightarrow> R a b \<Longrightarrow> B (b div 8) a"
  shows "fresh_but P p0 t B"
  unfolding fresh_but_def
proof (intro allI impI)
  fix i j :: nat assume ij: "i < 8" "j < 132" "\<not> B i j"
  have "pixel t j (8 * i + n) = pixel s j (8 * i + n)" if "n < 8" for n
    using assms(2) assms(3)[of j "8 * i + n"] ij(3) that by (auto simp: inside_def)
  then have "ScrBuf t i j = ScrBuf s i j" by (rule byte_by_pixels)
  moreover have "events t = events s" using assms(2) by (cases s; cases t) (simp add: inside_def)
  ultimately show "shown P p0 t i j = ScrBuf t i j" using assms(1) ij by (simp add: in_sync_def shown_def)
qed

lemma paint_fresh:
  assumes "panel_ok P" "fresh_but P p0 s B" "LcdPaintScreen x1 y1 x2 y2 s = Some t"
  shows "fresh_but P p0 t (\<lambda>i j. B i j \<and> \<not> in_bytes x1 y1 x2 y2 i j)"
proof -
  obtain u where u: "LcdPaintScreen x1 y1 x2 y2 s = Some u" "same_but_events s u"
    "\<And>i j. i < 8 \<Longrightarrow> j < 132 \<Longrightarrow> shown P p0 u i j = (if in_bytes x1 y1 x2 y2 i j then ScrBuf s i j else shown P p0 s i j)"
    by (rule paint_shown[OF assms(1), of x1 y1 x2 y2 s p0]) blast
  with assms(3) have "u = t" by simp
  with u show ?thesis using assms(2) same_but_eventsD(1)[OF u(2)] by (auto simp: fresh_but_def)
qed

lemma fresh_in_sync: "fresh_but P p0 s B \<Longrightarrow> (\<And>i j. i < 8 \<Longrightarrow> j < 132 \<Longrightarrow> \<not> B i j) \<Longrightarrow> in_sync P p0 s"
  by (auto simp: fresh_but_def in_sync_def)

lemma paint_returns: "\<exists>t. LcdPaintScreen x1 y1 x2 y2 s = Some t"
proof (cases "x1 > clip_x x2 \<or> y1 > clip_y y2")
  case True
  then show ?thesis unfolding LcdPaintScreen_def clip_x_def[symmetric] clip_y_def[symmetric] Let_def by simp
next
  case False
  have x: "clip_x x2 < 255" by (rule clip_less)
  have y: "drop_bit 3 (clip_y y2) < 255" using clip_unat(2)[of y2] by (simp add: word_less_nat_alt row_in_byte)
  show ?thesis using False
    unfolding LcdPaintScreen_def clip_x_def[symmetric] clip_y_def[symmetric] Let_def
    by (simp only: if_False) (intro for_u8_returns x y, simp)
qed

text \<open>A function that draws and then paints an area that holds what it drew.\<close>

lemma show_in_sync:
  assumes "panel_ok P" "in_sync P p0 s" "inside s t R" "LcdPaintScreen x1 y1 x2 y2 t = Some u"
    "\<And>a b. on_screen a b \<Longrightarrow> R a b \<Longrightarrow> in_bytes x1 y1 x2 y2 (b div 8) a"
  shows "in_sync P p0 u"
  using paint_fresh[OF assms(1) inside_fresh[OF assms(2,3), where B = "in_bytes x1 y1 x2 y2"] assms(4)] assms(5)
  by (auto intro: fresh_in_sync)

lemma rect_bytes: "in_rect x1 y1 x2 y2 a b \<Longrightarrow> in_bytes x1 y1 x2 y2 (b div 8) a"
  by (auto simp: in_rect_def in_bytes_def word_le_nat_alt div_le_mono)

end
