(* ===== verification/App_GdiText.thy ===== *)
theory App_GdiText
  imports App_GdiSync
begin

text \<open>Text: the place of every character, and the area \<open>DrawStr\<close> paints for it.\<close>

subsection \<open>Characters\<close>

definition in_cell :: "nat \<Rightarrow> nat \<Rightarrow> nat \<Rightarrow> nat \<Rightarrow> nat \<Rightarrow> nat \<Rightarrow> bool" where
  "in_cell x y w h a b \<longleftrightarrow> x \<le> a \<and> a < x + w \<and> y \<le> b \<and> b < y + h"

lemma inside_show_bit: "(on_screen (unat x) (unat y) \<Longrightarrow> R (unat x) (unat y)) \<Longrightarrow> inside s (show_bit x y v k mode s) R"
  unfolding show_bit_def Let_def by (rule inside_set_pixel)

lemma unat_plus: "unat x + n < 256 \<Longrightarrow> unat (x + word_of_nat n :: u8) = unat x + n"
  by (simp add: unat_word_ariths unat_of_nat)

lemma cell_pixel:
  assumes "unat x + w \<le> 256" "unat y + h \<le> 256" "i < h" "j < w"
  shows "in_cell (unat x) (unat y) w h (unat (x + word_of_nat j :: u8)) (unat (y + word_of_nat i :: u8))"
  using assms unat_plus[of x j] unat_plus[of y i] by (simp add: in_cell_def)

lemma inside_DrawPic:
  assumes "unat x + unat width \<le> 256" "unat y + unat height \<le> 256"
  shows "inside s (DrawPic x y width height pic mode s) (in_cell (unat x) (unat y) (unat width) (unat height))"
  unfolding DrawPic_def Let_def
  by (intro inside_below inside_show_bit cell_pixel assms) simp_all

lemma inside_DrawChar:
  assumes "unat x + (if hi = 0 then 8 else 16) \<le> 256" "unat y + 16 \<le> 256"
  shows "inside s (DrawChar flash x y hi lo mode s) (in_cell (unat x) (unat y) (if hi = 0 then 8 else 16) 16)"
proof (cases "hi = 0")
  case True
  then show ?thesis using assms unfolding DrawChar_def Let_def
    by (simp only: if_True simp_thms) (intro inside_below inside_show_bit cell_pixel, simp_all)
next
  case False
  then show ?thesis using assms unfolding DrawChar_def Let_def
    by (simp only: if_False) (intro inside_below inside_show_bit cell_pixel, simp_all)
qed

subsection \<open>Lines of text\<close>

text \<open>A text that does not end within a character of two bytes.\<close>

fun whole_text :: "u8 list \<Rightarrow> bool" where
  "whole_text [] = True"
| "whole_text (c # cs) = (if c > 0x80 then (case cs of [] \<Rightarrow> False | _ # cs' \<Rightarrow> whole_text cs') else whole_text cs)"

text \<open>The rows from \<open>y\<close> to the lower end \<open>w\<close> of the last line; the columns of the text where it fits into one line.\<close>

definition text_area :: "nat \<Rightarrow> nat \<Rightarrow> nat \<Rightarrow> nat \<Rightarrow> nat \<Rightarrow> nat \<Rightarrow> bool" where
  "text_area x y L w a b \<longleftrightarrow> y \<le> b \<and> b < w \<and> (x + 8 * L < 132 \<longrightarrow> x \<le> a \<and> a < x + 8 * L)"

definition text_at :: "nat \<Rightarrow> nat \<Rightarrow> nat \<Rightarrow> draw_pos \<Rightarrow> bool" where
  "text_at x y L d \<longleftrightarrow> unat (dp_width d) = unat (dp_yy d) + 16 \<and> y \<le> unat (dp_yy d) \<and> unat (dp_yy d) < 64
     \<and> unat (dp_tmp d) \<le> L \<and> L \<le> 1000 \<and> (x + 8 * L < 132 \<longrightarrow> unat (dp_xx d) = x + 8 * unat (dp_tmp d))"

text \<open>The place of the next character of \<open>w\<close> columns, \<open>w div 8\<close> bytes.\<close>

lemma next_line_at:
  assumes "text_at x y L d" "w = 8 \<or> w = 16" "unat (dp_tmp d) + nat w div 8 \<le> L" "next_line w d = (d', full)"
  shows "full \<longrightarrow> unat (dp_width d') = 64" "dp_tmp d' = dp_tmp d"
    "\<not> full \<longrightarrow> text_at x y L d' \<and> unat (dp_width d) \<le> unat (dp_width d') \<and> unat (dp_xx d') + nat w \<le> 132"
proof -
  have yw: "unat (dp_yy d + 16) = unat (dp_yy d) + 16" "unat (dp_width d + 16) = unat (dp_width d) + 16"
    using assms(1) by (simp_all add: text_at_def unat_word_ariths)
  have fit: "unat (dp_xx d) + nat w \<le> 131" if "x + 8 * L < 132"
  proof -
    have "8 * (unat (dp_tmp d) + nat w div 8) \<le> 8 * L" using assms(3) by simp
    then show ?thesis using assms(1,2) that by (auto simp: text_at_def)
  qed
  show "full \<longrightarrow> unat (dp_width d') = 64" "dp_tmp d' = dp_tmp d"
    using assms(4) by (auto simp: next_line_def Let_def split: if_splits)
  show "\<not> full \<longrightarrow> text_at x y L d' \<and> unat (dp_width d) \<le> unat (dp_width d') \<and> unat (dp_xx d') + nat w \<le> 132"
  proof (cases "uint (dp_xx d) + w > 131")
    case True
    then have "\<not> unat (dp_xx d) + nat w \<le> 131" using assms(2) unfolding uint_nat by linarith
    with fit have n: "\<not> x + 8 * L < 132" by blast
    show ?thesis
    proof
      assume f: "\<not> full"
      have d: "dp_xx d' = 0" "dp_yy d' = dp_yy d + 16" "dp_width d' = dp_width d + 16" "dp_tmp d' = dp_tmp d" "\<not> 64 < dp_width d + 16"
        using True f assms(4) by (auto simp: next_line_def Let_def split: if_splits)
      from d(5) have "unat (dp_width d) + 16 \<le> 64" using yw(2) by (simp add: word_less_nat_alt)
      moreover have "unat (dp_yy d') = unat (dp_yy d) + 16" "unat (dp_width d') = unat (dp_width d) + 16" unfolding d by (rule yw)+
      ultimately show "text_at x y L d' \<and> unat (dp_width d) \<le> unat (dp_width d') \<and> unat (dp_xx d') + nat w \<le> 132"
        using assms(1,2) n d(1,4) by (auto simp: text_at_def)
    qed
  next
    case False
    then have "unat (dp_xx d) + nat w \<le> 131" using assms(2) unfolding uint_nat by linarith
    with False show ?thesis using assms(1,4) by (auto simp: next_line_def)
  qed
qed

lemma char_step:
  assumes "text_at x y L d" "unat (dp_xx d) + 8 * n \<le> 132" "unat (dp_tmp d) + n \<le> L"
  shows "text_at x y L (d\<lparr>dp_xx := dp_xx d + word_of_nat (8 * n), dp_tmp := dp_tmp d + word_of_nat n\<rparr>)"
    "unat (dp_tmp d + word_of_nat n) = unat (dp_tmp d) + n"
proof -
  have "L \<le> 1000" using assms(1) by (simp add: text_at_def)
  then show t: "unat (dp_tmp d + word_of_nat n) = unat (dp_tmp d) + n" using assms(3) by (simp add: unat_word_ariths unat_of_nat)
  have "unat (dp_xx d + word_of_nat (8 * n)) = unat (dp_xx d) + 8 * n" using assms(2) by (intro unat_plus) simp
  then show "text_at x y L (d\<lparr>dp_xx := dp_xx d + word_of_nat (8 * n), dp_tmp := dp_tmp d + word_of_nat n\<rparr>)"
    using assms t by (simp add: text_at_def)
qed

lemma char_inside:
  assumes "text_at x y L d" "n = (if hi = 0 then 1 else 2)" "unat (dp_xx d) + 8 * n \<le> 132" "unat (dp_tmp d) + n \<le> L" "min 64 (unat (dp_width d)) \<le> W"
  shows "inside s (DrawChar flash (dp_xx d) (dp_yy d) hi lo mode s) (text_area x y L W)"
proof -
  have "inside s (DrawChar flash (dp_xx d) (dp_yy d) hi lo mode s) (in_cell (unat (dp_xx d)) (unat (dp_yy d)) (if hi = 0 then 8 else 16) 16)"
    by (rule inside_DrawChar) (use assms(1-3) in \<open>auto simp: text_at_def\<close>)
  then show ?thesis
  proof (rule inside_mono)
    fix a b assume c: "in_cell (unat (dp_xx d)) (unat (dp_yy d)) (if hi = 0 then 8 else 16) 16 a b" "on_screen a b"
    have w: "(if hi = 0 then 8 else 16) = 8 * n" using assms(2) by simp
    have "y \<le> b" "b < W" using c assms(1,5) by (auto simp: in_cell_def text_at_def on_screen_def)
    moreover have "x \<le> a \<and> a < x + 8 * L" if "x + 8 * L < 132"
    proof -
      have "8 * (unat (dp_tmp d) + n) \<le> 8 * L" using assms(4) by simp
      then show ?thesis using c(1) assms(1) that unfolding w by (simp add: in_cell_def text_at_def)
    qed
    ultimately show "text_area x y L W a b" by (simp add: text_area_def)
  qed
qed

text \<open>One turn of the loop: a character of \<open>n\<close> bytes, and either the end or the rest.\<close>

definition char_turn :: "(u32 \<Rightarrow> u8) \<Rightarrow> u8 \<Rightarrow> u16 \<Rightarrow> nat \<Rightarrow> u8 \<Rightarrow> u8 \<Rightarrow> u8 list \<Rightarrow> draw_pos \<times> gdi \<Rightarrow> draw_pos \<times> gdi" where
  "char_turn flash mode length1 n hi lo rest ds = (case ds of (d, s) \<Rightarrow>
     let (d, full) = next_line (int (8 * n)) d
     in if full then (d, s)
        else let s = DrawChar flash (dp_xx d) (dp_yy d) hi lo mode s;
                 d = d\<lparr>dp_xx := dp_xx d + word_of_nat (8 * n), dp_tmp := dp_tmp d + word_of_nat n\<rparr>
             in if length1 \<le> dp_tmp d then (d, s) else draw_chars flash mode length1 rest (d, s))"

lemma draw_chars_turn:
  "draw_chars flash mode length1 (c # cs) (d, s) =
     (if c > 0x80 then char_turn flash mode length1 2 c (case cs of [] \<Rightarrow> 0 | c2 # _ \<Rightarrow> c2) (tl cs) (d, s)
      else char_turn flash mode length1 1 0 c cs (d, s))"
  by (cases "next_line 16 d"; cases "next_line 8 d") (simp add: draw_chars.simps(2) char_turn_def Let_def)

lemma char_turn_inside:
  assumes IH: "\<And>d s d' s'. draw_chars flash mode length1 rest (d, s) = (d', s') \<Longrightarrow> text_at x y (unat length1) d \<Longrightarrow> unat (dp_tmp d) < unat length1
      \<Longrightarrow> whole_text (take (unat length1 - unat (dp_tmp d)) rest) \<Longrightarrow> inside s s' (text_area x y (unat length1) (unat (dp_width d'))) \<and> min 64 (unat (dp_width d)) \<le> unat (dp_width d') \<and> unat (dp_width d') < 80"
    and "char_turn flash mode length1 n hi lo rest (d, s) = (d', s')" "text_at x y (unat length1) d"
    "n = (if hi = 0 then 1 else 2)" "unat (dp_tmp d) + n \<le> unat length1" "whole_text (take (unat length1 - unat (dp_tmp d) - n) rest)"
  shows "inside s s' (text_area x y (unat length1) (unat (dp_width d'))) \<and> min 64 (unat (dp_width d)) \<le> unat (dp_width d') \<and> unat (dp_width d') < 80"
proof -
  obtain e full where e: "next_line (int (8 * n)) d = (e, full)" by fastforce
  have w: "int (8 * n) = 8 \<or> int (8 * n) = 16" "unat (dp_tmp d) + nat (int (8 * n)) div 8 \<le> unat length1" using assms(4,5) by auto
  note at = next_line_at[OF assms(3) w e]
  define f where "f = e\<lparr>dp_xx := dp_xx e + word_of_nat (8 * n), dp_tmp := dp_tmp e + word_of_nat n\<rparr>"
  define t where "t = DrawChar flash (dp_xx e) (dp_yy e) hi lo mode s"
  have turn: "(d', s') = (if full then (e, s) else if length1 \<le> dp_tmp f then (f, t) else draw_chars flash mode length1 rest (f, t))"
    using assms(2)[symmetric] by (simp only: char_turn_def prod.case e Let_def f_def t_def)
  show ?thesis
  proof (cases full)
    case True
    with turn at(1) show ?thesis by (simp add: inside_refl)
  next
    case False
    have te: "text_at x y (unat length1) e" "unat (dp_width d) \<le> unat (dp_width e)" "unat (dp_xx e) + 8 * n \<le> 132" "unat (dp_tmp e) + n \<le> unat length1"
      using at(3) False at(2) assms(5) by auto
    note tf = char_step[OF te(1,3,4), folded f_def]
    have wf: "dp_width f = dp_width e" "dp_tmp f = dp_tmp e + word_of_nat n" by (simp_all add: f_def)
    have we: "unat (dp_width e) < 80" using te(1) by (simp add: text_at_def)
    show ?thesis
    proof (cases "length1 \<le> dp_tmp f")
      case True
      then have "d' = f" "s' = t" using turn False by auto
      then show ?thesis using char_inside[OF te(1) assms(4) te(3,4), of "unat (dp_width e)"] te(2) we by (simp add: wf t_def)
    next
      case more: False
      then have "draw_chars flash mode length1 rest (f, t) = (d', s')" using turn False by simp
      moreover have lt: "unat (dp_tmp f) < unat length1" using more by (simp add: word_le_nat_alt)
      moreover have "unat (dp_tmp f) = unat (dp_tmp d) + n" using tf(2) at(2) wf(2) by simp
      then have "whole_text (take (unat length1 - unat (dp_tmp f)) rest)" using assms(6) by simp
      ultimately have r: "inside t s' (text_area x y (unat length1) (unat (dp_width d')))" "min 64 (unat (dp_width f)) \<le> unat (dp_width d')" "unat (dp_width d') < 80"
        using IH[of f t d' s'] tf(1) by auto
      have "inside s t (text_area x y (unat length1) (unat (dp_width d')))"
        unfolding t_def by (rule char_inside[OF te(1) assms(4) te(3,4)]) (use r(2) wf(1) in simp)
      then show ?thesis using r te(2) wf(1) inside_trans by (auto simp: min_def split: if_splits)
    qed
  qed
qed

lemma draw_chars_inside:
  "draw_chars flash mode length1 cs (d, s) = (d', s') \<Longrightarrow> text_at x y (unat length1) d \<Longrightarrow> unat (dp_tmp d) < unat length1
    \<Longrightarrow> whole_text (take (unat length1 - unat (dp_tmp d)) cs)
    \<Longrightarrow> inside s s' (text_area x y (unat length1) (unat (dp_width d'))) \<and> min 64 (unat (dp_width d)) \<le> unat (dp_width d') \<and> unat (dp_width d') < 80"
proof (induction cs arbitrary: d s d' s' rule: length_induct)
  case (1 cs)
  note IH = 1(1)[rule_format]
  show ?case
  proof (cases cs)
    case Nil
    with 1(2,3) show ?thesis by (auto simp: inside_refl text_at_def)
  next
    case (Cons c r)
    let ?m = "unat length1 - unat (dp_tmp d)"
    have m: "?m > 0" "take ?m cs = c # take (?m - 1) r" using 1(4) Cons by (simp_all add: take_Cons')
    show ?thesis
    proof (cases "c > 0x80")
      case True
      obtain c2 r2 where r: "take (?m - 1) r = c2 # r2" "whole_text r2"
        using 1(5) True m(2) by (auto split: list.splits)
      obtain k where k: "?m - 1 = Suc k" using r(1) by (cases "?m - 1") auto
      then have "k = ?m - 2" "?m \<ge> 2" by linarith+
      then obtain r3 where r3: "r = c2 # r3" "?m \<ge> 2" "r2 = take (?m - 2) r3" using r(1) k by (cases r) auto
      have "c \<noteq> 0" using True by auto
      have turn: "char_turn flash mode length1 2 c c2 r3 (d, s) = (d', s')" using 1(2) True by (simp add: Cons r3(1) draw_chars_turn)
      have l: "length r3 < length cs" by (simp add: Cons r3(1))
      show ?thesis
        by (rule char_turn_inside[OF IH[OF l] turn 1(3)]) (use \<open>c \<noteq> 0\<close> r3(2,3) r(2) in simp_all)
    next
      case False
      have turn: "char_turn flash mode length1 1 0 c r (d, s) = (d', s')" using 1(2) False by (simp add: Cons draw_chars_turn)
      have w: "whole_text (take (?m - 1) r)" using 1(5) False m(2) by simp
      have l: "length r < length cs" by (simp add: Cons)
      show ?thesis
        by (rule char_turn_inside[OF IH[OF l] turn 1(3)]) (use m(1) w in simp_all)
    qed
  qed
qed

end
