(* ===== verification/App_GdiSteps.thy ===== *)
theory App_GdiSteps
  imports App_GdiText App_GdiShow
begin

text \<open>The calls of \<open>Gdi.c\<close> as steps: each keeps the panel equal to the buffer, and the drawing ones keep the saved screen.\<close>

subsection \<open>Loops\<close>

lemma run_calls_inside: "(\<And>c s t. c \<in> set cs \<Longrightarrow> c s = Some t \<Longrightarrow> inside s t R) \<Longrightarrow> run_calls cs s = Some t \<Longrightarrow> inside s t R"
proof (induction cs arbitrary: s)
  case (Cons c cs)
  from Cons.prems(2) obtain u where u: "c s = Some u" "run_calls cs u = Some t" by (auto split: Option.bind_splits)
  have "inside s u R" by (rule Cons.prems(1)[OF list.set_intros(1) u(1)])
  moreover have "inside u t R" by (rule Cons.IH[OF Cons.prems(1) u(2)]) (rule list.set_intros(2))
  ultimately show ?case by (rule inside_trans)
qed (simp add: inside_refl)

lemma for_u8_inside:
  assumes "for_u8 body a b s = Some t" "\<And>i s t. a \<le> i \<Longrightarrow> i \<le> b \<Longrightarrow> body i s = Some t \<Longrightarrow> inside s t R"
  shows "inside s t R"
proof -
  have "b \<noteq> 255" by (rule for_u8_stops[OF assms(1)])
  moreover have "b \<le> 255" using unat_8_le[of b] by (simp add: word_le_nat_alt)
  ultimately have "b < 255" by (simp add: order_less_le)
  then have "run_calls (map (\<lambda>i. body (word_of_nat i)) [unat a..<Suc (unat b)]) s = Some t" using for_u8_run assms(1) by metis
  then show ?thesis
  proof (rule run_calls_inside[rotated])
    fix c :: "gdi \<Rightarrow> gdi option" and u v
    assume "c \<in> set (map (\<lambda>i. body (word_of_nat i)) [unat a..<Suc (unat b)])" and cu: "c u = Some v"
    then obtain i where i: "c = body (word_of_nat i)" "unat a \<le> i" "i \<le> unat b" by (auto simp del: upt_Suc)
    have "unat (word_of_nat i :: u8) = i" using i(3) unat_8_le[of b] by (intro unat_of_nat_8) simp
    then show "inside u v R" using assms(2)[of "word_of_nat i"] i cu by (simp add: word_le_nat_alt)
  qed
qed

lemma inside_loop:
  assumes "for_u8 (\<lambda>i s. Some (F i s)) a b s = Some t" "\<And>i s. a \<le> i \<Longrightarrow> i \<le> b \<Longrightarrow> inside s (F i s) R"
  shows "inside s t R"
  by (rule for_u8_inside[OF assms(1)]) (use assms(2) in auto)

lemma inside_loops:
  assumes "for_u8 (\<lambda>i. for_u8 (\<lambda>j s. Some (F i j s)) y1 y2) x1 x2 s = Some t" "\<And>i j s. x1 \<le> i \<Longrightarrow> i \<le> x2 \<Longrightarrow> y1 \<le> j \<Longrightarrow> j \<le> y2 \<Longrightarrow> inside s (F i j s) R"
  shows "inside s t R"
  by (rule for_u8_inside[OF assms(1)], rule inside_loop) (use assms(2) in auto)

lemma inside_flip: "(on_screen (unat x) (unat y) \<Longrightarrow> R (unat x) (unat y)) \<Longrightarrow> inside s (flip_pixel x y s) R"
  unfolding flip_pixel_def by (rule inside_set_pixel)

lemma fill_inside: "FillArea x1 y1 x2 y2 c s = Some t \<Longrightarrow> inside s t (in_rect x1 y1 x2 y2)"
  unfolding FillArea_def by (erule inside_loops, rule inside_set_pixel) (simp add: in_rect_def word_le_nat_alt)

lemma reverse_inside: "ReverseBar x1 y1 x2 y2 s = Some t \<Longrightarrow> inside s t (in_rect x1 y1 x2 y2)"
  unfolding ReverseBar_def by (erule inside_loops, rule inside_flip) (simp add: in_rect_def word_le_nat_alt)

lemma ver_line_inside: "DrawVerLine x y1 y2 mode s = Some t \<Longrightarrow> inside s t (in_rect x y1 x y2)"
  unfolding DrawVerLine_def
  by (auto split: if_splits elim!: inside_loop intro!: inside_flip inside_set_pixel simp: in_rect_def word_le_nat_alt)

lemma hor_line_inside: "DrawHorLine x1 x2 y mode s = Some t \<Longrightarrow> inside s t (in_rect x1 y x2 y)"
  unfolding DrawHorLine_def
  by (auto split: if_splits elim!: inside_loop intro!: inside_flip inside_set_pixel simp: in_rect_def word_le_nat_alt)

lemma rect_inside: "DrawRect x1 y1 x2 y2 mode s = Some t \<Longrightarrow> inside s t (in_frame x1 y1 x2 y2)"
  by (erule inside_drawn[OF rect_drawn]) (simp add: in_frame_def in_rect_def)

lemma copy_pixel_inside:
  fixes x2 width y2 height i j :: u8
  assumes "unat x2 + unat width < 256" "unat y2 + unat height < 256" "i \<le> width" "j \<le> height"
  shows "inside s (LcdSetPixel (x2 + i) (y2 + j) c s) (in_rect x2 y2 (x2 + width) (y2 + height))"
proof (rule inside_set_pixel)
  have "unat (x2 + i) = unat x2 + unat i" "unat (y2 + j) = unat y2 + unat j" "unat (x2 + width) = unat x2 + unat width" "unat (y2 + height) = unat y2 + unat height"
    using assms by (simp_all add: unat_word_ariths word_le_nat_alt)
  then show "on_screen (unat (x2 + i)) (unat (y2 + j)) \<Longrightarrow> in_rect x2 y2 (x2 + width) (y2 + height) (unat (x2 + i)) (unat (y2 + j))"
    using assms by (simp add: in_rect_def word_le_nat_alt)
qed

lemma copy_inside:
  assumes "CopyArea x1 y1 width height x2 y2 s = Some t" "unat x2 + unat width < 256" "unat y2 + unat height < 256"
  shows "inside s t (in_rect x2 y2 (x2 + width) (y2 + height))"
proof -
  have d: "height - j \<le> height" if "j \<le> height" for j
    using that by (simp add: word_sub_le)
  show ?thesis
  proof (cases "y2 < y1")
    case True
    with assms(1) have "for_u8 (\<lambda>j. for_u8 (\<lambda>i s. Some (LcdSetPixel (x2 + i) (y2 + j) (LcdGetPixel (x1 + i) (y1 + j) s) s)) 0 width) 0 height s = Some t"
      by (simp add: CopyArea_def)
    then show ?thesis by (rule inside_loops) (rule copy_pixel_inside[OF assms(2,3)])
  next
    case False
    show ?thesis
    proof (cases "y2 > y1")
      case True
      with False assms(1) have "for_u8 (\<lambda>j. for_u8 (\<lambda>i s. Some (LcdSetPixel (x2 + i) (y2 + (height - j)) (LcdGetPixel (x1 + i) (y1 + (height - j)) s) s)) 0 width) 0 height s = Some t"
        by (simp add: CopyArea_def)
      then show ?thesis by (rule inside_loops) (intro copy_pixel_inside[OF assms(2,3)] d)
    next
      case False
      with \<open>\<not> y2 < y1\<close> assms(1) show ?thesis by (simp add: CopyArea_def inside_refl)
    qed
  qed
qed

subsection \<open>The whole screen\<close>

text \<open>\<open>LcdClearScreen\<close> and \<open>LcdPasteScreen\<close> write every byte and send it: \<open>V\<close> the bytes, which the writing does not change.\<close>

definition write_panel :: "(gdi \<Rightarrow> nat \<Rightarrow> nat \<Rightarrow> u8) \<Rightarrow> gdi \<Rightarrow> gdi" where
  "write_panel V = for_below (\<lambda>i s. for_below (\<lambda>j s. let s = put_byte (unat i) (unat j) (V s (unat i) (unat j)) s
       in emit (Lcd_WriteData (ScrBuf s (unat i) (unat j))) s) SCR_WIDTH (LcdMoveCursorEx i 0 s)) 8"

definition byte_source :: "(gdi \<Rightarrow> nat \<Rightarrow> nat \<Rightarrow> u8) \<Rightarrow> bool" where
  "byte_source V \<longleftrightarrow> (\<forall>s f e. V (s\<lparr>ScrBuf := f, events := e\<rparr>) = V s)"

lemma write_row:
  assumes "byte_source V" "n \<le> 132"
  shows "fold (\<lambda>j s. let s = put_byte i (unat (word_of_nat j :: u8)) (V s i (unat (word_of_nat j :: u8))) s in emit (Lcd_WriteData (ScrBuf s i (unat (word_of_nat j :: u8)))) s) [0..<n] s
    = s\<lparr>ScrBuf := \<lambda>p x. if p = i \<and> x < n then V s i x else ScrBuf s p x, events := events s @ row_events (V s i) 0 n\<rparr>"
  using assms(2)
proof (induction n)
  case 0
  then show ?case by (simp add: row_events_def)
next
  case (Suc n)
  have "unat (word_of_nat n :: u8) = n" using Suc.prems by (intro unat_of_nat_8) simp
  moreover have "V (s\<lparr>ScrBuf := \<lambda>p x. if p = i \<and> x < n then V s i x else ScrBuf s p x, events := events s @ row_events (V s i) 0 n\<rparr>) = V s"
    using assms(1) by (simp only: byte_source_def)
  ultimately show ?case using Suc
    by (simp add: put_byte_def emit_def row_events_def) (auto simp: fun_eq_iff less_Suc_eq)
qed

lemma write_rows:
  assumes "panel_ok P" "byte_source V"
  shows "n \<le> 8 \<Longrightarrow> t = fold (\<lambda>i s. for_below (\<lambda>j s. let s = put_byte (unat (word_of_nat i :: u8)) (unat j) (V s (unat (word_of_nat i :: u8)) (unat j)) s
       in emit (Lcd_WriteData (ScrBuf s (unat (word_of_nat i :: u8)) (unat j))) s) SCR_WIDTH (LcdMoveCursorEx (word_of_nat i) 0 s)) [0..<n] s
    \<Longrightarrow> t = s\<lparr>ScrBuf := \<lambda>p x. if p < n \<and> x < 132 then V s p x else ScrBuf s p x, events := events t\<rparr> \<and> (\<forall>k < n. \<forall>j < 132. shown P p0 t k j = V s k j)"
proof (induction n arbitrary: t)
  case 0
  then show ?case by simp
next
  case (Suc n)
  define u where "u = fold (\<lambda>i s. for_below (\<lambda>j s. let s = put_byte (unat (word_of_nat i :: u8)) (unat j) (V s (unat (word_of_nat i :: u8)) (unat j)) s
       in emit (Lcd_WriteData (ScrBuf s (unat (word_of_nat i :: u8)) (unat j))) s) SCR_WIDTH (LcdMoveCursorEx (word_of_nat i) 0 s)) [0..<n] s"
  obtain f eu where f: "f = (\<lambda>p x. if p < n \<and> x < 132 then V s p x else ScrBuf s p x)" and u: "u = s\<lparr>ScrBuf := f, events := eu\<rparr>" "\<forall>k < n. \<forall>j < 132. shown P p0 u k j = V s k j"
    using Suc.IH[OF _ u_def] Suc_leD[OF Suc.prems(1)] by blast+
  define c where "c = LcdMoveCursorEx (word_of_nat n) 0 u"
  obtain ec where c: "c = s\<lparr>ScrBuf := f, events := ec\<rparr>" by (simp add: c_def u(1) LcdMoveCursorEx_def LcdMoveCursor_def emit_def)
  then have Vc: "V c = V s" using assms(2) by (simp add: byte_source_def)
  have n: "unat (word_of_nat n :: u8) = n" using Suc.prems(1) by (intro unat_of_nat_8) simp
  have "t = for_below (\<lambda>j s. let s = put_byte n (unat j) (V s n (unat j)) s in emit (Lcd_WriteData (ScrBuf s n (unat j))) s) SCR_WIDTH c"
    using Suc.prems(2) by (simp add: u_def[symmetric] c_def[symmetric] n)
  also have "\<dots> = c\<lparr>ScrBuf := \<lambda>p x. if p = n \<and> x < 132 then V s n x else ScrBuf c p x, events := events c @ row_events (V s n) 0 132\<rparr>"
    using write_row[OF assms(2), of 132 n c] by (simp add: for_below_def Vc del: upt_rec_numeral upt_Suc cong: if_cong)
  finally have t: "t = c\<lparr>ScrBuf := \<lambda>p x. if p = n \<and> x < 132 then V s n x else ScrBuf c p x, events := events c @ row_events (V s n) 0 132\<rparr>" .
  have "shown P p0 t k j = V s k j" if "k < Suc n" "j < 132" for k j
  proof -
    have "events t = events (LcdMoveCursorEx (word_of_nat n) 0 u) @ row_events (V s n) (unat (0 :: u8)) 132" by (simp add: t c_def)
    from row_shown[OF assms(1) _ _ that(2) _ this, of k p0] that Suc.prems(1) u(2) show ?thesis by (auto simp: less_Suc_eq)
  qed
  moreover have "t = s\<lparr>ScrBuf := \<lambda>p x. if p < Suc n \<and> x < 132 then V s p x else ScrBuf s p x, events := events t\<rparr>"
    unfolding t by (auto simp: c f fun_eq_iff less_Suc_eq)
  ultimately show ?case by blast
qed

lemma write_panel_in_sync:
  assumes "panel_ok P" "byte_source V"
  obtains e where "write_panel V s = s\<lparr>ScrBuf := \<lambda>p x. if p < 8 \<and> x < 132 then V s p x else ScrBuf s p x, events := e\<rparr>" "in_sync P p0 (write_panel V s)"
proof -
  have w: "write_panel V s = fold (\<lambda>i s. for_below (\<lambda>j s. let s = put_byte (unat (word_of_nat i :: u8)) (unat j) (V s (unat (word_of_nat i :: u8)) (unat j)) s
       in emit (Lcd_WriteData (ScrBuf s (unat (word_of_nat i :: u8)) (unat j))) s) SCR_WIDTH (LcdMoveCursorEx (word_of_nat i) 0 s)) [0..<8] s"
    unfolding write_panel_def for_below_def[of _ 8] by (simp del: upt_rec_numeral upt_Suc)
  note r = write_rows[OF assms order_refl w, of p0]
  have "ScrBuf (write_panel V s) = (\<lambda>p x. if p < 8 \<and> x < 132 then V s p x else ScrBuf s p x)" by (subst conjunct1[OF r]) simp
  then show ?thesis using that[of "events (write_panel V s)"] r by (simp add: in_sync_def)
qed

end
