(* ===== verification/App_GdiCalls.thy ===== *)
theory App_GdiCalls
  imports App_GdiSteps
begin

text \<open>
  Sequences of calls. \<open>lcd_draw\<close> are the calls that draw, \<open>lcd_call\<close> also saves and restores the screen. The coordinates are limited
  where the code paints less than it draws: frames and windows have to lie on the screen, copies and pictures must not run
  over 255, and a text must not be cut within a character of two bytes.
\<close>

inductive lcd_draw :: "(u32 \<Rightarrow> u8) \<Rightarrow> gdi \<Rightarrow> gdi \<Rightarrow> bool" for flash where
  clear_screen: "lcd_draw flash s (LcdClearScreen s)"
| clear_area: "LcdClearArea x1 y1 x2 y2 s = Some t \<Longrightarrow> lcd_draw flash s t"
| copy_area: "LcdCopyArea x1 y1 width height x2 y2 s = Some t \<Longrightarrow> unat x2 + unat width < 256 \<Longrightarrow> unat y2 + unat height < 256 \<Longrightarrow> lcd_draw flash s t"
| ver_line: "LcdShowVerLine x y1 y2 mode s = Some t \<Longrightarrow> lcd_draw flash s t"
| hor_line: "LcdShowHorLine x1 x2 y mode s = Some t \<Longrightarrow> lcd_draw flash s t"
| rect: "LcdShowRect x1 y1 x2 y2 mode s = Some t \<Longrightarrow> x2 < SCR_WIDTH \<Longrightarrow> y2 < SCR_HEIGHT \<Longrightarrow> lcd_draw flash s t"
| reverse_bar: "LcdReverseBar x1 y1 x2 y2 s = Some t \<Longrightarrow> lcd_draw flash s t"
| window: "LcdShowWindow x1 y1 x2 y2 s = Some t \<Longrightarrow> x1 < x2 \<Longrightarrow> x2 \<le> ucast SCR_WIDTH \<Longrightarrow> y1 < y2 \<Longrightarrow> y2 < SCR_HEIGHT \<Longrightarrow> lcd_draw flash s t"
| pic: "LcdShowPic x y width height picture s = Some t \<Longrightarrow> unat x + unat width < 256 \<Longrightarrow> unat y + unat height < 256 \<Longrightarrow> lcd_draw flash s t"
| string: "DrawStr flash x y str mode len s = Some (r, t) \<Longrightarrow> y < SCR_HEIGHT \<Longrightarrow> 0 < len \<or> str = [] \<Longrightarrow> length str \<le> 1000 \<Longrightarrow> whole_text (take (unat len) str) \<Longrightarrow> lcd_draw flash s t"
| other: "e \<in> {FlashLcdBackLight, SysAutoRunCountReset, LZM_SetAlarm time} \<Longrightarrow> lcd_draw flash s (emit e s)"

inductive lcd_call :: "(u32 \<Rightarrow> u8) \<Rightarrow> gdi \<Rightarrow> gdi \<Rightarrow> bool" for flash where
  draw: "lcd_draw flash s t \<Longrightarrow> lcd_call flash s t"
| copy: "lcd_call flash s (LcdCopyScreen s)"
| paste: "lcd_call flash s (LcdPasteScreen s)"

subsection \<open>What is kept\<close>

text \<open>The saved screen.\<close>

definition saved_same :: "gdi \<Rightarrow> gdi \<Rightarrow> bool" where
  "saved_same s t \<longleftrightarrow> ScrCpy t = ScrCpy s \<and> LcdCopyFlag t = LcdCopyFlag s"

lemma saved_trans: "saved_same s t \<Longrightarrow> saved_same t u \<Longrightarrow> saved_same s u"
  by (simp add: saved_same_def)

lemma inside_saved: "inside s t R \<Longrightarrow> saved_same s t"
  by (cases s; cases t) (simp add: inside_def saved_same_def)

lemma same_but_events_saved: "same_but_events s t \<Longrightarrow> saved_same s t"
  by (cases s; cases t) (simp add: same_but_events_def saved_same_def)

text \<open>A panel, to have one.\<close>

definition sim_panel :: "(nat \<times> nat \<times> (nat \<Rightarrow> nat \<Rightarrow> u8)) panel" where
  "sim_panel = \<lparr>com = (\<lambda>c (p, x, m). if c < 16 then (p, x div 16 * 16 + unat c, m)
       else if c < 32 then (p, unat c mod 16 * 16 + x mod 16, m) else if 176 \<le> c \<and> c < 184 then (unat c - 176, x, m) else (p, x, m)),
     dat = (\<lambda>v (p, x, m). (p, x + 1, m(p := (m p)(x := v)))), page_at = fst, column_at = (\<lambda>(_, x, _). x), ram = (\<lambda>(_, _, m). m)\<rparr>"

lemma sim_panel_ok: "panel_ok sim_panel"
proof -
  have u: "unat (word_of_nat n :: u8) = n" if "n < 184" for n using that by (intro unat_of_nat_8) simp
  have a: "word_of_nat n < (16 :: u8)" if "n < 16" for n using that u[of n] by (simp add: word_less_nat_alt)
  have b: "\<not> word_of_nat (16 + n) < (16 :: u8)" "word_of_nat (16 + n) < (32 :: u8)" if "n < 16" for n
    using that u[of "16 + n"] by (simp_all only: word_less_nat_alt) simp_all
  have c: "\<not> word_of_nat (176 + n) < (16 :: u8)" "\<not> word_of_nat (176 + n) < (32 :: u8)" "(176 :: u8) \<le> word_of_nat (176 + n)" "word_of_nat (176 + n) < (184 :: u8)"
    if "n < 8" for n using that u[of "176 + n"] by (simp_all only: word_less_nat_alt word_le_nat_alt) simp_all
  have m: "(16 + n) mod 16 = n" if "n < 16" for n :: nat using that by simp
  show ?thesis
    unfolding panel_ok_def sim_panel_def
    by (intro conjI allI impI) (use u a b c m in \<open>auto simp del: of_nat_add\<close>)
qed

lemma paint_same: "LcdPaintScreen x1 y1 x2 y2 s = Some t \<Longrightarrow> same_but_events s t"
  by (rule paint_shown[OF sim_panel_ok, of x1 y1 x2 y2 s undefined]) simp

lemma LcdClearScreen_writes: "LcdClearScreen = write_panel (\<lambda>_ _ _. 0)"
  by (simp add: LcdClearScreen_def write_panel_def)

lemma LcdPasteScreen_writes: "LcdPasteScreen s = (if \<not> GetLcdCopyFlag s then s else write_panel ScrCpy (ClearLcdCopyFlag s))"
  by (simp add: LcdPasteScreen_def write_panel_def)

lemma byte_sources: "byte_source (\<lambda>_ _ _. 0)" "byte_source ScrCpy"
  by (simp_all add: byte_source_def)

subsection \<open>One call after the other\<close>

definition good_step :: "'p panel \<Rightarrow> 'p \<Rightarrow> gdi \<Rightarrow> gdi \<Rightarrow> bool" where
  "good_step P p0 s t \<longleftrightarrow> saved_same s t \<and> (panel_ok P \<longrightarrow> in_sync P p0 s \<longrightarrow> in_sync P p0 t)"

lemma good_trans: "good_step P p0 s t \<Longrightarrow> good_step P p0 t u \<Longrightarrow> good_step P p0 s u"
  unfolding good_step_def using saved_trans by blast

lemma show_good:
  assumes "inside s t R" "LcdPaintScreen x1 y1 x2 y2 t = Some u" "\<And>a b. on_screen a b \<Longrightarrow> R a b \<Longrightarrow> in_bytes x1 y1 x2 y2 (b div 8) a"
  shows "good_step P p0 s u"
proof -
  have "saved_same s u" by (rule saved_trans[OF inside_saved[OF assms(1)] same_but_events_saved[OF paint_same[OF assms(2)]]])
  moreover have "in_sync P p0 u" if "panel_ok P" "in_sync P p0 s" by (rule show_in_sync[OF that assms])
  ultimately show ?thesis by (simp add: good_step_def)
qed

text \<open>A function \<open>f\<close> that draws within a rectangle, which is painted then.\<close>

lemma show_rect_good:
  assumes "f s \<bind> LcdPaintScreen x1 y1 x2 y2 = Some u" "\<And>t. f s = Some t \<Longrightarrow> inside s t (in_rect x1 y1 x2 y2)"
  shows "good_step P p0 s u"
proof -
  from assms(1) obtain t where "f s = Some t" "LcdPaintScreen x1 y1 x2 y2 t = Some u" by (auto split: Option.bind_splits)
  then show ?thesis by (intro show_good[OF assms(2)] rect_bytes)
qed

lemma write_good:
  assumes "byte_source V"
  shows "good_step P p0 s (write_panel V s)"
proof -
  obtain e where "write_panel V s = s\<lparr>ScrBuf := \<lambda>p x. if p < 8 \<and> x < 132 then V s p x else ScrBuf s p x, events := e\<rparr>"
    by (rule write_panel_in_sync[OF sim_panel_ok assms, of s undefined])
  then have "saved_same s (write_panel V s)" by (simp add: saved_same_def)
  moreover have "in_sync P p0 (write_panel V s)" if "panel_ok P"
    by (rule write_panel_in_sync[OF that assms, of s p0])
  ultimately show ?thesis by (simp add: good_step_def)
qed

text \<open>The four lines \<open>LcdShowRect\<close> paints hold the frame.\<close>

lemma rect_good:
  assumes "LcdShowRect x1 y1 x2 y2 mode s = Some t" "x2 < SCR_WIDTH" "y2 < SCR_HEIGHT"
  shows "good_step P p0 s t"
proof -
  from assms(1) obtain s1 s2 s3 s4 where d: "DrawRect x1 y1 x2 y2 mode s = Some s1" "LcdPaintScreen x1 y1 x1 y2 s1 = Some s2" "LcdPaintScreen x2 y1 x2 y2 s2 = Some s3"
    "LcdPaintScreen x1 y1 x2 y1 s3 = Some s4" "LcdPaintScreen x1 y2 x2 y2 s4 = Some t"
    unfolding LcdShowRect_def by (auto split: Option.bind_splits)
  note i = rect_inside[OF d(1)]
  have m: "min (unat x2) 131 = unat x2" "min (unat y2) 63 = unat y2" using assms(2,3) by (auto simp: word_less_nat_alt)
  have "saved_same s t" using saved_trans[OF inside_saved[OF i]] saved_trans same_but_events_saved[OF paint_same] d(2-5) by meson
  moreover have "in_sync P p0 t" if P: "panel_ok P" and s: "in_sync P p0 s"
  proof -
    have "fresh_but P p0 s1 (\<lambda>i j. \<exists>b. b div 8 = i \<and> in_frame x1 y1 x2 y2 j b)"
      by (rule inside_fresh[OF s i]) blast
    note f = paint_fresh[OF P paint_fresh[OF P paint_fresh[OF P paint_fresh[OF P this d(2)] d(3)] d(4)] d(5)]
    show ?thesis
    proof (rule fresh_in_sync[OF f], rule notI, elim conjE exE)
      fix i j b assume n: "\<not> in_bytes x1 y1 x1 y2 i j" "\<not> in_bytes x2 y1 x2 y2 i j" "\<not> in_bytes x1 y1 x2 y1 i j" "\<not> in_bytes x1 y2 x2 y2 i j"
        and b: "in_frame x1 y1 x2 y2 j b" "b div 8 = i"
      from b(1) consider "j = unat x1" | "j = unat x2" | "b = unat y1" | "b = unat y2" unfolding in_frame_def m by blast
      then show False
        using n b unfolding in_frame_def in_rect_def in_bytes_def word_le_nat_alt
        by cases (auto simp: div_le_mono)
    qed
  qed
  ultimately show ?thesis by (simp add: good_step_def)
qed

lemma window_good:
  assumes "LcdShowWindow x1 y1 x2 y2 s = Some t" "x1 < x2" "x2 \<le> ucast SCR_WIDTH" "y1 < y2" "y2 < SCR_HEIGHT"
  shows "good_step P p0 s t"
proof -
  from assms(1) obtain s1 s2 where d: "LcdClearArea (ucast x1) y1 (ucast x2) y2 s = Some s1"
    "DrawRect (ucast (x1 + 1)) (y1 + 1) (ucast (x2 - 1)) (y2 - 1) 0 s1 = Some s2" "LcdPaintScreen (ucast x1) y1 (ucast x2) y2 s2 = Some t"
    unfolding LcdShowWindow_def by (auto split: Option.bind_splits)
  have u: "unat x1 < unat x2" "unat x2 \<le> 132" "unat y1 < unat y2" "unat y2 < 64" using assms(2-5) by (simp_all add: word_less_nat_alt word_le_nat_alt)
  have c: "unat (x1 + 1) = unat x1 + 1" "unat (x2 - 1) = unat x2 - 1" "unat (y1 + 1) = unat y1 + 1" "unat (y2 - 1) = unat y2 - 1"
  proof -
    show "unat (x1 + 1) = unat x1 + 1" "unat (y1 + 1) = unat y1 + 1" using u by (simp_all add: unat_word_ariths)
    have "1 \<le> x2" "1 \<le> y2" using u by (simp_all add: word_le_nat_alt)
    then show "unat (x2 - 1) = unat x2 - 1" "unat (y2 - 1) = unat y2 - 1" by (simp_all add: unat_sub)
  qed
  have e: "unat (ucast x1 :: u8) = unat x1" "unat (ucast x2 :: u8) = unat x2" "unat (ucast (x1 + 1) :: u8) = unat x1 + 1" "unat (ucast (x2 - 1) :: u8) = unat x2 - 1"
    using u c by (simp_all add: unsigned_ucast_eq take_bit_eq_mod)
  have "good_step P p0 s s1" using d(1) unfolding LcdClearArea_def by (rule show_rect_good) (rule fill_inside)
  moreover have "good_step P p0 s1 t"
  proof (rule show_good[OF rect_inside[OF d(2)] d(3)])
    fix a b assume "in_frame (ucast (x1 + 1)) (y1 + 1) (ucast (x2 - 1)) (y2 - 1) a b"
    then have "in_rect (ucast x1) y1 (ucast x2) y2 a b" using c e by (auto simp: in_frame_def in_rect_def)
    then show "in_bytes (ucast x1) y1 (ucast x2) y2 (b div 8) a" by (rule rect_bytes)
  qed
  ultimately show ?thesis by (rule good_trans)
qed

lemma pic_good:
  assumes "LcdShowPic x y width height picture s = Some t" "unat x + unat width < 256" "unat y + unat height < 256"
  shows "good_step P p0 s t"
proof (rule show_good)
  show "inside s (DrawPic x y width height picture 0 s) (in_cell (unat x) (unat y) (unat width) (unat height))"
    by (rule inside_DrawPic) (use assms(2,3) in simp_all)
  show "LcdPaintScreen x y (x + width) (y + height) (DrawPic x y width height picture 0 s) = Some t" using assms(1) by (simp add: LcdShowPic_def)
  have u: "unat (x + width) = unat x + unat width" "unat (y + height) = unat y + unat height" using assms(2,3) by (simp_all add: unat_word_ariths)
  fix a b assume "in_cell (unat x) (unat y) (unat width) (unat height) a b"
  then show "in_bytes x y (x + width) (y + height) (b div 8) a"
    unfolding in_cell_def in_bytes_def word_le_nat_alt u by (auto simp: div_le_mono)
qed

lemma string_good:
  assumes "DrawStr flash x y str mode len s = Some (r, t)" "y < SCR_HEIGHT" "0 < len \<or> str = []" "length str \<le> 1000" "whole_text (take (unat len) str)"
  shows "good_step P p0 s t"
proof -
  define L :: u16 where "L = (if len < word_of_nat (length str) then len else word_of_nat (length str))"
  have ls: "unat (word_of_nat (length str) :: u16) = length str" using assms(4) by (simp add: unat_of_nat)
  have L: "unat L = min (unat len) (length str)" unfolding L_def by (auto simp: word_less_nat_alt ls)
  define d0 where "d0 = \<lparr>dp_xx = x, dp_yy = y, dp_width = 16 + ucast y, dp_tmp = 0\<rparr>"
  obtain d u where d: "draw_chars flash mode L str (d0, s) = (d, u)" by fastforce
  define e :: u16 where "e = push_bit 3 L + ucast x"
  define xx x2 where "xx = (if e \<ge> ucast SCR_WIDTH then 0 else x)" and "x2 = (if e \<ge> ucast SCR_WIDTH then SCR_WIDTH else (ucast e :: u8))"
  have y: "unat y < 64" using assms(2) by (simp add: word_less_nat_alt)
  have u8: "unat (ucast x :: u16) = unat x" "unat (ucast y :: u16) = unat y" using unat_8_le[of x] unat_8_le[of y] by (simp_all add: unsigned_ucast_eq take_bit_eq_mod)
  have e8: "unat e = 8 * unat L + unat x"
    using L assms(4) unat_8_le[of x] u8 by (simp add: e_def push_bit_eq_mult unat_word_ariths)
  have paint: "LcdPaintScreen xx y x2 (ucast (dp_width d)) u = Some t"
    using assms(1) d unfolding DrawStr_def Let_def L_def[symmetric] d0_def[symmetric] e_def[symmetric] by (auto simp: xx_def x2_def split: if_splits)
  have at: "text_at (unat x) (unat y) (unat L) d0"
    using y L assms(4) u8 by (simp add: text_at_def d0_def unat_word_ariths)
  have w: "inside s u (text_area (unat x) (unat y) (unat L) (unat (dp_width d))) \<and> unat (dp_width d) < 80"
  proof (cases str)
    case Nil
    then show ?thesis using d at by (auto simp: inside_refl text_at_def)
  next
    case Cons
    have "unat (dp_tmp d0) < unat L" using L assms(3) Cons by (auto simp: d0_def word_less_nat_alt)
    moreover have "whole_text (take (unat L - unat (dp_tmp d0)) str)" using assms(5) L by (simp add: d0_def min_def split: if_splits)
    ultimately show ?thesis using draw_chars_inside[OF d at] by blast
  qed
  show ?thesis
  proof (rule show_good[OF conjunct1[OF w] paint])
    fix a b assume o: "on_screen a b" and a: "text_area (unat x) (unat y) (unat L) (unat (dp_width d)) a b"
    have dw: "unat (ucast (dp_width d) :: u8) = unat (dp_width d)" using w by (simp add: unsigned_ucast_eq take_bit_eq_mod)
    have "unat y \<le> b" "b \<le> unat (ucast (dp_width d) :: u8)" using a dw by (simp_all add: text_area_def)
    then have rows: "unat y div 8 \<le> b div 8" "b div 8 \<le> unat (ucast (dp_width d) :: u8) div 8" "y \<le> ucast (dp_width d)"
      by (simp_all add: div_le_mono word_le_nat_alt)
    have "unat xx \<le> a \<and> a \<le> unat x2"
    proof (cases "e \<ge> ucast SCR_WIDTH")
      case True
      then show ?thesis using o by (simp add: xx_def x2_def on_screen_def)
    next
      case False
      then have "unat e < 132" by (simp add: word_le_nat_alt)
      moreover from this have "unat (ucast e :: u8) = unat e" by (simp add: unsigned_ucast_eq take_bit_eq_mod)
      ultimately show ?thesis using a e8 False by (simp add: xx_def x2_def text_area_def)
    qed
    with rows show "in_bytes xx y x2 (ucast (dp_width d)) (b div 8) a" by (simp add: in_bytes_def)
  qed
qed

lemma emit_good: "e \<in> {FlashLcdBackLight, SysAutoRunCountReset, LZM_SetAlarm time} \<Longrightarrow> good_step P p0 s (emit e s)"
  by (auto simp: good_step_def saved_same_def emit_def in_sync_def shown_def panel_step_def)

lemma draw_good: "lcd_draw flash s t \<Longrightarrow> good_step P p0 s t"
proof (induction rule: lcd_draw.induct)
  case (clear_screen s)
  show ?case unfolding LcdClearScreen_writes by (rule write_good[OF byte_sources(1)])
next
  case (clear_area x1 y1 x2 y2 s t)
  then show ?case unfolding LcdClearArea_def by (rule show_rect_good) (rule fill_inside)
next
  case (copy_area x1 y1 width height x2 y2 s t)
  show ?case using copy_area(1) unfolding LcdCopyArea_def by (rule show_rect_good) (rule copy_inside[OF _ copy_area(2,3)])
next
  case (ver_line x y1 y2 mode s t)
  then show ?case unfolding LcdShowVerLine_def by (rule show_rect_good) (rule ver_line_inside)
next
  case (hor_line x1 x2 y mode s t)
  then show ?case unfolding LcdShowHorLine_def by (rule show_rect_good) (rule hor_line_inside)
next
  case (reverse_bar x1 y1 x2 y2 s t)
  then show ?case unfolding LcdReverseBar_def by (rule show_rect_good) (rule reverse_inside)
qed (blast intro: rect_good window_good pic_good string_good emit_good)+

lemma draws_good: "(lcd_draw flash)\<^sup>*\<^sup>* s t \<Longrightarrow> good_step P p0 s t"
proof (induction rule: rtranclp_induct)
  case base
  show ?case by (simp add: good_step_def saved_same_def)
next
  case (step t u)
  show ?case by (rule good_trans[OF step.IH draw_good[OF step.hyps(2)]])
qed

subsection \<open>Saving and restoring the screen\<close>

lemma copy_cells:
  fixes s :: gdi
  shows
  "for_below (\<lambda>i. for_below (\<lambda>j s. s\<lparr>ScrCpy := (ScrCpy s)(unat i := (ScrCpy s (unat i))(unat j := ScrBuf s (unat i) (unat j)))\<rparr>) 132) 8 s
    = s\<lparr>ScrCpy := \<lambda>p x. if p < 8 \<and> x < 132 then ScrBuf s p x else ScrCpy s p x\<rparr>"
proof -
  have row: "fold (\<lambda>j s. s\<lparr>ScrCpy := (ScrCpy s)(i := (ScrCpy s i)(unat (word_of_nat j :: u8) := ScrBuf s i (unat (word_of_nat j :: u8))))\<rparr>) [0..<n] s
      = s\<lparr>ScrCpy := \<lambda>p x. if p = i \<and> x < n then ScrBuf s p x else ScrCpy s p x\<rparr>" if "n \<le> 132" for i n and s :: gdi
    using that
  proof (induction n)
    case (Suc n)
    then have "unat (word_of_nat n :: u8) = n" by (intro unat_of_nat_8) simp
    then show ?case using Suc by simp (auto simp: fun_eq_iff less_Suc_eq)
  qed simp
  have "fold (\<lambda>i. for_below (\<lambda>j s. s\<lparr>ScrCpy := (ScrCpy s)(unat (word_of_nat i :: u8) := (ScrCpy s (unat (word_of_nat i :: u8)))(unat j := ScrBuf s (unat (word_of_nat i :: u8)) (unat j)))\<rparr>) 132) [0..<n] s
      = s\<lparr>ScrCpy := \<lambda>p x. if p < n \<and> x < 132 then ScrBuf s p x else ScrCpy s p x\<rparr>" if "n \<le> 8" for n
    using that
  proof (induction n)
    case (Suc n)
    then have n: "unat (word_of_nat n :: u8) = n" by (intro unat_of_nat_8) simp
    have r: "for_below (\<lambda>j s. s\<lparr>ScrCpy := (ScrCpy s)(n := (ScrCpy s n)(unat j := ScrBuf s n (unat j)))\<rparr>) 132 t
        = t\<lparr>ScrCpy := \<lambda>p x. if p = n \<and> x < 132 then ScrBuf t p x else ScrCpy t p x\<rparr>" for t :: gdi
      using row[of 132 n t] by (simp add: for_below_def del: upt_rec_numeral upt_Suc)
    have u: "[0..<Suc n] = [0..<n] @ [n]" by simp
    show ?case unfolding u fold_append comp_def Suc.IH[OF Suc_leD[OF Suc.prems]]
      by (simp only: fold_simps n r) (auto simp: fun_eq_iff less_Suc_eq)
  qed simp
  from this[of 8] show ?thesis unfolding for_below_def[of _ 8] by (simp del: upt_rec_numeral upt_Suc)
qed

lemma LcdCopyScreen_saves:
  "LcdCopyScreen s = s\<lparr>LcdCopyFlag := 0x55, displayCtrlFlag := 1, ScrCpy := \<lambda>p x. if p < 8 \<and> x < 132 then ScrBuf s p x else ScrCpy s p x\<rparr>"
  by (simp add: LcdCopyScreen_def copy_cells SetLcdCopyFlag_def cong: if_cong)

lemma copy_in_sync: "in_sync P p0 s \<Longrightarrow> in_sync P p0 (LcdCopyScreen s)"
  by (simp add: LcdCopyScreen_saves in_sync_def shown_def)

lemma paste_in_sync: "panel_ok P \<Longrightarrow> in_sync P p0 s \<Longrightarrow> in_sync P p0 (LcdPasteScreen s)"
  using write_good[OF byte_sources(2), of P p0 "ClearLcdCopyFlag s"]
  by (auto simp: LcdPasteScreen_writes good_step_def in_sync_def shown_def ClearLcdCopyFlag_def)

lemma call_in_sync: "panel_ok P \<Longrightarrow> lcd_call flash s t \<Longrightarrow> in_sync P p0 s \<Longrightarrow> in_sync P p0 t"
  by (erule lcd_call.cases) (use draw_good[of flash s t P p0] copy_in_sync paste_in_sync in \<open>auto simp: good_step_def\<close>)

lemma paste_saved:
  assumes "saved_same (LcdCopyScreen s) t"
  shows "p < 8 \<Longrightarrow> x < 132 \<Longrightarrow> ScrBuf (LcdPasteScreen t) p x = ScrBuf s p x" "\<not> GetLcdCopyFlag (LcdPasteScreen t)"
proof -
  have f: "GetLcdCopyFlag t" "ScrCpy t = (\<lambda>p x. if p < 8 \<and> x < 132 then ScrBuf s p x else ScrCpy s p x)"
    using assms by (simp_all add: saved_same_def LcdCopyScreen_saves GetLcdCopyFlag_def)
  obtain e where "write_panel ScrCpy (ClearLcdCopyFlag t) = (ClearLcdCopyFlag t)\<lparr>ScrBuf := \<lambda>p x. if p < 8 \<and> x < 132 then ScrCpy (ClearLcdCopyFlag t) p x else ScrBuf (ClearLcdCopyFlag t) p x, events := e\<rparr>"
    by (rule write_panel_in_sync[OF sim_panel_ok byte_sources(2), of "ClearLcdCopyFlag t" undefined])
  then have e: "LcdPasteScreen t = (ClearLcdCopyFlag t)\<lparr>ScrBuf := \<lambda>p x. if p < 8 \<and> x < 132 then ScrCpy t p x else ScrBuf t p x, events := e\<rparr>"
    using f(1) by (simp add: LcdPasteScreen_writes ClearLcdCopyFlag_def cong: if_cong)
  show "ScrBuf (LcdPasteScreen t) p x = ScrBuf s p x" if "p < 8" "x < 132" using that by (simp add: e f(2))
  show "\<not> GetLcdCopyFlag (LcdPasteScreen t)" by (simp add: e GetLcdCopyFlag_def ClearLcdCopyFlag_def)
qed

end
