(* ===== verification/Gdi_Theorems.thy ===== *)
theory Gdi_Theorems
  imports App_GdiCalls
begin

text \<open>Properties of the graphics of the panel.\<close>

subsection \<open>Messages\<close>







subsection \<open>The properties\<close>

definition blank_screen :: gdi where
  "blank_screen = \<lparr>ScrBuf = \<lambda>_ _. 0, ScrCpy = \<lambda>_ _. 0, LcdCopyFlag = 0, displayCtrlFlag = 0, Dot = 0, events = []\<rparr>"






text \<open>C39. For every choice of the coordinates \<open>DrawRect\<close> returns, and changes the pixels of the frame of the clipped rectangle and no others,
  each once: set, inverted where the mode asks for XOR, or every second one of a broken line.\<close>

theorem rect_draws_frame:
  "\<exists>t. DrawRect x1 y1 x2 y2 mode s = Some t
    \<and> (\<forall>a b. pixel t a b = (if in_frame x1 y1 x2 y2 a b then frame_pixel mode x1 y1 x2 y2 a b (pixel s a b) else pixel s a b))"
  by (rule drawnE[OF rect_drawn, where s = s]) blast

text \<open>C40. \<open>FillArea\<close> returns if and only if its loops do not run up to 255: a right edge of 255 never ends, and neither does a lower edge of 255
  unless the area is empty.\<close>

theorem fill_area_returns: "FillArea x1 y1 x2 y2 color s = None \<longleftrightarrow> x2 = 255 \<or> y2 = 255 \<and> x1 \<le> x2"
proof (cases "x2 = 255 \<or> y2 = 255 \<and> x1 \<le> x2")
  case True
  have "FillArea x1 y1 x2 y2 color s = None"
  proof (cases "x2 = 255")
    case True
    then show ?thesis by (simp add: FillArea_def for_u8_endless)
  next
    case False
    with \<open>x2 = 255 \<or> y2 = 255 \<and> x1 \<le> x2\<close> have y: "y2 = 255" "x1 \<le> x2" by auto
    show ?thesis unfolding FillArea_def by (subst for_u8.simps) (simp add: y for_u8_endless)
  qed
  with True show ?thesis by simp
next
  case False
  have "FillArea x1 y1 x2 y2 color s \<noteq> None"
  proof (cases "x1 \<le> x2")
    case True
    with False have "x2 < 255" "y2 < 255" using unat_8_le[of x2] unat_8_le[of y2] by (auto simp: word_less_nat_alt word_unat_eq_iff)
    from fill_drawn[OF this, of x1 y1 color] show ?thesis by (rule drawnE[where s = s]) simp
  next
    case no: False
    then show ?thesis unfolding FillArea_def by (subst for_u8.simps) simp
  qed
  with False show ?thesis by blast
qed

text \<open>A frame drawn with XOR is taken away by drawing it again, whatever is below it.\<close>

theorem xor_rect_restores:
  assumes "mode AND 0x0F \<noteq> 0"
  shows "\<exists>t. DrawRect x1 y1 x2 y2 mode s \<bind> DrawRect x1 y1 x2 y2 mode = Some t \<and> (\<forall>a b. pixel t a b = pixel s a b)"
proof -
  obtain t where t: "DrawRect x1 y1 x2 y2 mode s = Some t"
    "\<And>a b. pixel t a b = (if in_frame x1 y1 x2 y2 a b then frame_pixel mode x1 y1 x2 y2 a b (pixel s a b) else pixel s a b)"
    by (rule drawnE[OF rect_drawn, where s = s]) blast
  obtain u where u: "DrawRect x1 y1 x2 y2 mode t = Some u"
    "\<And>a b. pixel u a b = (if in_frame x1 y1 x2 y2 a b then frame_pixel mode x1 y1 x2 y2 a b (pixel t a b) else pixel t a b)"
    by (rule drawnE[OF rect_drawn, where s = t]) blast
  have "frame_pixel mode x1 y1 x2 y2 a b p = (\<not> p)" for a b p using assms by (simp add: frame_pixel_def line_pixel_def)
  with t u show ?thesis by simp
qed

theorem xor_rect_restores_witness:
  "\<exists>t. DrawRect 2 3 140 9 1 blank_screen \<bind> DrawRect 2 3 140 9 1 = Some t \<and> (\<forall>a b. pixel t a b = False)"
  using xor_rect_restores[of 1 2 3 140 9 blank_screen] by (simp add: blank_screen_def pixel_def)

end
