(* ===== verification/Spec2Isabelle.thy ===== *)
theory Spec2Isabelle
  imports System_Theorems Kernel_Theorems Comm_Theorems Memory_Theorems App_Theorems
    Driver_Theorems Public_Theorems Param_Theorems Fram_Theorems Io_Theorems Text_Theorems MemHeap_Theorems Gdi_Theorems
begin

text \<open>
  A verification development for the STM32F10x firmware of this repository: the RT-Thread 3.1.0 kernel it runs on
  (\<open>src/base_kernel/rt-thread\<close>) and the part of the application (\<open>src/User\<close>) that is program logic and not
  register access.

  THE PROGRAM. The kernel schedules threads by priority. A thread, a timer and every object threads wait for
  starts with a \<open>struct rt_object\<close> (\<open>object.c\<close>); a thread is linked by one list node into the ready list of its
  priority, the waiting list of an object or the list of dead threads (\<open>scheduler.c\<close>, \<open>thread.c\<close>, \<open>idle.c\<close>).
  A wait with a time limit starts the timer of the thread; the clock interrupt counts the slice of the running
  thread and fires the timers that are due (\<open>clock.c\<close>, \<open>timer.c\<close>). Semaphores, mutexes, events, mailboxes and message
  queues (\<open>ipc.c\<close>) and memory pools (\<open>mempool.c\<close>) suspend and resume threads through the same few operations.
  \<open>mem.c\<close> is the heap (\<open>memheap.c\<close> the alternative, with several pools), \<open>ringbuffer.c\<close> the byte buffer of the drivers. The application hangs its periodic work on the idle
  hook, which mails due tasks to a task thread, which runs them and reports to a watchdog thread through an event
  (\<open>main.c\<close>, \<open>taskschedule.c\<close>, \<open>WDogManage.c\<close>); it keeps byte queues (\<open>queue.c\<close>, \<open>Public.c\<close>), software timers
  driven by hardware interrupts (\<open>ApiTimer.c\<close>), a calendar over the counter of the real-time clock (\<open>rtc.c\<close>), conversions
  and time ranges (\<open>Public.c\<close>), its parameters in an EEPROM (\<open>EepromPram.c\<close>) and running values in an FRAM
  (\<open>fm25c160.c\<close>), and draws its screens into a buffer that it paints on a panel (\<open>Gdi.c\<close>). The driver framework adds completions, data queues, work queues and wait queues
  (\<open>components/drivers/src\<close>), which suspend and resume threads like the kernel's own objects.

  THE MODEL. Kernel state is one record (\<open>RT_Kernel.kernel\<close>), passed and returned; \<open>None\<close> is a call that does not
  return (a failed \<open>RT_ASSERT\<close>, which spins, a null pointer, an endless loop). Integers that wrap are words of
  their width. Loops that may not end are partial functions, and that they end is proved. A call that gives up
  the processor is cut there: it returns \<open>Wait\<close>, and what it does when the thread runs again is a definition
  of its own (\<open>..._resume\<close>, or the loop's round). The critical sections of the code are the atomic steps.

  THE THEORIES.
  \<^item> \<open>RT_Prelude\<close>: widths, error codes and flags of \<open>rtdef.h\<close>, generic facts on words, maps and lists.
  \<^item> \<open>RT_List\<close>: the intrusive lists of \<open>rtservice.h\<close>, store by store on a heap of pointers, and their refinement of
    abstract lists; the kernel theories use the abstract lists. \<open>RT_KService\<close>: \<open>__rt_ffs\<close> of \<open>kservice.c\<close>.
  \<^item> \<open>RT_Kernel\<close>: the objects and the state. \<open>RT_Scheduler\<close>: \<open>scheduler.c\<close>; \<open>ready_inv\<close> ties ready lists,
    bitmap and thread states together, and \<open>rt_schedule\<close> runs the most urgent thread. \<open>RT_Object\<close>: \<open>object.c\<close>.
    \<open>RT_Timer\<close>: \<open>timer.c\<close>, the list of running timers in the order they fall due, with wrap-around of the
    tick. \<open>RT_Thread\<close>: \<open>thread.c\<close> and the kernel invariant \<open>kinv\<close> every operation keeps. \<open>RT_Clock\<close>:
    \<open>clock.c\<close>, the expiry loop, \<open>irq.c\<close>, the reaping of \<open>idle.c\<close>. \<open>RT_Ticks\<close>: runs of clock interrupts.
  \<^item> \<open>RT_Ipc\<close>: waiting lists and bounded waits; \<open>RT_Sem\<close>, \<open>RT_Mutex\<close>, \<open>RT_Event\<close>, \<open>RT_Mailbox\<close>, \<open>RT_Mq\<close>: one
    object of \<open>ipc.c\<close> each, with its invariant and the behaviour of each call on every branch.
  \<^item> \<open>RT_System\<close>: the kernel at work, a step relation over kernel calls and interrupts, its invariant and progress.
  \<^item> \<open>RT_Fifo\<close>, \<open>RT_Alloc\<close>: the contracts of a bounded queue and of an allocator, as locales with runs of operations.
    They are interpreted by the mailbox ring, the two byte queues, the pools and the heap (\<open>RT_Mailbox\<close>,
    \<open>RT_RingBuffer\<close>, \<open>Cir_Queue\<close>, \<open>RT_Mempool\<close>, \<open>RT_Mem\<close>, \<open>RT_MemHeapRuns\<close>). \<open>RT_Ring\<close>: block copies around the end of a buffer.
  \<^item> \<open>RT_Mempool\<close>: \<open>mempool.c\<close>. \<open>RT_Mem\<close>: \<open>mem.c\<close>, headers in a map over byte offsets, refined to the sequence of
    blocks. \<open>RT_RingBuffer\<close>: \<open>ringbuffer.c\<close>. \<open>Cir_Queue\<close>: \<open>queue.c\<close>.
  \<^item> \<open>RT_MemHeap\<close>: \<open>memheap.c\<close>, items in two rings of pointers; \<open>RT_MemHeapInv\<close>, \<open>RT_MemHeapOps\<close>, \<open>RT_MemHeapFree\<close>, \<open>RT_MemHeapRuns\<close>,
    \<open>RT_MemHeapRealloc\<close>: the lists they stand for, what each call does to them, and the heaps as allocators.
  \<^item> \<open>RT_String\<close>, \<open>RT_Printf\<close>: the memory, string and output functions of \<open>kservice.c\<close>, on a memory of bytes;
    \<open>RT_PrintfText\<close>: the text a format stands for, and that the output loop writes it.
  \<^item> \<open>App_Task\<close>: task scheduler and watchdog, on top of the mailbox and the event. \<open>App_Timer\<close>: \<open>ApiTimer.c\<close>, its two
    tables through the locale \<open>timer_table\<close>. \<open>App_Rtc\<close>: the calendar of \<open>rtc.c\<close>. \<open>App_LzmQueue\<close>, \<open>App_Bytes\<close>,
    \<open>App_Public\<close>: the queue, the conversions, the timers and the time ranges of \<open>Public.c\<close>.
  \<^item> \<open>RT_Completion\<close>, \<open>RT_DataQueue\<close>, \<open>RT_WorkQueue\<close>, \<open>RT_WaitQueue\<close>: \<open>completion.c\<close>, \<open>dataqueue.c\<close>, \<open>workqueue.c\<close>, \<open>waitqueue.c\<close>,
    on top of the threads and the semaphore.
  \<^item> \<open>App_Store\<close>: a memory of bytes with things stored in it, and the locale \<open>byte_store\<close>: things that lie apart keep what was
    written last. \<open>App_E2Tables\<close>: the tables of the 438 parameters, and that all but four pairs lie apart.
    \<open>App_E2Param\<close>, \<open>App_E2Runs\<close>, \<open>App_E2Defaults\<close>: writing and reading a parameter, sequences of writes
    (the first interpretation of \<open>byte_store\<close>) and the factory settings. \<open>App_Fram\<close>: \<open>fm25c160.c\<close> (the second).
  \<^item> \<open>App_IoWords\<close>, \<open>App_IoDetect\<close>: \<open>Io.c\<close>, its words of bits and its periodic detection. \<open>App_IoDebounce\<close>: the contract of a debounced
    input (locale \<open>debouncer\<close>, interpreted on five functions) against a reference over the history of samples. \<open>App_IoState\<close>: the
    words with several users (locale \<open>shared_switch\<close>), the power alarms. \<open>App_IoRun\<close>: runs with restarts, and what
    the memory and the FRAM agree on in all of them.
  \<^item> \<open>App_Gdi\<close>, \<open>App_GdiShow\<close>: \<open>Gdi.c\<close>, the buffer of pixels and the calls that draw and paint, with the functions of \<open>lcd_driver.C\<close> they use.
    \<open>App_GdiPixels\<close>, \<open>App_GdiDraw\<close>: the buffer as a bitmap, and the pixels each drawing function changes. \<open>App_GdiPanel\<close>:
    the panel behind the commands, and what a painted area shows. \<open>App_GdiSync\<close>, \<open>App_GdiText\<close>, \<open>App_GdiSteps\<close>, \<open>App_GdiCalls\<close>:
    every call paints what it draws; text by characters and lines, the whole screen, saved screens, and the calls as steps.
  \<^item> \<open>RT_Demo\<close>: a small kernel state for witnesses. \<open>System_Theorems\<close>, \<open>Kernel_Theorems\<close>, \<open>Comm_Theorems\<close>,
    \<open>Memory_Theorems\<close>, \<open>App_Theorems\<close>, \<open>Driver_Theorems\<close>, \<open>Public_Theorems\<close>, \<open>Param_Theorems\<close>, \<open>Fram_Theorems\<close>, \<open>Io_Theorems\<close>,
    \<open>Text_Theorems\<close>, \<open>MemHeap_Theorems\<close>, \<open>Gdi_Theorems\<close>:
    the properties, numbered, each with a witness where it has hypotheses.

  WHAT IS SHOWN. Of the kernel at work: in every reachable state the unique most urgent ready thread runs, no available semaphore
  has a waiter and no wait is overdue, and no allowed call fails an assertion or hangs. Of the calls: what
  they do on each branch, whom they wake, which errors they return; priority inheritance of mutexes; the exact
  tick a sleep ends; that the clock interrupt returns. Of the data structures: first-in first-out order, exclusive blocks, first fit and
  coalescing, resized blocks that keep their bytes, round trips. Of the application: the watchdog is fed only after all tasks have run, due tasks are mailed in
  order, timers fire at their length, dates and counters are converted back and forth, a completion wakes its waiter in
  either order, an emergency outlives a restart, inputs are debounced, parameters and areas are read with what was written to them last, and the factory settings with their
  values. Of the services: block copies at any overlap, the first occurrence of a string, the text of a format cut to its buffer, and decimal numbers
  read back. Of the screen: the panel shows the buffer after any sequence of calls, a message goes away without a trace, frames are exactly
  the pixels they should be. Some properties show that the
  code does not do what it means to: lost waits of pools after a time-out, wrapped allocation sizes, an
  overwriting put that empties its buffer, a timer mode that does not fit its bit field, a period that passes the wrap
  of the tick, a range check of the clock that is 42 years too wide, a data queue that overruns when its indices wrap, parameters that
  overlap, areas of zeros that cannot be read, a size of 0 that limits nothing, counters of a byte that never pass 255.

  CONFIGURATION AND BOUNDS. \<open>rtconfig.h\<close> is not readable in the repository; the model takes the values
  the sources default to or the code needs: at most 32 priorities, one skip-list level, 4-byte alignment, names of 8 bytes, \<open>RT_DEBUG\<close>
  and \<open>RT_PRINTF_PRECISION\<close> on, a console buffer of 128 bytes, no modules, light-weight processes, signals or software-timer thread, hooks null. No fuel is used. Time-outs
  are below \<open>0x7FFFFFFF\<close> ticks, which \<open>rt_timer_start\<close> asserts.

  PARAMETERS. What the model does not contain is an argument: the memory a created object gets from the heap, the timeout
  functions of the application (\<open>app\<close>, with the contract \<open>app_ok\<close> where they run in the clock interrupt), the callbacks and
  tasks of the application and what other threads do while a caller is preempted, the function of a work,
  the pins and converters (\<open>io_env\<close>), the flash
  library under the EEPROM (\<open>sfud\<close>, with the contract \<open>e2_chip\<close>, a memory of 4096 bytes) and the serial bus with the FRAM
  (\<open>spi_bus\<close>, with the contract \<open>fram_chip\<close>, the command set of the chip), the fonts in the flash (\<open>flash\<close>) and the controller of the panel
  (\<open>panel\<close>, with the contract \<open>panel_ok\<close>, its cursor and its data). The contracts are satisfied by concrete chips
  in the witnesses.

  NOT MODELLED. Register-level drivers, the processor port, start-up code, the console device; the device
  framework; \<open>signal.c\<close>, \<open>module.c\<close> and \<open>slab.c\<close>, which the firmware does not build; the vendored file
  systems, network stacks, shell and libraries; the factory tests, the contents of the screens, \<open>LcdShowCaptionEx\<close> and the pins of the panel, the speech of the application, and its protocol-level access to the
  parameters, which calls most other modules. The contents
  of thread stacks and the time a call takes are not part of the state. The step relation of \<open>RT_System\<close> covers
  semaphores, sleeping, yielding and the clock; the other objects are covered call by call.
\<close>

end
